(* ===== verification/Prelude.thy ===== *)
theory Prelude
  imports Main "HOL-Library.List_Lexorder" "HOL-Library.Char_ord"
begin

section \<open>Shared vocabulary and automation\<close>

text \<open>
  What every component of the development uses: the JavaScript primitives the front end relies
  on (array indexing that yields \<open>undefined\<close> out of range, the truncating remainder, decimal
  text), the two shapes of binary search the code repeats, and a locale that turns
  ``this table is sorted by this key'' into the specification of both searches.

  JavaScript numbers that hold indices, counts and whole milliseconds are \<open>int\<close> or \<open>nat\<close>;
  they stay far below \<open>2 ^ 53\<close>, where doubles are exact.
\<close>

named_theorems axis_simps "unfolding rules for the session and virtual axis operations"
named_theorems store_defs "definitions of the store handlers"
named_theorems inv_intros "introduction rules for component invariants"

type_synonym ms = int

abbreviation day_ms :: int where "day_ms \<equiv> 86400000"
abbreviation hour_ms :: int where "hour_ms \<equiv> 3600000"
abbreviation minute_ms :: int where "minute_ms \<equiv> 60000"

subsection \<open>Array indexing\<close>

definition js_at :: "'a list \<Rightarrow> int \<Rightarrow> 'a option" where
  "js_at xs i = (if 0 \<le> i \<and> i < int (length xs) then Some (xs ! nat i) else None)"

lemma js_at_nat [simp]: "js_at xs (int i) = (if i < length xs then Some (xs ! i) else None)"
  by (simp add: js_at_def)

lemma js_at_Suc: "js_at xs (int i + 1) = (if Suc i < length xs then Some (xs ! Suc i) else None)"
  using js_at_nat [of xs "Suc i"] by (simp add: add.commute)

lemma js_at_neg [simp]: "i < 0 \<Longrightarrow> js_at xs i = None"
  by (simp add: js_at_def)

lemma js_at_Some_iff: "js_at xs i = Some x \<longleftrightarrow> (\<exists>k < length xs. i = int k \<and> x = xs ! k)"
  by (auto simp: js_at_def intro!: exI [of _ "nat i"])

subsection \<open>Remainder\<close>

text \<open>The operator \<open>%\<close> truncates towards zero: its result has the sign of the dividend.\<close>

definition js_rem :: "int \<Rightarrow> int \<Rightarrow> int" where
  "js_rem a b = (if a < 0 then - ((- a) mod b) else a mod b)"

text \<open>The idiom \<open>((x % m) + m) % m\<close> of the code is the Euclidean remainder.\<close>

lemma js_rem_wrap [simp]:
  assumes "0 < b"
  shows "js_rem (js_rem a b + b) b = a mod b"
proof (cases "a < 0")
  case True
  have "(- a) mod b < b" using assms by simp
  then have nonneg: "0 \<le> - ((- a) mod b) + b" by simp
  have "(- ((- a) mod b) + b) mod b = a mod b"
    by (metis add.inverse_inverse mod_add_self2 mod_minus_eq)
  then show ?thesis using True nonneg by (simp add: js_rem_def)
next
  case False
  then show ?thesis using assms pos_mod_sign [OF assms, of a] by (simp add: js_rem_def)
qed

subsection \<open>Multiples\<close>

text \<open>Rounding an integer down and up to a multiple: \<open>Math.floor(c / t) * t\<close>, \<open>Math.ceil(c / t) * t\<close>.\<close>

lemma multiple_below:
  fixes t c q :: int
  assumes "0 < t" "t dvd q" "q \<le> c"
  shows "q \<le> c div t * t"
proof -
  have "q div t \<le> c div t" using assms by (simp add: zdiv_mono1)
  then have "q div t * t \<le> c div t * t" using assms(1) by (simp add: mult_right_mono)
  then show ?thesis using assms(2) by simp
qed

lemma multiple_above:
  fixes t c q :: int
  assumes "0 < t" "t dvd q" "c \<le> q"
  shows "- ((- c) div t) * t \<le> q"
  using multiple_below [of t "- q" "- c"] assms by simp

lemma round_to_multiple:
  fixes t c :: int
  assumes "0 < t"
  shows "c div t * t \<le> c" "c \<le> - ((- c) div t) * t"
  using div_mult_mod_eq [of c t] div_mult_mod_eq [of "- c" t] pos_mod_sign [OF assms, of c] pos_mod_sign [OF assms, of "- c"]
  by linarith+

subsection \<open>Decimal text\<close>

definition digit_char :: "nat \<Rightarrow> char" where
  "digit_char d = char_of (48 + d)"

fun nat_text :: "nat \<Rightarrow> string" where
  "nat_text n = (if n < 10 then [digit_char n] else nat_text (n div 10) @ [digit_char (n mod 10)])"

declare nat_text.simps [simp del]

definition int_text :: "int \<Rightarrow> string" where
  "int_text i = (if i < 0 then CHR ''-'' # nat_text (nat (- i)) else nat_text (nat i))"

text \<open>\<open>String(n).padStart(2, '0')\<close>.\<close>

definition pad2 :: "int \<Rightarrow> string" where
  "pad2 i = (let t = int_text i in replicate (2 - length t) CHR ''0'' @ t)"

definition is_digit :: "char \<Rightarrow> bool" where
  "is_digit c \<longleftrightarrow> 48 \<le> (of_char c :: nat) \<and> (of_char c :: nat) \<le> 57"

text \<open>
  \<open>Number(text)\<close> on the slices of \<open>YYYYMMDD\<close> strings the code hands it: digits give their value,
  the empty slice gives 0, anything else is \<open>NaN\<close> (here \<open>None\<close>).
\<close>

definition js_number :: "string \<Rightarrow> int option" where
  "js_number s = (if list_all is_digit s
     then Some (foldl (\<lambda>acc c. acc * 10 + (int (of_char c :: nat) - 48)) 0 s) else None)"

definition js_slice :: "'a list \<Rightarrow> nat \<Rightarrow> nat \<Rightarrow> 'a list" where
  "js_slice xs a b = drop a (take b xs)"

lemma is_digit_digit_char [simp]: "d < 10 \<Longrightarrow> is_digit (digit_char d)"
  by (simp add: is_digit_def digit_char_def)

lemma digits_nat_text: "list_all is_digit (nat_text n)"
  by (induction n rule: nat_text.induct) (subst nat_text.simps, simp)

lemma nat_text_nonempty [simp]: "nat_text n \<noteq> []"
  by (subst nat_text.simps) simp

lemma js_number_snoc:
  "d < 10 \<Longrightarrow> js_number (s @ [digit_char d]) = map_option (\<lambda>v. v * 10 + int d) (js_number s)"
  by (simp add: js_number_def digit_char_def is_digit_def)

lemma js_number_nat_text: "js_number (nat_text n) = Some (int n)"
proof (induction n rule: nat_text.induct)
  case (1 n)
  show ?case
  proof (cases "n < 10")
    case True
    then show ?thesis
      using js_number_snoc [of n "[]"] by (subst nat_text.simps) (simp add: js_number_def)
  next
    case False
    then show ?thesis
      using 1 by (subst nat_text.simps) (simp add: js_number_snoc zdiv_int zmod_int)
  qed
qed

lemma nat_text_inject [simp]: "nat_text m = nat_text n \<longleftrightarrow> m = n"
  by (metis js_number_nat_text of_nat_eq_iff option.inject)

text \<open>Text as a list of UTF-16 code units, joined and trimmed.\<close>

type_synonym js_text = "nat list"

fun join_text :: "js_text \<Rightarrow> js_text list \<Rightarrow> js_text" where
  "join_text sep [] = []"
| "join_text sep [x] = x"
| "join_text sep (x # xs) = x @ sep @ join_text sep xs"

definition is_space :: "nat \<Rightarrow> bool" where
  "is_space c \<longleftrightarrow> c \<in> {9, 10, 11, 12, 13, 32, 160, 5760, 8232, 8233, 8239, 8287, 12288, 65279}
     \<or> 8192 \<le> c \<and> c \<le> 8202"

definition trim_text :: "js_text \<Rightarrow> js_text" where
  "trim_text s = rev (dropWhile is_space (rev (dropWhile is_space s)))"

text \<open>A predicate that holds exactly on a range of positions selects a slice.\<close>

lemma filter_window:
  assumes "a \<le> b" "b \<le> length xs" "\<And>i. i < length xs \<Longrightarrow> P (xs ! i) \<longleftrightarrow> a \<le> i \<and> i < b"
  shows "filter P xs = drop a (take b xs)"
proof -
  have split: "xs = take a xs @ drop a (take b xs) @ drop b xs"
    using assms(1) by (metis append_take_drop_id take_take min.absorb1 append_assoc)
  have "filter P (take a xs) = []" using assms by (auto simp: filter_empty_conv in_set_conv_nth)
  moreover have "filter P (drop b xs) = []" using assms by (auto simp: filter_empty_conv in_set_conv_nth)
  moreover have "filter P (drop a (take b xs)) = drop a (take b xs)"
    using assms by (auto simp: filter_id_conv in_set_conv_nth)
  ultimately have "filter P (take a xs @ drop a (take b xs) @ drop b xs) = drop a (take b xs)"
    by (simp only: filter_append append_Nil append_Nil2)
  then show ?thesis using split by simp
qed

text \<open>\<open>[...new Set(xs)]\<close>: the first occurrences, in order.\<close>

fun unique :: "'a list \<Rightarrow> 'a list" where
  "unique [] = []"
| "unique (x # xs) = x # unique (filter (\<lambda>y. y \<noteq> x) xs)"

lemma unique_subset: "set (unique xs) \<subseteq> set xs"
  by (induction xs rule: unique.induct) auto

lemma set_unique [simp]: "set (unique xs) = set xs"
  by (induction xs rule: unique.induct) auto

lemma unique_distinct: "distinct (unique xs)"
  by (induction xs rule: unique.induct) (use unique_subset in fastforce)+

lemma unique_of_distinct: "distinct xs \<Longrightarrow> unique xs = xs"
  by (induction xs rule: unique.induct) (auto simp: filter_id_conv)

subsection \<open>The two binary searches\<close>

text \<open>
  Shape one, \<open>while (lo <= hi)\<close>: the last index in \<open>[lo, hi]\<close> that satisfies a predicate, or the
  default \<open>ans\<close>. The code writes \<open>mid = (lo + hi) >>> 1\<close>.
\<close>

function last_sat :: "(int \<Rightarrow> bool) \<Rightarrow> int \<Rightarrow> int \<Rightarrow> int \<Rightarrow> int" where
  "last_sat p lo hi ans =
     (if lo \<le> hi
      then let mid = (lo + hi) div 2
           in if p mid then last_sat p (mid + 1) hi mid else last_sat p lo (mid - 1) ans
      else ans)"
  by pat_completeness auto
termination
  by (relation "measure (\<lambda>(p, lo, hi, ans). nat (hi - lo + 1))") auto

declare last_sat.simps [simp del]

text \<open>Shape two, \<open>while (lo < hi)\<close>: the first index in \<open>[lo, hi)\<close> that fails a predicate, or \<open>hi\<close>.\<close>

function first_fail :: "(nat \<Rightarrow> bool) \<Rightarrow> nat \<Rightarrow> nat \<Rightarrow> nat" where
  "first_fail p lo hi =
     (if lo < hi
      then let mid = (lo + hi) div 2
           in if p mid then first_fail p (mid + 1) hi else first_fail p lo mid
      else lo)"
  by pat_completeness auto
termination
  by (relation "measure (\<lambda>(p, lo, hi). hi - lo)") auto

declare first_fail.simps [simp del]

text \<open>On any predicate, monotone or not, shape one stays in range once a default is in range.\<close>

lemma last_sat_range:
  assumes "lo \<le> hi + 1" "l \<le> lo" "l \<le> ans" "ans \<le> h" "hi \<le> h"
  shows "l \<le> last_sat p lo hi ans \<and> last_sat p lo hi ans \<le> h"
  using assms
proof (induction p lo hi ans rule: last_sat.induct)
  case (1 p lo hi ans)
  show ?case
  proof (cases "lo \<le> hi")
    case False
    then show ?thesis using "1.prems" by (simp add: last_sat.simps [of p lo hi ans])
  next
    case True
    then have "lo \<le> (lo + hi) div 2" "(lo + hi) div 2 \<le> hi" by simp_all
    then show ?thesis
      using True 1 by (auto simp: last_sat.simps [of p lo hi ans] Let_def)
  qed
qed

lemma last_sat_spec:
  assumes "\<And>i j. lo \<le> i \<Longrightarrow> i \<le> j \<Longrightarrow> j \<le> hi \<Longrightarrow> p j \<Longrightarrow> p i"
  shows "if lo \<le> hi \<and> p lo
         then lo \<le> last_sat p lo hi ans \<and> last_sat p lo hi ans \<le> hi \<and> p (last_sat p lo hi ans)
              \<and> (\<forall>i. last_sat p lo hi ans < i \<and> i \<le> hi \<longrightarrow> \<not> p i)
         else last_sat p lo hi ans = ans"
  using assms
proof (induction p lo hi ans rule: last_sat.induct)
  case (1 p lo hi ans)
  let ?mid = "(lo + hi) div 2"
  show ?case
  proof (cases "lo \<le> hi")
    case False
    then show ?thesis by (simp add: last_sat.simps [of p lo hi ans])
  next
    case True
    then have mid: "lo \<le> ?mid" "?mid \<le> hi" by simp_all
    show ?thesis
    proof (cases "p ?mid")
      case pm: True
      have plo: "p lo" using "1.prems" [of lo ?mid] mid pm by simp
      have eq: "last_sat p lo hi ans = last_sat p (?mid + 1) hi ?mid"
        using True pm by (simp add: last_sat.simps [of p lo hi ans] Let_def)
      have IH: "if ?mid + 1 \<le> hi \<and> p (?mid + 1)
         then ?mid + 1 \<le> last_sat p (?mid + 1) hi ?mid \<and> last_sat p (?mid + 1) hi ?mid \<le> hi
              \<and> p (last_sat p (?mid + 1) hi ?mid)
              \<and> (\<forall>i. last_sat p (?mid + 1) hi ?mid < i \<and> i \<le> hi \<longrightarrow> \<not> p i)
         else last_sat p (?mid + 1) hi ?mid = ?mid"
        using True pm mid by (intro "1.IH" (1)) (auto intro: "1.prems")
      show ?thesis
      proof (cases "?mid + 1 \<le> hi \<and> p (?mid + 1)")
        case c: True
        then show ?thesis using IH eq plo True mid by auto
      next
        case c: False
        then have r: "last_sat p lo hi ans = ?mid" using IH eq by simp
        have "\<not> p i" if "?mid < i" "i \<le> hi" for i
          using c that mid "1.prems" [of "?mid + 1" i] by force
        then show ?thesis using r plo True mid pm by auto
      qed
    next
      case pm: False
      have eq: "last_sat p lo hi ans = last_sat p lo (?mid - 1) ans"
        using True pm by (simp add: last_sat.simps [of p lo hi ans] Let_def)
      have IH: "if lo \<le> ?mid - 1 \<and> p lo
         then lo \<le> last_sat p lo (?mid - 1) ans \<and> last_sat p lo (?mid - 1) ans \<le> ?mid - 1
              \<and> p (last_sat p lo (?mid - 1) ans)
              \<and> (\<forall>i. last_sat p lo (?mid - 1) ans < i \<and> i \<le> ?mid - 1 \<longrightarrow> \<not> p i)
         else last_sat p lo (?mid - 1) ans = ans"
        using True pm mid by (intro "1.IH" (2)) (auto intro: "1.prems")
      show ?thesis
      proof (cases "p lo")
        case plo: True
        then have "lo \<noteq> ?mid" using pm by auto
        then have "lo \<le> ?mid - 1" using mid by simp
        moreover have "\<not> p i" if "?mid \<le> i" "i \<le> hi" for i
          using that pm mid "1.prems" [of ?mid i] by auto
        ultimately show ?thesis
          using IH eq plo True mid by (auto simp: not_le) (smt (verit, best))
      next
        case plo: False
        then show ?thesis using IH eq by simp
      qed
    qed
  qed
qed

lemma first_fail_spec:
  assumes "lo \<le> hi" "\<And>i j. lo \<le> i \<Longrightarrow> i \<le> j \<Longrightarrow> j < hi \<Longrightarrow> p j \<Longrightarrow> p i"
  shows "lo \<le> first_fail p lo hi \<and> first_fail p lo hi \<le> hi
         \<and> (\<forall>i. lo \<le> i \<and> i < first_fail p lo hi \<longrightarrow> p i)
         \<and> (\<forall>i. first_fail p lo hi \<le> i \<and> i < hi \<longrightarrow> \<not> p i)"
  using assms
proof (induction p lo hi rule: first_fail.induct)
  case (1 p lo hi)
  let ?mid = "(lo + hi) div 2"
  show ?case
  proof (cases "lo < hi")
    case False
    then show ?thesis using "1.prems"(1) by (subst (1 2 3 4) first_fail.simps) auto
  next
    case True
    then have mid: "lo \<le> ?mid" "?mid < hi" by simp_all
    show ?thesis
    proof (cases "p ?mid")
      case pm: True
      have "?mid + 1 \<le> first_fail p (?mid + 1) hi \<and> first_fail p (?mid + 1) hi \<le> hi
         \<and> (\<forall>i. ?mid + 1 \<le> i \<and> i < first_fail p (?mid + 1) hi \<longrightarrow> p i)
         \<and> (\<forall>i. first_fail p (?mid + 1) hi \<le> i \<and> i < hi \<longrightarrow> \<not> p i)"
        using True pm mid by (intro "1.IH" (1)) (auto intro: "1.prems" (2))
      moreover have "p i" if "lo \<le> i" "i \<le> ?mid" for i
        using that mid pm "1.prems"(2) [of i ?mid] by simp
      ultimately show ?thesis
        using True pm mid
        by (auto simp: first_fail.simps [of p lo hi] Let_def) (meson not_less_eq_eq)
    next
      case pm: False
      have "lo \<le> first_fail p lo ?mid \<and> first_fail p lo ?mid \<le> ?mid
         \<and> (\<forall>i. lo \<le> i \<and> i < first_fail p lo ?mid \<longrightarrow> p i)
         \<and> (\<forall>i. first_fail p lo ?mid \<le> i \<and> i < ?mid \<longrightarrow> \<not> p i)"
        using True pm mid by (intro "1.IH" (2)) (auto intro: "1.prems" (2))
      moreover have "\<not> p i" if "?mid \<le> i" "i < hi" for i
        using that mid pm "1.prems"(2) [of ?mid i] by auto
      ultimately show ?thesis
        using True pm mid
        by (auto simp: first_fail.simps [of p lo hi] Let_def) (meson not_le_imp_less)
    qed
  qed
qed

text \<open>The same two facts with the monotonicity of the predicate as one formula.\<close>

lemma last_sat_spec':
  assumes "\<forall>i j. lo \<le> i \<and> i \<le> j \<and> j \<le> hi \<and> p j \<longrightarrow> p i"
  shows "if lo \<le> hi \<and> p lo
         then lo \<le> last_sat p lo hi ans \<and> last_sat p lo hi ans \<le> hi \<and> p (last_sat p lo hi ans)
              \<and> (\<forall>i. last_sat p lo hi ans < i \<and> i \<le> hi \<longrightarrow> \<not> p i)
         else last_sat p lo hi ans = ans"
  by (rule last_sat_spec) (use assms in blast)

lemma first_fail_spec':
  assumes "lo \<le> hi" "\<forall>i j. lo \<le> i \<and> i \<le> j \<and> j < hi \<and> p j \<longrightarrow> p i"
  shows "lo \<le> first_fail p lo hi" "first_fail p lo hi \<le> hi"
    and "lo \<le> i \<Longrightarrow> i < first_fail p lo hi \<Longrightarrow> p i"
    and "first_fail p lo hi \<le> i \<Longrightarrow> i < hi \<Longrightarrow> \<not> p i"
  using first_fail_spec [of lo hi p] assms by blast+

subsection \<open>Tables sorted by a key\<close>

text \<open>
  The interface every binary search of the front end relies on: a table \<open>t\<close> with \<open>size t\<close> rows
  whose key does not decrease along the rows, as long as the table is well formed.
\<close>

locale keyed_table =
  fixes wf :: "'t \<Rightarrow> bool"
    and rows :: "'t \<Rightarrow> nat"
    and key :: "'t \<Rightarrow> nat \<Rightarrow> 'k::linorder"
  assumes key_mono: "wf t \<Longrightarrow> i \<le> j \<Longrightarrow> j < rows t \<Longrightarrow> key t i \<le> key t j"
begin

text \<open>The last row at or below \<open>k\<close>.\<close>

lemma le_down:
  assumes "wf t"
  shows "\<forall>i j. 0 \<le> i \<and> i \<le> j \<and> j \<le> int (rows t) - 1 \<and> key t (nat j) \<le> k \<longrightarrow> key t (nat i) \<le> k"
proof (intro allI impI)
  fix i j
  assume a: "0 \<le> i \<and> i \<le> j \<and> j \<le> int (rows t) - 1 \<and> key t (nat j) \<le> k"
  then have "nat i \<le> nat j" "nat j < rows t" by auto
  then have "key t (nat i) \<le> key t (nat j)" by (rule key_mono [OF assms])
  then show "key t (nat i) \<le> k" using a by (meson order_trans)
qed

lemma last_le:
  assumes "wf t" "0 < rows t" "key t 0 \<le> k"
  obtains r where "last_sat (\<lambda>i. key t (nat i) \<le> k) 0 (int (rows t) - 1) a = int r"
    and "r < rows t" and "key t r \<le> k" and "\<And>i. r < i \<Longrightarrow> i < rows t \<Longrightarrow> k < key t i"
proof -
  define r where "r = last_sat (\<lambda>i. key t (nat i) \<le> k) 0 (int (rows t) - 1) a"
  have spec: "0 \<le> r" "r \<le> int (rows t) - 1" "key t (nat r) \<le> k"
      and above: "\<forall>i. r < i \<and> i \<le> int (rows t) - 1 \<longrightarrow> \<not> key t (nat i) \<le> k"
    using last_sat_spec' [OF le_down [OF assms(1), of k], of a] assms(2,3)
    by (simp_all add: r_def)
  show thesis
  proof (rule that [of "nat r"])
    show "last_sat (\<lambda>i. key t (nat i) \<le> k) 0 (int (rows t) - 1) a = int (nat r)"
      using spec(1) by (simp add: r_def)
    show "nat r < rows t" "key t (nat r) \<le> k" using spec by auto
  next
    fix i assume "nat r < i" "i < rows t"
    then have "r < int i" "int i \<le> int (rows t) - 1" by auto
    then have "\<not> key t (nat (int i)) \<le> k" using above by blast
    then show "k < key t i" by simp
  qed
qed

lemma last_le_none:
  assumes "wf t" "rows t = 0 \<or> k < key t 0"
  shows "last_sat (\<lambda>i. key t (nat i) \<le> k) 0 (int (rows t) - 1) a = a"
  using last_sat_spec' [OF le_down [OF assms(1), of k], of a] assms(2)
  by (cases "rows t = 0") (simp_all add: not_le)

text \<open>Row \<open>r\<close> is the answer exactly when it is the last one at or below \<open>k\<close>.\<close>

lemma last_le_eq:
  assumes "wf t" "r < rows t" "key t r \<le> k" "Suc r < rows t \<Longrightarrow> k < key t (Suc r)"
  shows "last_sat (\<lambda>i. key t (nat i) \<le> k) 0 (int (rows t) - 1) a = int r"
proof -
  have "0 < rows t" using assms(2) by simp
  moreover have "key t 0 \<le> k"
    using key_mono [OF assms(1), of 0 r] assms(2,3) by (meson order_trans zero_le)
  ultimately obtain q where q: "last_sat (\<lambda>i. key t (nat i) \<le> k) 0 (int (rows t) - 1) a = int q"
      "q < rows t" "key t q \<le> k" and above: "\<And>i. q < i \<Longrightarrow> i < rows t \<Longrightarrow> k < key t i"
    using last_le [OF assms(1), of k a] by blast
  have "\<not> q < r" using above [of r] assms(2,3) by (meson leD)
  moreover have "\<not> r < q"
  proof
    assume "r < q"
    then have "Suc r \<le> q" "Suc r < rows t" using q(2) by simp_all
    then have "k < key t (Suc r)" "key t (Suc r) \<le> key t q"
      using assms(4) key_mono [OF assms(1), of "Suc r" q] q(2) by simp_all
    then show False using q(3) by (meson leD order_trans)
  qed
  ultimately show ?thesis using q(1) by (metis linorder_neqE_nat)
qed

text \<open>The lower bound (first index with key \<open>>= k\<close>) and the upper bound (first with key \<open>> k\<close>).\<close>

lemma lower_bound:
  assumes "wf t"
  shows "first_fail (\<lambda>i. key t i < k) 0 (rows t) \<le> rows t"
    and "i < first_fail (\<lambda>i. key t i < k) 0 (rows t) \<Longrightarrow> key t i < k"
    and "first_fail (\<lambda>i. key t i < k) 0 (rows t) \<le> i \<Longrightarrow> i < rows t \<Longrightarrow> k \<le> key t i"
proof -
  have mono: "\<forall>i j. 0 \<le> i \<and> i \<le> j \<and> j < rows t \<and> key t j < k \<longrightarrow> key t i < k"
    using key_mono [OF assms] le_less_trans by blast
  show "first_fail (\<lambda>i. key t i < k) 0 (rows t) \<le> rows t"
    using first_fail_spec' (2) [OF _ mono] by simp
  show "i < first_fail (\<lambda>i. key t i < k) 0 (rows t) \<Longrightarrow> key t i < k"
    using first_fail_spec' (3) [OF _ mono] by simp
  show "first_fail (\<lambda>i. key t i < k) 0 (rows t) \<le> i \<Longrightarrow> i < rows t \<Longrightarrow> k \<le> key t i"
    using first_fail_spec' (4) [OF _ mono] by (simp add: not_less)
qed

lemma upper_bound:
  assumes "wf t"
  shows "first_fail (\<lambda>i. key t i \<le> k) 0 (rows t) \<le> rows t"
    and "i < first_fail (\<lambda>i. key t i \<le> k) 0 (rows t) \<Longrightarrow> key t i \<le> k"
    and "first_fail (\<lambda>i. key t i \<le> k) 0 (rows t) \<le> i \<Longrightarrow> i < rows t \<Longrightarrow> k < key t i"
proof -
  have mono: "\<forall>i j. 0 \<le> i \<and> i \<le> j \<and> j < rows t \<and> key t j \<le> k \<longrightarrow> key t i \<le> k"
    using key_mono [OF assms] order_trans by blast
  show "first_fail (\<lambda>i. key t i \<le> k) 0 (rows t) \<le> rows t"
    using first_fail_spec' (2) [OF _ mono] by simp
  show "i < first_fail (\<lambda>i. key t i \<le> k) 0 (rows t) \<Longrightarrow> key t i \<le> k"
    using first_fail_spec' (3) [OF _ mono] by simp
  show "first_fail (\<lambda>i. key t i \<le> k) 0 (rows t) \<le> i \<Longrightarrow> i < rows t \<Longrightarrow> k < key t i"
    using first_fail_spec' (4) [OF _ mono] by (simp add: not_le)
qed

end

end
