(* ===== verification/Calendar.thy ===== *)
theory Calendar
  imports Prelude
begin

section \<open>The Date arithmetic the front end uses\<close>

text \<open>
  \<open>Date.UTC\<close>, \<open>getUTCFullYear/Month/Date/Day/Hours/Minutes\<close> as the language defines them: the
  proleptic Gregorian calendar over days since 1970-01-01, with months from 0. On top of them the
  KST (UTC+9) helpers of \<open>util/time.ts\<close> and \<open>util/tradingDay.ts\<close>. A time value beyond
  \<open>8.64e15\<close> ms is the invalid date, whose fields are \<open>NaN\<close>; here that is \<open>None\<close>.

  The central facts are that the day number and the civil date determine each other and that the
  civil date grows with the day number, so comparing \<open>YYYYMMDD\<close> keys compares days.
\<close>

subsection \<open>Years\<close>

definition day_from_year :: "int \<Rightarrow> int" where
  "day_from_year y = 365 * (y - 1970) + (y - 1969) div 4 - (y - 1901) div 100 + (y - 1601) div 400"

definition leap :: "int \<Rightarrow> bool" where
  "leap y \<longleftrightarrow> y mod 4 = 0 \<and> (y mod 100 \<noteq> 0 \<or> y mod 400 = 0)"

text \<open>The year that owns a day: the 400-year estimate, corrected by at most one.\<close>

definition year_from_day :: "int \<Rightarrow> int" where
  "year_from_day d = (let y = 1970 + (d * 400) div 146097 in
     if day_from_year (y + 1) \<le> d then y + 1
     else if d < day_from_year y then y - 1 else y)"

lemma div_sub_step:
  fixes a k :: int
  assumes "0 < k"
  shows "(a + 1) div k = a div k + (if (a + 1) mod k = 0 then 1 else 0)"
proof (cases "(a + 1) mod k = 0")
  case True
  then obtain q where "a + 1 = k * q" by auto
  then have "a = k * (q - 1) + (k - 1)" by (simp add: algebra_simps)
  then have "a div k = q - 1" using assms by simp
  then show ?thesis using \<open>a + 1 = k * q\<close> assms by simp
next
  case False
  have "a = k * ((a + 1) div k) + ((a + 1) mod k - 1)"
    by (simp add: algebra_simps)
  moreover have "0 \<le> (a + 1) mod k - 1" "(a + 1) mod k - 1 < k"
    using False assms pos_mod_sign [OF assms, of "a + 1"] pos_mod_bound [OF assms, of "a + 1"]
    by linarith+
  ultimately have "a div k = (a + 1) div k"
    by (metis add.right_neutral div_mult_self4 div_pos_pos_trivial assms add.commute
        less_irrefl)
  then show ?thesis using False by simp
qed

lemma leap_carry:
  fixes A B C z :: int
  assumes "A' = A + (if p4 then 1 else 0)" "B' = B + (if p100 then 1 else 0)"
    and "C' = C + (if p400 then 1 else 0)" and p: "p100 \<longrightarrow> p4" "p400 \<longrightarrow> p100"
  shows "365 * (z + 1) + A' - B' + C'
    = 365 * z + A - B + C + (if p4 \<and> (\<not> p100 \<or> p400) then 366 else 365)"
proof -
  from p consider "\<not> p4" "\<not> p100" "\<not> p400" | "p4" "\<not> p100" "\<not> p400"
    | "p4" "p100" "\<not> p400" | "p4" "p100" "p400" by blast
  then show ?thesis unfolding assms(1-3) by cases simp_all
qed

lemma day_from_year_Suc: "day_from_year (y + 1) = day_from_year y + (if leap y then 366 else 365)"
proof -
  have m: "(y - 1968) mod 4 = y mod 4" "(y - 1900) mod 100 = y mod 100" "(y - 1600) mod 400 = y mod 400"
    by (simp_all add: mod_eq_dvd_iff)
  have a: "(y - 1968) div 4 = (y - 1969) div 4 + (if y mod 4 = 0 then 1 else 0)"
    using div_sub_step [of 4 "y - 1969"] m(1) by simp
  have b: "(y - 1900) div 100 = (y - 1901) div 100 + (if y mod 100 = 0 then 1 else 0)"
    using div_sub_step [of 100 "y - 1901"] m(2) by simp
  have c: "(y - 1600) div 400 = (y - 1601) div 400 + (if y mod 400 = 0 then 1 else 0)"
    using div_sub_step [of 400 "y - 1601"] m(3) by simp
  have p: "y mod 100 = 0 \<longrightarrow> y mod 4 = 0"
  proof
    assume that: "y mod 100 = 0"
    have "100 dvd y" using that by (simp only: mod_eq_0_iff_dvd)
    then have "4 dvd y" by (rule dvd_trans [rotated]) simp
    then show "y mod 4 = 0" by (simp only: mod_eq_0_iff_dvd)
  qed
  have q: "y mod 400 = 0 \<longrightarrow> y mod 100 = 0"
  proof
    assume that: "y mod 400 = 0"
    have "400 dvd y" using that by (simp only: mod_eq_0_iff_dvd)
    then have "100 dvd y" by (rule dvd_trans [rotated]) simp
    then show "y mod 100 = 0" by (simp only: mod_eq_0_iff_dvd)
  qed
  have e: "y + 1 - 1970 = y - 1970 + 1" "y + 1 - 1969 = y - 1968" "y + 1 - 1901 = y - 1900"
    "y + 1 - 1601 = y - 1600"
    by simp_all
  show ?thesis
    unfolding day_from_year_def leap_def e by (rule leap_carry [OF a b c p q])
qed

lemma day_from_year_strict: "y < y' \<Longrightarrow> day_from_year y + 365 \<le> day_from_year y'"
proof (induction "nat (y' - y)" arbitrary: y')
  case 0
  then show ?case by simp
next
  case (Suc n)
  show ?case
  proof (cases "y' = y + 1")
    case True
    then show ?thesis by (simp add: day_from_year_Suc)
  next
    case False
    then have "day_from_year y + 365 \<le> day_from_year (y' - 1)"
      using Suc by simp
    then show ?thesis using day_from_year_Suc [of "y' - 1"] by (simp split: if_splits)
  qed
qed

lemma year_estimate:
  fixes d :: int
  defines "y \<equiv> 1970 + (d * 400) div 146097"
  shows "day_from_year (y - 1) \<le> d" "d < day_from_year (y + 2)"
proof -
  define z where "z = (d * 400) div 146097"
  have z: "146097 * z \<le> 400 * d" "400 * d < 146097 * z + 146097"
    unfolding z_def by linarith+
  have b: "400 * day_from_year (1970 + w) \<le> 146097 * w + 593"
          "146097 * w - 607 \<le> 400 * day_from_year (1970 + w)" for w
  proof -
    have "4 * ((w + 1) div 4) \<le> w + 1" "w + 1 < 4 * ((w + 1) div 4) + 4"
      "100 * ((w + 69) div 100) \<le> w + 69" "w + 69 < 100 * ((w + 69) div 100) + 100"
      "400 * ((w + 369) div 400) \<le> w + 369" "w + 369 < 400 * ((w + 369) div 400) + 400"
      by linarith+
    then show "400 * day_from_year (1970 + w) \<le> 146097 * w + 593"
      and "146097 * w - 607 \<le> 400 * day_from_year (1970 + w)"
      by (simp_all add: day_from_year_def algebra_simps)
  qed
  show "day_from_year (y - 1) \<le> d"
    using b(1) [of "z - 1"] z by (simp add: y_def z_def [symmetric])
  show "d < day_from_year (y + 2)"
    using b(2) [of "z + 2"] z by (simp add: y_def z_def [symmetric] add.assoc)
qed

lemma year_from_day_bounds:
  "day_from_year (year_from_day d) \<le> d" "d < day_from_year (year_from_day d + 1)"
  using year_estimate [of d] by (auto simp: year_from_day_def Let_def)

lemma year_from_day_unique:
  assumes "day_from_year y \<le> d" "d < day_from_year (y + 1)"
  shows "year_from_day d = y"
proof (rule ccontr)
  assume "year_from_day d \<noteq> y"
  then consider "y + 1 \<le> year_from_day d" | "year_from_day d + 1 \<le> y" by linarith
  then show False
  proof cases
    case 1
    then have "day_from_year (y + 1) \<le> day_from_year (year_from_day d)"
      using day_from_year_strict [of "y + 1" "year_from_day d"] by (cases "y + 1 = year_from_day d") auto
    then show False using assms(2) year_from_day_bounds(1) [of d] by simp
  next
    case 2
    then have "day_from_year (year_from_day d + 1) \<le> day_from_year y"
      using day_from_year_strict [of "year_from_day d + 1" y] by (cases "year_from_day d + 1 = y") auto
    then show False using assms(1) year_from_day_bounds(2) [of d] by simp
  qed
qed

subsection \<open>Months\<close>

text \<open>Days of the year before month \<open>m\<close> (0 = January); month 12 stands for the whole year.\<close>

definition days_before :: "bool \<Rightarrow> int \<Rightarrow> int" where
  "days_before l m = (if m \<le> 0 then 0 else if m = 1 then 31 else
     (if m = 2 then 59 else if m = 3 then 90 else if m = 4 then 120 else if m = 5 then 151
      else if m = 6 then 181 else if m = 7 then 212 else if m = 8 then 243 else if m = 9 then 273
      else if m = 10 then 304 else if m = 11 then 334 else 365) + (if l then 1 else 0))"

definition month_of_yday :: "bool \<Rightarrow> int \<Rightarrow> int" where
  "month_of_yday l n = (let k = (if l then 1 else 0) in
     if n < 31 then 0 else if n < 59 + k then 1 else if n < 90 + k then 2 else if n < 120 + k then 3
     else if n < 151 + k then 4 else if n < 181 + k then 5 else if n < 212 + k then 6
     else if n < 243 + k then 7 else if n < 273 + k then 8 else if n < 304 + k then 9
     else if n < 334 + k then 10 else 11)"

definition month_days :: "int \<Rightarrow> int \<Rightarrow> int" where
  "month_days y m = days_before (leap y) (m + 1) - days_before (leap y) m"

lemma month_of_yday_bounds:
  assumes "0 \<le> n" "n < days_before l 12"
  shows "0 \<le> month_of_yday l n" "month_of_yday l n \<le> 11"
    and "days_before l (month_of_yday l n) \<le> n" "n < days_before l (month_of_yday l n + 1)"
  using assms by (auto simp: month_of_yday_def days_before_def Let_def)

lemma month_cases:
  fixes m :: int
  assumes "0 \<le> m" "m \<le> 11"
  shows "m = 0 \<or> m = 1 \<or> m = 2 \<or> m = 3 \<or> m = 4 \<or> m = 5 \<or> m = 6 \<or> m = 7 \<or> m = 8 \<or> m = 9
    \<or> m = 10 \<or> m = 11"
  using assms by presburger

lemma days_before_Suc:
  assumes "0 \<le> m" "m \<le> 11"
  shows "days_before l m < days_before l (m + 1)"
  using month_cases [OF assms] by (elim disjE) (simp_all add: days_before_def)

lemma days_before_strict:
  assumes "0 \<le> m" "m < m'" "m' \<le> 12"
  shows "days_before l m < days_before l m'"
  using assms
proof (induction "nat (m' - m)" arbitrary: m')
  case 0
  then show ?case by simp
next
  case (Suc n)
  show ?case
  proof (cases "m' = m + 1")
    case True
    then show ?thesis using Suc.prems days_before_Suc [of m l] by simp
  next
    case False
    then have "days_before l m < days_before l (m' - 1)" using Suc by simp
    then show ?thesis using Suc.prems days_before_Suc [of "m' - 1" l] by simp
  qed
qed

lemma month_of_yday_unique:
  assumes "0 \<le> m" "m \<le> 11" "days_before l m \<le> n" "n < days_before l (m + 1)"
  shows "month_of_yday l n = m"
  using month_cases [OF assms(1,2)] assms(3,4)
  by (elim disjE) (auto simp: days_before_def month_of_yday_def Let_def split: if_splits)

subsection \<open>Civil dates\<close>

type_synonym civil = "int \<times> int \<times> int"

text \<open>Year, month from 0 and day of month of a day number (\<open>getUTCFullYear/Month/Date\<close>).\<close>

definition civil_of_day :: "int \<Rightarrow> civil" where
  "civil_of_day d = (let y = year_from_day d; n = d - day_from_year y; m = month_of_yday (leap y) n
     in (y, m, n - days_before (leap y) m + 1))"

text \<open>\<open>Date.UTC(y, m, d)\<close> in days: months and days out of range carry over.\<close>

definition make_day :: "int \<Rightarrow> int \<Rightarrow> int \<Rightarrow> int" where
  "make_day y m d = (let ym = y + m div 12; mn = m mod 12
     in day_from_year ym + days_before (leap ym) mn + d - 1)"

text \<open>\<open>Date.UTC\<close> reads the years 0 to 99 as 1900 to 1999.\<close>

definition utc_year :: "int \<Rightarrow> int" where
  "utc_year y = (if 0 \<le> y \<and> y \<le> 99 then 1900 + y else y)"

definition valid_civil :: "civil \<Rightarrow> bool" where
  "valid_civil c = (case c of (y, m, d) \<Rightarrow> 0 \<le> m \<and> m \<le> 11 \<and> 1 \<le> d \<and> d \<le> month_days y m)"

lemma year_span: "day_from_year (y + 1) - day_from_year y = days_before (leap y) 12"
  by (simp add: day_from_year_Suc days_before_def)

lemma yday_bounds:
  "0 \<le> d - day_from_year (year_from_day d)"
  "d - day_from_year (year_from_day d) < days_before (leap (year_from_day d)) 12"
  using year_from_day_bounds [of d] year_span [of "year_from_day d"] by linarith+

lemma valid_civil_of_day: "valid_civil (civil_of_day d)"
  using month_of_yday_bounds [OF yday_bounds, of d]
  by (simp add: valid_civil_def civil_of_day_def Let_def month_days_def)

lemma make_day_civil: "civil_of_day n = (y, m, d) \<Longrightarrow> make_day y m d = n"
  using month_of_yday_bounds [OF yday_bounds, of n]
  by (auto simp: civil_of_day_def Let_def make_day_def)

lemma civil_make_day:
  assumes "valid_civil (y, m, d)"
  shows "civil_of_day (make_day y m d) = (y, m, d)"
proof -
  define n where "n = days_before (leap y) m + d - 1"
  have m: "0 \<le> m" "m \<le> 11" and d: "1 \<le> d" "d \<le> month_days y m"
    using assms by (simp_all add: valid_civil_def)
  have md: "make_day y m d = day_from_year y + n" using m by (simp add: make_day_def n_def)
  have n: "days_before (leap y) m \<le> n" "n < days_before (leap y) (m + 1)"
    using d by (simp_all add: n_def month_days_def)
  have "0 \<le> days_before (leap y) m" using m by (simp add: days_before_def)
  then have n0: "0 \<le> n" using n(1) by simp
  have "days_before (leap y) (m + 1) \<le> days_before (leap y) 12"
    using m days_before_strict [of "m + 1" 12 "leap y"] by (cases "m = 11") auto
  then have "day_from_year y + n < day_from_year (y + 1)"
    using n(2) year_span [of y] by linarith
  then have "year_from_day (day_from_year y + n) = y"
    using n0 by (intro year_from_day_unique) simp_all
  moreover have "month_of_yday (leap y) n = m" using m n by (intro month_of_yday_unique)
  ultimately show ?thesis by (simp add: md civil_of_day_def Let_def) (simp add: n_def)
qed

text \<open>Later days have later civil dates.\<close>

definition civil_less :: "civil \<Rightarrow> civil \<Rightarrow> bool" where
  "civil_less a b = (case (a, b) of ((y, m, d), (y', m', d')) \<Rightarrow>
     y < y' \<or> (y = y' \<and> (m < m' \<or> (m = m' \<and> d < d'))))"

lemma civil_less_mono:
  assumes "a < b"
  shows "civil_less (civil_of_day a) (civil_of_day b)"
proof -
  let ?ya = "year_from_day a" and ?yb = "year_from_day b"
  have "?ya \<le> ?yb"
  proof (rule ccontr)
    assume "\<not> ?ya \<le> ?yb"
    then have "day_from_year (?yb + 1) \<le> day_from_year ?ya"
      using day_from_year_strict [of "?yb + 1" ?ya] by (cases "?yb + 1 = ?ya") auto
    then show False using assms year_from_day_bounds(2) [of b] year_from_day_bounds(1) [of a] by simp
  qed
  show ?thesis
  proof (cases "?ya = ?yb")
    case False
    then show ?thesis using \<open>?ya \<le> ?yb\<close> by (simp add: civil_less_def civil_of_day_def Let_def)
  next
    case True
    let ?l = "leap ?ya"
    let ?na = "a - day_from_year ?ya" and ?nb = "b - day_from_year ?ya"
    let ?ma = "month_of_yday ?l ?na" and ?mb = "month_of_yday ?l ?nb"
    note na = month_of_yday_bounds [OF yday_bounds [of a]]
    have nb: "0 \<le> ?mb" "?mb \<le> 11" "days_before ?l ?mb \<le> ?nb" "?nb < days_before ?l (?mb + 1)"
      using month_of_yday_bounds [OF yday_bounds [of b]] True by simp_all
    have "\<not> ?mb < ?ma"
    proof
      assume "?mb < ?ma"
      then have "days_before ?l (?mb + 1) \<le> days_before ?l ?ma"
        using days_before_strict [of "?mb + 1" ?ma ?l] nb na by (cases "?mb + 1 = ?ma") auto
      then show False using nb(4) na(3) assms by simp
    qed
    then show ?thesis using True assms by (auto simp: civil_less_def civil_of_day_def Let_def)
  qed
qed

text \<open>So the civil date determines the day.\<close>

lemma civil_of_day_inject [simp]: "civil_of_day a = civil_of_day b \<longleftrightarrow> a = b"
  by (metis make_day_civil prod_cases3)

end
