(* ===== verification/KstTime.thy ===== *)
theory KstTime
  imports Calendar
begin

section \<open>KST clock, trading days and stock sessions\<close>

text \<open>
  \<open>util/time.ts\<close> (formatting, the one-entry date cache, \<open>sortAndDedupeByTime\<close>),
  \<open>util/tradingDay.ts\<close> and \<open>util/stockSessions.ts\<close>. Instants are whole Unix milliseconds.
  Fields of the invalid date are \<open>NaN\<close>, here \<open>None\<close>: every comparison with \<open>NaN\<close> is false.
\<close>

abbreviation kst_offset :: ms where "kst_offset \<equiv> 32400000"

definition time_clip :: "ms \<Rightarrow> bool" where
  "time_clip t \<longleftrightarrow> \<bar>t\<bar> \<le> 8640000000000000"

subsection \<open>util/tradingDay.ts\<close>

definition tradingDayOf :: "ms \<Rightarrow> int" where
  "tradingDayOf t = (t + kst_offset) div day_ms"

definition kstMinuteOfDay :: "ms \<Rightarrow> int" where
  "kstMinuteOfDay t = js_rem ((t + kst_offset) div minute_ms) 1440"

text \<open>Milliseconds since KST midnight, the quantity behind every clock reading.\<close>

definition kst_intra :: "ms \<Rightarrow> ms" where
  "kst_intra t = (t + kst_offset) mod day_ms"

lemma kst_intra_bounds: "0 \<le> kst_intra t" "kst_intra t < day_ms"
  by (simp_all add: kst_intra_def)

lemma kst_split: "t + kst_offset = tradingDayOf t * day_ms + kst_intra t"
  by (simp add: tradingDayOf_def kst_intra_def)

lemma kst_split_unique:
  assumes "t + kst_offset = d * day_ms + r" "0 \<le> r" "r < day_ms"
  shows "tradingDayOf t = d" "kst_intra t = r"
  using assms by (simp_all add: tradingDayOf_def kst_intra_def)

lemma tradingDay_mono: "s \<le> t \<Longrightarrow> tradingDayOf s \<le> tradingDayOf t"
  by (simp add: tradingDayOf_def zdiv_mono1)

subsection \<open>util/time.ts: the clock\<close>

definition kst_hours :: "ms \<Rightarrow> int" where
  "kst_hours t = kst_intra t div hour_ms"

definition kst_minutes :: "ms \<Rightarrow> int" where
  "kst_minutes t = kst_intra t div minute_ms mod 60"

definition kst_seconds :: "ms \<Rightarrow> int" where
  "kst_seconds t = kst_intra t div 1000 mod 60"

definition nan_text :: string where
  "nan_text = ''NaN''"

definition unixMsToKSTClock :: "ms \<Rightarrow> string" where
  "unixMsToKSTClock t = (if time_clip (t + kst_offset)
     then pad2 (kst_hours t) @ '':'' @ pad2 (kst_minutes t) @ '':'' @ pad2 (kst_seconds t)
     else nan_text @ '':'' @ nan_text @ '':'' @ nan_text)"

definition unixMsToKSTHhmm :: "ms \<Rightarrow> int option" where
  "unixMsToKSTHhmm t =
     (if time_clip (t + kst_offset) then Some (kst_hours t * 100 + kst_minutes t) else None)"

text \<open>Comparisons of an HHMM reading; \<open>NaN\<close> compares false.\<close>

definition num_ge :: "int option \<Rightarrow> int \<Rightarrow> bool" where
  "num_ge v k = (case v of None \<Rightarrow> False | Some x \<Rightarrow> k \<le> x)"

definition num_lt :: "int option \<Rightarrow> int \<Rightarrow> bool" where
  "num_lt v k = (case v of None \<Rightarrow> False | Some x \<Rightarrow> x < k)"

lemma hhmm_hours:
  fixes r h :: int
  assumes "0 \<le> r" "r < day_ms"
  shows "h * 100 \<le> r div hour_ms * 100 + r div minute_ms mod 60 \<longleftrightarrow> h * hour_ms \<le> r"
    and "r div hour_ms * 100 + r div minute_ms mod 60 < h * 100 \<longleftrightarrow> r < h * hour_ms"
proof -
  have m: "0 \<le> r div minute_ms mod 60" "r div minute_ms mod 60 < 60" by simp_all
  have h: "h \<le> r div hour_ms \<longleftrightarrow> h * hour_ms \<le> r"
    by (rule iffI) linarith+
  show "h * 100 \<le> r div hour_ms * 100 + r div minute_ms mod 60 \<longleftrightarrow> h * hour_ms \<le> r"
    and "r div hour_ms * 100 + r div minute_ms mod 60 < h * 100 \<longleftrightarrow> r < h * hour_ms"
    using m h by linarith+
qed

subsection \<open>util/time.ts: the date and its one-entry cache\<close>

definition date_text :: "civil \<Rightarrow> string" where
  "date_text c = (case c of (y, m, d) \<Rightarrow> int_text y @ pad2 (m + 1) @ pad2 d)"

definition kst_date_text :: "ms \<Rightarrow> string" where
  "kst_date_text t = (if time_clip (t + kst_offset) then date_text (civil_of_day (tradingDayOf t))
     else nan_text @ nan_text @ nan_text)"

text \<open>The module variables \<open>lastKstDay\<close> and \<open>lastKstDate\<close>; \<open>None\<close> before the first call.\<close>

type_synonym date_cache = "(int \<times> string) option"

definition unixMsToKSTDate :: "date_cache \<Rightarrow> ms \<Rightarrow> string \<times> date_cache" where
  "unixMsToKSTDate c t =
     (let shifted = t + kst_offset; day = shifted div day_ms in
      if (case c of Some (last_day, _) \<Rightarrow> day = last_day | None \<Rightarrow> False) \<and> \<bar>shifted\<bar> \<le> 8640000000000000
      then (case c of Some (_, last_date) \<Rightarrow> last_date | None \<Rightarrow> [], c)
      else let v = kst_date_text t in (v, if time_clip shifted then Some (day, v) else c))"

fun dates_of :: "date_cache \<Rightarrow> ms list \<Rightarrow> string list" where
  "dates_of c [] = []"
| "dates_of c (t # ts) = (case unixMsToKSTDate c t of (v, c') \<Rightarrow> v # dates_of c' ts)"

definition cache_ok :: "date_cache \<Rightarrow> bool" where
  "cache_ok c = (case c of None \<Rightarrow> True | Some (d, v) \<Rightarrow> v = date_text (civil_of_day d))"

lemma unixMsToKSTDate_ok:
  assumes "cache_ok c"
  shows "fst (unixMsToKSTDate c t) = kst_date_text t" "cache_ok (snd (unixMsToKSTDate c t))"
  using assms
  by (auto simp: unixMsToKSTDate_def cache_ok_def kst_date_text_def tradingDayOf_def time_clip_def
      Let_def split: option.splits)

text \<open>
  The one-entry cache of \<open>unixMsToKSTDate\<close> is invisible: whatever instants it is asked for and
  in whatever order (also invalid ones), every answer is the KST date of that instant alone.
\<close>

lemma date_cache_transparent: "dates_of None ts = map kst_date_text ts"
proof -
  have "cache_ok c \<Longrightarrow> dates_of c ts = map kst_date_text ts" for c
  proof (induction ts arbitrary: c)
    case Nil
    then show ?case by simp
  next
    case (Cons t ts)
    then show ?case
      using unixMsToKSTDate_ok [of c t] by (cases "unixMsToKSTDate c t") simp
  qed
  then show ?thesis by (simp add: cache_ok_def)
qed

subsection \<open>Date keys compare as days\<close>

text \<open>
  The code compares \<open>YYYYMMDD\<close> strings with \<open><\<close> and sorts by them. For four-digit years that is
  the order of days.
\<close>

definition digit_val :: "char \<Rightarrow> int" where
  "digit_val c = int (of_char c :: nat) - 48"

fun text_val :: "string \<Rightarrow> int" where
  "text_val [] = 0"
| "text_val (c # s) = digit_val c * 10 ^ length s + text_val s"

lemma digit_val_bounds: "is_digit c \<Longrightarrow> 0 \<le> digit_val c \<and> digit_val c \<le> 9"
  by (simp add: is_digit_def digit_val_def)

lemma text_val_bounds: "list_all is_digit s \<Longrightarrow> 0 \<le> text_val s \<and> text_val s < 10 ^ length s"
proof (induction s)
  case Nil
  then show ?case by simp
next
  case (Cons c s)
  then have s: "0 \<le> text_val s" "text_val s < 10 ^ length s" by simp_all
  have c: "0 \<le> digit_val c" "digit_val c \<le> 9" using Cons.prems digit_val_bounds [of c] by simp_all
  have "digit_val c * 10 ^ length s \<le> 9 * 10 ^ length s" using c(2) by (intro mult_right_mono) simp_all
  moreover have "0 \<le> digit_val c * 10 ^ length s" using c(1) by simp
  ultimately show ?case
    using s unfolding text_val.simps length_Cons power_Suc by (intro conjI; linarith)
qed

lemma digit_val_less: "digit_val c < digit_val d \<longleftrightarrow> c < d"
  by (simp add: digit_val_def less_char_def)

lemma text_less_iff:
  assumes "length a = length b" "list_all is_digit a" "list_all is_digit b"
  shows "a < b \<longleftrightarrow> text_val a < text_val b"
  using assms
proof (induction a b rule: list_induct2)
  case Nil
  then show ?case by simp
next
  case (Cons c a d b)
  have a: "0 \<le> text_val a" "text_val a < 10 ^ length b"
    and b: "0 \<le> text_val b" "text_val b < 10 ^ length b"
    using text_val_bounds [of a] text_val_bounds [of b] Cons.prems Cons.hyps by simp_all
  have *: "digit_val c * 10 ^ length b + text_val a < digit_val d * 10 ^ length b + text_val b"
    if "digit_val c < digit_val d"
      and "0 \<le> text_val b" "text_val a < 10 ^ length b" for c d a
  proof -
    have "digit_val c * 10 ^ length b + 10 ^ length b \<le> digit_val d * 10 ^ length b"
      using that(1) mult_right_mono [of "digit_val c + 1" "digit_val d" "10 ^ length b :: int"]
      by (simp add: algebra_simps)
    then show ?thesis using that by linarith
  qed
  show ?case
  proof (cases "c = d")
    case True
    then show ?thesis using Cons by simp
  next
    case False
    show ?thesis
    proof (cases "c < d")
      case True
      then show ?thesis using * [of c d a] a b Cons.hyps False by (simp add: digit_val_less)
    next
      case gt: False
      then have "digit_val d < digit_val c" using False by (simp add: digit_val_less)
      then have "digit_val d * 10 ^ length b + text_val b < digit_val c * 10 ^ length b + text_val a"
        using mult_right_mono [of "digit_val d + 1" "digit_val c" "10 ^ length b :: int"] a b
        by (simp add: algebra_simps)
      then show ?thesis using gt False Cons.hyps by simp
    qed
  qed
qed

lemma text_val_append: "text_val (a @ b) = text_val a * 10 ^ length b + text_val b"
  by (induction a) (simp_all add: algebra_simps power_add)

lemma js_number_text_val: "list_all is_digit s \<Longrightarrow> js_number s = Some (text_val s)"
proof -
  have "foldl (\<lambda>acc c. acc * 10 + (int (of_char c :: nat) - 48)) a s = a * 10 ^ length s + text_val s"
    for a
    by (induction s arbitrary: a) (simp_all add: digit_val_def algebra_simps)
  then show "list_all is_digit s \<Longrightarrow> js_number s = Some (text_val s)" by (simp add: js_number_def)
qed

lemma text_val_nat_text: "text_val (nat_text n) = int n"
  using js_number_text_val [OF digits_nat_text, of n] js_number_nat_text [of n] by simp

lemma nat_text_small: "n < 10 \<Longrightarrow> nat_text n = [digit_char n]"
  by (subst nat_text.simps) simp

lemma nat_text_step: "10 \<le> n \<Longrightarrow> nat_text n = nat_text (n div 10) @ [digit_char (n mod 10)]"
  by (subst nat_text.simps) simp

lemma length_nat_text4:
  assumes "1000 \<le> n" "n \<le> 9999"
  shows "length (nat_text n) = 4"
proof -
  have "nat_text n = nat_text (n div 1000) @ [digit_char (n div 100 mod 10),
      digit_char (n div 10 mod 10), digit_char (n mod 10)]"
    using assms nat_text_step [of n] nat_text_step [of "n div 10"] nat_text_step [of "n div 100"]
    by (simp add: div_mult2_eq [symmetric])
  moreover have "n div 1000 < 10" using assms(2) by simp
  ultimately show ?thesis by (simp add: nat_text_small)
qed

lemma length_nat_text2: "10 \<le> n \<Longrightarrow> n \<le> 99 \<Longrightarrow> length (nat_text n) = 2"
  using nat_text_step [of n] by (simp add: nat_text_small)

lemma pad2_text:
  assumes "0 \<le> v" "v \<le> 99"
  shows "length (pad2 v) = 2" "list_all is_digit (pad2 v)" "text_val (pad2 v) = v"
proof -
  have z: "is_digit CHR ''0''" "digit_val CHR ''0'' = 0" by (simp_all add: is_digit_def digit_val_def)
  have "length (pad2 v) = 2 \<and> list_all is_digit (pad2 v) \<and> text_val (pad2 v) = v"
  proof (cases "v < 10")
    case True
    then have "nat_text (nat v) = [digit_char (nat v)]" using assms(1) by (simp add: nat_text_small)
    then show ?thesis
      using z assms(1) True digits_nat_text [of "nat v"] text_val_nat_text [of "nat v"]
      by (simp add: pad2_def int_text_def Let_def)
  next
    case False
    then have "length (nat_text (nat v)) = 2" using assms(2) by (intro length_nat_text2) auto
    then show ?thesis
      using assms(1) digits_nat_text [of "nat v"] text_val_nat_text [of "nat v"]
      by (simp add: pad2_def int_text_def Let_def)
  qed
  then show "length (pad2 v) = 2" "list_all is_digit (pad2 v)" "text_val (pad2 v) = v" by simp_all
qed

definition four_digit :: "civil \<Rightarrow> bool" where
  "four_digit c \<longleftrightarrow> 1000 \<le> fst c \<and> fst c \<le> 9999"

lemma month_days_31: "month_days y m \<le> 31"
  by (simp add: month_days_def days_before_def)

lemma date_text_parts:
  assumes "valid_civil (y, m, d)" "four_digit (y, m, d)"
  shows "js_slice (date_text (y, m, d)) 0 4 = nat_text (nat y)"
    and "js_slice (date_text (y, m, d)) 4 6 = pad2 (m + 1)"
    and "js_slice (date_text (y, m, d)) 6 8 = pad2 d"
    and "length (date_text (y, m, d)) = 8" "list_all is_digit (date_text (y, m, d))"
    and "text_val (date_text (y, m, d)) = y * 10000 + (m + 1) * 100 + d"
proof -
  have y: "1000 \<le> nat y" "nat y \<le> 9999" "0 \<le> y" using assms(2) by (auto simp: four_digit_def)
  have md: "0 \<le> m + 1" "m + 1 \<le> 99" "0 \<le> d" "d \<le> 99"
    using assms(1) month_days_31 [of y m] by (auto simp: valid_civil_def)
  have t: "date_text (y, m, d) = nat_text (nat y) @ pad2 (m + 1) @ pad2 d"
    using y by (simp add: date_text_def int_text_def)
  note len = length_nat_text4 [OF y(1,2)] pad2_text [OF md(1,2)] pad2_text [OF md(3,4)]
  show "js_slice (date_text (y, m, d)) 0 4 = nat_text (nat y)"
    "js_slice (date_text (y, m, d)) 4 6 = pad2 (m + 1)"
    "js_slice (date_text (y, m, d)) 6 8 = pad2 d"
    "length (date_text (y, m, d)) = 8" "list_all is_digit (date_text (y, m, d))"
    using len digits_nat_text [of "nat y"] by (simp_all add: t js_slice_def)
  show "text_val (date_text (y, m, d)) = y * 10000 + (m + 1) * 100 + d"
    using len y by (simp add: t text_val_append text_val_nat_text algebra_simps)
qed

lemma date_text_less:
  assumes "valid_civil a" "four_digit a" "valid_civil b" "four_digit b"
  shows "date_text a < date_text b \<longleftrightarrow> civil_less a b"
proof -
  obtain y m d y' m' d' where ab: "a = (y, m, d)" "b = (y', m', d')" by (metis prod_cases3)
  have r: "0 \<le> m" "m \<le> 11" "1 \<le> d" "d \<le> 31" "0 \<le> m'" "m' \<le> 11" "1 \<le> d'" "d' \<le> 31"
    using assms(1,3) month_days_31 [of y m] month_days_31 [of y' m'] by (auto simp: ab valid_civil_def)
  have "date_text a < date_text b \<longleftrightarrow> text_val (date_text a) < text_val (date_text b)"
    using assms date_text_parts by (intro text_less_iff) (simp_all add: ab)
  also have "\<dots> \<longleftrightarrow> y * 10000 + (m + 1) * 100 + d < y' * 10000 + (m' + 1) * 100 + d'"
    using assms date_text_parts(6) by (simp add: ab)
  also have "\<dots> \<longleftrightarrow> civil_less a b"
    using r by (auto simp: civil_less_def ab)
  finally show ?thesis .
qed

subsection \<open>util/time.ts: sortAndDedupeByTime\<close>

text \<open>\<open>Array.prototype.sort\<close> is stable, as \<open>sort_key\<close> is.\<close>

definition dedupe_step :: "('a \<Rightarrow> int) \<Rightarrow> 'a list \<Rightarrow> 'a \<Rightarrow> 'a list" where
  "dedupe_step time out item =
     (if out = [] \<or> time (last out) < time item then out @ [item] else butlast out @ [item])"

definition sortAndDedupeByTime :: "('a \<Rightarrow> int) \<Rightarrow> 'a list \<Rightarrow> 'a list" where
  "sortAndDedupeByTime time items =
     (if length items \<le> 1 then items else foldl (dedupe_step time) [] (sort_key time items))"

lemma dedupe_spec:
  fixes time :: "'a \<Rightarrow> int"
  assumes "sorted (map time (done @ items))" "done \<noteq> [] \<or> out = []"
    and "sorted_wrt (\<lambda>a b. time a < time b) out" "time ` set out = time ` set done"
    and "\<forall>x \<in> set out. x = last (filter (\<lambda>y. time y = time x) done)"
    and "done \<noteq> [] \<longrightarrow> out \<noteq> [] \<and> time (last out) = time (last done)"
  shows "sorted_wrt (\<lambda>a b. time a < time b) (foldl (dedupe_step time) out items)
    \<and> time ` set (foldl (dedupe_step time) out items) = time ` set (done @ items)
    \<and> (\<forall>x \<in> set (foldl (dedupe_step time) out items).
          x = last (filter (\<lambda>y. time y = time x) (done @ items)))"
  using assms
proof (induction items arbitrary: "done" out)
  case Nil
  then show ?case by simp
next
  case (Cons i items)
  let ?out = "dedupe_step time out i" and ?done = "done @ [i]"
  have sd: "sorted (map time ?done)" using Cons.prems(1) by (simp add: sorted_append)
  have le: "\<forall>y \<in> set done. time y \<le> time i" using sd by (simp add: sorted_append)
  have "time ` set ?out = time ` set ?done \<and> sorted_wrt (\<lambda>a b. time a < time b) ?out
      \<and> (\<forall>x \<in> set ?out. x = last (filter (\<lambda>y. time y = time x) ?done))
      \<and> ?out \<noteq> [] \<and> time (last ?out) = time (last ?done)"
  proof (cases "out = []")
    case True
    then have "done = []" using Cons.prems(6) by blast
    then show ?thesis using True by (simp add: dedupe_step_def)
  next
    case False
    then obtain pre l where out: "out = pre @ [l]" by (metis rev_exhaust)
    have dn: "done \<noteq> []" using False Cons.prems(2) by simp
    then have tl: "time l = time (last done)" using Cons.prems(6) out by simp
    have pre: "\<forall>x \<in> set pre. time x < time l" "sorted_wrt (\<lambda>a b. time a < time b) pre"
      using Cons.prems(3) by (auto simp: out sorted_wrt_append)
    have "time l \<le> time i" using le dn tl by simp
    then consider "time l < time i" | "time l = time i" by linarith
    then show ?thesis
    proof cases
      case 1
      then have "\<forall>x \<in> set out. time x < time i" using pre out by fastforce
      moreover have "\<forall>y \<in> set done. time y < time i"
        using Cons.prems(4) calculation by (metis (no_types, lifting) imageE imageI)
      ultimately show ?thesis
        using 1 Cons.prems(3,4,5) by (auto simp: dedupe_step_def out sorted_wrt_append)
    next
      case 2
      then have "?out = pre @ [i]" by (simp add: dedupe_step_def out)
      then show ?thesis
        using 2 pre Cons.prems(3,4,5) by (auto simp: out sorted_wrt_append)
    qed
  qed
  then show ?case
    using Cons.IH [of ?done ?out] Cons.prems(1) by simp
qed

text \<open>
  \<open>sortAndDedupeByTime\<close> gives the chart what \<open>setData\<close> requires: times strictly ascending, no
  time lost or invented, and of items that share a time the one that came last in the input.
\<close>

lemma sort_dedupe_correct:
  fixes time :: "'a \<Rightarrow> int"
  shows "sorted_wrt (\<lambda>a b. time a < time b) (sortAndDedupeByTime time items)
    \<and> time ` set (sortAndDedupeByTime time items) = time ` set items
    \<and> (\<forall>x \<in> set (sortAndDedupeByTime time items). x = last (filter (\<lambda>y. time y = time x) items))"
proof (cases "length items \<le> 1")
  case True
  then show ?thesis by (cases items) (auto simp: sortAndDedupeByTime_def)
next
  case False
  have "filter (\<lambda>y. time y = t) (sort_key time items) = filter (\<lambda>y. time y = t) items" for t
    using sort_key_stable [of time t items] by (simp add: eq_commute)
  then show ?thesis
    using False dedupe_spec [of time "[]" "sort_key time items" "[]"]
    by (simp add: sortAndDedupeByTime_def)
qed

subsection \<open>util/stockSessions.ts\<close>

definition KRX_AFTERMARKET_START_DATE :: string where
  "KRX_AFTERMARKET_START_DATE = ''20260914''"

definition KRX_AFTERMARKET_START_MS :: ms where
  "KRX_AFTERMARKET_START_MS = make_day 2026 8 14 * day_ms - kst_offset"

definition krxAftermarketIntroduced :: "string \<Rightarrow> bool" where
  "krxAftermarketIntroduced date \<longleftrightarrow> KRX_AFTERMARKET_START_DATE \<le> date"

definition isStockIndicatorBreak :: "ms \<Rightarrow> string \<Rightarrow> bool" where
  "isStockIndicatorBreak tMs venue =
     (if venue \<noteq> ''KRX'' \<or> tMs < KRX_AFTERMARKET_START_MS then False
      else let intra = js_rem (js_rem (tMs + 9 * hour_ms) day_ms + day_ms) day_ms
           in (15 * 60 + 30) * minute_ms < intra \<and> intra < 16 * hour_ms)"

text \<open>\<open>None\<close> stands for the \<open>NaN\<close> a date that is not a number would give.\<close>

definition krxRegularCloseFromWindow :: "string \<Rightarrow> ms \<Rightarrow> ms option" where
  "krxRegularCloseFromWindow date closeMs =
     (if \<not> krxAftermarketIntroduced date then Some closeMs
      else case (js_number (js_slice date 0 4), js_number (js_slice date 4 6), js_number (js_slice date 6 8)) of
        (Some y, Some m, Some d) \<Rightarrow>
          let midnight = make_day (utc_year y) (m - 1) d * day_ms - 9 * hour_ms
          in Some (min closeMs (midnight + (15 * 60 + 30) * minute_ms))
      | _ \<Rightarrow> None)"

text \<open>\<open>getUTCDay\<close> of the shifted instant: 0 is Sunday; 1970-01-01 was a Thursday.\<close>

definition kst_weekday :: "ms \<Rightarrow> int" where
  "kst_weekday t = (tradingDayOf t + 4) mod 7"

definition isKrxAftermarketWindow :: "ms \<Rightarrow> bool" where
  "isKrxAftermarketWindow nowMs =
     (let day = (if time_clip (nowMs + kst_offset) then Some (kst_weekday nowMs) else None);
          hhmm = unixMsToKSTHhmm nowMs
      in day \<noteq> Some 0 \<and> day \<noteq> Some 6 \<and> krxAftermarketIntroduced (kst_date_text nowMs)
         \<and> num_ge hhmm 1600 \<and> num_lt hhmm 2000)"

datatype book_phase_label = RegularMarket | AfterHoursClose | AftermarketWaiting | Aftermarket | AftermarketLast

definition krxBookPhaseLabel :: "ms \<Rightarrow> ms option \<Rightarrow> book_phase_label" where
  "krxBookPhaseLabel nowMs ladderAtMs =
     (let hhmm = unixMsToKSTHhmm nowMs in
      if num_lt hhmm 1530 then RegularMarket
      else if num_lt hhmm 1600 then AfterHoursClose
      else let observed = (case ladderAtMs of None \<Rightarrow> False
             | Some l \<Rightarrow> kst_date_text l = kst_date_text nowMs \<and> num_ge (unixMsToKSTHhmm l) 1600)
        in if \<not> observed
           then (if isKrxAftermarketWindow nowMs then AftermarketWaiting else AfterHoursClose)
           else (if isKrxAftermarketWindow nowMs then Aftermarket else AftermarketLast))"

definition indicatorBucketStartMs :: "ms \<Rightarrow> ms \<Rightarrow> string \<Rightarrow> ms" where
  "indicatorBucketStartMs tMs bucketMs venue =
     (if 2 * hour_ms \<le> bucketMs \<and> venue = ''KRX'' \<and> isKrxAftermarketWindow tMs
      then let midnight = (tMs + 9 * hour_ms) div day_ms * day_ms - 9 * hour_ms;
               anchor = midnight + 16 * hour_ms
           in anchor + (tMs - anchor) div bucketMs * bucketMs
      else tMs div bucketMs * bucketMs)"

lemma aftermarket_intra:
  "isKrxAftermarketWindow t \<Longrightarrow> 16 * hour_ms \<le> kst_intra t \<and> kst_intra t < 20 * hour_ms"
  using hhmm_hours [OF kst_intra_bounds, of 16 t] hhmm_hours [OF kst_intra_bounds, of 20 t]
  by (auto simp: isKrxAftermarketWindow_def unixMsToKSTHhmm_def num_ge_def num_lt_def kst_hours_def
      kst_minutes_def Let_def split: if_splits)

lemma indicator_break_intra:
  "isStockIndicatorBreak t v \<Longrightarrow> v = ''KRX'' \<and> 55800000 < kst_intra t \<and> kst_intra t < 16 * hour_ms"
  by (auto simp: isStockIndicatorBreak_def kst_intra_def Let_def split: if_splits)

lemma kst_midnight: "(t + 9 * hour_ms) div day_ms * day_ms - 9 * hour_ms = t - kst_intra t"
  using kst_split [of t] by (simp add: tradingDayOf_def)

lemma bucket_in_aftermarket:
  assumes "2 * hour_ms \<le> b" "isKrxAftermarketWindow t"
  shows "indicatorBucketStartMs t b ''KRX'' = t - kst_intra t + 16 * hour_ms
    + (t - (t - kst_intra t + 16 * hour_ms)) div b * b"
  using assms unfolding indicatorBucketStartMs_def Let_def kst_midnight by (simp only: simp_thms if_True)

lemma bucket_bounds:
  fixes b x a :: int
  assumes "0 < b"
  shows "a + (x - a) div b * b \<le> x" "x < a + (x - a) div b * b + b"
proof -
  have "(x - a) div b * b + (x - a) mod b = x - a" by simp
  moreover have "0 \<le> (x - a) mod b" "(x - a) mod b < b" using assms by simp_all
  ultimately show "a + (x - a) div b * b \<le> x" "x < a + (x - a) div b * b + b" by linarith+
qed

lemma bucket_ge_anchor:
  fixes b x a :: int
  assumes "0 < b" "a \<le> x"
  shows "a \<le> a + (x - a) div b * b"
  using assms by (simp add: pos_imp_zdiv_nonneg_iff)

text \<open>
  \<open>indicatorBucketStartMs\<close> puts every instant into its own bucket (start at or before it, less
  than one width away), and no bucket of two hours or more merges the KRX regular session with the
  aftermarket of the same day: the aftermarket restarts at 16:00.
\<close>

lemma indicator_bucket_separates:
  assumes "0 < b"
  shows "indicatorBucketStartMs t b v \<le> t \<and> t < indicatorBucketStartMs t b v + b
    \<and> (2 * hour_ms \<le> b \<and> tradingDayOf s = tradingDayOf t \<and> kst_intra s < 16 * hour_ms
         \<and> isKrxAftermarketWindow t
         \<longrightarrow> indicatorBucketStartMs s b ''KRX'' \<noteq> indicatorBucketStartMs t b ''KRX'')"
proof -
  have bounds: "indicatorBucketStartMs t b v \<le> t \<and> t < indicatorBucketStartMs t b v + b" for t v
  proof -
    obtain a where "indicatorBucketStartMs t b v = a + (t - a) div b * b"
    proof (cases "2 * hour_ms \<le> b \<and> v = ''KRX'' \<and> isKrxAftermarketWindow t")
      case True
      then show thesis by (intro that) (simp add: indicatorBucketStartMs_def Let_def)
    next
      case False
      then have "indicatorBucketStartMs t b v = 0 + (t - 0) div b * b"
        by (simp only: indicatorBucketStartMs_def if_False) simp
      then show thesis by (rule that)
    qed
    then show ?thesis using bucket_bounds [OF assms, where a = a and x = t] by simp
  qed
  moreover have "indicatorBucketStartMs s b ''KRX'' \<noteq> indicatorBucketStartMs t b ''KRX''"
    if h: "2 * hour_ms \<le> b" "tradingDayOf s = tradingDayOf t" "kst_intra s < 16 * hour_ms"
      "isKrxAftermarketWindow t"
  proof -
    let ?anchor = "t - kst_intra t + 16 * hour_ms"
    have "?anchor \<le> t" using aftermarket_intra [OF h(4)] by simp
    then have "?anchor \<le> indicatorBucketStartMs t b ''KRX''"
      using bucket_ge_anchor [OF assms, of ?anchor t] bucket_in_aftermarket [OF h(1,4)] by simp
    moreover have "s < ?anchor" using kst_split [of s] kst_split [of t] h by simp
    ultimately show ?thesis using bounds [of s "''KRX''"] by linarith
  qed
  ultimately show ?thesis by blast
qed

text \<open>15:15 and 16:30 KST on 2026-09-14, the first aftermarket day, with two-hour bars.\<close>

end
