(* ===== verification/SessionTime.thy ===== *)
theory SessionTime
  imports KstTime
begin

section \<open>Session phases\<close>

text \<open>
  \<open>util/sessionTime.ts\<close>: the phase of an instant relative to an ordered list of trading sessions.
  A session is a record; the virtual axis extends it, as the TypeScript types do. The module's
  \<open>WeakMap\<close> of auction windows is not state here: an entry is only used when its \<open>open\<close> and
  \<open>close\<close> equal the segment's, and the window is a function of those two.

  \<open>auctionWindow\<close> gives \<open>None\<close> where the code's window starts at \<open>Infinity\<close> (a session opening at
  08:00) or at \<open>NaN\<close>: no instant is inside it.
\<close>

record session_segment =
  sessionOpenMs :: ms
  sessionCloseMs :: ms

datatype SessionPhase = PreOpen | Regular | Auction | Gap | PreAxis | PostAxis

definition AUCTION_WINDOW_LENGTH_MS :: ms where
  "AUCTION_WINDOW_LENGTH_MS = 10 * 60 * 1000"

definition PRE_OPEN_WINDOW_LENGTH_MS :: ms where
  "PRE_OPEN_WINDOW_LENGTH_MS = 30 * 60 * 1000"

definition auctionWindow :: "'a session_segment_scheme \<Rightarrow> (ms \<times> ms) option" where
  "auctionWindow seg =
     (if unixMsToKSTHhmm (sessionOpenMs seg) = Some 800 then None
      else let end_ms = (if unixMsToKSTHhmm (sessionOpenMs seg) = Some 900
                 then krxRegularCloseFromWindow (kst_date_text (sessionOpenMs seg)) (sessionCloseMs seg)
                 else Some (sessionCloseMs seg))
           in map_option (\<lambda>e. (e - AUCTION_WINDOW_LENGTH_MS, e)) end_ms)"

definition classifyWithinSegment :: "'a session_segment_scheme \<Rightarrow> ms \<Rightarrow> SessionPhase" where
  "classifyWithinSegment seg realMs =
     (let preOpenStart = sessionOpenMs seg - PRE_OPEN_WINDOW_LENGTH_MS in
      if realMs < preOpenStart then PreAxis
      else if realMs < sessionOpenMs seg then PreOpen
      else if sessionCloseMs seg < realMs then PostAxis
      else case auctionWindow seg of
          None \<Rightarrow> Regular
        | Some (s, e) \<Rightarrow> if s \<le> realMs \<and> realMs \<le> e then Auction else Regular)"

definition lowerBoundOwning :: "'a session_segment_scheme list \<Rightarrow> ms \<Rightarrow> int" where
  "lowerBoundOwning segments key =
     last_sat (\<lambda>i. sessionOpenMs (segments ! nat i) \<le> key) 0 (int (length segments) - 1) (-1)"

definition locateSegment :: "'a session_segment_scheme list \<Rightarrow> ms \<Rightarrow> int \<times> SessionPhase" where
  "locateSegment segments realMs =
     (if segments = [] then (-1, PreAxis)
      else let idx = lowerBoundOwning segments realMs in
        case js_at segments idx of
          Some seg \<Rightarrow>
            if realMs \<le> sessionCloseMs seg then (idx, classifyWithinSegment seg realMs)
            else (case js_at segments (idx + 1) of
                Some nxt \<Rightarrow> if sessionOpenMs nxt - PRE_OPEN_WINDOW_LENGTH_MS \<le> realMs
                  then (idx + 1, PreOpen)
                  else if idx < 0 then (-1, PreAxis) else (idx, Gap)
              | None \<Rightarrow> if idx < 0 then (-1, PreAxis) else (idx, PostAxis))
        | None \<Rightarrow> (case js_at segments (idx + 1) of
                Some nxt \<Rightarrow> if sessionOpenMs nxt - PRE_OPEN_WINDOW_LENGTH_MS \<le> realMs
                  then (idx + 1, PreOpen)
                  else if idx < 0 then (-1, PreAxis) else (idx, Gap)
              | None \<Rightarrow> if idx < 0 then (-1, PreAxis) else (idx, PostAxis)))"

definition sessionPhaseAt :: "'a session_segment_scheme list \<Rightarrow> ms \<Rightarrow> SessionPhase" where
  "sessionPhaseAt segments realMs = snd (locateSegment segments realMs)"

definition isRegularSession :: "'a session_segment_scheme list \<Rightarrow> ms \<Rightarrow> bool" where
  "isRegularSession segments realMs =
     (let phase = sessionPhaseAt segments realMs in phase = Regular \<or> phase = Auction)"

definition isClosingAuction :: "'a session_segment_scheme list \<Rightarrow> ms \<Rightarrow> bool" where
  "isClosingAuction segments realMs \<longleftrightarrow> sessionPhaseAt segments realMs = Auction"

definition isPreOpen :: "'a session_segment_scheme list \<Rightarrow> ms \<Rightarrow> bool" where
  "isPreOpen segments realMs \<longleftrightarrow> sessionPhaseAt segments realMs = PreOpen"

subsection \<open>Well-formed session lists\<close>

text \<open>What the callers must pass: sessions that open before they close, in order, not overlapping.\<close>

definition sessions_ok :: "'a session_segment_scheme list \<Rightarrow> bool" where
  "sessions_ok segs \<longleftrightarrow> (\<forall>s \<in> set segs. sessionOpenMs s \<le> sessionCloseMs s)
     \<and> sorted_wrt (\<lambda>a b. sessionCloseMs a < sessionOpenMs b) segs"

lemma sessions_okD:
  assumes "sessions_ok segs"
  shows "i < length segs \<Longrightarrow> sessionOpenMs (segs ! i) \<le> sessionCloseMs (segs ! i)"
    and "i < j \<Longrightarrow> j < length segs \<Longrightarrow> sessionCloseMs (segs ! i) < sessionOpenMs (segs ! j)"
  using assms by (auto simp: sessions_ok_def sorted_wrt_iff_nth_less)

text \<open>A well-formed list is a table keyed by the opens.\<close>

interpretation opens: keyed_table "sessions_ok" "length" "\<lambda>segs i. sessionOpenMs (segs ! i)"
proof
  fix t :: "'a session_segment_scheme list" and i j
  assume t: "sessions_ok t" "i \<le> j" "j < length t"
  show "sessionOpenMs (t ! i) \<le> sessionOpenMs (t ! j)"
  proof (cases "i = j")
    case False
    then have "sessionCloseMs (t ! i) < sessionOpenMs (t ! j)"
      using sessions_okD(2) [OF t(1), of i j] t(2,3) by simp
    moreover have "sessionOpenMs (t ! i) \<le> sessionCloseMs (t ! i)"
      using sessions_okD(1) [OF t(1), of i] t(2,3) by simp
    ultimately show ?thesis by simp
  qed simp
qed

lemma lowerBoundOwning_at:
  assumes "sessions_ok segs" "r < length segs" "sessionOpenMs (segs ! r) \<le> t"
    and "Suc r < length segs \<Longrightarrow> t < sessionOpenMs (segs ! Suc r)"
  shows "lowerBoundOwning segs t = int r"
  unfolding lowerBoundOwning_def by (rule opens.last_le_eq [OF assms(1) assms(2-4)])

lemma lowerBoundOwning_before:
  assumes "sessions_ok segs" "segs = [] \<or> t < sessionOpenMs (segs ! 0)"
  shows "lowerBoundOwning segs t = -1"
  unfolding lowerBoundOwning_def using assms by (intro opens.last_le_none) auto

text \<open>Every instant is before the first open, or owned by the last session open at it.\<close>

lemma owner_cases [consumes 1, case_names before owned]:
  assumes "sessions_ok segs"
  obtains (before) "segs = [] \<or> t < sessionOpenMs (segs ! 0)"
  | (owned) r where "r < length segs" "sessionOpenMs (segs ! r) \<le> t"
      "Suc r < length segs \<Longrightarrow> t < sessionOpenMs (segs ! Suc r)" "lowerBoundOwning segs t = int r"
proof (cases "segs = [] \<or> t < sessionOpenMs (segs ! 0)")
  case True
  then show ?thesis by (rule before)
next
  case False
  then have ne: "0 < length segs" "sessionOpenMs (segs ! 0) \<le> t" by auto
  obtain r where "lowerBoundOwning segs t = int r" "r < length segs" "sessionOpenMs (segs ! r) \<le> t"
    "\<And>i. r < i \<Longrightarrow> i < length segs \<Longrightarrow> t < sessionOpenMs (segs ! i)"
    unfolding lowerBoundOwning_def by (rule opens.last_le [OF assms ne, of "-1"]) blast
  then show ?thesis by (intro owned) simp_all
qed

lemma owner_unique:
  assumes "sessions_ok segs" "r < length segs" "sessionOpenMs (segs ! r) \<le> t"
    and "Suc r < length segs \<Longrightarrow> t < sessionOpenMs (segs ! Suc r)"
    and "i < length segs" "sessionOpenMs (segs ! i) \<le> t" "t \<le> sessionCloseMs (segs ! i)"
  shows "i = r"
proof (rule ccontr)
  assume "i \<noteq> r"
  then consider "r < i" | "i < r" by linarith
  then show False
  proof cases
    case 1
    then have "sessionOpenMs (segs ! Suc r) \<le> sessionOpenMs (segs ! i)"
      using opens.key_mono [OF assms(1), of "Suc r" i] assms(5) by simp
    then show False using assms(4,5,6) 1 by simp
  next
    case 2
    then show False using sessions_okD(2) [OF assms(1) 2 assms(2)] assms(3,7) by simp
  qed
qed

lemma classify_inside:
  assumes "sessionOpenMs s \<le> t" "t \<le> sessionCloseMs s"
  shows "classifyWithinSegment s t = Regular \<or> classifyWithinSegment s t = Auction"
  using assms by (auto simp: classifyWithinSegment_def PRE_OPEN_WINDOW_LENGTH_MS_def Let_def
      split: option.splits)

lemma js_at_length [simp]: "js_at xs (int r + 1) = (if Suc r < length xs then Some (xs ! Suc r) else None)"
  by (rule js_at_Suc)

lemma locate_inside:
  assumes "sessions_ok segs" "r < length segs" "sessionOpenMs (segs ! r) \<le> t" "t \<le> sessionCloseMs (segs ! r)"
  shows "locateSegment segs t = (int r, classifyWithinSegment (segs ! r) t)"
proof -
  have "t < sessionOpenMs (segs ! Suc r)" if "Suc r < length segs"
    using sessions_okD(2) [OF assms(1) _ that, of r] assms(4) by simp
  then have "lowerBoundOwning segs t = int r" using assms by (intro lowerBoundOwning_at) simp_all
  then show ?thesis using assms(2,4) by (auto simp: locateSegment_def Let_def)
qed

lemma locate_after_close:
  assumes "sessions_ok segs" "r < length segs" "sessionCloseMs (segs ! r) < t"
    and "Suc r < length segs \<Longrightarrow> t < sessionOpenMs (segs ! Suc r)"
  shows "locateSegment segs t =
    (if Suc r < length segs
     then if sessionOpenMs (segs ! Suc r) - PRE_OPEN_WINDOW_LENGTH_MS \<le> t then (int r + 1, PreOpen) else (int r, Gap)
     else (int r, PostAxis))"
proof -
  have "sessionOpenMs (segs ! r) \<le> t" using sessions_okD(1) [OF assms(1,2)] assms(3) by simp
  then have "lowerBoundOwning segs t = int r" using assms by (intro lowerBoundOwning_at) simp_all
  then show ?thesis using assms(2,3) by (auto simp: locateSegment_def Let_def)
qed

lemma locate_before:
  assumes "sessions_ok segs" "segs = [] \<or> t < sessionOpenMs (segs ! 0)"
  shows "locateSegment segs t =
    (if segs \<noteq> [] \<and> sessionOpenMs (segs ! 0) - PRE_OPEN_WINDOW_LENGTH_MS \<le> t then (0, PreOpen) else (-1, PreAxis))"
  using lowerBoundOwning_before [OF assms] js_at_nat [of segs 0]
  by (cases segs) (simp_all add: locateSegment_def Let_def js_at_def)

subsection \<open>What the search means\<close>

text \<open>
  On a well-formed session list the binary search of \<open>locateSegment\<close> agrees with the plain
  reading: an instant is in the regular session (auction included) exactly when some session
  contains it, inclusively, and then the index found is that session's and the phase is the one
  relative to that session.
\<close>

lemma regular_iff_contained:
  assumes "sessions_ok segs"
  shows "(isRegularSession segs t \<longleftrightarrow> (\<exists>s \<in> set segs. sessionOpenMs s \<le> t \<and> t \<le> sessionCloseMs s))
    \<and> (\<forall>i < length segs. sessionOpenMs (segs ! i) \<le> t \<and> t \<le> sessionCloseMs (segs ! i)
         \<longrightarrow> locateSegment segs t = (int i, classifyWithinSegment (segs ! i) t))"
proof (rule conjI)
  show "\<forall>i < length segs. sessionOpenMs (segs ! i) \<le> t \<and> t \<le> sessionCloseMs (segs ! i)
      \<longrightarrow> locateSegment segs t = (int i, classifyWithinSegment (segs ! i) t)"
    using locate_inside [OF assms] by blast
  show "isRegularSession segs t \<longleftrightarrow> (\<exists>s \<in> set segs. sessionOpenMs s \<le> t \<and> t \<le> sessionCloseMs s)"
  proof
    assume "\<exists>s \<in> set segs. sessionOpenMs s \<le> t \<and> t \<le> sessionCloseMs s"
    then obtain i where "i < length segs" "sessionOpenMs (segs ! i) \<le> t" "t \<le> sessionCloseMs (segs ! i)"
      by (auto simp: in_set_conv_nth)
    then show "isRegularSession segs t"
      using locate_inside [OF assms] classify_inside [of "segs ! i" t]
      by (simp add: isRegularSession_def sessionPhaseAt_def Let_def)
  next
    assume reg: "isRegularSession segs t"
    show "\<exists>s \<in> set segs. sessionOpenMs s \<le> t \<and> t \<le> sessionCloseMs s"
      using assms
    proof (cases rule: owner_cases [where t = t])
      case before
      then show ?thesis
        using reg locate_before [OF assms before]
        by (simp add: isRegularSession_def sessionPhaseAt_def split: if_splits)
    next
      case (owned r)
      then show ?thesis
        using reg locate_after_close [OF assms owned(1) _ owned(3)]
        by (cases "t \<le> sessionCloseMs (segs ! r)")
          (auto simp: isRegularSession_def sessionPhaseAt_def split: if_splits intro: nth_mem)
    qed
  qed
qed

text \<open>
  Outside every session the phase says where the instant lies: before the first open it is the
  pre-open band or before the axis, after a close it is the next session's pre-open band or the gap,
  and after the last close it is past the axis.
\<close>

lemma phase_outside_sessions:
  assumes "sessions_ok segs" "\<not> isRegularSession segs t"
  shows "sessionPhaseAt segs t =
    (if \<exists>s \<in> set segs. sessionOpenMs s - PRE_OPEN_WINDOW_LENGTH_MS \<le> t \<and> t < sessionOpenMs s then PreOpen
     else if \<forall>s \<in> set segs. t < sessionOpenMs s then PreAxis
     else if \<forall>s \<in> set segs. sessionCloseMs s < t then PostAxis else Gap)"
  using assms(1)
proof (cases rule: owner_cases [where t = t])
  case before
  have "sessionOpenMs (segs ! 0) \<le> sessionOpenMs s" if "s \<in> set segs" for s
    using that opens.key_mono [OF assms(1), of 0] by (auto simp: in_set_conv_nth)
  then show ?thesis
    using before locate_before [OF assms(1) before] by (cases segs) (fastforce simp: sessionPhaseAt_def)+
next
  case (owned r)
  have late: "sessionCloseMs (segs ! r) < t"
    using regular_iff_contained [OF assms(1), of t] assms(2) owned(1,2) nth_mem by fastforce
  have past: "sessionCloseMs (segs ! i) < t" if "i \<le> r" for i
    using sessions_okD(2) [OF assms(1), of i r] sessions_okD(1) [OF assms(1) owned(1)] late that owned(1)
    by (cases "i = r") auto
  have ahead: "t < sessionOpenMs (segs ! Suc r) \<and> sessionOpenMs (segs ! Suc r) \<le> sessionOpenMs (segs ! i)"
    if "r < i" "i < length segs" for i
    using that owned(3) opens.key_mono [OF assms(1), of "Suc r" i] by simp
  have band: "(\<exists>s \<in> set segs. sessionOpenMs s - PRE_OPEN_WINDOW_LENGTH_MS \<le> t \<and> t < sessionOpenMs s) \<longleftrightarrow>
      Suc r < length segs \<and> sessionOpenMs (segs ! Suc r) - PRE_OPEN_WINDOW_LENGTH_MS \<le> t"
  proof
    assume "\<exists>s \<in> set segs. sessionOpenMs s - PRE_OPEN_WINDOW_LENGTH_MS \<le> t \<and> t < sessionOpenMs s"
    then obtain i where i: "i < length segs" "sessionOpenMs (segs ! i) - PRE_OPEN_WINDOW_LENGTH_MS \<le> t"
      "t < sessionOpenMs (segs ! i)" by (auto simp: in_set_conv_nth)
    have "r < i" using past [of i] i sessions_okD(1) [OF assms(1) i(1)] by (meson leI less_le_not_le order_trans)
    then show "Suc r < length segs \<and> sessionOpenMs (segs ! Suc r) - PRE_OPEN_WINDOW_LENGTH_MS \<le> t"
      using ahead [of i] i by auto
  qed (use ahead [of "Suc r"] in \<open>auto intro!: bexI [of _ "segs ! Suc r"]\<close>)
  have "\<not> (\<forall>s \<in> set segs. t < sessionOpenMs s)" using owned(1,2) by (auto intro!: bexI [of _ "segs ! r"])
  moreover have "(\<forall>s \<in> set segs. sessionCloseMs s < t) \<longleftrightarrow> \<not> Suc r < length segs"
  proof (cases "Suc r < length segs")
    case True
    then have "t < sessionCloseMs (segs ! Suc r)"
      using ahead [of "Suc r"] sessions_okD(1) [OF assms(1) True] by simp
    then show ?thesis using True by (auto intro!: bexI [of _ "segs ! Suc r"])
  next
    case False
    then show ?thesis using past owned(1) by (auto simp: in_set_conv_nth)
  qed
  ultimately show ?thesis
    using locate_after_close [OF assms(1) owned(1) late owned(3)] band
    by (simp add: sessionPhaseAt_def) blast
qed

text \<open>
  The closing auction of a session: the last ten minutes up to \<open>end\<close>, where \<open>end\<close> is the session
  close (whatever the length of the day) unless the session opens at 09:00 and its display window
  runs past the official close.
\<close>

lemma auction_inside:
  assumes "sessions_ok segs" "r < length segs" "sessionOpenMs (segs ! r) \<le> t" "t \<le> sessionCloseMs (segs ! r)"
  shows "isClosingAuction segs t \<longleftrightarrow>
    (case auctionWindow (segs ! r) of None \<Rightarrow> False | Some (s, e) \<Rightarrow> s \<le> t \<and> t \<le> e)"
  using locate_inside [OF assms] assms(3,4)
  by (auto simp: isClosingAuction_def sessionPhaseAt_def classifyWithinSegment_def Let_def
      PRE_OPEN_WINDOW_LENGTH_MS_def split: option.splits)

text \<open>
  The closing auction is part of the regular session, and on a session that opens neither at
  08:00 nor at 09:00, or at 09:00 before the aftermarket was introduced (half days included), it is
  exactly the last ten minutes before the session's own close.
\<close>

lemma closing_auction_band:
  assumes "sessions_ok segs" "r < length segs" "sessionOpenMs (segs ! r) \<le> t" "t \<le> sessionCloseMs (segs ! r)"
    and "unixMsToKSTHhmm (sessionOpenMs (segs ! r)) \<noteq> Some 800"
    and "unixMsToKSTHhmm (sessionOpenMs (segs ! r)) = Some 900 \<Longrightarrow>
      \<not> krxAftermarketIntroduced (kst_date_text (sessionOpenMs (segs ! r)))"
  shows "isRegularSession segs t \<and>
    (isClosingAuction segs t \<longleftrightarrow> sessionCloseMs (segs ! r) - 600000 \<le> t)"
proof (rule conjI)
  show "isRegularSession segs t"
    using regular_iff_contained [OF assms(1), of t] assms(2-4) nth_mem by blast
  have "auctionWindow (segs ! r) =
      Some (sessionCloseMs (segs ! r) - AUCTION_WINDOW_LENGTH_MS, sessionCloseMs (segs ! r))"
    using assms(5,6) by (auto simp: auctionWindow_def krxRegularCloseFromWindow_def Let_def)
  then show "isClosingAuction segs t \<longleftrightarrow> sessionCloseMs (segs ! r) - 600000 \<le> t"
    using auction_inside [OF assms(1-4)] assms(4) by (auto simp: AUCTION_WINDOW_LENGTH_MS_def)
qed

subsection \<open>Witnesses\<close>

text \<open>A full day (09:00 to 15:30 KST) and a half day (09:00 to 12:30 KST) of January 1970.\<close>

definition two_days :: "session_segment list" where
  "two_days = [\<lparr>sessionOpenMs = 0, sessionCloseMs = 23400000\<rparr>,
     \<lparr>sessionOpenMs = 86400000, sessionCloseMs = 99000000\<rparr>]"

lemma two_days_ok: "sessions_ok two_days"
  by (simp add: two_days_def sessions_ok_def)

end
