(* ===== verification/VirtualAxis.thy ===== *)
theory VirtualAxis
  imports SessionTime
begin

section \<open>The virtual time axis\<close>

text \<open>
  \<open>buildSegments\<close> of \<open>util/time.ts\<close> and \<open>util/virtualAxis.ts\<close>: trading days are stitched onto one
  virtual time line, one second apart. The frozen object the factory returns is a record; its
  methods are functions of that record. The development-mode console warning of
  \<open>buildSegments\<close> has no effect on the result and is left out.
\<close>

record raw_session = session_segment +
  date :: string

record segment = raw_session +
  virtualStart :: ms

datatype VirtualAxisMode = Intraday | CalendarMode

record DayBoundary =
  boundaryDate :: string
  boundaryStart :: ms

record VirtualAxis =
  mode :: VirtualAxisMode
  segments :: "segment list"
  realSegments :: "segment list"
  dayBoundaries :: "DayBoundary list"

definition INTER_SEGMENT_GAP_MS :: ms where
  "INTER_SEGMENT_GAP_MS = 1000"

fun buildSegments :: "raw_session list \<Rightarrow> ms \<Rightarrow> segment list" where
  "buildSegments [] cursor = []"
| "buildSegments (r # rs) cursor =
     \<lparr>sessionOpenMs = sessionOpenMs r, sessionCloseMs = sessionCloseMs r, date = date r,
      virtualStart = cursor\<rparr>
     # buildSegments rs (cursor + (sessionCloseMs r - sessionOpenMs r + INTER_SEGMENT_GAP_MS))"

fun buildCalendarSegments :: "raw_session list \<Rightarrow> ms \<Rightarrow> segment list" where
  "buildCalendarSegments [] cursor = []"
| "buildCalendarSegments (r # rs) cursor =
     \<lparr>sessionOpenMs = sessionOpenMs r, sessionCloseMs = sessionOpenMs r, date = date r,
      virtualStart = cursor\<rparr>
     # buildCalendarSegments rs (cursor + INTER_SEGMENT_GAP_MS)"

definition createVirtualAxis :: "raw_session list \<Rightarrow> ms \<Rightarrow> VirtualAxisMode \<Rightarrow> VirtualAxis" where
  "createVirtualAxis rawSegments originMs m =
     (let segs = (if m = CalendarMode then buildCalendarSegments rawSegments originMs
                  else buildSegments rawSegments originMs);
          real = (if m = CalendarMode then buildSegments rawSegments originMs else segs)
      in \<lparr>mode = m, segments = segs, realSegments = real,
          dayBoundaries = map (\<lambda>s. \<lparr>boundaryDate = date s, boundaryStart = virtualStart s\<rparr>) (drop 1 segs)\<rparr>)"

definition virtualEnd :: "segment \<Rightarrow> ms" where
  "virtualEnd seg = virtualStart seg + (sessionCloseMs seg - sessionOpenMs seg)"

definition findByVirtual :: "VirtualAxis \<Rightarrow> ms \<Rightarrow> int" where
  "findByVirtual ax virtualMs =
     (if segments ax = [] then -1
      else if virtualMs < virtualStart (segments ax ! 0) then -1
      else last_sat (\<lambda>i. virtualStart (segments ax ! nat i) \<le> virtualMs) 0 (int (length (segments ax)) - 1) 0)"

definition findByReal :: "VirtualAxis \<Rightarrow> ms \<Rightarrow> int" where
  "findByReal ax realMs =
     (if realSegments ax = [] then -1
      else if realMs < sessionOpenMs (realSegments ax ! 0) then -1
      else last_sat (\<lambda>i. sessionOpenMs (realSegments ax ! nat i) \<le> realMs) 0 (int (length (realSegments ax)) - 1) 0)"

definition toVirtual :: "VirtualAxis \<Rightarrow> ms \<Rightarrow> ms" where
  "toVirtual ax realMs =
     (if segments ax = [] then 0
      else if mode ax = CalendarMode
      then if realMs \<le> sessionOpenMs (realSegments ax ! 0) then virtualStart (segments ax ! 0)
           else let idx = findByReal ax realMs in
             if idx < 0 then virtualStart (segments ax ! 0)
             else if realMs \<le> sessionCloseMs (realSegments ax ! nat idx) then virtualStart (segments ax ! nat idx)
             else (case js_at (segments ax) (idx + 1) of Some nxt \<Rightarrow> virtualStart nxt
                   | None \<Rightarrow> virtualStart (segments ax ! nat idx))
      else if realMs \<le> sessionOpenMs (segments ax ! 0) then virtualStart (segments ax ! 0)
      else let idx = findByReal ax realMs; seg = segments ax ! nat idx in
        if realMs \<le> sessionCloseMs seg then virtualStart seg + (realMs - sessionOpenMs seg)
        else (case js_at (segments ax) (idx + 1) of Some nxt \<Rightarrow> virtualStart nxt | None \<Rightarrow> virtualEnd seg))"

definition toReal :: "VirtualAxis \<Rightarrow> ms \<Rightarrow> ms" where
  "toReal ax virtualMs =
     (if segments ax = [] then 0
      else if virtualMs \<le> virtualStart (segments ax ! 0) then sessionOpenMs (segments ax ! 0)
      else let idx = findByVirtual ax virtualMs in
        if idx < 0 then sessionOpenMs (segments ax ! 0)
        else if mode ax = CalendarMode then sessionOpenMs (realSegments ax ! nat idx)
        else let seg = segments ax ! nat idx; offset = virtualMs - virtualStart seg;
                 sessionLen = sessionCloseMs seg - sessionOpenMs seg in
          if sessionLen \<le> offset
          then (case js_at (segments ax) (idx + 1) of
                 Some nxt \<Rightarrow> if virtualStart nxt \<le> virtualMs then sessionOpenMs nxt else sessionCloseMs seg
               | None \<Rightarrow> sessionCloseMs seg)
          else sessionOpenMs seg + offset)"

definition contains :: "VirtualAxis \<Rightarrow> ms \<Rightarrow> bool" where
  "contains ax realMs = isRegularSession (realSegments ax) realMs"

text \<open>The loop of \<open>isInGap\<close>, from the current segment on.\<close>

fun gap_scan :: "segment list \<Rightarrow> ms \<Rightarrow> bool" where
  "gap_scan [] realMs = False"
| "gap_scan (seg # rest) realMs =
     (if sessionOpenMs seg \<le> realMs \<and> realMs \<le> sessionCloseMs seg then False
      else if sessionCloseMs seg < realMs
      then (case rest of [] \<Rightarrow> True
            | nxt # _ \<Rightarrow> if realMs < sessionOpenMs nxt then True else gap_scan rest realMs)
      else gap_scan rest realMs)"

definition isInGap :: "VirtualAxis \<Rightarrow> ms \<Rightarrow> bool" where
  "isInGap ax realMs =
     (if realSegments ax = [] then False
      else if realMs < sessionOpenMs (realSegments ax ! 0) then False
      else gap_scan (realSegments ax) realMs)"

definition inClosingAuctionWindow :: "VirtualAxis \<Rightarrow> ms \<Rightarrow> bool" where
  "inClosingAuctionWindow ax realMs = isClosingAuction (realSegments ax) realMs"

record projection =
  contained :: bool
  inAuction :: bool
  virtual :: ms

definition classifyAndProject :: "VirtualAxis \<Rightarrow> ms \<Rightarrow> projection" where
  "classifyAndProject ax realMs =
     (case locateSegment (realSegments ax) realMs of (idx, phase) \<Rightarrow>
        if \<not> (phase = Regular \<or> phase = Auction)
        then \<lparr>contained = False, inAuction = False, virtual = 0\<rparr>
        else let seg = realSegments ax ! nat idx in
          \<lparr>contained = True, inAuction = (phase = Auction),
           virtual = (if mode ax = CalendarMode then virtualStart (segments ax ! nat idx)
                      else virtualStart seg + (realMs - sessionOpenMs seg))\<rparr>)"

subsection \<open>Layout of the segments\<close>

lemma length_buildSegments [simp]: "length (buildSegments raw c) = length raw"
  by (induction raw arbitrary: c) simp_all

lemma length_buildCalendarSegments [simp]: "length (buildCalendarSegments raw c) = length raw"
  by (induction raw arbitrary: c) simp_all

lemma buildSegments_nth:
  assumes "i < length raw"
  shows "sessionOpenMs (buildSegments raw c ! i) = sessionOpenMs (raw ! i)"
    and "sessionCloseMs (buildSegments raw c ! i) = sessionCloseMs (raw ! i)"
    and "date (buildSegments raw c ! i) = date (raw ! i)"
  using assms by (induction raw arbitrary: c i) (auto simp: nth_Cons split: nat.splits)

lemma buildCalendarSegments_nth:
  assumes "i < length raw"
  shows "sessionOpenMs (buildCalendarSegments raw c ! i) = sessionOpenMs (raw ! i)"
    and "virtualStart (buildCalendarSegments raw c ! i) = c + int i * 1000"
  using assms
  by (induction raw arbitrary: c i) (auto simp: nth_Cons INTER_SEGMENT_GAP_MS_def algebra_simps split: nat.splits)

lemma buildSegments_start0: "raw \<noteq> [] \<Longrightarrow> virtualStart (buildSegments raw c ! 0) = c"
  by (cases raw) simp_all

lemma buildSegments_start_Suc:
  "Suc i < length raw \<Longrightarrow> virtualStart (buildSegments raw c ! Suc i) =
     virtualStart (buildSegments raw c ! i) + (sessionCloseMs (raw ! i) - sessionOpenMs (raw ! i)) + 1000"
proof (induction raw arbitrary: c i)
  case Nil
  then show ?case by simp
next
  case (Cons r raw)
  show ?case
  proof (cases i)
    case 0
    then show ?thesis using Cons.prems buildSegments_start0 [of raw] by (simp add: INTER_SEGMENT_GAP_MS_def)
  next
    case (Suc k)
    then show ?thesis using Cons by simp
  qed
qed

lemma sessions_ok_build:
  assumes "sessions_ok raw"
  shows "sessions_ok (buildSegments raw c)"
  using sessions_okD [OF assms]
  by (auto simp: sessions_ok_def sorted_wrt_iff_nth_less in_set_conv_nth buildSegments_nth)

lemma start_later:
  assumes "sessions_ok raw" "i < j" "j < length raw"
  shows "virtualEnd (buildSegments raw c ! i) + 1000 \<le> virtualStart (buildSegments raw c ! j)"
  using assms(2,3)
proof (induction j)
  case 0
  then show ?case by simp
next
  case (Suc j)
  have len: "0 \<le> sessionCloseMs (raw ! j) - sessionOpenMs (raw ! j)"
    using sessions_okD(1) [OF assms(1), of j] Suc.prems by simp
  show ?case
    using Suc buildSegments_start_Suc [OF Suc.prems(2), of c] len
    by (cases "i = j") (auto simp: virtualEnd_def buildSegments_nth)
qed

text \<open>Segment lists whose virtual starts do not decrease are a table keyed by them.\<close>

interpretation starts: keyed_table "\<lambda>segs. sorted (map virtualStart segs)" length
  "\<lambda>segs i. virtualStart (segs ! i)"
  by unfold_locales (simp add: sorted_iff_nth_mono)

lemma sorted_starts_build:
  assumes "sessions_ok raw"
  shows "sorted (map virtualStart (buildSegments raw c))"
proof -
  have "virtualStart (buildSegments raw c ! i) \<le> virtualStart (buildSegments raw c ! j)"
    if "i < j" "j < length raw" for i j
    using start_later [OF assms that, of c] sessions_okD(1) [OF assms, of i] that
    by (simp add: virtualEnd_def buildSegments_nth)
  then show ?thesis by (auto simp: sorted_iff_nth_mono_less)
qed

lemma sorted_starts_calendar: "sorted (map virtualStart (buildCalendarSegments raw c))"
  by (auto simp: sorted_iff_nth_mono buildCalendarSegments_nth)

subsection \<open>Intraday axes\<close>

lemma intraday_axis [simp]:
  "segments (createVirtualAxis raw c Intraday) = buildSegments raw c"
  "realSegments (createVirtualAxis raw c Intraday) = buildSegments raw c"
  "mode (createVirtualAxis raw c Intraday) = Intraday"
  by (simp_all add: createVirtualAxis_def Let_def)

lemma calendar_axis [simp]:
  "segments (createVirtualAxis raw c CalendarMode) = buildCalendarSegments raw c"
  "realSegments (createVirtualAxis raw c CalendarMode) = buildSegments raw c"
  "mode (createVirtualAxis raw c CalendarMode) = CalendarMode"
  by (simp_all add: createVirtualAxis_def Let_def)

lemma real_build [simp]: "realSegments (createVirtualAxis raw c m) = buildSegments raw c"
  by (cases m) simp_all

lemma build_empty_iff [simp]: "buildSegments raw c = [] \<longleftrightarrow> raw = []"
  "buildCalendarSegments raw c = [] \<longleftrightarrow> raw = []"
  by (cases raw; simp)+

text \<open>The index search on reals finds the last session open at the instant.\<close>

lemma findByReal_at:
  assumes "sessions_ok raw" "r < length raw" "sessionOpenMs (raw ! r) \<le> t"
    and "Suc r < length raw \<Longrightarrow> t < sessionOpenMs (raw ! Suc r)"
  shows "findByReal (createVirtualAxis raw c m) t = int r"
proof -
  let ?segs = "buildSegments raw c"
  have "sessionOpenMs (raw ! 0) \<le> t"
    using opens.key_mono [OF assms(1), of 0 r] assms(2,3) by simp
  then have first: "\<not> t < sessionOpenMs (?segs ! 0)"
    using assms(2) by (subst buildSegments_nth) auto
  have "last_sat (\<lambda>i. sessionOpenMs (?segs ! nat i) \<le> t) 0 (int (length ?segs) - 1) 0 = int r"
    using assms by (intro opens.last_le_eq sessions_ok_build) (simp_all add: buildSegments_nth)
  then show ?thesis using first assms(2) by (auto simp: findByReal_def)
qed

text \<open>Where an instant inside a session, in the gap behind it, or behind the last close goes.\<close>

lemma toVirtual_inside:
  assumes "sessions_ok raw" "r < length raw" "sessionOpenMs (raw ! r) \<le> t" "t \<le> sessionCloseMs (raw ! r)"
  shows "toVirtual (createVirtualAxis raw c Intraday) t =
    virtualStart (buildSegments raw c ! r) + (t - sessionOpenMs (raw ! r))"
proof (cases "t \<le> sessionOpenMs (raw ! 0)")
  case True
  have "r = 0"
  proof (rule ccontr)
    assume "r \<noteq> 0"
    then have "sessionCloseMs (raw ! 0) < sessionOpenMs (raw ! r)"
      using sessions_okD(2) [OF assms(1), of 0 r] assms(2) by simp
    moreover have "sessionOpenMs (raw ! 0) \<le> sessionCloseMs (raw ! 0)"
      using sessions_okD(1) [OF assms(1), of 0] assms(2) by (metis gr_zeroI not_less0)
    ultimately show False using True assms(3) by simp
  qed
  then show ?thesis
    using True assms(2,3) by (auto simp: toVirtual_def buildSegments_nth)
next
  case False
  have "t < sessionOpenMs (raw ! Suc r)" if "Suc r < length raw"
    using sessions_okD(2) [OF assms(1) _ that, of r] assms(4) by simp
  then have "findByReal (createVirtualAxis raw c Intraday) t = int r"
    using assms(1-3) by (rule_tac findByReal_at) simp_all
  moreover have "raw \<noteq> []" using assms(2) by auto
  ultimately show ?thesis
    using False assms by (auto simp: toVirtual_def Let_def buildSegments_nth)
qed

lemma toVirtual_after:
  assumes "sessions_ok raw" "r < length raw" "sessionCloseMs (raw ! r) < t"
    and "Suc r < length raw \<Longrightarrow> t < sessionOpenMs (raw ! Suc r)"
  shows "toVirtual (createVirtualAxis raw c Intraday) t =
    (if Suc r < length raw then virtualStart (buildSegments raw c ! Suc r)
     else virtualEnd (buildSegments raw c ! r))"
proof -
  have o: "sessionOpenMs (raw ! r) \<le> t" using sessions_okD(1) [OF assms(1,2)] assms(3) by simp
  have "sessionOpenMs (raw ! 0) \<le> sessionOpenMs (raw ! r)"
    using opens.key_mono [OF assms(1), of 0 r] assms(2) by simp
  then have "\<not> t \<le> sessionOpenMs (raw ! 0)"
    using sessions_okD(1) [OF assms(1,2)] assms(3) by simp
  moreover have "findByReal (createVirtualAxis raw c Intraday) t = int r"
    using findByReal_at [OF assms(1,2) o assms(4)] by simp
  moreover have "raw \<noteq> []" using assms(2) by auto
  ultimately show ?thesis
    using assms(2,3) by (auto simp: toVirtual_def Let_def buildSegments_nth)
qed

lemma toVirtual_before:
  "raw \<noteq> [] \<Longrightarrow> t \<le> sessionOpenMs (raw ! 0) \<Longrightarrow> toVirtual (createVirtualAxis raw c Intraday) t = c"
  by (simp add: toVirtual_def buildSegments_nth buildSegments_start0)

text \<open>The index search on virtual time finds the segment that owns a virtual instant.\<close>

lemma findByVirtual_at:
  assumes "sessions_ok raw" "r < length raw" "virtualStart (buildSegments raw c ! r) \<le> v"
    and "v \<le> virtualEnd (buildSegments raw c ! r)"
  shows "findByVirtual (createVirtualAxis raw c Intraday) v = int r"
proof -
  let ?segs = "buildSegments raw c"
  note s = sorted_starts_build [OF assms(1), of c]
  have "virtualStart (?segs ! 0) \<le> v"
    using starts.key_mono [OF s, of 0 r] assms(2,3) by simp
  moreover have "last_sat (\<lambda>i. virtualStart (?segs ! nat i) \<le> v) 0 (int (length ?segs) - 1) 0 = int r"
    using assms start_later [OF assms(1), of r "Suc r" c] by (intro starts.last_le_eq [OF s]) auto
  ultimately show ?thesis using assms(2) by (auto simp: findByVirtual_def)
qed

lemma toReal_inside:
  assumes "sessions_ok raw" "r < length raw" "virtualStart (buildSegments raw c ! r) \<le> v"
    and "v \<le> virtualEnd (buildSegments raw c ! r)"
  shows "toReal (createVirtualAxis raw c Intraday) v =
    sessionOpenMs (raw ! r) + (v - virtualStart (buildSegments raw c ! r))"
proof (cases "v \<le> virtualStart (buildSegments raw c ! 0)")
  case True
  have "r = 0"
  proof (rule ccontr)
    assume "r \<noteq> 0"
    then have "virtualEnd (buildSegments raw c ! 0) + 1000 \<le> virtualStart (buildSegments raw c ! r)"
      using start_later [OF assms(1), of 0 r c] assms(2) by simp
    moreover have "virtualStart (buildSegments raw c ! 0) \<le> virtualEnd (buildSegments raw c ! 0)"
      using sessions_okD(1) [OF assms(1), of 0] assms(2)
      by (cases raw) (auto simp: virtualEnd_def buildSegments_nth)
    ultimately show False using True assms(3) by simp
  qed
  then show ?thesis using True assms(2,3) by (auto simp: toReal_def buildSegments_nth)
next
  case False
  have len: "sessionOpenMs (raw ! r) \<le> sessionCloseMs (raw ! r)" by (rule sessions_okD(1) [OF assms(1,2)])
  have nxt: "v < virtualStart (buildSegments raw c ! Suc r)" if "Suc r < length raw"
    using start_later [OF assms(1) _ that, of r c] assms(4) by simp
  show ?thesis
    using False findByVirtual_at [OF assms] assms(2-4) nxt
    by (auto simp: toReal_def Let_def virtualEnd_def buildSegments_nth)
qed

text \<open>Contained instants are those inside a session of the axis.\<close>

lemma contains_iff:
  assumes "sessions_ok raw"
  shows "contains (createVirtualAxis raw c m) t \<longleftrightarrow>
    (\<exists>r < length raw. sessionOpenMs (raw ! r) \<le> t \<and> t \<le> sessionCloseMs (raw ! r))"
proof -
  have "(\<exists>s \<in> set (buildSegments raw c). sessionOpenMs s \<le> t \<and> t \<le> sessionCloseMs s) \<longleftrightarrow>
      (\<exists>r < length raw. sessionOpenMs (buildSegments raw c ! r) \<le> t \<and> t \<le> sessionCloseMs (buildSegments raw c ! r))"
    by (metis in_set_conv_nth length_buildSegments)
  then show ?thesis
    using regular_iff_contained [OF sessions_ok_build [OF assms], of c t]
    by (simp add: contains_def buildSegments_nth cong: conj_cong)
qed

text \<open>
  C21. On the stitched axis every in-session instant survives the trip to virtual time and real_v, and
  every virtual instant inside a segment survives the opposite trip: the projection loses nothing
  the chart can show.
\<close>

theorem axis_roundtrip:
  assumes "sessions_ok raw"
  shows "(contains (createVirtualAxis raw c Intraday) t \<longrightarrow>
      toReal (createVirtualAxis raw c Intraday) (toVirtual (createVirtualAxis raw c Intraday) t) = t)
    \<and> (\<forall>seg \<in> set (segments (createVirtualAxis raw c Intraday)).
        virtualStart seg \<le> v \<and> v \<le> virtualEnd seg \<longrightarrow>
        toVirtual (createVirtualAxis raw c Intraday) (toReal (createVirtualAxis raw c Intraday) v) = v)"
proof (intro conjI impI ballI)
  let ?ax = "createVirtualAxis raw c Intraday"
  assume "contains ?ax t"
  then obtain r where r: "r < length raw" "sessionOpenMs (raw ! r) \<le> t" "t \<le> sessionCloseMs (raw ! r)"
    using contains_iff [OF assms] by blast
  note v = toVirtual_inside [OF assms r, of c]
  have "toReal ?ax (toVirtual ?ax t) = sessionOpenMs (raw ! r) +
      (toVirtual ?ax t - virtualStart (buildSegments raw c ! r))"
    using r v by (intro toReal_inside [OF assms r(1)]) (simp_all add: virtualEnd_def buildSegments_nth)
  then show "toReal ?ax (toVirtual ?ax t) = t" using v by simp
next
  let ?ax = "createVirtualAxis raw c Intraday"
  fix seg
  assume "seg \<in> set (segments ?ax)" and v: "virtualStart seg \<le> v \<and> v \<le> virtualEnd seg"
  then obtain r where r: "r < length raw" "seg = buildSegments raw c ! r"
    by (auto simp: in_set_conv_nth)
  have real_v: "toReal ?ax v = sessionOpenMs (raw ! r) + (v - virtualStart seg)"
    using toReal_inside [OF assms r(1)] v r(2) by simp
  have "toVirtual ?ax (toReal ?ax v) = virtualStart seg + (toReal ?ax v - sessionOpenMs (raw ! r))"
    using toVirtual_inside [OF assms r(1), of "toReal ?ax v" c] real_v v r
    by (simp add: virtualEnd_def buildSegments_nth)
  then show "toVirtual ?ax (toReal ?ax v) = v" using real_v by simp
qed

subsection \<open>Order\<close>

text \<open>Where every instant lies relative to a well-formed list of sessions.\<close>

lemma axis_cases [consumes 1, case_names empty before inside after]:
  assumes "sessions_ok raw"
  obtains "raw = []"
  | "raw \<noteq> []" "t < sessionOpenMs (raw ! 0)"
  | r where "r < length raw" "sessionOpenMs (raw ! r) \<le> t" "t \<le> sessionCloseMs (raw ! r)"
  | r where "r < length raw" "sessionCloseMs (raw ! r) < t" "Suc r < length raw \<Longrightarrow> t < sessionOpenMs (raw ! Suc r)"
  using assms
proof (cases rule: owner_cases [where t = t])
  case before
  then show ?thesis using that(1,2) by blast
next
  case (owned r)
  then show ?thesis using that(3,4) by (meson linorder_not_le)
qed

text \<open>The virtual time of an instant lies in the band its position names.\<close>

lemma toVirtual_ge_inside:
  assumes "sessions_ok raw" "r < length raw" "sessionOpenMs (raw ! r) \<le> t"
  shows "virtualStart (buildSegments raw c ! r) + (min t (sessionCloseMs (raw ! r)) - sessionOpenMs (raw ! r))
    \<le> toVirtual (createVirtualAxis raw c Intraday) t"
  using assms(1)
proof (cases rule: axis_cases [where t = t])
  case empty
  then show ?thesis using assms(2) by simp
next
  case before
  then show ?thesis using assms(2,3) opens.key_mono [OF assms(1), of 0 r] by simp
next
  case (inside q)
  show ?thesis
  proof (cases "q = r")
    case True
    then show ?thesis using toVirtual_inside [OF assms(1) inside] inside by simp
  next
    case False
    then have "r < q"
      using inside(1,3) assms(2,3) sessions_okD(2) [OF assms(1), of q r] by fastforce
    then show ?thesis
      using toVirtual_inside [OF assms(1) inside, of c] inside start_later [OF assms(1) \<open>r < q\<close> inside(1), of c]
        sessions_okD(1) [OF assms(1,2)] assms(2)
      by (simp add: virtualEnd_def buildSegments_nth)
  qed
next
  case (after q)
  note v = toVirtual_after [OF assms(1) after, of c]
  have "r \<le> q"
  proof (rule ccontr)
    assume "\<not> r \<le> q"
    then have "t < sessionOpenMs (raw ! r)"
      using after(3) opens.key_mono [OF assms(1), of "Suc q" r] assms(2) by fastforce
    then show False using assms(3) by simp
  qed
  have le: "virtualEnd (buildSegments raw c ! r) \<le> virtualEnd (buildSegments raw c ! q)"
  proof (cases "r = q")
    case False
    then have "r < q" using \<open>r \<le> q\<close> by simp
    then show ?thesis
      using start_later [OF assms(1) _ after(1), of r c] sessions_okD(1) [OF assms(1) after(1)] after(1)
      by (simp add: virtualEnd_def buildSegments_nth)
  qed simp
  have "virtualEnd (buildSegments raw c ! q) \<le> toVirtual (createVirtualAxis raw c Intraday) t"
    using v start_later [OF assms(1), of q "Suc q" c] by (cases "Suc q < length raw") auto
  then show ?thesis using le assms(2) by (simp add: virtualEnd_def buildSegments_nth)
qed

lemma toVirtual_ge_origin:
  assumes "sessions_ok raw" "raw \<noteq> []"
  shows "c \<le> toVirtual (createVirtualAxis raw c Intraday) t"
proof (cases "t \<le> sessionOpenMs (raw ! 0)")
  case True
  then show ?thesis using toVirtual_before [OF assms(2) True, of c] by simp
next
  case False
  then show ?thesis
    using toVirtual_ge_inside [OF assms(1), of 0 t c] assms(2) sessions_okD(1) [OF assms(1), of 0]
    by (simp add: buildSegments_start0 min_def split: if_splits)
qed

text \<open>
  The projection keeps order: a later instant is never placed to the left of an earlier one, and
  two different in-session instants never share a virtual time, even across a day boundary, where
  the next open lies exactly one second (\<open>INTER_SEGMENT_GAP_MS\<close>) behind the close.
\<close>

lemma axis_order:
  assumes "sessions_ok raw"
  shows "(t \<le> t' \<longrightarrow> toVirtual (createVirtualAxis raw c Intraday) t \<le> toVirtual (createVirtualAxis raw c Intraday) t')
    \<and> (contains (createVirtualAxis raw c Intraday) t \<and> contains (createVirtualAxis raw c Intraday) t' \<and> t < t'
        \<longrightarrow> toVirtual (createVirtualAxis raw c Intraday) t < toVirtual (createVirtualAxis raw c Intraday) t')
    \<and> (Suc r < length raw \<longrightarrow>
        toVirtual (createVirtualAxis raw c Intraday) (sessionOpenMs (raw ! Suc r)) =
        toVirtual (createVirtualAxis raw c Intraday) (sessionCloseMs (raw ! r)) + INTER_SEGMENT_GAP_MS)"
proof (intro conjI impI)
  let ?v = "toVirtual (createVirtualAxis raw c Intraday)"
  assume tt: "t \<le> t'"
  show "?v t \<le> ?v t'"
    using assms
  proof (cases rule: axis_cases [where t = t])
    case empty
    then show ?thesis by (simp add: toVirtual_def)
  next
    case before
    then show ?thesis using toVirtual_before [of raw t c] toVirtual_ge_origin [OF assms, of c t'] by simp
  next
    case (inside q)
    then show ?thesis
      using toVirtual_inside [OF assms inside, of c] toVirtual_ge_inside [OF assms inside(1), of t' c] tt by simp
  next
    case (after q)
    note v = toVirtual_after [OF assms after, of c]
    show ?thesis
    proof (cases "Suc q < length raw \<and> sessionOpenMs (raw ! Suc q) \<le> t'")
      case True
      then show ?thesis
        using v toVirtual_ge_inside [OF assms, of "Suc q" t' c] sessions_okD(1) [OF assms, of "Suc q"]
        by (simp add: min_def split: if_splits)
    next
      case False
      then show ?thesis using v toVirtual_after [OF assms after(1), of t' c] after(2) tt by auto
    qed
  qed
next
  let ?v = "toVirtual (createVirtualAxis raw c Intraday)"
  assume a: "contains (createVirtualAxis raw c Intraday) t \<and> contains (createVirtualAxis raw c Intraday) t' \<and> t < t'"
  obtain q where q: "q < length raw" "sessionOpenMs (raw ! q) \<le> t" "t \<le> sessionCloseMs (raw ! q)"
    using a contains_iff [OF assms] by blast
  obtain q' where q': "q' < length raw" "sessionOpenMs (raw ! q') \<le> t'" "t' \<le> sessionCloseMs (raw ! q')"
    using a contains_iff [OF assms] by blast
  show "?v t < ?v t'"
  proof (cases "q = q'")
    case True
    then show ?thesis using a toVirtual_inside [OF assms q, of c] toVirtual_inside [OF assms q', of c] by simp
  next
    case False
    then have "q < q'"
      using sessions_okD(2) [OF assms, of q' q] q q' a by fastforce
    then show ?thesis
      using start_later [OF assms \<open>q < q'\<close> q'(1), of c] q q'
        toVirtual_inside [OF assms q, of c] toVirtual_inside [OF assms q', of c]
      by (simp add: virtualEnd_def buildSegments_nth)
  qed
next
  assume r: "Suc r < length raw"
  then show "toVirtual (createVirtualAxis raw c Intraday) (sessionOpenMs (raw ! Suc r)) =
      toVirtual (createVirtualAxis raw c Intraday) (sessionCloseMs (raw ! r)) + INTER_SEGMENT_GAP_MS"
    using toVirtual_inside [OF assms r order_refl, of c] buildSegments_start_Suc [OF r, of c]
      toVirtual_inside [OF assms, of r "sessionCloseMs (raw ! r)" c] sessions_okD(1) [OF assms r]
      sessions_okD(1) [OF assms, of r]
    by (simp add: INTER_SEGMENT_GAP_MS_def)
qed

subsection \<open>The single-lookup projection and the gap predicate\<close>

lemma contained_virtual:
  assumes "sessions_ok raw" "r < length raw" "sessionOpenMs (raw ! r) \<le> t" "t \<le> sessionCloseMs (raw ! r)"
  shows "toVirtual (createVirtualAxis raw c m) t = (if m = CalendarMode then virtualStart (buildCalendarSegments raw c ! r)
        else virtualStart (buildSegments raw c ! r) + (t - sessionOpenMs (raw ! r)))"
proof (cases m)
  case Intraday
  then show ?thesis using toVirtual_inside [OF assms, of c] by simp
next
  case CalendarMode
  have "t < sessionOpenMs (raw ! Suc r)" if "Suc r < length raw"
    using sessions_okD(2) [OF assms(1) _ that, of r] assms(4) by simp
  then have fr: "findByReal (createVirtualAxis raw c m) t = int r" using findByReal_at [OF assms(1-3)] by simp
  have "raw \<noteq> []" using assms(2) by auto
  moreover have "r = 0" if "t \<le> sessionOpenMs (raw ! 0)"
    using owner_unique [OF assms(1), of 0 t r] that assms(2-4)
      opens.key_mono [OF assms(1), of 0 r] sessions_okD(2) [OF assms(1), of 0 r]
      sessions_okD(1) [OF assms(1), of 0] \<open>raw \<noteq> []\<close> by (cases "r = 0") auto
  ultimately show ?thesis
    using CalendarMode fr assms(2-4) by (auto simp: toVirtual_def Let_def buildSegments_nth)
qed

text \<open>
  C22. \<open>classifyAndProject\<close>, the one-lookup path of the candle projector, says the same as the three
  separate queries \<open>contains\<close>, \<open>inClosingAuctionWindow\<close> and \<open>toVirtual\<close>, on intraday and calendar
  axes; for an instant it drops it reports no auction and virtual time 0.
\<close>

theorem classify_equals_queries:
  assumes "sessions_ok raw"
  shows "contained (classifyAndProject (createVirtualAxis raw c m) t) = contains (createVirtualAxis raw c m) t
    \<and> inAuction (classifyAndProject (createVirtualAxis raw c m) t) = inClosingAuctionWindow (createVirtualAxis raw c m) t
    \<and> virtual (classifyAndProject (createVirtualAxis raw c m) t) =
        (if contains (createVirtualAxis raw c m) t then toVirtual (createVirtualAxis raw c m) t else 0)"
proof -
  let ?ax = "createVirtualAxis raw c m" and ?segs = "buildSegments raw c"
  obtain idx phase where loc: "locateSegment ?segs t = (idx, phase)" by (cases "locateSegment ?segs t")
  have phase: "sessionPhaseAt ?segs t = phase" by (simp add: sessionPhaseAt_def loc)
  show ?thesis
  proof (cases "contains ?ax t")
    case False
    then have "\<not> (phase = Regular \<or> phase = Auction)"
      by (simp add: contains_def isRegularSession_def phase Let_def)
    then show ?thesis
      using False by (simp add: classifyAndProject_def loc inClosingAuctionWindow_def isClosingAuction_def phase)
  next
    case True
    then obtain r where r: "r < length raw" "sessionOpenMs (raw ! r) \<le> t" "t \<le> sessionCloseMs (raw ! r)"
      using contains_iff [OF assms] by blast
    have "locateSegment ?segs t = (int r, classifyWithinSegment (?segs ! r) t)"
      using r by (intro locate_inside sessions_ok_build assms) (simp_all add: buildSegments_nth)
    then have idx: "idx = int r" using loc by simp
    have ph: "phase = Regular \<or> phase = Auction"
      using True by (simp add: contains_def isRegularSession_def phase Let_def)
    note v = contained_virtual [OF assms r, of c m]
    show ?thesis
      using True ph idx v r(1)
      by (cases m) (auto simp: classifyAndProject_def loc inClosingAuctionWindow_def isClosingAuction_def
          phase Let_def buildSegments_nth)
  qed
qed

lemma gap_scan_spec:
  assumes "sessions_ok segs"
  shows "gap_scan segs t \<longleftrightarrow>
    (\<exists>s \<in> set segs. sessionOpenMs s \<le> t) \<and> (\<forall>s \<in> set segs. \<not> (sessionOpenMs s \<le> t \<and> t \<le> sessionCloseMs s))"
  using assms
proof (induction segs)
  case Nil
  then show ?case by simp
next
  case (Cons seg rest)
  have ok: "sessions_ok rest" "sessionOpenMs seg \<le> sessionCloseMs seg"
    "\<forall>s \<in> set rest. sessionCloseMs seg < sessionOpenMs s"
    using Cons.prems by (simp_all add: sessions_ok_def)
  note IH = Cons.IH [OF ok(1)]
  show ?case
  proof (cases rest)
    case Nil
    then show ?thesis using ok(2) by auto
  next
    case rest: (Cons nxt tl)
    have first: "sessionOpenMs nxt \<le> sessionOpenMs s" if "s \<in> set rest" for s
    proof -
      obtain i where "i < length rest" "s = rest ! i"
        using \<open>s \<in> set rest\<close> by (auto simp: in_set_conv_nth)
      then show ?thesis using opens.key_mono [OF ok(1), of 0 i] rest by simp
    qed
    consider "t < sessionOpenMs seg" | "sessionOpenMs seg \<le> t" "t \<le> sessionCloseMs seg"
      | "sessionCloseMs seg < t" "t < sessionOpenMs nxt" | "sessionOpenMs nxt \<le> t" "sessionCloseMs seg < t"
      using ok(3) rest by fastforce
    then show ?thesis
    proof cases
      case 1
      then have "\<not> sessionOpenMs s \<le> t" if "s \<in> set rest" for s using ok(2,3) that by fastforce
      then show ?thesis using 1 ok(2) IH by simp
    next
      case 2
      then show ?thesis by simp
    next
      case 3
      then have "\<not> sessionOpenMs s \<le> t" if "s \<in> set rest" for s using first [OF that] by simp
      then show ?thesis using 3 ok(2) rest by simp
    next
      case 4
      then have "gap_scan (seg # rest) t = gap_scan rest t" using rest ok(2) by simp
      moreover have "nxt \<in> set rest" using rest by simp
      ultimately show ?thesis using 4 IH by (auto intro: bexI [of _ nxt])
    qed
  qed
qed

text \<open>
  \<open>isInGap\<close> holds exactly for the instants at or after the first open that no session contains,
  so after the first open every instant is either contained or in a gap, never both.
\<close>

lemma gap_iff_not_contained:
  assumes "sessions_ok raw"
  shows "isInGap (createVirtualAxis raw c m) t \<longleftrightarrow>
    raw \<noteq> [] \<and> sessionOpenMs (raw ! 0) \<le> t \<and> \<not> contains (createVirtualAxis raw c m) t"
proof (cases "raw = []")
  case True
  then show ?thesis by (simp add: isInGap_def)
next
  case False
  let ?segs = "buildSegments raw c"
  have head: "sessionOpenMs (?segs ! 0) = sessionOpenMs (raw ! 0)"
    using False by (simp add: buildSegments_nth)
  have "contains (createVirtualAxis raw c m) t \<longleftrightarrow>
      (\<exists>s \<in> set ?segs. sessionOpenMs s \<le> t \<and> t \<le> sessionCloseMs s)"
    using regular_iff_contained [OF sessions_ok_build [OF assms], of c t] by (simp add: contains_def)
  moreover have "\<exists>s \<in> set ?segs. sessionOpenMs s \<le> t" if "sessionOpenMs (raw ! 0) \<le> t"
    by (rule bexI [of _ "?segs ! 0"]) (use that head False in \<open>simp_all del: build_empty_iff\<close>)
  ultimately show ?thesis
    using False gap_scan_spec [OF sessions_ok_build [OF assms], of c t] head
    by (auto simp: isInGap_def)
qed

subsection \<open>Calendar axes\<close>

text \<open>
  On a calendar (D/W/M) axis every instant of the \<open>r\<close>-th day is drawn at the same virtual time, \<open>r\<close>
  seconds after the origin, and that virtual time maps back to the day's open.
\<close>

lemma calendar_slots:
  assumes "sessions_ok raw" "r < length raw" "sessionOpenMs (raw ! r) \<le> t" "t \<le> sessionCloseMs (raw ! r)"
  shows "toVirtual (createVirtualAxis raw c CalendarMode) t = c + int r * INTER_SEGMENT_GAP_MS
    \<and> toReal (createVirtualAxis raw c CalendarMode) (c + int r * INTER_SEGMENT_GAP_MS) = sessionOpenMs (raw ! r)"
proof (rule conjI)
  let ?ax = "createVirtualAxis raw c CalendarMode" and ?segs = "buildCalendarSegments raw c"
  have ne: "raw \<noteq> []" using assms(2) by auto
  have cont: "contains ?ax t" using contains_iff [OF assms(1)] assms(2-4) by blast
  have "locateSegment (buildSegments raw c) t = (int r, classifyWithinSegment (buildSegments raw c ! r) t)"
    using assms by (intro locate_inside sessions_ok_build) (simp_all add: buildSegments_nth)
  moreover have "classifyWithinSegment (buildSegments raw c ! r) t = Regular
      \<or> classifyWithinSegment (buildSegments raw c ! r) t = Auction"
    using assms by (intro classify_inside) (simp_all add: buildSegments_nth)
  ultimately have "virtual (classifyAndProject ?ax t) = virtualStart (?segs ! r)"
    by (auto simp: classifyAndProject_def Let_def)
  then show "toVirtual ?ax t = c + int r * INTER_SEGMENT_GAP_MS"
    using classify_equals_queries [OF assms(1), of c CalendarMode t] cont assms(2)
    by (simp add: buildCalendarSegments_nth INTER_SEGMENT_GAP_MS_def)
  show "toReal ?ax (c + int r * INTER_SEGMENT_GAP_MS) = sessionOpenMs (raw ! r)"
  proof (cases "r = 0")
    case True
    then show ?thesis using ne by (simp add: toReal_def buildCalendarSegments_nth)
  next
    case False
    have "last_sat (\<lambda>i. virtualStart (?segs ! nat i) \<le> c + int r * 1000) 0 (int (length ?segs) - 1) 0 = int r"
      using assms(2) by (intro starts.last_le_eq sorted_starts_calendar) (simp_all add: buildCalendarSegments_nth)
    then have "findByVirtual ?ax (c + int r * INTER_SEGMENT_GAP_MS) = int r"
      using ne by (simp add: findByVirtual_def buildCalendarSegments_nth INTER_SEGMENT_GAP_MS_def)
    then show ?thesis
      using ne False assms(2)
      by (simp add: toReal_def Let_def buildCalendarSegments_nth buildSegments_nth INTER_SEGMENT_GAP_MS_def)
  qed
qed

subsection \<open>Witnesses\<close>

text \<open>A full day and a half day, as in the session theory.\<close>

definition two_raw :: "raw_session list" where
  "two_raw = [\<lparr>sessionOpenMs = 0, sessionCloseMs = 23400000, date = ''19700101''\<rparr>,
     \<lparr>sessionOpenMs = 86400000, sessionCloseMs = 99000000, date = ''19700102''\<rparr>]"

lemma two_raw_ok: "sessions_ok two_raw"
  by (simp add: two_raw_def sessions_ok_def)

lemma two_raw_second:
  "1 < length two_raw" "sessionOpenMs (two_raw ! 1) = 86400000" "sessionCloseMs (two_raw ! 1) = 99000000"
  "Suc 0 < length two_raw" "sessionCloseMs (two_raw ! 0) = 23400000" "sessionOpenMs (two_raw ! 0) = 0"
  "two_raw \<noteq> []"
  by (simp_all add: two_raw_def)

lemma two_raw_contains: "contains (createVirtualAxis two_raw c m) 90000000"
  using contains_iff [OF two_raw_ok] two_raw_second(1-3) by (auto intro!: exI [of _ 1])

lemma axis_roundtrip_witness:
  "sessions_ok two_raw \<and> contains (createVirtualAxis two_raw 5000 Intraday) 90000000
   \<and> toReal (createVirtualAxis two_raw 5000 Intraday)
        (toVirtual (createVirtualAxis two_raw 5000 Intraday) 90000000) = 90000000"
  using axis_roundtrip [OF two_raw_ok, of 5000 90000000] two_raw_contains two_raw_ok by simp

lemma classify_equals_queries_witness:
  "sessions_ok two_raw \<and> contained (classifyAndProject (createVirtualAxis two_raw 0 CalendarMode) 90000000)"
  using classify_equals_queries [OF two_raw_ok, of 0 CalendarMode 90000000] two_raw_contains two_raw_ok by simp

end
