(* ===== verification/ConditionExpression.thy ===== *)
theory ConditionExpression
  imports Prelude
begin

section \<open>Screener condition expressions\<close>

text \<open>
  \<open>screener/conditionExpression.ts\<close>: labels \<open>A, B, \<dots>, Z, AA, \<dots>\<close> for the conditions of a saved
  search, a tokenizer and shunting-yard parser from the user's formula to postfix, and the postfix
  evaluator. Text is a list of UTF-16 code units. Every \<open>throw\<close> is a value of \<open>parse_error\<close>; the
  parser's \<open>position\<close>/\<open>lastIndex\<close> pair is the remaining text.
\<close>

definition and_text :: js_text where "and_text = [65, 78, 68]"
definition or_text :: js_text where "or_text = [79, 82]"
definition korean_and :: js_text where "korean_and = [44536, 47532, 44256]"
definition korean_or :: js_text where "korean_or = [46608, 45716]"

datatype bool_op = AndOp | OrOp
datatype ExpressionToken = Cond nat | Op bool_op
datatype stack_op = Binary bool_op | OpenParen

datatype parse_error = TooLong | EmptyExpression | BadCharacter | MissingOperator | EmptyGroup
  | NoOpenParen | MissingLeft | UnknownCondition js_text | MissingRight | MissingClose

definition MAX_EXPRESSION_LENGTH :: nat where
  "MAX_EXPRESSION_LENGTH = 10000"

subsection \<open>Labels\<close>

fun label_from :: "nat \<Rightarrow> js_text" where
  "label_from n = (if n = 0 then [] else label_from ((n - 1) div 26) @ [65 + (n - 1) mod 26])"

declare label_from.simps [simp del]

definition conditionLabel :: "nat \<Rightarrow> js_text" where
  "conditionLabel index = label_from (index + 1)"

definition defaultExpression :: "nat \<Rightarrow> js_text" where
  "defaultExpression count = join_text ([32] @ and_text @ [32]) (map conditionLabel [0..<count])"

subsection \<open>Tokens\<close>

definition is_letter :: "nat \<Rightarrow> bool" where
  "is_letter c \<longleftrightarrow> 65 \<le> c \<and> c \<le> 90 \<or> 97 \<le> c \<and> c \<le> 122"

definition is_word_char :: "nat \<Rightarrow> bool" where
  "is_word_char c \<longleftrightarrow> is_letter c \<or> 48 \<le> c \<and> c \<le> 57 \<or> c = 95"

definition upper :: "nat \<Rightarrow> nat" where
  "upper c = (if 97 \<le> c \<and> c \<le> 122 then c - 32 else c)"

text \<open>A keyword with the word boundary \<open>\<backslash>b\<close> behind it, case-insensitively.\<close>

definition keyword_at :: "js_text \<Rightarrow> js_text \<Rightarrow> bool" where
  "keyword_at kw s \<longleftrightarrow> map upper (take (length kw) s) = kw
     \<and> (case drop (length kw) s of [] \<Rightarrow> True | c # _ \<Rightarrow> \<not> is_word_char c)"

definition starts_with :: "js_text \<Rightarrow> js_text \<Rightarrow> bool" where
  "starts_with p s \<longleftrightarrow> take (length p) s = p"

text \<open>
  One match of \<open>/\<backslash>s*(AND\<backslash>b|OR\<backslash>b|\<dots>|[A-Z]+|[()])/iy\<close>: the token, with the Korean words mapped to
  \<open>AND\<close>/\<open>OR\<close> and everything else in upper case, and the text behind it.
\<close>

definition next_token :: "js_text \<Rightarrow> (js_text \<times> js_text) option" where
  "next_token text =
     (let s = dropWhile is_space text in
      if keyword_at and_text s then Some (and_text, drop 3 s)
      else if keyword_at or_text s then Some (or_text, drop 2 s)
      else if starts_with korean_and s then Some (and_text, drop 3 s)
      else if starts_with korean_or s then Some (or_text, drop 2 s)
      else if takeWhile is_letter s \<noteq> [] then Some (map upper (takeWhile is_letter s), dropWhile is_letter s)
      else case s of c # rest \<Rightarrow> if c = 40 \<or> c = 41 then Some ([c], rest) else None | [] \<Rightarrow> None)"

lemma next_token_shorter:
  assumes "next_token text = Some (tok, rest)"
  shows "length rest < length text"
proof -
  let ?s = "dropWhile is_space text"
  have le: "length ?s \<le> length text" by (rule length_dropWhile_le)
  have letters: "length (dropWhile is_letter ?s) < length ?s" if "takeWhile is_letter ?s \<noteq> []"
    using that arg_cong [OF takeWhile_dropWhile_id [of is_letter ?s], of length]
    unfolding length_append by (metis length_greater_0_conv less_add_same_cancel2)
  have dropped: "length (drop n ?s) < length ?s" if "?s \<noteq> []" "0 < n" for n using that by simp
  have kws: "?s \<noteq> []" if "keyword_at (x # xs) ?s" for x xs using that by (intro notI) (simp add: keyword_at_def)
  have sts: "?s \<noteq> []" if "starts_with (x # xs) ?s" for x xs using that by (intro notI) (simp add: starts_with_def)
  have "length rest < length ?s"
  proof (cases "keyword_at and_text ?s \<or> keyword_at or_text ?s \<or> starts_with korean_and ?s \<or> starts_with korean_or ?s")
    case True
    then have "?s \<noteq> []"
      using kws sts unfolding and_text_def or_text_def korean_and_def korean_or_def by metis
    moreover have "rest \<in> {drop 3 ?s, drop 2 ?s}"
      using assms True by (auto simp: next_token_def Let_def split: if_splits)
    ultimately show ?thesis using dropped [of 2] dropped [of 3] by fastforce
  next
    case False
    then show ?thesis
      using assms letters by (cases ?s) (auto simp: next_token_def Let_def split: if_splits)
  qed
  then show ?thesis using le by simp
qed

subsection \<open>Parser\<close>

fun precedence :: "bool_op \<Rightarrow> nat" where
  "precedence AndOp = 2"
| "precedence OrOp = 1"

fun pop_to_open :: "stack_op list \<Rightarrow> ExpressionToken list \<Rightarrow> stack_op list \<times> ExpressionToken list" where
  "pop_to_open [] out = ([], out)"
| "pop_to_open (OpenParen # ops) out = (OpenParen # ops, out)"
| "pop_to_open (Binary b # ops) out = pop_to_open ops (out @ [Op b])"

fun pop_binding :: "bool_op \<Rightarrow> stack_op list \<Rightarrow> ExpressionToken list \<Rightarrow> stack_op list \<times> ExpressionToken list" where
  "pop_binding t [] out = ([], out)"
| "pop_binding t (OpenParen # ops) out = (OpenParen # ops, out)"
| "pop_binding t (Binary b # ops) out =
     (if precedence b < precedence t then (Binary b # ops, out) else pop_binding t ops (out @ [Op b]))"

fun drain :: "stack_op list \<Rightarrow> ExpressionToken list \<Rightarrow> parse_error + ExpressionToken list" where
  "drain [] out = Inr out"
| "drain (OpenParen # ops) out = Inl MissingClose"
| "drain (Binary b # ops) out = drain ops (out @ [Op b])"

record parse_state =
  output_queue :: "ExpressionToken list"
  operators :: "stack_op list"
  expectCondition :: bool

text \<open>The \<open>labels\<close> map: the index whose label is the token.\<close>

definition label_index :: "nat \<Rightarrow> js_text \<Rightarrow> nat option" where
  "label_index count tok = find (\<lambda>i. conditionLabel i = tok) [0..<count]"

definition binary_step :: "bool_op \<Rightarrow> parse_state \<Rightarrow> parse_error + parse_state" where
  "binary_step b st =
     (if expectCondition st then Inl MissingLeft
      else case pop_binding b (operators st) (output_queue st) of (ops, out) \<Rightarrow>
        Inr (st\<lparr>output_queue := out, operators := Binary b # ops, expectCondition := True\<rparr>))"

definition token_step :: "nat \<Rightarrow> js_text \<Rightarrow> parse_state \<Rightarrow> parse_error + parse_state" where
  "token_step count tok st =
     (if tok = [40] then
        (if \<not> expectCondition st then Inl MissingOperator
         else Inr (st\<lparr>operators := OpenParen # operators st\<rparr>))
      else if tok = [41] then
        (if expectCondition st then Inl EmptyGroup
         else case pop_to_open (operators st) (output_queue st) of
             ([], _) \<Rightarrow> Inl NoOpenParen
           | (_ # ops, out) \<Rightarrow> Inr (st\<lparr>output_queue := out, operators := ops\<rparr>))
      else if tok = and_text then binary_step AndOp st
      else if tok = or_text then binary_step OrOp st
      else if \<not> expectCondition st then Inl MissingOperator
      else case label_index count tok of
          None \<Rightarrow> Inl (UnknownCondition tok)
        | Some i \<Rightarrow> Inr (st\<lparr>output_queue := output_queue st @ [Cond i], expectCondition := False\<rparr>))"

function parse_loop :: "nat \<Rightarrow> js_text \<Rightarrow> parse_state \<Rightarrow> parse_error + parse_state" where
  "parse_loop count text st =
     (if text = [] then Inr st
      else case next_token text of
          None \<Rightarrow> Inl BadCharacter
        | Some (tok, rest) \<Rightarrow>
            (case token_step count tok st of Inl e \<Rightarrow> Inl e | Inr st' \<Rightarrow> parse_loop count rest st'))"
  by pat_completeness auto
termination
  by (relation "measure (\<lambda>(c, text, st). length text)") (auto dest: next_token_shorter)

declare parse_loop.simps [simp del]

definition null_tokens :: "nat \<Rightarrow> ExpressionToken list" where
  "null_tokens count = concat (map (\<lambda>i. if i = 0 then [Cond i] else [Cond i, Op AndOp]) [0..<count])"

definition init_parse :: parse_state where
  "init_parse = \<lparr>output_queue = [], operators = [], expectCondition = True\<rparr>"

definition parseExpression :: "js_text option \<Rightarrow> nat \<Rightarrow> parse_error + ExpressionToken list" where
  "parseExpression expression count =
     (case expression of
        None \<Rightarrow> Inr (null_tokens count)
      | Some expr \<Rightarrow>
          if MAX_EXPRESSION_LENGTH < length expr then Inl TooLong
          else let text = trim_text expr in
            if text = [] then (if count = 0 then Inr [] else Inl EmptyExpression)
            else (case parse_loop count text init_parse of
                Inl e \<Rightarrow> Inl e
              | Inr st \<Rightarrow> if expectCondition st then Inl MissingRight else drain (operators st) (output_queue st)))"

definition expressionError :: "js_text option \<Rightarrow> nat \<Rightarrow> parse_error option" where
  "expressionError expression count =
     (case parseExpression expression count of Inr _ \<Rightarrow> None | Inl e \<Rightarrow> Some e)"

subsection \<open>Evaluator\<close>

text \<open>
  The evaluation stack, top first. \<open>pop\<close> on an empty stack is \<open>undefined\<close> (\<open>None\<close>), which is
  falsy; the result is \<open>stack[0] ?? true\<close>, the bottom of the stack.
\<close>

type_synonym js_bool = "bool option"

definition js_and :: "js_bool \<Rightarrow> js_bool \<Rightarrow> js_bool" where
  "js_and l r = (if l = Some True then r else l)"

definition js_or :: "js_bool \<Rightarrow> js_bool \<Rightarrow> js_bool" where
  "js_or l r = (if l = Some True then l else r)"

definition pop :: "js_bool list \<Rightarrow> js_bool \<times> js_bool list" where
  "pop st = (case st of [] \<Rightarrow> (None, []) | x # xs \<Rightarrow> (x, xs))"

fun eval_step :: "(nat \<Rightarrow> bool) \<Rightarrow> js_bool list \<Rightarrow> ExpressionToken \<Rightarrow> js_bool list" where
  "eval_step matches st (Cond i) = Some (matches i) # st"
| "eval_step matches st (Op b) =
     (case pop st of (right, st1) \<Rightarrow> case pop st1 of (left, st2) \<Rightarrow>
        (case b of AndOp \<Rightarrow> js_and left right | OrOp \<Rightarrow> js_or left right) # st2)"

definition evaluateExpression :: "ExpressionToken list \<Rightarrow> (nat \<Rightarrow> bool) \<Rightarrow> bool" where
  "evaluateExpression tokens matches =
     (let st = foldl (eval_step matches) [] tokens in
      if st = [] then True else (case last st of None \<Rightarrow> True | Some b \<Rightarrow> b))"

definition referencedConditions :: "'c list \<Rightarrow> js_text option \<Rightarrow> parse_error + 'c list" where
  "referencedConditions conditions expression =
     (case parseExpression expression (length conditions) of
        Inl e \<Rightarrow> Inl e
      | Inr toks \<Rightarrow> Inr (map snd (filter (\<lambda>(i, _). Cond i \<in> set toks) (enumerate 0 conditions))))"

subsection \<open>The abstract specification: Boolean formulas\<close>

datatype formula = FCond nat | FAnd formula formula | FOr formula formula

primrec holds :: "(nat \<Rightarrow> bool) \<Rightarrow> formula \<Rightarrow> bool" where
  "holds m (FCond i) = m i"
| "holds m (FAnd a b) = (holds m a \<and> holds m b)"
| "holds m (FOr a b) = (holds m a \<or> holds m b)"

primrec postfix :: "formula \<Rightarrow> ExpressionToken list" where
  "postfix (FCond i) = [Cond i]"
| "postfix (FAnd a b) = postfix a @ postfix b @ [Op AndOp]"
| "postfix (FOr a b) = postfix a @ postfix b @ [Op OrOp]"

primrec conds :: "formula \<Rightarrow> nat set" where
  "conds (FCond i) = {i}"
| "conds (FAnd a b) = conds a \<union> conds b"
| "conds (FOr a b) = conds a \<union> conds b"

definition combine :: "bool_op \<Rightarrow> formula \<Rightarrow> formula \<Rightarrow> formula" where
  "combine b = (case b of AndOp \<Rightarrow> FAnd | OrOp \<Rightarrow> FOr)"

lemma postfix_combine [simp]: "postfix (combine b x y) = postfix x @ postfix y @ [Op b]"
  by (cases b) (simp_all add: combine_def)

lemma conds_combine [simp]: "conds (combine b x y) = conds x \<union> conds y"
  by (cases b) (simp_all add: combine_def)

lemma postfix_conds: "Cond i \<in> set (postfix e) \<longleftrightarrow> i \<in> conds e"
  by (induction e) auto

lemma postfix_nonempty [simp]: "postfix e \<noteq> []"
  by (cases e) auto

text \<open>Running the postfix of a formula pushes its truth value.\<close>

lemma eval_postfix: "foldl (eval_step m) st (postfix e) = Some (holds m e) # st"
  by (induction e arbitrary: st) (auto simp: pop_def js_and_def js_or_def)

lemma evaluate_postfix: "evaluateExpression (postfix e) m = holds m e"
  by (simp add: evaluateExpression_def eval_postfix)

subsection \<open>Soundness: what the parser accepts is a formula\<close>

definition binaries :: "stack_op list \<Rightarrow> nat" where
  "binaries ops = length (filter (\<lambda>x. x \<noteq> OpenParen) ops)"

lemma binaries_simps [simp]:
  "binaries [] = 0" "binaries (OpenParen # ops) = binaries ops" "binaries (Binary b # ops) = Suc (binaries ops)"
  by (simp_all add: binaries_def)

text \<open>The output is a sequence of complete formulas over the given conditions.\<close>

definition pieces :: "nat \<Rightarrow> nat \<Rightarrow> ExpressionToken list \<Rightarrow> bool" where
  "pieces count n out \<longleftrightarrow>
     (\<exists>es. out = concat (map postfix es) \<and> length es = n \<and> (\<forall>e \<in> set es. conds e \<subseteq> {..<count}))"

lemma pieces_op:
  assumes "pieces count (Suc (Suc n)) out"
  shows "pieces count (Suc n) (out @ [Op b])"
proof -
  obtain es where es: "out = concat (map postfix es)" "length es = Suc (Suc n)"
    "\<forall>e \<in> set es. conds e \<subseteq> {..<count}"
    using assms unfolding pieces_def by blast
  obtain pre x y where p: "es = pre @ [x, y]"
  proof -
    obtain us y where "es = us @ [y]" using es(2) by (metis list.size(3) nat.distinct(1) rev_exhaust)
    moreover then obtain vs x where "us = vs @ [x]"
      using es(2) by (metis append_is_Nil_conv length_append_singleton list.size(3) nat.inject
          nat.distinct(1) rev_exhaust)
    ultimately show thesis using that by simp
  qed
  show ?thesis
    unfolding pieces_def by (rule exI [of _ "pre @ [combine b x y]"]) (use es p in auto)
qed

lemma pieces_cond: "pieces count n out \<Longrightarrow> i < count \<Longrightarrow> pieces count (Suc n) (out @ [Cond i])"
  unfolding pieces_def by (elim exE, rule_tac x = "es @ [FCond i]" in exI) auto

definition parse_inv :: "nat \<Rightarrow> parse_state \<Rightarrow> bool" where
  "parse_inv count st \<longleftrightarrow>
     pieces count (binaries (operators st) + (if expectCondition st then 0 else 1)) (output_queue st)"

lemma pop_to_open_pieces:
  "pieces count (Suc (binaries ops)) out \<Longrightarrow> pop_to_open ops out = (ops', out') \<Longrightarrow>
   pieces count (Suc (binaries ops')) out'"
  by (induction ops out rule: pop_to_open.induct) (auto dest: pieces_op)

lemma pop_to_open_head: "pop_to_open ops out = (x # ops', out') \<Longrightarrow> x = OpenParen"
  by (induction ops out rule: pop_to_open.induct) auto

lemma pop_binding_pieces:
  "pieces count (Suc (binaries ops)) out \<Longrightarrow> pop_binding t ops out = (ops', out') \<Longrightarrow>
   pieces count (Suc (binaries ops')) out'"
  by (induction t ops out rule: pop_binding.induct) (auto dest: pieces_op split: if_splits)

lemma drain_pieces:
  "pieces count (Suc (binaries ops)) out \<Longrightarrow> drain ops out = Inr out' \<Longrightarrow> pieces count 1 out'"
  by (induction ops out rule: drain.induct) (auto dest: pieces_op)

lemma label_index_less: "label_index count tok = Some i \<Longrightarrow> i < count \<and> conditionLabel i = tok"
  by (auto simp: label_index_def find_Some_iff)

lemma binary_step_inv:
  assumes inv: "parse_inv count st" and step: "binary_step b st = Inr st'"
  shows "parse_inv count st'"
proof -
  obtain ops out where p: "pop_binding b (operators st) (output_queue st) = (ops, out)" by fastforce
  have st: "\<not> expectCondition st" "st' = st\<lparr>output_queue := out, operators := Binary b # ops, expectCondition := True\<rparr>"
    using step p by (simp_all add: binary_step_def split: if_splits)
  have "pieces count (Suc (binaries (operators st))) (output_queue st)"
    using inv st(1) by (simp add: parse_inv_def)
  then show ?thesis using pop_binding_pieces [OF _ p] st(2) by (simp add: parse_inv_def)
qed

lemma token_step_inv:
  assumes inv: "parse_inv count st" and step: "token_step count tok st = Inr st'"
  shows "parse_inv count st'"
proof -
  consider "tok = [40]" | "tok = [41]" | b where "binary_step b st = Inr st'"
    | i where "label_index count tok = Some i" "expectCondition st"
        "st' = st\<lparr>output_queue := output_queue st @ [Cond i], expectCondition := False\<rparr>"
  proof (cases "tok = [40] \<or> tok = [41] \<or> tok = and_text \<or> tok = or_text")
    case True
    then show thesis
      using step that(1,2) that(3) [of AndOp] that(3) [of OrOp]
      by (auto simp: token_step_def and_text_def or_text_def)
  next
    case False
    then show thesis using step that(4) by (auto simp: token_step_def split: if_splits option.splits)
  qed
  then show ?thesis
  proof cases
    case 1
    then show ?thesis using inv step by (auto simp: token_step_def parse_inv_def split: if_splits)
  next
    case 2
    then obtain x ops out where p: "pop_to_open (operators st) (output_queue st) = (x # ops, out)"
      "\<not> expectCondition st" "st' = st\<lparr>output_queue := out, operators := ops\<rparr>"
      using step by (auto simp: token_step_def split: if_splits prod.splits list.splits)
    moreover have "x = OpenParen" using p(1) by (rule pop_to_open_head)
    ultimately show ?thesis
      using inv pop_to_open_pieces [OF _ p(1), of count] by (simp add: parse_inv_def)
  next
    case 3
    then show ?thesis using inv by (blast intro: binary_step_inv)
  next
    case 4
    then show ?thesis
      using inv label_index_less [OF 4(1)] pieces_cond by (simp add: parse_inv_def)
  qed
qed

lemma parse_loop_step:
  assumes "parse_loop count inp st = Inr st'" "inp \<noteq> []"
  obtains tok rest st1 where "next_token inp = Some (tok, rest)" "token_step count tok st = Inr st1"
    "parse_loop count rest st1 = Inr st'"
  using assms by (subst (asm) parse_loop.simps) (auto split: option.splits sum.splits)

lemma parse_loop_inv: "parse_inv count st \<Longrightarrow> parse_loop count inp st = Inr st' \<Longrightarrow> parse_inv count st'"
proof (induction "length inp" arbitrary: inp st rule: less_induct)
  case less
  show ?case
  proof (cases "inp = []")
    case True
    then show ?thesis using less.prems by (simp add: parse_loop.simps [of count "[]" st])
  next
    case False
    then obtain tok rest st1 where s: "next_token inp = Some (tok, rest)" "token_step count tok st = Inr st1"
      "parse_loop count rest st1 = Inr st'"
      using parse_loop_step [OF less.prems(2) False] by blast
    show ?thesis
      by (rule less.hyps [OF next_token_shorter [OF s(1)] token_step_inv [OF less.prems(1) s(2)] s(3)])
  qed
qed

lemma null_tokens_Suc: "null_tokens (Suc n) = null_tokens n @ (if n = 0 then [Cond n] else [Cond n, Op AndOp])"
  by (simp add: null_tokens_def)

lemma all_less_Suc_last: "(\<forall>i < Suc n. P i) \<longleftrightarrow> (\<forall>i < n. P i) \<and> P n"
  using less_Suc_eq by auto

lemma null_tokens_formula:
  "0 < count \<Longrightarrow> \<exists>e. null_tokens count = postfix e \<and> conds e = {..<count} \<and> (\<forall>m. holds m e \<longleftrightarrow> (\<forall>i < count. m i))"
proof (induction count)
  case 0
  then show ?case by simp
next
  case (Suc n)
  show ?case
  proof (cases "n = 0")
    case True
    then show ?thesis by (intro exI [of _ "FCond 0"]) (auto simp: null_tokens_def)
  next
    case False
    then obtain e where e: "null_tokens n = postfix e" "conds e = {..<n}" "\<forall>m. holds m e \<longleftrightarrow> (\<forall>i < n. m i)"
      using Suc.IH by blast
    have "null_tokens (Suc n) = postfix (FAnd e (FCond n))" using False e(1) by (simp add: null_tokens_Suc)
    moreover have "conds (FAnd e (FCond n)) = {..<Suc n}" using e(2) by (simp add: lessThan_Suc)
    moreover have "\<forall>m. holds m (FAnd e (FCond n)) \<longleftrightarrow> (\<forall>i < Suc n. m i)"
      using e(3) by (simp only: holds.simps all_less_Suc_last simp_thms)
    ultimately show ?thesis by blast
  qed
qed

lemma parse_formula:
  assumes "parseExpression expression count = Inr out"
  shows "out = [] \<and> count = 0 \<or> (\<exists>e. out = postfix e \<and> conds e \<subseteq> {..<count})"
proof (cases expression)
  case None
  then show ?thesis
    using assms null_tokens_formula [of count]
    by (cases "count = 0") (auto simp: parseExpression_def null_tokens_def)
next
  case (Some expr)
  show ?thesis
  proof (cases "trim_text expr = []")
    case True
    then show ?thesis using assms Some by (auto simp: parseExpression_def split: if_splits)
  next
    case False
    then obtain st where st: "parse_loop count (trim_text expr) init_parse = Inr st" "\<not> expectCondition st"
      "drain (operators st) (output_queue st) = Inr out"
      using assms Some by (auto simp: parseExpression_def Let_def split: if_splits sum.splits)
    have "parse_inv count init_parse"
      by (auto simp: parse_inv_def init_parse_def pieces_def intro: exI [of _ "[]"])
    then have "parse_inv count st" using st(1) by (rule parse_loop_inv)
    then have "pieces count 1 out" using st(2,3) drain_pieces by (simp add: parse_inv_def)
    then obtain e where "out = postfix e" "conds e \<subseteq> {..<count}"
      by (auto simp: pieces_def length_Suc_conv)
    then show ?thesis by blast
  qed
qed

text \<open>
  C20. Whatever formula the parser accepts denotes a Boolean formula over conditions that exist: its
  postfix evaluates, for every set of matching conditions, to that formula's truth value, and the
  evaluator never pops an empty stack (the empty expression of an empty search is true).
\<close>

theorem parse_sound:
  assumes "parseExpression expression count = Inr out"
  shows "(out = [] \<and> count = 0 \<and> evaluateExpression out m) \<or>
    (\<exists>e. conds e \<subseteq> {..<count} \<and> out = postfix e \<and> evaluateExpression out m = holds m e
       \<and> foldl (eval_step m) [] out = [Some (holds m e)])"
proof (cases "out = []")
  case True
  then have "count = 0" using parse_formula [OF assms] postfix_nonempty [symmetric] by simp
  then show ?thesis using True by (simp add: evaluateExpression_def)
next
  case False
  then obtain e where "out = postfix e" "conds e \<subseteq> {..<count}" using parse_formula [OF assms] by blast
  then show ?thesis by (auto simp: evaluate_postfix eval_postfix)
qed

text \<open>
  A search without a formula means the conjunction of all its conditions: the null expression
  parses, and evaluates to true exactly on the stocks that match every condition.
\<close>

lemma null_expression_is_conjunction:
  "\<exists>toks. parseExpression None count = Inr toks
     \<and> (evaluateExpression toks m \<longleftrightarrow> (\<forall>i < count. m i))"
proof (cases "count = 0")
  case True
  then show ?thesis by (simp add: parseExpression_def null_tokens_def evaluateExpression_def)
next
  case False
  then obtain e where "null_tokens count = postfix e" "\<forall>m. holds m e \<longleftrightarrow> (\<forall>i < count. m i)"
    using null_tokens_formula by blast
  then show ?thesis by (simp add: parseExpression_def evaluate_postfix)
qed

subsection \<open>Labels are distinct\<close>

lemma label_from_0 [simp]: "label_from 0 = []"
  by (simp add: label_from.simps)

lemma label_from_pos: "0 < n \<Longrightarrow> label_from n = label_from ((n - 1) div 26) @ [65 + (n - 1) mod 26]"
  by (simp add: label_from.simps [of n])

lemma label_from_empty [simp]: "label_from n = [] \<longleftrightarrow> n = 0"
  by (cases "n = 0") (simp_all add: label_from_pos)

lemma label_from_inject: "label_from n = label_from k \<Longrightarrow> n = k"
proof (induction n arbitrary: k rule: less_induct)
  case (less n)
  show ?case
  proof (cases "n = 0 \<or> k = 0")
    case True
    then show ?thesis using less.prems by (metis label_from_empty)
  next
    case False
    then have e: "label_from ((n - 1) div 26) = label_from ((k - 1) div 26)" "(n - 1) mod 26 = (k - 1) mod 26"
      using less.prems label_from_pos [of n] label_from_pos [of k] by auto
    have "(n - 1) div 26 < n" using False div_le_dividend [of "n - 1" 26] by linarith
    then have "(n - 1) div 26 = (k - 1) div 26" using e(1) less.IH by blast
    then have "n - 1 = k - 1" using e(2) by (metis div_mult_mod_eq)
    then show ?thesis using False by linarith
  qed
qed

lemma conditionLabel_inject [simp]: "conditionLabel i = conditionLabel j \<longleftrightarrow> i = j"
  using label_from_inject by (auto simp: conditionLabel_def)

lemma conditionLabel_nonempty [simp]: "conditionLabel i \<noteq> []"
  by (simp add: conditionLabel_def)

lemma label_from_range: "\<forall>c \<in> set (label_from n). 65 \<le> c \<and> c \<le> 90"
proof (induction n rule: less_induct)
  case (less n)
  show ?case
  proof (cases "n = 0")
    case False
    then have "(n - 1) div 26 < n" using div_le_dividend [of "n - 1" 26] by linarith
    then have "\<forall>c \<in> set (label_from ((n - 1) div 26)). 65 \<le> c \<and> c \<le> 90" by (rule less.IH)
    moreover have "(n - 1) mod 26 < 26" by simp
    ultimately show ?thesis using False by (auto simp: label_from_pos)
  qed simp
qed

lemma label_index_label [simp]: "i < count \<Longrightarrow> label_index count (conditionLabel i) = Some i"
  unfolding label_index_def find_Some_iff by (rule exI [of _ i]) simp

definition operator_free :: "nat \<Rightarrow> bool" where
  "operator_free i \<longleftrightarrow> conditionLabel i \<noteq> and_text \<and> conditionLabel i \<noteq> or_text"

text \<open>Exactly the conditions 407 (\<open>OR\<close>) and 1043 (\<open>AND\<close>) carry the name of an operator.\<close>

lemma label_407: "conditionLabel 407 = or_text"
  by code_simp

lemma label_1043: "conditionLabel 1043 = and_text"
  by code_simp

lemma operator_free_iff: "operator_free i \<longleftrightarrow> i \<noteq> 407 \<and> i \<noteq> 1043"
  unfolding operator_free_def label_407 [symmetric] label_1043 [symmetric] by auto

subsection \<open>Tokenizing a printed formula\<close>

definition capitals :: "js_text \<Rightarrow> bool" where
  "capitals s \<longleftrightarrow> (\<forall>c \<in> set s. 65 \<le> c \<and> c \<le> 90)"

definition good_token :: "js_text \<Rightarrow> bool" where
  "good_token tok \<longleftrightarrow> tok \<in> {[40], [41]} \<or> tok \<noteq> [] \<and> capitals tok"

definition word_break :: "js_text \<Rightarrow> bool" where
  "word_break rest \<longleftrightarrow> (case rest of [] \<Rightarrow> True | c # _ \<Rightarrow> c = 32)"

lemma capitals_simps [simp]:
  "capitals []" "capitals (c # s) \<longleftrightarrow> 65 \<le> c \<and> c \<le> 90 \<and> capitals s"
  by (auto simp: capitals_def)

lemma keyword_at_capitals:
  "capitals kw \<Longrightarrow> capitals tok \<Longrightarrow> word_break rest \<Longrightarrow> keyword_at kw (tok @ rest) \<longleftrightarrow> tok = kw"
proof (induction kw arbitrary: tok)
  case Nil
  then show ?case
    by (cases tok) (auto simp: keyword_at_def word_break_def is_word_char_def is_letter_def split: list.splits)
next
  case (Cons k kw)
  have step: "keyword_at (k # kw) (t # ts) \<longleftrightarrow> upper t = k \<and> keyword_at kw ts" for t ts
    by (auto simp: keyword_at_def)
  have none: "\<not> keyword_at (k # kw) []" by (simp add: keyword_at_def)
  show ?case
  proof (cases tok)
    case Nil
    then show ?thesis using Cons.prems none step
      by (cases rest) (auto simp: word_break_def upper_def)
  next
    case (Cons t ts)
    then show ?thesis using Cons.prems Cons.IH [of ts] step by (simp add: upper_def)
  qed
qed

lemma next_token_space [simp]: "next_token (32 # s) = next_token s"
  by (simp add: next_token_def is_space_def)

lemma capitals_letters: "capitals tok \<Longrightarrow> c \<in> set tok \<Longrightarrow> is_letter c"
  by (auto simp: capitals_def is_letter_def)

lemma capitals_upper [simp]: "capitals tok \<Longrightarrow> map upper tok = tok"
  by (induction tok) (auto simp: upper_def)

lemma not_space_capital: "65 \<le> c \<Longrightarrow> c \<le> 90 \<Longrightarrow> \<not> is_space c"
  by (auto simp: is_space_def)

lemma next_token_capitals:
  assumes tok: "capitals tok" "tok \<noteq> []" and rest: "word_break rest"
  shows "next_token (tok @ rest) = Some (tok, rest)"
proof -
  obtain c ts where c: "tok = c # ts" "65 \<le> c" "c \<le> 90" using tok by (cases tok) auto
  have drop: "dropWhile is_space (tok @ rest) = tok @ rest" using c by (simp add: not_space_capital)
  have korean: "\<not> starts_with korean_and (tok @ rest)" "\<not> starts_with korean_or (tok @ rest)"
    using c by (simp_all add: starts_with_def korean_and_def korean_or_def)
  have stop: "takeWhile is_letter rest = []" "dropWhile is_letter rest = rest"
    using rest by (auto simp: word_break_def is_letter_def split: list.splits)
  have word: "takeWhile is_letter (tok @ rest) = tok" "dropWhile is_letter (tok @ rest) = rest"
    using capitals_letters [OF tok(1)] stop by (simp_all add: takeWhile_append2 dropWhile_append2)
  have "capitals and_text" "capitals or_text" by (simp_all add: and_text_def or_text_def)
  then have kw: "keyword_at and_text (tok @ rest) \<longleftrightarrow> tok = and_text" "keyword_at or_text (tok @ rest) \<longleftrightarrow> tok = or_text"
    using tok(1) rest by (simp_all add: keyword_at_capitals)
  show ?thesis
    unfolding next_token_def Let_def drop kw
    using korean word tok by (simp add: and_text_def or_text_def)
qed

lemma next_token_good: "good_token tok \<Longrightarrow> word_break rest \<Longrightarrow> next_token (tok @ rest) = Some (tok, rest)"
  using next_token_capitals [of tok rest]
  by (auto simp: good_token_def next_token_def is_space_def keyword_at_def and_text_def or_text_def upper_def
      starts_with_def korean_and_def korean_or_def is_letter_def)

fun run_tokens :: "nat \<Rightarrow> js_text list \<Rightarrow> parse_state \<Rightarrow> parse_error + parse_state" where
  "run_tokens count [] st = Inr st"
| "run_tokens count (tok # toks) st =
     (case token_step count tok st of Inl e \<Rightarrow> Inl e | Inr st' \<Rightarrow> run_tokens count toks st')"

lemma run_tokens_append:
  "run_tokens count (xs @ ys) st =
     (case run_tokens count xs st of Inl e \<Rightarrow> Inl e | Inr st' \<Rightarrow> run_tokens count ys st')"
  by (induction xs arbitrary: st) (auto split: sum.splits)

lemma join_text_Cons: "xs \<noteq> [] \<Longrightarrow> join_text sep (x # xs) = x @ sep @ join_text sep xs"
  by (cases xs) auto

lemma parse_loop_space: "s \<noteq> [] \<Longrightarrow> parse_loop count (32 # s) st = parse_loop count s st"
  by (simp add: parse_loop.simps [of count "32 # s" st] parse_loop.simps [of count s st])

lemma good_token_nonempty: "good_token tok \<Longrightarrow> tok \<noteq> []"
  by (auto simp: good_token_def)

lemma join_nonempty: "xs \<noteq> [] \<Longrightarrow> \<forall>x \<in> set xs. good_token x \<Longrightarrow> join_text sep xs \<noteq> []"
  by (cases xs; cases "tl xs") (auto dest: good_token_nonempty)

lemma parse_loop_join:
  "\<forall>x \<in> set xs. good_token x \<Longrightarrow> parse_loop count (join_text [32] xs) st = run_tokens count xs st"
proof (induction xs arbitrary: st)
  case Nil
  then show ?case by (simp add: parse_loop.simps [of count "[]" st])
next
  case (Cons x xs)
  have x: "good_token x" "x \<noteq> []" using Cons.prems good_token_nonempty by auto
  show ?case
  proof (cases "xs = []")
    case True
    have "next_token x = Some (x, [])" using next_token_good [OF x(1), of "[]"] by (simp add: word_break_def)
    then show ?thesis using True x(2) Cons.IH
      by (simp add: parse_loop.simps [of count x st] parse_loop.simps [of count "[]"] split: sum.splits)
  next
    case False
    let ?r = "join_text [32] xs"
    have "next_token (x @ 32 # ?r) = Some (x, 32 # ?r)"
      using next_token_good [OF x(1), of "32 # ?r"] by (simp add: word_break_def)
    moreover have "?r \<noteq> []" using join_nonempty [OF False] Cons.prems by simp
    ultimately show ?thesis using False x(2) Cons.IH Cons.prems
      by (simp add: join_text_Cons parse_loop.simps [of count "x @ 32 # ?r" st] parse_loop_space split: sum.splits)
  qed
qed

subsection \<open>Printing a formula and reading it back\<close>

primrec level :: "formula \<Rightarrow> nat" where
  "level (FCond i) = 3"
| "level (FAnd a b) = 2"
| "level (FOr a b) = 1"

definition wrap :: "nat \<Rightarrow> formula \<Rightarrow> js_text list \<Rightarrow> js_text list" where
  "wrap l e toks = (if level e < l then [[40]] @ toks @ [[41]] else toks)"

text \<open>Only the parentheses that the two precedences and left association need are printed.\<close>

primrec printed :: "formula \<Rightarrow> js_text list" where
  "printed (FCond i) = [conditionLabel i]"
| "printed (FAnd a b) = wrap 2 a (printed a) @ [and_text] @ wrap 3 b (printed b)"
| "printed (FOr a b) = wrap 1 a (printed a) @ [or_text] @ wrap 2 b (printed b)"

definition formula_text :: "formula \<Rightarrow> js_text" where
  "formula_text e = join_text [32] (printed e)"

definition blocks :: "nat \<Rightarrow> stack_op list \<Rightarrow> bool" where
  "blocks l ops \<longleftrightarrow> (case ops of Binary b # _ \<Rightarrow> precedence b < l | _ \<Rightarrow> True)"

lemma blocks_simps [simp]:
  "blocks l []" "blocks l (OpenParen # ops)" "blocks l (Binary b # ops) \<longleftrightarrow> precedence b < l"
  by (simp_all add: blocks_def)

lemma blocks_mono: "blocks l ops \<Longrightarrow> l \<le> l' \<Longrightarrow> blocks l' ops"
  by (auto simp: blocks_def split: list.splits stack_op.splits)

lemma pop_binding_blocked: "blocks (precedence t) ops \<Longrightarrow> pop_binding t ops out = (ops, out)"
  by (cases "(t, ops, out)" rule: pop_binding.cases) auto

lemma pop_binding_all:
  "\<forall>b \<in> set P. precedence t \<le> precedence b \<Longrightarrow> blocks (precedence t) ops \<Longrightarrow>
   pop_binding t (map Binary P @ ops) out = (ops, out @ map Op P)"
  by (induction P arbitrary: out) (auto simp: pop_binding_blocked)

lemma pop_to_open_all: "pop_to_open (map Binary P @ OpenParen # ops) out = (OpenParen # ops, out @ map Op P)"
  by (induction P arbitrary: out) auto

lemma drain_all: "drain (map Binary P) out = Inr (out @ map Op P)"
  by (induction P arbitrary: out) auto

abbreviation waiting :: "ExpressionToken list \<Rightarrow> stack_op list \<Rightarrow> parse_state" where
  "waiting out ops \<equiv> \<lparr>output_queue = out, operators = ops, expectCondition = True\<rparr>"

abbreviation complete_at :: "ExpressionToken list \<Rightarrow> stack_op list \<Rightarrow> parse_state" where
  "complete_at out ops \<equiv> \<lparr>output_queue = out, operators = ops, expectCondition = False\<rparr>"

text \<open>
  After the tokens of a formula at level \<open>l\<close> the parser has emitted a prefix of its postfix and holds
  the remaining operators, all binding at least as tightly as \<open>l\<close>, on top of what it held before.
\<close>

definition reads :: "nat \<Rightarrow> nat \<Rightarrow> js_text list \<Rightarrow> formula \<Rightarrow> bool" where
  "reads count l toks e \<longleftrightarrow>
     (\<forall>out ops. blocks l ops \<longrightarrow>
       (\<exists>X P. run_tokens count toks (waiting out ops) = Inr (complete_at (out @ X) (map Binary P @ ops))
         \<and> X @ map Op P = postfix e \<and> (\<forall>b \<in> set P. l \<le> precedence b)))"

lemma reads_obtain:
  assumes "reads count l toks e" "blocks l ops"
  obtains X P where "run_tokens count toks (waiting out ops) = Inr (complete_at (out @ X) (map Binary P @ ops))"
    "X @ map Op P = postfix e" "\<forall>b \<in> set P. l \<le> precedence b"
  using assms unfolding reads_def by blast

lemma step_operator:
  "token_step count and_text st = binary_step AndOp st"
  "token_step count or_text st = binary_step OrOp st"
  by (simp_all add: token_step_def and_text_def or_text_def)

lemma step_paren:
  "token_step count [40] (waiting out ops) = Inr (waiting out (OpenParen # ops))"
  "token_step count [41] (complete_at out (map Binary P @ OpenParen # ops)) = Inr (complete_at (out @ map Op P) ops)"
  by (simp_all add: token_step_def pop_to_open_all)

lemma reads_wrap:
  assumes "reads count (level e) toks e"
  shows "reads count l (wrap l e toks) e"
  unfolding reads_def
proof (intro allI impI)
  fix out ops assume b: "blocks l ops"
  show "\<exists>X P. run_tokens count (wrap l e toks) (waiting out ops) = Inr (complete_at (out @ X) (map Binary P @ ops))
      \<and> X @ map Op P = postfix e \<and> (\<forall>b \<in> set P. l \<le> precedence b)"
  proof (cases "level e < l")
    case True
    obtain X P where r: "run_tokens count toks (waiting out (OpenParen # ops))
        = Inr (complete_at (out @ X) (map Binary P @ OpenParen # ops))" "X @ map Op P = postfix e"
      using reads_obtain [OF assms, of "OpenParen # ops" out, OF blocks_simps(2)] by blast
    then show ?thesis
      using True by (intro exI [of _ "postfix e"] exI [of _ "[]"])
        (auto simp: wrap_def run_tokens_append step_paren)
  next
    case False
    then have "blocks (level e) ops" using b blocks_mono by auto
    then show ?thesis using reads_obtain [OF assms, of ops out] False
      by (metis linorder_not_less order_trans wrap_def)
  qed
qed

lemma reads_binary:
  assumes a: "reads count l ta a" and b: "reads count (Suc l) tb b" and l: "l = precedence t"
    and tok: "\<And>st. token_step count tok st = binary_step t st"
  shows "reads count l (ta @ [tok] @ tb) (combine t a b)"
  unfolding reads_def
proof (intro allI impI)
  fix out ops assume bl: "blocks l ops"
  obtain X P where ra: "run_tokens count ta (waiting out ops) = Inr (complete_at (out @ X) (map Binary P @ ops))"
    "X @ map Op P = postfix a" "\<forall>b \<in> set P. l \<le> precedence b"
    using reads_obtain [OF a bl] by blast
  have step: "binary_step t (complete_at (out @ X) (map Binary P @ ops))
      = Inr (waiting (out @ postfix a) (Binary t # ops))"
  proof -
    have "pop_binding t (map Binary P @ ops) (out @ X) = (ops, (out @ X) @ map Op P)"
      using ra(3) bl unfolding l by (rule pop_binding_all)
    then show ?thesis using arg_cong [OF ra(2), of "append out"] by (simp add: binary_step_def)
  qed
  obtain Y Q where rb: "run_tokens count tb (waiting (out @ postfix a) (Binary t # ops))
      = Inr (complete_at ((out @ postfix a) @ Y) (map Binary Q @ Binary t # ops))"
    "Y @ map Op Q = postfix b" "\<forall>b \<in> set Q. Suc l \<le> precedence b"
    using reads_obtain [OF b, of "Binary t # ops"] l by (metis blocks_simps(3) lessI)
  show "\<exists>X P. run_tokens count (ta @ [tok] @ tb) (waiting out ops) = Inr (complete_at (out @ X) (map Binary P @ ops))
      \<and> X @ map Op P = postfix (combine t a b) \<and> (\<forall>b \<in> set P. l \<le> precedence b)"
    using ra(1) rb step l
    by (intro exI [of _ "postfix a @ Y"] exI [of _ "Q @ [t]"]) (auto simp: run_tokens_append tok dest: Suc_leD)
qed

lemma reads_cond:
  assumes "i < count" "operator_free i"
  shows "reads count 3 [conditionLabel i] (FCond i)"
proof -
  have "conditionLabel i \<noteq> [40]" "conditionLabel i \<noteq> [41]"
    using label_from_range [of "i + 1"] by (auto simp: conditionLabel_def)
  then show ?thesis
    using assms unfolding reads_def
    by (intro allI impI exI [of _ "[Cond i]"] exI [of _ "[]"]) (simp add: token_step_def operator_free_def)
qed

lemma reads_printed:
  "conds e \<subseteq> {..<count} \<Longrightarrow> \<forall>i \<in> conds e. operator_free i \<Longrightarrow> reads count (level e) (printed e) e"
proof (induction e)
  case (FCond i)
  then show ?case using reads_cond by simp
next
  case (FAnd a b)
  then have "reads count 2 (wrap 2 a (printed a)) a" "reads count (Suc 2) (wrap 3 b (printed b)) b"
    using reads_wrap [of count a "printed a" 2] reads_wrap [of count b "printed b" 3] by simp_all
  then have "reads count 2 (wrap 2 a (printed a) @ [and_text] @ wrap 3 b (printed b)) (combine AndOp a b)"
    by (rule reads_binary) (simp_all add: step_operator)
  then show ?case by (simp add: combine_def)
next
  case (FOr a b)
  then have "reads count 1 (wrap 1 a (printed a)) a" "reads count (Suc 1) (wrap 2 b (printed b)) b"
    using reads_wrap [of count a "printed a" 1] reads_wrap [of count b "printed b" 2]
    by (simp_all add: numeral_2_eq_2)
  then have "reads count 1 (wrap 1 a (printed a) @ [or_text] @ wrap 2 b (printed b)) (combine OrOp a b)"
    by (rule reads_binary) (simp_all add: step_operator)
  then show ?case by (simp add: combine_def)
qed

lemma printed_good:
  "\<forall>i \<in> conds e. operator_free i \<Longrightarrow> \<forall>x \<in> set (printed e). good_token x"
  using label_from_range
  by (induction e) (auto simp: wrap_def good_token_def capitals_def and_text_def or_text_def conditionLabel_def)

lemma printed_nonempty [simp]: "printed e \<noteq> []"
  by (cases e) auto

lemma good_token_no_space: "good_token x \<Longrightarrow> c \<in> set x \<Longrightarrow> \<not> is_space c"
  using not_space_capital by (auto simp: good_token_def capitals_def is_space_def)

lemma hd_join: "xs \<noteq> [] \<Longrightarrow> hd xs \<noteq> [] \<Longrightarrow> hd (join_text sep xs) = hd (hd xs)"
  by (cases xs; cases "tl xs") auto

lemma last_join: "xs \<noteq> [] \<Longrightarrow> \<forall>x \<in> set xs. x \<noteq> [] \<Longrightarrow> last (join_text sep xs) = last (last xs)"
proof (induction xs)
  case (Cons x xs)
  then show ?case by (cases xs; cases "tl xs") (auto simp: join_text_Cons)
qed simp

lemma trim_id:
  assumes "s \<noteq> []" "\<not> is_space (hd s)" "\<not> is_space (last s)"
  shows "trim_text s = s"
proof -
  have 1: "dropWhile is_space s = s" using assms by (cases s) auto
  have "dropWhile is_space (rev s) = rev s" using assms by (cases s rule: rev_cases) auto
  then show ?thesis by (simp add: trim_text_def 1)
qed

lemma trim_join:
  assumes "\<forall>x \<in> set xs. good_token x" "xs \<noteq> []"
  shows "trim_text (join_text [32] xs) = join_text [32] xs"
proof (rule trim_id)
  have ne: "\<forall>x \<in> set xs. x \<noteq> []" using assms(1) good_token_nonempty by blast
  show "join_text [32] xs \<noteq> []" using assms join_nonempty by blast
  have "hd xs \<in> set xs" "last xs \<in> set xs" using assms(2) by simp_all
  then show "\<not> is_space (hd (join_text [32] xs))" "\<not> is_space (last (join_text [32] xs))"
    using hd_join [OF assms(2), of "[32]"] last_join [OF assms(2) ne, of "[32]"] ne assms(1)
    by (metis good_token_no_space hd_in_set, metis good_token_no_space last_in_set)
qed

text \<open>
  C19. The precedences and left association of the parser are the documented ones: a Boolean formula
  printed with only the parentheses that AND-before-OR and left association require parses back to
  exactly its postfix, for conditions whose label is not itself an operator word and a text within
  the length limit.
\<close>

theorem parse_print_roundtrip:
  assumes "conds e \<subseteq> {..<count}" "\<forall>i \<in> conds e. i \<noteq> 407 \<and> i \<noteq> 1043"
    and "length (formula_text e) \<le> MAX_EXPRESSION_LENGTH"
  shows "parseExpression (Some (formula_text e)) count = Inr (postfix e)"
proof -
  have free: "\<forall>i \<in> conds e. operator_free i" using assms(2) operator_free_iff by blast
  note good = printed_good [OF free]
  obtain X P where r: "run_tokens count (printed e) init_parse = Inr (complete_at X (map Binary P))"
    "X @ map Op P = postfix e"
    using reads_obtain [OF reads_printed [OF assms(1) free] blocks_simps(1), of "[]", unfolded append_Nil append_Nil2]
    unfolding init_parse_def by blast
  have "formula_text e \<noteq> []" unfolding formula_text_def using join_nonempty [OF _ good] by simp
  moreover have "trim_text (formula_text e) = formula_text e"
    unfolding formula_text_def using trim_join [OF good] by simp
  moreover have "parse_loop count (formula_text e) init_parse = Inr (complete_at X (map Binary P))"
    unfolding formula_text_def using parse_loop_join [OF good] r(1) by simp
  ultimately show ?thesis
    using assms(3) r(2) by (simp add: parseExpression_def drain_all)
qed

theorem parse_print_roundtrip_witness:
  "parseExpression (Some (formula_text (FAnd (FCond 0) (FOr (FCond 27) (FCond 1))))) 30
     = Inr [Cond 0, Cond 27, Cond 1, Op OrOp, Op AndOp]"
proof -
  have "length (formula_text (FAnd (FCond 0) (FOr (FCond 27) (FCond 1)))) \<le> MAX_EXPRESSION_LENGTH" by code_simp
  then show ?thesis
    using parse_print_roundtrip [of "FAnd (FCond 0) (FOr (FCond 27) (FCond 1))" 30] by simp
qed

theorem parse_sound_witness:
  "\<exists>e. conds e \<subseteq> {..<2} \<and> evaluateExpression [Cond 0, Cond 1, Op OrOp] (\<lambda>i. i = 1) = holds (\<lambda>i. i = 1) e"
proof -
  have "parseExpression (Some [97, 32, 111, 114, 32, 66]) 2 = Inr [Cond 0, Cond 1, Op OrOp]"
    by (simp add: parseExpression_def MAX_EXPRESSION_LENGTH_def trim_text_def is_space_def parse_loop.simps
        next_token_def is_letter_def keyword_at_def starts_with_def and_text_def or_text_def korean_and_def
        korean_or_def upper_def is_word_char_def token_step_def binary_step_def init_parse_def label_index_def
        conditionLabel_def label_from.simps upt_rec)
  from parse_sound [OF this, of "\<lambda>i. i = 1"] show ?thesis by auto
qed

subsection \<open>The default expression\<close>

primrec every_cond :: "nat \<Rightarrow> formula" where
  "every_cond 0 = FCond 0"
| "every_cond (Suc n) = FAnd (every_cond n) (FCond (Suc n))"

lemma level_conj [simp]: "\<not> level (every_cond n) < 2"
  by (cases n) auto

lemma conds_conj: "conds (every_cond n) = {..n}"
  by (induction n) (auto simp: atMost_Suc)

lemma postfix_conj: "postfix (every_cond n) = null_tokens (Suc n)"
  by (induction n) (simp_all add: null_tokens_Suc, simp add: null_tokens_def)

lemma join_text_snoc: "xs \<noteq> [] \<Longrightarrow> join_text sep (xs @ [x]) = join_text sep xs @ sep @ x"
proof (induction xs)
  case (Cons y ys)
  then show ?case by (cases "ys = []") (simp_all add: join_text_Cons)
qed simp

lemma printed_conj_Suc: "printed (every_cond (Suc n)) = (printed (every_cond n) @ [and_text]) @ [conditionLabel (Suc n)]"
  by (simp add: wrap_def)

lemma default_text: "defaultExpression (Suc n) = formula_text (every_cond n)"
proof (induction n)
  case (Suc n)
  have "defaultExpression (Suc (Suc n)) = defaultExpression (Suc n) @ ([32] @ and_text @ [32]) @ conditionLabel (Suc n)"
    unfolding defaultExpression_def upt_Suc_append [OF le0, of "Suc n"] map_append list.map
    by (rule join_text_snoc) simp
  also have "\<dots> = formula_text (every_cond (Suc n))"
    unfolding formula_text_def printed_conj_Suc Suc.IH [unfolded formula_text_def]
    by (subst join_text_snoc, simp, subst join_text_snoc, simp, simp)
  finally show ?case .
qed (simp add: defaultExpression_def formula_text_def)

lemma length_join: "length (join_text sep xs) \<le> sum_list (map (\<lambda>x. length x + length sep) xs)"
proof (induction xs)
  case (Cons x xs)
  then show ?case by (cases "xs = []") (simp_all add: join_text_Cons)
qed simp

lemma short_label: "i < 702 \<Longrightarrow> length (conditionLabel i) \<le> 2"
proof -
  assume i: "i < 702"
  have "i div 26 \<le> 26" using i by simp
  then have "(i div 26 - 1) div 26 = 0" by simp
  then show ?thesis
    by (cases "i div 26 = 0") (simp_all add: conditionLabel_def label_from_pos)
qed

lemma default_length:
  assumes "count \<le> 407"
  shows "length (defaultExpression count) \<le> MAX_EXPRESSION_LENGTH"
proof -
  let ?sep = "[32] @ and_text @ [32]"
  have five: "length ?sep = 5" by (simp add: and_text_def)
  have "sum_list (map (\<lambda>i. length (conditionLabel i) + length ?sep) [0..<count]) \<le> sum_list (map (\<lambda>x. 7) [0..<count])"
    by (rule sum_list_mono) (use assms short_label five in force)
  also have "\<dots> \<le> 10000" using assms by (simp add: sum_list_triv)
  finally show ?thesis
    using length_join [of ?sep "map conditionLabel [0..<count]"]
    unfolding map_map comp_def defaultExpression_def MAX_EXPRESSION_LENGTH_def by (rule order_trans [rotated])
qed

lemma printed_conj_append: "n \<le> k \<Longrightarrow> \<exists>ys. printed (every_cond k) = printed (every_cond n) @ ys"
proof (induction k rule: dec_induct)
  case (step m)
  then show ?case unfolding printed_conj_Suc by auto
qed simp

lemma printed_conj_good: "\<forall>x \<in> set (printed (every_cond n)). good_token x"
  using label_from_range
  by (induction n) (auto simp: wrap_def good_token_def capitals_def and_text_def conditionLabel_def)

lemma default_parses: "count \<le> 407 \<Longrightarrow> parseExpression (Some (defaultExpression count)) count = Inr (null_tokens count)"
proof (cases count)
  case 0
  then show ?thesis
    by (simp add: parseExpression_def defaultExpression_def MAX_EXPRESSION_LENGTH_def trim_text_def null_tokens_def)
next
  case (Suc n)
  assume count: "count \<le> 407"
  have free: "\<forall>i \<in> conds (every_cond n). operator_free i" using Suc count by (simp add: conds_conj operator_free_iff)
  have within: "conds (every_cond n) \<subseteq> {..<count}" using Suc by (auto simp: conds_conj)
  obtain X P where r: "run_tokens count (printed (every_cond n)) init_parse = Inr (complete_at X (map Binary P))"
    "X @ map Op P = postfix (every_cond n)"
    using reads_obtain [OF reads_printed [OF within free] blocks_simps(1), of "[]", unfolded append_Nil append_Nil2]
    unfolding init_parse_def by blast
  show ?thesis
    using r(2) trim_join [OF printed_conj_good [of n] printed_nonempty] default_length [OF count] Suc
      join_nonempty [OF printed_nonempty printed_conj_good [of n]]
    by (simp add: parseExpression_def default_text formula_text_def parse_loop_join [OF printed_conj_good]
        r(1) [unfolded Suc] drain_all postfix_conj)
qed

lemma default_rejected:
  assumes "407 < count"
  shows "expressionError (Some (defaultExpression count)) count \<noteq> None"
proof -
  obtain n where n: "count = Suc n" "407 \<le> n" using assms by (cases count) auto
  obtain ys where ys: "printed (every_cond n) = printed (every_cond 407) @ ys" using printed_conj_append [OF n(2)] by blast
  have free: "\<forall>i \<in> conds (every_cond 406). operator_free i" by (simp add: conds_conj operator_free_iff)
  have within: "conds (every_cond 406) \<subseteq> {..<count}" using assms by (auto simp: conds_conj)
  obtain X P where r: "run_tokens count (printed (every_cond 406)) init_parse = Inr (complete_at X (map Binary P))"
    using reads_obtain [OF reads_printed [OF within free] blocks_simps(1), of "[]", unfolded append_Nil append_Nil2]
    unfolding init_parse_def by blast
  have head: "printed (every_cond 407) = printed (every_cond 406) @ [and_text, or_text]"
    using printed_conj_Suc [of 406] label_407 by simp
  have "\<exists>st. token_step count and_text (complete_at X (map Binary P)) = Inr st \<and> expectCondition st"
    using pop_binding_all [of P AndOp "[]"]
    by (auto simp: step_operator binary_step_def split: prod.splits)
  then obtain st where st: "token_step count and_text (complete_at X (map Binary P)) = Inr st" "expectCondition st"
    by blast
  have fails: "run_tokens count (printed (every_cond n)) init_parse = Inl MissingLeft"
    unfolding ys head run_tokens_append r using st
    by (simp add: step_operator(2) binary_step_def)
  show ?thesis
    using fails trim_join [OF printed_conj_good [of n] printed_nonempty] n(1)
      join_nonempty [OF printed_nonempty printed_conj_good [of n]]
    by (simp add: expressionError_def parseExpression_def default_text formula_text_def
        parse_loop_join [OF printed_conj_good])
qed

text \<open>
  C40. The textual default \<open>A AND B AND \<dots>\<close> that stands for a missing formula parses without error, to
  the very tokens of the missing formula, up to 407 conditions and for no larger search: the
  408th label spells the operator \<open>OR\<close>.
\<close>

theorem default_expression_boundary:
  "(expressionError (Some (defaultExpression count)) count = None) = (count \<le> 407)
   \<and> (parseExpression (Some (defaultExpression count)) count = parseExpression None count) = (count \<le> 407)"
proof (cases "count \<le> 407")
  case True
  then show ?thesis using default_parses by (simp add: expressionError_def parseExpression_def)
next
  case False
  then obtain e where "parseExpression (Some (defaultExpression count)) count = Inl e"
    using default_rejected [of count] by (auto simp: expressionError_def split: sum.splits)
  moreover have "parseExpression None count = Inr (null_tokens count)" by (simp add: parseExpression_def)
  ultimately show ?thesis using False by (simp add: expressionError_def)
qed

end
