(* ===== verification/DateWindow.thy ===== *)
theory DateWindow
  imports KstTime
begin

section \<open>Date keys and the historical window\<close>

text \<open>
  \<open>live/liveDateTime.ts\<close>: arithmetic on \<open>YYYYMMDD\<close> keys, the weekday walk, the trading-hours
  predicates and the planners that widen and shrink the historical window of a chart. A key that does
  not parse gives \<open>NaN\<close>, here \<open>None\<close>. The weekday walk is a loop that the code does not bound;
  it runs on fuel, and \<open>weekday_walk\<close> shows that three days of fuel per weekday are enough.
\<close>

type_synonym ymd = string

subsection \<open>Keys\<close>

text \<open>\<open>parseInt(s, 10)\<close>: blanks, a sign, then the longest run of digits.\<close>

definition is_blank :: "char \<Rightarrow> bool" where
  "is_blank c \<longleftrightarrow> c \<in> {CHR '' '', CHR 0x09, CHR 0x0A, CHR 0x0B, CHR 0x0C, CHR 0x0D}"

definition js_parse_int :: "string \<Rightarrow> int option" where
  "js_parse_int s =
     (let t = dropWhile is_blank s;
          (sgn, u) = (case t of c # r \<Rightarrow> if c = CHR ''-'' then (- 1, r) else if c = CHR ''+'' then (1, r) else (1, t)
                      | [] \<Rightarrow> (1, t));
          ds = takeWhile is_digit u
      in if ds = [] then None else map_option (\<lambda>v. sgn * v) (js_number ds))"

definition utc_day :: "ymd \<Rightarrow> int option" where
  "utc_day s = (case (js_parse_int (js_slice s 0 4), js_parse_int (js_slice s 4 6), js_parse_int (js_slice s 6 8)) of
     (Some y, Some m, Some d) \<Rightarrow> Some (make_day (utc_year y) (m - 1) d) | _ \<Rightarrow> None)"

definition utcMidnightMs :: "ymd \<Rightarrow> ms option" where
  "utcMidnightMs s = map_option (\<lambda>n. n * day_ms) (utc_day s)"

text \<open>\<open>Math.round(a / b)\<close> for integers and a positive divisor.\<close>

definition js_round_div :: "int \<Rightarrow> int \<Rightarrow> int" where
  "js_round_div a b = (2 * a + b) div (2 * b)"

definition daysBetweenKst :: "ymd \<Rightarrow> ymd \<Rightarrow> int option" where
  "daysBetweenKst f t = (case (utcMidnightMs t, utcMidnightMs f) of
     (Some b, Some a) \<Rightarrow> Some (js_round_div (b - a) day_ms) | _ \<Rightarrow> None)"

definition subtractDaysKst :: "ymd \<Rightarrow> int \<Rightarrow> ymd" where
  "subtractDaysKst s n = (case utc_day s of
     None \<Rightarrow> nan_text @ nan_text @ nan_text
   | Some day \<Rightarrow> (case civil_of_day day of (y, m, d) \<Rightarrow> date_text (civil_of_day (make_day y m (d - n)))))"

definition realMsToYyyymmdd :: "ms \<Rightarrow> ymd" where
  "realMsToYyyymmdd t = kst_date_text t"

definition yesterdayKst :: "ymd \<Rightarrow> ymd" where
  "yesterdayKst today = subtractDaysKst today 1"

definition PAST_CANDLES_MAX_DAYS :: int where "PAST_CANDLES_MAX_DAYS = 250"
definition MINUTE_VENDOR_RETENTION_DAYS :: int where "MINUTE_VENDOR_RETENTION_DAYS = 382"

definition earliestAllowedMinuteDate :: "ymd \<Rightarrow> ymd" where
  "earliestAllowedMinuteDate today = subtractDaysKst today (PAST_CANDLES_MAX_DAYS - 1)"

definition vendorMinuteRetentionFloorDate :: "ymd \<Rightarrow> ymd" where
  "vendorMinuteRetentionFloorDate today = subtractDaysKst today (MINUTE_VENDOR_RETENTION_DAYS - 1)"

definition kstWeekday :: "ymd \<Rightarrow> int option" where
  "kstWeekday s = map_option (\<lambda>n. (n + 4) mod 7) (utc_day s)"

definition isKstWeekend :: "ymd \<Rightarrow> bool" where
  "isKstWeekend s \<longleftrightarrow> kstWeekday s = Some 0 \<or> kstWeekday s = Some 6"

fun weekday_loop :: "nat \<Rightarrow> ymd \<Rightarrow> int \<Rightarrow> ymd option" where
  "weekday_loop fuel cur remaining =
     (if remaining \<le> 0 then Some cur
      else case fuel of
          0 \<Rightarrow> None
        | Suc f \<Rightarrow>
            let cur' = subtractDaysKst cur 1; wd = kstWeekday cur'
            in weekday_loop f cur' (if wd \<noteq> Some 0 \<and> wd \<noteq> Some 6 then remaining - 1 else remaining))"

declare weekday_loop.simps [simp del]

definition subtractWeekdaysKst :: "ymd \<Rightarrow> int \<Rightarrow> ymd option" where
  "subtractWeekdaysKst s n = weekday_loop (nat (3 * max 1 n)) s (max 1 n)"

subsection \<open>Trading hours\<close>

definition regularSessionOpenMs :: "ymd \<Rightarrow> ms option" where
  "regularSessionOpenMs s = utcMidnightMs s"

definition regularSessionCloseMs :: "ymd \<Rightarrow> ms option" where
  "regularSessionCloseMs s = map_option (\<lambda>v. v + 6 * hour_ms + 30 * minute_ms) (regularSessionOpenMs s)"

definition isKrxRegularSessionNow :: "ms \<Rightarrow> bool" where
  "isKrxRegularSessionNow nowMs =
     (let today = realMsToYyyymmdd nowMs; wd = kstWeekday today in
      if wd = Some 0 \<or> wd = Some 6 then False
      else (case regularSessionOpenMs today of None \<Rightarrow> False | Some v \<Rightarrow> v \<le> nowMs)
         \<and> (case regularSessionCloseMs today of None \<Rightarrow> False | Some v \<Rightarrow> nowMs \<le> v))"

definition PREVIOUS_DAY_BOOK_EXPIRY_HHMM :: int where "PREVIOUS_DAY_BOOK_EXPIRY_HHMM = 800"
definition KRX_PREVIOUS_DAY_BOOK_EXPIRY_HHMM :: int where "KRX_PREVIOUS_DAY_BOOK_EXPIRY_HHMM = 830"

definition previousDayObExpired :: "ms \<Rightarrow> ms \<Rightarrow> string \<Rightarrow> bool" where
  "previousDayObExpired frameMs nowMs venue =
     (let today = realMsToYyyymmdd nowMs in
      if realMsToYyyymmdd frameMs = today then False
      else if isKstWeekend today then False
      else num_ge (unixMsToKSTHhmm nowMs)
        (if venue = ''KRX'' then KRX_PREVIOUS_DAY_BOOK_EXPIRY_HHMM else PREVIOUS_DAY_BOOK_EXPIRY_HHMM))"

subsection \<open>Window planners\<close>

datatype LiveTimeframe = S1 | S5 | S10 | S30
  | M1 | M3 | M5 | M10 | M15 | M30 | M60 | M120 | M240 | Day | Week | Month

definition isSecondTimeframe :: "LiveTimeframe \<Rightarrow> bool" where
  "isSecondTimeframe tf \<longleftrightarrow> tf \<in> {S1, S5, S10, S30}"

definition isMinuteTimeframe :: "LiveTimeframe \<Rightarrow> bool" where
  "isMinuteTimeframe tf \<longleftrightarrow> tf \<in> {M1, M3, M5, M10, M15, M30, M60, M120, M240}"

definition STEP_CANDLE_TARGET :: int where "STEP_CANDLE_TARGET = 50"

fun STEP_TRADING_DAYS :: "LiveTimeframe \<Rightarrow> int" where
  "STEP_TRADING_DAYS S1 = 1" | "STEP_TRADING_DAYS S5 = 1"
| "STEP_TRADING_DAYS S10 = 1" | "STEP_TRADING_DAYS S30 = 1"
| "STEP_TRADING_DAYS M1 = 5" | "STEP_TRADING_DAYS M3 = 5 * 3"
| "STEP_TRADING_DAYS M5 = 5 * 5" | "STEP_TRADING_DAYS M10 = 5 * 10"
| "STEP_TRADING_DAYS M15 = 5 * 15" | "STEP_TRADING_DAYS M30 = 5 * 30"
| "STEP_TRADING_DAYS M60 = 5 * 60" | "STEP_TRADING_DAYS M120 = 5 * 30"
| "STEP_TRADING_DAYS M240 = 5 * 30" | "STEP_TRADING_DAYS Day = STEP_CANDLE_TARGET"
| "STEP_TRADING_DAYS Week = STEP_CANDLE_TARGET * 5" | "STEP_TRADING_DAYS Month = STEP_CANDLE_TARGET * 21"

definition stepBackFrom :: "ymd \<Rightarrow> LiveTimeframe \<Rightarrow> int \<Rightarrow> ymd option" where
  "stepBackFrom base tf steps = subtractWeekdaysKst base (STEP_TRADING_DAYS tf * max 1 steps)"

definition MAX_BATCH_STEPS_PER_DISPATCH :: int where "MAX_BATCH_STEPS_PER_DISPATCH = 2"

definition dispatchStepsFor :: "LiveTimeframe \<Rightarrow> int \<Rightarrow> int" where
  "dispatchStepsFor tf remainingBudget =
     (let cap = if isMinuteTimeframe tf then MAX_BATCH_STEPS_PER_DISPATCH else 1
      in max 1 (min cap remainingBudget))"

definition nextHistoricalFrom :: "ms \<Rightarrow> ymd option \<Rightarrow> LiveTimeframe \<Rightarrow> int \<Rightarrow> ymd option" where
  "nextHistoricalFrom axisEarliestMs historicalFromDate tf steps =
     (let axisEarliestDate = realMsToYyyymmdd axisEarliestMs;
          baseDate = (case historicalFromDate of
              Some h \<Rightarrow> if h < axisEarliestDate then h else axisEarliestDate
            | None \<Rightarrow> axisEarliestDate)
      in stepBackFrom baseDate tf steps)"

definition nextCoverageFrom :: "ymd option \<Rightarrow> ymd \<Rightarrow> LiveTimeframe \<Rightarrow> ymd option" where
  "nextCoverageFrom historicalFromDate rangeWindowFromDate tf =
     (let base = (case historicalFromDate of Some h \<Rightarrow> h | None \<Rightarrow> rangeWindowFromDate)
      in stepBackFrom base tf 1)"

definition CONTRACT_RETAIN_STEPS :: int where "CONTRACT_RETAIN_STEPS = 1"
definition CONTRACT_TRIGGER_STEPS :: int where "CONTRACT_TRIGGER_STEPS = 3"

text \<open>The outer option is the weekday walk's fuel, the inner one the code's \<open>null\<close>.\<close>

definition planViewportContraction :: "ymd option \<Rightarrow> ymd \<Rightarrow> LiveTimeframe \<Rightarrow> ymd option option" where
  "planViewportContraction historicalFromDate viewportLeftDate tf =
     (if \<not> isMinuteTimeframe tf then Some None
      else case historicalFromDate of
          None \<Rightarrow> Some None
        | Some h \<Rightarrow>
            (case stepBackFrom viewportLeftDate tf CONTRACT_TRIGGER_STEPS of
               None \<Rightarrow> None
             | Some trigger \<Rightarrow>
                 if trigger \<le> h then Some None
                 else (case stepBackFrom viewportLeftDate tf CONTRACT_RETAIN_STEPS of
                     None \<Rightarrow> None
                   | Some keepFrom \<Rightarrow> Some (if h < keepFrom then Some keepFrom else None))))"

definition SOURCE_SWAP_RETAIN_TRADING_DAYS :: int where "SOURCE_SWAP_RETAIN_TRADING_DAYS = 5"

definition planSourceSwapContraction :: "ymd option \<Rightarrow> ymd \<Rightarrow> LiveTimeframe \<Rightarrow> ymd option option" where
  "planSourceSwapContraction historicalFromDate viewportLeftDate tf =
     (if \<not> isMinuteTimeframe tf then Some None
      else case historicalFromDate of
          None \<Rightarrow> Some None
        | Some h \<Rightarrow>
            (case subtractWeekdaysKst viewportLeftDate SOURCE_SWAP_RETAIN_TRADING_DAYS of
               None \<Rightarrow> None
             | Some keepFrom \<Rightarrow> Some (if h < keepFrom then Some keepFrom else None)))"

definition canAdvanceHistoricalWindow :: "ymd option \<Rightarrow> ymd option \<Rightarrow> bool" where
  "canAdvanceHistoricalWindow historicalFromDate earliestAllowedDate =
     (case earliestAllowedDate of None \<Rightarrow> True
      | Some e \<Rightarrow> (case historicalFromDate of None \<Rightarrow> True | Some h \<Rightarrow> e < h))"

definition clampFromToFloor :: "ymd \<Rightarrow> ymd option \<Rightarrow> ymd" where
  "clampFromToFloor nextFrom earliestAllowedDate =
     (case earliestAllowedDate of None \<Rightarrow> nextFrom | Some e \<Rightarrow> if nextFrom < e then e else nextFrom)"

datatype fill_kind = LeftPan | CoverageGap

record FillStepArgs =
  kind :: fill_kind
  historicalFromDate :: "ymd option"
  axisEarliestMs :: ms
  earliestAllowedDate :: "ymd option"
  timeframe :: LiveTimeframe
  stepCount :: int
  budget :: int
  coverageTargetDate :: "ymd option"
  rangeWindowFromDate :: "ymd option"

datatype fill_step = Stop | Fetch ymd int

definition planFillStep :: "FillStepArgs \<Rightarrow> fill_step option" where
  "planFillStep args =
     (if budget args \<le> stepCount args then Some Stop
      else if \<not> canAdvanceHistoricalWindow (historicalFromDate args) (earliestAllowedDate args) then Some Stop
      else case kind args of
          LeftPan \<Rightarrow>
            let steps = dispatchStepsFor (timeframe args) (budget args - stepCount args)
            in map_option (\<lambda>n. Fetch (clampFromToFloor n (earliestAllowedDate args)) steps)
                 (nextHistoricalFrom (axisEarliestMs args) (historicalFromDate args) (timeframe args) steps)
        | CoverageGap \<Rightarrow>
            (case (coverageTargetDate args, rangeWindowFromDate args) of
               (Some target, Some window) \<Rightarrow>
                 let windowFrom = (case historicalFromDate args of Some h \<Rightarrow> h | None \<Rightarrow> window)
                 in if windowFrom \<le> target then Some Stop
                    else map_option (\<lambda>n. Fetch (clampFromToFloor n (earliestAllowedDate args)) 1)
                      (nextCoverageFrom (historicalFromDate args) window (timeframe args))
             | _ \<Rightarrow> Some Stop))"

datatype restore_seat = Seat | Wait | CancelFloor

definition planRestoreSeat :: "ymd \<Rightarrow> ymd option \<Rightarrow> ymd option \<Rightarrow> restore_seat" where
  "planRestoreSeat anchorYmd floorYmd historicalFrom =
     (if (case floorYmd of Some f \<Rightarrow> anchorYmd < f | None \<Rightarrow> False) then CancelFloor
      else case historicalFrom of None \<Rightarrow> Seat
        | Some h \<Rightarrow> if h \<le> anchorYmd then Seat else Wait)"

subsection \<open>Date keys stand for days\<close>

definition key :: "int \<Rightarrow> ymd" where
  "key n = date_text (civil_of_day n)"

text \<open>The days from 1422 to 3065: all have a four-digit year.\<close>

definition key_range :: "int \<Rightarrow> bool" where
  "key_range n \<longleftrightarrow> - 200000 \<le> n \<and> n \<le> 400000"

lemma year_mono: "a \<le> b \<Longrightarrow> fst (civil_of_day a) \<le> fst (civil_of_day b)"
  using civil_less_mono [of a b] by (cases "a = b") (auto simp: civil_less_def split: prod.splits)

lemma key_range_four: "key_range n \<Longrightarrow> four_digit (civil_of_day n)"
proof -
  assume n: "key_range n"
  have lo: "fst (civil_of_day (- 200000)) = 1422" and hi: "fst (civil_of_day 400000) = 3065"
    by code_simp+
  have "1422 \<le> fst (civil_of_day n)" using year_mono [of "- 200000" n] n lo by (simp add: key_range_def)
  moreover have "fst (civil_of_day n) \<le> 3065" using year_mono [of n 400000] n hi by (simp add: key_range_def)
  ultimately show ?thesis by (simp add: four_digit_def)
qed

lemma parse_digits:
  assumes "s \<noteq> []" "list_all is_digit s"
  shows "js_parse_int s = js_number s"
proof -
  obtain c r where s: "s = c # r" using assms(1) by (cases s) auto
  have c: "is_digit c" using assms(2) s by simp
  then have "\<not> is_blank c" "c \<noteq> CHR ''-''" "c \<noteq> CHR ''+''"
    by (auto simp: is_blank_def is_digit_def)
  moreover have "takeWhile is_digit s = s" using assms(2) by (simp add: takeWhile_eq_all_conv list_all_iff)
  ultimately show ?thesis
    using assms(1) s by (cases "js_number s") (simp_all add: js_parse_int_def)
qed

lemma utc_day_key:
  assumes "key_range n"
  shows "utc_day (key n) = Some n"
proof -
  obtain y m d where c: "civil_of_day n = (y, m, d)" by (metis prod_cases3)
  have v: "valid_civil (y, m, d)" "four_digit (y, m, d)"
    using valid_civil_of_day [of n] key_range_four [OF assms] c by simp_all
  have y: "1000 \<le> y" using v(2) by (simp add: four_digit_def)
  have md: "0 \<le> m + 1" "m + 1 \<le> 99" "0 \<le> d" "d \<le> 99"
    using v(1) month_days_31 [of y m] by (auto simp: valid_civil_def)
  have "js_parse_int (nat_text (nat y)) = Some y"
    using parse_digits [of "nat_text (nat y)"] digits_nat_text js_number_nat_text [of "nat y"] y by simp
  moreover have "js_parse_int (pad2 v) = Some v" if "0 \<le> v" "v \<le> 99" for v
  proof -
    have "pad2 v \<noteq> []" using pad2_text(1) [OF that] by auto
    then show ?thesis
      using parse_digits [of "pad2 v"] pad2_text [OF that] js_number_text_val [of "pad2 v"] by simp
  qed
  ultimately show ?thesis
    using md y c make_day_civil [OF c] date_text_parts(1-3) [OF v]
    by (simp add: utc_day_def key_def utc_year_def)
qed

lemma key_less: "key_range a \<Longrightarrow> key_range b \<Longrightarrow> key a < key b \<longleftrightarrow> a < b"
proof -
  assume r: "key_range a" "key_range b"
  have "key a < key b \<longleftrightarrow> civil_less (civil_of_day a) (civil_of_day b)"
    unfolding key_def using r key_range_four valid_civil_of_day by (intro date_text_less) auto
  also have "\<dots> \<longleftrightarrow> a < b"
    using civil_less_mono [of a b] civil_less_mono [of b a]
    by (cases a b rule: linorder_cases) (auto simp: civil_less_def split: prod.splits)
  finally show ?thesis .
qed

lemma key_le: "key_range a \<Longrightarrow> key_range b \<Longrightarrow> key a \<le> key b \<longleftrightarrow> a \<le> b"
  using key_less [of b a] by (metis not_less)

lemma subtractDaysKst_key: "key_range n \<Longrightarrow> subtractDaysKst (key n) k = key (n - k)"
proof -
  assume r: "key_range n"
  obtain y m d where c: "civil_of_day n = (y, m, d)" by (metis prod_cases3)
  have "make_day y m (d - k) = make_day y m d - k" by (simp add: make_day_def Let_def)
  then show ?thesis using utc_day_key [OF r] c make_day_civil [OF c] by (simp add: subtractDaysKst_def key_def)
qed

lemma kstWeekday_key: "key_range n \<Longrightarrow> kstWeekday (key n) = Some ((n + 4) mod 7)"
  by (simp add: kstWeekday_def utc_day_key)

lemma realMs_key: "time_clip (t + kst_offset) \<Longrightarrow> realMsToYyyymmdd t = key (tradingDayOf t)"
  by (simp add: realMsToYyyymmdd_def kst_date_text_def key_def)

lemma js_round_div_exact: "0 < b \<Longrightarrow> js_round_div (k * b) b = k"
proof -
  assume "0 < b"
  then have "(2 * (k * b) + b) div (2 * b) = k + b div (2 * b)"
    using div_mult_self3 [of "2 * b" k b] by (simp add: algebra_simps)
  moreover have "b div (2 * b) = 0" using \<open>0 < b\<close> by simp
  ultimately show ?thesis by (simp add: js_round_div_def)
qed

text \<open>
  Date-key arithmetic is exact: taking days off a key and measuring the distance back gives the
  same number of days, across months, leap days and years, and the resulting keys compare as strings
  the way the days do.
\<close>

lemma date_keys_roundtrip:
  assumes "key_range n" "key_range (n - k)"
  shows "daysBetweenKst (subtractDaysKst (key n) k) (key n) = Some k
    \<and> (subtractDaysKst (key n) k < key n \<longleftrightarrow> 0 < k)"
proof -
  have "n * day_ms - (n - k) * day_ms = k * day_ms" by (simp add: algebra_simps)
  then have "js_round_div (n * day_ms - (n - k) * day_ms) day_ms = k"
    using js_round_div_exact [of day_ms k] by simp
  then show ?thesis
    using assms key_less [OF assms(2,1)]
    by (simp add: subtractDaysKst_key daysBetweenKst_def utcMidnightMs_def utc_day_key)
qed

subsection \<open>The weekday walk\<close>

definition weekend :: "int \<Rightarrow> bool" where
  "weekend n \<longleftrightarrow> (n + 4) mod 7 = 0 \<or> (n + 4) mod 7 = 6"

definition prev_weekday :: "int \<Rightarrow> int" where
  "prev_weekday n = (if (n + 4) mod 7 = 1 then n - 3 else if (n + 4) mod 7 = 0 then n - 2 else n - 1)"

definition wd :: "int \<Rightarrow> int" where
  "wd n = (n + 4) mod 7"

lemma wd_step: "wd (n - 1) = (if wd n = 0 then 6 else wd n - 1)"
proof -
  define m where "m = n + 4"
  have b: "0 \<le> m mod 7" "m mod 7 < 7" by simp_all
  have e: "(m - 1) mod 7 = (m mod 7 - 1) mod 7" by (simp add: mod_diff_left_eq)
  have "(m - 1) mod 7 = (if m mod 7 = 0 then 6 else m mod 7 - 1)"
  proof (cases "m mod 7 = 0")
    case True
    then show ?thesis unfolding e by simp
  next
    case False
    then have "0 \<le> m mod 7 - 1" "m mod 7 - 1 < 7" using b by linarith+
    then show ?thesis unfolding e using False by (simp only: mod_pos_pos_trivial if_False)
  qed
  then show ?thesis by (simp add: wd_def m_def algebra_simps)
qed

lemma wd_bounds: "0 \<le> wd n" "wd n \<le> 6"
  using pos_mod_bound [of 7 "n + 4"] by (simp_all add: wd_def)

lemma weekend_wd: "weekend n \<longleftrightarrow> wd n = 0 \<or> wd n = 6"
  by (simp add: weekend_def wd_def)

lemma prev_weekday_wd: "prev_weekday n = (if wd n = 1 then n - 3 else if wd n = 0 then n - 2 else n - 1)"
  by (simp add: prev_weekday_def wd_def)

lemma wd_steps: "wd (n - 2) = (if wd n = 0 then 5 else if wd n = 1 then 6 else wd n - 2)"
    "wd (n - 3) = (if wd n = 0 then 4 else if wd n = 1 then 5 else if wd n = 2 then 6 else wd n - 3)"
  using wd_step [of n] wd_step [of "n - 1"] wd_step [of "n - 2"] wd_bounds [of n] by auto

lemma prev_weekday_spec:
  "prev_weekday n < n" "n - 3 \<le> prev_weekday n" "\<not> weekend (prev_weekday n)"
  "prev_weekday n < x \<Longrightarrow> x < n \<Longrightarrow> weekend x"
proof -
  show "prev_weekday n < n" "n - 3 \<le> prev_weekday n" by (simp_all add: prev_weekday_def)
  show "\<not> weekend (prev_weekday n)"
    using wd_bounds [of n] by (auto simp: prev_weekday_wd weekend_wd wd_step wd_steps)
  show "prev_weekday n < x \<Longrightarrow> x < n \<Longrightarrow> weekend x"
  proof -
    assume x: "prev_weekday n < x" "x < n"
    then have "x = n - 1 \<and> (wd n = 0 \<or> wd n = 1) \<or> x = n - 2 \<and> wd n = 1"
      by (auto simp: prev_weekday_wd split: if_splits)
    then show "weekend x" by (auto simp: weekend_wd wd_step wd_steps)
  qed
qed

lemma prev_weekday_mono: "a \<le> b \<Longrightarrow> prev_weekday a \<le> prev_weekday b"
  using prev_weekday_spec [of a] prev_weekday_spec [of b] by (meson less_le_trans not_less)

lemma mono_prev: "mono prev_weekday"
  by (simp add: mono_def prev_weekday_mono)

abbreviation weekdays_back :: "nat \<Rightarrow> int \<Rightarrow> int" where
  "weekdays_back r \<equiv> prev_weekday ^^ r"

lemma weekdays_back_bounds: "n - 3 * int r \<le> weekdays_back r n \<and> weekdays_back r n \<le> n - int r"
proof (induction r)
  case (Suc r)
  then show ?case using prev_weekday_spec(1,2) [of "weekdays_back r n"] by simp
qed simp

lemma weekdays_between: "card {x. weekdays_back r n \<le> x \<and> x < n \<and> \<not> weekend x} = r"
proof (induction r)
  case (Suc r)
  let ?e = "weekdays_back r n" and ?S = "{x. weekdays_back r n \<le> x \<and> x < n \<and> \<not> weekend x}"
  have le: "?e \<le> n" using weekdays_back_bounds [of n r] by simp
  have "{x. prev_weekday ?e \<le> x \<and> x < n \<and> \<not> weekend x} = insert (prev_weekday ?e) ?S"
    using prev_weekday_spec(1,3) [of ?e] prev_weekday_spec(4) [of ?e] le
    by (auto simp: set_eq_iff intro: order.trans less_imp_le) (metis not_less order.order_iff_strict)
  moreover have "finite ?S" by (rule finite_subset [of _ "{?e..<n}"]) auto
  moreover have "prev_weekday ?e \<notin> ?S" using prev_weekday_spec(1) [of ?e] by auto
  ultimately show ?case using Suc by simp
next
  case 0
  have "{x. n \<le> x \<and> x < n \<and> \<not> weekend x} = {}" by auto
  then have "card {x. n \<le> x \<and> x < n \<and> \<not> weekend x} = 0" by (simp only: card.empty)
  then show ?case by simp
qed

lemma key_range_le: "key_range a \<Longrightarrow> a \<le> b \<Longrightarrow> b \<le> c \<Longrightarrow> key_range c \<Longrightarrow> key_range b"
  by (simp add: key_range_def)

text \<open>From \<open>n\<close> the loop passes the weekend days down to the previous weekday and counts that one.\<close>

lemma weekday_loop_step:
  assumes "key_range n" "key_range (n - 1)" "0 < r"
  shows "weekday_loop (Suc f) (key n) r = weekday_loop f (key (n - 1)) (if weekend (n - 1) then r else r - 1)"
  using assms
  by (subst weekday_loop.simps)
    (auto simp: Let_def subtractDaysKst_key kstWeekday_key weekend_def)

lemma weekday_loop_prev:
  assumes "key_range n" "key_range (n - 3)" "0 < r"
  shows "\<exists>j \<in> {1, 2, 3}. \<forall>f. weekday_loop (f + j) (key n) r = weekday_loop f (key (prev_weekday n)) (r - 1)"
proof -
  have rng: "key_range (n - 1)" "key_range (n - 2)" using assms(1,2) by (simp_all add: key_range_def)
  have s1: "weekday_loop (f + 1) (key n) r = weekday_loop f (key (n - 1)) (if weekend (n - 1) then r else r - 1)" for f
    using weekday_loop_step [OF assms(1) rng(1) assms(3)] by simp
  have s2: "weekday_loop (f + 1) (key (n - 1)) r = weekday_loop f (key (n - 2)) (if weekend (n - 2) then r else r - 1)" for f
    using weekday_loop_step [OF rng(1) _ assms(3), of f] rng(2) by simp
  have s3: "weekday_loop (f + 1) (key (n - 2)) r = weekday_loop f (key (n - 3)) (if weekend (n - 3) then r else r - 1)" for f
    using weekday_loop_step [OF rng(2) _ assms(3), of f] assms(2) by simp
  have b: "wd n = 0 \<or> wd n = 1 \<or> 2 \<le> wd n" using wd_bounds [of n] by linarith
  have w1: "weekend (n - 1) \<longleftrightarrow> wd n = 0 \<or> wd n = 1"
    using wd_bounds [of n] by (auto simp: weekend_wd wd_step)
  have w2: "weekend (n - 2)" if "wd n = 1" using that by (simp add: weekend_wd wd_steps)
  have w2': "\<not> weekend (n - 2)" if "wd n = 0" using that by (simp add: weekend_wd wd_steps)
  have w3: "\<not> weekend (n - 3)" if "wd n = 1" using that by (simp add: weekend_wd wd_steps)
  from b show ?thesis
  proof (elim disjE)
    assume "wd n = 0"
    then have "weekday_loop (f + 1 + 1) (key n) r = weekday_loop f (key (prev_weekday n)) (r - 1)" for f
      using s1 [of "f + 1"] s2 [of f] w1 w2' by (simp add: prev_weekday_wd)
    then show ?thesis by (intro bexI [of _ 2]) (simp_all add: numeral_2_eq_2)
  next
    assume "wd n = 1"
    then have "weekday_loop (f + 1 + 1 + 1) (key n) r = weekday_loop f (key (prev_weekday n)) (r - 1)" for f
      using s1 [of "f + 1 + 1"] s2 [of "f + 1"] s3 [of f] w1 w2 w3 by (simp add: prev_weekday_wd)
    then show ?thesis by (intro bexI [of _ 3]) (simp_all add: numeral_3_eq_3)
  next
    assume "2 \<le> wd n"
    then show ?thesis using s1 w1 by (intro bexI [of _ 1]) (auto simp: prev_weekday_wd)
  qed
qed

lemma weekday_walk:
  assumes "key_range n" "key_range (n - 3 * int r)" "3 * r \<le> fuel"
  shows "weekday_loop fuel (key n) (int r) = Some (key (weekdays_back r n))"
  using assms
proof (induction r arbitrary: n fuel)
  case 0
  then show ?case by (subst weekday_loop.simps) simp
next
  case (Suc r)
  have r3: "key_range (n - 3)" using Suc.prems(1,2) by (simp add: key_range_def)
  obtain j where j: "j \<in> {1, 2, 3}"
    "\<forall>f. weekday_loop (f + j) (key n) (int (Suc r)) = weekday_loop f (key (prev_weekday n)) (int (Suc r) - 1)"
    using weekday_loop_prev [OF Suc.prems(1) r3, of "int (Suc r)"] by (meson of_nat_0_less_iff zero_less_Suc)
  have "weekday_loop fuel (key n) (int (Suc r)) = weekday_loop (fuel - j) (key (prev_weekday n)) (int r)"
  proof -
    have "fuel - j + j = fuel" using j(1) Suc.prems(3) by auto
    then show ?thesis using j(2) [rule_format, of "fuel - j"] by simp
  qed
  also have "\<dots> = Some (key (weekdays_back r (prev_weekday n)))"
  proof (rule Suc.IH)
    show "key_range (prev_weekday n)" "key_range (prev_weekday n - 3 * int r)"
      using Suc.prems(1,2) prev_weekday_spec(1,2) [of n] by (simp_all add: key_range_def)
    show "3 * r \<le> fuel - j" using j(1) Suc.prems(3) by auto
  qed
  finally show ?case by (simp add: funpow_swap1)
qed

lemma subtractWeekdaysKst_key:
  assumes "key_range n" "key_range (n - 3 * max 1 k)"
  shows "subtractWeekdaysKst (key n) k = Some (key (weekdays_back (nat (max 1 k)) n))"
proof -
  have "int (nat (max 1 k)) = max 1 k" by simp
  then show ?thesis
    using weekday_walk [of n "nat (max 1 k)" "nat (3 * max 1 k)"] assms
    by (simp only: subtractWeekdaysKst_def nat_mult_distrib nat_numeral order_refl)
qed

text \<open>
  C39. The weekday walk always ends, and ends exactly \<open>k\<close> weekdays back: on a weekday, with exactly
  \<open>k\<close> weekdays from it up to (not including) the starting date. A request for fewer than one weekday
  walks one.
\<close>

theorem weekday_walk_correct:
  assumes "key_range n" "key_range (n - 3 * max 1 k)"
  shows "\<exists>e. subtractWeekdaysKst (key n) k = Some (key e) \<and> e < n \<and> \<not> weekend e
    \<and> card {x. e \<le> x \<and> x < n \<and> \<not> weekend x} = nat (max 1 k)"
proof -
  define r where "r = nat (max 1 k) - 1"
  have r: "nat (max 1 k) = Suc r" by (simp add: r_def)
  have "weekdays_back (Suc r) n < n" using weekdays_back_bounds [of n "Suc r"] by linarith
  then show ?thesis
    using subtractWeekdaysKst_key [OF assms] weekdays_between [of "Suc r" n] prev_weekday_spec(3)
    unfolding r by (intro exI [of _ "weekdays_back (Suc r) n"]) simp
qed

theorem weekday_walk_correct_witness:
  "\<exists>e. subtractWeekdaysKst (key 20514) 5 = Some (key e) \<and> e < 20514 \<and> \<not> weekend e"
  using weekday_walk_correct [of 20514 5] by (auto simp: key_range_def)

subsection \<open>Widening and shrinking the window\<close>

lemma step_days_bounds: "1 \<le> STEP_TRADING_DAYS tf" "STEP_TRADING_DAYS tf \<le> 1050"
  by (cases tf; simp add: STEP_CANDLE_TARGET_def)+

text \<open>A working day far enough from both ends of the key range for any planned step.\<close>

definition modern :: "int \<Rightarrow> bool" where
  "modern n \<longleftrightarrow> - 25567 \<le> n \<and> n \<le> 376199"

lemma modern_range: "modern n \<Longrightarrow> key_range n"
  by (simp add: modern_def key_range_def)

lemma modern_back:
  assumes "modern n" "r \<le> 5000"
  shows "key_range (weekdays_back r n)"
  using assms weekdays_back_bounds [of n r] by (simp add: modern_def key_range_def)

lemma stepBackFrom_key:
  assumes "modern n" "steps \<le> 3"
  shows "stepBackFrom (key n) tf steps = Some (key (weekdays_back (nat (STEP_TRADING_DAYS tf * max 1 steps)) n))"
    and "nat (STEP_TRADING_DAYS tf * max 1 steps) \<le> 3150" "0 < STEP_TRADING_DAYS tf * max 1 steps"
proof -
  have b: "STEP_TRADING_DAYS tf * max 1 steps \<le> 1050 * 3"
    using step_days_bounds [of tf] assms(2) by (intro mult_mono) auto
  then show "nat (STEP_TRADING_DAYS tf * max 1 steps) \<le> 3150" by simp
  show p: "0 < STEP_TRADING_DAYS tf * max 1 steps" using step_days_bounds [of tf] by (simp add: zero_less_mult_iff)
  show "stepBackFrom (key n) tf steps = Some (key (weekdays_back (nat (STEP_TRADING_DAYS tf * max 1 steps)) n))"
    unfolding stepBackFrom_def using subtractWeekdaysKst_key [of n "STEP_TRADING_DAYS tf * max 1 steps"] assms b p
    by (simp add: modern_def key_range_def max_def)
qed

lemma weekdays_back_less: "0 < r \<Longrightarrow> weekdays_back r n < n"
  using weekdays_back_bounds [of n r] by linarith

lemma weekdays_back_antimono: "r \<le> q \<Longrightarrow> weekdays_back q n \<le> weekdays_back r n"
proof -
  assume "r \<le> q"
  then have "weekdays_back q n = weekdays_back (q - r) (weekdays_back r n)"
    by (metis funpow_add comp_apply le_add_diff_inverse2)
  then show ?thesis using weekdays_back_bounds [of "weekdays_back r n" "q - r"] by linarith
qed

lemma weekdays_back_mono: "a \<le> b \<Longrightarrow> weekdays_back r a \<le> weekdays_back r b"
  using funpow_mono [OF mono_prev] by simp

lemma base_date_key:
  assumes "time_clip (t + kst_offset)" "key_range (tradingDayOf t)" "\<forall>h \<in> set_option hist. key_range h"
  shows "nextHistoricalFrom t (map_option key hist) tf steps
    = stepBackFrom (key (case hist of None \<Rightarrow> tradingDayOf t | Some h \<Rightarrow> min h (tradingDayOf t))) tf steps"
  using assms by (cases hist) (auto simp: nextHistoricalFrom_def realMs_key key_less min_def Let_def)

lemma clamp_key:
  assumes "key_range n" "\<forall>e \<in> set_option fl. key_range e"
  shows "clampFromToFloor (key n) (map_option key fl) = key (case fl of None \<Rightarrow> n | Some e \<Rightarrow> max e n)"
  using assms by (cases fl) (auto simp: clampFromToFloor_def key_less max_def)

lemma dispatch_bounds:
  "0 < remaining \<Longrightarrow> 1 \<le> dispatchStepsFor tf remaining \<and> dispatchStepsFor tf remaining \<le> remaining
     \<and> dispatchStepsFor tf remaining \<le> 2"
  by (auto simp: dispatchStepsFor_def MAX_BATCH_STEPS_PER_DISPATCH_def Let_def)

text \<open>The dates of a fill request stand for days of the modern range.\<close>

definition fill_days :: "FillStepArgs \<Rightarrow> int \<Rightarrow> int option \<Rightarrow> bool" where
  "fill_days args h fl \<longleftrightarrow>
     historicalFromDate args = Some (key h) \<and> modern h
     \<and> earliestAllowedDate args = map_option key fl \<and> (\<forall>e \<in> set_option fl. key_range e)
     \<and> time_clip (axisEarliestMs args + kst_offset) \<and> modern (tradingDayOf (axisEarliestMs args))"

text \<open>A fetch that starts at or before the history reaches back of it, but not below the floor.\<close>

lemma advance_key:
  assumes "fill_days args h fl"
  shows "canAdvanceHistoricalWindow (historicalFromDate args) (earliestAllowedDate args) \<longleftrightarrow> (\<forall>e \<in> set_option fl. e < h)"
proof -
  note d = assms [unfolded fill_days_def]
  have "key_range h" using d modern_range by blast
  then show ?thesis using d by (cases fl) (auto simp: canAdvanceHistoricalWindow_def key_less)
qed

lemma fetch_below:
  assumes "fill_days args h fl" "modern b" "b \<le> h" "k \<le> 3" "\<forall>e \<in> set_option fl. e < h"
  shows "\<exists>m. map_option (\<lambda>n. Fetch (clampFromToFloor n (earliestAllowedDate args)) k) (stepBackFrom (key b) (timeframe args) k)
        = Some (Fetch (key m) k) \<and> m < h \<and> (\<forall>e \<in> set_option fl. e \<le> m)"
proof -
  note d = assms(1) [unfolded fill_days_def]
  let ?fl = "\<lambda>n. case fl of None \<Rightarrow> n | Some e \<Rightarrow> max e n"
  let ?r = "nat (STEP_TRADING_DAYS (timeframe args) * max 1 k)"
  note sb = stepBackFrom_key [OF assms(2,4), of "timeframe args"]
  have "key_range (weekdays_back ?r b)" using modern_back [OF assms(2), of ?r] sb(2) by simp
  then have "clampFromToFloor (key (weekdays_back ?r b)) (earliestAllowedDate args) = key (?fl (weekdays_back ?r b))"
    using clamp_key d by simp
  moreover have "weekdays_back ?r b < h" using weekdays_back_less [of ?r b] sb(3) assms(3) by simp
  ultimately show ?thesis
    using sb(1) assms(5) by (intro exI [of _ "?fl (weekdays_back ?r b)"]) (auto split: option.split)
qed

text \<open>
  C23. Every step of a fill makes progress inside its limits: the planner always answers; when it
  fetches, the new window start is strictly earlier than the current one and never before the floor,
  the step count stays within the budget, and when it stops, the budget is used up, the floor is
  reached, or the coverage target is inside the window.
\<close>

theorem fill_step_progress:
  assumes "fill_days args h fl"
  shows "\<exists>r. planFillStep args = Some r \<and> (case r of
      Fetch nextFrom steps \<Rightarrow> \<exists>n. nextFrom = key n \<and> n < h \<and> (\<forall>e \<in> set_option fl. e \<le> n)
        \<and> 1 \<le> steps \<and> stepCount args + steps \<le> budget args
    | Stop \<Rightarrow> budget args \<le> stepCount args \<or> (\<exists>e \<in> set_option fl. h \<le> e)
        \<or> kind args = CoverageGap \<and> (coverageTargetDate args = None \<or> rangeWindowFromDate args = None
             \<or> key h \<le> the (coverageTargetDate args)))"
proof -
  note d = assms [unfolded fill_days_def]
  have hr: "key_range h" using d modern_range by blast
  note can = advance_key [OF assms] and fetch = fetch_below [OF assms]
  consider "budget args \<le> stepCount args"
    | "stepCount args < budget args" "\<exists>e \<in> set_option fl. h \<le> e"
    | "stepCount args < budget args" "\<forall>e \<in> set_option fl. e < h" by (meson not_less)
  then show ?thesis
  proof cases
    case 1
    then show ?thesis by (simp add: planFillStep_def)
  next
    case 2
    then have "\<not> canAdvanceHistoricalWindow (historicalFromDate args) (earliestAllowedDate args)"
      using can by (meson not_less)
    then show ?thesis using 2 by (simp add: planFillStep_def)
  next
    case 3
    note db = dispatch_bounds [of "budget args - stepCount args" "timeframe args"]
    let ?k = "dispatchStepsFor (timeframe args) (budget args - stepCount args)"
    show ?thesis
    proof (cases "kind args")
      case LeftPan
      have "modern (min h (tradingDayOf (axisEarliestMs args)))" using d by (simp add: min_def)
      from fetch [OF this _ _ 3(2), of ?k] db 3(1)
      obtain m where "map_option (\<lambda>n. Fetch (clampFromToFloor n (earliestAllowedDate args)) ?k)
          (stepBackFrom (key (min h (tradingDayOf (axisEarliestMs args)))) (timeframe args) ?k) = Some (Fetch (key m) ?k)"
        "m < h" "\<forall>e \<in> set_option fl. e \<le> m" by auto
      moreover have "nextHistoricalFrom (axisEarliestMs args) (historicalFromDate args) (timeframe args) ?k
          = stepBackFrom (key (min h (tradingDayOf (axisEarliestMs args)))) (timeframe args) ?k"
        using base_date_key [of "axisEarliestMs args" "Some h"] d hr modern_range by simp
      ultimately show ?thesis
        using 3 can LeftPan db by (auto simp: planFillStep_def Let_def)
    next
      case CoverageGap
      show ?thesis
      proof (cases "coverageTargetDate args = None \<or> rangeWindowFromDate args = None \<or> key h \<le> the (coverageTargetDate args)")
        case True
        then show ?thesis using 3 can CoverageGap d
          by (auto simp: planFillStep_def Let_def split: option.split)
      next
        case False
        then obtain tg w where tw: "coverageTargetDate args = Some tg" "rangeWindowFromDate args = Some w" "\<not> key h \<le> tg"
          by auto
        have "modern h" using d by blast
        from fetch [OF this _ _ 3(2), of 1]
        obtain m where "map_option (\<lambda>n. Fetch (clampFromToFloor n (earliestAllowedDate args)) 1)
            (stepBackFrom (key h) (timeframe args) 1) = Some (Fetch (key m) 1)" "m < h" "\<forall>e \<in> set_option fl. e \<le> m"
          by auto
        then show ?thesis
          using 3 can CoverageGap tw d by (auto simp: planFillStep_def nextCoverageFrom_def Let_def)
      qed
    qed
  qed
qed

definition sample_fill :: FillStepArgs where
  "sample_fill = \<lparr>kind = LeftPan, historicalFromDate = Some (key 20500), axisEarliestMs = 20510 * day_ms,
     earliestAllowedDate = Some (key 20495), timeframe = M1, stepCount = 1, budget = 4,
     coverageTargetDate = None, rangeWindowFromDate = None\<rparr>"

theorem fill_step_progress_witness:
  "\<exists>r. planFillStep sample_fill = Some r \<and> r \<noteq> Stop"
proof -
  have "fill_days sample_fill 20500 (Some 20495)"
    by (simp add: fill_days_def sample_fill_def modern_def key_range_def time_clip_def tradingDayOf_def)
  from fill_step_progress [OF this] show ?thesis
  proof (elim exE conjE, goal_cases)
    case (1 r)
    have "r \<noteq> Stop" using 1(2) by (cases r) (auto simp: sample_fill_def)
    with 1(1) show ?case by blast
  qed
qed

text \<open>
  Shrinking the window is stable: when the planner cuts a minute window back, the new start is
  later than the old one and strictly before the visible left edge, and asking again at the same
  viewport changes nothing.
\<close>

lemma contraction_stable:
  assumes "modern v" "key_range h"
  assumes "planViewportContraction (Some (key h)) (key v) tf = Some (Some k)"
  shows "(\<exists>n. k = key n \<and> h < n \<and> n < v)
    \<and> planViewportContraction (Some k) (key v) tf = Some None"
proof -
  let ?q = "nat (STEP_TRADING_DAYS tf * max 1 CONTRACT_RETAIN_STEPS)"
  let ?r = "nat (STEP_TRADING_DAYS tf * max 1 CONTRACT_TRIGGER_STEPS)"
  have b: "CONTRACT_RETAIN_STEPS \<le> 3" "CONTRACT_TRIGGER_STEPS \<le> 3"
    by (simp_all add: CONTRACT_RETAIN_STEPS_def CONTRACT_TRIGGER_STEPS_def)
  note q = stepBackFrom_key [OF assms(1) b(1), of tf] and r = stepBackFrom_key [OF assms(1) b(2), of tf]
  have qr: "?q \<le> ?r"
    using step_days_bounds [of tf] by (intro nat_mono mult_left_mono)
      (simp_all add: CONTRACT_RETAIN_STEPS_def CONTRACT_TRIGGER_STEPS_def)
  have rng: "key_range (weekdays_back ?q v)" "key_range (weekdays_back ?r v)"
    using modern_back [OF assms(1)] q(2) r(2) by simp_all
  have k: "isMinuteTimeframe tf" "k = key (weekdays_back ?q v)" "key h < key (weekdays_back ?q v)"
    using assms(3) q(1) r(1) by (auto simp: planViewportContraction_def split: if_splits)
  have "key (weekdays_back ?r v) \<le> k"
    using weekdays_back_antimono [OF qr] rng k(2) by (simp add: key_le)
  then have "planViewportContraction (Some k) (key v) tf = Some None"
    using k(1) r(1) by (simp add: planViewportContraction_def)
  moreover have "h < weekdays_back ?q v" using k(3) assms(2) rng(1) by (simp add: key_less)
  moreover have "weekdays_back ?q v < v" using weekdays_back_less q(3) by simp
  ultimately show ?thesis using k(2) by blast
qed

end
