(* ===== verification/GapFill.thy ===== *)
theory GapFill
  imports DateWindow
begin

section \<open>Planning vendor requests for missing minute bars\<close>

text \<open>
  \<open>live/minuteGapFillPlan.ts\<close>: the list of trading days without captured bars becomes a list of
  request intervals. Dates are \<open>YYYYMMDD\<close> strings, compared and sorted as strings.
\<close>

record RangeMissingDate =
  missing_date :: ymd
  reason :: string

record GapFillRun =
  run_from :: ymd
  run_to :: ymd
  dates :: "ymd list"

record GapFillPlan =
  runs :: "GapFillRun list"
  unfillable :: "ymd list"
  deferred :: "ymd list"

definition KIWOOM_MINUTE_RETENTION_DAYS :: int where "KIWOOM_MINUTE_RETENTION_DAYS = 380"
definition RUN_MERGE_GAP_DAYS :: int where "RUN_MERGE_GAP_DAYS = 5"
definition MAX_GAP_FILL_DATES :: nat where "MAX_GAP_FILL_DATES = 40"
definition MAX_DATES_PER_RUN_1MIN :: int where "MAX_DATES_PER_RUN_1MIN = 10"

definition toUtcDate :: "ymd \<Rightarrow> ms option" where
  "toUtcDate s = (case (js_number (js_slice s 0 4), js_number (js_slice s 4 6), js_number (js_slice s 6 8)) of
     (Some y, Some m, Some d) \<Rightarrow> Some (make_day (utc_year y) (m - 1) d * day_ms) | _ \<Rightarrow> None)"

definition calendarDaysBetween :: "ymd \<Rightarrow> ymd \<Rightarrow> int option" where
  "calendarDaysBetween a b = (case (toUtcDate b, toUtcDate a) of
     (Some tb, Some ta) \<Rightarrow> Some (js_round_div (tb - ta) day_ms) | _ \<Rightarrow> None)"

definition FILLABLE_REASONS :: "string list" where
  "FILLABLE_REASONS = [''not_captured'', ''no_upstream_data'']"

text \<open>One date of the sorted list: the fillable and the unfillable dates so far.\<close>

definition collect_step :: "ymd \<Rightarrow> ymd \<Rightarrow> ymd list \<times> ymd list \<Rightarrow> RangeMissingDate \<Rightarrow> ymd list \<times> ymd list" where
  "collect_step today floor_date acc m = (case acc of (fillable, unfill) \<Rightarrow>
     if reason m \<notin> set FILLABLE_REASONS then acc
     else if today \<le> missing_date m then acc
     else if missing_date m < floor_date then (fillable, unfill @ [missing_date m])
     else (fillable @ [missing_date m], unfill))"

text \<open>The loop of \<open>chunkRun\<close> from the newest end: \<open>hi\<close> is the loop variable.\<close>

function chunk_loop :: "ymd list \<Rightarrow> nat \<Rightarrow> nat \<Rightarrow> GapFillRun list" where
  "chunk_loop ds perRun hi =
     (if hi = 0 \<or> perRun = 0 then []
      else let slice = js_slice ds (hi - perRun) hi
        in \<lparr>run_from = hd slice, run_to = last slice, dates = slice\<rparr> # chunk_loop ds perRun (hi - perRun))"
  by pat_completeness auto
termination
  by (relation "measure (\<lambda>(ds, k, hi). hi)") auto

declare chunk_loop.simps [simp del]

definition chunkRun :: "ymd list \<Rightarrow> nat \<Rightarrow> GapFillRun list" where
  "chunkRun ds perRun = rev (chunk_loop ds perRun (length ds))"

definition flush_run :: "nat \<Rightarrow> GapFillRun list \<Rightarrow> ymd list \<Rightarrow> GapFillRun list" where
  "flush_run perRun rs cur = (if cur \<noteq> [] then rs @ chunkRun cur perRun else rs)"

definition near :: "ymd \<Rightarrow> ymd \<Rightarrow> bool" where
  "near a b = (case calendarDaysBetween a b of None \<Rightarrow> False | Some n \<Rightarrow> n \<le> RUN_MERGE_GAP_DAYS)"

fun run_loop :: "nat \<Rightarrow> GapFillRun list \<Rightarrow> ymd list \<Rightarrow> ymd list \<Rightarrow> GapFillRun list" where
  "run_loop perRun rs cur [] = flush_run perRun rs cur"
| "run_loop perRun rs cur (d # ds) =
     (if cur = [] then run_loop perRun rs [d] ds
      else if near (last cur) d then run_loop perRun rs (cur @ [d]) ds
      else run_loop perRun (flush_run perRun rs cur) [d] ds)"

definition per_run :: "ms \<Rightarrow> nat" where
  "per_run bucketMs = nat (max 1 (MAX_DATES_PER_RUN_1MIN * max 1 (bucketMs div 60000)))"

definition planMinuteGapFill :: "RangeMissingDate list \<Rightarrow> ymd \<Rightarrow> ms \<Rightarrow> int \<Rightarrow> nat \<Rightarrow> GapFillPlan" where
  "planMinuteGapFill missingDates today bucketMs retentionDays maxDates =
     (if missingDates = [] then \<lparr>runs = [], unfillable = [], deferred = []\<rparr>
      else
        let floor_date = subtractDaysKst today retentionDays;
            (fillable, unfill) = foldl (collect_step today floor_date) ([], []) (sort_key missing_date missingDates);
            late = (if maxDates < length fillable then take (length fillable - maxDates) fillable else []);
            targets = (if late \<noteq> [] then drop (length fillable - maxDates) fillable else fillable)
        in \<lparr>runs = rev (run_loop (per_run bucketMs) [] [] targets), unfillable = unfill, deferred = late\<rparr>)"

definition gapFillRunKey :: "GapFillRun \<Rightarrow> string" where
  "gapFillRunKey r = run_from r @ ''-'' @ run_to r"

subsection \<open>The plan covers each date once\<close>

definition fillable_reason :: "RangeMissingDate \<Rightarrow> bool" where
  "fillable_reason m \<longleftrightarrow> reason m \<in> set FILLABLE_REASONS"

lemma collect_spec:
  "foldl (collect_step today fl) (f, u) ms =
     (f @ map missing_date (filter (\<lambda>m. fillable_reason m \<and> missing_date m < today \<and> fl \<le> missing_date m) ms),
      u @ map missing_date (filter (\<lambda>m. fillable_reason m \<and> missing_date m < today \<and> missing_date m < fl) ms))"
  by (induction ms arbitrary: f u) (auto simp: collect_step_def fillable_reason_def)

definition run_ok :: "nat \<Rightarrow> GapFillRun \<Rightarrow> bool" where
  "run_ok perRun r \<longleftrightarrow> dates r \<noteq> [] \<and> run_from r = hd (dates r) \<and> run_to r = last (dates r)
     \<and> length (dates r) \<le> perRun \<and> successively near (dates r)"

lemma successively_slice: "successively P xs \<Longrightarrow> successively P (js_slice xs a b)"
  unfolding js_slice_def
  by (metis append_take_drop_id successively_append_iff)

lemma chunk_loop_spec:
  assumes "hi \<le> length ds" "0 < k" "successively near ds"
  shows "concat (map dates (rev (chunk_loop ds k hi))) = take hi ds \<and> (\<forall>r \<in> set (chunk_loop ds k hi). run_ok k r)"
  using assms
proof (induction ds k hi rule: chunk_loop.induct)
  case (1 ds k hi)
  show ?case
  proof (cases "hi = 0")
    case True
    then show ?thesis by (subst (1 2) chunk_loop.simps) simp
  next
    case False
    let ?s = "js_slice ds (hi - k) hi"
    have ne: "?s \<noteq> []" "length ?s \<le> k" using False "1.prems" by (auto simp: js_slice_def)
    have IH: "concat (map dates (rev (chunk_loop ds k (hi - k)))) = take (hi - k) ds
        \<and> (\<forall>r \<in> set (chunk_loop ds k (hi - k)). run_ok k r)"
      using "1.IH" [of ?s] False "1.prems" by simp
    have unf: "chunk_loop ds k hi = \<lparr>run_from = hd ?s, run_to = last ?s, dates = ?s\<rparr> # chunk_loop ds k (hi - k)"
      using False "1.prems"(2) by (subst chunk_loop.simps) (simp add: Let_def)
    have "take (hi - k) ds @ ?s = take hi ds"
      using "1.prems"(1) by (simp add: js_slice_def) (metis append_take_drop_id diff_le_self min.absorb1 take_take)
    then show ?thesis
      using IH ne successively_slice [OF "1.prems"(3)] unfolding unf by (simp add: run_ok_def)
  qed
qed

lemma chunkRun_spec:
  assumes "0 < k" "successively near ds"
  shows "concat (map dates (chunkRun ds k)) = ds" "\<forall>r \<in> set (chunkRun ds k). run_ok k r"
  using chunk_loop_spec [of "length ds" ds k] assms by (simp_all add: chunkRun_def)

lemma flush_spec:
  assumes "0 < k" "successively near cur" "\<forall>r \<in> set rs. run_ok k r"
  shows "concat (map dates (flush_run k rs cur)) = concat (map dates rs) @ cur"
    and "\<forall>r \<in> set (flush_run k rs cur). run_ok k r"
  using chunkRun_spec [OF assms(1,2)] assms(3) by (auto simp: flush_run_def)

lemma run_loop_spec:
  assumes "0 < k" "successively near cur" "\<forall>r \<in> set rs. run_ok k r"
  shows "concat (map dates (run_loop k rs cur ds)) = concat (map dates rs) @ cur @ ds
    \<and> (\<forall>r \<in> set (run_loop k rs cur ds). run_ok k r)"
  using assms
proof (induction k rs cur ds rule: run_loop.induct)
  case (1 k rs cur)
  then show ?case using flush_spec [of k cur rs] by simp
next
  case (2 k rs cur d ds)
  show ?case
  proof (cases "cur = []")
    case True
    then show ?thesis using "2.IH"(1) [OF True] "2.prems" by simp
  next
    case ne: False
    show ?thesis
    proof (cases "near (last cur) d")
      case True
      then have "successively near (cur @ [d])" using "2.prems"(2) ne by (simp add: successively_append_iff)
      then show ?thesis using "2.IH"(2) [OF ne True] "2.prems" ne True by simp
    next
      case False
      then show ?thesis
        using "2.IH"(3) [OF ne False] "2.prems" ne flush_spec [OF "2.prems"] by simp
    qed
  qed
qed

lemma per_run_pos: "0 < per_run b"
  by (simp add: per_run_def)

text \<open>
  C24. The plan is a partition: reading the requested runs from the oldest to the newest, after the
  deferred dates, gives exactly the fillable dates (reason not captured or no upstream data, before
  today, inside the vendor's retention) in order, each once; the unfillable dates are exactly those
  outside the retention. Only the oldest dates are deferred, and no more than necessary.
\<close>

theorem gap_plan_partition:
  assumes "plan = planMinuteGapFill missing today b retention maxDates"
    and "fl = subtractDaysKst today retention"
    and "eligible = filter (\<lambda>m. fillable_reason m \<and> missing_date m < today) (sort_key missing_date missing)"
  shows "deferred plan @ concat (map dates (rev (runs plan))) = map missing_date (filter (\<lambda>m. fl \<le> missing_date m) eligible)
    \<and> unfillable plan = map missing_date (filter (\<lambda>m. missing_date m < fl) eligible)
    \<and> sum_list (map (length \<circ> dates) (runs plan)) = min maxDates (length (filter (\<lambda>m. fl \<le> missing_date m) eligible))"
proof -
  define sorted where "sorted = sort_key missing_date missing"
  define f where "f = map missing_date (filter (\<lambda>m. fillable_reason m \<and> missing_date m < today \<and> fl \<le> missing_date m) sorted)"
  define u where "u = map missing_date (filter (\<lambda>m. fillable_reason m \<and> missing_date m < today \<and> missing_date m < fl) sorted)"
  define late where "late = (if maxDates < length f then take (length f - maxDates) f else [])"
  define tg where "tg = (if late \<noteq> [] then drop (length f - maxDates) f else f)"
  have eligible: "map missing_date (filter (\<lambda>m. fl \<le> missing_date m) eligible) = f"
    "map missing_date (filter (\<lambda>m. missing_date m < fl) eligible) = u"
    "length (filter (\<lambda>m. fl \<le> missing_date m) eligible) = length f"
    unfolding assms(3) f_def u_def sorted_def by (simp_all add: conj_ac)
  have split: "late @ tg = f" by (auto simp: late_def tg_def)
  have len: "length tg = min maxDates (length f)" by (auto simp: late_def tg_def)
  have rl: "concat (map dates (run_loop (per_run b) [] [] tg)) = tg"
    using run_loop_spec [OF per_run_pos, of "[]" "[]" b tg] by simp
  have fold: "foldl (collect_step today fl) ([], []) (sort_key missing_date missing) = (f, u)"
    unfolding collect_spec f_def u_def sorted_def by simp
  have "runs plan = rev (run_loop (per_run b) [] [] tg) \<and> deferred plan = late \<and> unfillable plan = u"
  proof (cases "missing = []")
    case True
    then have "f = []" "u = []" by (simp_all add: f_def u_def sorted_def)
    then show ?thesis
      using True by (simp add: assms(1) planMinuteGapFill_def late_def tg_def flush_run_def)
  next
    case False
    then show ?thesis
      unfolding assms(1) planMinuteGapFill_def assms(2) [symmetric] Let_def fold
      by (simp add: late_def tg_def)
  qed
  moreover have "sum_list (map (length \<circ> dates) (rev (run_loop (per_run b) [] [] tg))) = length tg"
    using arg_cong [OF rl, of length] by (simp add: length_concat rev_map [symmetric] comp_def)
  ultimately show ?thesis
    unfolding eligible using rl split len by simp
qed

definition sample_missing :: "RangeMissingDate list" where
  "sample_missing = [\<lparr>missing_date = ''20260305'', reason = ''not_captured''\<rparr>,
     \<lparr>missing_date = ''20260302'', reason = ''no_upstream_data''\<rparr>,
     \<lparr>missing_date = ''20260303'', reason = ''venue_unsupported''\<rparr>]"

theorem gap_plan_partition_witness:
  "sum_list (map (length \<circ> dates) (runs (planMinuteGapFill sample_missing ''20260310'' 60000 380 40)))
     = min 40 (length (filter (\<lambda>m. subtractDaysKst ''20260310'' 380 \<le> missing_date m)
         (filter (\<lambda>m. fillable_reason m \<and> missing_date m < ''20260310'') (sort_key missing_date sample_missing))))"
  using gap_plan_partition [OF refl refl refl, of sample_missing "''20260310''" 60000 380 40] by blast

text \<open>
  Every request of the plan is one the vendor can finish in one go: it is not empty, starts and
  ends at its own first and last date, stays within the per-request budget of dates, and joins only
  dates at most five calendar days apart.
\<close>

lemma gap_plan_runs:
  assumes "r \<in> set (runs (planMinuteGapFill missing today b retention maxDates))"
  shows "dates r \<noteq> [] \<and> run_from r = hd (dates r) \<and> run_to r = last (dates r)
    \<and> int (length (dates r)) \<le> max 1 (10 * max 1 (b div 60000))
    \<and> successively (\<lambda>x y. \<exists>n \<le> 5. calendarDaysBetween x y = Some n) (dates r)"
proof -
  obtain tg where "r \<in> set (run_loop (per_run b) [] [] tg)"
    using assms by (auto simp: planMinuteGapFill_def Let_def split: prod.splits if_splits)
  then have "run_ok (per_run b) r" using run_loop_spec [OF per_run_pos, of "[]" "[]" b tg] by simp
  moreover have "successively near (dates r) = successively (\<lambda>x y. \<exists>n \<le> 5. calendarDaysBetween x y = Some n) (dates r)"
    by (rule arg_cong [of _ _ "\<lambda>P. successively P (dates r)"])
      (auto simp: near_def RUN_MERGE_GAP_DAYS_def fun_eq_iff split: option.splits)
  ultimately show ?thesis
    by (simp add: run_ok_def per_run_def MAX_DATES_PER_RUN_1MIN_def le_nat_iff)
qed

definition one_missing :: "RangeMissingDate list" where
  "one_missing = [\<lparr>missing_date = key 20500, reason = ''not_captured''\<rparr>]"

end
