(* ===== verification/CandleAggregation.thy ===== *)
theory CandleAggregation
  imports DateWindow
begin

section \<open>Aggregating candles\<close>

text \<open>
  \<open>live/aggregateCandles.ts\<close>: the session clip, the bucket grid of the minute timeframes, OHLCV
  aggregation into it, and the calendar (day, week, month) aggregation. Prices, volumes and trade
  values are integers (won and shares); a missing, negative or non-finite trade value is \<open>None\<close>.
\<close>

record candle =
  t_ms :: ms
  c_open :: int
  c_high :: int
  c_low :: int
  c_close :: int
  volume :: int

record calendar_candle = candle +
  trade_value_won :: "int option"

definition isRegularSessionMs :: "ms \<Rightarrow> bool" where
  "isRegularSessionMs tMs \<longleftrightarrow> js_rem (js_rem tMs day_ms + day_ms) day_ms \<le> 23400000"

definition keepRegularSessionCandles :: "'a candle_scheme list \<Rightarrow> 'a candle_scheme list" where
  "keepRegularSessionCandles cs = filter (\<lambda>c. isRegularSessionMs (t_ms c)) cs"

definition isMinuteSessionMs :: "ms \<Rightarrow> string \<Rightarrow> bool" where
  "isMinuteSessionMs tMs venue =
     (if venue \<noteq> ''KRX''
      then let intra = js_rem (js_rem (tMs + 9 * hour_ms) day_ms + day_ms) day_ms
        in 8 * hour_ms \<le> intra \<and> intra \<le> 20 * hour_ms
      else isRegularSessionMs tMs \<or> venue = ''KRX'' \<and> isKrxAftermarketWindow tMs)"

definition keepMinuteSessionCandles :: "'a candle_scheme list \<Rightarrow> string \<Rightarrow> 'a candle_scheme list" where
  "keepMinuteSessionCandles cs venue = filter (\<lambda>c. isMinuteSessionMs (t_ms c) venue) cs"

text \<open>
  \<open>regularSessionOpenMs(realMsToYyyymmdd(t))\<close> parses the date text of an instant inside the
  aftermarket window, which is always a number (\<open>aftermarket_anchor\<close>), so the default is not reached.
\<close>

definition minuteBucketStartMs :: "ms \<Rightarrow> ms \<Rightarrow> string \<Rightarrow> ms" where
  "minuteBucketStartMs tMs bucketMs venue =
     (if 2 * hour_ms \<le> bucketMs \<and> venue = ''KRX'' \<and> isKrxAftermarketWindow tMs
      then let anchor = (case regularSessionOpenMs (realMsToYyyymmdd tMs) of Some v \<Rightarrow> v | None \<Rightarrow> 0) + 7 * hour_ms
        in anchor + (tMs - anchor) div bucketMs * bucketMs
      else tMs div bucketMs * bucketMs)"

definition open_bucket :: "ms \<Rightarrow> 'a candle_scheme \<Rightarrow> candle" where
  "open_bucket b c = \<lparr>t_ms = b, c_open = c_open c, c_high = c_high c, c_low = c_low c, c_close = c_close c,
     volume = volume c\<rparr>"

definition add_bar :: "'b candle_scheme \<Rightarrow> 'a candle_scheme \<Rightarrow> 'b candle_scheme" where
  "add_bar cur c = cur\<lparr>c_high := (if c_high cur < c_high c then c_high c else c_high cur),
     c_low := (if c_low c < c_low cur then c_low c else c_low cur),
     c_close := c_close c, volume := volume cur + volume c\<rparr>"

fun aggregate_loop :: "ms \<Rightarrow> string \<Rightarrow> candle list \<Rightarrow> candle option \<Rightarrow> 'a candle_scheme list \<Rightarrow> candle list" where
  "aggregate_loop bucketMs venue out cur [] = (case cur of None \<Rightarrow> out | Some k \<Rightarrow> out @ [k])"
| "aggregate_loop bucketMs venue out cur (c # cs) =
     (let b = minuteBucketStartMs (t_ms c) bucketMs venue in
      case cur of
        None \<Rightarrow> aggregate_loop bucketMs venue out (Some (open_bucket b c)) cs
      | Some k \<Rightarrow>
          if b \<noteq> t_ms k then aggregate_loop bucketMs venue (out @ [k]) (Some (open_bucket b c)) cs
          else aggregate_loop bucketMs venue out (Some (add_bar k c)) cs)"

datatype aggregate_error = BadBucketSec int

definition aggregateCandles :: "'a candle_scheme list \<Rightarrow> int \<Rightarrow> string \<Rightarrow> aggregate_error + candle list" where
  "aggregateCandles source bucketSec venue =
     (if bucketSec \<le> 0 then Inl (BadBucketSec bucketSec)
      else if source = [] then Inr []
      else Inr (aggregate_loop (bucketSec * 1000) venue [] None source))"

subsection \<open>Calendar buckets\<close>

datatype granularity = ByDay | ByWeek | ByMonth

text \<open>The key strings \<open>y-m\<close>, \<open>y-m-d\<close>, \<open>W:y-m-d\<close>.\<close>

definition calendarBucketKey :: "ms \<Rightarrow> granularity \<Rightarrow> string" where
  "calendarBucketKey t g =
     (case civil_of_day (tradingDayOf t) of (y, m, d) \<Rightarrow>
        (case g of
           ByMonth \<Rightarrow> int_text y @ ''-'' @ int_text m
         | ByDay \<Rightarrow> int_text y @ ''-'' @ int_text m @ ''-'' @ int_text d
         | ByWeek \<Rightarrow>
             let offsetToMon = (kst_weekday t + 6) mod 7
             in (case civil_of_day (make_day (utc_year y) m (d - offsetToMon)) of (my, mm, md) \<Rightarrow>
                   ''W:'' @ int_text my @ ''-'' @ int_text mm @ ''-'' @ int_text md)))"

definition valid_amount :: "int option \<Rightarrow> bool" where
  "valid_amount a = (case a of None \<Rightarrow> False | Some v \<Rightarrow> 0 \<le> v)"

definition open_calendar :: "calendar_candle \<Rightarrow> calendar_candle" where
  "open_calendar c = c\<lparr>trade_value_won := (if valid_amount (trade_value_won c) then trade_value_won c else None)\<rparr>"

definition add_calendar :: "calendar_candle \<Rightarrow> calendar_candle \<Rightarrow> calendar_candle" where
  "add_calendar cur c =
     (let k = add_bar cur c in
      k\<lparr>trade_value_won := (case (trade_value_won cur, trade_value_won c) of
          (Some s, Some v) \<Rightarrow> if 0 \<le> v then Some (s + v) else None
        | _ \<Rightarrow> None)\<rparr>)"

fun calendar_loop :: "granularity \<Rightarrow> calendar_candle list \<Rightarrow> (string \<times> calendar_candle) option
    \<Rightarrow> calendar_candle list \<Rightarrow> calendar_candle list" where
  "calendar_loop g out cur [] = (case cur of None \<Rightarrow> out | Some (_, k) \<Rightarrow> out @ [k])"
| "calendar_loop g out cur (c # cs) =
     (let key = calendarBucketKey (t_ms c) g in
      case cur of
        None \<Rightarrow> calendar_loop g out (Some (key, open_calendar c)) cs
      | Some (curKey, k) \<Rightarrow>
          if key \<noteq> curKey then calendar_loop g (out @ [k]) (Some (key, open_calendar c)) cs
          else calendar_loop g out (Some (curKey, add_calendar k c)) cs)"

definition aggregateCalendar :: "calendar_candle list \<Rightarrow> granularity \<Rightarrow> calendar_candle list" where
  "aggregateCalendar source g = (if source = [] then [] else calendar_loop g [] None source)"

subsection \<open>The bucket grid\<close>

lemma list_all_replicate [simp]: "list_all P (replicate n x) \<longleftrightarrow> n = 0 \<or> P x"
  by (induction n) auto

lemma digits_date_text: "0 \<le> y \<Longrightarrow> 0 \<le> m \<Longrightarrow> 0 \<le> d \<Longrightarrow> list_all is_digit (date_text (y, m, d))"
  by (simp add: date_text_def pad2_def int_text_def Let_def digits_nat_text) (simp add: is_digit_def)

lemma candle_bucket_bounds:
  assumes "0 < b"
  shows "minuteBucketStartMs t b v \<le> t \<and> t < minuteBucketStartMs t b v + b"
proof -
  have "a + (t - a) div b * b \<le> t \<and> t < a + (t - a) div b * b + b" for a
    using div_mult_mod_eq [of "t - a" b] pos_mod_sign [OF assms, of "t - a"] pos_mod_bound [OF assms, of "t - a"]
    by linarith
  from this this [of 0] show ?thesis by (simp add: minuteBucketStartMs_def Let_def)
qed

subsection \<open>What the aggregation computes\<close>

text \<open>
  The specification: maximal runs of consecutive bars that share a bucket, each summarised by its first
  open, its highest high, its lowest low, its last close and its total volume.
\<close>

fun bucket_runs :: "('a \<Rightarrow> 'k) \<Rightarrow> 'a list \<Rightarrow> 'a list list" where
  "bucket_runs f [] = []"
| "bucket_runs f [x] = [[x]]"
| "bucket_runs f (x # y # zs) =
     (if f x = f y then (case bucket_runs f (y # zs) of g # gs \<Rightarrow> (x # g) # gs | [] \<Rightarrow> [[x]])
      else [x] # bucket_runs f (y # zs))"

definition summary :: "ms \<Rightarrow> 'a candle_scheme list \<Rightarrow> candle" where
  "summary b g = \<lparr>t_ms = b, c_open = c_open (hd g), c_high = Max (c_high ` set g), c_low = Min (c_low ` set g),
     c_close = c_close (last g), volume = sum_list (map volume g)\<rparr>"

lemma bucket_runs_nonempty [simp]: "bucket_runs f xs = [] \<longleftrightarrow> xs = []"
  by (induction f xs rule: bucket_runs.induct) (auto split: list.splits)

lemma bucket_runs_concat: "concat (bucket_runs f xs) = xs"
  by (induction f xs rule: bucket_runs.induct) (auto split: list.splits)

lemma bucket_runs_hd: "bucket_runs f (x # xs) = g # gs \<Longrightarrow> g \<noteq> [] \<and> hd g = x"
  by (induction f "x # xs" arbitrary: x xs g gs rule: bucket_runs.induct)
    (auto split: list.splits if_splits)

lemma bucket_runs_front:
  obtains g gs where "bucket_runs f (x # xs) = g # gs" "g \<noteq> []" "hd g = x"
proof (cases "bucket_runs f (x # xs)")
  case Nil
  then show ?thesis by simp
next
  case (Cons g gs)
  then show ?thesis using bucket_runs_hd [OF Cons] that by blast
qed

definition same_bucket :: "('a \<Rightarrow> 'k) \<Rightarrow> 'a list \<Rightarrow> bool" where
  "same_bucket f g \<longleftrightarrow> g \<noteq> [] \<and> (\<forall>x \<in> set g. f x = f (hd g))"

lemma same_bucket_single: "same_bucket f [x]"
  by (simp add: same_bucket_def)

lemma same_bucket_Cons:
  assumes "same_bucket f g" "f x = f (hd g)"
  shows "same_bucket f (x # g)"
proof -
  have g: "f y = f (hd g)" if "y \<in> set g" for y
    using assms(1) that unfolding same_bucket_def by blast
  have "f y = f x" if "y \<in> set (x # g)" for y
  proof (cases "y = x")
    case False
    then show ?thesis using that g [of y] assms(2) by simp
  qed simp
  then have "\<forall>y \<in> set (x # g). f y = f (hd (x # g))" unfolding list.sel by blast
  then show ?thesis unfolding same_bucket_def by blast
qed

lemma bucket_runs_same: "\<forall>g \<in> set (bucket_runs f xs). same_bucket f g"
proof (induction f xs rule: bucket_runs.induct)
  case (3 f x y zs)
  obtain g gs where g: "bucket_runs f (y # zs) = g # gs" "g \<noteq> []" "hd g = y" by (rule bucket_runs_front)
  show ?case
  proof (cases "f x = f y")
    case True
    then have "bucket_runs f (x # y # zs) = (x # g) # gs" using g by simp
    moreover have "\<forall>h \<in> set (g # gs). same_bucket f h" using "3.IH"(1) [OF True] g(1) by simp
    moreover have "f x = f (hd g)" unfolding g(3) by (rule True)
    moreover from calculation have "same_bucket f (x # g)" by (intro same_bucket_Cons) simp_all
    ultimately show ?thesis by simp
  next
    case False
    then have "bucket_runs f (x # y # zs) = [x] # bucket_runs f (y # zs)" by simp
    then show ?thesis using "3.IH"(2) [OF False] by (simp add: same_bucket_single)
  qed
qed (simp_all add: same_bucket_single)

lemma bucket_runs_cons:
  "bucket_runs f (x # xs) = (case bucket_runs f xs of
      [] \<Rightarrow> [[x]] | g # gs \<Rightarrow> if f x = f (hd g) then (x # g) # gs else [x] # g # gs)"
proof (cases xs)
  case (Cons y zs)
  obtain g gs where g: "bucket_runs f (y # zs) = g # gs" "g \<noteq> []" "hd g = y" by (rule bucket_runs_front)
  then show ?thesis using Cons by simp
qed simp

lemma summary_open: "summary b [c] = open_bucket b c"
  by (simp add: summary_def open_bucket_def)

lemma summary_snoc: "g \<noteq> [] \<Longrightarrow> summary b (g @ [c]) = add_bar (summary b g) c"
proof -
  assume g: "g \<noteq> []"
  have mx: "Max (insert a S) = (if Max S < a then a else Max S)" and mn: "Min (insert a S) = (if a < Min S then a else Min S)"
    if "finite S" "S \<noteq> {}" for a :: int and S
  proof -
    have "max a b = (if b < a then a else b)" "min a b = (if a < b then a else b)" for a b :: int by simp_all
    then show "Max (insert a S) = (if Max S < a then a else Max S)" "Min (insert a S) = (if a < Min S then a else Min S)"
      unfolding Max_insert [OF that] Min_insert [OF that] by blast+
  qed
  have "Max (c_high ` set (g @ [c])) = (if Max (c_high ` set g) < c_high c then c_high c else Max (c_high ` set g))"
    "Min (c_low ` set (g @ [c])) = (if c_low c < Min (c_low ` set g) then c_low c else Min (c_low ` set g))"
    using mx [of "c_high ` set g" "c_high c"] mn [of "c_low ` set g" "c_low c"] g by (simp_all only: set_append list.set
      image_Un image_insert image_empty Un_insert_right Un_empty_right finite_set finite_imageI image_is_empty set_empty not_False_eq_True)
  then show ?thesis using g by (simp add: summary_def add_bar_def)
qed

definition bucket_of :: "ms \<Rightarrow> string \<Rightarrow> 'a candle_scheme \<Rightarrow> ms" where
  "bucket_of b v c = minuteBucketStartMs (t_ms c) b v"

text \<open>The runs of \<open>g @ cs\<close> when \<open>g\<close> is one run still open at the front.\<close>

lemma bucket_runs_append:
  "g \<noteq> [] \<Longrightarrow> \<forall>x \<in> set g. f x = k \<Longrightarrow>
   bucket_runs f (g @ c # cs) = (if f c = k then bucket_runs f ((g @ [c]) @ cs) else g # bucket_runs f (c # cs))"
proof (induction g)
  case (Cons x g)
  show ?case
  proof (cases "f c = k")
    case False
    then show ?thesis
    proof (cases "g = []")
      case True
      obtain h hs where h: "bucket_runs f (c # cs) = h # hs" "h \<noteq> []" "hd h = c" by (rule bucket_runs_front)
      then show ?thesis using True False Cons.prems by (simp add: bucket_runs_cons [of f x "c # cs"])
    next
      case gne: False
      then have "bucket_runs f (g @ c # cs) = g # bucket_runs f (c # cs)" using Cons False by simp
      moreover have "f x = f (hd g)" using gne Cons.prems by simp
      ultimately show ?thesis using False by (simp add: bucket_runs_cons [of f x "g @ c # cs"])
    qed
  qed simp
qed simp

lemma bucket_runs_single: "g \<noteq> [] \<Longrightarrow> \<forall>x \<in> set g. f x = k \<Longrightarrow> bucket_runs f g = [g]"
proof (induction g)
  case (Cons x g)
  then show ?case by (cases "g = []") (auto simp: bucket_runs_cons [of f x g])
qed simp

lemma aggregate_loop_spec:
  assumes "g \<noteq> []" "\<forall>x \<in> set g. bucket_of b v x = k"
  shows "aggregate_loop b v out (Some (summary k g)) cs
    = out @ map (\<lambda>g. summary (bucket_of b v (hd g)) g) (bucket_runs (bucket_of b v) (g @ cs))"
  using assms
proof (induction cs arbitrary: out g k)
  case Nil
  then show ?case using bucket_runs_single [OF Nil] by simp
next
  case (Cons c cs)
  have k: "t_ms (summary k g) = k" by (simp add: summary_def)
  have hd: "bucket_of b v (hd g) = k" using Cons.prems by simp
  show ?case
  proof (cases "bucket_of b v c = k")
    case True
    then have "aggregate_loop b v out (Some (summary k g)) (c # cs) = aggregate_loop b v out (Some (summary k (g @ [c]))) cs"
      using Cons.prems(1) k by (simp add: summary_snoc bucket_of_def)
    also have "\<dots> = out @ map (\<lambda>g. summary (bucket_of b v (hd g)) g) (bucket_runs (bucket_of b v) ((g @ [c]) @ cs))"
      by (rule Cons.IH) (use Cons.prems True in auto)
    also have "bucket_runs (bucket_of b v) ((g @ [c]) @ cs) = bucket_runs (bucket_of b v) (g @ c # cs)" by simp
    finally show ?thesis .
  next
    case False
    then have "aggregate_loop b v out (Some (summary k g)) (c # cs)
        = aggregate_loop b v (out @ [summary k g]) (Some (summary (bucket_of b v c) [c])) cs"
      using k by (simp add: summary_open bucket_of_def)
    also have "\<dots> = (out @ [summary k g]) @ map (\<lambda>g. summary (bucket_of b v (hd g)) g) (bucket_runs (bucket_of b v) ([c] @ cs))"
      by (rule Cons.IH) auto
    also have "\<dots> = out @ map (\<lambda>g. summary (bucket_of b v (hd g)) g) (g # bucket_runs (bucket_of b v) (c # cs))"
      using hd by simp
    also have "g # bucket_runs (bucket_of b v) (c # cs) = bucket_runs (bucket_of b v) (g @ c # cs)"
      using bucket_runs_append [OF Cons.prems, of c cs] False by (simp only: if_False)
    finally show ?thesis .
  qed
qed

lemma aggregate_eq:
  "0 < s \<Longrightarrow> aggregateCandles cs s v
     = Inr (map (\<lambda>g. summary (bucket_of (s * 1000) v (hd g)) g) (bucket_runs (bucket_of (s * 1000) v) cs))"
proof (cases cs)
  case (Cons c rest)
  assume s: "0 < s"
  have "aggregate_loop (s * 1000) v [] None (c # rest)
      = aggregate_loop (s * 1000) v [] (Some (summary (bucket_of (s * 1000) v c) [c])) rest"
    by (simp add: summary_open bucket_of_def)
  also have "\<dots> = [] @ map (\<lambda>g. summary (bucket_of (s * 1000) v (hd g)) g) (bucket_runs (bucket_of (s * 1000) v) ([c] @ rest))"
    by (rule aggregate_loop_spec) simp_all
  finally show ?thesis using s Cons by (simp add: aggregateCandles_def)
qed (simp add: aggregateCandles_def)

subsection \<open>Theorems\<close>

text \<open>
  C25. Minute aggregation is exactly OHLCV over the bucket grid: the source splits into its maximal
  runs of bars in one bucket, in order and without loss, and each run gives one candle with the
  first open, the highest high, the lowest low, the last close and the total volume. A bucket width
  that is not positive is the only error.
\<close>

theorem aggregate_is_ohlcv:
  "(aggregateCandles cs s v = Inl (BadBucketSec s) \<and> s \<le> 0)
   \<or> (0 < s \<and> (\<exists>gs. concat gs = cs \<and> (\<forall>g \<in> set gs. same_bucket (bucket_of (s * 1000) v) g)
        \<and> successively (\<lambda>g h. bucket_of (s * 1000) v (hd g) \<noteq> bucket_of (s * 1000) v (hd h)) gs
        \<and> aggregateCandles cs s v = Inr (map (\<lambda>g. summary (bucket_of (s * 1000) v (hd g)) g) gs)))"
proof (cases "0 < s")
  case True
  have adj: "successively (\<lambda>g h. f (hd g) \<noteq> f (hd h)) (bucket_runs f xs)" for f :: "'a candle_scheme \<Rightarrow> ms" and xs
  proof (induction xs)
    case (Cons x xs)
    show ?case
    proof (cases "bucket_runs f xs")
      case (Cons g gs)
      then show ?thesis
        using Cons.IH by (cases gs) (auto simp: bucket_runs_cons [of f x xs])
    qed (simp add: bucket_runs_cons [of f x xs])
  qed simp
  show ?thesis
    using True aggregate_eq [OF True, of cs v] bucket_runs_concat [of "bucket_of (s * 1000) v" cs]
      bucket_runs_same [of "bucket_of (s * 1000) v" cs] adj [of "bucket_of (s * 1000) v" cs] by blast
next
  case False
  then show ?thesis by (simp add: aggregateCandles_def)
qed

theorem aggregate_is_ohlcv_witness:
  "\<exists>gs. concat gs = [\<lparr>t_ms = 0, c_open = 1, c_high = 3, c_low = 1, c_close = 2, volume = 5\<rparr>]
     \<and> aggregateCandles [\<lparr>t_ms = 0, c_open = 1, c_high = 3, c_low = 1, c_close = 2, volume = 5\<rparr>] 60 ''NXT''
       = Inr (map (\<lambda>g. summary (bucket_of 60000 ''NXT'' (hd g)) g) gs)"
  using aggregate_is_ohlcv [of "[\<lparr>t_ms = 0, c_open = 1, c_high = 3, c_low = 1, c_close = 2, volume = 5\<rparr>]" 60 "''NXT''"]
  by auto

lemma runs_ascending:
  fixes f :: "'a \<Rightarrow> int"
  assumes "successively (\<lambda>x y. f x \<le> f y) xs"
  shows "successively (\<lambda>g h. f (hd g) < f (hd h)) (bucket_runs f xs)"
  using assms
proof (induction xs)
  case (Cons x xs)
  show ?case
  proof (cases xs)
    case (Cons y ys)
    obtain g gs where g: "bucket_runs f (y # ys) = g # gs" "g \<noteq> []" "hd g = y" by (rule bucket_runs_front)
    have le: "f x \<le> f y" and IH: "successively (\<lambda>g h. f (hd g) < f (hd h)) (g # gs)"
      using Cons Cons.IH Cons.prems g(1) by simp_all
    show ?thesis
    proof (cases "f x = f y")
      case True
      then show ?thesis using IH g Cons by (cases gs) (simp_all add: bucket_runs_cons [of f x])
    next
      case False
      then show ?thesis using IH le g Cons by (simp add: bucket_runs_cons [of f x])
    qed
  qed simp
qed simp

lemma intra_split: "t = tradingDayOf t * day_ms + kst_intra t - kst_offset"
  by (simp add: kst_intra_def tradingDayOf_def)

lemma js_positive_mod: "js_rem (js_rem t day_ms + day_ms) day_ms = t mod day_ms"
  using js_rem_wrap by simp

text \<open>A kept bar of the regular session, in KST terms.\<close>

lemma regular_intra:
  assumes "isRegularSessionMs t"
  shows "9 * hour_ms \<le> kst_intra t \<and> kst_intra t \<le> 9 * hour_ms + 23400000"
proof -
  let ?w = "t mod day_ms"
  have w: "0 \<le> ?w" "?w \<le> 23400000" using assms by (simp_all add: isRegularSessionMs_def js_positive_mod)
  have "t + kst_offset = t div day_ms * day_ms + (?w + kst_offset)" by simp
  moreover have "(t div day_ms * day_ms + (?w + kst_offset)) mod day_ms = ?w + kst_offset"
    using w by (subst mod_mult_self3) (simp add: mod_pos_pos_trivial)
  ultimately have "kst_intra t = ?w + kst_offset" by (metis kst_intra_def)
  then show ?thesis using w by simp
qed

lemma kst_day_mono: "s \<le> t \<Longrightarrow> tradingDayOf s \<le> tradingDayOf t"
  by (rule tradingDay_mono)

lemma aftermarket_anchor:
  assumes "isKrxAftermarketWindow t" "key_range (tradingDayOf t)"
  shows "regularSessionOpenMs (realMsToYyyymmdd t) = Some (tradingDayOf t * day_ms)"
proof -
  have "time_clip (t + kst_offset)"
    using assms(1) by (auto simp: isKrxAftermarketWindow_def unixMsToKSTHhmm_def num_ge_def Let_def split: if_splits)
  then show ?thesis using utc_day_key [OF assms(2)] by (simp add: regularSessionOpenMs_def utcMidnightMs_def realMs_key)
qed

lemma bucket_floor: "0 < b \<Longrightarrow> (a::int) \<le> a + (t - a) div b * b \<longleftrightarrow> a \<le> t"
proof -
  assume b: "0 < b"
  have "0 \<le> (t - a) div b * b \<longleftrightarrow> 0 \<le> (t - a) div b" using b by (simp add: zero_le_mult_iff)
  also have "\<dots> \<longleftrightarrow> a \<le> t" using b by (simp add: pos_imp_zdiv_nonneg_iff)
  finally show ?thesis by simp
qed

text \<open>For the bars that the session clip keeps, the bucket start never goes backwards.\<close>

lemma bucket_mono:
  assumes st: "s \<le> t" and b: "0 < b" "b \<le> 4 * hour_ms"
    and keep: "isMinuteSessionMs s v" "isMinuteSessionMs t v"
    and rng: "key_range (tradingDayOf s)" "key_range (tradingDayOf t)"
  shows "minuteBucketStartMs s b v \<le> minuteBucketStartMs t b v"
proof -
  let ?sp = "\<lambda>x. 2 * hour_ms \<le> b \<and> v = ''KRX'' \<and> isKrxAftermarketWindow x"
  let ?A = "\<lambda>x. tradingDayOf x * day_ms + 7 * hour_ms"
  have special: "minuteBucketStartMs x b v = ?A x + (x - ?A x) div b * b" if "?sp x" "key_range (tradingDayOf x)" for x
    using that aftermarket_anchor [of x] by (simp add: minuteBucketStartMs_def Let_def)
  have plain: "minuteBucketStartMs x b v = x div b * b" if "\<not> ?sp x" for x
    using that by (auto simp: minuteBucketStartMs_def)
  have mono: "x \<le> y \<Longrightarrow> a + (x - a) div b * b \<le> a + (y - a) div b * b" for x y a
    using b(1) by (simp add: mult_right_mono zdiv_mono1)
  have below: "minuteBucketStartMs x b v \<le> x \<and> x < minuteBucketStartMs x b v + b" for x
    by (rule candle_bucket_bounds [OF b(1)])
  have win: "16 * hour_ms \<le> kst_intra x \<and> kst_intra x < 20 * hour_ms" if "?sp x" for x
    using that aftermarket_intra by blast
  have dle: "tradingDayOf s \<le> tradingDayOf t" by (rule kst_day_mono [OF st])
  have days: "tradingDayOf s = tradingDayOf t \<or> tradingDayOf s * day_ms + day_ms \<le> tradingDayOf t * day_ms"
    using dle by (cases "tradingDayOf s = tradingDayOf t") simp_all
  note i = intra_split [of s] intra_split [of t]
  show ?thesis
  proof (cases "?sp s")
    case ss: True
    show ?thesis
    proof (cases "?sp t")
      case True
      show ?thesis
      proof (cases "tradingDayOf s = tradingDayOf t")
        case True
        then show ?thesis using special [OF ss rng(1)] special [OF \<open>?sp t\<close> rng(2)] mono [OF st] by simp
      next
        case False
        then have "s \<le> ?A t" using days win [OF ss] i by linarith
        moreover have "?A t \<le> minuteBucketStartMs t b v"
          using special [OF True rng(2)] bucket_floor [OF b(1), of "?A t" t] win [OF True] i by simp
        ultimately show ?thesis using below [of s] by linarith
      qed
    next
      case False
      then have reg: "isRegularSessionMs t" using keep(2) ss by (simp add: isMinuteSessionMs_def)
      have "tradingDayOf s \<noteq> tradingDayOf t"
      proof
        assume "tradingDayOf s = tradingDayOf t"
        then show False using i regular_intra [OF reg] win [OF ss] st by linarith
      qed
      then have "s + b \<le> t" using days i regular_intra [OF reg] win [OF ss] b(2) by linarith
      then show ?thesis using below [of s] below [of t] by linarith
    qed
  next
    case ns: False
    show ?thesis
    proof (cases "?sp t")
      case True
      then have reg: "isRegularSessionMs s" using keep(1) ns by (auto simp: isMinuteSessionMs_def)
      have "s \<le> ?A t" using days regular_intra [OF reg] i by linarith
      moreover have "?A t \<le> minuteBucketStartMs t b v"
        using special [OF True rng(2)] bucket_floor [OF b(1), of "?A t" t] win [OF True] i by simp
      ultimately show ?thesis using below [of s] by linarith
    next
      case False
      then show ?thesis using plain [OF ns] plain [OF False] mono [OF st, of 0] by simp
    qed
  qed
qed

text \<open>
  The chart gets what \<open>setData\<close> demands: for bars in time order that the session clip keeps, the
  aggregated candles of every bucket width up to four hours are strictly ascending in time, also
  across the KRX aftermarket whose large buckets restart at 16:00, and no volume is lost.
\<close>

lemma aggregate_ascending:
  assumes "sorted_wrt (\<lambda>x y. t_ms x \<le> t_ms y) cs"
    and "\<forall>c \<in> set cs. isMinuteSessionMs (t_ms c) v \<and> key_range (tradingDayOf (t_ms c))"
    and "0 < s" "s \<le> 14400"
  shows "\<exists>out. aggregateCandles cs s v = Inr out \<and> sorted_wrt (\<lambda>x y. t_ms x < t_ms y) out
    \<and> sum_list (map volume out) = sum_list (map volume cs)"
proof -
  let ?f = "bucket_of (s * 1000) v :: 'a candle_scheme \<Rightarrow> ms"
  let ?out = "map (\<lambda>g. summary (?f (hd g)) g) (bucket_runs ?f cs)"
  have "successively (\<lambda>x y. t_ms x \<le> t_ms y) cs" using assms(1) by (rule successively_if_sorted_wrt)
  then have "successively (\<lambda>x y. ?f x \<le> ?f y) cs"
  proof (rule successively_mono)
    fix x y assume "x \<in> set cs" "y \<in> set cs" "t_ms x \<le> t_ms y"
    then show "?f x \<le> ?f y" using assms(2-4) unfolding bucket_of_def by (intro bucket_mono) auto
  qed
  then have "successively (\<lambda>g h. ?f (hd g) < ?f (hd h)) (bucket_runs ?f cs)" by (rule runs_ascending)
  then have "successively (\<lambda>x y. t_ms x < t_ms y) ?out" by (simp add: successively_map summary_def)
  then have "sorted_wrt (\<lambda>x y. t_ms x < t_ms y) ?out"
    by (subst (asm) successively_conv_sorted_wrt) (auto intro!: transpI)
  moreover have "sum_list (map volume ?out) = sum_list (map volume cs)"
  proof -
    have "sum_list (map volume (map (\<lambda>g. summary (k g) g) gs)) = sum_list (map volume (concat gs))"
      for k :: "'a candle_scheme list \<Rightarrow> ms" and gs
      by (induction gs) (simp_all add: summary_def)
    then show ?thesis using bucket_runs_concat [of ?f cs] by metis
  qed
  ultimately show ?thesis using aggregate_eq [OF assms(3), of cs v] by blast
qed

definition two_bars :: "candle list" where
  "two_bars = [\<lparr>t_ms = 1789371000000, c_open = 1, c_high = 3, c_low = 1, c_close = 2, volume = 5\<rparr>,
     \<lparr>t_ms = 1789371060000, c_open = 2, c_high = 4, c_low = 2, c_close = 4, volume = 6\<rparr>]"

end
