(* ===== verification/LruCache.thy ===== *)
theory LruCache
  imports Prelude
begin

section \<open>The LRU cache\<close>

text \<open>
  \<open>util/lru.ts\<close>. The \<open>Map\<close> is its list of entries in insertion order, least recently used first.
  The constructor's error is \<open>None\<close>.
\<close>

record ('k, 'v) LRUCache =
  capacity :: nat
  entries :: "('k \<times> 'v) list"

definition new_lru :: "int \<Rightarrow> ('k, 'v) LRUCache option" where
  "new_lru c = (if c \<le> 0 then None else Some \<lparr>capacity = nat c, entries = []\<rparr>)"

definition map_delete :: "'k \<Rightarrow> ('k \<times> 'v) list \<Rightarrow> ('k \<times> 'v) list" where
  "map_delete k m = filter (\<lambda>e. fst e \<noteq> k) m"

fun map_set :: "'k \<Rightarrow> 'v \<Rightarrow> ('k \<times> 'v) list \<Rightarrow> ('k \<times> 'v) list" where
  "map_set k v [] = [(k, v)]"
| "map_set k v (e # m) = (if fst e = k then (k, v) # m else e # map_set k v m)"

definition lru_has :: "('k, 'v) LRUCache \<Rightarrow> 'k \<Rightarrow> bool" where
  "lru_has c k \<longleftrightarrow> k \<in> set (map fst (entries c))"

definition lru_size :: "('k, 'v) LRUCache \<Rightarrow> nat" where
  "lru_size c = length (entries c)"

definition lru_get :: "('k, 'v) LRUCache \<Rightarrow> 'k \<Rightarrow> 'v option \<times> ('k, 'v) LRUCache" where
  "lru_get c k =
     (case map_of (entries c) k of
        None \<Rightarrow> (None, c)
      | Some v \<Rightarrow> (Some v, c\<lparr>entries := map_set k v (map_delete k (entries c))\<rparr>))"

definition lru_set :: "('k, 'v) LRUCache \<Rightarrow> 'k \<Rightarrow> 'v \<Rightarrow> ('k, 'v) LRUCache" where
  "lru_set c k v =
     (let m = entries c;
          m1 = (if k \<in> set (map fst m) then map_delete k m
                else if capacity c \<le> length m then (case m of [] \<Rightarrow> m | (oldest, _) # _ \<Rightarrow> map_delete oldest m)
                else m)
      in c\<lparr>entries := map_set k v m1\<rparr>)"

definition lru_clear :: "('k, 'v) LRUCache \<Rightarrow> ('k, 'v) LRUCache" where
  "lru_clear c = c\<lparr>entries := []\<rparr>"

datatype ('k, 'v) lru_op = Get 'k | Put 'k 'v | Clear

fun lru_step :: "('k, 'v) LRUCache \<Rightarrow> ('k, 'v) lru_op \<Rightarrow> 'v option \<times> ('k, 'v) LRUCache" where
  "lru_step c (Get k) = lru_get c k"
| "lru_step c (Put k v) = (None, lru_set c k v)"
| "lru_step c Clear = (None, lru_clear c)"

fun lru_run :: "('k, 'v) LRUCache \<Rightarrow> ('k, 'v) lru_op list \<Rightarrow> 'v option list \<times> ('k, 'v) LRUCache" where
  "lru_run c [] = ([], c)"
| "lru_run c (op # ops) = (case lru_step c op of (r, c') \<Rightarrow> case lru_run c' ops of (rs, c'') \<Rightarrow> (r # rs, c''))"

subsection \<open>The specification: an unbounded log of uses\<close>

text \<open>
  The specification never evicts: it keeps every entry ever written, ordered by last use, and answers
  a read when the key is among the \<open>n\<close> most recently used ones.
\<close>

definition recent :: "nat \<Rightarrow> 'a list \<Rightarrow> 'a list" where
  "recent n xs = drop (length xs - n) xs"

fun spec_step :: "nat \<Rightarrow> ('k \<times> 'v) list \<Rightarrow> ('k, 'v) lru_op \<Rightarrow> 'v option \<times> ('k \<times> 'v) list" where
  "spec_step n log (Get k) =
     (case map_of (recent n log) k of None \<Rightarrow> (None, log) | Some v \<Rightarrow> (Some v, map_delete k log @ [(k, v)]))"
| "spec_step n log (Put k v) = (None, map_delete k log @ [(k, v)])"
| "spec_step n log Clear = (None, [])"

fun spec_run :: "nat \<Rightarrow> ('k \<times> 'v) list \<Rightarrow> ('k, 'v) lru_op list \<Rightarrow> 'v option list \<times> ('k \<times> 'v) list" where
  "spec_run n log [] = ([], log)"
| "spec_run n log (op # ops) = (case spec_step n log op of (r, l) \<Rightarrow> case spec_run n l ops of (rs, l') \<Rightarrow> (r # rs, l'))"

lemma map_set_absent: "k \<notin> set (map fst m) \<Longrightarrow> map_set k v m = m @ [(k, v)]"
  by (induction m) auto

lemma map_set_delete [simp]: "map_set k v (map_delete k m) = map_delete k m @ [(k, v)]"
  by (rule map_set_absent) (auto simp: map_delete_def)

lemma map_delete_append [simp]: "map_delete k (a @ b) = map_delete k a @ map_delete k b"
  by (simp add: map_delete_def)

lemma map_delete_absent: "k \<notin> set (map fst m) \<Longrightarrow> map_delete k m = m"
  unfolding map_delete_def by (rule filter_True) force

lemma length_map_delete: "distinct (map fst m) \<Longrightarrow> k \<in> set (map fst m) \<Longrightarrow> Suc (length (map_delete k m)) = length m"
  by (induction m) (auto simp: map_delete_def map_delete_absent [unfolded map_delete_def] image_iff)

lemma distinct_map_delete: "distinct (map fst m) \<Longrightarrow> distinct (map fst (map_delete k m @ [(k, v)]))"
  unfolding map_delete_def by (induction m) auto

text \<open>The cache holds the newest entries of the log.\<close>

definition lru_sim :: "('k, 'v) LRUCache \<Rightarrow> ('k \<times> 'v) list \<Rightarrow> bool" where
  "lru_sim c log \<longleftrightarrow> 0 < capacity c \<and> distinct (map fst log) \<and> length (entries c) \<le> capacity c
     \<and> (\<exists>old. log = old @ entries c \<and> (old = [] \<or> length (entries c) = capacity c))"

lemma lru_sim_recent: "lru_sim c log \<Longrightarrow> entries c = recent (capacity c) log"
  by (auto simp: lru_sim_def recent_def)

lemma sim_use:
  assumes "lru_sim c log" "k \<in> set (map fst (entries c))"
  shows "lru_sim (c\<lparr>entries := map_delete k (entries c) @ [(k, v)]\<rparr>) (map_delete k log @ [(k, v)])"
proof -
  obtain old where old: "log = old @ entries c" "old = [] \<or> length (entries c) = capacity c"
    "distinct (map fst log)" "length (entries c) \<le> capacity c" "0 < capacity c"
    using assms(1) by (auto simp: lru_sim_def)
  have "k \<notin> set (map fst old)" using old(1,3) assms(2) by auto
  then have "map_delete k log @ [(k, v)] = old @ (map_delete k (entries c) @ [(k, v)])"
    using old(1) by (simp add: map_delete_absent)
  moreover have "length (map_delete k (entries c) @ [(k, v)]) = length (entries c)"
    using length_map_delete [of "entries c" k] assms(2) old(1,3) by simp
  ultimately show ?thesis
    using old distinct_map_delete [OF old(3), of k v] unfolding lru_sim_def
    by (intro conjI exI [of _ old]) simp_all
qed

lemma sim_put:
  assumes "lru_sim c log"
  shows "lru_sim (lru_set c k v) (map_delete k log @ [(k, v)])"
proof (cases "k \<in> set (map fst (entries c))")
  case True
  then show ?thesis using sim_use [OF assms True, of v] by (simp add: lru_set_def Let_def)
next
  case False
  obtain old where old: "log = old @ entries c" "old = [] \<or> length (entries c) = capacity c"
    "distinct (map fst log)" "length (entries c) \<le> capacity c" "0 < capacity c"
    using assms by (auto simp: lru_sim_def)
  note dist = distinct_map_delete [OF old(3), of k v]
  have del: "map_delete k log = map_delete k old @ entries c" using old(1) False by (simp add: map_delete_absent)
  show ?thesis
  proof (cases "capacity c \<le> length (entries c)")
    case True
    then obtain e es where e: "entries c = e # es" using old(5) by (cases "entries c") auto
    have "fst e \<notin> set (map fst es)" using old(1,3) e by auto
    then have evict: "map_delete (fst e) (entries c) = es" using e by (simp add: map_delete_def map_delete_absent [unfolded map_delete_def])
    have "k \<notin> set (map fst es)" using False e by simp
    then have "entries (lru_set c k v) = es @ [(k, v)]"
      using False True e evict by (cases e) (simp add: lru_set_def Let_def map_set_absent)
    moreover have "map_delete k log @ [(k, v)] = (map_delete k old @ [e]) @ (es @ [(k, v)])" using del e by simp
    moreover have "capacity (lru_set c k v) = capacity c" by (simp add: lru_set_def Let_def)
    ultimately show ?thesis
      using old(4,5) True e dist unfolding lru_sim_def by (intro conjI exI [of _ "map_delete k old @ [e]"]) simp_all
  next
    case less: False
    then have "old = []" using old(2) by auto
    then show ?thesis
      using less False old(5) dist del
      by (simp add: lru_sim_def lru_set_def Let_def map_set_absent map_delete_def)
  qed
qed

lemma sim_step:
  assumes "lru_sim c log"
  shows "fst (lru_step c op) = fst (spec_step (capacity c) log op)
    \<and> lru_sim (snd (lru_step c op)) (snd (spec_step (capacity c) log op))
    \<and> capacity (snd (lru_step c op)) = capacity c"
proof (cases op)
  case (Get k)
  note r = lru_sim_recent [OF assms, symmetric]
  show ?thesis
  proof (cases "map_of (entries c) k")
    case None
    then show ?thesis using Get assms r by (simp add: lru_get_def)
  next
    case (Some v)
    then have "k \<in> set (map fst (entries c))" using map_of_SomeD [OF Some] by force
    from sim_use [OF assms this, of v] show ?thesis using Get Some r by (simp add: lru_get_def)
  qed
next
  case (Put k v)
  then show ?thesis using sim_put [OF assms] by (simp add: lru_set_def Let_def)
next
  case Clear
  then show ?thesis using assms by (simp add: lru_clear_def lru_sim_def)
qed

lemma sim_run:
  "lru_sim c log \<Longrightarrow> fst (lru_run c ops) = fst (spec_run (capacity c) log ops)
    \<and> lru_sim (snd (lru_run c ops)) (snd (spec_run (capacity c) log ops))
    \<and> capacity (snd (lru_run c ops)) = capacity c"
proof (induction ops arbitrary: c log)
  case (Cons op ops)
  note st = sim_step [OF Cons.prems, of op]
  have "lru_sim (snd (lru_step c op)) (snd (spec_step (capacity c) log op))"
    "capacity (snd (lru_step c op)) = capacity c" using st by simp_all
  from Cons.IH [OF this(1)] this(2) st show ?case
    by (simp add: split_beta)
qed simp

text \<open>
  For any sequence of reads, writes and clears, the bounded cache answers exactly as a log that
  never forgets but only answers for the most recently used keys, holds at most \<open>capacity\<close> entries,
  and contains precisely the newest ones: nothing is evicted while a less recently used entry stays.
\<close>

lemma lru_refines_log:
  assumes "new_lru n = Some c"
  shows "fst (lru_run c ops) = fst (spec_run (nat n) [] ops)
    \<and> entries (snd (lru_run c ops)) = recent (nat n) (snd (spec_run (nat n) [] ops))
    \<and> lru_size (snd (lru_run c ops)) \<le> nat n"
proof -
  have c: "lru_sim c []" "capacity c = nat n"
    using assms by (auto simp: new_lru_def lru_sim_def split: if_splits)
  have s: "lru_sim (snd (lru_run c ops)) (snd (spec_run (nat n) [] ops))"
    "capacity (snd (lru_run c ops)) = nat n" "fst (lru_run c ops) = fst (spec_run (nat n) [] ops)"
    using sim_run [OF c(1), of ops] c(2) by simp_all
  then have "entries (snd (lru_run c ops)) = recent (nat n) (snd (spec_run (nat n) [] ops))"
    using lru_sim_recent [OF s(1)] by simp
  moreover have "lru_size (snd (lru_run c ops)) \<le> nat n" using s(1,2) by (simp add: lru_sim_def lru_size_def)
  ultimately show ?thesis using s(3) by blast
qed

end
