(* ===== verification/SnapEngine.thy ===== *)
theory SnapEngine
  imports Complex_Main Prelude
begin

section \<open>Window geometry: snapping, moving, resizing\<close>

text \<open>
  \<open>workspace/snapEngine.ts\<close> and \<open>workspace/rectSpace.ts\<close>. Coordinates are
  rationals: the code's floating-point arithmetic is taken as exact.
\<close>

record Rect =
  rx :: rat
  ry :: rat
  rw :: rat
  rh :: rat

record RectWin =
  win_id :: string
  rect :: Rect

record Canvas =
  canvas_w :: rat
  canvas_h :: rat

datatype ResizeMode = ModeE | ModeW | ModeN | ModeS | ModeNE | ModeNW | ModeSE | ModeSW
datatype Edge = EdgeE | EdgeW | EdgeN | EdgeS

record Guides =
  guide_v :: "rat option"
  guide_h :: "rat option"

abbreviation SNAP_THRESHOLD :: rat where "SNAP_THRESHOLD \<equiv> 12"
abbreviation MIN_W :: rat where "MIN_W \<equiv> 160"
abbreviation MIN_H :: rat where "MIN_H \<equiv> 120"
abbreviation ADJACENT_EPS :: rat where "ADJACENT_EPS \<equiv> 2"
abbreviation GRAB_EXPOSE_W :: rat where "GRAB_EXPOSE_W \<equiv> 48"
abbreviation GRAB_EXPOSE_H :: rat where "GRAB_EXPOSE_H \<equiv> 26"

record MoveBounds =
  minX :: rat
  maxX :: rat
  minY :: rat
  maxY :: rat

definition moveBounds :: "Rect \<Rightarrow> Canvas \<Rightarrow> MoveBounds" where
  "moveBounds r c =
     (let keepW = min GRAB_EXPOSE_W (rw r); keepH = min GRAB_EXPOSE_H (rh r)
      in \<lparr>minX = min 0 (keepW - rw r), maxX = max 0 (canvas_w c - keepW),
          minY = 0, maxY = max 0 (canvas_h c - keepH)\<rparr>)"

record Candidate =
  cand_val :: rat
  guide :: rat
  rank :: nat

abbreviation cand :: "rat \<Rightarrow> rat \<Rightarrow> nat \<Rightarrow> Candidate" where
  "cand v g r \<equiv> \<lparr>cand_val = v, guide = g, rank = r\<rparr>"

abbreviation RANK_ADJACENT :: nat where "RANK_ADJACENT \<equiv> 0"
abbreviation RANK_ALIGN :: nat where "RANK_ALIGN \<equiv> 1"
abbreviation RANK_BOUND :: nat where "RANK_BOUND \<equiv> 2"

text \<open>The loop of \<open>snapAxis\<close>: the best candidate so far and its distance.\<close>

definition snap_step :: "rat \<Rightarrow> Candidate option \<times> rat \<Rightarrow> Candidate \<Rightarrow> Candidate option \<times> rat" where
  "snap_step raw acc c = (case acc of (best, bestDist) \<Rightarrow>
     let dist = \<bar>cand_val c - raw\<bar> in
     if SNAP_THRESHOLD < dist then acc
     else if dist < bestDist \<or> (dist = bestDist \<and> (case best of None \<Rightarrow> True | Some b \<Rightarrow> rank c < rank b))
     then (Some c, dist) else acc)"

definition snapAxis :: "rat \<Rightarrow> Candidate list \<Rightarrow> bool \<Rightarrow> rat \<times> rat option" where
  "snapAxis raw candidates alt =
     (if alt then (raw, None)
      else case fst (foldl (snap_step raw) (None, SNAP_THRESHOLD + 1) candidates) of
          Some b \<Rightarrow> (cand_val b, Some (guide b))
        | None \<Rightarrow> (raw, None))"

definition moveCandidatesX :: "rat \<Rightarrow> RectWin list \<Rightarrow> Canvas \<Rightarrow> Candidate list" where
  "moveCandidatesX w others c =
     [cand 0 0 RANK_BOUND, cand (canvas_w c - w) (canvas_w c) RANK_BOUND]
     @ concat (map (\<lambda>o'. let r = rect o' in
         [cand (rx r + rw r) (rx r + rw r) RANK_ADJACENT, cand (rx r - w) (rx r) RANK_ADJACENT,
          cand (rx r) (rx r) RANK_ALIGN, cand (rx r + rw r - w) (rx r + rw r) RANK_ALIGN]) others)"

definition moveCandidatesY :: "rat \<Rightarrow> RectWin list \<Rightarrow> Canvas \<Rightarrow> Candidate list" where
  "moveCandidatesY h others c =
     [cand 0 0 RANK_BOUND, cand (canvas_h c - h) (canvas_h c) RANK_BOUND]
     @ concat (map (\<lambda>o'. let r = rect o' in
         [cand (ry r + rh r) (ry r + rh r) RANK_ADJACENT, cand (ry r - h) (ry r) RANK_ADJACENT,
          cand (ry r) (ry r) RANK_ALIGN, cand (ry r + rh r - h) (ry r + rh r) RANK_ALIGN]) others)"

definition clamp :: "rat \<Rightarrow> rat \<Rightarrow> rat \<Rightarrow> rat" where
  "clamp lo hi v = min (max v lo) hi"

record MoveResult =
  move_x :: rat
  move_y :: rat
  move_guides :: Guides

definition computeMove :: "Rect \<Rightarrow> rat \<Rightarrow> rat \<Rightarrow> RectWin list \<Rightarrow> Canvas \<Rightarrow> bool \<Rightarrow> MoveResult" where
  "computeMove origin dx dy others c alt =
     (let b = moveBounds origin c;
          sx = snapAxis (clamp (minX b) (maxX b) (rx origin + dx)) (moveCandidatesX (rw origin) others c) alt;
          sy = snapAxis (clamp (minY b) (maxY b) (ry origin + dy)) (moveCandidatesY (rh origin) others c) alt
      in \<lparr>move_x = fst sx, move_y = fst sy, move_guides = \<lparr>guide_v = snd sx, guide_h = snd sy\<rparr>\<rparr>)"

definition overlaps :: "rat \<Rightarrow> rat \<Rightarrow> rat \<Rightarrow> rat \<Rightarrow> bool" where
  "overlaps a1 a2 b1 b2 \<longleftrightarrow> a1 < b2 \<and> b1 < a2"

definition touches :: "Rect \<Rightarrow> Edge \<Rightarrow> Rect \<Rightarrow> bool" where
  "touches d e r =
     (let hOverlap = overlaps (ry r) (ry r + rh r) (ry d) (ry d + rh d);
          vOverlap = overlaps (rx r) (rx r + rw r) (rx d) (rx d + rw d)
      in case e of
          EdgeE \<Rightarrow> \<bar>rx r - (rx d + rw d)\<bar> \<le> ADJACENT_EPS \<and> hOverlap
        | EdgeW \<Rightarrow> \<bar>rx r + rw r - rx d\<bar> \<le> ADJACENT_EPS \<and> hOverlap
        | EdgeS \<Rightarrow> \<bar>ry r - (ry d + rh d)\<bar> \<le> ADJACENT_EPS \<and> vOverlap
        | EdgeN \<Rightarrow> \<bar>ry r + rh r - ry d\<bar> \<le> ADJACENT_EPS \<and> vOverlap)"

definition detectFollowers :: "Rect \<Rightarrow> Edge \<Rightarrow> RectWin list \<Rightarrow> string list" where
  "detectFollowers d e others = map win_id (filter (\<lambda>w. touches d e (rect w)) others)"

subsection \<open>Resizing\<close>

definition has_e :: "ResizeMode \<Rightarrow> bool" where "has_e m \<longleftrightarrow> m \<in> {ModeE, ModeNE, ModeSE}"
definition has_w :: "ResizeMode \<Rightarrow> bool" where "has_w m \<longleftrightarrow> m \<in> {ModeW, ModeNW, ModeSW}"
definition has_n :: "ResizeMode \<Rightarrow> bool" where "has_n m \<longleftrightarrow> m \<in> {ModeN, ModeNE, ModeNW}"
definition has_s :: "ResizeMode \<Rightarrow> bool" where "has_s m \<longleftrightarrow> m \<in> {ModeS, ModeSE, ModeSW}"
definition pure_mode :: "ResizeMode \<Rightarrow> bool" where "pure_mode m \<longleftrightarrow> m \<in> {ModeE, ModeW, ModeN, ModeS}"

definition reduce_ext :: "(rat \<Rightarrow> rat \<Rightarrow> rat) \<Rightarrow> (Rect \<Rightarrow> rat) \<Rightarrow> RectWin list \<Rightarrow> rat option" where
  "reduce_ext pick sel fs = (case map (sel \<circ> rect) fs of [] \<Rightarrow> None | v # vs \<Rightarrow> Some (foldl pick v vs))"

definition snapClamped :: "rat \<Rightarrow> Candidate list \<Rightarrow> bool \<Rightarrow> rat \<Rightarrow> rat \<Rightarrow> rat \<times> rat option" where
  "snapClamped raw cands alt lo hi =
     (case snapAxis raw cands alt of (v, g) \<Rightarrow>
        let val = clamp lo hi v in (val, if val = v then g else None))"

definition resizeCandsX :: "RectWin list \<Rightarrow> Canvas \<Rightarrow> Candidate list" where
  "resizeCandsX others c = [cand 0 0 RANK_BOUND, cand (canvas_w c) (canvas_w c) RANK_BOUND]
     @ concat (map (\<lambda>o'. let r = rect o' in
         [cand (rx r) (rx r) RANK_ADJACENT, cand (rx r + rw r) (rx r + rw r) RANK_ADJACENT]) others)"

definition resizeCandsY :: "RectWin list \<Rightarrow> Canvas \<Rightarrow> Candidate list" where
  "resizeCandsY others c = [cand 0 0 RANK_BOUND, cand (canvas_h c) (canvas_h c) RANK_BOUND]
     @ concat (map (\<lambda>o'. let r = rect o' in
         [cand (ry r) (ry r) RANK_ADJACENT, cand (ry r + rh r) (ry r + rh r) RANK_ADJACENT]) others)"

text \<open>A moving far edge (east, south): the band and the snapped coordinate.\<close>

definition far_edge :: "rat \<Rightarrow> rat \<Rightarrow> rat \<Rightarrow> rat option \<Rightarrow> rat \<Rightarrow> rat \<Rightarrow> Candidate list \<Rightarrow> bool \<Rightarrow> rat \<times> rat option" where
  "far_edge pos extent outer cap minsize delta cands alt =
     (let hi0 = (case cap of None \<Rightarrow> outer | Some k \<Rightarrow> min outer k);
          lo = pos + minsize; hi = max hi0 lo
      in snapClamped (max lo (min (pos + extent + delta) hi)) cands alt lo hi)"

text \<open>A moving near edge (west, north).\<close>

definition near_edge :: "rat \<Rightarrow> rat \<Rightarrow> rat \<Rightarrow> rat option \<Rightarrow> rat \<Rightarrow> rat \<Rightarrow> Candidate list \<Rightarrow> bool \<Rightarrow> rat \<times> rat option" where
  "near_edge pos extent outer cap minsize delta cands alt =
     (let lo0 = (case cap of None \<Rightarrow> outer | Some k \<Rightarrow> max outer k);
          hi = pos + extent - minsize; lo = min lo0 hi
      in snapClamped (min hi (max (pos + delta) lo)) cands alt lo hi)"

record ResizeResult =
  res_rect :: Rect
  res_followers :: "RectWin list"
  res_guides :: Guides

definition computeResize :: "Rect \<Rightarrow> ResizeMode \<Rightarrow> rat \<Rightarrow> rat \<Rightarrow> RectWin list \<Rightarrow> RectWin list \<Rightarrow> Canvas \<Rightarrow> bool \<Rightarrow> ResizeResult" where
  "computeResize origin mode dx dy others followers c alt =
     (let active = (if pure_mode mode then followers else []);
          xc = resizeCandsX others c; yc = resizeCandsY others c;
          outerE = max (canvas_w c) (rx origin + rw origin);
          outerS = max (canvas_h c) (ry origin + rh origin);
          outerW = min 0 (rx origin); outerN = min 0 (ry origin);
          (x, w, gv, edgeV) =
            (if has_e mode then
               (let s = far_edge (rx origin) (rw origin) outerE
                     (reduce_ext min (\<lambda>f. rx f + rw f - MIN_W) active) MIN_W dx xc alt
                in (rx origin, fst s - rx origin, snd s, fst s))
             else (rx origin, rw origin, None, 0));
          (x, w, gv, edgeV) =
            (if has_w mode then
               (let s = near_edge (rx origin) (rw origin) outerW
                     (reduce_ext max (\<lambda>f. rx f + MIN_W) active) MIN_W dx xc alt
                in (fst s, rx origin + rw origin - fst s, snd s, fst s))
             else (x, w, gv, edgeV));
          (y, h, gh, edgeH) =
            (if has_s mode then
               (let s = far_edge (ry origin) (rh origin) outerS
                     (reduce_ext min (\<lambda>f. ry f + rh f - MIN_H) active) MIN_H dy yc alt
                in (ry origin, fst s - ry origin, snd s, fst s))
             else (ry origin, rh origin, None, 0));
          (y, h, gh, edgeH) =
            (if has_n mode then
               (let s = near_edge (ry origin) (rh origin) outerN
                     (reduce_ext max (\<lambda>f. ry f + MIN_H) active) MIN_H dy yc alt
                in (fst s, ry origin + rh origin - fst s, snd s, fst s))
             else (y, h, gh, edgeH));
          fr = map (\<lambda>f. let r = rect f in f\<lparr>rect :=
              (if mode = ModeE then r\<lparr>rx := edgeV, rw := rx r + rw r - edgeV\<rparr>
               else if mode = ModeW then r\<lparr>rw := edgeV - rx r\<rparr>
               else if mode = ModeS then r\<lparr>ry := edgeH, rh := ry r + rh r - edgeH\<rparr>
               else r\<lparr>rh := edgeH - ry r\<rparr>)\<rparr>) active
      in \<lparr>res_rect = \<lparr>rx = x, ry = y, rw = w, rh = h\<rparr>, res_followers = fr,
          res_guides = \<lparr>guide_v = gv, guide_h = gh\<rparr>\<rparr>)"

subsection \<open>Fractions of the canvas\<close>

definition safe :: "rat \<Rightarrow> rat" where "safe n = (if 0 < n then n else 1)"
definition clamp01 :: "rat \<Rightarrow> rat" where "clamp01 n = (if n < 0 then 0 else if 1 < n then 1 else n)"

definition toPx :: "Rect \<Rightarrow> Canvas \<Rightarrow> Rect" where
  "toPx f c = \<lparr>rx = rx f * canvas_w c, ry = ry f * canvas_h c, rw = rw f * canvas_w c, rh = rh f * canvas_h c\<rparr>"

definition toFrac :: "Rect \<Rightarrow> Canvas \<Rightarrow> Rect" where
  "toFrac r c =
     (let w = clamp01 (rw r / safe (canvas_w c)); h = clamp01 (rh r / safe (canvas_h c));
          b = moveBounds (r\<lparr>rw := w * safe (canvas_w c), rh := h * safe (canvas_h c)\<rparr>) c
      in \<lparr>rx = clamp (minX b) (maxX b) (rx r) / safe (canvas_w c),
          ry = clamp (minY b) (maxY b) (ry r) / safe (canvas_h c), rw = w, rh = h\<rparr>)"

definition isFracRect :: "Rect \<Rightarrow> bool" where
  "isFracRect r \<longleftrightarrow> 0 < rw r \<and> 0 < rh r \<and> rw r \<le> 10001 / 10000 \<and> rh r \<le> 10001 / 10000
     \<and> 0 \<le> ry r \<and> ry r < 1 \<and> 0 < rx r + rw r \<and> rx r < 1"

subsection \<open>Snapping\<close>

text \<open>What the loop has found among the candidates seen: the nearest within reach, ties by rank.\<close>

definition best_of :: "rat \<Rightarrow> Candidate list \<Rightarrow> Candidate option \<times> rat \<Rightarrow> bool" where
  "best_of raw cs acc = (case acc of
     (None, d) \<Rightarrow> d = SNAP_THRESHOLD + 1 \<and> (\<forall>c \<in> set cs. SNAP_THRESHOLD < \<bar>cand_val c - raw\<bar>)
   | (Some b, d) \<Rightarrow> b \<in> set cs \<and> d = \<bar>cand_val b - raw\<bar> \<and> d \<le> SNAP_THRESHOLD
       \<and> (\<forall>c \<in> set cs. d < \<bar>cand_val c - raw\<bar> \<or> d = \<bar>cand_val c - raw\<bar> \<and> rank b \<le> rank c))"

lemma snap_step_best: "best_of raw cs acc \<Longrightarrow> best_of raw (cs @ [c]) (snap_step raw acc c)"
  by (cases acc; cases "fst acc") (auto simp: best_of_def snap_step_def Let_def)

lemma snap_fold_best:
  "best_of raw cs acc \<Longrightarrow> best_of raw (cs @ ds) (foldl (snap_step raw) acc ds)"
proof (induction ds arbitrary: cs acc)
  case (Cons d ds)
  then show ?case using Cons.IH [OF snap_step_best [OF Cons.prems, of d]] by simp
qed simp

text \<open>
  Snapping picks the nearest candidate within twelve pixels, and among equally near ones one of
  the best rank (adjacency before alignment before the canvas edge); with no candidate in reach, or
  with Alt held, the coordinate stays and no guide is drawn.
\<close>

lemma snap_nearest:
  "(\<exists>b \<in> set cs. \<not> alt \<and> snapAxis raw cs alt = (cand_val b, Some (guide b)) \<and> \<bar>cand_val b - raw\<bar> \<le> 12
      \<and> (\<forall>c \<in> set cs. \<bar>cand_val b - raw\<bar> < \<bar>cand_val c - raw\<bar>
            \<or> \<bar>cand_val b - raw\<bar> = \<bar>cand_val c - raw\<bar> \<and> rank b \<le> rank c))
   \<or> (snapAxis raw cs alt = (raw, None) \<and> (alt \<or> (\<forall>c \<in> set cs. 12 < \<bar>cand_val c - raw\<bar>)))"
proof -
  have "best_of raw [] (None, SNAP_THRESHOLD + 1)" by (simp add: best_of_def)
  from snap_fold_best [OF this, of cs]
  have b: "best_of raw cs (foldl (snap_step raw) (None, SNAP_THRESHOLD + 1) cs)" by simp
  obtain best d where f: "foldl (snap_step raw) (None, SNAP_THRESHOLD + 1) cs = (best, d)" by fastforce
  show ?thesis
  proof (cases "alt \<or> best = None")
    case True
    then show ?thesis using b f by (auto simp: snapAxis_def best_of_def)
  next
    case False
    then obtain k where "best = Some k" by auto
    then show ?thesis using b f False
      by (intro disjI1 bexI [of _ k]) (auto simp: snapAxis_def best_of_def)
  qed
qed

lemma snap_close: "\<bar>fst (snapAxis raw cs alt) - raw\<bar> \<le> 12"
proof -
  have "best_of raw [] (None, SNAP_THRESHOLD + 1)" by (simp add: best_of_def)
  from snap_fold_best [OF this, of cs] show ?thesis
    by (auto simp: snapAxis_def best_of_def split: prod.splits option.splits)
qed

lemma clamp_bounds: "lo \<le> hi \<Longrightarrow> lo \<le> clamp lo hi v \<and> clamp lo hi v \<le> hi"
  by (auto simp: clamp_def)

lemma clamp_id: "lo \<le> v \<Longrightarrow> v \<le> hi \<Longrightarrow> clamp lo hi v = v"
  by (auto simp: clamp_def)

lemma snapClamped_band: "lo \<le> hi \<Longrightarrow> lo \<le> fst (snapClamped raw cs alt lo hi) \<and> fst (snapClamped raw cs alt lo hi) \<le> hi"
  using clamp_bounds [of lo hi] by (auto simp: snapClamped_def Let_def split: prod.splits)

subsection \<open>Resizing keeps the minimum size\<close>

lemma far_edge_band:
  "pos + m \<le> fst (far_edge pos extent outer cap m d cs alt)
   \<and> fst (far_edge pos extent outer cap m d cs alt)
       \<le> max (case cap of None \<Rightarrow> outer | Some k \<Rightarrow> min outer k) (pos + m)"
  unfolding far_edge_def Let_def by (rule snapClamped_band) simp

lemma near_edge_band:
  "min (case cap of None \<Rightarrow> outer | Some k \<Rightarrow> max outer k) (pos + extent - m) \<le> fst (near_edge pos extent outer cap m d cs alt)
   \<and> fst (near_edge pos extent outer cap m d cs alt) \<le> pos + extent - m"
  unfolding near_edge_def Let_def by (rule snapClamped_band) simp

text \<open>
  Resizing never makes a window smaller than the minimum: along every axis the drag changes, the
  new size is at least the minimum, whatever the pointer, the snap candidates and the neighbours do;
  the opposite edge stays exactly where it was, and an axis the drag does not touch is unchanged.
\<close>

lemma resize_minimum:
  "(let r = res_rect (computeResize origin mode dx dy others followers c alt) in
     (if has_e mode then rx r = rx origin \<and> MIN_W \<le> rw r
      else if has_w mode then rx r + rw r = rx origin + rw origin \<and> MIN_W \<le> rw r
      else rx r = rx origin \<and> rw r = rw origin)
   \<and> (if has_s mode then ry r = ry origin \<and> MIN_H \<le> rh r
      else if has_n mode then ry r + rh r = ry origin + rh origin \<and> MIN_H \<le> rh r
      else ry r = ry origin \<and> rh r = rh origin))"
proof -
  have far: "MIN_W \<le> fst (far_edge (rx origin) a b k MIN_W d cs alt) - rx origin"
    "MIN_H \<le> fst (far_edge (ry origin) a b k MIN_H d cs alt) - ry origin" for a b k d cs
    using far_edge_band [of "rx origin" MIN_W a b k d cs alt] far_edge_band [of "ry origin" MIN_H a b k d cs alt]
    by linarith+
  have near: "MIN_W \<le> rx origin + rw origin - fst (near_edge (rx origin) (rw origin) b k MIN_W d cs alt)"
    "MIN_H \<le> ry origin + rh origin - fst (near_edge (ry origin) (rh origin) b k MIN_H d cs alt)" for b k d cs
    using near_edge_band [of b k "rx origin" "rw origin" MIN_W d cs alt]
      near_edge_band [of b k "ry origin" "rh origin" MIN_H d cs alt] by linarith+
  show ?thesis
    by (cases mode)
      (simp_all add: computeResize_def Let_def has_e_def has_w_def has_n_def has_s_def far near)
qed

lemma foldl_min_le: "foldl min v (vs :: rat list) \<le> v \<and> (\<forall>x \<in> set vs. foldl min v vs \<le> x)"
  by (induction vs arbitrary: v) (simp, simp, metis dual_order.trans min.cobounded1 min.cobounded2)

lemma foldl_max_ge: "v \<le> foldl max v (vs :: rat list) \<and> (\<forall>x \<in> set vs. x \<le> foldl max v vs)"
  by (induction vs arbitrary: v) (simp, simp, metis order.trans max.cobounded1 max.cobounded2)

lemma reduce_min_le: "f \<in> set fs \<Longrightarrow> \<exists>k. reduce_ext min sel fs = Some k \<and> k \<le> sel (rect f)"
  using foldl_min_le by (cases fs) (auto simp: reduce_ext_def)

lemma reduce_max_ge: "f \<in> set fs \<Longrightarrow> \<exists>k. reduce_ext max sel fs = Some k \<and> sel (rect f) \<le> k"
  using foldl_max_ge by (cases fs) (auto simp: reduce_ext_def)

text \<open>
  Dragging a shared vertical edge resizes the neighbours with it and keeps them usable: each
  neighbour on the right keeps its right edge, starts exactly at the dragged window's new right edge,
  and is not narrower than the minimum, provided the dragged window's own minimum leaves it room. The
  mirror image holds for the left edge.
\<close>

lemma resize_followers:
  assumes "f \<in> set followers"
    and e_def: "e = computeResize origin ModeE dx dy others followers c alt"
    and w_def: "w = computeResize origin ModeW dx dy others followers c alt"
  shows "(\<exists>g \<in> set (res_followers e). win_id g = win_id f
        \<and> rx (rect g) = rx (res_rect e) + rw (res_rect e)
        \<and> rx (rect g) + rw (rect g) = rx (rect f) + rw (rect f)
        \<and> (rx origin + 2 * MIN_W \<le> rx (rect f) + rw (rect f) \<longrightarrow> MIN_W \<le> rw (rect g)))
    \<and> (\<exists>g \<in> set (res_followers w). win_id g = win_id f
        \<and> rx (rect g) = rx (rect f) \<and> rx (rect g) + rw (rect g) = rx (res_rect w)
        \<and> (rx (rect f) + 2 * MIN_W \<le> rx origin + rw origin \<longrightarrow> MIN_W \<le> rw (rect g)))"
proof
  let ?cap = "reduce_ext min (\<lambda>f. rx f + rw f - MIN_W) followers"
  let ?E = "fst (far_edge (rx origin) (rw origin) (max (canvas_w c) (rx origin + rw origin)) ?cap MIN_W dx (resizeCandsX others c) alt)"
  let ?g = "f\<lparr>rect := (rect f)\<lparr>rx := ?E, rw := rx (rect f) + rw (rect f) - ?E\<rparr>\<rparr>"
  have mem: "?g \<in> set (res_followers e)" and re: "rx (res_rect e) + rw (res_rect e) = ?E"
    using assms(1) unfolding e_def
    by (auto simp: computeResize_def Let_def pure_mode_def has_e_def has_w_def has_n_def has_s_def)
  obtain k where "?cap = Some k" "k \<le> rx (rect f) + rw (rect f) - MIN_W"
    using reduce_min_le [OF assms(1)] by blast
  then have "rx origin + 2 * MIN_W \<le> rx (rect f) + rw (rect f) \<longrightarrow> MIN_W \<le> rx (rect f) + rw (rect f) - ?E"
    using far_edge_band [of "rx origin" MIN_W "rw origin" "max (canvas_w c) (rx origin + rw origin)" ?cap dx "resizeCandsX others c" alt]
    by (auto simp: min_def max_def split: if_splits)
  then show "\<exists>g \<in> set (res_followers e). win_id g = win_id f \<and> rx (rect g) = rx (res_rect e) + rw (res_rect e)
      \<and> rx (rect g) + rw (rect g) = rx (rect f) + rw (rect f)
      \<and> (rx origin + 2 * MIN_W \<le> rx (rect f) + rw (rect f) \<longrightarrow> MIN_W \<le> rw (rect g))"
    using mem re by (intro bexI [OF _ mem]) simp
next
  let ?cap = "reduce_ext max (\<lambda>f. rx f + MIN_W) followers"
  let ?E = "fst (near_edge (rx origin) (rw origin) (min 0 (rx origin)) ?cap MIN_W dx (resizeCandsX others c) alt)"
  let ?g = "f\<lparr>rect := (rect f)\<lparr>rw := ?E - rx (rect f)\<rparr>\<rparr>"
  have mem: "?g \<in> set (res_followers w)" and re: "rx (res_rect w) = ?E"
    using assms(1) unfolding w_def
    by (auto simp: computeResize_def Let_def pure_mode_def has_e_def has_w_def has_n_def has_s_def)
  obtain k where "?cap = Some k" "rx (rect f) + MIN_W \<le> k" using reduce_max_ge [OF assms(1)] by blast
  then have "rx (rect f) + 2 * MIN_W \<le> rx origin + rw origin \<longrightarrow> MIN_W \<le> ?E - rx (rect f)"
    using near_edge_band [of "min 0 (rx origin)" ?cap "rx origin" "rw origin" MIN_W dx "resizeCandsX others c" alt]
    by (auto simp: min_def max_def split: if_splits)
  then show "\<exists>g \<in> set (res_followers w). win_id g = win_id f \<and> rx (rect g) = rx (rect f)
      \<and> rx (rect g) + rw (rect g) = rx (res_rect w)
      \<and> (rx (rect f) + 2 * MIN_W \<le> rx origin + rw origin \<longrightarrow> MIN_W \<le> rw (rect g))"
    using mem re by (intro bexI [OF _ mem]) simp
qed

definition left_rect :: Rect where "left_rect = \<lparr>rx = 0, ry = 0, rw = 400, rh = 300\<rparr>"
definition right_win :: RectWin where "right_win = \<lparr>win_id = ''b'', rect = \<lparr>rx = 400, ry = 0, rw = 400, rh = 300\<rparr>\<rparr>"

subsection \<open>Moving and committing\<close>

text \<open>The dragged position is within one snap of the band in which the header stays reachable.\<close>

lemma move_near_bounds:
  assumes "b = moveBounds origin c" "r = computeMove origin dx dy others c alt"
  shows "minX b - 12 \<le> move_x r \<and> move_x r \<le> maxX b + 12 \<and> minY b - 12 \<le> move_y r \<and> move_y r \<le> maxY b + 12"
proof -
  have "minX b \<le> maxX b" "minY b \<le> maxY b" using assms(1) by (simp_all add: moveBounds_def Let_def)
  note cx = clamp_bounds [OF this(1), of "rx origin + dx"] and cy = clamp_bounds [OF this(2), of "ry origin + dy"]
  have "\<bar>move_x r - clamp (minX b) (maxX b) (rx origin + dx)\<bar> \<le> 12"
    "\<bar>move_y r - clamp (minY b) (maxY b) (ry origin + dy)\<bar> \<le> 12"
    unfolding assms(2) computeMove_def Let_def assms(1) [symmetric] MoveResult.simps by (rule snap_close)+
  then show ?thesis using cx cy by linarith
qed

text \<open>
  While dragging, the window can leave the band in which 48 pixels of it stay reachable, by one
  snap and never more: the move clamps first and snaps afterwards, without clamping again as the
  resize does. The stored position is clamped, so the commit moves the window back.
\<close>

lemma move_bounds_snap:
  "(\<forall>origin dx dy others c alt. let b = moveBounds origin c; r = computeMove origin dx dy others c alt in
      minX b - 12 \<le> move_x r \<and> move_x r \<le> maxX b + 12 \<and> minY b - 12 \<le> move_y r \<and> move_y r \<le> maxY b + 12)
   \<and> (\<exists>origin dx others c. move_x (computeMove origin dx 0 others c False) < minX (moveBounds origin c))"
proof
  show "\<forall>origin dx dy others c alt. let b = moveBounds origin c; r = computeMove origin dx dy others c alt in
      minX b - 12 \<le> move_x r \<and> move_x r \<le> maxX b + 12 \<and> minY b - 12 \<le> move_y r \<and> move_y r \<le> maxY b + 12"
    using move_near_bounds unfolding Let_def by blast
  let ?o = "\<lparr>rx = 0, ry = 50, rw = 400, rh = 300\<rparr>" and ?c = "\<lparr>canvas_w = 1200, canvas_h = 900\<rparr>"
  let ?n = "[\<lparr>win_id = ''n'', rect = \<lparr>rx = 40, ry = 100, rw = 200, rh = 200\<rparr>\<rparr>]"
  have "move_x (computeMove ?o (- 1000) 0 ?n ?c False) < minX (moveBounds ?o ?c)"
    by (simp add: computeMove_def moveBounds_def Let_def clamp_def snapAxis_def moveCandidatesX_def snap_step_def)
  then show "\<exists>origin dx others c. move_x (computeMove origin dx 0 others c False) < minX (moveBounds origin c)"
    by blast
qed

lemma clamp01_bounds: "0 \<le> clamp01 v \<and> clamp01 v \<le> 1"
  by (simp add: clamp01_def)

lemma clamp01_id: "0 \<le> v \<Longrightarrow> v \<le> 1 \<Longrightarrow> clamp01 v = v"
  by (simp add: clamp01_def)

text \<open>
  Whatever rectangle is committed, the stored fraction is a window the user can grab again: its
  size is at most the canvas, its top is inside the canvas, and at least 48 pixels of its width (all
  of it when it is narrower) lie inside on both sides.
\<close>

lemma commit_reachable:
  assumes "0 < canvas_w c" "0 < canvas_h c"
  shows "(let f = toFrac r c; p = toPx f c in
     0 \<le> rw f \<and> rw f \<le> 1 \<and> 0 \<le> rh f \<and> rh f \<le> 1
     \<and> min 48 (rw p) \<le> rx p + rw p \<and> (48 \<le> canvas_w c \<longrightarrow> rx p + min 48 (rw p) \<le> canvas_w c)
     \<and> 0 \<le> ry p \<and> (26 \<le> canvas_h c \<longrightarrow> ry p + min 26 (rh p) \<le> canvas_h c))"
proof -
  let ?w = "clamp01 (rw r / canvas_w c) * canvas_w c" and ?h = "clamp01 (rh r / canvas_h c) * canvas_h c"
  let ?b = "moveBounds (r\<lparr>rw := ?w, rh := ?h\<rparr>) c"
  have b: "minX ?b = min 0 (min 48 ?w - ?w)" "maxX ?b = max 0 (canvas_w c - min 48 ?w)"
    "minY ?b = 0" "maxY ?b = max 0 (canvas_h c - min 26 ?h)" by (simp_all add: moveBounds_def Let_def)
  have le: "minX ?b \<le> maxX ?b" "minY ?b \<le> maxY ?b" by (simp_all add: b)
  note cx = clamp_bounds [OF le(1), of "rx r"] and cy = clamp_bounds [OF le(2), of "ry r"]
  have px: "rx (toPx (toFrac r c) c) = clamp (minX ?b) (maxX ?b) (rx r)" "rw (toPx (toFrac r c) c) = ?w"
    "ry (toPx (toFrac r c) c) = clamp (minY ?b) (maxY ?b) (ry r)" "rh (toPx (toFrac r c) c) = ?h"
    "rw (toFrac r c) = clamp01 (rw r / canvas_w c)" "rh (toFrac r c) = clamp01 (rh r / canvas_h c)"
    using assms by (simp_all add: toPx_def toFrac_def Let_def safe_def)
  have wh: "0 \<le> ?w" "0 \<le> ?h" using assms clamp01_bounds by simp_all
  show ?thesis
    unfolding Let_def px using cx cy clamp01_bounds [of "rw r / canvas_w c"] clamp01_bounds [of "rh r / canvas_h c"] wh
    unfolding b by (auto simp: min_def max_def split: if_splits)
qed

text \<open>A stored rectangle that is in bounds survives the trip to pixels and back.\<close>

lemma frac_roundtrip:
  assumes c: "0 < canvas_w c" "0 < canvas_h c" and f: "0 \<le> rw f" "rw f \<le> 1" "0 \<le> rh f" "rh f \<le> 1"
    and b: "b = moveBounds (toPx f c) c" "minX b \<le> rx f * canvas_w c" "rx f * canvas_w c \<le> maxX b"
      "minY b \<le> ry f * canvas_h c" "ry f * canvas_h c \<le> maxY b"
  shows "toFrac (toPx f c) c = f"
proof -
  have px: "toPx f c = \<lparr>rx = rx f * canvas_w c, ry = ry f * canvas_h c, rw = rw f * canvas_w c, rh = rh f * canvas_h c\<rparr>"
    by (simp add: toPx_def)
  have "b = moveBounds \<lparr>rx = rx f * canvas_w c, ry = ry f * canvas_h c, rw = rw f * canvas_w c, rh = rh f * canvas_h c\<rparr> c"
    using b(1) px by simp
  then show ?thesis
    using c f b(2-5) by (simp add: toFrac_def px Let_def safe_def clamp01_id clamp_id)
qed

end
