(* ===== verification/Json.thy ===== *)
theory Json
  imports Complex_Main Prelude
begin

section \<open>JSON values\<close>

text \<open>
  What \<open>JSON.parse\<close> gives the readers of stored state: an untyped value. Numbers are finite; the
  members of an object are in order, with distinct keys.
\<close>

datatype json = JNull | JBool bool | JNum rat | JStr string | JArr "json list" | JObj "(string \<times> json) list"

text \<open>Reading a member of a value that was cast to a record; an absent member is \<open>undefined\<close>.\<close>

definition member :: "json \<Rightarrow> string \<Rightarrow> json option" where
  "member v k = (case v of JObj ms \<Rightarrow> map_of ms k | _ \<Rightarrow> None)"

definition json_str :: "json option \<Rightarrow> string option" where
  "json_str v = (case v of Some (JStr s) \<Rightarrow> Some s | _ \<Rightarrow> None)"

definition json_num :: "json option \<Rightarrow> rat option" where
  "json_num v = (case v of Some (JNum n) \<Rightarrow> Some n | _ \<Rightarrow> None)"

definition json_bool :: "json option \<Rightarrow> bool option" where
  "json_bool v = (case v of Some (JBool b) \<Rightarrow> Some b | _ \<Rightarrow> None)"

definition json_arr :: "json option \<Rightarrow> json list option" where
  "json_arr v = (case v of Some (JArr xs) \<Rightarrow> Some xs | _ \<Rightarrow> None)"

text \<open>\<open>raw && typeof raw === 'object'\<close>: objects and arrays.\<close>

definition is_object :: "json option \<Rightarrow> bool" where
  "is_object v \<longleftrightarrow> (case v of Some (JObj _) \<Rightarrow> True | Some (JArr _) \<Rightarrow> True | _ \<Rightarrow> False)"

text \<open>\<open>Object.entries\<close>, and what a spread of the value copies: the entries of an array are numbered from 0.\<close>

definition entries_of :: "json \<Rightarrow> (string \<times> json) list" where
  "entries_of v = (case v of JObj ms \<Rightarrow> ms | JArr xs \<Rightarrow> map2 (\<lambda>i x. (nat_text i, x)) [0..<length xs] xs | _ \<Rightarrow> [])"

lemma json_simps [simp]:
  "member (JObj ms) k = map_of ms k"
  "json_str (Some (JStr s)) = Some s" "json_num (Some (JNum n)) = Some n"
  "json_bool (Some (JBool b)) = Some b" "json_arr (Some (JArr xs)) = Some xs"
  "json_str None = None" "json_num None = None" "json_bool None = None" "json_arr None = None"
  "is_object (Some (JObj ms))" "\<not> is_object None"
  by (simp_all add: member_def json_str_def json_num_def json_bool_def json_arr_def is_object_def)

subsection \<open>What \<open>JSON.stringify\<close> writes\<close>

text \<open>A member that is \<open>undefined\<close> is left out.\<close>

definition opt_member :: "string \<Rightarrow> ('a \<Rightarrow> json) \<Rightarrow> 'a option \<Rightarrow> (string \<times> json) list" where
  "opt_member k f v = (case v of None \<Rightarrow> [] | Some x \<Rightarrow> [(k, f x)])"

lemma map_of_opt_member:
  "map_of (opt_member k f v @ ms) k' = (if k = k' \<and> v \<noteq> None then map_option f v else map_of ms k')"
  "map_of (opt_member k f v) k' = (if k = k' then map_option f v else None)"
  by (auto simp: opt_member_def split: option.splits)

end
