(* ===== verification/PaneLayout.thy ===== *)
theory PaneLayout
  imports "HOL-Library.Multiset" Json
begin

section \<open>User-owned order of panes, cards and groups\<close>

text \<open>
  \<open>state/keyOrder.ts\<close>, \<open>chart/paneOrder.ts\<close> and \<open>chart/paneGroups.ts\<close>: reading stored orders,
  moving one key, and the partition of the indicator panes into merged groups.
\<close>

subsection \<open>state/keyOrder.ts\<close>

text \<open>The loop over the stored entries: the keys seen so far are the output.\<close>

definition key_step :: "(string \<Rightarrow> bool) \<Rightarrow> string list \<Rightarrow> json \<Rightarrow> string list" where
  "key_step isKey out entry = (case entry of
     JStr k \<Rightarrow> if \<not> isKey k \<or> k \<in> set out then out else out @ [k]
   | _ \<Rightarrow> out)"

definition normalizeKeyOrder :: "json \<Rightarrow> string list \<Rightarrow> (string \<Rightarrow> bool) \<Rightarrow> string list" where
  "normalizeKeyOrder raw canonical isKey =
     (case raw of
        JArr entries \<Rightarrow>
          let seen = foldl (key_step isKey) [] entries
          in seen @ filter (\<lambda>k. k \<notin> set seen) canonical
      | _ \<Rightarrow> canonical)"

definition splice_in :: "nat \<Rightarrow> 'a \<Rightarrow> 'a list \<Rightarrow> 'a list" where
  "splice_in i x xs = take i xs @ [x] @ drop i xs"

fun refill :: "'a set \<Rightarrow> 'a list \<Rightarrow> 'a list \<Rightarrow> 'a list" where
  "refill hidden visible [] = []"
| "refill hidden visible (k # ks) =
     (if k \<in> hidden then k # refill hidden visible ks
      else case visible of [] \<Rightarrow> refill hidden [] ks | v # vs \<Rightarrow> v # refill hidden vs ks)"

definition reorderVisible :: "'a list \<Rightarrow> 'a set \<Rightarrow> int \<Rightarrow> int \<Rightarrow> 'a list" where
  "reorderVisible fullOrder hidden frm to =
     (let visible = filter (\<lambda>k. k \<notin> hidden) fullOrder in
      if frm < 0 \<or> int (length visible) \<le> frm \<or> to < 0 \<or> int (length visible) \<le> to \<or> frm = to
      then fullOrder
      else let f = nat frm; moved = visible ! f; rest = take f visible @ drop (Suc f) visible
        in refill hidden (splice_in (nat to) moved rest) fullOrder)"

subsection \<open>chart/paneOrder.ts\<close>

definition candle :: string where "candle = ''candle''"

definition CANONICAL_PANE_ORDER :: "string list" where
  "CANONICAL_PANE_ORDER = [candle, ''volume'', ''trade-value'', ''quote-totals'', ''peak-wall'', ''ratio'',
     ''fill-strength'', ''program-trade'', ''investor-foreign'', ''investor-institution'', ''program-daily'',
     ''investor-net-line'', ''investor-holdings'', ''foreign-cumulative'', ''institution-cumulative'']"

fun split_colon :: "string \<Rightarrow> string list" where
  "split_colon [] = [[]]"
| "split_colon (c # s) = (if c = CHR '':'' then [] # split_colon s
     else case split_colon s of [] \<Rightarrow> [[c]] | w # ws \<Rightarrow> (c # w) # ws)"

definition id_char :: "char \<Rightarrow> bool" where
  "id_char c \<longleftrightarrow> (let n = of_char c :: nat in
     97 \<le> n \<and> n \<le> 122 \<or> 65 \<le> n \<and> n \<le> 90 \<or> 48 \<le> n \<and> n \<le> 57 \<or> c = CHR ''_'' \<or> c = CHR ''-'')"

text \<open>\<open>/^indicator:[a-zA-Z0-9_-]{1,80}:/\<close> and \<open>split(':')[2]\<close>.\<close>

definition isPaneId :: "string \<Rightarrow> bool" where
  "isPaneId v \<longleftrightarrow> v \<in> set CANONICAL_PANE_ORDER
     \<or> (case split_colon v of
          p # i # b # _ \<Rightarrow> p = ''indicator'' \<and> i \<noteq> [] \<and> length i \<le> 80 \<and> list_all id_char i
            \<and> b \<in> set CANONICAL_PANE_ORDER
        | _ \<Rightarrow> False)"

definition normalizePaneOrder :: "json \<Rightarrow> string list" where
  "normalizePaneOrder raw =
     candle # filter (\<lambda>k. k \<noteq> candle) (normalizeKeyOrder raw CANONICAL_PANE_ORDER isPaneId)"

definition normalizePaneStretch :: "json \<Rightarrow> (string \<times> rat) list" where
  "normalizePaneStretch raw = (case raw of
     JObj ms \<Rightarrow> List.map_filter (\<lambda>(k, v). case v of
         JNum n \<Rightarrow> if isPaneId k \<and> \<not> n < 5 / 100 \<and> \<not> 20 < n then Some (k, n) else None
       | _ \<Rightarrow> None) ms
   | _ \<Rightarrow> [])"

datatype side = Before | After

text \<open>\<open>indexOf\<close>.\<close>

fun index_of :: "'a \<Rightarrow> 'a list \<Rightarrow> nat option" where
  "index_of x [] = None"
| "index_of x (y # ys) = (if y = x then Some 0 else map_option Suc (index_of x ys))"

definition movePaneBeside :: "string list \<Rightarrow> string \<Rightarrow> string \<Rightarrow> side \<Rightarrow> string list" where
  "movePaneBeside order pane neighbor s =
     (if pane = candle \<or> pane = neighbor then order
      else let without = filter (\<lambda>k. k \<noteq> pane) order in
        case index_of neighbor without of
          None \<Rightarrow> order
        | Some ni \<Rightarrow> splice_in (case s of Before \<Rightarrow> ni | After \<Rightarrow> Suc ni) pane without)"

definition basePaneId :: "string \<Rightarrow> string" where
  "basePaneId i = (if take 10 i = ''indicator:'' then (case split_colon i of _ # _ # b # _ \<Rightarrow> b | _ \<Rightarrow> []) else i)"

subsection \<open>chart/paneGroups.ts\<close>

type_synonym PaneGroups = "string list list"

definition isGroupPaneId :: "string \<Rightarrow> bool" where
  "isGroupPaneId v \<longleftrightarrow> v \<in> set CANONICAL_PANE_ORDER"

definition paneGroupsFromOrder :: "string list \<Rightarrow> PaneGroups" where
  "paneGroupsFromOrder order = map (\<lambda>i. [i]) order"

definition flattenPaneGroups :: "PaneGroups \<Rightarrow> string list" where
  "flattenPaneGroups groups = concat groups"

text \<open>The inner loop: the keys seen and the members of the group being read.\<close>

definition member_step :: "string set \<times> string list \<Rightarrow> json \<Rightarrow> string set \<times> string list" where
  "member_step acc entry = (case acc of (seen, members) \<Rightarrow>
     (case entry of
        JStr i \<Rightarrow>
          if \<not> isGroupPaneId i \<or> i \<in> seen then acc
          else if i = candle then (insert i seen, members)
          else (insert i seen, members @ [i])
      | _ \<Rightarrow> acc))"

definition group_step :: "string set \<times> PaneGroups \<Rightarrow> json \<Rightarrow> string set \<times> PaneGroups" where
  "group_step acc rawGroup = (case acc of (seen, groups) \<Rightarrow>
     (case rawGroup of
        JArr entries \<Rightarrow>
          (case foldl member_step (seen, []) entries of
             (seen', members) \<Rightarrow> (seen', if members \<noteq> [] then groups @ [members] else groups))
      | _ \<Rightarrow> acc))"

definition normalizePaneGroups :: "json \<Rightarrow> PaneGroups" where
  "normalizePaneGroups raw =
     (let (seen, groups) = (case raw of JArr gs \<Rightarrow> foldl group_step ({}, []) gs | _ \<Rightarrow> ({}, []));
          missing = filter (\<lambda>i. i \<noteq> candle \<and> i \<notin> seen) CANONICAL_PANE_ORDER
      in [candle] # groups @ map (\<lambda>i. [i]) missing)"

fun find_index :: "('a \<Rightarrow> bool) \<Rightarrow> 'a list \<Rightarrow> int" where
  "find_index P [] = - 1"
| "find_index P (x # xs) = (if P x then 0 else let i = find_index P xs in if i < 0 then - 1 else i + 1)"

definition paneGroupIndexOf :: "PaneGroups \<Rightarrow> string \<Rightarrow> int" where
  "paneGroupIndexOf groups pane = find_index (\<lambda>g. pane \<in> set g) groups"

definition drop_pane :: "string \<Rightarrow> PaneGroups \<Rightarrow> PaneGroups" where
  "drop_pane pane groups = map (filter (\<lambda>i. i \<noteq> pane)) groups"

definition mergePaneIntoGroup :: "PaneGroups \<Rightarrow> string \<Rightarrow> string \<Rightarrow> PaneGroups" where
  "mergePaneIntoGroup groups source target =
     (if source = candle \<or> target = candle \<or> source = target then groups
      else let si = paneGroupIndexOf groups source; ti = paneGroupIndexOf groups target in
        if si < 0 \<or> ti < 0 \<or> si = ti then groups
        else let next = drop_pane source groups
          in filter (\<lambda>g. g \<noteq> []) (next[nat ti := next ! nat ti @ [source]]))"

definition extractPaneToBoundary :: "PaneGroups \<Rightarrow> string \<Rightarrow> int \<Rightarrow> PaneGroups" where
  "extractPaneToBoundary groups pane boundaryIndex =
     (if pane = candle then groups
      else let fromIdx = paneGroupIndexOf groups pane in
        if fromIdx < 0 then groups
        else
          let wasSingleton = (length (groups ! nat fromIdx) = 1);
              without = filter (\<lambda>g. g \<noteq> []) (drop_pane pane groups);
              pos0 = (if wasSingleton \<and> fromIdx < boundaryIndex then boundaryIndex - 1 else boundaryIndex);
              pos = max 1 (min pos0 (int (length without)))
          in if wasSingleton \<and> pos = fromIdx then groups
             else splice_in (nat pos) [pane] without)"

definition movePaneGroupBeside :: "PaneGroups \<Rightarrow> string \<Rightarrow> string \<Rightarrow> side \<Rightarrow> PaneGroups" where
  "movePaneGroupBeside groups pane neighbor s =
     (if pane = candle then groups
      else let fromIdx = paneGroupIndexOf groups pane; neighborIdx = paneGroupIndexOf groups neighbor in
        if fromIdx < 0 \<or> neighborIdx < 0 \<or> fromIdx = neighborIdx then groups
        else
          let f = nat fromIdx; moving = groups ! f;
              without = take f groups @ drop (Suc f) groups;
              ni = find_index (\<lambda>g. neighbor \<in> set g) without;
              pos = max 1 (case s of Before \<Rightarrow> ni | After \<Rightarrow> ni + 1)
          in splice_in (nat pos) moving without)"

definition SHARED_AXIS_SETS :: "string list list" where
  "SHARED_AXIS_SETS = [[''investor-foreign'', ''investor-institution'']]"

definition isSharedAxisGroup :: "string list \<Rightarrow> bool" where
  "isSharedAxisGroup members \<longleftrightarrow> \<not> length members \<le> 1
     \<and> list_ex (\<lambda>s. list_all (\<lambda>i. i \<in> set s) members) SHARED_AXIS_SETS"

datatype PaneAxisMode = Shared | Isolated | LeftAxis

fun join_comma :: "string list \<Rightarrow> string" where
  "join_comma [] = []"
| "join_comma [x] = x"
| "join_comma (x # xs) = x @ '','' @ join_comma xs"

definition paneGroupKey :: "string list \<Rightarrow> string" where
  "paneGroupKey members = join_comma (sort members)"

definition read_axis_mode :: "json \<Rightarrow> PaneAxisMode option" where
  "read_axis_mode v = (case v of
     JStr s \<Rightarrow> if s = ''shared'' then Some Shared else if s = ''isolated'' then Some Isolated
       else if s = ''left'' then Some LeftAxis else None
   | _ \<Rightarrow> None)"

definition liveGroupKeys :: "PaneGroups \<Rightarrow> string set" where
  "liveGroupKeys groups = set (map paneGroupKey (filter (\<lambda>g. 1 < length g) groups))"

definition normalizePaneAxisMode :: "json \<Rightarrow> PaneGroups \<Rightarrow> (string \<times> PaneAxisMode) list" where
  "normalizePaneAxisMode raw groups = (case raw of
     JObj ms \<Rightarrow> List.map_filter (\<lambda>(k, v). case read_axis_mode v of
         Some m \<Rightarrow> if k \<in> liveGroupKeys groups then Some (k, m) else None | None \<Rightarrow> None) ms
   | _ \<Rightarrow> [])"

definition defaultAxisMode :: "string list \<Rightarrow> PaneAxisMode" where
  "defaultAxisMode members = (if isSharedAxisGroup members then Shared else Isolated)"

definition resolveAxisMode :: "string list \<Rightarrow> (string \<times> PaneAxisMode) list \<Rightarrow> PaneAxisMode" where
  "resolveAxisMode members modeMap =
     (if length members \<le> 1 then Isolated
      else case map_of modeMap (paneGroupKey members) of Some m \<Rightarrow> m | None \<Rightarrow> defaultAxisMode members)"

definition normalizePaneGroupStretch :: "json \<Rightarrow> PaneGroups \<Rightarrow> (string \<times> rat) list" where
  "normalizePaneGroupStretch raw groups = (case raw of
     JObj ms \<Rightarrow> List.map_filter (\<lambda>(k, v). case v of
         JNum n \<Rightarrow> if \<not> n < 5 / 100 \<and> \<not> 20 < n \<and> k \<in> liveGroupKeys groups then Some (k, n) else None
       | _ \<Rightarrow> None) ms
   | _ \<Rightarrow> [])"

definition priceScaleIdForGroupMember :: "string list \<Rightarrow> string \<Rightarrow> string \<Rightarrow> PaneAxisMode \<Rightarrow> string option" where
  "priceScaleIdForGroupMember grp mem originalId mode =
     (if length grp \<le> 1 then None
      else if hd grp = mem then None
      else if mode = Shared then None
      else if mode = LeftAxis \<and> grp ! 1 = mem \<and> originalId \<noteq> [] then Some ''left''
      else Some (''merged:'' @ mem @ '':'' @ originalId))"

subsection \<open>Reading an order: the interface\<close>

text \<open>
  What every stored order relies on: canonical keys that are distinct and accepted. Whatever is
  stored, the order read has no duplicate, only known keys, and every canonical key.
\<close>

locale key_order =
  fixes canonical :: "string list" and isKey :: "string \<Rightarrow> bool"
  assumes canonical_distinct: "distinct canonical"
    and canonical_keys: "\<forall>k \<in> set canonical. isKey k"
begin

lemma key_step_ok:
  assumes "distinct out" "\<forall>k \<in> set out. isKey k"
  shows "distinct (key_step isKey out e) \<and> (\<forall>k \<in> set (key_step isKey out e). isKey k)"
  using assms by (cases e) (auto simp: key_step_def)

lemma key_fold:
  "distinct out \<Longrightarrow> \<forall>k \<in> set out. isKey k \<Longrightarrow>
   distinct (foldl (key_step isKey) out es) \<and> (\<forall>k \<in> set (foldl (key_step isKey) out es). isKey k)"
proof (induction es arbitrary: out)
  case (Cons e es)
  show ?case
    unfolding foldl.simps by (rule Cons.IH) (use key_step_ok [OF Cons.prems, of e] in blast)+
qed simp

lemma normalized_ok:
  "distinct (normalizeKeyOrder raw canonical isKey)"
  "\<forall>k \<in> set (normalizeKeyOrder raw canonical isKey). isKey k"
  "set canonical \<subseteq> set (normalizeKeyOrder raw canonical isKey)"
  using key_fold [of "[]"] canonical_distinct canonical_keys
  by (auto simp: normalizeKeyOrder_def Let_def split: json.splits)

lemma fold_id:
  "distinct (out @ ks) \<Longrightarrow> \<forall>k \<in> set ks. isKey k \<Longrightarrow> foldl (key_step isKey) out (map JStr ks) = out @ ks"
  by (induction ks arbitrary: out) (auto simp: key_step_def)

text \<open>An order that is already complete is read back as it was written.\<close>

lemma normalized_id:
  assumes "distinct ks" "\<forall>k \<in> set ks. isKey k" "set canonical \<subseteq> set ks"
  shows "normalizeKeyOrder (JArr (map JStr ks)) canonical isKey = ks"
proof -
  have "filter (\<lambda>k. k \<notin> set ks) canonical = []" using assms(3) by (auto simp: filter_empty_conv)
  then show ?thesis using fold_id [of "[]" ks] assms by (simp add: normalizeKeyOrder_def)
qed

end

interpretation panes: key_order CANONICAL_PANE_ORDER isPaneId
  by unfold_locales (simp_all add: CANONICAL_PANE_ORDER_def candle_def isPaneId_def)

text \<open>
  Whatever is stored as the pane order, the order read back starts with the candle pane, contains
  every pane kind and nothing unknown, each once; and an order in that form is stored and read back
  unchanged.
\<close>

lemma pane_order_read:
  "hd (normalizePaneOrder raw) = candle \<and> distinct (normalizePaneOrder raw)
   \<and> set CANONICAL_PANE_ORDER \<subseteq> set (normalizePaneOrder raw)
   \<and> set (normalizePaneOrder raw) \<subseteq> {k. isPaneId k}
   \<and> normalizePaneOrder (JArr (map JStr (normalizePaneOrder raw))) = normalizePaneOrder raw"
proof -
  note n = panes.normalized_ok [of raw]
  have c: "isPaneId candle" by (simp add: isPaneId_def CANONICAL_PANE_ORDER_def)
  have ok: "hd (normalizePaneOrder raw) = candle" "distinct (normalizePaneOrder raw)"
    "set CANONICAL_PANE_ORDER \<subseteq> set (normalizePaneOrder raw)" "\<forall>k \<in> set (normalizePaneOrder raw). isPaneId k"
    using n c by (auto simp: normalizePaneOrder_def)
  have "normalizeKeyOrder (JArr (map JStr (normalizePaneOrder raw))) CANONICAL_PANE_ORDER isPaneId = normalizePaneOrder raw"
    using ok(2,4,3) by (rule panes.normalized_id)
  moreover have "candle # filter (\<lambda>k. k \<noteq> candle) (normalizePaneOrder raw) = normalizePaneOrder raw"
    using ok(2) unfolding normalizePaneOrder_def by (auto intro: filter_True)
  ultimately have "normalizePaneOrder (JArr (map JStr (normalizePaneOrder raw))) = normalizePaneOrder raw"
    by (simp add: normalizePaneOrder_def [of "JArr _"])
  then show ?thesis using ok by blast
qed

subsection \<open>Groups are a partition\<close>

text \<open>
  The invariant of the file: candle alone in front, no empty group, every pane kind in exactly one
  group.
\<close>

definition layout_ok :: "PaneGroups \<Rightarrow> bool" where
  "layout_ok gs \<longleftrightarrow> gs \<noteq> [] \<and> hd gs = [candle] \<and> (\<forall>g \<in> set gs. g \<noteq> [])
     \<and> mset (concat gs) = mset CANONICAL_PANE_ORDER"

lemma candle_canonical: "candle \<in> set CANONICAL_PANE_ORDER" "distinct CANONICAL_PANE_ORDER"
  by (simp_all add: CANONICAL_PANE_ORDER_def candle_def)

definition flat_ok :: "string set \<Rightarrow> string list \<Rightarrow> bool" where
  "flat_ok seen xs \<longleftrightarrow> distinct xs \<and> set xs = seen - {candle} \<and> seen \<subseteq> set CANONICAL_PANE_ORDER"

definition reading :: "string set \<Rightarrow> PaneGroups \<Rightarrow> string list \<Rightarrow> bool" where
  "reading seen groups members \<longleftrightarrow> flat_ok seen (concat groups @ members) \<and> (\<forall>g \<in> set groups. g \<noteq> [])"

lemma flat_ok_steps:
  "flat_ok seen xs \<Longrightarrow> flat_ok (insert candle seen) xs"
  "flat_ok seen xs \<Longrightarrow> i \<in> set CANONICAL_PANE_ORDER \<Longrightarrow> i \<notin> seen \<Longrightarrow> i \<noteq> candle \<Longrightarrow> flat_ok (insert i seen) (xs @ [i])"
  using candle_canonical(1) by (auto simp: flat_ok_def)

lemma member_step_reading:
  assumes "reading seen groups members" "member_step (seen, members) e = (seen', members')"
  shows "reading seen' groups members'"
proof (cases e)
  case (JStr i)
  then consider "seen' = seen" "members' = members" | "seen' = insert candle seen" "members' = members"
    | "seen' = insert i seen" "members' = members @ [i]" "i \<in> set CANONICAL_PANE_ORDER" "i \<notin> seen" "i \<noteq> candle"
    using assms(2) by (auto simp: member_step_def isGroupPaneId_def split: if_splits)
  then show ?thesis
    using assms(1) flat_ok_steps by cases (auto simp: reading_def simp del: append_assoc simp add: append_assoc [symmetric])
qed (use assms in \<open>simp_all add: member_step_def\<close>)

lemma members_reading:
  "reading seen groups members \<Longrightarrow> foldl member_step (seen, members) es = (seen', members') \<Longrightarrow>
   reading seen' groups members'"
proof (induction es arbitrary: seen members)
  case (Cons e es)
  obtain s1 m1 where s1: "member_step (seen, members) e = (s1, m1)" by fastforce
  show ?case using Cons.IH [OF member_step_reading [OF Cons.prems(1) s1]] Cons.prems(2) s1 by simp
qed simp

lemma reading_flush: "reading seen groups m \<Longrightarrow> m \<noteq> [] \<Longrightarrow> reading seen (groups @ [m]) []"
  by (auto simp: reading_def)

lemma groups_reading:
  "reading seen groups [] \<Longrightarrow> foldl group_step (seen, groups) gs = (seen', groups') \<Longrightarrow> reading seen' groups' []"
proof (induction gs arbitrary: seen groups)
  case (Cons g gs)
  obtain s1 g1 where s1: "group_step (seen, groups) g = (s1, g1)" by fastforce
  have "reading s1 g1 []"
  proof (cases g)
    case (JArr es)
    obtain s2 m2 where m2: "foldl member_step (seen, []) es = (s2, m2)" by fastforce
    have "reading s2 groups m2" using members_reading [OF Cons.prems(1) m2] .
    then show ?thesis using s1 JArr m2 reading_flush [of s2 groups m2]
      by (cases "m2 = []") (auto simp: group_step_def)
  qed (use s1 Cons.prems(1) in \<open>simp_all add: group_step_def\<close>)
  then show ?case using Cons.IH Cons.prems(2) s1 by simp
qed simp

lemma concat_singletons: "concat (map (\<lambda>i. [i]) xs) = xs"
  by (induction xs) simp_all

text \<open>
  Whatever is stored as the pane groups, reading it gives a partition: candle alone and first, no
  empty group, every pane kind in exactly one group.
\<close>

lemma pane_groups_read: "layout_ok (normalizePaneGroups raw)"
proof -
  obtain seen groups where r: "(case raw of JArr gs \<Rightarrow> foldl group_step ({}, []) gs | _ \<Rightarrow> ({}, [])) = (seen, groups)"
    by fastforce
  have r0: "reading {} [] []" by (simp add: reading_def flat_ok_def)
  have rd: "reading seen groups []"
    using r groups_reading [OF r0] r0 by (auto split: json.splits)
  let ?m = "filter (\<lambda>i. i \<noteq> candle \<and> i \<notin> seen) CANONICAL_PANE_ORDER" and ?x = "concat groups"
  have fo: "flat_ok seen ?x" using rd by (simp add: reading_def)
  have "distinct (candle # ?x @ ?m)" "set (candle # ?x @ ?m) = set CANONICAL_PANE_ORDER"
    using fo candle_canonical unfolding flat_ok_def by (auto simp del: set_concat)
  then have "mset (candle # ?x @ ?m) = mset CANONICAL_PANE_ORDER"
    using candle_canonical(2) by (subst set_eq_iff_mset_eq_distinct [symmetric]) simp_all
  moreover have "concat (map (\<lambda>i. [i]) ?m) = ?m" by (rule concat_singletons)
  ultimately show ?thesis
    using rd unfolding layout_ok_def normalizePaneGroups_def r Let_def prod.case by (auto simp: reading_def)
qed

lemma layout_parts:
  assumes "layout_ok gs"
  shows "distinct (concat gs)" "set (concat gs) = set CANONICAL_PANE_ORDER" "\<forall>g \<in> set gs. g \<noteq> []"
    "hd gs = [candle]" "0 < length gs"
proof -
  have m: "mset (concat gs) = mset CANONICAL_PANE_ORDER" using assms by (simp add: layout_ok_def)
  show "distinct (concat gs)" using mset_eq_imp_distinct_iff [OF m] candle_canonical(2) by simp
  show "set (concat gs) = set CANONICAL_PANE_ORDER" using m by (rule mset_eq_setD)
  show "\<forall>g \<in> set gs. g \<noteq> []" "hd gs = [candle]" "0 < length gs" using assms by (auto simp: layout_ok_def)
qed

lemma layout_mset:
  "layout_ok gs \<Longrightarrow> hd gs' = [candle] \<Longrightarrow> gs' \<noteq> [] \<Longrightarrow> \<forall>g \<in> set gs'. g \<noteq> [] \<Longrightarrow>
   mset (concat gs') = mset (concat gs) \<Longrightarrow> layout_ok gs'"
  by (simp add: layout_ok_def)

text \<open>The groups of a partition are found by their members.\<close>

lemma find_index_spec:
  "find_index P xs < 0 \<and> (\<forall>x \<in> set xs. \<not> P x)
   \<or> (\<exists>i. find_index P xs = int i \<and> i < length xs \<and> P (xs ! i))"
proof (induction xs)
  case (Cons x xs)
  show ?case
  proof (cases "P x")
    case False
    from Cons show ?thesis
    proof
      assume "\<exists>i. find_index P xs = int i \<and> i < length xs \<and> P (xs ! i)"
      then obtain i where "find_index P xs = int i" "i < length xs" "P (xs ! i)" by blast
      then show ?thesis using False by (intro disjI2 exI [of _ "Suc i"]) simp
    qed (use False in auto)
  qed auto
qed simp

lemma pane_index:
  assumes "layout_ok gs" "x \<in> set CANONICAL_PANE_ORDER"
  obtains i where "paneGroupIndexOf gs x = int i" "i < length gs" "x \<in> set (gs ! i)"
proof -
  have "\<exists>g \<in> set gs. x \<in> set g" using layout_parts(2) [OF assms(1)] assms(2) by auto
  then show thesis using find_index_spec [of "\<lambda>g. x \<in> set g" gs] that by (auto simp: paneGroupIndexOf_def)
qed

lemma concat_drop_pane: "concat (drop_pane x gs) = filter (\<lambda>i. i \<noteq> x) (concat gs)"
  by (induction gs) (simp_all add: drop_pane_def)

lemma concat_filter_nonempty: "concat (filter (\<lambda>g. g \<noteq> []) gs) = concat gs"
  by (induction gs) auto

lemma mset_concat_update:
  "i < length gs \<Longrightarrow> mset (concat (gs[i := gs ! i @ [x]])) = add_mset x (mset (concat gs))"
  by (induction gs arbitrary: i) (auto split: nat.splits)

lemma mset_splice: "mset (splice_in i x xs) = add_mset x (mset xs)"
proof -
  have "mset xs = mset (take i xs) + mset (drop i xs)" by (metis append_take_drop_id mset_append)
  then show ?thesis by (simp add: splice_in_def)
qed

lemma mset_concat_splice: "mset (concat (splice_in i g gs)) = mset g + mset (concat gs)"
proof -
  have "concat gs = concat (take i gs) @ concat (drop i gs)" by (metis append_take_drop_id concat_append)
  then show ?thesis by (simp add: splice_in_def)
qed

lemma set_splice [simp]: "set (splice_in i x xs) = insert x (set xs)"
  using arg_cong [OF mset_splice [of i x xs], of set_mset] by simp

lemma hd_splice: "0 < i \<Longrightarrow> xs \<noteq> [] \<Longrightarrow> hd (splice_in i x xs) = hd xs"
  by (cases xs; cases i) (simp_all add: splice_in_def)

lemma mset_filter_put:
  "distinct xs \<Longrightarrow> x \<in> set xs \<Longrightarrow> add_mset x (mset (filter (\<lambda>i. i \<noteq> x) xs)) = mset xs"
proof (induction xs)
  case (Cons y ys)
  show ?case
  proof (cases "y = x")
    case True
    then have "filter (\<lambda>i. i \<noteq> x) ys = ys" using Cons.prems(1) by (auto intro: filter_True)
    then show ?thesis using True by (simp del: mset_filter)
  next
    case False
    then show ?thesis using Cons by (simp del: mset_filter add: add_mset_commute)
  qed
qed simp

text \<open>Taking a pane out leaves the candle group in front.\<close>

lemma drop_pane_front:
  assumes "layout_ok gs" "x \<noteq> candle"
  shows "hd (filter (\<lambda>g. g \<noteq> []) (drop_pane x gs)) = [candle]" "filter (\<lambda>g. g \<noteq> []) (drop_pane x gs) \<noteq> []"
    "hd (drop_pane x gs) = [candle]" "drop_pane x gs \<noteq> []"
proof -
  obtain rest where "gs = [candle] # rest" using assms(1) by (cases gs) (auto simp: layout_ok_def)
  then show "hd (filter (\<lambda>g. g \<noteq> []) (drop_pane x gs)) = [candle]" "filter (\<lambda>g. g \<noteq> []) (drop_pane x gs) \<noteq> []"
    "hd (drop_pane x gs) = [candle]" "drop_pane x gs \<noteq> []" using assms(2) by (auto simp: drop_pane_def)
qed

lemma merge_layout:
  assumes "layout_ok gs" "p \<in> set CANONICAL_PANE_ORDER" "q \<in> set CANONICAL_PANE_ORDER"
  shows "layout_ok (mergePaneIntoGroup gs p q)"
proof -
  obtain i j where i: "paneGroupIndexOf gs p = int i" "i < length gs" "p \<in> set (gs ! i)"
    and j: "paneGroupIndexOf gs q = int j" "j < length gs" "q \<in> set (gs ! j)"
    using pane_index [OF assms(1,2)] pane_index [OF assms(1,3)] by metis
  note lp = layout_parts [OF assms(1)]
  have pin: "p \<in> set (concat gs)" using lp(2) assms(2) by simp
  show ?thesis
  proof (cases "p = candle \<or> q = candle \<or> p = q \<or> i = j")
    case True
    then show ?thesis using assms(1) i(1) j(1) by (auto simp: mergePaneIntoGroup_def Let_def)
  next
    case False
    let ?d = "drop_pane p gs" and ?u = "(drop_pane p gs)[j := drop_pane p gs ! j @ [p]]"
    have m: "mergePaneIntoGroup gs p q = filter (\<lambda>g. g \<noteq> []) ?u"
      using False i(1) j(1) by (simp add: mergePaneIntoGroup_def Let_def)
    have len: "j < length ?d" using j(2) by (simp add: drop_pane_def)
    have "j \<noteq> 0"
    proof
      assume "j = 0"
      then have "gs ! j = [candle]" using lp(4,5) by (simp add: hd_conv_nth)
      then show False using j(3) False by simp
    qed
    then have hd: "hd ?u = [candle]" "?u \<noteq> []"
      using drop_pane_front(3,4) [OF assms(1), of p] False by (cases j; cases ?d; simp)+
    show ?thesis unfolding m
    proof (rule layout_mset [OF assms(1)])
      show "hd (filter (\<lambda>g. g \<noteq> []) ?u) = [candle]" "filter (\<lambda>g. g \<noteq> []) ?u \<noteq> []"
        using hd by (cases ?u; simp)+
      show "\<forall>g \<in> set (filter (\<lambda>g. g \<noteq> []) ?u). g \<noteq> []" by simp
      have "mset (concat ?u) = add_mset p (mset (concat ?d))" by (rule mset_concat_update [OF len])
      also have "\<dots> = mset (concat gs)"
        unfolding concat_drop_pane by (rule mset_filter_put [OF lp(1) pin])
      finally show "mset (concat (filter (\<lambda>g. g \<noteq> []) ?u)) = mset (concat gs)" by (simp only: concat_filter_nonempty)
    qed
  qed
qed

lemma extract_layout:
  assumes "layout_ok gs" "p \<in> set CANONICAL_PANE_ORDER"
  shows "layout_ok (extractPaneToBoundary gs p b)"
proof -
  note lp = layout_parts [OF assms(1)]
  have pin: "p \<in> set (concat gs)" using lp(2) assms(2) by simp
  show ?thesis
  proof (cases "extractPaneToBoundary gs p b = gs")
    case True
    then show ?thesis using assms(1) by simp
  next
    case False
    let ?w = "filter (\<lambda>g. g \<noteq> []) (drop_pane p gs)"
    have np: "p \<noteq> candle" using False by (auto simp: extractPaneToBoundary_def)
    obtain n where n: "extractPaneToBoundary gs p b = splice_in (nat n) [p] ?w" "1 \<le> n"
      using False np by (auto simp: extractPaneToBoundary_def Let_def split: if_splits)
    note fr = drop_pane_front(1,2) [OF assms(1) np]
    show ?thesis unfolding n(1)
    proof (rule layout_mset [OF assms(1)])
      show "hd (splice_in (nat n) [p] ?w) = [candle]" using hd_splice [of "nat n" ?w "[p]"] fr n(2) by simp
      show "splice_in (nat n) [p] ?w \<noteq> []" by (simp add: splice_in_def)
      show "\<forall>g \<in> set (splice_in (nat n) [p] ?w). g \<noteq> []" by simp
      show "mset (concat (splice_in (nat n) [p] ?w)) = mset (concat gs)"
        using mset_filter_put [OF lp(1) pin]
        by (simp only: mset_concat_splice concat_filter_nonempty concat_drop_pane mset.simps add_mset_add_single [symmetric] add.commute)
          simp
    qed
  qed
qed

lemma group_move_layout:
  assumes "layout_ok gs" "p \<in> set CANONICAL_PANE_ORDER" "q \<in> set CANONICAL_PANE_ORDER"
  shows "layout_ok (movePaneGroupBeside gs p q s)"
proof -
  obtain i j where i: "paneGroupIndexOf gs p = int i" "i < length gs" "p \<in> set (gs ! i)"
    and j: "paneGroupIndexOf gs q = int j" "j < length gs" "q \<in> set (gs ! j)"
    using pane_index [OF assms(1,2)] pane_index [OF assms(1,3)] by metis
  note lp = layout_parts [OF assms(1)]
  show ?thesis
  proof (cases "p = candle \<or> i = j")
    case True
    then show ?thesis using assms(1) i(1) j(1) by (auto simp: movePaneGroupBeside_def Let_def)
  next
    case False
    let ?w = "take i gs @ drop (Suc i) gs"
    obtain n where n: "movePaneGroupBeside gs p q s = splice_in (nat n) (gs ! i) ?w" "1 \<le> n"
      using False i(1) j(1) by (auto simp: movePaneGroupBeside_def Let_def)
    have "i \<noteq> 0"
    proof
      assume "i = 0"
      then have "gs ! i = [candle]" using lp(4,5) by (simp add: hd_conv_nth)
      then show False using i(3) False by simp
    qed
    then have fr: "hd ?w = [candle]" "?w \<noteq> []" using lp(4) i(2) by (cases i; cases gs; simp)+
    have split: "gs = take i gs @ gs ! i # drop (Suc i) gs" using i(2) by (rule id_take_nth_drop)
    show ?thesis unfolding n(1)
    proof (rule layout_mset [OF assms(1)])
      show "hd (splice_in (nat n) (gs ! i) ?w) = [candle]" using hd_splice [of "nat n" ?w "gs ! i"] fr n(2) by simp
      show "splice_in (nat n) (gs ! i) ?w \<noteq> []" by (simp add: splice_in_def)
      have w: "set ?w \<subseteq> set gs" by (auto dest: in_set_takeD in_set_dropD)
      show "\<forall>g \<in> set (splice_in (nat n) (gs ! i) ?w). g \<noteq> []"
      proof
        fix g assume "g \<in> set (splice_in (nat n) (gs ! i) ?w)"
        then have "g = gs ! i \<or> g \<in> set ?w" by (simp only: set_splice insert_iff)
        then have "g \<in> set gs" using w nth_mem [OF i(2)] by auto
        then show "g \<noteq> []" using lp(3) by blast
      qed
      have "concat gs = concat (take i gs) @ gs ! i @ concat (drop (Suc i) gs)"
        using arg_cong [OF split, of concat] by (simp only: concat_append concat.simps)
      from arg_cong [OF this, of mset]
      show "mset (concat (splice_in (nat n) (gs ! i) ?w)) = mset (concat gs)"
        by (simp only: mset_concat_splice concat_append mset_append union_lcomm [of "mset (gs ! i)"])
    qed
  qed
qed

text \<open>
  C37. Every layout operation keeps the partition: after merging a pane into another's group, taking a
  pane out to a boundary, or moving a whole group next to another, candle is still alone and first, no
  group is empty, and every pane is in exactly one group.
\<close>

theorem pane_operations_partition:
  assumes "layout_ok gs" "p \<in> set CANONICAL_PANE_ORDER" "q \<in> set CANONICAL_PANE_ORDER"
  shows "layout_ok (mergePaneIntoGroup gs p q) \<and> layout_ok (extractPaneToBoundary gs p b)
    \<and> layout_ok (movePaneGroupBeside gs p q s)"
  using merge_layout [OF assms] extract_layout [OF assms(1,2)] group_move_layout [OF assms] by blast

theorem pane_operations_partition_witness:
  "layout_ok (mergePaneIntoGroup (normalizePaneGroups JNull) ''ratio'' ''volume'')"
proof -
  have "layout_ok (normalizePaneGroups JNull)"
    unfolding layout_ok_def by code_simp
  moreover have "''ratio'' \<in> set CANONICAL_PANE_ORDER" "''volume'' \<in> set CANONICAL_PANE_ORDER"
    by (simp_all add: CANONICAL_PANE_ORDER_def)
  ultimately show ?thesis using pane_operations_partition by blast
qed

end
