(* ===== verification/OrderSettings.thy ===== *)
theory OrderSettings
  imports Json
begin

section \<open>Order window settings\<close>

text \<open>
  \<open>state/orderCostRates.ts\<close>, \<open>state/orderWindowSettings.ts\<close> and the bound of
  \<open>state/tradeWindowSettings.ts\<close>: the percent parser, the readers of stored order settings, and the
  conversion of an amount preset to whole shares. Numbers are rationals; the reads and writes of the
  last settings are in the theory of the workspace store.
\<close>

subsection \<open>state/orderCostRates.ts\<close>

record CostRates =
  commissionPercent :: "string option"
  taxPercent :: "string option"

type_synonym CostProfiles = "(string \<times> CostRates) list"

text \<open>\<open>/^(\d{1,3})(?:\.(\d{1,6}))?$/\<close>: the rate in millionths of a percent.\<close>

definition parseCostPercent :: "string \<Rightarrow> int option" where
  "parseCostPercent v =
     (let whole = takeWhile is_digit v; rest = dropWhile is_digit v;
          frac = (case rest of [] \<Rightarrow> Some []
                  | c # f \<Rightarrow> if c = CHR ''.'' \<and> f \<noteq> [] \<and> length f \<le> 6 \<and> list_all is_digit f then Some f else None)
      in if whole = [] \<or> 3 < length whole then None
         else case frac of None \<Rightarrow> None
         | Some f \<Rightarrow>
             (case (js_number whole, js_number (f @ replicate (6 - length f) CHR ''0'')) of
                (Some w, Some m) \<Rightarrow> let rate = w * 1000000 + m in if rate \<le> 100000000 then Some rate else None
              | _ \<Rightarrow> None))"

definition validCostRates :: "string \<Rightarrow> string \<Rightarrow> bool" where
  "validCostRates commission tax = (case (parseCostPercent commission, parseCostPercent tax) of
     (Some c, Some t) \<Rightarrow> c + t \<le> 100000000 | _ \<Rightarrow> False)"

definition PROFILE_PREFIX :: string where "PROFILE_PREFIX = ''[\"sell-estimate-v1\",''"

definition read_rate :: "json \<Rightarrow> string \<Rightarrow> string option" where
  "read_rate v k = (case member v k of None \<Rightarrow> None | Some r \<Rightarrow>
     (case r of JStr s \<Rightarrow> Some (take 16 s) | _ \<Rightarrow> Some []))"

text \<open>The body of the loop over \<open>Object.entries(raw).slice(-64)\<close>.\<close>

definition read_profile :: "string \<times> json \<Rightarrow> (string \<times> CostRates) option" where
  "read_profile e = (case e of (k, v) \<Rightarrow>
     if 512 < length k \<or> take (length PROFILE_PREFIX) k \<noteq> PROFILE_PREFIX \<or> \<not> is_object (Some v)
        \<or> (member v ''commissionPercent'' = None \<and> member v ''taxPercent'' = None)
     then None
     else Some (k, \<lparr>commissionPercent = read_rate v ''commissionPercent'', taxPercent = read_rate v ''taxPercent''\<rparr>))"

definition normalizeCostProfiles :: "json option \<Rightarrow> CostProfiles" where
  "normalizeCostProfiles raw = (case raw of
     Some (JObj ms) \<Rightarrow> List.map_filter read_profile (drop (length ms - 64) ms)
   | _ \<Rightarrow> [])"

subsection \<open>state/orderWindowSettings.ts\<close>

datatype OrderInputUnit = Quantity | Amount

record OrderWindowSettings =
  order_unit :: OrderInputUnit
  quantityPresets :: "rat list"
  amountPresets :: "rat list"
  showAveragePrice :: bool
  showPriceSeparators :: bool
  showPriceChangePercent :: bool
  orderReceiptSound :: bool
  buyFillSound :: bool
  sellFillSound :: bool
  rememberQuantity :: bool
  reflectSellCosts :: bool
  sellCostProfiles :: CostProfiles

definition MILLION_WON :: int where "MILLION_WON = 1000000"
definition MAX_ORDER_QUANTITY :: rat where "MAX_ORDER_QUANTITY = 1000000000"
definition MAX_AMOUNT_MILLIONS :: rat where "MAX_AMOUNT_MILLIONS = 1000000"

definition DEFAULT_ORDER_SETTINGS :: OrderWindowSettings where
  "DEFAULT_ORDER_SETTINGS = \<lparr>order_unit = Quantity, quantityPresets = [10, 50, 100], amountPresets = [1, 5, 10],
     showAveragePrice = True, showPriceSeparators = False, showPriceChangePercent = True,
     orderReceiptSound = False, buyFillSound = False, sellFillSound = False, rememberQuantity = False,
     reflectSellCosts = False, sellCostProfiles = []\<rparr>"

definition is_integer :: "rat \<Rightarrow> bool" where
  "is_integer r \<longleftrightarrow> of_int \<lfloor>r\<rfloor> = r"

definition is_safe_integer :: "rat \<Rightarrow> bool" where
  "is_safe_integer r \<longleftrightarrow> is_integer r \<and> \<bar>r\<bar> \<le> 9007199254740991"

definition validOrderInput :: "rat \<Rightarrow> OrderInputUnit \<Rightarrow> bool" where
  "validOrderInput v u \<longleftrightarrow> is_safe_integer v \<and> 1 \<le> v
     \<and> v \<le> (if u = Quantity then MAX_ORDER_QUANTITY else MAX_AMOUNT_MILLIONS)"

text \<open>The checks of the declared types (a unit, booleans, a record of profiles) hold of every value here.\<close>

definition validOrderSettings :: "OrderWindowSettings \<Rightarrow> bool" where
  "validOrderSettings s \<longleftrightarrow> length (quantityPresets s) = 3 \<and> length (amountPresets s) = 3
     \<and> list_all (\<lambda>n. validOrderInput n Quantity) (quantityPresets s)
     \<and> list_all (\<lambda>n. validOrderInput n Amount) (amountPresets s)"

definition read_presets :: "json option \<Rightarrow> OrderInputUnit \<Rightarrow> rat list \<Rightarrow> rat list" where
  "read_presets source u fallback = (case json_arr source of
     Some ns \<Rightarrow> if length ns \<noteq> 3 then fallback
       else map2 (\<lambda>n f. case n of JNum r \<Rightarrow> if validOrderInput r u then r else f | _ \<Rightarrow> f) ns fallback
   | None \<Rightarrow> fallback)"

definition read_flag :: "json option \<Rightarrow> bool \<Rightarrow> bool" where
  "read_flag v d = (case json_bool v of Some b \<Rightarrow> b | None \<Rightarrow> d)"

definition normalizeOrderSettings :: "json option \<Rightarrow> OrderWindowSettings" where
  "normalizeOrderSettings raw =
     (let v = (case raw of Some (JObj ms) \<Rightarrow> JObj ms | _ \<Rightarrow> JObj []); d = DEFAULT_ORDER_SETTINGS in
      \<lparr>order_unit = (if json_str (member v ''unit'') = Some ''amount'' then Amount else Quantity),
       quantityPresets = read_presets (member v ''quantityPresets'') Quantity (quantityPresets d),
       amountPresets = read_presets (member v ''amountPresets'') Amount (amountPresets d),
       showAveragePrice = read_flag (member v ''showAveragePrice'') (showAveragePrice d),
       showPriceSeparators = read_flag (member v ''showPriceSeparators'') (showPriceSeparators d),
       showPriceChangePercent = read_flag (member v ''showPriceChangePercent'') (showPriceChangePercent d),
       orderReceiptSound = read_flag (member v ''orderReceiptSound'') (orderReceiptSound d),
       buyFillSound = read_flag (member v ''buyFillSound'') (buyFillSound d),
       sellFillSound = read_flag (member v ''sellFillSound'') (sellFillSound d),
       rememberQuantity = read_flag (member v ''rememberQuantity'') (rememberQuantity d),
       reflectSellCosts = read_flag (member v ''reflectSellCosts'') False,
       sellCostProfiles = normalizeCostProfiles (member v ''sellCostProfiles'')\<rparr>)"

definition quantityForAmount :: "rat \<Rightarrow> rat \<Rightarrow> int option" where
  "quantityForAmount millions price =
     (if \<not> validOrderInput millions Amount \<or> \<not> is_safe_integer price \<or> price \<le> 0 then None
      else Some \<lfloor>millions * of_int MILLION_WON / price\<rfloor>)"

subsection \<open>state/tradeWindowSettings.ts\<close>

definition MAX_TRADE_MIN_AMOUNT_MANWON :: rat where "MAX_TRADE_MIN_AMOUNT_MANWON = 1000000"

definition isTradeMinAmountManwon :: "rat \<Rightarrow> bool" where
  "isTradeMinAmountManwon v \<longleftrightarrow> is_integer v \<and> 0 \<le> v \<and> v \<le> MAX_TRADE_MIN_AMOUNT_MANWON"

subsection \<open>What \<open>JSON.stringify\<close> stores\<close>

definition profiles_json :: "CostProfiles \<Rightarrow> json" where
  "profiles_json ps = JObj (map (\<lambda>(k, r). (k, JObj (opt_member ''commissionPercent'' JStr (commissionPercent r)
     @ opt_member ''taxPercent'' JStr (taxPercent r)))) ps)"

definition order_json :: "OrderWindowSettings \<Rightarrow> json" where
  "order_json s = JObj [
     (''unit'', JStr (case order_unit s of Quantity \<Rightarrow> ''quantity'' | Amount \<Rightarrow> ''amount'')),
     (''quantityPresets'', JArr (map JNum (quantityPresets s))),
     (''amountPresets'', JArr (map JNum (amountPresets s))),
     (''showAveragePrice'', JBool (showAveragePrice s)),
     (''showPriceSeparators'', JBool (showPriceSeparators s)),
     (''showPriceChangePercent'', JBool (showPriceChangePercent s)),
     (''orderReceiptSound'', JBool (orderReceiptSound s)),
     (''buyFillSound'', JBool (buyFillSound s)),
     (''sellFillSound'', JBool (sellFillSound s)),
     (''rememberQuantity'', JBool (rememberQuantity s)),
     (''reflectSellCosts'', JBool (reflectSellCosts s)),
     (''sellCostProfiles'', profiles_json (sellCostProfiles s))]"

subsection \<open>Reading gives settings that can be used and stored\<close>

lemma default_valid: "validOrderSettings DEFAULT_ORDER_SETTINGS"
  by (simp add: validOrderSettings_def DEFAULT_ORDER_SETTINGS_def validOrderInput_def is_safe_integer_def
      is_integer_def MAX_ORDER_QUANTITY_def MAX_AMOUNT_MILLIONS_def)

lemma read_presets_valid:
  assumes "length d = 3" "list_all (\<lambda>n. validOrderInput n u) d"
  shows "length (read_presets v u d) = 3 \<and> list_all (\<lambda>n. validOrderInput n u) (read_presets v u d)"
  using assms
  by (auto simp: read_presets_def list_all_length split: option.splits json.splits)

lemma read_presets_stored:
  assumes "length ps = 3" "list_all (\<lambda>n. validOrderInput n u) ps" "length d = 3"
  shows "read_presets (Some (JArr (map JNum ps))) u d = ps"
  using assms by (auto simp: read_presets_def list_all_length intro!: nth_equalityI)

lemma normalized_valid: "validOrderSettings (normalizeOrderSettings v)"
  using default_valid read_presets_valid
  by (auto simp: validOrderSettings_def normalizeOrderSettings_def Let_def)

definition profile_ok :: "string \<times> CostRates \<Rightarrow> bool" where
  "profile_ok p = (case p of (k, r) \<Rightarrow> length k \<le> 512 \<and> take (length PROFILE_PREFIX) k = PROFILE_PREFIX
     \<and> (commissionPercent r \<noteq> None \<or> taxPercent r \<noteq> None)
     \<and> list_all (\<lambda>s. length s \<le> 16) (case commissionPercent r of Some s \<Rightarrow> [s] | None \<Rightarrow> [])
     \<and> list_all (\<lambda>s. length s \<le> 16) (case taxPercent r of Some s \<Rightarrow> [s] | None \<Rightarrow> []))"

lemma read_profile_ok: "read_profile e = Some p \<Longrightarrow> profile_ok p"
  by (auto simp: read_profile_def profile_ok_def read_rate_def split: prod.splits if_splits option.splits json.splits)

lemma map_filter_length: "length (List.map_filter f xs) \<le> length xs"
  by (simp add: List.map_filter_def)

lemma normalized_profiles:
  "length (normalizeCostProfiles v) \<le> 64 \<and> list_all profile_ok (normalizeCostProfiles v)"
proof (cases v)
  case (Some j)
  then show ?thesis
    using map_filter_length [of read_profile "drop (length ms - 64) ms" for ms, THEN order_trans]
    by (cases j) (auto simp: normalizeCostProfiles_def list_all_iff List.map_filter_def intro: read_profile_ok)
qed (simp add: normalizeCostProfiles_def)

lemma read_profile_stored:
  assumes "profile_ok (k, r)"
  shows "read_profile (k, JObj (opt_member ''commissionPercent'' JStr (commissionPercent r)
     @ opt_member ''taxPercent'' JStr (taxPercent r))) = Some (k, r)"
  using assms by (cases "commissionPercent r"; cases "taxPercent r")
    (auto simp: read_profile_def profile_ok_def read_rate_def opt_member_def)

lemma profiles_stored:
  assumes "length ps \<le> 64" "list_all profile_ok ps"
  shows "normalizeCostProfiles (Some (profiles_json ps)) = ps"
proof -
  let ?f = "\<lambda>(k, r). (k, JObj (opt_member ''commissionPercent'' JStr (commissionPercent r)
     @ opt_member ''taxPercent'' JStr (taxPercent r)))"
  have "List.map_filter read_profile (map ?f ps) = ps" using assms(2)
    by (induction ps) (auto simp: List.map_filter_def read_profile_stored)
  then show ?thesis using assms(1) by (simp add: normalizeCostProfiles_def profiles_json_def)
qed

definition settings_ok :: "OrderWindowSettings \<Rightarrow> bool" where
  "settings_ok s \<longleftrightarrow> validOrderSettings s \<and> length (sellCostProfiles s) \<le> 64 \<and> list_all profile_ok (sellCostProfiles s)"

lemma order_settings_stored:
  assumes "settings_ok s"
  shows "normalizeOrderSettings (Some (order_json s)) = s"
  using assms
  by (cases "order_unit s")
    (simp_all add: settings_ok_def validOrderSettings_def normalizeOrderSettings_def order_json_def
      read_presets_stored DEFAULT_ORDER_SETTINGS_def profiles_stored read_flag_def)

lemma normalized_settings_ok: "settings_ok (normalizeOrderSettings v)"
proof -
  obtain w where "sellCostProfiles (normalizeOrderSettings v) = normalizeCostProfiles w"
    by (simp add: normalizeOrderSettings_def Let_def)
  then show ?thesis using normalized_valid [of v] normalized_profiles [of w] by (simp add: settings_ok_def)
qed

text \<open>
  Any stored value reads back as usable order settings: three presets of each unit within the
  bounds, at most 64 cost profiles, and storing what was read and reading it again changes nothing.
\<close>

lemma order_settings_read:
  "validOrderSettings (normalizeOrderSettings v) \<and> length (sellCostProfiles (normalizeOrderSettings v)) \<le> 64
   \<and> normalizeOrderSettings (Some (order_json (normalizeOrderSettings v))) = normalizeOrderSettings v"
  using normalized_settings_ok [of v] order_settings_stored [OF normalized_settings_ok [of v]]
  by (simp add: settings_ok_def)

subsection \<open>Shares for an amount\<close>

text \<open>
  An amount preset never overspends and wastes less than one share: the quantity it gives costs at
  most the amount at the current price, and one more share would cost more.
\<close>

lemma quantity_fits_amount:
  assumes "quantityForAmount millions price = Some q"
  shows "0 \<le> q \<and> of_int q * price \<le> millions * 1000000 \<and> millions * 1000000 < of_int (q + 1) * price"
proof -
  have p: "0 < price" and m: "1 \<le> millions" and q: "q = \<lfloor>millions * 1000000 / price\<rfloor>"
    using assms by (auto simp: quantityForAmount_def validOrderInput_def MILLION_WON_def split: if_splits)
  have "of_int q \<le> millions * 1000000 / price" "millions * 1000000 / price < of_int q + 1"
    unfolding q by linarith+
  then have "of_int q * price \<le> millions * 1000000" "millions * 1000000 < (of_int q + 1) * price"
    using p by (simp_all add: pos_le_divide_eq pos_divide_less_eq)
  moreover have "0 \<le> q" unfolding q using p m by simp
  ultimately show ?thesis by simp
qed

end
