(* ===== verification/Instruments.thy ===== *)
theory Instruments
  imports PaneLayout DateWindow
begin

section \<open>Instruments, exchanges and timeframes by name\<close>

text \<open>
  \<open>live/liveInstrument.ts\<close> and the timeframe tables of \<open>state/livePage.ts\<close>: what a stored or typed
  name denotes, and the three name spaces of the live page (active code, subject key, work area
  code).
\<close>

subsection \<open>Timeframes\<close>

fun timeframe_text :: "LiveTimeframe \<Rightarrow> string" where
  "timeframe_text S1 = ''1s''" | "timeframe_text S5 = ''5s''" | "timeframe_text S10 = ''10s''"
| "timeframe_text S30 = ''30s''" | "timeframe_text M1 = ''1m''" | "timeframe_text M3 = ''3m''"
| "timeframe_text M5 = ''5m''" | "timeframe_text M10 = ''10m''" | "timeframe_text M15 = ''15m''"
| "timeframe_text M30 = ''30m''" | "timeframe_text M60 = ''60m''" | "timeframe_text M120 = ''120m''"
| "timeframe_text M240 = ''240m''" | "timeframe_text Day = ''D''" | "timeframe_text Week = ''W''"
| "timeframe_text Month = ''M''"

definition LIVE_TIMEFRAMES :: "LiveTimeframe list" where
  "LIVE_TIMEFRAMES = [S1, S5, S10, S30, M1, M3, M5, M10, M15, M30, M60, M120, M240, Day, Week, Month]"

definition MINUTE_TIMEFRAMES :: "LiveTimeframe list" where
  "MINUTE_TIMEFRAMES = [M1, M3, M5, M10, M15, M30, M60, M120, M240]"

text \<open>\<open>isLiveTimeframe\<close> and \<open>isMinuteFrameValue\<close> narrow a stored value; here they give the timeframe.\<close>

definition timeframe_of :: "LiveTimeframe list \<Rightarrow> json option \<Rightarrow> LiveTimeframe option" where
  "timeframe_of allowed v = (case json_str v of
     Some s \<Rightarrow> find (\<lambda>tf. timeframe_text tf = s) allowed | None \<Rightarrow> None)"

definition isLiveTimeframe :: "json option \<Rightarrow> LiveTimeframe option" where
  "isLiveTimeframe v = timeframe_of LIVE_TIMEFRAMES v"

definition isMinuteFrameValue :: "json option \<Rightarrow> LiveTimeframe option" where
  "isMinuteFrameValue v = timeframe_of MINUTE_TIMEFRAMES v"

lemma isLiveTimeframe_text [simp]: "isLiveTimeframe (Some (JStr (timeframe_text tf))) = Some tf"
  by (cases tf) (simp_all add: isLiveTimeframe_def timeframe_of_def LIVE_TIMEFRAMES_def)

lemma isMinuteFrameValue_text [simp]:
  "isMinuteFrameValue (Some (JStr (timeframe_text tf))) = (if isMinuteTimeframe tf then Some tf else None)"
  by (cases tf) (simp_all add: isMinuteFrameValue_def timeframe_of_def MINUTE_TIMEFRAMES_def isMinuteTimeframe_def)

lemma isMinuteFrameValue_minute: "isMinuteFrameValue v = Some tf \<Longrightarrow> isMinuteTimeframe tf"
  by (auto simp: isMinuteFrameValue_def timeframe_of_def MINUTE_TIMEFRAMES_def isMinuteTimeframe_def
      split: option.splits if_splits)

lemma readers_absent [simp]: "isLiveTimeframe None = None" "isMinuteFrameValue None = None"
  by (simp_all add: isLiveTimeframe_def isMinuteFrameValue_def timeframe_of_def)

text \<open>US prices have calendar bars and a bounded set of minute bars.\<close>

definition usCalendarTimeframe :: "LiveTimeframe \<Rightarrow> LiveTimeframe" where
  "usCalendarTimeframe tf = (if tf = Week \<or> tf = Month then tf else Day)"

definition US_MINUTE_TIMEFRAMES :: "LiveTimeframe list" where
  "US_MINUTE_TIMEFRAMES = [M1, M3, M5, M10, M15, M30, M60]"

definition usChartTimeframe :: "LiveTimeframe \<Rightarrow> LiveTimeframe" where
  "usChartTimeframe tf = (if tf \<in> set US_MINUTE_TIMEFRAMES then tf else usCalendarTimeframe tf)"

lemma usChartTimeframe_idem [simp]: "usChartTimeframe (usChartTimeframe tf) = usChartTimeframe tf"
  by (cases tf) (simp_all add: usChartTimeframe_def US_MINUTE_TIMEFRAMES_def usCalendarTimeframe_def)

subsection \<open>Instruments\<close>

datatype UsExchange = NASDAQ | NYSE | AMEX

fun exchange_text :: "UsExchange \<Rightarrow> string" where
  "exchange_text NASDAQ = ''NASDAQ''" | "exchange_text NYSE = ''NYSE''" | "exchange_text AMEX = ''AMEX''"

datatype LiveInstrument = UsStock UsExchange string string | Stock string string | Index string string

definition isUsExchange :: "string \<Rightarrow> UsExchange option" where
  "isUsExchange s = find (\<lambda>e. exchange_text e = s) [NASDAQ, NYSE, AMEX]"

definition isUsIndexId :: "string \<Rightarrow> bool" where
  "isUsIndexId v \<longleftrightarrow> v \<in> {''NASDAQ_COMPOSITE'', ''SP500'', ''SOX'', ''VIX''}"

definition isLiveIndexId :: "string \<Rightarrow> bool" where
  "isLiveIndexId v \<longleftrightarrow> v \<in> {''KOSPI'', ''KOSDAQ'', ''KOSPI200'', ''KOSDAQ150'', ''KRX100'', ''KRX300''}
     \<or> isUsIndexId v"

definition stockInstrument :: "string \<Rightarrow> string option \<Rightarrow> LiveInstrument" where
  "stockInstrument code label = Stock code (case label of Some l \<Rightarrow> l | None \<Rightarrow> code)"

definition indexInstrument :: "string \<Rightarrow> string option \<Rightarrow> LiveInstrument" where
  "indexInstrument i label = Index i (case label of Some l \<Rightarrow> l | None \<Rightarrow> i)"

definition usStockInstrument :: "UsExchange \<Rightarrow> string \<Rightarrow> string option \<Rightarrow> LiveInstrument" where
  "usStockInstrument ex s label = UsStock ex s (case label of Some l \<Rightarrow> l | None \<Rightarrow> s)"

fun instrumentToActiveCode :: "LiveInstrument option \<Rightarrow> string option" where
  "instrumentToActiveCode (Some (Stock code _)) = Some code"
| "instrumentToActiveCode _ = None"

fun instrumentLabel :: "LiveInstrument option \<Rightarrow> string" where
  "instrumentLabel None = []"
| "instrumentLabel (Some (UsStock _ _ l)) = l"
| "instrumentLabel (Some (Stock _ l)) = l"
| "instrumentLabel (Some (Index _ l)) = l"

definition usStockKey :: "UsExchange \<Rightarrow> string \<Rightarrow> string" where
  "usStockKey ex s = ''us-stock:'' @ exchange_text ex @ '':'' @ s"

fun instrumentToSubjectKey :: "LiveInstrument \<Rightarrow> string" where
  "instrumentToSubjectKey (UsStock ex s _) = usStockKey ex s"
| "instrumentToSubjectKey (Stock code _) = ''stock:'' @ code"
| "instrumentToSubjectKey (Index i _) = ''index:'' @ i"

definition indexWorkareaCode :: "string \<Rightarrow> string" where
  "indexWorkareaCode i = ''index:'' @ i"

definition starts_with :: "string \<Rightarrow> string \<Rightarrow> bool" where
  "starts_with p s \<longleftrightarrow> take (length p) s = p"

definition isIndexWorkareaCode :: "string option \<Rightarrow> bool" where
  "isIndexWorkareaCode v = (case v of Some c \<Rightarrow> starts_with ''index:'' c | None \<Rightarrow> False)"

definition isNonDomesticStockCode :: "string option \<Rightarrow> bool" where
  "isNonDomesticStockCode v = (case v of
     Some c \<Rightarrow> c \<noteq> [] \<and> (isIndexWorkareaCode (Some c) \<or> starts_with ''us-stock:'' c) | None \<Rightarrow> False)"

definition alnum :: "char \<Rightarrow> bool" where
  "alnum c \<longleftrightarrow> (let n = of_char c :: nat in
     97 \<le> n \<and> n \<le> 122 \<or> 65 \<le> n \<and> n \<le> 90 \<or> 48 \<le> n \<and> n \<le> 57)"

text \<open>\<open>/^[A-Za-z0-9][A-Za-z0-9._-]{0,19}$/\<close>\<close>

definition us_symbol :: "string \<Rightarrow> bool" where
  "us_symbol s = (case s of [] \<Rightarrow> False
     | c # r \<Rightarrow> alnum c \<and> length r \<le> 19
         \<and> list_all (\<lambda>d. alnum d \<or> d = CHR ''.'' \<or> d = CHR ''_'' \<or> d = CHR ''-'') r)"

text \<open>\<open>isLiveInstrument\<close> narrows a stored value; here it gives the instrument.\<close>

definition isLiveInstrument :: "json option \<Rightarrow> LiveInstrument option" where
  "isLiveInstrument v = (case v of
     Some o' \<Rightarrow>
       let str = (\<lambda>k. json_str (member o' k)) in
       if str ''kind'' = Some ''us_stock'' then
         (case (Option.bind (str ''exchange'') isUsExchange, str ''symbol'', str ''label'') of
            (Some ex, Some s, Some l) \<Rightarrow> if us_symbol s then Some (UsStock ex s l) else None
          | _ \<Rightarrow> None)
       else if str ''kind'' = Some ''stock'' then
         (case (str ''code'', str ''label'') of (Some c, Some l) \<Rightarrow> Some (Stock c l) | _ \<Rightarrow> None)
       else if str ''kind'' = Some ''index'' then
         (case (str ''id'', str ''label'') of
            (Some i, Some l) \<Rightarrow> if isLiveIndexId i then Some (Index i l) else None | _ \<Rightarrow> None)
       else None
   | None \<Rightarrow> None)"

definition isUsInstrument :: "LiveInstrument option \<Rightarrow> bool" where
  "isUsInstrument v = (case v of Some (UsStock _ _ _) \<Rightarrow> True | Some (Index i _) \<Rightarrow> isUsIndexId i | _ \<Rightarrow> False)"

definition usStockFromKey :: "string \<Rightarrow> string option \<Rightarrow> LiveInstrument option" where
  "usStockFromKey k label = (case split_colon k of
     [_, ex, s] \<Rightarrow>
       (case isUsExchange ex of
          Some e \<Rightarrow> if starts_with ''us-stock:'' k \<and> us_symbol s then Some (usStockInstrument e s label) else None
        | None \<Rightarrow> None)
   | _ \<Rightarrow> None)"

subsection \<open>Keys name instruments\<close>

lemma split_colon_none: "CHR '':'' \<notin> set s \<Longrightarrow> split_colon s = [s]"
  by (induction s) (auto split: list.splits)

lemma split_colon_sep: "CHR '':'' \<notin> set a \<Longrightarrow> split_colon (a @ CHR '':'' # s) = a # split_colon s"
  by (induction a) (auto split: list.splits)

lemma split_colon_nonempty: "split_colon s \<noteq> []"
  by (induction s) (auto split: list.splits)

fun glue :: "string list \<Rightarrow> string" where
  "glue [] = []" | "glue [w] = w" | "glue (w # ws) = w @ CHR '':'' # glue ws"

lemma glue_split: "glue (split_colon s) = s"
proof (induction s)
  case (Cons c s)
  then show ?case using split_colon_nonempty [of s]
    by (cases "split_colon s"; cases "tl (split_colon s)") auto
qed simp

lemma us_symbol_no_colon: "us_symbol s \<Longrightarrow> CHR '':'' \<notin> set s"
  by (cases s) (auto simp: us_symbol_def alnum_def Let_def list_all_iff)

lemma exchange_no_colon: "CHR '':'' \<notin> set (exchange_text e)"
  by (cases e) simp_all

lemma isUsExchange_iff: "isUsExchange s = Some e \<longleftrightarrow> s = exchange_text e"
  by (cases e) (auto simp: isUsExchange_def)

lemma usStockFromKey_key:
  assumes "us_symbol s"
  shows "usStockFromKey (usStockKey e s) l = Some (usStockInstrument e s l)"
proof -
  have "split_colon (''us-stock'' @ CHR '':'' # (exchange_text e @ CHR '':'' # s)) = [''us-stock'', exchange_text e, s]"
    using split_colon_sep [of "''us-stock''"] split_colon_sep [OF exchange_no_colon]
      split_colon_none [OF us_symbol_no_colon [OF assms]] by simp
  moreover have "isUsExchange (exchange_text e) = Some e" by (simp add: isUsExchange_iff)
  ultimately show ?thesis using assms by (simp add: usStockFromKey_def usStockKey_def starts_with_def)
qed

lemma usStockFromKey_inv:
  assumes "usStockFromKey k l = Some i"
  shows "\<exists>e s. i = usStockInstrument e s l \<and> k = usStockKey e s \<and> us_symbol s"
proof -
  obtain p ex s e where sp: "split_colon k = [p, ex, s]" and e: "isUsExchange ex = Some e"
    and g: "starts_with ''us-stock:'' k" "us_symbol s" "i = usStockInstrument e s l"
    using assms by (auto simp: usStockFromKey_def split: list.splits option.splits if_splits)
  have k: "k = p @ CHR '':'' # ex @ CHR '':'' # s" using glue_split [of k] sp by simp
  have "length ''us-stock:'' = 9" by simp
  then have "k = ''us-stock'' @ CHR '':'' # drop 9 k"
    using g(1) append_take_drop_id [of 9 k] unfolding starts_with_def by (metis append_Cons append_Nil)
  then have "split_colon k = ''us-stock'' # split_colon (drop 9 k)"
    using split_colon_sep [of "''us-stock''" "drop 9 k"] by simp
  then have "p = ''us-stock''" using sp by simp
  moreover have "ex = exchange_text e" using e by (simp add: isUsExchange_iff)
  ultimately show ?thesis using k g(2,3) by (auto simp: usStockKey_def)
qed

fun same_instrument :: "LiveInstrument \<Rightarrow> LiveInstrument \<Rightarrow> bool" where
  "same_instrument (UsStock e s _) (UsStock f t _) \<longleftrightarrow> e = f \<and> s = t"
| "same_instrument (Stock c _) (Stock d _) \<longleftrightarrow> c = d"
| "same_instrument (Index i _) (Index j _) \<longleftrightarrow> i = j"
| "same_instrument _ _ \<longleftrightarrow> False"

lemma usStockKey_inject: "usStockKey e s = usStockKey f t \<longleftrightarrow> e = f \<and> s = t"
  by (cases e; cases f) (simp_all add: usStockKey_def)

lemma subject_key_same: "instrumentToSubjectKey a = instrumentToSubjectKey b \<longleftrightarrow> same_instrument a b"
  by (cases a; cases b) (auto simp: usStockKey_inject, simp_all add: usStockKey_def)

text \<open>
  The subscription keys identify instruments: two instruments with the same key differ at most in
  their label, and the keys that read back as a US stock are exactly the keys of well-formed US
  symbols, read back to the same exchange and symbol.
\<close>

lemma subject_keys_identify:
  "(instrumentToSubjectKey a = instrumentToSubjectKey b \<longleftrightarrow> same_instrument a b)
   \<and> (usStockFromKey k l = Some i \<longleftrightarrow>
        (\<exists>e s. us_symbol s \<and> k = instrumentToSubjectKey (UsStock e s []) \<and> i = usStockInstrument e s l))"
  using subject_key_same [of a b] usStockFromKey_inv [of k l i] usStockFromKey_key by auto

end
