(* ===== verification/WorkspaceState.thy ===== *)
theory WorkspaceState
  imports OrderSettings Instruments SnapEngine
begin

section \<open>The live workspace: state and stored form\<close>

text \<open>
  The data of \<open>state/workspace.ts\<close> with the modules it reads it through: \<open>workspace/groupId.ts\<close>,
  \<open>workspace/zOrder.ts\<close>, \<open>state/persist.ts\<close>, \<open>state/workspaceTransfer.ts\<close>, \<open>state/liveDefaultLayout.ts\<close>
  and \<open>state/workspaceMigration.ts\<close>. Every reader takes the untyped JSON of the storage; what
  \<open>JSON.stringify\<close> writes is defined next to it, and the codec interface states that the two agree.
  Coordinates and numbers are rationals. An absent property is \<open>None\<close>.
\<close>

subsection \<open>Types\<close>

datatype WindowKind = ChartWindow | BookWindow | OrderWindow | AccountFills | BrokerWindow | TradeWindow
  | ProgramTradeWindow | VdistWindow | ProgramWindow | InvestorWindow | InvestorDailyWindow | NewsWindow
  | SectorRankingWindow | MarketIndicesWindow

fun kind_text :: "WindowKind \<Rightarrow> string" where
  "kind_text ChartWindow = ''chart''" | "kind_text BookWindow = ''book''" | "kind_text OrderWindow = ''order''"
| "kind_text AccountFills = ''account-fills''" | "kind_text BrokerWindow = ''broker''"
| "kind_text TradeWindow = ''trade''" | "kind_text ProgramTradeWindow = ''program-trade''"
| "kind_text VdistWindow = ''vdist''" | "kind_text ProgramWindow = ''program''"
| "kind_text InvestorWindow = ''investor''" | "kind_text InvestorDailyWindow = ''investor-daily''"
| "kind_text NewsWindow = ''news''" | "kind_text SectorRankingWindow = ''sector-ranking''"
| "kind_text MarketIndicesWindow = ''market-indices''"

definition WINDOW_KINDS :: "WindowKind list" where
  "WINDOW_KINDS = [ChartWindow, BookWindow, OrderWindow, AccountFills, BrokerWindow, TradeWindow,
     ProgramTradeWindow, VdistWindow, ProgramWindow, InvestorWindow, InvestorDailyWindow, NewsWindow,
     SectorRankingWindow, MarketIndicesWindow]"

datatype SymbolKind = StockSymbol | IndexSymbol | UsStockSymbol

record GroupSymbol =
  sym_code :: string
  sym_name :: string
  sym_kind :: "SymbolKind option"

text \<open>\<open>TradingAccountId\<close>: an old numeric id or an \<open>acc_\<close> key.\<close>

datatype TradingAccountId = AccountNumber rat | AccountKey string

record ChartWindowConfig =
  chart_timeframe :: LiveTimeframe
  lastMinuteTimeframe :: "LiveTimeframe option"
  indicatorLegendsVisible :: "bool option"
  hoverLinked :: "bool option"
  regularSessionOnly :: "bool option"

datatype OrderSide = AllSides | Buy | Sell

record ExecutionWindowConfig =
  sourceOrderId :: "string option"
  ex_account :: "TradingAccountId option"
  ex_symbol :: "GroupSymbol option"
  ex_side :: "OrderSide option"
  currentSymbolOnly :: "bool option"

type_synonym GroupId = nat

record WorkspaceWindow =
  w_id :: string
  w_kind :: WindowKind
  w_group :: GroupId
  w_rect :: Rect
  w_chart :: "ChartWindowConfig option"
  w_order :: "OrderWindowSettings option"
  orderAccount :: "TradingAccountId option"
  executionHistory :: "ExecutionWindowConfig option"
  tradeMinAmountManwon :: "rat option"
  newsLinkedOnly :: "bool option"
  alwaysOnTop :: "bool option"
  pinned :: "GroupSymbol option"

record Persisted =
  pendingTransferPinIds :: "string list option"
  windows :: "WorkspaceWindow list"
  zOrder :: "string list"
  groupSymbols :: "GroupId \<Rightarrow> GroupSymbol option"

definition plain_window :: "string \<Rightarrow> WindowKind \<Rightarrow> GroupId \<Rightarrow> Rect \<Rightarrow> WorkspaceWindow" where
  "plain_window i k g r = \<lparr>w_id = i, w_kind = k, w_group = g, w_rect = r, w_chart = None, w_order = None,
     orderAccount = None, executionHistory = None, tradeMinAmountManwon = None, newsLinkedOnly = None,
     alwaysOnTop = None, pinned = None\<rparr>"

subsection \<open>workspace/groupId.ts and workspace/zOrder.ts\<close>

definition MIN_GROUP :: nat where "MIN_GROUP = 1"
definition MAX_GROUP :: nat where "MAX_GROUP = 10"

definition GROUP_IDS :: "GroupId list" where "GROUP_IDS = [MIN_GROUP ..< Suc MAX_GROUP]"

definition isGroupId :: "rat \<Rightarrow> bool" where
  "isGroupId v \<longleftrightarrow> is_integer v \<and> of_nat MIN_GROUP \<le> v \<and> v \<le> of_nat MAX_GROUP"

definition read_group :: "rat \<Rightarrow> GroupId option" where
  "read_group v = (if isGroupId v then Some (nat \<lfloor>v\<rfloor>) else None)"

definition normalizeZOrder :: "json option \<Rightarrow> WorkspaceWindow list \<Rightarrow> string list" where
  "normalizeZOrder raw ws =
     (let ids = set (map w_id ws);
          kept = (case json_arr raw of Some es \<Rightarrow> foldl (key_step (\<lambda>i. i \<in> ids)) [] es | None \<Rightarrow> [])
      in kept @ filter (\<lambda>i. i \<notin> set kept) (map w_id ws))"

definition windowStackOrder :: "string list \<Rightarrow> WorkspaceWindow list \<Rightarrow> string list" where
  "windowStackOrder z ws =
     (let top = set (map w_id (filter (\<lambda>w. alwaysOnTop w = Some True) ws))
      in filter (\<lambda>i. i \<notin> top) z @ filter (\<lambda>i. i \<in> top) z)"

subsection \<open>Readers\<close>

definition isWindowKind :: "json option \<Rightarrow> WindowKind option" where
  "isWindowKind v = (case json_str v of
     Some s \<Rightarrow> find (\<lambda>k. kind_text k = s) WINDOW_KINDS | None \<Rightarrow> None)"

definition hex_digit :: "char \<Rightarrow> bool" where
  "hex_digit c \<longleftrightarrow> is_digit c \<or> (let n = of_char c :: nat in 97 \<le> n \<and> n \<le> 102)"

definition validTradingAccount :: "json option \<Rightarrow> TradingAccountId option" where
  "validTradingAccount v = (case v of
     Some (JNum n) \<Rightarrow> if is_safe_integer n \<and> 0 < n then Some (AccountNumber n) else None
   | Some (JStr s) \<Rightarrow> if starts_with ''acc_'' s \<and> length s = 36 \<and> list_all hex_digit (drop 4 s)
       then Some (AccountKey s) else None
   | _ \<Rightarrow> None)"

text \<open>\<open>/^us-stock:(NASDAQ|NYSE|AMEX):\<dots>/\<close>: with the symbol, and the prefix alone.\<close>

definition us_stock_prefix :: "string \<Rightarrow> bool" where
  "us_stock_prefix c \<longleftrightarrow> (\<exists>e \<in> set [NASDAQ, NYSE, AMEX]. starts_with (usStockKey e []) c)"

definition us_stock_code :: "string \<Rightarrow> bool" where
  "us_stock_code c \<longleftrightarrow> (\<exists>e \<in> set [NASDAQ, NYSE, AMEX].
     starts_with (usStockKey e []) c \<and> us_symbol (drop (length (usStockKey e [])) c))"

definition readSymbol :: "json option \<Rightarrow> GroupSymbol option" where
  "readSymbol raw = (case raw of
     Some s \<Rightarrow>
       (case (json_str (member s ''code''), json_str (member s ''name'')) of
          (Some c, Some n) \<Rightarrow>
            if json_str (member s ''kind'') = Some ''us_stock'' then
              (if us_stock_code c then Some \<lparr>sym_code = c, sym_name = n, sym_kind = Some UsStockSymbol\<rparr> else None)
            else Some \<lparr>sym_code = c, sym_name = n, sym_kind =
              (if json_str (member s ''kind'') = Some ''index'' \<and> isLiveIndexId c then Some IndexSymbol else None)\<rparr>
        | _ \<Rightarrow> None)
   | None \<Rightarrow> None)"

definition readRect :: "json option \<Rightarrow> bool \<Rightarrow> Rect option" where
  "readRect raw legacyPx = (case raw of
     Some r \<Rightarrow>
       (case (json_num (member r ''x''), json_num (member r ''y''), json_num (member r ''w''), json_num (member r ''h'')) of
          (Some x, Some y, Some w, Some h) \<Rightarrow>
            if legacyPx then Some \<lparr>rx = x, ry = y, rw = max MIN_W w, rh = max MIN_H h\<rparr>
            else let q = \<lparr>rx = x, ry = y, rw = w, rh = h\<rparr> in if isFracRect q then Some q else None
        | _ \<Rightarrow> None)
   | None \<Rightarrow> None)"

definition readExecutionConfig :: "json option \<Rightarrow> bool \<Rightarrow> ExecutionWindowConfig" where
  "readExecutionConfig raw keepAccount =
     (let get = (\<lambda>k. case raw of Some v \<Rightarrow> member v k | None \<Rightarrow> None) in
      \<lparr>sourceOrderId = json_str (get ''sourceOrderId''),
       ex_account = (if keepAccount then validTradingAccount (get ''account'') else None),
       ex_symbol = (if keepAccount then readSymbol (get ''symbol'') else None),
       ex_side = Some (if json_str (get ''side'') = Some ''BUY'' then Buy
                       else if json_str (get ''side'') = Some ''SELL'' then Sell else AllSides),
       currentSymbolOnly = Some (json_bool (get ''currentSymbolOnly'') = Some True)\<rparr>)"

definition readChart :: "json option \<Rightarrow> ChartWindowConfig" where
  "readChart raw =
     (let get = (\<lambda>k. case raw of Some v \<Rightarrow> member v k | None \<Rightarrow> None);
          tf = (case isLiveTimeframe (get ''timeframe'') of Some t \<Rightarrow> t | None \<Rightarrow> M1)
      in \<lparr>chart_timeframe = tf,
          lastMinuteTimeframe = (case isMinuteFrameValue (get ''lastMinuteTimeframe'') of
              Some t \<Rightarrow> Some t | None \<Rightarrow> if isMinuteTimeframe tf then Some tf else None),
          indicatorLegendsVisible = json_bool (get ''indicatorLegendsVisible''),
          hoverLinked = json_bool (get ''hoverLinked''),
          regularSessionOnly = json_bool (get ''regularSessionOnly'')\<rparr>)"

definition order_reader :: "json option \<Rightarrow> OrderWindowSettings option" where
  "order_reader v = (if v \<noteq> None \<and> v \<noteq> Some JNull then Some (normalizeOrderSettings v) else None)"

definition amount_reader :: "json option \<Rightarrow> rat option" where
  "amount_reader v = (case json_num v of Some a \<Rightarrow> if isTradeMinAmountManwon a then Some a else None | None \<Rightarrow> None)"

definition readWindow :: "json \<Rightarrow> bool \<Rightarrow> bool \<Rightarrow> WorkspaceWindow option" where
  "readWindow raw legacyPx keepPin =
     (let get = member raw in
      case (json_str (get ''id''), isWindowKind (get ''kind''), Option.bind (json_num (get ''group'')) read_group) of
        (Some i, Some k, Some g) \<Rightarrow>
          (case readRect (get ''rect'') legacyPx of
             None \<Rightarrow> None
           | Some r \<Rightarrow> Some \<lparr>w_id = i, w_kind = k, w_group = g, w_rect = r,
               w_chart = (if k = ChartWindow then Some (readChart (get ''chart'')) else None),
               w_order = (if k = OrderWindow then order_reader (get ''order'') else None),
               orderAccount = (if keepPin \<and> k = OrderWindow then validTradingAccount (get ''orderAccount'') else None),
               executionHistory = (if k = AccountFills
                  then Some (readExecutionConfig (get ''executionHistory'') keepPin) else None),
               tradeMinAmountManwon = (if k = TradeWindow then amount_reader (get ''tradeMinAmountManwon'') else None),
               newsLinkedOnly = (if k = NewsWindow then json_bool (get ''newsLinkedOnly'') else None),
               alwaysOnTop = (if json_bool (get ''alwaysOnTop'') = Some True then Some True else None),
               pinned = (if keepPin \<and> k \<noteq> MarketIndicesWindow \<and> k \<noteq> AccountFills
                  then readSymbol (get ''pinned'') else None)\<rparr>)
      | _ \<Rightarrow> None)"

text \<open>
  \<open>Number(key)\<close> on a property name: blanks around, a hexadecimal, octal or binary literal, or a
  decimal literal with fraction and exponent; \<open>NaN\<close> and the infinities are \<open>None\<close>, which no
  group check accepts either.
\<close>

definition radix_value :: "nat \<Rightarrow> string \<Rightarrow> rat option" where
  "radix_value base s =
     (let digit = (\<lambda>c. let n = of_char c :: nat in
        if is_digit c then n - 48 else if 97 \<le> n \<and> n \<le> 102 then n - 87 else if 65 \<le> n \<and> n \<le> 70 then n - 55 else 99)
      in if s \<noteq> [] \<and> list_all (\<lambda>c. digit c < base) s
         then Some (of_nat (foldl (\<lambda>acc c. acc * base + digit c) 0 s)) else None)"

definition decimal_value :: "string \<Rightarrow> rat option" where
  "decimal_value s =
     (let whole = takeWhile is_digit s; r1 = dropWhile is_digit s;
          (frac, r2) = (case r1 of c # r \<Rightarrow> if c = CHR ''.'' then (takeWhile is_digit r, dropWhile is_digit r) else ([], r1)
                        | [] \<Rightarrow> ([], []));
          expo = (case r2 of [] \<Rightarrow> Some 0
             | c # r \<Rightarrow> if c \<noteq> CHR ''e'' \<and> c \<noteq> CHR ''E'' then None
                 else (case r of [] \<Rightarrow> None
                   | d # q \<Rightarrow> if d = CHR ''-'' then (if q = [] then None else map_option uminus (js_number q))
                       else if d = CHR ''+'' then (if q = [] then None else js_number q) else js_number r))
      in if whole = [] \<and> frac = [] then None
         else case (js_number (whole @ frac), expo) of
             (Some m, Some e) \<Rightarrow> let e' = e - int (length frac) in
               Some (if 0 \<le> e' then of_int m * 10 ^ nat e' else of_int m / 10 ^ nat (- e'))
           | _ \<Rightarrow> None)"

definition js_Number :: "string \<Rightarrow> rat option" where
  "js_Number s =
     (let t = rev (dropWhile is_blank (rev (dropWhile is_blank s))) in
      case t of
        [] \<Rightarrow> Some 0
      | c # r \<Rightarrow>
          if starts_with ''0x'' t \<or> starts_with ''0X'' t then radix_value 16 (drop 2 t)
          else if starts_with ''0o'' t \<or> starts_with ''0O'' t then radix_value 8 (drop 2 t)
          else if starts_with ''0b'' t \<or> starts_with ''0B'' t then radix_value 2 (drop 2 t)
          else if c = CHR ''-'' then map_option uminus (decimal_value r)
          else if c = CHR ''+'' then decimal_value r else decimal_value t)"

definition group_entry :: "(GroupId \<Rightarrow> GroupSymbol option) \<Rightarrow> string \<times> json \<Rightarrow> (GroupId \<Rightarrow> GroupSymbol option)" where
  "group_entry out e = (case Option.bind (js_Number (fst e)) read_group of
     None \<Rightarrow> out
   | Some g \<Rightarrow> (case readSymbol (Some (snd e)) of None \<Rightarrow> out | Some s \<Rightarrow> out(g \<mapsto> s)))"

definition readGroupSymbols :: "json option \<Rightarrow> GroupId \<Rightarrow> GroupSymbol option" where
  "readGroupSymbols raw = (case raw of Some v \<Rightarrow> foldl group_entry (\<lambda>_. None) (entries_of v) | None \<Rightarrow> (\<lambda>_. None))"

subsection \<open>What is written\<close>

definition symbol_json :: "GroupSymbol \<Rightarrow> json" where
  "symbol_json s = JObj ([(''code'', JStr (sym_code s)), (''name'', JStr (sym_name s))]
     @ opt_member ''kind'' (\<lambda>k. JStr (case k of StockSymbol \<Rightarrow> ''stock'' | IndexSymbol \<Rightarrow> ''index'' | UsStockSymbol \<Rightarrow> ''us_stock''))
         (sym_kind s))"

definition account_json :: "TradingAccountId \<Rightarrow> json" where
  "account_json a = (case a of AccountNumber n \<Rightarrow> JNum n | AccountKey s \<Rightarrow> JStr s)"

definition rect_json :: "Rect \<Rightarrow> json" where
  "rect_json r = JObj [(''x'', JNum (rx r)), (''y'', JNum (ry r)), (''w'', JNum (rw r)), (''h'', JNum (rh r))]"

definition chart_json :: "ChartWindowConfig \<Rightarrow> json" where
  "chart_json c = JObj ([(''timeframe'', JStr (timeframe_text (chart_timeframe c)))]
     @ opt_member ''lastMinuteTimeframe'' (\<lambda>t. JStr (timeframe_text t)) (lastMinuteTimeframe c)
     @ opt_member ''indicatorLegendsVisible'' JBool (indicatorLegendsVisible c)
     @ opt_member ''hoverLinked'' JBool (hoverLinked c)
     @ opt_member ''regularSessionOnly'' JBool (regularSessionOnly c))"

definition side_text :: "OrderSide \<Rightarrow> string" where
  "side_text s = (case s of AllSides \<Rightarrow> ''ALL'' | Buy \<Rightarrow> ''BUY'' | Sell \<Rightarrow> ''SELL'')"

definition history_json :: "ExecutionWindowConfig \<Rightarrow> json" where
  "history_json h = JObj (opt_member ''sourceOrderId'' JStr (sourceOrderId h)
     @ opt_member ''account'' account_json (ex_account h)
     @ opt_member ''symbol'' symbol_json (ex_symbol h)
     @ opt_member ''side'' (\<lambda>s. JStr (side_text s)) (ex_side h)
     @ opt_member ''currentSymbolOnly'' JBool (currentSymbolOnly h))"

definition window_json :: "WorkspaceWindow \<Rightarrow> json" where
  "window_json w = JObj ([(''id'', JStr (w_id w)), (''kind'', JStr (kind_text (w_kind w))),
      (''group'', JNum (of_nat (w_group w))), (''rect'', rect_json (w_rect w))]
     @ opt_member ''chart'' chart_json (w_chart w)
     @ opt_member ''order'' order_json (w_order w)
     @ opt_member ''orderAccount'' account_json (orderAccount w)
     @ opt_member ''executionHistory'' history_json (executionHistory w)
     @ opt_member ''tradeMinAmountManwon'' JNum (tradeMinAmountManwon w)
     @ opt_member ''newsLinkedOnly'' JBool (newsLinkedOnly w)
     @ opt_member ''alwaysOnTop'' JBool (alwaysOnTop w)
     @ opt_member ''pinned'' symbol_json (pinned w))"

definition groups_json :: "(GroupId \<Rightarrow> GroupSymbol option) \<Rightarrow> json" where
  "groups_json g = JObj (concat (map (\<lambda>i. opt_member (nat_text i) symbol_json (g i)) GROUP_IDS))"

definition WORKSPACE_SCHEMA_VERSION :: rat where "WORKSPACE_SCHEMA_VERSION = 2"

text \<open>The snapshot of \<open>persistFromState\<close>; an empty list of pending pins is left out.\<close>

definition snapshot_json :: "'a Persisted_scheme \<Rightarrow> json" where
  "snapshot_json s = JObj ([(''schema_version'', JNum WORKSPACE_SCHEMA_VERSION)]
     @ opt_member ''pendingTransferPinIds'' (\<lambda>ids. JArr (map JStr ids))
         (if pendingTransferPinIds s = Some [] then None else pendingTransferPinIds s)
     @ [(''windows'', JArr (map window_json (windows s))), (''zOrder'', JArr (map JStr (zOrder s))),
        (''groupSymbols'', groups_json (groupSymbols s))])"

subsection \<open>Reading back what was written: the interface\<close>

text \<open>
  A codec writes a value as JSON and reads a possibly absent member; on acceptable values reading
  inverts writing. Optional members and lists of a codec read back as they were.
\<close>

locale codec =
  fixes enc :: "'a \<Rightarrow> json" and dec :: "json option \<Rightarrow> 'a option" and ok :: "'a \<Rightarrow> bool"
  assumes decode_absent: "dec None = None"
    and decode_encode: "ok x \<Longrightarrow> dec (Some (enc x)) = Some x"
begin

lemma optional: "pred_option ok v \<Longrightarrow> dec (map_option enc v) = v"
  by (cases v) (simp_all add: decode_absent decode_encode)

lemma listed: "list_all ok xs \<Longrightarrow> List.map_filter (\<lambda>j. dec (Some j)) (map enc xs) = xs"
  by (induction xs) (simp_all add: List.map_filter_def decode_encode)

end

interpretation text_codec: codec JStr json_str "\<lambda>_. True"
  by unfold_locales simp_all

interpretation flag_codec: codec JBool json_bool "\<lambda>_. True"
  by unfold_locales simp_all

interpretation timeframe_codec: codec "\<lambda>t. JStr (timeframe_text t)" isLiveTimeframe "\<lambda>_. True"
  by unfold_locales simp_all

interpretation minute_codec: codec "\<lambda>t. JStr (timeframe_text t)" isMinuteFrameValue isMinuteTimeframe
  by unfold_locales simp_all

definition account_ok :: "TradingAccountId \<Rightarrow> bool" where
  "account_ok a \<longleftrightarrow> validTradingAccount (Some (account_json a)) = Some a"

interpretation account_codec: codec account_json validTradingAccount account_ok
  by unfold_locales (simp_all add: account_ok_def validTradingAccount_def)

definition symbol_ok :: "GroupSymbol \<Rightarrow> bool" where
  "symbol_ok s \<longleftrightarrow> (case sym_kind s of None \<Rightarrow> True | Some StockSymbol \<Rightarrow> False
     | Some IndexSymbol \<Rightarrow> isLiveIndexId (sym_code s) | Some UsStockSymbol \<Rightarrow> us_stock_code (sym_code s))"

lemma readSymbol_stored: "symbol_ok s \<Longrightarrow> readSymbol (Some (symbol_json s)) = Some s"
  by (cases s)
    (auto simp: readSymbol_def symbol_json_def symbol_ok_def opt_member_def split: option.splits SymbolKind.splits)

interpretation symbol_codec: codec symbol_json readSymbol symbol_ok
  by unfold_locales (simp_all add: readSymbol_stored, simp add: readSymbol_def)

interpretation rect_codec: codec rect_json "\<lambda>v. readRect v False" isFracRect
  by unfold_locales (simp_all add: readRect_def rect_json_def Let_def isFracRect_def)

lemma read_back [simp]:
  "json_str (map_option JStr s) = s" "json_bool (map_option JBool b) = b" "json_num (map_option JNum n) = n"
  using text_codec.optional [of s] flag_codec.optional [of b] by (simp_all add: option.pred_True, cases n) simp_all

subsection \<open>Windows read back\<close>

text \<open>
  Reading fills in defaults: the last minute timeframe of a minute chart, the side and the filter of
  an execution window; and an explicit \<open>alwaysOnTop: false\<close> becomes absent. \<open>settle\<close> is a
  window with its defaults filled in.
\<close>

definition settle_chart :: "ChartWindowConfig \<Rightarrow> ChartWindowConfig" where
  "settle_chart c = c\<lparr>lastMinuteTimeframe := (case lastMinuteTimeframe c of Some t \<Rightarrow> Some t
     | None \<Rightarrow> if isMinuteTimeframe (chart_timeframe c) then Some (chart_timeframe c) else None)\<rparr>"

definition settle_history :: "ExecutionWindowConfig option \<Rightarrow> ExecutionWindowConfig" where
  "settle_history v = (case v of
     None \<Rightarrow> \<lparr>sourceOrderId = None, ex_account = None, ex_symbol = None, ex_side = Some AllSides, currentSymbolOnly = Some False\<rparr>
   | Some h \<Rightarrow> h\<lparr>ex_side := Some (case ex_side h of Some s \<Rightarrow> s | None \<Rightarrow> AllSides),
       currentSymbolOnly := Some (currentSymbolOnly h = Some True)\<rparr>)"

definition settle :: "WorkspaceWindow \<Rightarrow> WorkspaceWindow" where
  "settle w = w\<lparr>w_chart := map_option settle_chart (w_chart w),
     executionHistory := (if w_kind w = AccountFills then Some (settle_history (executionHistory w)) else None),
     alwaysOnTop := (if alwaysOnTop w = Some True then Some True else None)\<rparr>"

definition history_ok :: "ExecutionWindowConfig \<Rightarrow> bool" where
  "history_ok h \<longleftrightarrow> pred_option account_ok (ex_account h) \<and> pred_option symbol_ok (ex_symbol h)"

text \<open>The windows the storage can hold: every property belongs to the kind and passes its own check.\<close>

definition storable :: "WorkspaceWindow \<Rightarrow> bool" where
  "storable w \<longleftrightarrow> w_group w \<in> set GROUP_IDS \<and> isFracRect (w_rect w)
     \<and> (w_chart w \<noteq> None \<longleftrightarrow> w_kind w = ChartWindow)
     \<and> pred_option (\<lambda>c. pred_option isMinuteTimeframe (lastMinuteTimeframe c)) (w_chart w)
     \<and> (w_order w \<noteq> None \<longrightarrow> w_kind w = OrderWindow) \<and> pred_option settings_ok (w_order w)
     \<and> (orderAccount w \<noteq> None \<longrightarrow> w_kind w = OrderWindow) \<and> pred_option account_ok (orderAccount w)
     \<and> (executionHistory w \<noteq> None \<longrightarrow> w_kind w = AccountFills) \<and> pred_option history_ok (executionHistory w)
     \<and> (tradeMinAmountManwon w \<noteq> None \<longrightarrow> w_kind w = TradeWindow)
     \<and> pred_option isTradeMinAmountManwon (tradeMinAmountManwon w)
     \<and> (newsLinkedOnly w \<noteq> None \<longrightarrow> w_kind w = NewsWindow)
     \<and> (pinned w \<noteq> None \<longrightarrow> w_kind w \<noteq> MarketIndicesWindow \<and> w_kind w \<noteq> AccountFills)
     \<and> pred_option symbol_ok (pinned w)"

lemma chart_members [simp]:
  "member (chart_json c) ''timeframe'' = Some (JStr (timeframe_text (chart_timeframe c)))"
  "member (chart_json c) ''lastMinuteTimeframe'' = map_option (\<lambda>t. JStr (timeframe_text t)) (lastMinuteTimeframe c)"
  "member (chart_json c) ''indicatorLegendsVisible'' = map_option JBool (indicatorLegendsVisible c)"
  "member (chart_json c) ''hoverLinked'' = map_option JBool (hoverLinked c)"
  "member (chart_json c) ''regularSessionOnly'' = map_option JBool (regularSessionOnly c)"
  by (simp_all add: chart_json_def map_of_opt_member del: map_of_append)

lemma readChart_stored:
  "pred_option isMinuteTimeframe (lastMinuteTimeframe c) \<Longrightarrow> readChart (Some (chart_json c)) = settle_chart c"
  by (cases c)
    (simp add: readChart_def settle_chart_def minute_codec.optional split: option.splits)

lemma history_members [simp]:
  "member (history_json h) ''sourceOrderId'' = map_option JStr (sourceOrderId h)"
  "member (history_json h) ''account'' = map_option account_json (ex_account h)"
  "member (history_json h) ''symbol'' = map_option symbol_json (ex_symbol h)"
  "member (history_json h) ''side'' = map_option (\<lambda>s. JStr (side_text s)) (ex_side h)"
  "member (history_json h) ''currentSymbolOnly'' = map_option JBool (currentSymbolOnly h)"
  by (simp_all add: history_json_def map_of_opt_member del: map_of_append)

lemma readHistory_stored:
  "pred_option history_ok h \<Longrightarrow> readExecutionConfig (map_option history_json h) True = settle_history h"
  by (cases h)
    (auto simp: readExecutionConfig_def settle_history_def history_ok_def
      account_codec.optional symbol_codec.optional account_codec.decode_absent symbol_codec.decode_absent side_text_def
      split: option.splits OrderSide.splits)

lemma window_members [simp]:
  "member (window_json w) ''id'' = Some (JStr (w_id w))"
  "member (window_json w) ''kind'' = Some (JStr (kind_text (w_kind w)))"
  "member (window_json w) ''group'' = Some (JNum (of_nat (w_group w)))"
  "member (window_json w) ''rect'' = Some (rect_json (w_rect w))"
  "member (window_json w) ''chart'' = map_option chart_json (w_chart w)"
  "member (window_json w) ''order'' = map_option order_json (w_order w)"
  "member (window_json w) ''orderAccount'' = map_option account_json (orderAccount w)"
  "member (window_json w) ''executionHistory'' = map_option history_json (executionHistory w)"
  "member (window_json w) ''tradeMinAmountManwon'' = map_option JNum (tradeMinAmountManwon w)"
  "member (window_json w) ''newsLinkedOnly'' = map_option JBool (newsLinkedOnly w)"
  "member (window_json w) ''alwaysOnTop'' = map_option JBool (alwaysOnTop w)"
  "member (window_json w) ''pinned'' = map_option symbol_json (pinned w)"
  by (simp_all add: window_json_def map_of_opt_member del: map_of_append)

lemma isWindowKind_text [simp]: "isWindowKind (Some (JStr (kind_text k))) = Some k"
  by (cases k) (simp_all add: isWindowKind_def WINDOW_KINDS_def)

lemma read_group_stored: "g \<in> set GROUP_IDS \<Longrightarrow> read_group (of_nat g) = Some g"
  by (auto simp: read_group_def isGroupId_def GROUP_IDS_def is_integer_def MIN_GROUP_def MAX_GROUP_def)

interpretation order_codec: codec order_json order_reader settings_ok
  by unfold_locales (simp_all add: order_reader_def order_settings_stored, simp add: order_json_def)

interpretation amount_codec: codec JNum amount_reader isTradeMinAmountManwon
  by unfold_locales (simp_all add: amount_reader_def)

text \<open>What is stored of a window the storage can hold is read back with its defaults filled in.\<close>

lemma readWindow_stored:
  assumes "storable w"
  shows "readWindow (window_json w) False True = Some (settle w)"
proof -
  note s = assms [unfolded storable_def]
  have parts: "readRect (Some (rect_json (w_rect w))) False = Some (w_rect w)"
    "read_group (of_nat (w_group w)) = Some (w_group w)"
    "validTradingAccount (map_option account_json (orderAccount w)) = orderAccount w"
    "order_reader (map_option order_json (w_order w)) = w_order w"
    "amount_reader (map_option JNum (tradeMinAmountManwon w)) = tradeMinAmountManwon w"
    "readSymbol (map_option symbol_json (pinned w)) = pinned w"
    "readExecutionConfig (map_option history_json (executionHistory w)) True = settle_history (executionHistory w)"
    "w_chart w = Some c \<Longrightarrow> readChart (Some (chart_json c)) = settle_chart c" for c
    using s by (simp_all add: rect_codec.decode_encode read_group_stored account_codec.optional
        order_codec.optional amount_codec.optional symbol_codec.optional readHistory_stored readChart_stored)
  have r: "readWindow (window_json w) False True = Some \<lparr>w_id = w_id w, w_kind = w_kind w, w_group = w_group w,
      w_rect = w_rect w,
      w_chart = (if w_kind w = ChartWindow then Some (readChart (map_option chart_json (w_chart w))) else None),
      w_order = (if w_kind w = OrderWindow then w_order w else None),
      orderAccount = (if w_kind w = OrderWindow then orderAccount w else None),
      executionHistory = (if w_kind w = AccountFills then Some (settle_history (executionHistory w)) else None),
      tradeMinAmountManwon = (if w_kind w = TradeWindow then tradeMinAmountManwon w else None),
      newsLinkedOnly = (if w_kind w = NewsWindow then newsLinkedOnly w else None),
      alwaysOnTop = (if alwaysOnTop w = Some True then Some True else None),
      pinned = (if w_kind w \<noteq> MarketIndicesWindow \<and> w_kind w \<noteq> AccountFills then pinned w else None)\<rparr>"
    unfolding readWindow_def Let_def window_members
    using parts(1-7) by simp
  show ?thesis unfolding r settle_def
    using s parts(8) by (cases w; cases "w_chart w") (auto simp: readChart_stored)
qed

lemma readWindow_Some:
  assumes "readWindow v legacyPx keepPin = Some w"
  shows "\<exists>n. read_group n = Some (w_group w)" and "readRect (member v ''rect'') legacyPx = Some (w_rect w)"
    and "w_chart w = (if w_kind w = ChartWindow then Some (readChart (member v ''chart'')) else None)"
    and "w_order w = (if w_kind w = OrderWindow then order_reader (member v ''order'') else None)"
    and "orderAccount w = (if keepPin \<and> w_kind w = OrderWindow then validTradingAccount (member v ''orderAccount'') else None)"
    and "executionHistory w = (if w_kind w = AccountFills
      then Some (readExecutionConfig (member v ''executionHistory'') keepPin) else None)"
    and "tradeMinAmountManwon w = (if w_kind w = TradeWindow then amount_reader (member v ''tradeMinAmountManwon'') else None)"
    and "newsLinkedOnly w = (if w_kind w = NewsWindow then json_bool (member v ''newsLinkedOnly'') else None)"
    and "pinned w = (if keepPin \<and> w_kind w \<noteq> MarketIndicesWindow \<and> w_kind w \<noteq> AccountFills
      then readSymbol (member v ''pinned'') else None)"
  using assms unfolding readWindow_def Let_def
  by (auto simp: bind_eq_Some_conv split: option.splits)

lemma read_group_in: "read_group v = Some g \<Longrightarrow> g \<in> set GROUP_IDS"
  by (auto simp: read_group_def isGroupId_def GROUP_IDS_def MIN_GROUP_def MAX_GROUP_def le_floor_iff floor_le_iff
      nat_le_iff le_nat_iff split: if_splits) linarith+

subsection \<open>Groups and stacking order read back\<close>

lemma digit_not_blank: "is_digit c \<Longrightarrow> \<not> is_blank c"
  by (auto simp: is_digit_def is_blank_def)

lemma digits_prefix: "list_all is_digit s \<Longrightarrow> \<not> is_digit d \<Longrightarrow> \<not> starts_with [c, d] s"
  by (cases s; cases "tl s") (auto simp: starts_with_def)

lemma decimal_digits: "list_all is_digit s \<Longrightarrow> s \<noteq> [] \<Longrightarrow> decimal_value s = map_option of_int (js_number s)"
proof -
  assume s: "list_all is_digit s" "s \<noteq> []"
  then have t: "takeWhile is_digit s = s" "dropWhile is_digit s = []" by (simp_all add: list_all_iff)
  show ?thesis unfolding decimal_value_def t Let_def using s by (simp add: js_number_def)
qed

lemma js_Number_digits:
  assumes "list_all is_digit s" "s \<noteq> []"
  shows "js_Number s = map_option of_int (js_number s)"
proof -
  have "\<not> is_blank (hd s)" "\<not> is_blank (hd (rev s))"
    using assms hd_in_set [of s] hd_in_set [of "rev s"] digit_not_blank by (auto simp: list_all_iff)
  then have "dropWhile is_blank s = s" "dropWhile is_blank (rev s) = rev s"
    by (simp_all only: dropWhile_eq_self_iff) simp_all
  then have t: "rev (dropWhile is_blank (rev (dropWhile is_blank s))) = s" by simp
  have "\<not> is_digit (CHR ''x'')" "\<not> is_digit (CHR ''X'')" "\<not> is_digit (CHR ''o'')" "\<not> is_digit (CHR ''O'')"
    "\<not> is_digit (CHR ''b'')" "\<not> is_digit (CHR ''B'')" "\<not> is_digit (CHR ''-'')" "\<not> is_digit (CHR ''+'')"
    by (simp_all add: is_digit_def)
  then have "js_Number s = decimal_value s" unfolding js_Number_def t Let_def
    using assms by (cases s) (auto simp: digits_prefix [of "_ # _"])
  then show ?thesis using assms by (simp add: decimal_digits)
qed

lemma js_Number_nat_text: "js_Number (nat_text n) = Some (of_nat n)"
  by (simp add: js_Number_digits [OF digits_nat_text nat_text_nonempty] js_number_nat_text)

lemma group_entry_stored:
  assumes "i \<in> set GROUP_IDS" "pred_option symbol_ok (g i)"
  shows "foldl group_entry m (opt_member (nat_text i) symbol_json (g i)) = (case g i of None \<Rightarrow> m | Some s \<Rightarrow> m(i \<mapsto> s))"
proof -
  show ?thesis using assms read_group_stored [OF assms(1)] js_Number_nat_text [of i]
    by (cases "g i") (simp_all add: opt_member_def group_entry_def readSymbol_stored)
qed

lemma groups_fold:
  assumes "set is \<subseteq> set GROUP_IDS" "\<forall>i. pred_option symbol_ok (g i)"
  shows "foldl group_entry m (concat (map (\<lambda>i. opt_member (nat_text i) symbol_json (g i)) is))
    = (\<lambda>j. if j \<in> set is \<and> g j \<noteq> None then g j else m j)"
  using assms(1)
proof (induction "is" arbitrary: m)
  case (Cons i "is")
  have "foldl group_entry m (concat (map (\<lambda>i. opt_member (nat_text i) symbol_json (g i)) (i # is)))
    = foldl group_entry (foldl group_entry m (opt_member (nat_text i) symbol_json (g i)))
        (concat (map (\<lambda>i. opt_member (nat_text i) symbol_json (g i)) is))" by simp
  also have "\<dots> = (\<lambda>j. if j \<in> set is \<and> g j \<noteq> None then g j
      else (case g i of None \<Rightarrow> m | Some s \<Rightarrow> m(i \<mapsto> s)) j)"
    using Cons.prems assms(2) by (simp add: group_entry_stored Cons.IH)
  also have "\<dots> = (\<lambda>j. if j \<in> set (i # is) \<and> g j \<noteq> None then g j else m j)"
    by (auto simp: fun_eq_iff split: option.splits)
  finally show ?case .
qed simp

definition groups_ok :: "(GroupId \<Rightarrow> GroupSymbol option) \<Rightarrow> bool" where
  "groups_ok g \<longleftrightarrow> (\<forall>i. pred_option symbol_ok (g i) \<and> (g i \<noteq> None \<longrightarrow> i \<in> set GROUP_IDS))"

lemma readGroupSymbols_stored: "groups_ok g \<Longrightarrow> readGroupSymbols (Some (groups_json g)) = g"
  using groups_fold [OF subset_refl, of g "\<lambda>_. None"]
  unfolding readGroupSymbols_def groups_json_def entries_of_def groups_ok_def
  by (force simp: fun_eq_iff)

lemma readSymbol_ok: "readSymbol v = Some s \<Longrightarrow> symbol_ok s"
  by (auto simp: readSymbol_def symbol_ok_def split: option.splits if_splits)

lemma group_entry_ok: "groups_ok g \<Longrightarrow> groups_ok (group_entry g e)"
  by (auto simp: groups_ok_def group_entry_def bind_eq_Some_conv dest: readSymbol_ok read_group_in split: option.splits)

lemma readGroupSymbols_ok: "groups_ok (readGroupSymbols v)"
proof -
  have "groups_ok g \<Longrightarrow> groups_ok (foldl group_entry g es)" for g es
    by (induction es arbitrary: g) (simp_all add: group_entry_ok)
  moreover have "groups_ok (\<lambda>_. None)" by (simp add: groups_ok_def)
  ultimately show ?thesis unfolding readGroupSymbols_def by (cases v) simp_all
qed

text \<open>
  The stacking order is read by the rule of \<open>normalizeKeyOrder\<close> with the window ids as the
  canonical keys: the laws of the key orders give it.
\<close>

lemma normalizeZOrder_keys:
  "normalizeZOrder (Some v) ws = normalizeKeyOrder v (map w_id ws) (\<lambda>i. i \<in> set (map w_id ws))"
  by (cases v) (simp_all add: normalizeZOrder_def normalizeKeyOrder_def Let_def json_arr_def)

lemma ids_key_order: "distinct (map w_id ws) \<Longrightarrow> key_order (map w_id ws) (\<lambda>i. i \<in> set (map w_id ws))"
  by unfold_locales simp_all

lemma normalizeZOrder_ok:
  assumes "distinct (map w_id ws)"
  shows "distinct (normalizeZOrder raw ws) \<and> set (normalizeZOrder raw ws) = set (map w_id ws)"
proof (cases raw)
  case None
  then show ?thesis using assms by (simp add: normalizeZOrder_def)
next
  case (Some v)
  note k = key_order.normalized_ok [OF ids_key_order [OF assms], of v]
  show ?thesis unfolding Some normalizeZOrder_keys using k by blast
qed

lemma normalizeZOrder_stored:
  assumes "distinct (map w_id ws)" "distinct z" "set z = set (map w_id ws)"
  shows "normalizeZOrder (Some (JArr (map JStr z))) ws = z"
  unfolding normalizeZOrder_keys
  by (rule key_order.normalized_id [OF ids_key_order [OF assms(1)]]) (use assms in auto)

subsection \<open>Which window, which symbol\<close>

text \<open>The loops over \<open>zOrder\<close> from its end: the topmost window with a property.\<close>

definition find_window :: "WorkspaceWindow list \<Rightarrow> string \<Rightarrow> WorkspaceWindow option" where
  "find_window ws i = find (\<lambda>w. w_id w = i) ws"

definition top_window :: "(WorkspaceWindow \<Rightarrow> bool) \<Rightarrow> WorkspaceWindow list \<Rightarrow> string list \<Rightarrow> WorkspaceWindow option" where
  "top_window P ws z = find P (List.map_filter (find_window ws) (rev z))"

definition targetChartWindow :: "WorkspaceWindow list \<Rightarrow> string list \<Rightarrow> WorkspaceWindow option" where
  "targetChartWindow ws z = top_window (\<lambda>w. w_kind w = ChartWindow) ws z"

definition groupTargetChartWindow :: "WorkspaceWindow list \<Rightarrow> string list \<Rightarrow> GroupId \<Rightarrow> WorkspaceWindow option" where
  "groupTargetChartWindow ws z g =
     top_window (\<lambda>w. w_kind w = ChartWindow \<and> w_group w = g \<and> pinned w = None) ws z"

definition activeGroupOf :: "'a Persisted_scheme \<Rightarrow> GroupId" where
  "activeGroupOf s = (case top_window (\<lambda>w. w_kind w \<noteq> AccountFills) (windows s) (zOrder s) of
     Some w \<Rightarrow> w_group w | None \<Rightarrow> 1)"

definition windowSymbolOf :: "(GroupId \<Rightarrow> GroupSymbol option) \<Rightarrow> WorkspaceWindow option \<Rightarrow> GroupSymbol option" where
  "windowSymbolOf groups win = (case win of
     None \<Rightarrow> None
   | Some w \<Rightarrow> if w_kind w = AccountFills then None
       else if w_kind w = MarketIndicesWindow then groups (w_group w)
       else (case pinned w of Some p \<Rightarrow> Some p | None \<Rightarrow> groups (w_group w)))"

definition focusedWindowSymbol :: "'a Persisted_scheme \<Rightarrow> GroupSymbol option" where
  "focusedWindowSymbol s = (case top_window (\<lambda>w. w_kind w \<noteq> AccountFills) (windows s) (zOrder s) of
     Some w \<Rightarrow> windowSymbolOf (groupSymbols s) (Some w) | None \<Rightarrow> None)"

datatype ActivationTarget = ActivateWindow WorkspaceWindow | ActivateEmpty GroupId | ActivationBlocked

definition activationTarget :: "'a Persisted_scheme \<Rightarrow> ActivationTarget" where
  "activationTarget s =
     (if list_all (\<lambda>w. w_kind w = AccountFills) (windows s) then ActivateEmpty 1
      else case top_window (\<lambda>w. w_kind w \<noteq> AccountFills \<and> pinned w = None) (windows s) (zOrder s) of
          Some w \<Rightarrow> ActivateWindow w | None \<Rightarrow> ActivationBlocked)"

definition focusedChart :: "'a Persisted_scheme \<Rightarrow> WorkspaceWindow option" where
  "focusedChart s = top_window (\<lambda>w. w_kind w = ChartWindow) (windows s) (zOrder s)"

definition symbolTimeframe :: "GroupSymbol option \<Rightarrow> LiveTimeframe \<Rightarrow> LiveTimeframe" where
  "symbolTimeframe symbol tf = (case symbol of
     None \<Rightarrow> tf
   | Some s \<Rightarrow> if sym_kind s = Some UsStockSymbol then usChartTimeframe tf
       else if sym_kind s = Some IndexSymbol \<and> isUsIndexId (sym_code s) then usChartTimeframe tf else tf)"

definition normalizeUsWindow :: "WorkspaceWindow \<Rightarrow> GroupSymbol option \<Rightarrow> WorkspaceWindow" where
  "normalizeUsWindow w symbol = (case w_chart w of
     None \<Rightarrow> w
   | Some c \<Rightarrow> let tf = symbolTimeframe symbol (chart_timeframe c)
       in if tf = chart_timeframe c then w else w\<lparr>w_chart := Some (c\<lparr>chart_timeframe := tf\<rparr>)\<rparr>)"

definition withoutPin :: "WorkspaceWindow \<Rightarrow> WorkspaceWindow" where
  "withoutPin w = w\<lparr>pinned := None\<rparr>"

end
