(* ===== verification/WorkspaceStorage.thy ===== *)
theory WorkspaceStorage
  imports WorkspaceState
begin

section \<open>The live workspace: hydration and persistence\<close>

text \<open>
  \<open>state/persist.ts\<close>, \<open>state/workspaceTransfer.ts\<close>, \<open>state/liveDefaultLayout.ts\<close>,
  \<open>state/workspaceMigration.ts\<close> and the storage half of \<open>state/workspace.ts\<close>: the snapshot a tab writes,
  the three places it can be read from, the factory layout, the migration of the layout before
  windows, and the reader of layout presets. The storage always answers (no quota errors); what it
  holds is the parsed JSON. \<open>crypto.randomUUID\<close> is a supply \<open>mk\<close> of ids.
\<close>

subsection \<open>state/persist.ts\<close>

datatype StorageKey = WorkspaceKey | OrderSettingsKey | ChartPreferenceKey | TradePreferenceKey
  | NewsPreferenceKey | LivePageKey | IndicatorsKey | LayoutKey | TransferKey string

type_synonym Storage = "StorageKey \<Rightarrow> json option"

definition persistJson :: "StorageKey \<Rightarrow> json \<Rightarrow> Storage \<Rightarrow> Storage" where
  "persistJson k v st = st(k \<mapsto> v)"

definition readJsonObject :: "StorageKey \<Rightarrow> Storage \<Rightarrow> json" where
  "readJsonObject k st = (case st k of Some v \<Rightarrow> if is_object (Some v) then v else JObj [] | None \<Rightarrow> JObj [])"

text \<open>\<open>detectDeepLinkTab\<close>: the decoded query parameters in order.\<close>

definition detectDeepLinkTab :: "(string \<times> string) list \<Rightarrow> bool" where
  "detectDeepLinkTab params \<longleftrightarrow> map_of params ''market'' = Some ''US''
     \<or> map_of params ''code'' \<noteq> None \<or> map_of params ''index'' \<noteq> None \<or> map_of params ''view'' \<noteq> None"

subsection \<open>state/workspaceTransfer.ts\<close>

definition TTL :: rat where "TTL = 5 * 60 * 1000"

definition transfer_live :: "rat \<Rightarrow> json \<Rightarrow> bool" where
  "transfer_live now e = (case json_num (member e ''expiresAt'') of Some t \<Rightarrow> now < t | None \<Rightarrow> False)"

definition purge_transfers :: "rat \<Rightarrow> Storage \<Rightarrow> Storage" where
  "purge_transfers now st = (\<lambda>k. case k of
     TransferKey _ \<Rightarrow> (case st k of Some e \<Rightarrow> if transfer_live now e then Some e else None | None \<Rightarrow> None)
   | _ \<Rightarrow> st k)"

definition stageWorkspaceTransfer :: "rat \<Rightarrow> string \<Rightarrow> json \<Rightarrow> Storage \<Rightarrow> Storage" where
  "stageWorkspaceTransfer now i snapshot st =
     (purge_transfers now st)(TransferKey i \<mapsto> JObj [(''expiresAt'', JNum (now + TTL)), (''snapshot'', snapshot)])"

text \<open>The id is the \<open>workspaceTransfer\<close> parameter of the URL.\<close>

definition consumeWorkspaceTransfer :: "rat \<Rightarrow> string option \<Rightarrow> Storage \<Rightarrow> json option \<times> Storage" where
  "consumeWorkspaceTransfer now param st = (case param of
     None \<Rightarrow> (None, st)
   | Some i \<Rightarrow> if i = [] then (None, st) else (case st (TransferKey i) of
       None \<Rightarrow> (None, st)
     | Some e \<Rightarrow>
         (if transfer_live now e then
            (case member e ''snapshot'' of
               Some s \<Rightarrow> if json_arr (member s ''windows'') \<noteq> None then Some s else None
             | None \<Rightarrow> None)
          else None, st(TransferKey i := None))))"

subsection \<open>state/liveDefaultLayout.ts and state/workspaceMigration.ts\<close>

definition LIVE_RIGHT_COL_W :: rat where "LIVE_RIGHT_COL_W = 43 / 100 * (8 / 10)"
definition LIVE_RIGHT_COL_X :: rat where "LIVE_RIGHT_COL_X = 1 - LIVE_RIGHT_COL_W"
definition LIVE_BOOK_H :: rat where "LIVE_BOOK_H = 3 / 4"

definition plain_chart :: "LiveTimeframe \<Rightarrow> ChartWindowConfig" where
  "plain_chart tf = \<lparr>chart_timeframe = tf, lastMinuteTimeframe = None, indicatorLegendsVisible = None,
     hoverLinked = None, regularSessionOnly = None\<rparr>"

definition liveDefaultWindows :: "(nat \<Rightarrow> string) \<Rightarrow> WorkspaceWindow list" where
  "liveDefaultWindows mk =
     [(plain_window (mk 0) ChartWindow 1 \<lparr>rx = 0, ry = 0, rw = LIVE_RIGHT_COL_X, rh = 1\<rparr>)\<lparr>w_chart := Some (plain_chart M1)\<rparr>,
      plain_window (mk 1) BookWindow 1 \<lparr>rx = LIVE_RIGHT_COL_X, ry = 0, rw = LIVE_RIGHT_COL_W, rh = LIVE_BOOK_H\<rparr>,
      plain_window (mk 2) BrokerWindow 1
        \<lparr>rx = LIVE_RIGHT_COL_X, ry = LIVE_BOOK_H, rw = LIVE_RIGHT_COL_W, rh = 1 - LIVE_BOOK_H\<rparr>]"

definition LIVE_CARD_KEYS :: "string list" where
  "LIVE_CARD_KEYS = [''orderbook'', ''brokers'', ''volumeDistribution'', ''program'', ''investor'']"

definition CARD_TO_KIND :: "string \<Rightarrow> WindowKind" where
  "CARD_TO_KIND c = (if c = ''orderbook'' then BookWindow else if c = ''brokers'' then BrokerWindow
     else if c = ''volumeDistribution'' then VdistWindow else if c = ''program'' then ProgramWindow else InvestorWindow)"

definition visibleCardsInOrder :: "json \<Rightarrow> string list" where
  "visibleCardsInOrder layout =
     (let hidden = (case member layout ''rightCardHidden'' of Some h \<Rightarrow> h | None \<Rightarrow> JObj []);
          raw = (case json_arr (member layout ''rightCardOrder'') of Some es \<Rightarrow> es | None \<Rightarrow> map JStr LIVE_CARD_KEYS);
          kept = foldl (key_step (\<lambda>c. c \<in> set LIVE_CARD_KEYS)) [] raw;
          ordered = kept @ filter (\<lambda>c. c \<notin> set kept) LIVE_CARD_KEYS
      in filter (\<lambda>c. member hidden c \<noteq> Some (JBool True)) ordered)"

definition groupOneSymbol :: "json \<Rightarrow> GroupSymbol option" where
  "groupOneSymbol page = (case isLiveInstrument (member page ''activeInstrument'') of
     Some (UsStock e s l) \<Rightarrow> Some \<lparr>sym_code = usStockKey e s, sym_name = l, sym_kind = Some UsStockSymbol\<rparr>
   | Some (Stock c l) \<Rightarrow> Some \<lparr>sym_code = c, sym_name = l, sym_kind = None\<rparr>
   | Some (Index i l) \<Rightarrow> Some \<lparr>sym_code = i, sym_name = l, sym_kind = Some IndexSymbol\<rparr>
   | None \<Rightarrow> (case json_str (member page ''activeCode'') of
       Some c \<Rightarrow> if c = [] then None else Some \<lparr>sym_code = c, sym_name = c, sym_kind = None\<rparr>
     | None \<Rightarrow> None))"

definition nonempty :: "json \<Rightarrow> bool" where "nonempty v \<longleftrightarrow> entries_of v \<noteq> []"

definition seed_card :: "(nat \<Rightarrow> string) \<Rightarrow> nat \<Rightarrow> nat \<Rightarrow> string \<Rightarrow> WorkspaceWindow" where
  "seed_card mk n i c =
     (let y = of_nat i / of_nat n in
      plain_window (mk (Suc i)) (CARD_TO_KIND c) 1
        \<lparr>rx = LIVE_RIGHT_COL_X, ry = y, rw = LIVE_RIGHT_COL_W, rh = (if Suc i = n then 1 - y else 1 / of_nat n)\<rparr>)"

definition seed_chart :: "json \<Rightarrow> ChartWindowConfig" where
  "seed_chart page =
     (let tf = (case isLiveTimeframe (member page ''candleTimeframe'') of Some t \<Rightarrow> t | None \<Rightarrow> M1)
      in (plain_chart tf)\<lparr>lastMinuteTimeframe := (case isMinuteFrameValue (member page ''lastMinuteTimeframe'') of
           Some t \<Rightarrow> Some t | None \<Rightarrow> if isMinuteTimeframe tf then Some tf else None)\<rparr>)"

definition seed_windows :: "json \<Rightarrow> string list \<Rightarrow> (nat \<Rightarrow> string) \<Rightarrow> WorkspaceWindow list" where
  "seed_windows page cards mk =
     (let n = length cards in
      (plain_window (mk 0) ChartWindow 1 \<lparr>rx = 0, ry = 0, rw = (if 0 < n then LIVE_RIGHT_COL_X else 1), rh = 1\<rparr>)
        \<lparr>w_chart := Some (seed_chart page)\<rparr>
      # map2 (seed_card mk n) [0..<n] cards)"

definition seed_state :: "json \<Rightarrow> string list \<Rightarrow> (nat \<Rightarrow> string) \<Rightarrow> Persisted" where
  "seed_state page cards mk =
     (let ws = seed_windows page cards mk
      in \<lparr>pendingTransferPinIds = None, windows = ws, zOrder = map w_id ws,
          groupSymbols = (\<lambda>g. if g = 1 then groupOneSymbol page else None)\<rparr>)"

text \<open>\<open>buildWorkspaceSeed\<close>: a legacy key that is absent or not an object reads as the empty object.\<close>

definition buildWorkspaceSeed :: "json option \<Rightarrow> json option \<Rightarrow> json option \<Rightarrow> (nat \<Rightarrow> string) \<Rightarrow> Persisted option" where
  "buildWorkspaceSeed page0 indicators layout0 mk =
     (let obj = (\<lambda>v. case v of Some j \<Rightarrow> if is_object (Some j) then j else JObj [] | None \<Rightarrow> JObj []);
          page = obj page0; layout = obj layout0;
          hasIndicators = (indicators \<noteq> None \<and> indicators \<noteq> Some JNull)
      in if \<not> nonempty page \<and> \<not> nonempty layout \<and> \<not> hasIndicators then None
         else Some (seed_state page (if nonempty layout then visibleCardsInOrder layout else LIVE_CARD_KEYS) mk))"

definition readLegacyWorkspaceSeed :: "(nat \<Rightarrow> string) \<Rightarrow> Storage \<Rightarrow> Persisted option" where
  "readLegacyWorkspaceSeed mk shared =
     (let get = (\<lambda>k. let v = readJsonObject k shared in if nonempty v then Some v else None)
      in buildWorkspaceSeed (get LivePageKey) (get IndicatorsKey) (get LayoutKey) mk)"

subsection \<open>The tab's storages\<close>

record Tab =
  tabStorage :: Storage
  sharedStorage :: Storage
  deepLink :: bool

definition persistFromState :: "'a Persisted_scheme \<Rightarrow> Tab \<Rightarrow> Tab" where
  "persistFromState s t =
     (let v = snapshot_json s in
      t\<lparr>tabStorage := persistJson WorkspaceKey v (tabStorage t),
        sharedStorage := (if deepLink t then sharedStorage t else persistJson WorkspaceKey v (sharedStorage t))\<rparr>)"

text \<open>\<open>readWorkspaceSnapshot\<close>: the snapshot, whether it was inherited, and the storages afterwards.\<close>

definition readWorkspaceSnapshot :: "rat \<Rightarrow> string option \<Rightarrow> Tab \<Rightarrow> json \<times> bool \<times> Tab" where
  "readWorkspaceSnapshot now param t =
     (let own = readJsonObject WorkspaceKey (tabStorage t) in
      if json_arr (member own ''windows'') \<noteq> None then (own, False, t)
      else case consumeWorkspaceTransfer now param (sharedStorage t) of
          (Some s, shared) \<Rightarrow>
            (s, True, t\<lparr>sharedStorage := shared, tabStorage := persistJson WorkspaceKey s (tabStorage t)\<rparr>)
        | (None, shared) \<Rightarrow> (readJsonObject WorkspaceKey shared, True, t\<lparr>sharedStorage := shared\<rparr>))"

definition factory :: "(nat \<Rightarrow> string) \<Rightarrow> Persisted" where
  "factory mk = (let ws = liveDefaultWindows mk in
     \<lparr>pendingTransferPinIds = None, windows = ws, zOrder = map w_id ws, groupSymbols = (\<lambda>_. None)\<rparr>)"

text \<open>The last branch of \<open>readStorage\<close>: a snapshot with an array of windows.\<close>

definition read_snapshot :: "bool \<Rightarrow> bool \<Rightarrow> json \<Rightarrow> json list \<Rightarrow> Persisted" where
  "read_snapshot legacyPx dropPins parsed raws =
     (let ws = List.map_filter (\<lambda>w. readWindow w legacyPx True) raws;
          groups = readGroupSymbols (member parsed ''groupSymbols'');
          unpin = (if dropPins then map withoutPin ws else ws)
      in \<lparr>pendingTransferPinIds = (case json_arr (member parsed ''pendingTransferPinIds'') of
             Some ids \<Rightarrow> Some (filter (\<lambda>i. i \<in> set (map w_id ws)) (List.map_filter (\<lambda>j. json_str (Some j)) ids))
           | None \<Rightarrow> None),
          windows = map (\<lambda>w. normalizeUsWindow w (case pinned w of Some p \<Rightarrow> Some p | None \<Rightarrow> groups (w_group w))) unpin,
          zOrder = normalizeZOrder (member parsed ''zOrder'') ws,
          groupSymbols = groups\<rparr>)"

text \<open>\<open>readStorage\<close>: the state, \<open>pendingNormalize\<close>, and the storages afterwards.\<close>

definition readStorage :: "(nat \<Rightarrow> string) \<Rightarrow> rat \<Rightarrow> string option \<Rightarrow> Tab \<Rightarrow> Persisted \<times> bool \<times> Tab" where
  "readStorage mk now param t0 = (case readWorkspaceSnapshot now param t0 of (parsed, inherited, t) \<Rightarrow>
     let legacyPx = (member parsed ''schema_version'' \<noteq> Some (JNum WORKSPACE_SCHEMA_VERSION)) in
     case json_arr (member parsed ''windows'') of
       None \<Rightarrow>
         (case readLegacyWorkspaceSeed mk (sharedStorage t) of
            Some seeded \<Rightarrow> (seeded, False, persistFromState seeded t)
          | None \<Rightarrow> (factory mk, False, persistFromState (factory mk) t))
     | Some raws \<Rightarrow>
         if raws \<noteq> [] \<and> List.map_filter (\<lambda>w. readWindow w legacyPx True) raws = []
         then (factory mk, False, persistFromState (factory mk) t)
         else (read_snapshot legacyPx (deepLink t \<and> inherited) parsed raws, legacyPx, t))"

subsection \<open>Layout presets\<close>

text \<open>\<open>normalizeWorkspaceSnapshot\<close>: the windows and the stacking order of a preset; never symbols.\<close>

definition normalizeWorkspaceSnapshot :: "(nat \<Rightarrow> string) \<Rightarrow> json \<Rightarrow> WorkspaceWindow list \<times> string list" where
  "normalizeWorkspaceSnapshot mk raw =
     (let raws = (case json_arr (member raw ''windows'') of Some es \<Rightarrow> es | None \<Rightarrow> []);
          ws = List.map_filter (\<lambda>w. readWindow w False False) raws
      in if ws = [] then (liveDefaultWindows mk, map w_id (liveDefaultWindows mk))
         else (ws, normalizeZOrder (member raw ''zOrder'') ws))"

text \<open>\<open>snapshotWorkspace\<close>: symbols, pins and accounts are left out.\<close>

definition snapshot_window :: "WorkspaceWindow \<Rightarrow> WorkspaceWindow" where
  "snapshot_window w = (withoutPin w)\<lparr>orderAccount := None,
     executionHistory := map_option (\<lambda>h. readExecutionConfig (Some (history_json h)) False) (executionHistory w),
     w_order := map_option (\<lambda>o'. normalizeOrderSettings (Some (order_json o'))) (w_order w)\<rparr>"

definition snapshotWorkspace :: "'a Persisted_scheme \<Rightarrow> json" where
  "snapshotWorkspace s = JObj [(''windows'', JArr (map (\<lambda>w. window_json (snapshot_window w)) (windows s))),
     (''zOrder'', JArr (map JStr (zOrder s)))]"

subsection \<open>Hydration gives well-formed windows\<close>

text \<open>\<open>storable\<close> without the rectangle, which is in pixels until a legacy layout is converted.\<close>

definition kind_ok :: "WorkspaceWindow \<Rightarrow> bool" where
  "kind_ok w \<longleftrightarrow> storable (w\<lparr>w_rect := \<lparr>rx = 0, ry = 0, rw = 1, rh = 1\<rparr>\<rparr>)"

lemma storable_iff: "storable w \<longleftrightarrow> kind_ok w \<and> isFracRect (w_rect w)"
  by (auto simp: kind_ok_def storable_def isFracRect_def)

lemma group_one [simp]: "Suc 0 \<in> set GROUP_IDS"
  by (simp add: GROUP_IDS_def MIN_GROUP_def MAX_GROUP_def)

lemma plain_simps [simp]:
  "w_id (plain_window i k g r) = i" "w_kind (plain_window i k g r) = k" "w_group (plain_window i k g r) = g"
  "w_rect (plain_window i k g r) = r" "pinned (plain_window i k g r) = None"
  by (simp_all add: plain_window_def)

lemma plain_kind_ok [simp]:
  "k \<noteq> ChartWindow \<Longrightarrow> g \<in> set GROUP_IDS \<Longrightarrow> kind_ok (plain_window i k g r)"
  "g \<in> set GROUP_IDS \<Longrightarrow> kind_ok ((plain_window i ChartWindow g r)\<lparr>w_chart := Some c\<rparr>)
     \<longleftrightarrow> pred_option isMinuteTimeframe (lastMinuteTimeframe c)"
  by (auto simp: kind_ok_def storable_def plain_window_def isFracRect_def)

lemma validTradingAccount_ok: "validTradingAccount v = Some a \<Longrightarrow> account_ok a"
  by (auto simp: validTradingAccount_def account_ok_def account_json_def split: option.splits json.splits if_splits)

lemma reader_ok:
  "pred_option account_ok (validTradingAccount v)" "pred_option symbol_ok (readSymbol v)"
  "pred_option settings_ok (order_reader v)" "pred_option isTradeMinAmountManwon (amount_reader v)"
  "pred_option isMinuteTimeframe (isMinuteFrameValue v)"
  by (auto simp: pred_option_def order_reader_def amount_reader_def normalized_settings_ok
      dest: validTradingAccount_ok readSymbol_ok isMinuteFrameValue_minute split: option.splits if_splits)

lemma readExecutionConfig_ok: "history_ok (readExecutionConfig v b)"
  by (simp add: readExecutionConfig_def history_ok_def Let_def reader_ok)

lemma readChart_ok: "pred_option isMinuteTimeframe (lastMinuteTimeframe (readChart v))"
  by (auto simp: readChart_def Let_def dest: isMinuteFrameValue_minute split: option.splits)

lemma readWindow_kind_ok:
  assumes "readWindow v legacyPx keepPin = Some w"
  shows "kind_ok w"
proof -
  note r = readWindow_Some [OF assms]
  have "w_group w \<in> set GROUP_IDS" using r(1) read_group_in by blast
  then show ?thesis
    unfolding kind_ok_def storable_def using r(3-9)
    by (simp add: reader_ok readExecutionConfig_ok readChart_ok isFracRect_def)
qed

lemma readWindow_rect: "readWindow v False keepPin = Some w \<Longrightarrow> isFracRect (w_rect w)"
  by (drule readWindow_Some(2)) (auto simp: readRect_def Let_def split: option.splits if_splits)

lemma readRect_px: "readRect v True = Some r \<Longrightarrow> 160 \<le> rw r"
  by (auto simp: readRect_def split: option.splits)

lemma readWindow_px: "readWindow v True keepPin = Some w \<Longrightarrow> \<not> isFracRect (w_rect w)"
  by (drule readWindow_Some(2), drule readRect_px) (auto simp: isFracRect_def)

lemma withoutPin_kind_ok [simp]: "kind_ok w \<Longrightarrow> kind_ok (withoutPin w)"
  by (auto simp: kind_ok_def storable_def withoutPin_def)

lemma normalizeUs_simps [simp]:
  "w_id (normalizeUsWindow w s) = w_id w" "w_kind (normalizeUsWindow w s) = w_kind w"
  "w_group (normalizeUsWindow w s) = w_group w" "w_rect (normalizeUsWindow w s) = w_rect w"
  "pinned (normalizeUsWindow w s) = pinned w" "alwaysOnTop (normalizeUsWindow w s) = alwaysOnTop w"
  "executionHistory (normalizeUsWindow w s) = executionHistory w" "w_order (normalizeUsWindow w s) = w_order w"
  "orderAccount (normalizeUsWindow w s) = orderAccount w"
  "w_chart (normalizeUsWindow w s) = map_option (\<lambda>c. c\<lparr>chart_timeframe := symbolTimeframe s (chart_timeframe c)\<rparr>) (w_chart w)"
  by (simp_all add: normalizeUsWindow_def Let_def split: option.split)

lemma normalizeUs_kind_ok [simp]: "kind_ok w \<Longrightarrow> kind_ok (normalizeUsWindow w s)"
  by (cases "w_chart w") (auto simp: kind_ok_def storable_def normalizeUsWindow_def Let_def)

lemma default_windows_ok:
  "list_all kind_ok (liveDefaultWindows mk)" "list_all (\<lambda>w. isFracRect (w_rect w)) (liveDefaultWindows mk)"
  by (simp_all add: liveDefaultWindows_def plain_chart_def isFracRect_def LIVE_RIGHT_COL_X_def LIVE_RIGHT_COL_W_def LIVE_BOOK_H_def)

lemma card_kind: "CARD_TO_KIND c \<noteq> ChartWindow"
  by (simp add: CARD_TO_KIND_def)

lemma column_frac:
  assumes "0 \<le> y" "y < 1" "0 < q" "q \<le> 1"
  shows "isFracRect \<lparr>rx = LIVE_RIGHT_COL_X, ry = y, rw = LIVE_RIGHT_COL_W, rh = (if b then 1 - y else q)\<rparr>"
  using assms by (cases b) (auto simp: isFracRect_def LIVE_RIGHT_COL_X_def LIVE_RIGHT_COL_W_def)

lemma seed_card_ok:
  assumes "i < n"
  shows "kind_ok (seed_card mk n i c) \<and> isFracRect (w_rect (seed_card mk n i c)) \<and> w_id (seed_card mk n i c) = mk (Suc i)"
proof -
  have y: "(of_nat i :: rat) / of_nat n < 1" "0 \<le> (of_nat i :: rat) / of_nat n"
    and h: "0 < (1 :: rat) / of_nat n" "(1 :: rat) / of_nat n \<le> 1"
    using assms by (simp_all add: divide_less_eq divide_le_eq)
  from column_frac [OF y(2,1) h, of "Suc i = n"]
  show ?thesis using card_kind by (simp add: seed_card_def Let_def)
qed

definition hydrated_ok :: "Persisted \<Rightarrow> bool" where
  "hydrated_ok s \<longleftrightarrow> list_all kind_ok (windows s) \<and> set (zOrder s) = set (map w_id (windows s)) \<and> groups_ok (groupSymbols s)"

lemma normalizeZOrder_set: "set (normalizeZOrder raw ws) = set (map w_id ws)"
proof -
  have "set out \<subseteq> ids \<Longrightarrow> set (foldl (key_step (\<lambda>i. i \<in> ids)) out es) \<subseteq> ids" for out es and ids :: "string set"
  proof (induction es arbitrary: out)
    case (Cons e es)
    then show ?case by (cases e) (auto simp: key_step_def split: if_splits)
  qed simp
  from this [of "[]"] show ?thesis by (auto simp: normalizeZOrder_def Let_def split: option.splits)
qed

lemma us_stock_code_key: "us_symbol s \<Longrightarrow> us_stock_code (usStockKey e s)"
  by (cases e) (simp_all add: us_stock_code_def usStockKey_def starts_with_def)

lemma isLiveInstrument_Some:
  "isLiveInstrument v = Some (UsStock e s l) \<Longrightarrow> us_symbol s"
  "isLiveInstrument v = Some (Index i l) \<Longrightarrow> isLiveIndexId i"
  by (auto simp: isLiveInstrument_def Let_def split: option.splits if_splits)

lemma groupOneSymbol_ok: "groupOneSymbol v = Some s \<Longrightarrow> symbol_ok s"
  by (auto simp: groupOneSymbol_def symbol_ok_def us_stock_code_key
      dest: isLiveInstrument_Some split: option.splits LiveInstrument.splits if_splits)

lemma read_snapshot_ok: "hydrated_ok (read_snapshot legacyPx dropPins parsed raws)"
proof -
  have "list_all kind_ok (List.map_filter (\<lambda>w. readWindow w legacyPx True) raws)"
    by (auto simp: list_all_iff List.map_filter_def intro: readWindow_kind_ok)
  then show ?thesis
    by (auto simp: hydrated_ok_def read_snapshot_def Let_def list_all_iff normalizeZOrder_set readGroupSymbols_ok withoutPin_def image_image
        intro!: normalizeUs_kind_ok withoutPin_kind_ok [unfolded withoutPin_def])
qed

lemma seed_chart_ok: "pred_option isMinuteTimeframe (lastMinuteTimeframe (seed_chart page))"
  by (auto simp: seed_chart_def Let_def dest: isMinuteFrameValue_minute split: option.splits)

lemma seed_windows_ok: "list_all storable (seed_windows page cs mk)"
proof -
  have "list_all storable (map2 (seed_card mk n) [0..<n] cs)" if "n = length cs" for n
    unfolding list_all_length using that seed_card_ok by (simp add: storable_iff)
  then show ?thesis
    using seed_chart_ok [of page]
    by (auto simp: seed_windows_def Let_def storable_iff isFracRect_def LIVE_RIGHT_COL_X_def LIVE_RIGHT_COL_W_def)
qed

lemma seed_state_ok: "hydrated_ok (seed_state page cs mk) \<and> list_all storable (windows (seed_state page cs mk))"
proof -
  have "groups_ok (groupSymbols (seed_state page cs mk))"
    by (cases "groupOneSymbol page") (simp_all add: seed_state_def Let_def groups_ok_def groupOneSymbol_ok)
  then show ?thesis
    using seed_windows_ok [of page cs mk] by (auto simp: seed_state_def Let_def hydrated_ok_def list_all_iff storable_iff)
qed

lemma if_SomeE: "(if b then None else Some x) = Some s \<Longrightarrow> (s = x \<Longrightarrow> P) \<Longrightarrow> P"
  by (simp split: if_split_asm)

lemma seed_ok: "buildWorkspaceSeed page indicators layout mk = Some s \<Longrightarrow> hydrated_ok s \<and> list_all storable (windows s)"
  unfolding buildWorkspaceSeed_def Let_def by (elim if_SomeE) (simp only: seed_state_ok)

lemma factory_ok: "hydrated_ok (factory mk) \<and> list_all storable (windows (factory mk))"
  using default_windows_ok [of mk] by (auto simp: hydrated_ok_def factory_def Let_def groups_ok_def list_all_iff storable_iff)

lemma read_snapshot_frac:
  "w \<in> set (windows (read_snapshot False dropPins parsed raws)) \<Longrightarrow> isFracRect (w_rect w)"
  by (auto simp: read_snapshot_def Let_def List.map_filter_def withoutPin_def dest: readWindow_rect split: if_splits)

text \<open>
  C18. Whatever the storages hold (a snapshot of any version, a transfer, the keys before windows,
  garbage, nothing), hydration gives a well-formed workspace: every property of a window belongs to its
  kind and passes its check, every window is in the stacking order and nothing else is, and group
  symbols are valid; and unless the layout is still in pixels, every rectangle is a fraction of the
  canvas that can be reached.
\<close>

theorem hydration_well_formed:
  assumes "readStorage mk now param t = (s, pending, t')"
  shows "hydrated_ok s \<and> (pending \<or> list_all storable (windows s))"
proof -
  obtain parsed inh t1 where p: "readWorkspaceSnapshot now param t = (parsed, inh, t1)"
    by (cases "readWorkspaceSnapshot now param t") auto
  have leg: "readLegacyWorkspaceSeed mk (sharedStorage t1) = Some u \<Longrightarrow> hydrated_ok u \<and> list_all storable (windows u)" for u
    unfolding readLegacyWorkspaceSeed_def Let_def by (rule seed_ok)
  have snap: "list_all storable (windows (read_snapshot False d parsed raws))" for d raws
    using read_snapshot_ok [of False d parsed raws] read_snapshot_frac [of _ d parsed raws]
    by (auto simp: hydrated_ok_def list_all_iff storable_iff)
  show ?thesis
    using assms leg snap read_snapshot_ok factory_ok [of mk] unfolding readStorage_def p
    by (auto simp: Let_def split: option.splits if_splits)
qed

theorem hydration_well_formed_witness:
  "hydrated_ok (fst (readStorage (\<lambda>i. nat_text i) 0 None \<lparr>tabStorage = (\<lambda>_. Some (JStr ''broken'')), sharedStorage = (\<lambda>_. None), deepLink = False\<rparr>))"
  using hydration_well_formed
    [of "\<lambda>i. nat_text i" 0 None "\<lparr>tabStorage = (\<lambda>_. Some (JStr ''broken'')), sharedStorage = (\<lambda>_. None), deepLink = False\<rparr>"]
  by (metis prod.collapse)

subsection \<open>A reload restores the workspace\<close>

lemma snapshot_members [simp]:
  "member (snapshot_json s) ''schema_version'' = Some (JNum WORKSPACE_SCHEMA_VERSION)"
  "member (snapshot_json s) ''pendingTransferPinIds'' =
     map_option (\<lambda>ids. JArr (map JStr ids)) (if pendingTransferPinIds s = Some [] then None else pendingTransferPinIds s)"
  "member (snapshot_json s) ''windows'' = Some (JArr (map window_json (windows s)))"
  "member (snapshot_json s) ''zOrder'' = Some (JArr (map JStr (zOrder s)))"
  "member (snapshot_json s) ''groupSymbols'' = Some (groups_json (groupSymbols s))"
  by (simp_all add: snapshot_json_def map_of_opt_member del: map_of_append)

lemma is_object_snapshot [simp]: "is_object (Some (snapshot_json s))"
  by (simp add: snapshot_json_def)

definition symbol_of :: "(GroupId \<Rightarrow> GroupSymbol option) \<Rightarrow> WorkspaceWindow \<Rightarrow> GroupSymbol option" where
  "symbol_of g w = (case pinned w of Some p \<Rightarrow> Some p | None \<Rightarrow> g (w_group w))"

text \<open>The state with the defaults of its windows filled in and US charts on a timeframe they have.\<close>

definition settled :: "'a Persisted_scheme \<Rightarrow> Persisted" where
  "settled s = \<lparr>pendingTransferPinIds = (if pendingTransferPinIds s = Some [] then None else pendingTransferPinIds s),
     windows = map (\<lambda>w. normalizeUsWindow (settle w) (symbol_of (groupSymbols s) w)) (windows s),
     zOrder = zOrder s, groupSymbols = groupSymbols s\<rparr>"

definition state_ok :: "'a Persisted_scheme \<Rightarrow> bool" where
  "state_ok s \<longleftrightarrow> list_all storable (windows s) \<and> distinct (map w_id (windows s))
     \<and> distinct (zOrder s) \<and> set (zOrder s) = set (map w_id (windows s)) \<and> groups_ok (groupSymbols s)
     \<and> pred_option (\<lambda>ids. set ids \<subseteq> set (map w_id (windows s))) (pendingTransferPinIds s)"

lemma settle_simps [simp]: "w_id (settle w) = w_id w" "pinned (settle w) = pinned w" "w_group (settle w) = w_group w"
  "w_kind (settle w) = w_kind w" "w_rect (settle w) = w_rect w"
  by (simp_all add: settle_def)

lemma windows_stored:
  "list_all storable ws \<Longrightarrow> List.map_filter (\<lambda>w. readWindow w False True) (map window_json ws) = map settle ws"
  by (induction ws) (simp_all add: List.map_filter_def readWindow_stored)

lemma texts_stored: "List.map_filter (\<lambda>j. json_str (Some j)) (map JStr ids) = ids"
  using text_codec.listed [of ids] by (simp add: list_all_iff)

lemma read_snapshot_members:
  assumes "state_ok s"
    and "member parsed ''zOrder'' = Some (JArr (map JStr (zOrder s)))"
    and "member parsed ''groupSymbols'' = Some (groups_json (groupSymbols s))"
    and "member parsed ''pendingTransferPinIds'' = map_option (\<lambda>ids. JArr (map JStr ids)) p"
    and "pred_option (\<lambda>ids. set ids \<subseteq> set (map w_id (windows s))) p"
    and "\<not> dropPins \<or> (\<forall>w \<in> set (windows s). pinned w = None)"
  shows "read_snapshot False dropPins parsed (map window_json (windows s)) = (settled s)\<lparr>pendingTransferPinIds := p\<rparr>"
proof -
  note s = assms(1) [unfolded state_ok_def]
  have w: "List.map_filter (\<lambda>w. readWindow w False True) (map window_json (windows s)) = map settle (windows s)"
    using s by (simp add: windows_stored)
  have ids: "map w_id (map settle (windows s)) = map w_id (windows s)" by simp
  have z: "normalizeZOrder (Some (JArr (map JStr (zOrder s)))) (map settle (windows s)) = zOrder s"
    using normalizeZOrder_stored [of "map settle (windows s)" "zOrder s", unfolded ids] s by blast
  have p: "filter (\<lambda>i. i \<in> set (map w_id (windows s))) is = is" if "p = Some is" for "is"
    using assms(5) that by (auto simp: filter_id_conv)
  have u: "(if dropPins then map withoutPin (map settle (windows s)) else map settle (windows s)) = map settle (windows s)"
    using assms(6) by (auto simp: withoutPin_def settle_def)
  show ?thesis
    unfolding read_snapshot_def Let_def w assms(2-4) u
    using s p readGroupSymbols_stored [of "groupSymbols s"]
    by (cases p) (simp_all add: settled_def z symbol_of_def texts_stored o_def cong: option.case_cong)
qed

lemma read_snapshot_stored:
  assumes "state_ok s"
  shows "read_snapshot False False (snapshot_json s) (map window_json (windows s)) = settled s"
proof -
  let ?p = "if pendingTransferPinIds s = Some [] then None else pendingTransferPinIds s"
  have "read_snapshot False False (snapshot_json s) (map window_json (windows s)) = (settled s)\<lparr>pendingTransferPinIds := ?p\<rparr>"
    by (rule read_snapshot_members [OF assms]) (use assms in \<open>auto simp: state_ok_def\<close>)
  then show ?thesis by (simp add: settled_def)
qed

lemma factory_state_ok: "state_ok (factory nat_text)"
proof -
  have "distinct (map w_id (windows (factory nat_text)))"
    by (simp add: factory_def liveDefaultWindows_def Let_def nat_text.simps digit_char_def)
  then show ?thesis
    using factory_ok [of nat_text] by (auto simp: state_ok_def hydrated_ok_def) (simp add: factory_def Let_def)+
qed

text \<open>
  C17. A reload restores the workspace: from what a tab has just written, the same tab reads back the
  same windows, stacking order, group symbols, pins and pending pins, up to the defaults that reading
  fills in, and writes nothing.
\<close>

theorem reload_restores:
  assumes "state_ok s"
  shows "readStorage mk now param (persistFromState s t) = (settled s, False, persistFromState s t)"
proof -
  have own: "readJsonObject WorkspaceKey (tabStorage (persistFromState s t)) = snapshot_json s"
    by (simp add: readJsonObject_def persistFromState_def persistJson_def Let_def)
  have r: "readWorkspaceSnapshot now param (persistFromState s t) = (snapshot_json s, False, persistFromState s t)"
    unfolding readWorkspaceSnapshot_def own by simp
  have "list_all storable (windows s)" using assms by (simp add: state_ok_def)
  then show ?thesis
    unfolding readStorage_def r using read_snapshot_stored [OF assms] by (simp add: windows_stored)
qed

theorem reload_restores_witness:
  "readStorage nat_text 0 None (persistFromState (factory nat_text) \<lparr>tabStorage = (\<lambda>_. None), sharedStorage = (\<lambda>_. None), deepLink = False\<rparr>)
   = (settled (factory nat_text), False,
      persistFromState (factory nat_text) \<lparr>tabStorage = (\<lambda>_. None), sharedStorage = (\<lambda>_. None), deepLink = False\<rparr>)"
  by (rule reload_restores [OF factory_state_ok])

lemma readRect_none: "\<not> isFracRect r \<Longrightarrow> readRect (Some (rect_json r)) False = None"
  by (cases r) (simp add: readRect_def rect_json_def Let_def)

text \<open>
  A layout still in pixels is lost by any write: the snapshot is always tagged as fractions, so
  when the state read from a version 1 layout is stored before the canvas has converted it, the next
  load rejects every window and opens the factory layout instead.
\<close>

lemma pixel_layout_lost:
  assumes "readStorage mk now param t = (s, True, t1)" "windows s \<noteq> []"
  shows "fst (readStorage mk' now' param' (persistFromState s t1)) = factory mk'"
proof -
  obtain d parsed raws where "s = read_snapshot True d parsed raws"
    using assms(1) by (auto simp: readStorage_def Let_def split: prod.splits option.splits if_splits)
  then have px: "\<not> isFracRect (w_rect w)" if "w \<in> set (windows s)" for w
    using that by (auto simp: read_snapshot_def Let_def List.map_filter_def withoutPin_def dest: readWindow_px split: if_splits)
  have none: "readWindow (window_json w) False True = None" if "w \<in> set (windows s)" for w
    using readRect_none [OF px [OF that]] by (simp add: readWindow_def Let_def split: option.split)
  have lost: "List.map_filter (\<lambda>w. readWindow w False True) (map window_json (windows s)) = []"
    using none by (simp add: List.map_filter_def filter_empty_conv)
  have r: "readWorkspaceSnapshot now' param' (persistFromState s t1) = (snapshot_json s, False, persistFromState s t1)"
    by (simp add: readWorkspaceSnapshot_def readJsonObject_def persistFromState_def persistJson_def Let_def)
  show ?thesis unfolding readStorage_def r using lost assms(2) by simp
qed

definition old_layout :: json where
  "old_layout = JObj [(''windows'', JArr [JObj [(''id'', JStr ''c''), (''kind'', JStr ''chart''), (''group'', JNum 1),
     (''rect'', JObj [(''x'', JNum 16), (''y'', JNum 16), (''w'', JNum 720), (''h'', JNum 760)])]])]"

subsection \<open>Presets and new tabs\<close>

lemma snapshot_window_simps [simp]:
  "w_id (snapshot_window w) = w_id w" "w_kind (snapshot_window w) = w_kind w" "w_group (snapshot_window w) = w_group w"
  "w_rect (snapshot_window w) = w_rect w" "pinned (snapshot_window w) = None" "orderAccount (snapshot_window w) = None"
  by (simp_all add: snapshot_window_def withoutPin_def)

lemma snapshot_window_storable: "storable w \<Longrightarrow> storable (snapshot_window w)"
  by (auto simp: storable_def snapshot_window_def withoutPin_def readExecutionConfig_ok normalized_settings_ok option.pred_map pred_option_def)

lemma readWindow_unpinned:
  assumes "pinned w = None" "orderAccount w = None"
    and "\<forall>h. executionHistory w = Some h \<longrightarrow> ex_account h = None \<and> ex_symbol h = None"
  shows "readWindow (window_json w) l False = readWindow (window_json w) l True"
proof -
  have e: "readExecutionConfig (map_option history_json (executionHistory w)) False
      = readExecutionConfig (map_option history_json (executionHistory w)) True"
    using assms(3) by (cases "executionHistory w")
      (simp_all add: readExecutionConfig_def account_codec.decode_absent symbol_codec.decode_absent)
  show ?thesis
    unfolding readWindow_def Let_def window_members assms(1,2) option.map(1) account_codec.decode_absent
      symbol_codec.decode_absent if_cancel e ..
qed

lemma preset_window_stored:
  assumes "storable w"
  shows "readWindow (window_json (snapshot_window w)) False False = Some (settle (snapshot_window w))"
proof -
  have "\<forall>h. executionHistory (snapshot_window w) = Some h \<longrightarrow> ex_account h = None \<and> ex_symbol h = None"
    by (auto simp: snapshot_window_def readExecutionConfig_def Let_def)
  then show ?thesis using readWindow_unpinned [of "snapshot_window w"] readWindow_stored [OF snapshot_window_storable [OF assms]]
    by simp
qed

text \<open>Whatever a preset holds, its windows are well formed and carry no pin or account.\<close>

lemma preset_read:
  assumes "normalizeWorkspaceSnapshot mk raw = (ws, z)"
  shows "ws \<noteq> [] \<and> list_all (\<lambda>w. storable w \<and> pinned w = None \<and> orderAccount w = None) ws
    \<and> set z = set (map w_id ws) \<and> (distinct (map w_id ws) \<longrightarrow> distinct z)"
proof -
  have read: "readWindow j False False = Some w \<Longrightarrow> storable w \<and> pinned w = None \<and> orderAccount w = None" for j w
    using readWindow_kind_ok readWindow_rect readWindow_Some(5,9) by (auto simp: storable_iff)
  have "list_all (\<lambda>w. storable w \<and> pinned w = None \<and> orderAccount w = None) (liveDefaultWindows mk)" "liveDefaultWindows mk \<noteq> []"
    using default_windows_ok [of mk] by (auto simp: list_all_iff storable_iff) (auto simp: liveDefaultWindows_def plain_window_def)
  moreover have "list_all (\<lambda>w. storable w \<and> pinned w = None \<and> orderAccount w = None) (List.map_filter (\<lambda>w. readWindow w False False) es)" for es
    using read by (auto simp: list_all_iff List.map_filter_def)
  moreover have "distinct (map w_id us) \<Longrightarrow> distinct (normalizeZOrder r us)" for us r using normalizeZOrder_ok by blast
  ultimately show ?thesis
    using assms by (auto simp: normalizeWorkspaceSnapshot_def Let_def normalizeZOrder_set split: if_splits)
qed

text \<open>
  A layout preset carries the layout and nothing else: reading the preset taken of a workspace gives
  back its windows and stacking order without pins and accounts; and a preset read from anything at all
  has at least one window, each well formed, without a pin and reachable, and stacks exactly its windows.
\<close>

lemma preset_is_layout:
  "(state_ok s \<and> windows s \<noteq> [] \<longrightarrow>
      normalizeWorkspaceSnapshot mk (snapshotWorkspace s) = (map (\<lambda>w. settle (snapshot_window w)) (windows s), zOrder s))
   \<and> (case normalizeWorkspaceSnapshot mk raw of (ws, z) \<Rightarrow>
      ws \<noteq> [] \<and> list_all (\<lambda>w. storable w \<and> pinned w = None \<and> orderAccount w = None) ws \<and> set z = set (map w_id ws))"
proof
  show "state_ok s \<and> windows s \<noteq> [] \<longrightarrow>
      normalizeWorkspaceSnapshot mk (snapshotWorkspace s) = (map (\<lambda>w. settle (snapshot_window w)) (windows s), zOrder s)"
  proof
    assume s: "state_ok s \<and> windows s \<noteq> []"
    have "list_all storable ws \<Longrightarrow> List.map_filter (\<lambda>w. readWindow w False False) (map (\<lambda>w. window_json (snapshot_window w)) ws)
      = map (\<lambda>w. settle (snapshot_window w)) ws" for ws
      by (induction ws) (simp_all add: List.map_filter_def preset_window_stored)
    moreover have "normalizeZOrder (Some (JArr (map JStr (zOrder s)))) (map (\<lambda>w. settle (snapshot_window w)) (windows s)) = zOrder s"
      by (rule normalizeZOrder_stored) (use s in \<open>auto simp: state_ok_def o_def\<close>)
    ultimately show "normalizeWorkspaceSnapshot mk (snapshotWorkspace s) = (map (\<lambda>w. settle (snapshot_window w)) (windows s), zOrder s)"
      using s by (simp add: normalizeWorkspaceSnapshot_def snapshotWorkspace_def state_ok_def Let_def)
  qed
  show "case normalizeWorkspaceSnapshot mk raw of (ws, z) \<Rightarrow>
      ws \<noteq> [] \<and> list_all (\<lambda>w. storable w \<and> pinned w = None \<and> orderAccount w = None) ws \<and> set z = set (map w_id ws)"
    using preset_read [of mk raw] by (cases "normalizeWorkspaceSnapshot mk raw") simp
qed

text \<open>\<open>openWorkspaceInNewTab\<close>: what the new tab finds under its transfer id.\<close>

definition transfer_snapshot :: "'a Persisted_scheme \<Rightarrow> bool \<Rightarrow> json" where
  "transfer_snapshot s pendingNormalized = (case snapshotWorkspace s of JObj ms \<Rightarrow>
     JObj (ms @ [(''schema_version'', JNum (if pendingNormalized then 1 else WORKSPACE_SCHEMA_VERSION)),
       (''groupSymbols'', groups_json (groupSymbols s)),
       (''pendingTransferPinIds'', JArr (map (\<lambda>w. JStr (w_id w)) (filter (\<lambda>w. pinned w \<noteq> None) (windows s))))])
   | v \<Rightarrow> v)"

definition new_tab_state :: "'a Persisted_scheme \<Rightarrow> Persisted" where
  "new_tab_state s = \<lparr>pendingTransferPinIds = None, windows = map snapshot_window (windows s), zOrder = zOrder s,
     groupSymbols = groupSymbols s\<rparr>"

lemma transfer_members [simp]:
  "member (transfer_snapshot s p) ''schema_version'' = Some (JNum (if p then 1 else WORKSPACE_SCHEMA_VERSION))"
  "member (transfer_snapshot s p) ''windows'' = Some (JArr (map window_json (windows (new_tab_state s))))"
  "member (transfer_snapshot s p) ''zOrder'' = Some (JArr (map JStr (zOrder s)))"
  "member (transfer_snapshot s p) ''groupSymbols'' = Some (groups_json (groupSymbols s))"
  "member (transfer_snapshot s p) ''pendingTransferPinIds'' =
     Some (JArr (map JStr (map w_id (filter (\<lambda>w. pinned w \<noteq> None) (windows s)))))"
  by (simp_all add: transfer_snapshot_def snapshotWorkspace_def new_tab_state_def o_def)

lemma new_tab_ok: "state_ok s \<Longrightarrow> state_ok (new_tab_state s)"
  by (auto simp: state_ok_def new_tab_state_def list_all_iff o_def snapshot_window_storable)

text \<open>
  A new tab opens with the layout of the tab that was clicked: within five minutes the transfer
  gives the same windows, stacking order and group symbols, with the pinned windows noted for
  restoration but not pinned; and the transfer is used up, so it cannot be replayed.
\<close>

lemma new_tab_inherits:
  assumes "state_ok s" "i \<noteq> []" "now' < now + TTL" "tab WorkspaceKey = None"
    and "t = \<lparr>tabStorage = tab, sharedStorage = stageWorkspaceTransfer now i (transfer_snapshot s False) shared, deepLink = d\<rparr>"
    and "readStorage mk now' (Some i) t = (s', pending, t')"
  shows "s' = (settled (new_tab_state s))\<lparr>pendingTransferPinIds := Some (map w_id (filter (\<lambda>w. pinned w \<noteq> None) (windows s)))\<rparr>
    \<and> \<not> pending \<and> sharedStorage t' (TransferKey i) = None"
proof -
  let ?v = "transfer_snapshot s False" and ?st = "stageWorkspaceTransfer now i (transfer_snapshot s False) shared"
  have c: "consumeWorkspaceTransfer now' (Some i) ?st = (Some ?v, ?st(TransferKey i := None))"
    using assms(2,3) by (simp add: consumeWorkspaceTransfer_def stageWorkspaceTransfer_def transfer_live_def)
  have r: "readWorkspaceSnapshot now' (Some i) t =
      (?v, True, t\<lparr>sharedStorage := ?st(TransferKey i := None), tabStorage := persistJson WorkspaceKey ?v tab\<rparr>)"
    unfolding assms(5) readWorkspaceSnapshot_def Let_def using assms(4) c by (simp add: readJsonObject_def)
  have l: "list_all storable (windows (new_tab_state s))" using new_tab_ok [OF assms(1)] by (simp add: state_ok_def)
  have "read_snapshot False d ?v (map window_json (windows (new_tab_state s)))
      = (settled (new_tab_state s))\<lparr>pendingTransferPinIds := Some (map w_id (filter (\<lambda>w. pinned w \<noteq> None) (windows s)))\<rparr>"
    by (rule read_snapshot_members [OF new_tab_ok [OF assms(1)]]) (auto simp: new_tab_state_def)
  then show ?thesis
    using assms(6) l unfolding readStorage_def r by (auto simp: assms(5) windows_stored)
qed

end
