(* ===== verification/Viewports.thy ===== *)
theory Viewports
  imports VirtualAxis Instruments
begin

section \<open>Viewports carried across tabs, symbols and second resolutions\<close>

text \<open>
  \<open>live/viewportAnchor.ts\<close> and \<open>live/workspace/secondTimeframeViewport.ts\<close>. Positions are rationals;
  a missing bar width or padding is \<open>None\<close>.
\<close>

record TabViewport =
  rightEdgeMs :: rat
  leftEdgeMs :: "rat option"
  barSpan :: rat
  rightPaddingBars :: "rat option"
  atLiveEdge :: bool
  userAdjusted :: "bool option"

subsection \<open>live/viewportAnchor.ts\<close>

definition js_round :: "rat \<Rightarrow> int" where "js_round r = \<lfloor>r + 1 / 2\<rfloor>"

definition realMsToVirtualSeconds :: "VirtualAxis \<Rightarrow> ms \<Rightarrow> int" where
  "realMsToVirtualSeconds axis t = js_round (of_int (toVirtual axis t) / 1000)"

record RestoreRange =
  restore_from :: rat
  restore_to :: rat
  scrollToRight :: bool

text \<open>\<open>rightOffset\<close> is the override or the density-scaled offset of the chart options.\<close>

definition computeRestoreRange ::
    "TabViewport \<Rightarrow> rat \<Rightarrow> rat option \<Rightarrow> rat \<Rightarrow> rat option \<Rightarrow> RestoreRange option" where
  "computeRestoreRange anchor totalBars anchorIndex rightOffset latestCandle =
     (let span = max 1 (of_int (js_round (barSpan anchor)));
          edge = (case latestCandle of Some i \<Rightarrow> i + 1 | None \<Rightarrow> totalBars);
          padding = map_option (max 0) (rightPaddingBars anchor)
      in if atLiveEdge anchor \<and> padding \<noteq> None
         then (let to = edge + the padding in
               Some \<lparr>restore_from = max 0 (to - span), restore_to = to, scrollToRight = False\<rparr>)
         else if atLiveEdge anchor \<and> userAdjusted anchor \<noteq> Some True
         then Some \<lparr>restore_from = max 0 (edge - span), restore_to = edge + rightOffset, scrollToRight = False\<rparr>
         else case anchorIndex of
             None \<Rightarrow> None
           | Some i \<Rightarrow> Some \<lparr>restore_from = max 0 (i - span), restore_to = i, scrollToRight = False\<rparr>)"

subsection \<open>live/workspace/secondTimeframeViewport.ts\<close>

record SecondTimeframeViewport =
  vp_code :: string
  vp_target :: LiveTimeframe
  vp_timeframe :: LiveTimeframe
  vp_venue :: string
  followLatest :: bool
  vp_viewport :: TabViewport

text \<open>The registry of capture callbacks is an argument: what the window's callback returns now.\<close>

definition captureSecondTimeframeViewport ::
    "SecondTimeframeViewport option \<Rightarrow> LiveTimeframe \<Rightarrow> string option \<Rightarrow> SecondTimeframeViewport option" where
  "captureSecondTimeframeViewport captured target code = (case captured of
     Some v \<Rightarrow> if code = Some (vp_code v) then Some (v\<lparr>vp_target := target\<rparr>) else None
   | None \<Rightarrow> None)"

definition seconds_of :: "LiveTimeframe \<Rightarrow> rat" where
  "seconds_of tf = (if tf = S1 then 1 else if tf = S5 then 5 else if tf = S10 then 10 else 30)"

text \<open>\<open>indexAt\<close>: the last candle of the bucket of a time or before, at least 0.\<close>

definition index_at :: "rat \<Rightarrow> rat list \<Rightarrow> rat \<Rightarrow> int" where
  "index_at nextMs ts t =
     (let bucket = of_int \<lfloor>t / nextMs\<rfloor> * nextMs
      in max 0 (int (first_fail (\<lambda>i. ts ! i \<le> bucket) 0 (length ts)) - 1))"

definition restoreSecondTimeframeViewport :: "SecondTimeframeViewport \<Rightarrow> rat list \<Rightarrow> TabViewport option" where
  "restoreSecondTimeframeViewport transfer ts =
     (if ts = [] then None
      else let v = vp_viewport transfer;
               nextMs = seconds_of (vp_target transfer) * 1000;
               oldMs = seconds_of (vp_timeframe transfer) * 1000;
               ratio = oldMs / nextMs;
               right = (if followLatest transfer then int (length ts) - 1 else index_at nextMs ts (rightEdgeMs v));
               padding = rightPaddingBars v;
               nextPadding = map_option (\<lambda>p. max 0 ((1 + p) * ratio - 1)) padding;
               observed = barSpan v - (case padding of None \<Rightarrow> 0 | Some p \<Rightarrow> 1 + p);
               elapsed = map_option (\<lambda>l. (rightEdgeMs v - l) / oldMs) (leftEdgeMs v);
               dense = (case elapsed of Some e \<Rightarrow> \<bar>e - observed\<bar> \<le> 100001 / 100000 | None \<Rightarrow> False);
               span = (case leftEdgeMs v of
                   None \<Rightarrow> barSpan v * ratio
                 | Some l \<Rightarrow> if dense then barSpan v * ratio
                     else of_int (right - index_at nextMs ts l) + (case nextPadding of None \<Rightarrow> 0 | Some p \<Rightarrow> 1 + p))
           in Some \<lparr>rightEdgeMs = ts ! nat right, leftEdgeMs = None, barSpan = max 1 span,
                rightPaddingBars = nextPadding, atLiveEdge = atLiveEdge v, userAdjusted = Some True\<rparr>)"

subsection \<open>What a restored viewport shows\<close>

lemma first_fail_range: "lo \<le> hi \<Longrightarrow> lo \<le> first_fail p lo hi \<and> first_fail p lo hi \<le> hi"
proof (induction p lo hi rule: first_fail.induct)
  case (1 p lo hi)
  show ?case
  proof (cases "lo < hi")
    case True
    then have mid: "lo \<le> (lo + hi) div 2" "(lo + hi) div 2 < hi" by simp_all
    show ?thesis
    proof (cases "p ((lo + hi) div 2)")
      case pm: True
      show ?thesis using "1.IH" (1) [OF True refl pm] True mid pm
        by (simp add: first_fail.simps [of p lo hi] Let_def)
    next
      case pm: False
      show ?thesis using "1.IH" (2) [OF True refl pm] True mid pm
        by (simp add: first_fail.simps [of p lo hi] Let_def)
    qed
  next
    case False
    then show ?thesis using "1.prems" by (subst (1 2) first_fail.simps) simp
  qed
qed

lemma index_at_bounds: "ts \<noteq> [] \<Longrightarrow> 0 \<le> index_at n ts t \<and> index_at n ts t < int (length ts)"
  using first_fail_range [of 0 "length ts" "\<lambda>i. ts ! i \<le> of_int \<lfloor>t / n\<rfloor> * n"]
  by (auto simp: index_at_def Let_def)

lemma seconds_pos: "0 < seconds_of tf"
  by (simp add: seconds_of_def)

definition sample_viewport :: TabViewport where
  "sample_viewport = \<lparr>rightEdgeMs = 60000, leftEdgeMs = None, barSpan = 50, rightPaddingBars = Some 9,
     atLiveEdge = False, userAdjusted = None\<rparr>"

text \<open>
  Switching between second resolutions keeps the view: a restored viewport ends on a candle and is
  at least one bar wide, and switching to another resolution and back gives the bar width and the right
  padding again, unless a clamp was reached on the way.
\<close>

lemma second_view_kept:
  assumes "ts \<noteq> []" "us \<noteq> []"
    and "restoreSecondTimeframeViewport \<lparr>vp_code = c, vp_target = b, vp_timeframe = a, vp_venue = v, followLatest = f, vp_viewport = p\<rparr> ts = Some q"
    and "restoreSecondTimeframeViewport \<lparr>vp_code = c, vp_target = a, vp_timeframe = b, vp_venue = v, followLatest = f, vp_viewport = q\<rparr> us = Some r"
    and "leftEdgeMs p = None" "1 \<le> barSpan p" "pred_option (\<lambda>n. 0 \<le> n \<and> 1 \<le> (1 + n) * seconds_of a / seconds_of b) (rightPaddingBars p)"
    and "1 \<le> barSpan p * seconds_of a / seconds_of b"
  shows "rightEdgeMs q \<in> set ts \<and> 1 \<le> barSpan q \<and> barSpan r = barSpan p \<and> rightPaddingBars r = rightPaddingBars p"
proof -
  have ab: "seconds_of a * 1000 / (seconds_of b * 1000) = seconds_of a / seconds_of b"
    "seconds_of b * 1000 / (seconds_of a * 1000) = seconds_of b / seconds_of a" by simp_all
  have undo: "x * (seconds_of a / seconds_of b) * (seconds_of b / seconds_of a) = x" for x
    using seconds_pos [of a] seconds_pos [of b] by simp
  have q: "barSpan q = barSpan p * (seconds_of a / seconds_of b)" "leftEdgeMs q = None"
    "rightPaddingBars q = map_option (\<lambda>n. (1 + n) * (seconds_of a / seconds_of b) - 1) (rightPaddingBars p)"
    using assms(1,3,5,7,8)
    by (cases "rightPaddingBars p"; auto simp: restoreSecondTimeframeViewport_def Let_def ab max_def)+
  have right: "rightEdgeMs q = ts ! nat (if f then int (length ts) - 1 else index_at (seconds_of b * 1000) ts (rightEdgeMs p))"
    using assms(1,3) by (auto simp: restoreSecondTimeframeViewport_def Let_def)
  have "nat (if f then int (length ts) - 1 else index_at (seconds_of b * 1000) ts (rightEdgeMs p)) < length ts"
    using assms(1) index_at_bounds [OF assms(1), of "seconds_of b * 1000" "rightEdgeMs p"] by auto
  then have "rightEdgeMs q \<in> set ts" unfolding right by (rule nth_mem)
  moreover have "barSpan r = barSpan p"
    using assms(2,4,6) q(1,2) undo by (auto simp: restoreSecondTimeframeViewport_def Let_def ab max_def)
  moreover have "rightPaddingBars r = rightPaddingBars p"
    using assms(2,4,7) q(3) undo [of "1 + n" for n]
    by (cases "rightPaddingBars p") (auto simp: restoreSecondTimeframeViewport_def Let_def ab max_def)
  ultimately show ?thesis using q(1) assms(8) by simp
qed

end
