(* ===== verification/Workspace.thy ===== *)
theory Workspace
  imports WorkspaceStorage Viewports
begin

section \<open>The live workspace store\<close>

text \<open>
  \<open>useWorkspaceStore\<close> of \<open>state/workspace.ts\<close>: the persisted state, the runtime that is never
  persisted, and every action. An action is a function on the store, which also holds the two
  storages of the tab and the calls made to the indicator and settings stores, in order. What those
  stores answer (the indicators and settings of a window, the viewport a chart captures) and the ids of
  new windows are arguments. A chart's second viewport is compared by identity, so each one carries
  the number of the object.
\<close>

subsection \<open>State\<close>

record ChartWindowRuntime =
  historicalFromDate :: "ymd option"
  lastMinuteHistoricalFromDate :: "ymd option"
  lastMinuteHistoricalTimeframe :: "LiveTimeframe option"
  hogaplaySource :: "bool option"
  secondRange :: "(rat \<times> rat \<times> nat) option"
  secondViewport :: "(nat \<times> SecondTimeframeViewport) option"

datatype Effect = SeedIndicators string "string option" | SeedSettings string WindowKind "string option"
  | DropIndicators "string list" | DropSettings "string list"
  | RestoreIndicators string json | RestoreSettings string json

record Store = Persisted +
  chartRuntime :: "string \<Rightarrow> ChartWindowRuntime option"
  canvasSize :: "Canvas option"
  maximizedId :: "string option"
  pendingNormalize :: bool
  blockedActivation :: "string option"
  the_tab :: Tab
  effects :: "Effect list"
  objects :: nat

definition EMPTY_RUNTIME :: ChartWindowRuntime where
  "EMPTY_RUNTIME = \<lparr>historicalFromDate = None, lastMinuteHistoricalFromDate = None,
     lastMinuteHistoricalTimeframe = None, hogaplaySource = Some False, secondRange = None, secondViewport = None\<rparr>"

definition hydrate :: "Persisted \<times> bool \<times> Tab \<Rightarrow> Store" where
  "hydrate r = (case r of (p, pending, t) \<Rightarrow> Persisted.extend p
     \<lparr>chartRuntime = (\<lambda>_. None), canvasSize = None, maximizedId = None, pendingNormalize = pending,
      blockedActivation = None, the_tab = t,
      effects = map (\<lambda>w. SeedSettings (w_id w) (w_kind w) None) (windows p), objects = 0\<rparr>)"

text \<open>\<open>persistFromState({ ...state, ...next })\<close>.\<close>

definition persist :: "Store \<Rightarrow> Store" where
  "persist s = s\<lparr>the_tab := persistFromState s (the_tab s)\<rparr>"

definition call :: "Effect list \<Rightarrow> Store \<Rightarrow> Store" where
  "call es s = s\<lparr>effects := effects s @ es\<rparr>"

definition write_shared :: "StorageKey \<Rightarrow> json \<Rightarrow> Store \<Rightarrow> Store" where
  "write_shared k v s = s\<lparr>the_tab := (the_tab s)\<lparr>sharedStorage := persistJson k v (sharedStorage (the_tab s))\<rparr>\<rparr>"

definition shared :: "Store \<Rightarrow> Storage" where "shared s = sharedStorage (the_tab s)"

definition clearedChartRuntime ::
    "(string \<Rightarrow> ChartWindowRuntime option) \<Rightarrow> string list \<Rightarrow> string \<Rightarrow> ChartWindowRuntime option" where
  "clearedChartRuntime runtime ids = (\<lambda>i. if i \<in> set ids then None else runtime i)"

definition has_window :: "(WorkspaceWindow \<Rightarrow> bool) \<Rightarrow> string \<Rightarrow> Store \<Rightarrow> bool" where
  "has_window P i s \<longleftrightarrow> list_ex (\<lambda>w. w_id w = i \<and> P w) (windows s)"

definition window_with :: "(WorkspaceWindow \<Rightarrow> bool) \<Rightarrow> string \<Rightarrow> Store \<Rightarrow> WorkspaceWindow option" where
  "window_with P i s = find (\<lambda>w. w_id w = i \<and> P w) (windows s)"

abbreviation of_kind :: "WindowKind \<Rightarrow> WorkspaceWindow \<Rightarrow> bool" where
  "of_kind k w \<equiv> w_kind w = k"

abbreviation any_kind :: "WorkspaceWindow \<Rightarrow> bool" where "any_kind w \<equiv> True"

text \<open>Replaces the windows and writes: the tail of most actions.\<close>

definition put_windows :: "(WorkspaceWindow \<Rightarrow> WorkspaceWindow) \<Rightarrow> Store \<Rightarrow> Store" where
  "put_windows f s = persist (s\<lparr>windows := map f (windows s)\<rparr>)"

definition at_id :: "string \<Rightarrow> (WorkspaceWindow \<Rightarrow> WorkspaceWindow) \<Rightarrow> WorkspaceWindow \<Rightarrow> WorkspaceWindow" where
  "at_id i f w = (if w_id w = i then f w else w)"

definition pinnable :: "WorkspaceWindow \<Rightarrow> bool" where
  "pinnable w \<longleftrightarrow> w_kind w \<noteq> MarketIndicesWindow \<and> w_kind w \<noteq> AccountFills"

definition display :: "'a Persisted_scheme \<Rightarrow> WorkspaceWindow \<Rightarrow> GroupSymbol option" where
  "display s w = windowSymbolOf (groupSymbols s) (Some w)"

subsection \<open>Last settings for new windows\<close>

text \<open>\<open>state/windowPreferenceMemory.ts\<close> and the memory of \<open>state/orderWindowSettings.ts\<close>.\<close>

definition stored_settings :: "StorageKey \<Rightarrow> Storage \<Rightarrow> json option" where
  "stored_settings k st =
     (let v = readJsonObject k st in
      if member v ''schema_version'' = Some (JNum 1)
      then (case member v ''settings'' of Some (JObj ms) \<Rightarrow> Some (JObj ms) | _ \<Rightarrow> None) else None)"

definition settings_record :: "json \<Rightarrow> json" where
  "settings_record v = JObj [(''schema_version'', JNum 1), (''settings'', v)]"

definition readLastWindowPreferences :: "StorageKey \<Rightarrow> Store \<Rightarrow> json option" where
  "readLastWindowPreferences k s = stored_settings k (shared s)"

definition rememberWindowPreferences :: "StorageKey \<Rightarrow> json \<Rightarrow> Store \<Rightarrow> Store" where
  "rememberWindowPreferences k v s = write_shared k (settings_record v) s"

definition renormalized :: "OrderWindowSettings \<Rightarrow> OrderWindowSettings" where
  "renormalized v = normalizeOrderSettings (Some (order_json v))"

definition readLastOrderSettings :: "Store \<Rightarrow> OrderWindowSettings option" where
  "readLastOrderSettings s = map_option (\<lambda>v. normalizeOrderSettings (Some v)) (stored_settings OrderSettingsKey (shared s))"

definition rememberLastOrderSettings :: "OrderWindowSettings \<Rightarrow> Store \<Rightarrow> Store" where
  "rememberLastOrderSettings v s = write_shared OrderSettingsKey (settings_record (order_json (renormalized v))) s"

text \<open>\<open>capture\<close>: the window settings and the indicators of the window, as members.\<close>

definition rememberChartPreferences :: "(string \<times> json) list \<Rightarrow> string \<Rightarrow> Store \<Rightarrow> Store" where
  "rememberChartPreferences capture i s = (case window_with (of_kind ChartWindow) i s of
     None \<Rightarrow> s
   | Some w \<Rightarrow> rememberWindowPreferences ChartPreferenceKey
       (JObj ((''chart'', chart_json (case w_chart w of Some c \<Rightarrow> c | None \<Rightarrow> plain_chart M1)) # capture))
       (call [SeedIndicators i None, SeedSettings i ChartWindow None] s))"

subsection \<open>Focus, canvas, stacking\<close>

definition setCanvasSize :: "Canvas \<Rightarrow> Store \<Rightarrow> Store" where
  "setCanvasSize c s = s\<lparr>canvasSize := Some c\<rparr>"

definition focusWindow :: "string \<Rightarrow> Store \<Rightarrow> Store" where
  "focusWindow i s =
     (if zOrder s \<noteq> [] \<and> last (zOrder s) = i then s
      else if \<not> has_window any_kind i s then s
      else (persist (s\<lparr>zOrder := filter (\<lambda>j. j \<noteq> i) (zOrder s) @ [i]\<rparr>))\<lparr>maximizedId := None\<rparr>)"

definition toggleMaximize :: "string \<Rightarrow> Store \<Rightarrow> Store" where
  "toggleMaximize i s =
     (if \<not> has_window any_kind i s then s
      else let t = focusWindow i s in t\<lparr>maximizedId := (if maximizedId t = Some i then None else Some i)\<rparr>)"

definition toggleAlwaysOnTop :: "string \<Rightarrow> Store \<Rightarrow> Store" where
  "toggleAlwaysOnTop i s =
     (if \<not> has_window any_kind i s then s
      else put_windows (at_id i (\<lambda>w. w\<lparr>alwaysOnTop := Some (alwaysOnTop w \<noteq> Some True)\<rparr>)) s)"

subsection \<open>Windows\<close>

definition REFERENCE_CANVAS :: Canvas where "REFERENCE_CANVAS = \<lparr>canvas_w = 1546, canvas_h = 776\<rparr>"

definition BOOK_WINDOW_DEFAULT_W :: rat where "BOOK_WINDOW_DEFAULT_W = of_int (js_round ((479 + 32) * (8 / 10)))"

fun DEFAULT_SIZE :: "WindowKind \<Rightarrow> rat \<times> rat" where
  "DEFAULT_SIZE ChartWindow = (520, 360)"
| "DEFAULT_SIZE BookWindow = (BOOK_WINDOW_DEFAULT_W, 560)"
| "DEFAULT_SIZE OrderWindow = (576, 720)"
| "DEFAULT_SIZE AccountFills = (720, 460)"
| "DEFAULT_SIZE BrokerWindow = (280, 310)"
| "DEFAULT_SIZE TradeWindow = (268, 330)"
| "DEFAULT_SIZE ProgramTradeWindow = (300, 330)"
| "DEFAULT_SIZE VdistWindow = (300, 240)"
| "DEFAULT_SIZE ProgramWindow = (320, 240)"
| "DEFAULT_SIZE InvestorWindow = (400, 300)"
| "DEFAULT_SIZE InvestorDailyWindow = (560, 420)"
| "DEFAULT_SIZE NewsWindow = (420, 480)"
| "DEFAULT_SIZE SectorRankingWindow = (560, 360)"
| "DEFAULT_SIZE MarketIndicesWindow = (660, 215)"

text \<open>The cascade of new windows.\<close>

definition new_rect :: "WindowKind \<Rightarrow> Canvas \<Rightarrow> nat \<Rightarrow> Rect" where
  "new_rect k c n = (case DEFAULT_SIZE k of (w, h) \<Rightarrow>
     let fw = min 1 (w / canvas_w c); fh = min 1 (h / canvas_h c); off = 24 + of_nat ((n * 28) mod 200)
     in \<lparr>rx = min (off / canvas_w c) (1 - fw), ry = min (off / canvas_h c) (1 - fh), rw = fw, rh = fh\<rparr>)"

definition new_chart :: "WorkspaceWindow \<Rightarrow> WorkspaceWindow option \<Rightarrow> json option \<Rightarrow> ChartWindowConfig option" where
  "new_chart win src lastChart = (case Option.bind src w_chart of
     Some c \<Rightarrow> Some c
   | None \<Rightarrow> (case lastChart of
       Some prefs \<Rightarrow> Option.bind (readWindow (case window_json win of
            JObj ms \<Rightarrow> JObj (ms @ opt_member ''chart'' id (member prefs ''chart'')) | v \<Rightarrow> v) False True) w_chart
     | None \<Rightarrow> Some (plain_chart M1)))"

text \<open>The order settings a new order window starts from: the last ones, or those of the topmost order window.\<close>

definition previous_order :: "Store \<Rightarrow> OrderWindowSettings option" where
  "previous_order s = (case readLastOrderSettings s of
     Some v \<Rightarrow> Some v
   | None \<Rightarrow> Option.bind (find (\<lambda>w. w_order w \<noteq> None)
       (List.map_filter (\<lambda>i. window_with (of_kind OrderWindow) i s) (rev (zOrder s)))) w_order)"

definition new_window :: "string \<Rightarrow> WindowKind \<Rightarrow> json option \<Rightarrow> Store \<Rightarrow> WorkspaceWindow" where
  "new_window i k lastChart s =
     (let canvas = (case canvasSize s of Some c \<Rightarrow> c | None \<Rightarrow> REFERENCE_CANVAS);
          win = plain_window i k (activeGroupOf s) (new_rect k canvas (length (windows s)))
      in win\<lparr>w_chart := (if k = ChartWindow then new_chart win (focusedChart s) lastChart else None),
             tradeMinAmountManwon := (if k = TradeWindow
               then amount_reader (Option.bind (readLastWindowPreferences TradePreferenceKey s) (\<lambda>p. member p ''minAmountManwon''))
               else None),
             newsLinkedOnly := (if k = NewsWindow
               then json_bool (Option.bind (readLastWindowPreferences NewsPreferenceKey s) (\<lambda>p. member p ''linkedOnly''))
               else None),
             w_order := (if k = OrderWindow then map_option renormalized (previous_order s) else None)\<rparr>)"

definition addWindow :: "string \<Rightarrow> WindowKind \<Rightarrow> Store \<Rightarrow> Store" where
  "addWindow i k s =
     (let source = (if k = ChartWindow then map_option w_id (focusedChart s) else None);
          lastChart = (if k = ChartWindow \<and> source = None then readLastWindowPreferences ChartPreferenceKey s else None);
          win = new_window i k lastChart s;
          s1 = (if k = OrderWindow \<and> readLastOrderSettings s = None
                then (case previous_order s of Some v \<Rightarrow> rememberLastOrderSettings v s | None \<Rightarrow> s) else s);
          s2 = persist (s1\<lparr>windows := windows s @ [normalizeUsWindow win (groupSymbols s (w_group win))],
                 zOrder := zOrder s @ [i], maximizedId := None\<rparr>);
          s3 = call ((if k = ChartWindow then [SeedIndicators i source] else []) @ [SeedSettings i k source]) s2
      in (case lastChart of None \<Rightarrow> s3 | Some p \<Rightarrow> call [RestoreIndicators i p, RestoreSettings i p] s3))"

text \<open>The preferences of the last window of its kind are remembered when nothing was remembered yet.\<close>

definition remember_closing :: "(string \<times> json) list \<Rightarrow> string \<Rightarrow> Store \<Rightarrow> Store" where
  "remember_closing capture i s = (case window_with any_kind i s of
     None \<Rightarrow> s
   | Some w \<Rightarrow>
       if w_kind w = ChartWindow \<and> readLastWindowPreferences ChartPreferenceKey s = None
       then rememberChartPreferences capture i s
       else if w_kind w = TradeWindow \<and> readLastWindowPreferences TradePreferenceKey s = None
       then rememberWindowPreferences TradePreferenceKey
         (JObj [(''minAmountManwon'', JNum (case tradeMinAmountManwon w of Some a \<Rightarrow> a | None \<Rightarrow> 0))]) s
       else if w_kind w = NewsWindow \<and> readLastWindowPreferences NewsPreferenceKey s = None
       then rememberWindowPreferences NewsPreferenceKey
         (JObj [(''linkedOnly'', JBool (case newsLinkedOnly w of Some b \<Rightarrow> b | None \<Rightarrow> True))]) s
       else s)"

definition history_of :: "string \<Rightarrow> WorkspaceWindow \<Rightarrow> bool" where
  "history_of i w \<longleftrightarrow> (case executionHistory w of Some h \<Rightarrow> sourceOrderId h = Some i | None \<Rightarrow> False)"

definition set_history :: "TradingAccountId option \<Rightarrow> GroupSymbol option \<Rightarrow> WorkspaceWindow \<Rightarrow> WorkspaceWindow" where
  "set_history a symbol w = w\<lparr>executionHistory := map_option (\<lambda>h. h\<lparr>ex_account := a, ex_symbol := symbol\<rparr>) (executionHistory w)\<rparr>"

text \<open>An execution window whose order window closes keeps the account and the symbol it had.\<close>

definition closing_window :: "WorkspaceWindow option \<Rightarrow> Store \<Rightarrow> string \<Rightarrow> WorkspaceWindow \<Rightarrow> WorkspaceWindow" where
  "closing_window closing s i w = (case closing of
     Some c \<Rightarrow> if history_of i w then set_history (orderAccount c) (display s c) w else w
   | None \<Rightarrow> w)"

definition closeWindow :: "(string \<times> json) list \<Rightarrow> string \<Rightarrow> Store \<Rightarrow> Store" where
  "closeWindow capture i s0 =
     (let s = remember_closing capture i s0;
          closing = window_with (of_kind OrderWindow) i s;
          s1 = (case Option.bind closing w_order of
                  Some v \<Rightarrow> if readLastOrderSettings s = None then rememberLastOrderSettings v s else s
                | None \<Rightarrow> s);
          s2 = persist (s1\<lparr>maximizedId := (if maximizedId s = Some i then None else maximizedId s),
                 windows := map (closing_window closing s i) (filter (\<lambda>w. w_id w \<noteq> i) (windows s)),
                 zOrder := filter (\<lambda>j. j \<noteq> i) (zOrder s),
                 chartRuntime := clearedChartRuntime (chartRuntime s) [i]\<rparr>)
      in call [DropIndicators [i], DropSettings [i]] s2)"

subsection \<open>Order and execution windows\<close>

text \<open>The account arrives from the network as untyped JSON.\<close>

definition setOrderAccount :: "string \<Rightarrow> json \<Rightarrow> Store \<Rightarrow> Store" where
  "setOrderAccount i v s = (case validTradingAccount (Some v) of
     None \<Rightarrow> s
   | Some a \<Rightarrow> (case window_with (of_kind OrderWindow) i s of
       None \<Rightarrow> s
     | Some source \<Rightarrow>
         if orderAccount source = Some a then s
         else put_windows (\<lambda>w. if w_id w = i then w\<lparr>orderAccount := Some a\<rparr>
           else if w_kind w = AccountFills \<and> history_of i w then set_history (Some a) (display s source) w
           else w) s))"

definition setExecutionWindowConfig :: "string \<Rightarrow> json \<Rightarrow> Store \<Rightarrow> Store" where
  "setExecutionWindowConfig i config s =
     put_windows (\<lambda>w. if w_id w = i \<and> w_kind w = AccountFills
       then w\<lparr>executionHistory := Some (readExecutionConfig (Some config) True)\<rparr> else w) s"

text \<open>The id of the execution window, and the store; \<open>i\<close> is the id a new window gets.\<close>

definition openExecutionHistory :: "string \<Rightarrow> string \<Rightarrow> json \<Rightarrow> Store \<Rightarrow> string option \<times> Store" where
  "openExecutionHistory i sourceId account s =
     (case (window_with (of_kind OrderWindow) sourceId s, validTradingAccount (Some account)) of
        (Some source, Some a) \<Rightarrow>
          (let s1 = setOrderAccount sourceId account s in
           case find (\<lambda>w. w_kind w = AccountFills \<and> history_of sourceId w) (windows s1) of
             Some previous \<Rightarrow> (Some (w_id previous), focusWindow (w_id previous) s1)
           | None \<Rightarrow>
               (let s2 = addWindow i AccountFills s1 in
                (Some i, setExecutionWindowConfig i (history_json \<lparr>sourceOrderId = Some sourceId, ex_account = Some a,
                   ex_symbol = display s2 source, ex_side = None, currentSymbolOnly = None\<rparr>) s2)))
      | _ \<Rightarrow> (None, s))"

definition setOrderWindowSettings :: "string \<Rightarrow> OrderWindowSettings \<Rightarrow> Store \<Rightarrow> Store" where
  "setOrderWindowSettings i settings s =
     (if \<not> validOrderSettings settings \<or> \<not> has_window (of_kind OrderWindow) i s then s
      else put_windows (at_id i (\<lambda>w. w\<lparr>w_order := Some (renormalized settings)\<rparr>))
        (rememberLastOrderSettings settings s))"

definition setTradeMinAmountManwon :: "string \<Rightarrow> rat \<Rightarrow> Store \<Rightarrow> Store" where
  "setTradeMinAmountManwon i amount s =
     (if \<not> isTradeMinAmountManwon amount then s
      else case window_with (of_kind TradeWindow) i s of
          None \<Rightarrow> s
        | Some win \<Rightarrow>
            let s1 = rememberWindowPreferences TradePreferenceKey (JObj [(''minAmountManwon'', JNum amount)]) s
            in if (case tradeMinAmountManwon win of Some a \<Rightarrow> a | None \<Rightarrow> 0) = amount then s1
               else put_windows (at_id i (\<lambda>w. w\<lparr>tradeMinAmountManwon := Some amount\<rparr>)) s1)"

definition setNewsLinkedOnly :: "string \<Rightarrow> bool \<Rightarrow> Store \<Rightarrow> Store" where
  "setNewsLinkedOnly i linkedOnly s =
     (if \<not> has_window (of_kind NewsWindow) i s then s
      else put_windows (at_id i (\<lambda>w. w\<lparr>newsLinkedOnly := Some linkedOnly\<rparr>))
        (rememberWindowPreferences NewsPreferenceKey (JObj [(''linkedOnly'', JBool linkedOnly)]) s))"

subsection \<open>Rectangles\<close>

definition setWindowRect :: "string \<Rightarrow> Rect \<Rightarrow> Store \<Rightarrow> Store" where
  "setWindowRect i r s = put_windows (at_id i (\<lambda>w. w\<lparr>w_rect := r\<rparr>)) s"

definition setWindowRects :: "(string \<times> Rect) list \<Rightarrow> Store \<Rightarrow> Store" where
  "setWindowRects updates s =
     (if updates = [] then s
      else put_windows (\<lambda>w. case map_of (rev updates) (w_id w) of Some r \<Rightarrow> w\<lparr>w_rect := r\<rparr> | None \<Rightarrow> w) s)"

definition normalizeLegacyRects :: "Canvas \<Rightarrow> Store \<Rightarrow> Store" where
  "normalizeLegacyRects c s =
     (if \<not> pendingNormalize s then s
      else (put_windows (\<lambda>w. w\<lparr>w_rect := toFrac (w_rect w) c\<rparr>) s)\<lparr>pendingNormalize := False\<rparr>)"

subsection \<open>Symbols, groups and pins\<close>

definition setWindowGroup :: "string \<Rightarrow> rat \<Rightarrow> Store \<Rightarrow> Store" where
  "setWindowGroup i group_arg s = (case read_group group_arg of
     None \<Rightarrow> s
   | Some g \<Rightarrow> (case find_window (windows s) i of
       None \<Rightarrow> s
     | Some prev \<Rightarrow>
         if w_group prev = g then s
         else let t = put_windows (at_id i (\<lambda>w. normalizeUsWindow (w\<lparr>w_group := g\<rparr>)
                   (case pinned w of Some p \<Rightarrow> Some p | None \<Rightarrow> groupSymbols s g))) s
              in if pinned prev \<noteq> None then t
                 else t\<lparr>chartRuntime := clearedChartRuntime (chartRuntime s) [i]\<rparr>))"

text \<open>A code with the prefix of US stocks is a US stock.\<close>

definition classified :: "GroupSymbol \<Rightarrow> GroupSymbol" where
  "classified symbol = (if us_stock_prefix (sym_code symbol) then symbol\<lparr>sym_kind := Some UsStockSymbol\<rparr> else symbol)"

definition setGroupSymbol :: "rat \<Rightarrow> GroupSymbol \<Rightarrow> Store \<Rightarrow> Store" where
  "setGroupSymbol group_arg symbol0 s =
     (let symbol = classified symbol0 in case read_group group_arg of
       None \<Rightarrow> s
     | Some g \<Rightarrow>
         let follows = (\<lambda>w. w_group w = g \<and> pinned w = None)
         in (put_windows (\<lambda>w. if follows w then normalizeUsWindow w (Some symbol) else w)
              (s\<lparr>groupSymbols := (groupSymbols s)(g \<mapsto> symbol)\<rparr>))
            \<lparr>chartRuntime := clearedChartRuntime (chartRuntime s) (map w_id (filter follows (windows s)))\<rparr>)"

definition toggleWindowPin :: "string \<Rightarrow> Store \<Rightarrow> Store" where
  "toggleWindowPin i s = (case find_window (windows s) i of
     None \<Rightarrow> s
   | Some win \<Rightarrow>
       if \<not> pinnable win then s
       else let next = display s win in
         if pinned win = None \<and> next = None then s
         else let t = put_windows (at_id i (\<lambda>w. if pinned w \<noteq> None then withoutPin w else w\<lparr>pinned := next\<rparr>)) s
              in (case pinned win of
                   None \<Rightarrow> t
                 | Some p \<Rightarrow>
                     if map_option sym_code (groupSymbols s (w_group win)) = Some (sym_code p) then t
                     else t\<lparr>chartRuntime := clearedChartRuntime (chartRuntime s) [i]\<rparr>))"

text \<open>Pins a window to what it shows, unless it is pinned, cannot be pinned or shows nothing.\<close>

definition pin_to_display :: "Store \<Rightarrow> string list \<Rightarrow> WorkspaceWindow \<Rightarrow> WorkspaceWindow" where
  "pin_to_display s ids w =
     (if w_id w \<in> set ids \<and> pinned w = None \<and> pinnable w \<and> display s w \<noteq> None
      then w\<lparr>pinned := display s w\<rparr> else w)"

definition restoreTransferredPins :: "Store \<Rightarrow> Store" where
  "restoreTransferredPins s = (case pendingTransferPinIds s of
     None \<Rightarrow> s
   | Some ids \<Rightarrow> if ids = [] then s else put_windows (pin_to_display s ids) (s\<lparr>pendingTransferPinIds := None\<rparr>))"

definition pinWindows :: "string list \<Rightarrow> Store \<Rightarrow> Store" where
  "pinWindows ids s =
     (if list_ex (\<lambda>w. w_id w \<in> set ids \<and> pinned w = None \<and> pinnable w \<and> display s w \<noteq> None) (windows s)
      then put_windows (pin_to_display s ids) s else s)"

definition pinWindowToSymbol :: "string \<Rightarrow> GroupSymbol \<Rightarrow> Store \<Rightarrow> Store" where
  "pinWindowToSymbol i symbol s =
     (if \<not> has_window pinnable i s then s
      else (put_windows (at_id i (\<lambda>w. normalizeUsWindow (w\<lparr>pinned := Some symbol\<rparr>) (Some symbol))) s)
        \<lparr>chartRuntime := clearedChartRuntime (chartRuntime s) [i]\<rparr>)"

definition setWindowSymbol :: "string \<Rightarrow> GroupSymbol \<Rightarrow> Store \<Rightarrow> Store" where
  "setWindowSymbol i symbol0 s =
     (let symbol = classified symbol0 in case find_window (windows s) i of
       None \<Rightarrow> s
     | Some win \<Rightarrow>
         if w_kind win = AccountFills then s
         else if pinned win = None then setGroupSymbol (of_nat (w_group win)) symbol s
         else (put_windows (at_id i (\<lambda>w. normalizeUsWindow (w\<lparr>pinned := Some symbol\<rparr>) (Some symbol))) s)
           \<lparr>chartRuntime := clearedChartRuntime (chartRuntime s) [i]\<rparr>)"

definition reportBlockedActivation :: "string \<Rightarrow> Store \<Rightarrow> Store" where
  "reportBlockedActivation name s = s\<lparr>blockedActivation := Some name\<rparr>"

definition dismissBlockedActivation :: "Store \<Rightarrow> Store" where
  "dismissBlockedActivation s = s\<lparr>blockedActivation := None\<rparr>"

definition unpinAllWindows :: "Store \<Rightarrow> Store" where
  "unpinAllWindows s =
     (let pinnedIds = map w_id (filter (\<lambda>w. pinned w \<noteq> None) (windows s)) in
      if pinnedIds = [] then s
      else (put_windows withoutPin s)
        \<lparr>chartRuntime := clearedChartRuntime (chartRuntime s) pinnedIds, blockedActivation := None\<rparr>)"

definition healed :: "(string \<Rightarrow> string option) \<Rightarrow> GroupSymbol option \<Rightarrow> GroupSymbol option" where
  "healed resolve symbol = (case symbol of
     None \<Rightarrow> None
   | Some s \<Rightarrow>
       if sym_kind s = Some IndexSymbol \<or> sym_kind s = Some UsStockSymbol \<or> sym_name s \<noteq> sym_code s then None
       else (case resolve (sym_code s) of
           None \<Rightarrow> None
         | Some n \<Rightarrow> if n = [] \<or> n = sym_code s then None else Some (s\<lparr>sym_name := n\<rparr>)))"

definition heal :: "(string \<Rightarrow> string option) \<Rightarrow> GroupSymbol option \<Rightarrow> GroupSymbol option" where
  "heal resolve symbol = (case healed resolve symbol of Some n \<Rightarrow> Some n | None \<Rightarrow> symbol)"

definition backfillSymbolNames :: "(string \<Rightarrow> string option) \<Rightarrow> Store \<Rightarrow> Store" where
  "backfillSymbolNames resolve s =
     (if \<not> list_ex (\<lambda>g. healed resolve (groupSymbols s g) \<noteq> None) GROUP_IDS
         \<and> \<not> list_ex (\<lambda>w. healed resolve (pinned w) \<noteq> None) (windows s) then s
      else put_windows (\<lambda>w. w\<lparr>pinned := heal resolve (pinned w)\<rparr>)
        (s\<lparr>groupSymbols := (\<lambda>g. heal resolve (groupSymbols s g))\<rparr>))"

subsection \<open>Charts\<close>

definition chart_of :: "string \<Rightarrow> Store \<Rightarrow> ChartWindowConfig option" where
  "chart_of i s = Option.bind (find_window (windows s) i) w_chart"

text \<open>\<open>withChart\<close>: the windows with the chart of one replaced, when it has one.\<close>

definition withChart :: "string \<Rightarrow> (ChartWindowConfig \<Rightarrow> ChartWindowConfig) \<Rightarrow> Store \<Rightarrow> (WorkspaceWindow \<Rightarrow> WorkspaceWindow) option" where
  "withChart i f s = map_option (\<lambda>c. at_id i (\<lambda>w. w\<lparr>w_chart := Some (f c)\<rparr>)) (chart_of i s)"

definition set_chart_flag :: "(string \<times> json) list \<Rightarrow> string \<Rightarrow> (ChartWindowConfig \<Rightarrow> ChartWindowConfig) \<Rightarrow> Store \<Rightarrow> Store" where
  "set_chart_flag capture i f s = rememberChartPreferences capture i
     (case withChart i f s of None \<Rightarrow> s | Some u \<Rightarrow> put_windows u s)"

definition setChartRegularSessionOnly :: "(string \<times> json) list \<Rightarrow> string \<Rightarrow> bool \<Rightarrow> Store \<Rightarrow> Store" where
  "setChartRegularSessionOnly capture i b = set_chart_flag capture i (\<lambda>c. c\<lparr>regularSessionOnly := Some b\<rparr>)"

definition setChartHoverLinked :: "(string \<times> json) list \<Rightarrow> string \<Rightarrow> bool \<Rightarrow> Store \<Rightarrow> Store" where
  "setChartHoverLinked capture i b = set_chart_flag capture i (\<lambda>c. c\<lparr>hoverLinked := Some b\<rparr>)"

definition setChartIndicatorLegendsVisible :: "(string \<times> json) list \<Rightarrow> string \<Rightarrow> bool \<Rightarrow> Store \<Rightarrow> Store" where
  "setChartIndicatorLegendsVisible capture i b = set_chart_flag capture i (\<lambda>c. c\<lparr>indicatorLegendsVisible := Some b\<rparr>)"

definition runtime_of :: "string \<Rightarrow> Store \<Rightarrow> ChartWindowRuntime" where
  "runtime_of i s = (case chartRuntime s i of Some rt \<Rightarrow> rt | None \<Rightarrow> EMPTY_RUNTIME)"

definition set_runtime :: "string \<Rightarrow> ChartWindowRuntime \<Rightarrow> Store \<Rightarrow> Store" where
  "set_runtime i rt s = s\<lparr>chartRuntime := (chartRuntime s)(i \<mapsto> rt)\<rparr>"

text \<open>The viewport handed to the next second resolution: what the chart shows now, or the one still pending.\<close>

definition next_viewport :: "SecondTimeframeViewport option \<Rightarrow> string \<Rightarrow> LiveTimeframe \<Rightarrow> LiveTimeframe \<Rightarrow> Store
    \<Rightarrow> SecondTimeframeViewport option" where
  "next_viewport captured i prevTf tf s =
     (if prevTf \<noteq> tf \<and> isSecondTimeframe prevTf \<and> isSecondTimeframe tf
      then (case captureSecondTimeframeViewport captured tf
                (map_option sym_code (windowSymbolOf (groupSymbols s) (find_window (windows s) i))) of
              Some v \<Rightarrow> Some v
            | None \<Rightarrow> map_option (\<lambda>(_, v). v\<lparr>vp_target := tf\<rparr>) (secondViewport (runtime_of i s)))
      else None)"

text \<open>The runtime after a switch: the minute window is remembered with the timeframe that made it.\<close>

definition next_runtime :: "SecondTimeframeViewport option \<Rightarrow> string \<Rightarrow> LiveTimeframe \<Rightarrow> LiveTimeframe \<Rightarrow> Store \<Rightarrow> ChartWindowRuntime" where
  "next_runtime captured i prevTf tf s =
     (let rt = runtime_of i s;
          fresh = (isMinuteTimeframe prevTf \<and> historicalFromDate rt \<noteq> None)
      in \<lparr>historicalFromDate = None,
          lastMinuteHistoricalFromDate = (if fresh then historicalFromDate rt else lastMinuteHistoricalFromDate rt),
          lastMinuteHistoricalTimeframe = (if fresh then Some prevTf else lastMinuteHistoricalTimeframe rt),
          hogaplaySource = Some (isMinuteTimeframe tf \<and> hogaplaySource rt = Some True),
          secondRange = (if isSecondTimeframe prevTf \<and> isSecondTimeframe tf then secondRange rt else None),
          secondViewport = map_option (\<lambda>v. (objects s, v)) (next_viewport captured i prevTf tf s)\<rparr>)"

definition setChartTimeframe ::
    "(string \<times> json) list \<Rightarrow> SecondTimeframeViewport option \<Rightarrow> string \<Rightarrow> LiveTimeframe \<Rightarrow> Store \<Rightarrow> Store" where
  "setChartTimeframe capture captured i tf0 s =
     (let tf = symbolTimeframe (windowSymbolOf (groupSymbols s) (find_window (windows s) i)) tf0;
          chart = (\<lambda>c. c\<lparr>chart_timeframe := tf,
            lastMinuteTimeframe := (if isMinuteTimeframe tf then Some tf else lastMinuteTimeframe c)\<rparr>)
      in rememberChartPreferences capture i
        (case (chart_of i s, withChart i chart s) of
           (Some prev, Some u) \<Rightarrow>
             (put_windows u s)
               \<lparr>chartRuntime := (chartRuntime s)(i \<mapsto> next_runtime captured i (chart_timeframe prev) tf s),
                objects := Suc (objects s)\<rparr>
         | _ \<Rightarrow> s))"

definition setSecondChartRange :: "string \<Rightarrow> (rat \<times> rat) option \<Rightarrow> Store \<Rightarrow> Store" where
  "setSecondChartRange i rg s = (case chart_of i s of
     None \<Rightarrow> s
   | Some c \<Rightarrow>
       if \<not> isSecondTimeframe (chart_timeframe c) then s
       else if (case rg of Some (a, b) \<Rightarrow> b < a | None \<Rightarrow> False) then s
       else let old = runtime_of i s in
         set_runtime i (old\<lparr>secondViewport := None,
           secondRange := map_option (\<lambda>(a, b). (a, b, (case secondRange old of Some (_, _, n) \<Rightarrow> n | None \<Rightarrow> 0) + 1)) rg\<rparr>) s)"

definition consumeSecondViewport :: "string \<Rightarrow> nat \<Rightarrow> Store \<Rightarrow> Store" where
  "consumeSecondViewport i expected s = (case chartRuntime s i of
     None \<Rightarrow> s
   | Some rt \<Rightarrow> if map_option fst (secondViewport rt) = Some expected
       then set_runtime i (rt\<lparr>secondViewport := None\<rparr>) s else s)"

definition has_chart :: "WorkspaceWindow \<Rightarrow> bool" where "has_chart w \<longleftrightarrow> w_chart w \<noteq> None"

definition extendChartHistoricalRange :: "string \<Rightarrow> ymd \<Rightarrow> Store \<Rightarrow> Store" where
  "extendChartHistoricalRange i from_date s =
     (if \<not> has_window has_chart i s then s
      else let rt = runtime_of i s in
        if (case historicalFromDate rt of Some d \<Rightarrow> d \<le> from_date | None \<Rightarrow> False) then s
        else set_runtime i (rt\<lparr>historicalFromDate := Some from_date\<rparr>) s)"

definition contractChartHistoricalRange :: "string \<Rightarrow> ymd \<Rightarrow> Store \<Rightarrow> Store" where
  "contractChartHistoricalRange i from_date s =
     (if \<not> has_window has_chart i s then s
      else let rt = runtime_of i s in
        if (case historicalFromDate rt of Some d \<Rightarrow> from_date \<le> d | None \<Rightarrow> True) then s
        else set_runtime i (rt\<lparr>historicalFromDate := Some from_date\<rparr>) s)"

definition resetChartHistoricalRange :: "string \<Rightarrow> Store \<Rightarrow> Store" where
  "resetChartHistoricalRange i s = (case chartRuntime s i of
     None \<Rightarrow> s
   | Some rt \<Rightarrow> set_runtime i (rt\<lparr>historicalFromDate := None, lastMinuteHistoricalFromDate := None,
       lastMinuteHistoricalTimeframe := None\<rparr>) s)"

definition setChartHogaplaySource :: "string \<Rightarrow> bool \<Rightarrow> Store \<Rightarrow> Store" where
  "setChartHogaplaySource i b s = (case chart_of i s of
     None \<Rightarrow> s
   | Some c \<Rightarrow>
       if b \<and> \<not> isMinuteTimeframe (chart_timeframe c) then s
       else let rt = runtime_of i s in
         if (hogaplaySource rt = Some True) = b then s else set_runtime i (rt\<lparr>hogaplaySource := Some b\<rparr>) s)"

subsection \<open>Layout presets\<close>

text \<open>Windows of the preset with the id of a pinned window keep its pin; group symbols are untouched.\<close>

definition carry_pin :: "WorkspaceWindow list \<Rightarrow> WorkspaceWindow \<Rightarrow> WorkspaceWindow" where
  "carry_pin before w = (case map_of (rev (map (\<lambda>v. (w_id v, pinned v)) (filter (\<lambda>v. pinned v \<noteq> None) before))) (w_id w) of
     Some p \<Rightarrow> w\<lparr>pinned := p\<rparr> | None \<Rightarrow> w)"

definition fit_symbol :: "(GroupId \<Rightarrow> GroupSymbol option) \<Rightarrow> WorkspaceWindow \<Rightarrow> WorkspaceWindow" where
  "fit_symbol groups w = normalizeUsWindow w (case pinned w of Some p \<Rightarrow> Some p | None \<Rightarrow> groups (w_group w))"

definition applyWorkspaceSnapshot :: "(nat \<Rightarrow> string) \<Rightarrow> json \<Rightarrow> Store \<Rightarrow> Store" where
  "applyWorkspaceSnapshot mk snapshot s = (case normalizeWorkspaceSnapshot mk snapshot of (ws, z) \<Rightarrow>
     let s1 = (persist (s\<lparr>windows := map (\<lambda>w. fit_symbol (groupSymbols s) (carry_pin (windows s) w)) ws,
                zOrder := z, pendingTransferPinIds := None\<rparr>))
              \<lparr>chartRuntime := (\<lambda>_. None), maximizedId := None\<rparr>;
         removed = filter (\<lambda>i. i \<notin> set (map w_id (windows s1))) (map w_id (windows s))
     in call ([DropIndicators removed, DropSettings removed]
          @ map (\<lambda>w. SeedSettings (w_id w) (w_kind w) None) (windows s1)) s1)"

end
