(* ===== verification/WorkspaceActions.thy ===== *)
theory WorkspaceActions
  imports Workspace
begin

section \<open>The actions of the live workspace\<close>

text \<open>
  Every call another module can make on \<open>useWorkspaceStore\<close>, as a datatype, and what each keeps: the
  storage follows the state, the state stays well formed, a chart whose symbol changes starts afresh.
\<close>

datatype Action =
    SetCanvasSize Canvas
  | ToggleMaximize string
  | AddWindow string WindowKind
  | OpenExecutionHistory string string json
  | SetOrderAccount string json
  | SetExecutionWindowConfig string json
  | CloseWindow "(string \<times> json) list" string
  | FocusWindow string
  | ToggleAlwaysOnTop string
  | SetWindowRect string Rect
  | SetWindowRects "(string \<times> Rect) list"
  | SetWindowGroup string rat
  | SetOrderWindowSettings string OrderWindowSettings
  | SetTradeMinAmount string rat
  | SetNewsLinkedOnly string bool
  | SetGroupSymbol rat GroupSymbol
  | ToggleWindowPin string
  | RestoreTransferredPins
  | PinWindows "string list"
  | PinWindowToSymbol string GroupSymbol
  | SetWindowSymbol string GroupSymbol
  | ReportBlockedActivation string
  | DismissBlockedActivation
  | UnpinAllWindows
  | BackfillSymbolNames "string \<Rightarrow> string option"
  | NormalizeLegacyRects Canvas
  | SetChartRegularSessionOnly "(string \<times> json) list" string bool
  | SetChartHoverLinked "(string \<times> json) list" string bool
  | SetChartIndicatorLegendsVisible "(string \<times> json) list" string bool
  | SetChartTimeframe "(string \<times> json) list" "SecondTimeframeViewport option" string LiveTimeframe
  | SetSecondChartRange string "(rat \<times> rat) option"
  | ConsumeSecondViewport string nat
  | ExtendHistory string ymd
  | ContractHistory string ymd
  | ResetHistory string
  | SetHogaplaySource string bool
  | ApplySnapshot "nat \<Rightarrow> string" json

fun act :: "Action \<Rightarrow> Store \<Rightarrow> Store" where
  "act (SetCanvasSize c) s = setCanvasSize c s"
| "act (ToggleMaximize i) s = toggleMaximize i s"
| "act (AddWindow i k) s = addWindow i k s"
| "act (OpenExecutionHistory i j a) s = snd (openExecutionHistory i j a s)"
| "act (SetOrderAccount i a) s = setOrderAccount i a s"
| "act (SetExecutionWindowConfig i c) s = setExecutionWindowConfig i c s"
| "act (CloseWindow cp i) s = closeWindow cp i s"
| "act (FocusWindow i) s = focusWindow i s"
| "act (ToggleAlwaysOnTop i) s = toggleAlwaysOnTop i s"
| "act (SetWindowRect i r) s = setWindowRect i r s"
| "act (SetWindowRects rs) s = setWindowRects rs s"
| "act (SetWindowGroup i g) s = setWindowGroup i g s"
| "act (SetOrderWindowSettings i v) s = setOrderWindowSettings i v s"
| "act (SetTradeMinAmount i a) s = setTradeMinAmountManwon i a s"
| "act (SetNewsLinkedOnly i b) s = setNewsLinkedOnly i b s"
| "act (SetGroupSymbol g y) s = setGroupSymbol g y s"
| "act (ToggleWindowPin i) s = toggleWindowPin i s"
| "act RestoreTransferredPins s = restoreTransferredPins s"
| "act (PinWindows is) s = pinWindows is s"
| "act (PinWindowToSymbol i y) s = pinWindowToSymbol i y s"
| "act (SetWindowSymbol i y) s = setWindowSymbol i y s"
| "act (ReportBlockedActivation n) s = reportBlockedActivation n s"
| "act DismissBlockedActivation s = dismissBlockedActivation s"
| "act UnpinAllWindows s = unpinAllWindows s"
| "act (BackfillSymbolNames f) s = backfillSymbolNames f s"
| "act (NormalizeLegacyRects c) s = normalizeLegacyRects c s"
| "act (SetChartRegularSessionOnly cp i b) s = setChartRegularSessionOnly cp i b s"
| "act (SetChartHoverLinked cp i b) s = setChartHoverLinked cp i b s"
| "act (SetChartIndicatorLegendsVisible cp i b) s = setChartIndicatorLegendsVisible cp i b s"
| "act (SetChartTimeframe cp v i tf) s = setChartTimeframe cp v i tf s"
| "act (SetSecondChartRange i r) s = setSecondChartRange i r s"
| "act (ConsumeSecondViewport i n) s = consumeSecondViewport i n s"
| "act (ExtendHistory i d) s = extendChartHistoricalRange i d s"
| "act (ContractHistory i d) s = contractChartHistoricalRange i d s"
| "act (ResetHistory i) s = resetChartHistoricalRange i s"
| "act (SetHogaplaySource i b) s = setChartHogaplaySource i b s"
| "act (ApplySnapshot mk v) s = applyWorkspaceSnapshot mk v s"

definition acts :: "Action list \<Rightarrow> Store \<Rightarrow> Store" where "acts as s = foldl (\<lambda>t a. act a t) s as"

subsection \<open>What the parts of an action leave alone\<close>

lemma persist_simps [simp]:
  "windows (persist s) = windows s" "zOrder (persist s) = zOrder s" "groupSymbols (persist s) = groupSymbols s"
  "pendingTransferPinIds (persist s) = pendingTransferPinIds s" "chartRuntime (persist s) = chartRuntime s"
  "canvasSize (persist s) = canvasSize s" "maximizedId (persist s) = maximizedId s"
  "pendingNormalize (persist s) = pendingNormalize s" "blockedActivation (persist s) = blockedActivation s"
  "effects (persist s) = effects s" "objects (persist s) = objects s"
  "the_tab (persist s) = persistFromState s (the_tab s)"
  by (simp_all add: persist_def)

lemma call_simps [simp]:
  "windows (call es s) = windows s" "zOrder (call es s) = zOrder s" "groupSymbols (call es s) = groupSymbols s"
  "pendingTransferPinIds (call es s) = pendingTransferPinIds s" "chartRuntime (call es s) = chartRuntime s"
  "canvasSize (call es s) = canvasSize s" "maximizedId (call es s) = maximizedId s"
  "pendingNormalize (call es s) = pendingNormalize s" "blockedActivation (call es s) = blockedActivation s"
  "effects (call es s) = effects s @ es" "objects (call es s) = objects s" "the_tab (call es s) = the_tab s"
  by (simp_all add: call_def)

lemma write_simps [simp]:
  "windows (write_shared k v s) = windows s" "zOrder (write_shared k v s) = zOrder s"
  "groupSymbols (write_shared k v s) = groupSymbols s" "pendingTransferPinIds (write_shared k v s) = pendingTransferPinIds s"
  "chartRuntime (write_shared k v s) = chartRuntime s" "canvasSize (write_shared k v s) = canvasSize s"
  "maximizedId (write_shared k v s) = maximizedId s" "pendingNormalize (write_shared k v s) = pendingNormalize s"
  "blockedActivation (write_shared k v s) = blockedActivation s" "effects (write_shared k v s) = effects s"
  "objects (write_shared k v s) = objects s"
  "the_tab (write_shared k v s) = (the_tab s)\<lparr>sharedStorage := (sharedStorage (the_tab s))(k \<mapsto> v)\<rparr>"
  by (simp_all add: write_shared_def persistJson_def)

lemma put_simps [simp]:
  "windows (put_windows f s) = map f (windows s)" "zOrder (put_windows f s) = zOrder s"
  "groupSymbols (put_windows f s) = groupSymbols s" "pendingTransferPinIds (put_windows f s) = pendingTransferPinIds s"
  "chartRuntime (put_windows f s) = chartRuntime s" "canvasSize (put_windows f s) = canvasSize s"
  "maximizedId (put_windows f s) = maximizedId s" "pendingNormalize (put_windows f s) = pendingNormalize s"
  "blockedActivation (put_windows f s) = blockedActivation s" "effects (put_windows f s) = effects s"
  "objects (put_windows f s) = objects s"
  by (simp_all add: put_windows_def)

lemma runtime_simps [simp]:
  "windows (set_runtime i rt s) = windows s" "zOrder (set_runtime i rt s) = zOrder s"
  "groupSymbols (set_runtime i rt s) = groupSymbols s" "pendingTransferPinIds (set_runtime i rt s) = pendingTransferPinIds s"
  "chartRuntime (set_runtime i rt s) = (chartRuntime s)(i \<mapsto> rt)" "canvasSize (set_runtime i rt s) = canvasSize s"
  "maximizedId (set_runtime i rt s) = maximizedId s" "pendingNormalize (set_runtime i rt s) = pendingNormalize s"
  "blockedActivation (set_runtime i rt s) = blockedActivation s" "effects (set_runtime i rt s) = effects s"
  "objects (set_runtime i rt s) = objects s" "the_tab (set_runtime i rt s) = the_tab s"
  by (simp_all add: set_runtime_def)

lemma remember_chart_simps [simp]:
  "windows (rememberChartPreferences cp i s) = windows s" "zOrder (rememberChartPreferences cp i s) = zOrder s"
  "groupSymbols (rememberChartPreferences cp i s) = groupSymbols s"
  "pendingTransferPinIds (rememberChartPreferences cp i s) = pendingTransferPinIds s"
  "chartRuntime (rememberChartPreferences cp i s) = chartRuntime s"
  "canvasSize (rememberChartPreferences cp i s) = canvasSize s"
  "maximizedId (rememberChartPreferences cp i s) = maximizedId s"
  "pendingNormalize (rememberChartPreferences cp i s) = pendingNormalize s"
  "blockedActivation (rememberChartPreferences cp i s) = blockedActivation s"
  "objects (rememberChartPreferences cp i s) = objects s"
  by (simp_all add: rememberChartPreferences_def rememberWindowPreferences_def split: option.split)

lemma remember_simps [simp]:
  "windows (rememberWindowPreferences k v s) = windows s" "zOrder (rememberWindowPreferences k v s) = zOrder s"
  "groupSymbols (rememberWindowPreferences k v s) = groupSymbols s"
  "pendingTransferPinIds (rememberWindowPreferences k v s) = pendingTransferPinIds s"
  "chartRuntime (rememberWindowPreferences k v s) = chartRuntime s"
  "canvasSize (rememberWindowPreferences k v s) = canvasSize s" "maximizedId (rememberWindowPreferences k v s) = maximizedId s"
  "pendingNormalize (rememberWindowPreferences k v s) = pendingNormalize s"
  "blockedActivation (rememberWindowPreferences k v s) = blockedActivation s"
  "effects (rememberWindowPreferences k v s) = effects s" "objects (rememberWindowPreferences k v s) = objects s"
  by (simp_all add: rememberWindowPreferences_def)

lemma remember_order_simps [simp]:
  "windows (rememberLastOrderSettings v s) = windows s" "zOrder (rememberLastOrderSettings v s) = zOrder s"
  "groupSymbols (rememberLastOrderSettings v s) = groupSymbols s"
  "pendingTransferPinIds (rememberLastOrderSettings v s) = pendingTransferPinIds s"
  "chartRuntime (rememberLastOrderSettings v s) = chartRuntime s"
  "canvasSize (rememberLastOrderSettings v s) = canvasSize s" "maximizedId (rememberLastOrderSettings v s) = maximizedId s"
  "pendingNormalize (rememberLastOrderSettings v s) = pendingNormalize s"
  "blockedActivation (rememberLastOrderSettings v s) = blockedActivation s"
  "effects (rememberLastOrderSettings v s) = effects s" "objects (rememberLastOrderSettings v s) = objects s"
  by (simp_all add: rememberLastOrderSettings_def)

subsection \<open>The storage follows the state\<close>

text \<open>
  Either the persisted part and the stored workspace are as before, or the stored workspace is the
  snapshot of the new state: in the tab's own storage, and in the shared one exactly when the tab was
  not opened by a deep link.
\<close>

definition same_persisted :: "Store \<Rightarrow> Store \<Rightarrow> bool" where
  "same_persisted s t \<longleftrightarrow> windows t = windows s \<and> zOrder t = zOrder s \<and> groupSymbols t = groupSymbols s
     \<and> pendingTransferPinIds t = pendingTransferPinIds s"

definition own_workspace :: "Store \<Rightarrow> json option" where "own_workspace s = tabStorage (the_tab s) WorkspaceKey"
definition shared_workspace :: "Store \<Rightarrow> json option" where "shared_workspace s = sharedStorage (the_tab s) WorkspaceKey"
definition deep_link :: "Store \<Rightarrow> bool" where "deep_link s \<longleftrightarrow> deepLink (the_tab s)"

definition untouched :: "Store \<Rightarrow> Store \<Rightarrow> bool" where
  "untouched s t \<longleftrightarrow> own_workspace t = own_workspace s \<and> shared_workspace t = shared_workspace s \<and> deep_link t = deep_link s"

definition stored :: "Store \<Rightarrow> Store \<Rightarrow> bool" where
  "stored s t \<longleftrightarrow> own_workspace t = Some (snapshot_json t) \<and> deep_link t = deep_link s
     \<and> shared_workspace t = (if deep_link s then shared_workspace s else Some (snapshot_json t))"

definition follows :: "Store \<Rightarrow> Store \<Rightarrow> bool" where
  "follows s t \<longleftrightarrow> stored s t \<or> same_persisted s t \<and> untouched s t"

lemma follows_refl [simp, intro]: "follows s s"
  by (simp add: follows_def same_persisted_def untouched_def)

lemma snapshot_same: "same_persisted s t \<Longrightarrow> snapshot_json t = snapshot_json s"
  by (simp add: same_persisted_def snapshot_json_def)

lemma follows_trans: "follows s t \<Longrightarrow> follows t u \<Longrightarrow> follows s u"
  unfolding follows_def stored_def untouched_def
  by (auto simp: snapshot_same) (auto simp: same_persisted_def)

lemma untouched_persist: "untouched s t \<Longrightarrow> stored s (persist t)"
  by (simp add: untouched_def stored_def own_workspace_def shared_workspace_def deep_link_def persistFromState_def
      persistJson_def Let_def snapshot_json_def)

lemma untouched_updates [simp]:
  "untouched s (t\<lparr>windows := w\<rparr>) = untouched s t" "untouched s (t\<lparr>zOrder := z\<rparr>) = untouched s t"
  "untouched s (t\<lparr>groupSymbols := g\<rparr>) = untouched s t" "untouched s (t\<lparr>pendingTransferPinIds := p\<rparr>) = untouched s t"
  "untouched s (t\<lparr>chartRuntime := r\<rparr>) = untouched s t" "untouched s (t\<lparr>maximizedId := m\<rparr>) = untouched s t"
  "untouched s (t\<lparr>canvasSize := c\<rparr>) = untouched s t" "untouched s (t\<lparr>blockedActivation := b\<rparr>) = untouched s t"
  "untouched s (t\<lparr>effects := e\<rparr>) = untouched s t" "untouched s (t\<lparr>objects := n\<rparr>) = untouched s t"
  "untouched s s"
  by (simp_all add: untouched_def own_workspace_def shared_workspace_def deep_link_def)

lemma untouched_remember [simp]:
  "k \<noteq> WorkspaceKey \<Longrightarrow> untouched s (rememberWindowPreferences k v t) = untouched s t"
  "untouched s (rememberLastOrderSettings o' t) = untouched s t"
  "untouched s (call es t) = untouched s t"
  by (simp_all add: untouched_def own_workspace_def shared_workspace_def deep_link_def rememberWindowPreferences_def
      rememberLastOrderSettings_def)

lemma untouched_remember_chart [simp]: "untouched s (rememberChartPreferences cp i t) = untouched s t"
  by (simp add: rememberChartPreferences_def split: option.split)

lemma same_updates [simp]:
  "same_persisted s (t\<lparr>chartRuntime := r\<rparr>) = same_persisted s t" "same_persisted s (t\<lparr>maximizedId := m\<rparr>) = same_persisted s t"
  "same_persisted s (t\<lparr>canvasSize := c\<rparr>) = same_persisted s t" "same_persisted s (t\<lparr>blockedActivation := b\<rparr>) = same_persisted s t"
  "same_persisted s (t\<lparr>effects := e\<rparr>) = same_persisted s t" "same_persisted s (t\<lparr>objects := n\<rparr>) = same_persisted s t"
  "same_persisted s (rememberWindowPreferences k v t) = same_persisted s t"
  "same_persisted s (rememberLastOrderSettings o' t) = same_persisted s t"
  "same_persisted s (rememberChartPreferences cp i t) = same_persisted s t"
  "same_persisted s (call es t) = same_persisted s t" "same_persisted s (set_runtime i rt t) = same_persisted s t"
  "same_persisted s (t\<lparr>pendingNormalize := q\<rparr>) = same_persisted s t" "same_persisted s s"
  by (simp_all add: same_persisted_def)

lemma stored_updates [simp]:
  "stored s (t\<lparr>chartRuntime := r\<rparr>) = stored s t" "stored s (t\<lparr>maximizedId := m\<rparr>) = stored s t"
  "stored s (t\<lparr>canvasSize := c\<rparr>) = stored s t" "stored s (t\<lparr>blockedActivation := b\<rparr>) = stored s t"
  "stored s (t\<lparr>effects := e\<rparr>) = stored s t" "stored s (t\<lparr>objects := n\<rparr>) = stored s t"
  "stored s (t\<lparr>pendingNormalize := q\<rparr>) = stored s t" "stored s (call es t) = stored s t"
  by (simp_all add: stored_def own_workspace_def shared_workspace_def deep_link_def snapshot_json_def)

lemma stored_remember_chart [simp]: "stored s t \<Longrightarrow> stored s (rememberChartPreferences cp i t)"
  by (simp add: stored_def own_workspace_def shared_workspace_def deep_link_def snapshot_json_def
      rememberChartPreferences_def rememberWindowPreferences_def split: option.split)

lemma stored_put [simp]: "untouched s t \<Longrightarrow> stored s (put_windows f t)"
  by (simp add: put_windows_def untouched_persist)

lemma untouched_runtime [simp]: "untouched s (set_runtime i rt t) = untouched s t"
  by (simp add: untouched_def own_workspace_def shared_workspace_def deep_link_def)

lemma followsI: "untouched s t \<and> same_persisted s t \<or> stored s t \<Longrightarrow> follows s t"
  by (auto simp: follows_def)

end
