(* ===== verification/WorkspaceLaws.thy ===== *)
theory WorkspaceLaws
  imports WorkspaceActions
begin

section \<open>What the actions of the workspace keep\<close>

text \<open>
  For every action: the storage follows the state, and the state stays well formed.
\<close>

named_theorems action_defs "the definitions of the workspace actions"

lemmas [action_defs] = setCanvasSize_def focusWindow_def toggleMaximize_def toggleAlwaysOnTop_def addWindow_def
  closeWindow_def setOrderAccount_def setExecutionWindowConfig_def setOrderWindowSettings_def
  setTradeMinAmountManwon_def setNewsLinkedOnly_def setWindowRect_def setWindowRects_def normalizeLegacyRects_def
  setWindowGroup_def setGroupSymbol_def toggleWindowPin_def restoreTransferredPins_def pinWindows_def
  pinWindowToSymbol_def setWindowSymbol_def reportBlockedActivation_def dismissBlockedActivation_def
  unpinAllWindows_def backfillSymbolNames_def setChartRegularSessionOnly_def setChartHoverLinked_def
  setChartIndicatorLegendsVisible_def set_chart_flag_def setChartTimeframe_def setSecondChartRange_def
  consumeSecondViewport_def extendChartHistoricalRange_def contractChartHistoricalRange_def
  resetChartHistoricalRange_def setChartHogaplaySource_def applyWorkspaceSnapshot_def

lemma follows_focus: "follows s (focusWindow i s)"
  by (auto intro!: followsI simp: focusWindow_def untouched_persist)

lemma untouched_closing: "untouched s (remember_closing cp i t) = untouched s t"
  by (simp add: remember_closing_def split: option.split)

lemma same_closing: "same_persisted s (remember_closing cp i t) = same_persisted s t"
  by (simp add: remember_closing_def split: option.split)

lemma follows_add: "follows s (addWindow i k s)"
  by (rule followsI, rule disjI2) (simp add: addWindow_def Let_def untouched_persist split: option.split)

lemma follows_close: "follows s (closeWindow cp i s)"
  by (rule followsI, rule disjI2)
    (simp add: closeWindow_def Let_def untouched_persist untouched_closing split: option.split)

lemma follows_account: "follows s (setOrderAccount i a s)"
  by (rule followsI) (simp add: setOrderAccount_def split: option.split)

lemma follows_history: "follows s (snd (openExecutionHistory i j a s))"
proof -
  have "follows s (setExecutionWindowConfig i c (addWindow i AccountFills (setOrderAccount j a s)))" for c
  proof -
    have "follows t (setExecutionWindowConfig i c t)" for t by (rule followsI) (simp add: setExecutionWindowConfig_def)
    then show ?thesis using follows_trans [OF follows_trans [OF follows_account follows_add]] by blast
  qed
  moreover have "follows s (focusWindow l (setOrderAccount j a s))" for l
    by (rule follows_trans [OF follows_account follows_focus])
  ultimately show ?thesis by (auto simp: openExecutionHistory_def Let_def split: option.splits)
qed

lemma follows_maximize: "follows s (toggleMaximize i s)"
proof -
  have "follows s (t\<lparr>maximizedId := m\<rparr>) = follows s t" for t m by (simp add: follows_def)
  then show ?thesis using follows_focus by (simp add: toggleMaximize_def Let_def)
qed

lemma follows_timeframe: "follows s (setChartTimeframe cp v i tf s)"
  by (rule followsI) (auto simp: setChartTimeframe_def Let_def split: option.split)

lemma follows_snapshot: "follows s (applyWorkspaceSnapshot mk v s)"
  by (rule followsI, rule disjI2) (auto simp: applyWorkspaceSnapshot_def Let_def untouched_persist split: prod.split)

lemma follows_act: "follows s (act a s)"
proof (cases a)
  case (ApplySnapshot mk v) then show ?thesis by (simp add: follows_snapshot)
next
  case (SetChartTimeframe cp v i tf) then show ?thesis by (simp add: follows_timeframe)
next
  case (ToggleMaximize i) then show ?thesis by (simp add: follows_maximize)
next
  case (OpenExecutionHistory i j a) then show ?thesis by (simp add: follows_history)
next
  case (CloseWindow cp i) then show ?thesis by (simp add: follows_close)
next
  case (AddWindow i k) then show ?thesis by (simp add: follows_add)
next
  case (FocusWindow i) then show ?thesis by (simp add: follows_focus)
next
  case (SetOrderAccount i a) then show ?thesis by (simp add: follows_account)
next
  case (SetWindowSymbol i y) then show ?thesis
    by (auto intro!: followsI simp: setWindowSymbol_def setGroupSymbol_def Let_def split: option.split)
qed (auto intro!: followsI simp: action_defs Let_def split: option.split)

subsection \<open>The state stays well formed\<close>

text \<open>
  An omitted symbol kind is \<open>stock\<close>. Callers also write the kind out (\<open>ChartRecentTrades.tsx\<close>); the readers
  of the storage only ever give the omitted form. While the page runs a symbol may have either.
\<close>

definition unmarked :: "GroupSymbol \<Rightarrow> GroupSymbol" where
  "unmarked y = (if sym_kind y = Some StockSymbol then y\<lparr>sym_kind := None\<rparr> else y)"

definition live_symbol_ok :: "GroupSymbol \<Rightarrow> bool" where
  "live_symbol_ok y \<longleftrightarrow> symbol_ok (unmarked y)"

definition live_groups_ok :: "(GroupId \<Rightarrow> GroupSymbol option) \<Rightarrow> bool" where
  "live_groups_ok g \<longleftrightarrow> groups_ok (\<lambda>i. map_option unmarked (g i))"

definition unmarked_history :: "ExecutionWindowConfig \<Rightarrow> ExecutionWindowConfig" where
  "unmarked_history h = h\<lparr>ex_symbol := map_option unmarked (ex_symbol h)\<rparr>"

definition live_kind_ok :: "WorkspaceWindow \<Rightarrow> bool" where
  "live_kind_ok w \<longleftrightarrow> kind_ok (w\<lparr>pinned := map_option unmarked (pinned w),
     executionHistory := map_option unmarked_history (executionHistory w)\<rparr>)"

definition live_history_ok :: "ExecutionWindowConfig \<Rightarrow> bool" where
  "live_history_ok h \<longleftrightarrow> history_ok (unmarked_history h)"

lemma unmarked_same: "symbol_ok y \<Longrightarrow> unmarked y = y"
  by (auto simp: unmarked_def symbol_ok_def)

lemma unmarked_option: "pred_option symbol_ok v \<Longrightarrow> map_option unmarked v = v"
  by (cases v) (simp_all add: unmarked_same)

lemma live_symbol [simp]: "symbol_ok y \<Longrightarrow> live_symbol_ok y"
  by (simp add: live_symbol_ok_def unmarked_same)

lemma live_symbol_option [simp]: "pred_option symbol_ok (map_option unmarked v) = pred_option live_symbol_ok v"
  by (cases v) (simp_all add: live_symbol_ok_def)

lemma live_history_iff: "live_history_ok h \<longleftrightarrow> pred_option account_ok (ex_account h) \<and> pred_option live_symbol_ok (ex_symbol h)"
  by (simp add: live_history_ok_def unmarked_history_def history_ok_def)

lemma live_history_option [simp]: "pred_option history_ok (map_option unmarked_history v) = pred_option live_history_ok v"
  by (cases v) (simp_all add: live_history_ok_def)

lemma live_history [simp]: "history_ok h \<Longrightarrow> live_history_ok h"
  by (cases "ex_symbol h") (simp_all add: live_history_iff history_ok_def)

lemma live_groups_iff: "live_groups_ok g \<longleftrightarrow> (\<forall>i. pred_option live_symbol_ok (g i) \<and> (g i \<noteq> None \<longrightarrow> i \<in> set GROUP_IDS))"
  by (simp add: live_groups_ok_def groups_ok_def)

lemma live_groups: "groups_ok g \<Longrightarrow> live_groups_ok g"
  by (simp add: live_groups_ok_def groups_ok_def unmarked_option)

lemma live_kind_iff:
  "live_kind_ok w \<longleftrightarrow> w_group w \<in> set GROUP_IDS \<and> (w_chart w \<noteq> None \<longleftrightarrow> w_kind w = ChartWindow)
     \<and> pred_option (\<lambda>c. pred_option isMinuteTimeframe (lastMinuteTimeframe c)) (w_chart w)
     \<and> (w_order w \<noteq> None \<longrightarrow> w_kind w = OrderWindow) \<and> pred_option settings_ok (w_order w)
     \<and> (orderAccount w \<noteq> None \<longrightarrow> w_kind w = OrderWindow) \<and> pred_option account_ok (orderAccount w)
     \<and> (executionHistory w \<noteq> None \<longrightarrow> w_kind w = AccountFills) \<and> pred_option live_history_ok (executionHistory w)
     \<and> (tradeMinAmountManwon w \<noteq> None \<longrightarrow> w_kind w = TradeWindow)
     \<and> pred_option isTradeMinAmountManwon (tradeMinAmountManwon w)
     \<and> (newsLinkedOnly w \<noteq> None \<longrightarrow> w_kind w = NewsWindow)
     \<and> (pinned w \<noteq> None \<longrightarrow> w_kind w \<noteq> MarketIndicesWindow \<and> w_kind w \<noteq> AccountFills)
     \<and> pred_option live_symbol_ok (pinned w)"
  by (simp add: live_kind_ok_def kind_ok_def storable_def isFracRect_def)

lemma live_kind: "kind_ok w \<Longrightarrow> live_kind_ok w"
  by (cases "pinned w"; cases "executionHistory w") (auto simp: live_kind_iff kind_ok_def storable_def)

lemma us_keeps [simp]: "live_kind_ok w \<Longrightarrow> live_kind_ok (normalizeUsWindow w y)"
  by (cases "w_chart w") (auto simp: live_kind_iff normalizeUsWindow_def Let_def)

lemma unpinned_keeps [simp]: "live_kind_ok w \<Longrightarrow> live_kind_ok (withoutPin w)"
  by (simp add: live_kind_iff withoutPin_def)

definition positive_canvas :: "Canvas \<Rightarrow> bool" where "positive_canvas c \<longleftrightarrow> 0 < canvas_w c \<and> 0 < canvas_h c"

text \<open>A rectangle in pixels has a size; one in fractions can be reached.\<close>

definition rect_ok :: "bool \<Rightarrow> Rect \<Rightarrow> bool" where
  "rect_ok px r \<longleftrightarrow> 0 < rw r \<and> 0 < rh r \<and> (px \<or> isFracRect r)"

definition window_ok :: "bool \<Rightarrow> WorkspaceWindow \<Rightarrow> bool" where
  "window_ok px w \<longleftrightarrow> live_kind_ok w \<and> rect_ok px (w_rect w)"

definition ids_ok :: "Store \<Rightarrow> bool" where
  "ids_ok s \<longleftrightarrow> distinct (map w_id (windows s)) \<and> distinct (zOrder s) \<and> set (zOrder s) = set (map w_id (windows s))
     \<and> pred_option (\<lambda>i. i \<in> set (map w_id (windows s))) (maximizedId s)"

text \<open>The remembered minute window and the timeframe that made it go together.\<close>

definition runtime_ok :: "ChartWindowRuntime \<Rightarrow> bool" where
  "runtime_ok rt \<longleftrightarrow> (lastMinuteHistoricalFromDate rt = None \<longleftrightarrow> lastMinuteHistoricalTimeframe rt = None)
     \<and> pred_option isMinuteTimeframe (lastMinuteHistoricalTimeframe rt)"

definition runtimes_ok :: "Store \<Rightarrow> bool" where
  "runtimes_ok s \<longleftrightarrow> (\<forall>i rt. chartRuntime s i = Some rt \<longrightarrow> runtime_ok rt \<and> has_window (of_kind ChartWindow) i s)"

definition store_ok :: "Store \<Rightarrow> bool" where
  "store_ok s \<longleftrightarrow> ids_ok s \<and> list_all (window_ok (pendingNormalize s)) (windows s) \<and> live_groups_ok (groupSymbols s)
     \<and> runtimes_ok s \<and> pred_option positive_canvas (canvasSize s)"

lemma window_unique: "distinct (map w_id ws) \<Longrightarrow> v \<in> set ws \<Longrightarrow> w \<in> set ws \<Longrightarrow> w_id v = w_id w \<Longrightarrow> v = w"
  by (auto simp: distinct_map inj_on_def)

lemma has_window_at: "ids_ok s \<Longrightarrow> has_window P i s \<Longrightarrow> w \<in> set (windows s) \<Longrightarrow> w_id w = i \<Longrightarrow> P w"
  by (auto simp: has_window_def ids_ok_def list_ex_iff dest: window_unique)

lemma window_with_Some:
  "window_with P i s = Some w \<Longrightarrow> w \<in> set (windows s) \<and> w_id w = i \<and> P w"
  by (auto simp: window_with_def find_Some_iff)

lemma find_in: "find P xs = Some x \<Longrightarrow> x \<in> set xs \<and> P x"
  by (auto simp: find_Some_iff)

lemma find_id: "find (\<lambda>w. w_id w = i) ws = Some w \<Longrightarrow> i \<in> w_id ` set ws"
  by (drule find_in) auto

lemma find_window_Some: "find_window ws i = Some w \<Longrightarrow> w \<in> set ws \<and> w_id w = i"
  by (auto simp: find_window_def find_Some_iff)

lemma find_window_at: "distinct (map w_id ws) \<Longrightarrow> w \<in> set ws \<Longrightarrow> find_window ws (w_id w) = Some w"
  by (induction ws) (auto simp: find_window_def)

lemma window_with_at: "ids_ok s \<Longrightarrow> window_with P i s = Some w \<Longrightarrow> v \<in> set (windows s) \<Longrightarrow> w_id v = i \<Longrightarrow> v = w"
  by (auto simp: ids_ok_def dest!: window_with_Some intro: window_unique)

definition keeps :: "Store \<Rightarrow> (WorkspaceWindow \<Rightarrow> WorkspaceWindow) \<Rightarrow> bool" where
  "keeps s f \<longleftrightarrow> (\<forall>w \<in> set (windows s). w_id (f w) = w_id w \<and> w_kind (f w) = w_kind w
     \<and> (live_kind_ok w \<longrightarrow> live_kind_ok (f w)) \<and> (rect_ok (pendingNormalize s) (w_rect w) \<longrightarrow> rect_ok (pendingNormalize s) (w_rect (f w))))"

lemma has_window_map:
  "keeps s f \<Longrightarrow> windows t = map f (windows s) \<Longrightarrow> has_window (of_kind k) i t = has_window (of_kind k) i s"
  by (auto simp: keeps_def has_window_def list_ex_iff)

lemma ids_map: "keeps s f \<Longrightarrow> map w_id (map f (windows s)) = map w_id (windows s)"
  by (simp add: keeps_def)

lemma store_ok_put:
  assumes "store_ok s" "keeps s f"
  shows "store_ok (put_windows f s)"
proof -
  have ids: "w_id ` f ` set (windows s) = w_id ` set (windows s)" "map (w_id \<circ> f) (windows s) = map w_id (windows s)"
    using ids_map [OF assms(2)] by (simp_all add: image_comp)
  have k: "has_window (of_kind ChartWindow) i (put_windows f s) = has_window (of_kind ChartWindow) i s" for i
    using has_window_map [OF assms(2)] by simp
  have w: "list_all (window_ok (pendingNormalize s)) (map f (windows s))"
    using assms by (auto simp: store_ok_def list_all_iff window_ok_def keeps_def)
  show ?thesis
    using assms(1) w unfolding store_ok_def by (simp add: ids_ok_def runtimes_ok_def k ids)
qed

lemma store_ok_updates:
  "store_ok (s\<lparr>blockedActivation := b\<rparr>) = store_ok s" "store_ok (s\<lparr>effects := e\<rparr>) = store_ok s"
  "store_ok (s\<lparr>objects := n\<rparr>) = store_ok s" "store_ok (s\<lparr>the_tab := t\<rparr>) = store_ok s"
  "store_ok (s\<lparr>pendingTransferPinIds := p\<rparr>) = store_ok s" "store_ok (persist s) = store_ok s"
  "store_ok (call es s) = store_ok s" "store_ok (write_shared k v s) = store_ok s"
  by (simp_all add: store_ok_def ids_ok_def runtimes_ok_def has_window_def window_ok_def)

lemma store_ok_remember [simp]:
  "store_ok (rememberWindowPreferences k v s) = store_ok s" "store_ok (rememberLastOrderSettings o' s) = store_ok s"
  "store_ok (rememberChartPreferences cp i s) = store_ok s"
  by (simp_all add: rememberWindowPreferences_def rememberLastOrderSettings_def rememberChartPreferences_def
      store_ok_updates split: option.split)

lemmas [simp] = store_ok_updates

lemma store_ok_maximized: "store_ok s \<Longrightarrow> store_ok (s\<lparr>maximizedId := None\<rparr>)"
  by (simp add: store_ok_def ids_ok_def runtimes_ok_def has_window_def window_ok_def)

lemma store_ok_groups: "store_ok s \<Longrightarrow> live_groups_ok g \<Longrightarrow> store_ok (s\<lparr>groupSymbols := g\<rparr>)"
  by (simp add: store_ok_def ids_ok_def runtimes_ok_def has_window_def window_ok_def)

lemma store_ok_cleared: "store_ok s \<Longrightarrow> chartRuntime s = r \<Longrightarrow> store_ok (s\<lparr>chartRuntime := clearedChartRuntime r is\<rparr>)"
  by (auto simp: store_ok_def ids_ok_def runtimes_ok_def has_window_def window_ok_def clearedChartRuntime_def)

lemma store_ok_runtime:
  "store_ok s \<Longrightarrow> runtime_ok rt \<Longrightarrow> has_window (of_kind ChartWindow) i s \<Longrightarrow> store_ok (s\<lparr>chartRuntime := (chartRuntime s)(i \<mapsto> rt)\<rparr>)"
  by (auto simp: store_ok_def ids_ok_def runtimes_ok_def has_window_def window_ok_def)

subsection \<open>Every window update keeps the kind\<close>

lemma kind_ok_updates [simp]:
  "live_kind_ok (w\<lparr>w_rect := r\<rparr>) = live_kind_ok w" "live_kind_ok (w\<lparr>alwaysOnTop := b\<rparr>) = live_kind_ok w" "live_kind_ok (w\<lparr>w_id := i\<rparr>) = live_kind_ok w"
  by (simp_all add: live_kind_iff)

lemma kind_ok_sets:
  "live_kind_ok w \<Longrightarrow> g \<in> set GROUP_IDS \<Longrightarrow> live_kind_ok (w\<lparr>w_group := g\<rparr>)"
  "live_kind_ok w \<Longrightarrow> pinnable w \<Longrightarrow> live_symbol_ok p \<Longrightarrow> live_kind_ok (w\<lparr>pinned := Some p\<rparr>)"
  "live_kind_ok w \<Longrightarrow> w_kind w = OrderWindow \<Longrightarrow> live_kind_ok (w\<lparr>w_order := Some (renormalized v)\<rparr>)"
  "live_kind_ok w \<Longrightarrow> w_kind w = OrderWindow \<Longrightarrow> account_ok a \<Longrightarrow> live_kind_ok (w\<lparr>orderAccount := Some a\<rparr>)"
  "live_kind_ok w \<Longrightarrow> w_kind w = AccountFills \<Longrightarrow> history_ok h \<Longrightarrow> live_kind_ok (w\<lparr>executionHistory := Some h\<rparr>)"
  "live_kind_ok w \<Longrightarrow> w_kind w = TradeWindow \<Longrightarrow> isTradeMinAmountManwon n \<Longrightarrow> live_kind_ok (w\<lparr>tradeMinAmountManwon := Some n\<rparr>)"
  "live_kind_ok w \<Longrightarrow> w_kind w = NewsWindow \<Longrightarrow> live_kind_ok (w\<lparr>newsLinkedOnly := Some b\<rparr>)"
  "live_kind_ok w \<Longrightarrow> w_kind w = ChartWindow \<Longrightarrow> pred_option isMinuteTimeframe (lastMinuteTimeframe c) \<Longrightarrow> live_kind_ok (w\<lparr>w_chart := Some c\<rparr>)"
  by (auto simp: live_kind_iff pinnable_def renormalized_def normalized_settings_ok)

lemma kind_ok_history:
  assumes "live_kind_ok w" "pred_option account_ok a" "pred_option live_symbol_ok y"
  shows "live_kind_ok (set_history a y w)"
  using assms by (cases "executionHistory w") (auto simp: live_kind_iff set_history_def live_history_iff)

lemma kind_ok_dest:
  assumes "live_kind_ok w"
  shows "w_group w \<in> set GROUP_IDS" "w_chart w \<noteq> None \<longleftrightarrow> w_kind w = ChartWindow"
    "pred_option (\<lambda>c. pred_option isMinuteTimeframe (lastMinuteTimeframe c)) (w_chart w)"
    "pred_option account_ok (orderAccount w)" "pred_option live_symbol_ok (pinned w)"
    "executionHistory w \<noteq> None \<Longrightarrow> w_kind w = AccountFills" "pinned w \<noteq> None \<Longrightarrow> pinnable w"
  using assms by (auto simp: live_kind_iff pinnable_def)

lemma set_history_simps [simp]:
  "w_id (set_history a y w) = w_id w" "w_kind (set_history a y w) = w_kind w" "w_rect (set_history a y w) = w_rect w"
  "pinned (set_history a y w) = pinned w" "w_group (set_history a y w) = w_group w" "w_chart (set_history a y w) = w_chart w"
  by (simp_all add: set_history_def)

lemma display_ok: "live_groups_ok (groupSymbols s) \<Longrightarrow> live_kind_ok w \<Longrightarrow> pred_option live_symbol_ok (display s w)"
  by (auto simp: display_def windowSymbolOf_def live_groups_iff dest: kind_ok_dest(5) split: option.splits)

lemma withoutPin_simps [simp]:
  "w_id (withoutPin w) = w_id w" "w_kind (withoutPin w) = w_kind w" "w_rect (withoutPin w) = w_rect w"
  "w_group (withoutPin w) = w_group w" "w_chart (withoutPin w) = w_chart w" "pinned (withoutPin w) = None"
  by (simp_all add: withoutPin_def)

lemma heal_ok: "pred_option live_symbol_ok y \<Longrightarrow> pred_option live_symbol_ok (heal f y)"
  by (auto simp: heal_def healed_def live_symbol_ok_def symbol_ok_def unmarked_def split: option.splits SymbolKind.splits)

lemma heal_none [simp]: "heal f None = None"
  by (simp add: heal_def healed_def)

lemma kind_ok_heal:
  assumes "live_kind_ok w"
  shows "live_kind_ok (w\<lparr>pinned := heal f (pinned w)\<rparr>)"
proof (cases "pinned w")
  case None then show ?thesis using assms by (auto simp: live_kind_iff)
next
  case (Some p)
  then obtain q where "heal f (pinned w) = Some q" by (cases "healed f (Some p)") (auto simp: heal_def)
  then show ?thesis using heal_ok [OF kind_ok_dest(5) [OF assms], of f] kind_ok_sets(2) [OF assms] kind_ok_dest(7) [OF assms] Some by simp
qed

subsection \<open>The actions keep the store well formed\<close>

lemma keepsI:
  assumes "\<And>w. w \<in> set (windows s) \<Longrightarrow> w_id (f w) = w_id w \<and> w_kind (f w) = w_kind w"
    and "\<And>w. w \<in> set (windows s) \<Longrightarrow> live_kind_ok w \<Longrightarrow> live_kind_ok (f w)"
    and "\<And>w. w \<in> set (windows s) \<Longrightarrow> w_rect (f w) = w_rect w \<or> isFracRect (w_rect (f w))"
  shows "keeps s f"
  unfolding keeps_def
proof (intro ballI conjI impI)
  fix w assume w: "w \<in> set (windows s)" "rect_ok (pendingNormalize s) (w_rect w)"
  then show "rect_ok (pendingNormalize s) (w_rect (f w))"
    using assms(3) [OF w(1)] by (auto simp: rect_ok_def isFracRect_def)
qed (use assms in auto)

lemma keeps_at:
  assumes "store_ok s"
    and "\<And>w. w \<in> set (windows s) \<Longrightarrow> w_id w = i \<Longrightarrow> live_kind_ok w \<Longrightarrow>
      w_id (f w) = w_id w \<and> w_kind (f w) = w_kind w \<and> live_kind_ok (f w) \<and> (w_rect (f w) = w_rect w \<or> isFracRect (w_rect (f w)))"
  shows "keeps s (at_id i f)"
proof -
  have k: "live_kind_ok w" if "w \<in> set (windows s)" for w using assms(1) that by (auto simp: store_ok_def list_all_iff window_ok_def)
  show ?thesis by (rule keepsI) (use assms(2) k in \<open>auto simp: at_id_def\<close>)
qed

lemma store_ok_kind: "store_ok s \<Longrightarrow> w \<in> set (windows s) \<Longrightarrow> live_kind_ok w"
  by (auto simp: store_ok_def list_all_iff window_ok_def)

lemma store_ok_ids: "store_ok s \<Longrightarrow> ids_ok s"
  by (simp add: store_ok_def)

lemma store_ok_groups_ok: "store_ok s \<Longrightarrow> live_groups_ok (groupSymbols s)"
  by (simp add: store_ok_def)

lemma find_known: "store_ok s \<Longrightarrow> w \<in> set (windows s) \<Longrightarrow> find_window (windows s) (w_id w) = Some w"
  by (rule find_window_at) (simp_all add: store_ok_def ids_ok_def)

lemma ok_focus: "store_ok s \<Longrightarrow> store_ok (focusWindow i s)"
proof -
  assume s: "store_ok s"
  have "store_ok (s\<lparr>zOrder := filter (\<lambda>j. j \<noteq> i) (zOrder s) @ [i]\<rparr>)" if "has_window any_kind i s"
    using s that by (auto simp: store_ok_def ids_ok_def runtimes_ok_def has_window_def list_ex_iff)
  then show ?thesis using s by (auto simp: focusWindow_def intro!: store_ok_maximized)
qed

lemma ok_maximize: "store_ok s \<Longrightarrow> store_ok (toggleMaximize i s)"
proof -
  assume s: "store_ok s"
  have w: "windows (focusWindow i s) = windows s" by (simp add: focusWindow_def)
  have "store_ok ((focusWindow i s)\<lparr>maximizedId := m\<rparr>)" if "has_window any_kind i s" "m = None \<or> m = Some i" for m
    using ok_focus [OF s, of i] that w by (auto simp: store_ok_def ids_ok_def runtimes_ok_def has_window_def list_ex_iff)
  then show ?thesis using s by (simp add: toggleMaximize_def Let_def)
qed

lemma ok_top: "store_ok s \<Longrightarrow> store_ok (toggleAlwaysOnTop i s)"
  by (simp add: toggleAlwaysOnTop_def store_ok_put keeps_at)

lemma ok_account: "store_ok s \<Longrightarrow> store_ok (setOrderAccount i v s)"
proof -
  assume s: "store_ok s"
  show ?thesis
  proof (cases "validTradingAccount (Some v)")
    case (Some a)
    show ?thesis
    proof (cases "window_with (of_kind OrderWindow) i s")
      case (Some source)
      let ?f = "\<lambda>w. if w_id w = i then w\<lparr>orderAccount := Some a\<rparr>
        else if w_kind w = AccountFills \<and> history_of i w then set_history (Some a) (display s source) w else w"
      have source: "w_kind source = OrderWindow" "source \<in> set (windows s)" using window_with_Some [OF Some] by auto
      have a: "account_ok a" using \<open>validTradingAccount (Some v) = Some a\<close> by (rule validTradingAccount_ok)
      have "keeps s ?f"
      proof (rule keepsI)
        fix w assume w: "w \<in> set (windows s)" "live_kind_ok w"
        show "live_kind_ok (?f w)"
          using w window_with_at [OF store_ok_ids [OF s] Some, of w] source a store_ok_kind [OF s source(2)]
            display_ok [OF store_ok_groups_ok [OF s]] by (auto simp: kind_ok_sets kind_ok_history)
      qed auto
      then show ?thesis using s \<open>validTradingAccount (Some v) = Some a\<close> Some by (simp add: setOrderAccount_def store_ok_put)
    qed (use s Some in \<open>simp add: setOrderAccount_def\<close>)
  qed (use s in \<open>simp add: setOrderAccount_def\<close>)
qed

lemma ok_config: "store_ok s \<Longrightarrow> store_ok (setExecutionWindowConfig i v s)"
  unfolding setExecutionWindowConfig_def
  by (rule store_ok_put, assumption, rule keepsI) (auto simp: kind_ok_sets readExecutionConfig_ok)

lemma ok_order: "store_ok s \<Longrightarrow> store_ok (setOrderWindowSettings i v s)"
  using has_window_at [OF store_ok_ids, of s "of_kind OrderWindow"]
  by (auto simp: setOrderWindowSettings_def kind_ok_sets intro!: store_ok_put keeps_at)

lemma window_with_holds: "store_ok s \<Longrightarrow> window_with P (w_id w) s = Some x \<Longrightarrow> w \<in> set (windows s) \<Longrightarrow> P w"
  using window_with_at [OF store_ok_ids] window_with_Some by blast

lemma ok_trade: "store_ok s \<Longrightarrow> store_ok (setTradeMinAmountManwon i n s)"
  by (auto simp: setTradeMinAmountManwon_def Let_def split: option.split
      intro!: store_ok_put keeps_at kind_ok_sets(6) dest: window_with_holds)

lemma ok_news: "store_ok s \<Longrightarrow> store_ok (setNewsLinkedOnly i b s)"
  using has_window_at [OF store_ok_ids, of s "of_kind NewsWindow"]
  by (auto simp: setNewsLinkedOnly_def kind_ok_sets intro!: store_ok_put keeps_at)

lemma keeps_cong: "windows t = windows s \<Longrightarrow> pendingNormalize t = pendingNormalize s \<Longrightarrow> keeps t f = keeps s f"
  by (simp add: keeps_def)

lemma cascade_frac:
  fixes a b p q :: rat
  assumes "0 < a" "0 < b" "0 < p" "0 < q"
  shows "isFracRect \<lparr>rx = min p (1 - min 1 a), ry = min q (1 - min 1 b), rw = min 1 a, rh = min 1 b\<rparr>"
  using assms by (auto simp: isFracRect_def min_def)

lemma new_rect_frac:
  assumes "positive_canvas c"
  shows "isFracRect (new_rect k c n)"
proof -
  obtain w h where d: "DEFAULT_SIZE k = (w, h)" by (cases "DEFAULT_SIZE k") auto
  have "0 < w \<and> 0 < h" using d by (cases k) (auto simp: BOOK_WINDOW_DEFAULT_W_def js_round_def)
  then show ?thesis unfolding new_rect_def d Let_def prod.case
    using assms by (intro cascade_frac) (simp_all add: positive_canvas_def add_pos_nonneg)
qed

lemma ok_append:
  assumes "store_ok s" "i \<notin> set (map w_id (windows s))" "w_id w = i" "live_kind_ok w" "isFracRect (w_rect w)"
  shows "store_ok (s\<lparr>windows := windows s @ [w], zOrder := zOrder s @ [i], maximizedId := None\<rparr>)"
  using assms
  by (auto simp: store_ok_def ids_ok_def runtimes_ok_def has_window_def list_all_iff window_ok_def rect_ok_def isFracRect_def)

lemma top_window_Some:
  assumes "top_window P ws z = Some w"
  shows "w \<in> set ws \<and> P w \<and> w_id w \<in> set z"
proof -
  have "P w \<and> w \<in> set (List.map_filter (find_window ws) (rev z))"
    using assms unfolding top_window_def by (metis find_Some_iff nth_mem)
  moreover have "w \<in> set (List.map_filter (find_window ws) (rev z)) \<Longrightarrow> \<exists>i \<in> set z. find_window ws i = Some w"
    by (auto simp: List.map_filter_def)
  ultimately show ?thesis using find_window_Some by fastforce
qed

lemma activeGroup_ok: "store_ok s \<Longrightarrow> activeGroupOf s \<in> set GROUP_IDS"
  by (auto simp: activeGroupOf_def dest!: top_window_Some kind_ok_dest(1) [OF store_ok_kind] split: option.split)

definition chart_valid :: "ChartWindowConfig option \<Rightarrow> bool" where
  "chart_valid v \<longleftrightarrow> (case v of Some c \<Rightarrow> pred_option isMinuteTimeframe (lastMinuteTimeframe c) | None \<Rightarrow> False)"

lemma new_chart_valid:
  assumes "win = plain_window i ChartWindow g r" "g \<in> set GROUP_IDS" "isFracRect r" "pred_option live_kind_ok src"
  shows "chart_valid (new_chart win src lastChart)"
proof -
  have j: "window_json win = JObj [(''id'', JStr i), (''kind'', JStr ''chart''), (''group'', JNum (of_nat g)), (''rect'', rect_json r)]"
    by (simp add: assms(1) window_json_def opt_member_def plain_window_def)
  have kc: "isWindowKind (Some (JStr ''chart'')) = Some ChartWindow" using isWindowKind_text [of ChartWindow] by simp
  have read: "chart_valid (Option.bind (readWindow (JObj ([(''id'', JStr i), (''kind'', JStr ''chart''),
      (''group'', JNum (of_nat g)), (''rect'', rect_json r)] @ ms)) False True) w_chart)" for ms
    using assms(2,3) readChart_ok kc by (simp add: readWindow_def read_group_stored rect_codec.decode_encode chart_valid_def)
  show ?thesis
  proof (cases "Option.bind src w_chart")
    case (Some c)
    then have "pred_option isMinuteTimeframe (lastMinuteTimeframe c)"
      using assms(4) kind_ok_dest(3) by (fastforce simp: bind_eq_Some_conv)
    then show ?thesis by (simp add: new_chart_def Some chart_valid_def)
  next
    case None
    show ?thesis
    proof (cases lastChart)
      case (Some prefs)
      show ?thesis using read [of "opt_member ''chart'' id (member prefs ''chart'')"] by (simp add: new_chart_def None Some j)
    qed (simp add: new_chart_def None chart_valid_def plain_chart_def)
  qed
qed

lemma amount_reader_ok: "amount_reader v = Some n \<Longrightarrow> isTradeMinAmountManwon n"
  using reader_ok(4) [of v] by simp

lemma new_window_ok:
  assumes "store_ok s"
  shows "live_kind_ok (new_window i k lastChart s) \<and> isFracRect (w_rect (new_window i k lastChart s))
     \<and> w_id (new_window i k lastChart s) = i \<and> w_kind (new_window i k lastChart s) = k \<and> pinned (new_window i k lastChart s) = None
     \<and> w_group (new_window i k lastChart s) = activeGroupOf s"
proof -
  let ?c = "case canvasSize s of Some c \<Rightarrow> c | None \<Rightarrow> REFERENCE_CANVAS"
  let ?r = "new_rect k ?c (length (windows s))" and ?g = "activeGroupOf s"
  have r: "isFracRect ?r"
    using assms by (intro new_rect_frac) (auto simp: store_ok_def positive_canvas_def REFERENCE_CANVAS_def split: option.split)
  have g: "?g \<in> set GROUP_IDS" by (rule activeGroup_ok [OF assms])
  have "pred_option live_kind_ok (focusedChart s)"
    using store_ok_kind [OF assms] top_window_Some by (auto simp: pred_option_def focusedChart_def)
  then have c: "k = ChartWindow \<Longrightarrow> chart_valid (new_chart (plain_window i k ?g ?r) (focusedChart s) lastChart)"
    using new_chart_valid g r by blast
  have "live_kind_ok (new_window i k lastChart s)"
    unfolding live_kind_iff new_window_def Let_def
    using g c by (auto simp: plain_window_def isFracRect_def reader_ok renormalized_def normalized_settings_ok chart_valid_def
        option.pred_map pred_option_def dest: amount_reader_ok split: option.splits)
  then show ?thesis using r by (simp add: new_window_def Let_def plain_window_def)
qed

lemma ok_add:
  assumes "store_ok s" "i \<notin> set (map w_id (windows s))"
  shows "store_ok (addWindow i k s)"
proof -
  have "store_ok (t\<lparr>windows := windows s @ [normalizeUsWindow (new_window i k l s) g], zOrder := zOrder s @ [i], maximizedId := None\<rparr>)"
    if "store_ok t" "windows t = windows s" "zOrder t = zOrder s" for t l g k
    using ok_append [of t i "normalizeUsWindow (new_window i k l s) g"] that new_window_ok [OF assms(1)] assms(2) by simp
  then show ?thesis using assms(1) unfolding addWindow_def Let_def by (auto split: option.split)
qed

lemma closing_simps [simp]:
  "w_id (closing_window c s i w) = w_id w" "w_kind (closing_window c s i w) = w_kind w" "w_rect (closing_window c s i w) = w_rect w"
  "pinned (closing_window c s i w) = pinned w" "w_group (closing_window c s i w) = w_group w"
  "w_chart (closing_window c s i w) = w_chart w"
  by (simp_all add: closing_window_def split: option.split)

lemma closing_remember_simps [simp]:
  "windows (remember_closing cp i s) = windows s" "zOrder (remember_closing cp i s) = zOrder s"
  "groupSymbols (remember_closing cp i s) = groupSymbols s" "chartRuntime (remember_closing cp i s) = chartRuntime s"
  "canvasSize (remember_closing cp i s) = canvasSize s" "maximizedId (remember_closing cp i s) = maximizedId s"
  "pendingNormalize (remember_closing cp i s) = pendingNormalize s"
  "pendingTransferPinIds (remember_closing cp i s) = pendingTransferPinIds s"
  "store_ok (remember_closing cp i s) = store_ok s"
  by (simp_all add: remember_closing_def split: option.split)

lemma closing_kind_ok:
  assumes "store_ok s" "live_kind_ok w" "c = window_with P i s"
  shows "live_kind_ok (closing_window c s i w)"
proof (cases c)
  case (Some v)
  then have k: "live_kind_ok v" using assms(3) window_with_Some store_ok_kind [OF assms(1)] by simp
  have "pred_option account_ok (orderAccount v)" "pred_option live_symbol_ok (display s v)"
    using kind_ok_dest(4) [OF k] display_ok [OF store_ok_groups_ok [OF assms(1)] k] by simp_all
  then show ?thesis using assms(2) by (simp add: closing_window_def Some kind_ok_history)
qed (simp add: closing_window_def assms(2))

lemma ok_without:
  assumes "store_ok s" "\<And>w. w \<in> set (windows s) \<Longrightarrow> live_kind_ok w \<Longrightarrow> live_kind_ok (f w)"
    and "\<And>w. w_id (f w) = w_id w \<and> w_kind (f w) = w_kind w \<and> w_rect (f w) = w_rect w"
  shows "store_ok (s\<lparr>maximizedId := (if maximizedId s = Some i then None else maximizedId s),
    windows := map f (filter (\<lambda>w. w_id w \<noteq> i) (windows s)), zOrder := filter (\<lambda>j. j \<noteq> i) (zOrder s),
    chartRuntime := clearedChartRuntime (chartRuntime s) [i]\<rparr>)"
proof -
  let ?ws = "map f (filter (\<lambda>w. w_id w \<noteq> i) (windows s))"
  have ids: "map w_id ?ws = filter (\<lambda>j. j \<noteq> i) (map w_id (windows s))" using assms(3) by (simp add: filter_map o_def)
  have "distinct (map w_id ?ws) \<and> set (filter (\<lambda>j. j \<noteq> i) (zOrder s)) = set (map w_id ?ws)"
    unfolding ids using assms(1) by (auto simp: store_ok_def ids_ok_def)
  moreover have "list_all (window_ok (pendingNormalize s)) ?ws"
    using assms by (auto simp: store_ok_def list_all_iff window_ok_def)
  moreover have "maximizedId s = Some j \<Longrightarrow> j \<noteq> i \<Longrightarrow> j \<in> set (map w_id ?ws)" for j
    unfolding ids using assms(1) by (simp add: store_ok_def ids_ok_def)
  moreover have "list_ex (\<lambda>w. w_id w = j \<and> w_kind w = ChartWindow) ?ws"
    if "j \<noteq> i" "list_ex (\<lambda>w. w_id w = j \<and> w_kind w = ChartWindow) (windows s)" for j
    using that assms(3) by (auto simp: list_ex_iff)
  ultimately show ?thesis
    using assms(1) by (auto simp: store_ok_def ids_ok_def runtimes_ok_def has_window_def clearedChartRuntime_def pred_option_def)
qed

lemma ok_close:
  assumes "store_ok s"
  shows "store_ok (closeWindow cp i s)"
proof -
  let ?u = "remember_closing cp i s"
  let ?c = "window_with (of_kind OrderWindow) i ?u"
  let ?t = "case Option.bind ?c w_order of
     Some v \<Rightarrow> if readLastOrderSettings ?u = None then rememberLastOrderSettings v ?u else ?u | None \<Rightarrow> ?u"
  have t: "store_ok ?t" "windows ?t = windows ?u" "zOrder ?t = zOrder ?u" "maximizedId ?t = maximizedId ?u"
    "chartRuntime ?t = chartRuntime ?u" using assms by (simp_all split: option.split)
  have "store_ok (?t\<lparr>maximizedId := (if maximizedId ?t = Some i then None else maximizedId ?t),
      windows := map (closing_window ?c ?u i) (filter (\<lambda>w. w_id w \<noteq> i) (windows ?t)),
      zOrder := filter (\<lambda>j. j \<noteq> i) (zOrder ?t), chartRuntime := clearedChartRuntime (chartRuntime ?t) [i]\<rparr>)"
    by (rule ok_without [OF t(1)]) (use closing_kind_ok [of ?u] assms in auto)
  then show ?thesis unfolding closeWindow_def Let_def t(2-5) store_ok_updates .
qed

lemma ok_history:
  assumes "store_ok s" "i \<notin> set (map w_id (windows s))"
  shows "store_ok (snd (openExecutionHistory i j a s))"
proof -
  have "map w_id (windows (setOrderAccount j a s)) = map w_id (windows s)"
    by (auto simp: setOrderAccount_def split: option.split)
  then have "store_ok (addWindow i AccountFills (setOrderAccount j a s))"
    using assms by (intro ok_add ok_account) simp_all
  then show ?thesis using assms(1)
    by (auto simp: openExecutionHistory_def Let_def ok_account ok_focus ok_config split: option.split)
qed

lemma ok_rect: "store_ok s \<Longrightarrow> isFracRect r \<Longrightarrow> store_ok (setWindowRect i r s)"
  by (simp add: setWindowRect_def store_ok_put keeps_at)

lemma ok_rects: "store_ok s \<Longrightarrow> \<forall>r \<in> snd ` set rs. isFracRect r \<Longrightarrow> store_ok (setWindowRects rs s)"
proof -
  assume s: "store_ok s" and r: "\<forall>r \<in> snd ` set rs. isFracRect r"
  have "map_of (rev rs) i = Some r \<Longrightarrow> isFracRect r" for i r
    using r map_of_SomeD [of "rev rs" i r] by force
  then have "keeps s (\<lambda>w. case map_of (rev rs) (w_id w) of Some r \<Rightarrow> w\<lparr>w_rect := r\<rparr> | None \<Rightarrow> w)"
    by (intro keepsI) (auto split: option.split)
  then show ?thesis using s by (simp add: setWindowRects_def store_ok_put)
qed

lemma toFrac_frac:
  assumes "positive_canvas c" "0 < rw r" "0 < rh r"
  shows "isFracRect (toFrac r c)"
proof -
  have c: "0 < canvas_w c" "0 < canvas_h c" using assms(1) by (simp_all add: positive_canvas_def)
  let ?w = "clamp01 (rw r / canvas_w c) * canvas_w c" and ?h = "clamp01 (rh r / canvas_h c) * canvas_h c"
  have "0 < rw r / canvas_w c" "0 < rh r / canvas_h c" using c assms(2,3) by simp_all
  then have wh: "0 < ?w" "?w \<le> canvas_w c" "0 < ?h" "?h \<le> canvas_h c"
    using c clamp01_bounds by (auto simp: clamp01_def min_def max_def)
  let ?b = "moveBounds (r\<lparr>rw := ?w, rh := ?h\<rparr>) c"
  have b: "minX ?b = min 0 (min 48 ?w - ?w)" "maxX ?b = max 0 (canvas_w c - min 48 ?w)"
    "minY ?b = 0" "maxY ?b = max 0 (canvas_h c - min 26 ?h)" by (simp_all add: moveBounds_def Let_def)
  have le: "minX ?b \<le> maxX ?b" "minY ?b \<le> maxY ?b" by (simp_all add: b)
  note cx = clamp_bounds [OF le(1), of "rx r"] and cy = clamp_bounds [OF le(2), of "ry r"]
  have x: "- ?w < clamp (minX ?b) (maxX ?b) (rx r)" "clamp (minX ?b) (maxX ?b) (rx r) < canvas_w c"
    using cx wh c unfolding b by (auto simp: min_def max_def split: if_splits)
  have y: "0 \<le> clamp (minY ?b) (maxY ?b) (ry r)" "clamp (minY ?b) (maxY ?b) (ry r) < canvas_h c"
    using cy wh c unfolding b by (auto simp: min_def max_def split: if_splits)
  have "0 < clamp (minX ?b) (maxX ?b) (rx r) / canvas_w c + clamp01 (rw r / canvas_w c)"
    using x(1) c(1) by (simp add: field_simps)
  then show ?thesis
    using x y c wh clamp01_bounds [of "rw r / canvas_w c"] clamp01_bounds [of "rh r / canvas_h c"]
    by (simp add: toFrac_def Let_def safe_def isFracRect_def zero_less_mult_iff)
qed

lemma store_ok_fractions:
  "store_ok s \<Longrightarrow> \<forall>w \<in> set (windows s). isFracRect (w_rect w) \<Longrightarrow> store_ok (s\<lparr>pendingNormalize := False\<rparr>)"
  by (auto simp: store_ok_def ids_ok_def runtimes_ok_def has_window_def list_all_iff window_ok_def rect_ok_def isFracRect_def)

lemma ok_legacy: "store_ok s \<Longrightarrow> positive_canvas c \<Longrightarrow> store_ok (normalizeLegacyRects c s)"
proof -
  assume s: "store_ok s" and c: "positive_canvas c"
  have f: "w \<in> set (windows s) \<Longrightarrow> isFracRect (toFrac (w_rect w) c)" for w
    using s c by (auto simp: store_ok_def list_all_iff window_ok_def rect_ok_def intro: toFrac_frac)
  have "store_ok (put_windows (\<lambda>w. w\<lparr>w_rect := toFrac (w_rect w) c\<rparr>) s)"
    by (rule store_ok_put [OF s], rule keepsI) (use f in auto)
  then have "store_ok ((put_windows (\<lambda>w. w\<lparr>w_rect := toFrac (w_rect w) c\<rparr>) s)\<lparr>pendingNormalize := False\<rparr>)"
    by (rule store_ok_fractions) (use f in simp)
  then show ?thesis using s by (simp add: normalizeLegacyRects_def)
qed

lemma ok_group: "store_ok s \<Longrightarrow> store_ok (setWindowGroup i g s)"
  by (auto simp: setWindowGroup_def Let_def split: option.split
      intro!: store_ok_cleared store_ok_put keeps_at kind_ok_sets(1) us_keeps intro: read_group_in)

lemma groups_ok_update: "live_groups_ok g \<Longrightarrow> read_group q = Some i \<Longrightarrow> live_symbol_ok y \<Longrightarrow> live_groups_ok (g(i \<mapsto> y))"
  by (auto simp: live_groups_iff dest: read_group_in)

lemma ok_symbol: "store_ok s \<Longrightarrow> live_symbol_ok (classified y) \<Longrightarrow> store_ok (setGroupSymbol g y s)"
  by (auto simp: setGroupSymbol_def Let_def split: option.split
      intro!: store_ok_cleared store_ok_put keepsI store_ok_groups groups_ok_update store_ok_groups_ok)

lemma ok_pin_to: "store_ok s \<Longrightarrow> live_symbol_ok y \<Longrightarrow> (\<And>w. w \<in> set (windows s) \<Longrightarrow> w_id w = i \<Longrightarrow> pinnable w) \<Longrightarrow>
   store_ok ((put_windows (at_id i (\<lambda>w. normalizeUsWindow (w\<lparr>pinned := Some y\<rparr>) (Some y))) s)\<lparr>chartRuntime := clearedChartRuntime (chartRuntime s) is\<rparr>)"
  by (intro store_ok_cleared store_ok_put keeps_at) (auto intro!: us_keeps kind_ok_sets(2))

lemma ok_pin_symbol: "store_ok s \<Longrightarrow> live_symbol_ok y \<Longrightarrow> store_ok (pinWindowToSymbol i y s)"
  using has_window_at [OF store_ok_ids, of s pinnable] by (auto simp: pinWindowToSymbol_def intro!: ok_pin_to)

lemma classified_twice [simp]: "classified (classified y) = classified y"
  by (simp add: classified_def)

lemma ok_window_symbol: "store_ok s \<Longrightarrow> live_symbol_ok (classified y) \<Longrightarrow> store_ok (setWindowSymbol i y s)"
proof -
  assume s: "store_ok s" and y: "live_symbol_ok (classified y)"
  have "pinnable w" if "find_window (windows s) i = Some v" "pinned v \<noteq> None" "w \<in> set (windows s)" "w_id w = i" for v w
    using that s find_window_Some [OF that(1)] window_unique [of "windows s" v w] kind_ok_dest(7) [OF store_ok_kind [OF s]]
    by (auto simp: store_ok_def ids_ok_def)
  then show ?thesis using s y by (auto simp: setWindowSymbol_def Let_def ok_symbol split: option.split intro!: ok_pin_to)
qed

lemma display_symbol_ok: "store_ok s \<Longrightarrow> w \<in> set (windows s) \<Longrightarrow> display s w = Some y \<Longrightarrow> live_symbol_ok y"
  using display_ok [OF store_ok_groups_ok store_ok_kind, of s s w] by simp

lemma ok_toggle: "store_ok s \<Longrightarrow> store_ok (toggleWindowPin i s)"
proof -
  assume s: "store_ok s"
  have k: "live_kind_ok w \<Longrightarrow> live_kind_ok (withoutPin w)" for w by simp
  have "keeps s (at_id i (\<lambda>w. if pinned w \<noteq> None then withoutPin w else w\<lparr>pinned := display s v\<rparr>))"
    if v: "find_window (windows s) i = Some v" "pinnable v" "pinned v \<noteq> None \<or> display s v \<noteq> None" for v
  proof (rule keeps_at [OF s])
    fix w assume w: "w \<in> set (windows s)" "w_id w = i" "live_kind_ok w"
    have "w = v" using find_window_Some [OF v(1)] w s window_unique [of "windows s" w v] by (auto simp: store_ok_def ids_ok_def)
    moreover have "display s v = Some y \<Longrightarrow> live_kind_ok (w\<lparr>pinned := Some y\<rparr>)" for y
      using w v(2) calculation display_symbol_ok [OF s w(1)] by (auto intro: kind_ok_sets(2))
    ultimately show "w_id (if pinned w \<noteq> None then withoutPin w else w\<lparr>pinned := display s v\<rparr>) = w_id w \<and>
        w_kind (if pinned w \<noteq> None then withoutPin w else w\<lparr>pinned := display s v\<rparr>) = w_kind w \<and>
        live_kind_ok (if pinned w \<noteq> None then withoutPin w else w\<lparr>pinned := display s v\<rparr>) \<and>
        (w_rect (if pinned w \<noteq> None then withoutPin w else w\<lparr>pinned := display s v\<rparr>) = w_rect w \<or>
         isFracRect (w_rect (if pinned w \<noteq> None then withoutPin w else w\<lparr>pinned := display s v\<rparr>)))"
      using w(3) v(3) by (cases "pinned w"; cases "display s v") simp_all
  qed
  then show ?thesis using s
    by (auto simp: toggleWindowPin_def Let_def split: option.split intro!: store_ok_cleared store_ok_put)
qed

lemma pin_keeps: "store_ok s \<Longrightarrow> keeps s (pin_to_display s ids)"
  by (rule keepsI) (auto simp: pin_to_display_def intro!: kind_ok_sets(2) intro: display_symbol_ok)

lemma ok_pins: "store_ok s \<Longrightarrow> store_ok (pinWindows ids s)"
  by (simp add: pinWindows_def store_ok_put pin_keeps)

lemma ok_transferred: "store_ok s \<Longrightarrow> store_ok (restoreTransferredPins s)"
  using pin_keeps [of s] by (auto simp: restoreTransferredPins_def keeps_def split: option.split intro!: store_ok_put)

lemma ok_unpin: "store_ok s \<Longrightarrow> store_ok (unpinAllWindows s)"
  by (simp add: unpinAllWindows_def Let_def store_ok_cleared store_ok_put keepsI)

lemma ok_backfill: "store_ok s \<Longrightarrow> store_ok (backfillSymbolNames f s)"
proof -
  assume s: "store_ok s"
  have "live_groups_ok (\<lambda>g. heal f (groupSymbols s g))"
    using store_ok_groups_ok [OF s] heal_ok heal_none by (metis live_groups_iff)
  moreover have "keeps t (\<lambda>w. w\<lparr>pinned := heal f (pinned w)\<rparr>)" for t by (rule keepsI) (simp_all add: kind_ok_heal)
  ultimately show ?thesis using s by (auto simp: backfillSymbolNames_def intro!: store_ok_put store_ok_groups)
qed

lemma chart_of_Some:
  assumes "chart_of i s = Some c"
  shows "\<exists>w. find_window (windows s) i = Some w \<and> w \<in> set (windows s) \<and> w_id w = i \<and> w_chart w = Some c"
  using assms find_window_Some by (fastforce simp: chart_of_def bind_eq_Some_conv)

lemma chart_of_kind: "store_ok s \<Longrightarrow> chart_of i s = Some c \<Longrightarrow> has_window (of_kind ChartWindow) i s"
  using chart_of_Some [of i s c] kind_ok_dest(2) [OF store_ok_kind, of s] by (auto simp: has_window_def list_ex_iff)

lemma keeps_chart:
  assumes "store_ok s" "withChart i f s = Some u"
    and "\<And>c. pred_option isMinuteTimeframe (lastMinuteTimeframe c) \<Longrightarrow> pred_option isMinuteTimeframe (lastMinuteTimeframe (f c))"
  shows "keeps s u"
proof -
  obtain c where c: "chart_of i s = Some c" and u: "u = at_id i (\<lambda>w. w\<lparr>w_chart := Some (f c)\<rparr>)"
    using assms(2) by (auto simp: withChart_def)
  obtain v where v: "find_window (windows s) i = Some v" "v \<in> set (windows s)" "w_id v = i" "w_chart v = Some c"
    using chart_of_Some [OF c] by blast
  have k: "w_kind v = ChartWindow" "pred_option isMinuteTimeframe (lastMinuteTimeframe c)"
    using kind_ok_dest(2,3) [OF store_ok_kind [OF assms(1) v(2)]] v(4) by auto
  show ?thesis unfolding u
  proof (rule keeps_at [OF assms(1)])
    fix w assume w: "w \<in> set (windows s)" "w_id w = i" "live_kind_ok w"
    then have "w = v" using v assms(1) by (auto simp: store_ok_def ids_ok_def intro: window_unique)
    then show "w_id (w\<lparr>w_chart := Some (f c)\<rparr>) = w_id w \<and> w_kind (w\<lparr>w_chart := Some (f c)\<rparr>) = w_kind w
        \<and> live_kind_ok (w\<lparr>w_chart := Some (f c)\<rparr>) \<and> (w_rect (w\<lparr>w_chart := Some (f c)\<rparr>) = w_rect w \<or> isFracRect (w_rect (w\<lparr>w_chart := Some (f c)\<rparr>)))"
      using w(3) k assms(3) by (simp add: kind_ok_sets(8))
  qed
qed

lemma ok_flag: "store_ok s \<Longrightarrow> (\<And>c. lastMinuteTimeframe (f c) = lastMinuteTimeframe c) \<Longrightarrow> store_ok (set_chart_flag cp i f s)"
  by (auto simp: set_chart_flag_def split: option.split intro!: store_ok_put keeps_chart)

lemma runtime_ok_of: "store_ok s \<Longrightarrow> runtime_ok (runtime_of i s)"
  by (auto simp: runtime_of_def store_ok_def runtimes_ok_def runtime_ok_def EMPTY_RUNTIME_def split: option.split)

lemma runtime_ok_updates [simp]:
  "runtime_ok (rt\<lparr>historicalFromDate := d\<rparr>) = runtime_ok rt" "runtime_ok (rt\<lparr>hogaplaySource := b\<rparr>) = runtime_ok rt"
  "runtime_ok (rt\<lparr>secondRange := r\<rparr>) = runtime_ok rt" "runtime_ok (rt\<lparr>secondViewport := v\<rparr>) = runtime_ok rt"
  by (simp_all add: runtime_ok_def)

lemma next_runtime_ok: "store_ok s \<Longrightarrow> runtime_ok (next_runtime cap i p tf s)"
  using runtime_ok_of [of s i] by (auto simp: next_runtime_def runtime_ok_def Let_def)

lemma ok_timeframe: "store_ok s \<Longrightarrow> store_ok (setChartTimeframe cp cap i tf s)"
proof -
  assume s: "store_ok s"
  let ?tf = "symbolTimeframe (windowSymbolOf (groupSymbols s) (find_window (windows s) i)) tf"
  let ?f = "\<lambda>c. c\<lparr>chart_timeframe := ?tf, lastMinuteTimeframe := (if isMinuteTimeframe ?tf then Some ?tf else lastMinuteTimeframe c)\<rparr>"
  have "store_ok ((put_windows u s)\<lparr>chartRuntime := (chartRuntime s)(i \<mapsto> next_runtime cap i (chart_timeframe c) ?tf s), objects := n\<rparr>)"
    if "chart_of i s = Some c" "withChart i ?f s = Some u" for c u n
  proof -
    have k: "keeps s u" by (rule keeps_chart [OF s that(2)]) simp
    have "has_window (of_kind ChartWindow) i (put_windows u s)"
      using chart_of_kind [OF s that(1)] has_window_map [OF k, of "put_windows u s"] by simp
    from store_ok_runtime [OF store_ok_put [OF s k] next_runtime_ok [OF s] this]
    show ?thesis by simp
  qed
  then show ?thesis using s by (auto simp: setChartTimeframe_def Let_def split: option.split)
qed

lemma ok_set_runtime: "store_ok s \<Longrightarrow> runtime_ok rt \<Longrightarrow> has_window (of_kind ChartWindow) i s \<Longrightarrow> store_ok (set_runtime i rt s)"
  by (simp add: set_runtime_def store_ok_runtime)

lemma has_chart_kind: "store_ok s \<Longrightarrow> has_window has_chart i s \<Longrightarrow> has_window (of_kind ChartWindow) i s"
  using kind_ok_dest(2) [OF store_ok_kind, of s] by (auto simp: has_window_def list_ex_iff has_chart_def)

lemma runtime_window: "store_ok s \<Longrightarrow> chartRuntime s i = Some rt \<Longrightarrow> runtime_ok rt \<and> has_window (of_kind ChartWindow) i s"
  by (auto simp: store_ok_def runtimes_ok_def)

lemma ok_range: "store_ok s \<Longrightarrow> store_ok (setSecondChartRange i r s)"
  by (auto simp: setSecondChartRange_def Let_def runtime_ok_of split: option.split intro!: ok_set_runtime intro: chart_of_kind)

lemma ok_consume: "store_ok s \<Longrightarrow> store_ok (consumeSecondViewport i n s)"
  by (auto simp: consumeSecondViewport_def split: option.split intro!: ok_set_runtime dest: runtime_window)

lemma ok_extend: "store_ok s \<Longrightarrow> store_ok (extendChartHistoricalRange i d s)"
  by (auto simp: extendChartHistoricalRange_def Let_def runtime_ok_of intro!: ok_set_runtime has_chart_kind)

lemma ok_contract: "store_ok s \<Longrightarrow> store_ok (contractChartHistoricalRange i d s)"
  by (auto simp: contractChartHistoricalRange_def Let_def runtime_ok_of intro!: ok_set_runtime has_chart_kind)

lemma ok_reset: "store_ok s \<Longrightarrow> store_ok (resetChartHistoricalRange i s)"
  by (auto simp: resetChartHistoricalRange_def split: option.split intro!: ok_set_runtime dest: runtime_window)
    (simp add: runtime_ok_def)

lemma ok_hogaplay: "store_ok s \<Longrightarrow> store_ok (setChartHogaplaySource i b s)"
  by (auto simp: setChartHogaplaySource_def Let_def runtime_ok_of split: option.split intro!: ok_set_runtime intro: chart_of_kind)

definition preset_fits :: "(nat \<Rightarrow> string) \<Rightarrow> json \<Rightarrow> Store \<Rightarrow> bool" where
  "preset_fits mk v s \<longleftrightarrow> (case normalizeWorkspaceSnapshot mk v of (ws, z) \<Rightarrow> distinct (map w_id ws)
     \<and> list_all (\<lambda>w. has_window (\<lambda>u. pinned u \<noteq> None) (w_id w) s \<longrightarrow> pinnable w) ws)"

lemma carry_simps [simp]:
  "w_id (carry_pin ws w) = w_id w" "w_kind (carry_pin ws w) = w_kind w" "w_group (carry_pin ws w) = w_group w"
  "w_rect (carry_pin ws w) = w_rect w" "w_chart (carry_pin ws w) = w_chart w"
  by (simp_all add: carry_pin_def split: option.split)

lemma fit_simps [simp]:
  "w_id (fit_symbol g w) = w_id w" "w_kind (fit_symbol g w) = w_kind w" "w_group (fit_symbol g w) = w_group w"
  "w_rect (fit_symbol g w) = w_rect w" "pinned (fit_symbol g w) = pinned w" "live_kind_ok w \<Longrightarrow> live_kind_ok (fit_symbol g w)"
  by (simp_all add: fit_symbol_def)

text \<open>The pin a window carries over is the pin of the window of that id.\<close>

lemma carry_pin_pinned:
  assumes "distinct (map w_id ws)"
  shows "pinned (carry_pin ws w) = (case find_window ws (w_id w) of
    Some u \<Rightarrow> if pinned u \<noteq> None then pinned u else pinned w | None \<Rightarrow> pinned w)"
proof -
  let ?f = "filter (\<lambda>v. pinned v \<noteq> None) ws"
  have d: "distinct (map w_id ?f)" using assms by (rule distinct_map_filter)
  have "map_of (rev (map (\<lambda>v. (w_id v, pinned v)) ?f)) = map_of (map (\<lambda>v. (w_id v, pinned v)) ?f)"
    using d by (subst map_of_inject_set) (simp_all add: o_def rev_map [symmetric])
  moreover have "map_of (map (\<lambda>v. (w_id v, pinned v)) ?f) i =
      (case find_window ws i of Some u \<Rightarrow> if pinned u \<noteq> None then Some (pinned u) else None | None \<Rightarrow> None)" for i
    using assms by (induction ws) (auto simp: find_window_def map_of_eq_None_iff dest: find_id split: option.splits)
  ultimately show ?thesis by (simp add: carry_pin_def split: option.split)
qed

lemma carry_pin_ok:
  assumes "store_ok s" "live_kind_ok w" "has_window (\<lambda>u. pinned u \<noteq> None) (w_id w) s \<Longrightarrow> pinnable w"
  shows "live_kind_ok (carry_pin (windows s) w)"
proof (cases "find_window (windows s) (w_id w)")
  case None
  then have "carry_pin (windows s) w = w" using assms(1) carry_pin_pinned [of "windows s" w]
    by (auto simp: carry_pin_def store_ok_def ids_ok_def split: option.splits)
  then show ?thesis using assms(2) by simp
next
  case (Some u)
  note u = find_window_Some [OF Some]
  have p: "pinned (carry_pin (windows s) w) = (if pinned u \<noteq> None then pinned u else pinned w)"
    using assms(1) carry_pin_pinned [of "windows s" w] Some by (simp add: store_ok_def ids_ok_def)
  have c: "carry_pin (windows s) w = w\<lparr>pinned := pinned (carry_pin (windows s) w)\<rparr>"
    by (simp add: carry_pin_def split: option.split)
  show ?thesis
  proof (cases "pinned u")
    case (Some y)
    then have "pinnable w" using assms(3) u by (auto simp: has_window_def list_ex_iff)
    moreover have "live_symbol_ok y" using kind_ok_dest(5) [OF store_ok_kind [OF assms(1)]] u Some by fastforce
    ultimately show ?thesis using assms(2) p Some by (subst c) (simp add: kind_ok_sets(2))
  qed (use assms(2) p c in simp)
qed

lemma ok_snapshot:
  assumes s: "store_ok s" and p: "preset_fits mk v s"
  shows "store_ok (applyWorkspaceSnapshot mk v s)"
proof -
  obtain ws z where n: "normalizeWorkspaceSnapshot mk v = (ws, z)" by (cases "normalizeWorkspaceSnapshot mk v")
  note r = preset_read [OF n]
  let ?ws = "map (\<lambda>w. fit_symbol (groupSymbols s) (carry_pin (windows s) w)) ws"
  have ids: "map w_id ?ws = map w_id ws" by simp
  have "w \<in> set ws \<Longrightarrow> live_kind_ok (carry_pin (windows s) w)" for w
    by (rule carry_pin_ok [OF s]) (use r p in \<open>auto simp: preset_fits_def n list_all_iff storable_iff live_kind\<close>)
  moreover have "w \<in> set ws \<Longrightarrow> rect_ok b (w_rect w)" for w b
    using r by (auto simp: list_all_iff storable_iff rect_ok_def isFracRect_def)
  ultimately have "list_all (window_ok (pendingNormalize s)) ?ws" by (simp add: list_all_iff window_ok_def)
  moreover have "distinct (map w_id ?ws)" "distinct z" "set z = set (map w_id ?ws)"
    unfolding ids using r p by (auto simp: preset_fits_def n)
  ultimately have "store_ok (s\<lparr>windows := ?ws, zOrder := z, pendingTransferPinIds := None, chartRuntime := (\<lambda>_. None), maximizedId := None\<rparr>)"
    using s unfolding store_ok_def ids_ok_def runtimes_ok_def by simp
  moreover have "store_ok ((persist (s\<lparr>windows := w, zOrder := z, pendingTransferPinIds := None\<rparr>))\<lparr>chartRuntime := r, maximizedId := m\<rparr>)
      = store_ok (s\<lparr>windows := w, zOrder := z, pendingTransferPinIds := None, chartRuntime := r, maximizedId := m\<rparr>)" for w r m
    by (simp add: store_ok_def ids_ok_def runtimes_ok_def has_window_def)
  ultimately show ?thesis unfolding applyWorkspaceSnapshot_def n prod.case Let_def store_ok_updates by blast
qed

text \<open>
  What the callers guarantee: new ids are new, canvases have a size, committed rectangles are fractions
  (\<open>toFrac\<close>), symbols are codes of their kind (a domestic stock with its kind left out or given as
  \<open>stock\<close>), a preset has distinct window ids and lets the pins it takes over be kept.
\<close>

fun action_ok :: "Action \<Rightarrow> Store \<Rightarrow> bool" where
  "action_ok (SetCanvasSize c) s = positive_canvas c"
| "action_ok (NormalizeLegacyRects c) s = positive_canvas c"
| "action_ok (AddWindow i k) s = (i \<notin> set (map w_id (windows s)))"
| "action_ok (OpenExecutionHistory i j a) s = (i \<notin> set (map w_id (windows s)))"
| "action_ok (SetWindowRect i r) s = isFracRect r"
| "action_ok (SetWindowRects rs) s = list_all (\<lambda>u. isFracRect (snd u)) rs"
| "action_ok (SetGroupSymbol g y) s = live_symbol_ok (classified y)"
| "action_ok (SetWindowSymbol i y) s = live_symbol_ok (classified y)"
| "action_ok (PinWindowToSymbol i y) s = live_symbol_ok y"
| "action_ok (ApplySnapshot mk v) s = preset_fits mk v s"
| "action_ok _ s = True"

lemma store_ok_act:
  assumes "store_ok s" "action_ok a s"
  shows "store_ok (act a s)"
proof (cases a)
  case (SetCanvasSize c)
  then show ?thesis using assms
    by (simp add: setCanvasSize_def store_ok_def ids_ok_def runtimes_ok_def has_window_def)
next
  case (SetWindowRects rs)
  then show ?thesis using assms by (simp add: ok_rects list_all_iff)
next
  case (ReportBlockedActivation n)
  then show ?thesis using assms(1) by (simp add: reportBlockedActivation_def)
next
  case DismissBlockedActivation
  then show ?thesis using assms(1) by (simp add: dismissBlockedActivation_def)
qed (use assms in \<open>simp_all add: ok_maximize ok_add ok_history ok_account ok_config ok_close ok_focus ok_top ok_rect
  ok_group ok_order ok_trade ok_news ok_symbol ok_toggle ok_transferred ok_pins ok_pin_symbol ok_window_symbol ok_unpin
  ok_backfill ok_legacy setChartRegularSessionOnly_def setChartHoverLinked_def setChartIndicatorLegendsVisible_def ok_flag
  ok_timeframe ok_range ok_consume ok_extend ok_contract ok_reset ok_hogaplay ok_snapshot\<close>)

end
