(* ===== verification/WorkspaceViews.thy ===== *)
theory WorkspaceViews
  imports WorkspaceLaws
begin

section \<open>What the windows show\<close>

text \<open>
  Which window shows which symbol, which actions can change that, and what happens to the runtime of a
  chart when it does.
\<close>

subsection \<open>Windows of an id\<close>

lemma find_map:
  assumes "\<And>w. w_id (f w) = w_id w"
  shows "find_window (map f ws) i = map_option f (find_window ws i)"
  by (induction ws) (simp_all add: find_window_def assms)

lemma find_append: "find_window (ws @ [n]) i = (case find_window ws i of Some w \<Rightarrow> Some w | None \<Rightarrow> if w_id n = i then Some n else None)"
  by (induction ws) (simp_all add: find_window_def)

lemma find_filter: "find_window (filter (\<lambda>w. w_id w \<noteq> j) ws) i = (if i = j then None else find_window ws i)"
  by (induction ws) (auto simp: find_window_def)

lemma at_id_id: "(\<And>w. w_id (f w) = w_id w) \<Longrightarrow> w_id (at_id i f w) = w_id w"
  by (simp add: at_id_def)

subsection \<open>Actions that leave every view alone\<close>

text \<open>A window update that changes neither the pin nor the group nor the kind.\<close>

definition view_neutral :: "(WorkspaceWindow \<Rightarrow> WorkspaceWindow) \<Rightarrow> bool" where
  "view_neutral f \<longleftrightarrow> (\<forall>w. w_id (f w) = w_id w \<and> pinned (f w) = pinned w \<and> w_group (f w) = w_group w \<and> w_kind (f w) = w_kind w)"

definition same_views :: "Store \<Rightarrow> Store \<Rightarrow> bool" where
  "same_views s t \<longleftrightarrow> groupSymbols t = groupSymbols s \<and> (\<forall>i w w'. find_window (windows s) i = Some w
     \<longrightarrow> find_window (windows t) i = Some w' \<longrightarrow> pinned w' = pinned w \<and> w_group w' = w_group w \<and> w_kind w' = w_kind w)"

lemma same_views_refl [simp, intro]: "same_views s s"
  by (simp add: same_views_def)

lemma same_views_updates [simp]:
  "same_views s (t\<lparr>maximizedId := m\<rparr>) = same_views s t" "same_views s (t\<lparr>chartRuntime := r\<rparr>) = same_views s t"
  "same_views s (t\<lparr>blockedActivation := b\<rparr>) = same_views s t" "same_views s (t\<lparr>canvasSize := c\<rparr>) = same_views s t"
  "same_views s (t\<lparr>objects := n\<rparr>) = same_views s t" "same_views s (t\<lparr>zOrder := z\<rparr>) = same_views s t"
  "same_views s (t\<lparr>pendingNormalize := q\<rparr>) = same_views s t" "same_views s (call es t) = same_views s t"
  "same_views s (rememberWindowPreferences k v t) = same_views s t" "same_views s (rememberLastOrderSettings o' t) = same_views s t"
  "same_views s (rememberChartPreferences cp i t) = same_views s t" "same_views s (set_runtime i rt t) = same_views s t"
  "same_views s (persist t) = same_views s t"
  by (simp_all add: same_views_def)

lemma same_views_put:
  "view_neutral f \<Longrightarrow> windows t = windows s \<Longrightarrow> groupSymbols t = groupSymbols s \<Longrightarrow> same_views s (put_windows f t)"
  using find_map [of f "windows s"] by (auto simp: same_views_def view_neutral_def)

lemma view_neutral_at: "view_neutral f \<Longrightarrow> view_neutral (at_id i f)"
  by (simp add: view_neutral_def at_id_def)

lemma same_views_display:
  "same_views s t \<Longrightarrow> find_window (windows s) i = Some w \<Longrightarrow> find_window (windows t) i = Some w' \<Longrightarrow> display t w' = display s w"
  by (auto simp: same_views_def display_def windowSymbolOf_def cong: option.case_cong)

fun neutral :: "Action \<Rightarrow> bool" where
  "neutral (SetGroupSymbol _ _) = False" | "neutral (SetWindowSymbol _ _) = False"
| "neutral (PinWindowToSymbol _ _) = False" | "neutral (SetWindowGroup _ _) = False"
| "neutral (ToggleWindowPin _) = False" | "neutral UnpinAllWindows = False"
| "neutral (ApplySnapshot _ _) = False" | "neutral (BackfillSymbolNames _) = False"
| "neutral RestoreTransferredPins = False" | "neutral (PinWindows _) = False"
| "neutral _ = True"

lemma neutral_flag: "same_views s (set_chart_flag cp i f s)"
  by (auto simp: set_chart_flag_def withChart_def view_neutral_def at_id_def split: option.split
      intro!: same_views_put)

lemma neutral_account: "same_views s (setOrderAccount i a s)"
  by (auto simp: setOrderAccount_def view_neutral_def split: option.split intro!: same_views_put)

lemma add_windows: "windows (addWindow i k s) = windows s @ [normalizeUsWindow (new_window i k
    (if k = ChartWindow \<and> focusedChart s = None then readLastWindowPreferences ChartPreferenceKey s else None) s)
    (groupSymbols s (w_group (new_window i k
      (if k = ChartWindow \<and> focusedChart s = None then readLastWindowPreferences ChartPreferenceKey s else None) s)))]"
  by (simp add: addWindow_def Let_def split: option.split)

lemma add_groups [simp]: "groupSymbols (addWindow i k s) = groupSymbols s"
  by (simp add: addWindow_def Let_def split: option.split)

lemma neutral_add: "same_views s (addWindow i k s)"
  by (auto simp: same_views_def add_windows find_append)

lemma neutral_focus: "same_views s (focusWindow i s)"
  by (simp add: focusWindow_def)

lemma neutral_config: "same_views s (setExecutionWindowConfig i c s)"
  by (auto simp: setExecutionWindowConfig_def view_neutral_def intro!: same_views_put)

lemma neutral_close: "same_views s (closeWindow cp i s)"
proof -
  have "groupSymbols (closeWindow cp i s) = groupSymbols s" by (simp add: closeWindow_def Let_def split: option.split)
  moreover have "windows (closeWindow cp i s) = map (closing_window (window_with (of_kind OrderWindow) i (remember_closing cp i s))
      (remember_closing cp i s) i) (filter (\<lambda>w. w_id w \<noteq> i) (windows s))"
    by (simp add: closeWindow_def Let_def split: option.split)
  ultimately show ?thesis by (auto simp: same_views_def find_map find_filter split: if_splits)
qed

lemma ids_account [simp]: "map w_id (windows (setOrderAccount j a s)) = map w_id (windows s)"
  by (auto simp: setOrderAccount_def split: option.split)

lemma find_None: "find_window ws i = None \<longleftrightarrow> i \<notin> set (map w_id ws)"
  by (auto simp: find_window_def find_None_iff)

lemma same_views_trans:
  assumes "same_views s t" "same_views t u" "set (map w_id (windows s)) \<subseteq> set (map w_id (windows t))"
  shows "same_views s u"
proof -
  have "\<exists>v. find_window (windows t) i = Some v" if "find_window (windows s) i = Some w" for i w
    using assms(3) that find_None [of "windows t" i] find_None [of "windows s" i] by (cases "find_window (windows t) i") auto
  then show ?thesis using assms(1,2) unfolding same_views_def by metis
qed

lemma neutral_history: "same_views s (snd (openExecutionHistory i j a s))"
proof -
  have 1: "same_views s (focusWindow l (setOrderAccount j a s))" for l
    by (rule same_views_trans [OF neutral_account neutral_focus]) simp
  have "same_views s (addWindow i AccountFills (setOrderAccount j a s))"
    by (rule same_views_trans [OF neutral_account neutral_add]) simp
  moreover have "set (map w_id (windows s)) \<subseteq> set (map w_id (windows (addWindow i AccountFills (setOrderAccount j a s))))"
    using ids_account [of j a s, THEN arg_cong [of _ _ set]] by (auto simp: add_windows)
  ultimately have 2: "same_views s (setExecutionWindowConfig i c (addWindow i AccountFills (setOrderAccount j a s)))" for c
    using same_views_trans [OF _ neutral_config] by blast
  show ?thesis using 1 2 by (auto simp: openExecutionHistory_def Let_def split: option.split)
qed

lemma neutral_timeframe: "same_views s (setChartTimeframe cp v i tf s)"
  by (auto simp: setChartTimeframe_def withChart_def Let_def view_neutral_def at_id_def split: option.split
      intro!: same_views_put)

lemma neutral_rects: "same_views s (setWindowRects rs s)"
  by (auto simp: setWindowRects_def view_neutral_def split: option.split intro!: same_views_put)

lemma neutral_same_views: "neutral a \<Longrightarrow> same_views s (act a s)"
proof (cases a)
  case (SetWindowRects rs) then show ?thesis by (simp add: neutral_rects)
next
  case (CloseWindow cp i) then show ?thesis by (simp add: neutral_close)
next
  case (AddWindow i k) then show ?thesis by (simp add: neutral_add)
next
  case (SetTradeMinAmount i n) then show ?thesis
    by (auto simp: setTradeMinAmountManwon_def Let_def view_neutral_def at_id_def split: option.split
        intro!: same_views_put)
qed (auto simp: neutral_focus neutral_history neutral_account neutral_config neutral_timeframe neutral_flag
  setCanvasSize_def toggleAlwaysOnTop_def setWindowRect_def setOrderWindowSettings_def setNewsLinkedOnly_def
  reportBlockedActivation_def dismissBlockedActivation_def normalizeLegacyRects_def toggleMaximize_def focusWindow_def
  setChartRegularSessionOnly_def setChartHoverLinked_def setChartIndicatorLegendsVisible_def setSecondChartRange_def
  consumeSecondViewport_def extendChartHistoricalRange_def contractChartHistoricalRange_def resetChartHistoricalRange_def
  setChartHogaplaySource_def Let_def view_neutral_def at_id_def split: option.split intro!: same_views_put)

subsection \<open>The windows an action retargets\<close>

text \<open>The windows whose symbol an action may change; renaming a symbol is not counted.\<close>

fun retargets :: "Action \<Rightarrow> Store \<Rightarrow> WorkspaceWindow \<Rightarrow> bool" where
  "retargets (SetGroupSymbol g y) s w = (read_group g = Some (w_group w) \<and> pinned w = None)"
| "retargets (SetWindowSymbol i y) s w = (case find_window (windows s) i of
     Some v \<Rightarrow> if pinned v = None then w_group w = w_group v \<and> pinned w = None else w_id w = i | None \<Rightarrow> False)"
| "retargets (PinWindowToSymbol i y) s w = (w_id w = i)"
| "retargets (SetWindowGroup i g) s w = (w_id w = i \<and> pinned w = None)"
| "retargets (ToggleWindowPin i) s w = (w_id w = i \<and> pinned w \<noteq> None)"
| "retargets UnpinAllWindows s w = (pinned w \<noteq> None)"
| "retargets (ApplySnapshot mk v) s w = (pinned w = None)"
| "retargets _ s w = False"

definition shown_code :: "'a Persisted_scheme \<Rightarrow> WorkspaceWindow \<Rightarrow> string option" where
  "shown_code s w = map_option sym_code (display s w)"

definition views_of :: "Action \<Rightarrow> Store \<Rightarrow> Store \<Rightarrow> bool" where
  "views_of a s t \<longleftrightarrow> (\<forall>i w w'. find_window (windows s) i = Some w \<longrightarrow> find_window (windows t) i = Some w' \<longrightarrow>
     (\<not> retargets a s w \<longrightarrow> shown_code t w' = shown_code s w) \<and> (shown_code t w' \<noteq> shown_code s w \<longrightarrow> chartRuntime t i = None))"

lemma views_of_refl [simp]: "views_of a s s" by (simp add: views_of_def)

lemma views_ofI:
  assumes "windows t = map f (windows s)" "\<And>w. w_id (f w) = w_id w"
    and "\<And>w. w \<in> set (windows s) \<Longrightarrow> (retargets a s w \<or> shown_code t (f w) = shown_code s w)
      \<and> (chartRuntime t (w_id w) = None \<or> shown_code t (f w) = shown_code s w)"
  shows "views_of a s t"
  using assms find_window_Some unfolding views_of_def by (fastforce simp: find_map)

lemma sym_code_classified [simp]: "sym_code (classified y) = sym_code y"
  by (simp add: classified_def)

lemma shown_simps:
  "w_kind w' = w_kind w \<Longrightarrow> w_group w' = w_group w \<Longrightarrow> pinned w' = pinned w \<Longrightarrow> groupSymbols t (w_group w) = groupSymbols s (w_group w)
    \<Longrightarrow> shown_code t w' = shown_code s w"
  by (simp add: shown_code_def display_def windowSymbolOf_def cong: option.case_cong)

lemma shown_pinned: "live_kind_ok w \<Longrightarrow> pinned w = Some p \<Longrightarrow> shown_code s w = Some (sym_code p)"
  using kind_ok_dest(7) [of w] by (auto simp: shown_code_def display_def windowSymbolOf_def pinnable_def)

lemma views_group_symbol:
  "store_ok s \<Longrightarrow> views_of (SetGroupSymbol g y) s (setGroupSymbol g y s)"
proof (cases "read_group g")
  case (Some n)
  assume s: "store_ok s"
  show ?thesis
  proof (rule views_ofI [where f = "\<lambda>w. if w_group w = n \<and> pinned w = None then normalizeUsWindow w (Some (classified y)) else w"])
    fix w assume w: "w \<in> set (windows s)"
    let ?f = "\<lambda>w. if w_group w = n \<and> pinned w = None then normalizeUsWindow w (Some (classified y)) else w"
    show "(retargets (SetGroupSymbol g y) s w \<or> shown_code (setGroupSymbol g y s) (?f w) = shown_code s w)
      \<and> (chartRuntime (setGroupSymbol g y s) (w_id w) = None \<or> shown_code (setGroupSymbol g y s) (?f w) = shown_code s w)"
    proof (cases "w_group w = n \<and> pinned w = None")
      case True
      then show ?thesis using w Some by (auto simp: setGroupSymbol_def Let_def clearedChartRuntime_def)
    next
      case False
      then have "shown_code (setGroupSymbol g y s) w = shown_code s w"
        using shown_simps [of w w "setGroupSymbol g y s" s] Some
        by (cases "pinned w") (auto simp: setGroupSymbol_def Let_def shown_pinned [OF store_ok_kind [OF s w]])
      then show ?thesis using False by auto
    qed
  qed (auto simp: setGroupSymbol_def Let_def Some)
qed (simp add: setGroupSymbol_def Let_def)

lemma views_pin_to:
  assumes "windows t = map (at_id i (\<lambda>w. normalizeUsWindow (w\<lparr>pinned := Some y\<rparr>) (Some y))) (windows s)"
    and "groupSymbols t = groupSymbols s" "chartRuntime t i = None" "\<And>w. w_id w = i \<Longrightarrow> w \<in> set (windows s) \<Longrightarrow> retargets a s w"
  shows "views_of a s t"
  by (rule views_ofI [OF assms(1)]) (use assms(2-4) in \<open>auto simp: at_id_def intro!: shown_simps\<close>)

lemma views_pin_symbol: "views_of (PinWindowToSymbol i y) s (pinWindowToSymbol i y s)"
  by (auto simp: pinWindowToSymbol_def clearedChartRuntime_def intro!: views_pin_to)

lemma views_window_symbol: "store_ok s \<Longrightarrow> views_of (SetWindowSymbol i y) s (setWindowSymbol i y s)"
proof (cases "find_window (windows s) i")
  case (Some v)
  assume s: "store_ok s"
  have g: "read_group (of_nat (w_group v)) = Some (w_group v)"
    using kind_ok_dest(1) [OF store_ok_kind [OF s]] find_window_Some [OF Some] read_group_stored by blast
  show ?thesis
  proof (cases "pinned v")
    case None
    have "views_of (SetGroupSymbol (of_nat (w_group v)) (classified y)) s (setGroupSymbol (of_nat (w_group v)) (classified y) s)"
      by (rule views_group_symbol [OF s])
    then show ?thesis using Some None g
      by (auto simp: setWindowSymbol_def Let_def views_of_def)
  qed (use Some in \<open>auto simp: setWindowSymbol_def Let_def clearedChartRuntime_def intro!: views_pin_to\<close>)
qed (simp add: setWindowSymbol_def Let_def)

lemma views_group: "store_ok s \<Longrightarrow> views_of (SetWindowGroup i g) s (setWindowGroup i g s)"
proof (cases "read_group g")
  case (Some n)
  assume s: "store_ok s"
  show ?thesis
  proof (cases "find_window (windows s) i")
    case (Some v)
    let ?f = "at_id i (\<lambda>w. normalizeUsWindow (w\<lparr>w_group := n\<rparr>) (case pinned w of Some p \<Rightarrow> Some p | None \<Rightarrow> groupSymbols s n))"
    have pin: "w \<in> set (windows s) \<Longrightarrow> w_id w = i \<Longrightarrow> w = v" for w
      using find_window_Some [OF Some] s window_unique [of "windows s" w v] by (auto simp: store_ok_def ids_ok_def)
    show ?thesis
    proof (cases "w_group v = n")
      case False
      show ?thesis
      proof (rule views_ofI [where f = ?f])
        fix w assume w: "w \<in> set (windows s)"
        have p: "pinned w = Some p \<Longrightarrow> w_id w = i \<Longrightarrow> shown_code (setWindowGroup i g s) (?f w) = shown_code s w" for p
          using kind_ok_dest(7) [OF store_ok_kind [OF s w]]
          by (auto simp: shown_code_def display_def windowSymbolOf_def at_id_def pinnable_def)
        have o': "w_id w \<noteq> i \<Longrightarrow> shown_code (setWindowGroup i g s) (?f w) = shown_code s w"
          using Some False \<open>read_group g = Some n\<close> by (intro shown_simps) (auto simp: setWindowGroup_def Let_def at_id_def)
        show "(retargets (SetWindowGroup i g) s w \<or> shown_code (setWindowGroup i g s) (?f w) = shown_code s w)
            \<and> (chartRuntime (setWindowGroup i g s) (w_id w) = None \<or> shown_code (setWindowGroup i g s) (?f w) = shown_code s w)"
        proof (cases "w_id w = i")
          case True
          then show ?thesis using p pin [OF w] Some False \<open>read_group g = Some n\<close>
            by (cases "pinned w") (auto simp: setWindowGroup_def Let_def clearedChartRuntime_def)
        qed (use o' in simp)
      qed (use Some False \<open>read_group g = Some n\<close> in \<open>auto simp: setWindowGroup_def Let_def at_id_def\<close>)
    qed (simp add: setWindowGroup_def Some \<open>read_group g = Some n\<close>)
  qed (simp add: setWindowGroup_def Some)
qed (simp add: setWindowGroup_def)

lemma views_toggle: "store_ok s \<Longrightarrow> views_of (ToggleWindowPin i) s (toggleWindowPin i s)"
proof (cases "find_window (windows s) i")
  case (Some v)
  assume s: "store_ok s"
  note v = find_window_Some [OF Some]
  have uniq: "w \<in> set (windows s) \<Longrightarrow> w_id w = i \<Longrightarrow> w = v" for w
    using v s window_unique [of "windows s" w v] by (auto simp: store_ok_def ids_ok_def)
  let ?f = "at_id i (\<lambda>w. if pinned w \<noteq> None then withoutPin w else w\<lparr>pinned := display s v\<rparr>)"
  let ?t = "toggleWindowPin i s"
  show ?thesis
  proof (cases "pinnable v \<and> (pinned v \<noteq> None \<or> display s v \<noteq> None)")
    case True
    show ?thesis
    proof (rule views_ofI [where f = ?f])
      fix w assume w: "w \<in> set (windows s)"
      show "(retargets (ToggleWindowPin i) s w \<or> shown_code ?t (?f w) = shown_code s w)
          \<and> (chartRuntime ?t (w_id w) = None \<or> shown_code ?t (?f w) = shown_code s w)"
      proof (cases "w_id w = i")
        case False
        then show ?thesis using Some True by (auto simp: toggleWindowPin_def Let_def at_id_def intro!: shown_simps split: option.split)
      next
        case here: True
        then have wv: "w = v" using uniq w by blast
        show ?thesis
        proof (cases "pinned v")
          case None
          then show ?thesis using Some True wv here
            by (auto simp: toggleWindowPin_def Let_def at_id_def shown_code_def display_def windowSymbolOf_def pinnable_def)
        next
          case (Some p)
          then have "shown_code s v = Some (sym_code p)" using shown_pinned store_ok_kind [OF s] v by blast
          then show ?thesis using \<open>find_window (windows s) i = Some v\<close> True wv here Some
            by (auto simp: toggleWindowPin_def Let_def at_id_def shown_code_def display_def windowSymbolOf_def pinnable_def clearedChartRuntime_def)
        qed
      qed
    qed (use Some True in \<open>auto simp: toggleWindowPin_def Let_def at_id_def split: option.split\<close>)
  qed (use Some in \<open>auto simp: toggleWindowPin_def Let_def\<close>)
qed (simp add: toggleWindowPin_def)

lemma pin_display_simps [simp]:
  "w_id (pin_to_display s ids w) = w_id w" "w_kind (pin_to_display s ids w) = w_kind w"
  "w_group (pin_to_display s ids w) = w_group w" "w_chart (pin_to_display s ids w) = w_chart w"
  by (simp_all add: pin_to_display_def)

lemma pinned_display: "groupSymbols t = groupSymbols s \<Longrightarrow> display t (pin_to_display s ids w) = display s w"
  by (auto simp: pin_to_display_def display_def windowSymbolOf_def pinnable_def split: option.splits)

lemma views_pins:
  "groupSymbols t = groupSymbols s \<Longrightarrow> windows t = map (pin_to_display s ids) (windows s) \<Longrightarrow> views_of a s t"
  by (rule views_ofI [where f = "pin_to_display s ids"]) (simp_all add: shown_code_def pinned_display)

lemma views_unpin: "store_ok s \<Longrightarrow> views_of UnpinAllWindows s (unpinAllWindows s)"
proof (cases "filter (\<lambda>w. pinned w \<noteq> None) (windows s) = []")
  case False
  show ?thesis
  proof (rule views_ofI [where f = withoutPin])
    fix w assume w: "w \<in> set (windows s)"
    show "(retargets UnpinAllWindows s w \<or> shown_code (unpinAllWindows s) (withoutPin w) = shown_code s w)
        \<and> (chartRuntime (unpinAllWindows s) (w_id w) = None \<or> shown_code (unpinAllWindows s) (withoutPin w) = shown_code s w)"
    proof (cases "pinned w")
      case None
      then have "shown_code (unpinAllWindows s) (withoutPin w) = shown_code s w"
        by (intro shown_simps) (simp_all add: unpinAllWindows_def Let_def)
      then show ?thesis by simp
    next
      case (Some p)
      then have "w_id w \<in> set (map w_id (filter (\<lambda>w. pinned w \<noteq> None) (windows s)))" using w by force
      then show ?thesis using False Some by (auto simp: unpinAllWindows_def Let_def clearedChartRuntime_def)
    qed
  qed (use False in \<open>simp_all add: unpinAllWindows_def Let_def\<close>)
qed (simp add: unpinAllWindows_def)

lemma healed_code: "healed f y = Some n \<Longrightarrow> \<exists>z. y = Some z \<and> sym_code n = sym_code z"
  by (auto simp: healed_def split: option.splits if_splits)

lemma heal_code: "map_option sym_code (heal f y) = map_option sym_code y"
  by (auto simp: heal_def dest: healed_code split: option.split)

lemma heal_Some: "heal f (Some y) \<noteq> None"
  by (auto simp: heal_def split: option.split)

lemma views_backfill: "store_ok s \<Longrightarrow> views_of (BackfillSymbolNames f) s (backfillSymbolNames f s)"
proof (cases "backfillSymbolNames f s = s")
  case False
  let ?f = "\<lambda>w. w\<lparr>pinned := heal f (pinned w)\<rparr>"
  have t: "windows (backfillSymbolNames f s) = map ?f (windows s)" "groupSymbols (backfillSymbolNames f s) = (\<lambda>g. heal f (groupSymbols s g))"
    using False by (auto simp: backfillSymbolNames_def split: if_splits)
  have "shown_code (backfillSymbolNames f s) (?f w) = shown_code s w" for w
  proof (cases "pinned w")
    case (Some p)
    then obtain q where q: "heal f (Some p) = Some q" "sym_code q = sym_code p"
      using heal_Some [of f p] heal_code [of f "Some p"] by (cases "heal f (Some p)") auto
    then show ?thesis using heal_code [of f] by (simp add: Some shown_code_def display_def windowSymbolOf_def t)
  qed (simp add: shown_code_def display_def windowSymbolOf_def t heal_code)
  then show ?thesis by (intro views_ofI [OF t(1)]) auto
qed simp

lemma views_snapshot: "store_ok s \<Longrightarrow> preset_fits mk v s \<Longrightarrow> views_of (ApplySnapshot mk v) s (applyWorkspaceSnapshot mk v s)"
proof -
  assume s: "store_ok s" and p: "preset_fits mk v s"
  obtain ws z where n: "normalizeWorkspaceSnapshot mk v = (ws, z)" by (cases "normalizeWorkspaceSnapshot mk v")
  let ?t = "applyWorkspaceSnapshot mk v s"
  have t: "windows ?t = map (\<lambda>w. fit_symbol (groupSymbols s) (carry_pin (windows s) w)) ws" "chartRuntime ?t = (\<lambda>_. None)"
    by (simp_all add: applyWorkspaceSnapshot_def n Let_def)
  have "shown_code ?t w' = shown_code s w"
    if w: "find_window (windows s) i = Some w" "find_window (windows ?t) i = Some w'" "pinned w = Some q" for i w w' q
  proof -
    obtain u where u: "u \<in> set ws" "w_id u = i" "w' = fit_symbol (groupSymbols s) (carry_pin (windows s) u)"
      using w(2) find_window_Some [of ws i] unfolding t(1) by (auto simp: find_map)
    have "shown_code s w = Some (sym_code q)"
      using shown_pinned [OF store_ok_kind [OF s] w(3)] find_window_Some [OF w(1)] by blast
    have "pinned w' = Some q"
      using carry_pin_pinned [of "windows s" u] s w u by (simp add: store_ok_def ids_ok_def)
    moreover have "pinnable u"
      using p u find_window_Some [OF w(1)] w(3) by (auto simp: preset_fits_def n list_all_iff has_window_def list_ex_iff)
    moreover have "w_kind w' = w_kind u" using u(3) by simp
    ultimately have "shown_code ?t w' = Some (sym_code q)"
      by (simp add: shown_code_def display_def windowSymbolOf_def pinnable_def)
    then show ?thesis using \<open>shown_code s w = Some (sym_code q)\<close> by simp
  qed
  then show ?thesis by (auto simp: views_of_def t(2))
qed

lemma views_act:
  assumes "store_ok s" "action_ok a s"
  shows "views_of a s (act a s)"
proof (cases "neutral a")
  case True
  then show ?thesis
    using same_views_display [OF neutral_same_views [OF True]] by (simp add: views_of_def shown_code_def)
next
  case False
  then show ?thesis using assms
    by (cases a) (auto simp: views_group_symbol views_window_symbol views_pin_symbol views_group views_toggle views_unpin
        views_backfill views_snapshot restoreTransferredPins_def pinWindows_def intro!: views_pins split: option.split)
qed

end
