(* ===== verification/WorkspaceFit.thy ===== *)
theory WorkspaceFit
  imports WorkspaceViews
begin

section \<open>Charts fit their symbol\<close>

text \<open>
  US prices have no second bars and few minute bars, stored captures exist for minute bars only, and a
  second range makes sense on second bars only. A chart fits when its timeframe is one its symbol has
  and its runtime belongs to the timeframe.
\<close>

definition runtime_fits :: "LiveTimeframe \<Rightarrow> ChartWindowRuntime \<Rightarrow> bool" where
  "runtime_fits tf rt \<longleftrightarrow> (hogaplaySource rt = Some True \<longrightarrow> isMinuteTimeframe tf)
     \<and> (secondRange rt \<noteq> None \<or> secondViewport rt \<noteq> None \<longrightarrow> isSecondTimeframe tf)"

definition window_fits :: "Store \<Rightarrow> string \<Rightarrow> WorkspaceWindow \<Rightarrow> bool" where
  "window_fits s i w \<longleftrightarrow> (case w_chart w of None \<Rightarrow> True
     | Some c \<Rightarrow> symbolTimeframe (display s w) (chart_timeframe c) = chart_timeframe c
         \<and> runtime_fits (chart_timeframe c) (runtime_of i s))"

definition fitted :: "Store \<Rightarrow> bool" where
  "fitted s \<longleftrightarrow> (\<forall>i w. find_window (windows s) i = Some w \<longrightarrow> window_fits s i w)"

text \<open>A runtime that asks for no more than another.\<close>

definition quieter :: "ChartWindowRuntime \<Rightarrow> ChartWindowRuntime \<Rightarrow> bool" where
  "quieter a b \<longleftrightarrow> (\<forall>tf. runtime_fits tf b \<longrightarrow> runtime_fits tf a)"

lemma quieter_refl [simp]: "quieter a a" by (simp add: quieter_def)

lemma quieter_empty [simp]: "quieter EMPTY_RUNTIME b"
  by (simp add: quieter_def runtime_fits_def EMPTY_RUNTIME_def)

lemma empty_fits [simp]: "runtime_fits tf EMPTY_RUNTIME"
  by (simp add: runtime_fits_def EMPTY_RUNTIME_def)

lemma runtime_fits_updates [simp]:
  "runtime_fits tf (rt\<lparr>historicalFromDate := d\<rparr>) = runtime_fits tf rt"
  "runtime_fits tf (rt\<lparr>lastMinuteHistoricalFromDate := d\<rparr>) = runtime_fits tf rt"
  "runtime_fits tf (rt\<lparr>lastMinuteHistoricalTimeframe := d'\<rparr>) = runtime_fits tf rt"
  by (simp_all add: runtime_fits_def)

definition same_timeframe :: "WorkspaceWindow \<Rightarrow> WorkspaceWindow \<Rightarrow> bool" where
  "same_timeframe w w' \<longleftrightarrow> map_option chart_timeframe (w_chart w') = map_option chart_timeframe (w_chart w)"

text \<open>Every window of the second store is one of the first, showing the same kind of symbol on the same timeframe.\<close>

definition derives :: "Store \<Rightarrow> Store \<Rightarrow> bool" where
  "derives s t \<longleftrightarrow> (\<forall>i w'. find_window (windows t) i = Some w' \<longrightarrow> (\<exists>w. find_window (windows s) i = Some w
     \<and> same_timeframe w w' \<and> symbolTimeframe (display t w') = symbolTimeframe (display s w)
     \<and> quieter (runtime_of i t) (runtime_of i s)))"

lemma derives_fitted: "derives s t \<Longrightarrow> fitted s \<Longrightarrow> fitted t"
proof -
  assume d: "derives s t" and f: "fitted s"
  have "window_fits t i w'" if w': "find_window (windows t) i = Some w'" for i w'
  proof -
    obtain w where w: "find_window (windows s) i = Some w" "same_timeframe w w'"
      "symbolTimeframe (display t w') = symbolTimeframe (display s w)" "quieter (runtime_of i t) (runtime_of i s)"
      using d w' unfolding derives_def by blast
    have "window_fits s i w" using f w(1) by (simp add: fitted_def)
    then show ?thesis using w(2-4)
      by (cases "w_chart w"; cases "w_chart w'") (auto simp: window_fits_def same_timeframe_def quieter_def)
  qed
  then show ?thesis by (simp add: fitted_def)
qed

lemma derives_refl [simp, intro]: "derives s s"
  by (auto simp: derives_def same_timeframe_def)

lemma derives_put:
  assumes "\<And>w. w_id (f w) = w_id w" "windows t = windows s"
    and "\<And>w. w \<in> set (windows s) \<Longrightarrow> same_timeframe w (f w) \<and> symbolTimeframe (display t (f w)) = symbolTimeframe (display s w)"
    and "chartRuntime t = chartRuntime s"
  shows "derives s (put_windows f t)"
  unfolding derives_def
proof (intro allI impI)
  fix i w' assume "find_window (windows (put_windows f t)) i = Some w'"
  then obtain w where w: "find_window (windows s) i = Some w" "w' = f w"
    using find_map [of f "windows s" i] assms(1,2) by auto
  moreover have "display (put_windows f t) v = display t v" for v by (simp add: display_def)
  moreover have "runtime_of i (put_windows f t) = runtime_of i s" using assms(4) by (simp add: runtime_of_def)
  ultimately show "\<exists>w. find_window (windows s) i = Some w \<and> same_timeframe w w'
      \<and> symbolTimeframe (display (put_windows f t) w') = symbolTimeframe (display s w)
      \<and> quieter (runtime_of i (put_windows f t)) (runtime_of i s)"
    using assms(3) find_window_Some [OF w(1)] by auto
qed

lemma derives_same:
  assumes "windows t = windows s" "groupSymbols t = groupSymbols s" "\<And>i. quieter (runtime_of i t) (runtime_of i s)"
  shows "derives s t"
  using assms by (auto simp: derives_def same_timeframe_def display_def)

lemma derives_updates [simp]:
  "derives s (t\<lparr>maximizedId := m\<rparr>) = derives s t" "derives s (t\<lparr>blockedActivation := b\<rparr>) = derives s t"
  "derives s (t\<lparr>canvasSize := c\<rparr>) = derives s t" "derives s (t\<lparr>objects := n\<rparr>) = derives s t"
  "derives s (t\<lparr>zOrder := z\<rparr>) = derives s t" "derives s (t\<lparr>pendingNormalize := q\<rparr>) = derives s t"
  "derives s (call es t) = derives s t" "derives s (rememberWindowPreferences k v t) = derives s t"
  "derives s (rememberLastOrderSettings o' t) = derives s t" "derives s (rememberChartPreferences cp i t) = derives s t"
  "derives s (persist t) = derives s t"
  by (simp_all add: derives_def display_def runtime_of_def)

lemma display_put: "view_neutral f \<Longrightarrow> groupSymbols t = groupSymbols s \<Longrightarrow> display t (f w) = display s w"
  by (simp add: display_def windowSymbolOf_def view_neutral_def cong: option.case_cong)

lemma derives_neutral:
  "view_neutral f \<Longrightarrow> (\<And>w. same_timeframe w (f w)) \<Longrightarrow> windows t = windows s \<Longrightarrow> groupSymbols t = groupSymbols s
    \<Longrightarrow> chartRuntime t = chartRuntime s \<Longrightarrow> derives s (put_windows f t)"
  by (rule derives_put) (simp_all add: display_put, simp add: view_neutral_def)

lemma derives_trans: "derives s t \<Longrightarrow> derives t u \<Longrightarrow> derives s u"
  unfolding derives_def quieter_def same_timeframe_def by metis

lemma runtime_of_set: "runtime_of j (set_runtime i rt s) = (if j = i then rt else runtime_of j s)"
  by (simp add: runtime_of_def)

lemma derives_set_runtime: "quieter rt (runtime_of i s) \<Longrightarrow> derives s (set_runtime i rt s)"
  by (rule derives_same) (simp_all add: runtime_of_set)

subsection \<open>Actions that derive\<close>

lemma derives_account: "derives s (setOrderAccount i a s)"
  by (auto simp: setOrderAccount_def view_neutral_def same_timeframe_def split: option.split intro!: derives_neutral)

lemma derives_config: "derives s (setExecutionWindowConfig i c s)"
  by (auto simp: setExecutionWindowConfig_def view_neutral_def same_timeframe_def intro!: derives_neutral)

lemma derives_focus: "derives s (focusWindow i s)"
  by (simp add: focusWindow_def)

lemma derives_flag: "(\<And>c. chart_timeframe (f c) = chart_timeframe c) \<Longrightarrow> store_ok s \<Longrightarrow> derives s (set_chart_flag cp i f s)"
proof (cases "chart_of i s")
  case (Some c)
  assume f: "\<And>c. chart_timeframe (f c) = chart_timeframe c" and s: "store_ok s"
  obtain v where v: "v \<in> set (windows s)" "w_id v = i" "w_chart v = Some c" using chart_of_Some [OF Some] by blast
  have "derives s (put_windows (at_id i (\<lambda>w. w\<lparr>w_chart := Some (f c)\<rparr>)) s)"
  proof (rule derives_put)
    fix w assume w: "w \<in> set (windows s)"
    have "w_id w = i \<Longrightarrow> w = v" using w v s window_unique [of "windows s" w v] by (auto simp: store_ok_def ids_ok_def)
    then show "same_timeframe w (at_id i (\<lambda>w. w\<lparr>w_chart := Some (f c)\<rparr>) w)
        \<and> symbolTimeframe (display s (at_id i (\<lambda>w. w\<lparr>w_chart := Some (f c)\<rparr>) w)) = symbolTimeframe (display s w)"
      using v f by (auto simp: at_id_def same_timeframe_def display_def windowSymbolOf_def cong: option.case_cong)
  qed (simp_all add: at_id_def)
  then show ?thesis by (simp add: set_chart_flag_def withChart_def Some)
qed (simp add: set_chart_flag_def withChart_def)

lemma runtime_cleared: "runtime_of j (t\<lparr>chartRuntime := clearedChartRuntime r is\<rparr>) = (if j \<in> set is then EMPTY_RUNTIME else runtime_of j (t\<lparr>chartRuntime := r\<rparr>))"
  by (simp add: runtime_of_def clearedChartRuntime_def)

lemma derives_close: "derives s (closeWindow cp i s)"
  unfolding derives_def
proof (intro allI impI)
  let ?t = "closeWindow cp i s"
  fix j w' assume w': "find_window (windows ?t) j = Some w'"
  have t: "windows ?t = map (closing_window (window_with (of_kind OrderWindow) i (remember_closing cp i s))
      (remember_closing cp i s) i) (filter (\<lambda>w. w_id w \<noteq> i) (windows s))" "groupSymbols ?t = groupSymbols s"
      "chartRuntime ?t = clearedChartRuntime (chartRuntime s) [i]"
    by (simp_all add: closeWindow_def Let_def split: option.split)
  obtain w where w: "j \<noteq> i" "find_window (windows s) j = Some w" "w' = closing_window (window_with (of_kind OrderWindow) i (remember_closing cp i s))
      (remember_closing cp i s) i w"
    using w' unfolding t(1) by (auto simp: find_map find_filter split: if_splits)
  have "display ?t w' = display s w" unfolding w(3) by (simp add: display_def windowSymbolOf_def t(2) cong: option.case_cong)
  moreover have "runtime_of j ?t = runtime_of j s" using w(1) by (simp add: runtime_of_def t(3) clearedChartRuntime_def)
  moreover have "same_timeframe w w'" unfolding w(3) by (simp add: same_timeframe_def)
  ultimately show "\<exists>w. find_window (windows s) j = Some w \<and> same_timeframe w w'
      \<and> symbolTimeframe (display ?t w') = symbolTimeframe (display s w) \<and> quieter (runtime_of j ?t) (runtime_of j s)"
    using w(2) by auto
qed

lemma derives_pins: "windows t = windows s \<Longrightarrow> groupSymbols t = groupSymbols s \<Longrightarrow> chartRuntime t = chartRuntime s
    \<Longrightarrow> derives s (put_windows (pin_to_display s ids) t)"
  by (rule derives_put) (simp_all add: pinned_display same_timeframe_def)

lemma heal_timeframe: "symbolTimeframe (heal f y) = symbolTimeframe y"
  by (auto simp: heal_def healed_def symbolTimeframe_def fun_eq_iff split: option.split)

lemma derives_backfill: "derives s (backfillSymbolNames f s)"
proof -
  let ?f = "\<lambda>w. w\<lparr>pinned := heal f (pinned w)\<rparr>" and ?t = "s\<lparr>groupSymbols := (\<lambda>g. heal f (groupSymbols s g))\<rparr>"
  have "symbolTimeframe (display ?t (?f w)) = symbolTimeframe (display s w)" for w
  proof (cases "pinned w")
    case (Some p)
    then obtain q where "heal f (Some p) = Some q" using heal_Some [of f p] by (cases "heal f (Some p)") auto
    then show ?thesis using heal_timeframe [of f] heal_timeframe [of f "Some p"]
      by (simp add: display_def windowSymbolOf_def Some)
  qed (simp add: display_def windowSymbolOf_def heal_timeframe)
  then have "derives s (put_windows ?f ?t)" by (intro derives_put) (simp_all add: same_timeframe_def)
  then show ?thesis by (simp add: backfillSymbolNames_def)
qed

lemma derives_consume: "derives s (consumeSecondViewport i n s)"
proof -
  have "quieter (rt\<lparr>secondViewport := None\<rparr>) rt" for rt by (simp add: quieter_def runtime_fits_def)
  then show ?thesis by (auto simp: consumeSecondViewport_def runtime_of_def split: option.split intro!: derives_set_runtime)
qed

lemma derives_dates: "derives s (extendChartHistoricalRange i d s)" "derives s (contractChartHistoricalRange i d s)"
  "derives s (resetChartHistoricalRange i s)"
  by (auto simp: extendChartHistoricalRange_def contractChartHistoricalRange_def resetChartHistoricalRange_def Let_def
      quieter_def runtime_of_def split: option.split intro!: derives_set_runtime)

fun calm :: "Action \<Rightarrow> bool" where
  "calm (AddWindow _ _) = False" | "calm (OpenExecutionHistory _ _ _) = False"
| "calm (SetGroupSymbol _ _) = False" | "calm (SetWindowSymbol _ _) = False" | "calm (PinWindowToSymbol _ _) = False"
| "calm (SetWindowGroup _ _) = False" | "calm (ToggleWindowPin _) = False" | "calm UnpinAllWindows = False"
| "calm (ApplySnapshot _ _) = False" | "calm (SetChartTimeframe _ _ _ _) = False"
| "calm (SetSecondChartRange _ _) = False" | "calm (SetHogaplaySource _ _) = False"
| "calm _ = True"

lemma derives_calm: "calm a \<Longrightarrow> store_ok s \<Longrightarrow> derives s (act a s)"
proof (cases a)
  case (SetTradeMinAmount i n)
  then show ?thesis
    by (auto simp: setTradeMinAmountManwon_def Let_def view_neutral_def at_id_def same_timeframe_def split: option.split
        intro!: derives_neutral)
next
  case (SetWindowRects rs)
  then show ?thesis
    by (auto simp: setWindowRects_def view_neutral_def same_timeframe_def split: option.split intro!: derives_neutral)
qed (auto simp: derives_focus derives_account derives_config derives_flag derives_close derives_backfill derives_consume derives_dates
  setCanvasSize_def toggleAlwaysOnTop_def setWindowRect_def setOrderWindowSettings_def setNewsLinkedOnly_def
  reportBlockedActivation_def dismissBlockedActivation_def normalizeLegacyRects_def toggleMaximize_def
  setChartRegularSessionOnly_def setChartHoverLinked_def setChartIndicatorLegendsVisible_def
  restoreTransferredPins_def pinWindows_def Let_def view_neutral_def at_id_def same_timeframe_def
  split: option.split intro!: derives_neutral derives_pins)

subsection \<open>Actions that retarget or retime a chart\<close>

lemma us_twice: "usChartTimeframe (usChartTimeframe tf) = usChartTimeframe tf"
  by (cases tf) (simp_all add: usChartTimeframe_def usCalendarTimeframe_def US_MINUTE_TIMEFRAMES_def)

lemma symbol_twice [simp]: "symbolTimeframe y (symbolTimeframe y tf) = symbolTimeframe y tf"
  by (simp add: symbolTimeframe_def us_twice split: option.split)

lemma fitted_map:
  assumes "fitted s" "windows t = map f (windows s)" "\<And>w. w_id (f w) = w_id w"
    and "\<And>w. w \<in> set (windows s) \<Longrightarrow> window_fits s (w_id w) w \<Longrightarrow> window_fits t (w_id w) (f w)"
  shows "fitted t"
  using assms find_window_Some unfolding fitted_def by (fastforce simp: find_map)

lemma window_fits_same:
  assumes "window_fits s i w" "w_chart w' = w_chart w" "display t w' = display s w" "runtime_of i t = runtime_of i s"
  shows "window_fits t i w'"
  using assms by (cases "w_chart w") (simp_all add: window_fits_def)

lemma window_fits_normalized:
  assumes "display t (normalizeUsWindow w y) = y" "runtime_of i t = EMPTY_RUNTIME"
  shows "window_fits t i (normalizeUsWindow w y)"
  using assms by (simp add: window_fits_def split: option.split)

lemma fitted_add:
  assumes "fitted s" "store_ok s" "i \<notin> set (map w_id (windows s))"
  shows "fitted (addWindow i k s)"
  unfolding fitted_def
proof (intro allI impI)
  let ?t = "addWindow i k s"
  fix j w assume w: "find_window (windows ?t) j = Some w"
  have rt: "runtime_of l ?t = runtime_of l s" for l by (simp add: runtime_of_def addWindow_def Let_def split: option.split)
  have d: "display ?t v = display s v" for v by (simp add: display_def)
  show "window_fits ?t j w"
  proof (cases "find_window (windows s) j")
    case (Some v)
    then have "window_fits s j w" using w assms(1) by (simp add: add_windows find_append fitted_def)
    then show ?thesis by (rule window_fits_same) (simp_all add: rt d)
  next
    case None
    let ?l = "if k = ChartWindow \<and> focusedChart s = None then readLastWindowPreferences ChartPreferenceKey s else None"
    note n = new_window_ok [OF assms(2), of i k ?l]
    have j: "j = i" "w = normalizeUsWindow (new_window i k ?l s) (groupSymbols s (w_group (new_window i k ?l s)))"
      using w None n by (auto simp: add_windows find_append split: if_splits)
    show ?thesis
    proof (cases "k = ChartWindow")
      case True
      have "chartRuntime s i = None"
        using assms(2,3) runtime_window [OF assms(2), of i] by (cases "chartRuntime s i") (auto simp: has_window_def list_ex_iff)
      then have "runtime_of j ?t = EMPTY_RUNTIME" unfolding rt j(1) by (simp add: runtime_of_def)
      then show ?thesis unfolding j(2) using n True
        by (intro window_fits_normalized) (simp_all add: display_def windowSymbolOf_def)
    next
      case False
      then have "w_chart w = None" using n kind_ok_dest(2) [of "new_window i k ?l s"] by (simp add: j(2))
      then show ?thesis by (simp add: window_fits_def)
    qed
  qed
qed

lemma fitted_history:
  assumes "fitted s" "store_ok s" "i \<notin> set (map w_id (windows s))"
  shows "fitted (snd (openExecutionHistory i j a s))"
proof -
  have 1: "fitted (setOrderAccount j a s)" by (rule derives_fitted [OF derives_account assms(1)])
  have 2: "fitted (addWindow i AccountFills (setOrderAccount j a s))"
    by (rule fitted_add [OF 1 ok_account [OF assms(2)]]) (simp only: ids_account assms(3) not_False_eq_True)
  then show ?thesis using assms(1) derives_fitted [OF derives_config 2] derives_fitted [OF derives_focus 1]
    by (auto simp: openExecutionHistory_def Let_def split: option.split)
qed

lemma fitted_group_symbol:
  assumes "fitted s" "store_ok s"
  shows "fitted (setGroupSymbol g y s)"
proof (cases "read_group g")
  case (Some n)
  let ?t = "setGroupSymbol g y s"
  have rt: "runtime_of i ?t = (if i \<in> set (map w_id (filter (\<lambda>w. w_group w = n \<and> pinned w = None) (windows s))) then EMPTY_RUNTIME
      else runtime_of i s)" for i by (simp add: setGroupSymbol_def Let_def Some runtime_of_def clearedChartRuntime_def)
  have g: "groupSymbols ?t = (groupSymbols s)(n \<mapsto> classified y)" by (simp add: setGroupSymbol_def Let_def Some)
  show ?thesis
  proof (rule fitted_map [OF assms(1), where f = "\<lambda>w. if w_group w = n \<and> pinned w = None then normalizeUsWindow w (Some (classified y)) else w"])
    fix w assume w: "w \<in> set (windows s)" "window_fits s (w_id w) w"
    show "window_fits ?t (w_id w) (if w_group w = n \<and> pinned w = None then normalizeUsWindow w (Some (classified y)) else w)"
    proof (cases "w_group w = n \<and> pinned w = None")
      case True
      then have "runtime_of (w_id w) ?t = EMPTY_RUNTIME" using w by (auto simp: rt)
      moreover have "w_kind w \<noteq> AccountFills \<Longrightarrow> display ?t (normalizeUsWindow w (Some (classified y))) = Some (classified y)"
        using True by (simp add: display_def windowSymbolOf_def g)
      moreover have "w_kind w = AccountFills \<Longrightarrow> w_chart w = None" using kind_ok_dest(2) [OF store_ok_kind [OF assms(2) w(1)]] by auto
      ultimately show ?thesis using True window_fits_normalized
        by (cases "w_kind w = AccountFills") (simp_all add: window_fits_def)
    next
      case False
      then have "w_id w \<notin> set (map w_id (filter (\<lambda>w. w_group w = n \<and> pinned w = None) (windows s)))"
        using w(1) assms(2) by (auto simp: store_ok_def ids_ok_def dest: window_unique)
      then have r: "runtime_of (w_id w) ?t = runtime_of (w_id w) s" by (simp only: rt if_False)
      have k: "w_kind w = MarketIndicesWindow \<Longrightarrow> pinned w = None"
        using kind_ok_dest(7) [OF store_ok_kind [OF assms(2) w(1)]] by (cases "pinned w") (auto simp: pinnable_def)
      have "display ?t w = display s w"
      proof (cases "pinned w")
        case None
        then have "w_group w \<noteq> n" using False by simp
        then show ?thesis by (simp add: display_def windowSymbolOf_def g None)
      next
        case (Some p)
        then have "w_kind w \<noteq> MarketIndicesWindow" using k by auto
        then show ?thesis by (simp add: display_def windowSymbolOf_def Some)
      qed
      then have "window_fits ?t (w_id w) w" using window_fits_same [OF w(2) refl _ r] by blast
      then show ?thesis using False by auto
    qed
  qed (auto simp: setGroupSymbol_def Let_def Some)
qed (simp add: assms setGroupSymbol_def Let_def)

lemma fitted_pin_to:
  assumes "fitted s" "windows t = map (at_id i (\<lambda>w. normalizeUsWindow (w\<lparr>pinned := Some y\<rparr>) (Some y))) (windows s)"
    and "groupSymbols t = groupSymbols s" "chartRuntime t = clearedChartRuntime (chartRuntime s) [i]"
    and "\<And>w. w \<in> set (windows s) \<Longrightarrow> w_id w = i \<Longrightarrow> pinnable w"
  shows "fitted t"
proof (rule fitted_map [OF assms(1,2)])
  fix w assume w: "w \<in> set (windows s)" "window_fits s (w_id w) w"
  show "window_fits t (w_id w) (at_id i (\<lambda>w. normalizeUsWindow (w\<lparr>pinned := Some y\<rparr>) (Some y)) w)"
  proof (cases "w_id w = i")
    case True
    then show ?thesis using assms(4) assms(5) [OF w(1) True] window_fits_normalized [of t "w\<lparr>pinned := Some y\<rparr>" "Some y" i]
      by (simp add: at_id_def display_def windowSymbolOf_def pinnable_def runtime_of_def clearedChartRuntime_def)
  next
    case False
    have "window_fits t (w_id w) w"
      by (rule window_fits_same [OF w(2)]) (use False assms(3,4) in \<open>simp_all add: display_def runtime_of_def clearedChartRuntime_def\<close>)
    then show ?thesis using False by (simp add: at_id_def)
  qed
qed (simp add: at_id_def)

lemma fitted_pin_symbol: "fitted s \<Longrightarrow> store_ok s \<Longrightarrow> fitted (pinWindowToSymbol i y s)"
proof (cases "has_window pinnable i s")
  case True
  assume f: "fitted s" and s: "store_ok s"
  have "fitted ((put_windows (at_id i (\<lambda>w. normalizeUsWindow (w\<lparr>pinned := Some y\<rparr>) (Some y))) s)
      \<lparr>chartRuntime := clearedChartRuntime (chartRuntime s) [i]\<rparr>)"
    by (rule fitted_pin_to [OF f, where y = y and i = i]) (use has_window_at [OF store_ok_ids [OF s] True] in simp_all)
  then show ?thesis using True by (simp add: pinWindowToSymbol_def)
qed (simp add: pinWindowToSymbol_def)

lemma fitted_window_symbol: "fitted s \<Longrightarrow> store_ok s \<Longrightarrow> fitted (setWindowSymbol i y s)"
proof (cases "find_window (windows s) i")
  case (Some v)
  assume f: "fitted s" and s: "store_ok s"
  have "pinnable w" if "pinned v \<noteq> None" "w \<in> set (windows s)" "w_id w = i" for w
    using that find_window_Some [OF Some] window_unique [of "windows s" w v] kind_ok_dest(7) [OF store_ok_kind [OF s]] s
    by (auto simp: store_ok_def ids_ok_def)
  then have "pinned v \<noteq> None \<Longrightarrow> fitted ((put_windows (at_id i (\<lambda>w. normalizeUsWindow (w\<lparr>pinned := Some (classified y)\<rparr>) (Some (classified y)))) s)
      \<lparr>chartRuntime := clearedChartRuntime (chartRuntime s) [i]\<rparr>)"
    by (intro fitted_pin_to [OF f, where y = "classified y" and i = i]) simp_all
  then show ?thesis using fitted_group_symbol [OF f s] f by (simp add: setWindowSymbol_def Let_def Some)
qed (simp add: setWindowSymbol_def)

lemma fitted_group:
  assumes "fitted s" "store_ok s"
  shows "fitted (setWindowGroup i g s)"
proof (cases "read_group g")
  case (Some n)
  note g = Some
  show ?thesis
  proof (cases "find_window (windows s) i")
    case (Some v)
    let ?f = "at_id i (\<lambda>w. normalizeUsWindow (w\<lparr>w_group := n\<rparr>) (case pinned w of Some p \<Rightarrow> Some p | None \<Rightarrow> groupSymbols s n))"
    let ?t = "setWindowGroup i g s"
    have uniq: "w \<in> set (windows s) \<Longrightarrow> w_id w = i \<Longrightarrow> w = v" for w
      using find_window_Some [OF Some] assms(2) window_unique [of "windows s" w v] by (auto simp: store_ok_def ids_ok_def)
    show ?thesis
    proof (cases "w_group v = n")
      case False
      have t: "windows ?t = map ?f (windows s)" "groupSymbols ?t = groupSymbols s"
        "chartRuntime ?t = (if pinned v = None then clearedChartRuntime (chartRuntime s) [i] else chartRuntime s)"
        using g Some False by (simp_all add: setWindowGroup_def Let_def)
      show ?thesis
      proof (rule fitted_map [OF assms(1) t(1)])
        fix w assume w: "w \<in> set (windows s)" "window_fits s (w_id w) w"
        note k = kind_ok_dest [OF store_ok_kind [OF assms(2) w(1)]]
        show "window_fits ?t (w_id w) (?f w)"
        proof (cases "w_id w = i")
          case here: True
          then have wv: "w = v" using uniq w(1) by blast
          show ?thesis
          proof (cases "w_chart w")
            case None then show ?thesis using here by (simp add: window_fits_def at_id_def)
          next
            case (Some c)
            then have kind: "w_kind w = ChartWindow" using k(2) by auto
            show ?thesis
            proof (cases "pinned w")
              case None
              then show ?thesis unfolding at_id_def here if_P [OF refl]
                using wv kind by (intro window_fits_normalized) (simp_all add: t display_def windowSymbolOf_def runtime_of_def clearedChartRuntime_def)
            next
              case (Some p)
              have fw: "?f w = normalizeUsWindow (w\<lparr>w_group := n\<rparr>) (Some p)" using Some here by (simp add: at_id_def)
              have d: "display s w = Some p" "display ?t (normalizeUsWindow (w\<lparr>w_group := n\<rparr>) (Some p)) = Some p"
                using Some kind by (simp_all add: display_def windowSymbolOf_def)
              have rt: "runtime_of i ?t = runtime_of i s" using Some wv by (simp add: runtime_of_def t(3))
              have "window_fits s i w" using w(2) here by simp
              then show ?thesis unfolding fw here window_fits_def d rt using \<open>w_chart w = Some c\<close> by simp
            qed
          qed
        next
          case False
          have "window_fits ?t (w_id w) w"
            by (rule window_fits_same [OF w(2)]) (use False in \<open>simp_all add: display_def t runtime_of_def clearedChartRuntime_def\<close>)
          then show ?thesis using False by (simp add: at_id_def)
        qed
      qed (simp add: at_id_def)
    qed (simp add: setWindowGroup_def Some g assms(1))
  qed (simp add: setWindowGroup_def g assms(1))
qed (simp add: setWindowGroup_def assms(1))

lemma fitted_timeframe:
  assumes "fitted s" "store_ok s"
  shows "fitted (setChartTimeframe cp cap i tf0 s)"
proof (cases "chart_of i s")
  case (Some c)
  obtain v where v: "find_window (windows s) i = Some v" "v \<in> set (windows s)" "w_id v = i" "w_chart v = Some c"
    using chart_of_Some [OF Some] by blast
  let ?tf = "symbolTimeframe (display s v) tf0"
  let ?g = "\<lambda>w. w\<lparr>w_chart := Some (c\<lparr>chart_timeframe := ?tf, lastMinuteTimeframe := (if isMinuteTimeframe ?tf then Some ?tf else lastMinuteTimeframe c)\<rparr>)\<rparr>"
  let ?t = "setChartTimeframe cp cap i tf0 s"
  have t: "windows ?t = map (at_id i ?g) (windows s)" "groupSymbols ?t = groupSymbols s"
    "chartRuntime ?t = (chartRuntime s)(i \<mapsto> next_runtime cap i (chart_timeframe c) ?tf s)"
    using Some v(1) by (simp_all add: setChartTimeframe_def withChart_def Let_def display_def)
  have fit: "runtime_fits ?tf (next_runtime cap i (chart_timeframe c) ?tf s)"
    by (simp add: runtime_fits_def next_runtime_def next_viewport_def Let_def)
  show ?thesis
  proof (rule fitted_map [OF assms(1) t(1)])
    fix w assume w: "w \<in> set (windows s)" "window_fits s (w_id w) w"
    show "window_fits ?t (w_id w) (at_id i ?g w)"
    proof (cases "w_id w = i")
      case True
      then have "w = v" using v w(1) assms(2) window_unique [of "windows s" w v] by (auto simp: store_ok_def ids_ok_def)
      moreover have "display ?t (?g v) = display s v" by (simp add: display_def windowSymbolOf_def t(2) cong: option.case_cong)
      moreover have "runtime_of i ?t = next_runtime cap i (chart_timeframe c) ?tf s" by (simp add: runtime_of_def t(3))
      ultimately show ?thesis using fit v(3) by (simp add: at_id_def window_fits_def)
    next
      case False
      have "window_fits ?t (w_id w) w"
        by (rule window_fits_same [OF w(2)]) (use False in \<open>simp_all add: display_def t runtime_of_def\<close>)
      then show ?thesis using False by (simp add: at_id_def)
    qed
  qed (simp add: at_id_def)
qed (simp add: setChartTimeframe_def Let_def derives_fitted [OF _ assms(1)])

lemma fitted_set_runtime:
  assumes "fitted s" "\<And>w c. find_window (windows s) i = Some w \<Longrightarrow> w_chart w = Some c \<Longrightarrow> runtime_fits (chart_timeframe c) rt"
  shows "fitted (set_runtime i rt s)"
  unfolding fitted_def
proof (intro allI impI)
  fix j w assume w: "find_window (windows (set_runtime i rt s)) j = Some w"
  then have "window_fits s j w" using assms(1) by (simp add: fitted_def)
  moreover have "display (set_runtime i rt s) w = display s w" by (simp add: display_def)
  ultimately show "window_fits (set_runtime i rt s) j w"
    using w assms(2) by (cases "w_chart w") (auto simp: window_fits_def runtime_of_set)
qed

lemma fitted_range: "fitted s \<Longrightarrow> fitted (setSecondChartRange i r s)"
proof (cases "chart_of i s")
  case (Some c)
  assume f: "fitted s"
  then obtain v where v: "find_window (windows s) i = Some v" "w_chart v = Some c" using chart_of_Some [OF Some] by blast
  then have "window_fits s i v" using f by (simp add: fitted_def)
  then have "runtime_fits (chart_timeframe c) (runtime_of i s)" using v by (simp add: window_fits_def)
  then show ?thesis using f v
    by (auto simp: setSecondChartRange_def Some Let_def runtime_fits_def split: option.split intro!: fitted_set_runtime)
qed (simp add: setSecondChartRange_def)

lemma fitted_hogaplay: "fitted s \<Longrightarrow> fitted (setChartHogaplaySource i b s)"
proof (cases "chart_of i s")
  case (Some c)
  assume f: "fitted s"
  then obtain v where v: "find_window (windows s) i = Some v" "w_chart v = Some c" using chart_of_Some [OF Some] by blast
  then have "window_fits s i v" using f by (simp add: fitted_def)
  then have "runtime_fits (chart_timeframe c) (runtime_of i s)" using v by (simp add: window_fits_def)
  then show ?thesis using f v
    by (auto simp: setChartHogaplaySource_def Some Let_def runtime_fits_def intro!: fitted_set_runtime)
qed (simp add: setChartHogaplaySource_def)

lemma fitted_snapshot:
  assumes "store_ok s" "preset_fits mk v s"
  shows "fitted (applyWorkspaceSnapshot mk v s)"
  unfolding fitted_def
proof (intro allI impI)
  obtain ws z where n: "normalizeWorkspaceSnapshot mk v = (ws, z)" by (cases "normalizeWorkspaceSnapshot mk v")
  let ?t = "applyWorkspaceSnapshot mk v s"
  have t: "windows ?t = map (\<lambda>w. fit_symbol (groupSymbols s) (carry_pin (windows s) w)) ws" "chartRuntime ?t = (\<lambda>_. None)"
    "groupSymbols ?t = groupSymbols s" by (simp_all add: applyWorkspaceSnapshot_def n Let_def)
  fix i w assume w: "find_window (windows ?t) i = Some w"
  then obtain u where u: "w = fit_symbol (groupSymbols s) u" using find_window_Some [OF w] unfolding t(1) by auto
  have rt: "runtime_of i ?t = EMPTY_RUNTIME" by (simp add: runtime_of_def t(2))
  show "window_fits ?t i w"
  proof (cases "w_chart w")
    case (Some c)
    have "live_kind_ok w" using store_ok_kind [OF ok_snapshot [OF assms]] find_window_Some [OF w] by blast
    then have "w_kind w = ChartWindow" using kind_ok_dest(2) [of w] Some by simp
    then have k: "w_kind u = ChartWindow" by (simp add: u)
    have "display ?t w = (case pinned u of Some p \<Rightarrow> Some p | None \<Rightarrow> groupSymbols s (w_group u))"
      unfolding u by (simp add: display_def windowSymbolOf_def t(3) k cong: option.case_cong)
    then show ?thesis unfolding u fit_symbol_def by (intro window_fits_normalized rt) simp
  qed (simp add: window_fits_def)
qed

text \<open>The two actions that unpin leave the chart on the timeframe of the symbol it was pinned to.\<close>

fun unpins :: "Action \<Rightarrow> Store \<Rightarrow> bool" where
  "unpins (ToggleWindowPin i) s = has_window (\<lambda>w. pinned w \<noteq> None) i s"
| "unpins UnpinAllWindows s = True"
| "unpins _ s = False"

lemma fitted_pin:
  assumes "fitted s" "store_ok s" "\<not> has_window (\<lambda>w. pinned w \<noteq> None) i s"
  shows "fitted (toggleWindowPin i s)"
proof (cases "find_window (windows s) i")
  case (Some v)
  note v = find_window_Some [OF Some]
  have none: "pinned v = None" using assms(3) v by (auto simp: has_window_def list_ex_iff)
  have "derives s (put_windows (at_id i (\<lambda>w. if pinned w \<noteq> None then withoutPin w else w\<lparr>pinned := display s v\<rparr>)) s)"
    if "pinnable v"
  proof (rule derives_put)
    fix w assume w: "w \<in> set (windows s)"
    have "w_id w = i \<Longrightarrow> w = v" using w v assms(2) window_unique [of "windows s" w v] by (auto simp: store_ok_def ids_ok_def)
    then show "same_timeframe w (at_id i (\<lambda>w. if pinned w \<noteq> None then withoutPin w else w\<lparr>pinned := display s v\<rparr>) w)
      \<and> symbolTimeframe (display s (at_id i (\<lambda>w. if pinned w \<noteq> None then withoutPin w else w\<lparr>pinned := display s v\<rparr>) w))
        = symbolTimeframe (display s w)"
      using none that by (auto simp: at_id_def same_timeframe_def display_def windowSymbolOf_def pinnable_def split: option.split)
  qed (simp_all add: at_id_def)
  then show ?thesis using derives_fitted [OF _ assms(1)] none assms(1)
    by (auto simp: toggleWindowPin_def Some Let_def)
qed (simp add: toggleWindowPin_def assms(1))

lemma fitted_act:
  assumes "fitted s" "store_ok s" "action_ok a s" "\<not> unpins a s"
  shows "fitted (act a s)"
proof (cases "calm a")
  case True
  then show ?thesis by (rule derives_fitted [OF derives_calm [OF _ assms(2)] assms(1)])
next
  case False
  then show ?thesis using assms
    by (cases a) (simp_all add: fitted_add fitted_history fitted_group_symbol fitted_window_symbol fitted_pin_symbol
      fitted_group fitted_pin fitted_snapshot fitted_timeframe fitted_range fitted_hogaplay)
qed

end
