(* ===== verification/IndicatorScopes.thy ===== *)
theory IndicatorScopes
  imports Instruments "HOL-Library.AList"
begin

section \<open>Indicator settings per window and timeframe\<close>

text \<open>
  The indicator slice of \<open>state/livePage.ts\<close>, the scopes of \<open>state/indicatorSettingsV2.ts\<close> and the
  mirror in \<open>state/chartPrefs.ts\<close>: settings live in buckets, one per timeframe profile; there is one
  map of buckets for the app and one per window, and both stores hold an entry for the same windows.
  The tables of factory values (\<open>FACTORY_INDICATOR_SETTINGS\<close>, \<open>INDICATOR_MODAL_PREF_KEYS\<close>,
  \<open>DEFAULT_PREFS\<close>) and the readers of stored buckets are an argument. Buckets are values: the code never mutates one in place, so its
  deep copies are the identity here.
\<close>

subsection \<open>Buckets\<close>

datatype ProfileKey = SecondsProfile | MinuteProfile | DayProfile | WeekProfile | MonthProfile

definition INDICATOR_PANE_PROFILE_KEYS :: "ProfileKey list" where
  "INDICATOR_PANE_PROFILE_KEYS = [SecondsProfile, MinuteProfile, DayProfile, WeekProfile, MonthProfile]"

definition profileKeyForTimeframe :: "LiveTimeframe \<Rightarrow> ProfileKey" where
  "profileKeyForTimeframe tf =
     (if timeframe_text tf \<noteq> [] \<and> last (timeframe_text tf) = CHR ''s'' then SecondsProfile
      else if tf = Day then DayProfile else if tf = Week then WeekProfile
      else if tf = Month then MonthProfile else MinuteProfile)"

type_synonym Settings = "string \<rightharpoonup> json"
type_synonym Buckets = "ProfileKey \<rightharpoonup> Settings"
type_synonym Scopes = "(string \<times> Buckets) list"
type_synonym IndicatorScope = "string option"

record Registry =
  factorySettings :: Settings
  modalKeys :: "string list"
  modalDefaults :: Settings
  normalizeBucketMap :: "json \<Rightarrow> Buckets"
  sanitizeModalMap :: "json \<Rightarrow> Buckets"

definition bucket :: "Buckets \<Rightarrow> LiveTimeframe \<Rightarrow> Settings" where
  "bucket b tf = (case b (profileKeyForTimeframe tf) of Some p \<Rightarrow> p | None \<Rightarrow> Map.empty)"

definition resolveIndicatorSettings :: "Registry \<Rightarrow> Buckets \<Rightarrow> LiveTimeframe \<Rightarrow> Settings" where
  "resolveIndicatorSettings reg b tf = (case b (profileKeyForTimeframe tf) of
     None \<Rightarrow> factorySettings reg | Some p \<Rightarrow> factorySettings reg ++ p)"

definition resolveIndicatorModalPrefs :: "Registry \<Rightarrow> Buckets \<Rightarrow> LiveTimeframe \<Rightarrow> Settings" where
  "resolveIndicatorModalPrefs reg b tf = (\<lambda>k. if k \<in> set (modalKeys reg)
     then (case bucket b tf k of Some v \<Rightarrow> Some v | None \<Rightarrow> modalDefaults reg k) else None)"

definition INDICATOR_WINDOW_SCOPE_LIMIT :: nat where "INDICATOR_WINDOW_SCOPE_LIMIT = 64"

definition has_scope :: "Scopes \<Rightarrow> string \<Rightarrow> bool" where
  "has_scope m k \<longleftrightarrow> k \<in> set (map fst m)"

definition hasWindowIndicatorScope :: "Scopes \<Rightarrow> IndicatorScope \<Rightarrow> bool" where
  "hasWindowIndicatorScope m k = (case k of None \<Rightarrow> False | Some k' \<Rightarrow> has_scope m k')"

text \<open>A key that is null or empty is falsy.\<close>

definition some_key :: "IndicatorScope \<Rightarrow> string option" where
  "some_key k = (case k of Some k' \<Rightarrow> if k' = [] then None else Some k' | None \<Rightarrow> None)"

definition bucketsForScope :: "Buckets \<Rightarrow> Scopes \<Rightarrow> IndicatorScope \<Rightarrow> Buckets" where
  "bucketsForScope app m scope = (case some_key scope of
     Some k \<Rightarrow> (case map_of m k of Some b \<Rightarrow> b | None \<Rightarrow> app) | None \<Rightarrow> app)"

text \<open>\<open>windowScopeKey(id)\<close> and \<open>windowScopeKey(id, 'index')\<close>.\<close>

definition windowScopeKey :: "string option \<Rightarrow> bool \<Rightarrow> IndicatorScope" where
  "windowScopeKey i of_index = (case some_key i of
     None \<Rightarrow> None | Some j \<Rightarrow> Some (if of_index then ''live:'' @ j @ '':index'' else ''live:'' @ j))"

subsection \<open>The two stores\<close>

record UndoToast =
  undo_label :: string
  undo_scope :: IndicatorScope
  undo_timeframe :: LiveTimeframe
  undo_patch :: Settings
  removedInstance :: "(json \<times> nat) option"

record PersistedIndicators =
  p_paneOrder :: "string list"
  p_paneGroups :: PaneGroups
  p_paneAxisMode :: "(string \<times> PaneAxisMode) list"
  p_paneGroupStretch :: "(string \<times> rat) list"
  p_paneStretch :: "(string \<times> rat) list"
  p_paneGroupStretchByTimeframe :: "ProfileKey \<rightharpoonup> (string \<times> rat) list"
  p_paneStretchByTimeframe :: "ProfileKey \<rightharpoonup> (string \<times> rat) list"
  p_byTimeframe :: Buckets
  p_byWindow :: Scopes

record Indicators =
  paneOrder :: "string list"
  paneGroups :: PaneGroups
  paneAxisMode :: "(string \<times> PaneAxisMode) list"
  paneGroupStretch :: "(string \<times> rat) list"
  paneStretch :: "(string \<times> rat) list"
  paneGroupStretchByTimeframe :: "ProfileKey \<rightharpoonup> (string \<times> rat) list"
  paneStretchByTimeframe :: "ProfileKey \<rightharpoonup> (string \<times> rat) list"
  indicatorsByTimeframe :: Buckets
  indicatorsByWindow :: Scopes
  indicatorTimeframe :: LiveTimeframe
  indicatorSettings :: Settings
  indicatorUndoToast :: "UndoToast option"
  indicatorModalByTimeframe :: Buckets
  indicatorModalByWindow :: Scopes
  indicatorModalTimeframe :: LiveTimeframe
  chartPrefs :: Settings
  storedIndicators :: "PersistedIndicators option"
  preferenceEdits :: "IndicatorScope list"

definition notifyChartPreferenceEdit :: "IndicatorScope \<Rightarrow> 'a Indicators_scheme \<Rightarrow> 'a Indicators_scheme" where
  "notifyChartPreferenceEdit k s = s\<lparr>preferenceEdits := preferenceEdits s @ [k]\<rparr>"

subsection \<open>Entries of windows\<close>

text \<open>
  A new entry copies the buckets of the source window when it has an entry, of the app otherwise;
  it is skipped when the window has one or the limit is reached.
\<close>

definition seed_entry :: "string \<Rightarrow> string option \<Rightarrow> Buckets \<Rightarrow> Scopes \<Rightarrow> Scopes" where
  "seed_entry k source app m =
     (if has_scope m k \<or> INDICATOR_WINDOW_SCOPE_LIMIT \<le> length m then m
      else AList.update k (bucketsForScope app m source) m)"

text \<open>Restoring overwrites; the limit is for new entries only.\<close>

definition accepts :: "Scopes \<Rightarrow> string \<Rightarrow> bool" where
  "accepts m k \<longleftrightarrow> k \<noteq> [] \<and> (has_scope m k \<or> length m < INDICATOR_WINDOW_SCOPE_LIMIT)"

fun restore_entries :: "(string \<times> Buckets) list \<Rightarrow> Scopes \<Rightarrow> Scopes" where
  "restore_entries [] m = m"
| "restore_entries ((k, b) # es) m = restore_entries es (if accepts m k then AList.update k b m else m)"

definition drop_entries :: "string list \<Rightarrow> Scopes \<Rightarrow> Scopes" where
  "drop_entries ks m = fold AList.delete (filter (has_scope m) ks) m"

subsection \<open>The mirror: state/chartPrefs.ts\<close>

definition seedIndicatorModalScope :: "IndicatorScope \<Rightarrow> string option \<Rightarrow> 'a Indicators_scheme \<Rightarrow> 'a Indicators_scheme" where
  "seedIndicatorModalScope scope source s = (case some_key scope of
     None \<Rightarrow> s
   | Some k \<Rightarrow> s\<lparr>indicatorModalByWindow :=
       seed_entry k source (indicatorModalByTimeframe s) (indicatorModalByWindow s)\<rparr>)"

definition restoreIndicatorModalScopes :: "(string \<times> Buckets) list \<Rightarrow> 'a Indicators_scheme \<Rightarrow> 'a Indicators_scheme" where
  "restoreIndicatorModalScopes es s = s\<lparr>indicatorModalByWindow := restore_entries es (indicatorModalByWindow s)\<rparr>"

definition dropIndicatorModalScopes :: "string list \<Rightarrow> 'a Indicators_scheme \<Rightarrow> 'a Indicators_scheme" where
  "dropIndicatorModalScopes ks s = s\<lparr>indicatorModalByWindow := drop_entries ks (indicatorModalByWindow s)\<rparr>"

definition setIndicatorModalTimeframe :: "Registry \<Rightarrow> LiveTimeframe \<Rightarrow> 'a Indicators_scheme \<Rightarrow> 'a Indicators_scheme" where
  "setIndicatorModalTimeframe reg tf s = s\<lparr>indicatorModalTimeframe := tf,
     chartPrefs := chartPrefs s ++ resolveIndicatorModalPrefs reg (indicatorModalByTimeframe s) tf\<rparr>"

definition ownedWindowKey :: "'a Indicators_scheme \<Rightarrow> IndicatorScope \<Rightarrow> string option" where
  "ownedWindowKey s scope = (case scope of
     Some k \<Rightarrow> if has_scope (indicatorModalByWindow s) k then Some k else None | None \<Rightarrow> None)"

text \<open>The write path ensures the entry of its window by itself.\<close>

definition ensure_modal :: "IndicatorScope \<Rightarrow> 'a Indicators_scheme \<Rightarrow> 'a Indicators_scheme" where
  "ensure_modal scope s = (case some_key scope of
     Some k \<Rightarrow> if has_scope (indicatorModalByWindow s) k then s else seedIndicatorModalScope scope None s
   | None \<Rightarrow> s)"

definition modal_buckets :: "'a Indicators_scheme \<Rightarrow> string option \<Rightarrow> Buckets" where
  "modal_buckets s k = (case Option.bind k (map_of (indicatorModalByWindow s)) of
     Some b \<Rightarrow> b | None \<Rightarrow> indicatorModalByTimeframe s)"

definition set_pref :: "LiveTimeframe \<Rightarrow> string \<Rightarrow> json \<Rightarrow> Buckets \<Rightarrow> Buckets" where
  "set_pref tf k v b = b(profileKeyForTimeframe tf \<mapsto> (bucket b tf)(k \<mapsto> v))"

definition writePrefScoped ::
    "Registry \<Rightarrow> IndicatorScope \<Rightarrow> LiveTimeframe \<Rightarrow> string \<Rightarrow> json \<Rightarrow> 'a Indicators_scheme \<Rightarrow> 'a Indicators_scheme" where
  "writePrefScoped reg scope tf k v s0 =
     (if k \<notin> set (modalKeys reg) then s0\<lparr>chartPrefs := (chartPrefs s0)(k \<mapsto> v)\<rparr>
      else let s = ensure_modal scope s0; w = ownedWindowKey s scope;
        b = set_pref tf k v (modal_buckets s w) in
        notifyChartPreferenceEdit scope (case w of
          Some wk \<Rightarrow> s\<lparr>indicatorModalByWindow := AList.update wk b (indicatorModalByWindow s)\<rparr>
        | None \<Rightarrow> s\<lparr>indicatorModalByTimeframe := b, chartPrefs :=
            (if profileKeyForTimeframe tf = profileKeyForTimeframe (indicatorModalTimeframe s)
             then (chartPrefs s)(k \<mapsto> v) else chartPrefs s)\<rparr>))"

definition resetIndicatorModalBucketScoped ::
    "Registry \<Rightarrow> IndicatorScope \<Rightarrow> LiveTimeframe \<Rightarrow> 'a Indicators_scheme \<Rightarrow> 'a Indicators_scheme" where
  "resetIndicatorModalBucketScoped reg scope tf s0 =
     (let s = ensure_modal scope s0; pk = profileKeyForTimeframe tf in case ownedWindowKey s scope of
        Some wk \<Rightarrow> notifyChartPreferenceEdit (Some wk) (s\<lparr>indicatorModalByWindow :=
          AList.update wk ((modal_buckets s (Some wk))(pk := None)) (indicatorModalByWindow s)\<rparr>)
      | None \<Rightarrow>
          let b = (indicatorModalByTimeframe s)(pk := None) in
          s\<lparr>indicatorModalByTimeframe := b,
            chartPrefs := chartPrefs s ++ resolveIndicatorModalPrefs reg b (indicatorModalTimeframe s)\<rparr>)"

subsection \<open>The page store: state/livePage.ts\<close>

definition minute_bucket :: "(ProfileKey \<rightharpoonup> (string \<times> rat) list) \<Rightarrow> (string \<times> rat) list" where
  "minute_bucket m = (case m MinuteProfile of Some b \<Rightarrow> b | None \<Rightarrow> [])"

definition persistIndicators :: "'a Indicators_scheme \<Rightarrow> 'a Indicators_scheme" where
  "persistIndicators s = s\<lparr>storedIndicators := Some \<lparr>p_paneOrder = paneOrder s, p_paneGroups = paneGroups s,
     p_paneAxisMode = paneAxisMode s, p_paneGroupStretch = minute_bucket (paneGroupStretchByTimeframe s),
     p_paneStretch = minute_bucket (paneStretchByTimeframe s),
     p_paneGroupStretchByTimeframe = paneGroupStretchByTimeframe s,
     p_paneStretchByTimeframe = paneStretchByTimeframe s, p_byTimeframe = indicatorsByTimeframe s,
     p_byWindow = indicatorsByWindow s\<rparr>\<rparr>"

definition seedWindowIndicatorScope :: "IndicatorScope \<Rightarrow> string option \<Rightarrow> 'a Indicators_scheme \<Rightarrow> 'a Indicators_scheme" where
  "seedWindowIndicatorScope scope source s = (case some_key scope of
     None \<Rightarrow> s
   | Some k \<Rightarrow>
       if has_scope (indicatorsByWindow s) k \<or> INDICATOR_WINDOW_SCOPE_LIMIT \<le> length (indicatorsByWindow s) then s
       else persistIndicators (seedIndicatorModalScope scope source
         (s\<lparr>indicatorsByWindow := seed_entry k source (indicatorsByTimeframe s) (indicatorsByWindow s)\<rparr>)))"

text \<open>The entries the page takes, in order; only those go to the mirror.\<close>

fun accepted_modal :: "(string \<times> Buckets \<times> Buckets) list \<Rightarrow> Scopes \<Rightarrow> (string \<times> Buckets) list" where
  "accepted_modal [] m = []"
| "accepted_modal ((k, b, d) # es) m = (if accepts m k then (k, d) # accepted_modal es (AList.update k b m)
     else accepted_modal es m)"

definition restoreWindowIndicatorScopes ::
    "(string \<times> Buckets \<times> Buckets) list \<Rightarrow> 'a Indicators_scheme \<Rightarrow> 'a Indicators_scheme" where
  "restoreWindowIndicatorScopes es s =
     (if es = [] then s
      else persistIndicators (restoreIndicatorModalScopes (accepted_modal es (indicatorsByWindow s))
        (s\<lparr>indicatorsByWindow := restore_entries (map (\<lambda>(k, b, _). (k, b)) es) (indicatorsByWindow s)\<rparr>)))"

definition dropWindowIndicatorScopes :: "string list \<Rightarrow> 'a Indicators_scheme \<Rightarrow> 'a Indicators_scheme" where
  "dropWindowIndicatorScopes ks s =
     (let present = filter (has_scope (indicatorsByWindow s)) ks in
      if present = [] then s
      else persistIndicators (dropIndicatorModalScopes present
        (s\<lparr>indicatorsByWindow := drop_entries ks (indicatorsByWindow s)\<rparr>)))"

definition ensureWindowScope :: "IndicatorScope \<Rightarrow> 'a Indicators_scheme \<Rightarrow> 'a Indicators_scheme" where
  "ensureWindowScope scope s = (case some_key scope of
     None \<Rightarrow> s
   | Some k \<Rightarrow> if has_scope (indicatorsByWindow s) k then s else seedWindowIndicatorScope scope None s)"

definition owned_buckets :: "'a Indicators_scheme \<Rightarrow> IndicatorScope \<Rightarrow> Buckets option" where
  "owned_buckets s scope = Option.bind scope (map_of (indicatorsByWindow s))"

definition set_buckets :: "IndicatorScope \<Rightarrow> Buckets \<Rightarrow> 'a Indicators_scheme \<Rightarrow> 'a Indicators_scheme" where
  "set_buckets scope b s = (case scope of
     Some k \<Rightarrow> if has_scope (indicatorsByWindow s) k
       then s\<lparr>indicatorsByWindow := AList.update k b (indicatorsByWindow s)\<rparr>
       else s\<lparr>indicatorsByTimeframe := b\<rparr>
   | None \<Rightarrow> s\<lparr>indicatorsByTimeframe := b\<rparr>)"

definition ambient :: "LiveTimeframe \<Rightarrow> 'a Indicators_scheme \<Rightarrow> bool" where
  "ambient tf s \<longleftrightarrow> profileKeyForTimeframe tf = profileKeyForTimeframe (indicatorTimeframe s)"

definition patchIndicatorsScoped ::
    "IndicatorScope \<Rightarrow> LiveTimeframe \<Rightarrow> Settings \<Rightarrow> 'a Indicators_scheme \<Rightarrow> 'a Indicators_scheme" where
  "patchIndicatorsScoped scope tf p s0 =
     (let s = ensureWindowScope scope s0;
          source = (case owned_buckets s scope of Some b \<Rightarrow> b | None \<Rightarrow> indicatorsByTimeframe s);
          t = set_buckets scope (source(profileKeyForTimeframe tf \<mapsto> bucket source tf ++ p)) s
      in notifyChartPreferenceEdit scope (persistIndicators
        (if owned_buckets s scope = None \<and> ambient tf s then t\<lparr>indicatorSettings := indicatorSettings t ++ p\<rparr> else t)))"

definition resetIndicatorsScoped ::
    "Registry \<Rightarrow> IndicatorScope \<Rightarrow> LiveTimeframe \<Rightarrow> 'a Indicators_scheme \<Rightarrow> 'a Indicators_scheme" where
  "resetIndicatorsScoped reg scope tf s0 =
     (let s = ensureWindowScope scope s0;
          source = (case owned_buckets s scope of Some b \<Rightarrow> b | None \<Rightarrow> indicatorsByTimeframe s);
          t = set_buckets scope (source(profileKeyForTimeframe tf := None)) s;
          u = (if owned_buckets s scope = None \<and> ambient tf s then t\<lparr>indicatorSettings := indicatorSettings t ++ factorySettings reg\<rparr> else t)
      in notifyChartPreferenceEdit scope (persistIndicators (u\<lparr>indicatorUndoToast := None\<rparr>)))"

text \<open>The rows of indicator instances, and whether one has an id.\<close>

definition instance_rows :: "Settings \<Rightarrow> json list" where
  "instance_rows current = (case current ''indicatorInstances'' of Some (JArr rows) \<Rightarrow> rows | _ \<Rightarrow> [])"

definition restoreIndicatorUndoToast :: "Registry \<Rightarrow> 'a Indicators_scheme \<Rightarrow> 'a Indicators_scheme" where
  "restoreIndicatorUndoToast reg s = (case indicatorUndoToast s of
     None \<Rightarrow> s
   | Some u \<Rightarrow>
       (case removedInstance u of
          None \<Rightarrow> patchIndicatorsScoped (undo_scope u) (undo_timeframe u) (undo_patch u) s
        | Some (row, i) \<Rightarrow>
            let rows = instance_rows (resolveIndicatorSettings reg
              (bucketsForScope (indicatorsByTimeframe s) (indicatorsByWindow s) (undo_scope u)) (undo_timeframe u))
            in if list_ex (\<lambda>r. member r ''id'' = member row ''id'') rows then s
               else patchIndicatorsScoped (undo_scope u) (undo_timeframe u)
                 [''indicatorInstances'' \<mapsto> JArr (take (min i (length rows)) rows @ row # drop (min i (length rows)) rows)] s)
         \<lparr>indicatorUndoToast := None\<rparr>)"

definition setIndicatorUndoToast :: "UndoToast \<Rightarrow> 'a Indicators_scheme \<Rightarrow> 'a Indicators_scheme" where
  "setIndicatorUndoToast u s = s\<lparr>indicatorUndoToast := Some u\<rparr>"

definition dismissIndicatorUndoToast :: "'a Indicators_scheme \<Rightarrow> 'a Indicators_scheme" where
  "dismissIndicatorUndoToast s = s\<lparr>indicatorUndoToast := None\<rparr>"

definition profile_bucket :: "(ProfileKey \<rightharpoonup> (string \<times> rat) list) \<Rightarrow> LiveTimeframe \<Rightarrow> (string \<times> rat) list" where
  "profile_bucket m tf = (case m (profileKeyForTimeframe tf) of Some b \<Rightarrow> b | None \<Rightarrow> [])"

definition projectIndicatorsFor :: "Registry \<Rightarrow> LiveTimeframe \<Rightarrow> 'a Indicators_scheme \<Rightarrow> 'a Indicators_scheme" where
  "projectIndicatorsFor reg tf s0 =
     (let s = setIndicatorModalTimeframe reg tf s0 in
      s\<lparr>indicatorTimeframe := tf, paneStretch := profile_bucket (paneStretchByTimeframe s) tf,
        paneGroupStretch := profile_bucket (paneGroupStretchByTimeframe s) tf,
        indicatorSettings := indicatorSettings s ++ resolveIndicatorSettings reg (indicatorsByTimeframe s) tf\<rparr>)"

subsection \<open>Windows: state/indicatorScopeGc.ts\<close>

definition seedIndicatorScopeForWindow :: "string \<Rightarrow> string option \<Rightarrow> 'a Indicators_scheme \<Rightarrow> 'a Indicators_scheme" where
  "seedIndicatorScopeForWindow i source s = (case windowScopeKey (Some i) False of
     None \<Rightarrow> s
   | Some k \<Rightarrow>
       let s1 = seedWindowIndicatorScope (Some k) (windowScopeKey source False) s in
       (case windowScopeKey source True of
          Some j \<Rightarrow> if has_scope (indicatorsByWindow s1) j
            then seedWindowIndicatorScope (windowScopeKey (Some i) True) (Some j) s1 else s1
        | None \<Rightarrow> s1))"

definition scope_keys :: "string list \<Rightarrow> string list" where
  "scope_keys ids = concat (map (\<lambda>i. List.map_filter id [windowScopeKey (Some i) False, windowScopeKey (Some i) True]) ids)"

definition dropIndicatorScopesForWindows :: "string list \<Rightarrow> 'a Indicators_scheme \<Rightarrow> 'a Indicators_scheme" where
  "dropIndicatorScopesForWindows ids s = (if ids = [] then s else dropWindowIndicatorScopes (scope_keys ids) s)"

definition removed_ids :: "string list \<Rightarrow> string list \<Rightarrow> string list" where
  "removed_ids before after = filter (\<lambda>i. i \<notin> set after) before"

definition dropIndicatorScopesForRemovedWindows ::
    "string list \<Rightarrow> string list \<Rightarrow> 'a Indicators_scheme \<Rightarrow> 'a Indicators_scheme" where
  "dropIndicatorScopesForRemovedWindows before after s = dropIndicatorScopesForWindows (removed_ids before after) s"

text \<open>The last element of the payload with an id wins.\<close>

definition raw_by_id :: "json list \<Rightarrow> string \<Rightarrow> json option" where
  "raw_by_id raws i = find (\<lambda>v. json_str (member v ''id'') = Some i) (rev raws)"

definition payload_entry :: "Registry \<Rightarrow> string \<Rightarrow> json \<Rightarrow> bool \<Rightarrow> (string \<times> Buckets \<times> Buckets) list" where
  "payload_entry reg i raw of_index =
     (let own = member raw (if of_index then ''indexIndicators'' else ''indicators'');
          modal = member raw (if of_index then ''indexIndicatorModal'' else ''indicatorModal'')
      in if own = None \<and> modal = None then []
         else (case windowScopeKey (Some i) of_index of
             None \<Rightarrow> []
           | Some k \<Rightarrow> [(k, normalizeBucketMap reg (case own of Some v \<Rightarrow> v | None \<Rightarrow> JObj []),
                 sanitizeModalMap reg (case modal of Some v \<Rightarrow> v | None \<Rightarrow> JObj []))]))"

definition payload_entries :: "Registry \<Rightarrow> (string \<times> bool) list \<Rightarrow> json list \<Rightarrow> (string \<times> Buckets \<times> Buckets) list" where
  "payload_entries reg wins raws = concat (map (\<lambda>(i, is_chart). case raw_by_id raws i of
     Some raw \<Rightarrow> if is_chart then payload_entry reg i raw False @ payload_entry reg i raw True else []
   | None \<Rightarrow> []) wins)"

text \<open>A window is its id and whether it is a chart.\<close>

definition restoreIndicatorScopesFromPayload ::
    "Registry \<Rightarrow> (string \<times> bool) list \<Rightarrow> json list \<Rightarrow> 'a Indicators_scheme \<Rightarrow> 'a Indicators_scheme" where
  "restoreIndicatorScopesFromPayload reg wins raws s = restoreWindowIndicatorScopes (payload_entries reg wins raws) s"

end
