(* ===== verification/IndicatorLaws.thy ===== *)
theory IndicatorLaws
  imports IndicatorScopes Workspace
begin

section \<open>What the indicator stores keep\<close>

text \<open>
  The page store and its mirror hold entries for the same windows, at most
  \<open>INDICATOR_WINDOW_SCOPE_LIMIT\<close>; an edit of a window reaches that window and no other; the workspace
  seeds and reclaims the entries of its windows.
\<close>

subsection \<open>Edits\<close>

datatype IndicatorEdit =
    SeedScope IndicatorScope "string option"
  | RestoreScopes "(string \<times> Buckets \<times> Buckets) list"
  | DropScopes "string list"
  | PatchScope IndicatorScope LiveTimeframe Settings
  | ResetScope IndicatorScope LiveTimeframe
  | WritePref IndicatorScope LiveTimeframe string json
  | ResetModal IndicatorScope LiveTimeframe
  | RestoreUndo
  | ShowTimeframe LiveTimeframe

fun edit :: "Registry \<Rightarrow> IndicatorEdit \<Rightarrow> 'a Indicators_scheme \<Rightarrow> 'a Indicators_scheme" where
  "edit reg (SeedScope k src) s = seedWindowIndicatorScope k src s"
| "edit reg (RestoreScopes es) s = restoreWindowIndicatorScopes es s"
| "edit reg (DropScopes ks) s = dropWindowIndicatorScopes ks s"
| "edit reg (PatchScope k tf p) s = patchIndicatorsScoped k tf p s"
| "edit reg (ResetScope k tf) s = resetIndicatorsScoped reg k tf s"
| "edit reg (WritePref k tf f v) s = writePrefScoped reg k tf f v s"
| "edit reg (ResetModal k tf) s = resetIndicatorModalBucketScoped reg k tf s"
| "edit reg RestoreUndo s = restoreIndicatorUndoToast reg s"
| "edit reg (ShowTimeframe tf) s = projectIndicatorsFor reg tf s"

subsection \<open>Maps of entries\<close>

definition names :: "Scopes \<Rightarrow> string list" where "names m = map fst m"

lemma has_scope_names: "has_scope m k \<longleftrightarrow> k \<in> set (names m)"
  by (simp add: has_scope_def names_def)

lemma length_conv: "length m = length (names m)"
  by (simp add: names_def)

lemma names_update [simp]: "names (AList.update k b m) = (if has_scope m k then names m else names m @ [k])"
  by (simp add: AList.update_keys has_scope_def names_def)

lemma length_update: "length (AList.update k b m) = (if has_scope m k then length m else Suc (length m))"
  unfolding length_conv names_update by simp

lemma names_seed: "names (seed_entry k src app m) =
    (if has_scope m k \<or> INDICATOR_WINDOW_SCOPE_LIMIT \<le> length m then names m else names m @ [k])"
  by (simp add: seed_entry_def)

lemma length_names: "names m = names m' \<Longrightarrow> length m = length m'"
  by (simp add: length_conv)

lemma has_names: "names m = names m' \<Longrightarrow> has_scope m k = has_scope m' k"
  by (simp add: has_scope_names)

lemma names_delete: "names (AList.delete k m) = filter (\<lambda>j. j \<noteq> k) (names m)"
  by (simp add: names_def AList.delete_keys removeAll_filter_not_eq eq_commute)

lemma names_deletes: "names (fold AList.delete ks m) = filter (\<lambda>k. k \<notin> set ks) (names m)"
proof (induction ks arbitrary: m)
  case (Cons k ks)
  show ?case unfolding fold_simps o_apply Cons.IH names_delete filter_filter
    by (rule filter_cong) auto
qed simp

lemma names_drop: "names (drop_entries ks m) = filter (\<lambda>k. k \<notin> set ks) (names m)"
  unfolding drop_entries_def names_deletes by (rule filter_cong) (auto simp: has_scope_names)

lemma drop_other: "k \<notin> set ks \<Longrightarrow> map_of (drop_entries ks m) k = map_of m k"
proof -
  have "k \<notin> set ks' \<Longrightarrow> map_of (fold AList.delete ks' m) k = map_of m k" for ks'
    by (induction ks' arbitrary: m) (simp_all add: AList.delete_conv')
  then show "k \<notin> set ks \<Longrightarrow> ?thesis" by (simp add: drop_entries_def)
qed

lemma seed_other: "k' \<noteq> k \<Longrightarrow> map_of (seed_entry k src app m) k' = map_of m k'"
  by (simp add: seed_entry_def AList.update_conv')

lemma seed_kept: "has_scope m k' \<Longrightarrow> map_of (seed_entry k src app m) k' = map_of m k'"
  using seed_other [of k' k] by (cases "k' = k") (simp_all add: seed_entry_def)

subsection \<open>The mirror\<close>

definition scopes_ok :: "'a Indicators_scheme \<Rightarrow> bool" where
  "scopes_ok s \<longleftrightarrow> names (indicatorModalByWindow s) = names (indicatorsByWindow s)
     \<and> distinct (names (indicatorsByWindow s)) \<and> [] \<notin> set (names (indicatorsByWindow s))
     \<and> length (indicatorsByWindow s) \<le> INDICATOR_WINDOW_SCOPE_LIMIT"

text \<open>An edit of the mirror alone reaches a window that has an entry.\<close>

fun edit_ok :: "IndicatorEdit \<Rightarrow> 'a Indicators_scheme \<Rightarrow> bool" where
  "edit_ok (WritePref k tf f v) s \<longleftrightarrow> some_key k = None \<or> hasWindowIndicatorScope (indicatorsByWindow s) k"
| "edit_ok (ResetModal k tf) s \<longleftrightarrow> some_key k = None \<or> hasWindowIndicatorScope (indicatorsByWindow s) k"
| "edit_ok _ s \<longleftrightarrow> True"

lemma persist_scopes [simp]:
  "indicatorsByWindow (persistIndicators s) = indicatorsByWindow s"
  "indicatorModalByWindow (persistIndicators s) = indicatorModalByWindow s"
  "indicatorsByTimeframe (persistIndicators s) = indicatorsByTimeframe s"
  "indicatorModalByTimeframe (persistIndicators s) = indicatorModalByTimeframe s"
  "indicatorTimeframe (persistIndicators s) = indicatorTimeframe s"
  "indicatorSettings (persistIndicators s) = indicatorSettings s"
  "indicatorUndoToast (persistIndicators s) = indicatorUndoToast s"
  "indicatorsByWindow (notifyChartPreferenceEdit k s) = indicatorsByWindow s"
  "indicatorModalByWindow (notifyChartPreferenceEdit k s) = indicatorModalByWindow s"
  "indicatorsByTimeframe (notifyChartPreferenceEdit k s) = indicatorsByTimeframe s"
  "indicatorModalByTimeframe (notifyChartPreferenceEdit k s) = indicatorModalByTimeframe s"
  "indicatorTimeframe (notifyChartPreferenceEdit k s) = indicatorTimeframe s"
  "indicatorSettings (notifyChartPreferenceEdit k s) = indicatorSettings s"
  "indicatorUndoToast (notifyChartPreferenceEdit k s) = indicatorUndoToast s"
  by (simp_all add: persistIndicators_def notifyChartPreferenceEdit_def)

lemma scopes_ok_persist [simp]:
  "scopes_ok (persistIndicators s) = scopes_ok s" "scopes_ok (notifyChartPreferenceEdit k s) = scopes_ok s"
  "scopes_ok (s\<lparr>indicatorSettings := f\<rparr>) = scopes_ok s" "scopes_ok (s\<lparr>indicatorUndoToast := u\<rparr>) = scopes_ok s"
  "scopes_ok (s\<lparr>indicatorsByTimeframe := b\<rparr>) = scopes_ok s"
  "scopes_ok (s\<lparr>indicatorModalByTimeframe := b\<rparr>) = scopes_ok s"
  "scopes_ok (s\<lparr>chartPrefs := f\<rparr>) = scopes_ok s" "scopes_ok (s\<lparr>indicatorModalTimeframe := tf\<rparr>) = scopes_ok s"
  by (simp_all add: scopes_ok_def)

lemma some_key_Some: "some_key k = Some j \<longleftrightarrow> k = Some j \<and> j \<noteq> []"
  by (auto simp: some_key_def split: option.splits if_splits)

lemma scopes_ok_seed:
  assumes ok: "scopes_ok s"
  shows "scopes_ok (seedWindowIndicatorScope k src s)"
proof (cases "some_key k")
  case None then show ?thesis using ok by (simp add: seedWindowIndicatorScope_def)
next
  case (Some j)
  have same: "names (indicatorModalByWindow s) = names (indicatorsByWindow s)" using ok by (simp add: scopes_ok_def)
  note both = has_names [OF same] length_names [OF same]
  have j: "j \<noteq> []" using Some by (simp add: some_key_Some)
  show ?thesis
  proof (cases "has_scope (indicatorsByWindow s) j \<or> INDICATOR_WINDOW_SCOPE_LIMIT \<le> length (indicatorsByWindow s)")
    case True then show ?thesis using ok Some by (auto simp: seedWindowIndicatorScope_def)
  next
    case False
    let ?m = "seed_entry j src (indicatorsByTimeframe s) (indicatorsByWindow s)"
    have n: "names ?m = names (indicatorsByWindow s) @ [j]" using False by (simp add: names_seed)
    then have l: "length ?m = Suc (length (indicatorsByWindow s))" by (simp add: length_conv)
    have "names (seed_entry j src (indicatorModalByTimeframe s) (indicatorModalByWindow s)) = names ?m"
      using False n by (simp add: names_seed both same)
    then show ?thesis using ok False j n l Some
      by (simp add: seedWindowIndicatorScope_def seedIndicatorModalScope_def scopes_ok_def has_scope_names)
  qed
qed

lemma accepts_names: "names m = names m' \<Longrightarrow> accepts m k = accepts m' k"
  using has_names length_names unfolding accepts_def by metis

lemma accepts_update: "names (AList.update k b m) = names (AList.update k b' m')" if "names m = names m'"
  using that has_names [OF that] by simp

lemma restore_accepted:
  "names m = names m' \<Longrightarrow>
    names (restore_entries (accepted_modal es m) m') = names (restore_entries (map (\<lambda>(k, b, _). (k, b)) es) m)"
proof (induction es m arbitrary: m' rule: accepted_modal.induct)
  case (2 k b d es m)
  show ?case
  proof (cases "accepts m k")
    case True
    then have "accepts m' k" using accepts_names [OF 2(3)] by simp
    then show ?thesis using 2(1) [OF True accepts_update [OF 2(3)]] True by simp
  next
    case False
    then show ?thesis using 2(2) [OF False 2(3)] by simp
  qed
qed simp

lemma restore_bounds:
  "distinct (names m) \<Longrightarrow> [] \<notin> set (names m) \<Longrightarrow> length m \<le> INDICATOR_WINDOW_SCOPE_LIMIT \<Longrightarrow>
    distinct (names (restore_entries es m)) \<and> [] \<notin> set (names (restore_entries es m))
      \<and> length (restore_entries es m) \<le> INDICATOR_WINDOW_SCOPE_LIMIT"
proof (induction es m rule: restore_entries.induct)
  case (2 k b es m)
  let ?m = "if accepts m k then AList.update k b m else m"
  have "length ?m \<le> INDICATOR_WINDOW_SCOPE_LIMIT" using 2(4) by (auto simp: accepts_def length_update)
  moreover have "distinct (names ?m)" "[] \<notin> set (names ?m)"
    using 2(2,3) by (auto simp: accepts_def has_scope_names)
  ultimately show ?case using 2(1) by simp
qed simp

lemma scopes_ok_restore:
  assumes "scopes_ok s" shows "scopes_ok (restoreWindowIndicatorScopes es s)"
  using assms restore_accepted [of "indicatorsByWindow s" "indicatorModalByWindow s" es]
    restore_bounds [of "indicatorsByWindow s"]
  by (simp add: restoreWindowIndicatorScopes_def restoreIndicatorModalScopes_def scopes_ok_def)

lemma scopes_ok_drop:
  assumes "scopes_ok s" shows "scopes_ok (dropWindowIndicatorScopes ks s)"
proof -
  have "length (drop_entries ks (indicatorsByWindow s)) \<le> length (indicatorsByWindow s)"
    unfolding length_conv names_drop by (rule length_filter_le)
  then show ?thesis using assms
    by (auto simp: dropWindowIndicatorScopes_def Let_def dropIndicatorModalScopes_def scopes_ok_def names_drop
        has_scope_names intro!: filter_cong)
qed

lemma scopes_ok_ensure: "scopes_ok s \<Longrightarrow> scopes_ok (ensureWindowScope k s)"
  by (simp add: ensureWindowScope_def scopes_ok_seed split: option.split)

lemma scopes_ok_set: "scopes_ok s \<Longrightarrow> scopes_ok (set_buckets k b s)"
  by (auto simp: set_buckets_def scopes_ok_def length_update split: option.split)

lemma scopes_ok_patch: "scopes_ok s \<Longrightarrow> scopes_ok (patchIndicatorsScoped k tf p s)"
  by (simp add: patchIndicatorsScoped_def Let_def scopes_ok_set scopes_ok_ensure)

lemma scopes_ok_reset: "scopes_ok s \<Longrightarrow> scopes_ok (resetIndicatorsScoped reg k tf s)"
  by (simp add: resetIndicatorsScoped_def Let_def scopes_ok_set scopes_ok_ensure)

lemma scopes_ok_undo: "scopes_ok s \<Longrightarrow> scopes_ok (restoreIndicatorUndoToast reg s)"
  by (auto simp: restoreIndicatorUndoToast_def Let_def scopes_ok_patch split: option.split)

lemma ensure_modal_id:
  assumes "scopes_ok s" "some_key k = None \<or> hasWindowIndicatorScope (indicatorsByWindow s) k"
  shows "ensure_modal k s = s"
proof -
  have "names (indicatorModalByWindow s) = names (indicatorsByWindow s)" using assms(1) by (simp add: scopes_ok_def)
  from has_names [OF this] assms(2) show ?thesis
    by (cases "some_key k") (auto simp: ensure_modal_def hasWindowIndicatorScope_def some_key_Some split: option.splits)
qed

lemma scopes_ok_modal: "scopes_ok s \<Longrightarrow> has_scope (indicatorModalByWindow s) k \<Longrightarrow>
    scopes_ok (s\<lparr>indicatorModalByWindow := AList.update k b (indicatorModalByWindow s)\<rparr>)"
  by (simp add: scopes_ok_def)

lemma owned_has: "ownedWindowKey s k = Some j \<Longrightarrow> has_scope (indicatorModalByWindow s) j"
  by (auto simp: ownedWindowKey_def split: option.splits if_splits)

lemma scopes_ok_write:
  assumes "scopes_ok s" "some_key k = None \<or> hasWindowIndicatorScope (indicatorsByWindow s) k"
  shows "scopes_ok (writePrefScoped reg k tf f v s)" "scopes_ok (resetIndicatorModalBucketScoped reg k tf s)"
  using assms scopes_ok_modal [OF assms(1) owned_has]
  by (auto simp: writePrefScoped_def resetIndicatorModalBucketScoped_def Let_def ensure_modal_id split: option.split)

lemma scopes_ok_project: "scopes_ok s \<Longrightarrow> scopes_ok (projectIndicatorsFor reg tf s)"
  by (simp add: projectIndicatorsFor_def setIndicatorModalTimeframe_def Let_def scopes_ok_def)

subsection \<open>An edit reaches one window\<close>

text \<open>What a scope shows at a timeframe.\<close>

definition shown_settings :: "Registry \<Rightarrow> 'a Indicators_scheme \<Rightarrow> IndicatorScope \<Rightarrow> LiveTimeframe \<Rightarrow> Settings" where
  "shown_settings reg s k tf = resolveIndicatorSettings reg
     (bucketsForScope (indicatorsByTimeframe s) (indicatorsByWindow s) k) tf"

definition own_entry :: "'a Indicators_scheme \<Rightarrow> IndicatorScope \<Rightarrow> bool" where
  "own_entry s k \<longleftrightarrow> some_key k \<noteq> None \<and> hasWindowIndicatorScope (indicatorsByWindow s) k"

lemma own_entry_Some: "own_entry s k \<longleftrightarrow> (\<exists>j. k = Some j \<and> j \<noteq> [] \<and> has_scope (indicatorsByWindow s) j)"
  by (cases k) (auto simp: own_entry_def some_key_def hasWindowIndicatorScope_def)

lemma ensure_own [simp]: "own_entry s k \<Longrightarrow> ensureWindowScope k s = s"
  by (auto simp: own_entry_Some ensureWindowScope_def some_key_def)

lemma has_scope_lookup: "has_scope m j \<longleftrightarrow> map_of m j \<noteq> None"
  by (simp add: has_scope_def map_of_eq_None_iff)

lemma owned_own: "own_entry s (Some j) \<Longrightarrow> owned_buckets s (Some j) = map_of (indicatorsByWindow s) j"
  by (simp add: owned_buckets_def)

lemma resolve_patch:
  "resolveIndicatorSettings reg (b(profileKeyForTimeframe tf \<mapsto> bucket b tf ++ p)) tf
     = resolveIndicatorSettings reg b tf ++ p"
  by (simp add: resolveIndicatorSettings_def bucket_def split: option.split)

lemma resolve_other:
  "profileKeyForTimeframe tf' \<noteq> profileKeyForTimeframe tf \<Longrightarrow>
    resolveIndicatorSettings reg (b(profileKeyForTimeframe tf := v)) tf' = resolveIndicatorSettings reg b tf'"
  by (simp add: resolveIndicatorSettings_def)

lemma resolve_reset: "resolveIndicatorSettings reg (b(profileKeyForTimeframe tf := None)) tf = factorySettings reg"
  by (simp add: resolveIndicatorSettings_def)

text \<open>An edit that replaces the buckets of a window with an entry.\<close>

lemma shown_update:
  assumes "own_entry s (Some j)"
  shows "shown_settings reg (s\<lparr>indicatorsByWindow := AList.update j b (indicatorsByWindow s)\<rparr>) k tf =
    (if k = Some j then resolveIndicatorSettings reg b tf else shown_settings reg s k tf)"
  using assms by (auto simp: shown_settings_def bucketsForScope_def some_key_def AList.update_conv' own_entry_Some
      split: option.split)

lemma shown_persist [simp]:
  "shown_settings reg (persistIndicators s) k tf = shown_settings reg s k tf"
  "shown_settings reg (notifyChartPreferenceEdit k' s) k tf = shown_settings reg s k tf"
  "shown_settings reg (s\<lparr>indicatorUndoToast := u\<rparr>) k tf = shown_settings reg s k tf"
  by (simp_all add: shown_settings_def)

lemma own_buckets:
  assumes "own_entry s (Some j)"
  obtains b where "map_of (indicatorsByWindow s) j = Some b" "shown_settings reg s (Some j) tf = resolveIndicatorSettings reg b tf"
    and "bucketsForScope (indicatorsByTimeframe s) (indicatorsByWindow s) (Some j) = b"
  using assms by (auto simp: own_entry_Some has_scope_lookup shown_settings_def bucketsForScope_def some_key_def)

lemma patch_own:
  assumes "own_entry s (Some j)" "map_of (indicatorsByWindow s) j = Some b"
  shows "patchIndicatorsScoped (Some j) tf p s = notifyChartPreferenceEdit (Some j) (persistIndicators
    (s\<lparr>indicatorsByWindow := AList.update j (b(profileKeyForTimeframe tf \<mapsto> bucket b tf ++ p)) (indicatorsByWindow s)\<rparr>))"
  using assms by (simp add: patchIndicatorsScoped_def set_buckets_def owned_own own_entry_Some)

lemma reset_own:
  assumes "own_entry s (Some j)" "map_of (indicatorsByWindow s) j = Some b"
  shows "resetIndicatorsScoped reg (Some j) tf s = notifyChartPreferenceEdit (Some j) (persistIndicators
    (s\<lparr>indicatorsByWindow := AList.update j (b(profileKeyForTimeframe tf := None)) (indicatorsByWindow s),
      indicatorUndoToast := None\<rparr>))"
  using assms by (simp add: resetIndicatorsScoped_def set_buckets_def owned_own own_entry_Some)

lemma other_edit:
  assumes "own_entry s (Some j)" "k \<noteq> Some j \<or> profileKeyForTimeframe tf' \<noteq> profileKeyForTimeframe tf"
  shows "shown_settings reg (patchIndicatorsScoped (Some j) tf p s) k tf' = shown_settings reg s k tf'"
    and "shown_settings reg (resetIndicatorsScoped reg (Some j) tf s) k tf' = shown_settings reg s k tf'"
proof -
  obtain b where b: "map_of (indicatorsByWindow s) j = Some b"
    and bs: "bucketsForScope (indicatorsByTimeframe s) (indicatorsByWindow s) (Some j) = b"
    using own_buckets [OF assms(1)] by metis
  have own: "shown_settings reg s (Some j) t = resolveIndicatorSettings reg b t" for t
    by (simp add: shown_settings_def bs)
  note eqs = patch_own [OF assms(1) b] reset_own [OF assms(1) b] shown_update [OF assms(1)] own
  show "shown_settings reg (patchIndicatorsScoped (Some j) tf p s) k tf' = shown_settings reg s k tf'"
    and "shown_settings reg (resetIndicatorsScoped reg (Some j) tf s) k tf' = shown_settings reg s k tf'"
    using assms(2) by (auto simp: eqs resolve_other)
qed

text \<open>An edit of a window that has its entry.\<close>

lemma own_window_edit:
  assumes "own_entry s (Some j)"
  shows "shown_settings reg (patchIndicatorsScoped (Some j) tf p s) k tf' =
      (if k = Some j \<and> profileKeyForTimeframe tf' = profileKeyForTimeframe tf
       then shown_settings reg s (Some j) tf ++ p else shown_settings reg s k tf')
    \<and> shown_settings reg (resetIndicatorsScoped reg (Some j) tf s) k tf' =
      (if k = Some j \<and> profileKeyForTimeframe tf' = profileKeyForTimeframe tf
       then factorySettings reg else shown_settings reg s k tf')"
proof (cases "k = Some j \<and> profileKeyForTimeframe tf' = profileKeyForTimeframe tf")
  case True
  obtain b where b: "map_of (indicatorsByWindow s) j = Some b"
    and bs: "bucketsForScope (indicatorsByTimeframe s) (indicatorsByWindow s) (Some j) = b"
    using own_buckets [OF assms] by metis
  have own: "shown_settings reg s (Some j) t = resolveIndicatorSettings reg b t" for t
    by (simp add: shown_settings_def bs)
  have same: "resolveIndicatorSettings reg c tf' = resolveIndicatorSettings reg c tf" for c
    using True by (simp add: resolveIndicatorSettings_def)
  show ?thesis using True
    by (simp add: patch_own [OF assms b] reset_own [OF assms b] shown_update [OF assms] own same resolve_patch resolve_reset)
next
  case False
  then show ?thesis using other_edit [OF assms, of k tf' tf] by auto
qed

text \<open>
  The write path makes the entry of a window that has none, as a copy of the app set the window showed until
  then; at the limit it cannot, and the edit goes to the app set.
\<close>

definition can_own :: "'a Indicators_scheme \<Rightarrow> string \<Rightarrow> bool" where
  "can_own s j \<longleftrightarrow> has_scope (indicatorsByWindow s) j \<or> length (indicatorsByWindow s) < INDICATOR_WINDOW_SCOPE_LIMIT"

lemma ensured_entry:
  assumes "j \<noteq> []" "can_own s j"
  shows "own_entry (ensureWindowScope (Some j) s) (Some j)"
    and "shown_settings reg (ensureWindowScope (Some j) s) k tf = shown_settings reg s k tf"
proof -
  have seeded: "indicatorsByWindow (ensureWindowScope (Some j) s) = AList.update j (indicatorsByTimeframe s) (indicatorsByWindow s)"
    "indicatorsByTimeframe (ensureWindowScope (Some j) s) = indicatorsByTimeframe s"
    if "\<not> has_scope (indicatorsByWindow s) j"
    using assms that by (simp_all add: ensureWindowScope_def seedWindowIndicatorScope_def seedIndicatorModalScope_def
        some_key_def can_own_def seed_entry_def bucketsForScope_def)
  have "has_scope (AList.update j b m) j" for b m by (simp add: has_scope_names)
  then show "own_entry (ensureWindowScope (Some j) s) (Some j)"
    using assms seeded by (cases "has_scope (indicatorsByWindow s) j") (simp_all add: own_entry_Some ensureWindowScope_def some_key_def)
  show "shown_settings reg (ensureWindowScope (Some j) s) k tf = shown_settings reg s k tf"
  proof (cases "has_scope (indicatorsByWindow s) j")
    case True
    then show ?thesis by (simp add: ensureWindowScope_def some_key_def split: option.split)
  next
    case False
    then have "map_of (indicatorsByWindow s) j = None" by (simp add: has_scope_lookup)
    then show ?thesis using seeded [OF False] assms(1)
      by (auto simp: shown_settings_def bucketsForScope_def some_key_def AList.update_conv' split: option.split)
  qed
qed

lemma edits_after_ensure:
  assumes "j \<noteq> []" "can_own s j"
  shows "patchIndicatorsScoped (Some j) tf p s = patchIndicatorsScoped (Some j) tf p (ensureWindowScope (Some j) s)"
    "resetIndicatorsScoped reg (Some j) tf s = resetIndicatorsScoped reg (Some j) tf (ensureWindowScope (Some j) s)"
  using ensure_own [OF ensured_entry(1) [OF assms]]
  by (simp_all only: patchIndicatorsScoped_def resetIndicatorsScoped_def)

text \<open>At the limit: every scope without an entry shows the app set.\<close>

lemma app_shown:
  assumes "\<not> own_entry s k"
  shows "shown_settings reg s k tf = resolveIndicatorSettings reg (indicatorsByTimeframe s) tf"
  using assms by (auto simp: shown_settings_def bucketsForScope_def own_entry_def hasWindowIndicatorScope_def some_key_def
      has_scope_lookup split: option.splits if_splits)

lemma full_edit:
  assumes "j \<noteq> []" "\<not> can_own s j"
  shows "indicatorsByWindow (patchIndicatorsScoped (Some j) tf p s) = indicatorsByWindow s"
    "indicatorsByTimeframe (patchIndicatorsScoped (Some j) tf p s)
      = (indicatorsByTimeframe s)(profileKeyForTimeframe tf \<mapsto> bucket (indicatorsByTimeframe s) tf ++ p)"
    "indicatorsByWindow (resetIndicatorsScoped reg (Some j) tf s) = indicatorsByWindow s"
    "indicatorsByTimeframe (resetIndicatorsScoped reg (Some j) tf s) = (indicatorsByTimeframe s)(profileKeyForTimeframe tf := None)"
proof -
  have none: "\<not> has_scope (indicatorsByWindow s) j" "INDICATOR_WINDOW_SCOPE_LIMIT \<le> length (indicatorsByWindow s)"
    using assms(2) by (simp_all add: can_own_def)
  then have e: "ensureWindowScope (Some j) s = s" using assms(1)
    by (simp add: ensureWindowScope_def seedWindowIndicatorScope_def some_key_def)
  have o: "owned_buckets s (Some j) = None" using none(1) by (simp add: owned_buckets_def has_scope_lookup)
  show "indicatorsByWindow (patchIndicatorsScoped (Some j) tf p s) = indicatorsByWindow s"
    "indicatorsByTimeframe (patchIndicatorsScoped (Some j) tf p s)
      = (indicatorsByTimeframe s)(profileKeyForTimeframe tf \<mapsto> bucket (indicatorsByTimeframe s) tf ++ p)"
    "indicatorsByWindow (resetIndicatorsScoped reg (Some j) tf s) = indicatorsByWindow s"
    "indicatorsByTimeframe (resetIndicatorsScoped reg (Some j) tf s) = (indicatorsByTimeframe s)(profileKeyForTimeframe tf := None)"
    by (simp_all add: patchIndicatorsScoped_def resetIndicatorsScoped_def e o set_buckets_def none(1) Let_def)
qed

lemma full_shown:
  assumes "indicatorsByWindow t = indicatorsByWindow s"
    and "indicatorsByTimeframe t = (indicatorsByTimeframe s)(profileKeyForTimeframe tf := v)"
  shows "shown_settings reg t k tf' = (if \<not> own_entry s k \<and> profileKeyForTimeframe tf' = profileKeyForTimeframe tf
     then resolveIndicatorSettings reg ((indicatorsByTimeframe s)(profileKeyForTimeframe tf := v)) tf'
     else shown_settings reg s k tf')"
proof (cases "own_entry s k")
  case True
  then show ?thesis using assms(1)
    by (auto simp: own_entry_Some shown_settings_def bucketsForScope_def some_key_def has_scope_lookup)
next
  case False
  then have "\<not> own_entry t k" using assms(1) by (simp add: own_entry_def)
  then show ?thesis using False assms(2) app_shown [of t k reg tf'] app_shown [of s k reg tf'] by (simp add: resolve_other)
qed

text \<open>The scopes an edit of the window \<open>j\<close> reaches.\<close>

definition edit_reaches :: "'a Indicators_scheme \<Rightarrow> string \<Rightarrow> IndicatorScope \<Rightarrow> bool" where
  "edit_reaches s j k \<longleftrightarrow> (if can_own s j then k = Some j else \<not> own_entry s k)"

text \<open>
  C35. An edit of a window's indicators takes effect in that window at the timeframe it names, and shows
  in no other window, in no other profile of the window, and nowhere in the app set: a patch is merged
  over what the window showed, and a reset gives the factory values. This needs the window to have an
  entry or the store to have room for one (sixty-four windows); in a window beyond the limit the edit
  still takes effect, but as an edit of the app set, which every other window without an entry shows too;
  windows with an entry are untouched even then.
\<close>

theorem window_edit_isolated:
  assumes "j \<noteq> []"
  shows "shown_settings reg (patchIndicatorsScoped (Some j) tf p s) k tf' =
      (if edit_reaches s j k \<and> profileKeyForTimeframe tf' = profileKeyForTimeframe tf
       then shown_settings reg s k tf ++ p else shown_settings reg s k tf')
    \<and> shown_settings reg (resetIndicatorsScoped reg (Some j) tf s) k tf' =
      (if edit_reaches s j k \<and> profileKeyForTimeframe tf' = profileKeyForTimeframe tf
       then factorySettings reg else shown_settings reg s k tf')
    \<and> edit_reaches s j (Some j)"
proof (cases "can_own s j")
  case True
  then show ?thesis
    using own_window_edit [OF ensured_entry(1) [OF assms True], of reg tf p k tf']
    by (simp add: edits_after_ensure(1) [OF assms True, of tf p] edits_after_ensure(2) [OF assms True, of reg tf]
        ensured_entry(2) [OF assms True] edit_reaches_def)
next
  case False
  have same: "resolveIndicatorSettings reg c tf' = resolveIndicatorSettings reg c tf"
    if "profileKeyForTimeframe tf' = profileKeyForTimeframe tf" for c
    using that by (simp add: resolveIndicatorSettings_def)
  have "\<not> own_entry s (Some j)" using False by (simp add: can_own_def own_entry_Some)
  then show ?thesis
    using False same
    by (simp add: full_shown [OF full_edit(1,2) [OF assms False]] full_shown [OF full_edit(3,4) [OF assms False]]
        edit_reaches_def resolve_patch resolve_reset app_shown)
qed

text \<open>Stores without settings, and the entry of one window.\<close>

definition plain_registry :: Registry where
  "plain_registry = \<lparr>factorySettings = [''volume'' \<mapsto> JBool True], modalKeys = [''markers''],
     modalDefaults = [''markers'' \<mapsto> JBool True], normalizeBucketMap = (\<lambda>_. Map.empty), sanitizeModalMap = (\<lambda>_. Map.empty)\<rparr>"

definition new_indicators :: Indicators where
  "new_indicators = \<lparr>paneOrder = [], paneGroups = [], paneAxisMode = [], paneGroupStretch = [], paneStretch = [],
     paneGroupStretchByTimeframe = Map.empty, paneStretchByTimeframe = Map.empty, indicatorsByTimeframe = Map.empty,
     indicatorsByWindow = [], indicatorTimeframe = M1, indicatorSettings = Map.empty, indicatorUndoToast = None,
     indicatorModalByTimeframe = Map.empty, indicatorModalByWindow = [], indicatorModalTimeframe = M1,
     chartPrefs = Map.empty, storedIndicators = None, preferenceEdits = []\<rparr>"

definition one_entry :: Indicators where
  "one_entry = seedWindowIndicatorScope (Some ''live:a'') None new_indicators"

lemma one_entry_windows:
  "indicatorsByWindow one_entry = [(''live:a'', Map.empty)]" "indicatorModalByWindow one_entry = [(''live:a'', Map.empty)]"
  by (simp_all add: one_entry_def new_indicators_def seedWindowIndicatorScope_def some_key_def has_scope_def
      INDICATOR_WINDOW_SCOPE_LIMIT_def seedIndicatorModalScope_def seed_entry_def bucketsForScope_def)

definition crowded :: Indicators where
  "crowded = new_indicators\<lparr>indicatorsByWindow := map (\<lambda>n. (nat_text n, Map.empty)) [0..<64]\<rparr>"

theorem window_edit_isolated_witness:
  "shown_settings plain_registry (patchIndicatorsScoped (Some ''live:a'') M1 [''volume'' \<mapsto> JBool False] one_entry) (Some ''live:a'') M5
     = shown_settings plain_registry one_entry (Some ''live:a'') M1 ++ [''volume'' \<mapsto> JBool False]
   \<and> shown_settings plain_registry (patchIndicatorsScoped (Some ''live:b'') M1 [''volume'' \<mapsto> JBool False] one_entry) (Some ''live:a'') M5
     = shown_settings plain_registry one_entry (Some ''live:a'') M5
   \<and> shown_settings plain_registry (patchIndicatorsScoped (Some ''live:b'') M1 [''volume'' \<mapsto> JBool False] crowded) None M5
     = shown_settings plain_registry crowded None M1 ++ [''volume'' \<mapsto> JBool False]"
proof -
  have digits: "nat_text n \<noteq> ''live:b''" for n
  proof
    assume "nat_text n = ''live:b''"
    then show False using digits_nat_text [of n] by (simp add: is_digit_def)
  qed
  have "\<not> can_own crowded ''live:b''"
    by (auto simp: can_own_def crowded_def has_scope_def INDICATOR_WINDOW_SCOPE_LIMIT_def image_iff digits [symmetric])
  then have full: "edit_reaches crowded ''live:b'' None" by (simp add: edit_reaches_def own_entry_def some_key_def)
  have one: "edit_reaches one_entry ''live:a'' (Some ''live:a'')" "\<not> edit_reaches one_entry ''live:b'' (Some ''live:a'')"
    by (simp_all add: edit_reaches_def can_own_def one_entry_windows has_scope_def INDICATOR_WINDOW_SCOPE_LIMIT_def)
  show ?thesis
    using window_edit_isolated [of "''live:a''" plain_registry M1 "[''volume'' \<mapsto> JBool False]" one_entry "Some ''live:a''" M5]
      window_edit_isolated [of "''live:b''" plain_registry M1 "[''volume'' \<mapsto> JBool False]" one_entry "Some ''live:a''" M5]
      window_edit_isolated [of "''live:b''" plain_registry M1 "[''volume'' \<mapsto> JBool False]" crowded None M5] full one
    by (simp add: profileKeyForTimeframe_def)
qed

subsection \<open>The mirror and the page store\<close>

text \<open>
  The page store and its mirror hold entries for the same windows: every operation on either keeps
  that, with distinct non-empty keys and at most the limit of windows; only a write or a reset that goes
  to the mirror alone has to be for a window that already has its entry.
\<close>

lemma entries_mirrored:
  assumes "scopes_ok s" "edit_ok a s"
  shows "scopes_ok (edit reg a s)"
  using assms
  by (cases a) (simp_all add: scopes_ok_seed scopes_ok_restore scopes_ok_drop scopes_ok_patch scopes_ok_reset
      scopes_ok_write scopes_ok_undo scopes_ok_project)

text \<open>
  A setting that only the mirror keeps, toggled in a window that has no entry yet, makes an entry in the
  mirror alone; when the window is closed the page store knows nothing of it and the entry is never
  reclaimed.
\<close>

lemma unmirrored_write_leaks:
  assumes "k \<noteq> []" "\<not> has_scope (indicatorsByWindow s) k" "\<not> has_scope (indicatorModalByWindow s) k"
    and "length (indicatorModalByWindow s) < INDICATOR_WINDOW_SCOPE_LIMIT" "f \<in> set (modalKeys reg)"
  shows "has_scope (indicatorModalByWindow (dropWindowIndicatorScopes [k] (writePrefScoped reg (Some k) tf f v s))) k"
proof -
  have "has_scope (AList.update k b m) k" for b m by (simp add: has_scope_names)
  then show ?thesis using assms
    by (simp add: writePrefScoped_def ensure_modal_def some_key_def seedIndicatorModalScope_def seed_entry_def
        ownedWindowKey_def dropWindowIndicatorScopes_def Let_def notifyChartPreferenceEdit_def)
qed

end
