(* ===== verification/WorkspaceIndicators.thy ===== *)
theory WorkspaceIndicators
  imports WorkspaceLaws IndicatorLaws
begin

section \<open>The workspace and the indicator stores together\<close>

text \<open>
  The calls the workspace makes on the indicator stores, run in their order: an entry belongs to a
  window of the workspace, whatever is done to it. The calls on the settings of windows
  (\<open>state/windowSettings.ts\<close>) are run in \<open>LayoutPresets\<close>.
\<close>

subsection \<open>Running the calls\<close>

definition with_id :: "json \<Rightarrow> string \<Rightarrow> json" where
  "with_id v i = JObj (AList.update ''id'' (JStr i) (case v of JObj ms \<Rightarrow> ms | _ \<Rightarrow> []))"

fun run_call :: "Registry \<Rightarrow> Effect \<Rightarrow> Indicators \<Rightarrow> Indicators" where
  "run_call reg (SeedIndicators i source) s = seedIndicatorScopeForWindow i source s"
| "run_call reg (DropIndicators ids) s = dropIndicatorScopesForWindows ids s"
| "run_call reg (RestoreIndicators i v) s = restoreIndicatorScopesFromPayload reg [(i, True)] [with_id v i] s"
| "run_call reg (SeedSettings i k source) s = s"
| "run_call reg (DropSettings ids) s = s"
| "run_call reg (RestoreSettings i v) s = s"

definition run_calls :: "Registry \<Rightarrow> Effect list \<Rightarrow> Indicators \<Rightarrow> Indicators" where
  "run_calls reg es s = fold (run_call reg) es s"

definition calls_between :: "Store \<Rightarrow> Store \<Rightarrow> Effect list" where
  "calls_between s t = drop (length (effects s)) (effects t)"

definition window_ids :: "Store \<Rightarrow> string list" where "window_ids s = map w_id (windows s)"

subsection \<open>Names of the entries\<close>

abbreviation entries :: "Indicators \<Rightarrow> string set" where "entries s \<equiv> set (names (indicatorsByWindow s))"

definition keys_of :: "string set \<Rightarrow> string set" where
  "keys_of A = (\<Union>i \<in> A. set (scope_keys [i]))"

lemma keys_of_list: "set (scope_keys is) = keys_of (set is)"
  by (auto simp: keys_of_def scope_keys_def)

lemma keys_empty [simp]: "keys_of {} = {}"
  by (simp add: keys_of_def)

lemma keys_mono: "A \<subseteq> B \<Longrightarrow> keys_of A \<subseteq> keys_of B"
  by (auto simp: keys_of_def)

lemma keys_diff: "keys_of A - keys_of B \<subseteq> keys_of (A - B)"
  unfolding keys_of_def by blast

lemma keys_insert: "keys_of (insert i A) = keys_of {i} \<union> keys_of A"
  by (simp add: keys_of_def)

lemma scope_key_in: "windowScopeKey (Some i) b = Some k \<Longrightarrow> k \<in> keys_of {i}"
  by (cases b) (auto simp: keys_of_def scope_keys_def List.map_filter_def)

lemma entries_seed: "entries (seedWindowIndicatorScope k src s) \<subseteq> entries s \<union> (case k of Some j \<Rightarrow> {j} | None \<Rightarrow> {})"
  by (auto simp: seedWindowIndicatorScope_def seedIndicatorModalScope_def names_seed some_key_Some split: option.splits)

lemma entries_seed_window: "entries (seedIndicatorScopeForWindow i src s) \<subseteq> entries s \<union> keys_of {i}"
proof (cases "windowScopeKey (Some i) False")
  case None then show ?thesis by (simp add: seedIndicatorScopeForWindow_def)
next
  case (Some k)
  let ?s = "seedWindowIndicatorScope (Some k) (windowScopeKey src False) s"
  have k: "entries ?s \<subseteq> entries s \<union> keys_of {i}"
    using entries_seed [of "Some k" "windowScopeKey src False" s] scope_key_in [OF Some] by auto
  moreover have "entries (seedWindowIndicatorScope (windowScopeKey (Some i) True) j ?s) \<subseteq> entries ?s \<union> keys_of {i}" for j
    using entries_seed [of "windowScopeKey (Some i) True" j ?s] scope_key_in [of i True] by (fastforce split: option.splits)
  ultimately show ?thesis using Some by (auto simp: seedIndicatorScopeForWindow_def Let_def split: option.split)
qed

lemma entries_drop: "entries (dropIndicatorScopesForWindows ids s) = entries s - keys_of (set ids)"
proof -
  have "entries (dropWindowIndicatorScopes ks s) = entries s - set ks" for ks
  proof (cases "filter (has_scope (indicatorsByWindow s)) ks = []")
    case True
    then have "entries s \<inter> set ks = {}" by (auto simp: filter_empty_conv has_scope_names)
    then show ?thesis using True by (auto simp: dropWindowIndicatorScopes_def)
  next
    case False
    then show ?thesis by (auto simp: dropWindowIndicatorScopes_def Let_def dropIndicatorModalScopes_def names_drop)
  qed
  then show ?thesis by (simp add: dropIndicatorScopesForWindows_def keys_of_list)
qed

lemma names_restore: "set (names (restore_entries es m)) \<subseteq> set (names m) \<union> fst ` set es"
  by (induction es m rule: restore_entries.induct) (auto split: if_splits)

lemma payload_keys: "fst ` set (payload_entry reg i raw b) \<subseteq> keys_of {i}"
  using scope_key_in [of i b] by (auto simp: payload_entry_def Let_def split: option.splits)

lemma entries_restore:
  "entries (restoreIndicatorScopesFromPayload reg ws raws s) \<subseteq> entries s \<union> keys_of (fst ` set ws)"
proof -
  have "entries (restoreWindowIndicatorScopes es s) \<subseteq> entries s \<union> fst ` set es" for es
  proof -
    have "fst ` set (map (\<lambda>(k, b, _). (k, b)) es) = fst ` set es" by force
    then show ?thesis using names_restore [of "map (\<lambda>(k, b, _). (k, b)) es" "indicatorsByWindow s"]
      by (auto simp: restoreWindowIndicatorScopes_def restoreIndicatorModalScopes_def)
  qed
  then have "entries (restoreIndicatorScopesFromPayload reg ws raws s) \<subseteq> entries s \<union> fst ` set (payload_entries reg ws raws)"
    by (simp add: restoreIndicatorScopesFromPayload_def)
  moreover have "fst ` set (payload_entries reg ws raws) \<subseteq> keys_of (fst ` set ws)"
  proof -
    have "fst ` set (payload_entry reg i raw b) \<subseteq> keys_of (fst ` set ws)" if "(i, c) \<in> set ws" for i c raw b
      using payload_keys [of reg i raw b] keys_mono [of "{i}" "fst ` set ws"] that by force
    then show ?thesis by (fastforce simp: payload_entries_def image_subset_iff split: option.splits)
  qed
  ultimately show ?thesis by blast
qed

subsection \<open>Calls settle the windows\<close>

text \<open>The windows that may hold an entry after a call.\<close>

fun holders :: "Effect \<Rightarrow> string set \<Rightarrow> string set" where
  "holders (SeedIndicators i source) A = insert i A"
| "holders (DropIndicators ids) A = A - set ids"
| "holders (RestoreIndicators i v) A = insert i A"
| "holders (SeedSettings i k source) A = A"
| "holders (DropSettings ids) A = A"
| "holders (RestoreSettings i v) A = A"

lemma holders_mono: "A \<subseteq> B \<Longrightarrow> holders e A \<subseteq> holders e B"
  by (cases e) auto

lemma fold_holders_mono: "A \<subseteq> B \<Longrightarrow> fold holders es A \<subseteq> fold holders es B"
  by (induction es arbitrary: A B) (simp_all add: holders_mono)

lemma run_call_entries:
  assumes "entries s \<subseteq> keys_of A"
  shows "entries (run_call reg e s) \<subseteq> keys_of (holders e A)"
proof (cases e)
  case (SeedIndicators i src)
  then show ?thesis using assms entries_seed_window [of i src s] keys_insert [of i A] by auto
next
  case (DropIndicators ids)
  then show ?thesis using assms entries_drop [of ids s] keys_diff [of A "set ids"] by auto
next
  case (RestoreIndicators i v)
  then show ?thesis using assms entries_restore [of reg "[(i, True)]" "[with_id v i]" s] keys_insert [of i A]
    by auto
qed (use assms in simp_all)

lemma run_calls_entries: "entries s \<subseteq> keys_of A \<Longrightarrow> entries (run_calls reg es s) \<subseteq> keys_of (fold holders es A)"
  unfolding run_calls_def by (induction es arbitrary: s A) (simp_all add: run_call_entries)

definition settled :: "Store \<Rightarrow> Store \<Rightarrow> bool" where
  "settled s t \<longleftrightarrow> (\<exists>es. effects t = effects s @ es \<and> fold holders es (set (window_ids s)) \<subseteq> set (window_ids t))"

lemma settledI: "effects t = effects s @ es \<Longrightarrow> fold holders es (set (window_ids s)) \<subseteq> set (window_ids t) \<Longrightarrow> settled s t"
  by (auto simp: settled_def)

lemma settled_quiet: "effects t = effects s \<and> window_ids t = window_ids s \<Longrightarrow> settled s t"
  by (rule settledI [of t s "[]"]) simp_all

lemma settled_trans: "settled s t \<Longrightarrow> settled t u \<Longrightarrow> settled s u"
proof -
  assume "settled s t" "settled t u"
  then obtain es fs where e: "effects t = effects s @ es" "fold holders es (set (window_ids s)) \<subseteq> set (window_ids t)"
    and f: "effects u = effects t @ fs" "fold holders fs (set (window_ids t)) \<subseteq> set (window_ids u)"
    by (auto simp: settled_def)
  have "fold holders fs (fold holders es (set (window_ids s))) \<subseteq> set (window_ids u)"
    using fold_holders_mono [OF e(2)] f(2) by (rule subset_trans)
  then show "settled s u" using e(1) f(1) by (intro settledI [of _ _ "es @ fs"]) simp_all
qed

lemma window_ids_simps [simp]:
  "window_ids (persist s) = window_ids s" "window_ids (call es s) = window_ids s"
  "window_ids (s\<lparr>zOrder := z\<rparr>) = window_ids s" "window_ids (s\<lparr>groupSymbols := g\<rparr>) = window_ids s"
  "window_ids (s\<lparr>chartRuntime := r\<rparr>) = window_ids s" "window_ids (s\<lparr>maximizedId := m\<rparr>) = window_ids s"
  "window_ids (s\<lparr>canvasSize := c\<rparr>) = window_ids s" "window_ids (s\<lparr>blockedActivation := b\<rparr>) = window_ids s"
  "window_ids (s\<lparr>objects := n\<rparr>) = window_ids s" "window_ids (s\<lparr>pendingNormalize := q\<rparr>) = window_ids s"
  "window_ids (s\<lparr>pendingTransferPinIds := p\<rparr>) = window_ids s" "window_ids (set_runtime i rt s) = window_ids s"
  "window_ids (rememberWindowPreferences k v s) = window_ids s"
  "window_ids (rememberLastOrderSettings o' s) = window_ids s"
  "window_ids (rememberChartPreferences cp i s) = window_ids s"
  "window_ids (remember_closing cp i s) = window_ids s"
  by (simp_all add: window_ids_def remember_closing_def split: option.split)

lemma window_ids_put: "(\<And>w. w_id (f w) = w_id w) \<Longrightarrow> window_ids (put_windows f s) = window_ids s"
  by (simp add: window_ids_def)

lemma ids_at_id: "(\<And>w. w_id (f w) = w_id w) \<Longrightarrow> w_id (at_id i f w) = w_id w"
  by (simp add: at_id_def)

lemma id_pin_to [simp]: "w_id (pin_to_display s is w) = w_id w"
  by (simp add: pin_to_display_def)

lemma id_us [simp]: "w_id (normalizeUsWindow w y) = w_id w"
  by (simp add: normalizeUsWindow_def Let_def split: option.split)

lemma id_without [simp]: "w_id (withoutPin w) = w_id w"
  by (simp add: withoutPin_def)

lemma settled_remember: "settled s (rememberChartPreferences cp i s)"
proof (cases "window_with (of_kind ChartWindow) i s")
  case None then show ?thesis by (simp add: settled_quiet rememberChartPreferences_def)
next
  case (Some w)
  then have "i \<in> set (window_ids s)" by (auto simp: window_with_def window_ids_def find_Some_iff)
  then show ?thesis using Some
    by (intro settledI [of _ s "[SeedIndicators i None, SeedSettings i ChartWindow None]"])
      (auto simp: rememberChartPreferences_def)
qed

lemma settled_put: "(\<And>w. w_id (f w) = w_id w) \<Longrightarrow> settled s (put_windows f s)"
  by (simp add: settled_quiet window_ids_put)

lemma settled_via: "effects t' = effects t \<and> window_ids t' = window_ids t \<Longrightarrow> settled s t \<Longrightarrow> settled s t'"
  by (simp add: settled_def)

lemma settled_flag: "settled s (set_chart_flag cp i f s)"
proof -
  have "settled s (case withChart i f s of None \<Rightarrow> s | Some u \<Rightarrow> put_windows u s)"
    by (auto simp: withChart_def ids_at_id window_ids_put intro!: settled_quiet split: option.split)
  then show ?thesis unfolding set_chart_flag_def by (rule settled_trans [OF _ settled_remember])
qed

lemma settled_timeframe: "settled s (setChartTimeframe cp v i tf s)"
  unfolding setChartTimeframe_def Let_def
  by (rule settled_trans [OF _ settled_remember])
    (auto simp: withChart_def ids_at_id window_ids_put settled_quiet split: option.split)

lemma settled_add: "settled s (addWindow i k s)"
proof (rule settledI)
  let ?src = "if k = ChartWindow then map_option w_id (focusedChart s) else None"
  let ?last = "if k = ChartWindow \<and> ?src = None then readLastWindowPreferences ChartPreferenceKey s else None"
  let ?es = "(if k = ChartWindow then [SeedIndicators i ?src] else []) @ [SeedSettings i k ?src]
    @ (case ?last of None \<Rightarrow> [] | Some p \<Rightarrow> [RestoreIndicators i p, RestoreSettings i p])"
  show "effects (addWindow i k s) = effects s @ ?es"
    by (simp add: addWindow_def Let_def split: option.split)
  have "window_ids (addWindow i k s) = window_ids s @ [i]"
    by (simp add: addWindow_def Let_def window_ids_def new_window_def plain_window_def split: option.split)
  then show "fold holders ?es (set (window_ids s)) \<subseteq> set (window_ids (addWindow i k s))"
    by (auto split: option.split)
qed

lemma settled_account: "settled s (setOrderAccount i a s)"
  by (rule settled_quiet)
    (simp add: setOrderAccount_def window_ids_def set_history_def split: option.split)

lemma settled_focus: "settled s (focusWindow i s)"
  by (rule settled_quiet) (simp add: focusWindow_def)

lemma settled_config: "settled s (setExecutionWindowConfig i c s)"
  by (simp add: setExecutionWindowConfig_def settled_put)

lemma settled_history: "settled s (snd (openExecutionHistory i j a s))"
proof -
  have "settled s (setExecutionWindowConfig i c (addWindow i AccountFills (setOrderAccount j a s)))" for c
    by (rule settled_trans [OF settled_trans [OF settled_account settled_add] settled_config])
  moreover have "settled s (focusWindow l (setOrderAccount j a s))" for l
    by (rule settled_trans [OF settled_account settled_focus])
  ultimately show ?thesis by (auto simp: openExecutionHistory_def Let_def settled_quiet split: option.splits)
qed

lemma settled_closing: "settled s (remember_closing cp i s)"
  by (auto simp: remember_closing_def settled_remember settled_quiet split: option.split)

lemma settled_close: "settled s (closeWindow cp i s)"
proof -
  let ?t = "remember_closing cp i s"
  have "settled ?t (closeWindow cp i s)"
  proof (rule settledI)
    show "effects (closeWindow cp i s) = effects ?t @ [DropIndicators [i], DropSettings [i]]"
      by (simp add: closeWindow_def Let_def split: option.split)
    have "w_id (closing_window c u i w) = w_id w" for c u w
      by (simp add: closing_window_def set_history_def split: option.split)
    then have "window_ids (closeWindow cp i s) = filter (\<lambda>j. j \<noteq> i) (window_ids ?t)"
      by (simp add: closeWindow_def Let_def window_ids_def filter_map o_def split: option.split)
    then show "fold holders [DropIndicators [i], DropSettings [i]] (set (window_ids ?t)) \<subseteq> set (window_ids (closeWindow cp i s))"
      by auto
  qed
  then show ?thesis by (rule settled_trans [OF settled_closing])
qed

lemma settled_snapshot: "settled s (applyWorkspaceSnapshot mk v s)"
proof -
  obtain ws z where n: "normalizeWorkspaceSnapshot mk v = (ws, z)" by force
  let ?t = "applyWorkspaceSnapshot mk v s"
  let ?removed = "filter (\<lambda>j. j \<notin> set (window_ids ?t)) (window_ids s)"
  have none: "fold holders (map (\<lambda>w. SeedSettings (w_id w) (w_kind w) None) us) A = A" for us A
    by (induction us arbitrary: A) simp_all
  show ?thesis
  proof (rule settledI)
    show "effects ?t = effects s @ [DropIndicators ?removed, DropSettings ?removed]
      @ map (\<lambda>w. SeedSettings (w_id w) (w_kind w) None) (windows ?t)"
      by (simp add: applyWorkspaceSnapshot_def n Let_def window_ids_def image_image)
    show "fold holders ([DropIndicators ?removed, DropSettings ?removed]
      @ map (\<lambda>w. SeedSettings (w_id w) (w_kind w) None) (windows ?t)) (set (window_ids s)) \<subseteq> set (window_ids ?t)"
      by (auto simp: none)
  qed
qed

lemma settled_symbol: "settled s (setGroupSymbol g y s)"
  by (auto simp: setGroupSymbol_def Let_def window_ids_put settled_quiet split: option.split)

lemma settled_act: "settled s (act a s)"
proof (cases a)
  case (ApplySnapshot mk v) then show ?thesis by (simp add: settled_snapshot)
next
  case (SetChartTimeframe cp v i tf) then show ?thesis by (simp add: settled_timeframe)
next
  case (ToggleMaximize i)
  then show ?thesis using settled_focus [of s i]
    by (auto simp: toggleMaximize_def Let_def settled_quiet intro: settled_via)
next
  case (OpenExecutionHistory i j a) then show ?thesis by (simp add: settled_history)
next
  case (CloseWindow cp i) then show ?thesis by (simp add: settled_close)
next
  case (AddWindow i k) then show ?thesis by (simp add: settled_add)
next
  case (FocusWindow i) then show ?thesis by (simp add: settled_focus)
next
  case (SetOrderAccount i a) then show ?thesis by (simp add: settled_account)
next
  case (SetWindowSymbol i y)
  then show ?thesis
    by (auto simp: setWindowSymbol_def Let_def settled_symbol settled_quiet window_ids_put ids_at_id split: option.split)
next
  case (SetGroupSymbol g y) then show ?thesis by (simp add: settled_symbol)
next
  case (SetChartRegularSessionOnly cp i b) then show ?thesis by (simp add: setChartRegularSessionOnly_def settled_flag)
next
  case (SetChartHoverLinked cp i b) then show ?thesis by (simp add: setChartHoverLinked_def settled_flag)
next
  case (SetChartIndicatorLegendsVisible cp i b)
  then show ?thesis by (simp add: setChartIndicatorLegendsVisible_def settled_flag)
qed (auto simp: action_defs Let_def window_ids_put ids_at_id settled_quiet split: option.split)

subsection \<open>No entry outlives its window\<close>

lemma scopes_ok_run: "scopes_ok ind \<Longrightarrow> scopes_ok (run_call reg e ind)"
proof (cases e)
  case (SeedIndicators i src)
  then show "scopes_ok ind \<Longrightarrow> ?thesis"
    by (simp add: seedIndicatorScopeForWindow_def Let_def scopes_ok_seed split: option.split)
qed (simp_all add: dropIndicatorScopesForWindows_def scopes_ok_drop restoreIndicatorScopesFromPayload_def scopes_ok_restore)

lemma scopes_ok_runs: "scopes_ok ind \<Longrightarrow> scopes_ok (run_calls reg es ind)"
  unfolding run_calls_def by (induction es arbitrary: ind) (simp_all add: scopes_ok_run)

abbreviation mirror_entries :: "Indicators \<Rightarrow> string set" where
  "mirror_entries s \<equiv> set (names (indicatorModalByWindow s))"

text \<open>
  C36. Whatever is done to the workspace, once the calls it makes have run every indicator entry of the
  page store belongs to a window that exists: the entries of closed windows, and of windows a preset
  replaces, are reclaimed, and nothing is seeded for a window that is not there. The same holds of the
  entries of the mirror store when the two stores held entries for the same windows before, which they do
  afterwards. (A preference written straight to the mirror for a window without an entry breaks that, and
  such an entry is not reclaimed.)
\<close>

theorem no_orphan_entries:
  assumes "entries ind \<subseteq> keys_of (set (window_ids s))" and "ind' = run_calls reg (calls_between s (act a s)) ind"
  shows "entries ind' \<subseteq> keys_of (set (window_ids (act a s)))
    \<and> (scopes_ok ind \<longrightarrow> scopes_ok ind' \<and> mirror_entries ind' \<subseteq> keys_of (set (window_ids (act a s))))"
proof -
  obtain es where "effects (act a s) = effects s @ es"
    and h: "fold holders es (set (window_ids s)) \<subseteq> set (window_ids (act a s))"
    using settled_act [of s a] by (auto simp: settled_def)
  then have "calls_between s (act a s) = es" by (simp add: calls_between_def)
  then have e: "entries ind' \<subseteq> keys_of (set (window_ids (act a s)))"
    using run_calls_entries [OF assms(1), of reg es] keys_mono [OF h] assms(2) by auto
  have "scopes_ok ind \<Longrightarrow> scopes_ok ind'" using scopes_ok_runs assms(2) by simp
  then show ?thesis using e by (simp add: scopes_ok_def)
qed


definition unused_tab :: Tab where
  "unused_tab = \<lparr>tabStorage = (\<lambda>_. None), sharedStorage = (\<lambda>_. None), deepLink = False\<rparr>"

definition opened_tab :: Store where "opened_tab = hydrate (factory nat_text, False, unused_tab)"

theorem no_orphan_entries_witness:
  "entries (run_calls plain_registry (calls_between opened_tab (act (AddWindow ''n'' ChartWindow) opened_tab)) new_indicators)
     \<subseteq> keys_of (set (window_ids (act (AddWindow ''n'' ChartWindow) opened_tab)))
   \<and> mirror_entries (run_calls plain_registry (calls_between opened_tab (act (AddWindow ''n'' ChartWindow) opened_tab)) new_indicators)
     \<subseteq> keys_of (set (window_ids (act (AddWindow ''n'' ChartWindow) opened_tab)))"
  using no_orphan_entries [OF _ refl, of new_indicators opened_tab plain_registry "AddWindow ''n'' ChartWindow"]
  by (simp add: new_indicators_def names_def scopes_ok_def)

end
