(* ===== verification/WorkspaceRuns.thy ===== *)
theory WorkspaceRuns
  imports WorkspaceFit WorkspaceIndicators
begin

section \<open>Runs of the workspace\<close>

text \<open>
  What holds of the workspace after any number of actions, from whatever the storages held when the tab
  was opened: the state is well formed, the storage follows it, only the actions that are meant to
  change what a window shows do so, and charts stay on a timeframe their symbol has.
\<close>

subsection \<open>Reachable states\<close>

text \<open>A run of actions, each of which its callers can make in the state they make it in.\<close>

primrec allowed_run :: "Action list \<Rightarrow> Store \<Rightarrow> bool" where
  "allowed_run [] s \<longleftrightarrow> True"
| "allowed_run (a # as) s \<longleftrightarrow> action_ok a s \<and> allowed_run as (act a s)"

lemma hydrate_simps [simp]:
  "windows (hydrate (p, b, t)) = windows p" "zOrder (hydrate (p, b, t)) = zOrder p"
  "groupSymbols (hydrate (p, b, t)) = groupSymbols p" "chartRuntime (hydrate (p, b, t)) = (\<lambda>_. None)"
  "canvasSize (hydrate (p, b, t)) = None" "maximizedId (hydrate (p, b, t)) = None"
  "pendingNormalize (hydrate (p, b, t)) = b" "the_tab (hydrate (p, b, t)) = t"
  "effects (hydrate (p, b, t)) = map (\<lambda>w. SeedSettings (w_id w) (w_kind w) None) (windows p)"
  by (simp_all add: hydrate_def Persisted.defs)

lemma stacking_distinct:
  assumes "readStorage mk now param t = (p, pending, t')" "distinct (map w_id (windows p))"
  shows "distinct (zOrder p)"
proof -
  have seed: "zOrder u = map w_id (windows u)" if "buildWorkspaceSeed a b c mk = Some u" for a b c u
    using that by (auto simp: buildWorkspaceSeed_def Let_def seed_state_def split: if_splits)
  have snap: "distinct (zOrder (read_snapshot l d q raws))" if "distinct (map w_id (windows (read_snapshot l d q raws)))" for l d q raws
    using that normalizeZOrder_ok [of "List.map_filter (\<lambda>w. readWindow w l True) raws" "member q ''zOrder''"]
    by (cases d) (simp_all add: read_snapshot_def Let_def o_def withoutPin_def)
  have "distinct (zOrder (factory mk))" if "distinct (map w_id (windows (factory mk)))"
    using that by (simp add: factory_def Let_def)
  then show ?thesis using assms seed snap unfolding readStorage_def
    by (auto simp: Let_def readLegacyWorkspaceSeed_def split: prod.splits option.splits if_splits)
qed

lemma readRect_px_size: "readRect v True = Some r \<Longrightarrow> 0 < rw r \<and> 0 < rh r"
  by (auto simp: readRect_def less_max_iff_disj split: option.splits)

lemma readWindow_px_size: "readWindow v True keepPin = Some w \<Longrightarrow> 0 < rw (w_rect w) \<and> 0 < rh (w_rect w)"
  by (auto simp: readWindow_def Let_def dest!: readRect_px_size split: option.splits if_splits)

lemma pixel_rect:
  assumes "readStorage mk now param t = (p, True, t')" "w \<in> set (windows p)"
  shows "0 < rw (w_rect w) \<and> 0 < rh (w_rect w)"
proof -
  obtain d parsed raws where "p = read_snapshot True d parsed raws"
    using assms(1) by (auto simp: readStorage_def Let_def split: prod.splits option.splits if_splits)
  then show ?thesis using assms(2) readWindow_px_size
    by (auto simp: read_snapshot_def Let_def List.map_filter_def withoutPin_def split: if_splits)
qed

lemma store_ok_hydrate:
  assumes r: "readStorage mk now param t = (p, pending, t')" and d: "distinct (map w_id (windows p))"
  shows "store_ok (hydrate (p, pending, t'))"
proof -
  have h: "hydrated_ok p" "pending \<or> list_all storable (windows p)" using hydration_well_formed [OF r] by auto
  have "window_ok pending w" if w: "w \<in> set (windows p)" for w
  proof (cases pending)
    case True
    then show ?thesis using h(1) w pixel_rect [of mk now param t p t' w] r
      by (simp add: window_ok_def rect_ok_def hydrated_ok_def list_all_iff live_kind)
  next
    case False
    then have "storable w" using h(2) w by (simp add: list_all_iff)
    then show ?thesis by (auto simp: window_ok_def rect_ok_def storable_iff isFracRect_def live_kind)
  qed
  then show ?thesis using h(1) d stacking_distinct [OF r d]
    by (simp add: store_ok_def ids_ok_def runtimes_ok_def hydrated_ok_def list_all_iff live_groups)
qed


text \<open>The workspace an unused tab opens with.\<close>

definition fresh :: Store where
  "fresh = hydrate (factory nat_text, False, persistFromState (factory nat_text) unused_tab)"

lemma fresh_read: "readStorage nat_text 0 None unused_tab = (factory nat_text, False, persistFromState (factory nat_text) unused_tab)"
  by (simp add: readStorage_def readWorkspaceSnapshot_def readJsonObject_def unused_tab_def consumeWorkspaceTransfer_def
      readLegacyWorkspaceSeed_def buildWorkspaceSeed_def nonempty_def Let_def member_def json_arr_def entries_of_def)

lemma first_ids: "nat_text 0 = ''0''" "nat_text (Suc 0) = ''1''" "nat_text 2 = ''2''"
  by code_simp+

lemma fresh_windows: "windows fresh =
    [(plain_window ''0'' ChartWindow 1 \<lparr>rx = 0, ry = 0, rw = LIVE_RIGHT_COL_X, rh = 1\<rparr>)\<lparr>w_chart := Some (plain_chart M1)\<rparr>,
     plain_window ''1'' BookWindow 1 \<lparr>rx = LIVE_RIGHT_COL_X, ry = 0, rw = LIVE_RIGHT_COL_W, rh = LIVE_BOOK_H\<rparr>,
     plain_window ''2'' BrokerWindow 1
       \<lparr>rx = LIVE_RIGHT_COL_X, ry = LIVE_BOOK_H, rw = LIVE_RIGHT_COL_W, rh = 1 - LIVE_BOOK_H\<rparr>]"
  by (simp add: fresh_def factory_def liveDefaultWindows_def Let_def first_ids)

lemma fresh_ids: "map w_id (windows fresh) = [''0'', ''1'', ''2'']"
  by (simp add: fresh_windows)

lemma fresh_ok: "store_ok fresh"
  unfolding fresh_def by (rule store_ok_hydrate [OF fresh_read]) (use fresh_ids in \<open>simp add: fresh_def\<close>)

subsection \<open>The state\<close>

lemma allowed_run_ok: "store_ok s \<Longrightarrow> allowed_run as s \<Longrightarrow> store_ok (acts as s)"
  by (induction as arbitrary: s) (simp_all add: acts_def store_ok_act)

text \<open>What is read back of a window has its id, so what a session stores reads back with distinct ids.\<close>

lemma readWindow_id: "readWindow (window_json w) legacyPx keepPin = Some v \<Longrightarrow> w_id v = w_id w"
  by (auto simp: readWindow_def Let_def split: option.splits if_splits)

lemma read_ids_distinct:
  assumes "distinct (map w_id ws)"
  shows "distinct (map w_id (List.map_filter (\<lambda>w. readWindow w legacyPx keepPin) (map window_json ws)))"
proof -
  have "set (map w_id (List.map_filter (\<lambda>w. readWindow w legacyPx keepPin) (map window_json us))) \<subseteq> set (map w_id us)" for us
    by (induction us) (auto simp: List.map_filter_def dest: readWindow_id)
  then have other: "i \<notin> set (map w_id us) \<Longrightarrow> i \<notin> set (map w_id (List.map_filter (\<lambda>w. readWindow w legacyPx keepPin) (map window_json us)))" for i us
    by blast
  show ?thesis using assms
  proof (induction ws)
    case (Cons w ws)
    show ?case
    proof (cases "readWindow (window_json w) legacyPx keepPin")
      case (Some v)
      then show ?thesis using Cons readWindow_id [OF Some] other [of "w_id w" ws] by (simp add: List.map_filter_simps)
    qed (use Cons in \<open>simp add: List.map_filter_simps\<close>)
  qed (simp add: List.map_filter_simps)
qed

lemma stored_ids_distinct:
  assumes "distinct (map w_id (windows s))" "inj mk"
  shows "distinct (map w_id (windows (fst (readStorage mk now param (persistFromState s t)))))"
proof -
  have r: "readWorkspaceSnapshot now param (persistFromState s t) = (snapshot_json s, False, persistFromState s t)"
    by (simp add: readWorkspaceSnapshot_def readJsonObject_def persistFromState_def persistJson_def Let_def)
  have "distinct (map w_id (windows (factory mk)))"
    using assms(2) by (simp add: factory_def liveDefaultWindows_def Let_def inj_eq)
  moreover have "map w_id (windows (read_snapshot l d q raws)) = map w_id (List.map_filter (\<lambda>w. readWindow w l True) raws)" for l d q raws
    by (simp add: read_snapshot_def Let_def o_def)
  ultimately show ?thesis
    using read_ids_distinct [OF assms(1)] unfolding readStorage_def r by simp
qed

text \<open>The reader does not check it: a stored snapshot that names a window twice is kept as it is.\<close>

lemma duplicate_ids_kept:
  "storable w \<Longrightarrow> \<not> distinct (map w_id (windows (read_snapshot False d parsed [window_json w, window_json w])))"
  by (simp add: read_snapshot_def Let_def List.map_filter_simps readWindow_stored)

text \<open>
  C1. The workspace is well formed in every state of a session: whatever else the storages held, as long
  as the windows read from them have distinct ids (which the reader does not check), and whatever actions
  follow that their callers can make (new windows get new ids, canvases a size, committed rectangles are
  reachable fractions, symbols are of an instrument, presets name each window once), ids are distinct and
  stacked exactly once, every window has only the properties of its kind with checked values, rectangles
  can be reached once the layout is in fractions, group symbols are valid, and only charts have runtime,
  consistent with itself. What such a session stores has distinct ids when it is read again, so a workspace
  that only this program wrote stays well formed from session to session.
\<close>

theorem workspace_invariant:
  assumes "readStorage mk now param t = (p, pending, t')" "distinct (map w_id (windows p))"
    and "allowed_run as (hydrate (p, pending, t'))" "s = acts as (hydrate (p, pending, t'))"
  shows "store_ok s
    \<and> (inj mk' \<longrightarrow> distinct (map w_id (windows (fst (readStorage mk' now' param' (persistFromState s t''))))))"
proof -
  have s: "store_ok s" using allowed_run_ok [OF store_ok_hydrate [OF assms(1,2)] assms(3)] assms(4) by simp
  then have "distinct (map w_id (windows s))" by (simp add: store_ok_def ids_ok_def)
  then show ?thesis using s stored_ids_distinct by blast
qed

text \<open>A stock chosen from the recent trades of a chart, as its caller passes it, and a new window.\<close>

definition hynix :: GroupSymbol where
  "hynix = \<lparr>sym_code = ''000660'', sym_name = ''SK hynix'', sym_kind = Some StockSymbol\<rparr>"

theorem workspace_invariant_witness:
  "store_ok (acts [SetCanvasSize REFERENCE_CANVAS, SetWindowSymbol ''0'' hynix, AddWindow ''new'' NewsWindow] fresh)"
proof -
  have "live_symbol_ok (classified hynix)"
    by (simp add: live_symbol_ok_def symbol_ok_def classified_def hynix_def unmarked_def us_stock_prefix_def starts_with_def usStockKey_def)
  moreover have "map w_id (windows (act (SetWindowSymbol ''0'' hynix) (act (SetCanvasSize REFERENCE_CANVAS) fresh))) = [''0'', ''1'', ''2'']"
    using fresh_ids by (auto simp: setWindowSymbol_def setCanvasSize_def setGroupSymbol_def Let_def at_id_def o_def split: option.split)
  ultimately have "allowed_run [SetCanvasSize REFERENCE_CANVAS, SetWindowSymbol ''0'' hynix, AddWindow ''new'' NewsWindow] fresh"
    by (simp add: positive_canvas_def REFERENCE_CANVAS_def del: act.simps)
  then show ?thesis
    using workspace_invariant [OF fresh_read _ _ refl] fresh_ids by (simp add: fresh_def)
qed

text \<open>
  C5. The storage follows the state: after any run of actions, either nothing that is kept has changed,
  nor the stored workspace, or the tab's own storage holds the snapshot of exactly the final state; the
  storage shared by the tabs holds it too, unless the tab was opened by a link, which never touches it.
\<close>

theorem storage_follows: "follows s (acts as s)"
proof (induction as arbitrary: s)
  case (Cons a as)
  show ?case using follows_trans [OF follows_act Cons.IH] by (simp add: acts_def)
qed (simp add: acts_def)

subsection \<open>What a window shows\<close>

text \<open>
  C6. No action changes the symbol of a window it is not about: symbols change only in the windows of a
  group that gets a symbol, in a window that is pinned to a symbol, moved to a group or unpinned, and in
  the unpinned windows of a preset; and wherever the symbol does change, the history loaded for the old
  one is thrown away.
\<close>

theorem windows_keep_their_symbol:
  assumes "store_ok s" "action_ok a s" "find_window (windows s) i = Some w" "find_window (windows (act a s)) i = Some w'"
  shows "(shown_code (act a s) w' = shown_code s w \<or> retargets a s w)
    \<and> (shown_code (act a s) w' = shown_code s w \<or> chartRuntime (act a s) i = None)"
proof -
  have "(\<not> retargets a s w \<longrightarrow> shown_code (act a s) w' = shown_code s w)
      \<and> (shown_code (act a s) w' \<noteq> shown_code s w \<longrightarrow> chartRuntime (act a s) i = None)"
    using views_act [OF assms(1,2)] assms(3,4) by (simp add: views_of_def)
  then show ?thesis by argo
qed

definition samsung :: GroupSymbol where
  "samsung = \<lparr>sym_code = ''005930'', sym_name = ''Samsung'', sym_kind = None\<rparr>"

lemma samsung_ok: "symbol_ok samsung" "classified samsung = samsung"
  by (simp_all add: symbol_ok_def classified_def samsung_def us_stock_code_def us_stock_prefix_def starts_with_def usStockKey_def)

theorem windows_keep_their_symbol_witness:
  "\<exists>w w'. find_window (windows (act (PinWindowToSymbol ''0'' samsung) fresh)) ''1'' = Some w' \<and>
     shown_code (act (PinWindowToSymbol ''0'' samsung) fresh) w' = shown_code fresh w"
proof -
  obtain w where w: "find_window (windows fresh) ''1'' = Some w"
    by (auto simp: fresh_windows find_window_def)
  obtain w' where w': "find_window (windows (act (PinWindowToSymbol ''0'' samsung) fresh)) ''1'' = Some w'"
    using w by (cases "has_window pinnable ''0'' fresh") (simp_all add: pinWindowToSymbol_def find_map at_id_def)
  have "\<not> retargets (PinWindowToSymbol ''0'' samsung) fresh w" using find_window_Some [OF w] by simp
  then show ?thesis using windows_keep_their_symbol [OF fresh_ok _ w w'] samsung_ok w' by auto
qed

subsection \<open>Charts and their symbols\<close>

text \<open>A window that the action has just unpinned.\<close>

definition just_unpinned :: "Store \<Rightarrow> string \<Rightarrow> WorkspaceWindow \<Rightarrow> bool" where
  "just_unpinned s i w' \<longleftrightarrow> pinned w' = None \<and> has_window (\<lambda>w. pinned w \<noteq> None) i s"

lemma fits_kept:
  assumes "fitted s" "find_window (windows s) i = Some w" "w_chart w' = w_chart w" "display t w' = display s w"
    and "chartRuntime t i = chartRuntime s i"
  shows "window_fits t i w'"
proof -
  have "window_fits s i w" using assms(1,2) by (simp add: fitted_def)
  then show ?thesis using assms(3-5) by (simp add: window_fits_def runtime_of_def cong: option.case_cong)
qed

lemma unpinned_id: "pinned w = None \<Longrightarrow> withoutPin w = w"
  by (simp add: withoutPin_def)

lemma toggle_pinned:
  assumes "find_window (windows s) j = Some v" "pinnable v" "pinned v \<noteq> None"
  shows "windows (toggleWindowPin j s)
      = map (at_id j (\<lambda>w. if pinned w \<noteq> None then withoutPin w else w\<lparr>pinned := display s v\<rparr>)) (windows s)"
    and "groupSymbols (toggleWindowPin j s) = groupSymbols s"
    and "i \<noteq> j \<Longrightarrow> chartRuntime (toggleWindowPin j s) i = chartRuntime s i"
  using assms by (auto simp: toggleWindowPin_def Let_def clearedChartRuntime_def)

lemma unpin_fits:
  assumes f: "fitted s" "store_ok s" and w': "find_window (windows (act a s)) i = Some w'" and a: "unpins a s"
  shows "window_fits (act a s) i w' \<or> just_unpinned s i w'"
proof -
  obtain w where w: "find_window (windows s) i = Some w" and cases:
    "pinned w \<noteq> None \<and> pinned w' = None \<or> w' = w \<and> chartRuntime (act a s) i = chartRuntime s i \<and> groupSymbols (act a s) = groupSymbols s"
  proof (cases a)
    case (ToggleWindowPin j)
    then obtain v where v: "find_window (windows s) j = Some v" "pinned v \<noteq> None"
      using a f(2) find_known [OF f(2)] by (auto simp: has_window_def list_ex_iff)
    show ?thesis
    proof (cases "pinnable v")
      case False
      then show ?thesis using that w' v ToggleWindowPin by (auto simp: toggleWindowPin_def)
    next
      case True
      note t = toggle_pinned [OF v(1) True v(2)]
      obtain w where w: "find_window (windows s) i = Some w"
        "w' = at_id j (\<lambda>w. if pinned w \<noteq> None then withoutPin w else w\<lparr>pinned := display s v\<rparr>) w"
        using w' unfolding ToggleWindowPin act.simps t(1) by (subst (asm) find_map) (auto simp: at_id_def)
      have i: "w_id w = i" using find_window_Some [OF w(1)] by simp
      show ?thesis
      proof (cases "i = j")
        case True
        then have "w = v" using w(1) v(1) by simp
        then show ?thesis using that [OF w(1)] w(2) v(2) i True by (simp add: at_id_def withoutPin_def)
      next
        case False
        then show ?thesis using that [OF w(1)] w(2) i t(2,3) ToggleWindowPin by (simp add: at_id_def)
      qed
    qed
  next
    case UnpinAllWindows
    show ?thesis
    proof (cases "filter (\<lambda>w. pinned w \<noteq> None) (windows s) = []")
      case True
      then show ?thesis using that w' UnpinAllWindows by (simp add: unpinAllWindows_def)
    next
      case False
      then obtain w where w: "find_window (windows s) i = Some w" "w' = withoutPin w"
        using w' UnpinAllWindows by (auto simp: unpinAllWindows_def Let_def find_map)
      have "pinned w = None \<Longrightarrow> i \<notin> set (map w_id (filter (\<lambda>w. pinned w \<noteq> None) (windows s)))"
        using w(1) find_known [OF f(2)] by force
      then show ?thesis using that [OF w(1)] w(2) UnpinAllWindows False
        by (cases "pinned w") (auto simp: unpinned_id unpinAllWindows_def Let_def clearedChartRuntime_def withoutPin_def)
    qed
  qed (use a in simp_all)
  from cases show ?thesis
  proof
    assume "pinned w \<noteq> None \<and> pinned w' = None"
    then show ?thesis using find_window_Some [OF w] by (auto simp: just_unpinned_def has_window_def list_ex_iff)
  next
    assume "w' = w \<and> chartRuntime (act a s) i = chartRuntime s i \<and> groupSymbols (act a s) = groupSymbols s"
    then show ?thesis using fits_kept [OF f(1) w, of w "act a s"] by (simp add: display_def)
  qed
qed


lemma unpin_breaks_fit:
  assumes w: "find_window (windows s) i = Some w" "pinnable w" "pinned w \<noteq> None" "w_chart w = Some c"
    and tf: "symbolTimeframe (groupSymbols s (w_group w)) (chart_timeframe c) \<noteq> chart_timeframe c"
  shows "\<exists>w'. find_window (windows (act (ToggleWindowPin i) s)) i = Some w' \<and> \<not> window_fits (act (ToggleWindowPin i) s) i w'"
proof -
  note t = toggle_pinned [OF w(1-3)]
  have i: "w_id w = i" using find_window_Some [OF w(1)] by simp
  have "find_window (windows (toggleWindowPin i s)) i = Some (withoutPin w)"
    unfolding t(1) using w(1,3) i by (subst find_map) (simp_all add: at_id_def withoutPin_def)
  moreover have "\<not> window_fits (toggleWindowPin i s) i (withoutPin w)"
    using w(2,4) tf t(2) by (auto simp: window_fits_def withoutPin_def display_def windowSymbolOf_def pinnable_def)
  ultimately show ?thesis by simp
qed

lemma fresh_fitted: "fitted fresh"
proof -
  have "symbolTimeframe (display fresh w) tf = tf" if "w \<in> set (windows fresh)" for w tf
    using that by (auto simp: fresh_windows display_def windowSymbolOf_def symbolTimeframe_def)
      (simp_all add: fresh_def factory_def Let_def plain_window_def)
  then show ?thesis using find_window_Some
    by (fastforce simp: fitted_def window_fits_def runtime_of_def fresh_def split: option.split)
qed

text \<open>
  C13. Every action keeps charts on a timeframe their symbol has (no second bars of US prices, no captures
  outside minute bars, no second range on other bars); the one exception is a window that has just been
  unpinned, which is left on the timeframe of the symbol it was pinned to.
\<close>

theorem charts_fit_their_symbol:
  assumes "fitted s" "store_ok s" "action_ok a s" "find_window (windows (act a s)) i = Some w'"
  shows "window_fits (act a s) i w' \<or> unpins a s \<and> just_unpinned s i w'"
proof (cases "unpins a s")
  case True
  then show ?thesis using unpin_fits [OF assms(1,2,4)] by blast
next
  case False
  then show ?thesis using fitted_act [OF assms(1-3)] assms(4) by (simp add: fitted_def)
qed

theorem charts_fit_their_symbol_witness:
  "\<exists>w'. find_window (windows (act (PinWindowToSymbol ''0'' samsung) fresh)) ''0'' = Some w'
    \<and> window_fits (act (PinWindowToSymbol ''0'' samsung) fresh) ''0'' w'"
proof -
  obtain w' where w': "find_window (windows (act (PinWindowToSymbol ''0'' samsung) fresh)) ''0'' = Some w'"
    by (cases "has_window pinnable ''0'' fresh") (simp_all add: pinWindowToSymbol_def find_map at_id_def,
        simp_all add: fresh_windows find_window_def)
  then show ?thesis using charts_fit_their_symbol [OF fresh_fitted fresh_ok _ w'] samsung_ok by simp
qed

end
