(* ===== verification/LivePage.thy ===== *)
theory LivePage
  imports IndicatorLaws
begin

section \<open>The live page store\<close>

text \<open>
  \<open>useLivePageStore\<close> of \<open>state/livePage.ts\<close>: the active view (instrument, timeframe, loaded history),
  what of it is written and read back, and the pane layout setters. The indicator slice is the state of
  the theory on indicator scopes, held as a component.
\<close>

subsection \<open>Timeframes\<close>

definition baseFor :: "LiveTimeframe \<Rightarrow> LiveTimeframe" where
  "baseFor tf = (if tf = Day \<or> tf = Week \<or> tf = Month then tf else M1)"

fun bucketSeconds :: "LiveTimeframe \<Rightarrow> int option" where
  "bucketSeconds S1 = Some 1" | "bucketSeconds S5 = Some 5" | "bucketSeconds S10 = Some 10"
| "bucketSeconds S30 = Some 30" | "bucketSeconds M1 = Some 60" | "bucketSeconds M3 = Some 180"
| "bucketSeconds M5 = Some 300" | "bucketSeconds M10 = Some 600" | "bucketSeconds M15 = Some 900"
| "bucketSeconds M30 = Some 1800" | "bucketSeconds M60 = Some 3600" | "bucketSeconds M120 = Some 7200"
| "bucketSeconds M240 = Some 14400" | "bucketSeconds Day = None" | "bucketSeconds Week = None"
| "bucketSeconds Month = None"

definition needsRegularSessionClip :: "LiveTimeframe \<Rightarrow> bool" where
  "needsRegularSessionClip tf \<longleftrightarrow> tf \<in> {M120, M240}"

definition isCalendarTimeframe :: "LiveTimeframe \<Rightarrow> bool" where
  "isCalendarTimeframe tf \<longleftrightarrow> tf \<in> {Day, Week, Month}"

text \<open>The period asked of the vendor, for a minute timeframe.\<close>

definition fetchBucketMsFor :: "LiveTimeframe \<Rightarrow> bool \<Rightarrow> int option" where
  "fetchBucketMsFor tf regularOnly =
     (if regularOnly then Some 60000
      else if needsRegularSessionClip tf then Some 1800000
      else map_option ((*) 1000) (bucketSeconds tf))"

subsection \<open>State\<close>

record SavedRangeFocus =
  focus_viewId :: string
  focus_code :: string
  focus_label :: string
  focus_fromMs :: int
  focus_toMs :: int
  focus_fromDate :: string
  focus_toDate :: string
  focus_timeframe :: LiveTimeframe
  focus_barSpan :: rat
  focus_leftEdgeMs :: "int option"
  focus_dailyOnly :: "bool option"

record View =
  activeInstrument :: "LiveInstrument option"
  activeCode :: "string option"
  candleTimeframe :: LiveTimeframe
  minuteTimeframe :: LiveTimeframe
  historyFrom :: "string option"

record Page = View +
  minuteHistoryFrom :: "string option"
  minuteHistoryTimeframe :: "LiveTimeframe option"
  savedRangeFocus :: "SavedRangeFocus option"
  savedRangeRequestSeq :: nat
  indicators :: Indicators
  pageStorage :: "json option"

definition DEFAULTS :: View where
  "DEFAULTS = \<lparr>activeInstrument = None, activeCode = None, candleTimeframe = M1, minuteTimeframe = M1,
     historyFrom = None\<rparr>"

subsection \<open>Writing and reading\<close>

fun instrument_json :: "LiveInstrument \<Rightarrow> json" where
  "instrument_json (UsStock e s l) = JObj [(''kind'', JStr ''us_stock''), (''exchange'', JStr (exchange_text e)),
     (''symbol'', JStr s), (''label'', JStr l)]"
| "instrument_json (Stock c l) = JObj [(''kind'', JStr ''stock''), (''code'', JStr c), (''label'', JStr l)]"
| "instrument_json (Index i l) = JObj [(''kind'', JStr ''index''), (''id'', JStr i), (''label'', JStr l)]"

definition nullable :: "('a \<Rightarrow> json) \<Rightarrow> 'a option \<Rightarrow> json" where
  "nullable f v = (case v of Some x \<Rightarrow> f x | None \<Rightarrow> JNull)"

definition persistedPayload :: "'a View_scheme \<Rightarrow> json" where
  "persistedPayload v = JObj [(''activeInstrument'', nullable instrument_json (activeInstrument v)),
     (''activeCode'', nullable JStr (activeCode v)),
     (''candleTimeframe'', JStr (timeframe_text (candleTimeframe v))),
     (''lastMinuteTimeframe'', JStr (timeframe_text (minuteTimeframe v))),
     (''historicalFromDate'', nullable JStr (historyFrom v))]"

definition persistPage :: "Page \<Rightarrow> Page" where
  "persistPage s = s\<lparr>pageStorage := Some (persistedPayload s)\<rparr>"

text \<open>A member that is a string or null; otherwise it is undefined.\<close>

definition string_or_null :: "json option \<Rightarrow> string option option" where
  "string_or_null v = (case v of Some (JStr s) \<Rightarrow> Some (Some s) | Some JNull \<Rightarrow> Some None | _ \<Rightarrow> None)"

record PartialView =
  read_instrument :: "LiveInstrument option option"
  read_code :: "string option option"
  read_timeframe :: "LiveTimeframe option"
  read_minute :: "LiveTimeframe option"
  read_history :: "string option option"

definition stored_instrument :: "json \<Rightarrow> LiveInstrument option option" where
  "stored_instrument v = (case isLiveInstrument (member v ''activeInstrument'') of
     Some i \<Rightarrow> Some (Some i)
   | None \<Rightarrow> (case string_or_null (member v ''activeCode'') of
       Some (Some c) \<Rightarrow> if c \<noteq> [] then Some (Some (stockInstrument c None))
         else if member v ''activeInstrument'' = Some JNull then Some None else None
     | Some None \<Rightarrow> Some None
     | None \<Rightarrow> if member v ''activeInstrument'' = Some JNull then Some None else None))"

definition readPageStorage :: "json option \<Rightarrow> PartialView" where
  "readPageStorage raw = (let v = (case raw of Some v \<Rightarrow> v | None \<Rightarrow> JNull);
     tf = isLiveTimeframe (member v ''candleTimeframe''); i = stored_instrument v in
     \<lparr>read_instrument = i,
      read_code = (case string_or_null (member v ''activeCode'') of
        Some c \<Rightarrow> Some c | None \<Rightarrow> map_option instrumentToActiveCode i),
      read_timeframe = tf,
      read_minute = (case isMinuteFrameValue (member v ''lastMinuteTimeframe'') of
        Some t \<Rightarrow> Some t
      | None \<Rightarrow> (case tf of Some t \<Rightarrow> if isMinuteTimeframe t then Some t else None | None \<Rightarrow> None)),
      read_history = string_or_null (member v ''historicalFromDate'')\<rparr>)"

definition or_else :: "'a option \<Rightarrow> 'a \<Rightarrow> 'a" where "or_else v d = (case v of Some x \<Rightarrow> x | None \<Rightarrow> d)"

text \<open>\<open>{ ...DEFAULTS, ...readStorage() }\<close>.\<close>

definition merge_view :: "PartialView \<Rightarrow> View" where
  "merge_view p = \<lparr>activeInstrument = or_else (read_instrument p) (activeInstrument DEFAULTS),
     activeCode = or_else (read_code p) (activeCode DEFAULTS),
     candleTimeframe = or_else (read_timeframe p) (candleTimeframe DEFAULTS),
     minuteTimeframe = or_else (read_minute p) (minuteTimeframe DEFAULTS),
     historyFrom = or_else (read_history p) (historyFrom DEFAULTS)\<rparr>"

definition set_view :: "View \<Rightarrow> Page \<Rightarrow> Page" where
  "set_view v s = s\<lparr>activeInstrument := activeInstrument v, activeCode := activeCode v,
     candleTimeframe := candleTimeframe v, minuteTimeframe := minuteTimeframe v, historyFrom := historyFrom v\<rparr>"

definition on_indicators :: "(Indicators \<Rightarrow> Indicators) \<Rightarrow> Page \<Rightarrow> Page" where
  "on_indicators f s = s\<lparr>indicators := f (indicators s)\<rparr>"

definition hydratePage :: "Registry \<Rightarrow> Page \<Rightarrow> Page" where
  "hydratePage reg s =
     (let read = readPageStorage (pageStorage s); merged = merge_view read;
          minute = (case read_minute read of
            Some t \<Rightarrow> t
          | None \<Rightarrow> if isMinuteTimeframe (candleTimeframe merged) then candleTimeframe merged
              else minuteTimeframe DEFAULTS)
      in on_indicators (projectIndicatorsFor reg (candleTimeframe merged))
        (set_view (merged\<lparr>minuteTimeframe := minute\<rparr>) s))"

subsection \<open>The active view\<close>

text \<open>The arguments; an omitted one is \<open>None\<close>, null is \<open>Some None\<close>.\<close>

record ActiveViewProjection =
  to_instrument :: "LiveInstrument option option"
  to_code :: "string option"
  to_timeframe :: LiveTimeframe
  to_history :: "string option"
  to_minuteHistory :: "string option option"
  to_minuteTimeframe :: "LiveTimeframe option option"

definition projectActiveView :: "Registry \<Rightarrow> ActiveViewProjection \<Rightarrow> Page \<Rightarrow> Page" where
  "projectActiveView reg a s =
     (let tf = to_timeframe a;
          nextInstrument = (case to_instrument a of
            None \<Rightarrow> (case to_code a of Some c \<Rightarrow> if c = [] then None else Some (stockInstrument c None) | None \<Rightarrow> None)
          | Some i \<Rightarrow> i);
          next = s\<lparr>activeInstrument := nextInstrument,
            activeCode := (case to_instrument a of
              None \<Rightarrow> to_code a
            | Some i \<Rightarrow> if i = None \<and> to_code a = Some [] then Some [] else instrumentToActiveCode nextInstrument),
            candleTimeframe := tf,
            minuteTimeframe := (if isMinuteTimeframe tf then tf else minuteTimeframe s),
            historyFrom := to_history a,
            minuteHistoryFrom := (case to_minuteHistory a of
              Some d \<Rightarrow> d | None \<Rightarrow> if isMinuteTimeframe tf then to_history a else None),
            minuteHistoryTimeframe := (case to_minuteTimeframe a of
              Some t \<Rightarrow> t
            | None \<Rightarrow> if to_minuteHistory a \<noteq> None then None
                else if isMinuteTimeframe tf \<and> to_history a \<noteq> None then Some tf else None)\<rparr>
      in persistPage (on_indicators (projectIndicatorsFor reg tf) next))"

definition setActiveCode :: "string option \<Rightarrow> Page \<Rightarrow> Page" where
  "setActiveCode code s = persistPage (s\<lparr>
     activeInstrument := (case code of Some c \<Rightarrow> if c = [] then None else Some (stockInstrument c None) | None \<Rightarrow> None),
     activeCode := code, historyFrom := None, minuteHistoryFrom := None, minuteHistoryTimeframe := None\<rparr>)"

definition extendHistoricalRange :: "string \<Rightarrow> Page \<Rightarrow> Page" where
  "extendHistoricalRange d s = (case historyFrom s of
     Some c \<Rightarrow> if c \<le> d then s else persistPage (s\<lparr>historyFrom := Some d\<rparr>)
   | None \<Rightarrow> persistPage (s\<lparr>historyFrom := Some d\<rparr>))"

text \<open>Contracting does not write.\<close>

definition contractHistoricalRange :: "string \<Rightarrow> Page \<Rightarrow> Page" where
  "contractHistoricalRange d s = (case historyFrom s of
     Some c \<Rightarrow> if d \<le> c then s else s\<lparr>historyFrom := Some d\<rparr>
   | None \<Rightarrow> s)"

definition resetHistoricalRange :: "Page \<Rightarrow> Page" where
  "resetHistoricalRange s = persistPage (s\<lparr>historyFrom := None, minuteHistoryFrom := None,
     minuteHistoryTimeframe := None\<rparr>)"

definition focusSavedRange :: "SavedRangeFocus option \<Rightarrow> Page \<Rightarrow> Page" where
  "focusSavedRange f s = s\<lparr>savedRangeFocus := f, savedRangeRequestSeq := Suc (savedRangeRequestSeq s)\<rparr>"

definition clearSavedRange :: "Page \<Rightarrow> Page" where
  "clearSavedRange s = s\<lparr>savedRangeFocus := None\<rparr>"

definition setIndicatorTimeframe :: "Registry \<Rightarrow> LiveTimeframe \<Rightarrow> Page \<Rightarrow> Page" where
  "setIndicatorTimeframe reg tf = on_indicators (projectIndicatorsFor reg tf)"

subsection \<open>Pane layout setters\<close>

definition stretch_json :: "(string \<times> rat) list \<Rightarrow> json" where
  "stretch_json m = JObj (map (\<lambda>(k, v). (k, JNum v)) m)"

definition axis_mode_text :: "PaneAxisMode \<Rightarrow> string" where
  "axis_mode_text m = (case m of Shared \<Rightarrow> ''shared'' | Isolated \<Rightarrow> ''isolated'' | LeftAxis \<Rightarrow> ''left'')"

definition axis_json :: "(string \<times> PaneAxisMode) list \<Rightarrow> json" where
  "axis_json m = JObj (map (\<lambda>(k, v). (k, JStr (axis_mode_text v))) m)"

text \<open>\<open>state/paneStretchByTimeframe.ts\<close>: every profile gets a bucket, its own or the old global one.\<close>

definition normalizePaneStretchByTimeframe :: "(ProfileKey \<Rightarrow> json option) \<Rightarrow> json \<Rightarrow> ProfileKey \<rightharpoonup> (string \<times> rat) list" where
  "normalizePaneStretchByTimeframe raw legacy = (\<lambda>k. Some (case raw k of
     None \<Rightarrow> normalizePaneStretch legacy | Some b \<Rightarrow> normalizePaneStretch b))"

definition normalizePaneGroupStretchByTimeframe ::
    "(ProfileKey \<Rightarrow> json option) \<Rightarrow> json \<Rightarrow> PaneGroups \<Rightarrow> ProfileKey \<rightharpoonup> (string \<times> rat) list" where
  "normalizePaneGroupStretchByTimeframe raw legacy groups = (\<lambda>k. Some (case raw k of
     None \<Rightarrow> normalizePaneGroupStretch legacy groups | Some b \<Rightarrow> normalizePaneGroupStretch b groups))"

definition stretch_buckets :: "(ProfileKey \<rightharpoonup> (string \<times> rat) list) \<Rightarrow> ProfileKey \<Rightarrow> json option" where
  "stretch_buckets m k = map_option stretch_json (m k)"

text \<open>The overrides that still match a group.\<close>

definition keep_overrides :: "PaneGroups \<Rightarrow> 'a Indicators_scheme \<Rightarrow> 'a Indicators_scheme" where
  "keep_overrides groups s = s\<lparr>
     paneAxisMode := normalizePaneAxisMode (axis_json (paneAxisMode s)) groups,
     paneGroupStretch := normalizePaneGroupStretch (stretch_json (paneGroupStretch s)) groups,
     paneGroupStretchByTimeframe := normalizePaneGroupStretchByTimeframe
       (stretch_buckets (paneGroupStretchByTimeframe s)) (stretch_json (paneGroupStretch s)) groups\<rparr>"

definition setPaneOrder :: "json \<Rightarrow> 'a Indicators_scheme \<Rightarrow> 'a Indicators_scheme" where
  "setPaneOrder order s =
     (let normalized = normalizePaneOrder order; groups = paneGroupsFromOrder normalized in
      persistIndicators ((keep_overrides groups s)\<lparr>paneOrder := normalized, paneGroups := groups\<rparr>))"

definition groups_json :: "PaneGroups \<Rightarrow> json" where
  "groups_json gs = JArr (map (\<lambda>g. JArr (map JStr g)) gs)"

definition setPaneGroups :: "PaneGroups \<Rightarrow> 'a Indicators_scheme \<Rightarrow> 'a Indicators_scheme" where
  "setPaneGroups gs s =
     (let normalized = normalizePaneGroups (groups_json gs) in
      persistIndicators ((keep_overrides normalized s)\<lparr>paneGroups := normalized,
        paneOrder := flattenPaneGroups normalized\<rparr>))"

definition setPaneAxisMode :: "string list \<Rightarrow> PaneAxisMode \<Rightarrow> 'a Indicators_scheme \<Rightarrow> 'a Indicators_scheme" where
  "setPaneAxisMode members m s =
     (if length members \<le> 1 then s
      else persistIndicators (s\<lparr>paneAxisMode := AList.update (paneGroupKey members) m (paneAxisMode s)\<rparr>))"

definition updates :: "(string \<times> rat) list \<Rightarrow> (string \<times> rat) list \<Rightarrow> (string \<times> rat) list" where
  "updates patch m = fold (\<lambda>(k, v). AList.update k v) patch m"

definition setPaneGroupStretch :: "string list \<Rightarrow> rat \<Rightarrow> LiveTimeframe \<Rightarrow> 'a Indicators_scheme \<Rightarrow> 'a Indicators_scheme" where
  "setPaneGroupStretch members factor tf s =
     (if length members \<le> 1 \<or> factor \<le> 0 then s
      else let b = normalizePaneGroupStretch
             (stretch_json (AList.update (paneGroupKey members) factor (profile_bucket (paneGroupStretchByTimeframe s) tf)))
             (paneGroups s)
        in persistIndicators (s\<lparr>
          paneGroupStretchByTimeframe := (paneGroupStretchByTimeframe s)(profileKeyForTimeframe tf \<mapsto> b),
          paneGroupStretch := (if ambient tf s then b else paneGroupStretch s)\<rparr>))"

definition setPaneStretch :: "(string \<times> rat) list \<Rightarrow> LiveTimeframe \<Rightarrow> 'a Indicators_scheme \<Rightarrow> 'a Indicators_scheme" where
  "setPaneStretch patch tf s =
     (let b = normalizePaneStretch (stretch_json (updates patch (profile_bucket (paneStretchByTimeframe s) tf)))
      in persistIndicators (s\<lparr>
        paneStretchByTimeframe := (paneStretchByTimeframe s)(profileKeyForTimeframe tf \<mapsto> b),
        paneStretch := (if ambient tf s then b else paneStretch s)\<rparr>))"

definition setPaneLayoutStretch ::
    "(string \<times> rat) list \<Rightarrow> (string \<times> rat) list \<Rightarrow> LiveTimeframe \<Rightarrow> 'a Indicators_scheme \<Rightarrow> 'a Indicators_scheme" where
  "setPaneLayoutStretch panePatch groupPatch tf s =
     (let b = normalizePaneStretch (stretch_json (updates panePatch (profile_bucket (paneStretchByTimeframe s) tf)));
          g = normalizePaneGroupStretch
            (stretch_json (updates groupPatch (profile_bucket (paneGroupStretchByTimeframe s) tf))) (paneGroups s)
      in persistIndicators (s\<lparr>
        paneStretchByTimeframe := (paneStretchByTimeframe s)(profileKeyForTimeframe tf \<mapsto> b),
        paneGroupStretchByTimeframe := (paneGroupStretchByTimeframe s)(profileKeyForTimeframe tf \<mapsto> g),
        paneStretch := (if ambient tf s then b else paneStretch s),
        paneGroupStretch := (if ambient tf s then g else paneGroupStretch s)\<rparr>))"

subsection \<open>The view stays well formed and survives a reload\<close>

text \<open>
  The last minute timeframe is one; an instrument is one the storage reader accepts, with its code; without
  an instrument there is no code.
\<close>

definition view_ok :: "'a View_scheme \<Rightarrow> bool" where
  "view_ok v \<longleftrightarrow> isMinuteTimeframe (minuteTimeframe v)
     \<and> (case activeInstrument v of
          Some i \<Rightarrow> isLiveInstrument (Some (instrument_json i)) = Some i \<and> activeCode v = instrumentToActiveCode (Some i)
        | None \<Rightarrow> activeCode v = None \<or> activeCode v = Some [])"

definition view_of :: "'a View_scheme \<Rightarrow> View" where
  "view_of v = \<lparr>activeInstrument = activeInstrument v, activeCode = activeCode v, candleTimeframe = candleTimeframe v,
     minuteTimeframe = minuteTimeframe v, historyFrom = historyFrom v\<rparr>"

lemma payload_members [simp]:
  "member (persistedPayload v) ''activeInstrument'' = Some (nullable instrument_json (activeInstrument v))"
  "member (persistedPayload v) ''activeCode'' = Some (nullable JStr (activeCode v))"
  "member (persistedPayload v) ''candleTimeframe'' = Some (JStr (timeframe_text (candleTimeframe v)))"
  "member (persistedPayload v) ''lastMinuteTimeframe'' = Some (JStr (timeframe_text (minuteTimeframe v)))"
  "member (persistedPayload v) ''historicalFromDate'' = Some (nullable JStr (historyFrom v))"
  by (simp_all add: persistedPayload_def)

lemma string_or_null_written [simp]: "string_or_null (Some (nullable JStr v)) = Some v"
  by (simp add: string_or_null_def nullable_def split: option.split)

lemma isLiveInstrument_null [simp]: "isLiveInstrument (Some JNull) = None"
  by (simp add: isLiveInstrument_def member_def Let_def)

lemma stored_instrument_written: "view_ok v \<Longrightarrow> stored_instrument (persistedPayload v) = Some (activeInstrument v)"
  by (cases "activeInstrument v") (auto simp: stored_instrument_def view_ok_def nullable_def string_or_null_def)

lemma merge_written: "view_ok v \<Longrightarrow> merge_view (readPageStorage (Some (persistedPayload v))) = view_of v"
  using stored_instrument_written [of v]
  by (simp add: merge_view_def readPageStorage_def Let_def view_of_def or_else_def view_ok_def)

lemma read_minute_written: "view_ok v \<Longrightarrow> read_minute (readPageStorage (Some (persistedPayload v))) = Some (minuteTimeframe v)"
  by (simp add: readPageStorage_def Let_def view_ok_def)

text \<open>What another part of the program can do to the view.\<close>

datatype PageAction =
    ProjectView ActiveViewProjection
  | SetActiveCode "string option"
  | ExtendRange string
  | ContractRange string
  | ResetRange
  | FocusSavedRange "SavedRangeFocus option"
  | ClearSavedRange
  | HydratePage

fun page_act :: "Registry \<Rightarrow> PageAction \<Rightarrow> Page \<Rightarrow> Page" where
  "page_act reg (ProjectView a) s = projectActiveView reg a s"
| "page_act reg (SetActiveCode c) s = setActiveCode c s"
| "page_act reg (ExtendRange d) s = extendHistoricalRange d s"
| "page_act reg (ContractRange d) s = contractHistoricalRange d s"
| "page_act reg ResetRange s = resetHistoricalRange s"
| "page_act reg (FocusSavedRange f) s = focusSavedRange f s"
| "page_act reg ClearSavedRange s = clearSavedRange s"
| "page_act reg HydratePage s = hydratePage reg s"

text \<open>The instruments passed in are ones the types describe.\<close>

fun page_action_ok :: "PageAction \<Rightarrow> bool" where
  "page_action_ok (ProjectView a) \<longleftrightarrow>
     pred_option (pred_option (\<lambda>i. isLiveInstrument (Some (instrument_json i)) = Some i)) (to_instrument a)"
| "page_action_ok _ \<longleftrightarrow> True"

lemma stock_readable: "isLiveInstrument (Some (instrument_json (stockInstrument c l))) = Some (stockInstrument c l)"
  by (simp add: stockInstrument_def isLiveInstrument_def Let_def)

lemma stock_code: "instrumentToActiveCode (Some (stockInstrument c l)) = Some c"
  by (simp add: stockInstrument_def)

lemma view_ok_persist [simp]: "view_ok (persistPage s) = view_ok s" "view_ok (on_indicators f s) = view_ok s"
  by (simp_all add: view_ok_def persistPage_def on_indicators_def cong: option.case_cong)

lemma view_ok_of [simp]: "view_ok (view_of v) = view_ok v"
  by (simp add: view_ok_def view_of_def cong: option.case_cong)

lemma view_ok_history [simp]: "view_ok (s\<lparr>historyFrom := d\<rparr>) = view_ok s"
  by (simp add: view_ok_def cong: option.case_cong)

text \<open>The start of the loaded history that is stored is the current one, or an earlier one.\<close>

definition earlier :: "string option \<Rightarrow> string option \<Rightarrow> bool" where
  "earlier d e \<longleftrightarrow> d = e \<or> (\<exists>a b. d = Some a \<and> e = Some b \<and> a \<le> b)"

definition lags :: "Page \<Rightarrow> bool" where
  "lags s \<longleftrightarrow> (case pageStorage s of
     None \<Rightarrow> view_of s = DEFAULTS
   | Some v \<Rightarrow> \<exists>d. v = persistedPayload (s\<lparr>historyFrom := d\<rparr>) \<and> earlier d (historyFrom s))"

definition page_ok :: "Page \<Rightarrow> bool" where "page_ok s \<longleftrightarrow> view_ok s \<and> lags s"

lemma earlier_refl [simp]: "earlier d d"
  by (simp add: earlier_def)

lemma lags_at:
  assumes "pageStorage s = Some v" "v = persistedPayload (s\<lparr>historyFrom := d\<rparr>)" "earlier d (historyFrom s)"
  shows "lags s"
  unfolding lags_def assms(1) option.case using assms(2,3) by blast

lemma lags_persist [simp]: "lags (persistPage s)"
  by (rule lags_at [where d = "historyFrom s"]) (simp_all add: persistPage_def persistedPayload_def)

lemma lags_cong: "view_of t = view_of s \<Longrightarrow> pageStorage t = pageStorage s \<Longrightarrow> lags t = lags s"
  by (simp add: lags_def view_of_def persistedPayload_def cong: option.case_cong)

lemma persist_storage [simp]: "pageStorage (on_indicators f s) = pageStorage s" "view_of (on_indicators f s) = view_of s"
  by (simp_all add: on_indicators_def view_of_def)

lemma page_ok_persist: "view_ok s \<Longrightarrow> page_ok (persistPage s)"
  by (simp add: page_ok_def)

lemma payload_cong: "view_of a = view_of b \<Longrightarrow> persistedPayload a = persistedPayload b"
  by (simp add: view_of_def persistedPayload_def)

lemma view_ok_cong: "view_of a = view_of b \<Longrightarrow> view_ok a = view_ok b"
  using view_ok_of [of a] view_ok_of [of b] by simp

text \<open>What hydration reads.\<close>

lemma hydrated:
  assumes "page_ok s"
  shows "\<exists>d. view_of (hydratePage reg s) = (view_of s)\<lparr>historyFrom := d\<rparr> \<and> earlier d (historyFrom s)
    \<and> (case pageStorage s of None \<Rightarrow> view_of (hydratePage reg s) = DEFAULTS
       | Some v \<Rightarrow> v = persistedPayload (hydratePage reg s))"
proof -
  have set: "view_of (on_indicators f (set_view v s)) = v" for f v by (simp add: set_view_def view_of_def on_indicators_def)
  show ?thesis
  proof (cases "pageStorage s")
    case None
    have "merge_view (readPageStorage None) = DEFAULTS" "read_minute (readPageStorage None) = None"
      by (simp_all add: readPageStorage_def merge_view_def stored_instrument_def string_or_null_def
          isLiveInstrument_def member_def or_else_def DEFAULTS_def Let_def)
    then have "view_of (hydratePage reg s) = DEFAULTS"
      by (simp add: hydratePage_def None Let_def set) (simp add: DEFAULTS_def set_view_def view_of_def)
    moreover have "view_of s = DEFAULTS" "DEFAULTS = DEFAULTS\<lparr>historyFrom := None\<rparr>" "historyFrom s = historyFrom (view_of s)"
      using assms None by (simp_all add: page_ok_def lags_def DEFAULTS_def view_of_def)
    ultimately show ?thesis using None by (auto simp: earlier_def DEFAULTS_def)
  next
    case (Some v)
    then obtain d where d: "v = persistedPayload (s\<lparr>historyFrom := d\<rparr>)" "earlier d (historyFrom s)"
      using assms by (auto simp: page_ok_def lags_def)
    have ok: "view_ok (s\<lparr>historyFrom := d\<rparr>)" using assms by (simp add: page_ok_def)
    have h: "view_of (hydratePage reg s) = view_of (s\<lparr>historyFrom := d\<rparr>)"
      by (simp add: hydratePage_def Some d(1) merge_written [OF ok] read_minute_written [OF ok] Let_def set)
        (simp add: view_of_def set_view_def)
    moreover have "view_of (s\<lparr>historyFrom := d\<rparr>) = (view_of s)\<lparr>historyFrom := d\<rparr>" by (simp add: view_of_def)
    ultimately show ?thesis using d payload_cong [OF h] Some by auto
  qed
qed

lemma page_ok_hydrate:
  assumes s: "page_ok s" shows "page_ok (hydratePage reg s)"
proof -
  let ?h = "hydratePage reg s"
  obtain d where d: "view_of ?h = (view_of s)\<lparr>historyFrom := d\<rparr>"
    and st: "case pageStorage s of None \<Rightarrow> view_of ?h = DEFAULTS | Some v \<Rightarrow> v = persistedPayload ?h"
    using hydrated [OF s] by blast
  have "view_of ?h = view_of (s\<lparr>historyFrom := d\<rparr>)" using d by (simp add: view_of_def)
  then have "view_ok ?h" using view_ok_cong s by (metis page_ok_def view_ok_history)
  moreover have "pageStorage ?h = pageStorage s" by (simp add: hydratePage_def Let_def set_view_def)
  moreover have "lags ?h"
  proof (cases "pageStorage s")
    case None
    then show ?thesis using st calculation by (simp add: lags_def)
  next
    case (Some v)
    then show ?thesis using st calculation by (intro lags_at [where d = "historyFrom ?h"]) simp_all
  qed
  ultimately show ?thesis by (simp add: page_ok_def)
qed

lemma view_ok_project:
  assumes "view_ok s" "page_action_ok (ProjectView a)"
  shows "view_ok (projectActiveView reg a s)"
proof -
  have m: "isMinuteTimeframe (minuteTimeframe s)" using assms(1) by (simp add: view_ok_def)
  show ?thesis
  proof (cases "to_instrument a")
    case None
    then show ?thesis using m
      by (cases "to_code a") (simp_all add: projectActiveView_def Let_def, simp_all add: view_ok_def stock_readable stock_code)
  next
    case (Some i)
    then show ?thesis using m assms(2)
      by (cases i) (simp_all add: projectActiveView_def Let_def, simp_all add: view_ok_def)
  qed
qed

lemma page_ok_act: "page_ok s \<Longrightarrow> page_action_ok a \<Longrightarrow> page_ok (page_act reg a s)"
proof (cases a)
  case (ProjectView v)
  assume "page_ok s" "page_action_ok a"
  then have "view_ok (projectActiveView reg v s)" using ProjectView by (simp add: view_ok_project page_ok_def)
  moreover have "lags (projectActiveView reg v s)" by (simp add: projectActiveView_def Let_def)
  ultimately show ?thesis using ProjectView by (simp add: page_ok_def)
next
  case (SetActiveCode c)
  assume "page_ok s"
  then have "view_ok (setActiveCode c s)"
    unfolding setActiveCode_def by (cases c) (simp_all, simp_all add: page_ok_def view_ok_def stock_readable stock_code)
  then show ?thesis using SetActiveCode by (simp add: page_ok_def) (simp add: setActiveCode_def)
next
  case (ExtendRange d)
  assume "page_ok s"
  then show ?thesis using ExtendRange
    by (auto simp: extendHistoricalRange_def page_ok_def split: option.splits)
next
  case (ContractRange d)
  assume s: "page_ok s"
  have "lags (s\<lparr>historyFrom := Some d\<rparr>)" if c: "historyFrom s = Some c" "c < d" for c
  proof -
    obtain v e where v: "pageStorage s = Some v" "v = persistedPayload (s\<lparr>historyFrom := e\<rparr>)" "earlier e (Some c)"
      using s c by (cases "pageStorage s") (auto simp: page_ok_def lags_def view_of_def DEFAULTS_def)
    then have "earlier e (Some d)" using c(2) by (auto simp: earlier_def)
    then show ?thesis using v by (auto simp: lags_def)
  qed
  then show ?thesis using s ContractRange
    by (auto simp: contractHistoricalRange_def page_ok_def not_le split: option.splits)
next
  case ResetRange
  assume "page_ok s"
  then show ?thesis using ResetRange
    by (simp add: resetHistoricalRange_def page_ok_def) (simp add: view_ok_def cong: option.case_cong)
next
  case (FocusSavedRange f)
  assume "page_ok s"
  then show ?thesis using FocusSavedRange lags_cong [of "focusSavedRange f s" s]
    by (simp add: page_ok_def focusSavedRange_def view_of_def view_ok_def cong: option.case_cong)
next
  case ClearSavedRange
  assume "page_ok s"
  then show ?thesis using ClearSavedRange lags_cong [of "clearSavedRange s" s]
    by (simp add: page_ok_def clearSavedRange_def view_of_def view_ok_def cong: option.case_cong)
next
  case HydratePage
  assume "page_ok s"
  then show ?thesis using HydratePage by (simp add: page_ok_hydrate)
qed

text \<open>
  C38. Whatever is done to the live page, a reload gives back the same view: instrument, code, timeframe
  and last minute timeframe; only a history that was contracted comes back at the earlier start it was
  stored with, never at a later one.
\<close>

theorem page_reload:
  assumes "page_ok s" "list_all page_action_ok as" and t: "t = fold (page_act reg) as s"
  shows "\<exists>d. view_of (hydratePage reg t) = (view_of t)\<lparr>historyFrom := d\<rparr> \<and> earlier d (historyFrom t)"
proof -
  have "page_ok t" unfolding t using assms(1,2)
    by (induction as arbitrary: s) (simp_all add: page_ok_act)
  then show ?thesis using hydrated by blast
qed


definition new_page :: Page where
  "new_page = \<lparr>activeInstrument = None, activeCode = None, candleTimeframe = M1, minuteTimeframe = M1, historyFrom = None,
     minuteHistoryFrom = None, minuteHistoryTimeframe = None, savedRangeFocus = None, savedRangeRequestSeq = 0,
     indicators = new_indicators, pageStorage = None\<rparr>"

lemma new_page_ok: "page_ok new_page"
  by (simp add: new_page_def page_ok_def view_ok_def lags_def view_of_def DEFAULTS_def isMinuteTimeframe_def)

theorem page_reload_witness:
  "\<exists>d. view_of (hydratePage plain_registry (fold (page_act plain_registry)
        [SetActiveCode (Some ''005930''), ExtendRange ''2026-01-02'', ContractRange ''2026-02-02''] new_page))
      = (view_of (fold (page_act plain_registry)
        [SetActiveCode (Some ''005930''), ExtendRange ''2026-01-02'', ContractRange ''2026-02-02''] new_page))\<lparr>historyFrom := d\<rparr>
    \<and> earlier d (historyFrom (fold (page_act plain_registry)
        [SetActiveCode (Some ''005930''), ExtendRange ''2026-01-02'', ContractRange ''2026-02-02''] new_page))"
  by (rule page_reload [OF new_page_ok _ refl]) simp

end
