(* ===== verification/Navigation.thy ===== *)
theory Navigation
  imports WorkspaceRuns LivePage
begin

section \<open>Navigation: commands over several stores\<close>

text \<open>
  The commands that drive the workspace from outside: \<open>live/liveNavigate.ts\<close> (activating an
  instrument, the mirror of the focused symbol on the live page), the openers of
  \<open>live/workspace/*Navigation.ts\<close> and \<open>studyViews/openSavedRange.ts\<close>. Each is a
  composition of workspace actions; the ids of new windows are arguments.
\<close>

subsection \<open>live/liveNavigate.ts\<close>

record App =
  app_store :: Store
  app_page :: Page

fun toGroupSymbol :: "LiveInstrument \<Rightarrow> GroupSymbol" where
  "toGroupSymbol (UsStock e s l) = \<lparr>sym_code = usStockKey e s, sym_name = l, sym_kind = Some UsStockSymbol\<rparr>"
| "toGroupSymbol (Index i l) = \<lparr>sym_code = i, sym_name = l, sym_kind = Some IndexSymbol\<rparr>"
| "toGroupSymbol (Stock c l) = \<lparr>sym_code = c, sym_name = l, sym_kind = None\<rparr>"

definition plain_projection :: "LiveInstrument option \<Rightarrow> LiveTimeframe \<Rightarrow> ActiveViewProjection" where
  "plain_projection i tf = \<lparr>to_instrument = Some i, to_code = Some (or_else (instrumentToActiveCode i) []),
     to_timeframe = tf, to_history = None, to_minuteHistory = Some None, to_minuteTimeframe = Some None\<rparr>"

text \<open>The tail of an activation that was not blocked: the saved range of another symbol is released.\<close>

definition show_on_page :: "Registry \<Rightarrow> LiveInstrument \<Rightarrow> Page \<Rightarrow> Page" where
  "show_on_page reg i page =
     (let tf = (if isUsInstrument (Some i) then usChartTimeframe (candleTimeframe page) else candleTimeframe page);
          cleared = (case savedRangeFocus page of
            Some f \<Rightarrow> if instrumentToActiveCode (Some i) \<noteq> Some (focus_code f) then clearSavedRange page else page
          | None \<Rightarrow> page)
      in projectActiveView reg (plain_projection (Some i) tf) cleared)"

definition activateLiveInstrument :: "Registry \<Rightarrow> LiveInstrument \<Rightarrow> App \<Rightarrow> App" where
  "activateLiveInstrument reg i a =
     (let ws = app_store a; symbol = toGroupSymbol i in
      case activationTarget ws of
        ActivationBlocked \<Rightarrow> a\<lparr>app_store := reportBlockedActivation (sym_name symbol) ws\<rparr>
      | ActivateWindow w \<Rightarrow> a\<lparr>app_store := focusWindow (w_id w) (setGroupSymbol (of_nat (w_group w)) symbol ws),
          app_page := show_on_page reg i (app_page a)\<rparr>
      | ActivateEmpty g \<Rightarrow> a\<lparr>app_store := setGroupSymbol (of_nat g) symbol ws,
          app_page := show_on_page reg i (app_page a)\<rparr>)"

definition code_instrument :: "string \<Rightarrow> string option \<Rightarrow> LiveInstrument" where
  "code_instrument code label = (case usStockFromKey code label of
     Some i \<Rightarrow> i | None \<Rightarrow> stockInstrument code label)"

definition activateLiveCode :: "Registry \<Rightarrow> string \<Rightarrow> string option \<Rightarrow> App \<Rightarrow> App" where
  "activateLiveCode reg code label = activateLiveInstrument reg (code_instrument code label)"

text \<open>The decoded parameters of \<open>liveDeepLinkPath\<close>.\<close>

fun liveDeepLinkQuery :: "LiveInstrument \<Rightarrow> (string \<times> string) list" where
  "liveDeepLinkQuery (UsStock e s l) = [(''market'', ''US''), (''exchange'', exchange_text e), (''symbol'', s)]"
| "liveDeepLinkQuery (Index i l) = [(''index'', i)]"
| "liveDeepLinkQuery (Stock c l) = [(''code'', c)]"

text \<open>The new tab is staged at a time under an id; the URL it opens is the query.\<close>

definition openLiveInNewTab :: "rat \<Rightarrow> string \<Rightarrow> Store \<Rightarrow> Store" where
  "openLiveInNewTab now tabId s = s\<lparr>the_tab := (the_tab s)\<lparr>sharedStorage :=
     stageWorkspaceTransfer now tabId (transfer_snapshot s (pendingNormalize s)) (sharedStorage (the_tab s))\<rparr>\<rparr>"

definition symbol_instrument :: "GroupSymbol \<Rightarrow> LiveInstrument option" where
  "symbol_instrument y = (case sym_kind y of
     Some UsStockSymbol \<Rightarrow> usStockFromKey (sym_code y) (Some (sym_name y))
   | Some IndexSymbol \<Rightarrow> if isLiveIndexId (sym_code y) then Some (indexInstrument (sym_code y) (Some (sym_name y))) else None
   | _ \<Rightarrow> Some (stockInstrument (sym_code y) (Some (sym_name y))))"

definition mirrorActiveGroupToLivePage :: "Registry \<Rightarrow> GroupSymbol option \<Rightarrow> LiveTimeframe \<Rightarrow> Page \<Rightarrow> Page" where
  "mirrorActiveGroupToLivePage reg symbol tf page =
     (let i = Option.bind symbol symbol_instrument in
      if or_else (activeCode page) [] = or_else (instrumentToActiveCode i) []
        \<and> map_option instrumentToSubjectKey (activeInstrument page) = map_option instrumentToSubjectKey i
        \<and> candleTimeframe page = tf
      then page else projectActiveView reg (plain_projection i tf) page)"

subsection \<open>Openers\<close>

definition domestic :: "GroupSymbol \<Rightarrow> bool" where
  "domestic y \<longleftrightarrow> sym_kind y \<noteq> Some IndexSymbol \<and> sym_kind y \<noteq> Some UsStockSymbol"

text \<open>The topmost window (by the order of the ids) with a property.\<close>

definition top_id :: "(WorkspaceWindow \<Rightarrow> bool) \<Rightarrow> Store \<Rightarrow> string option" where
  "top_id P s = find (\<lambda>i. case find_window (windows s) i of Some w \<Rightarrow> P w | None \<Rightarrow> False) (rev (zOrder s))"

definition second_target :: "Store \<Rightarrow> WorkspaceWindow \<Rightarrow> string \<Rightarrow> WorkspaceWindow \<Rightarrow> bool" where
  "second_target s source code w \<longleftrightarrow> w_id w \<noteq> w_id source \<and> w_kind w = ChartWindow \<and> w_group w = w_group source
     \<and> (case w_chart w of Some c \<Rightarrow> isSecondTimeframe (chart_timeframe c) | None \<Rightarrow> False) \<and> shown_code s w = Some code"

text \<open>A new seconds window in the group of the source, pinned when the group shows another symbol.\<close>

definition new_second_chart ::
    "string \<Rightarrow> (string \<times> json) list \<Rightarrow> SecondTimeframeViewport option \<Rightarrow> WorkspaceWindow \<Rightarrow> GroupSymbol \<Rightarrow> Store \<Rightarrow> Store" where
  "new_second_chart i capture captured source symbol s =
     (let t = setChartTimeframe capture captured i S5 (setWindowGroup i (of_nat (w_group source))
            (addWindow i ChartWindow (focusWindow (w_id source) s)))
      in if map_option sym_code (groupSymbols s (w_group source)) \<noteq> Some (sym_code symbol)
         then pinWindowToSymbol i symbol t else t)"

definition openSecondChartRange ::
    "int \<Rightarrow> string \<Rightarrow> (string \<times> json) list \<Rightarrow> SecondTimeframeViewport option \<Rightarrow> string \<Rightarrow> int \<Rightarrow> int \<Rightarrow> Store
      \<Rightarrow> string option \<times> Store" where
  "openSecondChartRange now i capture captured sourceId fromMs toMs s =
     (case window_with (of_kind ChartWindow) sourceId s of
        None \<Rightarrow> (None, s)
      | Some source \<Rightarrow> (case display s source of
          None \<Rightarrow> (None, s)
        | Some symbol \<Rightarrow>
            (let from = min fromMs toMs; to = max fromMs toMs in
             if \<not> domestic symbol \<or> now < to \<or> from < 0 then (None, s)
             else (case top_id (second_target s source (sym_code symbol)) s of
                 Some j \<Rightarrow> (Some j, focusWindow j (setSecondChartRange j (Some (of_int from, of_int to)) s))
               | None \<Rightarrow> (Some i, focusWindow i (setSecondChartRange i (Some (of_int from, of_int to))
                   (new_second_chart i capture captured source symbol s)))))))"

record SecondRangeQuery =
  query_date :: ymd
  query_fromMs :: int
  query_endMs :: int

text \<open>The end of the Korean day of the range bounds the query.\<close>

definition secondRangeQuery :: "int \<Rightarrow> int \<Rightarrow> int \<Rightarrow> SecondRangeQuery option" where
  "secondRangeQuery fromMs toMs seconds =
     (let d = realMsToYyyymmdd toMs; step = seconds * 1000 in
      map_option (\<lambda>m. \<lparr>query_date = d, query_fromMs = fromMs div step * step,
        query_endMs = min (m - kst_offset + 86400000) (toMs div step * step + step)\<rparr>) (utcMidnightMs d))"

definition openTradeWindow :: "string \<Rightarrow> string \<Rightarrow> Store \<Rightarrow> string option \<times> Store" where
  "openTradeWindow i sourceId s =
     (case window_with (\<lambda>w. w_kind w = BookWindow \<or> w_kind w = OrderWindow) sourceId s of
        None \<Rightarrow> (None, s)
      | Some source \<Rightarrow> (case display s source of
          None \<Rightarrow> (None, s)
        | Some symbol \<Rightarrow>
            if \<not> domestic symbol then (None, s)
            else (case top_id (\<lambda>w. w_kind w = TradeWindow \<and> w_group w = w_group source
                    \<and> shown_code s w = Some (sym_code symbol)) s of
                Some j \<Rightarrow> (Some j, focusWindow j s)
              | None \<Rightarrow>
                  (let t = setWindowGroup i (of_nat (w_group source))
                         (addWindow i TradeWindow (focusWindow (w_id source) s));
                       u = (if pinned source \<noteq> None then pinWindowToSymbol i symbol t else t)
                   in (Some i, focusWindow i u)))))"

datatype Opened = InWindow string | InNewTab LiveInstrument

definition plain_symbol :: "string \<Rightarrow> string \<Rightarrow> GroupSymbol" where
  "plain_symbol code name = \<lparr>sym_code = code, sym_name = name, sym_kind = None\<rparr>"

text \<open>The chart opened before, if it is still one this ranking may replace.\<close>

definition reusable :: "Store \<Rightarrow> GroupId \<Rightarrow> string option \<Rightarrow> WorkspaceWindow \<Rightarrow> bool" where
  "reusable s sourceGroup previousId w \<longleftrightarrow> Some (w_id w) = previousId \<and> w_kind w = ChartWindow \<and> pinned w = None
     \<and> w_group w \<noteq> sourceGroup \<and> Option.bind (groupSymbols s (w_group w)) sym_kind \<noteq> Some IndexSymbol
     \<and> \<not> list_ex (\<lambda>v. w_group v = w_group w \<and> w_kind v = SectorRankingWindow) (windows s)"

definition openSectorStock ::
    "rat \<Rightarrow> string \<Rightarrow> string \<Rightarrow> string \<Rightarrow> string \<Rightarrow> GroupId \<Rightarrow> string option \<Rightarrow> Store \<Rightarrow> Opened \<times> Store" where
  "openSectorStock now tabId i code name sourceGroup previousId s =
     (case find (reusable s sourceGroup previousId) (windows s) of
        Some w \<Rightarrow> (InWindow (w_id w), focusWindow (w_id w) (setWindowSymbol (w_id w) (plain_symbol code name) s))
      | None \<Rightarrow>
          (case find (\<lambda>g. g \<noteq> sourceGroup \<and> \<not> list_ex (\<lambda>w. w_group w = g) (windows s)) GROUP_IDS of
             None \<Rightarrow> (InNewTab (stockInstrument code (Some name)), openLiveInNewTab now tabId s)
           | Some g \<Rightarrow> (InWindow i, setGroupSymbol (of_nat g) (plain_symbol code name)
               (setWindowGroup i (of_nat g) (addWindow i ChartWindow s)))))"

subsection \<open>studyViews/openSavedRange.ts\<close>

text \<open>The row of the study view list: its code, label and resolution, and the range it becomes.\<close>

record StudyViewRow =
  row_code :: string
  row_label :: string
  row_timeframe :: LiveTimeframe
  row_focus :: SavedRangeFocus

definition saved_range_target :: "ActivationTarget \<Rightarrow> GroupId \<Rightarrow> string \<Rightarrow> Store \<Rightarrow> string option" where
  "saved_range_target destination g code s = (case destination of
     ActivateWindow w \<Rightarrow> if w_kind w = ChartWindow then map_option w_id (find_window (windows s) (w_id w))
       else top_id (\<lambda>v. w_kind v = ChartWindow \<and> w_group v = g \<and> shown_code s v = Some code) s
   | _ \<Rightarrow> top_id (\<lambda>v. w_kind v = ChartWindow \<and> w_group v = g \<and> shown_code s v = Some code) s)"

definition openSavedRange ::
    "Registry \<Rightarrow> string \<Rightarrow> (string \<times> json) list \<Rightarrow> SecondTimeframeViewport option \<Rightarrow> StudyViewRow \<Rightarrow> App \<Rightarrow> App" where
  "openSavedRange reg i capture captured row a0 =
     (let destination = activationTarget (app_store a0);
          a = activateLiveCode reg (row_code row) (Some (row_label row)) a0;
          tf = row_timeframe row
      in case (case destination of ActivateWindow w \<Rightarrow> Some (w_group w) | ActivateEmpty g \<Rightarrow> Some g
                 | ActivationBlocked \<Rightarrow> None) of
           None \<Rightarrow> a
         | Some g \<Rightarrow>
             let s = app_store a; found = saved_range_target destination g (row_code row) s;
                 (s1, target) = (if isSecondTimeframe tf \<and> found = None
                   then (setWindowGroup i (of_nat g) (addWindow i ChartWindow s), Some i) else (s, found));
                 s2 = (case target of
                   None \<Rightarrow> s1
                 | Some j \<Rightarrow> (case chart_of j s1 of
                     Some c \<Rightarrow> if isSecondTimeframe tf \<or> isSecondTimeframe (chart_timeframe c)
                       then focusWindow j (setSecondChartRange j None (setChartTimeframe capture captured j tf s1)) else s1
                   | None \<Rightarrow> s1))
             in a\<lparr>app_store := s2, app_page := focusSavedRange (Some (row_focus row)) (app_page a)\<rparr>)"

end
