(* ===== verification/NavigationLaws.thy ===== *)
theory NavigationLaws
  imports Navigation
begin

section \<open>What navigation guarantees\<close>

text \<open>
  Where an activation lands and what it leaves alone, the mirror that follows it, and the windows the
  openers give back.
\<close>

subsection \<open>Instruments and symbols\<close>

text \<open>The instruments the types of the program describe.\<close>

fun instrument_ok :: "LiveInstrument \<Rightarrow> bool" where
  "instrument_ok (UsStock e s l) \<longleftrightarrow> us_symbol s"
| "instrument_ok (Index i l) \<longleftrightarrow> isLiveIndexId i"
| "instrument_ok (Stock c l) \<longleftrightarrow> \<not> us_stock_prefix c"

lemma us_key_parts: "usStockKey e s = usStockKey e [] @ s"
  by (simp add: usStockKey_def)

lemma us_key_prefix: "us_stock_prefix (usStockKey e s)"
  unfolding us_stock_prefix_def us_key_parts [of e s] by (cases e) (simp_all add: starts_with_def)

lemma us_key_code: "us_symbol s \<Longrightarrow> us_stock_code (usStockKey e s)"
  unfolding us_stock_code_def us_key_parts [of e s] by (cases e) (simp_all add: starts_with_def)

lemma index_no_prefix: "isLiveIndexId i \<Longrightarrow> \<not> us_stock_prefix i"
  by (auto simp: isLiveIndexId_def isUsIndexId_def us_stock_prefix_def starts_with_def usStockKey_def)

lemma toGroup_classified: "instrument_ok i \<Longrightarrow> classified (toGroupSymbol i) = toGroupSymbol i"
  by (cases i) (simp_all add: classified_def us_key_prefix index_no_prefix)

lemma toGroup_ok: "instrument_ok i \<Longrightarrow> symbol_ok (toGroupSymbol i)"
  by (cases i) (simp_all add: symbol_ok_def us_key_code)

lemma toGroup_instrument: "instrument_ok i \<Longrightarrow> symbol_instrument (toGroupSymbol i) = Some i"
  by (cases i) (simp_all add: symbol_instrument_def usStockFromKey_key usStockInstrument_def stockInstrument_def
      indexInstrument_def)

lemma code_instrument_ok: "\<not> us_stock_prefix c \<or> usStockFromKey c l \<noteq> None \<Longrightarrow> instrument_ok (code_instrument c l)"
  using usStockFromKey_inv [of c l]
  by (cases "usStockFromKey c l") (auto simp: code_instrument_def stockInstrument_def usStockInstrument_def)

subsection \<open>The top of the stack\<close>

lemma top_window_last: "find_window ws i = Some w \<Longrightarrow> P w \<Longrightarrow> top_window P ws (z @ [i]) = Some w"
  by (simp add: top_window_def List.map_filter_simps)

text \<open>How far a window is up the focus order; the window focused last has the greatest position.\<close>

definition stack_position :: "string list \<Rightarrow> WorkspaceWindow \<Rightarrow> nat" where
  "stack_position z w = length (takeWhile (\<lambda>i. i \<noteq> w_id w) z)"

text \<open>The window of the greatest position with a property is the one the search from the end finds.\<close>

lemma top_window_highest:
  assumes d: "distinct (map w_id ws)" "distinct z" "set z = set (map w_id ws)"
    and w: "w \<in> set ws" "P w" and top: "\<And>v. v \<in> set ws \<Longrightarrow> P v \<Longrightarrow> stack_position z v \<le> stack_position z w"
  shows "top_window P ws z = Some w"
proof -
  have "w_id w \<in> set z" using d(3) w(1) by simp
  then obtain xs ys where z: "z = xs @ w_id w # ys" "w_id w \<notin> set xs" by (auto dest: split_list_first)
  have below: "\<not> P u" if "u \<in> set (List.map_filter (find_window ws) (rev ys))" for u
  proof
    assume "P u"
    have "\<exists>i \<in> set ys. find_window ws i = Some u" using that by (auto simp: List.map_filter_def)
    then have u: "u \<in> set ws" "w_id u \<in> set ys" using find_window_Some by force+
    then have "w_id u \<notin> set xs" "w_id u \<noteq> w_id w" using d(2) z(1) by auto
    then have "takeWhile (\<lambda>i. i \<noteq> w_id u) z = xs @ w_id w # takeWhile (\<lambda>i. i \<noteq> w_id u) ys"
      unfolding z(1) by (subst takeWhile_append2) auto
    moreover have "takeWhile (\<lambda>i. i \<noteq> w_id w) z = xs" unfolding z(1) using z(2) by (subst takeWhile_append2) auto
    ultimately show False using top [OF u(1) \<open>P u\<close>] by (simp add: stack_position_def)
  qed
  have "List.map_filter (find_window ws) (rev z)
      = List.map_filter (find_window ws) (rev ys) @ w # List.map_filter (find_window ws) (rev xs)"
    using find_window_at [OF d(1) w(1)] by (simp add: z(1) List.map_filter_def)
  moreover have "find P (us @ w # vs) = Some w" if "\<And>u. u \<in> set us \<Longrightarrow> \<not> P u" for us vs
    using that w(2) by (induction us) auto
  ultimately show ?thesis using below by (simp add: top_window_def)
qed

lemma focus_windows [simp]: "windows (focusWindow i s) = windows s" "groupSymbols (focusWindow i s) = groupSymbols s"
  "pendingNormalize (focusWindow i s) = pendingNormalize s" "canvasSize (focusWindow i s) = canvasSize s"
  "chartRuntime (focusWindow i s) = chartRuntime s"
  by (simp_all add: focusWindow_def)

lemma focus_last:
  assumes "find_window (windows s) i \<noteq> None"
  shows "\<exists>z. zOrder (focusWindow i s) = z @ [i]"
proof (cases "zOrder s \<noteq> [] \<and> last (zOrder s) = i")
  case True
  then show ?thesis using append_butlast_last_id [of "zOrder s"] by (auto simp: focusWindow_def intro: exI [of _ "butlast (zOrder s)"])
next
  case False
  have "has_window any_kind i s" using assms find_window_Some by (fastforce simp: has_window_def list_ex_iff)
  then show ?thesis using False by (auto simp: focusWindow_def)
qed

lemma group_symbol_windows:
  "read_group g = Some n \<Longrightarrow> windows (setGroupSymbol g y s)
    = map (\<lambda>w. if w_group w = n \<and> pinned w = None then normalizeUsWindow w (Some (classified y)) else w) (windows s)"
  by (simp add: setGroupSymbol_def Let_def)

lemma group_symbol_groups:
  "read_group g = Some n \<Longrightarrow> groupSymbols (setGroupSymbol g y s) = (groupSymbols s)(n \<mapsto> classified y)"
  by (simp add: setGroupSymbol_def Let_def)

lemma find_group_symbol:
  assumes "read_group g = Some n"
  shows "find_window (windows (setGroupSymbol g y s)) i
    = map_option (\<lambda>w. if w_group w = n \<and> pinned w = None then normalizeUsWindow w (Some (classified y)) else w)
        (find_window (windows s) i)"
  unfolding group_symbol_windows [OF assms] by (rule find_map) simp

lemma activation_window:
  assumes "activationTarget s = ActivateWindow w"
  shows "w \<in> set (windows s) \<and> w_kind w \<noteq> AccountFills \<and> pinned w = None"
  using assms top_window_Some by (fastforce simp: activationTarget_def split: if_splits option.splits)

subsection \<open>Activation\<close>

lemma store_ok_group_read: "store_ok s \<Longrightarrow> w \<in> set (windows s) \<Longrightarrow> read_group (of_nat (w_group w)) = Some (w_group w)"
  using kind_ok_dest(1) [OF store_ok_kind] by (auto intro: read_group_stored)

text \<open>The workspace of an unused tab, with a Korean stock in its first group.\<close>

definition samsung_store :: Store where "samsung_store = setGroupSymbol (of_nat 1) samsung fresh"

lemma read_first: "read_group (of_nat 1) = Some 1"
  by (rule read_group_stored) simp

lemma samsung_fits: "normalizeUsWindow w (Some samsung) = w"
  by (simp add: normalizeUsWindow_def symbolTimeframe_def samsung_def Let_def split: option.split)

lemma samsung_windows: "windows samsung_store = windows fresh"
  unfolding samsung_store_def group_symbol_windows [OF read_first] samsung_ok(2) samsung_fits by simp

lemma samsung_groups: "groupSymbols samsung_store = (groupSymbols fresh)(1 \<mapsto> samsung)"
  unfolding samsung_store_def group_symbol_groups [OF read_first] samsung_ok(2) ..

lemma samsung_order: "zOrder samsung_store = [''0'', ''1'', ''2'']"
  by (simp add: samsung_store_def setGroupSymbol_def Let_def read_first [simplified])
    (simp add: fresh_def factory_def Let_def fresh_ids [unfolded fresh_def factory_def Let_def, simplified])

lemma samsung_store_ok: "store_ok samsung_store"
  using store_ok_act [OF fresh_ok, of "SetGroupSymbol (of_nat 1) samsung"] samsung_ok by (simp add: samsung_store_def)

lemma samsung_display: "w \<in> set (windows fresh) \<Longrightarrow> display samsung_store w = Some samsung"
  by (auto simp: fresh_windows display_def windowSymbolOf_def samsung_groups plain_window_def)

definition landed :: "LiveInstrument \<Rightarrow> WorkspaceWindow \<Rightarrow> App \<Rightarrow> App \<Rightarrow> bool" where
  "landed i w a a' \<longleftrightarrow> focusedWindowSymbol (app_store a') = Some (toGroupSymbol i)
     \<and> last (zOrder (app_store a')) = w_id w \<and> activeInstrument (app_page a') = Some i
     \<and> groupSymbols (app_store a') = (groupSymbols (app_store a))(w_group w \<mapsto> toGroupSymbol i)
     \<and> filter (\<lambda>v. pinned v \<noteq> None) (windows (app_store a')) = filter (\<lambda>v. pinned v \<noteq> None) (windows (app_store a))"

text \<open>The case split of \<open>activationTarget\<close> itself.\<close>

lemma activation_cases:
  assumes s: "store_ok (app_store a)" and i: "instrument_ok i"
  shows "case activationTarget (app_store a) of
      ActivateWindow w \<Rightarrow> w_kind w \<noteq> AccountFills \<and> pinned w = None \<and> landed i w a (activateLiveInstrument reg i a)
    | ActivationBlocked \<Rightarrow> activateLiveInstrument reg i a
        = a\<lparr>app_store := (app_store a)\<lparr>blockedActivation := Some (sym_name (toGroupSymbol i))\<rparr>\<rparr>
    | ActivateEmpty g \<Rightarrow> groupSymbols (app_store (activateLiveInstrument reg i a))
        = (groupSymbols (app_store a))(1 \<mapsto> toGroupSymbol i)"
proof (cases "activationTarget (app_store a)")
  case t: (ActivateWindow w)
  let ?s = "app_store a" and ?y = "toGroupSymbol i" and ?a = "activateLiveInstrument reg i a"
  note w = activation_window [OF t]
  have g: "read_group (of_nat (w_group w)) = Some (w_group w)" using store_ok_group_read s w by blast
  let ?t = "setGroupSymbol (of_nat (w_group w)) ?y ?s"
  have f: "find_window (windows ?t) (w_id w) = Some (normalizeUsWindow w (Some ?y))"
    using find_group_symbol [OF g, of ?y ?s "w_id w"] find_known [OF s] w by (simp add: toGroup_classified [OF i])
  obtain z where z: "zOrder (focusWindow (w_id w) ?t) = z @ [w_id w]" using focus_last [of ?t "w_id w"] f by auto
  have store: "app_store ?a = focusWindow (w_id w) ?t" and page: "app_page ?a = show_on_page reg i (app_page a)"
    by (simp_all add: activateLiveInstrument_def t Let_def)
  have groups: "groupSymbols ?t = (groupSymbols ?s)(w_group w \<mapsto> ?y)"
    using group_symbol_groups [OF g] by (simp add: toGroup_classified [OF i])
  have top: "top_window (\<lambda>v. w_kind v \<noteq> AccountFills) (windows ?t) (z @ [w_id w]) = Some (normalizeUsWindow w (Some ?y))"
    using top_window_last [OF f] w by simp
  have "windowSymbolOf (groupSymbols ?t) (Some (normalizeUsWindow w (Some ?y))) = Some ?y"
    using w by (simp add: windowSymbolOf_def groups)
  then have "focusedWindowSymbol (app_store ?a) = Some ?y"
    using top by (simp add: focusedWindowSymbol_def store z)
  moreover have "activeInstrument (app_page ?a) = Some i"
    by (simp add: page show_on_page_def Let_def projectActiveView_def plain_projection_def persistPage_def on_indicators_def)
  moreover have "filter (\<lambda>v. pinned v \<noteq> None) (map (\<lambda>w. if w_group w = g \<and> pinned w = None then normalizeUsWindow w y else w) ws)
      = filter (\<lambda>v. pinned v \<noteq> None) ws" for g y ws
    by (induction ws) auto
  ultimately have "landed i w a ?a"
    using group_symbol_windows [OF g, of ?y ?s] by (simp add: landed_def store z groups)
  then show ?thesis using t w by simp
next
  case (ActivateEmpty g)
  then have "g = 1" by (auto simp: activationTarget_def split: if_splits option.splits)
  moreover have "read_group 1 = Some 1" by (simp add: read_group_def isGroupId_def is_integer_def MIN_GROUP_def MAX_GROUP_def)
  ultimately show ?thesis using ActivateEmpty
    by (simp add: activateLiveInstrument_def Let_def group_symbol_groups toGroup_classified [OF i])
next
  case ActivationBlocked
  then show ?thesis by (simp add: activateLiveInstrument_def Let_def reportBlockedActivation_def)
qed

text \<open>The windows that show the symbol of their group: not the account windows, not the pinned ones.\<close>

definition takes_symbol :: "WorkspaceWindow \<Rightarrow> bool" where
  "takes_symbol w \<longleftrightarrow> w_kind w \<noteq> AccountFills \<and> pinned w = None"

text \<open>
  C15. A click on an instrument lands on the window that was focused last among those that are neither
  pinned nor account windows (the one with no such window above it in the focus order): its group, and no
  other, gets the symbol, the window comes to the front and is the one whose symbol the rest of the page
  sees, and every pinned window keeps what it shows. When there are windows but every one is pinned nothing
  changes but the notice, and when there is none the first group gets the symbol.
\<close>

theorem activation_lands:
  assumes s: "store_ok (app_store a)" and i: "instrument_ok i"
    and s_def: "s = app_store a" and a': "a' = activateLiveInstrument reg i a"
  shows "(\<forall>w \<in> set (windows s). takes_symbol w
        \<and> (\<forall>v \<in> set (windows s). takes_symbol v \<longrightarrow> stack_position (zOrder s) v \<le> stack_position (zOrder s) w)
        \<longrightarrow> landed i w a a')
    \<and> ((\<exists>w \<in> set (windows s). w_kind w \<noteq> AccountFills) \<and> (\<forall>w \<in> set (windows s). \<not> takes_symbol w)
        \<longrightarrow> a' = a\<lparr>app_store := s\<lparr>blockedActivation := Some (sym_name (toGroupSymbol i))\<rparr>\<rparr>)
    \<and> ((\<forall>w \<in> set (windows s). w_kind w = AccountFills)
        \<longrightarrow> groupSymbols (app_store a') = (groupSymbols s)(1 \<mapsto> toGroupSymbol i))"
proof (intro conjI ballI impI)
  note c = activation_cases [OF s i, of reg, folded a' s_def]
  have P: "(\<lambda>w. w_kind w \<noteq> AccountFills \<and> pinned w = None) = takes_symbol" by (simp add: takes_symbol_def fun_eq_iff)
  {
    fix w
    assume w: "w \<in> set (windows s)" and t: "takes_symbol w
        \<and> (\<forall>v \<in> set (windows s). takes_symbol v \<longrightarrow> stack_position (zOrder s) v \<le> stack_position (zOrder s) w)"
    have "top_window takes_symbol (windows s) (zOrder s) = Some w"
      by (rule top_window_highest) (use s w t in \<open>auto simp: s_def store_ok_def ids_ok_def\<close>)
    then have "activationTarget s = ActivateWindow w"
      using w t by (auto simp: activationTarget_def P list_all_iff takes_symbol_def)
    then show "landed i w a a'" using c by simp
  next
    assume n: "(\<exists>w \<in> set (windows s). w_kind w \<noteq> AccountFills) \<and> (\<forall>w \<in> set (windows s). \<not> takes_symbol w)"
    then have "top_window takes_symbol (windows s) (zOrder s) = None"
      using top_window_Some [of takes_symbol "windows s" "zOrder s"] by (cases "top_window takes_symbol (windows s) (zOrder s)") auto
    then have "activationTarget s = ActivationBlocked" using n by (auto simp: activationTarget_def P list_all_iff)
    then show "a' = a\<lparr>app_store := s\<lparr>blockedActivation := Some (sym_name (toGroupSymbol i))\<rparr>\<rparr>" using c by simp
  next
    assume "\<forall>w \<in> set (windows s). w_kind w = AccountFills"
    then have "activationTarget s = ActivateEmpty 1" by (simp add: activationTarget_def list_all_iff)
    then show "groupSymbols (app_store a') = (groupSymbols s)(1 \<mapsto> toGroupSymbol i)" using c by simp
  }
qed

text \<open>In the workspace of an unused tab the broker window was focused last.\<close>

definition broker_window :: WorkspaceWindow where
  "broker_window = plain_window ''2'' BrokerWindow 1
     \<lparr>rx = LIVE_RIGHT_COL_X, ry = LIVE_BOOK_H, rw = LIVE_RIGHT_COL_W, rh = 1 - LIVE_BOOK_H\<rparr>"

theorem activation_lands_witness:
  "landed (Stock ''000660'' ''SK'') broker_window \<lparr>app_store = samsung_store, app_page = new_page\<rparr>
     (activateLiveInstrument plain_registry (Stock ''000660'' ''SK'') \<lparr>app_store = samsung_store, app_page = new_page\<rparr>)"
proof -
  let ?a = "\<lparr>app_store = samsung_store, app_page = new_page\<rparr>"
  have "instrument_ok (Stock ''000660'' ''SK'')" by (simp add: us_stock_prefix_def starts_with_def usStockKey_def)
  note a = activation_lands [OF _ this refl refl, of ?a plain_registry, THEN conjunct1]
  have w: "broker_window \<in> set (windows samsung_store)" "takes_symbol broker_window"
    by (simp_all add: samsung_windows fresh_windows broker_window_def takes_symbol_def plain_window_def)
  have top: "stack_position (zOrder samsung_store) v \<le> stack_position (zOrder samsung_store) broker_window"
    if "v \<in> set (windows samsung_store)" for v
    using that by (auto simp: samsung_windows fresh_windows samsung_order stack_position_def broker_window_def plain_window_def)
  show ?thesis using a samsung_store_ok w top by simp
qed

subsection \<open>The mirror\<close>

lemma view_projected [simp]:
  "activeInstrument (projectActiveView reg (plain_projection i tf) p) = i"
  "candleTimeframe (projectActiveView reg (plain_projection i tf) p) = tf"
  "activeCode (projectActiveView reg (plain_projection i tf) p) = (if i = None then Some [] else instrumentToActiveCode i)"
  by (simp_all add: projectActiveView_def plain_projection_def persistPage_def on_indicators_def or_else_def Let_def)

lemma mirror_settles:
  "activeInstrument p = Option.bind y symbol_instrument \<Longrightarrow> candleTimeframe p = tf
    \<Longrightarrow> or_else (activeCode p) [] = or_else (instrumentToActiveCode (Option.bind y symbol_instrument)) []
    \<Longrightarrow> mirrorActiveGroupToLivePage reg y tf p = p"
  by (simp add: mirrorActiveGroupToLivePage_def Let_def)

text \<open>
  The mirror never loops: once it has run, running it again for the same focused symbol and
  timeframe changes nothing; and right after an activation it has nothing to do for the symbol that was
  activated.
\<close>

lemma mirror_converges:
  "mirrorActiveGroupToLivePage reg y tf (mirrorActiveGroupToLivePage reg y tf p) = mirrorActiveGroupToLivePage reg y tf p
   \<and> (instrument_ok i \<longrightarrow> mirrorActiveGroupToLivePage reg (Some (toGroupSymbol i))
        (candleTimeframe (show_on_page reg i p)) (show_on_page reg i p) = show_on_page reg i p)"
proof
  let ?i = "Option.bind y symbol_instrument" and ?m = "mirrorActiveGroupToLivePage reg y tf"
  show "?m (?m p) = ?m p"
  proof (cases "or_else (activeCode p) [] = or_else (instrumentToActiveCode ?i) []
      \<and> map_option instrumentToSubjectKey (activeInstrument p) = map_option instrumentToSubjectKey ?i
      \<and> candleTimeframe p = tf")
    case True
    then show ?thesis by (simp add: mirrorActiveGroupToLivePage_def Let_def)
  next
    case False
    have "?m p = projectActiveView reg (plain_projection ?i tf) p"
      unfolding mirrorActiveGroupToLivePage_def Let_def by (rule if_not_P [OF False])
    then show ?thesis by (simp add: mirror_settles or_else_def)
  qed
  show "instrument_ok i \<longrightarrow> mirrorActiveGroupToLivePage reg (Some (toGroupSymbol i))
        (candleTimeframe (show_on_page reg i p)) (show_on_page reg i p) = show_on_page reg i p"
    by (auto simp: show_on_page_def Let_def toGroup_instrument intro!: mirror_settles)
qed

lemma shared_kept: "deep_link s \<Longrightarrow> shared_workspace (acts as s) = shared_workspace s \<and> deep_link (acts as s)"
proof (induction as arbitrary: s)
  case (Cons a as)
  have f: "follows s (act a s)" by (rule follows_act)
  then have "deep_link (act a s)" "shared_workspace (act a s) = shared_workspace s"
    using Cons.prems by (auto simp: follows_def stored_def untouched_def)
  then show ?case using Cons.IH [of "act a s"] by (simp add: acts_def)
qed (simp add: acts_def)

text \<open>
  A link to an instrument opens a tab of its own: its query marks a deep-link tab, and whatever is
  then done in that tab, the workspace the other tabs share stays as it was.
\<close>

lemma deep_links_isolate:
  assumes "deepLink (the_tab s) = detectDeepLinkTab (liveDeepLinkQuery i)"
  shows "shared_workspace (acts as s) = shared_workspace s"
proof -
  have "detectDeepLinkTab (liveDeepLinkQuery i)" by (cases i) (simp_all add: detectDeepLinkTab_def)
  then show ?thesis using assms shared_kept [of s as] by (simp add: deep_link_def)
qed

subsection \<open>New windows beside a source\<close>

lemma focus_top:
  assumes "find_window (windows s) i = Some w" "P w"
  shows "top_window P (windows (focusWindow i s)) (zOrder (focusWindow i s)) = Some w"
proof -
  obtain z where "zOrder (focusWindow i s) = z @ [i]" using focus_last [of s i] assms(1) by auto
  then show ?thesis using top_window_last [of "windows s" i w P z] assms by simp
qed

lemma focus_active: "find_window (windows s) i = Some w \<Longrightarrow> w_kind w \<noteq> AccountFills \<Longrightarrow> activeGroupOf (focusWindow i s) = w_group w"
  using focus_top [of s i w "\<lambda>w. w_kind w \<noteq> AccountFills"] by (simp add: activeGroupOf_def)

lemma focus_chart: "find_window (windows s) i = Some w \<Longrightarrow> w_kind w = ChartWindow \<Longrightarrow> focusedChart (focusWindow i s) = Some w"
  using focus_top [of s i w "\<lambda>w. w_kind w = ChartWindow"] by (simp add: focusedChart_def)

lemma us_window_simps [simp]:
  "w_group (normalizeUsWindow w y) = w_group w" "w_kind (normalizeUsWindow w y) = w_kind w"
  "pinned (normalizeUsWindow w y) = pinned w" "w_chart (normalizeUsWindow w y) = None \<longleftrightarrow> w_chart w = None"
  by (simp_all add: normalizeUsWindow_def Let_def split: option.split)

text \<open>The window added in front of its source.\<close>

lemma added_window:
  assumes s: "store_ok s" and i: "i \<notin> set (map w_id (windows s))"
    and w: "find_window (windows s) j = Some w" "w_kind w \<noteq> AccountFills"
  obtains n where "find_window (windows (addWindow i k (focusWindow j s))) i = Some n" "w_id n = i" "w_kind n = k"
    "w_group n = w_group w" "pinned n = None"
    "k = ChartWindow \<Longrightarrow> w_kind w = ChartWindow \<Longrightarrow> w_chart n \<noteq> None"
proof -
  let ?s = "focusWindow j s"
  obtain last where n: "windows (addWindow i k ?s)
      = windows ?s @ [normalizeUsWindow (new_window i k last ?s) (groupSymbols ?s (w_group (new_window i k last ?s)))]"
    using add_windows [of i k ?s] by metis
  let ?n = "normalizeUsWindow (new_window i k last ?s) (groupSymbols ?s (w_group (new_window i k last ?s)))"
  have new: "w_id (new_window i k last ?s) = i" "w_kind (new_window i k last ?s) = k" "pinned (new_window i k last ?s) = None"
    "w_group (new_window i k last ?s) = activeGroupOf ?s"
    by (simp_all add: new_window_def plain_window_def Let_def)
  have "find_window (windows (addWindow i k ?s)) i = Some ?n"
    using i find_None [of "windows s" i] new unfolding n find_append by simp
  moreover have "w_kind w = ChartWindow \<Longrightarrow> k = ChartWindow \<Longrightarrow> w_chart ?n \<noteq> None"
  proof -
    assume c: "w_kind w = ChartWindow" and k: "k = ChartWindow"
    have "w_chart w \<noteq> None" using c kind_ok_dest(2) [OF store_ok_kind [OF s]] find_window_Some [OF w(1)] by blast
    then have "new_chart v (focusedChart ?s) last \<noteq> None" for v
      using focus_chart [OF w(1) c] by (auto simp: new_chart_def split: option.split)
    then show ?thesis by (simp add: new_window_def k Let_def)
  qed
  ultimately show ?thesis using that [of ?n] new focus_active [OF w] by simp
qed

lemma group_kept:
  assumes "find_window (windows s) i = Some n" "w_group n \<in> set GROUP_IDS"
  shows "setWindowGroup i (of_nat (w_group n)) s = s"
  using assms by (simp add: setWindowGroup_def read_group_stored)

lemma find_at_id:
  "(\<And>w. w_id (f w) = w_id w) \<Longrightarrow> find_window (map (at_id i f) ws) j
    = map_option (\<lambda>w. if j = i then f w else w) (find_window ws j)"
proof -
  assume f: "\<And>w. w_id (f w) = w_id w"
  have "find_window (map (at_id i f) ws) j = map_option (at_id i f) (find_window ws j)"
    by (rule find_map) (simp add: at_id_def f)
  then show ?thesis by (cases "find_window ws j") (auto simp: at_id_def dest: find_window_Some)
qed

lemma pin_set:
  assumes "find_window (windows s) i = Some n" "pinnable n"
  shows "windows (pinWindowToSymbol i y s)
      = map (at_id i (\<lambda>w. normalizeUsWindow (w\<lparr>pinned := Some y\<rparr>) (Some y))) (windows s)"
    and "groupSymbols (pinWindowToSymbol i y s) = groupSymbols s"
proof -
  have "has_window pinnable i s" using assms find_window_Some [OF assms(1)] by (auto simp: has_window_def list_ex_iff)
  then show "windows (pinWindowToSymbol i y s)
      = map (at_id i (\<lambda>w. normalizeUsWindow (w\<lparr>pinned := Some y\<rparr>) (Some y))) (windows s)"
    and "groupSymbols (pinWindowToSymbol i y s) = groupSymbols s"
    by (simp_all add: pinWindowToSymbol_def)
qed

lemma shown_groups: "groupSymbols t = groupSymbols s \<Longrightarrow> shown_code t w = shown_code s w"
  by (simp add: shown_code_def display_def)

lemma shown_focus [simp]: "shown_code (focusWindow i s) w = shown_code s w"
  by (rule shown_groups) simp

text \<open>Every window of the first store shows the same code in the second.\<close>

definition keeps_shown :: "(WorkspaceWindow \<Rightarrow> bool) \<Rightarrow> Store \<Rightarrow> Store \<Rightarrow> bool" where
  "keeps_shown P s t \<longleftrightarrow> (\<forall>w \<in> set (windows s). P w \<longrightarrow>
     map_option (shown_code t) (find_window (windows t) (w_id w)) = Some (shown_code s w))"

lemma keeps_same: "store_ok s \<Longrightarrow> windows t = windows s \<Longrightarrow> groupSymbols t = groupSymbols s \<Longrightarrow> keeps_shown P s t"
  using shown_groups [of t s] by (simp add: keeps_shown_def find_known)

lemma keeps_added:
  assumes "store_ok s" "i \<notin> set (map w_id (windows s))" "windows t = windows s @ [n]" "groupSymbols t = groupSymbols s"
  shows "keeps_shown P s t"
  using assms shown_groups [of t s] by (simp add: keeps_shown_def find_append find_known)

lemma top_id_Some:
  "top_id P s = Some j \<Longrightarrow> \<exists>w. find_window (windows s) j = Some w \<and> P w"
  by (auto simp: top_id_def find_Some_iff split: option.splits)

text \<open>The source of a trade window that was opened.\<close>

lemma trade_source:
  assumes s: "store_ok s" and r: "openTradeWindow i sourceId s = (Some j, t)"
  obtains source symbol where "window_with (\<lambda>w. w_kind w = BookWindow \<or> w_kind w = OrderWindow) sourceId s = Some source"
    "find_window (windows s) sourceId = Some source" "w_kind source = BookWindow \<or> w_kind source = OrderWindow"
    "display s source = Some symbol" "domestic symbol" "w_id source = sourceId"
proof -
  let ?P = "\<lambda>w. w_kind w = BookWindow \<or> w_kind w = OrderWindow"
  have "window_with ?P sourceId s \<noteq> None"
  proof
    assume n: "window_with ?P sourceId s = None"
    show False using r unfolding openTradeWindow_def n by simp
  qed
  then obtain source where src: "window_with ?P sourceId s = Some source" by blast
  have "display s source \<noteq> None"
  proof
    assume n: "display s source = None"
    show False using r unfolding openTradeWindow_def src option.case n by simp
  qed
  then obtain symbol where y1: "display s source = Some symbol" by blast
  have y2: "domestic symbol"
  proof (rule ccontr)
    assume n: "\<not> domestic symbol"
    show False using r unfolding openTradeWindow_def src option.case y1 by (simp add: n)
  qed
  have w: "source \<in> set (windows s)" "w_id source = sourceId" "?P source"
    using window_with_Some [OF src] by blast+
  have f: "find_window (windows s) sourceId = Some source" "?P source"
    using find_known [OF s w(1)] w(2,3) by simp_all
  then show thesis using that src y1 y2 w(2) by blast
qed

text \<open>
  Opening a trade window from a book or an order window gives a trade window of the same group that
  shows the symbol of its source, in front; no other window changes what it shows.
\<close>

lemma trade_window_opened:
  assumes s: "store_ok s" and i: "i \<notin> set (map w_id (windows s))"
    and r: "openTradeWindow i sourceId s = (Some j, t)"
  shows "(\<exists>source w. find_window (windows s) sourceId = Some source \<and> find_window (windows t) j = Some w
      \<and> w_kind w = TradeWindow \<and> w_group w = w_group source \<and> shown_code t w = shown_code s source)
    \<and> last (zOrder t) = j \<and> keeps_shown any_kind s t"
proof -
  obtain source symbol where src: "window_with (\<lambda>w. w_kind w = BookWindow \<or> w_kind w = OrderWindow) sourceId s = Some source"
    and f: "find_window (windows s) sourceId = Some source" "w_kind source = BookWindow \<or> w_kind source = OrderWindow"
    and y: "display s source = Some symbol" "domestic symbol" and src_id: "w_id source = sourceId"
    using trade_source [OF s r] by blast
  have code: "shown_code s source = Some (sym_code symbol)" using y by (simp add: shown_code_def)
  show ?thesis
  proof (cases "top_id (\<lambda>w. w_kind w = TradeWindow \<and> w_group w = w_group source \<and> shown_code s w = Some (sym_code symbol)) s")
    case (Some k)
    then have t: "j = k" "t = focusWindow k s"
      using r y(2) unfolding openTradeWindow_def src option.case y(1) Some by auto
    obtain w where w: "find_window (windows s) k = Some w" "w_kind w = TradeWindow" "w_group w = w_group source"
      "shown_code s w = Some (sym_code symbol)" using top_id_Some [OF Some] by blast
    obtain z where "zOrder t = z @ [k]" using focus_last [of s k] w(1) t(2) by auto
    then show ?thesis using f w code t keeps_same [OF s, of t] by auto
  next
    case None
    have kind: "w_kind source \<noteq> AccountFills" "w_kind source \<noteq> MarketIndicesWindow" using f(2) by auto
    obtain n where n: "find_window (windows (addWindow i TradeWindow (focusWindow sourceId s))) i = Some n"
      "w_id n = i" "w_kind n = TradeWindow" "w_group n = w_group source" "pinned n = None"
      using added_window [OF s i f(1) kind(1), of TradeWindow] by metis
    let ?a = "addWindow i TradeWindow (focusWindow sourceId s)"
    have "w_group source \<in> set GROUP_IDS" using kind_ok_dest(1) [OF store_ok_kind [OF s]] find_window_Some [OF f(1)] by blast
    then have grp: "setWindowGroup i (of_nat (w_group source)) ?a = ?a" using group_kept [OF n(1)] n(4) by simp
    let ?u = "if pinned source \<noteq> None then pinWindowToSymbol i symbol ?a else ?a"
    have t: "j = i" "t = focusWindow i ?u"
      using r unfolding openTradeWindow_def src option.case y(1) None by (auto simp: y(2) src_id grp Let_def)
    have pin: "pinnable n" using n(3) by (simp add: pinnable_def)
    define n' where "n' = (if pinned source \<noteq> None then normalizeUsWindow (n\<lparr>pinned := Some symbol\<rparr>) (Some symbol) else n)"
    have u: "find_window (windows ?u) i = Some n'" "groupSymbols ?u = groupSymbols s"
      using n(1) pin_set [OF n(1) pin, of symbol] by (simp_all add: find_at_id n'_def)
    obtain m where m: "windows ?a = windows s @ [m]" using add_windows [of i TradeWindow "focusWindow sourceId s"] by auto
    have "map (at_id i f) (windows s) = windows s" for f
      by (rule map_idI) (use i in \<open>auto simp: at_id_def\<close>)
    then have "\<exists>m. windows ?u = windows s @ [m]" using m pin_set(1) [OF n(1) pin, of symbol] by auto
    then have keeps: "keeps_shown any_kind s ?u" using keeps_added [OF s i _ u(2)] by blast
    have "shown_code ?u n' = Some (sym_code symbol)"
      using y(1) kind n(3-5) u(2) by (auto simp: n'_def shown_code_def display_def windowSymbolOf_def split: option.splits)
    moreover obtain z where "zOrder t = z @ [i]" using focus_last [of ?u i] u(1) t(2) by auto
    moreover have "keeps_shown any_kind s t" using keeps unfolding t(2) keeps_shown_def by simp
    ultimately show ?thesis using f code u(1) n(3,4) unfolding t by (auto simp: n'_def)
  qed
qed

lemma samsung_find:
  "find_window (windows samsung_store) ''1'' = Some (plain_window ''1'' BookWindow 1
     \<lparr>rx = LIVE_RIGHT_COL_X, ry = 0, rw = LIVE_RIGHT_COL_W, rh = LIVE_BOOK_H\<rparr>)"
  by (simp add: samsung_windows fresh_windows find_window_def plain_window_def)

subsection \<open>Stocks of a sector ranking\<close>

lemma keeps_appended:
  assumes s: "store_ok s" and i: "i \<notin> set (map w_id (windows s))" and t: "windows t = windows s @ [n]" "w_id n = i"
    and g: "\<And>w. w \<in> set (windows s) \<Longrightarrow> P w \<Longrightarrow> groupSymbols t (w_group w) = groupSymbols s (w_group w)"
  shows "keeps_shown P s t"
  unfolding keeps_shown_def
proof (intro ballI impI)
  fix w assume w: "w \<in> set (windows s)" "P w"
  have "shown_code t w = shown_code s w" by (rule shown_simps) (simp_all add: g [OF w])
  then show "map_option (shown_code t) (find_window (windows t) (w_id w)) = Some (shown_code s w)"
    unfolding t(1) find_append by (simp add: find_known [OF s w(1)])
qed

lemma keeps_group_symbol:
  assumes s: "store_ok s" and q: "read_group q = Some g"
  shows "keeps_shown (\<lambda>w. w_group w \<noteq> g) s (setGroupSymbol q y s)"
  unfolding keeps_shown_def
proof (intro ballI impI)
  fix w assume w: "w \<in> set (windows s)" "w_group w \<noteq> g"
  have "shown_code (setGroupSymbol q y s) w = shown_code s w"
    by (rule shown_simps) (simp_all add: group_symbol_groups [OF q] w(2))
  then show "map_option (shown_code (setGroupSymbol q y s)) (find_window (windows (setGroupSymbol q y s)) (w_id w)) = Some (shown_code s w)"
    using w by (simp add: find_group_symbol [OF q] find_known [OF s])
qed

lemma added_any:
  "find_window (windows s) i = None \<Longrightarrow> \<exists>n. windows (addWindow i k s) = windows s @ [n] \<and> w_id n = i \<and> w_kind n = k
    \<and> pinned n = None \<and> w_group n = activeGroupOf s"
  unfolding add_windows by (simp add: new_window_def plain_window_def Let_def)

text \<open>A new chart alone in a group.\<close>

lemma new_group_chart:
  assumes s: "store_ok s" and i: "i \<notin> set (map w_id (windows s))" and g: "g \<in> set GROUP_IDS"
    and free: "\<not> list_ex (\<lambda>w. w_group w = g) (windows s)"
  obtains n where "windows (setGroupSymbol (of_nat g) y (setWindowGroup i (of_nat g) (addWindow i ChartWindow s))) = windows s @ [n]"
    "w_id n = i" "w_kind n = ChartWindow" "w_group n = g" "pinned n = None"
proof -
  have fresh: "find_window (windows s) i = None" using i find_None [of "windows s" i] by simp
  obtain n where n: "windows (addWindow i ChartWindow s) = windows s @ [n]" "w_id n = i" "w_kind n = ChartWindow"
    "pinned n = None" using added_any [OF fresh, of ChartWindow] by blast
  let ?a = "addWindow i ChartWindow s" and ?f = "\<lambda>w. normalizeUsWindow (w\<lparr>w_group := g\<rparr>)
    (case pinned w of Some p \<Rightarrow> Some p | None \<Rightarrow> groupSymbols s g)"
  have at: "find_window (windows ?a) i = Some n" using fresh n by (simp add: find_append)
  have same: "map (at_id i f) (windows s) = windows s" for f
    by (rule map_idI) (use i in \<open>auto simp: at_id_def\<close>)
  obtain m where m: "windows (setWindowGroup i (of_nat g) ?a) = windows s @ [m]" "w_id m = i" "w_kind m = ChartWindow"
    "pinned m = None" "w_group m = g"
  proof (cases "w_group n = g")
    case True
    then have "setWindowGroup i (of_nat g) ?a = ?a" using at by (simp add: setWindowGroup_def read_group_stored [OF g])
    then show ?thesis using that [of n] n True by simp
  next
    case False
    then have "windows (setWindowGroup i (of_nat g) ?a) = windows s @ [?f n]"
      using at n same by (simp add: setWindowGroup_def read_group_stored [OF g] Let_def at_id_def)
    then show ?thesis using that [of "?f n"] n by simp
  qed
  let ?h = "\<lambda>w. if w_group w = g \<and> pinned w = None then normalizeUsWindow w (Some (classified y)) else w"
  have "map ?h (windows s) = windows s"
    by (rule map_idI) (use free in \<open>auto simp: list_ex_iff\<close>)
  then have "windows (setGroupSymbol (of_nat g) y (setWindowGroup i (of_nat g) ?a)) = windows s @ [?h m]"
    by (simp add: group_symbol_windows [OF read_group_stored [OF g]] m(1))
  then show thesis using that [of "?h m"] m by simp
qed

lemma window_group_groups [simp]: "groupSymbols (setWindowGroup i q s) = groupSymbols s"
  by (simp add: setWindowGroup_def Let_def split: option.split)

lemma plain_symbol_code [simp]: "sym_code (plain_symbol c n) = c"
  by (simp add: plain_symbol_def)

lemma pinned_None_shown:
  "w_kind w = ChartWindow \<Longrightarrow> pinned w = None \<Longrightarrow> shown_code s w = map_option sym_code (groupSymbols s (w_group w))"
  by (simp add: shown_code_def display_def windowSymbolOf_def)

text \<open>
  A stock opened from a sector ranking gets a chart that shows it, and no ranking changes what it
  shows: the group of the ranking keeps its index, and the chart is reused only when no ranking shares
  its group.
\<close>

lemma sector_stock_opened:
  assumes s: "store_ok s" and i: "i \<notin> set (map w_id (windows s))" and g: "sourceGroup \<in> set GROUP_IDS"
    and r: "openSectorStock now tabId i code name sourceGroup previousId s = (result, t)"
  shows "keeps_shown (\<lambda>w. w_kind w = SectorRankingWindow) s t \<and> groupSymbols t sourceGroup = groupSymbols s sourceGroup
    \<and> (case result of InWindow j \<Rightarrow> \<exists>w. find_window (windows t) j = Some w \<and> w_kind w = ChartWindow \<and> shown_code t w = Some code
       | InNewTab x \<Rightarrow> x = Stock code name \<and> windows t = windows s)"
proof (cases "find (reusable s sourceGroup previousId) (windows s)")
  case (Some w)
  have w: "w \<in> set (windows s)" "reusable s sourceGroup previousId w" using find_in [OF Some] by blast+
  have kind: "w_kind w = ChartWindow" "pinned w = None" "w_group w \<noteq> sourceGroup" using w(2) by (simp_all add: reusable_def)
  have q: "read_group (of_nat (w_group w)) = Some (w_group w)" by (rule store_ok_group_read [OF s w(1)])
  let ?y = "classified (plain_symbol code name)" and ?u = "setGroupSymbol (of_nat (w_group w)) (classified (plain_symbol code name)) s"
  have t: "result = InWindow (w_id w)" "t = focusWindow (w_id w) ?u"
    using r kind unfolding openSectorStock_def Some by (auto simp: setWindowSymbol_def find_known [OF s w(1)] Let_def)
  have "w_kind v = SectorRankingWindow \<Longrightarrow> v \<in> set (windows s) \<Longrightarrow> w_group v \<noteq> w_group w" for v
    using w(2) by (auto simp: reusable_def list_ex_iff)
  then have "keeps_shown (\<lambda>v. w_kind v = SectorRankingWindow) s ?u"
    using keeps_group_symbol [OF s q, of ?y] by (auto simp: keeps_shown_def)
  then have "keeps_shown (\<lambda>v. w_kind v = SectorRankingWindow) s t" unfolding t(2) keeps_shown_def by simp
  moreover have "find_window (windows t) (w_id w) = Some (normalizeUsWindow w (Some ?y))"
    unfolding t(2) by (simp add: find_group_symbol [OF q] find_known [OF s w(1)] kind)
  moreover have "shown_code t (normalizeUsWindow w (Some ?y)) = Some code"
    unfolding t(2) by (simp add: pinned_None_shown kind group_symbol_groups [OF q])
  ultimately show ?thesis using t(1) kind by (simp add: t(2) group_symbol_groups [OF q])
next
  case none: None
  show ?thesis
  proof (cases "find (\<lambda>g. g \<noteq> sourceGroup \<and> \<not> list_ex (\<lambda>w. w_group w = g) (windows s)) GROUP_IDS")
    case None
    have t: "result = InNewTab (Stock code name)" "t = openLiveInNewTab now tabId s"
      using r unfolding openSectorStock_def none None by (auto simp: stockInstrument_def)
    then show ?thesis using keeps_same [OF s, of t] by (simp add: openLiveInNewTab_def)
  next
    case (Some g)
    have g: "g \<in> set GROUP_IDS" "g \<noteq> sourceGroup" "\<not> list_ex (\<lambda>w. w_group w = g) (windows s)"
      using find_in [OF Some] by blast+
    let ?y = "plain_symbol code name"
    let ?t = "setGroupSymbol (of_nat g) ?y (setWindowGroup i (of_nat g) (addWindow i ChartWindow s))"
    have t: "result = InWindow i" "t = ?t" using r unfolding openSectorStock_def none Some by auto
    obtain n where n: "windows ?t = windows s @ [n]" "w_id n = i" "w_kind n = ChartWindow" "w_group n = g" "pinned n = None"
      using new_group_chart [OF s i g(1,3), of ?y] by blast
    have groups: "groupSymbols ?t = (groupSymbols s)(g \<mapsto> classified ?y)"
      by (simp add: group_symbol_groups [OF read_group_stored [OF g(1)]])
    have "keeps_shown (\<lambda>w. w_kind w = SectorRankingWindow) s ?t"
      by (rule keeps_appended [OF s i n(1,2)]) (use g(3) in \<open>auto simp: groups list_ex_iff\<close>)
    moreover have "find_window (windows ?t) i = Some n"
      using i find_None [of "windows s" i] n(2) unfolding n(1) find_append by simp
    moreover have "shown_code ?t n = Some code" by (simp add: pinned_None_shown n groups)
    ultimately show ?thesis unfolding t using n(3) g(2) groups by auto
  qed
qed

subsection \<open>Second ranges\<close>

lemma timeframe_chart:
  assumes "find_window (windows s) i = Some n" "w_chart n = Some c"
  shows "\<exists>m. find_window (windows (setChartTimeframe cp v i tf s)) i = Some m
    \<and> map_option chart_timeframe (w_chart m) = Some (symbolTimeframe (display s n) tf) \<and> w_kind m = w_kind n
    \<and> groupSymbols (setChartTimeframe cp v i tf s) = groupSymbols s"
  using assms
  by (simp add: setChartTimeframe_def chart_of_def withChart_def Let_def find_at_id display_def)

lemma us_timeframe: "symbolTimeframe y S5 = (if symbolTimeframe y S5 = S5 then S5 else Day)"
  by (simp add: symbolTimeframe_def usChartTimeframe_def US_MINUTE_TIMEFRAMES_def usCalendarTimeframe_def split: option.split)

lemma domestic_timeframe: "domestic y \<Longrightarrow> symbolTimeframe (Some y) tf = tf"
  by (simp add: symbolTimeframe_def domestic_def)

lemma range_set:
  assumes "find_window (windows s) i = Some m" "map_option chart_timeframe (w_chart m) = Some tf" "a \<le> b"
  shows "map_option (\<lambda>(x, y, n). (x, y)) (secondRange (runtime_of i (setSecondChartRange i (Some (a, b)) s)))
    = (if isSecondTimeframe tf then Some (a, b) else map_option (\<lambda>(x, y, n). (x, y)) (secondRange (runtime_of i s)))"
proof -
  obtain c where c: "chart_of i s = Some c" "chart_timeframe c = tf" using assms by (auto simp: chart_of_def)
  show ?thesis using assms(3)
    by (simp add: setSecondChartRange_def c Let_def runtime_of_set not_less)
qed

text \<open>The new window of a range and what it shows.\<close>

lemma new_second_range:
  assumes s: "store_ok s" and i: "i \<notin> set (map w_id (windows s))"
    and src: "find_window (windows s) (w_id source) = Some source" "w_kind source = ChartWindow" and y: "domestic y"
    and t: "t = new_second_chart i cp cap source y s"
  shows "\<exists>m. find_window (windows t) i = Some m
    \<and> map_option chart_timeframe (w_chart m) = Some (symbolTimeframe (groupSymbols s (w_group source)) S5)"
proof -
  let ?a = "addWindow i ChartWindow (focusWindow (w_id source) s)"
  obtain n where n: "find_window (windows ?a) i = Some n" "w_kind n = ChartWindow" "w_group n = w_group source" "pinned n = None"
    "w_chart n \<noteq> None"
    by (rule added_window [OF s i src(1), of ChartWindow]) (use src(2) in simp_all)
  obtain c where c: "w_chart n = Some c" using n(5) by blast
  have "w_group source \<in> set GROUP_IDS" using kind_ok_dest(1) [OF store_ok_kind [OF s]] find_window_Some [OF src(1)] by blast
  then have grp: "setWindowGroup i (of_nat (w_group source)) ?a = ?a" using group_kept [OF n(1)] n(3) by simp
  have "display ?a n = groupSymbols s (w_group source)" by (simp add: display_def windowSymbolOf_def n)
  then obtain m where m: "find_window (windows (setChartTimeframe cp cap i S5 ?a)) i = Some m"
      "map_option chart_timeframe (w_chart m) = Some (symbolTimeframe (groupSymbols s (w_group source)) S5)" "w_kind m = ChartWindow"
    using timeframe_chart [OF n(1) c, of cp cap S5] n(2) by auto
  have pin: "pinnable m" using m(3) by (simp add: pinnable_def)
  have "map_option chart_timeframe (w_chart (normalizeUsWindow (m\<lparr>pinned := Some y\<rparr>) (Some y)))
      = map_option chart_timeframe (w_chart m)"
    by (simp add: normalizeUsWindow_def domestic_timeframe [OF y] split: option.split)
  then show ?thesis using m pin_set(1) [OF m(1) pin, of y] unfolding t new_second_chart_def Let_def grp
    by (simp add: find_at_id)
qed

lemma add_runtime [simp]: "chartRuntime (addWindow i k s) = chartRuntime s"
  by (simp add: addWindow_def Let_def split: option.split)

lemma timeframe_runtime:
  "chartRuntime (setChartTimeframe cp cap i tf s) i = (case chart_of i s of None \<Rightarrow> chartRuntime s i
     | Some c \<Rightarrow> Some (next_runtime cap i (chart_timeframe c)
         (symbolTimeframe (windowSymbolOf (groupSymbols s) (find_window (windows s) i)) tf) s))"
  by (simp add: setChartTimeframe_def Let_def withChart_def split: option.split)

lemma timeframe_no_range:
  "secondRange (runtime_of i s) = None \<Longrightarrow> secondRange (runtime_of i (setChartTimeframe cp cap i tf s)) = None"
  by (cases "chart_of i s") (simp_all add: runtime_of_def timeframe_runtime next_runtime_def Let_def)

lemma new_second_runtime:
  assumes s: "store_ok s" and i: "i \<notin> set (map w_id (windows s))"
    and src: "find_window (windows s) (w_id source) = Some source" "w_kind source = ChartWindow"
  shows "secondRange (runtime_of i (new_second_chart i cp cap source y s)) = None"
proof -
  have none: "chartRuntime s i = None"
  proof (rule ccontr)
    assume "chartRuntime s i \<noteq> None"
    then have "has_window (of_kind ChartWindow) i s" using runtime_window [OF s] by blast
    then show False using i by (auto simp: has_window_def list_ex_iff)
  qed
  let ?a = "setWindowGroup i (of_nat (w_group source)) (addWindow i ChartWindow (focusWindow (w_id source) s))"
  have "chartRuntime ?a i = None"
    by (simp add: setWindowGroup_def Let_def clearedChartRuntime_def none split: option.split)
  then have rt: "secondRange (runtime_of i ?a) = None" by (simp add: runtime_of_def EMPTY_RUNTIME_def)
  have "secondRange (runtime_of i (setChartTimeframe cp cap i S5 ?a)) = None"
    by (rule timeframe_no_range [OF rt])
  then show ?thesis
    by (simp add: new_second_chart_def Let_def pinWindowToSymbol_def runtime_cleared EMPTY_RUNTIME_def)
qed

text \<open>
  The command that opens a seconds chart for a range, when no window fits it yet: the new window
  shows the range if the group of the source can have second bars; if the group shows a US symbol (and
  the source is pinned to a domestic stock) the window opens as a daily chart and the range is lost.
\<close>

lemma second_range_needs_group:
  assumes s: "store_ok s" and i: "i \<notin> set (map w_id (windows s))"
    and src: "window_with (of_kind ChartWindow) sourceId s = Some source" and y: "display s source = Some y" "domestic y"
    and times: "0 \<le> a" "a \<le> b" "b \<le> now" and none: "top_id (second_target s source (sym_code y)) s = None"
    and r: "openSecondChartRange now i cp cap sourceId a b s = (j, t)"
  shows "j = Some i \<and> map_option chart_timeframe (chart_of i t) = Some (symbolTimeframe (groupSymbols s (w_group source)) S5)
    \<and> map_option (\<lambda>(x, z, n). (x, z)) (secondRange (runtime_of i t)) =
        (if symbolTimeframe (groupSymbols s (w_group source)) S5 = S5 then Some (of_int a, of_int b) else None)"
proof -
  let ?n = "new_second_chart i cp cap source y s" and ?tf = "symbolTimeframe (groupSymbols s (w_group source)) S5"
  have w: "source \<in> set (windows s)" "w_id source = sourceId" "w_kind source = ChartWindow"
    using window_with_Some [OF src] by blast+
  have t: "j = Some i" "t = focusWindow i (setSecondChartRange i (Some (of_int a, of_int b)) ?n)"
    using r times y(2) none unfolding openSecondChartRange_def src option.case y(1) by (auto simp: Let_def min_def max_def)
  have f: "find_window (windows s) (w_id source) = Some source" by (rule find_known [OF s w(1)])
  obtain m where m: "find_window (windows ?n) i = Some m" "map_option chart_timeframe (w_chart m) = Some ?tf"
    using new_second_range [OF s i f w(3) y(2) refl] by blast
  have chart: "chart_of i (setSecondChartRange i rg ?n) = chart_of i ?n" for rg
    by (simp add: chart_of_def setSecondChartRange_def Let_def split: option.split)
  have "runtime_of i t = runtime_of i (setSecondChartRange i (Some (of_int a, of_int b)) ?n)"
    by (simp add: t(2) runtime_of_def)
  moreover have "isSecondTimeframe ?tf \<longleftrightarrow> ?tf = S5"
    using us_timeframe [of "groupSymbols s (w_group source)"] by (auto simp: isSecondTimeframe_def split: if_splits)
  ultimately have "map_option (\<lambda>(x, z, n). (x, z)) (secondRange (runtime_of i t)) = (if ?tf = S5 then Some (of_int a, of_int b) else None)"
    using range_set [OF m, of "of_int a" "of_int b"] times new_second_runtime [OF s i f w(3), of cp cap y] by simp
  moreover have "chart_of i t = chart_of i ?n" using chart by (simp add: t(2) chart_of_def)
  ultimately show ?thesis using t(1) m by (simp add: chart_of_def)
qed

text \<open>The first chart is pinned to the Korean stock, its group shows an American one.\<close>

definition pinned_chart :: WorkspaceWindow where
  "pinned_chart = (plain_window ''0'' ChartWindow 1 \<lparr>rx = 0, ry = 0, rw = LIVE_RIGHT_COL_X, rh = 1\<rparr>)
     \<lparr>w_chart := Some (plain_chart M1), pinned := Some samsung\<rparr>"

definition apple :: GroupSymbol where
  "apple = \<lparr>sym_code = usStockKey NASDAQ ''AAPL'', sym_name = ''Apple'', sym_kind = Some UsStockSymbol\<rparr>"

definition us_group_store :: Store where
  "us_group_store = fresh\<lparr>windows := [pinned_chart], zOrder := [''0''], groupSymbols := [1 \<mapsto> apple]\<rparr>"

lemma apple_ok: "symbol_ok apple" "symbolTimeframe (Some apple) S5 \<noteq> S5"
proof -
  have "us_symbol ''AAPL''" by code_simp
  then show "symbol_ok apple" by (simp add: apple_def symbol_ok_def us_key_code)
  show "symbolTimeframe (Some apple) S5 \<noteq> S5"
    by (simp add: apple_def symbolTimeframe_def usChartTimeframe_def US_MINUTE_TIMEFRAMES_def usCalendarTimeframe_def)
qed

lemma us_group_store_ok: "store_ok us_group_store"
proof -
  have "window_ok False ((plain_window ''0'' ChartWindow 1 \<lparr>rx = 0, ry = 0, rw = LIVE_RIGHT_COL_X, rh = 1\<rparr>)\<lparr>w_chart := Some (plain_chart M1)\<rparr>)"
    using fresh_ok by (simp add: store_ok_def fresh_windows) (simp add: fresh_def)
  then have "window_ok False pinned_chart" using samsung_ok
    by (simp add: window_ok_def pinned_chart_def live_kind_iff plain_window_def)
  then show ?thesis using apple_ok
    by (simp add: store_ok_def us_group_store_def ids_ok_def runtimes_ok_def live_groups_iff pinned_chart_def plain_window_def fresh_def)
qed

text \<open>
  The query of a second range covers the range inside the Korean day it ends on: it starts on a bar
  boundary at most one bar early, ends after the last instant of the range, and never past midnight.
\<close>

lemma second_query_covers:
  assumes n: "0 < n" and t: "key_range (tradingDayOf t)" "time_clip (t + kst_offset)"
  shows "\<exists>q. secondRangeQuery f t n = Some q \<and> query_fromMs q \<le> f \<and> f < query_fromMs q + n * 1000
    \<and> query_fromMs q mod (n * 1000) = 0 \<and> t < query_endMs q \<and> tradingDayOf (query_endMs q - 1) = tradingDayOf t"
proof -
  let ?d = "tradingDayOf t" and ?step = "n * 1000"
  have m: "utcMidnightMs (realMsToYyyymmdd t) = Some (?d * day_ms)"
    using t by (simp add: realMs_key utcMidnightMs_def utc_day_key)
  have day: "?d * day_ms - kst_offset \<le> t" "t < ?d * day_ms - kst_offset + 86400000"
    by (simp_all add: tradingDayOf_def)
  have pos: "0 < ?step" using n by simp
  have bar: "f div ?step * ?step \<le> f" "f < f div ?step * ?step + ?step" "t < t div ?step * ?step + ?step"
    "t div ?step * ?step \<le> t"
    using pos pos_mod_bound [of ?step f] pos_mod_sign [of ?step f] pos_mod_bound [of ?step t] pos_mod_sign [of ?step t]
      div_mult_mod_eq [of f ?step] div_mult_mod_eq [of t ?step] by linarith+
  let ?e = "min (?d * day_ms - kst_offset + 86400000) (t div ?step * ?step + ?step)"
  have e: "t < ?e" "?e \<le> ?d * day_ms - kst_offset + 86400000" using day(2) bar(3) by simp_all
  have in_day: "tradingDayOf u = ?d" if "?d * day_ms \<le> u + kst_offset" "u + kst_offset < ?d * day_ms + day_ms" for u
    unfolding tradingDayOf_def [of u] by (rule int_div_pos_eq [of _ _ _ "u + kst_offset - ?d * day_ms"]) (use that in simp_all)
  have "tradingDayOf (?e - 1) = ?d" by (rule in_day) (use day(1) e in linarith)+
  then show ?thesis using bar e by (auto simp: secondRangeQuery_def m Let_def)
qed

end
