(* ===== verification/WindowSettings.thy ===== *)
theory WindowSettings
  imports Workspace "HOL-Library.AList"
begin

section \<open>Settings of windows\<close>

text \<open>
  \<open>state/chartDisplayPrefs.ts\<close>, \<open>state/majorIndicesSettings.ts\<close>, \<open>state/windowSettings.ts\<close> and
  \<open>state/windowSettingsLifecycle.ts\<close>: what a chart window and a market window remember for themselves.
  A window has at most one value per section of the registry, and every write goes through the
  section's normaliser. The order in which an object holds the two sections is not kept; a window id is
  not the name of a member of \<open>Object.prototype\<close>. The storage always answers.
\<close>

subsection \<open>state/chartDisplayPrefs.ts\<close>

definition CHART_DISPLAY_TOGGLES :: "(string \<times> bool) list" where
  "CHART_DISPLAY_TOGGLES = [(''accountExecutionsEnabled'', False), (''volumeOverlayEnabled'', False),
     (''candleLogScale'', False), (''candleInvertScale'', False), (''candleInvertColors'', True),
     (''candlePaneCandleOnlyScale'', False), (''candleAlwaysOnTop'', False), (''depthHeatmapAboveCandles'', False),
     (''auctionWindowMask'', True), (''candleTooltipEnabled'', False),
     (''horizontalGridLinesEnabled'', True), (''verticalGridLinesEnabled'', True),
     (''highLowLabelsEnabled'', True), (''highLowHighLineEnabled'', False), (''highLowLowLineEnabled'', False),
     (''highLowPriorHighLineEnabled'', False), (''highLowPriorLowLineEnabled'', False)]"

definition CHART_DISPLAY_LINE_STYLES :: "(string \<times> rat) list" where
  "CHART_DISPLAY_LINE_STYLES = [(''highLowHighLine'', 1), (''highLowLowLine'', 1),
     (''highLowPriorHighLine'', 1), (''highLowPriorLowLine'', 1)]"

definition CHART_DISPLAY_LINE_KEYS :: "string list" where
  "CHART_DISPLAY_LINE_KEYS = concat (map (\<lambda>(k, w). [k @ ''Color'', k @ ''Width'']) CHART_DISPLAY_LINE_STYLES)"

definition HIGH_LOW_WINDOW_PREF_KEYS :: "string list" where
  "HIGH_LOW_WINDOW_PREF_KEYS =
     filter (starts_with ''highLow'') (map fst CHART_DISPLAY_TOGGLES) @ CHART_DISPLAY_LINE_KEYS"

text \<open>\<open>/^#[0-9a-f]{6}$/i\<close> and \<open>toUpperCase\<close>.\<close>

definition upper_hex :: "char \<Rightarrow> char" where
  "upper_hex c = (let n = of_char c :: nat in if 97 \<le> n \<and> n \<le> 122 then char_of (n - 32) else c)"

definition hex_color :: "string \<Rightarrow> bool" where
  "hex_color s \<longleftrightarrow> length s = 7 \<and> take 1 s = ''#''
     \<and> list_all (\<lambda>c. hex_digit c \<or> (let n = of_char c :: nat in 65 \<le> n \<and> n \<le> 70)) (drop 1 s)"

definition read_color :: "json option \<Rightarrow> json" where
  "read_color v = (case v of Some (JStr s) \<Rightarrow> if hex_color s then JStr (map upper_hex s) else JStr [] | _ \<Rightarrow> JStr [])"

definition read_width :: "rat \<Rightarrow> json option \<Rightarrow> json" where
  "read_width d v = (case v of Some (JNum n) \<Rightarrow> if n \<in> {1, 2, 3, 4} then JNum n else JNum d | _ \<Rightarrow> JNum d)"

definition read_toggle :: "bool \<Rightarrow> json option \<Rightarrow> json" where
  "read_toggle d v = (case v of Some (JBool b) \<Rightarrow> JBool b | _ \<Rightarrow> JBool d)"

definition read_integer :: "rat \<Rightarrow> rat \<Rightarrow> rat \<Rightarrow> json option \<Rightarrow> json" where
  "read_integer d lo hi v = (case v of
     Some (JNum n) \<Rightarrow> if of_int \<lfloor>n\<rfloor> = n \<and> lo \<le> n \<and> n \<le> hi then JNum n else JNum d
   | _ \<Rightarrow> JNum d)"

text \<open>The members of the result in their order, each with its reader.\<close>

definition display_readers :: "(string \<times> (json option \<Rightarrow> json)) list" where
  "display_readers =
     concat (map (\<lambda>(k, w). [(k @ ''Color'', read_color), (k @ ''Width'', read_width w)]) CHART_DISPLAY_LINE_STYLES)
     @ map (\<lambda>(k, d). (k, read_toggle d)) CHART_DISPLAY_TOGGLES
     @ [(''volumeOverlayTransparency'', read_integer 65 0 100), (''volumeOverlayHeight'', read_integer 25 10 40),
        (''volumeOverlayUpColor'', read_color), (''volumeOverlayDownColor'', read_color)]"

text \<open>The value read is any record: a stored object or the state of the preference store.\<close>

definition display_prefs :: "(string \<Rightarrow> json option) \<Rightarrow> json" where
  "display_prefs source = JObj (map (\<lambda>(k, r). (k, r (source k))) display_readers)"

definition fields_of :: "json option \<Rightarrow> string \<Rightarrow> json option" where
  "fields_of raw k = Option.bind raw (\<lambda>v. member v k)"

definition normalizeChartDisplayPrefs :: "json option \<Rightarrow> json" where
  "normalizeChartDisplayPrefs raw = display_prefs (fields_of raw)"

subsection \<open>state/majorIndicesSettings.ts\<close>

definition MAJOR_INDICES :: "string list" where
  "MAJOR_INDICES = [''KOSPI'', ''KOSDAQ'', ''KOSPI200'']"

definition read_indices :: "json option \<Rightarrow> string list" where
  "read_indices v =
     (let chosen = filter (\<lambda>i. case json_arr v of Some xs \<Rightarrow> JStr i \<in> set xs | None \<Rightarrow> False) MAJOR_INDICES
      in if chosen \<noteq> [] then chosen else MAJOR_INDICES)"

definition normalizeMajorIndicesSettings :: "json option \<Rightarrow> json" where
  "normalizeMajorIndicesSettings raw =
     JObj [(''indices'', JArr (map JStr (read_indices (fields_of raw ''indices'')))),
           (''showStock'', read_toggle True (fields_of raw ''showStock'')),
           (''showTooltip'', read_toggle False (fields_of raw ''showTooltip''))]"

subsection \<open>state/windowSettings.ts\<close>

datatype WindowSettingsSection = ChartSection | IndicesSection

definition SECTIONS :: "WindowSettingsSection list" where "SECTIONS = [ChartSection, IndicesSection]"

fun section_name :: "WindowSettingsSection \<Rightarrow> string" where
  "section_name ChartSection = ''chart''" | "section_name IndicesSection = ''majorIndices''"

fun section_kind :: "WindowSettingsSection \<Rightarrow> WindowKind" where
  "section_kind ChartSection = ChartWindow" | "section_kind IndicesSection = MarketIndicesWindow"

fun normalize_section :: "WindowSettingsSection \<Rightarrow> json option \<Rightarrow> json" where
  "normalize_section ChartSection raw = normalizeChartDisplayPrefs raw"
| "normalize_section IndicesSection raw = normalizeMajorIndicesSettings raw"

type_synonym WindowSettings = "WindowSettingsSection \<rightharpoonup> json"

text \<open>\<open>object(raw)\<close> keeps objects only: an array has no members here.\<close>

definition sections_of :: "json option \<Rightarrow> WindowSettings" where
  "sections_of raw sec = fields_of raw (section_name sec)"

definition normalizeWindowSettings :: "WindowSettings \<Rightarrow> WindowKind option \<Rightarrow> bool \<Rightarrow> WindowSettings" where
  "normalizeWindowSettings source k fillDefaults sec =
     (if (k = None \<or> k = Some (section_kind sec)) \<and> (fillDefaults \<or> source sec \<noteq> None)
      then Some (normalize_section sec (source sec)) else None)"

definition object_members :: "json option \<Rightarrow> (string \<times> json) list" where
  "object_members raw = (case raw of Some (JObj ms) \<Rightarrow> ms | _ \<Rightarrow> [])"

text \<open>A chart section without the high-low fields takes those of the old global preferences.\<close>

definition inherit_high_low :: "json option \<Rightarrow> json option \<Rightarrow> json" where
  "inherit_high_low legacy chart =
     (let own = object_members chart in
      JObj (List.map_filter (\<lambda>k. if map_of own k \<noteq> None then None
              else map_option (\<lambda>v. (k, v)) (map_of (object_members legacy) k)) HIGH_LOW_WINDOW_PREF_KEYS @ own))"

definition read_window_settings :: "json option \<Rightarrow> json \<Rightarrow> WindowSettings" where
  "read_window_settings legacy v =
     (let source = sections_of (Some v) in
      normalizeWindowSettings
        (if source ChartSection \<noteq> None
         then source(ChartSection \<mapsto> inherit_high_low legacy (source ChartSection)) else source) None False)"

definition normalizeWindowSettingsSnapshot :: "json option \<Rightarrow> json option \<Rightarrow> (string \<times> WindowSettings) list" where
  "normalizeWindowSettingsSnapshot raw legacy =
     (let entries = (if fields_of raw ''schema_version'' = Some (JNum 1)
            then object_members (fields_of raw ''byWindow'') else [])
      in map (\<lambda>(i, v). (i, read_window_settings legacy v))
           (take 1024 (filter (\<lambda>(i, v). i \<noteq> [] \<and> i \<notin> {''__proto__'', ''prototype'', ''constructor''}
              \<and> (case v of JObj _ \<Rightarrow> True | _ \<Rightarrow> False)) entries)))"

record WindowSettingsStore =
  settingsByWindow :: "(string \<times> WindowSettings) list"
  storedSettings :: "json option"
  settingsEdits :: "string list"

definition settings_json :: "WindowSettings \<Rightarrow> json" where
  "settings_json s = JObj (List.map_filter (\<lambda>sec. map_option (\<lambda>v. (section_name sec, v)) (s sec)) SECTIONS)"

definition settings_snapshot :: "(string \<times> WindowSettings) list \<Rightarrow> json" where
  "settings_snapshot m = JObj [(''schema_version'', JNum 1),
     (''byWindow'', JObj (map (\<lambda>(i, s). (i, settings_json s)) m))]"

text \<open>Every change is written at once.\<close>

definition set_settings :: "(string \<times> WindowSettings) list \<Rightarrow> WindowSettingsStore \<Rightarrow> WindowSettingsStore" where
  "set_settings m st = st\<lparr>settingsByWindow := m, storedSettings := Some (settings_snapshot m)\<rparr>"

definition window_settings :: "WindowSettingsStore \<Rightarrow> string \<Rightarrow> WindowSettings" where
  "window_settings st i = (case map_of (settingsByWindow st) i of Some s \<Rightarrow> s | None \<Rightarrow> Map.empty)"

text \<open>The state a page starts with, and the other tab's write.\<close>

definition hydrateSettings :: "json option \<Rightarrow> json option \<Rightarrow> WindowSettingsStore" where
  "hydrateSettings raw legacy = \<lparr>settingsByWindow = normalizeWindowSettingsSnapshot raw legacy,
     storedSettings = raw, settingsEdits = []\<rparr>"

definition settingsStorageEvent :: "json option \<Rightarrow> json option \<Rightarrow> WindowSettingsStore \<Rightarrow> WindowSettingsStore" where
  "settingsStorageEvent raw legacy st = set_settings (normalizeWindowSettingsSnapshot raw legacy) st"

definition seedSettings :: "string \<Rightarrow> WindowSettings \<Rightarrow> string option \<Rightarrow> WindowSettingsStore \<Rightarrow> WindowSettingsStore" where
  "seedSettings i defaults sourceId st =
     (if (case map_of (settingsByWindow st) i of
            Some current \<Rightarrow> list_all (\<lambda>sec. defaults sec \<noteq> None \<longrightarrow> current sec \<noteq> None) SECTIONS
          | None \<Rightarrow> False) then st
      else let source = (case sourceId of Some j \<Rightarrow> if j \<noteq> [] then window_settings st j else Map.empty | None \<Rightarrow> Map.empty);
          inherited = (\<lambda>sec. if defaults sec \<noteq> None then source sec else None);
          settings = normalizeWindowSettings (defaults ++ inherited ++ window_settings st i) None False
        in if list_all (\<lambda>sec. settings sec = None) SECTIONS then st
           else set_settings (AList.update i settings (settingsByWindow st)) st)"

text \<open>\<open>{ ...old, ...patch }\<close>: a section that the window does not have is read as the empty object.\<close>

definition patchSettings ::
    "string \<Rightarrow> WindowSettingsSection \<Rightarrow> (string \<times> json) list \<Rightarrow> WindowSettingsStore \<Rightarrow> WindowSettingsStore" where
  "patchSettings i sec patch st =
     (let old = window_settings st i;
          merged = fold (\<lambda>(k, v) ms. AList.update k v ms) patch (object_members (old sec))
      in (set_settings (AList.update i (old(sec \<mapsto> normalize_section sec (Some (JObj merged)))) (settingsByWindow st)) st)
           \<lparr>settingsEdits := settingsEdits st @ [i]\<rparr>)"

definition restoreSettings :: "(string \<times> WindowSettings) list \<Rightarrow> WindowSettingsStore \<Rightarrow> WindowSettingsStore" where
  "restoreSettings es st =
     (if es = [] then st
      else set_settings (fold (\<lambda>(i, s). AList.update i (window_settings st i ++ normalizeWindowSettings s None False)) es
             (settingsByWindow st)) st)"

definition dropSettings :: "string list \<Rightarrow> WindowSettingsStore \<Rightarrow> WindowSettingsStore" where
  "dropSettings ids st =
     (if list_ex (\<lambda>i. i \<in> fst ` set (settingsByWindow st)) ids
      then set_settings (filter (\<lambda>(i, s). i \<notin> set ids) (settingsByWindow st)) st else st)"

subsection \<open>state/windowSettingsLifecycle.ts\<close>

text \<open>The global preferences are the state of the preference store.\<close>

definition default_settings :: "(string \<Rightarrow> json option) \<Rightarrow> WindowKind \<Rightarrow> WindowSettings" where
  "default_settings prefs k = normalizeWindowSettings [ChartSection \<mapsto> display_prefs prefs] (Some k) True"

definition seedSettingsForWindow ::
    "(string \<Rightarrow> json option) \<Rightarrow> string \<Rightarrow> WindowKind \<Rightarrow> string option \<Rightarrow> WindowSettingsStore \<Rightarrow> WindowSettingsStore" where
  "seedSettingsForWindow prefs i k sourceId st = seedSettings i (default_settings prefs k) sourceId st"

definition captureSettingsForWindow ::
    "(string \<Rightarrow> json option) \<Rightarrow> string \<Rightarrow> WindowKind \<Rightarrow> WindowSettingsStore \<Rightarrow> WindowSettings \<times> WindowSettingsStore" where
  "captureSettingsForWindow prefs i k st =
     (let st' = seedSettingsForWindow prefs i k None st
      in (normalizeWindowSettings (window_settings st' i) (Some k) False, st'))"

text \<open>The last element of the payload that has the id and settings wins.\<close>

definition raw_settings :: "json list \<Rightarrow> string \<Rightarrow> json option" where
  "raw_settings raws i = Option.bind
     (find (\<lambda>v. json_str (member v ''id'') = Some i \<and> member v ''windowSettings'' \<noteq> None) (rev raws))
     (\<lambda>v. member v ''windowSettings'')"

definition restoreSettingsFromPayload ::
    "(string \<times> WindowKind) list \<Rightarrow> json list \<Rightarrow> WindowSettingsStore \<Rightarrow> WindowSettingsStore" where
  "restoreSettingsFromPayload wins raws st =
     restoreSettings (List.map_filter (\<lambda>(i, k). map_option
       (\<lambda>v. (i, normalizeWindowSettings (sections_of (Some v)) (Some k) False)) (raw_settings raws i)) wins) st"

subsection \<open>What the operations keep\<close>

text \<open>A value that a normaliser wrote reads as itself.\<close>

lemma upper_hex_code:
  "(of_char (upper_hex c) :: nat) = (if 97 \<le> (of_char c :: nat) \<and> (of_char c :: nat) \<le> 122 then of_char c - 32 else of_char c)"
proof -
  have "(n - 32) mod 256 = n - 32" if "97 \<le> n" "n \<le> 122" for n :: nat using that by (intro mod_less) simp
  then show ?thesis by (auto simp: upper_hex_def Let_def)
qed

lemma upper_hex_twice: "upper_hex (upper_hex c) = upper_hex c"
proof -
  have "\<not> (97 \<le> (of_char (upper_hex c) :: nat) \<and> (of_char (upper_hex c) :: nat) \<le> 122)"
    unfolding upper_hex_code by auto
  then show ?thesis unfolding upper_hex_def [of "upper_hex c"] Let_def by (rule if_not_P)
qed

lemma upper_hex_hash: "upper_hex CHR ''#'' = CHR ''#''"
  by (simp add: upper_hex_def)

lemma upper_hex_digit:
  "hex_digit c \<or> 65 \<le> (of_char c :: nat) \<and> (of_char c :: nat) \<le> 70 \<Longrightarrow>
    hex_digit (upper_hex c) \<or> 65 \<le> (of_char (upper_hex c) :: nat) \<and> (of_char (upper_hex c) :: nat) \<le> 70"
  by (auto simp: upper_hex_code hex_digit_def is_digit_def Let_def)

lemma hex_color_upper: "hex_color s \<Longrightarrow> hex_color (map upper_hex s)"
  using upper_hex_digit upper_hex_hash
  by (cases s) (auto simp: hex_color_def Let_def list_all_iff)

lemma readers_idem:
  "read_color (Some (read_color v)) = read_color v"
  "read_toggle b (Some (read_toggle b v)) = read_toggle b v"
  by (auto simp: read_color_def read_toggle_def hex_color_upper upper_hex_twice split: option.split json.split)

lemma number_readers_idem:
  "read_width d (Some (read_width d v)) = read_width d v"
  "read_integer d lo hi (Some (read_integer d lo hi v)) = read_integer d lo hi v"
  by (auto simp: read_width_def read_integer_def split: option.split json.split)

lemma display_keys: "distinct (map fst display_readers)"
  by (simp add: display_readers_def CHART_DISPLAY_LINE_STYLES_def CHART_DISPLAY_TOGGLES_def)

lemma display_reader_idem: "(k, r) \<in> set display_readers \<Longrightarrow> r (Some (r v)) = r v"
  by (auto simp: display_readers_def readers_idem number_readers_idem)

lemma display_prefs_field:
  assumes "(k, r) \<in> set display_readers"
  shows "map_of (map (\<lambda>(k, r). (k, r (source k))) display_readers) k = Some (r (source k))"
proof -
  have "map fst (map (\<lambda>(k, r). (k, r (source k))) display_readers) = map fst display_readers" by (simp add: case_prod_beta)
  then show ?thesis using display_keys assms
    by (intro map_of_is_SomeI) (metis, force)
qed

lemma display_prefs_idem: "normalizeChartDisplayPrefs (Some (display_prefs source)) = display_prefs source"
  unfolding normalizeChartDisplayPrefs_def
  by (auto simp: display_prefs_def [of "fields_of v" for v] fields_of_def)
    (auto simp: display_prefs_def display_prefs_field display_reader_idem)

lemma filter_chosen: "filter (\<lambda>i. JStr i \<in> set (map JStr (filter P xs))) xs = filter P xs"
  by (rule filter_cong) auto

lemma read_indices_filter: "\<exists>P. read_indices v = filter P MAJOR_INDICES"
proof (cases "filter (\<lambda>i. case json_arr v of Some xs \<Rightarrow> JStr i \<in> set xs | None \<Rightarrow> False) MAJOR_INDICES = []")
  case True
  then show ?thesis by (intro exI [of _ "\<lambda>_. True"]) (simp only: read_indices_def Let_def, simp)
next
  case False
  then show ?thesis by (intro exI) (simp only: read_indices_def Let_def, simp)
qed

lemma read_indices_nonempty: "read_indices v \<noteq> []"
proof -
  have "MAJOR_INDICES \<noteq> []" by (simp add: MAJOR_INDICES_def)
  then show ?thesis unfolding read_indices_def Let_def by metis
qed

lemma read_indices_idem: "read_indices (Some (JArr (map JStr (read_indices v)))) = read_indices v"
proof -
  obtain P where P: "read_indices v = filter P MAJOR_INDICES" using read_indices_filter by blast
  show ?thesis using read_indices_nonempty [of v]
    unfolding read_indices_def [of "Some _"] Let_def json_simps option.case P filter_chosen by simp
qed

lemma section_idem: "normalize_section sec (Some (normalize_section sec raw)) = normalize_section sec raw"
proof (cases sec)
  case ChartSection then show ?thesis by (simp add: normalizeChartDisplayPrefs_def [of raw] display_prefs_idem)
next
  case IndicesSection
  then show ?thesis by (simp add: normalizeMajorIndicesSettings_def fields_of_def readers_idem read_indices_idem)
qed

text \<open>The invariant of the store: one entry per window, each section as its normaliser writes it.\<close>

definition normal_settings :: "WindowSettings \<Rightarrow> bool" where
  "normal_settings s \<longleftrightarrow> list_all (\<lambda>sec. case s sec of Some v \<Rightarrow> normalize_section sec (Some v) = v | None \<Rightarrow> True) SECTIONS"

definition settings_store_ok :: "WindowSettingsStore \<Rightarrow> bool" where
  "settings_store_ok st \<longleftrightarrow> distinct (map fst (settingsByWindow st))
     \<and> list_all (\<lambda>(i, s). normal_settings s) (settingsByWindow st)"

abbreviation settings_owners :: "WindowSettingsStore \<Rightarrow> string set" where
  "settings_owners st \<equiv> fst ` set (settingsByWindow st)"

lemma all_sections: "list_all P SECTIONS \<longleftrightarrow> (\<forall>sec. P sec)"
  by (auto simp: SECTIONS_def intro: WindowSettingsSection.exhaust) (metis WindowSettingsSection.exhaust)

lemma normal_settings_iff: "normal_settings s \<longleftrightarrow> (\<forall>sec v. s sec = Some v \<longrightarrow> normalize_section sec (Some v) = v)"
  unfolding normal_settings_def all_sections by (auto split: option.splits)

lemma normal_empty [simp]: "normal_settings Map.empty"
  by (simp add: normal_settings_iff)

lemma normal_add [intro]: "normal_settings a \<Longrightarrow> normal_settings b \<Longrightarrow> normal_settings (a ++ b)"
  by (auto simp: normal_settings_iff map_add_Some_iff)

lemma normal_normalize [simp, intro]: "normal_settings (normalizeWindowSettings s k f)"
  by (auto simp: normal_settings_iff normalizeWindowSettings_def section_idem)

lemma normalize_same: "normal_settings s \<Longrightarrow> normalizeWindowSettings s None False = s"
  by (rule ext) (auto simp: normal_settings_iff normalizeWindowSettings_def)

lemma settings_entry_ok: "settings_store_ok st \<Longrightarrow> map_of (settingsByWindow st) i = Some s \<Longrightarrow> normal_settings s"
  by (auto simp: settings_store_ok_def list_all_iff dest: map_of_SomeD)

lemma window_settings_normal: "settings_store_ok st \<Longrightarrow> normal_settings (window_settings st i)"
  by (auto simp: window_settings_def settings_entry_ok split: option.split)

lemma default_settings_normal [simp]: "normal_settings (default_settings prefs k)"
  by (simp add: default_settings_def)

lemma settings_update:
  "settings_store_ok st \<Longrightarrow> normal_settings s \<Longrightarrow> settings_store_ok (set_settings (AList.update i s (settingsByWindow st)) st)"
  "window_settings (set_settings (AList.update i s (settingsByWindow st)) st) j = (if j = i then s else window_settings st j)"
  "settings_owners (set_settings (AList.update i s (settingsByWindow st)) st) = insert i (settings_owners st)"
proof -
  have "set (AList.update i s m) \<subseteq> insert (i, s) (set m)" for m :: "(string \<times> WindowSettings) list"
    by (induction m) auto
  then show "settings_store_ok st \<Longrightarrow> normal_settings s \<Longrightarrow> settings_store_ok (set_settings (AList.update i s (settingsByWindow st)) st)"
    by (fastforce simp: settings_store_ok_def set_settings_def list_all_iff distinct_update)
qed (auto simp: window_settings_def set_settings_def update_conv' dom_update)

lemma seed_settings:
  assumes "settings_store_ok st" "normal_settings d"
  shows "settings_store_ok (seedSettings i d src st)"
    "window_settings (seedSettings i d None st) j = (if j = i then d ++ window_settings st i else window_settings st j)"
    "settings_owners (seedSettings i d src st) \<subseteq> insert i (settings_owners st)"
proof -
  show "settings_store_ok (seedSettings i d src st)" "settings_owners (seedSettings i d src st) \<subseteq> insert i (settings_owners st)"
    using assms(1) settings_update by (auto simp: seedSettings_def Let_def)
  have n: "normalizeWindowSettings (d ++ window_settings st i) None False = d ++ window_settings st i"
    using assms window_settings_normal by (intro normalize_same normal_add) auto
  show "window_settings (seedSettings i d None st) j = (if j = i then d ++ window_settings st i else window_settings st j)"
  proof (cases "case map_of (settingsByWindow st) i of
      Some current \<Rightarrow> list_all (\<lambda>sec. d sec \<noteq> None \<longrightarrow> current sec \<noteq> None) SECTIONS | None \<Rightarrow> False")
    case True
    then have *: "d sec \<noteq> None \<longrightarrow> window_settings st i sec \<noteq> None" for sec
      by (auto simp: all_sections window_settings_def split: option.splits)
    have "(d ++ window_settings st i) sec = window_settings st i sec" for sec
      using * [of sec] by (cases "window_settings st i sec"; cases "d sec") (simp_all add: map_add_def)
    then have "d ++ window_settings st i = window_settings st i" by (rule ext)
    then show ?thesis using True by (simp add: seedSettings_def)
  next
    case False
    have "(\<forall>sec. (d ++ window_settings st i) sec = None) \<Longrightarrow> d ++ window_settings st i = window_settings st i"
      by (auto simp: fun_eq_iff map_add_def split: option.splits)
    then show ?thesis unfolding seedSettings_def if_not_P [OF False] by (simp add: Let_def n all_sections settings_update(2))
  qed
qed

lemma drop_settings:
  "settings_store_ok st \<Longrightarrow> settings_store_ok (dropSettings ids st)"
  "window_settings (dropSettings ids st) j = (if j \<in> set ids then Map.empty else window_settings st j)"
  "settings_owners (dropSettings ids st) = settings_owners st - set ids"
proof -
  have "map_of (filter (\<lambda>(i, s). i \<notin> set ids) m) j = (if j \<in> set ids then None else map_of m j)" for m :: "(string \<times> WindowSettings) list"
    by (induction m) auto
  moreover have "map_of (settingsByWindow st) j = None" if "\<not> list_ex (\<lambda>i. i \<in> settings_owners st) ids" "j \<in> set ids"
    using that by (auto simp: list_ex_iff map_of_eq_None_iff)
  ultimately show "window_settings (dropSettings ids st) j = (if j \<in> set ids then Map.empty else window_settings st j)"
    by (auto simp: dropSettings_def set_settings_def window_settings_def)
  show "settings_store_ok st \<Longrightarrow> settings_store_ok (dropSettings ids st)"
    by (auto simp: dropSettings_def set_settings_def settings_store_ok_def list_all_iff distinct_map intro: inj_on_subset)
  show "settings_owners (dropSettings ids st) = settings_owners st - set ids"
    by (force simp: dropSettings_def set_settings_def list_ex_iff)
qed

lemma normal_update:
  "\<forall>(i, s) \<in> set m. normal_settings s \<Longrightarrow> normal_settings s \<Longrightarrow> \<forall>(i, s) \<in> set (AList.update i s m). normal_settings s"
  by (induction m) auto

lemma restore_entries:
  assumes "settings_store_ok st"
  shows "settings_store_ok (restoreSettings es st)" (is ?ok)
    "settings_owners (restoreSettings es st) \<subseteq> fst ` set es \<union> settings_owners st" (is ?owners)
    "window_settings (restoreSettings es st) j = (case map_of (rev es) j of
       Some s \<Rightarrow> window_settings st j ++ normalizeWindowSettings s None False | None \<Rightarrow> window_settings st j)" (is ?read)
proof -
  define val where "val = (\<lambda>(i, s). window_settings st i ++ normalizeWindowSettings s None False)"
  define m where "m = fold (\<lambda>(i, s). AList.update i (val (i, s))) es (settingsByWindow st)"
  have val: "normal_settings (val e)" for e
    using assms by (cases e) (auto simp: val_def window_settings_normal)
  have m: "distinct (map fst m) \<and> (\<forall>(i, s) \<in> set m. normal_settings s) \<and> fst ` set m = fst ` set es \<union> settings_owners st
    \<and> map_of m j = (case map_of (rev es) j of Some s \<Rightarrow> Some (val (j, s)) | None \<Rightarrow> map_of (settingsByWindow st) j)"
    unfolding m_def
  proof (induction es rule: rev_induct)
    case Nil then show ?case using assms by (auto simp: settings_store_ok_def list_all_iff)
  next
    case (snoc e es)
    obtain i s where e: "e = (i, s)" by force
    let ?m = "fold (\<lambda>(i, s). AList.update i (val (i, s))) es (settingsByWindow st)"
    have "\<forall>(i, s) \<in> set (AList.update i (val (i, s)) ?m). normal_settings s"
      using snoc.IH by (intro normal_update) (simp_all add: val)
    then show ?case using snoc.IH by (simp add: e dom_update distinct_update update_conv')
  qed
  have r: "restoreSettings es st = (if es = [] then st else set_settings m st)"
    by (simp add: restoreSettings_def m_def val_def)
  show ?ok using m assms by (auto simp: r set_settings_def settings_store_ok_def list_all_iff)
  show ?owners using m by (auto simp: r set_settings_def)
  show ?read using m by (auto simp: r set_settings_def window_settings_def val_def split: option.splits)
qed

text \<open>What is stored reads back: the reader of the storage changes nothing that was written here.\<close>

definition storable_settings :: "WindowSettingsStore \<Rightarrow> bool" where
  "storable_settings st \<longleftrightarrow> settings_store_ok st \<and> length (settingsByWindow st) \<le> 1024
     \<and> list_all (\<lambda>i. i \<noteq> [] \<and> i \<notin> {''__proto__'', ''prototype'', ''constructor''}) (map fst (settingsByWindow st))"

lemma sections_stored: "sections_of (Some (settings_json s)) = s"
proof
  fix sec show "sections_of (Some (settings_json s)) sec = s sec"
    by (cases sec; cases "s ChartSection"; cases "s IndicesSection")
      (simp_all add: sections_of_def settings_json_def fields_of_def SECTIONS_def List.map_filter_simps)
qed

lemma high_low_displayed: "k \<in> set HIGH_LOW_WINDOW_PREF_KEYS \<Longrightarrow> k \<in> fst ` set display_readers"
proof -
  have "list_all (\<lambda>k. k \<in> fst ` set display_readers) HIGH_LOW_WINDOW_PREF_KEYS" by code_simp
  then show "k \<in> set HIGH_LOW_WINDOW_PREF_KEYS \<Longrightarrow> k \<in> fst ` set display_readers" by (simp add: list_all_iff)
qed

lemma nothing_to_inherit: "inherit_high_low legacy (Some (display_prefs source)) = display_prefs source"
proof -
  let ?own = "map (\<lambda>(k, r). (k, r (source k))) display_readers"
  have "map_of ?own k \<noteq> None" if "k \<in> set HIGH_LOW_WINDOW_PREF_KEYS" for k
    using high_low_displayed [OF that] display_prefs_field by fastforce
  then have "List.map_filter (\<lambda>k. if map_of ?own k \<noteq> None then None
      else map_option (\<lambda>v. (k, v)) (map_of (object_members legacy) k)) HIGH_LOW_WINDOW_PREF_KEYS = []"
    by (simp add: List.map_filter_def)
  then show ?thesis by (simp add: inherit_high_low_def display_prefs_def object_members_def Let_def)
qed

lemma stored_section: "normal_settings s \<Longrightarrow> read_window_settings legacy (settings_json s) = s"
proof (cases "s ChartSection")
  case (Some v)
  assume n: "normal_settings s"
  then have v: "v = display_prefs (fields_of (Some v))"
    using Some by (metis normal_settings_iff normalize_section.simps(1) normalizeChartDisplayPrefs_def)
  have "inherit_high_low legacy (Some v) = v" by (subst (1 2) v) (rule nothing_to_inherit)
  then show ?thesis using n Some by (simp add: read_window_settings_def sections_stored normalize_same fun_upd_idem)
qed (simp add: read_window_settings_def sections_stored normalize_same)

lemma settings_reload:
  assumes "storable_settings st"
  shows "normalizeWindowSettingsSnapshot (Some (settings_snapshot (settingsByWindow st))) legacy = settingsByWindow st"
proof -
  let ?m = "settingsByWindow st"
  have "filter (\<lambda>(i, v). i \<noteq> [] \<and> i \<notin> {''__proto__'', ''prototype'', ''constructor''} \<and> (case v of JObj _ \<Rightarrow> True | _ \<Rightarrow> False))
      (map (\<lambda>(i, s). (i, settings_json s)) ?m) = map (\<lambda>(i, s). (i, settings_json s)) ?m"
    using assms by (auto simp: filter_id_conv storable_settings_def list_all_iff settings_json_def)
  moreover have "map (\<lambda>(i, v). (i, read_window_settings legacy v)) (map (\<lambda>(i, s). (i, settings_json s)) ?m) = ?m"
    using assms by (auto simp: storable_settings_def settings_store_ok_def list_all_iff stored_section intro!: map_idI)
  ultimately show ?thesis
    using assms unfolding normalizeWindowSettingsSnapshot_def settings_snapshot_def Let_def storable_settings_def
    by (simp add: fields_of_def object_members_def)
qed

end
