(* ===== verification/LiveLayout.thy ===== *)
theory LiveLayout
  imports PaneLayout WorkspaceStorage "HOL-Library.AList"
begin

section \<open>The layout of the live page\<close>

text \<open>
  \<open>state/liveLayout.ts\<close>: the right panel's width, the weights, order and flags of its cards, and the
  layout preset this tab applied last. The two places it writes to (\<open>live.layout.v1\<close>, shared by the
  tabs, and \<open>live.activePreset.v1\<close>, the tab's own) are fields here. A width that is not a finite number
  is \<open>None\<close>.
\<close>

subsection \<open>Cards\<close>

definition DEFAULT_RIGHT_PANEL_WIDTH_PX :: int where "DEFAULT_RIGHT_PANEL_WIDTH_PX = 400"

type_synonym LiveCardWeights = "(string \<times> rat) list"

definition DEFAULT_CARD_WEIGHTS :: LiveCardWeights where
  "DEFAULT_CARD_WEIGHTS = [(''orderbook'', 34), (''volumeDistribution'', 18), (''program'', 12),
     (''brokers'', 22), (''investor'', 14)]"

definition OBJECT_PROTOTYPE :: "string list" where
  "OBJECT_PROTOTYPE = [''constructor'', ''__defineGetter__'', ''__defineSetter__'', ''hasOwnProperty'',
     ''__lookupGetter__'', ''__lookupSetter__'', ''isPrototypeOf'', ''propertyIsEnumerable'', ''toString'',
     ''valueOf'', ''__proto__'', ''toLocaleString'']"

text \<open>\<open>value in DEFAULT_CARD_WEIGHTS\<close>: the operator sees the inherited members too.\<close>

definition isLiveCardKey :: "string \<Rightarrow> bool" where
  "isLiveCardKey k \<longleftrightarrow> k \<in> set (map fst DEFAULT_CARD_WEIGHTS) \<or> k \<in> set OBJECT_PROTOTYPE"

definition positive_number :: "json option \<Rightarrow> rat option" where
  "positive_number v = (case v of Some (JNum n) \<Rightarrow> if 0 < n then Some n else None | _ \<Rightarrow> None)"

text \<open>\<open>Math.round\<close>.\<close>

definition js_round :: "rat \<Rightarrow> int" where "js_round x = \<lfloor>x + 1 / 2\<rfloor>"

definition sanitizeRightPanelWidthPx :: "rat option \<Rightarrow> int" where
  "sanitizeRightPanelWidthPx w = (case w of
     Some x \<Rightarrow> if 0 < x then js_round x else DEFAULT_RIGHT_PANEL_WIDTH_PX
   | None \<Rightarrow> DEFAULT_RIGHT_PANEL_WIDTH_PX)"

text \<open>All or nothing, except that the card added last may be missing.\<close>

fun read_weights :: "json \<Rightarrow> LiveCardWeights \<Rightarrow> LiveCardWeights option" where
  "read_weights v [] = Some []"
| "read_weights v ((k, d) # ks) =
     (if member v k = None \<and> k = ''volumeDistribution'' then map_option (\<lambda>r. (k, d) # r) (read_weights v ks)
      else case positive_number (member v k) of
          None \<Rightarrow> None
        | Some n \<Rightarrow> map_option (\<lambda>r. (k, n) # r) (read_weights v ks))"

definition readPersistedCardWeights :: "json option \<Rightarrow> LiveCardWeights option" where
  "readPersistedCardWeights v = (case v of
     Some j \<Rightarrow> if is_object (Some j) then read_weights j DEFAULT_CARD_WEIGHTS else None
   | None \<Rightarrow> None)"

definition clampCardWeights :: "(string \<Rightarrow> rat option) \<Rightarrow> LiveCardWeights" where
  "clampCardWeights weights = map (\<lambda>(k, d). (k, case weights k of
     Some n \<Rightarrow> if 0 < n then n else d | None \<Rightarrow> d)) DEFAULT_CARD_WEIGHTS"

text \<open>An assignment to \<open>__proto__\<close> adds no member.\<close>

definition readCollapsedMap :: "json option \<Rightarrow> (string \<times> bool) list" where
  "readCollapsedMap v = (case v of
     Some j \<Rightarrow> List.map_filter (\<lambda>(k, raw). if isLiveCardKey k \<and> k \<noteq> ''__proto__''
         then map_option (\<lambda>b. (k, b)) (json_bool (Some raw)) else None) (entries_of j)
   | None \<Rightarrow> [])"

subsection \<open>The store\<close>

record LayoutFields =
  rightPanelWidthPx :: int
  rightCardWeights :: LiveCardWeights
  rightCardOrder :: "string list"
  rightCardHidden :: "(string \<times> bool) list"
  rightCardCollapsed :: "(string \<times> bool) list"
  detailPanelCollapsed :: bool
  lastAppliedPresetId :: "string option"

record LayoutStore = LayoutFields +
  sharedLayout :: "json option"
  tabPreset :: "json option"

definition preset_json :: "string option \<Rightarrow> json" where
  "preset_json p = (case p of Some i \<Rightarrow> JStr i | None \<Rightarrow> JNull)"

definition flags_json :: "(string \<times> bool) list \<Rightarrow> json" where
  "flags_json m = JObj (map (\<lambda>(k, b). (k, JBool b)) m)"

definition layout_json :: "'a LayoutFields_scheme \<Rightarrow> json" where
  "layout_json l = JObj [(''rightPanelWidthPx'', JNum (of_int (rightPanelWidthPx l))),
     (''rightCardWeights'', JObj (map (\<lambda>(k, n). (k, JNum n)) (rightCardWeights l))),
     (''rightCardOrder'', JArr (map JStr (rightCardOrder l))),
     (''rightCardHidden'', flags_json (rightCardHidden l)),
     (''rightCardCollapsed'', flags_json (rightCardCollapsed l)),
     (''detailPanelCollapsed'', JBool (detailPanelCollapsed l)),
     (''lastAppliedPresetId'', preset_json (lastAppliedPresetId l))]"

definition read_object :: "json option \<Rightarrow> json" where
  "read_object v = (case v of Some j \<Rightarrow> if is_object (Some j) then j else JObj [] | None \<Rightarrow> JObj [])"

definition readActivePresetId :: "json option \<Rightarrow> json option \<Rightarrow> string option" where
  "readActivePresetId tab sharedValue =
     (let own = member (read_object tab) ''lastAppliedPresetId''
      in if own \<noteq> None then json_str own else json_str sharedValue)"

text \<open>The store a page starts with: what \<open>readStorage\<close> finds over the defaults.\<close>

definition hydrateLayout :: "json option \<Rightarrow> json option \<Rightarrow> LayoutStore" where
  "hydrateLayout shared tab =
     (let parsed = read_object shared in
      \<lparr>rightPanelWidthPx = (case positive_number (member parsed ''rightPanelWidthPx'') of
          Some n \<Rightarrow> js_round n | None \<Rightarrow> DEFAULT_RIGHT_PANEL_WIDTH_PX),
       rightCardWeights = (case readPersistedCardWeights (member parsed ''rightCardWeights'') of
          Some w \<Rightarrow> w | None \<Rightarrow> DEFAULT_CARD_WEIGHTS),
       rightCardOrder = normalizeKeyOrder (case member parsed ''rightCardOrder'' of Some v \<Rightarrow> v | None \<Rightarrow> JNull)
          LIVE_CARD_KEYS isLiveCardKey,
       rightCardHidden = readCollapsedMap (member parsed ''rightCardHidden''),
       rightCardCollapsed = readCollapsedMap (member parsed ''rightCardCollapsed''),
       detailPanelCollapsed = (case json_bool (member parsed ''detailPanelCollapsed'') of Some b \<Rightarrow> b | None \<Rightarrow> False),
       lastAppliedPresetId = readActivePresetId tab (member parsed ''lastAppliedPresetId''),
       sharedLayout = shared, tabPreset = tab\<rparr>)"

definition persist_layout :: "LayoutStore \<Rightarrow> LayoutStore" where
  "persist_layout l = l\<lparr>sharedLayout := Some (layout_json l)\<rparr>"

definition persistActivePresetId :: "string option \<Rightarrow> LayoutStore \<Rightarrow> LayoutStore" where
  "persistActivePresetId p l = l\<lparr>tabPreset := Some (JObj [(''lastAppliedPresetId'', preset_json p)])\<rparr>"

definition setRightPanelWidthPx :: "rat option \<Rightarrow> LayoutStore \<Rightarrow> LayoutStore" where
  "setRightPanelWidthPx w l = persist_layout (l\<lparr>rightPanelWidthPx := sanitizeRightPanelWidthPx w\<rparr>)"

definition setRightCardOrder :: "string list \<Rightarrow> LayoutStore \<Rightarrow> LayoutStore" where
  "setRightCardOrder order l =
     persist_layout (l\<lparr>rightCardOrder := normalizeKeyOrder (JArr (map JStr order)) LIVE_CARD_KEYS isLiveCardKey\<rparr>)"

definition setCardHidden :: "string \<Rightarrow> bool \<Rightarrow> LayoutStore \<Rightarrow> LayoutStore" where
  "setCardHidden k b l = persist_layout (l\<lparr>rightCardHidden := AList.update k b (rightCardHidden l)\<rparr>)"

definition setDetailPanelCollapsed :: "bool \<Rightarrow> LayoutStore \<Rightarrow> LayoutStore" where
  "setDetailPanelCollapsed b l = persist_layout (l\<lparr>detailPanelCollapsed := b\<rparr>)"

definition toggleDetailPanelCollapsed :: "LayoutStore \<Rightarrow> LayoutStore" where
  "toggleDetailPanelCollapsed l = persist_layout (l\<lparr>detailPanelCollapsed := \<not> detailPanelCollapsed l\<rparr>)"

record LayoutPresetInput =
  in_width :: "rat option"
  in_order :: "string list"
  in_hidden :: "(string \<times> bool) list"
  in_collapsed :: "(string \<times> bool) list"
  in_weights :: "string \<Rightarrow> rat option"
  in_presetId :: "string option"

definition applyLayoutPreset :: "LayoutPresetInput \<Rightarrow> LayoutStore \<Rightarrow> LayoutStore" where
  "applyLayoutPreset input l =
     persistActivePresetId (in_presetId input) (persist_layout (l\<lparr>
       rightPanelWidthPx := sanitizeRightPanelWidthPx (in_width input),
       rightCardOrder := normalizeKeyOrder (JArr (map JStr (in_order input))) LIVE_CARD_KEYS isLiveCardKey,
       rightCardHidden := readCollapsedMap (Some (flags_json (in_hidden input))),
       rightCardCollapsed := readCollapsedMap (Some (flags_json (in_collapsed input))),
       rightCardWeights := clampCardWeights (in_weights input),
       lastAppliedPresetId := in_presetId input\<rparr>))"

definition setLastAppliedPresetId :: "string option \<Rightarrow> LayoutStore \<Rightarrow> LayoutStore" where
  "setLastAppliedPresetId p l = persistActivePresetId p (persist_layout (l\<lparr>lastAppliedPresetId := p\<rparr>))"

subsection \<open>Reading back\<close>

text \<open>What every setter keeps: the fields are those a reader of the storage would give.\<close>

definition flags_ok :: "(string \<times> bool) list \<Rightarrow> bool" where
  "flags_ok m \<longleftrightarrow> distinct (map fst m) \<and> list_all (\<lambda>k. isLiveCardKey k \<and> k \<noteq> ''__proto__'') (map fst m)"

definition layout_ok :: "'a LayoutFields_scheme \<Rightarrow> bool" where
  "layout_ok l \<longleftrightarrow> 0 < rightPanelWidthPx l
     \<and> map fst (rightCardWeights l) = map fst DEFAULT_CARD_WEIGHTS \<and> list_all (\<lambda>n. 0 < n) (map snd (rightCardWeights l))
     \<and> normalizeKeyOrder (JArr (map JStr (rightCardOrder l))) LIVE_CARD_KEYS isLiveCardKey = rightCardOrder l
     \<and> flags_ok (rightCardHidden l) \<and> flags_ok (rightCardCollapsed l)"

lemma flags_read: "flags_ok m \<Longrightarrow> readCollapsedMap (Some (flags_json m)) = m"
  by (induction m) (auto simp: flags_ok_def readCollapsedMap_def flags_json_def entries_of_def List.map_filter_simps)

lemma round_int: "js_round (of_int n) = n"
  unfolding js_round_def by (rule floor_unique) simp_all

lemma weights_read:
  assumes "distinct (map fst ds)" "\<And>k n. (k, n) \<in> set ws \<Longrightarrow> member v k = Some (JNum n) \<and> 0 < n" "map fst ws = map fst ds"
  shows "read_weights v ds = Some ws"
  using assms
proof (induction ds arbitrary: ws)
  case Nil then show ?case by simp
next
  case (Cons d ds)
  then obtain k e n us where *: "d = (k, e)" "ws = (k, n) # us" by (cases d; cases ws) auto
  have "read_weights v ds = Some us" using Cons.prems by (intro Cons.IH) (auto simp: *)
  moreover have "member v k = Some (JNum n)" "0 < n" using Cons.prems(2) [of k n] by (simp_all add: *)
  ultimately show ?case by (simp add: * positive_number_def)
qed

lemma default_weights_distinct: "distinct (map fst DEFAULT_CARD_WEIGHTS)"
  by (simp add: DEFAULT_CARD_WEIGHTS_def)

lemma weights_stored:
  assumes "map fst ws = map fst DEFAULT_CARD_WEIGHTS" "list_all (\<lambda>n. 0 < n) (map snd ws)"
  shows "readPersistedCardWeights (Some (JObj (map (\<lambda>(k, n). (k, JNum n)) ws))) = Some ws"
proof -
  have "distinct (map fst ws)" using assms(1) default_weights_distinct by simp
  then have "map_of (map (\<lambda>(k, n). (k, JNum n)) ws) k = Some (JNum n)" if "(k, n) \<in> set ws" for k n
    using map_of_is_SomeI [OF _ that] by (simp add: map_of_map)
  then show ?thesis using assms unfolding readPersistedCardWeights_def
    by (auto simp: list_all_iff intro!: weights_read default_weights_distinct)
qed

text \<open>A page that starts from what the tab wrote last shows the same layout and the same preset.\<close>

lemma layout_reload:
  assumes "layout_ok l" "sharedLayout l = Some (layout_json l)"
    "tabPreset l = Some (JObj [(''lastAppliedPresetId'', preset_json (lastAppliedPresetId l))])"
  shows "hydrateLayout (sharedLayout l) (tabPreset l) = l"
proof -
  have "json_str (Some (preset_json p)) = p" for p by (cases p) (simp_all add: preset_json_def json_str_def)
  then show ?thesis using assms weights_stored [of "rightCardWeights l"] flags_read
    by (simp add: hydrateLayout_def read_object_def layout_json_def layout_ok_def Let_def positive_number_def round_int
        readActivePresetId_def)
qed

lemma layout_ok_setters:
  "layout_ok l \<Longrightarrow> layout_ok (setDetailPanelCollapsed b l)" "layout_ok l \<Longrightarrow> layout_ok (toggleDetailPanelCollapsed l)"
  "layout_ok l \<Longrightarrow> layout_ok (setLastAppliedPresetId p l)"
  "layout_ok l \<Longrightarrow> isLiveCardKey k \<Longrightarrow> k \<noteq> ''__proto__'' \<Longrightarrow> layout_ok (setCardHidden k b l)"
  "layout_ok l \<Longrightarrow> (\<And>x. w = Some x \<Longrightarrow> 1 / 2 \<le> x) \<Longrightarrow> layout_ok (setRightPanelWidthPx w l)"
  by (auto simp: setDetailPanelCollapsed_def toggleDetailPanelCollapsed_def setLastAppliedPresetId_def setCardHidden_def
      setRightPanelWidthPx_def sanitizeRightPanelWidthPx_def js_round_def DEFAULT_RIGHT_PANEL_WIDTH_PX_def
      persist_layout_def persistActivePresetId_def layout_ok_def flags_ok_def list_all_iff dom_update
      intro!: distinct_update split: option.splits)

text \<open>Remembering a preset survives a reload whatever was stored, and leaves the rest of the layout.\<close>

lemma preset_remembered:
  "lastAppliedPresetId (hydrateLayout v (tabPreset (setLastAppliedPresetId p l))) = p"
  "LayoutFields.truncate (setLastAppliedPresetId p l) = (LayoutFields.truncate l)\<lparr>lastAppliedPresetId := p\<rparr>"
  by (cases p; simp add: hydrateLayout_def readActivePresetId_def setLastAppliedPresetId_def persistActivePresetId_def
      read_object_def preset_json_def json_str_def Let_def LayoutFields.defs persist_layout_def)+

text \<open>The guard of the card names accepts names that are not cards.\<close>

lemma inherited_card_name:
  "rightCardOrder (hydrateLayout (Some (JObj [(''rightCardOrder'', JArr [JStr ''toString''])])) None) = ''toString'' # LIVE_CARD_KEYS"
  by (simp add: hydrateLayout_def read_object_def Let_def normalizeKeyOrder_def key_step_def isLiveCardKey_def
      OBJECT_PROTOTYPE_def LIVE_CARD_KEYS_def)

end
