(* ===== verification/LayoutPresets.thy ===== *)
theory LayoutPresets
  imports NavigationLaws WindowSettings LiveLayout
begin

section \<open>Layout presets\<close>

text \<open>
  \<open>live/presets/layoutPresetSnapshot.ts\<close>: taking a preset of the workspace and applying one. A preset
  touches four stores: the workspace, the indicators, the settings of windows and the layout, which a
  \<open>Desk\<close> holds. The calls the workspace records while it applies the layout are run on the indicators
  and the settings in their order. What the indicator stores capture for a window is an argument of the
  capture; the global chart preferences are the state \<open>chartPrefs\<close> of the indicator model.
\<close>

subsection \<open>The stores\<close>

record Desk =
  desk_store :: Store
  desk_indicators :: Indicators
  desk_settings :: WindowSettingsStore
  desk_layout :: LayoutStore

text \<open>The calls on the settings; the last settings of a chart are restored for a chart window.\<close>

fun run_setting :: "(string \<Rightarrow> json option) \<Rightarrow> Effect \<Rightarrow> WindowSettingsStore \<Rightarrow> WindowSettingsStore" where
  "run_setting prefs (SeedSettings i k source) st = seedSettingsForWindow prefs i k source st"
| "run_setting prefs (DropSettings ids) st = dropSettings ids st"
| "run_setting prefs (RestoreSettings i v) st = restoreSettingsFromPayload [(i, ChartWindow)] [with_id v i] st"
| "run_setting prefs (SeedIndicators i source) st = st"
| "run_setting prefs (DropIndicators ids) st = st"
| "run_setting prefs (RestoreIndicators i v) st = st"

definition run_effect :: "Registry \<Rightarrow> Effect \<Rightarrow> Indicators \<times> WindowSettingsStore \<Rightarrow> Indicators \<times> WindowSettingsStore" where
  "run_effect reg e p = (case p of (ind, st) \<Rightarrow> (run_call reg e ind, run_setting (chartPrefs ind) e st))"

subsection \<open>Capture and application\<close>

definition payload_windows :: "json \<Rightarrow> json list" where
  "payload_windows payload = or_else (json_arr (member payload ''windows'')) []"

definition pinFlaggedIds :: "json list \<Rightarrow> string list" where
  "pinFlaggedIds raws = List.map_filter (\<lambda>v.
     if member v ''wasPinned'' = Some (JBool True) then json_str (member v ''id'') else None) raws"

text \<open>Capturing the settings of a window seeds them first.\<close>

definition capture_window :: "string list \<Rightarrow> (string \<Rightarrow> (string \<times> json) list) \<Rightarrow> (string \<Rightarrow> json option) \<Rightarrow> WorkspaceWindow
    \<Rightarrow> json list \<times> WindowSettingsStore \<Rightarrow> json list \<times> WindowSettingsStore" where
  "capture_window pinnedIds indicatorsOf prefs w acc = (case acc of (out, st) \<Rightarrow>
     (case captureSettingsForWindow prefs (w_id w) (w_kind w) st of (settings, st') \<Rightarrow>
        (out @ [JObj (object_members (Some (window_json (snapshot_window w)))
           @ (if w_kind w = ChartWindow then indicatorsOf (w_id w) else [])
           @ (if w_id w \<in> set pinnedIds then [(''wasPinned'', JBool True)] else [])
           @ [(''windowSettings'', settings_json settings)])], st')))"

definition capturePresetPayload ::
    "(string \<Rightarrow> (string \<times> json) list) \<Rightarrow> (string \<Rightarrow> json option) \<Rightarrow> Store \<Rightarrow> WindowSettingsStore \<Rightarrow> json \<times> WindowSettingsStore" where
  "capturePresetPayload indicatorsOf prefs s st =
     (case fold (capture_window (map w_id (filter (\<lambda>w. pinned w \<noteq> None) (windows s))) indicatorsOf prefs) (windows s) ([], st) of (ws, st') \<Rightarrow>
        (JObj [(''windows'', JArr ws), (''zOrder'', JArr (map JStr (zOrder s))), (''groupSymbols'', JObj [])], st'))"

text \<open>The layout first, then the indicators and settings of the windows that exist now, then the pins.\<close>

definition applyPresetPayload :: "Registry \<Rightarrow> (nat \<Rightarrow> string) \<Rightarrow> json \<Rightarrow> string option \<Rightarrow> Desk \<Rightarrow> Desk" where
  "applyPresetPayload reg mk payload presetId d =
     (let raws = payload_windows payload;
          s1 = applyWorkspaceSnapshot mk payload (desk_store d);
          (ind1, st1) = fold (run_effect reg) (calls_between (desk_store d) s1) (desk_indicators d, desk_settings d);
          ind2 = restoreIndicatorScopesFromPayload reg (map (\<lambda>w. (w_id w, w_kind w = ChartWindow)) (windows s1)) raws ind1;
          st2 = restoreSettingsFromPayload (map (\<lambda>w. (w_id w, w_kind w)) (windows s1)) raws st1
      in \<lparr>desk_store = pinWindows (pinFlaggedIds raws) s1, desk_indicators = ind2, desk_settings = st2,
          desk_layout = setLastAppliedPresetId presetId (desk_layout d)\<rparr>)"

definition defaultPresetPayload :: json where
  "defaultPresetPayload = JObj [(''windows'', JArr []), (''zOrder'', JArr []), (''groupSymbols'', JObj [])]"

subsection \<open>The pins of a preset\<close>

lemma find_pinned: "store_ok s \<Longrightarrow> keeps_shown any_kind s (pinWindows ids s)"
  unfolding keeps_shown_def
proof (intro ballI impI)
  fix w assume s: "store_ok s" and w: "w \<in> set (windows s)"
  have "find_window (map (pin_to_display s ids) (windows s)) (w_id w) = Some (pin_to_display s ids w)"
    by (simp add: find_map find_known [OF s w])
  then show "map_option (shown_code (pinWindows ids s)) (find_window (windows (pinWindows ids s)) (w_id w)) = Some (shown_code s w)"
    by (simp add: pinWindows_def find_known [OF s w] shown_code_def pinned_display)
qed

lemma snapshot_pin_kept:
  assumes s: "store_ok s" and w: "w \<in> set (windows s)" "pinned w \<noteq> None"
    and w': "w' \<in> set (windows (applyWorkspaceSnapshot mk v s))" "w_id w' = w_id w"
  shows "pinned w' = pinned w"
proof -
  obtain ws z where n: "normalizeWorkspaceSnapshot mk v = (ws, z)" by force
  have "windows (applyWorkspaceSnapshot mk v s) = map (\<lambda>w. fit_symbol (groupSymbols s) (carry_pin (windows s) w)) ws"
    by (simp add: applyWorkspaceSnapshot_def n Let_def)
  then obtain u where u: "w' = fit_symbol (groupSymbols s) (carry_pin (windows s) u)" using w'(1) by auto
  have "find_window (windows s) (w_id u) = Some w" using find_known [OF s w(1)] w'(2) by (simp add: u)
  then show ?thesis using carry_pin_pinned [of "windows s" u] s w(2) by (simp add: u store_ok_def ids_ok_def)
qed

lemma pinned_window_ids [simp]: "window_ids (pinWindows ids s) = window_ids s"
  by (simp add: pinWindows_def window_ids_put)

lemma pinned_groups [simp]: "groupSymbols (pinWindows ids s) = groupSymbols s"
  by (simp add: pinWindows_def)

lemma pin_windows_pinned: "w' \<in> set (windows (pinWindows ids s)) \<Longrightarrow>
    \<exists>u \<in> set (windows s). w_id u = w_id w' \<and> (pinned u \<noteq> None \<longrightarrow> w' = u)"
  by (auto simp: pinWindows_def pin_to_display_def split: if_splits)

subsection \<open>The calls of an application\<close>

lemma effects_indicators: "fst (fold (run_effect reg) es (ind, st)) = run_calls reg es ind"
  unfolding run_calls_def by (induction es arbitrary: ind st) (simp_all add: run_effect_def)

lemma drop_frame [simp]:
  "chartPrefs (dropIndicatorScopesForWindows ids ind) = chartPrefs ind"
  "indicatorsByTimeframe (dropIndicatorScopesForWindows ids ind) = indicatorsByTimeframe ind"
  "indicatorModalByTimeframe (dropIndicatorScopesForWindows ids ind) = indicatorModalByTimeframe ind"
  "indicatorSettings (dropIndicatorScopesForWindows ids ind) = indicatorSettings ind"
  "paneOrder (dropIndicatorScopesForWindows ids ind) = paneOrder ind"
  by (simp_all add: dropIndicatorScopesForWindows_def dropWindowIndicatorScopes_def dropIndicatorModalScopes_def
      persistIndicators_def Let_def)

lemma restore_frame [simp]:
  "chartPrefs (restoreIndicatorScopesFromPayload reg ws raws ind) = chartPrefs ind"
  "indicatorsByTimeframe (restoreIndicatorScopesFromPayload reg ws raws ind) = indicatorsByTimeframe ind"
  "indicatorModalByTimeframe (restoreIndicatorScopesFromPayload reg ws raws ind) = indicatorModalByTimeframe ind"
  "indicatorSettings (restoreIndicatorScopesFromPayload reg ws raws ind) = indicatorSettings ind"
  "paneOrder (restoreIndicatorScopesFromPayload reg ws raws ind) = paneOrder ind"
  by (simp_all add: restoreIndicatorScopesFromPayload_def restoreWindowIndicatorScopes_def restoreIndicatorModalScopes_def
      persistIndicators_def)

abbreviation seed_window :: "(string \<Rightarrow> json option) \<Rightarrow> WorkspaceWindow \<Rightarrow> WindowSettingsStore \<Rightarrow> WindowSettingsStore" where
  "seed_window prefs w \<equiv> seedSettingsForWindow prefs (w_id w) (w_kind w) None"

definition removed_windows :: "Store \<Rightarrow> Store \<Rightarrow> string list" where
  "removed_windows s t = filter (\<lambda>i. i \<notin> set (window_ids t)) (window_ids s)"

lemma snapshot_calls:
  "calls_between s (applyWorkspaceSnapshot mk v s) =
     [DropIndicators (removed_windows s (applyWorkspaceSnapshot mk v s)), DropSettings (removed_windows s (applyWorkspaceSnapshot mk v s))]
     @ map (\<lambda>w. SeedSettings (w_id w) (w_kind w) None) (windows (applyWorkspaceSnapshot mk v s))"
  by (simp add: calls_between_def removed_windows_def window_ids_def applyWorkspaceSnapshot_def Let_def split: prod.split)

lemma seeds_run:
  "fold (run_effect reg) (map (\<lambda>w. SeedSettings (w_id w) (w_kind w) None) ws) (ind, st)
     = (ind, fold (seed_window (chartPrefs ind)) ws st)"
  by (induction ws arbitrary: st) (simp_all add: run_effect_def)

lemma snapshot_run:
  "fold (run_effect reg) (calls_between s (applyWorkspaceSnapshot mk v s)) (ind, st) =
    (let r = removed_windows s (applyWorkspaceSnapshot mk v s) in (dropIndicatorScopesForWindows r ind,
       fold (seed_window (chartPrefs ind)) (windows (applyWorkspaceSnapshot mk v s)) (dropSettings r st)))"
  unfolding snapshot_calls Let_def by (simp add: run_effect_def seeds_run)

subsection \<open>The settings after an application\<close>

lemma seeded_windows:
  assumes "settings_store_ok st"
  shows "settings_store_ok (fold (seed_window prefs) ws st)"
    and "settings_owners (fold (seed_window prefs) ws st) \<subseteq> set (map w_id ws) \<union> settings_owners st"
    and "j \<notin> set (map w_id ws) \<Longrightarrow> window_settings (fold (seed_window prefs) ws st) j = window_settings st j"
    and "distinct (map w_id ws) \<Longrightarrow> w \<in> set ws \<Longrightarrow>
      window_settings (fold (seed_window prefs) ws st) (w_id w) = default_settings prefs (w_kind w) ++ window_settings st (w_id w)"
proof -
  have seed: "settings_store_ok (seed_window prefs w st)" "settings_owners (seed_window prefs w st) \<subseteq> insert (w_id w) (settings_owners st)"
    "window_settings (seed_window prefs w st) j = (if j = w_id w then default_settings prefs (w_kind w) ++ window_settings st (w_id w)
       else window_settings st j)" if "settings_store_ok st" for st w j
    using seed_settings [OF that default_settings_normal] by (simp_all add: seedSettingsForWindow_def)
  show "settings_store_ok (fold (seed_window prefs) ws st)" using assms by (induction ws arbitrary: st) (simp_all add: seed)
  show "settings_owners (fold (seed_window prefs) ws st) \<subseteq> set (map w_id ws) \<union> settings_owners st"
    using assms
  proof (induction ws arbitrary: st)
    case (Cons u us) then show ?case using Cons.IH [OF seed(1) [OF Cons.prems, of u]] seed(2) [OF Cons.prems, of u] by simp blast
  qed simp
  have other: "window_settings (fold (seed_window prefs) ws st) j = window_settings st j"
    if "settings_store_ok st" "j \<notin> set (map w_id ws)" for ws st j
    using that by (induction ws arbitrary: st) (simp_all add: seed)
  then show "j \<notin> set (map w_id ws) \<Longrightarrow> window_settings (fold (seed_window prefs) ws st) j = window_settings st j"
    using assms by blast
  show "distinct (map w_id ws) \<Longrightarrow> w \<in> set ws \<Longrightarrow>
      window_settings (fold (seed_window prefs) ws st) (w_id w) = default_settings prefs (w_kind w) ++ window_settings st (w_id w)"
    using assms
  proof (induction ws arbitrary: st)
    case (Cons u us)
    show ?case
    proof (cases "w = u")
      case True then show ?thesis using Cons.prems other [of "seed_window prefs u st" "w_id u" us] by (simp add: seed)
    next
      case False
      then have m: "w \<in> set us" using Cons.prems by simp
      then have "w_id w \<noteq> w_id u" using Cons.prems by (metis distinct.simps(2) image_eqI list.set_map list.simps(9))
      note this m
      then show ?thesis using Cons.IH [of "seed_window prefs u st"] Cons.prems by (simp add: seed)
    qed
  qed simp
qed

lemma keyed_entries:
  fixes f :: "WorkspaceWindow \<Rightarrow> 'a option"
  shows "fst ` set (List.map_filter (\<lambda>w. map_option (\<lambda>v. (w_id w, v)) (f w)) ws) \<subseteq> set (map w_id ws)"
    and "distinct (map w_id ws) \<Longrightarrow> distinct (map fst (List.map_filter (\<lambda>w. map_option (\<lambda>v. (w_id w, v)) (f w)) ws))"
    and "distinct (map w_id ws) \<Longrightarrow> w \<in> set ws \<Longrightarrow>
      map_of (List.map_filter (\<lambda>w. map_option (\<lambda>v. (w_id w, v)) (f w)) ws) (w_id w) = f w"
proof -
  let ?e = "List.map_filter (\<lambda>w. map_option (\<lambda>v. (w_id w, v)) (f w))"
  have keys: "fst ` set (?e us) \<subseteq> set (map w_id us)" for us by (auto simp: List.map_filter_def)
  have step: "?e (u # us) = (case f u of None \<Rightarrow> ?e us | Some v \<Rightarrow> (w_id u, v) # ?e us)" for u us
    by (simp add: List.map_filter_simps split: option.split)
  show "fst ` set (?e ws) \<subseteq> set (map w_id ws)" by (rule keys)
  show "distinct (map w_id ws) \<Longrightarrow> distinct (map fst (?e ws))"
  proof (induction ws)
    case (Cons u us) then show ?case using keys [of us] unfolding step by (cases "f u") auto
  qed (simp add: List.map_filter_simps)
  show "distinct (map w_id ws) \<Longrightarrow> w \<in> set ws \<Longrightarrow> map_of (?e ws) (w_id w) = f w"
  proof (induction ws)
    case (Cons u us)
    have none: "map_of (?e us) (w_id u) = None" using keys [of us] Cons.prems(1) by (auto simp: map_of_eq_None_iff)
    have "w_id w \<noteq> w_id u" if "w \<in> set us" using that Cons.prems(1) by (metis distinct.simps(2) image_eqI list.set_map list.simps(9))
    then show ?case using Cons none unfolding step by (cases "f u") auto
  qed simp
qed

lemma map_of_rev_distinct: "distinct (map fst es) \<Longrightarrow> map_of (rev es) = map_of es"
  by (intro map_of_inject_set [THEN iffD2]) (simp_all add: rev_map [symmetric])

definition preset_settings :: "json list \<Rightarrow> WorkspaceWindow \<Rightarrow> WindowSettings" where
  "preset_settings raws w = (case raw_settings raws (w_id w) of
     Some v \<Rightarrow> normalizeWindowSettings (sections_of (Some v)) (Some (w_kind w)) False | None \<Rightarrow> Map.empty)"

lemma restored_windows:
  assumes "settings_store_ok st" and d: "distinct (map w_id ws)"
  shows "settings_owners (restoreSettingsFromPayload (map (\<lambda>w. (w_id w, w_kind w)) ws) raws st) \<subseteq> set (map w_id ws) \<union> settings_owners st"
    and "w \<in> set ws \<Longrightarrow> window_settings (restoreSettingsFromPayload (map (\<lambda>w. (w_id w, w_kind w)) ws) raws st) (w_id w)
      = window_settings st (w_id w) ++ preset_settings raws w"
proof -
  let ?f = "\<lambda>w. map_option (\<lambda>v. normalizeWindowSettings (sections_of (Some v)) (Some (w_kind w)) False) (raw_settings raws (w_id w))"
  define es where "es = List.map_filter (\<lambda>w. map_option (\<lambda>v. (w_id w, v)) (?f w)) ws"
  have r: "restoreSettingsFromPayload (map (\<lambda>w. (w_id w, w_kind w)) ws) raws st = restoreSettings es st"
    by (simp add: restoreSettingsFromPayload_def es_def List.map_filter_def comp_def filter_map option.map_comp)
  show "settings_owners (restoreSettingsFromPayload (map (\<lambda>w. (w_id w, w_kind w)) ws) raws st) \<subseteq> set (map w_id ws) \<union> settings_owners st"
    using restore_entries(2) [OF assms(1), of es] keyed_entries(1) [of ?f ws] unfolding r es_def by blast
  assume w: "w \<in> set ws"
  have "map_of (rev es) (w_id w) = ?f w"
    unfolding es_def using keyed_entries(3) [OF d w, of ?f] keyed_entries(2) [OF d, of ?f] by (simp add: map_of_rev_distinct)
  then show "window_settings (restoreSettingsFromPayload (map (\<lambda>w. (w_id w, w_kind w)) ws) raws st) (w_id w)
      = window_settings st (w_id w) ++ preset_settings raws w"
    using restore_entries(3) [OF assms(1), of es "w_id w"]
    by (simp add: r preset_settings_def normalize_same split: option.split)
qed

subsection \<open>The windows after an application\<close>

definition pin_after :: "Store \<Rightarrow> string list \<Rightarrow> WorkspaceWindow \<Rightarrow> GroupSymbol option" where
  "pin_after s flagged w = (case Option.bind (find_window (windows s) (w_id w)) pinned of
     Some p \<Rightarrow> Some p
   | None \<Rightarrow> if w_id w \<in> set flagged \<and> pinnable w then groupSymbols s (w_group w) else None)"

lemma windows_pinned: "windows (pinWindows ids s) = map (pin_to_display s ids) (windows s)"
  by (auto simp: pinWindows_def pin_to_display_def list_ex_iff intro!: map_idI [symmetric])

lemma pin_fitted:
  assumes "pinned w = None" "pinned (carry_pin (windows s) w) = Option.bind (find_window (windows s) (w_id w)) pinned"
    "groupSymbols t = groupSymbols s"
  shows "pin_to_display t ids (fit_symbol (groupSymbols s) (carry_pin (windows s) w))
    = fit_symbol (groupSymbols s) (w\<lparr>pinned := pin_after s ids w\<rparr>)"
proof -
  have c: "carry_pin (windows s) w = w\<lparr>pinned := Option.bind (find_window (windows s) (w_id w)) pinned\<rparr>"
    using assms(1,2) by (auto simp: carry_pin_def split: option.splits)
  have us: "(normalizeUsWindow v y)\<lparr>pinned := q\<rparr> = normalizeUsWindow (v\<lparr>pinned := q\<rparr>) y" for v y q
    by (simp add: normalizeUsWindow_def Let_def split: option.split)
  show ?thesis
  proof (cases "Option.bind (find_window (windows s) (w_id w)) pinned")
    case (Some p) then show ?thesis by (simp add: c pin_after_def pin_to_display_def)
  next
    case None
    have "display t (fit_symbol (groupSymbols s) (w\<lparr>pinned := None\<rparr>)) = groupSymbols s (w_group w)" if "pinnable w"
      using that assms(3) by (auto simp: display_def windowSymbolOf_def pinnable_def)
    moreover have "pinnable (fit_symbol (groupSymbols s) (w\<lparr>pinned := None\<rparr>)) = pinnable w" by (simp add: pinnable_def)
    ultimately show ?thesis
      using None by (auto simp: c pin_after_def pin_to_display_def us fit_symbol_def split: option.split)
  qed
qed

lemma preset_windows:
  assumes s: "store_ok s" and n: "normalizeWorkspaceSnapshot mk v = (ws, z)"
  shows "windows (pinWindows ids (applyWorkspaceSnapshot mk v s))
    = map (\<lambda>w. fit_symbol (groupSymbols s) (w\<lparr>pinned := pin_after s ids w\<rparr>)) ws"
proof -
  have w: "windows (applyWorkspaceSnapshot mk v s) = map (\<lambda>w. fit_symbol (groupSymbols s) (carry_pin (windows s) w)) ws"
    "groupSymbols (applyWorkspaceSnapshot mk v s) = groupSymbols s"
    by (simp_all add: applyWorkspaceSnapshot_def n Let_def)
  have none: "pinned u = None" if "u \<in> set ws" for u using preset_read [OF n] that by (simp add: list_all_iff)
  have "pinned (carry_pin (windows s) u) = Option.bind (find_window (windows s) (w_id u)) pinned" if "u \<in> set ws" for u
    using carry_pin_pinned [of "windows s" u] s none [OF that] by (auto simp: store_ok_def ids_ok_def split: option.split)
  then show ?thesis using pin_fitted [OF none _ w(2)] by (simp add: windows_pinned w(1))
qed

subsection \<open>The indicators after an application\<close>

definition indicator_after :: "(string \<times> Buckets \<times> Buckets) list \<Rightarrow> string set \<Rightarrow> Scopes \<Rightarrow> string \<Rightarrow> Buckets option" where
  "indicator_after es gone m k = (case map_of (rev es) k of
     Some (b, d) \<Rightarrow> Some b | None \<Rightarrow> if k \<in> gone then None else map_of m k)"

lemma update_length: "length (AList.update k b m) \<le> Suc (length m)"
  by (induction m) auto

lemma restore_with_room:
  assumes "length m + length es \<le> INDICATOR_WINDOW_SCOPE_LIMIT" "[] \<notin> fst ` set es"
  shows "map_of (restore_entries es m) k = (case map_of (rev es) k of Some b \<Rightarrow> Some b | None \<Rightarrow> map_of m k)"
  using assms
proof (induction es arbitrary: m)
  case (Cons e es)
  obtain j b where e: "e = (j, b)" by force
  have "accepts m j" using Cons.prems by (auto simp: accepts_def e)
  moreover have "length (AList.update j b m) + length es \<le> INDICATOR_WINDOW_SCOPE_LIMIT"
    using Cons.prems(1) update_length [of j b m] by simp
  ultimately show ?case using Cons.IH [of "AList.update j b m"] Cons.prems(2)
    by (simp add: e update_conv' map_add_Some_iff split: option.split)
qed simp

lemma dropped_entries:
  "map_of (drop_entries ks m) k = (if k \<in> set ks then None else map_of m k)" "length (drop_entries ks m) \<le> length m"
proof -
  have *: "map_of (fold AList.delete xs m) k = (if k \<in> set xs then None else map_of m k)" for xs and m :: Scopes
    by (induction xs arbitrary: m) (auto simp: delete_conv')
  have "map_of m k = None" if "\<not> has_scope m k" using that by (simp add: has_scope_def map_of_eq_None_iff)
  then show "map_of (drop_entries ks m) k = (if k \<in> set ks then None else map_of m k)" by (auto simp: drop_entries_def *)
  have "length (AList.delete i m) \<le> length m" for i and m :: Scopes by (simp add: AList.delete_eq)
  then have "length (fold AList.delete xs m) \<le> length m" for xs and m :: Scopes
    by (induction xs arbitrary: m) (simp_all, meson le_trans)
  then show "length (drop_entries ks m) \<le> length m" by (simp add: drop_entries_def)
qed

lemma dropped_scopes:
  "map_of (indicatorsByWindow (dropIndicatorScopesForWindows ids ind)) k
     = (if k \<in> keys_of (set ids) then None else map_of (indicatorsByWindow ind) k)"
  "length (indicatorsByWindow (dropIndicatorScopesForWindows ids ind)) \<le> length (indicatorsByWindow ind)"
proof -
  have d: "indicatorsByWindow (dropWindowIndicatorScopes ks ind) = drop_entries ks (indicatorsByWindow ind)" for ks
    by (cases "filter (has_scope (indicatorsByWindow ind)) ks = []")
      (simp_all add: dropWindowIndicatorScopes_def dropIndicatorModalScopes_def persistIndicators_def drop_entries_def Let_def)
  show "map_of (indicatorsByWindow (dropIndicatorScopesForWindows ids ind)) k
     = (if k \<in> keys_of (set ids) then None else map_of (indicatorsByWindow ind) k)"
    by (simp add: dropIndicatorScopesForWindows_def d dropped_entries keys_of_list)
  show "length (indicatorsByWindow (dropIndicatorScopesForWindows ids ind)) \<le> length (indicatorsByWindow ind)"
    by (simp add: dropIndicatorScopesForWindows_def d dropped_entries)
qed

lemma payload_keys_nonempty: "[] \<notin> fst ` set (payload_entries reg ws raws)"
proof -
  have "k \<noteq> []" if "(k, b) \<in> set (payload_entry reg i raw x)" for k b i raw x
    using that by (auto simp: payload_entry_def windowScopeKey_def Let_def split: option.splits if_splits)
  then show ?thesis by (fastforce simp: payload_entries_def split: option.splits if_splits)
qed

lemma preset_indicators:
  assumes "length (indicatorsByWindow ind) + length (payload_entries reg ws raws) \<le> INDICATOR_WINDOW_SCOPE_LIMIT"
  shows "map_of (indicatorsByWindow (restoreIndicatorScopesFromPayload reg ws raws (dropIndicatorScopesForWindows ids ind))) k
    = indicator_after (payload_entries reg ws raws) (keys_of (set ids)) (indicatorsByWindow ind) k"
proof -
  let ?es = "payload_entries reg ws raws"
  let ?m = "indicatorsByWindow (dropIndicatorScopesForWindows ids ind)"
  have d: "map_of ?m k = (if k \<in> keys_of (set ids) then None else map_of (indicatorsByWindow ind) k)" "length ?m \<le> length (indicatorsByWindow ind)"
    by (simp_all add: dropped_scopes)
  have r: "map_of (rev (map (\<lambda>(k, b, _). (k, b)) es)) k = map_option fst (map_of (rev es) k)" for es :: "(string \<times> Buckets \<times> Buckets) list"
  proof -
    have "map_of (map (\<lambda>(k, b, _). (k, b)) xs) k = map_option fst (map_of xs k)" for xs :: "(string \<times> Buckets \<times> Buckets) list"
      by (induction xs) auto
    then show ?thesis by (simp add: rev_map)
  qed
  have "indicatorsByWindow (restoreIndicatorScopesFromPayload reg ws raws (dropIndicatorScopesForWindows ids ind))
    = restore_entries (map (\<lambda>(k, b, _). (k, b)) ?es) ?m"
    by (simp add: restoreIndicatorScopesFromPayload_def restoreWindowIndicatorScopes_def restoreIndicatorModalScopes_def
        persistIndicators_def)
  moreover have "[] \<notin> fst ` set (map (\<lambda>(k, b, _). (k, b)) ?es)" using payload_keys_nonempty [of reg ws raws] by force
  ultimately show ?thesis
    using restore_with_room [of ?m "map (\<lambda>(k, b, _). (k, b)) ?es" k] assms d
    by (simp add: r indicator_after_def split: option.split)
qed

subsection \<open>Applying a preset\<close>

lemma snapshot_store:
  assumes "normalizeWorkspaceSnapshot mk v = (ws, z)"
  shows "zOrder (applyWorkspaceSnapshot mk v s) = z" "groupSymbols (applyWorkspaceSnapshot mk v s) = groupSymbols s"
    "canvasSize (applyWorkspaceSnapshot mk v s) = canvasSize s" "maximizedId (applyWorkspaceSnapshot mk v s) = None"
    "blockedActivation (applyWorkspaceSnapshot mk v s) = blockedActivation s"
    "pendingNormalize (applyWorkspaceSnapshot mk v s) = pendingNormalize s"
    "chartRuntime (applyWorkspaceSnapshot mk v s) = (\<lambda>_. None)"
  by (simp_all add: applyWorkspaceSnapshot_def assms Let_def)

lemma pins_store:
  "zOrder (pinWindows ids s) = zOrder s" "canvasSize (pinWindows ids s) = canvasSize s"
  "maximizedId (pinWindows ids s) = maximizedId s" "blockedActivation (pinWindows ids s) = blockedActivation s"
  "pendingNormalize (pinWindows ids s) = pendingNormalize s" "chartRuntime (pinWindows ids s) = chartRuntime s"
  by (simp_all add: pinWindows_def)

lemma pins_kinds: "map (\<lambda>w. (w_id w, w_kind w)) (windows (pinWindows ids s)) = map (\<lambda>w. (w_id w, w_kind w)) (windows s)"
  by (simp add: windows_pinned pin_to_display_def)

text \<open>The stores after an application, from the stores before.\<close>

lemma applied:
  assumes "applyPresetPayload reg mk payload p \<lparr>desk_store = s, desk_indicators = ind, desk_settings = st, desk_layout = l\<rparr>
      = \<lparr>desk_store = t, desk_indicators = ind', desk_settings = st', desk_layout = l'\<rparr>"
  shows "t = pinWindows (pinFlaggedIds (payload_windows payload)) (applyWorkspaceSnapshot mk payload s)"
    and "ind' = restoreIndicatorScopesFromPayload reg (map (\<lambda>w. (w_id w, w_kind w = ChartWindow)) (windows t)) (payload_windows payload)
        (dropIndicatorScopesForWindows (removed_windows s t) ind)"
    and "st' = restoreSettingsFromPayload (map (\<lambda>w. (w_id w, w_kind w)) (windows t)) (payload_windows payload)
        (fold (seed_window (chartPrefs ind)) (windows t) (dropSettings (removed_windows s t) st))"
    and "l' = setLastAppliedPresetId p l"
proof -
  let ?s1 = "applyWorkspaceSnapshot mk payload s"
  show t: "t = pinWindows (pinFlaggedIds (payload_windows payload)) ?s1" and "l' = setLastAppliedPresetId p l"
    using assms by (simp_all add: applyPresetPayload_def Let_def snapshot_run)
  have k: "map (\<lambda>w. (w_id w, w_kind w)) (windows t) = map (\<lambda>w. (w_id w, w_kind w)) (windows ?s1)"
    by (simp add: t pins_kinds)
  have m: "map (\<lambda>w. (w_id w, w_kind w = ChartWindow)) us = map (\<lambda>(i, c). (i, c = ChartWindow)) (map (\<lambda>w. (w_id w, w_kind w)) us)"
    for us by simp
  then have c: "map (\<lambda>w. (w_id w, w_kind w = ChartWindow)) (windows t) = map (\<lambda>w. (w_id w, w_kind w = ChartWindow)) (windows ?s1)"
    unfolding m k ..
  have g: "removed_windows s t = removed_windows s ?s1" by (simp add: removed_windows_def t)
  have "fold (seed_window q) us = fold (\<lambda>(i, c). seedSettingsForWindow q i c None) (map (\<lambda>w. (w_id w, w_kind w)) us)" for q us
    by (simp add: fold_map comp_def)
  then have f: "fold (seed_window (chartPrefs ind)) (windows t) = fold (seed_window (chartPrefs ind)) (windows ?s1)"
    by (simp only: k)
  show "ind' = restoreIndicatorScopesFromPayload reg (map (\<lambda>w. (w_id w, w_kind w = ChartWindow)) (windows t)) (payload_windows payload)
        (dropIndicatorScopesForWindows (removed_windows s t) ind)"
    and "st' = restoreSettingsFromPayload (map (\<lambda>w. (w_id w, w_kind w)) (windows t)) (payload_windows payload)
        (fold (seed_window (chartPrefs ind)) (windows t) (dropSettings (removed_windows s t) st))"
    unfolding c g f k using assms by (simp_all add: applyPresetPayload_def Let_def snapshot_run)
qed

lemma applied_settings:
  assumes st: "settings_store_ok st" and d: "distinct (map w_id ws)"
    and st': "st' = restoreSettingsFromPayload (map (\<lambda>w. (w_id w, w_kind w)) ws) raws (fold (seed_window prefs) ws (dropSettings gone st))"
    and g: "gone = filter (\<lambda>i. i \<notin> set (map w_id ws)) ids"
  shows "\<forall>w \<in> set ws. window_settings st' (w_id w) = default_settings prefs (w_kind w) ++ window_settings st (w_id w) ++ preset_settings raws w"
    and "settings_owners st' \<subseteq> (settings_owners st - set ids) \<union> set (map w_id ws)"
proof -
  let ?a = "dropSettings gone st" and ?b = "fold (seed_window prefs) ws (dropSettings gone st)"
  have a: "settings_store_ok ?a" by (rule drop_settings(1) [OF st])
  have b: "settings_store_ok ?b" by (rule seeded_windows(1) [OF a])
  have "window_settings ?a (w_id w) = window_settings st (w_id w)" if "w \<in> set ws" for w
    using that by (simp add: drop_settings(2) g)
  then show "\<forall>w \<in> set ws. window_settings st' (w_id w)
      = default_settings prefs (w_kind w) ++ window_settings st (w_id w) ++ preset_settings raws w"
    unfolding st' using restored_windows(2) [OF b d] seeded_windows(4) [OF a d] by simp
  have "settings_owners st' \<subseteq> set (map w_id ws) \<union> (set (map w_id ws) \<union> (settings_owners st - set gone))"
    unfolding st' using restored_windows(1) [OF b d] seeded_windows(2) [OF a] drop_settings(3) [of gone st] by blast
  moreover have "settings_owners st - set gone \<subseteq> (settings_owners st - set ids) \<union> set (map w_id ws)" by (auto simp: g)
  ultimately show "settings_owners st' \<subseteq> (settings_owners st - set ids) \<union> set (map w_id ws)" by blast
qed

lemma applied_entries:
  assumes ind': "ind' = restoreIndicatorScopesFromPayload reg wins raws (dropIndicatorScopesForWindows (removed_windows s t) ind)"
    and w: "fst ` set wins = set (window_ids t)" and e: "entries ind \<subseteq> keys_of (set (window_ids s))"
  shows "entries ind' \<subseteq> keys_of (set (window_ids t))"
proof -
  have "entries (dropIndicatorScopesForWindows (removed_windows s t) ind) \<subseteq> keys_of (set (window_ids s)) - keys_of (set (removed_windows s t))"
    using e by (auto simp: entries_drop)
  also have "\<dots> \<subseteq> keys_of (set (window_ids t))"
    using keys_diff [of "set (window_ids s)" "set (removed_windows s t)"]
      keys_mono [of "set (window_ids s) - set (removed_windows s t)" "set (window_ids t)"] by (auto simp: removed_windows_def)
  finally show ?thesis
    using entries_restore [of reg wins raws "dropIndicatorScopesForWindows (removed_windows s t) ind"] unfolding ind' w by blast
qed

text \<open>
  C16. Applying a layout preset, when its windows have distinct ids and those that take over a pin are of
  a kind that can be pinned. The windows are exactly those the preset reads as, in its stacking order,
  with a chart fitted to the symbol its window shows. A window that was pinned under the same id keeps its
  pin; one the preset marks as pinned is pinned to what its group shows, so no symbol on screen changes;
  every other window is unpinned. The symbols of the groups stay, and so do the canvas and the message
  about a blocked activation; runtimes and the maximised window are reset; the store stays well formed.
  The settings of a window are what it had (nothing for a new id), over the defaults of its kind, under the
  settings the preset carries for it; settings of windows that are gone are dropped. The indicators of the
  app stay, those of windows that are gone are dropped, and where the limit on scopes leaves room each
  window gets exactly what the preset carries for it and keeps its own otherwise. Of the layout of the page
  only the preset applied last changes, and a reload of the tab reads it back.
\<close>

theorem preset_applied:
  assumes s: "store_ok s" and p: "preset_fits mk payload s" and st: "settings_store_ok st"
    and n: "normalizeWorkspaceSnapshot mk payload = (ws, z)" and raws: "raws = payload_windows payload"
    and r: "applyPresetPayload reg mk payload presetId \<lparr>desk_store = s, desk_indicators = ind, desk_settings = st, desk_layout = l\<rparr>
      = \<lparr>desk_store = t, desk_indicators = ind', desk_settings = st', desk_layout = l'\<rparr>"
    and es: "es = payload_entries reg (map (\<lambda>w. (w_id w, w_kind w = ChartWindow)) (windows t)) raws"
  shows "windows t = map (\<lambda>w. fit_symbol (groupSymbols s) (w\<lparr>pinned := pin_after s (pinFlaggedIds raws) w\<rparr>)) ws \<and> zOrder t = z
    \<and> keeps_shown any_kind (applyWorkspaceSnapshot mk payload s) t
    \<and> groupSymbols t = groupSymbols s \<and> canvasSize t = canvasSize s \<and> blockedActivation t = blockedActivation s
    \<and> pendingNormalize t = pendingNormalize s \<and> chartRuntime t = (\<lambda>_. None) \<and> maximizedId t = None \<and> store_ok t
    \<and> (\<forall>w \<in> set (windows t). window_settings st' (w_id w) =
         default_settings (chartPrefs ind) (w_kind w) ++ window_settings st (w_id w) ++ preset_settings raws w)
    \<and> settings_owners st' \<subseteq> (settings_owners st - set (window_ids s)) \<union> set (window_ids t)
    \<and> indicatorsByTimeframe ind' = indicatorsByTimeframe ind \<and> indicatorModalByTimeframe ind' = indicatorModalByTimeframe ind
    \<and> indicatorSettings ind' = indicatorSettings ind \<and> chartPrefs ind' = chartPrefs ind \<and> paneOrder ind' = paneOrder ind
    \<and> (entries ind \<subseteq> keys_of (set (window_ids s)) \<longrightarrow> entries ind' \<subseteq> keys_of (set (window_ids t)))
    \<and> (length (indicatorsByWindow ind) + length es \<le> INDICATOR_WINDOW_SCOPE_LIMIT \<longrightarrow>
         map_of (indicatorsByWindow ind') = indicator_after es (keys_of (set (window_ids s) - set (window_ids t))) (indicatorsByWindow ind))
    \<and> LayoutFields.truncate l' = (LayoutFields.truncate l)\<lparr>lastAppliedPresetId := presetId\<rparr>
    \<and> (\<forall>v. lastAppliedPresetId (hydrateLayout v (tabPreset l')) = presetId)"
proof -
  note a = applied [OF r]
  have ok: "store_ok (applyWorkspaceSnapshot mk payload s)" by (rule ok_snapshot [OF s p])
  have t: "store_ok t" unfolding a(1) by (rule ok_pins [OF ok])
  have d: "distinct (map w_id (windows t))" using t by (simp add: store_ok_def ids_ok_def)
  have g: "removed_windows s t = filter (\<lambda>i. i \<notin> set (map w_id (windows t))) (window_ids s)" "set (removed_windows s t) = set (window_ids s) - set (window_ids t)"
    by (auto simp: removed_windows_def window_ids_def)
  have w: "fst ` set (map (\<lambda>w. (w_id w, w_kind w = ChartWindow)) (windows t)) = set (window_ids t)"
    by (simp add: window_ids_def image_image)
  note settings = applied_settings [OF st d a(3) g(1), folded raws]
  have entries: "entries ind \<subseteq> keys_of (set (window_ids s)) \<longrightarrow> entries ind' \<subseteq> keys_of (set (window_ids t))"
    using applied_entries [OF a(2) w] by blast
  have scopes: "length (indicatorsByWindow ind) + length es \<le> INDICATOR_WINDOW_SCOPE_LIMIT \<longrightarrow>
      map_of (indicatorsByWindow ind') = indicator_after es (keys_of (set (window_ids s) - set (window_ids t))) (indicatorsByWindow ind)"
    unfolding a(2) es raws g(2) [symmetric] by (intro impI ext preset_indicators)
  have frame: "indicatorsByTimeframe ind' = indicatorsByTimeframe ind" "indicatorModalByTimeframe ind' = indicatorModalByTimeframe ind"
    "indicatorSettings ind' = indicatorSettings ind" "chartPrefs ind' = chartPrefs ind" "paneOrder ind' = paneOrder ind"
    by (simp_all add: a(2))
  have win: "windows t = map (\<lambda>w. fit_symbol (groupSymbols s) (w\<lparr>pinned := pin_after s (pinFlaggedIds raws) w\<rparr>)) ws"
    unfolding a(1) raws by (rule preset_windows [OF s n])
  have shown: "keeps_shown any_kind (applyWorkspaceSnapshot mk payload s) t"
    unfolding a(1) by (rule find_pinned [OF ok])
  have rest: "zOrder t = z" "groupSymbols t = groupSymbols s" "canvasSize t = canvasSize s" "blockedActivation t = blockedActivation s"
    "pendingNormalize t = pendingNormalize s" "chartRuntime t = (\<lambda>_. None)" "maximizedId t = None"
    by (simp_all add: a(1) pins_store snapshot_store [OF n])
  have layout: "LayoutFields.truncate l' = (LayoutFields.truncate l)\<lparr>lastAppliedPresetId := presetId\<rparr>"
    "\<forall>v. lastAppliedPresetId (hydrateLayout v (tabPreset l')) = presetId"
    by (simp_all add: a(4) preset_remembered)
  show ?thesis
    using win shown rest t settings(1) settings(2) [folded window_ids_def [of t]] frame entries scopes layout
    by - (intro conjI, assumption+)
qed

text \<open>
  A preset of one chart, pinned and with a logarithmic scale, over the factory layout with a Korean stock:
  the other two windows go, with what was remembered for one of them.
\<close>

definition chart_preset :: json where
  "chart_preset = JObj
     [(''windows'', JArr [JObj [(''id'', JStr ''0''), (''kind'', JStr ''chart''), (''group'', JNum 1),
        (''rect'', JObj [(''x'', JNum 0), (''y'', JNum 0), (''w'', JNum 1), (''h'', JNum 1)]),
        (''chart'', JObj [(''timeframe'', JStr ''5m'')]), (''wasPinned'', JBool True),
        (''windowSettings'', JObj [(''chart'', JObj [(''candleLogScale'', JBool True)])])]]),
      (''zOrder'', JArr [JStr ''0'']), (''groupSymbols'', JObj [])]"

definition preset_chart :: WorkspaceWindow where
  "preset_chart = (plain_window ''0'' ChartWindow 1 \<lparr>rx = 0, ry = 0, rw = 1, rh = 1\<rparr>)
     \<lparr>w_chart := Some ((plain_chart M5)\<lparr>lastMinuteTimeframe := Some M5\<rparr>)\<rparr>"

lemma preset_chart_read: "readWindow (JObj [(''id'', JStr ''0''), (''kind'', JStr ''chart''), (''group'', JNum 1),
        (''rect'', JObj [(''x'', JNum 0), (''y'', JNum 0), (''w'', JNum 1), (''h'', JNum 1)]),
        (''chart'', JObj [(''timeframe'', JStr ''5m'')]), (''wasPinned'', JBool True),
        (''windowSettings'', JObj [(''chart'', JObj [(''candleLogScale'', JBool True)])])]) False False = Some preset_chart"
  by code_simp

lemma chart_preset_windows: "payload_windows chart_preset = [JObj [(''id'', JStr ''0''), (''kind'', JStr ''chart''), (''group'', JNum 1),
        (''rect'', JObj [(''x'', JNum 0), (''y'', JNum 0), (''w'', JNum 1), (''h'', JNum 1)]),
        (''chart'', JObj [(''timeframe'', JStr ''5m'')]), (''wasPinned'', JBool True),
        (''windowSettings'', JObj [(''chart'', JObj [(''candleLogScale'', JBool True)])])]]"
  by (simp add: chart_preset_def payload_windows_def or_else_def)

lemma chart_preset_read: "normalizeWorkspaceSnapshot nat_text chart_preset = ([preset_chart], [''0''])"
proof -
  have "json_arr (member chart_preset ''windows'') = Some (payload_windows chart_preset)" "member chart_preset ''zOrder'' = Some (JArr [JStr ''0''])"
    by (simp_all add: chart_preset_def payload_windows_def or_else_def)
  moreover have "normalizeZOrder (Some (JArr [JStr ''0''])) [preset_chart] = [''0'']"
    by (simp add: normalizeZOrder_def key_step_def preset_chart_def Let_def)
  ultimately show ?thesis unfolding normalizeWorkspaceSnapshot_def Let_def
    by (simp only: option.case chart_preset_windows) (simp only: List.map_filter_simps preset_chart_read option.case, simp)
qed

definition old_settings :: WindowSettingsStore where
  "old_settings = \<lparr>settingsByWindow = [(''1'', Map.empty)], storedSettings = None, settingsEdits = []\<rparr>"

definition preset_desk :: Desk where
  "preset_desk = applyPresetPayload plain_registry nat_text chart_preset (Some ''p'')
     \<lparr>desk_store = samsung_store, desk_indicators = new_indicators, desk_settings = old_settings, desk_layout = hydrateLayout None None\<rparr>"

theorem preset_applied_witness:
  "map (\<lambda>w. (w_id w, pinned w)) (windows (desk_store preset_desk)) = [(''0'', Some samsung)]
   \<and> Option.bind (window_settings (desk_settings preset_desk) ''0'' ChartSection) (\<lambda>v. member v ''candleLogScale'') = Some (JBool True)
   \<and> settings_owners (desk_settings preset_desk) \<subseteq> {''0''}
   \<and> lastAppliedPresetId (hydrateLayout None (tabPreset (desk_layout preset_desk))) = Some ''p''"
proof -
  obtain t ind' st' l' where d: "preset_desk = \<lparr>desk_store = t, desk_indicators = ind', desk_settings = st', desk_layout = l'\<rparr>"
    by (cases preset_desk) blast
  have fits: "preset_fits nat_text chart_preset samsung_store"
    by (simp add: preset_fits_def chart_preset_read preset_chart_def pinnable_def)
  have st: "settings_store_ok old_settings" by (simp add: old_settings_def settings_store_ok_def)
  note a = preset_applied [OF samsung_store_ok fits st chart_preset_read refl d [unfolded preset_desk_def] refl]
  have w: "windows t = map (\<lambda>w. fit_symbol (groupSymbols samsung_store) (w\<lparr>pinned := pin_after samsung_store (pinFlaggedIds (payload_windows chart_preset)) w\<rparr>)) [preset_chart]"
    using a by blast
  have pin: "pin_after samsung_store (pinFlaggedIds (payload_windows chart_preset)) preset_chart = Some samsung"
    by (simp add: pin_after_def chart_preset_windows pinFlaggedIds_def List.map_filter_simps samsung_windows fresh_windows
        find_window_def plain_window_def preset_chart_def pinnable_def samsung_groups)
  have one: "map w_id (windows t) = [''0'']" "map pinned (windows t) = [Some samsung]" "map w_kind (windows t) = [ChartWindow]"
    by (simp_all add: w pin) (simp_all add: preset_chart_def)
  obtain v where v: "windows t = [v]" "w_id v = ''0''" "pinned v = Some samsung" "w_kind v = ChartWindow"
    using one by (cases "windows t") auto
  have "preset_settings (payload_windows chart_preset) v ChartSection = Some (display_prefs (fields_of (Some (JObj [(''candleLogScale'', JBool True)]))))"
    by (simp add: preset_settings_def raw_settings_def chart_preset_windows v normalizeWindowSettings_def sections_of_def
        fields_of_def normalizeChartDisplayPrefs_def)
  moreover have "window_settings st' ''0'' = default_settings (chartPrefs new_indicators) ChartWindow ++ window_settings old_settings ''0''
      ++ preset_settings (payload_windows chart_preset) v"
    using a v by auto
  ultimately have "window_settings st' ''0'' ChartSection = Some (display_prefs (fields_of (Some (JObj [(''candleLogScale'', JBool True)]))))"
    by (simp add: map_add_def)
  moreover have "(''candleLogScale'', read_toggle False) \<in> set display_readers"
    by (simp add: display_readers_def CHART_DISPLAY_TOGGLES_def)
  ultimately have scale: "Option.bind (window_settings st' ''0'' ChartSection) (\<lambda>v. member v ''candleLogScale'') = Some (JBool True)"
    using display_prefs_field [of "''candleLogScale''" "read_toggle False"]
    by (simp add: display_prefs_def fields_of_def read_toggle_def)
  have own: "settings_owners st' \<subseteq> (settings_owners old_settings - set (window_ids samsung_store)) \<union> set (window_ids t)"
    and last: "\<forall>v. lastAppliedPresetId (hydrateLayout v (tabPreset l')) = Some ''p''" using a by blast+
  have "settings_owners st' \<subseteq> {''0''}"
    using own by (simp add: old_settings_def window_ids_def v samsung_windows fresh_windows plain_window_def)
  then show ?thesis using scale last by (simp add: d v)
qed

end
