(* ===== verification/DrawingItems.thy ===== *)
theory DrawingItems
  imports Json "HOL-Library.AList"
begin

section \<open>Drawings and their storage\<close>

text \<open>
  \<open>chart/drawing/types.ts\<close> and \<open>chart/drawing/persistence.ts\<close>: the lock predicates, the coercion of
  untrusted records into drawings, the slots of a symbol, and what is read from and written to the
  browser's storage. A drawing is the JavaScript object the code handles: an ordered list of named
  members. A member whose value is \<open>undefined\<close> is absent (\<open>None\<close> in a patch removes it). The
  storage holds, under its full key, either JSON or text that does not parse (\<open>None\<close>); writes
  succeed (no quota errors). Strings are sequences of 8-bit characters.
\<close>

type_synonym js_object = "(string \<times> json) list"
type_synonym js_patch = "(string \<times> json option) list"
type_synonym DrawingStorage = "string \<Rightarrow> json option option"

subsection \<open>Objects\<close>

definition put_member :: "string \<Rightarrow> json option \<Rightarrow> js_object \<Rightarrow> js_object" where
  "put_member k v d = (case v of Some x \<Rightarrow> AList.update k x d | None \<Rightarrow> AList.delete k d)"

text \<open>\<open>{ ...d, ...patch }\<close>.\<close>

definition spread :: "js_object \<Rightarrow> js_patch \<Rightarrow> js_object" where
  "spread d patch = foldl (\<lambda>o' (k, v). put_member k v o') d patch"

definition defined_members :: "js_object \<Rightarrow> js_patch" where
  "defined_members d = map (apsnd Some) d"

definition truthy :: "json option \<Rightarrow> bool" where
  "truthy v = (case v of None \<Rightarrow> False | Some JNull \<Rightarrow> False | Some (JBool b) \<Rightarrow> b | Some (JNum n) \<Rightarrow> n \<noteq> 0
     | Some (JStr s) \<Rightarrow> s \<noteq> [] | Some _ \<Rightarrow> True)"

lemma map_of_put_member [simp]: "map_of (put_member k v d) j = (if j = k then v else map_of d j)"
  by (simp add: put_member_def update_conv' delete_conv' split: option.split)

lemma put_member_same: "map_of d k = v \<Longrightarrow> put_member k v d = d"
  by (cases v) (auto simp: put_member_def update_triv map_of_eq_None_iff)

lemma map_of_spread_absent: "k \<notin> fst ` set patch \<Longrightarrow> map_of (spread d patch) k = map_of d k"
  unfolding spread_def by (induction patch arbitrary: d) auto

lemma spread_Nil [simp]: "spread d [] = d"
  and spread_Cons [simp]: "spread d ((k, v) # patch) = spread (put_member k v d) patch"
  by (simp_all add: spread_def)

subsection \<open>chart/drawing/types.ts\<close>

definition DRAWING_KINDS :: "string list" where
  "DRAWING_KINDS = [''fib-extension'', ''path'', ''callout'', ''regression'', ''hray'', ''fib'', ''channel'',
     ''long-position'', ''short-position'', ''hline'', ''vline'', ''trendline'', ''rect'', ''measure'', ''text'', ''pencil'']"

definition day_tools :: "string list" where
  "day_tools = [''day-high'', ''day-low'', ''day-open'', ''day-close'']"

text \<open>A \<open>DrawingTool\<close> is a kind, a day tool, \<open>select\<close> or \<open>eraser\<close>.\<close>

definition is_tool :: "string \<Rightarrow> bool" where
  "is_tool t \<longleftrightarrow> t \<in> set DRAWING_KINDS \<or> t \<in> set day_tools \<or> t = ''select'' \<or> t = ''eraser''"

definition isDrawingKind :: "string \<Rightarrow> bool" where
  "isDrawingKind t \<longleftrightarrow> t \<noteq> ''select'' \<and> t \<noteq> ''eraser'' \<and> t \<noteq> ''day-high'' \<and> t \<noteq> ''day-low''
     \<and> t \<noteq> ''day-open'' \<and> t \<noteq> ''day-close''"

lemma isDrawingKind_iff: "is_tool t \<Longrightarrow> isDrawingKind t \<longleftrightarrow> t \<in> set DRAWING_KINDS"
  by (auto simp: is_tool_def isDrawingKind_def DRAWING_KINDS_def day_tools_def)

definition kind_of :: "js_object \<Rightarrow> string" where
  "kind_of d = (case map_of d ''kind'' of Some (JStr k) \<Rightarrow> k | _ \<Rightarrow> [])"

definition drawing_id :: "js_object \<Rightarrow> string option" where
  "drawing_id d = json_str (map_of d ''id'')"

definition isExtendedRight :: "js_object option \<Rightarrow> bool" where
  "isExtendedRight d = (case d of None \<Rightarrow> False
     | Some o' \<Rightarrow> kind_of o' = ''rect'' \<and> map_of o' ''extendRight'' = Some (JBool True))"

definition isLocked :: "js_object option \<Rightarrow> bool" where
  "isLocked d = (case d of None \<Rightarrow> False | Some o' \<Rightarrow> map_of o' ''locked'' = Some (JBool True))"

definition isUnlockOnlyPatch :: "js_patch \<Rightarrow> bool" where
  "isUnlockOnlyPatch patch = list_all (\<lambda>(k, v). k = ''locked'') patch"

definition FIB_LEVELS :: "rat list" where
  "FIB_LEVELS = [0, 236 / 1000, 382 / 1000, 5 / 10, 618 / 1000, 786 / 1000, 1]"

definition FIB_EXTENSION_LEVELS :: "rat list" where
  "FIB_EXTENSION_LEVELS = [0, 618 / 1000, 1, 1272 / 1000, 1618 / 1000, 2, 2618 / 1000]"

definition PATH_MAX_POINTS :: nat where "PATH_MAX_POINTS = 128"

definition REGRESSION_SOURCES :: "string list" where
  "REGRESSION_SOURCES = [''close'', ''open'', ''high'', ''low'', ''hl2'', ''hlc3'', ''ohlc4'']"

definition INITIAL_STYLE :: js_object where
  "INITIAL_STYLE = [(''color'', JStr ''#14B8A6''), (''width'', JNum 2), (''lineStyle'', JStr ''solid''),
     (''fontSize'', JNum 13), (''fillOpacity'', JNum (1 / 10))]"

definition initialStyleByKind :: "(string \<times> js_object) list" where
  "initialStyleByKind = map (\<lambda>k. (k, INITIAL_STYLE)) DRAWING_KINDS"

record DrawingDefaults =
  dd_templates :: "json list option"
  dd_favorites :: "json list option"
  dd_keepDrawing :: "bool option"
  dd_styleByKind :: "(string \<times> js_object) list"
  dd_hiddenAll :: json

definition INITIAL_DEFAULTS :: DrawingDefaults where
  "INITIAL_DEFAULTS = \<lparr>dd_templates = None, dd_favorites = None, dd_keepDrawing = None,
     dd_styleByKind = initialStyleByKind, dd_hiddenAll = JBool False\<rparr>"

subsection \<open>Slots and scopes\<close>

datatype DrawingSlot = SecondsSlot | MinuteSlot | DaySlot | WeekSlot | MonthSlot

fun slot_text :: "DrawingSlot \<Rightarrow> string" where
  "slot_text SecondsSlot = ''seconds''"
| "slot_text MinuteSlot = ''minute''"
| "slot_text DaySlot = ''D''"
| "slot_text WeekSlot = ''W''"
| "slot_text MonthSlot = ''M''"

definition drawingScope :: "string \<Rightarrow> DrawingSlot \<Rightarrow> string" where
  "drawingScope code slot = code @ ''|'' @ slot_text slot"

text \<open>\<open>lastIndexOf('|')\<close> splits the text at its last bar; the slot is the text the code casts.\<close>

definition parseScope :: "string \<Rightarrow> string \<times> string option" where
  "parseScope scope = (if CHR ''|'' \<notin> set scope then (scope, None)
     else (butlast (rev (dropWhile (\<lambda>c. c \<noteq> CHR ''|'') (rev scope))),
           Some (rev (takeWhile (\<lambda>c. c \<noteq> CHR ''|'') (rev scope)))))"

definition drawings_prefix :: string where "drawings_prefix = ''replay.drawings.v2.''"
definition legacy_prefix :: string where "legacy_prefix = ''replay.drawings.v1.''"

definition storageKey :: "string \<Rightarrow> string" where "storageKey scope = drawings_prefix @ scope"
definition legacyStorageKey :: "string \<Rightarrow> string" where "legacyStorageKey code = legacy_prefix @ code"

lemma parse_drawingScope: "parseScope (drawingScope code slot) = (code, Some (slot_text slot))"
  by (cases slot) (simp_all add: parseScope_def drawingScope_def butlast_append)

lemma drawing_keys [simp]:
  "storageKey s = storageKey s' \<longleftrightarrow> s = s'" "storageKey s \<noteq> legacyStorageKey c" "legacyStorageKey c \<noteq> storageKey s"
  by (simp_all add: storageKey_def legacyStorageKey_def drawings_prefix_def legacy_prefix_def)

subsection \<open>Coercion of untrusted items\<close>

text \<open>The names of \<open>PANE_SPECS\<close>, in the order of the registry.\<close>

definition PANE_SPEC_NAMES :: "string list" where
  "PANE_SPEC_NAMES = [''candle'', ''volume'', ''quote-totals'', ''ratio'', ''fill-strength'', ''program-trade'']"

definition resolvePaneId :: "js_object \<Rightarrow> string" where
  "resolvePaneId item = (case map_of item ''paneId'' of Some (JStr p) \<Rightarrow> p
     | _ \<Rightarrow> (case json_num (map_of item ''paneIndex'') of
         Some n \<Rightarrow> if of_int \<lfloor>n\<rfloor> = n \<and> 0 \<le> n \<and> n < of_nat (length PANE_SPEC_NAMES)
                   then PANE_SPEC_NAMES ! nat \<lfloor>n\<rfloor> else ''candle''
       | None \<Rightarrow> ''candle''))"

definition true_or_absent :: "json option \<Rightarrow> json option" where
  "true_or_absent v = (if v = Some (JBool True) then v else None)"

definition bool_or_absent :: "json option \<Rightarrow> json option" where
  "bool_or_absent v = (case v of Some (JBool _) \<Rightarrow> v | _ \<Rightarrow> None)"

definition str_or_absent :: "json option \<Rightarrow> json option" where
  "str_or_absent v = (case v of Some (JStr _) \<Rightarrow> v | _ \<Rightarrow> None)"

definition num_or :: "rat \<Rightarrow> json option \<Rightarrow> json option" where
  "num_or r v = (case v of Some (JNum n) \<Rightarrow> v | _ \<Rightarrow> Some (JNum r))"

text \<open>\<open>Number.isFinite(v) ? Math.max(lo, Math.min(hi, v)) : r\<close>.\<close>

definition clamped_or :: "rat \<Rightarrow> rat \<Rightarrow> rat \<Rightarrow> json option \<Rightarrow> json option" where
  "clamped_or lo hi r v = Some (JNum (case v of Some (JNum n) \<Rightarrow> max lo (min hi n) | _ \<Rightarrow> r))"

definition finiteSubX :: "json option \<Rightarrow> rat" where
  "finiteSubX v = (case v of Some (JNum n) \<Rightarrow> n | _ \<Rightarrow> 0)"

definition rect_subX :: "json option \<Rightarrow> json option" where
  "rect_subX v = (case v of
     Some (JObj ms) \<Rightarrow> Some (JObj [(''a'', JNum (finiteSubX (map_of ms ''a''))), (''b'', JNum (finiteSubX (map_of ms ''b'')))])
   | _ \<Rightarrow> None)"

definition normalizeSubX :: "json option \<Rightarrow> json option" where
  "normalizeSubX v = (case v of Some (JArr xs) \<Rightarrow> Some (JArr (map (\<lambda>x. JNum (finiteSubX (Some x))) xs)) | _ \<Rightarrow> None)"

definition day_extreme :: "json option \<Rightarrow> json option" where
  "day_extreme v = (case v of None \<Rightarrow> None
   | Some meta \<Rightarrow> if \<not> truthy v then v
       else (case json_str (member meta ''date'') of
         Some t \<Rightarrow> if length t = 8 \<and> list_all is_digit t
             \<and> json_str (member meta ''side'') \<in> Some ` {''high'', ''low'', ''open'', ''close'', ''high-body''} then v else None
       | None \<Rightarrow> None))"

definition level_values :: "json list \<Rightarrow> rat list" where
  "level_values xs = take 24 (unique (filter (\<lambda>n. -10 \<le> n \<and> n \<le> 10) (List.map_filter (\<lambda>x. json_num (Some x)) xs)))"

definition fib_levels :: "rat list \<Rightarrow> json option \<Rightarrow> json option" where
  "fib_levels initial v = (case v of Some (JArr xs) \<Rightarrow> Some (JArr (map JNum (level_values xs)))
     | _ \<Rightarrow> Some (JArr (map JNum initial)))"

definition path_points :: "json option \<Rightarrow> json option" where
  "path_points v = (case v of Some (JArr xs) \<Rightarrow> Some (JArr (take PATH_MAX_POINTS xs)) | _ \<Rightarrow> Some (JArr []))"

definition callout_text :: "json option \<Rightarrow> json option" where
  "callout_text v = (case v of Some (JStr s) \<Rightarrow> Some (JStr (take 4000 s)) | _ \<Rightarrow> Some (JStr []))"

definition regression_source :: "json option \<Rightarrow> json option" where
  "regression_source v = (case v of Some (JStr s) \<Rightarrow> if s \<in> set REGRESSION_SOURCES then v else Some (JStr ''close'')
     | _ \<Rightarrow> Some (JStr ''close''))"

text \<open>The assignments of \<open>normalizeItems\<close> in order: the member and the value it is given.\<close>

definition normalize_rules :: "string \<Rightarrow> (string \<times> (json option \<Rightarrow> json option)) list" where
  "normalize_rules kind =
     [(''locked'', true_or_absent)]
     @ (if kind = ''hline'' then [(''labelHidden'', true_or_absent)] else [])
     @ (if kind = ''trendline'' then [(''labelHidden'', bool_or_absent)] else [])
     @ (if kind = ''rect'' then [(''subX'', rect_subX), (''extendRight'', true_or_absent)] else [])
     @ (if kind = ''hline'' then [(''dayExtreme'', day_extreme)] else [])
     @ (if kind = ''pencil'' then [(''subX'', normalizeSubX)] else [])
     @ [(''hidden'', true_or_absent), (''name'', str_or_absent)]
     @ (if kind = ''fib'' then [(''levels'', fib_levels FIB_LEVELS)] else [])
     @ (if kind = ''fib-extension'' then [(''levels'', fib_levels FIB_EXTENSION_LEVELS)] else [])
     @ (if kind = ''channel'' then [(''fillOpacity'', num_or (1 / 10))] else [])
     @ (if kind = ''path'' then [(''points'', path_points), (''arrowStart'', bool_or_absent), (''arrowEnd'', bool_or_absent)] else [])
     @ (if kind = ''callout'' then [(''offsetX'', num_or 80), (''offsetY'', num_or (-50)),
          (''fontSize'', clamped_or 8 72 13), (''text'', callout_text)] else [])
     @ (if kind = ''regression'' then [(''source'', regression_source), (''upperDeviation'', clamped_or 0 10 2),
          (''lowerDeviation'', clamped_or 0 10 2), (''fillOpacity'', clamped_or 0 1 (1 / 10))] else [])"

definition fix_member :: "js_object \<Rightarrow> string \<times> (json option \<Rightarrow> json option) \<Rightarrow> js_object" where
  "fix_member d rule = put_member (fst rule) (snd rule (map_of d (fst rule))) d"

definition line_style :: "json option \<Rightarrow> json option" where
  "line_style v = (case v of None \<Rightarrow> Some (JStr ''solid'') | Some JNull \<Rightarrow> Some (JStr ''solid'') | _ \<Rightarrow> v)"

definition normalize_item :: "js_object \<Rightarrow> js_object" where
  "normalize_item item = foldl fix_member
     (put_member ''lineStyle'' (line_style (map_of item ''lineStyle''))
       (put_member ''paneId'' (Some (JStr (resolvePaneId item))) (AList.delete ''paneIndex'' item)))
     (normalize_rules (kind_of item))"

definition is_point :: "json option \<Rightarrow> bool" where
  "is_point v = (case v of Some (JObj ms) \<Rightarrow> json_num (map_of ms ''realMs'') \<noteq> None \<and> json_num (map_of ms ''price'') \<noteq> None
     | _ \<Rightarrow> False)"

definition coord :: "string \<Rightarrow> json option \<Rightarrow> rat option" where
  "coord k v = (case v of Some p \<Rightarrow> json_num (member p k) | None \<Rightarrow> None)"

definition validPosition :: "js_object \<Rightarrow> bool" where
  "validPosition d = (case (coord ''price'' (map_of d ''a''), coord ''price'' (map_of d ''b''),
       json_num (map_of d ''stop''), json_num (map_of d ''quantity'')) of
     (Some a, Some b, Some stop, Some q) \<Rightarrow> 0 < a \<and> 0 < b \<and> 0 < stop \<and> 0 \<le> q
       \<and> (if kind_of d = ''long-position'' then stop < a \<and> a < b else b < a \<and> a < stop)
   | _ \<Rightarrow> False)"

text \<open>White space of \<open>trim\<close> among the 8-bit characters.\<close>

definition blank :: "char \<Rightarrow> bool" where
  "blank c \<longleftrightarrow> (of_char c :: nat) \<in> {9, 10, 11, 12, 13, 32, 160}"

definition valid_item :: "js_object \<Rightarrow> bool" where
  "valid_item d = (let k = kind_of d; p = (\<lambda>m. is_point (map_of d m)) in
     if k = ''path'' then (case map_of d ''points'' of
         Some (JArr ps) \<Rightarrow> 2 \<le> length ps \<and> list_all (\<lambda>q. is_point (Some q)) ps | _ \<Rightarrow> False)
     else if k = ''callout'' then p ''a''
       \<and> (case map_of d ''text'' of Some (JStr s) \<Rightarrow> \<not> list_all blank s | _ \<Rightarrow> False)
     else if k = ''regression'' then map_of d ''paneId'' = Some (JStr ''candle'') \<and> p ''a'' \<and> p ''b''
       \<and> coord ''realMs'' (map_of d ''a'') \<noteq> coord ''realMs'' (map_of d ''b'')
     else if k = ''fib-extension'' then p ''a'' \<and> p ''b'' \<and> p ''c''
       \<and> coord ''price'' (map_of d ''a'') \<noteq> coord ''price'' (map_of d ''b'')
     else if k = ''hray'' then p ''at''
     else if k = ''fib'' then p ''a'' \<and> p ''b''
     else if k = ''channel'' then p ''a'' \<and> p ''b'' \<and> p ''c''
     else if k = ''long-position'' \<or> k = ''short-position'' then p ''a'' \<and> p ''b'' \<and> validPosition d
     else True)"

definition known_item :: "json \<Rightarrow> js_object option" where
  "known_item v = (case v of JObj ms \<Rightarrow> if kind_of ms \<in> set DRAWING_KINDS then Some ms else None | _ \<Rightarrow> None)"

definition normalizeItems :: "json option \<Rightarrow> js_object list" where
  "normalizeItems raw = (case json_arr raw of None \<Rightarrow> []
     | Some xs \<Rightarrow> filter valid_item (map normalize_item (List.map_filter known_item xs)))"

subsection \<open>What is stored\<close>

definition DRAWINGS_VERSION :: rat where "DRAWINGS_VERSION = 1"

text \<open>\<open>None\<close>: the key is absent.\<close>

definition readKey :: "DrawingStorage \<Rightarrow> string \<Rightarrow> js_object list option" where
  "readKey st key = (case st key of
     None \<Rightarrow> None
   | Some None \<Rightarrow> Some []
   | Some (Some parsed) \<Rightarrow> if parsed = JNull \<or> member parsed ''v'' \<noteq> Some (JNum DRAWINGS_VERSION) then Some []
       else Some (normalizeItems (member parsed ''items'')))"

definition loadDrawings :: "DrawingStorage \<Rightarrow> string \<Rightarrow> js_object list" where
  "loadDrawings st scope = (case readKey st (storageKey scope) of
     Some own \<Rightarrow> own
   | None \<Rightarrow> (case readKey st (legacyStorageKey (fst (parseScope scope))) of Some items \<Rightarrow> items | None \<Rightarrow> []))"

definition saveDrawings :: "string \<Rightarrow> js_object list \<Rightarrow> DrawingStorage \<Rightarrow> DrawingStorage" where
  "saveDrawings scope items st = st(storageKey scope \<mapsto>
     Some (JObj [(''v'', JNum DRAWINGS_VERSION), (''items'', JArr (map JObj items))]))"

subsection \<open>Sticky defaults\<close>

definition DEFAULTS_KEY :: string where "DEFAULTS_KEY = ''replay.drawingDefaults.v1''"
definition DEFAULTS_VERSION :: rat where "DEFAULTS_VERSION = 2"

text \<open>\<open>a ?? b\<close>.\<close>

definition nullish_or :: "json \<Rightarrow> json option \<Rightarrow> json" where
  "nullish_or r v = (case v of None \<Rightarrow> r | Some JNull \<Rightarrow> r | Some x \<Rightarrow> x)"

definition migrateV1 :: "json \<Rightarrow> DrawingDefaults" where
  "migrateV1 v1 =
     (let pick = (\<lambda>ok k. case member v1 k of Some x \<Rightarrow> if ok x then x else the (map_of INITIAL_STYLE k)
                    | None \<Rightarrow> the (map_of INITIAL_STYLE k));
          style = [(''color'', pick (\<lambda>x. json_str (Some x) \<noteq> None) ''color''),
                   (''width'', pick (\<lambda>x. json_num (Some x) \<noteq> None) ''width''),
                   (''lineStyle'', nullish_or (JStr ''solid'') (member v1 ''lineStyle'')),
                   (''fontSize'', pick (\<lambda>x. json_num (Some x) \<noteq> None) ''fontSize''),
                   (''fillOpacity'', JNum (1 / 10))]
      in INITIAL_DEFAULTS\<lparr>dd_styleByKind := map (\<lambda>k. (k, style)) DRAWING_KINDS,
           dd_hiddenAll := nullish_or (JBool False) (member v1 ''hiddenAll'')\<rparr>)"

definition merged_style :: "json \<Rightarrow> string \<Rightarrow> js_object" where
  "merged_style persisted k = (case member persisted k of
     Some s \<Rightarrow> if is_object (Some s) then spread INITIAL_STYLE (defined_members (entries_of s)) else INITIAL_STYLE
   | None \<Rightarrow> INITIAL_STYLE)"

definition favorite_tool :: "json \<Rightarrow> bool" where
  "favorite_tool v = (case v of JStr k \<Rightarrow> k \<in> set DRAWING_KINDS \<or> k \<in> set (day_tools @ [''eraser'']) | _ \<Rightarrow> False)"

definition style_template :: "json \<Rightarrow> bool" where
  "style_template t \<longleftrightarrow> truthy (Some t) \<and> json_str (member t ''name'') \<noteq> None
     \<and> (case member t ''kind'' of Some (JStr k) \<Rightarrow> k \<in> set DRAWING_KINDS | _ \<Rightarrow> False)
     \<and> (case member t ''style'' of Some s \<Rightarrow> truthy (Some s) \<and> json_str (member s ''color'') \<noteq> None | None \<Rightarrow> False)"

definition mergeV2 :: "json \<Rightarrow> DrawingDefaults" where
  "mergeV2 value =
     \<lparr>dd_templates = map_option (\<lambda>ts. take 32 (filter style_template ts)) (json_arr (member value ''templates'')),
      dd_favorites = map_option (\<lambda>fs. unique (filter favorite_tool fs)) (json_arr (member value ''favorites'')),
      dd_keepDrawing = json_bool (member value ''keepDrawing''),
      dd_styleByKind = map (\<lambda>k. (k, case member value ''styleByKind'' of
          Some p \<Rightarrow> if is_object (Some p) then merged_style p k else INITIAL_STYLE | None \<Rightarrow> INITIAL_STYLE)) DRAWING_KINDS,
      dd_hiddenAll = nullish_or (JBool False) (member value ''hiddenAll'')\<rparr>"

definition loadDefaults :: "DrawingStorage \<Rightarrow> DrawingDefaults" where
  "loadDefaults st = (case st DEFAULTS_KEY of
     Some (Some (JObj ms)) \<Rightarrow>
       (let value = nullish_or (JObj []) (map_of ms ''value'')
        in if map_of ms ''v'' = Some (JNum 1) then migrateV1 value
           else if map_of ms ''v'' \<noteq> Some (JNum DEFAULTS_VERSION) then INITIAL_DEFAULTS
           else mergeV2 value)
   | _ \<Rightarrow> INITIAL_DEFAULTS)"

definition defaults_json :: "DrawingDefaults \<Rightarrow> json" where
  "defaults_json d = JObj (opt_member ''templates'' JArr (dd_templates d) @ opt_member ''favorites'' JArr (dd_favorites d)
     @ opt_member ''keepDrawing'' JBool (dd_keepDrawing d)
     @ [(''styleByKind'', JObj (map (apsnd JObj) (dd_styleByKind d))), (''hiddenAll'', dd_hiddenAll d)])"

definition saveDefaults :: "DrawingDefaults \<Rightarrow> DrawingStorage \<Rightarrow> DrawingStorage" where
  "saveDefaults d st = st(DEFAULTS_KEY \<mapsto> Some (JObj [(''v'', JNum DEFAULTS_VERSION), (''value'', defaults_json d)]))"

subsection \<open>Coercion is idempotent\<close>

text \<open>Every rule gives a value that it keeps.\<close>

lemma level_values_keep:
  assumes "distinct ns" "\<And>n. n \<in> set ns \<Longrightarrow> -10 \<le> n \<and> n \<le> 10" "length ns \<le> 24"
  shows "level_values (map JNum ns) = ns"
proof -
  have "List.map_filter (\<lambda>x. json_num (Some x)) (map JNum ns) = ns"
    by (induction ns) (simp_all add: List.map_filter_def)
  moreover have "filter (\<lambda>n. -10 \<le> n \<and> n \<le> 10) ns = ns" using assms(2) by (intro filter_True) auto
  ultimately show ?thesis using assms by (simp add: level_values_def unique_of_distinct)
qed

lemma level_values_again [simp]: "level_values (map JNum (level_values xs)) = level_values xs"
proof (rule level_values_keep)
  show "distinct (level_values xs)" by (simp add: level_values_def unique_distinct)
  show "length (level_values xs) \<le> 24" by (simp add: level_values_def)
  show "-10 \<le> n \<and> n \<le> 10" if "n \<in> set (level_values xs)" for n
    using that set_take_subset unique_subset by (fastforce simp: level_values_def)
qed

lemma initial_levels [simp]:
  "level_values (map JNum FIB_LEVELS) = FIB_LEVELS"
  "level_values (map JNum FIB_EXTENSION_LEVELS) = FIB_EXTENSION_LEVELS"
proof -
  have "sorted_wrt (<) FIB_LEVELS" "sorted_wrt (<) FIB_EXTENSION_LEVELS"
    by (simp_all add: FIB_LEVELS_def FIB_EXTENSION_LEVELS_def)
  then have "distinct FIB_LEVELS" "distinct FIB_EXTENSION_LEVELS" by (simp_all add: strict_sorted_iff)
  moreover have "-10 \<le> n \<and> n \<le> 10" if "n \<in> set FIB_LEVELS \<or> n \<in> set FIB_EXTENSION_LEVELS" for n
    using that by (auto simp: FIB_LEVELS_def FIB_EXTENSION_LEVELS_def)
  moreover have "length FIB_LEVELS \<le> 24" "length FIB_EXTENSION_LEVELS \<le> 24"
    by (simp_all add: FIB_LEVELS_def FIB_EXTENSION_LEVELS_def)
  ultimately show "level_values (map JNum FIB_LEVELS) = FIB_LEVELS"
    "level_values (map JNum FIB_EXTENSION_LEVELS) = FIB_EXTENSION_LEVELS"
    using level_values_keep by blast+
qed

lemma rule_idempotent: "(k, f) \<in> set (normalize_rules kind) \<Longrightarrow> f (f v) = f v"
  unfolding normalize_rules_def
  by (auto split: if_splits option.splits json.splits
        simp: true_or_absent_def bool_or_absent_def str_or_absent_def num_or_def clamped_or_def rect_subX_def
          normalizeSubX_def day_extreme_def fib_levels_def path_points_def callout_text_def regression_source_def
          REGRESSION_SOURCES_def finiteSubX_def truthy_def)

lemma rules_distinct: "distinct (map fst (normalize_rules kind))"
  by (cases "kind = ''hline''", simp add: normalize_rules_def,
    cases "kind = ''trendline''", simp add: normalize_rules_def,
    cases "kind = ''rect''", simp add: normalize_rules_def,
    cases "kind = ''pencil''", simp add: normalize_rules_def,
    cases "kind = ''fib''", simp add: normalize_rules_def,
    cases "kind = ''fib-extension''", simp add: normalize_rules_def,
    cases "kind = ''channel''", simp add: normalize_rules_def,
    cases "kind = ''path''", simp add: normalize_rules_def,
    cases "kind = ''callout''", simp add: normalize_rules_def,
    cases "kind = ''regression''", simp add: normalize_rules_def, simp add: normalize_rules_def)

lemma rules_leave: "k \<in> {''kind'', ''paneId'', ''paneIndex'', ''lineStyle'', ''id''} \<Longrightarrow> k \<notin> fst ` set (normalize_rules kind)"
  by (auto simp: normalize_rules_def)

lemma fix_all_absent: "k \<notin> fst ` set rules \<Longrightarrow> map_of (foldl fix_member d rules) k = map_of d k"
  by (induction rules arbitrary: d) (auto simp: fix_member_def)

lemma fix_all_at:
  assumes "distinct (map fst rules)" "(k, f) \<in> set rules"
  shows "map_of (foldl fix_member d rules) k = f (map_of d k)"
  using assms
proof (induction rules arbitrary: d)
  case (Cons r rules)
  show ?case
  proof (cases "r = (k, f)")
    case True
    then have "k \<notin> fst ` set rules" using Cons.prems(1) by simp
    then show ?thesis using True by (simp add: fix_all_absent) (simp add: fix_member_def)
  next
    case False
    then have "(k, f) \<in> set rules" using Cons.prems(2) by simp
    moreover from this have "k \<in> set (map fst rules)" by force
    then have "k \<noteq> fst r" using Cons.prems(1) by (metis distinct.simps(2) list.simps(9))
    ultimately show ?thesis using Cons.IH [of "fix_member d r"] Cons.prems(1) by (simp add: fix_member_def)
  qed
qed simp

lemma fix_all_same: "(\<And>k f. (k, f) \<in> set rules \<Longrightarrow> f (map_of d k) = map_of d k) \<Longrightarrow> foldl fix_member d rules = d"
proof (induction rules)
  case (Cons r rules)
  obtain k f where r: "r = (k, f)" by (cases r)
  then have "fix_member d r = d" using Cons.prems [of k f] by (simp add: fix_member_def put_member_same)
  then show ?case using Cons by simp
qed simp

lemma put_delete [simp]: "k \<noteq> j \<Longrightarrow> map_of (AList.delete k d) j = map_of d j" by (rule map_of_delete) simp

lemma normalize_member:
  "map_of (normalize_item d) ''kind'' = map_of d ''kind''" "map_of (normalize_item d) ''id'' = map_of d ''id''"
  "map_of (normalize_item d) ''paneIndex'' = None"
  "map_of (normalize_item d) ''paneId'' = Some (JStr (resolvePaneId d))"
  "map_of (normalize_item d) ''lineStyle'' = line_style (map_of d ''lineStyle'')"
  by (simp_all add: normalize_item_def fix_all_absent rules_leave delete_conv')

lemma normalize_idempotent [simp]: "normalize_item (normalize_item d) = normalize_item d"
proof -
  let ?n = "normalize_item d" and ?rules = "normalize_rules (kind_of d)"
  have kind: "kind_of ?n = kind_of d" by (simp add: kind_of_def normalize_member)
  have pane: "resolvePaneId ?n = resolvePaneId d" by (simp add: resolvePaneId_def [of ?n] normalize_member)
  have line: "line_style (line_style v) = line_style v" for v
    by (simp add: line_style_def split: option.split json.split)
  have "AList.delete ''paneIndex'' ?n = ?n"
    using normalize_member(3) [of d] by (simp add: map_of_eq_None_iff)
  then have "normalize_item ?n = foldl fix_member ?n ?rules"
    unfolding normalize_item_def [of ?n] kind pane
    by (simp add: put_member_same normalize_member line)
  also have "\<dots> = ?n"
  proof (rule fix_all_same)
    fix k f
    assume r: "(k, f) \<in> set ?rules"
    show "f (map_of ?n k) = map_of ?n k"
      using fix_all_at [OF rules_distinct r] rule_idempotent [OF r] by (simp add: normalize_item_def)
  qed
  finally show ?thesis .
qed

definition normal_item :: "js_object \<Rightarrow> bool" where
  "normal_item d \<longleftrightarrow> normalize_item d = d \<and> kind_of d \<in> set DRAWING_KINDS \<and> valid_item d"

lemma normalizeItems_normal: "list_all normal_item (normalizeItems raw)"
proof -
  have "kind_of ms \<in> set DRAWING_KINDS" if "known_item v = Some ms" for v ms
    using that by (auto simp: known_item_def split: json.splits if_splits)
  then show ?thesis
    by (fastforce simp: normalizeItems_def normal_item_def list_all_iff List.map_filter_def kind_of_def normalize_member
        split: option.splits)
qed

lemma normalizeItems_keep: "list_all normal_item items \<Longrightarrow> normalizeItems (Some (JArr (map JObj items))) = items"
  unfolding normalizeItems_def
  by (induction items) (auto simp: normal_item_def List.map_filter_def known_item_def)

lemma load_normal: "list_all normal_item (loadDrawings st scope)"
  by (auto simp: loadDrawings_def readKey_def normalizeItems_normal split: option.split)

lemma readKey_saved:
  "readKey (saveDrawings scope items st) (storageKey scope) = Some (normalizeItems (Some (JArr (map JObj items))))"
  "key \<noteq> storageKey scope \<Longrightarrow> readKey (saveDrawings scope items st) key = readKey st key"
  by (simp_all add: readKey_def saveDrawings_def)

lemma load_after_save:
  assumes "list_all normal_item items"
  shows "loadDrawings (saveDrawings scope items st) scope' = (if scope' = scope then items else loadDrawings st scope')"
  using assms by (auto simp: loadDrawings_def readKey_saved normalizeItems_keep split: option.split)

text \<open>
  C29. What the drawing layer shows survives a reload: storing the drawings it loaded for a chart (from
  this build, from an older one, or from a hand-edited export) and loading them again gives exactly
  the same drawings, and no other chart's drawings change.
\<close>

theorem drawings_survive_reload:
  "loadDrawings (saveDrawings scope (loadDrawings st scope) st) scope' = loadDrawings st scope'"
  by (simp add: load_after_save load_normal)

end
