(* ===== verification/DrawingStore.thy ===== *)
theory DrawingStore
  imports DrawingItems DateWindow
begin

section \<open>The drawing store\<close>

text \<open>
  \<open>state/drawings.ts\<close>: the store of drawings per scope (a symbol in one timeframe slot), the ordered
  selection of each scope, the undo history kept outside the store, and the debounced writes to
  storage. The store record also holds the module's own state (\<open>histories\<close>, \<open>pendingTimers\<close>,
  \<open>defaultsTimer\<close>) and the storage. A \<open>Map\<close> whose insertion order the code uses is an association
  list (\<open>AList.update\<close> is \<open>Map.set\<close>); a timer is its scope in \<open>pendingTimers\<close>, and its firing is an
  event of its own. \<open>now\<close> is what \<open>performance.now()\<close> returns, \<open>mk\<close> the supply of \<open>nanoid\<close>s.
\<close>

subsection \<open>Slots of a timeframe\<close>

definition slotForTimeframe :: "LiveTimeframe \<Rightarrow> DrawingSlot" where
  "slotForTimeframe tf = (if isSecondTimeframe tf then SecondsSlot else if isMinuteTimeframe tf then MinuteSlot
     else if tf = Day then DaySlot else if tf = Week then WeekSlot else MonthSlot)"

definition drawingScopeFor :: "string option \<Rightarrow> LiveTimeframe \<Rightarrow> string option" where
  "drawingScopeFor code tf = (case code of None \<Rightarrow> None | Some c \<Rightarrow> Some (drawingScope c (slotForTimeframe tf)))"

definition CALENDAR_BAR_MS :: "LiveTimeframe \<Rightarrow> int" where
  "CALENDAR_BAR_MS tf = (if tf = Day then 86400000 else if tf = Week then 7 * 86400000 else 30 * 86400000)"

fun second_count :: "LiveTimeframe \<Rightarrow> int" where
  "second_count S1 = 1" | "second_count S5 = 5" | "second_count S10 = 10" | "second_count S30 = 30"
| "second_count _ = 0"

definition drawingBarMsFor :: "LiveTimeframe \<Rightarrow> int option \<Rightarrow> int option" where
  "drawingBarMsFor tf bundleBucketMs = (if isSecondTimeframe tf then Some (second_count tf * 1000)
     else if isMinuteTimeframe tf then bundleBucketMs else Some (CALENDAR_BAR_MS tf))"

subsection \<open>State\<close>

datatype HistoryOp = OpAdd | OpUpdate | OpRemove | OpClearAll | OpRestore | OpImport | OpLockAll
  | OpUpdateMany | OpRemoveMany | OpAddMany | OpReorder

record HistoryEntry =
  he_items :: "js_object list"
  he_op :: HistoryOp
  he_targetId :: "string option"
  he_at :: rat

text \<open>Both stacks have their top at the end.\<close>

record ScopeHistory =
  sh_undo :: "HistoryEntry list"
  sh_redo :: "HistoryEntry list"

record ClearToast =
  ct_scope :: string
  ct_count :: nat
  ct_snapshot :: "js_object list"

record ClearConfirm =
  cc_scope :: string
  cc_count :: nat
  cc_lockedCount :: nat

record DrawingState =
  byScope :: "(string \<times> js_object list) list"
  loadedScopes :: "string set"
  activeScope :: "string option"
  activeTool :: string
  selectedByScope :: "string \<Rightarrow> string list option"
  drawingDefaults :: DrawingDefaults
  clearToast :: "ClearToast option"
  clearConfirm :: "ClearConfirm option"
  histories :: "(string \<times> ScopeHistory) list"
  pendingTimers :: "string list"
  defaultsTimer :: bool
  drawingStorage :: DrawingStorage

text \<open>The store of a page that has just been loaded.\<close>

definition openDrawings :: "DrawingStorage \<Rightarrow> DrawingState" where
  "openDrawings st = \<lparr>byScope = [], loadedScopes = {}, activeScope = None, activeTool = ''select'',
     selectedByScope = (\<lambda>_. None), drawingDefaults = loadDefaults st, clearToast = None, clearConfirm = None,
     histories = [], pendingTimers = [], defaultsTimer = False, drawingStorage = st\<rparr>"

definition drawingsFor :: "DrawingState \<Rightarrow> string \<Rightarrow> js_object list" where
  "drawingsFor s scope = (case map_of (byScope s) scope of Some items \<Rightarrow> items | None \<Rightarrow> [])"

definition selectedFor :: "DrawingState \<Rightarrow> string \<Rightarrow> string list" where
  "selectedFor s scope = (case selectedByScope s scope of Some ids \<Rightarrow> ids | None \<Rightarrow> [])"

subsection \<open>Undo history\<close>

definition HISTORY_CAP :: nat where "HISTORY_CAP = 50"
definition UPDATE_MERGE_MS :: rat where "UPDATE_MERGE_MS = 500"
definition HISTORY_SCOPE_CAP :: nat where "HISTORY_SCOPE_CAP = 12"
definition SCOPE_CACHE_CAP :: nat where "SCOPE_CACHE_CAP = 16"

text \<open>The entry of the scope moves to the recent end and the oldest scopes beyond the cap go.\<close>

definition touch_history :: "string \<Rightarrow> ScopeHistory \<Rightarrow> (string \<times> ScopeHistory) list \<Rightarrow> (string \<times> ScopeHistory) list" where
  "touch_history scope h hs = (let moved = AList.delete scope hs @ [(scope, h)]
     in drop (length moved - HISTORY_SCOPE_CAP) moved)"

definition history_of :: "string \<Rightarrow> (string \<times> ScopeHistory) list \<Rightarrow> ScopeHistory" where
  "history_of scope hs = (case map_of hs scope of Some h \<Rightarrow> h | None \<Rightarrow> \<lparr>sh_undo = [], sh_redo = []\<rparr>)"

definition merges :: "rat \<Rightarrow> HistoryOp \<Rightarrow> string option \<Rightarrow> HistoryEntry list \<Rightarrow> bool" where
  "merges now op target entries \<longleftrightarrow> (op = OpUpdate \<or> op = OpUpdateMany) \<and> entries \<noteq> []
     \<and> he_op (last entries) = op \<and> he_targetId (last entries) = target \<and> now - he_at (last entries) < UPDATE_MERGE_MS"

definition push_capped :: "HistoryEntry \<Rightarrow> HistoryEntry list \<Rightarrow> HistoryEntry list" where
  "push_capped e entries = (let pushed = entries @ [e] in if length pushed > HISTORY_CAP then tl pushed else pushed)"

definition record_entry :: "rat \<Rightarrow> js_object list \<Rightarrow> HistoryOp \<Rightarrow> string option \<Rightarrow> ScopeHistory \<Rightarrow> ScopeHistory" where
  "record_entry now pre op target h =
     \<lparr>sh_undo = (if merges now op target (sh_undo h)
        then butlast (sh_undo h) @ [(last (sh_undo h))\<lparr>he_at := now\<rparr>]
        else push_capped \<lparr>he_items = pre, he_op = op, he_targetId = target, he_at = now\<rparr> (sh_undo h)),
      sh_redo = []\<rparr>"

definition recordHistory :: "rat \<Rightarrow> string \<Rightarrow> js_object list \<Rightarrow> HistoryOp \<Rightarrow> string option \<Rightarrow> DrawingState \<Rightarrow> DrawingState" where
  "recordHistory now scope pre op target s = s\<lparr>histories :=
     touch_history scope (record_entry now pre op target (history_of scope (histories s))) (histories s)\<rparr>"

subsection \<open>Selections, writes and the scope cache\<close>

definition withSelection :: "(string \<Rightarrow> string list option) \<Rightarrow> string \<Rightarrow> string list \<Rightarrow> (string \<Rightarrow> string list option)" where
  "withSelection m scope ids = (if (case m scope of Some cur \<Rightarrow> cur | None \<Rightarrow> []) = ids then m else m(scope \<mapsto> ids))"

definition has_drawing :: "js_object list \<Rightarrow> string \<Rightarrow> bool" where
  "has_drawing items i \<longleftrightarrow> list_ex (\<lambda>d. drawing_id d = Some i) items"

definition pruneSelection :: "(string \<Rightarrow> string list option) \<Rightarrow> string \<Rightarrow> js_object list \<Rightarrow> (string \<Rightarrow> string list option)" where
  "pruneSelection m scope items = (case m scope of
     None \<Rightarrow> m
   | Some cur \<Rightarrow> if cur = [] then m else (let alive = filter (has_drawing items) cur
       in if length alive = length cur then m else withSelection m scope alive))"

definition queuePersist :: "string \<Rightarrow> DrawingState \<Rightarrow> DrawingState" where
  "queuePersist scope s = s\<lparr>pendingTimers :=
     (if scope \<in> set (pendingTimers s) then pendingTimers s else pendingTimers s @ [scope])\<rparr>"

text \<open>The debounce timer of a scope fires.\<close>

definition persistFires :: "string \<Rightarrow> DrawingState \<Rightarrow> DrawingState" where
  "persistFires scope s = (if scope \<in> set (pendingTimers s)
     then s\<lparr>drawingStorage := saveDrawings scope (drawingsFor s scope) (drawingStorage s),
            pendingTimers := filter (\<lambda>x. x \<noteq> scope) (pendingTimers s)\<rparr> else s)"

definition queuePersistDefaults :: "DrawingState \<Rightarrow> DrawingState" where
  "queuePersistDefaults s = s\<lparr>defaultsTimer := True\<rparr>"

definition defaultsFire :: "DrawingState \<Rightarrow> DrawingState" where
  "defaultsFire s = (if defaultsTimer s
     then s\<lparr>drawingStorage := saveDefaults (drawingDefaults s) (drawingStorage s), defaultsTimer := False\<rparr> else s)"

text \<open>
  The loop of \<open>pruneIdleEmptyScopes\<close> stops once the surplus over the cap has been collected: it takes
  that many of the idle scopes, oldest first.
\<close>

definition idle_scope :: "string option \<Rightarrow> DrawingState \<Rightarrow> string \<times> js_object list \<Rightarrow> bool" where
  "idle_scope active s e \<longleftrightarrow> \<not> (Some (fst e) = active \<or> snd e \<noteq> [] \<or> fst e \<in> set (pendingTimers s))"

definition doomed_scopes :: "string option \<Rightarrow> DrawingState \<Rightarrow> string list" where
  "doomed_scopes active s =
     take (length (byScope s) - SCOPE_CACHE_CAP) (map fst (filter (idle_scope active s) (byScope s)))"

definition pruneIdleEmptyScopes :: "string option \<Rightarrow> DrawingState \<Rightarrow> DrawingState" where
  "pruneIdleEmptyScopes active s = (let doomed = doomed_scopes active s in
     s\<lparr>byScope := filter (\<lambda>e. fst e \<notin> set doomed) (byScope s),
       loadedScopes := loadedScopes s - set doomed,
       selectedByScope := (\<lambda>c. if c \<in> set doomed then None else selectedByScope s c),
       histories := filter (\<lambda>e. fst e \<notin> set doomed) (histories s)\<rparr>)"

definition setActiveScope :: "string option \<Rightarrow> DrawingState \<Rightarrow> DrawingState" where
  "setActiveScope scope s = (if scope = activeScope s then s else
     (let s1 = s\<lparr>activeScope := scope\<rparr>;
          s2 = (case scope of
            None \<Rightarrow> s1
          | Some c \<Rightarrow> if c \<in> loadedScopes s1 then s1
              else s1\<lparr>byScope := AList.update c (loadDrawings (drawingStorage s1) c) (byScope s1),
                      loadedScopes := insert c (loadedScopes s1)\<rparr>)
      in pruneIdleEmptyScopes scope s2))"

subsection \<open>Tool and selection\<close>

definition setActiveTool :: "string \<Rightarrow> DrawingState \<Rightarrow> DrawingState" where
  "setActiveTool tool s = s\<lparr>activeTool := tool\<rparr>"

definition setSelected :: "string \<Rightarrow> string option \<Rightarrow> DrawingState \<Rightarrow> DrawingState" where
  "setSelected scope i s = s\<lparr>selectedByScope :=
     withSelection (selectedByScope s) scope (case i of None \<Rightarrow> [] | Some x \<Rightarrow> [x])\<rparr>"

definition toggleSelected :: "string \<Rightarrow> string \<Rightarrow> DrawingState \<Rightarrow> DrawingState" where
  "toggleSelected scope i s = (let cur = selectedFor s scope;
       new = (if i \<in> set cur then filter (\<lambda>x. x \<noteq> i) cur else cur @ [i])
     in s\<lparr>selectedByScope := withSelection (selectedByScope s) scope new\<rparr>)"

definition setSelection :: "string \<Rightarrow> string list \<Rightarrow> DrawingState \<Rightarrow> DrawingState" where
  "setSelection scope ids s = s\<lparr>selectedByScope := withSelection (selectedByScope s) scope ids\<rparr>"

definition addToSelection :: "string \<Rightarrow> string list \<Rightarrow> DrawingState \<Rightarrow> DrawingState" where
  "addToSelection scope ids s = (if ids = [] then s else
     (let cur = selectedFor s scope; added = filter (\<lambda>i. i \<notin> set cur) ids
      in if added = [] then s
         else s\<lparr>selectedByScope := withSelection (selectedByScope s) scope (cur @ added)\<rparr>))"

definition clearAllSelections :: "DrawingState \<Rightarrow> DrawingState" where
  "clearAllSelections s = s\<lparr>selectedByScope := (\<lambda>_. None)\<rparr>"

definition exitDrawingMode :: "DrawingState \<Rightarrow> DrawingState" where
  "exitDrawingMode s = s\<lparr>activeTool := ''select'', selectedByScope := (\<lambda>_. None)\<rparr>"

subsection \<open>Styles\<close>

record DefaultsPatch =
  dp_hiddenAll :: "bool option"
  dp_favorites :: "json list option"
  dp_keepDrawing :: "bool option"
  dp_templates :: "json list option"

definition setDefaults :: "DefaultsPatch \<Rightarrow> DrawingState \<Rightarrow> DrawingState" where
  "setDefaults patch s =
     (let prev = drawingDefaults s; keep = (\<lambda>new old. case new of None \<Rightarrow> old | Some _ \<Rightarrow> new)
      in queuePersistDefaults (s\<lparr>drawingDefaults := prev\<lparr>
           dd_hiddenAll := (case dp_hiddenAll patch of Some b \<Rightarrow> JBool b | None \<Rightarrow> dd_hiddenAll prev),
           dd_favorites := keep (dp_favorites patch) (dd_favorites prev),
           dd_keepDrawing := (case dp_keepDrawing patch of Some b \<Rightarrow> Some b | None \<Rightarrow> dd_keepDrawing prev),
           dd_templates := keep (dp_templates patch) (dd_templates prev)\<rparr>\<rparr>))"

definition styleForKind :: "DrawingState \<Rightarrow> string \<Rightarrow> js_object option" where
  "styleForKind s k = map_of (dd_styleByKind (drawingDefaults s)) k"

definition setKindStyle :: "string \<Rightarrow> js_patch \<Rightarrow> DrawingState \<Rightarrow> DrawingState" where
  "setKindStyle k patch s =
     (let prev = drawingDefaults s; old = (case styleForKind s k of Some o' \<Rightarrow> o' | None \<Rightarrow> [])
      in queuePersistDefaults (s\<lparr>drawingDefaults :=
           prev\<lparr>dd_styleByKind := AList.update k (spread old patch) (dd_styleByKind prev)\<rparr>\<rparr>))"

definition style_pick :: "js_patch \<Rightarrow> string \<Rightarrow> (json \<Rightarrow> bool) \<Rightarrow> js_patch" where
  "style_pick patch k ok = (case map_of patch k of Some (Some v) \<Rightarrow> if ok v then [(k, Some v)] else [] | _ \<Rightarrow> [])"

definition label_kinds :: "string list" where
  "label_kinds = [''hline'', ''trendline'', ''hray'', ''fib'', ''fib-extension'']"

definition style_patch :: "string \<Rightarrow> js_patch \<Rightarrow> js_patch" where
  "style_patch k patch =
     style_pick patch ''color'' (\<lambda>v. json_str (Some v) \<noteq> None)
     @ style_pick patch ''width'' (\<lambda>v. json_num (Some v) \<noteq> None)
     @ style_pick patch ''lineStyle'' (\<lambda>v. v \<noteq> JNull)
     @ style_pick patch ''fontSize'' (\<lambda>v. json_num (Some v) \<noteq> None)
     @ style_pick patch ''fillOpacity'' (\<lambda>v. json_num (Some v) \<noteq> None)
     @ (if k \<in> set label_kinds then style_pick patch ''labelHidden'' (\<lambda>v. json_bool (Some v) \<noteq> None) else [])"

subsection \<open>Mutations\<close>

text \<open>\<open>byScope.set(scope, items)\<close> on a copy, followed by \<open>queuePersist\<close>: the tail of every mutation.\<close>

definition setItems :: "string \<Rightarrow> js_object list \<Rightarrow> DrawingState \<Rightarrow> DrawingState" where
  "setItems scope items s = s\<lparr>byScope := AList.update scope items (byScope s)\<rparr>"

definition pruneTo :: "string \<Rightarrow> js_object list \<Rightarrow> DrawingState \<Rightarrow> DrawingState" where
  "pruneTo scope items s = s\<lparr>selectedByScope := pruneSelection (selectedByScope s) scope items\<rparr>"

definition join_comma :: "string list \<Rightarrow> string" where
  "join_comma xs = (case xs of [] \<Rightarrow> [] | y # ys \<Rightarrow> y @ concat (map (\<lambda>x. '','' @ x) ys))"

definition id_signature :: "string list \<Rightarrow> string option" where
  "id_signature ids = Some (join_comma (sort ids))"

definition ids_of :: "js_object list \<Rightarrow> string list" where
  "ids_of items = List.map_filter drawing_id items"

definition find_drawing :: "js_object list \<Rightarrow> string \<Rightarrow> js_object option" where
  "find_drawing items i = find (\<lambda>d. drawing_id d = Some i) items"

definition addDrawing :: "rat \<Rightarrow> string \<Rightarrow> js_object \<Rightarrow> DrawingState \<Rightarrow> DrawingState" where
  "addDrawing now scope d s = (let current = drawingsFor s scope in
     queuePersist scope (setItems scope (current @ [d]) (recordHistory now scope current OpAdd (drawing_id d) s)))"

definition updateDrawing :: "rat \<Rightarrow> string \<Rightarrow> string \<Rightarrow> js_patch \<Rightarrow> DrawingState \<Rightarrow> DrawingState" where
  "updateDrawing now scope i patch s = (let current = drawingsFor s scope in
     if isLocked (find_drawing current i) \<and> \<not> isUnlockOnlyPatch patch then s
     else (let s1 = recordHistory now scope current OpUpdate (Some i) s;
               next = map (\<lambda>d. if drawing_id d = Some i then spread d patch else d) current;
               s2 = queuePersist scope (setItems scope next s1)
           in case find_drawing current i of
                None \<Rightarrow> s2
              | Some edited \<Rightarrow> (let sp = style_patch (kind_of edited) patch
                  in if sp = [] then s2 else setKindStyle (kind_of edited) sp s2)))"

definition removeDrawing :: "rat \<Rightarrow> string \<Rightarrow> string \<Rightarrow> DrawingState \<Rightarrow> DrawingState" where
  "removeDrawing now scope i s = (let current = drawingsFor s scope in
     case find_drawing current i of
       None \<Rightarrow> s
     | Some target \<Rightarrow> if isLocked (Some target) then s
         else (let next = filter (\<lambda>d. drawing_id d \<noteq> Some i) current
               in queuePersist scope (pruneTo scope next (setItems scope next
                    (recordHistory now scope current OpRemove (Some i) s)))))"

definition patch_for :: "(string \<times> js_patch) list \<Rightarrow> js_object \<Rightarrow> js_patch option" where
  "patch_for patches d = (case drawing_id d of None \<Rightarrow> None | Some i \<Rightarrow> map_of (rev patches) i)"

definition applicable :: "(string \<times> js_patch) list \<Rightarrow> js_object \<Rightarrow> bool" where
  "applicable patches d \<longleftrightarrow> (case patch_for patches d of None \<Rightarrow> False
     | Some p \<Rightarrow> \<not> isLocked (Some d) \<or> isUnlockOnlyPatch p)"

definition updateMany :: "rat \<Rightarrow> string \<Rightarrow> (string \<times> js_patch) list \<Rightarrow> DrawingState \<Rightarrow> DrawingState" where
  "updateMany now scope patches s = (let current = drawingsFor s scope;
       ids = ids_of (filter (applicable patches) current)
     in if filter (applicable patches) current = [] then s
        else (let next = map (\<lambda>d. if drawing_id d \<in> Some ` set ids
                    then spread d (case patch_for patches d of Some p \<Rightarrow> p | None \<Rightarrow> []) else d) current
              in queuePersist scope (setItems scope next
                   (recordHistory now scope current OpUpdateMany (id_signature ids) s))))"

definition unlocked_in :: "string list \<Rightarrow> js_object list \<Rightarrow> string list" where
  "unlocked_in ids current =
     unique (ids_of (filter (\<lambda>d. drawing_id d \<in> Some ` set ids \<and> \<not> isLocked (Some d)) current))"

definition removeMany :: "rat \<Rightarrow> string \<Rightarrow> string list \<Rightarrow> DrawingState \<Rightarrow> DrawingState" where
  "removeMany now scope ids s = (let current = drawingsFor s scope; doomed = unlocked_in ids current in
     if doomed = [] then s
     else (let next = filter (\<lambda>d. drawing_id d \<notin> Some ` set doomed) current
           in queuePersist scope ((pruneTo scope next (setItems scope next
                (recordHistory now scope current OpRemoveMany (id_signature doomed) s)))
                \<lparr>clearToast := Some \<lparr>ct_scope = scope, ct_count = length doomed, ct_snapshot = current\<rparr>\<rparr>)))"

definition addMany :: "rat \<Rightarrow> string \<Rightarrow> js_object list \<Rightarrow> DrawingState \<Rightarrow> DrawingState" where
  "addMany now scope items s = (if items = [] then s else (let current = drawingsFor s scope in
     queuePersist scope (setItems scope (current @ items)
       (recordHistory now scope current OpAddMany (id_signature (ids_of items)) s))))"

datatype ZOrder = ToFront | ToBack

definition reorder :: "rat \<Rightarrow> string \<Rightarrow> string list \<Rightarrow> ZOrder \<Rightarrow> DrawingState \<Rightarrow> DrawingState" where
  "reorder now scope ids dest s = (let current = drawingsFor s scope;
       moving = unlocked_in ids current;
       moves = (\<lambda>d. drawing_id d \<in> Some ` set moving)
     in if moving = [] then s
        else if (case dest of ToFront \<Rightarrow> list_all moves (drop (length current - length moving) current)
                            | ToBack \<Rightarrow> list_all moves (take (length moving) current)) then s
        else (let moved = filter moves current; rest = filter (\<lambda>d. \<not> moves d) current
              in queuePersist scope (setItems scope (case dest of ToFront \<Rightarrow> rest @ moved | ToBack \<Rightarrow> moved @ rest)
                   (recordHistory now scope current OpReorder (id_signature moving) s))))"

definition set_lock :: "bool \<Rightarrow> js_object \<Rightarrow> js_object" where
  "set_lock locked d = (if isLocked (Some d) = locked then d
     else put_member ''locked'' (if locked then Some (JBool True) else None) d)"

definition setLockedAll :: "rat \<Rightarrow> string \<Rightarrow> bool \<Rightarrow> DrawingState \<Rightarrow> DrawingState" where
  "setLockedAll now scope locked s = (let current = drawingsFor s scope in
     if current = [] \<or> list_all (\<lambda>d. isLocked (Some d) = locked) current then s
     else queuePersist scope (setItems scope (map (set_lock locked) current)
            (recordHistory now scope current OpLockAll None s)))"

definition requestClearAll :: "string \<Rightarrow> DrawingState \<Rightarrow> DrawingState" where
  "requestClearAll scope s = (let items = drawingsFor s scope;
       count = length (filter (\<lambda>d. \<not> isLocked (Some d)) items)
     in if count = 0 then s
        else s\<lparr>clearConfirm := Some \<lparr>cc_scope = scope, cc_count = count, cc_lockedCount = length items - count\<rparr>\<rparr>)"

definition cancelClearAll :: "DrawingState \<Rightarrow> DrawingState" where
  "cancelClearAll s = s\<lparr>clearConfirm := None\<rparr>"

definition clearAll :: "rat \<Rightarrow> string \<Rightarrow> DrawingState \<Rightarrow> DrawingState" where
  "clearAll now scope s = (let current = drawingsFor s scope;
       survivors = filter (\<lambda>d. isLocked (Some d)) current;
       removed = length current - length survivors
     in if removed = 0 then s\<lparr>clearConfirm := None\<rparr>
        else queuePersist scope ((pruneTo scope survivors (setItems scope survivors
               (recordHistory now scope current OpClearAll None s)))
               \<lparr>clearToast := Some \<lparr>ct_scope = scope, ct_count = removed, ct_snapshot = current\<rparr>,
                clearConfirm := None\<rparr>))"

definition restoreDrawings :: "rat \<Rightarrow> string \<Rightarrow> js_object list \<Rightarrow> DrawingState \<Rightarrow> DrawingState" where
  "restoreDrawings now scope items s = (let s1 = setItems scope items
       (recordHistory now scope (drawingsFor s scope) OpRestore None s)
     in queuePersist scope (s1\<lparr>selectedByScope := withSelection (selectedByScope s) scope []\<rparr>))"

definition importDrawings :: "(nat \<Rightarrow> string) \<Rightarrow> rat \<Rightarrow> string \<Rightarrow> js_object list \<Rightarrow> DrawingState \<Rightarrow> DrawingState \<times> nat" where
  "importDrawings mk now scope items s = (if items = [] then (s, 0)
     else (let current = drawingsFor s scope;
               reassigned = map2 (\<lambda>n d. put_member ''id'' (Some (JStr (mk n))) d) [0..<length items] items
           in (queuePersist scope (setItems scope (current @ reassigned)
                 (recordHistory now scope current OpImport None s)), length reassigned)))"

definition dismissClearToast :: "DrawingState \<Rightarrow> DrawingState" where
  "dismissClearToast s = s\<lparr>clearToast := None\<rparr>"

definition undo :: "rat \<Rightarrow> string \<Rightarrow> DrawingState \<Rightarrow> DrawingState" where
  "undo now scope s = (case map_of (histories s) scope of
     None \<Rightarrow> s
   | Some h \<Rightarrow> if sh_undo h = [] then s
       else (let entry = last (sh_undo h);
                 h' = \<lparr>sh_undo = butlast (sh_undo h), sh_redo = sh_redo h @ [entry\<lparr>he_items := drawingsFor s scope, he_at := now\<rparr>]\<rparr>
             in queuePersist scope (pruneTo scope (he_items entry) (setItems scope (he_items entry)
                  (s\<lparr>histories := AList.update scope h' (histories s)\<rparr>)))))"

definition redo :: "rat \<Rightarrow> string \<Rightarrow> DrawingState \<Rightarrow> DrawingState" where
  "redo now scope s = (case map_of (histories s) scope of
     None \<Rightarrow> s
   | Some h \<Rightarrow> if sh_redo h = [] then s
       else (let entry = last (sh_redo h);
                 h' = \<lparr>sh_undo = sh_undo h @ [entry\<lparr>he_items := drawingsFor s scope, he_at := now\<rparr>], sh_redo = butlast (sh_redo h)\<rparr>
             in queuePersist scope (pruneTo scope (he_items entry) (setItems scope (he_items entry)
                  (s\<lparr>histories := AList.update scope h' (histories s)\<rparr>)))))"

definition flushPending :: "DrawingState \<Rightarrow> DrawingState" where
  "flushPending s = defaultsFire (s\<lparr>drawingStorage :=
       foldl (\<lambda>st scope. saveDrawings scope (drawingsFor s scope) st) (drawingStorage s) (pendingTimers s),
     pendingTimers := []\<rparr>)"

end
