(* ===== verification/DrawingLaws.thy ===== *)
theory DrawingLaws
  imports DrawingStore
begin

section \<open>Laws of the drawing store\<close>

text \<open>
  One datatype of mutations, the common shape of what they do (\<open>edit\<close>), and what follows from it:
  undo and redo, merged drags, the lock, the invariant of the store, and what a reload
  of the page shows.
\<close>

datatype DrawingMutation =
    Add js_object
  | Update string js_patch
  | Remove string
  | UpdateMany "(string \<times> js_patch) list"
  | RemoveMany "string list"
  | AddMany "js_object list"
  | Reorder "string list" ZOrder
  | LockAll bool
  | ClearAll
  | Restore "js_object list"
  | Import "nat \<Rightarrow> string" "js_object list"

fun mutate :: "DrawingMutation \<Rightarrow> rat \<Rightarrow> string \<Rightarrow> DrawingState \<Rightarrow> DrawingState" where
  "mutate (Add d) now scope s = addDrawing now scope d s"
| "mutate (Update i p) now scope s = updateDrawing now scope i p s"
| "mutate (Remove i) now scope s = removeDrawing now scope i s"
| "mutate (UpdateMany ps) now scope s = updateMany now scope ps s"
| "mutate (RemoveMany ids) now scope s = removeMany now scope ids s"
| "mutate (AddMany ds) now scope s = addMany now scope ds s"
| "mutate (Reorder ids z) now scope s = reorder now scope ids z s"
| "mutate (LockAll b) now scope s = setLockedAll now scope b s"
| "mutate ClearAll now scope s = clearAll now scope s"
| "mutate (Restore ds) now scope s = restoreDrawings now scope ds s"
| "mutate (Import mk ds) now scope s = fst (importDrawings mk now scope ds s)"

subsection \<open>The shape of a mutation\<close>

text \<open>The list of a scope was replaced, the old one recorded, and the write queued.\<close>

definition edit :: "rat \<Rightarrow> string \<Rightarrow> HistoryOp \<Rightarrow> string option \<Rightarrow> js_object list \<Rightarrow> DrawingState \<Rightarrow> DrawingState \<Rightarrow> bool" where
  "edit now scope op target next s s' \<longleftrightarrow>
     byScope s' = AList.update scope next (byScope s)
     \<and> histories s' = histories (recordHistory now scope (drawingsFor s scope) op target s)
     \<and> pendingTimers s' = pendingTimers (queuePersist scope s)
     \<and> loadedScopes s' = loadedScopes s \<and> activeScope s' = activeScope s \<and> drawingStorage s' = drawingStorage s"

text \<open>Nothing the drawings or their history depend on changed.\<close>

definition untouched :: "DrawingState \<Rightarrow> DrawingState \<Rightarrow> bool" where
  "untouched s s' \<longleftrightarrow> byScope s' = byScope s \<and> histories s' = histories s \<and> pendingTimers s' = pendingTimers s
     \<and> loadedScopes s' = loadedScopes s \<and> activeScope s' = activeScope s \<and> drawingStorage s' = drawingStorage s
     \<and> selectedByScope s' = selectedByScope s"

lemma untouched_refl [simp]: "untouched s s"
  by (simp add: untouched_def)

named_theorems drawing_defs "definitions of the drawing store's mutations"

lemmas [drawing_defs] = addDrawing_def removeDrawing_def updateMany_def removeMany_def addMany_def
  reorder_def setLockedAll_def clearAll_def restoreDrawings_def importDrawings_def

lemmas edit_parts = edit_def recordHistory_def queuePersist_def setItems_def pruneTo_def

lemma style_sync_parts [simp]:
  "byScope (setKindStyle k p s) = byScope s" "histories (setKindStyle k p s) = histories s"
  "pendingTimers (setKindStyle k p s) = pendingTimers s" "loadedScopes (setKindStyle k p s) = loadedScopes s"
  "activeScope (setKindStyle k p s) = activeScope s" "drawingStorage (setKindStyle k p s) = drawingStorage s"
  "selectedByScope (setKindStyle k p s) = selectedByScope s"
  by (simp_all add: setKindStyle_def queuePersistDefaults_def Let_def)

lemma updateDrawing_cases:
  "updateDrawing now scope i p s = s \<or>
   edit now scope OpUpdate (Some i) (map (\<lambda>d. if drawing_id d = Some i then spread d p else d) (drawingsFor s scope))
     s (updateDrawing now scope i p s)
   \<and> selectedByScope (updateDrawing now scope i p s) = selectedByScope s
   \<and> (isLocked (find_drawing (drawingsFor s scope) i) \<longrightarrow> isUnlockOnlyPatch p)"
  by (auto simp: updateDrawing_def edit_parts Let_def split: option.split)

definition mutated_items :: "DrawingMutation \<Rightarrow> js_object list \<Rightarrow> js_object list" where
  "mutated_items m current = (case m of
     Add d \<Rightarrow> current @ [d]
   | Update i p \<Rightarrow> map (\<lambda>d. if drawing_id d = Some i then spread d p else d) current
   | Remove i \<Rightarrow> filter (\<lambda>d. drawing_id d \<noteq> Some i) current
   | UpdateMany ps \<Rightarrow> map (\<lambda>d. if drawing_id d \<in> Some ` set (ids_of (filter (applicable ps) current))
                then spread d (case patch_for ps d of Some p \<Rightarrow> p | None \<Rightarrow> []) else d) current
   | RemoveMany ids \<Rightarrow> filter (\<lambda>d. drawing_id d \<notin> Some ` set (unlocked_in ids current)) current
   | AddMany ds \<Rightarrow> current @ ds
   | Reorder ids z \<Rightarrow> (let moves = (\<lambda>d. drawing_id d \<in> Some ` set (unlocked_in ids current)) in
       case z of ToFront \<Rightarrow> filter (\<lambda>d. \<not> moves d) current @ filter moves current
               | ToBack \<Rightarrow> filter moves current @ filter (\<lambda>d. \<not> moves d) current)
   | LockAll b \<Rightarrow> map (set_lock b) current
   | ClearAll \<Rightarrow> filter (\<lambda>d. isLocked (Some d)) current
   | Restore ds \<Rightarrow> ds
   | Import mk ds \<Rightarrow> current @ map2 (\<lambda>n d. put_member ''id'' (Some (JStr (mk n))) d) [0..<length ds] ds)"

definition mutation_op :: "DrawingMutation \<Rightarrow> HistoryOp" where
  "mutation_op m = (case m of Add _ \<Rightarrow> OpAdd | Update _ _ \<Rightarrow> OpUpdate | Remove _ \<Rightarrow> OpRemove | UpdateMany _ \<Rightarrow> OpUpdateMany
     | RemoveMany _ \<Rightarrow> OpRemoveMany | AddMany _ \<Rightarrow> OpAddMany | Reorder _ _ \<Rightarrow> OpReorder | LockAll _ \<Rightarrow> OpLockAll
     | ClearAll \<Rightarrow> OpClearAll | Restore _ \<Rightarrow> OpRestore | Import _ _ \<Rightarrow> OpImport)"

text \<open>The id, or the signature of the ids, that the step of a mutation is recorded under.\<close>

definition mutation_target :: "DrawingMutation \<Rightarrow> js_object list \<Rightarrow> string option" where
  "mutation_target m current = (case m of Add d \<Rightarrow> drawing_id d | Update i _ \<Rightarrow> Some i | Remove i \<Rightarrow> Some i
     | UpdateMany ps \<Rightarrow> id_signature (ids_of (filter (applicable ps) current))
     | RemoveMany ids \<Rightarrow> id_signature (unlocked_in ids current) | AddMany ds \<Rightarrow> id_signature (ids_of ds)
     | Reorder ids _ \<Rightarrow> id_signature (unlocked_in ids current) | _ \<Rightarrow> None)"

text \<open>Every mutation is refused, or it is the edit to the items above.\<close>

lemma mutate_cases:
  obtains (refused) "untouched s (mutate m now scope s)"
  | (edited) "edit now scope (mutation_op m) (mutation_target m (drawingsFor s scope))
       (mutated_items m (drawingsFor s scope)) s (mutate m now scope s)"
proof -
  have "untouched s (mutate m now scope s)
      \<or> edit now scope (mutation_op m) (mutation_target m (drawingsFor s scope))
          (mutated_items m (drawingsFor s scope)) s (mutate m now scope s)"
  proof (cases m)
    case (Update i p)
    then show ?thesis using updateDrawing_cases [of now scope i p s]
      by (auto simp: mutated_items_def mutation_op_def mutation_target_def)
  qed (auto simp: drawing_defs edit_parts mutated_items_def mutation_op_def mutation_target_def untouched_def Let_def
      split: option.split ZOrder.split)
  then show ?thesis using refused edited by blast
qed

lemma drawingsFor_edit:
  "edit now scope op target next s s' \<Longrightarrow> drawingsFor s' c = (if c = scope then next else drawingsFor s c)"
  by (simp add: edit_def drawingsFor_def update_conv')

lemma drawingsFor_untouched: "untouched s s' \<Longrightarrow> drawingsFor s' c = drawingsFor s c"
  by (simp add: untouched_def drawingsFor_def)

subsection \<open>The history of a scope\<close>

abbreviation undo_stack :: "DrawingState \<Rightarrow> string \<Rightarrow> HistoryEntry list" where
  "undo_stack s scope \<equiv> sh_undo (history_of scope (histories s))"

abbreviation redo_stack :: "DrawingState \<Rightarrow> string \<Rightarrow> HistoryEntry list" where
  "redo_stack s scope \<equiv> sh_redo (history_of scope (histories s))"

lemma map_of_drop: "k \<notin> fst ` set (take n xs) \<Longrightarrow> map_of (drop n xs) k = map_of xs k"
proof -
  assume "k \<notin> fst ` set (take n xs)"
  then have "map_of (take n xs) k = None" by (simp add: map_of_eq_None_iff)
  then have "map_of (take n xs @ drop n xs) k = map_of (drop n xs) k"
    by (simp only: map_of_append) (simp add: map_add_def)
  then show ?thesis by simp
qed

lemma history_touched [simp]: "history_of scope (touch_history scope h hs) = h"
proof -
  let ?moved = "AList.delete scope hs @ [(scope, h)]" and ?n = "length (AList.delete scope hs @ [(scope, h)]) - HISTORY_SCOPE_CAP"
  have "?n \<le> length (AList.delete scope hs)" by (simp add: HISTORY_SCOPE_CAP_def)
  then have "drop ?n ?moved = drop ?n (AList.delete scope hs) @ [(scope, h)]" by simp
  moreover have "scope \<notin> fst ` set (drop ?n (AList.delete scope hs))"
    using delete_notin_dom [of scope hs] set_drop_subset by fastforce
  then have "map_of (drop ?n (AList.delete scope hs)) scope = None" by (metis map_of_eq_None_iff)
  ultimately have "map_of (drop ?n ?moved) scope = Some h" by (simp only: map_of_append map_add_def option.case) simp
  then show ?thesis by (simp only: history_of_def touch_history_def Let_def option.case)
qed

lemma history_edit:
  "edit now scope op target next s s' \<Longrightarrow>
   history_of scope (histories s') = record_entry now (drawingsFor s scope) op target (history_of scope (histories s))"
  by (simp add: edit_def recordHistory_def)

text \<open>What undo and redo do to the items and to the two stacks.\<close>

lemma undo_effect:
  assumes "undo_stack s scope \<noteq> []"
  shows "drawingsFor (undo now scope s) c = (if c = scope then he_items (last (undo_stack s scope)) else drawingsFor s c)"
    and "undo_stack (undo now scope s) scope = butlast (undo_stack s scope)"
    and "map he_items (redo_stack (undo now scope s) scope) = map he_items (redo_stack s scope) @ [drawingsFor s scope]"
proof -
  obtain h where h: "map_of (histories s) scope = Some h" "sh_undo h \<noteq> []" "history_of scope (histories s) = h"
    using assms by (auto simp: history_of_def split: option.splits)
  then show "drawingsFor (undo now scope s) c = (if c = scope then he_items (last (undo_stack s scope)) else drawingsFor s c)"
    and "undo_stack (undo now scope s) scope = butlast (undo_stack s scope)"
    and "map he_items (redo_stack (undo now scope s) scope) = map he_items (redo_stack s scope) @ [drawingsFor s scope]"
    by (simp_all add: undo_def Let_def queuePersist_def pruneTo_def setItems_def drawingsFor_def history_of_def update_conv')
qed

lemma redo_effect:
  assumes "redo_stack s scope \<noteq> []"
  shows "drawingsFor (redo now scope s) c = (if c = scope then he_items (last (redo_stack s scope)) else drawingsFor s c)"
    and "redo_stack (redo now scope s) scope = butlast (redo_stack s scope)"
    and "map he_items (undo_stack (redo now scope s) scope) = map he_items (undo_stack s scope) @ [drawingsFor s scope]"
proof -
  obtain h where h: "map_of (histories s) scope = Some h" "sh_redo h \<noteq> []" "history_of scope (histories s) = h"
    using assms by (auto simp: history_of_def split: option.splits)
  then show "drawingsFor (redo now scope s) c = (if c = scope then he_items (last (redo_stack s scope)) else drawingsFor s c)"
    and "redo_stack (redo now scope s) scope = butlast (redo_stack s scope)"
    and "map he_items (undo_stack (redo now scope s) scope) = map he_items (undo_stack s scope) @ [drawingsFor s scope]"
    by (simp_all add: redo_def Let_def queuePersist_def pruneTo_def setItems_def drawingsFor_def history_of_def update_conv')
qed

text \<open>Several steps: the items on top of one stack move, one by one, to the other.\<close>

primrec undos :: "rat list \<Rightarrow> string \<Rightarrow> DrawingState \<Rightarrow> DrawingState" where
  "undos [] scope s = s"
| "undos (t # ts) scope s = undos ts scope (undo t scope s)"

primrec redos :: "rat list \<Rightarrow> string \<Rightarrow> DrawingState \<Rightarrow> DrawingState" where
  "redos [] scope s = s"
| "redos (t # ts) scope s = redos ts scope (redo t scope s)"

text \<open>
  The timeline of a scope: the snapshots undo would show (oldest first), the drawings, then the
  snapshots redo would show (nearest first). Undo and redo move the position in it, nothing else.
\<close>

definition past :: "DrawingState \<Rightarrow> string \<Rightarrow> js_object list list" where
  "past s scope = map he_items (undo_stack s scope)"

definition future :: "DrawingState \<Rightarrow> string \<Rightarrow> js_object list list" where
  "future s scope = rev (map he_items (redo_stack s scope))"

definition timeline :: "DrawingState \<Rightarrow> string \<Rightarrow> js_object list list" where
  "timeline s scope = past s scope @ [drawingsFor s scope] @ future s scope"

lemma undo_timeline:
  assumes "past s scope \<noteq> []"
  shows "timeline (undo now scope s) scope = timeline s scope" "length (past (undo now scope s) scope) = length (past s scope) - 1"
proof -
  have ne: "undo_stack s scope \<noteq> []" using assms by (simp add: past_def)
  have "past s scope = past (undo now scope s) scope @ [drawingsFor (undo now scope s) scope]"
    using ne undo_effect [OF ne, of now] by (cases "undo_stack s scope" rule: rev_cases) (simp_all add: past_def)
  moreover have "future (undo now scope s) scope = drawingsFor s scope # future s scope"
    using undo_effect(3) [OF ne, of now] by (simp add: future_def)
  ultimately show "timeline (undo now scope s) scope = timeline s scope" "length (past (undo now scope s) scope) = length (past s scope) - 1"
    by (simp_all add: timeline_def)
qed

lemma redo_timeline:
  assumes "future s scope \<noteq> []"
  shows "timeline (redo now scope s) scope = timeline s scope" "length (past (redo now scope s) scope) = Suc (length (past s scope))"
proof -
  have ne: "redo_stack s scope \<noteq> []" using assms by (simp add: future_def)
  have "future s scope = drawingsFor (redo now scope s) scope # future (redo now scope s) scope"
    using ne redo_effect [OF ne, of now] by (cases "redo_stack s scope" rule: rev_cases) (simp_all add: future_def)
  moreover have "past (redo now scope s) scope = past s scope @ [drawingsFor s scope]"
    using redo_effect(3) [OF ne, of now] by (simp add: past_def)
  ultimately show "timeline (redo now scope s) scope = timeline s scope" "length (past (redo now scope s) scope) = Suc (length (past s scope))"
    by (simp_all add: timeline_def)
qed

lemma drawings_in_timeline: "drawingsFor s scope = timeline s scope ! length (past s scope)"
  by (simp add: timeline_def nth_append)

lemma undos_timeline:
  assumes "length ts \<le> length (past s scope)"
  shows "timeline (undos ts scope s) scope = timeline s scope \<and> length (past (undos ts scope s) scope) = length (past s scope) - length ts"
  using assms
proof (induction ts arbitrary: s)
  case (Cons t ts)
  then have ne: "past s scope \<noteq> []" by auto
  show ?case using Cons.IH [of "undo t scope s"] Cons.prems undo_timeline [OF ne, of t] by simp
qed simp

lemma redos_timeline:
  assumes "length (past s scope) + length ts < length (timeline s scope)"
  shows "timeline (redos ts scope s) scope = timeline s scope \<and> length (past (redos ts scope s) scope) = length (past s scope) + length ts"
  using assms
proof (induction ts arbitrary: s)
  case (Cons t ts)
  then have ne: "future s scope \<noteq> []" by (auto simp: timeline_def)
  show ?case using Cons.IH [of "redo t scope s"] Cons.prems redo_timeline [OF ne, of t] by simp
qed simp

lemma past_edit:
  assumes "edit now scope op target next s s'"
  shows "past s' scope = (if merges now op target (undo_stack s scope) then past s scope
      else if length (past s scope) < HISTORY_CAP then past s scope @ [drawingsFor s scope]
      else tl (past s scope) @ [drawingsFor s scope])"
    and "future s' scope = []"
proof -
  note h = history_edit [OF assms]
  show "future s' scope = []" by (simp add: future_def h record_entry_def)
  show "past s' scope = (if merges now op target (undo_stack s scope) then past s scope
      else if length (past s scope) < HISTORY_CAP then past s scope @ [drawingsFor s scope]
      else tl (past s scope) @ [drawingsFor s scope])"
  proof (cases "merges now op target (undo_stack s scope)")
    case True
    then show ?thesis
      by (cases "undo_stack s scope" rule: rev_cases) (simp_all add: past_def h record_entry_def merges_def)
  next
    case False
    then show ?thesis
      by (cases "undo_stack s scope") (auto simp: past_def h record_entry_def push_capped_def HISTORY_CAP_def Let_def)
  qed
qed

text \<open>
  An update continues the step before it when that step is an update of the same drawings less than half
  a second old: the code then keeps the older snapshot, so a drag is one step. Other mutations never do.
\<close>

fun continues :: "DrawingMutation \<Rightarrow> rat \<Rightarrow> string \<Rightarrow> DrawingState \<Rightarrow> bool" where
  "continues (Update i p) now scope s \<longleftrightarrow> undo_stack s scope \<noteq> []
     \<and> (let e = last (undo_stack s scope) in he_op e = OpUpdate \<and> he_targetId e = Some i
          \<and> now - he_at e < UPDATE_MERGE_MS)"
| "continues (UpdateMany ps) now scope s \<longleftrightarrow> undo_stack s scope \<noteq> []
     \<and> (let e = last (undo_stack s scope) in he_op e = OpUpdateMany
          \<and> he_targetId e = id_signature (ids_of (filter (applicable ps) (drawingsFor s scope)))
          \<and> now - he_at e < UPDATE_MERGE_MS)"
| "continues m now scope s \<longleftrightarrow> False"

lemma continues_merges:
  "continues m now scope s \<longleftrightarrow> merges now (mutation_op m) (mutation_target m (drawingsFor s scope)) (undo_stack s scope)"
  by (cases m) (auto simp: merges_def mutation_op_def mutation_target_def Let_def)

text \<open>
  A run of mutations of one scope, each at its time, that each changed the drawings and did not continue
  the step before it. Nothing is said of what was recorded.
\<close>

definition opens_step :: "DrawingMutation \<Rightarrow> rat \<Rightarrow> string \<Rightarrow> DrawingState \<Rightarrow> bool" where
  "opens_step m now scope s \<longleftrightarrow> drawingsFor (mutate m now scope s) scope \<noteq> drawingsFor s scope \<and> \<not> continues m now scope s"

lemma opens_step_edits:
  assumes "opens_step m now scope s"
  shows "edit now scope (mutation_op m) (mutation_target m (drawingsFor s scope))
           (mutated_items m (drawingsFor s scope)) s (mutate m now scope s)"
    and "\<not> merges now (mutation_op m) (mutation_target m (drawingsFor s scope)) (undo_stack s scope)"
proof -
  show "edit now scope (mutation_op m) (mutation_target m (drawingsFor s scope))
      (mutated_items m (drawingsFor s scope)) s (mutate m now scope s)"
  proof (cases rule: mutate_cases [of s m now scope])
    case refused
    then show ?thesis using assms by (simp add: opens_step_def drawingsFor_untouched)
  qed
  show "\<not> merges now (mutation_op m) (mutation_target m (drawingsFor s scope)) (undo_stack s scope)"
    using assms by (simp add: opens_step_def continues_merges)
qed

primrec runs_steps :: "(DrawingMutation \<times> rat) list \<Rightarrow> string \<Rightarrow> DrawingState \<Rightarrow> DrawingState \<Rightarrow> bool" where
  "runs_steps [] scope s s' \<longleftrightarrow> s' = s"
| "runs_steps (m # ms) scope s s' \<longleftrightarrow> opens_step (fst m) (snd m) scope s \<and> runs_steps ms scope (mutate (fst m) (snd m) scope s) s'"

lemma opened_past:
  assumes "opens_step m now scope s"
  shows "\<exists>kept. past (mutate m now scope s) scope = kept @ [drawingsFor s scope]
     \<and> (\<exists>dropped. past s scope = dropped @ kept \<and> length dropped = (if length (past s scope) < HISTORY_CAP then 0 else 1))"
proof -
  have p: "past (mutate m now scope s) scope = (if length (past s scope) < HISTORY_CAP then past s scope @ [drawingsFor s scope]
      else tl (past s scope) @ [drawingsFor s scope])"
    using past_edit(1) [OF opens_step_edits(1) [OF assms]] opens_step_edits(2) [OF assms] by simp
  show ?thesis
  proof (cases "length (past s scope) < HISTORY_CAP")
    case True
    then show ?thesis using p by simp
  next
    case False
    then obtain x xs where "past s scope = x # xs" by (cases "past s scope") (auto simp: HISTORY_CAP_def)
    then show ?thesis using p False by simp
  qed
qed

text \<open>The drawings \<open>j\<close> steps back.\<close>

definition steps_back :: "DrawingState \<Rightarrow> string \<Rightarrow> nat \<Rightarrow> js_object list" where
  "steps_back s scope j = (drawingsFor s scope # rev (past s scope)) ! j"

lemma step_back:
  assumes "opens_step m now scope s" "j \<le> length (past s scope)" "Suc j \<le> HISTORY_CAP"
  shows "steps_back (mutate m now scope s) scope (Suc j) = steps_back s scope j"
    and "Suc j \<le> length (past (mutate m now scope s) scope)"
proof -
  obtain kept dropped where k: "past (mutate m now scope s) scope = kept @ [drawingsFor s scope]"
    "past s scope = dropped @ kept" "length dropped = (if length (past s scope) < HISTORY_CAP then 0 else 1)"
    using opened_past [OF assms(1)] by auto
  then have j: "j \<le> length kept" using assms(2,3) by (auto split: if_splits)
  then show "Suc j \<le> length (past (mutate m now scope s) scope)" using k(1) by simp
  show "steps_back (mutate m now scope s) scope (Suc j) = steps_back s scope j"
    using j k(1,2) by (cases j) (simp_all add: steps_back_def nth_append)
qed

lemma run_back:
  assumes "runs_steps ms scope s s'" "j \<le> length (past s scope)" "j + length ms \<le> HISTORY_CAP"
  shows "steps_back s' scope (j + length ms) = steps_back s scope j \<and> j + length ms \<le> length (past s' scope)"
  using assms
proof (induction ms arbitrary: s j)
  case (Cons m ms)
  then show ?case
    using Cons.IH [of "mutate (fst m) (snd m) scope s" "Suc j"] step_back [of "fst m" "snd m" scope s j] by simp
qed simp

lemma undos_back:
  assumes "length ts \<le> length (past s scope)"
  shows "drawingsFor (undos ts scope s) scope = steps_back s scope (length ts)"
proof -
  let ?n = "length (past s scope)" and ?k = "length ts"
  have "drawingsFor (undos ts scope s) scope = timeline s scope ! (?n - ?k)"
    using undos_timeline [OF assms] drawings_in_timeline [of "undos ts scope s" scope] by simp
  also have "\<dots> = (past s scope @ [drawingsFor s scope]) ! (?n - ?k)"
    using assms by (simp add: timeline_def nth_append)
  also have "\<dots> = rev (past s scope @ [drawingsFor s scope]) ! ?k"
    using assms by (subst rev_nth) simp_all
  finally show ?thesis by (simp add: steps_back_def)
qed

text \<open>
  C2. Undo and redo are exact: after any run of up to fifty mutations of a chart's drawings, of any kind
  and in any order, each of which changed the drawings and was not an update merged into the update before
  it, as many undos bring back the drawings the run began with, whatever the history held before; as
  many redos then bring back its outcome. That every mutation records what it replaced is part of what is
  shown.
\<close>

theorem undo_redo_exact:
  assumes "runs_steps ms scope s s'" "length ms \<le> HISTORY_CAP" "length ts = length ms" "length ts' = length ms"
  shows "drawingsFor (undos ts scope s') scope = drawingsFor s scope
       \<and> drawingsFor (redos ts' scope (undos ts scope s')) scope = drawingsFor s' scope"
proof -
  let ?u = "undos ts scope s'"
  have steps: "steps_back s' scope (length ms) = drawingsFor s scope" "length ms \<le> length (past s' scope)"
    using run_back [of ms scope s s' 0] assms(1,2) by (simp_all add: steps_back_def)
  have u: "timeline ?u scope = timeline s' scope" "length (past ?u scope) = length (past s' scope) - length ms"
    using undos_timeline [of ts s' scope] steps(2) assms(3) by simp_all
  have "length (past ?u scope) + length ts' < length (timeline ?u scope)"
    using u steps(2) assms(4) by (simp add: timeline_def)
  from redos_timeline [OF this] have "drawingsFor (redos ts' scope ?u) scope = drawingsFor s' scope"
    using u steps(2) assms(4) drawings_in_timeline [of "redos ts' scope ?u" scope] drawings_in_timeline [of s' scope] by simp
  then show ?thesis using undos_back [of ts s' scope] steps assms(3) by simp
qed

subsection \<open>A drag is one step\<close>

primrec drag :: "string \<Rightarrow> string \<Rightarrow> (rat \<times> js_patch) list \<Rightarrow> DrawingState \<Rightarrow> DrawingState" where
  "drag scope i [] s = s"
| "drag scope i (m # ms) s = drag scope i ms (updateDrawing (fst m) scope i (snd m) s)"

text \<open>Updates of a drawing that is not locked, by patches that leave its identity and its lock alone.\<close>

definition moves_only :: "js_patch \<Rightarrow> bool" where
  "moves_only p \<longleftrightarrow> ''id'' \<notin> fst ` set p \<and> ''locked'' \<notin> fst ` set p"

lemma moved_same: "moves_only p \<Longrightarrow> drawing_id (spread d p) = drawing_id d \<and> isLocked (Some (spread d p)) = isLocked (Some d)"
  by (simp add: moves_only_def drawing_id_def isLocked_def map_of_spread_absent)

lemma find_moved:
  assumes "moves_only p"
  shows "isLocked (find_drawing (map (\<lambda>d. if drawing_id d = Some i then spread d p else d) items) i) = isLocked (find_drawing items i)"
  using moved_same [OF assms] by (induction items) (auto simp: find_drawing_def)

lemma updates_take_effect:
  assumes "\<not> isLocked (find_drawing (drawingsFor s scope) i)"
  shows "edit now scope OpUpdate (Some i) (mutated_items (Update i p) (drawingsFor s scope)) s (updateDrawing now scope i p s)"
  using assms by (auto simp: updateDrawing_def edit_parts mutated_items_def Let_def split: option.split)

lemma dragged_unlocked:
  assumes "\<not> isLocked (find_drawing (drawingsFor s scope) i)" "moves_only p"
  shows "\<not> isLocked (find_drawing (drawingsFor (updateDrawing now scope i p s) scope) i)"
  using assms find_moved [OF assms(2), of i "drawingsFor s scope"]
  by (simp add: drawingsFor_edit [OF updates_take_effect [OF assms(1)]] mutated_items_def)

lemma push_capped_top [simp]: "push_capped e es \<noteq> []" "last (push_capped e es) = e"
  by (cases es; simp add: push_capped_def HISTORY_CAP_def Let_def)+

lemma top_after_update:
  assumes "\<not> isLocked (find_drawing (drawingsFor s scope) i)"
  shows "merges t' OpUpdate (Some i) (undo_stack (updateDrawing t scope i p s) scope) \<longleftrightarrow> t' - t < UPDATE_MERGE_MS"
  by (auto simp: history_edit [OF updates_take_effect [OF assms]] record_entry_def merges_def)

lemma drag_past:
  assumes "\<not> isLocked (find_drawing (drawingsFor s scope) i)" "list_all moves_only (map snd ms)"
    and "successively (\<lambda>t t'. t' - t < UPDATE_MERGE_MS) (t # map fst ms)" "moves_only p"
  shows "past (drag scope i ms (updateDrawing t scope i p s)) scope = past (updateDrawing t scope i p s) scope"
  using assms
proof (induction ms arbitrary: s t p)
  case (Cons m ms)
  let ?s1 = "updateDrawing t scope i p s"
  have u: "\<not> isLocked (find_drawing (drawingsFor ?s1 scope) i)" using dragged_unlocked Cons.prems(1,4) by blast
  have "merges (fst m) OpUpdate (Some i) (undo_stack ?s1 scope)"
    using Cons.prems(3) by (simp add: top_after_update [OF Cons.prems(1)])
  then have "past (updateDrawing (fst m) scope i (snd m) ?s1) scope = past ?s1 scope"
    using past_edit(1) [OF updates_take_effect [OF u]] by simp
  then show ?case using Cons.IH [of ?s1 "fst m" "snd m"] Cons.prems u by simp
qed simp

text \<open>
  C28. Dragging a drawing is one undo step however many pointer moves it took: the updates of one
  unlocked drawing that follow each other within half a second, the first of which does not continue
  an older drag, are all taken back by a single undo and brought back by a single redo.
\<close>

theorem drag_is_one_step:
  assumes "\<not> isLocked (find_drawing (drawingsFor s scope) i)"
    and "list_all moves_only (map snd (m # ms))"
    and "successively (\<lambda>t t'. t' - t < UPDATE_MERGE_MS) (map fst (m # ms))"
    and "\<not> merges (fst m) OpUpdate (Some i) (undo_stack s scope)"
  shows "drawingsFor (undo t scope (drag scope i (m # ms) s)) scope = drawingsFor s scope
       \<and> drawingsFor (redo t' scope (undo t scope (drag scope i (m # ms) s))) scope = drawingsFor (drag scope i (m # ms) s) scope"
proof -
  let ?d = "drag scope i (m # ms) s" and ?u = "undo t scope (drag scope i (m # ms) s)"
  have "past ?d scope = past (updateDrawing (fst m) scope i (snd m) s) scope"
    using drag_past [OF assms(1)] assms(2,3) by simp
  also have "\<dots> = (if length (past s scope) < HISTORY_CAP then past s scope else tl (past s scope)) @ [drawingsFor s scope]"
    using past_edit(1) [OF updates_take_effect [OF assms(1)]] assms(4) by simp
  finally have p: "past ?d scope \<noteq> []" "last (past ?d scope) = drawingsFor s scope" by simp_all
  then have ne: "undo_stack ?d scope \<noteq> []" by (simp add: past_def)
  have "drawingsFor ?u scope = drawingsFor s scope"
    using undo_effect(1) [OF ne] p(2) ne by (simp add: past_def last_map)
  moreover have "drawingsFor (redo t' scope ?u) scope = drawingsFor ?d scope"
  proof -
    have r: "map he_items (redo_stack ?u scope) = map he_items (redo_stack ?d scope) @ [drawingsFor ?d scope]"
      using undo_effect(3) [OF ne] .
    then have ner: "redo_stack ?u scope \<noteq> []" by auto
    have "he_items (last (redo_stack ?u scope)) = drawingsFor ?d scope"
      using r ner by (metis last_map last_snoc)
    then show ?thesis using redo_effect(1) [OF ner] by simp
  qed
  ultimately show ?thesis by simp
qed

subsection \<open>The lock\<close>

text \<open>Inputs that neither unlock the drawing \<open>i\<close> nor bring in another drawing of that id.\<close>

fun spares :: "string \<Rightarrow> DrawingMutation \<Rightarrow> bool" where
  "spares i (Add d) \<longleftrightarrow> drawing_id d \<noteq> Some i"
| "spares i (Update j p) \<longleftrightarrow> ''id'' \<notin> fst ` set p \<and> (j = i \<longrightarrow> \<not> isUnlockOnlyPatch p)"
| "spares i (Remove j) \<longleftrightarrow> True"
| "spares i (UpdateMany ps) \<longleftrightarrow> list_all (\<lambda>(j, p). ''id'' \<notin> fst ` set p \<and> (j = i \<longrightarrow> \<not> isUnlockOnlyPatch p)) ps"
| "spares i (RemoveMany ids) \<longleftrightarrow> True"
| "spares i (AddMany ds) \<longleftrightarrow> list_all (\<lambda>d. drawing_id d \<noteq> Some i) ds"
| "spares i (Reorder ids z) \<longleftrightarrow> True"
| "spares i (LockAll b) \<longleftrightarrow> b"
| "spares i ClearAll \<longleftrightarrow> True"
| "spares i (Restore ds) \<longleftrightarrow> False"
| "spares i (Import mk ds) \<longleftrightarrow> i \<notin> mk ` {..<length ds}"

definition locked_here :: "js_object \<Rightarrow> string \<Rightarrow> js_object list \<Rightarrow> bool" where
  "locked_here d i items \<longleftrightarrow> d \<in> set items \<and> isLocked (Some d) \<and> (\<forall>e \<in> set items. drawing_id e = Some i \<longleftrightarrow> e = d)"

lemma find_locked: "locked_here d i items \<Longrightarrow> find_drawing items i = Some d"
  unfolding find_drawing_def locked_here_def by (induction items) auto

lemma unlocked_in_iff: "i \<in> set (unlocked_in ids items) \<Longrightarrow> \<exists>e \<in> set items. drawing_id e = Some i \<and> \<not> isLocked (Some e)"
  using unique_subset by (fastforce simp: unlocked_in_def ids_of_def List.map_filter_def split: option.splits)

lemma locked_not_listed: "locked_here d i items \<Longrightarrow> i \<notin> set (unlocked_in ids items)"
  using unlocked_in_iff by (fastforce simp: locked_here_def)

lemma id_of_put: "drawing_id (put_member k v d) = (if k = ''id'' then json_str v else drawing_id d)"
  by (simp add: drawing_id_def)

lemma patch_for_in: "patch_for ps d = Some p \<Longrightarrow> drawing_id d = Some j \<Longrightarrow> (j, p) \<in> set ps"
  by (auto simp: patch_for_def dest!: map_of_SomeD)

lemma patched_id: "''id'' \<notin> fst ` set p \<Longrightarrow> drawing_id (spread d p) = drawing_id d"
  by (simp add: drawing_id_def map_of_spread_absent)

lemma locked_not_applicable:
  assumes "locked_here d i items" "spares i (UpdateMany ps)"
  shows "i \<notin> set (ids_of (filter (applicable ps) items))"
proof
  assume "i \<in> set (ids_of (filter (applicable ps) items))"
  then obtain e where "e \<in> set items" "drawing_id e = Some i" "applicable ps e"
    by (auto simp: ids_of_def List.map_filter_def split: option.splits)
  then have "applicable ps d" "drawing_id d = Some i" using assms(1) by (auto simp: locked_here_def)
  then obtain p where "patch_for ps d = Some p" "isUnlockOnlyPatch p"
    using assms(1) by (auto simp: applicable_def locked_here_def split: option.splits)
  then show False using patch_for_in assms(2) \<open>drawing_id d = Some i\<close> by (fastforce simp: list_all_iff)
qed

lemma locked_kept:
  assumes "locked_here d i items" "spares i m" "\<And>p. m \<noteq> Update i p" "m \<noteq> Remove i"
  shows "locked_here d i (mutated_items m items)"
proof (cases m)
  case (Update j p)
  then have "j \<noteq> i" "''id'' \<notin> fst ` set p" using assms(2,3) by auto
  then show ?thesis using assms(1) Update
    by (auto simp: locked_here_def mutated_items_def patched_id image_iff split: if_splits)
next
  case (UpdateMany ps)
  have "drawing_id (spread e (case patch_for ps e of Some p \<Rightarrow> p | None \<Rightarrow> [])) = drawing_id e" if "e \<in> set items" for e
  proof (cases "patch_for ps e")
    case (Some p)
    then obtain j where "drawing_id e = Some j" by (auto simp: patch_for_def split: option.splits)
    then have "(j, p) \<in> set ps" using patch_for_in [OF Some] by simp
    then show ?thesis using Some assms(2) UpdateMany by (auto simp: list_all_iff patched_id)
  qed simp
  then show ?thesis
    using assms(1) locked_not_applicable [of d i items ps] assms(2) UpdateMany
    by (auto simp: locked_here_def mutated_items_def image_iff split: if_splits)
next
  case (Import mk ds)
  then show ?thesis using assms
    by (auto simp: locked_here_def mutated_items_def set_zip id_of_put image_iff)
qed (use assms locked_not_listed [OF assms(1)] in
  \<open>auto simp: locked_here_def mutated_items_def patched_id list_all_iff set_lock_def id_of_put Let_def split: ZOrder.splits\<close>)

lemma locked_refuses:
  assumes "locked_here d i (drawingsFor s scope)"
  shows "removeDrawing now scope i s = s" "\<not> isUnlockOnlyPatch p \<Longrightarrow> updateDrawing now scope i p s = s"
  using find_locked [OF assms] assms by (simp_all add: removeDrawing_def updateDrawing_def locked_here_def Let_def)

lemma locked_step:
  assumes "locked_here d i (drawingsFor s scope)" "spares i m"
  shows "locked_here d i (drawingsFor (mutate m now scope s) scope)"
proof (cases "\<exists>p. m = Update i p \<or> m = Remove i")
  case True
  then show ?thesis using assms locked_refuses [OF assms(1)] by auto
next
  case False
  from mutate_cases [of s m now scope] show ?thesis
  proof cases
    case refused
    then show ?thesis using assms(1) by (simp add: drawingsFor_untouched)
  next
    case edited
    then show ?thesis using locked_kept [OF assms(1,2)] False by (simp add: drawingsFor_edit [OF edited])
  qed
qed

primrec mutations :: "(DrawingMutation \<times> rat) list \<Rightarrow> string \<Rightarrow> DrawingState \<Rightarrow> DrawingState" where
  "mutations [] scope s = s"
| "mutations (m # ms) scope s = mutations ms scope (mutate (fst m) (snd m) scope s)"

text \<open>
  C14. A locked drawing cannot be edited away: whatever sequence of adds, updates, removals, bulk
  updates and removals, reorderings, bulk locks, imports and ``clear all'' is applied to its chart, as
  long as no patch is the unlock itself and no input reuses its id, the drawing stays in the list,
  member for member unchanged.
\<close>

theorem locked_drawing_survives:
  assumes "locked_here d i (drawingsFor s scope)" "list_all (\<lambda>m. spares i (fst m)) ms"
  shows "d \<in> set (drawingsFor (mutations ms scope s) scope)"
proof -
  have "locked_here d i (drawingsFor (mutations ms scope s) scope)"
    using assms by (induction ms arbitrary: s) (simp_all add: locked_step)
  then show ?thesis by (simp add: locked_here_def)
qed

text \<open>
  The patch with no members passes the guard of a locked drawing; it changes nothing on the chart but
  is recorded, and with that the redo stack is gone.
\<close>

lemma empty_patch_clears_redo:
  "redo_stack (updateDrawing now scope i [] s) scope = []"
proof -
  have "edit now scope OpUpdate (Some i) (mutated_items (Update i []) (drawingsFor s scope)) s (updateDrawing now scope i [] s)"
    by (auto simp: updateDrawing_def isUnlockOnlyPatch_def edit_parts mutated_items_def Let_def split: option.split)
  from history_edit [OF this] show ?thesis by (simp add: record_entry_def)
qed

end
