(* ===== verification/DrawingRuns.thy ===== *)
theory DrawingRuns
  imports DrawingLaws
begin

section \<open>Reachable drawing stores\<close>

text \<open>
  The states a page can reach from the storage it was opened on, by every action and timer of the store
  in any order and on any input, and what holds in them: the bounds of the undo memory, that what a
  reload shows is what was shown, and that a selection names drawings that exist. One lemma per kind of
  action, assembled over the runs of actions. The storage is that of one tab.
\<close>

subsection \<open>Well-formed drawings under the mutations\<close>

lemma normal_iff:
  "normalize_item d = d \<longleftrightarrow> map_of d ''paneIndex'' = None \<and> (\<exists>p. map_of d ''paneId'' = Some (JStr p))
     \<and> line_style (map_of d ''lineStyle'') = map_of d ''lineStyle''
     \<and> (\<forall>(k, f) \<in> set (normalize_rules (kind_of d)). f (map_of d k) = map_of d k)"
  (is "?l \<longleftrightarrow> ?r")
proof
  assume l: ?l
  have "f (map_of d k) = map_of d k" if r: "(k, f) \<in> set (normalize_rules (kind_of d))" for k f
  proof -
    have "map_of (normalize_item d) k = f (map_of (put_member ''lineStyle'' (line_style (map_of d ''lineStyle''))
       (put_member ''paneId'' (Some (JStr (resolvePaneId d))) (AList.delete ''paneIndex'' d))) k)"
      using fix_all_at [OF rules_distinct r] by (simp add: normalize_item_def)
    then show ?thesis using rule_idempotent [OF r] l by metis
  qed
  then show ?r using normalize_member [of d] l by auto
next
  assume r: ?r
  then obtain p where "map_of d ''paneId'' = Some (JStr p)" by blast
  then have pane: "put_member ''paneId'' (Some (JStr (resolvePaneId d))) d = d"
    by (intro put_member_same) (simp add: resolvePaneId_def)
  have del: "AList.delete ''paneIndex'' d = d" using r by (simp add: map_of_eq_None_iff)
  have line: "put_member ''lineStyle'' (line_style (map_of d ''lineStyle'')) d = d" using r by (intro put_member_same) simp
  have "foldl fix_member d (normalize_rules (kind_of d)) = d" using r by (intro fix_all_same) blast
  then show ?l by (simp only: normalize_item_def del pane line)
qed


subsection \<open>The undo memory\<close>

definition bounded_history :: "ScopeHistory \<Rightarrow> bool" where
  "bounded_history h \<longleftrightarrow> length (sh_undo h) + length (sh_redo h) \<le> HISTORY_CAP"

definition bounded_memory :: "(string \<times> ScopeHistory) list \<Rightarrow> bool" where
  "bounded_memory hs \<longleftrightarrow> length hs \<le> HISTORY_SCOPE_CAP \<and> list_all (bounded_history \<circ> snd) hs"

lemma bounded_entry: "bounded_memory hs \<Longrightarrow> bounded_history (history_of c hs)"
  by (auto simp: bounded_memory_def list_all_iff history_of_def bounded_history_def split: option.split dest!: map_of_SomeD)

lemma record_bounded: "bounded_history h \<Longrightarrow> bounded_history (record_entry now pre op target h)"
  by (auto simp: bounded_history_def record_entry_def push_capped_def Let_def HISTORY_CAP_def merges_def)

lemma touch_bounded:
  assumes "bounded_memory hs" "bounded_history h"
  shows "bounded_memory (touch_history scope h hs)"
proof -
  have "set (AList.delete scope hs) \<subseteq> set hs" by (induction hs) auto
  then have "set (touch_history scope h hs) \<subseteq> insert (scope, h) (set hs)"
    unfolding touch_history_def Let_def using set_drop_subset by fastforce
  moreover have "length (touch_history scope h hs) \<le> HISTORY_SCOPE_CAP" by (simp add: touch_history_def Let_def)
  ultimately show ?thesis using assms by (auto simp: bounded_memory_def list_all_iff)
qed

lemma replaced_bounded:
  assumes "bounded_memory hs" "map_of hs scope = Some h" "bounded_history h'"
  shows "bounded_memory (AList.update scope h' hs)"
proof -
  have "map fst (AList.update scope h' hs) = map fst hs" using map_of_SomeD [OF assms(2)] by (force simp: update_keys)
  then have "length (AList.update scope h' hs) = length hs" by (metis length_map)
  moreover have "set (AList.update scope h' hs) \<subseteq> insert (scope, h') (set hs)" by (induction hs) auto
  ultimately show ?thesis using assms(1,3) by (auto simp: bounded_memory_def list_all_iff)
qed

lemma undo_bounded: "bounded_memory (histories s) \<Longrightarrow> bounded_memory (histories (undo now scope s))"
  and redo_bounded: "bounded_memory (histories s) \<Longrightarrow> bounded_memory (histories (redo now scope s))"
proof -
  assume b: "bounded_memory (histories s)"
  have h: "bounded_history h" if "map_of (histories s) scope = Some h" for h
    using bounded_entry [OF b, of scope] that by (simp add: history_of_def)
  have new: "bounded_memory (AList.update scope h' (histories s))"
    if "map_of (histories s) scope = Some h" "length (sh_undo h') + length (sh_redo h') = length (sh_undo h) + length (sh_redo h)" for h h'
    using replaced_bounded [OF b that(1)] h [OF that(1)] that(2) by (simp add: bounded_history_def)
  have length: "Suc (length xs - Suc 0) = length xs" if "xs \<noteq> []" for xs :: "HistoryEntry list" using that by (cases xs) simp_all
  show "bounded_memory (histories (undo now scope s))"
    using b by (auto simp: undo_def Let_def queuePersist_def pruneTo_def setItems_def length intro!: new split: option.split)
  show "bounded_memory (histories (redo now scope s))"
    using b by (auto simp: redo_def Let_def queuePersist_def pruneTo_def setItems_def length intro!: new split: option.split)
qed

lemma mutate_bounded:
  assumes "bounded_memory (histories s)"
  shows "bounded_memory (histories (mutate m now scope s))"
proof (cases rule: mutate_cases [of s m now scope])
  case refused
  then show ?thesis using assms by (simp add: untouched_def)
next
  case edited
  then show ?thesis using assms by (simp add: edit_def recordHistory_def touch_bounded record_bounded bounded_entry)
qed

lemma prune_bounded: "bounded_memory (histories s) \<Longrightarrow> bounded_memory (histories (pruneIdleEmptyScopes active s))"
  by (auto simp: bounded_memory_def pruneIdleEmptyScopes_def Let_def list_all_iff intro: order_trans [OF length_filter_le])

lemma activate_bounded: "bounded_memory (histories s) \<Longrightarrow> bounded_memory (histories (setActiveScope c s))"
  by (auto simp: setActiveScope_def Let_def intro!: prune_bounded split: option.split)

subsection \<open>What a reload shows\<close>

text \<open>What the storage gives back of a list it was given: \<open>JSON.stringify\<close>, then the coercion of \<open>loadDrawings\<close>.\<close>

definition reloaded :: "js_object list \<Rightarrow> js_object list" where
  "reloaded items = normalizeItems (Some (JArr (map JObj items)))"

text \<open>A chart in memory with no write pending is stored as it is shown.\<close>

definition written_back :: "DrawingState \<Rightarrow> bool" where
  "written_back s \<longleftrightarrow> (\<forall>c \<in> fst ` set (byScope s). c \<notin> set (pendingTimers s)
     \<longrightarrow> loadDrawings (drawingStorage s) c = reloaded (drawingsFor s c))"

lemma load_saved: "loadDrawings (saveDrawings c items st) c' = (if c' = c then reloaded items else loadDrawings st c')"
  by (auto simp: loadDrawings_def readKey_saved reloaded_def split: option.split)

lemma load_other: "loadDrawings (saveDefaults d st) c = loadDrawings st c"
proof -
  have "storageKey c \<noteq> DEFAULTS_KEY" "legacyStorageKey c \<noteq> DEFAULTS_KEY" for c
    by (simp_all add: DEFAULTS_KEY_def storageKey_def legacyStorageKey_def drawings_prefix_def legacy_prefix_def)
  then have "readKey (saveDefaults d st) (storageKey c) = readKey st (storageKey c)"
    "readKey (saveDefaults d st) (legacyStorageKey c) = readKey st (legacyStorageKey c)" for c
    by (simp_all add: saveDefaults_def readKey_def)
  then show ?thesis by (simp add: loadDrawings_def cong: option.case_cong)
qed

lemma load_saves:
  "loadDrawings (foldl (\<lambda>st c. saveDrawings c (items c) st) st cs) c = (if c \<in> set cs then reloaded (items c) else loadDrawings st c)"
  by (induction cs rule: rev_induct) (auto simp: load_saved)

text \<open>What was replaced is queued; the rest is as before.\<close>

lemma replaced_written:
  assumes "written_back s" "byScope s' = AList.update scope next (byScope s)"
    "pendingTimers s' = pendingTimers (queuePersist scope s)" "drawingStorage s' = drawingStorage s"
  shows "written_back s'"
  using assms unfolding written_back_def
  by (auto simp: dom_update drawingsFor_def update_conv' queuePersist_def split: if_splits)

lemma mutate_written:
  assumes "written_back s"
  shows "written_back (mutate m now scope s)"
proof (cases rule: mutate_cases [of s m now scope])
  case refused
  then show ?thesis using assms by (simp add: untouched_def written_back_def drawingsFor_def)
next
  case edited
  then show ?thesis using replaced_written [OF assms] by (simp add: edit_def)
qed

lemma undo_written: "written_back s \<Longrightarrow> written_back (undo now scope s)"
  and redo_written: "written_back s \<Longrightarrow> written_back (redo now scope s)"
  by (auto simp: undo_def redo_def Let_def queuePersist_def pruneTo_def setItems_def split: option.split
      intro: replaced_written [of s])

lemma persist_written:
  assumes "written_back s"
  shows "written_back (persistFires scope s)"
  using assms by (auto simp: written_back_def persistFires_def load_saved drawingsFor_def)

lemma map_of_filter_key: "map_of (filter (\<lambda>e. P (fst e)) xs) k = (if P k then map_of xs k else None)"
  by (induction xs) auto

lemma doomed_idle: "c \<in> set (doomed_scopes active s) \<Longrightarrow> (c, []) \<in> set (byScope s) \<and> Some c \<noteq> active \<and> c \<notin> set (pendingTimers s)"
  using set_take_subset by (fastforce simp: doomed_scopes_def idle_scope_def)

lemma pruned_drawings:
  "drawingsFor (pruneIdleEmptyScopes active s) c = (if c \<in> set (doomed_scopes active s) then [] else drawingsFor s c)"
  by (simp add: pruneIdleEmptyScopes_def Let_def drawingsFor_def map_of_filter_key [of "\<lambda>k. k \<notin> set (doomed_scopes active s)"])

lemma prune_written: "written_back s \<Longrightarrow> written_back (pruneIdleEmptyScopes active s)"
  unfolding written_back_def pruned_drawings by (auto simp: pruneIdleEmptyScopes_def Let_def)

lemma reloaded_normal: "list_all normal_item items \<Longrightarrow> reloaded items = items"
  by (simp add: reloaded_def normalizeItems_keep)

lemma activate_written:
  assumes "written_back s"
  shows "written_back (setActiveScope c s)"
proof -
  have "written_back (s\<lparr>activeScope := c, byScope := AList.update k (loadDrawings (drawingStorage s) k) (byScope s),
      loadedScopes := insert k (loadedScopes s)\<rparr>)" for k
    using assms unfolding written_back_def
    by (auto simp: dom_update drawingsFor_def update_conv' reloaded_normal load_normal)
  moreover have "written_back (s\<lparr>activeScope := c\<rparr>)" using assms by (simp add: written_back_def drawingsFor_def)
  ultimately show ?thesis using assms
    by (auto simp: setActiveScope_def Let_def intro!: prune_written split: option.split)
qed

lemma flushed_storage:
  assumes "written_back s" "c \<in> fst ` set (byScope s)"
  shows "loadDrawings (drawingStorage (flushPending s)) c = reloaded (drawingsFor s c)"
  using assms by (auto simp: flushPending_def defaultsFire_def load_other load_saves written_back_def)

lemma flush_written:
  assumes "written_back s"
  shows "written_back (flushPending s)"
proof -
  have "drawingsFor (flushPending s) c = drawingsFor s c" "byScope (flushPending s) = byScope s" for c
    by (simp_all add: flushPending_def defaultsFire_def drawingsFor_def)
  then show ?thesis using flushed_storage [OF assms] by (simp add: written_back_def)
qed

subsection \<open>Flags that are off\<close>

text \<open>
  The members that the code only ever compares with \<open>true\<close>: switched off in the property panel they are
  stored as \<open>false\<close>, and read back as absent.
\<close>

definition flag_members :: "string \<Rightarrow> string list" where
  "flag_members k = [''locked'', ''hidden''] @ (if k = ''hline'' then [''labelHidden''] else [])
     @ (if k = ''rect'' then [''extendRight''] else [])"

primrec drop_false :: "string list \<Rightarrow> js_object \<Rightarrow> js_object" where
  "drop_false [] d = d"
| "drop_false (k # ks) d = drop_false ks (if map_of d k = Some (JBool False) then AList.delete k d else d)"

definition drop_flags :: "js_object \<Rightarrow> js_object" where
  "drop_flags d = drop_false (flag_members (kind_of d)) d"

lemma flag_rule: "k \<in> set (flag_members t) \<Longrightarrow> (k, true_or_absent) \<in> set (normalize_rules t)"
  by (auto simp: flag_members_def normalize_rules_def split: if_splits)

lemma flag_other: "k \<in> set (flag_members t) \<Longrightarrow> k \<notin> {''kind'', ''paneId'', ''paneIndex'', ''lineStyle'', ''id''}"
  by (auto simp: flag_members_def split: if_splits)

lemma put_deleted:
  assumes "j \<noteq> k"
  shows "put_member j v (AList.delete k d) = AList.delete k (put_member j v d)"
  using assms by (cases v) (simp_all add: put_member_def delete_update delete_twist)

lemma fix_deleted: "fst r \<noteq> k \<Longrightarrow> fix_member (AList.delete k d) r = AList.delete k (fix_member d r)"
  by (simp add: fix_member_def put_deleted)

lemma fixed_deleted:
  assumes "distinct (map fst rules)" "(k, true_or_absent) \<in> set rules" "map_of d k = Some (JBool False)"
  shows "foldl fix_member (AList.delete k d) rules = foldl fix_member d rules"
  using assms
proof (induction rules arbitrary: d)
  case (Cons r rules)
  show ?case
  proof (cases "r = (k, true_or_absent)")
    case True
    then have "fix_member (AList.delete k d) r = fix_member d r"
      using Cons.prems(3) by (simp add: fix_member_def true_or_absent_def put_member_def delete_idem delete_conv')
    then show ?thesis by simp
  next
    case False
    then have r: "(k, true_or_absent) \<in> set rules" using Cons.prems(2) by simp
    then have "k \<in> set (map fst rules)" by force
    then have fst: "fst r \<noteq> k" using Cons.prems(1) by (metis distinct.simps(2) list.simps(9))
    then have "map_of (fix_member d r) k = Some (JBool False)" using Cons.prems(3) by (simp add: fix_member_def)
    then show ?thesis using Cons.IH Cons.prems(1) r fix_deleted [OF fst] by simp
  qed
qed simp

lemma normalize_deleted:
  assumes "k \<in> set (flag_members (kind_of d))" "map_of d k = Some (JBool False)"
  shows "normalize_item (AList.delete k d) = normalize_item d" "kind_of (AList.delete k d) = kind_of d"
proof -
  note other = flag_other [OF assms(1)]
  show kind: "kind_of (AList.delete k d) = kind_of d" using other by (auto simp: kind_of_def delete_conv')
  have "map_of (AList.delete k d) ''paneId'' = map_of d ''paneId''"
    "map_of (AList.delete k d) ''paneIndex'' = map_of d ''paneIndex''"
    and line: "map_of (AList.delete k d) ''lineStyle'' = map_of d ''lineStyle''"
    using other by (blast intro: put_delete)+
  then have pane: "resolvePaneId (AList.delete k d) = resolvePaneId d" by (simp only: resolvePaneId_def)
  let ?base = "\<lambda>d. put_member ''lineStyle'' (line_style (map_of d ''lineStyle''))
       (put_member ''paneId'' (Some (JStr (resolvePaneId d))) (AList.delete ''paneIndex'' d))"
  have base: "?base (AList.delete k d) = AList.delete k (?base d)"
    using put_deleted [of "''lineStyle''" k] put_deleted [of "''paneId''" k] other
    by (simp only: pane line delete_twist [of "''paneIndex''" k]) auto
  have "map_of (?base d) k = Some (JBool False)" using assms(2) other by (simp add: delete_conv')
  then show "normalize_item (AList.delete k d) = normalize_item d"
    unfolding normalize_item_def kind base
    by (rule fixed_deleted [OF rules_distinct flag_rule [OF assms(1)]])
qed

lemma normalize_dropped:
  assumes "set ks \<subseteq> set (flag_members (kind_of d))"
  shows "normalize_item (drop_false ks d) = normalize_item d \<and> kind_of (drop_false ks d) = kind_of d"
  using assms by (induction ks arbitrary: d) (simp_all add: normalize_deleted)

lemma normalize_flags: "normalize_item (drop_flags d) = normalize_item d" "kind_of (drop_flags d) = kind_of d"
  using normalize_dropped [of "flag_members (kind_of d)" d] by (simp_all add: drop_flags_def)

text \<open>Drawings that are well formed but for such flags read back without them, and not otherwise changed.\<close>

lemma reloaded_flags:
  assumes "list_all (normal_item \<circ> drop_flags) items"
  shows "reloaded items = map drop_flags items"
proof -
  have "reloaded items = reloaded (map drop_flags items)"
    by (induction items) (simp_all add: reloaded_def normalizeItems_def List.map_filter_def known_item_def normalize_flags)
  then show ?thesis using assms by (simp add: reloaded_normal list.pred_map)
qed

subsection \<open>Actions\<close>

datatype DrawingAction =
    Activate "string option"
  | Mutate DrawingMutation rat string
  | Undo rat string
  | Redo rat string
  | Select string "string option"
  | Toggle string string
  | SelectAll string "string list"
  | SelectMore string "string list"
  | Deselect
  | LeaveMode
  | UseTool string
  | UseDefaults DefaultsPatch
  | UseStyle string js_patch
  | AskClear string
  | CancelClear
  | DismissToast
  | PersistTimer string
  | DefaultsTimer
  | Unload

fun perform :: "DrawingAction \<Rightarrow> DrawingState \<Rightarrow> DrawingState" where
  "perform (Activate c) s = setActiveScope c s"
| "perform (Mutate m now scope) s = mutate m now scope s"
| "perform (Undo now scope) s = undo now scope s"
| "perform (Redo now scope) s = redo now scope s"
| "perform (Select scope i) s = setSelected scope i s"
| "perform (Toggle scope i) s = toggleSelected scope i s"
| "perform (SelectAll scope ids) s = setSelection scope ids s"
| "perform (SelectMore scope ids) s = addToSelection scope ids s"
| "perform Deselect s = clearAllSelections s"
| "perform LeaveMode s = exitDrawingMode s"
| "perform (UseTool tool) s = setActiveTool tool s"
| "perform (UseDefaults dp) s = setDefaults dp s"
| "perform (UseStyle k p) s = setKindStyle k p s"
| "perform (AskClear scope) s = requestClearAll scope s"
| "perform CancelClear s = cancelClearAll s"
| "perform DismissToast s = dismissClearToast s"
| "perform (PersistTimer scope) s = persistFires scope s"
| "perform DefaultsTimer s = defaultsFire s"
| "perform Unload s = flushPending s"

text \<open>The store after a sequence of actions on a page opened on the storage \<open>st\<close>.\<close>

primrec performs :: "DrawingAction list \<Rightarrow> DrawingState \<Rightarrow> DrawingState" where
  "performs [] s = s"
| "performs (a # as) s = performs as (perform a s)"

definition page_after :: "DrawingAction list \<Rightarrow> DrawingStorage \<Rightarrow> DrawingState" where
  "page_after as st = performs as (openDrawings st)"

text \<open>Actions that leave drawings, history and storage alone.\<close>

definition same_drawings :: "DrawingState \<Rightarrow> DrawingState \<Rightarrow> bool" where
  "same_drawings s s' \<longleftrightarrow> byScope s' = byScope s \<and> histories s' = histories s \<and> pendingTimers s' = pendingTimers s
     \<and> loadedScopes s' = loadedScopes s \<and> drawingStorage s' = drawingStorage s"

fun quiet :: "DrawingAction \<Rightarrow> bool" where
  "quiet (Activate _) = False" | "quiet (Mutate _ _ _) = False" | "quiet (Undo _ _) = False" | "quiet (Redo _ _) = False"
| "quiet (PersistTimer _) = False" | "quiet DefaultsTimer = False" | "quiet Unload = False" | "quiet _ = True"

lemma quiet_drawings: "quiet a \<Longrightarrow> same_drawings s (perform a s)"
  by (cases a) (simp_all add: same_drawings_def setSelected_def toggleSelected_def setSelection_def addToSelection_def
      clearAllSelections_def exitDrawingMode_def setActiveTool_def setDefaults_def queuePersistDefaults_def
      requestClearAll_def cancelClearAll_def dismissClearToast_def Let_def)

lemma perform_bounded: "bounded_memory (histories s) \<Longrightarrow> bounded_memory (histories (perform a s))"
proof (cases "quiet a")
  case True
  then show "bounded_memory (histories s) \<Longrightarrow> ?thesis" using quiet_drawings [OF True, of s] by (simp add: same_drawings_def)
next
  case False
  then show "bounded_memory (histories s) \<Longrightarrow> ?thesis"
    by (cases a) (simp_all add: activate_bounded mutate_bounded undo_bounded redo_bounded persistFires_def
        defaultsFire_def flushPending_def)
qed

lemma perform_written: "written_back s \<Longrightarrow> written_back (perform a s)"
proof (cases "quiet a")
  case True
  then show "written_back s \<Longrightarrow> ?thesis" using quiet_drawings [OF True, of s]
    by (simp add: same_drawings_def written_back_def drawingsFor_def)
next
  case False
  have "written_back s \<Longrightarrow> written_back (defaultsFire s)"
    by (simp add: written_back_def defaultsFire_def load_other drawingsFor_def)
  then show "written_back s \<Longrightarrow> ?thesis" using False
    by (cases a) (simp_all add: activate_written mutate_written undo_written redo_written persist_written flush_written)
qed

text \<open>An invariant of the single actions holds after every sequence of them.\<close>

lemma performs_invariant: "(\<And>a s. P s \<Longrightarrow> P (perform a s)) \<Longrightarrow> P s \<Longrightarrow> P (performs as s)"
  by (induction as arbitrary: s) simp_all

lemma page_bounded: "bounded_memory (histories (page_after as st))"
  unfolding page_after_def
  by (rule performs_invariant [of "\<lambda>s. bounded_memory (histories s)"]) (simp_all add: perform_bounded, simp add: openDrawings_def bounded_memory_def)

lemma page_written: "written_back (page_after as st)"
  unfolding page_after_def
  by (rule performs_invariant [of written_back]) (simp_all add: perform_written, simp add: openDrawings_def written_back_def)

text \<open>
  C26. Whatever the user does, the undo memory stays bounded: after every sequence of actions, timers and
  inputs whatsoever, on any charts, the store keeps the histories of at most twelve charts, each with at
  most fifty snapshots between its undo and redo stacks.
\<close>

theorem undo_memory_bounded:
  "length (histories (page_after as st)) \<le> HISTORY_SCOPE_CAP
   \<and> length (undo_stack (page_after as st) c) + length (redo_stack (page_after as st) c) \<le> HISTORY_CAP"
  using page_bounded [of as st] bounded_entry [OF page_bounded [of as st], of c]
  by (simp add: bounded_memory_def bounded_history_def)

text \<open>
  C8. Closing the page loses no drawing: after every sequence of actions and timers, on any inputs, the
  flush before unload leaves a storage on which the page, opened again, shows for every chart that was in
  memory the drawings that chart showed, as the coercion of stored items reads them. When they are well
  formed up to flags that were switched off (\<open>locked\<close>, \<open>hidden\<close>, \<open>labelHidden\<close> and \<open>extendRight\<close> set to
  \<open>false\<close>), that is exactly the drawings shown, each without its \<open>false\<close> flags: none is lost, reordered or
  otherwise changed, although writes were debounced per chart.
\<close>

theorem reload_shows_the_same:
  assumes "s = page_after as st" "c \<in> fst ` set (byScope s)"
    and "again = setActiveScope (Some c) (openDrawings (drawingStorage (flushPending s)))"
  shows "drawingsFor again c = normalizeItems (Some (JArr (map JObj (drawingsFor s c))))
    \<and> (list_all (normal_item \<circ> drop_flags) (drawingsFor s c) \<longrightarrow> drawingsFor again c = map drop_flags (drawingsFor s c))"
proof -
  let ?o = "openDrawings (drawingStorage (flushPending s))"
  have "setActiveScope (Some c) ?o = pruneIdleEmptyScopes (Some c) (?o\<lparr>activeScope := Some c,
      byScope := [(c, loadDrawings (drawingStorage (flushPending s)) c)], loadedScopes := {c}\<rparr>)"
    by (simp add: setActiveScope_def openDrawings_def Let_def)
  then have "drawingsFor again c = reloaded (drawingsFor s c)"
    using flushed_storage [OF page_written, of c as st] assms
    by (simp add: pruneIdleEmptyScopes_def doomed_scopes_def SCOPE_CACHE_CAP_def Let_def drawingsFor_def)
  then show ?thesis using reloaded_flags by (simp add: reloaded_def)
qed

subsection \<open>Selections\<close>

definition mutated_selection :: "DrawingMutation \<Rightarrow> string \<Rightarrow> js_object list \<Rightarrow> (string \<Rightarrow> string list option) \<Rightarrow> (string \<Rightarrow> string list option)" where
  "mutated_selection m scope next sel = (case m of
     Remove _ \<Rightarrow> pruneSelection sel scope next | RemoveMany _ \<Rightarrow> pruneSelection sel scope next
   | ClearAll \<Rightarrow> pruneSelection sel scope next | Restore _ \<Rightarrow> withSelection sel scope [] | _ \<Rightarrow> sel)"

lemma mutate_selection:
  "untouched s (mutate m now scope s) \<or> selectedByScope (mutate m now scope s)
     = mutated_selection m scope (mutated_items m (drawingsFor s scope)) (selectedByScope s)"
proof (cases m)
  case (Update i p)
  then show ?thesis using updateDrawing_cases [of now scope i p s] by (auto simp: mutated_selection_def)
qed (auto simp: drawing_defs edit_parts mutated_items_def mutated_selection_def untouched_def Let_def
    split: option.split ZOrder.split)

abbreviation chosen :: "(string \<Rightarrow> string list option) \<Rightarrow> string \<Rightarrow> string list" where
  "chosen sel c \<equiv> (case sel c of Some ids \<Rightarrow> ids | None \<Rightarrow> [])"

lemma pruned_selection:
  "chosen (pruneSelection sel scope items) c = (if c = scope then filter (has_drawing items) (chosen sel c) else chosen sel c)"
proof -
  have "filter P xs = xs" if "length (filter P xs) = length xs" for P and xs :: "string list"
    using that by (metis filter_True length_filter_less order_less_irrefl)
  then have "length (filter (has_drawing items) (chosen sel scope)) = length (chosen sel scope)
      \<Longrightarrow> filter (has_drawing items) (chosen sel scope) = chosen sel scope" .
  then show ?thesis
    by (auto simp: pruneSelection_def withSelection_def Let_def split: option.splits)
qed

lemma with_selection: "chosen (withSelection sel scope ids) c = (if c = scope then ids else chosen sel c)"
  by (auto simp: withSelection_def)

lemma selectedFor_with:
  "selectedFor (s\<lparr>selectedByScope := withSelection (selectedByScope s) scope ids\<rparr>) c = (if c = scope then ids else selectedFor s c)"
  by (simp add: selectedFor_def with_selection)

lemma selected_after:
  "selectedFor (setSelected scope i s) c = (if c = scope then (case i of None \<Rightarrow> [] | Some x \<Rightarrow> [x]) else selectedFor s c)"
  "selectedFor (toggleSelected scope j s) c = (if c = scope then
     (if j \<in> set (selectedFor s c) then filter (\<lambda>x. x \<noteq> j) (selectedFor s c) else selectedFor s c @ [j]) else selectedFor s c)"
  "selectedFor (setSelection scope ids s) c = (if c = scope then ids else selectedFor s c)"
  "selectedFor (addToSelection scope ids s) c = (if c = scope then
     selectedFor s c @ filter (\<lambda>i. i \<notin> set (selectedFor s c)) ids else selectedFor s c)"
  "selectedFor (clearAllSelections s) c = []" "selectedFor (exitDrawingMode s) c = []"
  by (auto simp: selectedFor_with setSelected_def toggleSelected_def setSelection_def addToSelection_def Let_def filter_empty_conv)
    (simp_all add: selectedFor_def clearAllSelections_def exitDrawingMode_def)

lemma selected_quiet:
  "selectedFor (setActiveTool tool s) c = selectedFor s c" "selectedFor (setDefaults dp s) c = selectedFor s c"
  "selectedFor (setKindStyle k p s) c = selectedFor s c" "selectedFor (requestClearAll scope s) c = selectedFor s c"
  "selectedFor (cancelClearAll s) c = selectedFor s c" "selectedFor (dismissClearToast s) c = selectedFor s c"
  "selectedFor (persistFires scope s) c = selectedFor s c" "selectedFor (defaultsFire s) c = selectedFor s c"
  "selectedFor (flushPending s) c = selectedFor s c"
  by (simp_all add: selectedFor_def setActiveTool_def setDefaults_def queuePersistDefaults_def requestClearAll_def
      cancelClearAll_def dismissClearToast_def persistFires_def defaultsFire_def flushPending_def Let_def)

definition selects_existing :: "DrawingState \<Rightarrow> bool" where
  "selects_existing s \<longleftrightarrow> (\<forall>c i. i \<in> set (selectedFor s c) \<longrightarrow> has_drawing (drawingsFor s c) i)"

text \<open>
  A patch that leaves the id of the drawing it is for: it has no member \<open>id\<close>, or the id of that drawing, as
  the whole drawings that a translation writes back have.
\<close>

definition keeps_id :: "string \<Rightarrow> js_patch \<Rightarrow> bool" where
  "keeps_id i p \<longleftrightarrow> list_all (\<lambda>(k, v). k = ''id'' \<longrightarrow> v = Some (JStr i)) p"

text \<open>
  What selections need of an action: patches keep ids, what is selected is on the chart, and the chart that
  is activated is loaded or is not in memory. A chart in memory that is not loaded is one that was edited
  after it was pruned: activating it would replace its drawings.
\<close>

fun careful :: "DrawingAction \<Rightarrow> DrawingState \<Rightarrow> bool" where
  "careful (Mutate (Update i p) now scope) s \<longleftrightarrow> keeps_id i p"
| "careful (Mutate (UpdateMany ps) now scope) s \<longleftrightarrow> list_all (\<lambda>(i, p). keeps_id i p) ps"
| "careful (Select scope i) s \<longleftrightarrow> (case i of None \<Rightarrow> True | Some x \<Rightarrow> has_drawing (drawingsFor s scope) x)"
| "careful (Toggle scope i) s \<longleftrightarrow> has_drawing (drawingsFor s scope) i"
| "careful (SelectAll scope ids) s \<longleftrightarrow> list_all (has_drawing (drawingsFor s scope)) ids"
| "careful (SelectMore scope ids) s \<longleftrightarrow> list_all (has_drawing (drawingsFor s scope)) ids"
| "careful (Activate (Some c)) s \<longleftrightarrow> c \<in> loadedScopes s \<or> c \<notin> fst ` set (byScope s)"
| "careful _ s \<longleftrightarrow> True"

primrec careful_run :: "DrawingAction list \<Rightarrow> DrawingState \<Rightarrow> bool" where
  "careful_run [] s \<longleftrightarrow> True"
| "careful_run (a # as) s \<longleftrightarrow> careful a s \<and> careful_run as (perform a s)"

lemma kept_id: "keeps_id i p \<Longrightarrow> drawing_id d = Some i \<Longrightarrow> drawing_id (spread d p) = Some i"
  by (induction p arbitrary: d) (auto simp: keeps_id_def id_of_put)

lemma has_drawing_map: "(\<And>d. d \<in> set items \<Longrightarrow> drawing_id (f d) = drawing_id d) \<Longrightarrow> has_drawing (map f items) i = has_drawing items i"
  by (induction items) (simp_all add: has_drawing_def)

lemma ids_kept:
  assumes "has_drawing items i" "careful (Mutate m now scope) s"
    and "\<And>j. m \<noteq> Remove j" "\<And>ids. m \<noteq> RemoveMany ids" "m \<noteq> ClearAll" "\<And>ds. m \<noteq> Restore ds"
  shows "has_drawing (mutated_items m items) i"
proof (cases m)
  case (UpdateMany ps)
  have "drawing_id (spread e (case patch_for ps e of Some p \<Rightarrow> p | None \<Rightarrow> [])) = drawing_id e" for e
  proof (cases "patch_for ps e")
    case (Some p)
    then obtain j where j: "drawing_id e = Some j" by (auto simp: patch_for_def split: option.splits)
    then have "(j, p) \<in> set ps" using patch_for_in [OF Some] by simp
    then have "keeps_id j p" using assms(2) UpdateMany by (auto simp: list_all_iff)
    then show ?thesis using Some kept_id [OF _ j] j by simp
  qed simp
  then show ?thesis using assms(1) unfolding UpdateMany mutated_items_def DrawingMutation.case
    by (subst has_drawing_map) simp_all
next
  case (Update j p)
  then have "drawing_id (if drawing_id d = Some j then spread d p else d) = drawing_id d" for d
    using assms(2) kept_id by auto
  then show ?thesis using assms(1) unfolding Update mutated_items_def DrawingMutation.case
    by (subst has_drawing_map) simp_all
next
  case (LockAll b)
  have "drawing_id (set_lock b d) = drawing_id d" for d by (simp add: set_lock_def id_of_put)
  then show ?thesis using assms(1) LockAll by (simp add: mutated_items_def has_drawing_map)
next
  case (Reorder ids z)
  then show ?thesis using assms(1) by (cases z) (auto simp: has_drawing_def mutated_items_def list_ex_iff Let_def)
qed (use assms in \<open>auto simp: has_drawing_def mutated_items_def list_ex_iff\<close>)

lemma mutate_selects:
  assumes sel: "selects_existing s" and ok: "careful (Mutate m now scope) s"
  shows "selects_existing (mutate m now scope s)"
proof (cases "untouched s (mutate m now scope s)")
  case True
  then show ?thesis using sel by (simp add: selects_existing_def untouched_def drawingsFor_def selectedFor_def)
next
  case False
  let ?s' = "mutate m now scope s" and ?next = "mutated_items m (drawingsFor s scope)"
  from mutate_cases [of s m now scope] False
  have edited: "edit now scope (mutation_op m) (mutation_target m (drawingsFor s scope)) ?next s ?s'" by metis
  have sel': "selectedByScope ?s' = mutated_selection m scope ?next (selectedByScope s)"
    using mutate_selection [of s m now scope] False by blast
  have old: "has_drawing (drawingsFor s c) i" if "i \<in> set (chosen (selectedByScope s) c)" for c i
    using that sel by (simp add: selects_existing_def selectedFor_def)
  show ?thesis
    unfolding selects_existing_def selectedFor_def sel' drawingsFor_edit [OF edited]
    using old ids_kept [OF _ ok]
    by (cases m) (auto simp: mutated_selection_def pruned_selection with_selection)
qed

lemma restored_selects:
  assumes "selects_existing s" "byScope s' = AList.update scope items (byScope s)"
    "selectedByScope s' = pruneSelection (selectedByScope s) scope items"
  shows "selects_existing s'"
  using assms unfolding selects_existing_def selectedFor_def by (auto simp: pruned_selection drawingsFor_def update_conv')

lemma undo_selects: "selects_existing s \<Longrightarrow> selects_existing (undo now scope s)"
  and redo_selects: "selects_existing s \<Longrightarrow> selects_existing (redo now scope s)"
  by (auto simp: undo_def redo_def Let_def queuePersist_def pruneTo_def setItems_def split: option.split
      intro: restored_selects [of s])

lemma prune_selects: "selects_existing s \<Longrightarrow> selects_existing (pruneIdleEmptyScopes active s)"
  unfolding selects_existing_def pruned_drawings selectedFor_def by (auto simp: pruneIdleEmptyScopes_def Let_def)

lemma activate_selects:
  assumes sel: "selects_existing s" and ok: "careful (Activate c) s"
  shows "selects_existing (setActiveScope c s)"
proof -
  have load: "selects_existing (s\<lparr>activeScope := Some k, byScope := AList.update k (loadDrawings (drawingStorage s) k) (byScope s),
      loadedScopes := insert k (loadedScopes s)\<rparr>)" if k: "k \<notin> fst ` set (byScope s)" for k
  proof -
    have "drawingsFor s k = []" using k by (auto simp: drawingsFor_def split: option.split dest: map_of_SomeD intro: rev_image_eqI)
    then have "i \<notin> set (selectedFor s k)" for i using sel by (force simp: selects_existing_def has_drawing_def)
    then show ?thesis using sel unfolding selects_existing_def by (auto simp: drawingsFor_def selectedFor_def update_conv')
  qed
  have "selects_existing (s\<lparr>activeScope := c\<rparr>)" using sel by (simp add: selects_existing_def drawingsFor_def selectedFor_def)
  then show ?thesis using sel ok load
    by (cases c) (auto simp: setActiveScope_def Let_def intro!: prune_selects)
qed

lemma perform_selects:
  assumes sel: "selects_existing s" and ok: "careful a s"
  shows "selects_existing (perform a s)"
proof (cases "quiet a")
  case True
  have at: "drawingsFor (perform a s) c = drawingsFor s c" for c
    using quiet_drawings [OF True, of s] by (simp add: same_drawings_def drawingsFor_def)
  show ?thesis using sel ok True unfolding selects_existing_def at
    by (cases a) (auto simp: selected_after selected_quiet list_all_iff split: option.splits if_splits)
next
  case False
  have same: "selects_existing s'" if "byScope s' = byScope s" "\<And>c. selectedFor s' c = selectedFor s c" for s'
    using sel that by (simp add: selects_existing_def drawingsFor_def)
  show ?thesis
  proof (cases a)
    case (PersistTimer c)
    then have "byScope (perform a s) = byScope s" by (simp add: persistFires_def)
    then show ?thesis using same [of "perform a s"] PersistTimer by (simp add: selected_quiet)
  next
    case DefaultsTimer
    then have "byScope (perform a s) = byScope s" by (simp add: defaultsFire_def)
    then show ?thesis using same [of "perform a s"] DefaultsTimer by (simp add: selected_quiet)
  next
    case Unload
    then have "byScope (perform a s) = byScope s" by (simp add: flushPending_def defaultsFire_def)
    then show ?thesis using same [of "perform a s"] Unload by (simp add: selected_quiet)
  qed (use False sel ok in \<open>simp_all add: activate_selects mutate_selects undo_selects redo_selects\<close>)
qed

text \<open>
  C27. A selection never dangles: after every sequence of actions and timers whose patches keep the ids of
  their drawings, whose selections are made among the drawings on the chart, and that do not activate a
  chart edited while it was unloaded, each selected id of a chart belongs to one of the drawings that chart
  shows, through deletions, undo, redo, ``clear all'', restores and the pruning of the scope cache.
\<close>

theorem selection_names_drawings:
  assumes "careful_run as (openDrawings st)" "i \<in> set (selectedFor (page_after as st) c)"
  shows "has_drawing (drawingsFor (page_after as st) c) i"
proof -
  have "selects_existing s \<Longrightarrow> careful_run as s \<Longrightarrow> selects_existing (performs as s)" for s
    by (induction as arbitrary: s) (simp_all add: perform_selects)
  moreover have "selects_existing (openDrawings st)" by (simp add: selects_existing_def openDrawings_def selectedFor_def)
  ultimately show ?thesis using assms by (simp add: selects_existing_def page_after_def)
qed

subsection \<open>The scope cache\<close>

text \<open>
  Pruning is not free of loss: an emptied chart that is pruned loses its undo history, so the drawings
  deleted from it can no longer be brought back.
\<close>

lemma pruned_history_gone:
  "c \<in> set (doomed_scopes active s) \<Longrightarrow> map_of (histories (pruneIdleEmptyScopes active s)) c = None"
  by (simp add: pruneIdleEmptyScopes_def Let_def map_of_filter_key [of "\<lambda>k. k \<notin> set (doomed_scopes active s)"])

text \<open>
  A chart that was pruned while still on screen is no longer loaded. A drawing added to it is replaced
  by what the storage holds when the chart is activated again before its write has fired.
\<close>

lemma unloaded_edit_lost:
  assumes "c \<notin> loadedScopes s" "activeScope s \<noteq> Some c"
  shows "drawingsFor (setActiveScope (Some c) (addDrawing now c d s)) c = loadDrawings (drawingStorage s) c"
proof -
  let ?a = "addDrawing now c d s"
  have a: "activeScope ?a = activeScope s" "loadedScopes ?a = loadedScopes s" "drawingStorage ?a = drawingStorage s"
    by (simp_all add: addDrawing_def edit_parts Let_def)
  have "c \<notin> set (doomed_scopes (Some c) t)" for t using doomed_idle [of c "Some c" t] by blast
  then show ?thesis using assms a
    by (simp add: setActiveScope_def pruneIdleEmptyScopes_def Let_def drawingsFor_def update_conv'
        map_of_filter_key [of "\<lambda>k. k \<notin> set (doomed_scopes _ _)"])
qed

subsection \<open>Concrete runs\<close>

definition level_line :: "string \<Rightarrow> js_object" where
  "level_line i = [(''id'', JStr i), (''kind'', JStr ''hline''), (''price'', JNum 70000), (''color'', JStr ''#14B8A6''),
     (''width'', JNum 2), (''lineStyle'', JStr ''solid''), (''paneId'', JStr ''candle'')]"

definition chart_scope :: string where "chart_scope = ''005930|minute''"

definition no_storage :: DrawingStorage where "no_storage = (\<lambda>_. None)"

definition opened_chart :: DrawingState where
  "opened_chart = setActiveScope (Some chart_scope) (openDrawings no_storage)"

definition one_line :: DrawingState where
  "one_line = mutate (Add (level_line ''a'')) 0 chart_scope opened_chart"

lemma level_line_normal: "normal_item (level_line i)"
  by (simp add: normal_item_def normal_iff level_line_def kind_of_def line_style_def normalize_rules_def DRAWING_KINDS_def
      valid_item_def true_or_absent_def str_or_absent_def day_extreme_def)

lemma level_line_id [simp]: "drawing_id (level_line i) = Some i" "\<not> isLocked (Some (level_line i))"
  by (simp_all add: level_line_def drawing_id_def isLocked_def)

lemma opened_chart_state:
  "loadedScopes opened_chart = {chart_scope}" "drawingsFor opened_chart chart_scope = []"
  "histories opened_chart = []"
  by (simp_all add: opened_chart_def setActiveScope_def openDrawings_def pruneIdleEmptyScopes_def doomed_scopes_def
      SCOPE_CACHE_CAP_def drawingsFor_def no_storage_def loadDrawings_def readKey_def Let_def)

lemma add_edits: "edit now scope OpAdd (drawing_id d) (drawingsFor s scope @ [d]) s (addDrawing now scope d s)"
  by (simp add: addDrawing_def edit_parts Let_def)

lemma add_opens_step: "opens_step (Add d) now scope s"
  using drawingsFor_edit [OF add_edits [of now scope d s]] by (simp add: opens_step_def)

lemma one_line_state:
  "drawingsFor one_line chart_scope = [level_line ''a'']" "loadedScopes one_line = {chart_scope}"
  "map he_op (undo_stack one_line chart_scope) = [OpAdd]"
proof -
  note e = add_edits [of 0 chart_scope "level_line ''a''" opened_chart]
  show "drawingsFor one_line chart_scope = [level_line ''a'']"
    using drawingsFor_edit [OF e] by (simp add: one_line_def opened_chart_state)
  show "loadedScopes one_line = {chart_scope}" using e by (simp add: one_line_def edit_def opened_chart_state)
  show "map he_op (undo_stack one_line chart_scope) = [OpAdd]"
    using history_edit [OF e] opened_chart_state(3)
    by (simp add: one_line_def record_entry_def merges_def push_capped_def HISTORY_CAP_def history_of_def)
qed

definition four_mutations :: "(DrawingMutation \<times> rat) list" where
  "four_mutations = [(Add (level_line ''a''), 0), (Add (level_line ''b''), 1), (Reorder [''a''] ToFront, 2), (RemoveMany [''b''], 3)]"

definition after_four :: DrawingState where
  "after_four = mutate (RemoveMany [''b'']) 3 chart_scope (mutate (Reorder [''a''] ToFront) 2 chart_scope
     (mutate (Add (level_line ''b'')) 1 chart_scope one_line))"

lemma level_line_differ [simp]: "level_line i = level_line j \<longleftrightarrow> i = j"
  by (simp add: level_line_def)

lemma four_run: "runs_steps four_mutations chart_scope opened_chart after_four" "drawingsFor after_four chart_scope = [level_line ''a'']"
proof -
  let ?two = "mutate (Add (level_line ''b'')) 1 chart_scope one_line"
  let ?three = "mutate (Reorder [''a''] ToFront) 2 chart_scope ?two"
  have two: "drawingsFor ?two chart_scope = [level_line ''a'', level_line ''b'']"
    by (simp add: drawingsFor_edit [OF add_edits] one_line_state)
  have three: "drawingsFor ?three chart_scope = [level_line ''b'', level_line ''a'']"
    using two by (simp add: reorder_def unlocked_in_def ids_of_def List.map_filter_def edit_parts Let_def
        drawingsFor_def update_conv')
  show four: "drawingsFor after_four chart_scope = [level_line ''a'']"
    using three by (simp add: after_four_def removeMany_def unlocked_in_def ids_of_def List.map_filter_def
        edit_parts Let_def drawingsFor_def update_conv')
  have "opens_step (Reorder [''a''] ToFront) 2 chart_scope ?two" "opens_step (RemoveMany [''b'']) 3 chart_scope ?three"
    using two three four by (simp_all add: opens_step_def after_four_def)
  then show "runs_steps four_mutations chart_scope opened_chart after_four"
    by (simp add: four_mutations_def after_four_def one_line_def) (use add_opens_step in simp)
qed

theorem undo_redo_exact_witness:
  "drawingsFor (undos [5, 6, 7, 8] chart_scope after_four) chart_scope = []
   \<and> drawingsFor (redos [11, 12, 13, 14] chart_scope (undos [5, 6, 7, 8] chart_scope after_four)) chart_scope = [level_line ''a'']"
  using undo_redo_exact [OF four_run(1), of "[5, 6, 7, 8]" "[11, 12, 13, 14]"]
  by (simp add: four_mutations_def four_run(2) HISTORY_CAP_def opened_chart_state)

definition lowered :: "rat \<Rightarrow> js_patch" where "lowered p = [(''price'', Some (JNum p))]"

theorem drag_is_one_step_witness:
  "drawingsFor (undo 9000 chart_scope (drag chart_scope ''a'' [(1000, lowered 69000), (1200, lowered 68000)] one_line)) chart_scope
     = drawingsFor one_line chart_scope
   \<and> drawingsFor (redo 9500 chart_scope (undo 9000 chart_scope
        (drag chart_scope ''a'' [(1000, lowered 69000), (1200, lowered 68000)] one_line))) chart_scope
     = drawingsFor (drag chart_scope ''a'' [(1000, lowered 69000), (1200, lowered 68000)] one_line) chart_scope"
proof (rule drag_is_one_step)
  show "\<not> isLocked (find_drawing (drawingsFor one_line chart_scope) ''a'')"
    by (simp add: one_line_state find_drawing_def)
  show "list_all moves_only (map snd [(1000, lowered 69000), (1200, lowered 68000)])"
    by (simp add: moves_only_def lowered_def)
  show "successively (\<lambda>t t'. t' - t < UPDATE_MERGE_MS) (map fst [(1000 :: rat, lowered 69000), (1200, lowered 68000)])"
    by (simp add: UPDATE_MERGE_MS_def)
  show "\<not> merges (fst (1000, lowered 69000)) OpUpdate (Some ''a'') (undo_stack one_line chart_scope)"
    using one_line_state(3) by (auto simp: merges_def map_eq_Cons_conv)
qed

definition pinned_line :: js_object where "pinned_line = put_member ''locked'' (Some (JBool True)) (level_line ''a'')"

theorem locked_drawing_survives_witness:
  "pinned_line \<in> set (drawingsFor (mutations
     [(Remove ''a'', 1), (ClearAll, 2), (Update ''a'' (lowered 1), 3), (RemoveMany [''a''], 4), (Reorder [''a''] ToFront, 5)]
     chart_scope (addDrawing 0 chart_scope pinned_line opened_chart)) chart_scope)"
proof (rule locked_drawing_survives)
  have "isLocked (Some pinned_line)" "drawing_id pinned_line = Some ''a''"
    by (simp_all add: pinned_line_def isLocked_def id_of_put)
  then show "locked_here pinned_line ''a'' (drawingsFor (addDrawing 0 chart_scope pinned_line opened_chart) chart_scope)"
    by (simp add: drawingsFor_edit [OF add_edits] opened_chart_state locked_here_def)
  show "list_all (\<lambda>m. spares ''a'' (fst m))
    [(Remove ''a'', 1), (ClearAll, 2), (Update ''a'' (lowered 1), 3), (RemoveMany [''a''], 4), (Reorder [''a''] ToFront, 5)]"
    by (simp add: lowered_def isUnlockOnlyPatch_def)
qed

text \<open>A run in which a line is drawn, selected, locked and unlocked from the property panel.\<close>

definition line_actions :: "DrawingAction list" where
  "line_actions = [Activate (Some chart_scope), Mutate (Add (level_line ''a'')) 0 chart_scope, Select chart_scope (Some ''a''),
     Mutate (Update ''a'' [(''locked'', Some (JBool True))]) 1000 chart_scope,
     Mutate (Update ''a'' [(''locked'', Some (JBool False))]) 2000 chart_scope]"

definition flagged_line :: js_object where "flagged_line = level_line ''a'' @ [(''locked'', JBool False)]"

lemma line_after: "page_after line_actions no_storage
    = mutate (Update ''a'' [(''locked'', Some (JBool False))]) 2000 chart_scope
       (mutate (Update ''a'' [(''locked'', Some (JBool True))]) 1000 chart_scope (setSelected chart_scope (Some ''a'') one_line))"
  by (simp add: page_after_def line_actions_def one_line_def opened_chart_def)

lemma drawings_after_line: "drawingsFor (page_after line_actions no_storage) chart_scope = [flagged_line]"
proof -
  have "drawingsFor (setSelected chart_scope (Some ''a'') one_line) chart_scope = [level_line ''a'']"
    using one_line_state(1) by (simp add: setSelected_def drawingsFor_def)
  moreover have upd: "drawingsFor (updateDrawing now scope i p s) scope
      = map (\<lambda>d. if drawing_id d = Some i then spread d p else d) (drawingsFor s scope)"
    if "isUnlockOnlyPatch p" for now scope i p s
    using that by (auto simp: updateDrawing_def edit_parts Let_def drawingsFor_def update_conv' split: option.split)
  ultimately show ?thesis unfolding line_after mutate.simps
    by (simp add: upd isUnlockOnlyPatch_def flagged_line_def level_line_def drawing_id_def put_member_def)
qed

lemma selection_of_update: "selectedByScope (updateDrawing now scope i p s) = selectedByScope s"
  using updateDrawing_cases [of now scope i p s] by auto

theorem selection_names_drawings_witness:
  "has_drawing (drawingsFor (page_after line_actions no_storage) chart_scope) ''a''"
proof (rule selection_names_drawings)
  show "careful_run line_actions (openDrawings no_storage)"
    using one_line_state(1) by (simp add: line_actions_def keeps_id_def has_drawing_def one_line_def opened_chart_def)
      (simp add: openDrawings_def)
  have "selectedFor (page_after line_actions no_storage) chart_scope = [''a'']"
    unfolding line_after mutate.simps
    by (simp add: selectedFor_def selection_of_update) (simp add: setSelected_def withSelection_def)
  then show "''a'' \<in> set (selectedFor (page_after line_actions no_storage) chart_scope)" by simp
qed

theorem reload_shows_the_same_witness:
  "drawingsFor (setActiveScope (Some chart_scope) (openDrawings (drawingStorage (flushPending (page_after line_actions no_storage))))) chart_scope
     = [level_line ''a'']"
proof -
  have "drop_flags flagged_line = level_line ''a''"
    by (simp add: drop_flags_def flag_members_def flagged_line_def level_line_def kind_of_def)
  moreover have "chart_scope \<in> fst ` set (byScope (page_after line_actions no_storage))"
    using drawings_after_line map_of_SomeD by (force simp: drawingsFor_def split: option.splits)
  ultimately show ?thesis
    using conjunct2 [OF reload_shows_the_same [OF refl _ refl, of chart_scope line_actions no_storage]]
    by (simp add: drawings_after_line level_line_normal)
qed

end
