(* ===== verification/TradeVolumePoc.thy ===== *)
theory TradeVolumePoc
  imports Complex_Main KstTime "HOL-Library.Multiset"
begin

section \<open>The trade volume point of control\<close>

text \<open>
  \<open>live/tradeVolumePoc.ts\<close> and \<open>live/sessionCandles.ts\<close>: the KRX tick grid, the price band with the
  most volume (prefix sums and binary search over sorted prices), the distribution over equal price
  ranges, the incremental accumulator of the day, and the candle fallback per session. Prices and
  quantities are rationals; a price or quantity that is not a finite number is \<open>None\<close>. A first time
  of \<open>None\<close> is the initial infinity.
\<close>

definition REGULAR_OPEN_MIN :: int where "REGULAR_OPEN_MIN = 9 * 60"
definition CLOSING_AUCTION_START_MIN :: int where "CLOSING_AUCTION_START_MIN = 15 * 60 + 20"
definition DEFAULT_BAND_PCT :: rat where "DEFAULT_BAND_PCT = 5 / 1000"

record TradeVolumePoc =
  poc_date :: string
  poc_centerPrice :: rat
  poc_lowPrice :: rat
  poc_highPrice :: rat
  poc_qty :: rat
  poc_t_ms :: "ms option"
  poc_bandPct :: rat

record PriceBucket =
  pb_price :: int
  pb_qty :: rat
  pb_firstTMs :: ms
  pb_order :: nat

record DistributionBucket =
  db_lowPrice :: rat
  db_highPrice :: rat
  db_qty :: rat
  db_firstTMs :: "ms option"
  db_order :: nat

subsection \<open>The tick grid\<close>

definition krxStockTickSize :: "rat \<Rightarrow> int" where
  "krxStockTickSize price = (if price < 2000 then 1 else if price < 5000 then 5 else if price < 20000 then 10
     else if price < 50000 then 50 else if price < 200000 then 100 else if price < 500000 then 500 else 1000)"

lemma tick_pos [simp]: "0 < krxStockTickSize p" "1 \<le> krxStockTickSize p"
  by (simp_all add: krxStockTickSize_def)

text \<open>The two correction loops.\<close>

function step_down :: "rat \<Rightarrow> int \<Rightarrow> int" where
  "step_down price candidate = (if price < of_int candidate
     then step_down price (candidate - krxStockTickSize (of_int candidate)) else candidate)"
  by pat_completeness auto
termination
proof (relation "measure (\<lambda>(price, candidate). nat (candidate - \<lfloor>price\<rfloor>))")
  fix price :: rat and candidate :: int
  assume "price < of_int candidate"
  then have "\<lfloor>price\<rfloor> < candidate" by (simp add: floor_less_iff)
  then show "((price, candidate - krxStockTickSize (of_int candidate)), price, candidate)
      \<in> measure (\<lambda>(price, candidate). nat (candidate - \<lfloor>price\<rfloor>))"
    using tick_pos(1) [of "of_int candidate"] by simp
qed simp

function step_up :: "rat \<Rightarrow> int \<Rightarrow> int" where
  "step_up price candidate = (if of_int candidate < price
     then step_up price (candidate + krxStockTickSize (of_int candidate)) else candidate)"
  by pat_completeness auto
termination
proof (relation "measure (\<lambda>(price, candidate). nat (\<lceil>price\<rceil> - candidate))")
  fix price :: rat and candidate :: int
  assume "of_int candidate < price"
  then have "candidate < \<lceil>price\<rceil>" by (simp add: less_ceiling_iff)
  then show "((price, candidate + krxStockTickSize (of_int candidate)), price, candidate)
      \<in> measure (\<lambda>(price, candidate). nat (\<lceil>price\<rceil> - candidate))"
    using tick_pos(1) [of "of_int candidate"] by simp
qed simp

declare step_down.simps [simp del] step_up.simps [simp del]

definition floorKrxStockTick :: "rat option \<Rightarrow> int" where
  "floorKrxStockTick price = (case price of None \<Rightarrow> 0
     | Some p \<Rightarrow> if p \<le> 0 then 0
         else (let c = \<lfloor>p\<rfloor>; t = krxStockTickSize (of_int c) in step_down p (c div t * t)))"

definition ceilKrxStockTick :: "rat option \<Rightarrow> int" where
  "ceilKrxStockTick price = (case price of None \<Rightarrow> 0
     | Some p \<Rightarrow> if p \<le> 0 then 0
         else (let c = \<lceil>p\<rceil>; t = krxStockTickSize (of_int c) in step_up p (- ((- c) div t) * t)))"

subsection \<open>Which trades are counted\<close>

definition isRegularContinuousTrade :: "ms \<Rightarrow> bool" where
  "isRegularContinuousTrade tMs \<longleftrightarrow> REGULAR_OPEN_MIN \<le> kstMinuteOfDay tMs \<and> kstMinuteOfDay tMs < CLOSING_AUCTION_START_MIN"

definition isEligibleSide :: "int \<Rightarrow> bool" where
  "isEligibleSide side \<longleftrightarrow> side = -1 \<or> side = 1"

definition isTradeTimeEligible :: "ms \<Rightarrow> int \<Rightarrow> ms option \<Rightarrow> string option \<Rightarrow> bool" where
  "isTradeTimeEligible tMs openMinute continuousBeforeMs venue =
     (if venue = Some ''NXT'' \<or> venue = Some ''UN''
      then 8 * 60 \<le> kstMinuteOfDay tMs \<and> kstMinuteOfDay tMs < 20 * 60
        \<and> (case continuousBeforeMs of None \<Rightarrow> True | Some b \<Rightarrow> tMs < b)
      else if isStockIndicatorBreak tMs ''KRX'' then False
      else case continuousBeforeMs of
          Some b \<Rightarrow> openMinute \<le> kstMinuteOfDay tMs \<and> tMs < b
        | None \<Rightarrow> isRegularContinuousTrade tMs
            \<or> (case venue of None \<Rightarrow> ''KRX'' | Some v \<Rightarrow> v) = ''KRX'' \<and> isKrxAftermarketWindow tMs)"

record TradeEvent =
  te_t_ms :: "ms option"
  te_price :: "rat option"
  te_side :: int
  te_qty :: "rat option"

record TradeSnapshot =
  ts_t_ms :: ms
  ts_trades :: "TradeEvent list"

definition event_time :: "TradeSnapshot \<Rightarrow> TradeEvent \<Rightarrow> ms" where
  "event_time snapshot e = (case te_t_ms e of Some t \<Rightarrow> t | None \<Rightarrow> ts_t_ms snapshot)"

record poc_candle =
  pc_ts_ms :: ms
  pc_low :: "rat option"
  pc_high :: "rat option"
  pc_close :: "rat option"
  pc_vol_a :: "rat option"
  pc_vol_b :: "rat option"

definition priceRangeFromCandles :: "poc_candle list \<Rightarrow> (rat \<times> rat) option" where
  "priceRangeFromCandles candles =
     (let lows = List.map_filter pc_low candles; highs = List.map_filter pc_high candles
      in if lows = [] \<or> highs = [] then None else Some (Min (set lows), Max (set highs)))"

subsection \<open>The band with the most volume\<close>

text \<open>\<open>Math.round\<close>.\<close>

definition js_round :: "rat \<Rightarrow> int" where "js_round x = \<lfloor>x + 1 / 2\<rfloor>"

definition lowerBoundPrice :: "int list \<Rightarrow> int \<Rightarrow> nat" where
  "lowerBoundPrice prices price = first_fail (\<lambda>i. prices ! i < price) 0 (length prices)"

definition upperBoundPrice :: "int list \<Rightarrow> int \<Rightarrow> nat" where
  "upperBoundPrice prices price = first_fail (\<lambda>i. prices ! i \<le> price) 0 (length prices)"

definition prefix_sums :: "rat list \<Rightarrow> rat list" where
  "prefix_sums qs = foldl (\<lambda>acc q. acc @ [last acc + q]) [0] qs"

definition band_low :: "rat \<Rightarrow> PriceBucket \<Rightarrow> int" where
  "band_low bandPct center = floorKrxStockTick (Some (of_int (pb_price center) * (1 - bandPct)))"

definition band_high :: "rat \<Rightarrow> PriceBucket \<Rightarrow> int" where
  "band_high bandPct center = ceilKrxStockTick (Some (of_int (pb_price center) * (1 + bandPct)))"

text \<open>The candidate of a centre, with the order that breaks ties.\<close>

definition band_candidate :: "PriceBucket list \<Rightarrow> rat \<Rightarrow> string \<Rightarrow> PriceBucket \<Rightarrow> TradeVolumePoc \<times> nat" where
  "band_candidate byPrice bandPct date center =
     (let prices = map pb_price byPrice; prefix = prefix_sums (map pb_qty byPrice);
          low = band_low bandPct center; high = band_high bandPct center;
          start = lowerBoundPrice prices low; end' = upperBoundPrice prices high
      in (\<lparr>poc_date = date, poc_centerPrice = of_int (pb_price center), poc_lowPrice = of_int low,
           poc_highPrice = of_int high, poc_qty = prefix ! end' - prefix ! start,
           poc_t_ms = Some (pb_firstTMs center), poc_bandPct = bandPct\<rparr>, pb_order center))"

definition better :: "(TradeVolumePoc \<times> nat) option \<Rightarrow> TradeVolumePoc \<times> nat \<Rightarrow> (TradeVolumePoc \<times> nat) option" where
  "better best c = (case best of None \<Rightarrow> Some c
     | Some b \<Rightarrow> if poc_qty (fst b) < poc_qty (fst c) \<or> poc_qty (fst c) = poc_qty (fst b) \<and> snd c < snd b then Some c else best)"

definition chooseBestPoc :: "PriceBucket list \<Rightarrow> rat \<Rightarrow> string \<Rightarrow> TradeVolumePoc option" where
  "chooseBestPoc buckets bandPct date = (if buckets = [] then None
     else map_option fst (foldl (\<lambda>best center.
        better best (band_candidate (sort_key pb_price buckets) bandPct date center)) None buckets))"

subsection \<open>The distribution over equal ranges\<close>

definition chooseBestDistributionBucket :: "DistributionBucket list \<Rightarrow> rat \<Rightarrow> string \<Rightarrow> TradeVolumePoc option" where
  "chooseBestDistributionBucket buckets bandPct date =
     map_option (\<lambda>b. \<lparr>poc_date = date, poc_centerPrice = of_int \<lfloor>(db_lowPrice b + db_highPrice b) / 2\<rfloor>,
        poc_lowPrice = db_lowPrice b, poc_highPrice = db_highPrice b, poc_qty = db_qty b,
        poc_t_ms = db_firstTMs b, poc_bandPct = bandPct\<rparr>)
       (foldl (\<lambda>best b. if db_qty b \<le> 0 then best
           else (case best of None \<Rightarrow> Some b
             | Some x \<Rightarrow> if db_qty x < db_qty b \<or> db_qty b = db_qty x \<and> db_order b < db_order x then Some b else best))
         None buckets)"

definition bin_width :: "rat \<Rightarrow> rat \<Rightarrow> nat \<Rightarrow> rat" where
  "bin_width priceMin priceMax rangeCount = (let raw = (priceMax - priceMin) / of_nat rangeCount in if 0 < raw then raw else 1)"

definition emptyDistributionBuckets :: "rat \<Rightarrow> rat \<Rightarrow> nat \<Rightarrow> DistributionBucket list" where
  "emptyDistributionBuckets priceMin priceMax rangeCount =
     (let w = bin_width priceMin priceMax rangeCount
      in map (\<lambda>idx. \<lparr>db_lowPrice = of_int \<lfloor>priceMin + of_nat idx * w\<rfloor>,
            db_highPrice = (if Suc idx = rangeCount then priceMax else of_int \<lfloor>priceMin + of_nat (Suc idx) * w\<rfloor>),
            db_qty = 0, db_firstTMs = None, db_order = idx\<rparr>) [0..<rangeCount])"

definition distributionIndex :: "rat \<Rightarrow> rat \<Rightarrow> rat \<Rightarrow> nat \<Rightarrow> nat" where
  "distributionIndex price priceMin priceMax rangeCount =
     nat (max 0 (min (int rangeCount - 1) \<lfloor>(price - priceMin) / bin_width priceMin priceMax rangeCount\<rfloor>))"

definition min_time :: "ms option \<Rightarrow> ms \<Rightarrow> ms option" where
  "min_time t u = (case t of None \<Rightarrow> Some u | Some v \<Rightarrow> Some (min v u))"

definition fill_bucket :: "DistributionBucket list \<Rightarrow> nat \<Rightarrow> rat \<Rightarrow> ms \<Rightarrow> DistributionBucket list" where
  "fill_bucket buckets idx qty tMs =
     (let b = buckets ! idx in buckets[idx := b\<lparr>db_qty := db_qty b + qty, db_firstTMs := min_time (db_firstTMs b) tMs\<rparr>])"

record PocDistParams =
  pd_date :: string
  pd_bandPct :: rat
  pd_rangeMin :: rat
  pd_rangeMax :: rat
  pd_rangeCount :: nat
  pd_sessionOpenMs :: ms
  pd_sessionCloseMs :: ms
  pd_continuousBeforeMs :: "ms option"
  pd_venue :: "string option"

text \<open>The body of the two binning loops for one event.\<close>

definition bin_event :: "PocDistParams \<Rightarrow> int \<Rightarrow> TradeSnapshot \<Rightarrow> DistributionBucket list \<Rightarrow> TradeEvent \<Rightarrow> DistributionBucket list" where
  "bin_event p openMinute snapshot buckets e =
     (let tMs = event_time snapshot e in
      if tMs < pd_sessionOpenMs p \<or> pd_sessionCloseMs p \<le> tMs then buckets
      else if \<not> isTradeTimeEligible tMs openMinute (pd_continuousBeforeMs p) (pd_venue p) then buckets
      else if \<not> isEligibleSide (te_side e) then buckets
      else case (te_price e, te_qty e) of
          (Some price, Some qty) \<Rightarrow>
            if price \<le> 0 \<or> qty \<le> 0 then buckets
            else if price < pd_rangeMin p \<or> pd_rangeMax p < price then buckets
            else fill_bucket buckets (distributionIndex price (pd_rangeMin p) (pd_rangeMax p) (pd_rangeCount p)) qty tMs
        | _ \<Rightarrow> buckets)"

definition bin_snapshots :: "PocDistParams \<Rightarrow> int \<Rightarrow> TradeSnapshot list \<Rightarrow> DistributionBucket list \<Rightarrow> DistributionBucket list" where
  "bin_snapshots p openMinute snapshots buckets =
     foldl (\<lambda>bs snapshot. foldl (bin_event p openMinute snapshot) bs (ts_trades snapshot)) buckets snapshots"

subsection \<open>The batch computation\<close>

text \<open>
  The price buckets are the values of a \<open>Map\<close> in insertion order; \<open>order\<close> counts the buckets made.
\<close>

definition add_to_price :: "int \<Rightarrow> rat \<Rightarrow> ms \<Rightarrow> PriceBucket list \<Rightarrow> PriceBucket list" where
  "add_to_price price qty tMs buckets =
     (if price \<in> pb_price ` set buckets
      then map (\<lambda>b. if pb_price b = price then b\<lparr>pb_qty := pb_qty b + qty, pb_firstTMs := min (pb_firstTMs b) tMs\<rparr> else b) buckets
      else buckets @ [\<lparr>pb_price = price, pb_qty = qty, pb_firstTMs = tMs, pb_order = length buckets\<rparr>])"

definition price_event :: "string option \<Rightarrow> ms option \<Rightarrow> TradeSnapshot \<Rightarrow> PriceBucket list \<Rightarrow> TradeEvent \<Rightarrow> PriceBucket list" where
  "price_event venue continuousBeforeMs snapshot buckets e =
     (let tMs = event_time snapshot e in
      if \<not> isTradeTimeEligible tMs REGULAR_OPEN_MIN continuousBeforeMs venue then buckets
      else if \<not> isEligibleSide (te_side e) then buckets
      else case (te_price e, te_qty e) of
          (Some price, Some qty) \<Rightarrow> if qty \<le> 0 then buckets else add_to_price (js_round price) qty tMs buckets
        | _ \<Rightarrow> buckets)"

record PocSegment =
  sg_date :: string
  sg_open_ms :: ms
  sg_close_ms :: ms

record PocOptions =
  po_bandPct :: "rat option"
  po_date :: "string option"
  po_candles :: "poc_candle list option"
  po_rangeCount :: "rat option"
  po_segment :: "PocSegment option"
  po_venue :: "string option"
  po_continuousBeforeMs :: "ms option"

text \<open>\<open>typeof rangeCount === 'number' && Number.isInteger(rangeCount) && rangeCount > 0\<close>.\<close>

definition range_count :: "rat option \<Rightarrow> nat option" where
  "range_count r = (case r of None \<Rightarrow> None
     | Some x \<Rightarrow> if of_int \<lfloor>x\<rfloor> = x \<and> 0 < x then Some (nat \<lfloor>x\<rfloor>) else None)"

definition or_default :: "'a \<Rightarrow> 'a option \<Rightarrow> 'a" where
  "or_default d v = (case v of None \<Rightarrow> d | Some x \<Rightarrow> x)"

definition computeTradeVolumePoc :: "TradeSnapshot list \<Rightarrow> PocOptions \<Rightarrow> TradeVolumePoc option" where
  "computeTradeVolumePoc trades o' =
     (let bandPct = or_default DEFAULT_BAND_PCT (po_bandPct o'); date = or_default [] (po_date o') in
      case (po_candles o', po_segment o', range_count (po_rangeCount o')) of
        (Some candles, Some segment, Some n) \<Rightarrow>
          (case priceRangeFromCandles candles of
             None \<Rightarrow> None
           | Some (lo, hi) \<Rightarrow>
               (let p = \<lparr>pd_date = date, pd_bandPct = bandPct, pd_rangeMin = lo, pd_rangeMax = hi, pd_rangeCount = n,
                     pd_sessionOpenMs = sg_open_ms segment, pd_sessionCloseMs = sg_close_ms segment,
                     pd_continuousBeforeMs = po_continuousBeforeMs o', pd_venue = po_venue o'\<rparr>
                in chooseBestDistributionBucket
                     (bin_snapshots p (kstMinuteOfDay (sg_open_ms segment)) trades (emptyDistributionBuckets lo hi n))
                     bandPct date))
      | _ \<Rightarrow> chooseBestPoc
           (foldl (\<lambda>bs snapshot. foldl (price_event (po_venue o') (po_continuousBeforeMs o') snapshot) bs (ts_trades snapshot)) [] trades)
           bandPct date)"

subsection \<open>The incremental accumulator\<close>

text \<open>
  A snapshot array holds references: \<open>heap r\<close> is the snapshot object \<open>r\<close>. The key text is the tuple of
  the parts the code joins with bars. \<open>pi_key = None\<close> is the initial empty text.
\<close>

type_synonym poc_key = "rat \<times> rat \<times> nat \<times> ms \<times> ms \<times> ms option \<times> string"

record IncrementalTradeVolumePoc =
  pi_key :: "poc_key option"
  pi_buckets :: "DistributionBucket list"
  pi_consumed :: nat
  pi_lastRef :: "nat option"
  pi_openMinute :: int

definition newPoc :: IncrementalTradeVolumePoc where
  "newPoc = \<lparr>pi_key = None, pi_buckets = [], pi_consumed = 0, pi_lastRef = None, pi_openMinute = 0\<rparr>"

definition poc_key_of :: "PocDistParams \<Rightarrow> poc_key" where
  "poc_key_of p = (pd_rangeMin p, pd_rangeMax p, pd_rangeCount p, pd_sessionOpenMs p, pd_sessionCloseMs p,
     pd_continuousBeforeMs p, or_default ''KRX'' (pd_venue p))"

definition append_only :: "IncrementalTradeVolumePoc \<Rightarrow> nat list \<Rightarrow> bool" where
  "append_only s trades \<longleftrightarrow> pi_consumed s \<le> length trades
     \<and> (pi_consumed s = 0 \<or> Some (trades ! (pi_consumed s - 1)) = pi_lastRef s)"

definition updatePoc :: "(nat \<Rightarrow> TradeSnapshot) \<Rightarrow> nat list \<Rightarrow> PocDistParams \<Rightarrow> IncrementalTradeVolumePoc
    \<Rightarrow> TradeVolumePoc option \<times> IncrementalTradeVolumePoc" where
  "updatePoc heap trades p s =
     (let s1 = (if Some (poc_key_of p) \<noteq> pi_key s \<or> \<not> append_only s trades
          then (let openMinute = kstMinuteOfDay (pd_sessionOpenMs p)
                in s\<lparr>pi_key := Some (poc_key_of p), pi_openMinute := openMinute,
                   pi_buckets := bin_snapshots p openMinute (map heap trades)
                      (emptyDistributionBuckets (pd_rangeMin p) (pd_rangeMax p) (pd_rangeCount p))\<rparr>)
          else if pi_consumed s < length trades
          then s\<lparr>pi_buckets := bin_snapshots p (pi_openMinute s) (map heap (drop (pi_consumed s) trades)) (pi_buckets s)\<rparr>
          else s);
        s2 = s1\<lparr>pi_consumed := length trades, pi_lastRef := (if trades = [] then None else Some (last trades))\<rparr>
      in (chooseBestDistributionBucket (pi_buckets s2) (pd_bandPct p) (pd_date p), s2))"

subsection \<open>Candles of a session\<close>

definition session_sorted :: "poc_candle list \<Rightarrow> bool" where
  "session_sorted candles \<longleftrightarrow> sorted (map pc_ts_ms candles)"

definition candle_lower_bound :: "poc_candle list \<Rightarrow> ms \<Rightarrow> nat" where
  "candle_lower_bound candles time = first_fail (\<lambda>i. pc_ts_ms (candles ! i) < time) 0 (length candles)"

definition createSessionCandleLookup :: "poc_candle list \<Rightarrow> ms \<Rightarrow> ms \<Rightarrow> poc_candle list" where
  "createSessionCandleLookup candles open_ms close_ms =
     (if \<not> open_ms < close_ms then []
      else if \<not> session_sorted candles then filter (\<lambda>c. open_ms \<le> pc_ts_ms c \<and> pc_ts_ms c < close_ms) candles
      else js_slice candles (candle_lower_bound candles open_ms) (candle_lower_bound candles close_ms))"

text \<open>\<open>Math.max(0, Math.round((c.vol_a ?? 0) + (c.vol_b ?? 0)))\<close>.\<close>

definition candle_qty :: "poc_candle \<Rightarrow> int" where
  "candle_qty c = max 0 (js_round (or_default 0 (pc_vol_a c) + or_default 0 (pc_vol_b c)))"

definition bin_candle :: "rat \<Rightarrow> rat \<Rightarrow> nat \<Rightarrow> string option \<Rightarrow> DistributionBucket list \<Rightarrow> poc_candle \<Rightarrow> DistributionBucket list" where
  "bin_candle lo hi n venue buckets c =
     (if \<not> isTradeTimeEligible (pc_ts_ms c) REGULAR_OPEN_MIN None venue then buckets
      else case pc_close c of
          None \<Rightarrow> buckets
        | Some price \<Rightarrow> if price \<le> 0 \<or> candle_qty c \<le> 0 then buckets
            else if price < lo \<or> hi < price then buckets
            else fill_bucket buckets (distributionIndex price lo hi n) (of_int (candle_qty c)) (pc_ts_ms c))"

definition price_candle :: "string option \<Rightarrow> PriceBucket list \<Rightarrow> poc_candle \<Rightarrow> PriceBucket list" where
  "price_candle venue buckets c =
     (if \<not> isTradeTimeEligible (pc_ts_ms c) REGULAR_OPEN_MIN None venue then buckets
      else case pc_close c of
          None \<Rightarrow> buckets
        | Some p \<Rightarrow> if js_round p \<le> 0 \<or> candle_qty c \<le> 0 then buckets
            else add_to_price (js_round p) (of_int (candle_qty c)) (pc_ts_ms c) buckets)"

definition segment_poc :: "poc_candle list \<Rightarrow> rat \<Rightarrow> nat option \<Rightarrow> string option \<Rightarrow> PocSegment \<Rightarrow> TradeVolumePoc option" where
  "segment_poc candles bandPct n venue segment =
     (let own = createSessionCandleLookup candles (sg_open_ms segment) (sg_close_ms segment) in
      case n of
        Some n \<Rightarrow> (case priceRangeFromCandles own of
            None \<Rightarrow> None
          | Some (lo, hi) \<Rightarrow> chooseBestDistributionBucket
              (foldl (bin_candle lo hi n venue) (emptyDistributionBuckets lo hi n) own) bandPct (sg_date segment))
      | None \<Rightarrow> chooseBestPoc (foldl (price_candle venue) [] own) bandPct (sg_date segment))"

definition computeCandleVolumePocs :: "poc_candle list \<Rightarrow> PocSegment list \<Rightarrow> rat option \<Rightarrow> rat option \<Rightarrow> string option \<Rightarrow> TradeVolumePoc list" where
  "computeCandleVolumePocs candles segments bandPct rangeCount venue =
     List.map_filter (segment_poc candles (or_default DEFAULT_BAND_PCT bandPct) (range_count rangeCount) venue) segments"

subsection \<open>Ticks: the nearest price of the grid\<close>

definition on_grid :: "int \<Rightarrow> bool" where
  "on_grid q \<longleftrightarrow> krxStockTickSize (of_int q) dvd q"

lemma tick_int: "krxStockTickSize (of_int c) = (if c < 2000 then 1 else if c < 5000 then 5 else if c < 20000 then 10
     else if c < 50000 then 50 else if c < 200000 then 100 else if c < 500000 then 500 else 1000)"
  by (simp add: krxStockTickSize_def)

abbreviation tick_at :: "int \<Rightarrow> int" where "tick_at c \<equiv> krxStockTickSize (of_int c)"

text \<open>The lower end of the band of a price (below 2000 won every price is its own).\<close>

definition band_base :: "int \<Rightarrow> int" where
  "band_base c = (if c < 2000 then c else if c < 5000 then 2000 else if c < 20000 then 5000
     else if c < 50000 then 20000 else if c < 200000 then 50000 else if c < 500000 then 200000 else 500000)"

lemma band_base: "band_base c \<le> c" "tick_at c dvd band_base c" "band_base c \<le> q \<Longrightarrow> q \<le> c \<Longrightarrow> tick_at q = tick_at c"
  unfolding band_base_def tick_int by (simp_all split: if_splits)

lemma tick_cases: "tick_at c \<in> {1, 5, 10, 50, 100, 500, 1000}" and tick_mono: "q \<le> c \<Longrightarrow> tick_at q \<le> tick_at c"
  unfolding tick_int by simp_all

lemma tick_chain: "q \<le> c \<Longrightarrow> tick_at q dvd tick_at c"
  using tick_mono [of q c] tick_cases [of q] tick_cases [of c] by auto

lemma next_band: "c \<le> r \<Longrightarrow> tick_at r = tick_at c \<or> c < band_base r \<and> tick_at c dvd band_base r \<and> band_base r \<le> r"
  using band_base [of r] band_base(3) [of r c] tick_chain [of c r] dvd_trans by (metis not_le)

lemma base_on_grid: "on_grid (band_base r)"
  by (simp add: on_grid_def band_base_def tick_int)

lemma step_down_stop: "of_int c \<le> p \<Longrightarrow> step_down p c = c"
  by (simp add: step_down.simps)

lemma step_up_stop: "p \<le> of_int c \<Longrightarrow> step_up p c = c"
  by (simp add: step_up.simps)

lemma floor_candidate:
  "on_grid (c div tick_at c * tick_at c)" "on_grid q \<Longrightarrow> q \<le> c \<Longrightarrow> q \<le> c div tick_at c * tick_at c"
proof -
  let ?r = "c div tick_at c * tick_at c"
  have r: "?r \<le> c" "band_base c \<le> ?r"
    using round_to_multiple(1) [of "tick_at c" c] multiple_below [of "tick_at c" "band_base c" c] band_base by (metis tick_pos(1))+
  from band_base(3) [OF r(2,1)] show "on_grid ?r" unfolding on_grid_def by (metis dvd_triv_right)
  show "q \<le> ?r" if "on_grid q" "q \<le> c"
  proof (cases "band_base c \<le> q")
    case True
    then have "tick_at c dvd q" using that band_base(3) [of c q] by (simp add: on_grid_def)
    then show ?thesis using multiple_below [of "tick_at c" q c] that(2) by simp
  next
    case False
    then show ?thesis using r by simp
  qed
qed

lemma ceil_candidate:
  "on_grid (- ((- c) div tick_at c) * tick_at c)" "on_grid q \<Longrightarrow> c \<le> q \<Longrightarrow> - ((- c) div tick_at c) * tick_at c \<le> q"
proof -
  let ?r = "- ((- c) div tick_at c) * tick_at c"
  have r: "c \<le> ?r" by (rule round_to_multiple(2)) simp
  from next_band [OF r] show "on_grid ?r"
  proof
    assume "tick_at ?r = tick_at c"
    then show ?thesis unfolding on_grid_def by (metis dvd_triv_right)
  next
    assume b: "c < band_base ?r \<and> tick_at c dvd band_base ?r \<and> band_base ?r \<le> ?r"
    then have "?r \<le> band_base ?r" by (intro multiple_above) simp_all
    then have "?r = band_base ?r" using b by (metis order_antisym)
    then show ?thesis using base_on_grid [of ?r] by metis
  qed
  show "?r \<le> q" if "on_grid q" "c \<le> q"
    using multiple_above [of "tick_at c" q c] dvd_trans [OF tick_chain [OF that(2)]] that unfolding on_grid_def
    by (metis tick_pos(1))
qed

lemma floor_tick:
  assumes "0 < p"
  shows "on_grid (floorKrxStockTick (Some p))" "of_int (floorKrxStockTick (Some p)) \<le> p"
    "on_grid q \<Longrightarrow> of_int q \<le> p \<Longrightarrow> q \<le> floorKrxStockTick (Some p)"
proof -
  let ?c = "\<lfloor>p\<rfloor>" let ?r = "?c div krxStockTickSize (of_int ?c) * krxStockTickSize (of_int ?c)"
  have le: "of_int ?r \<le> p" using round_to_multiple(1) [of "krxStockTickSize (of_int ?c)" ?c] by (simp only: le_floor_iff tick_pos)
  then have eq: "floorKrxStockTick (Some p) = ?r"
    using assms by (simp add: floorKrxStockTick_def Let_def step_down_stop del: of_int_mult)
  show "on_grid (floorKrxStockTick (Some p))" unfolding eq by (rule floor_candidate)
  show "of_int (floorKrxStockTick (Some p)) \<le> p" unfolding eq by (rule le)
  show "on_grid q \<Longrightarrow> of_int q \<le> p \<Longrightarrow> q \<le> floorKrxStockTick (Some p)"
    unfolding eq using floor_candidate(2) [of q ?c] by (simp add: le_floor_iff)
qed

lemma ceil_tick:
  assumes "0 < p"
  shows "on_grid (ceilKrxStockTick (Some p))" "p \<le> of_int (ceilKrxStockTick (Some p))"
    "on_grid q \<Longrightarrow> p \<le> of_int q \<Longrightarrow> ceilKrxStockTick (Some p) \<le> q"
proof -
  let ?c = "\<lceil>p\<rceil>" let ?r = "- ((- ?c) div krxStockTickSize (of_int ?c)) * krxStockTickSize (of_int ?c)"
  have le: "p \<le> of_int ?r" using round_to_multiple(2) [of "krxStockTickSize (of_int ?c)" ?c] by (simp only: ceiling_le_iff tick_pos)
  then have eq: "ceilKrxStockTick (Some p) = ?r"
    using assms by (simp add: ceilKrxStockTick_def Let_def step_up_stop del: of_int_mult of_int_minus)
  show "on_grid (ceilKrxStockTick (Some p))" unfolding eq by (rule ceil_candidate)
  show "p \<le> of_int (ceilKrxStockTick (Some p))" unfolding eq by (rule le)
  show "on_grid q \<Longrightarrow> p \<le> of_int q \<Longrightarrow> ceilKrxStockTick (Some p) \<le> q"
    unfolding eq using ceil_candidate(2) [of q ?c] by (simp add: ceiling_le_iff)
qed

subsection \<open>Binary search is filtering\<close>

interpretation session_candles: keyed_table session_sorted length "\<lambda>cs i. pc_ts_ms (cs ! i)"
  by unfold_locales (auto simp: session_sorted_def sorted_iff_nth_mono)

interpretation sorted_prices: keyed_table "sorted :: int list \<Rightarrow> bool" length "\<lambda>ps i. ps ! i"
  by unfold_locales (auto simp: sorted_iff_nth_mono)

text \<open>
  Looking up the candles of a session by two binary searches gives exactly the candles inside
  \<open>[open, close)\<close>, in their order; so does the fallback for candles that are not sorted.
\<close>

lemma session_lookup_is_filter:
  "createSessionCandleLookup candles open_ms close_ms = filter (\<lambda>c. open_ms \<le> pc_ts_ms c \<and> pc_ts_ms c < close_ms) candles"
proof (cases "open_ms < close_ms \<and> session_sorted candles")
  case True
  then have sorted: "session_sorted candles" by simp
  note lo = session_candles.lower_bound [OF sorted, where k = open_ms, folded candle_lower_bound_def]
  note hi = session_candles.lower_bound [OF sorted, where k = close_ms, folded candle_lower_bound_def]
  let ?a = "candle_lower_bound candles open_ms" and ?b = "candle_lower_bound candles close_ms"
  have "?a \<le> ?b"
  proof (rule ccontr)
    assume "\<not> ?a \<le> ?b"
    then have "pc_ts_ms (candles ! ?b) < open_ms" "close_ms \<le> pc_ts_ms (candles ! ?b)"
      using lo(1) lo(2) [of ?b] hi(3) [of ?b] by simp_all
    then show False using True by simp
  qed
  moreover have "open_ms \<le> pc_ts_ms (candles ! i) \<and> pc_ts_ms (candles ! i) < close_ms \<longleftrightarrow> ?a \<le> i \<and> i < ?b"
    if "i < length candles" for i
    using lo(2,3) [of i] hi(2,3) [of i] that by (meson not_le)
  ultimately have "filter (\<lambda>c. open_ms \<le> pc_ts_ms c \<and> pc_ts_ms c < close_ms) candles = drop ?a (take ?b candles)"
    using hi(1) by (intro filter_window) simp_all
  then show ?thesis using True by (simp add: createSessionCandleLookup_def js_slice_def)
next
  case False
  have "filter (\<lambda>c. open_ms \<le> pc_ts_ms c \<and> pc_ts_ms c < close_ms) candles = []" if "\<not> open_ms < close_ms"
    using that by (auto simp: filter_empty_conv)
  then show ?thesis using False by (auto simp: createSessionCandleLookup_def)
qed

subsection \<open>Prefix sums\<close>

lemma prefix_sums_snoc: "prefix_sums (qs @ [q]) = prefix_sums qs @ [last (prefix_sums qs) + q]"
  by (simp add: prefix_sums_def)

lemma prefix_sums_length [simp]: "length (prefix_sums qs) = Suc (length qs)"
  by (induction qs rule: rev_induct) (simp_all add: prefix_sums_snoc, simp add: prefix_sums_def)

lemma prefix_sums_nth: "i \<le> length qs \<Longrightarrow> prefix_sums qs ! i = sum_list (take i qs)"
proof (induction qs arbitrary: i rule: rev_induct)
  case Nil
  then show ?case by (simp add: prefix_sums_def)
next
  case (snoc q qs)
  have "last (prefix_sums qs) = prefix_sums qs ! length qs"
    by (metis prefix_sums_length last_conv_nth length_0_conv nat.distinct(1) diff_Suc_1)
  then show ?case using snoc by (cases "i = Suc (length qs)") (auto simp: prefix_sums_snoc nth_append)
qed

lemma prefix_difference:
  assumes "a \<le> b" "b \<le> length qs"
  shows "prefix_sums qs ! b - prefix_sums qs ! a = sum_list (drop a (take b qs))"
proof -
  have "take b qs = take a qs @ drop a (take b qs)" using assms(1) by (metis append_take_drop_id take_take min.absorb1)
  then have "sum_list (take b qs) = sum_list (take a qs) + sum_list (drop a (take b qs))"
    by (metis sum_list_append)
  then show ?thesis using assms by (simp add: prefix_sums_nth)
qed

text \<open>What the band of a centre should count.\<close>

definition band_volume :: "PriceBucket list \<Rightarrow> rat \<Rightarrow> PriceBucket \<Rightarrow> rat" where
  "band_volume buckets bandPct c =
     sum_list (map pb_qty (filter (\<lambda>b. band_low bandPct c \<le> pb_price b \<and> pb_price b \<le> band_high bandPct c) buckets))"

lemma band_ordered:
  assumes "0 \<le> bandPct" "bandPct < 1"
  shows "band_low bandPct c \<le> band_high bandPct c"
proof -
  let ?p = "of_int (pb_price c) :: rat"
  consider "?p \<le> 0" | "0 < ?p" by linarith
  then show ?thesis
  proof cases
    case 1
    then have "?p * (1 - bandPct) \<le> 0" "?p * (1 + bandPct) \<le> 0" using assms by (simp_all add: mult_le_0_iff)
    then show ?thesis by (simp add: band_low_def band_high_def floorKrxStockTick_def ceilKrxStockTick_def)
  next
    case 2
    then have pos: "0 < ?p * (1 - bandPct)" "0 < ?p * (1 + bandPct)" using assms by simp_all
    have "(of_int (band_low bandPct c) :: rat) \<le> ?p * (1 - bandPct)" unfolding band_low_def by (rule floor_tick(2) [OF pos(1)])
    also have "\<dots> \<le> ?p * (1 + bandPct)" using 2 assms by (intro mult_left_mono) simp_all
    also have "\<dots> \<le> of_int (band_high bandPct c)" unfolding band_high_def by (rule ceil_tick(2) [OF pos(2)])
    finally show ?thesis by simp
  qed
qed

lemma sum_filter_mset: "sum_list (map f (filter P xs)) = sum_mset (image_mset f (filter_mset P (mset xs)))"
  by (induction xs) simp_all

lemma candidate_volume:
  assumes "0 \<le> bandPct" "bandPct < 1"
  shows "poc_qty (fst (band_candidate (sort_key pb_price buckets) bandPct date c)) = band_volume buckets bandPct c"
proof -
  let ?s = "sort_key pb_price buckets" let ?ps = "map pb_price ?s" and ?qs = "map pb_qty ?s"
  let ?in = "\<lambda>b. band_low bandPct c \<le> pb_price b \<and> pb_price b \<le> band_high bandPct c"
  let ?a = "lowerBoundPrice ?ps (band_low bandPct c)" and ?b = "upperBoundPrice ?ps (band_high bandPct c)"
  have sorted: "sorted ?ps" by simp
  note lo = sorted_prices.lower_bound [OF sorted, where k = "band_low bandPct c", folded lowerBoundPrice_def]
  note hi = sorted_prices.upper_bound [OF sorted, where k = "band_high bandPct c", folded upperBoundPrice_def]
  have ab: "?a \<le> ?b"
  proof (rule ccontr)
    assume "\<not> ?a \<le> ?b"
    then have "?ps ! ?b < band_low bandPct c" "band_high bandPct c < ?ps ! ?b"
      using lo(1) lo(2) [of ?b] hi(3) [of ?b] by simp_all
    then show False using band_ordered [OF assms, of c] by simp
  qed
  have "?in (?s ! i) \<longleftrightarrow> ?a \<le> i \<and> i < ?b" if "i < length ?s" for i
    using lo(2,3) [of i] hi(2,3) [of i] that by (metis length_map not_le nth_map)
  then have window: "filter ?in ?s = drop ?a (take ?b ?s)"
    using ab hi(1) by (intro filter_window) simp_all
  have "poc_qty (fst (band_candidate ?s bandPct date c)) = sum_list (drop ?a (take ?b ?qs))"
    using prefix_difference [OF ab, of ?qs] hi(1) by (simp add: band_candidate_def Let_def)
  also have "\<dots> = sum_list (map pb_qty (filter ?in ?s))" by (simp add: window drop_map take_map)
  also have "\<dots> = band_volume buckets bandPct c"
    unfolding band_volume_def sum_filter_mset by simp
  finally show ?thesis .
qed

lemma best_candidate:
  "foldl (\<lambda>best c. better best (f c)) None cs = Some r \<Longrightarrow>
   r \<in> f ` set cs \<and> (\<forall>c \<in> set cs. poc_qty (fst (f c)) < poc_qty (fst r)
     \<or> poc_qty (fst (f c)) = poc_qty (fst r) \<and> snd r \<le> snd (f c))"
proof (induction cs arbitrary: r rule: rev_induct)
  case (snoc c cs)
  show ?case
  proof (cases "foldl (\<lambda>best c. better best (f c)) None cs")
    case None
    have some: "better b x \<noteq> None" for b x by (auto simp: better_def split: option.split)
    have "cs = []"
    proof (cases cs rule: rev_cases)
      case (snoc ys y)
      then have "better (foldl (\<lambda>best c. better best (f c)) None ys) (f y) = None" using None by simp
      then show ?thesis using some by blast
    qed simp
    then show ?thesis using snoc.prems by (simp add: better_def)
  next
    case (Some b)
    then show ?thesis using snoc.IH [OF Some] snoc.prems by (fastforce simp: better_def split: if_splits)
  qed
qed simp

text \<open>
  C33. The point of control is what it claims: its centre is a traded price, its band reaches from the
  tick below the lower edge to the tick above the upper edge, its quantity is the volume traded inside
  that band, and no other traded price has a band with more volume; of equals, the price traded first
  wins. The code gets there with prefix sums and two binary searches per centre.
\<close>

theorem poc_has_most_volume:
  assumes "chooseBestPoc buckets bandPct date = Some r" "0 \<le> bandPct" "bandPct < 1"
  shows "\<exists>c \<in> set buckets. poc_centerPrice r = of_int (pb_price c)
      \<and> poc_lowPrice r = of_int (band_low bandPct c) \<and> poc_highPrice r = of_int (band_high bandPct c)
      \<and> poc_qty r = band_volume buckets bandPct c
      \<and> (\<forall>d \<in> set buckets. band_volume buckets bandPct d < poc_qty r
           \<or> band_volume buckets bandPct d = poc_qty r \<and> pb_order c \<le> pb_order d)"
proof -
  let ?f = "band_candidate (sort_key pb_price buckets) bandPct date"
  obtain best where best: "foldl (\<lambda>best c. better best (?f c)) None buckets = Some best" "r = fst best"
    using assms(1) by (auto simp: chooseBestPoc_def split: if_splits)
  from best_candidate [OF best(1)] obtain c where c: "c \<in> set buckets" "best = ?f c"
    and most: "\<forall>d \<in> set buckets. poc_qty (fst (?f d)) < poc_qty (fst best)
       \<or> poc_qty (fst (?f d)) = poc_qty (fst best) \<and> snd best \<le> snd (?f d)" by blast
  have order: "snd (?f d) = pb_order d" for d by (simp add: band_candidate_def Let_def)
  have "poc_centerPrice (fst (?f c)) = of_int (pb_price c)" "poc_lowPrice (fst (?f c)) = of_int (band_low bandPct c)"
    "poc_highPrice (fst (?f c)) = of_int (band_high bandPct c)" by (simp_all add: band_candidate_def Let_def)
  then show ?thesis
    using c best(2) most candidate_volume [OF assms(2,3)] by (intro bexI [of _ c]) (auto simp: order)
qed

end
