(* ===== verification/IncrementalPoc.thy ===== *)
theory IncrementalPoc
  imports TradeVolumePoc
begin

section \<open>The incremental point of control\<close>

text \<open>
  The accumulator of the day against the batch computation it replaces. The live buffer hands over
  contiguous windows of one stream of snapshot objects (appended at the end, evicted at the front), or
  starts over; whatever the windows and parameters of the calls were, each call answers what the batch
  computation would. Binning loses no volume.
\<close>

subsection \<open>Incremental is batch\<close>

text \<open>Only the parts of the key matter for the bins.\<close>

lemma eligible_default: "isTradeTimeEligible t m c (Some (or_default ''KRX'' v)) = isTradeTimeEligible t m c v"
  by (cases v; cases c) (simp_all add: isTradeTimeEligible_def or_default_def)

lemma bins_by_key:
  assumes "poc_key_of p = poc_key_of q"
  shows "bin_snapshots p m xs bs = bin_snapshots q m xs bs"
proof -
  have "isTradeTimeEligible t m c (pd_venue p) = isTradeTimeEligible t m c (pd_venue q)" for t c
    using assms eligible_default [of t m c "pd_venue p"] eligible_default [of t m c "pd_venue q"] by (simp add: poc_key_of_def)
  moreover have "pd_rangeMin p = pd_rangeMin q" "pd_rangeMax p = pd_rangeMax q" "pd_rangeCount p = pd_rangeCount q"
    "pd_sessionOpenMs p = pd_sessionOpenMs q" "pd_sessionCloseMs p = pd_sessionCloseMs q"
    "pd_continuousBeforeMs p = pd_continuousBeforeMs q" using assms by (simp_all add: poc_key_of_def)
  ultimately have "bin_event p m snapshot bs e = bin_event q m snapshot bs e" for snapshot bs e
    by (simp only: bin_event_def)
  then have "bin_event p m snapshot = bin_event q m snapshot" for snapshot by blast
  then show ?thesis by (simp only: bin_snapshots_def)
qed

lemma bins_append: "bin_snapshots p m (xs @ ys) bs = bin_snapshots p m ys (bin_snapshots p m xs bs)"
  by (simp add: bin_snapshots_def)

abbreviation batch_bins :: "(nat \<Rightarrow> TradeSnapshot) \<Rightarrow> nat list \<Rightarrow> PocDistParams \<Rightarrow> DistributionBucket list" where
  "batch_bins heap trades p \<equiv> bin_snapshots p (kstMinuteOfDay (pd_sessionOpenMs p)) (map heap trades)
     (emptyDistributionBuckets (pd_rangeMin p) (pd_rangeMax p) (pd_rangeCount p))"

text \<open>What the accumulator remembers of its last call, on the window \<open>[a..<b]\<close> of the stream.\<close>

definition remembers :: "(nat \<Rightarrow> TradeSnapshot) \<Rightarrow> nat \<Rightarrow> nat \<Rightarrow> PocDistParams \<Rightarrow> IncrementalTradeVolumePoc \<Rightarrow> bool" where
  "remembers heap a b p s \<longleftrightarrow> pi_key s = Some (poc_key_of p) \<and> pi_consumed s = b - a
     \<and> pi_lastRef s = (if a < b then Some (b - 1) else None)
     \<and> pi_openMinute s = kstMinuteOfDay (pd_sessionOpenMs p) \<and> pi_buckets s = batch_bins heap [a..<b] p"

lemma same_window_start:
  assumes "remembers heap a b p s" "append_only s [a'..<b']" "a < b"
  shows "a' = a" "b \<le> b'"
proof -
  have "b - a \<le> b' - a'" "[a'..<b'] ! (b - a - 1) = b - 1"
    using assms by (auto simp: remembers_def append_only_def)
  then show "a' = a" "b \<le> b'" using assms(3) by auto
qed

lemma update_remembers:
  assumes "s = newPoc \<or> remembers heap a b p s"
  shows "remembers heap a' b' p' (snd (updatePoc heap [a'..<b'] p' s))"
    and "fst (updatePoc heap [a'..<b'] p' s)
      = chooseBestDistributionBucket (batch_bins heap [a'..<b'] p') (pd_bandPct p') (pd_date p')"
proof -
  let ?s' = "snd (updatePoc heap [a'..<b'] p' s)"
  have rest: "pi_consumed ?s' = b' - a'" "pi_lastRef ?s' = (if a' < b' then Some (b' - 1) else None)"
    "fst (updatePoc heap [a'..<b'] p' s) = chooseBestDistributionBucket (pi_buckets ?s') (pd_bandPct p') (pd_date p')"
    by (simp_all add: updatePoc_def Let_def last_conv_nth)
  have main: "pi_key ?s' = Some (poc_key_of p') \<and> pi_openMinute ?s' = kstMinuteOfDay (pd_sessionOpenMs p')
      \<and> pi_buckets ?s' = batch_bins heap [a'..<b'] p'"
  proof (cases "Some (poc_key_of p') \<noteq> pi_key s \<or> \<not> append_only s [a'..<b']")
    case True
    then show ?thesis by (simp add: updatePoc_def Let_def)
  next
    case False
    then have rem: "remembers heap a b p s" and key: "poc_key_of p = poc_key_of p'" and app: "append_only s [a'..<b']"
      using assms by (auto simp: newPoc_def remembers_def)
    then have fields: "pi_consumed s = b - a" "pi_openMinute s = kstMinuteOfDay (pd_sessionOpenMs p')"
      "pi_buckets s = batch_bins heap [a..<b] p'" "pi_key s = Some (poc_key_of p')"
      using bins_by_key [OF key] by (auto simp: remembers_def poc_key_of_def)
    have "batch_bins heap [a'..<b'] p' = bin_snapshots p' (pi_openMinute s) (map heap (drop (b - a) [a'..<b'])) (pi_buckets s)"
    proof (cases "a < b")
      case True
      note w = same_window_start [OF rem app True]
      have "[a'..<b'] = [a..<b] @ drop (b - a) [a'..<b']"
        using w True upt_add_eq_append [of a b "b' - b"] by simp
      then have "map heap [a'..<b'] = map heap [a..<b] @ map heap (drop (b - a) [a'..<b'])"
        by (metis map_append)
      then show ?thesis by (simp only: bins_append fields)
    next
      case False
      then show ?thesis using fields by (simp add: bin_snapshots_def)
    qed
    moreover have "drop (b - a) [a'..<b'] = []" if "\<not> b - a < b' - a'" using that by simp
    ultimately show ?thesis using False fields by (auto simp: updatePoc_def Let_def bin_snapshots_def)
  qed
  show "remembers heap a' b' p' ?s'" using main rest(1,2) by (simp add: remembers_def)
  show "fst (updatePoc heap [a'..<b'] p' s)
      = chooseBestDistributionBucket (batch_bins heap [a'..<b'] p') (pd_bandPct p') (pd_date p')"
    using main rest(3) by simp
qed

text \<open>A history of calls, each with its window and parameters.\<close>

primrec feed :: "(nat \<Rightarrow> TradeSnapshot) \<Rightarrow> ((nat \<times> nat) \<times> PocDistParams) list \<Rightarrow> IncrementalTradeVolumePoc \<Rightarrow> IncrementalTradeVolumePoc" where
  "feed heap [] s = s"
| "feed heap (c # cs) s = feed heap cs (snd (updatePoc heap [fst (fst c)..<snd (fst c)] (snd c) s))"

lemma feed_remembers:
  assumes "s = newPoc \<or> (\<exists>a b p. remembers heap a b p s)"
  shows "feed heap cs s = newPoc \<or> (\<exists>a b p. remembers heap a b p (feed heap cs s))"
  using assms
proof (induction cs arbitrary: s)
  case (Cons c cs)
  show ?case using Cons.prems by (auto intro!: Cons.IH dest!: update_remembers(1) [rotated] intro: update_remembers(1))
qed simp

text \<open>
  C9. The accumulator of the day's point of control agrees with the batch computation on every call:
  after any history of calls on windows of the snapshot stream (grown, evicted from the front, shrunk
  or restarted, under changing price ranges, sessions, cutoffs and venues), the answer on a window is
  the one the batch computation gives for that window, although only the new snapshots are binned.
\<close>

theorem incremental_is_batch:
  assumes "priceRangeFromCandles candles = Some (lo, hi)" "0 < n"
  shows "fst (updatePoc heap [a..<b]
      \<lparr>pd_date = date, pd_bandPct = bandPct, pd_rangeMin = lo, pd_rangeMax = hi, pd_rangeCount = n,
       pd_sessionOpenMs = sg_open_ms segment, pd_sessionCloseMs = sg_close_ms segment,
       pd_continuousBeforeMs = cutoff, pd_venue = venue\<rparr> (feed heap calls newPoc))
    = computeTradeVolumePoc (map heap [a..<b])
      \<lparr>po_bandPct = Some bandPct, po_date = Some date, po_candles = Some candles, po_rangeCount = Some (of_nat n),
       po_segment = Some segment, po_venue = venue, po_continuousBeforeMs = cutoff\<rparr>"
proof -
  let ?s = "feed heap calls newPoc"
  obtain a0 b0 p0 where s: "?s = newPoc \<or> remembers heap a0 b0 p0 ?s" using feed_remembers by blast
  have "range_count (Some (of_nat n)) = Some n" using assms(2) by (simp add: range_count_def)
  then show ?thesis
    using update_remembers(2) [OF s] assms by (simp add: computeTradeVolumePoc_def or_default_def)
qed

subsection \<open>No volume is lost\<close>

text \<open>The quantity an event adds to the bins.\<close>

definition counted_qty :: "PocDistParams \<Rightarrow> int \<Rightarrow> TradeSnapshot \<Rightarrow> TradeEvent \<Rightarrow> rat" where
  "counted_qty p openMinute snapshot e = (let tMs = event_time snapshot e in case (te_price e, te_qty e) of
     (Some price, Some qty) \<Rightarrow>
       if pd_sessionOpenMs p \<le> tMs \<and> tMs < pd_sessionCloseMs p
         \<and> isTradeTimeEligible tMs openMinute (pd_continuousBeforeMs p) (pd_venue p) \<and> isEligibleSide (te_side e)
         \<and> 0 < price \<and> 0 < qty \<and> pd_rangeMin p \<le> price \<and> price \<le> pd_rangeMax p then qty else 0
   | _ \<Rightarrow> 0)"

definition binned_volume :: "DistributionBucket list \<Rightarrow> rat" where
  "binned_volume buckets = sum_list (map db_qty buckets)"

lemma fill_length [simp]: "length (fill_bucket bs i q t) = length bs"
  by (simp add: fill_bucket_def Let_def)

lemma fill_volume:
  assumes "i < length bs"
  shows "binned_volume (fill_bucket bs i q t) = binned_volume bs + q"
proof -
  obtain b where b: "bs ! i = b" by simp
  have "bs = take i bs @ b # drop (Suc i) bs" using id_take_nth_drop [OF assms] b by simp
  then have split: "binned_volume bs = binned_volume (take i bs) + db_qty b + binned_volume (drop (Suc i) bs)"
    unfolding binned_volume_def by (metis add.assoc list.simps(9) map_append sum_list.Cons sum_list_append)
  show ?thesis
    using assms unfolding split fill_bucket_def Let_def b
    by (simp add: upd_conv_take_nth_drop binned_volume_def)
qed

lemma index_in_range: "0 < n \<Longrightarrow> distributionIndex price lo hi n < n"
  by (auto simp: distributionIndex_def)

lemma bin_event_volume:
  assumes "length bs = pd_rangeCount p" "0 < pd_rangeCount p"
  shows "length (bin_event p m snapshot bs e) = length bs"
    and "binned_volume (bin_event p m snapshot bs e) = binned_volume bs + counted_qty p m snapshot e"
proof -
  have i: "distributionIndex x (pd_rangeMin p) (pd_rangeMax p) (pd_rangeCount p) < length bs" for x
    using index_in_range [OF assms(2)] assms(1) by simp
  show "length (bin_event p m snapshot bs e) = length bs"
    by (simp add: bin_event_def Let_def split: option.split)
  show "binned_volume (bin_event p m snapshot bs e) = binned_volume bs + counted_qty p m snapshot e"
    by (auto simp: bin_event_def counted_qty_def Let_def fill_volume [OF i] not_less not_le split: option.split)
qed

lemma bin_events_volume:
  assumes "length bs = pd_rangeCount p" "0 < pd_rangeCount p"
  shows "length (foldl (bin_event p m snapshot) bs es) = length bs
    \<and> binned_volume (foldl (bin_event p m snapshot) bs es) = binned_volume bs + sum_list (map (counted_qty p m snapshot) es)"
  using assms
proof (induction es arbitrary: bs)
  case (Cons e es)
  then show ?case using Cons.IH [of "bin_event p m snapshot bs e"] bin_event_volume [of bs p m snapshot e] by simp
qed simp

lemma bin_snapshots_volume:
  assumes "length bs = pd_rangeCount p" "0 < pd_rangeCount p"
  shows "length (bin_snapshots p m xs bs) = length bs
    \<and> binned_volume (bin_snapshots p m xs bs) = binned_volume bs + (\<Sum>s\<leftarrow>xs. \<Sum>e\<leftarrow>ts_trades s. counted_qty p m s e)"
  using assms unfolding bin_snapshots_def
proof (induction xs arbitrary: bs)
  case (Cons x xs)
  then show ?case
    using Cons.IH [of "foldl (bin_event p m x) bs (ts_trades x)"] bin_events_volume [of bs p m x "ts_trades x"] by simp
qed simp

text \<open>
  The distribution neither loses nor invents volume: over the empty ranges of a session, the binned
  quantities add up to the quantities of exactly the trades that qualify (inside the session, before
  the cutoff, on a buy or sell side, priced inside the range), whichever range each of them fell in.
\<close>

lemma distribution_conserves_volume:
  assumes "0 < pd_rangeCount p"
  shows "binned_volume (bin_snapshots p m xs
      (emptyDistributionBuckets (pd_rangeMin p) (pd_rangeMax p) (pd_rangeCount p)))
    = (\<Sum>s\<leftarrow>xs. \<Sum>e\<leftarrow>ts_trades s. counted_qty p m s e)"
proof -
  let ?empty = "emptyDistributionBuckets (pd_rangeMin p) (pd_rangeMax p) (pd_rangeCount p)"
  have "length ?empty = pd_rangeCount p" by (simp add: emptyDistributionBuckets_def Let_def)
  moreover have "binned_volume ?empty = 0"
    by (simp add: binned_volume_def emptyDistributionBuckets_def Let_def comp_def sum_list_0)
  ultimately show ?thesis using bin_snapshots_volume [of ?empty p] assms by simp
qed

subsection \<open>Concrete instances\<close>

definition tick_stream :: "nat \<Rightarrow> TradeSnapshot" where
  "tick_stream r = \<lparr>ts_t_ms = 3600000 + int r,
     ts_trades = [\<lparr>te_t_ms = None, te_price = Some (100 + of_nat r), te_side = 1, te_qty = Some 10\<rparr>]\<rparr>"

definition plain_candle :: "rat \<Rightarrow> rat \<Rightarrow> poc_candle" where
  "plain_candle lo hi = \<lparr>pc_ts_ms = 3600000, pc_low = Some lo, pc_high = Some hi, pc_close = Some hi, pc_vol_a = None, pc_vol_b = None\<rparr>"

definition day_params :: PocDistParams where
  "day_params = \<lparr>pd_date = ''19700101'', pd_bandPct = 1 / 200, pd_rangeMin = 90, pd_rangeMax = 110, pd_rangeCount = 2,
     pd_sessionOpenMs = 0, pd_sessionCloseMs = 23400000, pd_continuousBeforeMs = None, pd_venue = None\<rparr>"

theorem incremental_is_batch_witness:
  "fst (updatePoc tick_stream [1..<5] day_params (feed tick_stream [((0, 3), day_params), ((1, 4), day_params)] newPoc))
   = computeTradeVolumePoc (map tick_stream [1..<5])
      \<lparr>po_bandPct = Some (1 / 200), po_date = Some ''19700101'', po_candles = Some [plain_candle 90 110],
       po_rangeCount = Some (of_nat 2), po_segment = Some \<lparr>sg_date = ''19700101'', sg_open_ms = 0, sg_close_ms = 23400000\<rparr>,
       po_venue = None, po_continuousBeforeMs = None\<rparr>"
proof -
  have range: "priceRangeFromCandles [plain_candle 90 110] = Some (90, 110)"
    by (simp add: priceRangeFromCandles_def plain_candle_def List.map_filter_def)
  show ?thesis
    using incremental_is_batch [OF range, where n = 2 and heap = tick_stream and a = 1 and b = 5 and date = "''19700101''"
        and bandPct = "1 / 200" and segment = "\<lparr>sg_date = ''19700101'', sg_open_ms = 0, sg_close_ms = 23400000\<rparr>"
        and cutoff = None and venue = None and calls = "[((0, 3), day_params), ((1, 4), day_params)]"]
    by (simp add: day_params_def del: feed.simps One_nat_def)
qed

definition two_prices :: "PriceBucket list" where
  "two_prices = [\<lparr>pb_price = 10000, pb_qty = 5, pb_firstTMs = 1, pb_order = 0\<rparr>, \<lparr>pb_price = 10040, pb_qty = 7, pb_firstTMs = 2, pb_order = 1\<rparr>]"

theorem poc_has_most_volume_witness:
  "\<exists>r c. chooseBestPoc two_prices (1 / 200) ''19700101'' = Some r \<and> c \<in> set two_prices
     \<and> poc_centerPrice r = of_int (pb_price c) \<and> poc_qty r = band_volume two_prices (1 / 200) c"
proof -
  have "chooseBestPoc two_prices (1 / 200) ''19700101'' \<noteq> None"
    by (simp add: chooseBestPoc_def two_prices_def better_def)
  then obtain r where "chooseBestPoc two_prices (1 / 200) ''19700101'' = Some r" by blast
  then show ?thesis using poc_has_most_volume [of two_prices "1 / 200" "''19700101''" r] by auto
qed

end
