(* ===== verification/Surges.thy ===== *)
theory Surges
  imports Complex_Main KstTime
begin

section \<open>Surges of the order book totals\<close>

text \<open>
  \<open>chart/surge/detectSurges.ts\<close>: the hysteresis detector that marks each time the total of one side
  of the book comes back to its running peak of the day. The loop is a fold of a step over the points;
  totals, ticks and widths are rationals. \<open>isClosingAuction\<close> is the predicate the caller passes.
\<close>

datatype SurgeSide = AskSide | BidSide

record QuoteRatioPoint =
  qr_t :: ms
  qr_bid_total :: rat
  qr_ask_total :: rat
  qr_band_pct :: rat
  qr_tick :: rat

record SurgeMarker =
  sm_t :: ms
  sm_prevPeak :: rat
  sm_value :: rat
  sm_pctOfPeak :: rat

record DetectSurgesOpts =
  approachRatio :: rat
  rearmRatio :: rat
  closingAuction :: "ms \<Rightarrow> bool"
  tickConfirmRatio :: "rat option"

definition surge_field :: "SurgeSide \<Rightarrow> QuoteRatioPoint \<Rightarrow> rat" where
  "surge_field side p = (case side of AskSide \<Rightarrow> qr_ask_total p | BidSide \<Rightarrow> qr_bid_total p)"

text \<open>The variables of the loop; \<open>activeIdx\<close> is \<open>None\<close> for -1, \<open>curDay\<close> for the initial NaN.\<close>

record SurgeState =
  su_out :: "SurgeMarker list"
  runningMax :: rat
  tickRef :: "rat option"
  widthRef :: rat
  armed :: bool
  activeIdx :: "nat option"
  curDay :: "int option"

definition new_day :: "int \<Rightarrow> SurgeState \<Rightarrow> SurgeState" where
  "new_day day s = (if Some day \<noteq> curDay s
     then s\<lparr>curDay := Some day, runningMax := 0, tickRef := None, widthRef := 0, armed := False, activeIdx := None\<rparr> else s)"

definition tick_correction :: "DetectSurgesOpts \<Rightarrow> QuoteRatioPoint \<Rightarrow> SurgeState \<Rightarrow> SurgeState" where
  "tick_correction o' p s = (case tickConfirmRatio o' of
     None \<Rightarrow> s
   | Some confirm \<Rightarrow> if \<not> 0 < qr_tick p then s
       else (case tickRef s of
           None \<Rightarrow> s\<lparr>tickRef := Some (qr_tick p), widthRef := qr_band_pct p\<rparr>
         | Some ref \<Rightarrow> if qr_tick p = ref then s
             else (let w = qr_band_pct p;
                       s' = (if 0 < widthRef s \<and> 0 < w \<and> confirm \<le> \<bar>w / widthRef s - 1\<bar>
                             then s\<lparr>runningMax := runningMax s * (qr_tick p / ref)\<rparr> else s)
                   in s'\<lparr>tickRef := Some (qr_tick p), widthRef := w\<rparr>)))"

definition fire_or_track :: "DetectSurgesOpts \<Rightarrow> ms \<Rightarrow> rat \<Rightarrow> SurgeState \<Rightarrow> SurgeState" where
  "fire_or_track o' t v s = (if \<not> 0 < runningMax s then s else
     (let s1 = (if v < rearmRatio o' * runningMax s then s\<lparr>armed := True, activeIdx := None\<rparr> else s)
      in if armed s1 \<and> approachRatio o' * runningMax s1 \<le> v
         then s1\<lparr>su_out := su_out s1 @ [\<lparr>sm_t = t, sm_prevPeak = runningMax s1, sm_value = v, sm_pctOfPeak = v / runningMax s1\<rparr>],
                 activeIdx := Some (length (su_out s1)), armed := False\<rparr>
         else (case activeIdx s1 of
             Some i \<Rightarrow> if runningMax s1 < v
               then (let prevPeak = sm_prevPeak (su_out s1 ! i)
                     in s1\<lparr>su_out := (su_out s1)[i := \<lparr>sm_t = t, sm_prevPeak = prevPeak, sm_value = v, sm_pctOfPeak = v / prevPeak\<rparr>]\<rparr>)
               else s1
           | None \<Rightarrow> s1)))"

definition ratchet :: "rat \<Rightarrow> SurgeState \<Rightarrow> SurgeState" where
  "ratchet v s = (if runningMax s < v then s\<lparr>runningMax := v\<rparr> else s)"

definition surge_step :: "SurgeSide \<Rightarrow> DetectSurgesOpts \<Rightarrow> SurgeState \<Rightarrow> QuoteRatioPoint \<Rightarrow> SurgeState" where
  "surge_step side o' s p = (let s1 = new_day (tradingDayOf (qr_t p)) s in
     if closingAuction o' (qr_t p) then s1
     else (let v = surge_field side p in ratchet v (fire_or_track o' (qr_t p) v (tick_correction o' p s1))))"

definition surge_start :: SurgeState where
  "surge_start = \<lparr>su_out = [], runningMax = 0, tickRef = None, widthRef = 0, armed = False, activeIdx = None, curDay = None\<rparr>"

definition detectSurgeSide :: "QuoteRatioPoint list \<Rightarrow> SurgeSide \<Rightarrow> DetectSurgesOpts \<Rightarrow> SurgeMarker list" where
  "detectSurgeSide points side o' = su_out (foldl (surge_step side o') surge_start points)"

definition detectSurges :: "QuoteRatioPoint list \<Rightarrow> DetectSurgesOpts \<Rightarrow> SurgeSide \<Rightarrow> SurgeMarker list" where
  "detectSurges points o' side = detectSurgeSide points side o'"

subsection \<open>A day depends on its own points only\<close>

text \<open>The state with the markers of earlier days in front.\<close>

definition shift_out :: "SurgeMarker list \<Rightarrow> SurgeState \<Rightarrow> SurgeState" where
  "shift_out ms s = s\<lparr>su_out := ms @ su_out s, activeIdx := map_option ((+) (length ms)) (activeIdx s)\<rparr>"

definition index_ok :: "SurgeState \<Rightarrow> bool" where
  "index_ok s \<longleftrightarrow> (case activeIdx s of None \<Rightarrow> True | Some i \<Rightarrow> i < length (su_out s))"

lemma shift_simps [simp]:
  "runningMax (shift_out ms s) = runningMax s" "tickRef (shift_out ms s) = tickRef s" "widthRef (shift_out ms s) = widthRef s"
  "armed (shift_out ms s) = armed s" "curDay (shift_out ms s) = curDay s" "su_out (shift_out ms s) = ms @ su_out s"
  by (simp_all add: shift_out_def)

lemma new_day_shift: "new_day d (shift_out ms s) = shift_out ms (new_day d s)"
  by (simp add: new_day_def shift_out_def)

lemma tick_shift: "tick_correction o' p (shift_out ms s) = shift_out ms (tick_correction o' p s)"
  by (simp add: tick_correction_def shift_out_def Let_def split: option.split)

lemma fire_shift: "index_ok s \<Longrightarrow> fire_or_track o' t v (shift_out ms s) = shift_out ms (fire_or_track o' t v s)"
  by (auto simp: fire_or_track_def shift_out_def index_ok_def Let_def nth_append list_update_append split: option.split)

lemma ratchet_shift: "ratchet v (shift_out ms s) = shift_out ms (ratchet v s)"
  by (simp add: ratchet_def shift_out_def)

lemma parts_index_ok:
  "index_ok s \<Longrightarrow> index_ok (new_day d s)" "index_ok s \<Longrightarrow> index_ok (tick_correction o' p s)"
  "index_ok s \<Longrightarrow> index_ok (fire_or_track o' t v s)" "index_ok s \<Longrightarrow> index_ok (ratchet v s)"
  by (auto simp: index_ok_def new_day_def tick_correction_def fire_or_track_def ratchet_def Let_def split: option.splits)

lemma step_index_ok: "index_ok s \<Longrightarrow> index_ok (surge_step side o' s p)"
  by (simp add: surge_step_def Let_def parts_index_ok)

lemma step_shift: "index_ok s \<Longrightarrow> surge_step side o' (shift_out ms s) p = shift_out ms (surge_step side o' s p)"
  by (simp add: surge_step_def Let_def new_day_shift tick_shift fire_shift ratchet_shift parts_index_ok)

lemma fold_shift:
  "index_ok s \<Longrightarrow> foldl (surge_step side o') (shift_out ms s) ps = shift_out ms (foldl (surge_step side o') s ps)"
  by (induction ps arbitrary: s) (simp_all add: step_shift step_index_ok)

lemma start_index_ok [simp]: "index_ok surge_start"
  by (simp add: index_ok_def surge_start_def)

lemma fold_index_ok: "index_ok s \<Longrightarrow> index_ok (foldl (surge_step side o') s ps)"
  by (induction ps arbitrary: s) (simp_all add: step_index_ok)

lemma step_day: "curDay (surge_step side o' s p) = Some (tradingDayOf (qr_t p))"
proof -
  have "curDay (new_day d s) = Some d" for d by (simp add: new_day_def)
  moreover have "curDay (ratchet v s) = curDay s" "curDay (fire_or_track o' t v s) = curDay s"
    "curDay (tick_correction o' p s) = curDay s" for v t s
    by (simp_all add: ratchet_def fire_or_track_def tick_correction_def Let_def split: option.split)
  ultimately show ?thesis by (simp add: surge_step_def Let_def)
qed

lemma fold_day: "ps \<noteq> [] \<Longrightarrow> curDay (foldl (surge_step side o') s ps) = Some (tradingDayOf (qr_t (last ps)))"
  by (cases ps rule: rev_cases) (simp_all add: step_day)

text \<open>The first point of another day makes the past irrelevant.\<close>

lemma step_new_day:
  assumes "curDay s \<noteq> Some (tradingDayOf (qr_t p))"
  shows "surge_step side o' s p = surge_step side o' (shift_out (su_out s) surge_start) p"
proof -
  have "new_day (tradingDayOf (qr_t p)) s = new_day (tradingDayOf (qr_t p)) (shift_out (su_out s) surge_start)"
    using assms by (simp add: new_day_def shift_out_def surge_start_def)
  then show ?thesis by (simp add: surge_step_def)
qed

text \<open>
  C32. The surge markers of past days can be cached: when a series is cut where the trading day changes,
  detecting on the whole series gives the markers of the first part followed by the markers of the
  second, each computed on its own, even though one pass moves markers in place as peaks grow.
\<close>

theorem surges_split_at_days:
  assumes "past \<noteq> []" "today \<noteq> []" "tradingDayOf (qr_t (last past)) \<noteq> tradingDayOf (qr_t (hd today))"
  shows "detectSurgeSide (past @ today) side o' = detectSurgeSide past side o' @ detectSurgeSide today side o'"
proof -
  let ?s = "foldl (surge_step side o') surge_start past"
  obtain p ps where today: "today = p # ps" using assms(2) by (cases today) auto
  have "curDay ?s \<noteq> Some (tradingDayOf (qr_t p))" using fold_day [OF assms(1)] assms(3) today by simp
  then have "foldl (surge_step side o') ?s today = foldl (surge_step side o') (shift_out (su_out ?s) surge_start) today"
    using step_new_day [of ?s p side o'] by (simp add: today)
  also have "\<dots> = shift_out (su_out ?s) (foldl (surge_step side o') surge_start today)" by (rule fold_shift) simp
  finally show ?thesis by (simp add: detectSurgeSide_def)
qed

subsection \<open>What a marker says\<close>

definition marker_ok :: "QuoteRatioPoint set \<Rightarrow> SurgeSide \<Rightarrow> DetectSurgesOpts \<Rightarrow> SurgeMarker \<Rightarrow> bool" where
  "marker_ok ps side o' m \<longleftrightarrow> 0 < sm_prevPeak m \<and> approachRatio o' * sm_prevPeak m \<le> sm_value m
     \<and> sm_pctOfPeak m = sm_value m / sm_prevPeak m
     \<and> (\<exists>p \<in> ps. qr_t p = sm_t m \<and> surge_field side p = sm_value m \<and> \<not> closingAuction o' (qr_t p))"

text \<open>Without tick correction the peak never falls below what the active marker was fired against.\<close>

definition markers_sound :: "QuoteRatioPoint set \<Rightarrow> SurgeSide \<Rightarrow> DetectSurgesOpts \<Rightarrow> SurgeState \<Rightarrow> bool" where
  "markers_sound ps side o' s \<longleftrightarrow> index_ok s \<and> (\<forall>m \<in> set (su_out s). marker_ok ps side o' m)
     \<and> (\<forall>i. activeIdx s = Some i \<longrightarrow> sm_prevPeak (su_out s ! i) \<le> runningMax s)"

lemma marker_ok_mono: "marker_ok ps side o' m \<Longrightarrow> ps \<subseteq> qs \<Longrightarrow> marker_ok qs side o' m"
  by (auto simp: marker_ok_def)

lemma sound_mono: "markers_sound ps side o' s \<Longrightarrow> ps \<subseteq> qs \<Longrightarrow> markers_sound qs side o' s"
  by (auto simp: markers_sound_def intro: marker_ok_mono)

lemma ratchet_sound: "markers_sound ps side o' s \<Longrightarrow> markers_sound ps side o' (ratchet v s)"
  by (cases "activeIdx s") (auto simp: ratchet_def markers_sound_def index_ok_def)

lemma fire_sound:
  assumes "markers_sound ps side o' s" "approachRatio o' \<le> 1"
    and "p \<in> ps" "\<not> closingAuction o' (qr_t p)"
  shows "markers_sound ps side o' (ratchet (surge_field side p) (fire_or_track o' (qr_t p) (surge_field side p) s))"
proof -
  let ?v = "surge_field side p" and ?t = "qr_t p"
  define s1 where "s1 = (if ?v < rearmRatio o' * runningMax s then s\<lparr>armed := True, activeIdx := None\<rparr> else s)"
  have s1: "markers_sound ps side o' s1" "runningMax s1 = runningMax s"
    using assms(1) by (auto simp: s1_def markers_sound_def index_ok_def)
  let ?fired = "s1\<lparr>su_out := su_out s1 @ [\<lparr>sm_t = ?t, sm_prevPeak = runningMax s1, sm_value = ?v, sm_pctOfPeak = ?v / runningMax s1\<rparr>],
      activeIdx := Some (length (su_out s1)), armed := False\<rparr>"
  let ?moved = "\<lambda>i. s1\<lparr>su_out := (su_out s1)[i := \<lparr>sm_t = ?t, sm_prevPeak = sm_prevPeak (su_out s1 ! i), sm_value = ?v,
      sm_pctOfPeak = ?v / sm_prevPeak (su_out s1 ! i)\<rparr>]\<rparr>"
  have "fire_or_track o' ?t ?v s = (if \<not> 0 < runningMax s then s
      else if armed s1 \<and> approachRatio o' * runningMax s1 \<le> ?v then ?fired
      else (case activeIdx s1 of Some i \<Rightarrow> if runningMax s1 < ?v then ?moved i else s1 | None \<Rightarrow> s1))"
    unfolding fire_or_track_def Let_def s1_def [symmetric] ..
  then consider (quiet) "fire_or_track o' ?t ?v s = s \<or> fire_or_track o' ?t ?v s = s1"
    | (fired) "0 < runningMax s1" "approachRatio o' * runningMax s1 \<le> ?v" "fire_or_track o' ?t ?v s = ?fired"
    | (moved) i where "activeIdx s1 = Some i" "runningMax s1 < ?v" "fire_or_track o' ?t ?v s = ?moved i"
    using s1(2) by (smt (verit) option.case_eq_if option.collapse)
  then show ?thesis
  proof cases
    case quiet
    then have "markers_sound ps side o' (fire_or_track o' ?t ?v s)" using assms(1) s1(1) by auto
    then show ?thesis by (rule ratchet_sound)
  next
    case fired
    then have "marker_ok ps side o' \<lparr>sm_t = ?t, sm_prevPeak = runningMax s1, sm_value = ?v, sm_pctOfPeak = ?v / runningMax s1\<rparr>"
      using assms(3,4) by (auto simp: marker_ok_def)
    then show ?thesis using s1(1) unfolding fired(3)
      by (auto simp: ratchet_def markers_sound_def index_ok_def nth_append)
  next
    case (moved i)
    let ?m = "su_out s1 ! i"
    have i: "i < length (su_out s1)" using s1(1) moved(1) by (simp add: markers_sound_def index_ok_def)
    then have m: "marker_ok ps side o' ?m" "sm_prevPeak ?m \<le> runningMax s1"
      using s1(1) moved(1) by (auto simp: markers_sound_def)
    then have "approachRatio o' * sm_prevPeak ?m \<le> 1 * sm_prevPeak ?m"
      using assms(2) by (intro mult_right_mono) (simp_all add: marker_ok_def)
    then have "approachRatio o' * sm_prevPeak ?m \<le> ?v" using m(2) moved(2) by simp
    then have ok: "marker_ok ps side o' \<lparr>sm_t = ?t, sm_prevPeak = sm_prevPeak ?m, sm_value = ?v, sm_pctOfPeak = ?v / sm_prevPeak ?m\<rparr>"
      using assms(3,4) m(1) by (auto simp: marker_ok_def)
    have "marker_ok ps side o' x" if "x \<in> set ((su_out s1)[i := \<lparr>sm_t = ?t, sm_prevPeak = sm_prevPeak ?m, sm_value = ?v,
        sm_pctOfPeak = ?v / sm_prevPeak ?m\<rparr>])" for x
      using that ok s1(1) set_update_subset_insert by (fastforce simp: markers_sound_def)
    then show ?thesis using s1(1) i m(2) moved(1,2) unfolding moved(3)
      by (auto simp: ratchet_def markers_sound_def index_ok_def)
  qed
qed

lemma step_sound:
  assumes "markers_sound ps side o' s" "approachRatio o' \<le> 1" "tickConfirmRatio o' = None" "p \<in> ps"
  shows "markers_sound ps side o' (surge_step side o' s p)"
proof -
  have "markers_sound ps side o' (new_day (tradingDayOf (qr_t p)) s)"
    using assms(1) by (auto simp: new_day_def markers_sound_def index_ok_def)
  moreover have "tick_correction o' p s' = s'" for s' by (simp add: tick_correction_def assms(3))
  ultimately show ?thesis
    using fire_sound [OF _ assms(2,4)] by (auto simp: surge_step_def Let_def)
qed

text \<open>
  Every surge marker is true: without the tick correction, each marker sits at a point of the series
  outside the closing auction, carries that point's total, was fired against a positive earlier peak of
  which the total reaches at least the approach ratio, and states their quotient; also after the marker
  has been moved to a later, higher point.
\<close>

lemma surge_markers_true:
  assumes "approachRatio o' \<le> 1" "tickConfirmRatio o' = None" "m \<in> set (detectSurgeSide points side o')"
  shows "marker_ok (set points) side o' m"
proof -
  have "markers_sound (set points) side o' (foldl (surge_step side o') s ps)"
    if "markers_sound (set points) side o' s" "set ps \<subseteq> set points" for s ps
    using that by (induction ps arbitrary: s) (simp_all add: step_sound [OF _ assms(1,2)])
  moreover have "markers_sound (set points) side o' surge_start"
    by (simp add: markers_sound_def surge_start_def index_ok_def)
  ultimately have "markers_sound (set points) side o' (foldl (surge_step side o') surge_start points)" by blast
  then show ?thesis using assms(3) by (simp add: detectSurgeSide_def markers_sound_def)
qed

definition quote_point :: "ms \<Rightarrow> rat \<Rightarrow> QuoteRatioPoint" where
  "quote_point t v = \<lparr>qr_t = t, qr_bid_total = v, qr_ask_total = v, qr_band_pct = 0, qr_tick = 0\<rparr>"

definition surge_opts :: DetectSurgesOpts where
  "surge_opts = \<lparr>approachRatio = 95 / 100, rearmRatio = 85 / 100, closingAuction = (\<lambda>_. False), tickConfirmRatio = None\<rparr>"

theorem surges_split_at_days_witness:
  "detectSurgeSide ([quote_point 0 100, quote_point 60000 80, quote_point 120000 99] @ [quote_point 86400000 50]) AskSide surge_opts
   = detectSurgeSide [quote_point 0 100, quote_point 60000 80, quote_point 120000 99] AskSide surge_opts
     @ detectSurgeSide [quote_point 86400000 50] AskSide surge_opts"
  by (rule surges_split_at_days) (simp_all add: quote_point_def tradingDayOf_def)

end
