(* ===== verification/OrderPrices.thy ===== *)
theory OrderPrices
  imports Complex_Main Prelude
begin

section \<open>Order prices and holding costs\<close>

text \<open>
  \<open>live/workspace/orderPriceRange.ts\<close>: the valid order prices between two limits, kept as bands of
  equal tick instead of a list, and \<open>live/workspace/orderRules.ts\<close>: the exact cost, profit and book
  marker of a holding. \<open>None\<close> is \<open>null\<close> or a number that is not a safe integer; \<open>BigInt\<close> is \<open>int\<close>.
\<close>

subsection \<open>live/workspace/orderPriceRange.ts\<close>

definition MAX_SAFE :: int where "MAX_SAFE = 2 ^ 53 - 1"

record Band =
  bd_lower :: int
  bd_upper :: int
  bd_tick :: int
  bd_count :: int

definition price_boundaries :: "bool \<Rightarrow> (int \<times> int \<times> int) list" where
  "price_boundaries stock = (if stock
     then [(1, 1999, 1), (2000, 4999, 5), (5000, 19999, 10), (20000, 49999, 50), (50000, 199999, 100),
           (200000, 499999, 500), (500000, 1000000000, 1000)]
     else [(1, 1999, 1), (2000, 1000000000, 5)])"

definition band_of :: "int \<Rightarrow> int \<Rightarrow> int \<times> int \<times> int \<Rightarrow> Band option" where
  "band_of lower upper b = (case b of (mn, mx, tick) \<Rightarrow>
     let lo = - ((- max lower mn) div tick) * tick; hi = min upper mx div tick * tick
     in if hi < lo then None else Some \<lparr>bd_lower = lo, bd_upper = hi, bd_tick = tick, bd_count = (hi - lo) div tick + 1\<rparr>)"

definition price_bands :: "int \<Rightarrow> int \<Rightarrow> bool \<Rightarrow> Band list" where
  "price_bands lower upper stock = rev (List.map_filter (band_of lower upper) (price_boundaries stock))"

definition bands_count :: "Band list \<Rightarrow> int" where
  "bands_count bands = sum_list (map bd_count bands)"

text \<open>The range is its bands, highest first, or \<open>null\<close>.\<close>

definition orderPriceRange :: "int option \<Rightarrow> int option \<Rightarrow> bool \<Rightarrow> Band list option" where
  "orderPriceRange lower upper stock = (case (lower, upper) of
     (Some lo, Some hi) \<Rightarrow>
       if lo \<le> 0 \<or> hi < lo \<or> 1000000000 < hi then None
       else (let bands = price_bands lo hi stock in if bands_count bands = 0 then None else Some bands)
   | _ \<Rightarrow> None)"

definition js_trunc :: "rat \<Rightarrow> int" where
  "js_trunc x = (if x < 0 then \<lceil>x\<rceil> else \<lfloor>x\<rfloor>)"

fun price_walk :: "Band list \<Rightarrow> int \<Rightarrow> int" where
  "price_walk [] remaining = 0"
| "price_walk [b] remaining = (if remaining < bd_count b then bd_upper b - remaining * bd_tick b else bd_lower b)"
| "price_walk (b # bs) remaining = (if remaining < bd_count b then bd_upper b - remaining * bd_tick b
     else price_walk bs (remaining - bd_count b))"

definition priceAt :: "Band list \<Rightarrow> rat \<Rightarrow> int" where
  "priceAt bands index = price_walk bands (max 0 (min (bands_count bands - 1) (js_trunc index)))"

text \<open>
  The quotient is exact; the code divides doubles, which gives the same ceiling for the whole prices its
  callers pass, and may not for a fraction just above a tick.
\<close>

fun index_walk :: "Band list \<Rightarrow> int \<Rightarrow> rat \<Rightarrow> int option" where
  "index_walk [] offset price = None"
| "index_walk (b # bs) offset price = (if of_int (bd_lower b) \<le> price
     then Some (offset + max 0 \<lceil>(of_int (bd_upper b) - price) / of_int (bd_tick b)\<rceil>)
     else index_walk bs (offset + bd_count b) price)"

definition indexOf :: "Band list \<Rightarrow> rat \<Rightarrow> int" where
  "indexOf bands price = (case index_walk bands 0 price of Some i \<Rightarrow> i | None \<Rightarrow> bands_count bands - 1)"

subsection \<open>The list the bands stand for\<close>

definition order_tick :: "bool \<Rightarrow> int \<Rightarrow> int" where
  "order_tick stock q = (if q < 2000 then 1 else if \<not> stock \<or> q < 5000 then 5 else if q < 20000 then 10
     else if q < 50000 then 50 else if q < 200000 then 100 else if q < 500000 then 500 else 1000)"

text \<open>The valid prices between the limits, highest first.\<close>

definition valid_prices :: "int \<Rightarrow> int \<Rightarrow> bool \<Rightarrow> int list" where
  "valid_prices lower upper stock = rev (filter (\<lambda>q. order_tick stock q dvd q) [lower..upper])"

definition band_prices :: "Band \<Rightarrow> int list" where
  "band_prices b = map (\<lambda>k. bd_upper b - int k * bd_tick b) [0..<nat (bd_count b)]"

definition bands_prices :: "Band list \<Rightarrow> int list" where
  "bands_prices bands = concat (map band_prices bands)"

definition band_ok :: "Band \<Rightarrow> bool" where
  "band_ok b \<longleftrightarrow> 0 < bd_tick b \<and> bd_lower b \<le> bd_upper b \<and> bd_tick b dvd bd_lower b \<and> bd_tick b dvd bd_upper b
     \<and> bd_count b = (bd_upper b - bd_lower b) div bd_tick b + 1"

definition bands_ok :: "Band list \<Rightarrow> bool" where
  "bands_ok bands \<longleftrightarrow> list_all band_ok bands \<and> sorted_wrt (\<lambda>b c. bd_upper c < bd_lower b) bands"

lemma band_span:
  assumes "band_ok b"
  shows "bd_upper b - bd_lower b = (bd_count b - 1) * bd_tick b" "1 \<le> bd_count b"
proof -
  have "bd_tick b dvd bd_upper b - bd_lower b" using assms by (simp add: band_ok_def dvd_diff)
  then have "(bd_upper b - bd_lower b) div bd_tick b * bd_tick b = bd_upper b - bd_lower b" by (rule dvd_div_mult_self)
  moreover have "bd_count b - 1 = (bd_upper b - bd_lower b) div bd_tick b" using assms unfolding band_ok_def by linarith
  ultimately show "bd_upper b - bd_lower b = (bd_count b - 1) * bd_tick b" by metis
  show "1 \<le> bd_count b" using assms by (simp add: band_ok_def zdiv_mono1)
qed

lemma band_prices_set:
  assumes "band_ok b"
  shows "q \<in> set (band_prices b) \<longleftrightarrow> bd_lower b \<le> q \<and> q \<le> bd_upper b \<and> bd_tick b dvd q"
proof
  assume "q \<in> set (band_prices b)"
  then obtain k where k: "k < nat (bd_count b)" "q = bd_upper b - int k * bd_tick b" by (auto simp: band_prices_def)
  then have "int k * bd_tick b \<le> (bd_count b - 1) * bd_tick b" using assms by (intro mult_right_mono) (auto simp: band_ok_def)
  then have "bd_lower b \<le> q" using k(2) band_span(1) [OF assms] by linarith
  then show "bd_lower b \<le> q \<and> q \<le> bd_upper b \<and> bd_tick b dvd q"
    using k(2) assms by (simp add: band_ok_def dvd_diff)
next
  assume q: "bd_lower b \<le> q \<and> q \<le> bd_upper b \<and> bd_tick b dvd q"
  have t: "0 < bd_tick b" using assms by (simp add: band_ok_def)
  let ?k = "(bd_upper b - q) div bd_tick b"
  have "bd_tick b dvd bd_upper b - q" using q assms by (simp add: band_ok_def dvd_diff)
  then have k: "bd_upper b - q = ?k * bd_tick b" by simp
  then have "?k * bd_tick b \<le> (bd_count b - 1) * bd_tick b" using q band_span(1) [OF assms] by linarith
  then have "?k \<le> bd_count b - 1" using t by (simp add: mult_le_cancel_right)
  moreover have "0 \<le> ?k" using q t by (simp add: pos_imp_zdiv_nonneg_iff)
  ultimately show "q \<in> set (band_prices b)"
    using k by (auto simp: band_prices_def intro!: image_eqI [of _ _ "nat ?k"])
qed

lemma band_prices_desc: "band_ok b \<Longrightarrow> sorted_wrt (>) (band_prices b)"
  by (auto simp: band_prices_def sorted_wrt_iff_nth_less band_ok_def)

lemma bands_prices_desc: "bands_ok bands \<Longrightarrow> sorted_wrt (>) (bands_prices bands)"
proof (induction bands)
  case (Cons b bs)
  have "x > y" if "x \<in> set (band_prices b)" "y \<in> set (bands_prices bs)" for x y
    using that Cons.prems band_prices_set by (fastforce simp: bands_prices_def bands_ok_def list_all_iff)
  then show ?case using Cons band_prices_desc [of b] by (simp add: bands_prices_def bands_ok_def sorted_wrt_append)
qed (simp add: bands_prices_def)

lemma bands_count_length: "list_all band_ok bands \<Longrightarrow> bands_count bands = int (length (bands_prices bands))"
  by (induction bands) (auto simp: bands_count_def bands_prices_def band_prices_def dest: band_span)

lemma bands_prices_Cons [simp]: "bands_prices (b # bs) = band_prices b @ bands_prices bs" "bands_prices [] = []"
  by (simp_all add: bands_prices_def)

lemma band_prices_length [simp]: "length (band_prices b) = nat (bd_count b)"
  by (simp add: band_prices_def)

lemma band_prices_nth: "int i < bd_count b \<Longrightarrow> band_prices b ! i = bd_upper b - int i * bd_tick b"
  by (simp add: band_prices_def zless_nat_eq_int_zless)

lemma price_walk_nth:
  "list_all band_ok bands \<Longrightarrow> i < length (bands_prices bands) \<Longrightarrow> price_walk bands (int i) = bands_prices bands ! i"
proof (induction bands arbitrary: i)
  case (Cons b bs)
  show ?case
  proof (cases "int i < bd_count b")
    case True
    then have "price_walk (b # bs) (int i) = bd_upper b - int i * bd_tick b" by (cases bs) simp_all
    moreover have "i < nat (bd_count b)" using True by simp
    ultimately show ?thesis using band_prices_nth [OF True] by (simp add: nth_append)
  next
    case False
    then have i: "int i - bd_count b = int (i - nat (bd_count b))" "\<not> i < nat (bd_count b)"
      using band_span(2) [of b] Cons.prems(1) by simp_all
    then have "bs \<noteq> []" using Cons.prems(2) by (auto)
    then have "price_walk (b # bs) (int i) = price_walk bs (int i - bd_count b)" using False by (cases bs) simp_all
    also have "\<dots> = bands_prices bs ! (i - nat (bd_count b))"
      using Cons.IH [of "i - nat (bd_count b)"] Cons.prems i by simp
    finally show ?thesis using i(2) by (simp add: nth_append)
  qed
qed simp

text \<open>How many prices lie above a target.\<close>

definition above :: "rat \<Rightarrow> int list \<Rightarrow> nat" where
  "above price qs = length (filter (\<lambda>q. price < of_int q) qs)"

lemma above_append [simp]: "above p (xs @ ys) = above p xs + above p ys"
  by (simp add: above_def)

lemma above_all: "(\<And>q. q \<in> set qs \<Longrightarrow> p < of_int q) \<Longrightarrow> above p qs = length qs"
  by (simp add: above_def)

lemma above_none: "(\<And>q. q \<in> set qs \<Longrightarrow> of_int q \<le> p) \<Longrightarrow> above p qs = 0"
  by (auto simp: above_def filter_empty_conv not_less)

text \<open>In a band that reaches down to the target they are counted by one division.\<close>

lemma filter_less_upt: "m \<le> n \<Longrightarrow> filter (\<lambda>k. k < m) [0..<n] = [0..<m]"
  by (induction n) (auto simp: le_Suc_eq)

lemma band_above:
  assumes b: "band_ok b" and p: "of_int (bd_lower b) \<le> p"
  shows "int (above p (band_prices b)) = max 0 \<lceil>(of_int (bd_upper b) - p) / of_int (bd_tick b)\<rceil>"
proof -
  let ?c = "\<lceil>(of_int (bd_upper b) - p) / of_int (bd_tick b)\<rceil>"
  have t: "(0 :: rat) < of_int (bd_tick b)" using b by (simp add: band_ok_def)
  have above: "p < of_int (bd_upper b - int k * bd_tick b) \<longleftrightarrow> int k < ?c" for k
  proof -
    have "int k < ?c \<longleftrightarrow> (of_int (int k) :: rat) < (of_int (bd_upper b) - p) / of_int (bd_tick b)" by (simp add: less_ceiling_iff)
    also have "\<dots> \<longleftrightarrow> of_int (int k) * of_int (bd_tick b) < of_int (bd_upper b) - p" using t by (simp add: pos_less_divide_eq)
    also have "\<dots> \<longleftrightarrow> p < of_int (bd_upper b - int k * bd_tick b)" by auto
    finally show ?thesis by blast
  qed
  have "(of_int (bd_upper b) - p) / of_int (bd_tick b) \<le> of_int (bd_count b - 1)"
  proof -
    have "of_int (bd_upper b) - p \<le> of_int (bd_upper b - bd_lower b)" using p by simp
    also have "\<dots> = of_int (bd_count b - 1) * of_int (bd_tick b)" by (simp only: band_span(1) [OF b] of_int_mult)
    finally show ?thesis using t by (simp add: pos_divide_le_eq)
  qed
  then have c: "?c \<le> bd_count b - 1" by (simp only: ceiling_le_iff)
  have "filter (\<lambda>q. p < of_int q) (band_prices b) = take (nat ?c) (band_prices b)"
  proof -
    have "filter (\<lambda>k. int k < ?c) [0..<nat (bd_count b)] = [0..<nat ?c]"
      using c filter_less_upt [of "nat ?c" "nat (bd_count b)"] by (simp add: zless_nat_eq_int_zless)
    then show ?thesis using c above by (simp add: band_prices_def filter_map comp_def take_map)
  qed
  then show ?thesis using c band_span(2) [OF b] by (simp add: above_def)
qed

lemma index_walk_above:
  assumes "bands_ok bands"
  shows "index_walk bands offset p = (if \<exists>b \<in> set bands. of_int (bd_lower b) \<le> p
     then Some (offset + int (above p (bands_prices bands))) else None)"
  using assms
proof (induction bands arbitrary: offset)
  case (Cons b bs)
  then have ok: "band_ok b" "bands_ok bs" "list_all band_ok bs" "\<And>c. c \<in> set bs \<Longrightarrow> bd_upper c < bd_lower b"
    by (auto simp: bands_ok_def)
  show ?case
  proof (cases "of_int (bd_lower b) \<le> p")
    case True
    have "of_int q \<le> p" if q: "q \<in> set (bands_prices bs)" for q
    proof -
      obtain c where c: "c \<in> set bs" "q \<in> set (band_prices c)" using q by (auto simp: bands_prices_def)
      then have "q < bd_lower b" using ok(3) ok(4) [OF c(1)] band_prices_set [of c q] by (auto simp: list_all_iff)
      then have "(of_int q :: rat) < of_int (bd_lower b)" by simp
      then show ?thesis using True by (rule less_le_trans [THEN less_imp_le])
    qed
    then show ?thesis using True band_above [OF ok(1) True] by (simp add: above_none)
  next
    case False
    have "p < of_int q" if q: "q \<in> set (band_prices b)" for q
    proof -
      have "(of_int (bd_lower b) :: rat) \<le> of_int q" using q band_prices_set [OF ok(1)] by simp
      then show ?thesis using False by (simp add: not_le less_le_trans)
    qed
    then have "int (above p (band_prices b)) = bd_count b"
      using band_span(2) [OF ok(1)] by (simp add: above_all)
    then show ?thesis using False Cons.IH [OF ok(2)] by (auto simp: add.assoc)
  qed
qed simp

lemma band_of_spec:
  assumes "0 < tick"
  shows "case band_of lower upper (mn, mx, tick) of
     Some b \<Rightarrow> band_ok b \<and> mn \<le> bd_lower b \<and> bd_upper b \<le> mx
       \<and> (\<forall>q. q \<in> set (band_prices b) \<longleftrightarrow> lower \<le> q \<and> q \<le> upper \<and> mn \<le> q \<and> q \<le> mx \<and> tick dvd q)
   | None \<Rightarrow> (\<forall>q. \<not> (lower \<le> q \<and> q \<le> upper \<and> mn \<le> q \<and> q \<le> mx \<and> tick dvd q))"
proof -
  define lo where "lo = - ((- max lower mn) div tick) * tick"
  define hi where "hi = min upper mx div tick * tick"
  have lo: "lo \<le> q \<longleftrightarrow> max lower mn \<le> q" if "tick dvd q" for q
    using multiple_above [OF assms that, of "max lower mn"] round_to_multiple(2) [OF assms, of "max lower mn"]
    unfolding lo_def by linarith
  have hi: "q \<le> hi \<longleftrightarrow> q \<le> min upper mx" if "tick dvd q" for q
    using multiple_below [OF assms that, of "min upper mx"] round_to_multiple(1) [OF assms, of "min upper mx"]
    unfolding hi_def by linarith
  have dvd: "tick dvd lo" "tick dvd hi" by (simp_all add: lo_def hi_def)
  have span: "lo \<le> q \<and> q \<le> hi \<and> tick dvd q \<longleftrightarrow> lower \<le> q \<and> q \<le> upper \<and> mn \<le> q \<and> q \<le> mx \<and> tick dvd q" for q
    using lo [of q] hi [of q] by auto
  show ?thesis
  proof (cases "hi < lo")
    case True
    then have "\<not> (lo \<le> q \<and> q \<le> hi \<and> tick dvd q)" for q by auto
    then have "\<not> (lower \<le> q \<and> q \<le> upper \<and> mn \<le> q \<and> q \<le> mx \<and> tick dvd q)" for q unfolding span .
    moreover have "band_of lower upper (mn, mx, tick) = None"
      unfolding band_of_def Let_def prod.case lo_def [symmetric] hi_def [symmetric] using True by simp
    ultimately show ?thesis by simp
  next
    case False
    let ?b = "\<lparr>bd_lower = lo, bd_upper = hi, bd_tick = tick, bd_count = (hi - lo) div tick + 1\<rparr>"
    have ok: "band_ok ?b" using False assms dvd by (simp add: band_ok_def)
    have "mn \<le> lo" "hi \<le> mx" using lo [OF dvd(1)] hi [OF dvd(2)] by simp_all
    then have "band_ok ?b \<and> mn \<le> bd_lower ?b \<and> bd_upper ?b \<le> mx
       \<and> (\<forall>q. q \<in> set (band_prices ?b) \<longleftrightarrow> lower \<le> q \<and> q \<le> upper \<and> mn \<le> q \<and> q \<le> mx \<and> tick dvd q)"
      using ok band_prices_set [OF ok] span by simp
    moreover have "band_of lower upper (mn, mx, tick) = Some ?b"
      unfolding band_of_def Let_def prod.case lo_def [symmetric] hi_def [symmetric] using False by simp
    ultimately show ?thesis by simp
  qed
qed

lemma bands_of_boundaries:
  assumes "sorted_wrt (\<lambda>a b. fst (snd a) < fst b) bs" "list_all (\<lambda>(mn, mx, t). 0 < t) bs"
  shows "bands_ok (rev (List.map_filter (band_of lower upper) bs))
    \<and> (\<forall>q. q \<in> set (bands_prices (rev (List.map_filter (band_of lower upper) bs)))
         \<longleftrightarrow> lower \<le> q \<and> q \<le> upper \<and> (\<exists>(mn, mx, t) \<in> set bs. mn \<le> q \<and> q \<le> mx \<and> t dvd q))
    \<and> (\<forall>b \<in> set (List.map_filter (band_of lower upper) bs). \<exists>(mn, mx, t) \<in> set bs. mn \<le> bd_lower b \<and> bd_upper b \<le> mx)"
  using assms
proof (induction bs)
  case (Cons b bs)
  obtain mn mx t where b: "b = (mn, mx, t)" by (cases b)
  have later: "mx < mn'" if "(mn', mx', t') \<in> set bs" for mn' mx' t' using Cons.prems(1) that by (force simp: b)
  let ?rest = "rev (List.map_filter (band_of lower upper) bs)"
  have IH: "bands_ok ?rest" "\<And>q. q \<in> set (bands_prices ?rest)
         \<longleftrightarrow> lower \<le> q \<and> q \<le> upper \<and> (\<exists>(mn, mx, t) \<in> set bs. mn \<le> q \<and> q \<le> mx \<and> t dvd q)"
    "\<And>c. c \<in> set ?rest \<Longrightarrow> \<exists>(mn, mx, t) \<in> set bs. mn \<le> bd_lower c \<and> bd_upper c \<le> mx"
    using Cons by simp_all
  have spec: "case band_of lower upper (mn, mx, t) of
     Some b \<Rightarrow> band_ok b \<and> mn \<le> bd_lower b \<and> bd_upper b \<le> mx
       \<and> (\<forall>q. q \<in> set (band_prices b) \<longleftrightarrow> lower \<le> q \<and> q \<le> upper \<and> mn \<le> q \<and> q \<le> mx \<and> t dvd q)
   | None \<Rightarrow> (\<forall>q. \<not> (lower \<le> q \<and> q \<le> upper \<and> mn \<le> q \<and> q \<le> mx \<and> t dvd q))"
    using Cons.prems(2) by (intro band_of_spec) (simp add: b)
  show ?case
  proof (cases "band_of lower upper (mn, mx, t)")
    case None
    then show ?thesis using spec IH by (auto simp: b List.map_filter_simps)
  next
    case (Some c)
    have c: "band_ok c" "mn \<le> bd_lower c" "bd_upper c \<le> mx"
      "\<And>q. q \<in> set (band_prices c) \<longleftrightarrow> lower \<le> q \<and> q \<le> upper \<and> mn \<le> q \<and> q \<le> mx \<and> t dvd q"
      using spec Some by auto
    have "bd_upper c < bd_lower d" if d: "d \<in> set ?rest" for d
      using IH(3) [OF d] later c(3) by fastforce
    then have "bands_ok (?rest @ [c])" using IH(1) c(1) by (simp add: bands_ok_def sorted_wrt_append)
    moreover have "bands_prices (?rest @ [c]) = bands_prices ?rest @ band_prices c" by (simp add: bands_prices_def)
    ultimately show ?thesis using IH(2,3) c Some by (auto simp: b List.map_filter_simps)
  qed
qed (simp add: bands_ok_def List.map_filter_simps)

lemma boundaries_grid:
  assumes "1 \<le> q" "q \<le> 1000000000"
  shows "(\<exists>(mn, mx, t) \<in> set (price_boundaries stock). mn \<le> q \<and> q \<le> mx \<and> t dvd q) \<longleftrightarrow> order_tick stock q dvd q"
  using assms unfolding price_boundaries_def order_tick_def by (cases stock) auto

lemma descending_unique:
  fixes xs ys :: "int list"
  assumes "sorted_wrt (>) xs" "sorted_wrt (>) ys" "set xs = set ys"
  shows "xs = ys"
proof -
  have "sorted_wrt (<) (rev xs)" "sorted_wrt (<) (rev ys)" using assms(1,2) by (simp_all add: sorted_wrt_rev)
  then have "rev xs = rev ys" using assms(3) by (metis set_rev strict_sorted_equal)
  then show ?thesis by simp
qed

text \<open>The bands stand for exactly the valid prices.\<close>

lemma bands_are_valid_prices:
  assumes "0 < lower" "upper \<le> 1000000000"
  shows "bands_ok (price_bands lower upper stock)" "bands_prices (price_bands lower upper stock) = valid_prices lower upper stock"
proof -
  have "sorted_wrt (\<lambda>a b. fst (snd a) < fst b) (price_boundaries stock)" "list_all (\<lambda>(mn, mx, t). 0 < t) (price_boundaries stock)"
    by (simp_all add: price_boundaries_def)
  note B = bands_of_boundaries [OF this, of lower upper, folded price_bands_def]
  then show ok: "bands_ok (price_bands lower upper stock)" by blast
  show "bands_prices (price_bands lower upper stock) = valid_prices lower upper stock"
  proof (rule descending_unique)
    show "sorted_wrt (>) (bands_prices (price_bands lower upper stock))" by (rule bands_prices_desc [OF ok])
    show "sorted_wrt (>) (valid_prices lower upper stock)"
      by (simp add: valid_prices_def sorted_wrt_rev sorted_wrt_filter)
    have "q \<in> set (bands_prices (price_bands lower upper stock)) \<longleftrightarrow> lower \<le> q \<and> q \<le> upper \<and> order_tick stock q dvd q" for q
    proof (cases "lower \<le> q \<and> q \<le> upper")
      case True
      then have "1 \<le> q" "q \<le> 1000000000" using assms by simp_all
      then show ?thesis using B boundaries_grid [of q stock] True by simp
    next
      case False
      then show ?thesis using B by blast
    qed
    then show "set (bands_prices (price_bands lower upper stock)) = set (valid_prices lower upper stock)"
      by (auto simp: valid_prices_def)
  qed
qed

text \<open>
  C12. The order price range is the list of valid prices without ever building it: between positive
  limits of at most a billion won, the number of prices, the price at every index and the index of
  every target (the nearest valid price at or below it, or the lowest) are what the descending list of
  all prices on the KRX tick grid gives.
\<close>

theorem order_prices_refine_list:
  assumes "orderPriceRange (Some lower) (Some upper) stock = Some bands"
  shows "bands_count bands = int (length (valid_prices lower upper stock))
    \<and> (\<forall>i < length (valid_prices lower upper stock). priceAt bands (of_nat i) = valid_prices lower upper stock ! i)
    \<and> indexOf bands target = (if \<exists>q \<in> set (valid_prices lower upper stock). of_int q \<le> target
         then int (above target (valid_prices lower upper stock)) else bands_count bands - 1)"
proof -
  have bands: "bands = price_bands lower upper stock" "0 < lower" "upper \<le> 1000000000" "bands_count bands \<noteq> 0"
    using assms by (auto simp: orderPriceRange_def Let_def split: if_splits)
  note V = bands_are_valid_prices [OF bands(2,3), of stock, folded bands(1)]
  have ok: "list_all band_ok bands" using V(1) by (simp add: bands_ok_def)
  have n: "bands_count bands = int (length (valid_prices lower upper stock))" using bands_count_length [OF ok] V(2) by simp
  have "priceAt bands (of_nat i) = valid_prices lower upper stock ! i" if i: "i < length (valid_prices lower upper stock)" for i
  proof -
    have "js_trunc (of_nat i) = int i" by (simp add: js_trunc_def)
    then have "priceAt bands (of_nat i) = price_walk bands (int i)" using i n by (simp add: priceAt_def)
    then show ?thesis using price_walk_nth [OF ok, of i] i V(2) by simp
  qed
  moreover have "(\<exists>b \<in> set bands. of_int (bd_lower b) \<le> target) \<longleftrightarrow> (\<exists>q \<in> set (valid_prices lower upper stock). of_int q \<le> target)"
  proof
    assume "\<exists>b \<in> set bands. of_int (bd_lower b) \<le> target"
    then obtain b where b: "b \<in> set bands" "of_int (bd_lower b) \<le> target" by blast
    then have "bd_lower b \<in> set (band_prices b)"
      using ok band_prices_set [of b "bd_lower b"] by (auto simp: list_all_iff band_ok_def)
    then have "bd_lower b \<in> set (bands_prices bands)" using b(1) by (auto simp: bands_prices_def)
    then show "\<exists>q \<in> set (valid_prices lower upper stock). of_int q \<le> target" using b(2) V(2) by auto
  next
    assume "\<exists>q \<in> set (valid_prices lower upper stock). of_int q \<le> target"
    then obtain q where q: "q \<in> set (bands_prices bands)" "of_int q \<le> target" using V(2) by auto
    then obtain b where "b \<in> set bands" "q \<in> set (band_prices b)" by (auto simp: bands_prices_def)
    moreover from this have "bd_lower b \<le> q" using ok band_prices_set [of b q] by (auto simp: list_all_iff)
    ultimately show "\<exists>b \<in> set bands. of_int (bd_lower b) \<le> target"
      using q(2) by (intro bexI [of _ b]) (auto intro: order_trans [of _ "of_int q"])
  qed
  ultimately show ?thesis using n V by (simp add: indexOf_def index_walk_above)
qed

subsection \<open>live/workspace/orderRules.ts\<close>

text \<open>A match of \<open>/^(\d+)(?:\.(\d+))?$/\<close>: the two groups, an absent fraction as the empty text.\<close>

definition parse_decimal :: "string \<Rightarrow> (string \<times> string) option" where
  "parse_decimal s = (let whole = takeWhile is_digit s; rest = dropWhile is_digit s
     in if whole = [] then None
        else if rest = [] then Some (whole, [])
        else if hd rest = CHR ''.'' \<and> tl rest \<noteq> [] \<and> list_all is_digit (tl rest) then Some (whole, tl rest)
        else None)"

definition digits_value :: "string \<Rightarrow> int" where
  "digits_value s = (case js_number s of Some n \<Rightarrow> n | None \<Rightarrow> 0)"

record HoldingCost =
  hc_amount :: int
  hc_scale :: int
  hc_quantity :: int

definition safe_integer :: "int \<Rightarrow> bool" where
  "safe_integer n \<longleftrightarrow> - MAX_SAFE \<le> n \<and> n \<le> MAX_SAFE"

definition exactHoldingCost :: "int option \<Rightarrow> string option \<Rightarrow> HoldingCost option" where
  "exactHoldingCost quantity averagePrice = (case (quantity, averagePrice) of
     (Some q, Some price) \<Rightarrow>
       if \<not> safe_integer q \<or> q < 1 \<or> 128 < length price then None
       else (case parse_decimal price of
           None \<Rightarrow> None
         | Some (whole, fraction) \<Rightarrow>
             (let scale = 10 ^ length fraction; cost = digits_value whole * scale + digits_value fraction
              in Some \<lparr>hc_amount = cost * q, hc_scale = scale, hc_quantity = q\<rparr>))
   | _ \<Rightarrow> None)"

definition displayed_prices :: "int option list \<Rightarrow> int list" where
  "displayed_prices prices = filter (\<lambda>p. safe_integer p \<and> 0 < p) (List.map_filter (\<lambda>p. p) prices)"

record BookMarker =
  bm_price :: "int option"
  bm_outside :: bool

definition holdingBookMarker :: "int option \<Rightarrow> string option \<Rightarrow> int option list \<Rightarrow> bool \<Rightarrow> BookMarker" where
  "holdingBookMarker quantity averagePrice prices stock =
     (let hidden = \<lparr>bm_price = None, bm_outside = False\<rparr> in
      case exactHoldingCost quantity averagePrice of
        None \<Rightarrow> hidden
      | Some cost \<Rightarrow> if hc_amount cost \<le> 0 then hidden
          else (let scale = hc_scale cost * hc_quantity cost; displayed = displayed_prices prices in
            if displayed = [] then hidden
            else if hc_amount cost < Min (set displayed) * scale \<or> Max (set displayed) * scale < hc_amount cost
              then \<lparr>bm_price = None, bm_outside = True\<rparr>
            else (case orderPriceRange (Some 1) (Some 1000000000) stock of
                None \<Rightarrow> hidden
              | Some grid \<Rightarrow> if hc_amount cost < scale \<or> 1000000000 * scale < hc_amount cost then hidden
                  else (let index = indexOf grid (of_int (hc_amount cost div scale));
                            lower = priceAt grid (of_int index); upper = priceAt grid (of_int (index - 1));
                            anchor = (if hc_amount cost - lower * scale \<le> upper * scale - hc_amount cost then lower else upper)
                        in \<lparr>bm_price = (if anchor \<in> set displayed then Some anchor else None), bm_outside = False\<rparr>))))"

text \<open>Truncating division and remainder of \<open>BigInt\<close> (the divisor is positive).\<close>

definition big_div :: "int \<Rightarrow> int \<Rightarrow> int" where
  "big_div a b = (if a < 0 then - ((- a) div b) else a div b)"

definition safe_or_null :: "int \<Rightarrow> int option" where
  "safe_or_null n = (if safe_integer n then Some n else None)"

definition ceilWon :: "int \<Rightarrow> int \<Rightarrow> int option" where
  "ceilWon amount scale = safe_or_null (big_div amount scale + (if 0 < js_rem amount scale then 1 else 0))"

definition holdingPurchaseAmountWon :: "int option \<Rightarrow> string option \<Rightarrow> int option" where
  "holdingPurchaseAmountWon quantity averagePrice = (if quantity = Some 0 then Some 0
     else (case exactHoldingCost quantity averagePrice of None \<Rightarrow> None | Some c \<Rightarrow> ceilWon (hc_amount c) (hc_scale c)))"

definition unrealized :: "HoldingCost \<Rightarrow> int \<Rightarrow> int \<Rightarrow> int" where
  "unrealized c price sellCostsWon = (price * hc_quantity c - sellCostsWon) * hc_scale c - hc_amount c"

definition valid_price :: "int option \<Rightarrow> bool" where
  "valid_price price \<longleftrightarrow> (case price of None \<Rightarrow> False | Some p \<Rightarrow> safe_integer p \<and> 0 < p)"

definition holdingProfitWon :: "int option \<Rightarrow> int option \<Rightarrow> string option \<Rightarrow> int \<Rightarrow> int option" where
  "holdingProfitWon quantity price averagePrice sellCostsWon =
     (if \<not> safe_integer sellCostsWon \<or> sellCostsWon < 0 then None
      else if quantity = Some 0 then Some 0
      else if \<not> valid_price price then None
      else (case exactHoldingCost quantity averagePrice of
          None \<Rightarrow> None
        | Some c \<Rightarrow> ceilWon (unrealized c (the price) sellCostsWon) (hc_scale c)))"

definition holdingProfitPercent :: "int option \<Rightarrow> int option \<Rightarrow> string option \<Rightarrow> int \<Rightarrow> rat option" where
  "holdingProfitPercent quantity price averagePrice sellCostsWon =
     (if \<not> safe_integer sellCostsWon \<or> sellCostsWon < 0 then None
      else if \<not> valid_price price then None
      else (case exactHoldingCost quantity averagePrice of
          None \<Rightarrow> None
        | Some c \<Rightarrow> if hc_amount c \<le> 0 then None
            else (let profit = unrealized c (the price) sellCostsWon; magnitude = \<bar>profit\<bar>;
                      hundredths = (magnitude * 10000 * 2 + hc_amount c) div (hc_amount c * 2)
                  in map_option (\<lambda>r. of_int r / 100) (safe_or_null (if profit < 0 then - hundredths else hundredths)))))"

subsection \<open>The figures are exact\<close>

text \<open>The decimal the text denotes.\<close>

definition decimal_value :: "string \<Rightarrow> rat option" where
  "decimal_value s = map_option (\<lambda>(whole, fraction). of_int (digits_value whole) + of_int (digits_value fraction) / 10 ^ length fraction)
     (parse_decimal s)"

lemma cost_value:
  assumes "exactHoldingCost (Some q) (Some s) = Some c"
  shows "hc_quantity c = q" "0 < q" "0 < hc_scale c" "\<exists>a. decimal_value s = Some a \<and> of_int (hc_amount c) = a * of_int q * of_int (hc_scale c)"
proof -
  obtain whole fraction where p: "parse_decimal s = Some (whole, fraction)" "1 \<le> q"
    "c = \<lparr>hc_amount = (digits_value whole * 10 ^ length fraction + digits_value fraction) * q, hc_scale = 10 ^ length fraction, hc_quantity = q\<rparr>"
    using assms by (auto simp: exactHoldingCost_def Let_def split: if_splits option.splits)
  then show "hc_quantity c = q" "0 < q" "0 < hc_scale c" by simp_all
  show "\<exists>a. decimal_value s = Some a \<and> of_int (hc_amount c) = a * of_int q * of_int (hc_scale c)"
  proof (intro exI conjI)
    let ?a = "of_int (digits_value whole) + of_int (digits_value fraction) / 10 ^ length fraction :: rat"
    show "decimal_value s = Some ?a" using p(1) by (simp add: decimal_value_def)
    have "?a * 10 ^ length fraction = of_int (digits_value whole) * 10 ^ length fraction + of_int (digits_value fraction)"
      by (simp add: distrib_right)
    then show "of_int (hc_amount c) = ?a * of_int q * of_int (hc_scale c)"
      using p(3) by (simp add: mult.commute mult.left_commute)
  qed
qed

lemma ceil_won:
  assumes "0 < scale" "ceilWon amount scale = Some w"
  shows "w = \<lceil>(of_int amount :: rat) / of_int scale\<rceil>"
proof -
  have "big_div amount scale + (if 0 < js_rem amount scale then 1 else 0) = - ((- amount) div scale)"
  proof (cases "amount < 0")
    case True
    have "(- amount) mod scale \<ge> 0" using assms(1) by simp
    then show ?thesis using True by (simp add: big_div_def js_rem_def)
  next
    case False
    have "0 \<le> amount mod scale" using assms(1) by simp
    then have "0 < amount mod scale \<longleftrightarrow> amount mod scale \<noteq> 0" by linarith
    then show ?thesis
      using False assms(1) zdiv_zminus1_eq_if [of scale amount] by (simp only: big_div_def js_rem_def if_False) simp
  qed
  then have "w = - ((- amount) div scale)" using assms(2) by (simp add: ceilWon_def safe_or_null_def split: if_splits)
  also have "\<dots> = \<lceil>(of_int amount :: rat) / of_int scale\<rceil>"
    by (simp add: ceiling_def floor_divide_of_int_eq [symmetric, where ?'a = rat])
  finally show ?thesis .
qed

text \<open>
  C30. The figures of a holding are exact: whatever decimal the broker gives as average price, the
  purchase amount is the least whole won not below quantity times average, and the unrealized profit is
  the least whole won not below its exact value after costs, with no rounding in between.
\<close>

theorem holding_amounts_exact:
  assumes "decimal_value s = Some a" "0 < q"
  shows "(holdingPurchaseAmountWon (Some q) (Some s) = Some w \<longrightarrow> w = \<lceil>a * of_int q\<rceil>)
    \<and> (holdingProfitWon (Some q) (Some price) (Some s) costs = Some w \<longrightarrow> w = \<lceil>of_int price * of_int q - of_int costs - a * of_int q\<rceil>)"
proof -
  have purchase: "w = \<lceil>a * of_int q\<rceil>" if pw: "holdingPurchaseAmountWon (Some q) (Some s) = Some w"
  proof -
    obtain c where c: "exactHoldingCost (Some q) (Some s) = Some c" "ceilWon (hc_amount c) (hc_scale c) = Some w"
      using pw assms(2) by (cases "exactHoldingCost (Some q) (Some s)") (auto simp: holdingPurchaseAmountWon_def)
    note v = cost_value [OF c(1)]
    have "(of_int (hc_amount c) :: rat) / of_int (hc_scale c) = a * of_int q" using v(3,4) assms(1) by auto
    then show ?thesis using ceil_won [OF v(3) c(2)] by simp
  qed
  have profit: "w = \<lceil>of_int price * of_int q - of_int costs - a * of_int q\<rceil>"
    if p: "holdingProfitWon (Some q) (Some price) (Some s) costs = Some w"
  proof -
    obtain c where c: "exactHoldingCost (Some q) (Some s) = Some c" "ceilWon (unrealized c price costs) (hc_scale c) = Some w"
      using p assms(2) by (cases "exactHoldingCost (Some q) (Some s)") (auto simp: holdingProfitWon_def split: if_splits)
    note v = cost_value [OF c(1)]
    have "(of_int (unrealized c price costs) :: rat) / of_int (hc_scale c) = of_int price * of_int q - of_int costs - a * of_int q"
      using v assms(1) by (auto simp: unrealized_def field_simps)
    then show ?thesis using ceil_won [OF v(3) c(2)] by simp
  qed
  show ?thesis using purchase profit by blast
qed

lemma round_half:
  fixes m a :: int
  assumes "0 < a"
  shows "\<bar>of_int ((m * 10000 * 2 + a) div (a * 2)) - 10000 * of_int m / of_int a\<bar> \<le> (1 / 2 :: rat)"
proof -
  have a: "(0 :: rat) < of_int a" using assms by simp
  have "(of_int ((m * 10000 * 2 + a) div (a * 2)) :: rat) = of_int \<lfloor>(of_int (m * 10000 * 2 + a) :: rat) / of_int (a * 2)\<rfloor>"
    by (simp only: floor_divide_of_int_eq)
  also have "(of_int (m * 10000 * 2 + a) :: rat) / of_int (a * 2) = 10000 * of_int m / of_int a + 1 / 2"
    using a by (simp add: field_simps)
  finally show ?thesis
    using of_int_floor_le [of "10000 * (of_int m :: rat) / of_int a + 1 / 2"] floor_correct [of "10000 * (of_int m :: rat) / of_int a + 1 / 2"]
    by linarith
qed

text \<open>
  The profit percentage of a holding is its exact unrealized profit over its exact cost, off by at
  most half a hundredth of a percent, for gains and losses alike.
\<close>

lemma profit_percent_rounds:
  assumes "decimal_value s = Some a" "holdingProfitPercent (Some q) (Some price) (Some s) costs = Some r"
  shows "\<bar>r - 100 * (of_int price * of_int q - of_int costs - a * of_int q) / (a * of_int q)\<bar> \<le> 1 / 200"
proof -
  obtain c where c: "exactHoldingCost (Some q) (Some s) = Some c" and pos: "0 < hc_amount c"
    and r: "r = (let profit = unrealized c price costs; h = (\<bar>profit\<bar> * 10000 * 2 + hc_amount c) div (hc_amount c * 2)
        in of_int (if profit < 0 then - h else h) / 100)"
    using assms(2) by (cases "exactHoldingCost (Some q) (Some s)")
      (auto simp: holdingProfitPercent_def Let_def safe_or_null_def split: if_splits)
  let ?p = "unrealized c price costs"
  note v = cost_value [OF c]
  have scale: "(0 :: rat) < of_int (hc_scale c)" using v(3) by simp
  have p: "of_int ?p = (of_int price * of_int q - of_int costs - a * of_int q) * of_int (hc_scale c)"
    using v assms(1) by (auto simp: unrealized_def algebra_simps)
  have am: "of_int (hc_amount c) = a * of_int q * of_int (hc_scale c)" using v(4) assms(1) by auto
  have quotient: "of_int ?p / of_int (hc_amount c) = (of_int price * of_int q - of_int costs - a * of_int q) / (a * of_int q)"
    unfolding p am using scale by simp
  define h where "h = (\<bar>?p\<bar> * 10000 * 2 + hc_amount c) div (hc_amount c * 2)"
  have half: "\<bar>of_int h - 10000 * \<bar>of_int ?p\<bar> / of_int (hc_amount c)\<bar> \<le> (1 / 2 :: rat)"
    using round_half [OF pos, of "\<bar>?p\<bar>"] by (simp add: h_def)
  have "\<bar>of_int (if ?p < 0 then - h else h) - 10000 * of_int ?p / of_int (hc_amount c)\<bar> \<le> (1 / 2 :: rat)"
  proof (cases "?p < 0")
    case True
    then have "10000 * \<bar>of_int ?p\<bar> / of_int (hc_amount c) = - (10000 * of_int ?p / of_int (hc_amount c) :: rat)" by simp
    moreover have "\<bar>- x - y\<bar> = \<bar>x + y\<bar>" for x y :: rat by (simp add: abs_if)
    ultimately show ?thesis using half True by simp
  next
    case False
    then show ?thesis using half by simp
  qed
  then have "\<bar>r - 100 * (of_int ?p / of_int (hc_amount c))\<bar> \<le> 1 / 200"
    unfolding r Let_def h_def [symmetric] by linarith
  then show ?thesis unfolding quotient by simp
qed

subsection \<open>The book marker sits on the nearest price\<close>

lemma above_index:
  assumes "sorted_wrt (>) qs" "\<exists>q \<in> set qs. of_int q \<le> p"
  shows "above p qs < length qs" "of_int (qs ! above p qs) \<le> p" "\<And>i. i < above p qs \<Longrightarrow> p < of_int (qs ! i)"
proof -
  have "above p qs < length qs \<and> of_int (qs ! above p qs) \<le> p \<and> (\<forall>i < above p qs. p < of_int (qs ! i))"
    using assms
  proof (induction qs)
    case (Cons q qs)
    show ?case
    proof (cases "of_int q \<le> p")
      case True
      have "of_int x \<le> p" if "x \<in> set qs" for x
      proof -
        have "x < q" using Cons.prems(1) that by simp
        then show ?thesis using True by (meson less_imp_le of_int_less_iff order_trans)
      qed
      then have "above p (q # qs) = 0" using True by (intro above_none) auto
      then show ?thesis using True by simp
    next
      case False
      then have "above p (q # qs) = Suc (above p qs)" by (simp add: above_def)
      then show ?thesis using Cons False by (auto simp: less_Suc_eq_0_disj)
    qed
  qed simp
  then show "above p qs < length qs" "of_int (qs ! above p qs) \<le> p" "\<And>i. i < above p qs \<Longrightarrow> p < of_int (qs ! i)" by auto
qed

lemma valid_prices_desc: "sorted_wrt (>) (valid_prices lower upper stock)"
  by (simp add: valid_prices_def sorted_wrt_rev sorted_wrt_filter)

text \<open>The two grid prices around a target, by index.\<close>

lemma grid_neighbours:
  assumes grid: "orderPriceRange (Some lower) (Some upper) stock = Some bands"
    and reach: "\<exists>q \<in> set (valid_prices lower upper stock). of_int q \<le> target"
  defines "lo \<equiv> priceAt bands (of_int (indexOf bands target))" and "hi \<equiv> priceAt bands (of_int (indexOf bands target - 1))"
  shows "lo \<in> set (valid_prices lower upper stock)" "of_int lo \<le> target"
    and "hi \<in> set (valid_prices lower upper stock)" "lo \<le> hi"
    and "q \<in> set (valid_prices lower upper stock) \<Longrightarrow> q \<le> lo \<or> hi \<le> q"
    and "hi = lo \<Longrightarrow> q \<in> set (valid_prices lower upper stock) \<Longrightarrow> q \<le> lo"
    and "hi \<noteq> lo \<Longrightarrow> target < of_int hi"
proof -
  let ?qs = "valid_prices lower upper stock"
  let ?i = "above target ?qs"
  note R = order_prices_refine_list [OF grid, of target]
  have idx: "indexOf bands target = int ?i" using R reach by simp
  note A = above_index [OF valid_prices_desc reach]
  have at: "priceAt bands (of_nat i) = ?qs ! i" if "i < length ?qs" for i using R that by blast
  have "priceAt bands (of_int (int ?i - 1)) = ?qs ! (?i - 1)"
  proof (cases ?i)
    case 0
    have "js_trunc (of_int (-1)) = -1" "js_trunc (of_nat 0) = 0" by (simp_all add: js_trunc_def ceiling_def)
    then have "priceAt bands (of_int (-1)) = priceAt bands (of_nat 0)" using R A(1) by (simp add: priceAt_def)
    then show ?thesis using at [of 0] A(1) 0 by simp
  next
    case (Suc k)
    then show ?thesis using at [of k] A(1) by simp
  qed
  then have hi: "hi = ?qs ! (?i - 1)" and lo: "lo = ?qs ! ?i"
    using at [OF A(1)] by (simp_all add: hi_def lo_def idx)
  show "lo \<in> set ?qs" "of_int lo \<le> target" "hi \<in> set ?qs" using A(1,2) by (simp_all add: hi lo)
  have desc: "i < j \<Longrightarrow> j < length ?qs \<Longrightarrow> ?qs ! j < ?qs ! i" for i j
    using valid_prices_desc [of lower upper stock] by (simp add: sorted_wrt_iff_nth_less)
  show "lo \<le> hi" using desc [of "?i - 1" ?i] A(1) by (cases ?i) (auto simp: hi lo)
  show "q \<le> lo \<or> hi \<le> q" if "q \<in> set ?qs"
  proof -
    obtain j where j: "j < length ?qs" "q = ?qs ! j" using \<open>q \<in> set ?qs\<close> by (auto simp: in_set_conv_nth)
    show ?thesis
    proof (cases "j < ?i")
      case True
      then have "j = ?i - 1 \<or> j < ?i - 1" "?i - 1 < length ?qs" using A(1) by linarith+
      then show ?thesis using desc [of j "?i - 1"] A(1) j(2) by (auto simp: hi)
    next
      case False
      then show ?thesis using desc [of ?i j] j by (cases "j = ?i") (auto simp: lo)
    qed
  qed
  show "target < of_int hi" if "hi \<noteq> lo"
  proof (cases ?i)
    case 0
    then show ?thesis using that by (simp add: hi lo)
  next
    case (Suc k)
    then show ?thesis using A(3) [of k] by (simp add: hi)
  qed
  show "q \<le> lo" if "hi = lo" "q \<in> set ?qs"
  proof -
    have "?i = 0" using desc [of "?i - 1" ?i] A(1) \<open>hi = lo\<close> by (cases ?i) (auto simp: hi lo)
    then obtain j where "j < length ?qs" "q = ?qs ! j" using \<open>q \<in> set ?qs\<close> by (auto simp: in_set_conv_nth)
    then show ?thesis using desc [of 0 j] \<open>?i = 0\<close> by (cases "j = 0") (auto simp: lo)
  qed
qed

text \<open>
  The mark of a holding in the order book is the valid price nearest to its exact average cost,
  compared as exact decimals, and the lower one of two that are equally near.
\<close>

lemma marker_on_nearest_price:
  assumes "decimal_value s = Some a" "bm_price (holdingBookMarker (Some q) (Some s) prices stock) = Some m"
    and "v \<in> set (valid_prices 1 1000000000 stock)"
  shows "\<bar>a - of_int m\<bar> < \<bar>a - of_int v\<bar> \<or> \<bar>a - of_int m\<bar> = \<bar>a - of_int v\<bar> \<and> m \<le> v"
proof -
  obtain c where c: "exactHoldingCost (Some q) (Some s) = Some c"
    using assms(2) by (cases "exactHoldingCost (Some q) (Some s)") (auto simp: holdingBookMarker_def)
  let ?scale = "hc_scale c * hc_quantity c"
  obtain grid where grid: "orderPriceRange (Some 1) (Some 1000000000) stock = Some grid"
    and low: "?scale \<le> hc_amount c"
    and m: "m = (let index = indexOf grid (of_int (hc_amount c div ?scale)); lower = priceAt grid (of_int index);
        upper = priceAt grid (of_int (index - 1))
        in if hc_amount c - lower * ?scale \<le> upper * ?scale - hc_amount c then lower else upper)"
    using assms(2) c
    by (cases "orderPriceRange (Some 1) (Some 1000000000) stock") (auto simp: holdingBookMarker_def Let_def not_less split: if_splits)
  note cv = cost_value [OF c]
  have scale: "0 < ?scale" "(0 :: rat) < of_int ?scale" using cv(1-3) by simp_all
  have amount: "(of_int (hc_amount c) :: rat) = a * of_int ?scale" using cv(1,4) assms(1) by auto
  let ?t = "hc_amount c div ?scale"
  have "(of_int (hc_amount c) :: rat) / of_int ?scale = a" using amount scale(2) by (metis less_irrefl nonzero_mult_div_cancel_right)
  then have t: "?t = \<lfloor>a\<rfloor>" using floor_divide_of_int_eq [of "hc_amount c" ?scale, where ?'a = rat] by metis
  have "1 \<le> a" using low scale(2) amount by (metis mult_le_cancel_right_pos mult_1 of_int_le_iff)
  moreover have "1 \<in> set (valid_prices 1 1000000000 stock)" by (simp add: valid_prices_def order_tick_def)
  ultimately have reach: "\<exists>q \<in> set (valid_prices 1 1000000000 stock). of_int q \<le> (of_int ?t :: rat)"
    using t by (intro bexI [of _ 1]) (simp_all add: le_floor_iff)
  define lo where "lo = priceAt grid (of_int (indexOf grid (of_int ?t)))"
  define hi where "hi = priceAt grid (of_int (indexOf grid (of_int ?t) - 1))"
  note N = grid_neighbours [OF grid reach, folded lo_def hi_def]
  have lo_a: "of_int lo \<le> a" using N(2) t by (simp add: le_floor_iff)
  have m': "m = (if hc_amount c - lo * ?scale \<le> hi * ?scale - hc_amount c then lo else hi)"
    using m by (simp add: Let_def lo_def hi_def)
  have "hc_amount c - lo * ?scale \<le> hi * ?scale - hc_amount c \<longleftrightarrow> (of_int (hc_amount c - lo * ?scale) :: rat) \<le> of_int (hi * ?scale - hc_amount c)"
    by (simp only: of_int_le_iff)
  also have "\<dots> \<longleftrightarrow> (a - of_int lo) * of_int ?scale \<le> (of_int hi - a) * of_int ?scale" using amount by (simp add: algebra_simps)
  also have "\<dots> \<longleftrightarrow> a - of_int lo \<le> of_int hi - a" using scale(2) by (rule mult_le_cancel_right_pos)
  finally have m'': "m = (if a - of_int lo \<le> of_int hi - a then lo else hi)" using m' by simp
  show ?thesis
  proof (cases "hi = lo")
    case True
    then have "(of_int v :: rat) \<le> of_int lo" using N(6) [OF True assms(3)] by simp
    then show ?thesis using m'' True lo_a by (cases "v = lo") auto
  next
    case False
    have "a < of_int hi"
    proof -
      have "\<lfloor>a\<rfloor> < hi" using N(7) [OF False] t by simp
      then show ?thesis by (simp add: floor_less_iff)
    qed
    moreover have "(of_int v :: rat) \<le> of_int lo \<or> of_int hi \<le> (of_int v :: rat)" using N(5) [OF assms(3)] by simp
    moreover have "m = lo \<and> a - of_int lo \<le> of_int hi - a \<or> m = hi \<and> of_int hi - a < a - of_int lo" using m'' by auto
    moreover have "(of_int m :: rat) \<le> of_int v \<longleftrightarrow> m \<le> v" by simp
    ultimately show ?thesis using lo_a by (elim disjE conjE) (simp_all, linarith+)
  qed
qed

subsection \<open>Concrete instances\<close>

definition edge_bands :: "Band list" where
  "edge_bands = [\<lparr>bd_lower = 2000, bd_upper = 2010, bd_tick = 5, bd_count = 3\<rparr>, \<lparr>bd_lower = 1998, bd_upper = 1999, bd_tick = 1, bd_count = 2\<rparr>]"

lemma edge_range: "orderPriceRange (Some 1998) (Some 2012) True = Some edge_bands"
  by (simp add: orderPriceRange_def price_bands_def price_boundaries_def band_of_def bands_count_def edge_bands_def List.map_filter_def)

theorem order_prices_refine_list_witness:
  "bands_count edge_bands = int (length (valid_prices 1998 2012 True))
    \<and> priceAt edge_bands (of_nat 3) = valid_prices 1998 2012 True ! 3
    \<and> indexOf edge_bands 2007 = int (above 2007 (valid_prices 1998 2012 True))"
proof -
  have prices: "valid_prices 1998 2012 True = [2010, 2005, 2000, 1999, 1998]"
    by (simp add: valid_prices_def order_tick_def upto.simps)
  note R = order_prices_refine_list [OF edge_range, of 2007]
  have "3 < length (valid_prices 1998 2012 True)" "2000 \<in> set (valid_prices 1998 2012 True)" by (simp_all add: prices)
  moreover from this(2) have "\<exists>q \<in> set (valid_prices 1998 2012 True). of_int q \<le> (2007 :: rat)"
    by (intro bexI [of _ 2000]) simp_all
  ultimately show ?thesis using R by meson
qed

definition broker_average :: string where "broker_average = ''70100.5''"

lemma broker_average_value: "decimal_value broker_average = Some (70100 + 1 / 2)"
  by code_simp

lemma broker_cost: "exactHoldingCost (Some 3) (Some broker_average) = Some \<lparr>hc_amount = 2103015, hc_scale = 10, hc_quantity = 3\<rparr>"
  by code_simp

theorem holding_amounts_exact_witness:
  "holdingPurchaseAmountWon (Some 3) (Some broker_average) = Some 210302 \<and> 210302 = \<lceil>(70100 + 1 / 2) * rat_of_int 3\<rceil>"
proof
  show w: "holdingPurchaseAmountWon (Some 3) (Some broker_average) = Some 210302"
    by (simp add: holdingPurchaseAmountWon_def broker_cost ceilWon_def safe_or_null_def safe_integer_def MAX_SAFE_def big_div_def js_rem_def)
  show "210302 = \<lceil>(70100 + 1 / 2) * rat_of_int 3\<rceil>"
    using holding_amounts_exact [OF broker_average_value, of 3 210302 0 0] w by simp
qed

lemma broker_percent: "holdingProfitPercent (Some 3) (Some 71000) (Some broker_average) 0 = Some (128 / 100)"
  by (simp add: holdingProfitPercent_def broker_cost unrealized_def valid_price_def safe_or_null_def safe_integer_def MAX_SAFE_def Let_def)

lemma broker_marker: "bm_price (holdingBookMarker (Some 3) (Some broker_average) [Some 70100, Some 70200] True) = Some 70100"
  by (simp add: holdingBookMarker_def broker_cost displayed_prices_def List.map_filter_def safe_integer_def MAX_SAFE_def
      orderPriceRange_def price_bands_def price_boundaries_def band_of_def bands_count_def indexOf_def priceAt_def js_trunc_def Let_def)

end
