(* ===== verification/VisibleExtremes.thy ===== *)
theory VisibleExtremes
  imports Complex_Main VirtualAxis "HOL-Library.Product_Lexorder" "HOL-Library.Multiset"
begin

section \<open>Extremes of the visible candles\<close>

text \<open>
  \<open>live/visibleExtremes.ts\<close>: the highest and lowest candle in view with their gap to the last close,
  and the extremes of the days before the last visible one; once as two loops over all candles, once
  as a reader that keeps the projected points of an axis in order and answers from the visible slice.
  The arrays of candles and the axes are immutable objects the reader compares by identity: a number
  stands for the object, a function gives its content. A gap that is not a finite number is \<open>None\<close>.
\<close>

record vx_candle =
  vc_ts_ms :: ms
  vc_high :: rat
  vc_low :: rat
  vc_close :: rat

record Extreme =
  ex_price :: rat
  ex_pct :: "rat option"
  ex_virtualSec :: rat

record VisibleExtremes =
  ve_high :: Extreme
  ve_low :: Extreme

record PriorDaysExtremes =
  pe_high :: rat
  pe_low :: rat

record Ref =
  rf_price :: rat
  rf_virtualSec :: rat

definition gap :: "rat \<Rightarrow> rat \<Rightarrow> rat option" where
  "gap basis extreme = (if extreme = 0 then None else Some ((basis - extreme) / extreme * 100))"

definition virtual_sec :: "VirtualAxis \<Rightarrow> vx_candle \<Rightarrow> rat" where
  "virtual_sec ax c = of_int (toVirtual ax (vc_ts_ms c)) / 1000"

subsection \<open>The two loops\<close>

text \<open>The variables of \<open>computeVisibleExtremes\<close>; the last is the time and close of the basis.\<close>

type_synonym extremes_loop = "Ref option \<times> Ref option \<times> (rat \<times> rat) option"

definition extremes_step :: "VirtualAxis \<Rightarrow> rat \<Rightarrow> rat \<Rightarrow> extremes_loop \<Rightarrow> vx_candle \<Rightarrow> extremes_loop" where
  "extremes_step ax frm to st c = (case st of (high, low, basis) \<Rightarrow>
     if \<not> contains ax (vc_ts_ms c) then st
     else (let sec = virtual_sec ax c in
       if sec < frm \<or> to < sec then st
       else (if high = None \<or> rf_price (the high) < vc_high c then Some \<lparr>rf_price = vc_high c, rf_virtualSec = sec\<rparr> else high,
             if low = None \<or> vc_low c < rf_price (the low) then Some \<lparr>rf_price = vc_low c, rf_virtualSec = sec\<rparr> else low,
             if basis = None \<or> fst (the basis) < sec then Some (sec, vc_close c) else basis)))"

definition extremes_of :: "extremes_loop \<Rightarrow> VisibleExtremes option" where
  "extremes_of st = (case st of
     (Some high, Some low, Some (_, close)) \<Rightarrow>
       Some \<lparr>ve_high = \<lparr>ex_price = rf_price high, ex_pct = gap close (rf_price high), ex_virtualSec = rf_virtualSec high\<rparr>,
             ve_low = \<lparr>ex_price = rf_price low, ex_pct = gap close (rf_price low), ex_virtualSec = rf_virtualSec low\<rparr>\<rparr>
   | _ \<Rightarrow> None)"

definition computeVisibleExtremes :: "vx_candle list \<Rightarrow> VirtualAxis \<Rightarrow> (rat \<times> rat) option \<Rightarrow> VisibleExtremes option" where
  "computeVisibleExtremes candles ax visibleRange = (case visibleRange of
     None \<Rightarrow> None
   | Some (frm, to) \<Rightarrow> if candles = [] then None
       else extremes_of (foldl (extremes_step ax frm to) (None, None, None) candles))"

definition visible :: "VirtualAxis \<Rightarrow> rat \<Rightarrow> rat \<Rightarrow> vx_candle \<Rightarrow> bool" where
  "visible ax frm to c \<longleftrightarrow> contains ax (vc_ts_ms c) \<and> frm \<le> virtual_sec ax c \<and> virtual_sec ax c \<le> to"

definition last_visible_step :: "VirtualAxis \<Rightarrow> rat \<Rightarrow> rat \<Rightarrow> (rat \<times> ms) option \<Rightarrow> vx_candle \<Rightarrow> (rat \<times> ms) option" where
  "last_visible_step ax frm to best c =
     (if \<not> visible ax frm to c then best
      else if best = None \<or> fst (the best) < virtual_sec ax c then Some (virtual_sec ax c, vc_ts_ms c) else best)"

definition prior_step :: "VirtualAxis \<Rightarrow> rat \<Rightarrow> rat \<Rightarrow> ms \<Rightarrow> rat option \<times> rat option \<Rightarrow> vx_candle \<Rightarrow> rat option \<times> rat option" where
  "prior_step ax frm to cutoffMs st c = (case st of (high, low) \<Rightarrow>
     if cutoffMs \<le> vc_ts_ms c \<or> \<not> visible ax frm to c then st
     else (if high = None \<or> the high < vc_high c then Some (vc_high c) else high,
           if low = None \<or> vc_low c < the low then Some (vc_low c) else low))"

definition computePriorDaysExtremes :: "vx_candle list \<Rightarrow> VirtualAxis \<Rightarrow> (rat \<times> rat) option \<Rightarrow> PriorDaysExtremes option" where
  "computePriorDaysExtremes candles ax visibleRange = (case visibleRange of
     None \<Rightarrow> None
   | Some (frm, to) \<Rightarrow> if candles = [] then None
       else (case foldl (last_visible_step ax frm to) None candles of
           None \<Rightarrow> None
         | Some (_, lastTsMs) \<Rightarrow>
             (let segIdx = findByReal ax lastTsMs in
              if segIdx < 0 then None
              else (case foldl (prior_step ax frm to (sessionOpenMs (segments ax ! nat segIdx))) (None, None) candles of
                  (Some high, Some low) \<Rightarrow> Some \<lparr>pe_high = high, pe_low = low\<rparr>
                | _ \<Rightarrow> None))))"

subsection \<open>The reader\<close>

record vx_point =
  vp_candle :: vx_candle
  vp_sec :: rat
  vp_order :: nat

record VisibleReader =
  vr_candlesRef :: "nat option"
  vr_axisRef :: "nat option"
  vr_points :: "vx_point list"
  vr_cached :: "((rat \<times> rat) \<times> VisibleExtremes option \<times> PriorDaysExtremes option) option"

definition createVisibleExtremesReader :: VisibleReader where
  "createVisibleExtremesReader = \<lparr>vr_candlesRef = None, vr_axisRef = None, vr_points = [], vr_cached = None\<rparr>"

definition project_points :: "VirtualAxis \<Rightarrow> vx_candle list \<Rightarrow> vx_point list" where
  "project_points ax candles =
     (let points = map (\<lambda>(order, c). \<lparr>vp_candle = c, vp_sec = virtual_sec ax c, vp_order = order\<rparr>)
            (filter (\<lambda>(order, c). contains ax (vc_ts_ms c)) (enumerate 0 candles))
      in if sorted (map vp_sec points) then points else sort_key vp_sec points)"

definition point_bound :: "vx_point list \<Rightarrow> rat \<Rightarrow> bool \<Rightarrow> nat" where
  "point_bound points time inclusive =
     first_fail (\<lambda>i. vp_sec (points ! i) < time \<or> inclusive \<and> vp_sec (points ! i) = time) 0 (length points)"

text \<open>The loop of the three selections keeps the first of the best points; \<open>better p q\<close> replaces \<open>q\<close>.\<close>

definition keep_better :: "('a \<Rightarrow> 'a \<Rightarrow> bool) \<Rightarrow> 'a option \<Rightarrow> 'a \<Rightarrow> 'a option" where
  "keep_better better best p = (case best of None \<Rightarrow> Some p | Some q \<Rightarrow> if better p q then Some p else best)"

definition higher :: "vx_point \<Rightarrow> vx_point \<Rightarrow> bool" where
  "higher p q \<longleftrightarrow> vc_high (vp_candle q) < vc_high (vp_candle p)
     \<or> vc_high (vp_candle p) = vc_high (vp_candle q) \<and> vp_order p < vp_order q"

definition lower :: "vx_point \<Rightarrow> vx_point \<Rightarrow> bool" where
  "lower p q \<longleftrightarrow> vc_low (vp_candle p) < vc_low (vp_candle q)
     \<or> vc_low (vp_candle p) = vc_low (vp_candle q) \<and> vp_order p < vp_order q"

definition later :: "vx_point \<Rightarrow> vx_point \<Rightarrow> bool" where
  "later p q \<longleftrightarrow> vp_sec q < vp_sec p \<or> vp_sec p = vp_sec q \<and> vp_order p < vp_order q"

definition point_extremes :: "vx_point option \<Rightarrow> vx_point option \<Rightarrow> vx_point option \<Rightarrow> VisibleExtremes option" where
  "point_extremes high low last' = (case (high, low, last') of
     (Some h, Some l, Some z) \<Rightarrow>
       Some \<lparr>ve_high = \<lparr>ex_price = vc_high (vp_candle h), ex_pct = gap (vc_close (vp_candle z)) (vc_high (vp_candle h)), ex_virtualSec = vp_sec h\<rparr>,
             ve_low = \<lparr>ex_price = vc_low (vp_candle l), ex_pct = gap (vc_close (vp_candle z)) (vc_low (vp_candle l)), ex_virtualSec = vp_sec l\<rparr>\<rparr>
   | _ \<Rightarrow> None)"

definition widen_prior :: "ms \<Rightarrow> PriorDaysExtremes option \<Rightarrow> vx_point \<Rightarrow> PriorDaysExtremes option" where
  "widen_prior open' prior p = (let c = vp_candle p in
     if open' \<le> vc_ts_ms c then prior
     else (case prior of
         Some x \<Rightarrow> Some \<lparr>pe_high = max (pe_high x) (vc_high c), pe_low = min (pe_low x) (vc_low c)\<rparr>
       | None \<Rightarrow> Some \<lparr>pe_high = vc_high c, pe_low = vc_low c\<rparr>))"

definition slice_answer :: "VirtualAxis \<Rightarrow> vx_point list \<Rightarrow> VisibleExtremes option \<times> PriorDaysExtremes option" where
  "slice_answer ax seen =
     (let last' = foldl (keep_better later) None seen
      in (point_extremes (foldl (keep_better higher) None seen) (foldl (keep_better lower) None seen) last',
          case (case last' of Some z \<Rightarrow> js_at (segments ax) (findByReal ax (vc_ts_ms (vp_candle z))) | None \<Rightarrow> None) of
            Some segment \<Rightarrow> foldl (widen_prior (sessionOpenMs segment)) None seen
          | None \<Rightarrow> None))"

definition read_extremes :: "(nat \<Rightarrow> vx_candle list) \<Rightarrow> (nat \<Rightarrow> VirtualAxis) \<Rightarrow> nat \<Rightarrow> nat \<Rightarrow> (rat \<times> rat) option
    \<Rightarrow> VisibleReader \<Rightarrow> (VisibleExtremes option \<times> PriorDaysExtremes option) \<times> VisibleReader" where
  "read_extremes arrays axes candles ax visibleRange s =
     (let s1 = (if Some candles \<noteq> vr_candlesRef s \<or> Some ax \<noteq> vr_axisRef s
          then \<lparr>vr_candlesRef = Some candles, vr_axisRef = Some ax,
                vr_points = project_points (axes ax) (arrays candles), vr_cached = None\<rparr> else s)
      in case visibleRange of
        None \<Rightarrow> ((None, None), s1)
      | Some r \<Rightarrow>
          (case (case vr_cached s1 of Some (cached, answer) \<Rightarrow> if cached = r then Some answer else None | None \<Rightarrow> None) of
             Some answer \<Rightarrow> (answer, s1)
           | None \<Rightarrow> (let first' = point_bound (vr_points s1) (fst r) False; end' = point_bound (vr_points s1) (snd r) True;
                         answer = slice_answer (axes ax) (drop first' (take end' (vr_points s1)))
                     in (answer, s1\<lparr>vr_cached := Some (r, answer)\<rparr>))))"

subsection \<open>Selections do not depend on the order of the points\<close>

lemma keep_better_simps [simp]:
  "keep_better better None p = Some p"
  "keep_better better (Some q) p = (if better p q then Some p else Some q)"
  by (simp_all add: keep_better_def)

lemma keep_better_spec:
  fixes rank :: "'a \<Rightarrow> 'k::linorder"
  assumes "xs \<noteq> []"
  obtains p where "foldl (keep_better (\<lambda>p q. rank p < rank q)) None xs = Some p"
    and "p \<in> set xs" and "\<And>q. q \<in> set xs \<Longrightarrow> rank p \<le> rank q"
proof -
  have "\<exists>p. foldl (keep_better (\<lambda>p q. rank p < rank q)) None xs = Some p \<and> p \<in> set xs \<and> (\<forall>q \<in> set xs. rank p \<le> rank q)"
    using assms
  proof (induction xs rule: rev_induct)
    case (snoc x xs)
    show ?case
    proof (cases "xs = []")
      case False
      then obtain p where p: "foldl (keep_better (\<lambda>p q. rank p < rank q)) None xs = Some p" "p \<in> set xs"
          "\<forall>q \<in> set xs. rank p \<le> rank q" using snoc.IH by blast
      show ?thesis
        by (cases "rank x < rank p") (use p in \<open>auto intro: order_trans less_imp_le\<close>)
    qed simp
  qed simp
  then show thesis using that by blast
qed

lemma keep_better_perm:
  fixes rank :: "'a \<Rightarrow> 'k::linorder"
  assumes "set xs = set ys" "inj_on rank (set xs)"
  shows "foldl (keep_better (\<lambda>p q. rank p < rank q)) None xs = foldl (keep_better (\<lambda>p q. rank p < rank q)) None ys"
proof (cases "xs = []")
  case False
  then have "ys \<noteq> []" using assms(1) by auto
  obtain p where p: "foldl (keep_better (\<lambda>p q. rank p < rank q)) None xs = Some p" "p \<in> set xs"
    "\<And>q. q \<in> set xs \<Longrightarrow> rank p \<le> rank q" using keep_better_spec [OF False] by metis
  obtain q where q: "foldl (keep_better (\<lambda>p q. rank p < rank q)) None ys = Some q" "q \<in> set ys"
    "\<And>p. p \<in> set ys \<Longrightarrow> rank q \<le> rank p" using keep_better_spec [OF \<open>ys \<noteq> []\<close>] by metis
  have "rank p = rank q" using p q assms(1) by (simp add: order_antisym)
  then have "p = q" using p(2) q(2) assms by (auto dest: inj_onD)
  then show ?thesis using p(1) q(1) by simp
next
  case True
  then show ?thesis using assms(1) by simp
qed

text \<open>On points in their original order the tie-break is what a strict comparison does.\<close>

lemma keep_first:
  fixes rank :: "vx_point \<Rightarrow> 'k::linorder"
  assumes "sorted_wrt (\<lambda>p q. vp_order p < vp_order q) xs"
  shows "foldl (keep_better (\<lambda>p q. rank p < rank q)) None xs
    = foldl (keep_better (\<lambda>p q. (rank p, vp_order p) < (rank q, vp_order q))) None xs"
  using assms
proof (induction xs rule: rev_induct)
  case (snoc x xs)
  show ?case
  proof (cases "xs = []")
    case False
    obtain p where p: "foldl (keep_better (\<lambda>p q. rank p < rank q)) None xs = Some p" "p \<in> set xs"
      using keep_better_spec [OF False] by metis
    have "vp_order p < vp_order x" using snoc.prems p(2) by (auto simp: sorted_wrt_append)
    moreover have "foldl (keep_better (\<lambda>p q. (rank p, vp_order p) < (rank q, vp_order q))) None xs = Some p"
      using snoc p(1) by (simp add: sorted_wrt_append)
    ultimately show ?thesis using p(1) by (simp add: less_prod_simp)
  qed simp
qed simp

lemma better_ranks:
  "higher = (\<lambda>p q. (- vc_high (vp_candle p), vp_order p) < (- vc_high (vp_candle q), vp_order q))"
  "lower = (\<lambda>p q. (vc_low (vp_candle p), vp_order p) < (vc_low (vp_candle q), vp_order q))"
  "later = (\<lambda>p q. (- vp_sec p, vp_order p) < (- vp_sec q, vp_order q))"
  by (auto simp: fun_eq_iff higher_def lower_def later_def less_prod_simp)

subsection \<open>The loops as selections\<close>

definition seen_points :: "VirtualAxis \<Rightarrow> rat \<Rightarrow> rat \<Rightarrow> nat \<Rightarrow> vx_candle list \<Rightarrow> vx_point list" where
  "seen_points ax frm to n candles = map (\<lambda>(order, c). \<lparr>vp_candle = c, vp_sec = virtual_sec ax c, vp_order = order\<rparr>)
     (filter (\<lambda>(order, c). visible ax frm to c) (enumerate n candles))"

lemma seen_simps [simp]:
  "seen_points ax frm to n [] = []"
  "seen_points ax frm to n (c # cs) = (if visible ax frm to c
     then \<lparr>vp_candle = c, vp_sec = virtual_sec ax c, vp_order = n\<rparr> # seen_points ax frm to (Suc n) cs
     else seen_points ax frm to (Suc n) cs)"
  by (simp_all add: seen_points_def)

lemma seen_order: "sorted_wrt (\<lambda>p q. vp_order p < vp_order q) (seen_points ax frm to n cs)"
proof (induction cs arbitrary: n)
  case (Cons c cs)
  have "n < vp_order q" if "q \<in> set (seen_points ax frm to (Suc n) cs)" for q
    using that by (auto simp: seen_points_def in_set_enumerate_eq)
  then show ?case using Cons.IH [of "Suc n"] by simp
qed simp

abbreviation high_ref :: "vx_point \<Rightarrow> Ref" where
  "high_ref p \<equiv> \<lparr>rf_price = vc_high (vp_candle p), rf_virtualSec = vp_sec p\<rparr>"

abbreviation low_ref :: "vx_point \<Rightarrow> Ref" where
  "low_ref p \<equiv> \<lparr>rf_price = vc_low (vp_candle p), rf_virtualSec = vp_sec p\<rparr>"

lemma extremes_loop:
  "foldl (extremes_step ax frm to) (map_option high_ref h, map_option low_ref l, map_option (\<lambda>p. (vp_sec p, vc_close (vp_candle p))) b) cs
   = (map_option high_ref (foldl (keep_better (\<lambda>p q. - vc_high (vp_candle p) < - vc_high (vp_candle q))) h (seen_points ax frm to n cs)),
      map_option low_ref (foldl (keep_better (\<lambda>p q. vc_low (vp_candle p) < vc_low (vp_candle q))) l (seen_points ax frm to n cs)),
      map_option (\<lambda>p. (vp_sec p, vc_close (vp_candle p)))
        (foldl (keep_better (\<lambda>p q. - vp_sec p < - vp_sec q)) b (seen_points ax frm to n cs)))"
proof (induction cs arbitrary: n h l b)
  case (Cons c cs)
  let ?p = "\<lparr>vp_candle = c, vp_sec = virtual_sec ax c, vp_order = n\<rparr>"
  show ?case
  proof (cases "visible ax frm to c")
    case True
    have "extremes_step ax frm to (map_option high_ref h, map_option low_ref l, map_option (\<lambda>p. (vp_sec p, vc_close (vp_candle p))) b) c
      = (map_option high_ref (keep_better (\<lambda>p q. - vc_high (vp_candle p) < - vc_high (vp_candle q)) h ?p),
         map_option low_ref (keep_better (\<lambda>p q. vc_low (vp_candle p) < vc_low (vp_candle q)) l ?p),
         map_option (\<lambda>p. (vp_sec p, vc_close (vp_candle p))) (keep_better (\<lambda>p q. - vp_sec p < - vp_sec q) b ?p))"
      using True by (cases h; cases l; cases b) (auto simp: extremes_step_def visible_def Let_def)
    then show ?thesis using True Cons.IH by simp
  next
    case False
    then have "extremes_step ax frm to st c = st" for st
      by (cases st) (auto simp: extremes_step_def visible_def Let_def)
    then show ?thesis using False Cons.IH by simp
  qed
qed simp

lemma seen_inj: "inj_on (\<lambda>p. (f p, vp_order p)) (set (seen_points ax frm to n cs))"
proof -
  have "sorted_wrt (<) (map vp_order (seen_points ax frm to n cs))" using seen_order by (simp add: sorted_wrt_map)
  then have "inj_on vp_order (set (seen_points ax frm to n cs))" by (simp add: strict_sorted_iff distinct_map)
  then show ?thesis by (auto simp: inj_on_def)
qed

lemma strict_selections:
  "foldl (keep_better (\<lambda>p q. - vc_high (vp_candle p) < - vc_high (vp_candle q))) None (seen_points ax frm to n cs)
    = foldl (keep_better higher) None (seen_points ax frm to n cs)"
  "foldl (keep_better (\<lambda>p q. vc_low (vp_candle p) < vc_low (vp_candle q))) None (seen_points ax frm to n cs)
    = foldl (keep_better lower) None (seen_points ax frm to n cs)"
  "foldl (keep_better (\<lambda>p q. - vp_sec p < - vp_sec q)) None (seen_points ax frm to n cs)
    = foldl (keep_better later) None (seen_points ax frm to n cs)"
  unfolding better_ranks by (rule keep_first [OF seen_order])+

lemma extremes_by_selection:
  assumes "set ps = set (seen_points ax frm to 0 cs)"
  shows "computeVisibleExtremes cs ax (Some (frm, to))
    = point_extremes (foldl (keep_better higher) None ps) (foldl (keep_better lower) None ps) (foldl (keep_better later) None ps)"
proof -
  let ?P = "seen_points ax frm to 0 cs"
  have "foldl (extremes_step ax frm to) (None, None, None) cs
      = (map_option high_ref (foldl (keep_better higher) None ?P), map_option low_ref (foldl (keep_better lower) None ?P),
         map_option (\<lambda>p. (vp_sec p, vc_close (vp_candle p))) (foldl (keep_better later) None ?P))"
    using extremes_loop [of ax frm to None None None cs 0] by (simp only: strict_selections option.map)
  moreover have "foldl (keep_better higher) None ?P = foldl (keep_better higher) None ps"
    "foldl (keep_better lower) None ?P = foldl (keep_better lower) None ps"
    "foldl (keep_better later) None ?P = foldl (keep_better later) None ps"
    unfolding better_ranks by (intro keep_better_perm seen_inj assms [symmetric])+
  ultimately show ?thesis
    by (cases "cs = []") (auto simp: computeVisibleExtremes_def extremes_of_def point_extremes_def split: option.split)
qed

lemma last_visible_loop:
  "foldl (last_visible_step ax frm to) (map_option (\<lambda>p. (vp_sec p, vc_ts_ms (vp_candle p))) b) cs
   = map_option (\<lambda>p. (vp_sec p, vc_ts_ms (vp_candle p)))
       (foldl (keep_better (\<lambda>p q. - vp_sec p < - vp_sec q)) b (seen_points ax frm to n cs))"
proof (induction cs arbitrary: n b)
  case (Cons c cs)
  let ?p = "\<lparr>vp_candle = c, vp_sec = virtual_sec ax c, vp_order = n\<rparr>"
  have "last_visible_step ax frm to (map_option (\<lambda>p. (vp_sec p, vc_ts_ms (vp_candle p))) b) c
      = map_option (\<lambda>p. (vp_sec p, vc_ts_ms (vp_candle p)))
          (if visible ax frm to c then keep_better (\<lambda>p q. - vp_sec p < - vp_sec q) b ?p else b)"
    by (cases b) (auto simp: last_visible_step_def)
  then show ?case using Cons.IH by simp
qed simp

abbreviation prior_pair :: "PriorDaysExtremes option \<Rightarrow> rat option \<times> rat option" where
  "prior_pair x \<equiv> (map_option pe_high x, map_option pe_low x)"

lemma prior_loop:
  "foldl (prior_step ax frm to cutoff) (prior_pair x) cs = prior_pair (foldl (widen_prior cutoff) x (seen_points ax frm to n cs))"
proof (induction cs arbitrary: n x)
  case (Cons c cs)
  let ?p = "\<lparr>vp_candle = c, vp_sec = virtual_sec ax c, vp_order = n\<rparr>"
  have "prior_step ax frm to cutoff (prior_pair x) c = prior_pair (if visible ax frm to c then widen_prior cutoff x ?p else x)"
    by (cases x) (auto simp: prior_step_def widen_prior_def Let_def max_def min_def)
  then show ?case using Cons.IH by simp
qed simp

lemma widen_perm:
  assumes "mset xs = mset ys"
  shows "foldl (widen_prior cutoff) x xs = foldl (widen_prior cutoff) x ys"
proof -
  have "(\<lambda>p x. widen_prior cutoff x p) p \<circ> (\<lambda>p x. widen_prior cutoff x p) q = (\<lambda>p x. widen_prior cutoff x p) q \<circ> (\<lambda>p x. widen_prior cutoff x p) p" for p q
    by (rule ext) (auto simp: widen_prior_def Let_def max.commute max.left_commute min.commute min.left_commute split: option.split)
  then have "fold (\<lambda>p x. widen_prior cutoff x p) xs = fold (\<lambda>p x. widen_prior cutoff x p) ys"
    using assms by (intro fold_multiset_equiv) auto
  then show ?thesis by (simp add: foldl_conv_fold)
qed

lemma prior_by_selection:
  assumes "mset ps = mset (seen_points ax frm to 0 cs)" "length (segments ax) = length (realSegments ax)"
  shows "computePriorDaysExtremes cs ax (Some (frm, to)) = snd (slice_answer ax ps)"
proof -
  let ?P = "seen_points ax frm to 0 cs"
  let ?z = "foldl (keep_better later) None ps"
  have set: "set ps = set ?P" using assms(1) by (metis set_mset_mset)
  have "foldl (keep_better later) None ?P = ?z"
    unfolding better_ranks by (intro keep_better_perm seen_inj set [symmetric])
  then have z: "foldl (last_visible_step ax frm to) None cs = map_option (\<lambda>p. (vp_sec p, vc_ts_ms (vp_candle p))) ?z"
    using last_visible_loop [of ax frm to None cs 0] by (simp only: strict_selections option.map)
  have prior: "foldl (prior_step ax frm to cutoff) (None, None) cs = prior_pair (foldl (widen_prior cutoff) None ps)" for cutoff
    using prior_loop [of ax frm to cutoff None cs 0] widen_perm [OF assms(1), of cutoff None] by simp
  have found: "findByReal ax t < int (length (segments ax))" for t
    unfolding findByReal_def assms(2)
    using last_sat_range [of 0 "int (length (realSegments ax)) - 1" 0 0 "int (length (realSegments ax)) - 1"] by auto
  show ?thesis
  proof (cases "cs = []")
    case True
    then show ?thesis using assms(1) by (simp add: computePriorDaysExtremes_def slice_answer_def)
  next
    case False
    then show ?thesis using z found
      by (cases ?z) (auto simp: computePriorDaysExtremes_def slice_answer_def prior js_at_def Let_def split: option.split)
  qed
qed

subsection \<open>The slice of the reader\<close>

interpretation vx_points: keyed_table "\<lambda>ps. sorted (map vp_sec ps)" length "\<lambda>ps i. vp_sec (ps ! i)"
  by unfold_locales (simp add: sorted_iff_nth_mono)

lemma slice_is_filter:
  assumes "sorted (map vp_sec ps)"
  shows "drop (point_bound ps frm False) (take (point_bound ps to True) ps) = filter (\<lambda>p. frm \<le> vp_sec p \<and> vp_sec p \<le> to) ps"
proof -
  let ?a = "point_bound ps frm False" and ?b = "point_bound ps to True"
  have le: "x < t \<or> x = t \<longleftrightarrow> x \<le> t" for x t :: rat by auto
  note lo = vx_points.lower_bound [OF assms, where k = frm]
  note hi = vx_points.upper_bound [OF assms, where k = to]
  have a: "?a = first_fail (\<lambda>i. vp_sec (ps ! i) < frm) 0 (length ps)"
    and b: "?b = first_fail (\<lambda>i. vp_sec (ps ! i) \<le> to) 0 (length ps)"
    by (simp_all add: point_bound_def le)
  have iff: "frm \<le> vp_sec (ps ! i) \<and> vp_sec (ps ! i) \<le> to \<longleftrightarrow> ?a \<le> i \<and> i < ?b" if "i < length ps" for i
    using lo(2,3) [of i] hi(2,3) [of i] that unfolding a b by (meson not_le)
  show ?thesis
  proof (cases "?a \<le> ?b")
    case False
    have "\<not> (frm \<le> vp_sec p \<and> vp_sec p \<le> to)" if p: "p \<in> set ps" for p
    proof -
      obtain i where "i < length ps" "p = ps ! i" using p by (auto simp: in_set_conv_nth)
      then show ?thesis using iff [of i] False by auto
    qed
    then have "filter (\<lambda>p. frm \<le> vp_sec p \<and> vp_sec p \<le> to) ps = []" by (simp add: filter_empty_conv)
    then show ?thesis using False by simp
  next
    case True
    then show ?thesis using hi(1) iff unfolding b [symmetric] by (simp add: filter_window)
  qed
qed

lemma project_points_sorted: "sorted (map vp_sec (project_points ax cs))"
  by (simp add: project_points_def Let_def)

lemma project_points_seen:
  "mset (filter (\<lambda>p. frm \<le> vp_sec p \<and> vp_sec p \<le> to) (project_points ax cs)) = mset (seen_points ax frm to 0 cs)"
proof -
  let ?pts = "map (\<lambda>(order, c). \<lparr>vp_candle = c, vp_sec = virtual_sec ax c, vp_order = order\<rparr>)
     (filter (\<lambda>(order, c). contains ax (vc_ts_ms c)) (enumerate 0 cs))"
  have "mset (project_points ax cs) = mset ?pts" by (simp add: project_points_def Let_def)
  then have "mset (filter P (project_points ax cs)) = mset (filter P ?pts)" for P by (simp only: mset_filter)
  moreover have "filter (\<lambda>p. frm \<le> vp_sec p \<and> vp_sec p \<le> to) ?pts = seen_points ax frm to 0 cs"
    by (simp add: seen_points_def filter_map o_def split_def visible_def conj_commute conj_left_commute)
  ultimately show ?thesis by (simp only:)
qed

lemma slice_answer_exact:
  assumes "length (segments ax) = length (realSegments ax)"
  shows "slice_answer ax (drop (point_bound (project_points ax cs) frm False)
      (take (point_bound (project_points ax cs) to True) (project_points ax cs)))
    = (computeVisibleExtremes cs ax (Some (frm, to)), computePriorDaysExtremes cs ax (Some (frm, to)))"
proof -
  let ?ps = "filter (\<lambda>p. frm \<le> vp_sec p \<and> vp_sec p \<le> to) (project_points ax cs)"
  note m = project_points_seen [of frm to ax cs]
  then have "set ?ps = set (seen_points ax frm to 0 cs)" by (metis set_mset_mset)
  then have "fst (slice_answer ax ?ps) = computeVisibleExtremes cs ax (Some (frm, to))"
    by (simp only: slice_answer_def Let_def extremes_by_selection [of ?ps] fst_conv)
  then show ?thesis
    using prior_by_selection [OF m assms] by (simp add: slice_is_filter [OF project_points_sorted] prod_eq_iff)
qed

subsection \<open>The reader answers what the loops would\<close>

definition reader_ok :: "(nat \<Rightarrow> vx_candle list) \<Rightarrow> (nat \<Rightarrow> VirtualAxis) \<Rightarrow> VisibleReader \<Rightarrow> bool" where
  "reader_ok arrays axes s \<longleftrightarrow> s = createVisibleExtremesReader
     \<or> (\<exists>i j. vr_candlesRef s = Some i \<and> vr_axisRef s = Some j \<and> vr_points s = project_points (axes j) (arrays i)
          \<and> (\<forall>r answer. vr_cached s = Some (r, answer)
               \<longrightarrow> answer = (computeVisibleExtremes (arrays i) (axes j) (Some r), computePriorDaysExtremes (arrays i) (axes j) (Some r))))"

lemma read_exact:
  assumes "reader_ok arrays axes s" "length (segments (axes j)) = length (realSegments (axes j))"
  shows "fst (read_extremes arrays axes i j r s)
      = (computeVisibleExtremes (arrays i) (axes j) r, computePriorDaysExtremes (arrays i) (axes j) r)"
    and "reader_ok arrays axes (snd (read_extremes arrays axes i j r s))"
proof -
  define s1 where "s1 = (if Some i \<noteq> vr_candlesRef s \<or> Some j \<noteq> vr_axisRef s
      then \<lparr>vr_candlesRef = Some i, vr_axisRef = Some j, vr_points = project_points (axes j) (arrays i), vr_cached = None\<rparr> else s)"
  have s1: "vr_candlesRef s1 = Some i" "vr_axisRef s1 = Some j" "vr_points s1 = project_points (axes j) (arrays i)"
    and cached: "\<And>q answer. vr_cached s1 = Some (q, answer) \<Longrightarrow>
      answer = (computeVisibleExtremes (arrays i) (axes j) (Some q), computePriorDaysExtremes (arrays i) (axes j) (Some q))"
    using assms(1) by (auto simp: s1_def reader_ok_def createVisibleExtremesReader_def split: if_splits)
  let ?exact = "(computeVisibleExtremes (arrays i) (axes j) r, computePriorDaysExtremes (arrays i) (axes j) r)"
  have "read_extremes arrays axes i j r s = (?exact, s1)
      \<or> (\<exists>q. r = Some q \<and> read_extremes arrays axes i j r s = (?exact, s1\<lparr>vr_cached := Some (q, ?exact)\<rparr>))"
  proof (cases r)
    case None
    then show ?thesis
      unfolding read_extremes_def s1_def [symmetric] Let_def
      by (simp add: computeVisibleExtremes_def computePriorDaysExtremes_def)
  next
    case (Some q)
    obtain frm to where q: "q = (frm, to)" by fastforce
    show ?thesis
      using cached [of q] slice_answer_exact [OF assms(2), of "arrays i" frm to]
      unfolding read_extremes_def s1_def [symmetric] Let_def
      by (auto simp: Some q s1(3) split: option.split)
  qed
  then show "fst (read_extremes arrays axes i j r s) = ?exact"
    and "reader_ok arrays axes (snd (read_extremes arrays axes i j r s))"
    using s1 cached by (auto simp: reader_ok_def)
qed


primrec reads :: "(nat \<Rightarrow> vx_candle list) \<Rightarrow> (nat \<Rightarrow> VirtualAxis) \<Rightarrow> (nat \<times> nat \<times> (rat \<times> rat) option) list
    \<Rightarrow> VisibleReader \<Rightarrow> VisibleReader" where
  "reads arrays axes [] s = s"
| "reads arrays axes (c # cs) s = reads arrays axes cs (snd (read_extremes arrays axes (fst c) (fst (snd c)) (snd (snd c)) s))"

lemma reads_ok:
  assumes "reader_ok arrays axes s" "\<And>j. length (segments (axes j)) = length (realSegments (axes j))"
  shows "reader_ok arrays axes (reads arrays axes cs s)"
  using assms(1) by (induction cs arbitrary: s) (simp_all add: read_exact(2) [OF _ assms(2)])

text \<open>The axes a page can hand over: each made by the factory from its sessions, origin and mode.\<close>

definition made_axis :: "raw_session list \<times> ms \<times> VirtualAxisMode \<Rightarrow> VirtualAxis" where
  "made_axis m = createVirtualAxis (fst m) (fst (snd m)) (snd (snd m))"

lemma made_axis_lengths: "length (segments (made_axis m)) = length (realSegments (made_axis m))"
  by (cases "snd (snd m)") (simp_all add: made_axis_def)

text \<open>
  C31. The cached reader of the visible extremes answers exactly what the two loops over all candles
  compute: after any history of reads (of any arrays, axes and ranges, in any order), the high, the
  low, their gaps to the last visible close and the extremes of the days before agree with the direct
  computation, also where axes project candles out of order and prices tie.
\<close>

theorem visible_reader_exact:
  "fst (read_extremes arrays (made_axis \<circ> made) i j r (reads arrays (made_axis \<circ> made) history createVisibleExtremesReader))
    = (computeVisibleExtremes (arrays i) (made_axis (made j)) r, computePriorDaysExtremes (arrays i) (made_axis (made j)) r)"
proof -
  have "reader_ok arrays (made_axis \<circ> made) createVisibleExtremesReader" by (simp add: reader_ok_def)
  from read_exact(1) [OF reads_ok [OF this]] show ?thesis by (simp add: made_axis_lengths)
qed

end
