(* ===== verification/PeakWalls.thy ===== *)
theory PeakWalls
  imports TradeVolumePoc "HOL-Library.Product_Lexorder"
begin

section \<open>Peak walls of the order book\<close>

text \<open>
  \<open>live/peakWallEventClassifier.ts\<close> and \<open>live/incrementalPeakWallSource.ts\<close>: the levels of the book
  over a window of snapshots become wall events, ranked three ways; once from scratch, once by an
  accumulator that follows a sliding window (appending, evicting from the front, starting over). The
  eligibility of a snapshot is from \<open>live/bucketHogaSeries.ts\<close>. A snapshot object is its position in
  the stream of the day, the heap gives its content; quantities and prices that are not finite numbers
  are \<open>None\<close>. A \<open>Map\<close> that is only looked up is a function; the map of the classifier, whose values
  are listed, is the list of its values (their keys are functions of them).
\<close>

record OrderbookLevel =
  ol_price :: "rat option"
  ol_qty :: "rat option"

record ObSnapshot =
  ob_t_ms :: ms
  ob_total_ask_qty :: rat
  ob_total_bid_qty :: rat
  ob_asks :: "OrderbookLevel list option"
  ob_bids :: "OrderbookLevel list option"
  ob_venue :: "string option"

record AskPeakCandidate =
  pk_price :: rat
  pk_qty :: rat
  pk_t_ms :: ms

record PeakWallClassification =
  pw_touched :: "AskPeakCandidate list"
  pw_all :: "AskPeakCandidate list"
  pw_unreached :: "AskPeakCandidate list"

datatype BookSide = Ask | Bid

subsection \<open>Eligible snapshots\<close>

definition hasDepthBeyondLevel3 :: "OrderbookLevel list option \<Rightarrow> bool" where
  "hasDepthBeyondLevel3 lv = (case lv of None \<Rightarrow> False
     | Some ls \<Rightarrow> list_ex (\<lambda>l. case ol_qty l of Some q \<Rightarrow> 0 < q | None \<Rightarrow> False) (drop 3 ls))"

definition isContinuousBook :: "ObSnapshot \<Rightarrow> bool" where
  "isContinuousBook s \<longleftrightarrow> ob_asks s = None \<and> ob_bids s = None
     \<or> hasDepthBeyondLevel3 (ob_asks s) \<and> hasDepthBeyondLevel3 (ob_bids s)"

text \<open>The venue argument and its default.\<close>

definition eligible_in :: "ObSnapshot \<Rightarrow> ms \<Rightarrow> string \<Rightarrow> bool" where
  "eligible_in s sessionOpenMs venue \<longleftrightarrow> isContinuousBook s \<and> sessionOpenMs \<le> ob_t_ms s
     \<and> \<not> isStockIndicatorBreak (ob_t_ms s) venue"

definition isIndicatorEligibleBook :: "ObSnapshot \<Rightarrow> ms \<Rightarrow> bool" where
  "isIndicatorEligibleBook s sessionOpenMs = eligible_in s sessionOpenMs
     (case ob_venue s of Some v \<Rightarrow> v | None \<Rightarrow> if unixMsToKSTHhmm sessionOpenMs = Some 800 then ''UN'' else ''KRX'')"

subsection \<open>live/peakWallEventClassifier.ts\<close>

definition combineDayExtreme :: "rat option \<Rightarrow> rat option \<Rightarrow> BookSide \<Rightarrow> rat option" where
  "combineDayExtreme a b side = (case a of None \<Rightarrow> b | Some x \<Rightarrow>
     (case b of None \<Rightarrow> a | Some y \<Rightarrow> Some (case side of Ask \<Rightarrow> max x y | Bid \<Rightarrow> min x y)))"

definition isWallUnreached :: "rat \<Rightarrow> rat option \<Rightarrow> BookSide \<Rightarrow> bool" where
  "isWallUnreached price dayExtreme side = (case dayExtreme of None \<Rightarrow> True
     | Some x \<Rightarrow> (case side of Ask \<Rightarrow> x < price | Bid \<Rightarrow> price < x))"

record day_candle =
  dc_ts_ms :: ms
  dc_high :: "rat option"
  dc_low :: "rat option"

definition dayExtremeFromCandles :: "day_candle list \<Rightarrow> BookSide \<Rightarrow> ms \<Rightarrow> ms \<Rightarrow> rat option" where
  "dayExtremeFromCandles candles side fromMs toMs = foldl (\<lambda>extreme c.
     if dc_ts_ms c < fromMs \<or> toMs < dc_ts_ms c then extreme
     else (case (case side of Ask \<Rightarrow> dc_high c | Bid \<Rightarrow> dc_low c) of
        None \<Rightarrow> extreme | Some v \<Rightarrow> combineDayExtreme extreme (Some v) side)) None candles"

definition EMIT_LIMIT :: nat where "EMIT_LIMIT = 3"
definition TOUCH_WINDOW_MS :: ms where "TOUCH_WINDOW_MS = 60000"

definition touchWindowOf :: "ms \<Rightarrow> int" where "touchWindowOf tMs = tMs div TOUCH_WINDOW_MS"

text \<open>The order of \<open>cmpCandidates\<close> and of the sort: larger quantity, then earlier, then cheaper.\<close>

definition candidate_rank :: "AskPeakCandidate \<Rightarrow> rat \<times> ms \<times> rat" where
  "candidate_rank c = (- pk_qty c, pk_t_ms c, pk_price c)"

definition rankPeakCandidates :: "AskPeakCandidate list \<Rightarrow> nat \<Rightarrow> AskPeakCandidate list" where
  "rankPeakCandidates candidates limit = take limit (sort_key candidate_rank (unique candidates))"

definition wall_key :: "AskPeakCandidate \<Rightarrow> rat \<times> ms" where
  "wall_key c = (pk_price c, pk_t_ms c)"

fun put_wall :: "AskPeakCandidate \<Rightarrow> AskPeakCandidate list \<Rightarrow> AskPeakCandidate list" where
  "put_wall c [] = [c]"
| "put_wall c (x # xs) = (if wall_key x = wall_key c then (if pk_qty x < pk_qty c then c # xs else x # xs)
     else x # put_wall c xs)"

definition level_wall :: "ms \<Rightarrow> OrderbookLevel \<Rightarrow> AskPeakCandidate option" where
  "level_wall t l = (case (ol_price l, ol_qty l) of
     (Some p, Some q) \<Rightarrow> if q \<le> 0 then None else Some \<lparr>pk_price = p, pk_qty = q, pk_t_ms = t\<rparr> | _ \<Rightarrow> None)"

definition side_levels :: "BookSide \<Rightarrow> ObSnapshot \<Rightarrow> OrderbookLevel list" where
  "side_levels side s = (case (case side of Ask \<Rightarrow> ob_asks s | Bid \<Rightarrow> ob_bids s) of Some ls \<Rightarrow> ls | None \<Rightarrow> [])"

definition snapshot_walls :: "BookSide \<Rightarrow> ms \<Rightarrow> ObSnapshot \<Rightarrow> AskPeakCandidate list" where
  "snapshot_walls side sessionOpenMs s = (if isIndicatorEligibleBook s sessionOpenMs
     then List.map_filter (level_wall (ob_t_ms s)) (side_levels side s) else [])"

definition toWallEventsFromOrderbooks :: "ObSnapshot list \<Rightarrow> BookSide \<Rightarrow> ms \<Rightarrow> AskPeakCandidate list" where
  "toWallEventsFromOrderbooks orderbooks side sessionOpenMs =
     foldl (\<lambda>walls s. foldl (\<lambda>walls c. put_wall c walls) walls (snapshot_walls side sessionOpenMs s)) [] orderbooks"

record PeakWallTouchTick =
  tt_price :: rat
  tt_t_ms :: ms

definition touch_tick :: "TradeSnapshot \<Rightarrow> TradeEvent \<Rightarrow> PeakWallTouchTick option" where
  "touch_tick snapshot e = (if \<not> isEligibleSide (te_side e) then None
     else (case te_price e of None \<Rightarrow> None
       | Some p \<Rightarrow> if event_time snapshot e \<le> 0 then None else Some \<lparr>tt_price = p, tt_t_ms = event_time snapshot e\<rparr>))"

definition snapshot_touches :: "TradeSnapshot \<Rightarrow> PeakWallTouchTick list" where
  "snapshot_touches snapshot = List.map_filter (touch_tick snapshot) (ts_trades snapshot)"

definition toTouchTicksFromTrades :: "TradeSnapshot list \<Rightarrow> PeakWallTouchTick list" where
  "toTouchTicksFromTrades trades = concat (map snapshot_touches trades)"

definition put_extreme :: "BookSide \<Rightarrow> (int \<Rightarrow> rat option) \<Rightarrow> PeakWallTouchTick \<Rightarrow> (int \<Rightarrow> rat option)" where
  "put_extreme side m touch = (let w = touchWindowOf (tt_t_ms touch) in m(w \<mapsto>
     (case m w of None \<Rightarrow> tt_price touch
      | Some x \<Rightarrow> (case side of Ask \<Rightarrow> max x (tt_price touch) | Bid \<Rightarrow> min x (tt_price touch)))))"

definition touchExtremeByWindow :: "PeakWallTouchTick list \<Rightarrow> BookSide \<Rightarrow> (int \<Rightarrow> rat option)" where
  "touchExtremeByWindow touches side = foldl (put_extreme side) (\<lambda>_. None) touches"

definition isWallTouched :: "AskPeakCandidate \<Rightarrow> (int \<Rightarrow> rat option) \<Rightarrow> BookSide \<Rightarrow> bool" where
  "isWallTouched event extremeByWindow side = (case extremeByWindow (touchWindowOf (pk_t_ms event)) of None \<Rightarrow> False
     | Some x \<Rightarrow> (case side of Ask \<Rightarrow> pk_price event \<le> x | Bid \<Rightarrow> x \<le> pk_price event))"

definition classifyWallEvents :: "AskPeakCandidate list \<Rightarrow> PeakWallTouchTick list \<Rightarrow> BookSide \<Rightarrow> rat option \<Rightarrow> PeakWallClassification" where
  "classifyWallEvents events touches side backendDayExtreme =
     (let dedupedEvents = unique events; extremes = touchExtremeByWindow touches side;
          dayExtreme = foldl (\<lambda>x touch. combineDayExtreme x (Some (tt_price touch)) side) backendDayExtreme touches
      in \<lparr>pw_touched = rankPeakCandidates (filter (\<lambda>e. isWallTouched e extremes side) dedupedEvents) EMIT_LIMIT,
          pw_all = rankPeakCandidates dedupedEvents EMIT_LIMIT,
          pw_unreached = rankPeakCandidates (filter (\<lambda>e. isWallUnreached (pk_price e) dayExtreme side) dedupedEvents) EMIT_LIMIT\<rparr>)"

definition classifyAskWallEvents :: "AskPeakCandidate list \<Rightarrow> PeakWallTouchTick list \<Rightarrow> rat option \<Rightarrow> PeakWallClassification" where
  "classifyAskWallEvents events touches backendDayExtreme = classifyWallEvents events touches Ask backendDayExtreme"

definition classifyBidWallEvents :: "AskPeakCandidate list \<Rightarrow> PeakWallTouchTick list \<Rightarrow> rat option \<Rightarrow> PeakWallClassification" where
  "classifyBidWallEvents events touches backendDayExtreme = classifyWallEvents events touches Bid backendDayExtreme"

subsection \<open>live/incrementalPeakWallSource.ts\<close>

datatype FallbackReason = BufferReplaced | TMsCollision

record IncrementalPeakWallSource =
  iw_side :: BookSide
  iw_sessionOpenMs :: "ms option"
  iw_obLength :: nat
  iw_lastObRef :: "nat option"
  iw_tradeLength :: nat
  iw_lastTradeRef :: "nat option"
  iw_events :: "AskPeakCandidate list"
  iw_eventIndexByKey :: "rat \<times> ms \<Rightarrow> nat option"
  iw_head :: nat
  iw_eventSeq :: "nat list"
  iw_consumedObSeq :: nat
  iw_obBaseSeq :: nat
  iw_touchCounts :: "nat list"
  iw_touchTimes :: "ms list"
  iw_touchPrices :: "rat list"
  iw_touchesByWindow :: "int \<Rightarrow> rat list option"
  iw_extremeByWindow :: "int \<Rightarrow> rat option"
  iw_tradeExtreme :: "rat option"
  iw_tMsCollisionSeen :: bool
  iw_fallbacks :: nat
  iw_lastFallbackReason :: "FallbackReason option"

definition newPeakWallSource :: "BookSide \<Rightarrow> IncrementalPeakWallSource" where
  "newPeakWallSource side = \<lparr>iw_side = side, iw_sessionOpenMs = None, iw_obLength = 0, iw_lastObRef = None,
     iw_tradeLength = 0, iw_lastTradeRef = None, iw_events = [], iw_eventIndexByKey = (\<lambda>_. None), iw_head = 0,
     iw_eventSeq = [], iw_consumedObSeq = 0, iw_obBaseSeq = 0, iw_touchCounts = [], iw_touchTimes = [],
     iw_touchPrices = [], iw_touchesByWindow = (\<lambda>_. None), iw_extremeByWindow = (\<lambda>_. None), iw_tradeExtreme = None,
     iw_tMsCollisionSeen = False, iw_fallbacks = 0, iw_lastFallbackReason = None\<rparr>"

definition reset_walls :: "IncrementalPeakWallSource \<Rightarrow> IncrementalPeakWallSource" where
  "reset_walls s = s\<lparr>iw_events := [], iw_eventIndexByKey := (\<lambda>_. None), iw_eventSeq := [], iw_head := 0,
     iw_consumedObSeq := 0, iw_obBaseSeq := 0, iw_touchCounts := [], iw_touchTimes := [], iw_touchPrices := [],
     iw_touchesByWindow := (\<lambda>_. None), iw_extremeByWindow := (\<lambda>_. None), iw_tradeExtreme := None,
     iw_tMsCollisionSeen := False\<rparr>"

text \<open>Evicted count and start of the new suffix; the loop looks for the old tail from the end.\<close>

definition planSlide :: "nat list \<Rightarrow> nat \<Rightarrow> nat option \<Rightarrow> (nat \<times> nat) option" where
  "planSlide next prevLength lastRef =
     (if prevLength = 0 then Some (0, 0)
      else (case lastRef of None \<Rightarrow> None
       | Some r \<Rightarrow> if prevLength \<le> length next \<and> next ! (prevLength - 1) = r then Some (0, prevLength)
           else (case find (\<lambda>i. next ! i = r) (rev [0..<length next]) of
               None \<Rightarrow> None
             | Some i \<Rightarrow> if prevLength \<le> i + 1 then None else Some (prevLength - 1 - i, i + 1))))"

definition compactEvents :: "IncrementalPeakWallSource \<Rightarrow> IncrementalPeakWallSource" where
  "compactEvents s = (if iw_head s = 0 \<or> iw_head s * 2 < length (iw_events s) then s
     else (let events = drop (iw_head s) (iw_events s)
           in s\<lparr>iw_events := events, iw_eventSeq := drop (iw_head s) (iw_eventSeq s),
                iw_eventIndexByKey := foldl (\<lambda>m i. m(wall_key (events ! i) \<mapsto> i)) (\<lambda>_. None) [0..<length events],
                iw_head := 0\<rparr>))"

text \<open>The loop that raises \<open>head\<close>.\<close>

definition evictOb :: "nat \<Rightarrow> IncrementalPeakWallSource \<Rightarrow> IncrementalPeakWallSource" where
  "evictOb evicted s = (let base = iw_obBaseSeq s + evicted
     in compactEvents (s\<lparr>iw_obBaseSeq := base,
          iw_head := iw_head s + length (takeWhile (\<lambda>q. q < base) (drop (iw_head s) (iw_eventSeq s)))\<rparr>))"

definition extremeOf :: "BookSide \<Rightarrow> rat list \<Rightarrow> rat" where
  "extremeOf side prices = foldl (\<lambda>best price. case side of Ask \<Rightarrow> (if best < price then price else best)
     | Bid \<Rightarrow> (if price < best then price else best)) (hd prices) (tl prices)"

text \<open>What one minute loses when its first touches leave.\<close>

definition evict_window :: "IncrementalPeakWallSource \<Rightarrow> int \<times> nat \<Rightarrow> IncrementalPeakWallSource" where
  "evict_window s wn = (case wn of (window, n) \<Rightarrow> (case iw_touchesByWindow s window of None \<Rightarrow> s
     | Some prices \<Rightarrow> (let rest = drop n prices in
         if rest = [] then s\<lparr>iw_touchesByWindow := (iw_touchesByWindow s)(window := None),
                             iw_extremeByWindow := (iw_extremeByWindow s)(window := None)\<rparr>
         else s\<lparr>iw_touchesByWindow := (iw_touchesByWindow s)(window \<mapsto> rest),
                iw_extremeByWindow := (iw_extremeByWindow s)(window \<mapsto> extremeOf (iw_side s) rest)\<rparr>)))"

definition dropped_by_window :: "ms list \<Rightarrow> (int \<times> nat) list" where
  "dropped_by_window ts = map (\<lambda>w. (w, length (filter (\<lambda>t. touchWindowOf t = w) ts))) (unique (map touchWindowOf ts))"

definition evictTrades :: "nat \<Rightarrow> IncrementalPeakWallSource \<Rightarrow> IncrementalPeakWallSource" where
  "evictTrades evicted s =
     (let n = sum_list (take evicted (iw_touchCounts s)); s1 = s\<lparr>iw_touchCounts := drop evicted (iw_touchCounts s)\<rparr>
      in if n = 0 then s1
         else foldl evict_window (s1\<lparr>iw_touchTimes := drop n (iw_touchTimes s), iw_touchPrices := drop n (iw_touchPrices s)\<rparr>)
                (dropped_by_window (take n (iw_touchTimes s))))"

text \<open>The body of the loop over the levels of a snapshot.\<close>

definition consume_wall :: "nat \<Rightarrow> IncrementalPeakWallSource \<Rightarrow> AskPeakCandidate \<Rightarrow> IncrementalPeakWallSource" where
  "consume_wall seq s c = (case iw_eventIndexByKey s (wall_key c) of
     Some index \<Rightarrow> if index < iw_head s
       then s\<lparr>iw_eventIndexByKey := (iw_eventIndexByKey s)(wall_key c \<mapsto> length (iw_events s)),
              iw_events := iw_events s @ [c], iw_eventSeq := iw_eventSeq s @ [seq]\<rparr>
       else (let s1 = (if iw_eventSeq s ! index \<noteq> seq then s\<lparr>iw_tMsCollisionSeen := True\<rparr> else s)
             in if pk_qty (iw_events s ! index) < pk_qty c then s1\<lparr>iw_events := (iw_events s1)[index := c]\<rparr> else s1)
   | None \<Rightarrow> s\<lparr>iw_eventIndexByKey := (iw_eventIndexByKey s)(wall_key c \<mapsto> length (iw_events s)),
              iw_events := iw_events s @ [c], iw_eventSeq := iw_eventSeq s @ [seq]\<rparr>)"

definition consume_book :: "ms \<Rightarrow> IncrementalPeakWallSource \<Rightarrow> ObSnapshot \<Rightarrow> IncrementalPeakWallSource" where
  "consume_book sessionOpenMs s snapshot = foldl (consume_wall (iw_consumedObSeq s))
     (s\<lparr>iw_consumedObSeq := iw_consumedObSeq s + 1\<rparr>) (snapshot_walls (iw_side s) sessionOpenMs snapshot)"

definition consumeOb :: "ms \<Rightarrow> ObSnapshot list \<Rightarrow> IncrementalPeakWallSource \<Rightarrow> IncrementalPeakWallSource" where
  "consumeOb sessionOpenMs snapshots s = foldl (consume_book sessionOpenMs) s snapshots"

definition consume_touch :: "IncrementalPeakWallSource \<Rightarrow> PeakWallTouchTick \<Rightarrow> IncrementalPeakWallSource" where
  "consume_touch s touch = (let window = touchWindowOf (tt_t_ms touch); price = tt_price touch;
       s1 = s\<lparr>iw_touchTimes := iw_touchTimes s @ [tt_t_ms touch], iw_touchPrices := iw_touchPrices s @ [price],
              iw_tradeExtreme := combineDayExtreme (iw_tradeExtreme s) (Some price) (iw_side s)\<rparr>
     in case iw_touchesByWindow s window of
       None \<Rightarrow> s1\<lparr>iw_touchesByWindow := (iw_touchesByWindow s)(window \<mapsto> [price]),
                  iw_extremeByWindow := (iw_extremeByWindow s)(window \<mapsto> price)\<rparr>
     | Some bucket \<Rightarrow> (let current = the (iw_extremeByWindow s window);
           s2 = s1\<lparr>iw_touchesByWindow := (iw_touchesByWindow s)(window \<mapsto> bucket @ [price])\<rparr>
         in if (case iw_side s of Ask \<Rightarrow> current < price | Bid \<Rightarrow> price < current)
            then s2\<lparr>iw_extremeByWindow := (iw_extremeByWindow s)(window \<mapsto> price)\<rparr> else s2))"

definition consume_trade :: "IncrementalPeakWallSource \<Rightarrow> TradeSnapshot \<Rightarrow> IncrementalPeakWallSource" where
  "consume_trade s snapshot = (let touches = snapshot_touches snapshot; s1 = foldl consume_touch s touches
     in s1\<lparr>iw_touchCounts := iw_touchCounts s1 @ [length touches]\<rparr>)"

definition consumeTrade :: "TradeSnapshot list \<Rightarrow> IncrementalPeakWallSource \<Rightarrow> IncrementalPeakWallSource" where
  "consumeTrade snapshots s = foldl consume_trade s snapshots"

definition canEvictSafely :: "IncrementalPeakWallSource \<Rightarrow> bool" where
  "canEvictSafely s \<longleftrightarrow> \<not> iw_tMsCollisionSeen s"

definition open_session :: "ms \<Rightarrow> IncrementalPeakWallSource \<Rightarrow> IncrementalPeakWallSource" where
  "open_session sessionOpenMs s = (if iw_sessionOpenMs s \<noteq> Some sessionOpenMs
     then (reset_walls s)\<lparr>iw_sessionOpenMs := Some sessionOpenMs, iw_obLength := 0, iw_tradeLength := 0,
            iw_lastObRef := None, iw_lastTradeRef := None\<rparr> else s)"

definition fall_back :: "FallbackReason \<Rightarrow> IncrementalPeakWallSource \<Rightarrow> IncrementalPeakWallSource" where
  "fall_back reason s = (if 0 < iw_obLength s \<or> 0 < iw_tradeLength s
     then s\<lparr>iw_fallbacks := iw_fallbacks s + 1, iw_lastFallbackReason := Some reason\<rparr> else s)"

definition rebuild_walls :: "(nat \<Rightarrow> ObSnapshot) \<Rightarrow> (nat \<Rightarrow> TradeSnapshot) \<Rightarrow> nat list \<Rightarrow> nat list \<Rightarrow> ms
    \<Rightarrow> IncrementalPeakWallSource \<Rightarrow> IncrementalPeakWallSource" where
  "rebuild_walls books trades ob trade sessionOpenMs s =
     consumeTrade (map trades trade) (consumeOb sessionOpenMs (map books ob) (reset_walls s))"

definition slide_walls :: "(nat \<Rightarrow> ObSnapshot) \<Rightarrow> (nat \<Rightarrow> TradeSnapshot) \<Rightarrow> nat list \<Rightarrow> nat list \<Rightarrow> ms
    \<Rightarrow> nat \<times> nat \<Rightarrow> nat \<times> nat \<Rightarrow> IncrementalPeakWallSource \<Rightarrow> IncrementalPeakWallSource" where
  "slide_walls books trades ob trade sessionOpenMs obPlan tradePlan s =
     (let s1 = (if 0 < fst obPlan then evictOb (fst obPlan) s else s);
          s2 = (if 0 < fst tradePlan then evictTrades (fst tradePlan) s1 else s1);
          s3 = (if snd obPlan < length ob then consumeOb sessionOpenMs (map books (drop (snd obPlan) ob)) s2 else s2)
      in if snd tradePlan < length trade then consumeTrade (map trades (drop (snd tradePlan) trade)) s3 else s3)"

definition accumulate :: "(nat \<Rightarrow> ObSnapshot) \<Rightarrow> (nat \<Rightarrow> TradeSnapshot) \<Rightarrow> nat list \<Rightarrow> nat list \<Rightarrow> ms
    \<Rightarrow> IncrementalPeakWallSource \<Rightarrow> IncrementalPeakWallSource" where
  "accumulate books trades ob trade sessionOpenMs s0 =
     (let s = open_session sessionOpenMs s0;
          obPlan = planSlide ob (iw_obLength s) (iw_lastObRef s);
          tradePlan = planSlide trade (iw_tradeLength s) (iw_lastTradeRef s);
          s1 = (case (obPlan, tradePlan) of
              (Some p, Some q) \<Rightarrow> if (0 < fst p \<or> 0 < fst q) \<and> \<not> canEvictSafely s
                then rebuild_walls books trades ob trade sessionOpenMs (fall_back TMsCollision s)
                else slide_walls books trades ob trade sessionOpenMs p q s
            | _ \<Rightarrow> rebuild_walls books trades ob trade sessionOpenMs (fall_back BufferReplaced s))
      in s1\<lparr>iw_obLength := length ob, iw_lastObRef := (if ob = [] then None else Some (last ob)),
            iw_tradeLength := length trade, iw_lastTradeRef := (if trade = [] then None else Some (last trade))\<rparr>)"

definition touched_now :: "IncrementalPeakWallSource \<Rightarrow> AskPeakCandidate \<Rightarrow> bool" where
  "touched_now s event = (case iw_extremeByWindow s (touchWindowOf (pk_t_ms event)) of None \<Rightarrow> False
     | Some x \<Rightarrow> (case iw_side s of Ask \<Rightarrow> pk_price event \<le> x | Bid \<Rightarrow> x \<le> pk_price event))"

text \<open>The position the insertion loop stops at, counted from the end.\<close>

definition pushTopK :: "AskPeakCandidate list \<Rightarrow> AskPeakCandidate \<Rightarrow> AskPeakCandidate list" where
  "pushTopK best candidate =
     (let i = length best - length (takeWhile (\<lambda>x. candidate_rank candidate < candidate_rank x) (rev best))
      in if EMIT_LIMIT \<le> i then best
         else (let grown = take i best @ candidate # drop i best in if EMIT_LIMIT < length grown then butlast grown else grown))"

definition isCoveredByLiveEvent :: "IncrementalPeakWallSource \<Rightarrow> AskPeakCandidate \<Rightarrow> bool" where
  "isCoveredByLiveEvent s extra = (case iw_eventIndexByKey s (wall_key extra) of None \<Rightarrow> False
     | Some index \<Rightarrow> if index < iw_head s then False else pk_qty (iw_events s ! index) = pk_qty extra)"

definition consider_wall :: "IncrementalPeakWallSource \<Rightarrow> rat option \<Rightarrow> PeakWallClassification \<Rightarrow> AskPeakCandidate \<Rightarrow> PeakWallClassification" where
  "consider_wall s dayExtreme r c =
     \<lparr>pw_touched = (if touched_now s c then pushTopK (pw_touched r) c else pw_touched r),
      pw_all = pushTopK (pw_all r) c,
      pw_unreached = (if isWallUnreached (pk_price c) dayExtreme (iw_side s) then pushTopK (pw_unreached r) c else pw_unreached r)\<rparr>"

definition classify_now :: "AskPeakCandidate list \<Rightarrow> rat option \<Rightarrow> IncrementalPeakWallSource \<Rightarrow> PeakWallClassification" where
  "classify_now extras backendDayExtreme s =
     (let dayExtreme = combineDayExtreme (iw_tradeExtreme s) backendDayExtreme (iw_side s);
          r = foldl (consider_wall s dayExtreme) \<lparr>pw_touched = [], pw_all = [], pw_unreached = []\<rparr> (drop (iw_head s) (iw_events s))
      in foldl (consider_wall s dayExtreme) r (filter (\<lambda>c. \<not> isCoveredByLiveEvent s c) (unique extras)))"

definition updateWalls :: "(nat \<Rightarrow> ObSnapshot) \<Rightarrow> (nat \<Rightarrow> TradeSnapshot) \<Rightarrow> nat list \<Rightarrow> nat list \<Rightarrow> ms \<Rightarrow> AskPeakCandidate list
    \<Rightarrow> rat option \<Rightarrow> IncrementalPeakWallSource \<Rightarrow> PeakWallClassification \<times> IncrementalPeakWallSource" where
  "updateWalls books trades ob trade sessionOpenMs extras backendDayExtreme s =
     (let s' = accumulate books trades ob trade sessionOpenMs s in (classify_now extras backendDayExtreme s', s'))"

record WallDiagnostics =
  wd_fallbacks :: nat
  wd_lastFallbackReason :: "FallbackReason option"
  wd_liveEvents :: nat
  wd_touches :: nat

definition wall_diagnostics :: "IncrementalPeakWallSource \<Rightarrow> WallDiagnostics" where
  "wall_diagnostics s = \<lparr>wd_fallbacks = iw_fallbacks s, wd_lastFallbackReason = iw_lastFallbackReason s,
     wd_liveEvents = length (iw_events s) - iw_head s, wd_touches = length (iw_touchTimes s)\<rparr>"

end
