(* ===== verification/PeakWallLaws.thy ===== *)
theory PeakWallLaws
  imports PeakWalls
begin

section \<open>The incremental peak walls\<close>

text \<open>
  The accumulator against the classifier it replaces: first the selection of the three best, then the
  live events (the part of the list behind \<open>head\<close>), the touches of each minute, and the sliding of the
  windows; then the two agree on every call.
\<close>

subsection \<open>The three best\<close>

lemma rank_inj: "inj candidate_rank"
proof (rule injI)
  fix x y :: AskPeakCandidate
  assume "candidate_rank x = candidate_rank y"
  then show "x = y" by (cases x; cases y) (simp add: candidate_rank_def)
qed

definition best_of :: "AskPeakCandidate list \<Rightarrow> AskPeakCandidate list" where
  "best_of xs = take EMIT_LIMIT (sort_key candidate_rank xs)"

lemma sort_by_set:
  assumes "distinct xs" "distinct ys" "set xs = set ys"
  shows "sort_key candidate_rank xs = sort_key candidate_rank ys"
  by (rule map_sorted_distinct_set_unique [where f = candidate_rank])
    (use assms rank_inj in \<open>auto simp: distinct_map intro: inj_on_subset\<close>)

lemma rank_is_best: "distinct xs \<Longrightarrow> set xs = set ys \<Longrightarrow> rankPeakCandidates ys EMIT_LIMIT = best_of xs"
  unfolding rankPeakCandidates_def best_of_def by (simp add: sort_by_set [of "unique ys" xs] unique_distinct)

text \<open>Insertion in front of the larger ones.\<close>

definition put_rank :: "AskPeakCandidate \<Rightarrow> AskPeakCandidate list \<Rightarrow> AskPeakCandidate list" where
  "put_rank c xs = takeWhile (\<lambda>x. \<not> candidate_rank c < candidate_rank x) xs @ c
     # dropWhile (\<lambda>x. \<not> candidate_rank c < candidate_rank x) xs"

lemma put_between:
  assumes "sorted (map f (xs @ ys))" "\<And>x. x \<in> set xs \<Longrightarrow> f x \<le> f c" "\<And>y. y \<in> set ys \<Longrightarrow> f c \<le> f y"
  shows "sorted (map f (xs @ c # ys))"
  using assms by (auto simp: sorted_append)

lemma put_rank_sorted:
  assumes "sorted (map candidate_rank xs)"
  shows "sorted (map candidate_rank (put_rank c xs))"
  unfolding put_rank_def
proof (rule put_between)
  let ?P = "\<lambda>x. \<not> candidate_rank c < candidate_rank x"
  show sorted: "sorted (map candidate_rank (takeWhile ?P xs @ dropWhile ?P xs))" using assms by simp
  show "candidate_rank x \<le> candidate_rank c" if "x \<in> set (takeWhile ?P xs)" for x
    using set_takeWhileD [OF that] by (simp add: not_less)
  show "candidate_rank c \<le> candidate_rank y" if y: "y \<in> set (dropWhile ?P xs)" for y
  proof -
    obtain z zs where z: "dropWhile ?P xs = z # zs" using y by (cases "dropWhile ?P xs") auto
    then have "candidate_rank c < candidate_rank z" by (metis (mono_tags, lifting) hd_dropWhile list.discI list.sel(1))
    moreover have "candidate_rank z \<le> candidate_rank y" using sorted y unfolding map_append sorted_append z by auto
    ultimately show ?thesis by (meson less_le_trans less_imp_le)
  qed
qed

lemma put_rank_set: "set (put_rank c xs) = insert c (set xs)" "distinct xs \<Longrightarrow> c \<notin> set xs \<Longrightarrow> distinct (put_rank c xs)"
proof -
  let ?P = "\<lambda>x. \<not> candidate_rank c < candidate_rank x"
  have split: "set xs = set (takeWhile ?P xs) \<union> set (dropWhile ?P xs)" by (metis set_append takeWhile_dropWhile_id)
  then show "set (put_rank c xs) = insert c (set xs)" by (auto simp: put_rank_def)
  assume "distinct xs" "c \<notin> set xs"
  moreover then have "distinct (takeWhile ?P xs @ dropWhile ?P xs)" by simp
  ultimately show "distinct (put_rank c xs)" using split unfolding put_rank_def distinct_append by auto
qed

lemma rank_distinct: "distinct (map candidate_rank xs) = distinct xs"
  using rank_inj by (metis distinct_map inj_on_subset subset_UNIV)

lemma put_rank_sort:
  assumes "distinct (xs @ [c])"
  shows "sort_key candidate_rank (xs @ [c]) = put_rank c (sort_key candidate_rank xs)"
proof (rule map_sorted_distinct_set_unique [where f = candidate_rank])
  show "inj_on candidate_rank (set (sort_key candidate_rank (xs @ [c])) \<union> set (put_rank c (sort_key candidate_rank xs)))"
    using rank_inj by (rule inj_on_subset) simp
  show "sorted (map candidate_rank (sort_key candidate_rank (xs @ [c])))" by (rule sorted_sort_key)
  show "sorted (map candidate_rank (put_rank c (sort_key candidate_rank xs)))" by (simp only: put_rank_sorted sorted_sort_key)
  show "distinct (map candidate_rank (sort_key candidate_rank (xs @ [c])))" using assms by (simp only: rank_distinct distinct_sort)
  show "distinct (map candidate_rank (put_rank c (sort_key candidate_rank xs)))"
    using assms by (simp add: rank_distinct put_rank_set)
  show "set (sort_key candidate_rank (xs @ [c])) = set (put_rank c (sort_key candidate_rank xs))"
    by (simp add: put_rank_set)
qed

lemma take_put_rank: "take n (put_rank c (take n xs)) = take n (put_rank c xs)"
proof (induction xs arbitrary: n)
  case (Cons x xs)
  show ?case
  proof (cases n)
    case (Suc m)
    show ?thesis
    proof (cases "candidate_rank c < candidate_rank x")
      case True
      then show ?thesis using Suc by (cases m) (simp_all add: put_rank_def)
    next
      case False
      then show ?thesis using Suc Cons.IH [of m] by (simp add: put_rank_def)
    qed
  qed simp
qed simp

text \<open>The insertion loop walks from the end.\<close>

lemma insertion_point:
  assumes "sorted (map candidate_rank xs)"
  shows "length xs - length (takeWhile (\<lambda>x. candidate_rank c < candidate_rank x) (rev xs))
    = length (takeWhile (\<lambda>x. \<not> candidate_rank c < candidate_rank x) xs)"
  using assms
proof (induction xs)
  case (Cons x xs)
  show ?case
  proof (cases "candidate_rank c < candidate_rank x")
    case True
    then have "\<forall>y \<in> set (x # xs). candidate_rank c < candidate_rank y" using Cons.prems by auto
    then have "takeWhile (\<lambda>x. candidate_rank c < candidate_rank x) (rev (x # xs)) = rev (x # xs)"
      by (intro takeWhile_eq_all_conv [THEN iffD2]) simp
    then show ?thesis using True by (simp only: length_rev diff_self_eq_0 takeWhile.simps not_True_eq_False if_False list.size)
  next
    case False
    let ?t = "takeWhile (\<lambda>x. candidate_rank c < candidate_rank x) (rev xs)"
    have "takeWhile (\<lambda>x. candidate_rank c < candidate_rank x) (rev (x # xs)) = ?t"
      using False by (simp add: takeWhile_tail)
    moreover have "length ?t \<le> length xs" by (metis length_rev length_takeWhile_le)
    ultimately show ?thesis using False Cons by (simp add: Suc_diff_le)
  qed
qed simp

lemma push_put_rank:
  assumes "sorted (map candidate_rank xs)" "length xs \<le> EMIT_LIMIT"
  shows "pushTopK xs c = take EMIT_LIMIT (put_rank c xs)"
proof -
  let ?P = "\<lambda>x. \<not> candidate_rank c < candidate_rank x"
  let ?i = "length (takeWhile ?P xs)"
  have grown: "take ?i xs @ c # drop ?i xs = put_rank c xs"
    by (simp add: put_rank_def takeWhile_eq_take [symmetric] dropWhile_eq_drop [symmetric])
  have len: "length (put_rank c xs) = Suc (length xs)" by (metis grown append_take_drop_id length_append_singleton
      length_append list.size(4) add_Suc_right One_nat_def add.right_neutral)
  show ?thesis
  proof (cases "EMIT_LIMIT \<le> ?i")
    case True
    then have "?i = length xs" "length xs = EMIT_LIMIT" using assms(2) length_takeWhile_le [of ?P xs] by simp_all
    then have "take EMIT_LIMIT (put_rank c xs) = xs" unfolding grown [symmetric] by simp
    then show ?thesis using True by (simp add: pushTopK_def insertion_point [OF assms(1)])
  next
    case False
    have "butlast (put_rank c xs) = take EMIT_LIMIT (put_rank c xs)" if "EMIT_LIMIT < length (put_rank c xs)"
    proof -
      have "EMIT_LIMIT = length xs" using that len assms(2) by simp
      then show ?thesis using len by (simp add: butlast_conv_take)
    qed
    then show ?thesis using False by (simp add: pushTopK_def insertion_point [OF assms(1)] grown Let_def)
  qed
qed

lemma push_best: "distinct (xs @ [c]) \<Longrightarrow> pushTopK (best_of xs) c = best_of (xs @ [c])"
  by (subst push_put_rank) (simp_all add: best_of_def take_map [symmetric] sorted_wrt_take put_rank_sort take_put_rank)

lemma push_all:
  assumes "distinct xs"
  shows "foldl (\<lambda>r c. if P c then pushTopK r c else r) [] xs = best_of (filter P xs)"
  using assms
proof (induction xs rule: rev_induct)
  case (snoc x xs)
  then show ?case by (auto simp: push_best)
qed (simp add: best_of_def)

subsection \<open>Live events\<close>

text \<open>The events behind \<open>head\<close>, each with the number of the snapshot that made it.\<close>

definition live :: "IncrementalPeakWallSource \<Rightarrow> (AskPeakCandidate \<times> nat) list" where
  "live s = zip (drop (iw_head s) (iw_events s)) (drop (iw_head s) (iw_eventSeq s))"

definition index_ok :: "IncrementalPeakWallSource \<Rightarrow> bool" where
  "index_ok s \<longleftrightarrow> length (iw_eventSeq s) = length (iw_events s) \<and> iw_head s \<le> length (iw_events s)
     \<and> (\<forall>k i. iw_eventIndexByKey s k = Some i \<longrightarrow> i < length (iw_events s) \<and> wall_key (iw_events s ! i) = k)
     \<and> (\<forall>i. iw_head s \<le> i \<and> i < length (iw_events s) \<longrightarrow> iw_eventIndexByKey s (wall_key (iw_events s ! i)) = Some i)"

lemma index_okD:
  assumes "index_ok s"
  shows "length (iw_eventSeq s) = length (iw_events s)" "iw_head s \<le> length (iw_events s)"
    and "iw_eventIndexByKey s k = Some i \<Longrightarrow> i < length (iw_events s)"
    and "iw_eventIndexByKey s k = Some i \<Longrightarrow> wall_key (iw_events s ! i) = k"
    and "iw_head s \<le> i \<Longrightarrow> i < length (iw_events s) \<Longrightarrow> iw_eventIndexByKey s (wall_key (iw_events s ! i)) = Some i"
  using assms unfolding index_ok_def by blast+

lemma index_okI:
  assumes "length (iw_eventSeq s) = length (iw_events s)" "iw_head s \<le> length (iw_events s)"
    and "\<And>k i. iw_eventIndexByKey s k = Some i \<Longrightarrow> i < length (iw_events s) \<and> wall_key (iw_events s ! i) = k"
    and "\<And>i. iw_head s \<le> i \<Longrightarrow> i < length (iw_events s) \<Longrightarrow> iw_eventIndexByKey s (wall_key (iw_events s ! i)) = Some i"
  shows "index_ok s"
  using assms unfolding index_ok_def by blast

fun put_seq :: "nat \<Rightarrow> AskPeakCandidate \<Rightarrow> (AskPeakCandidate \<times> nat) list \<Rightarrow> (AskPeakCandidate \<times> nat) list" where
  "put_seq q c [] = [(c, q)]"
| "put_seq q c ((x, r) # l) = (if wall_key x = wall_key c then (if pk_qty x < pk_qty c then (c, r) # l else (x, r) # l)
     else (x, r) # put_seq q c l)"

lemma put_seq_walls: "map fst (put_seq q c l) = put_wall c (map fst l)"
  by (induction q c l rule: put_seq.induct) simp_all

lemma put_seq_new: "wall_key c \<notin> wall_key ` fst ` set l \<Longrightarrow> put_seq q c l = l @ [(c, q)]"
  by (induction q c l rule: put_seq.induct) auto

lemma put_seq_at:
  assumes "j < length l" "wall_key (fst (l ! j)) = wall_key c" "\<And>i. i < j \<Longrightarrow> wall_key (fst (l ! i)) \<noteq> wall_key c"
  shows "put_seq q c l = (if pk_qty (fst (l ! j)) < pk_qty c then l[j := (c, snd (l ! j))] else l)"
  using assms
proof (induction q c l arbitrary: j rule: put_seq.induct)
  case (2 q c x r l)
  show ?case
  proof (cases j)
    case 0
    then show ?thesis using "2.prems" by simp
  next
    case (Suc i)
    have "wall_key x \<noteq> wall_key c" using "2.prems"(3) [of 0] Suc by simp
    moreover have "wall_key (fst (l ! m)) \<noteq> wall_key c" if "m < i" for m using "2.prems"(3) [of "Suc m"] that Suc by simp
    then have "put_seq q c l = (if pk_qty (fst (l ! i)) < pk_qty c then l[i := (c, snd (l ! i))] else l)"
      using "2.prems" Suc calculation by (intro "2.IH") simp_all
    ultimately show ?thesis using Suc by simp
  qed
qed simp

lemma live_nth:
  assumes "index_ok s" "j < length (live s)"
  shows "live s ! j = (iw_events s ! (iw_head s + j), iw_eventSeq s ! (iw_head s + j))"
  using assms by (simp add: live_def index_ok_def)

lemma length_live: "index_ok s \<Longrightarrow> length (live s) = length (iw_events s) - iw_head s"
  by (simp add: live_def index_ok_def)

lemma live_key:
  assumes "index_ok s" "j < length (live s)"
  shows "iw_eventIndexByKey s (wall_key (fst (live s ! j))) = Some (iw_head s + j)"
  using index_okD(5) [OF assms(1), of "iw_head s + j"] live_nth [OF assms] length_live [OF assms(1)] assms(2) by simp

text \<open>What the index says about a key.\<close>

lemma key_found:
  assumes "index_ok s" "iw_eventIndexByKey s k = Some i" "iw_head s \<le> i"
  shows "i - iw_head s < length (live s)" "wall_key (fst (live s ! (i - iw_head s))) = k"
    and "j < length (live s) \<Longrightarrow> wall_key (fst (live s ! j)) = k \<Longrightarrow> j = i - iw_head s"
proof -
  show len: "i - iw_head s < length (live s)" using index_okD(3) [OF assms(1,2)] assms(3) by (simp add: length_live [OF assms(1)])
  show "wall_key (fst (live s ! (i - iw_head s))) = k"
    using index_okD(4) [OF assms(1,2)] live_nth [OF assms(1) len] assms(3) by simp
  show "j = i - iw_head s" if "j < length (live s)" "wall_key (fst (live s ! j)) = k"
    using live_key [OF assms(1) that(1)] that(2) assms(2) by simp
qed

lemma key_missing:
  assumes "index_ok s" "\<And>i. iw_eventIndexByKey s k = Some i \<Longrightarrow> i < iw_head s"
  shows "j < length (live s) \<Longrightarrow> wall_key (fst (live s ! j)) \<noteq> k"
  using live_key [OF assms(1)] assms(2) by fastforce

lemma live_keys_distinct:
  assumes "index_ok s"
  shows "distinct (map (wall_key \<circ> fst) (live s))"
proof -
  have "i = j" if "i < length (live s)" "j < length (live s)" "wall_key (fst (live s ! i)) = wall_key (fst (live s ! j))" for i j
    using live_key [OF assms that(1)] live_key [OF assms that(2)] unfolding that(3) by (metis add_left_cancel option.inject)
  then show ?thesis unfolding distinct_conv_nth by fastforce
qed

text \<open>Consuming one wall is one insertion into the live events.\<close>

definition clashes :: "nat \<Rightarrow> AskPeakCandidate \<Rightarrow> (AskPeakCandidate \<times> nat) list \<Rightarrow> bool" where
  "clashes q c l \<longleftrightarrow> (\<exists>(x, r) \<in> set l. wall_key x = wall_key c \<and> r \<noteq> q)"

lemma clashes_nth: "clashes q c l \<longleftrightarrow> (\<exists>j < length l. wall_key (fst (l ! j)) = wall_key c \<and> snd (l ! j) \<noteq> q)"
  unfolding clashes_def by (auto simp: in_set_conv_nth) force+

lemma append_wall:
  fixes q :: nat and c :: AskPeakCandidate
  assumes "index_ok s" "\<And>i. iw_eventIndexByKey s (wall_key c) = Some i \<Longrightarrow> i < iw_head s"
  defines "s' \<equiv> s\<lparr>iw_eventIndexByKey := (iw_eventIndexByKey s)(wall_key c \<mapsto> length (iw_events s)),
      iw_events := iw_events s @ [c], iw_eventSeq := iw_eventSeq s @ [q]\<rparr>"
  shows "index_ok s'" "live s' = put_seq q c (live s)" "\<not> clashes q c (live s)"
proof -
  note ok = index_okD [OF assms(1)]
  have missing: "wall_key (fst (live s ! j)) \<noteq> wall_key c" if "j < length (live s)" for j
    using key_missing [OF assms(1) _ that, of "wall_key c"] assms(2) by blast
  have old: "wall_key (iw_events s ! i) \<noteq> wall_key c" if "iw_head s \<le> i" "i < length (iw_events s)" for i
    using ok(5) [OF that] assms(2) [of i] that by auto
  show "index_ok s'"
  proof (rule index_okI)
    show "length (iw_eventSeq s') = length (iw_events s')" "iw_head s' \<le> length (iw_events s')" using ok by (simp_all add: s'_def)
    show "i < length (iw_events s') \<and> wall_key (iw_events s' ! i) = k" if "iw_eventIndexByKey s' k = Some i" for k i
      using ok(3,4) [of k i] that by (auto simp: s'_def nth_append split: if_splits)
    show "iw_eventIndexByKey s' (wall_key (iw_events s' ! i)) = Some i" if "iw_head s' \<le> i" "i < length (iw_events s')" for i
      using ok(5) [of i] old [of i] that by (auto simp: s'_def nth_append less_Suc_eq)
  qed
  have "put_seq q c (live s) = live s @ [(c, q)]"
  proof (rule put_seq_new)
    have "wall_key (fst x) \<noteq> wall_key c" if x: "x \<in> set (live s)" for x
    proof -
      obtain j where "j < length (live s)" "x = live s ! j" using x by (auto simp: in_set_conv_nth)
      then show ?thesis using missing by simp
    qed
    then show "wall_key c \<notin> wall_key ` fst ` set (live s)" by (metis imageE)
  qed
  then show "live s' = put_seq q c (live s)" using ok by (simp add: live_def s'_def)
  show "\<not> clashes q c (live s)" using missing by (auto simp: clashes_nth)
qed

lemma replace_wall:
  assumes "index_ok s" "iw_eventIndexByKey s (wall_key c) = Some i" "iw_head s \<le> i"
  shows "index_ok (s\<lparr>iw_events := (iw_events s)[i := c]\<rparr>)"
    and "live (s\<lparr>iw_events := (iw_events s)[i := c]\<rparr>) = (live s)[i - iw_head s := (c, iw_eventSeq s ! i)]"
proof -
  note ok = index_okD [OF assms(1)]
  note i = ok(3,4) [OF assms(2)]
  have keys: "wall_key ((iw_events s)[i := c] ! j) = wall_key (iw_events s ! j)" for j
    using i by (cases "j = i") simp_all
  show "index_ok (s\<lparr>iw_events := (iw_events s)[i := c]\<rparr>)"
    using ok by (intro index_okI) (simp_all add: keys)
  show "live (s\<lparr>iw_events := (iw_events s)[i := c]\<rparr>) = (live s)[i - iw_head s := (c, iw_eventSeq s ! i)]"
    using assms(3) i(1) ok by (intro nth_equalityI) (auto simp: live_def nth_list_update)
qed

lemma consume_wall_live:
  assumes "index_ok s"
  shows "index_ok (consume_wall q s c)" "live (consume_wall q s c) = put_seq q c (live s)"
    and "iw_tMsCollisionSeen (consume_wall q s c) = (iw_tMsCollisionSeen s \<or> clashes q c (live s))"
proof -
  let ?k = "wall_key c"
  show "index_ok (consume_wall q s c)" "live (consume_wall q s c) = put_seq q c (live s)"
    "iw_tMsCollisionSeen (consume_wall q s c) = (iw_tMsCollisionSeen s \<or> clashes q c (live s))"
  proof (atomize(full), cases "\<exists>i. iw_eventIndexByKey s ?k = Some i \<and> iw_head s \<le> i")
    case True
    then obtain i where i: "iw_eventIndexByKey s ?k = Some i" "iw_head s \<le> i" by blast
    let ?j = "i - iw_head s"
    note found = key_found [OF assms i]
    have at: "live s ! ?j = (iw_events s ! i, iw_eventSeq s ! i)" using live_nth [OF assms found(1)] i(2) by simp
    have put: "put_seq q c (live s) = (if pk_qty (iw_events s ! i) < pk_qty c then (live s)[?j := (c, iw_eventSeq s ! i)] else live s)"
    proof -
      have "wall_key (fst (live s ! m)) \<noteq> ?k" if "m < ?j" for m using found(1) found(3) [of m] that by auto
      from put_seq_at [OF found(1,2) this] show ?thesis by (simp only: at fst_conv snd_conv)
    qed
    have clash: "clashes q c (live s) \<longleftrightarrow> iw_eventSeq s ! i \<noteq> q"
      unfolding clashes_nth using found at by (metis snd_conv)
    define s1 where "s1 = (if iw_eventSeq s ! i \<noteq> q then s\<lparr>iw_tMsCollisionSeen := True\<rparr> else s)"
    have s1: "index_ok s1" "live s1 = live s" "iw_eventIndexByKey s1 = iw_eventIndexByKey s" "iw_head s1 = iw_head s"
        "iw_eventSeq s1 = iw_eventSeq s" "iw_tMsCollisionSeen s1 = (iw_tMsCollisionSeen s \<or> iw_eventSeq s ! i \<noteq> q)"
      using assms by (auto simp: s1_def index_ok_def live_def)
    have "consume_wall q s c = (if pk_qty (iw_events s ! i) < pk_qty c then s1\<lparr>iw_events := (iw_events s1)[i := c]\<rparr> else s1)"
      using i by (simp add: consume_wall_def s1_def [symmetric] Let_def not_less)
    then show "index_ok (consume_wall q s c) \<and> live (consume_wall q s c) = put_seq q c (live s)
        \<and> iw_tMsCollisionSeen (consume_wall q s c) = (iw_tMsCollisionSeen s \<or> clashes q c (live s))"
      using s1 put clash replace_wall [OF s1(1), of c i] i by simp
  next
    case False
    then have missing: "i < iw_head s" if "iw_eventIndexByKey s ?k = Some i" for i using that by (meson not_le)
    have "consume_wall q s c = s\<lparr>iw_eventIndexByKey := (iw_eventIndexByKey s)(?k \<mapsto> length (iw_events s)),
        iw_events := iw_events s @ [c], iw_eventSeq := iw_eventSeq s @ [q]\<rparr>"
      using missing by (auto simp: consume_wall_def split: option.split)
    then show "index_ok (consume_wall q s c) \<and> live (consume_wall q s c) = put_seq q c (live s)
        \<and> iw_tMsCollisionSeen (consume_wall q s c) = (iw_tMsCollisionSeen s \<or> clashes q c (live s))"
      using append_wall [OF assms missing, where q = q] by simp
  qed
qed

subsection \<open>The events of a window of books\<close>

definition book_walls :: "BookSide \<Rightarrow> ms \<Rightarrow> ObSnapshot \<Rightarrow> AskPeakCandidate list" where
  "book_walls side sessionOpenMs b = foldl (\<lambda>walls c. put_wall c walls) [] (snapshot_walls side sessionOpenMs b)"

text \<open>The events of each book on its own, with the number of the book.\<close>

fun tagged :: "BookSide \<Rightarrow> ms \<Rightarrow> nat \<Rightarrow> ObSnapshot list \<Rightarrow> (AskPeakCandidate \<times> nat) list" where
  "tagged side sessionOpenMs q [] = []"
| "tagged side sessionOpenMs q (b # bs) = map (\<lambda>c. (c, q)) (book_walls side sessionOpenMs b) @ tagged side sessionOpenMs (Suc q) bs"

lemma tagged_snoc:
  "tagged side op q (bs @ [b]) = tagged side op q bs @ map (\<lambda>c. (c, q + length bs)) (book_walls side op b)"
  by (induction bs arbitrary: q) simp_all

lemma tagged_seq: "(x, r) \<in> set (tagged side op q bs) \<Longrightarrow> q \<le> r \<and> r < q + length bs"
  by (induction bs arbitrary: q) fastforce+

lemma tagged_drop: "n \<le> length bs \<Longrightarrow> dropWhile (\<lambda>e. snd e < q + n) (tagged side op q bs) = tagged side op (q + n) (drop n bs)"
proof (induction n arbitrary: q bs)
  case 0
  show ?case
  proof (cases "tagged side op q bs")
    case (Cons e es)
    then have "q \<le> snd e" using tagged_seq [of "fst e" "snd e" side op q bs] by simp
    then show ?thesis using Cons by simp
  qed simp
next
  case (Suc n)
  then obtain b bs' where bs: "bs = b # bs'" by (cases bs) auto
  have "dropWhile (\<lambda>e. snd e < q + Suc n) (map (\<lambda>c. (c, q)) w @ l) = dropWhile (\<lambda>e. snd e < Suc q + n) l" for w :: "AskPeakCandidate list" and l
    by (induction w) simp_all
  then show ?case using Suc.IH [of bs' "Suc q"] Suc.prems by (simp add: bs)
qed

lemma put_walls_keys: "wall_key ` set (foldl (\<lambda>walls c. put_wall c walls) ws cs) = wall_key ` set ws \<union> wall_key ` set cs"
proof (induction cs arbitrary: ws)
  case (Cons c cs)
  have "wall_key ` set (put_wall c ws) = insert (wall_key c) (wall_key ` set ws)" by (induction c ws rule: put_wall.induct) auto
  then show ?case using Cons.IH by auto
qed simp

lemma put_walls_append:
  assumes "wall_key ` set cs \<inter> wall_key ` set xs = {}"
  shows "foldl (\<lambda>walls c. put_wall c walls) (xs @ ys) cs = xs @ foldl (\<lambda>walls c. put_wall c walls) ys cs"
  using assms
proof (induction cs arbitrary: ys)
  case (Cons c cs)
  have "put_wall c (xs @ ys) = xs @ put_wall c ys" using Cons.prems by (induction xs) auto
  then show ?case using Cons by auto
qed simp

lemma walls_snoc: "toWallEventsFromOrderbooks (bs @ [b]) side op
  = foldl (\<lambda>walls c. put_wall c walls) (toWallEventsFromOrderbooks bs side op) (snapshot_walls side op b)"
  by (simp add: toWallEventsFromOrderbooks_def)

text \<open>When no key occurs in two books the classifier lists the books one after the other.\<close>

lemma walls_tagged:
  assumes "distinct (map (wall_key \<circ> fst) (tagged side op q bs))"
  shows "toWallEventsFromOrderbooks bs side op = map fst (tagged side op q bs)"
  using assms
proof (induction bs rule: rev_induct)
  case (snoc b bs)
  let ?old = "map fst (tagged side op q bs)"
  have apart: "wall_key ` set ?old \<inter> wall_key ` set (book_walls side op b) = {}"
    and dist: "distinct (map (wall_key \<circ> fst) (tagged side op q bs))"
    using snoc.prems by (auto simp: tagged_snoc o_def)
  moreover have "wall_key ` set (book_walls side op b) = wall_key ` set (snapshot_walls side op b)"
    by (simp add: book_walls_def put_walls_keys)
  ultimately have "toWallEventsFromOrderbooks (bs @ [b]) side op = ?old @ book_walls side op b"
    using apart snoc.IH [OF dist] put_walls_append [of "snapshot_walls side op b" ?old "[]"]
    by (simp add: walls_snoc book_walls_def Int_commute)
  then show ?case by (simp add: tagged_snoc o_def)
qed (simp add: toWallEventsFromOrderbooks_def)

text \<open>Consuming a book, on the live events alone.\<close>

definition put_book :: "nat \<Rightarrow> AskPeakCandidate list \<Rightarrow> (AskPeakCandidate \<times> nat) list \<Rightarrow> (AskPeakCandidate \<times> nat) list" where
  "put_book q cs l = foldl (\<lambda>l c. put_seq q c l) l cs"

lemma put_book_walls: "map fst (put_book q cs l) = foldl (\<lambda>walls c. put_wall c walls) (map fst l) cs"
  unfolding put_book_def by (induction cs arbitrary: l) (simp_all add: put_seq_walls)

lemma put_seq_apart:
  assumes "\<not> clashes q c (l @ map (\<lambda>c. (c, q)) ws)" "\<And>x r. (x, r) \<in> set l \<Longrightarrow> r \<noteq> q"
  shows "put_seq q c (l @ map (\<lambda>c. (c, q)) ws) = l @ map (\<lambda>c. (c, q)) (put_wall c ws)"
proof -
  have "put_seq q c (map (\<lambda>c. (c, q)) ws) = map (\<lambda>c. (c, q)) (put_wall c ws)" by (induction c ws rule: put_wall.induct) simp_all
  moreover have "\<forall>e \<in> set l. wall_key (fst e) \<noteq> wall_key c"
    using assms by (fastforce simp: clashes_def)
  then have "put_seq q c (l @ m) = l @ put_seq q c m" for m by (induction l) (auto simp: split_def)
  ultimately show ?thesis by simp
qed

lemma consume_walls_live:
  assumes "index_ok s"
  shows "index_ok (foldl (consume_wall q) s cs)" "live (foldl (consume_wall q) s cs) = put_book q cs (live s)"
    and "iw_tMsCollisionSeen s \<Longrightarrow> iw_tMsCollisionSeen (foldl (consume_wall q) s cs)"
proof -
  show "index_ok (foldl (consume_wall q) s cs)" "live (foldl (consume_wall q) s cs) = put_book q cs (live s)"
    "iw_tMsCollisionSeen s \<Longrightarrow> iw_tMsCollisionSeen (foldl (consume_wall q) s cs)"
    using assms unfolding put_book_def by (induction cs arbitrary: s) (simp_all add: consume_wall_live)
qed

lemma consume_walls_apart:
  assumes "index_ok s" "live s = l @ map (\<lambda>c. (c, q)) ws" "\<And>x r. (x, r) \<in> set l \<Longrightarrow> r \<noteq> q"
    and "\<not> iw_tMsCollisionSeen (foldl (consume_wall q) s cs)"
  shows "live (foldl (consume_wall q) s cs) = l @ map (\<lambda>c. (c, q)) (foldl (\<lambda>walls c. put_wall c walls) ws cs)"
  using assms
proof (induction cs arbitrary: s ws)
  case (Cons c cs)
  let ?s = "consume_wall q s c"
  note step = consume_wall_live [OF Cons.prems(1), of q c]
  have "\<not> iw_tMsCollisionSeen ?s" using Cons.prems(4) consume_walls_live(3) [OF step(1)] by auto
  then have "\<not> clashes q c (l @ map (\<lambda>c. (c, q)) ws)" using step(3) Cons.prems(2) by simp
  then have "live ?s = l @ map (\<lambda>c. (c, q)) (put_wall c ws)"
    using step(2) Cons.prems(2,3) put_seq_apart by metis
  then show ?case using Cons.IH [OF step(1)] Cons.prems(3,4) by simp
qed simp

subsection \<open>The books consumed so far\<close>

definition books_ok :: "ms \<Rightarrow> ObSnapshot list \<Rightarrow> IncrementalPeakWallSource \<Rightarrow> bool" where
  "books_ok op bs s \<longleftrightarrow> index_ok s \<and> map fst (live s) = toWallEventsFromOrderbooks bs (iw_side s) op
     \<and> iw_consumedObSeq s = iw_obBaseSeq s + length bs
     \<and> (\<not> iw_tMsCollisionSeen s \<longrightarrow> live s = tagged (iw_side s) op (iw_obBaseSeq s) bs)"

text \<open>The fields that hold the events; everything else is left alone.\<close>

definition same_events :: "IncrementalPeakWallSource \<Rightarrow> IncrementalPeakWallSource \<Rightarrow> bool" where
  "same_events s s' \<longleftrightarrow> iw_events s' = iw_events s \<and> iw_eventIndexByKey s' = iw_eventIndexByKey s \<and> iw_head s' = iw_head s
     \<and> iw_eventSeq s' = iw_eventSeq s \<and> iw_consumedObSeq s' = iw_consumedObSeq s \<and> iw_obBaseSeq s' = iw_obBaseSeq s
     \<and> iw_tMsCollisionSeen s' = iw_tMsCollisionSeen s \<and> iw_side s' = iw_side s"

definition same_touches :: "IncrementalPeakWallSource \<Rightarrow> IncrementalPeakWallSource \<Rightarrow> bool" where
  "same_touches s s' \<longleftrightarrow> iw_touchCounts s' = iw_touchCounts s \<and> iw_touchTimes s' = iw_touchTimes s
     \<and> iw_touchPrices s' = iw_touchPrices s \<and> iw_touchesByWindow s' = iw_touchesByWindow s
     \<and> iw_extremeByWindow s' = iw_extremeByWindow s \<and> iw_tradeExtreme s' = iw_tradeExtreme s \<and> iw_side s' = iw_side s"

definition same_session :: "IncrementalPeakWallSource \<Rightarrow> IncrementalPeakWallSource \<Rightarrow> bool" where
  "same_session s s' \<longleftrightarrow> iw_sessionOpenMs s' = iw_sessionOpenMs s \<and> iw_side s' = iw_side s"

lemma same_live: "same_events s s' \<Longrightarrow> live s' = live s \<and> index_ok s' = index_ok s"
  by (simp add: same_events_def live_def index_ok_def)

lemma same_books: "same_events s s' \<Longrightarrow> books_ok op bs s \<Longrightarrow> books_ok op bs s'"
  using same_live [of s s'] by (simp add: books_ok_def same_events_def)

lemma consume_wall_frame:
  "same_touches s (consume_wall q s c)" "same_session s (consume_wall q s c)"
  "iw_consumedObSeq (consume_wall q s c) = iw_consumedObSeq s" "iw_obBaseSeq (consume_wall q s c) = iw_obBaseSeq s"
  by (auto simp: consume_wall_def same_touches_def same_session_def Let_def split: option.split)

lemma consume_walls_frame:
  "same_touches s (foldl (consume_wall q) s cs) \<and> same_session s (foldl (consume_wall q) s cs)
   \<and> iw_consumedObSeq (foldl (consume_wall q) s cs) = iw_consumedObSeq s
   \<and> iw_obBaseSeq (foldl (consume_wall q) s cs) = iw_obBaseSeq s"
proof (induction cs arbitrary: s)
  case (Cons c cs)
  show ?case using Cons [of "consume_wall q s c"] consume_wall_frame [where s = s and q = q and c = c] by (simp add: same_touches_def same_session_def)
qed (simp add: same_touches_def same_session_def)

lemma consume_book_ok:
  assumes "books_ok op bs s"
  shows "books_ok op (bs @ [b]) (consume_book op s b)" "same_touches s (consume_book op s b)" "same_session s (consume_book op s b)"
proof -
  let ?q = "iw_consumedObSeq s" and ?cs = "snapshot_walls (iw_side s) op b"
  let ?s0 = "s\<lparr>iw_consumedObSeq := Suc (iw_consumedObSeq s)\<rparr>"
  let ?s' = "consume_book op s b"
  have s': "?s' = foldl (consume_wall ?q) ?s0 ?cs" by (simp add: consume_book_def)
  have s0: "index_ok ?s0" "live ?s0 = live s" using assms by (simp_all add: books_ok_def index_ok_def live_def)
  note frame = consume_walls_frame [of ?s0 ?q ?cs, folded s']
  note consumed = consume_walls_live [OF s0(1), of ?q ?cs, folded s']
  have side: "iw_side ?s' = iw_side s" using frame by (simp add: same_session_def)
  have "live ?s' = tagged (iw_side s) op (iw_obBaseSeq s) (bs @ [b])" if c: "\<not> iw_tMsCollisionSeen ?s'"
  proof -
    have "\<not> iw_tMsCollisionSeen s" using consumed(3) c by auto
    then have l: "live s = tagged (iw_side s) op (iw_obBaseSeq s) bs" using assms by (simp add: books_ok_def)
    have q: "?q = iw_obBaseSeq s + length bs" using assms by (simp add: books_ok_def)
    have "r \<noteq> ?q" if "(x, r) \<in> set (tagged (iw_side s) op (iw_obBaseSeq s) bs)" for x r
      using tagged_seq [OF that] q by simp
    then have "live ?s' = tagged (iw_side s) op (iw_obBaseSeq s) bs @ map (\<lambda>c. (c, ?q)) (foldl (\<lambda>walls c. put_wall c walls) [] ?cs)"
      using l c unfolding s' by (intro consume_walls_apart [OF s0(1)]) (simp_all add: s0(2))
    then show ?thesis by (simp add: q tagged_snoc book_walls_def)
  qed
  moreover have "map fst (live ?s') = toWallEventsFromOrderbooks (bs @ [b]) (iw_side s) op"
    using assms consumed(2) [unfolded s0(2)] by (simp add: put_book_walls walls_snoc books_ok_def)
  ultimately show "books_ok op (bs @ [b]) ?s'"
    using assms consumed(1) frame side by (simp add: books_ok_def)
  show "same_touches s ?s'" "same_session s ?s'" using frame by (simp_all add: same_touches_def same_session_def)
qed

lemma consumeOb_ok:
  assumes "books_ok op bs s"
  shows "books_ok op (bs @ cs) (consumeOb op cs s)" "same_touches s (consumeOb op cs s)" "same_session s (consumeOb op cs s)"
proof -
  have "books_ok op (bs @ cs) (consumeOb op cs s) \<and> same_touches s (consumeOb op cs s) \<and> same_session s (consumeOb op cs s)"
    using assms unfolding consumeOb_def
  proof (induction cs arbitrary: s bs)
    case (Cons c cs)
    note step = consume_book_ok [OF Cons.prems, of c]
    show ?case using Cons.IH [OF step(1)] step(2,3) by (simp add: same_touches_def same_session_def)
  qed (simp add: same_touches_def same_session_def)
  then show "books_ok op (bs @ cs) (consumeOb op cs s)" "same_touches s (consumeOb op cs s)" "same_session s (consumeOb op cs s)" by simp_all
qed

text \<open>Compaction keeps the live events and rebuilds the index for them.\<close>

lemma index_list:
  "foldl (\<lambda>m i. m(f i \<mapsto> i)) m [0..<n] k = (case find (\<lambda>i. f i = k) (rev [0..<n]) of Some i \<Rightarrow> Some i | None \<Rightarrow> m k)"
  by (induction n) simp_all

lemma compact_ok:
  assumes "index_ok s"
  shows "index_ok (compactEvents s)" "live (compactEvents s) = live s"
proof -
  note ok = index_okD [OF assms]
  let ?ev = "drop (iw_head s) (iw_events s)"
  let ?m = "foldl (\<lambda>m i. m(wall_key (?ev ! i) \<mapsto> i)) (\<lambda>_. None) [0..<length ?ev]"
  have same: "i = j" if "i < length ?ev" "j < length ?ev" "wall_key (?ev ! i) = wall_key (?ev ! j)" for i j
  proof -
    have "iw_eventIndexByKey s (wall_key (?ev ! i)) = Some (iw_head s + i)" "iw_eventIndexByKey s (wall_key (?ev ! j)) = Some (iw_head s + j)"
      using ok(2) ok(5) [of "iw_head s + i"] ok(5) [of "iw_head s + j"] that(1,2) by simp_all
    then show ?thesis unfolding that(3) by simp
  qed
  have m: "?m k = find (\<lambda>i. wall_key (?ev ! i) = k) (rev [0..<length ?ev])" for k
    unfolding index_list by (simp split: option.split)
  have "index_ok (s\<lparr>iw_events := ?ev, iw_eventSeq := drop (iw_head s) (iw_eventSeq s), iw_eventIndexByKey := ?m, iw_head := 0\<rparr>)"
  proof (rule index_okI, goal_cases)
    case (3 k i)
    then have "find (\<lambda>i. wall_key (?ev ! i) = k) (rev [0..<length ?ev]) = Some i" unfolding m [symmetric] by simp
    then show ?case by (auto simp: find_Some_iff rev_nth)
  next
    case (4 i)
    then have i: "i < length ?ev" by simp
    then obtain j where j: "find (\<lambda>j. wall_key (?ev ! j) = wall_key (?ev ! i)) (rev [0..<length ?ev]) = Some j"
      by (cases "find (\<lambda>j. wall_key (?ev ! j) = wall_key (?ev ! i)) (rev [0..<length ?ev])") (auto simp: find_None_iff)
    then have "j < length ?ev" "wall_key (?ev ! j) = wall_key (?ev ! i)" by (auto simp: find_Some_iff rev_nth)
    then have "j = i" using same i by blast
    then show ?case using j unfolding m [symmetric] by simp
  qed (use ok in simp_all)
  then show "index_ok (compactEvents s)" using assms by (simp add: compactEvents_def Let_def)
  show "live (compactEvents s) = live s" by (simp add: compactEvents_def live_def Let_def)
qed

lemma compact_frame: "same_touches s (compactEvents s)" "same_session s (compactEvents s)"
  "iw_consumedObSeq (compactEvents s) = iw_consumedObSeq s" "iw_obBaseSeq (compactEvents s) = iw_obBaseSeq s"
  "iw_tMsCollisionSeen (compactEvents s) = iw_tMsCollisionSeen s"
  by (simp_all add: compactEvents_def same_touches_def same_session_def Let_def)

lemma evictOb_ok:
  assumes "books_ok op bs s" "n \<le> length bs" "\<not> iw_tMsCollisionSeen s"
  shows "books_ok op (drop n bs) (evictOb n s)" "same_touches s (evictOb n s)" "same_session s (evictOb n s)"
    and "\<not> iw_tMsCollisionSeen (evictOb n s)"
proof -
  let ?base = "iw_obBaseSeq s + n"
  let ?k = "length (takeWhile (\<lambda>q. q < ?base) (drop (iw_head s) (iw_eventSeq s)))"
  let ?s1 = "s\<lparr>iw_obBaseSeq := ?base, iw_head := iw_head s + ?k\<rparr>"
  have e: "evictOb n s = compactEvents ?s1" by (simp add: evictOb_def Let_def)
  have ok: "index_ok s" and l: "live s = tagged (iw_side s) op (iw_obBaseSeq s) bs"
    and cons: "iw_consumedObSeq s = iw_obBaseSeq s + length bs" using assms by (simp_all add: books_ok_def)
  note d = index_okD [OF ok]
  have "?k \<le> length (drop (iw_head s) (iw_eventSeq s))" by (rule length_takeWhile_le)
  then have ok1: "index_ok ?s1" using d by (intro index_okI) auto
  have "map snd (live s) = drop (iw_head s) (iw_eventSeq s)" using d(1) by (simp add: live_def)
  then have "?k = length (takeWhile (\<lambda>q. q < ?base) (map snd (live s)))" by simp
  then have k: "?k = length (takeWhile (\<lambda>e. snd e < ?base) (live s))" by (simp only: takeWhile_map o_def length_map)
  have "live ?s1 = drop ?k (live s)" by (simp add: live_def drop_zip add.commute)
  then have "live ?s1 = dropWhile (\<lambda>e. snd e < ?base) (live s)" unfolding dropWhile_eq_drop k [symmetric] .
  then have l1: "live ?s1 = tagged (iw_side s) op ?base (drop n bs)" using tagged_drop [OF assms(2)] l by simp
  have "distinct (map (wall_key \<circ> fst) (live ?s1))" by (rule live_keys_distinct [OF ok1])
  then have "map fst (live ?s1) = toWallEventsFromOrderbooks (drop n bs) (iw_side s) op" unfolding l1 by (simp add: walls_tagged)
  then show "books_ok op (drop n bs) (evictOb n s)"
    unfolding e books_ok_def using compact_ok [OF ok1] compact_frame [where s = ?s1] l1 cons assms(2) by (simp add: same_session_def)
  show "same_touches s (evictOb n s)" "same_session s (evictOb n s)" "\<not> iw_tMsCollisionSeen (evictOb n s)"
    unfolding e using compact_frame [where s = ?s1] assms(3) by (simp_all add: same_touches_def same_session_def)
qed

end
