(* ===== verification/PeakWallRuns.thy ===== *)
theory PeakWallRuns
  imports PeakWallLaws
begin

section \<open>The incremental peak walls over a history\<close>

text \<open>
  The touches of each minute, the sliding of the two windows, and the whole accumulator: after any
  history of updates its answer is the classifier's answer for the current windows.
\<close>

subsection \<open>The touches of each minute\<close>

definition prices_in :: "int \<Rightarrow> PeakWallTouchTick list \<Rightarrow> rat list" where
  "prices_in w ts = map tt_price (filter (\<lambda>t. touchWindowOf (tt_t_ms t) = w) ts)"

lemma prices_in_append: "prices_in w (xs @ ys) = prices_in w xs @ prices_in w ys"
  by (simp add: prices_in_def)

lemma extremeOf_snoc: "ps \<noteq> [] \<Longrightarrow> extremeOf side (ps @ [p])
  = (case side of Ask \<Rightarrow> max (extremeOf side ps) p | Bid \<Rightarrow> min (extremeOf side ps) p)"
  by (cases side) (simp_all add: extremeOf_def max_def min_def)

lemma extremeOf_one [simp]: "extremeOf side [p] = p"
  by (simp add: extremeOf_def)

lemma extreme_by_window:
  "touchExtremeByWindow ts side w = (if prices_in w ts = [] then None else Some (extremeOf side (prices_in w ts)))"
proof (induction ts rule: rev_induct)
  case (snoc t ts)
  have "touchExtremeByWindow (ts @ [t]) side = put_extreme side (touchExtremeByWindow ts side) t"
    by (simp add: touchExtremeByWindow_def)
  moreover have "prices_in w (ts @ [t]) = (if touchWindowOf (tt_t_ms t) = w then prices_in w ts @ [tt_price t] else prices_in w ts)"
    by (simp add: prices_in_def)
  ultimately show ?case using snoc by (auto simp: put_extreme_def Let_def extremeOf_snoc)
qed (simp add: touchExtremeByWindow_def prices_in_def)

text \<open>The two maps of the accumulator agree: a minute is present when it has touches, with their extreme.\<close>

definition windows_ok :: "IncrementalPeakWallSource \<Rightarrow> bool" where
  "windows_ok s \<longleftrightarrow> (\<forall>w. iw_touchesByWindow s w \<noteq> Some []
     \<and> iw_extremeByWindow s w = map_option (extremeOf (iw_side s)) (iw_touchesByWindow s w))"

definition touches_ok :: "PeakWallTouchTick list \<Rightarrow> IncrementalPeakWallSource \<Rightarrow> bool" where
  "touches_ok ts s \<longleftrightarrow> iw_touchTimes s = map tt_t_ms ts \<and> iw_touchPrices s = map tt_price ts
     \<and> (\<forall>w. iw_touchesByWindow s w = (if prices_in w ts = [] then None else Some (prices_in w ts))) \<and> windows_ok s"

lemma touches_extreme: "touches_ok ts s \<Longrightarrow> iw_extremeByWindow s = touchExtremeByWindow ts (iw_side s)"
  by (rule ext) (simp add: touches_ok_def windows_ok_def extreme_by_window)

definition extreme_from :: "BookSide \<Rightarrow> rat option \<Rightarrow> PeakWallTouchTick list \<Rightarrow> rat option" where
  "extreme_from side x ts = foldl (\<lambda>x t. combineDayExtreme x (Some (tt_price t)) side) x ts"

lemma extreme_from_append: "extreme_from side x (xs @ ys) = extreme_from side (extreme_from side x xs) ys"
  by (simp add: extreme_from_def)

lemma consume_touch_ok:
  assumes "touches_ok ts s"
  shows "touches_ok (ts @ [t]) (consume_touch s t)" "same_events s (consume_touch s t)" "same_session s (consume_touch s t)"
    and "iw_tradeExtreme (consume_touch s t) = extreme_from (iw_side s) (iw_tradeExtreme s) [t]"
    and "iw_touchCounts (consume_touch s t) = iw_touchCounts s"
proof -
  let ?w = "touchWindowOf (tt_t_ms t)" and ?s' = "consume_touch s t"
  note ok = assms [unfolded touches_ok_def windows_ok_def]
  have lists: "iw_touchTimes ?s' = map tt_t_ms (ts @ [t])" "iw_touchPrices ?s' = map tt_price (ts @ [t])"
    using ok by (simp_all add: consume_touch_def Let_def split: option.split)
  have touches: "iw_touchesByWindow ?s' = (iw_touchesByWindow s)(?w \<mapsto> prices_in ?w ts @ [tt_price t])"
    using ok by (auto simp: consume_touch_def Let_def split: option.split)
  have extremes: "iw_extremeByWindow ?s' = (iw_extremeByWindow s)(?w \<mapsto> extremeOf (iw_side s) (prices_in ?w ts @ [tt_price t]))"
  proof (cases "prices_in ?w ts = []")
    case True
    then show ?thesis using ok by (simp add: consume_touch_def Let_def)
  next
    case False
    then have old: "iw_touchesByWindow s ?w = Some (prices_in ?w ts)"
      "iw_extremeByWindow s ?w = Some (extremeOf (iw_side s) (prices_in ?w ts))" using ok by simp_all
    then show ?thesis using False
      by (cases "iw_side s") (auto simp: consume_touch_def Let_def extremeOf_snoc max_def min_def fun_upd_idem)
  qed
  have side: "iw_side ?s' = iw_side s" by (simp add: consume_touch_def Let_def split: option.split)
  have "prices_in w (ts @ [t]) = (if w = ?w then prices_in w ts @ [tt_price t] else prices_in w ts)" for w
    by (simp add: prices_in_def)
  then show "touches_ok (ts @ [t]) ?s'"
    using ok unfolding touches_ok_def windows_ok_def lists touches extremes side by simp
  show "same_events s ?s'" "same_session s ?s'" "iw_tradeExtreme ?s' = extreme_from (iw_side s) (iw_tradeExtreme s) [t]"
    "iw_touchCounts ?s' = iw_touchCounts s"
    by (simp_all add: consume_touch_def Let_def same_events_def same_session_def extreme_from_def split: option.split)
qed

definition trades_ok :: "TradeSnapshot list \<Rightarrow> IncrementalPeakWallSource \<Rightarrow> bool" where
  "trades_ok ts s \<longleftrightarrow> touches_ok (toTouchTicksFromTrades ts) s \<and> iw_touchCounts s = map (\<lambda>t. length (snapshot_touches t)) ts"

lemma consume_touches_ok:
  assumes "touches_ok ts s"
  shows "touches_ok (ts @ us) (foldl consume_touch s us) \<and> same_events s (foldl consume_touch s us)
    \<and> same_session s (foldl consume_touch s us) \<and> iw_touchCounts (foldl consume_touch s us) = iw_touchCounts s
    \<and> iw_tradeExtreme (foldl consume_touch s us) = extreme_from (iw_side s) (iw_tradeExtreme s) us"
  using assms
proof (induction us arbitrary: s ts)
  case (Cons u us)
  note step = consume_touch_ok [OF Cons.prems, of u]
  show ?case using Cons.IH [OF step(1)] step(2-5) by (simp add: same_events_def same_session_def extreme_from_def)
qed (simp add: same_events_def same_session_def extreme_from_def)

lemma touch_ticks_append: "toTouchTicksFromTrades (xs @ ys) = toTouchTicksFromTrades xs @ toTouchTicksFromTrades ys"
  by (simp add: toTouchTicksFromTrades_def)

lemma consumeTrade_ok:
  assumes "trades_ok ts s"
  shows "trades_ok (ts @ us) (consumeTrade us s) \<and> same_events s (consumeTrade us s) \<and> same_session s (consumeTrade us s)
    \<and> iw_tradeExtreme (consumeTrade us s) = extreme_from (iw_side s) (iw_tradeExtreme s) (toTouchTicksFromTrades us)"
  using assms unfolding consumeTrade_def
proof (induction us arbitrary: s ts)
  case (Cons u us)
  have s: "touches_ok (toTouchTicksFromTrades ts) s" "iw_touchCounts s = map (\<lambda>t. length (snapshot_touches t)) ts"
    using Cons.prems by (simp_all add: trades_ok_def)
  let ?s1 = "foldl consume_touch s (snapshot_touches u)" and ?s' = "consume_trade s u"
  note step = consume_touches_ok [OF s(1), of "snapshot_touches u"]
  have s': "?s' = ?s1\<lparr>iw_touchCounts := iw_touchCounts ?s1 @ [length (snapshot_touches u)]\<rparr>" by (simp add: consume_trade_def Let_def)
  have frame: "same_events s ?s'" "same_session s ?s'"
    "iw_tradeExtreme ?s' = extreme_from (iw_side s) (iw_tradeExtreme s) (snapshot_touches u)"
    using step unfolding s' by (simp_all add: same_events_def same_session_def)
  have "touches_ok (toTouchTicksFromTrades (ts @ [u])) ?s'"
    using step unfolding s' by (simp add: touches_ok_def windows_ok_def toTouchTicksFromTrades_def)
  then have "trades_ok (ts @ [u]) ?s'" using step s(2) unfolding trades_ok_def by (simp add: s')
  from Cons.IH [OF this] show ?case using frame
    by (simp add: same_events_def same_session_def toTouchTicksFromTrades_def extreme_from_append)
qed (simp add: same_events_def same_session_def extreme_from_def toTouchTicksFromTrades_def)

text \<open>Eviction: each minute among the dropped touches loses as many of its first prices.\<close>

definition shorten :: "nat \<Rightarrow> rat list option \<Rightarrow> rat list option" where
  "shorten n ps = (case ps of None \<Rightarrow> None | Some l \<Rightarrow> if drop n l = [] then None else Some (drop n l))"

lemma evict_window_ok:
  assumes "windows_ok s"
  shows "windows_ok (evict_window s (w, n))"
    and "iw_touchesByWindow (evict_window s (w, n)) = (iw_touchesByWindow s)(w := shorten n (iw_touchesByWindow s w))"
    and "same_events s (evict_window s (w, n))" "same_session s (evict_window s (w, n))"
    and "iw_tradeExtreme (evict_window s (w, n)) = iw_tradeExtreme s \<and> iw_touchTimes (evict_window s (w, n)) = iw_touchTimes s
      \<and> iw_touchPrices (evict_window s (w, n)) = iw_touchPrices s \<and> iw_touchCounts (evict_window s (w, n)) = iw_touchCounts s"
  using assms
  by (auto simp: evict_window_def windows_ok_def shorten_def Let_def same_events_def same_session_def fun_upd_idem split: option.split)

lemma evict_windows_ok:
  assumes "windows_ok s" "distinct (map fst wns)"
  shows "windows_ok (foldl evict_window s wns) \<and> same_events s (foldl evict_window s wns) \<and> same_session s (foldl evict_window s wns)
    \<and> (\<forall>w. iw_touchesByWindow (foldl evict_window s wns) w
         = (case map_of wns w of None \<Rightarrow> iw_touchesByWindow s w | Some n \<Rightarrow> shorten n (iw_touchesByWindow s w)))
    \<and> iw_tradeExtreme (foldl evict_window s wns) = iw_tradeExtreme s \<and> iw_touchTimes (foldl evict_window s wns) = iw_touchTimes s
    \<and> iw_touchPrices (foldl evict_window s wns) = iw_touchPrices s \<and> iw_touchCounts (foldl evict_window s wns) = iw_touchCounts s"
  using assms
proof (induction wns arbitrary: s)
  case (Cons wn wns)
  obtain w n where wn: "wn = (w, n)" by force
  note step = evict_window_ok [OF Cons.prems(1), of w n]
  have "map_of wns w = None" using Cons.prems(2) by (simp add: wn map_of_eq_None_iff)
  then show ?case using Cons.IH [OF step(1)] Cons.prems(2) step(2-5)
    by (auto simp: wn same_events_def same_session_def split: option.split)
qed (simp add: same_events_def same_session_def)

lemma dropped_lookup:
  "map_of (dropped_by_window ts) w = (if w \<in> touchWindowOf ` set ts then Some (length (filter (\<lambda>t. touchWindowOf t = w) ts)) else None)"
  by (auto simp: dropped_by_window_def map_of_eq_None_iff o_def unique_distinct intro!: map_of_is_SomeI)

lemma dropped_distinct: "distinct (map fst (dropped_by_window ts))"
  by (simp add: dropped_by_window_def o_def unique_distinct)

lemma length_prices: "length (prices_in w ts) = length (filter (\<lambda>t. touchWindowOf t = w) (map tt_t_ms ts))"
  by (simp add: prices_in_def filter_map o_def)

lemma shorten_prices:
  assumes "ts = xs @ ys"
  shows "(case map_of (dropped_by_window (map tt_t_ms xs)) w of None \<Rightarrow> (if prices_in w ts = [] then None else Some (prices_in w ts))
      | Some n \<Rightarrow> shorten n (if prices_in w ts = [] then None else Some (prices_in w ts)))
    = (if prices_in w ys = [] then None else Some (prices_in w ys))"
proof (cases "prices_in w xs = []")
  case True
  then have "w \<notin> touchWindowOf ` set (map tt_t_ms xs)" by (auto simp: prices_in_def filter_empty_conv)
  then show ?thesis using True by (simp add: dropped_lookup assms prices_in_append)
next
  case False
  then have "w \<in> touchWindowOf ` set (map tt_t_ms xs)" by (auto simp: prices_in_def filter_empty_conv)
  then have "map_of (dropped_by_window (map tt_t_ms xs)) w = Some (length (prices_in w xs))"
    by (simp only: dropped_lookup length_prices if_True)
  then show ?thesis using False by (simp add: assms prices_in_append shorten_def)
qed

lemma evictTrades_ok:
  assumes "trades_ok ts s"
  shows "trades_ok (drop n ts) (evictTrades n s) \<and> same_events s (evictTrades n s) \<and> same_session s (evictTrades n s)
    \<and> iw_tradeExtreme (evictTrades n s) = iw_tradeExtreme s"
proof -
  let ?xs = "toTouchTicksFromTrades (take n ts)" and ?ys = "toTouchTicksFromTrades (drop n ts)"
  let ?c = "drop n (iw_touchCounts s)"
  have all: "toTouchTicksFromTrades ts = ?xs @ ?ys" by (simp flip: touch_ticks_append)
  have ok: "touches_ok (?xs @ ?ys) s" and counts: "iw_touchCounts s = map (\<lambda>t. length (snapshot_touches t)) ts"
    using assms by (simp_all add: trades_ok_def all)
  have len: "sum_list (take n (iw_touchCounts s)) = length ?xs"
    by (simp add: counts take_map toTouchTicksFromTrades_def length_concat o_def)
  have c: "?c = map (\<lambda>t. length (snapshot_touches t)) (drop n ts)" by (simp add: counts drop_map)
  show ?thesis
  proof (cases "?xs = []")
    case True
    then have "evictTrades n s = s\<lparr>iw_touchCounts := ?c\<rparr>" using len by (simp add: evictTrades_def Let_def)
    then show ?thesis using ok True c by (simp add: trades_ok_def touches_ok_def windows_ok_def same_events_def same_session_def)
  next
    case False
    let ?s1 = "s\<lparr>iw_touchCounts := ?c, iw_touchTimes := map tt_t_ms ?ys, iw_touchPrices := map tt_price ?ys\<rparr>"
    let ?wns = "dropped_by_window (map tt_t_ms ?xs)"
    have lists: "iw_touchTimes s = map tt_t_ms ?xs @ map tt_t_ms ?ys" "iw_touchPrices s = map tt_price ?xs @ map tt_price ?ys"
      using ok by (simp_all add: touches_ok_def)
    have e: "evictTrades n s = foldl evict_window ?s1 ?wns"
      unfolding evictTrades_def Let_def len lists using False by simp
    have w1: "windows_ok ?s1" using ok by (simp add: touches_ok_def windows_ok_def)
    note evicted = evict_windows_ok [OF w1 dropped_distinct, of "map tt_t_ms ?xs", folded e]
    have touches: "iw_touchesByWindow ?s1 w = (if prices_in w (?xs @ ?ys) = [] then None else Some (prices_in w (?xs @ ?ys)))" for w
      using ok by (simp add: touches_ok_def)
    have "iw_touchesByWindow (evictTrades n s) w = (if prices_in w ?ys = [] then None else Some (prices_in w ?ys))" for w
    proof -
      have "iw_touchesByWindow (evictTrades n s) w = (case map_of ?wns w of None \<Rightarrow> iw_touchesByWindow ?s1 w
          | Some n \<Rightarrow> shorten n (iw_touchesByWindow ?s1 w))" using evicted by blast
      then show ?thesis unfolding touches shorten_prices [OF refl] .
    qed
    then have "touches_ok ?ys (evictTrades n s)" using evicted by (simp add: touches_ok_def)
    then show ?thesis using evicted c by (simp add: trades_ok_def same_events_def same_session_def)
  qed
qed

subsection \<open>The sliding windows\<close>

lemma plan_slide:
  assumes "planSlide [a'..<b'] (b - a) (if a < b then Some (b - 1) else None) = Some (e, k)"
  shows "e \<le> b - a" "[a'..<b'] = drop e [a..<b] @ drop k [a'..<b']" "a < b \<Longrightarrow> drop k [a'..<b'] = [b..<b'] \<and> a \<le> a' \<and> a' < b \<and> b \<le> b'"
    and "b \<le> a \<Longrightarrow> drop k [a'..<b'] = [a'..<b']"
proof -
  consider (none) "b \<le> a" "e = 0" "k = 0" | (grown) "a < b" "e = 0" "k = b - a" "a' = a" "b \<le> b'"
    | (slid) i where "a < b" "a' + i = b - 1" "a' + i < b'" "i + 1 < b - a" "e = b - a - 1 - i" "k = i + 1"
  proof (cases "a < b")
    case True
    show ?thesis
    proof (cases "b - a \<le> b' - a' \<and> [a'..<b'] ! (b - a - 1) = b - 1")
      case g: True
      moreover have "[a'..<b'] ! (b - a - 1) = a' + (b - a - 1)" using g True by (intro nth_upt) arith
      ultimately have "a' + (b - a - 1) = b - 1" by simp
      then show ?thesis using g True assms by (intro grown) (auto simp: planSlide_def)
    next
      case False
      then obtain i where i: "find (\<lambda>i. [a'..<b'] ! i = b - 1) (rev [0..<length [a'..<b']]) = Some i" "i + 1 < b - a"
          "(e, k) = (b - a - 1 - i, i + 1)"
        using assms True by (auto simp: planSlide_def not_le split: option.splits if_splits)
      have "i \<in> set (rev [0..<length [a'..<b']])" "[a'..<b'] ! i = b - 1"
        using i(1) unfolding find_Some_iff by (metis nth_mem)+
      then show ?thesis using True i(2,3) by (intro slid [of i]) auto
    qed
  next
    case False
    then show ?thesis using assms by (intro none) (auto simp: planSlide_def)
  qed
  note cases = this
  show "e \<le> b - a" using cases by cases auto
  show "[a'..<b'] = drop e [a..<b] @ drop k [a'..<b']"
  proof (cases rule: cases)
    case slid
    then have "a + e = a'" "a' + k = b" "b \<le> b'" "a' \<le> b" by simp_all
    then show ?thesis using upt_add_eq_append [of a' b "b' - b"] by simp
  next
    case grown
    then show ?thesis using upt_add_eq_append [of a b "b' - b"] by simp
  qed simp
  show "drop k [a'..<b'] = [b..<b'] \<and> a \<le> a' \<and> a' < b \<and> b \<le> b'" if "a < b"
    using cases that by cases auto
  show "drop k [a'..<b'] = [a'..<b']" if "b \<le> a" using cases that by cases auto
qed

subsection \<open>The accumulator over its windows\<close>

text \<open>
  What holds between two calls: the books \<open>[a..<b]\<close> and the trades \<open>[c..<d]\<close> of the streams are the
  ones accumulated, and the day's extreme is that of the trades from some earlier \<open>c0\<close> on.
\<close>

definition holds_windows :: "(nat \<Rightarrow> ObSnapshot) \<Rightarrow> (nat \<Rightarrow> TradeSnapshot) \<Rightarrow> ms \<Rightarrow> nat list \<Rightarrow> nat list
    \<Rightarrow> IncrementalPeakWallSource \<Rightarrow> bool" where
  "holds_windows books trades op ob tr s \<longleftrightarrow> books_ok op (map books ob) s \<and> trades_ok (map trades tr) s"

definition extreme_since :: "(nat \<Rightarrow> TradeSnapshot) \<Rightarrow> nat \<Rightarrow> nat \<Rightarrow> IncrementalPeakWallSource \<Rightarrow> bool" where
  "extreme_since trades c d s \<longleftrightarrow> (\<exists>c0 \<le> c. iw_tradeExtreme s
     = extreme_from (iw_side s) None (toTouchTicksFromTrades (map trades [c0..<d]))) \<and> (d \<le> c \<longrightarrow> iw_tradeExtreme s = None)"

definition walls_ok :: "(nat \<Rightarrow> ObSnapshot) \<Rightarrow> (nat \<Rightarrow> TradeSnapshot) \<Rightarrow> ms \<Rightarrow> nat \<times> nat \<Rightarrow> nat \<times> nat
    \<Rightarrow> IncrementalPeakWallSource \<Rightarrow> bool" where
  "walls_ok books trades op w v s \<longleftrightarrow> iw_sessionOpenMs s = Some op
     \<and> holds_windows books trades op [fst w..<snd w] [fst v..<snd v] s \<and> extreme_since trades (fst v) (snd v) s
     \<and> iw_obLength s = snd w - fst w \<and> iw_lastObRef s = (if fst w < snd w then Some (snd w - 1) else None)
     \<and> iw_tradeLength s = snd v - fst v \<and> iw_lastTradeRef s = (if fst v < snd v then Some (snd v - 1) else None)"

lemma same_trades: "same_touches s s' \<Longrightarrow> trades_ok ts s \<Longrightarrow> trades_ok ts s'"
  by (simp add: same_touches_def trades_ok_def touches_ok_def windows_ok_def)

lemma same_session_trans: "same_session s t \<Longrightarrow> same_session t u \<Longrightarrow> same_session s u"
  by (simp add: same_session_def)

lemma same_touches_side: "same_touches s s' \<Longrightarrow> iw_side s' = iw_side s \<and> iw_tradeExtreme s' = iw_tradeExtreme s"
  by (simp add: same_touches_def)

lemma reset_ok:
  shows "holds_windows books trades op [] [] (reset_walls s)"
    and "iw_tradeExtreme (reset_walls s) = None" "same_session s (reset_walls s)"
  by (simp_all add: holds_windows_def books_ok_def trades_ok_def touches_ok_def windows_ok_def reset_walls_def index_ok_def
      live_def toWallEventsFromOrderbooks_def toTouchTicksFromTrades_def prices_in_def same_session_def)

lemma consume_both:
  assumes "holds_windows books trades op ob tr s"
  shows "holds_windows books trades op (ob @ ob') (tr @ tr')
      (consumeTrade (map trades tr') (consumeOb op (map books ob') s))"
    and "same_session s (consumeTrade (map trades tr') (consumeOb op (map books ob') s))"
    and "iw_tradeExtreme (consumeTrade (map trades tr') (consumeOb op (map books ob') s))
      = extreme_from (iw_side s) (iw_tradeExtreme s) (toTouchTicksFromTrades (map trades tr'))"
proof -
  let ?t = "consumeOb op (map books ob') s"
  have s: "books_ok op (map books ob) s" "trades_ok (map trades tr) s" using assms by (simp_all add: holds_windows_def)
  note b = consumeOb_ok [OF s(1), of "map books ob'"]
  have "trades_ok (map trades tr) ?t" using same_trades [OF b(2) s(2)] .
  note t = consumeTrade_ok [OF this, of "map trades tr'"]
  show "holds_windows books trades op (ob @ ob') (tr @ tr') (consumeTrade (map trades tr') ?t)"
    using b(1) t same_books by (auto simp: holds_windows_def)
  show "same_session s (consumeTrade (map trades tr') ?t)" using b(3) t same_session_trans by blast
  show "iw_tradeExtreme (consumeTrade (map trades tr') ?t) = extreme_from (iw_side s) (iw_tradeExtreme s) (toTouchTicksFromTrades (map trades tr'))"
    using t same_touches_side [OF b(2)] by simp
qed

lemma evict_both:
  assumes "holds_windows books trades op ob tr s" "n \<le> length ob" "0 < n \<or> 0 < m \<Longrightarrow> \<not> iw_tMsCollisionSeen s"
  defines "s1 \<equiv> if 0 < n then evictOb n s else s"
  defines "s2 \<equiv> if 0 < m then evictTrades m s1 else s1"
  shows "holds_windows books trades op (drop n ob) (drop m tr) s2" "same_session s s2" "iw_tradeExtreme s2 = iw_tradeExtreme s"
proof -
  have s: "books_ok op (map books ob) s" "trades_ok (map trades tr) s" using assms(1) by (simp_all add: holds_windows_def)
  have s1: "books_ok op (drop n (map books ob)) s1" "same_touches s s1" "same_session s s1"
    using evictOb_ok [OF s(1), of n] s(1) assms(2,3) unfolding s1_def by (auto simp: same_touches_def same_session_def)
  have t1: "trades_ok (map trades tr) s1" using same_trades [OF s1(2) s(2)] .
  have "trades_ok (drop m (map trades tr)) s2 \<and> same_events s1 s2 \<and> same_session s1 s2 \<and> iw_tradeExtreme s2 = iw_tradeExtreme s1"
    using evictTrades_ok [OF t1, of m] t1 unfolding s2_def by (auto simp: same_events_def same_session_def)
  then show "holds_windows books trades op (drop n ob) (drop m tr) s2" "same_session s s2" "iw_tradeExtreme s2 = iw_tradeExtreme s"
    using same_books [OF _ s1(1)] s1(3) same_session_trans same_touches_side [OF s1(2)] by (auto simp: holds_windows_def drop_map)
qed

lemma rebuild_ok:
  "holds_windows books trades op ob tr (rebuild_walls books trades ob tr op s)"
  "same_session s (rebuild_walls books trades ob tr op s)"
  "iw_tradeExtreme (rebuild_walls books trades ob tr op s) = extreme_from (iw_side s) None (toTouchTicksFromTrades (map trades tr))"
proof -
  have r: "holds_windows books trades op [] [] (reset_walls s)" "iw_tradeExtreme (reset_walls s) = None" "same_session s (reset_walls s)"
    by (rule reset_ok)+
  note c = consume_both [OF r(1), where ob' = ob and tr' = tr]
  show "holds_windows books trades op ob tr (rebuild_walls books trades ob tr op s)"
    using c(1) by (simp add: rebuild_walls_def)
  show "same_session s (rebuild_walls books trades ob tr op s)"
    unfolding rebuild_walls_def by (rule same_session_trans [OF r(3) c(2)])
  show "iw_tradeExtreme (rebuild_walls books trades ob tr op s) = extreme_from (iw_side s) None (toTouchTicksFromTrades (map trades tr))"
    using c(3) r(2,3) by (simp add: rebuild_walls_def same_session_def)
qed

lemma slide_ok:
  assumes "holds_windows books trades op [a..<b] [c..<d] s" "p = (e, k)" "q = (m, l)"
    and ob: "planSlide [a'..<b'] (b - a) (if a < b then Some (b - 1) else None) = Some p"
    and tr: "planSlide [c'..<d'] (d - c) (if c < d then Some (d - 1) else None) = Some q"
    and safe: "0 < e \<or> 0 < m \<Longrightarrow> \<not> iw_tMsCollisionSeen s"
  defines "s' \<equiv> slide_walls books trades [a'..<b'] [c'..<d'] op p q s"
  shows "holds_windows books trades op [a'..<b'] [c'..<d'] s'" "same_session s s'"
    and "iw_tradeExtreme s' = extreme_from (iw_side s) (iw_tradeExtreme s) (toTouchTicksFromTrades (map trades (drop l [c'..<d'])))"
proof -
  note ob' = plan_slide [OF ob [unfolded assms(2)]] and tr' = plan_slide [OF tr [unfolded assms(3)]]
  let ?s2 = "(if 0 < m then evictTrades m (if 0 < e then evictOb e s else s) else (if 0 < e then evictOb e s else s))"
  have e: "e \<le> length [a..<b]" using ob'(1) by simp
  note ev = evict_both [where m = m, OF assms(1) e safe]
  note c = consume_both [OF ev(1), where ob' = "drop k [a'..<b']" and tr' = "drop l [c'..<d']"]
  have none: "consumeOb op [] t = t" "consumeTrade [] t = t" for t by (simp_all add: consumeOb_def consumeTrade_def)
  have s': "s' = consumeTrade (map trades (drop l [c'..<d'])) (consumeOb op (map books (drop k [a'..<b'])) ?s2)"
    unfolding s'_def slide_walls_def Let_def assms(2,3) fst_conv snd_conv by (simp add: none not_less)
  show "holds_windows books trades op [a'..<b'] [c'..<d'] s'"
    using c(1) unfolding s' ob'(2) [symmetric] tr'(2) [symmetric] by simp
  show "same_session s s'" unfolding s' using same_session_trans [OF ev(2) c(2)] by simp
  show "iw_tradeExtreme s' = extreme_from (iw_side s) (iw_tradeExtreme s) (toTouchTicksFromTrades (map trades (drop l [c'..<d'])))"
    using c(3) ev(2,3) unfolding s' by (simp add: same_session_def)
qed


lemma same_session_fields:
  "same_session s s' \<Longrightarrow> iw_sessionOpenMs s' = iw_sessionOpenMs s \<and> iw_side s' = iw_side s"
  by (simp add: same_session_def)

lemma fall_back_ok: "same_session s (fall_back r s)"
  by (simp add: fall_back_def same_session_def)

definition ends_of :: "nat list \<Rightarrow> nat list \<Rightarrow> IncrementalPeakWallSource \<Rightarrow> IncrementalPeakWallSource" where
  "ends_of ob tr s = s\<lparr>iw_obLength := length ob, iw_lastObRef := (if ob = [] then None else Some (last ob)),
     iw_tradeLength := length tr, iw_lastTradeRef := (if tr = [] then None else Some (last tr))\<rparr>"

lemma ends_ok:
  assumes "iw_sessionOpenMs s = Some op" "holds_windows books trades op [a..<b] [c..<d] s" "extreme_since trades c d s"
  shows "walls_ok books trades op (a, b) (c, d) (ends_of [a..<b] [c..<d] s)"
  using assms unfolding walls_ok_def ends_of_def holds_windows_def books_ok_def trades_ok_def touches_ok_def windows_ok_def
    index_ok_def live_def extreme_since_def
  by simp

lemma rebuild_since:
  assumes "iw_sessionOpenMs s = Some op"
  shows "walls_ok books trades op (a, b) (c, d) (ends_of [a..<b] [c..<d] (rebuild_walls books trades [a..<b] [c..<d] op s))"
proof (rule ends_ok)
  let ?s = "rebuild_walls books trades [a..<b] [c..<d] op s"
  note r = rebuild_ok [where books = books and trades = trades and op = op and ob = "[a..<b]" and tr = "[c..<d]" and s = s]
  show "iw_sessionOpenMs ?s = Some op" using r(2) assms by (simp add: same_session_def)
  show "holds_windows books trades op [a..<b] [c..<d] ?s" by (rule r(1))
  show "extreme_since trades c d ?s" using r(2,3)
    by (auto simp: extreme_since_def same_session_def extreme_from_def toTouchTicksFromTrades_def)
qed

lemma slide_since:
  assumes since: "extreme_since trades c d s" and side: "iw_side s' = iw_side s"
    and tr: "planSlide [c'..<d'] (d - c) (if c < d then Some (d - 1) else None) = Some (m, l)"
    and ext: "iw_tradeExtreme s' = extreme_from (iw_side s) (iw_tradeExtreme s) (toTouchTicksFromTrades (map trades (drop l [c'..<d'])))"
  shows "extreme_since trades c' d' s'"
proof (cases "c < d")
  case True
  note p = plan_slide(3) [OF tr True]
  obtain c0 where c0: "c0 \<le> c" "iw_tradeExtreme s = extreme_from (iw_side s) None (toTouchTicksFromTrades (map trades [c0..<d]))"
    using since by (auto simp: extreme_since_def)
  have "[c0..<d'] = [c0..<d] @ drop l [c'..<d']" using p c0(1) True upt_add_eq_append [of c0 d "d' - d"] by simp
  then have "iw_tradeExtreme s' = extreme_from (iw_side s') None (toTouchTicksFromTrades (map trades [c0..<d']))"
    using c0(2) ext side by (simp add: touch_ticks_append extreme_from_append)
  moreover have "c0 \<le> c'" "\<not> d' \<le> c'" using p c0(1) by simp_all
  ultimately show ?thesis unfolding extreme_since_def by blast
next
  case False
  then have "iw_tradeExtreme s = None" "drop l [c'..<d'] = [c'..<d']" using since plan_slide(4) [OF tr] by (simp_all add: extreme_since_def)
  then show ?thesis using ext side by (auto simp: extreme_since_def extreme_from_def toTouchTicksFromTrades_def)
qed

lemma accumulate_ok:
  assumes "walls_ok books trades op (a, b) (c, d) (open_session op s)"
  shows "walls_ok books trades op (a', b') (c', d') (accumulate books trades [a'..<b'] [c'..<d'] op s)"
    and "iw_side (accumulate books trades [a'..<b'] [c'..<d'] op s) = iw_side s"
proof -
  let ?s = "open_session op s"
  let ?p = "planSlide [a'..<b'] (b - a) (if a < b then Some (b - 1) else None)"
  let ?q = "planSlide [c'..<d'] (d - c) (if c < d then Some (d - 1) else None)"
  have ok: "iw_sessionOpenMs ?s = Some op" "holds_windows books trades op [a..<b] [c..<d] ?s" "extreme_since trades c d ?s"
    and plans: "planSlide ob (iw_obLength ?s) (iw_lastObRef ?s) = planSlide ob (b - a) (if a < b then Some (b - 1) else None)"
      "planSlide ob (iw_tradeLength ?s) (iw_lastTradeRef ?s) = planSlide ob (d - c) (if c < d then Some (d - 1) else None)" for ob
    using assms by (simp_all add: walls_ok_def)
  have side: "iw_side ?s = iw_side s" by (simp add: open_session_def reset_walls_def)
  have acc: "accumulate books trades [a'..<b'] [c'..<d'] op s = ends_of [a'..<b'] [c'..<d'] (case (?p, ?q) of
      (Some p, Some q) \<Rightarrow> if (0 < fst p \<or> 0 < fst q) \<and> \<not> canEvictSafely ?s
        then rebuild_walls books trades [a'..<b'] [c'..<d'] op (fall_back TMsCollision ?s)
        else slide_walls books trades [a'..<b'] [c'..<d'] op p q ?s
    | _ \<Rightarrow> rebuild_walls books trades [a'..<b'] [c'..<d'] op (fall_back BufferReplaced ?s))"
    unfolding accumulate_def Let_def ends_of_def plans ..
  let ?ok = "\<lambda>t. walls_ok books trades op (a', b') (c', d') (ends_of [a'..<b'] [c'..<d'] t) \<and> iw_side (ends_of [a'..<b'] [c'..<d'] t) = iw_side s"
  have rebuild: "?ok (rebuild_walls books trades [a'..<b'] [c'..<d'] op (fall_back r ?s))" for r
  proof -
    have f: "iw_sessionOpenMs (fall_back r ?s) = Some op" "iw_side (fall_back r ?s) = iw_side s"
      using same_session_fields [OF fall_back_ok [of ?s r]] ok(1) side by simp_all
    show ?thesis using rebuild_since [OF f(1)] f(2) same_session_fields [OF rebuild_ok(2)] by (simp add: ends_of_def)
  qed
  have slide: "?ok (slide_walls books trades [a'..<b'] [c'..<d'] op (e, k) (m, l) ?s)"
    if p: "?p = Some (e, k)" and q: "?q = Some (m, l)" and safe: "0 < e \<or> 0 < m \<Longrightarrow> \<not> iw_tMsCollisionSeen ?s" for e k m l
  proof -
    note r = slide_ok [OF ok(2) refl refl p q safe]
    have s: "iw_sessionOpenMs (slide_walls books trades [a'..<b'] [c'..<d'] op (e, k) (m, l) ?s) = Some op"
      "iw_side (slide_walls books trades [a'..<b'] [c'..<d'] op (e, k) (m, l) ?s) = iw_side ?s"
      using same_session_fields [OF r(2)] ok(1) by simp_all
    show ?thesis using ends_ok [OF s(1) r(1) slide_since [OF ok(3) s(2) q r(3)]] s(2) side by (simp add: ends_of_def)
  qed
  have "?ok (case (?p, ?q) of
      (Some p, Some q) \<Rightarrow> if (0 < fst p \<or> 0 < fst q) \<and> \<not> canEvictSafely ?s
        then rebuild_walls books trades [a'..<b'] [c'..<d'] op (fall_back TMsCollision ?s)
        else slide_walls books trades [a'..<b'] [c'..<d'] op p q ?s
    | _ \<Rightarrow> rebuild_walls books trades [a'..<b'] [c'..<d'] op (fall_back BufferReplaced ?s))"
  proof (cases ?p)
    case None
    then show ?thesis using rebuild by simp
  next
    case (Some p)
    note p = this
    show ?thesis
    proof (cases ?q)
      case None
      then show ?thesis using rebuild p by simp
    next
      case (Some q)
      have s: "(0 < fst p \<or> 0 < fst q \<Longrightarrow> \<not> iw_tMsCollisionSeen ?s) \<Longrightarrow> ?ok (slide_walls books trades [a'..<b'] [c'..<d'] op p q ?s)"
        using slide [of "fst p" "snd p" "fst q" "snd q"] p Some by simp
      show ?thesis
      proof (cases "(0 < fst p \<or> 0 < fst q) \<and> iw_tMsCollisionSeen ?s")
        case True
        then show ?thesis unfolding p Some using rebuild by (simp only: canEvictSafely_def prod.case option.case simp_thms if_True)
      next
        case False
        have "((0 < fst p \<or> 0 < fst q) \<and> \<not> canEvictSafely ?s) = False" using False by (simp add: canEvictSafely_def)
        then show ?thesis unfolding p Some using s False by (simp only: prod.case option.case if_False) blast
      qed
    qed
  qed
  then show "walls_ok books trades op (a', b') (c', d') (accumulate books trades [a'..<b'] [c'..<d'] op s)"
    "iw_side (accumulate books trades [a'..<b'] [c'..<d'] op s) = iw_side s" unfolding acc by simp_all
qed


subsection \<open>The answer\<close>

lemma consider_all:
  "foldl (consider_wall s x) r cs =
     \<lparr>pw_touched = foldl (\<lambda>r c. if touched_now s c then pushTopK r c else r) (pw_touched r) cs,
      pw_all = foldl (\<lambda>r c. if True then pushTopK r c else r) (pw_all r) cs,
      pw_unreached = foldl (\<lambda>r c. if isWallUnreached (pk_price c) x (iw_side s) then pushTopK r c else r) (pw_unreached r) cs\<rparr>"
  by (induction cs arbitrary: r) (simp_all add: consider_wall_def)

text \<open>The live events and the extras they do not cover are the events and the extras.\<close>

lemma covered_live:
  assumes "index_ok s"
  shows "isCoveredByLiveEvent s c \<longleftrightarrow> c \<in> set (map fst (live s))"
proof
  assume "isCoveredByLiveEvent s c"
  then obtain i where i: "iw_eventIndexByKey s (wall_key c) = Some i" "iw_head s \<le> i" "pk_qty (iw_events s ! i) = pk_qty c"
    by (auto simp: isCoveredByLiveEvent_def split: option.splits if_splits)
  note f = key_found [OF assms i(1,2)]
  have "iw_events s ! i = c" using i(3) index_okD(4) [OF assms i(1)] by (cases "iw_events s ! i"; cases c) (simp add: wall_key_def)
  then have "live s ! (i - iw_head s) = (c, iw_eventSeq s ! i)" using live_nth [OF assms f(1)] i(2) by simp
  then show "c \<in> set (map fst (live s))" using f(1) nth_mem by force
next
  assume "c \<in> set (map fst (live s))"
  then obtain j where j: "j < length (live s)" "fst (live s ! j) = c" by (auto simp: in_set_conv_nth)
  then show "isCoveredByLiveEvent s c"
    using live_key [OF assms j(1)] live_nth [OF assms j(1)] by (simp add: isCoveredByLiveEvent_def)
qed

lemma live_events: "index_ok s \<Longrightarrow> map fst (live s) = drop (iw_head s) (iw_events s)"
  by (simp add: live_def index_ok_def)

lemma live_distinct: "index_ok s \<Longrightarrow> distinct (map fst (live s))"
  using live_keys_distinct [of s] by (metis distinct_map map_map)

lemma classify_best:
  fixes extras :: "AskPeakCandidate list" and backend :: "rat option"
  assumes "index_ok s"
  defines "L \<equiv> map fst (live s) @ filter (\<lambda>c. \<not> isCoveredByLiveEvent s c) (unique extras)"
  defines "x \<equiv> combineDayExtreme (iw_tradeExtreme s) backend (iw_side s)"
  shows "classify_now extras backend s = \<lparr>pw_touched = best_of (filter (touched_now s) L), pw_all = best_of L,
      pw_unreached = best_of (filter (\<lambda>c. isWallUnreached (pk_price c) x (iw_side s)) L)\<rparr>"
    and "distinct L" "set L = set (map fst (live s) @ extras)"
proof -
  show dist: "distinct L" unfolding L_def distinct_append
    using live_distinct [OF assms(1)] by (auto simp: unique_distinct covered_live [OF assms(1)])
  show "set L = set (map fst (live s) @ extras)" unfolding L_def by (auto simp: covered_live [OF assms(1)])
  have "classify_now extras backend s = foldl (consider_wall s x) \<lparr>pw_touched = [], pw_all = [], pw_unreached = []\<rparr> L"
    by (simp add: classify_now_def Let_def L_def x_def live_events [OF assms(1)])
  then show "classify_now extras backend s = \<lparr>pw_touched = best_of (filter (touched_now s) L), pw_all = best_of L,
      pw_unreached = best_of (filter (\<lambda>c. isWallUnreached (pk_price c) x (iw_side s)) L)\<rparr>"
    unfolding consider_all using push_all [OF dist, where P = "\<lambda>_. True"] by (simp add: push_all [OF dist])
qed

text \<open>The day's extreme absorbs every touch it has seen.\<close>

lemma combine_semilattice:
  "combineDayExtreme (combineDayExtreme x y side) z side = combineDayExtreme (combineDayExtreme x z side) y side"
  "combineDayExtreme (combineDayExtreme x y side) y side = combineDayExtreme x y side"
  by (cases side; cases x; cases y; cases z; simp add: combineDayExtreme_def max_def min_def)+

lemma extreme_from_seen:
  "t \<in> set ts \<Longrightarrow> combineDayExtreme (extreme_from side x ts) (Some (tt_price t)) side = extreme_from side x ts"
proof (induction ts rule: rev_induct)
  case (snoc u ts)
  then show ?case by (auto simp: extreme_from_def combine_semilattice(2)) (metis combine_semilattice(1))
qed simp

lemma extreme_from_idle:
  assumes "\<And>t. t \<in> set ts \<Longrightarrow> combineDayExtreme x (Some (tt_price t)) side = x"
  shows "extreme_from side x ts = x"
  using assms unfolding extreme_from_def by (induction ts) simp_all

lemma extreme_absorbs:
  assumes "set ts \<subseteq> set us"
  shows "extreme_from side (combineDayExtreme (extreme_from side None us) backend side) ts
    = combineDayExtreme (extreme_from side None us) backend side"
proof (rule extreme_from_idle)
  fix t assume "t \<in> set ts"
  then have "combineDayExtreme (extreme_from side None us) (Some (tt_price t)) side = extreme_from side None us"
    using assms by (intro extreme_from_seen) blast
  then show "combineDayExtreme (combineDayExtreme (extreme_from side None us) backend side) (Some (tt_price t)) side
      = combineDayExtreme (extreme_from side None us) backend side"
    by (subst combine_semilattice(1)) simp
qed

lemma touched_as_classified:
  assumes "touches_ok ts s"
  shows "touched_now s = (\<lambda>c. isWallTouched c (touchExtremeByWindow ts (iw_side s)) (iw_side s))"
  by (rule ext) (simp add: touched_now_def isWallTouched_def touches_extreme [OF assms])

lemma classify_batch:
  assumes "walls_ok books trades op (a, b) (c, d) s"
  shows "\<exists>c0 \<le> c. classify_now extras backend s
    = classifyWallEvents (toWallEventsFromOrderbooks (map books [a..<b]) (iw_side s) op @ extras)
        (toTouchTicksFromTrades (map trades [c..<d])) (iw_side s)
        (combineDayExtreme (extreme_from (iw_side s) None (toTouchTicksFromTrades (map trades [c0..<d]))) backend (iw_side s))"
proof -
  let ?E = "toWallEventsFromOrderbooks (map books [a..<b]) (iw_side s) op" and ?T = "toTouchTicksFromTrades (map trades [c..<d])"
  let ?L = "map fst (live s) @ filter (\<lambda>c. \<not> isCoveredByLiveEvent s c) (unique extras)"
  obtain c0 where c0: "c0 \<le> c" "iw_tradeExtreme s = extreme_from (iw_side s) None (toTouchTicksFromTrades (map trades [c0..<d]))"
    using assms by (auto simp: walls_ok_def extreme_since_def)
  let ?x = "combineDayExtreme (iw_tradeExtreme s) backend (iw_side s)"
  have books: "index_ok s" "map fst (live s) = ?E" and touches: "touches_ok ?T s"
    using assms by (simp_all add: walls_ok_def holds_windows_def books_ok_def trades_ok_def)
  note best = classify_best [where extras = extras, OF books(1)]
  have set: "set (filter P ?L) = set (filter P (unique (?E @ extras)))" for P
    using best(3) unfolding set_filter set_unique books(2) by (simp only:)
  have rank: "best_of (filter P ?L) = rankPeakCandidates (filter P (unique (?E @ extras))) EMIT_LIMIT" for P
    by (rule rank_is_best [symmetric]) (simp_all only: distinct_filter best(2) set)
  have "set ?T \<subseteq> set (toTouchTicksFromTrades (map trades [c0..<d]))"
  proof -
    have "set [c..<d] \<subseteq> set [c0..<d]" using c0(1) by auto
    then show ?thesis unfolding toTouchTicksFromTrades_def by (simp only: set_concat set_map) blast
  qed
  then have "foldl (\<lambda>x t. combineDayExtreme x (Some (tt_price t)) (iw_side s)) ?x ?T = ?x"
    unfolding c0(2) extreme_from_def [symmetric] by (rule extreme_absorbs)
  then have "classify_now extras backend s = classifyWallEvents (?E @ extras) ?T (iw_side s) ?x"
    unfolding best(1) [of backend] classifyWallEvents_def Let_def
    using rank [of "touched_now s"] rank [of "\<lambda>_. True"] rank [of "\<lambda>c. isWallUnreached (pk_price c) ?x (iw_side s)"]
    by (simp add: touched_as_classified [OF touches])
  then show ?thesis using c0 by auto
qed

text \<open>One call of \<open>update\<close>: its windows of the two streams, the session and the two optional arguments.\<close>

record wall_call =
  wc_books :: "nat \<times> nat"
  wc_trades :: "nat \<times> nat"
  wc_open :: ms
  wc_extras :: "AskPeakCandidate list"
  wc_backend :: "rat option"

definition wall_update :: "(nat \<Rightarrow> ObSnapshot) \<Rightarrow> (nat \<Rightarrow> TradeSnapshot) \<Rightarrow> wall_call \<Rightarrow> IncrementalPeakWallSource
    \<Rightarrow> PeakWallClassification \<times> IncrementalPeakWallSource" where
  "wall_update books trades call s = updateWalls books trades [fst (wc_books call)..<snd (wc_books call)]
     [fst (wc_trades call)..<snd (wc_trades call)] (wc_open call) (wc_extras call) (wc_backend call) s"

definition wall_history :: "(nat \<Rightarrow> ObSnapshot) \<Rightarrow> (nat \<Rightarrow> TradeSnapshot) \<Rightarrow> BookSide \<Rightarrow> wall_call list \<Rightarrow> IncrementalPeakWallSource" where
  "wall_history books trades side calls = foldl (\<lambda>s call. snd (wall_update books trades call s)) (newPeakWallSource side) calls"

definition between_calls :: "(nat \<Rightarrow> ObSnapshot) \<Rightarrow> (nat \<Rightarrow> TradeSnapshot) \<Rightarrow> IncrementalPeakWallSource \<Rightarrow> bool" where
  "between_calls books trades s \<longleftrightarrow> iw_sessionOpenMs s = None \<or> (\<exists>op w v. walls_ok books trades op w v s)"

lemma opened_ok:
  assumes "between_calls books trades s"
  shows "\<exists>a b c d. walls_ok books trades op (a, b) (c, d) (open_session op s)"
proof (cases "iw_sessionOpenMs s = Some op")
  case True
  then obtain a b c d where "walls_ok books trades op (a, b) (c, d) s"
    using assms by (auto simp: between_calls_def walls_ok_def)
  then show ?thesis using True by (auto simp: open_session_def)
next
  case False
  have "walls_ok books trades op (0, 0) (0, 0) (open_session op s)"
    using False unfolding walls_ok_def holds_windows_def books_ok_def trades_ok_def touches_ok_def windows_ok_def index_ok_def extreme_since_def
    by (simp add: open_session_def reset_walls_def live_def toWallEventsFromOrderbooks_def toTouchTicksFromTrades_def prices_in_def
        extreme_from_def)
  then show ?thesis by blast
qed

lemma update_ok:
  assumes "between_calls books trades s"
  shows "walls_ok books trades (wc_open call) (wc_books call) (wc_trades call) (snd (wall_update books trades call s))"
    and "iw_side (snd (wall_update books trades call s)) = iw_side s"
proof -
  obtain a b c d where "walls_ok books trades (wc_open call) (a, b) (c, d) (open_session (wc_open call) s)"
    using opened_ok [OF assms] by blast
  note ok = accumulate_ok [OF this, of "fst (wc_books call)" "snd (wc_books call)" "fst (wc_trades call)" "snd (wc_trades call)"]
  show "walls_ok books trades (wc_open call) (wc_books call) (wc_trades call) (snd (wall_update books trades call s))"
    "iw_side (snd (wall_update books trades call s)) = iw_side s"
    using ok by (simp_all add: wall_update_def updateWalls_def Let_def)
qed

lemma history_ok: "between_calls books trades (wall_history books trades side calls) \<and> iw_side (wall_history books trades side calls) = side"
proof (induction calls rule: rev_induct)
  case Nil
  show ?case by (simp add: wall_history_def between_calls_def newPeakWallSource_def)
next
  case (snoc call calls)
  have "wall_history books trades side (calls @ [call]) = snd (wall_update books trades call (wall_history books trades side calls))"
    by (simp add: wall_history_def)
  moreover note ok = update_ok [where call = call, OF conjunct1 [OF snoc]]
  have "between_calls books trades (snd (wall_update books trades call (wall_history books trades side calls)))"
    using ok(1) unfolding between_calls_def by blast
  ultimately show ?case using ok(2) snoc by simp
qed

text \<open>
  C10. The accumulator answers what the classifier answers. After any history of updates on windows of
  the two streams of a day (growing, sliding, shrinking, starting over, changing session), one more
  update classifies exactly as \<open>classifyWallEvents\<close> does on the wall events of the current books
  together with the extra events, the touches of the current trades, and a day's extreme which covers
  the trades from some position \<open>c0\<close> at or before the current window.
\<close>

theorem incremental_walls_are_batch:
  "\<exists>c0 \<le> fst (wc_trades call). fst (wall_update books trades call (wall_history books trades side calls))
     = classifyWallEvents
         (toWallEventsFromOrderbooks (map books [fst (wc_books call)..<snd (wc_books call)]) side (wc_open call) @ wc_extras call)
         (toTouchTicksFromTrades (map trades [fst (wc_trades call)..<snd (wc_trades call)])) side
         (combineDayExtreme (extreme_from side None (toTouchTicksFromTrades (map trades [c0..<snd (wc_trades call)])))
           (wc_backend call) side)"
proof -
  let ?s = "wall_history books trades side calls"
  let ?s' = "snd (wall_update books trades call ?s)"
  have "fst (wall_update books trades call ?s) = classify_now (wc_extras call) (wc_backend call) ?s'"
    by (simp add: wall_update_def updateWalls_def Let_def)
  moreover have "walls_ok books trades (wc_open call) (fst (wc_books call), snd (wc_books call)) (fst (wc_trades call), snd (wc_trades call)) ?s'"
    using update_ok(1) history_ok by simp
  moreover have "iw_side ?s' = side" using update_ok(2) history_ok by metis
  ultimately show ?thesis using classify_batch by metis
qed

end
