(* ===== verification/BoardServer.thy ===== *)
theory BoardServer
  imports Prelude
begin

section \<open>Whiteboards: documents and the server\<close>

text \<open>
  The documents of \<open>api/whiteboards.ts\<close> and the server that owns them, \<open>hoga/api/whiteboards.py\<close>: one
  file per board, written under a lock, with the revision the writer based its change on and the
  identifier of the last change. What the disk and the encoders contribute (stored images, encoded
  sizes, the hash of a request) is a parameter, \<open>BoardDisk\<close>; the patterns of identifiers are not
  modelled. Text a user writes is \<open>js_text\<close>, identifiers are \<open>string\<close>.
\<close>

record BoardElement =
  el_id :: string
  el_version :: nat
  el_versionNonce :: nat
  el_isDeleted :: bool
  el_type :: string
  el_fileId :: "string option"

record WhiteboardFile =
  wf_asset_id :: string
  wf_mime_type :: string
  wf_width :: nat
  wf_height :: nat
  wf_bytes :: nat
  wf_created :: ms

record WhiteboardScene =
  sc_elements :: "BoardElement list"
  sc_appState :: "string option"
  sc_files :: "(string \<times> WhiteboardFile) list"

record ReviewRecord =
  rr_id :: string
  rr_title :: js_text
  rr_stock :: js_text
  rr_code :: js_text
  rr_timeframe :: js_text
  rr_captured_at_ms :: "ms option"
  rr_image_file_id :: "string option"
  rr_judgment :: js_text
  rr_action :: js_text
  rr_result :: js_text

record ReviewNote =
  rn_date :: string
  rn_summary :: js_text
  rn_completed :: bool
  rn_stocks :: "js_text list"
  rn_good :: js_text
  rn_change :: js_text
  rn_principle :: js_text
  rn_records :: "ReviewRecord list"

record WhiteboardDocument =
  wd_id :: string
  wd_name :: js_text
  wd_revision :: nat
  wd_created_at_ms :: ms
  wd_updated_at_ms :: ms
  wd_deleted_at_ms :: "ms option"
  wd_element_count :: nat
  wd_review :: "ReviewNote option"
  wd_schema_version :: nat
  wd_scene :: WhiteboardScene
  wd_last_mutation_id :: string
  wd_last_mutation_hash :: string

text \<open>A \<open>review\<close> that the request does not have is \<open>None\<close>, a \<open>null\<close> is \<open>Some None\<close>.\<close>

record WhiteboardWrite =
  ww_mutation_id :: string
  ww_expected_revision :: nat
  ww_name :: js_text
  ww_scene :: WhiteboardScene
  ww_deleted :: bool
  ww_review :: "ReviewNote option option"

record HttpError =
  he_status :: nat
  he_code :: string

record BoardDisk =
  bd_scene_bytes :: "WhiteboardScene \<Rightarrow> nat"
  bd_review_bytes :: "ReviewNote \<Rightarrow> nat"
  bd_asset :: "string \<Rightarrow> WhiteboardFile option"
  bd_digest :: "WhiteboardWrite \<Rightarrow> string"

definition http_error :: "nat \<Rightarrow> string \<Rightarrow> HttpError" where
  "http_error status code = \<lparr>he_status = status, he_code = code\<rparr>"

definition MAX_DOCUMENT_BYTES :: nat where
  "MAX_DOCUMENT_BYTES = 12 * 1024 * 1024"

subsection \<open>The checks of a request\<close>

text \<open>What \<open>str.strip\<close> takes off.\<close>

definition python_space :: "nat \<Rightarrow> bool" where
  "python_space c \<longleftrightarrow> c \<in> {9, 10, 11, 12, 13, 28, 29, 30, 31, 32, 133, 160, 5760, 8232, 8233, 8239, 8287, 12288}
     \<or> 8192 \<le> c \<and> c \<le> 8202"

definition strip_name :: "js_text \<Rightarrow> js_text" where
  "strip_name s = rev (dropWhile python_space (rev (dropWhile python_space s)))"

text \<open>The declared types of the request; a request that fails them is answered before it is handled.\<close>

definition valid_record :: "ReviewRecord \<Rightarrow> bool" where
  "valid_record r \<longleftrightarrow> length (rr_title r) \<le> 300 \<and> length (rr_stock r) \<le> 120
     \<and> (rr_code r = [] \<or> length (rr_code r) = 6 \<and> list_all (\<lambda>c. 48 \<le> c \<and> c \<le> 57) (rr_code r))
     \<and> length (rr_timeframe r) \<le> 20 \<and> (case rr_captured_at_ms r of None \<Rightarrow> True | Some t \<Rightarrow> 0 \<le> t)
     \<and> (case rr_image_file_id r of None \<Rightarrow> True | Some f \<Rightarrow> length f \<le> 128)
     \<and> length (rr_judgment r) \<le> 20000 \<and> length (rr_action r) \<le> 20000 \<and> length (rr_result r) \<le> 20000"

definition valid_review :: "ReviewNote \<Rightarrow> bool" where
  "valid_review r \<longleftrightarrow> length (rn_summary r) \<le> 10000 \<and> length (rn_stocks r) \<le> 200 \<and> length (rn_good r) \<le> 10000
     \<and> length (rn_change r) \<le> 10000 \<and> length (rn_principle r) \<le> 10000
     \<and> length (rn_records r) \<le> 200 \<and> list_all valid_record (rn_records r)"

definition valid_write :: "WhiteboardWrite \<Rightarrow> bool" where
  "valid_write q \<longleftrightarrow> 1 \<le> ww_expected_revision q \<and> strip_name (ww_name q) \<noteq> [] \<and> length (strip_name (ww_name q)) \<le> 120
     \<and> length (sc_elements (ww_scene q)) \<le> 10000
     \<and> (case ww_review q of Some (Some r) \<Rightarrow> valid_review r | _ \<Rightarrow> True)"

text \<open>The first error of a loop that raises.\<close>

definition first_error :: "('a \<Rightarrow> HttpError option) \<Rightarrow> 'a list \<Rightarrow> HttpError option" where
  "first_error f xs = (case List.map_filter f xs of [] \<Rightarrow> None | e # _ \<Rightarrow> Some e)"

definition file_error :: "BoardDisk \<Rightarrow> WhiteboardFile \<Rightarrow> HttpError option" where
  "file_error disk f = (case bd_asset disk (wf_asset_id f) of
     None \<Rightarrow> Some (http_error 409 ''whiteboard_missing_asset'')
   | Some meta \<Rightarrow> if f\<lparr>wf_created := 0\<rparr> \<noteq> meta\<lparr>wf_created := 0\<rparr>
       then Some (http_error 422 ''whiteboard_invalid_asset'') else None)"

definition element_error :: "WhiteboardScene \<Rightarrow> BoardElement \<Rightarrow> HttpError option" where
  "element_error scene e =
     (if el_type e = ''image'' \<and> \<not> el_isDeleted e
         \<and> (case el_fileId e of None \<Rightarrow> True | Some f \<Rightarrow> f \<notin> fst ` set (sc_files scene))
      then Some (http_error 422 ''whiteboard_missing_asset'')
      else if el_type e \<in> {''embeddable'', ''iframe''} then Some (http_error 422 ''whiteboard_embed_disabled'') else None)"

definition validate_scene :: "BoardDisk \<Rightarrow> WhiteboardScene \<Rightarrow> HttpError option" where
  "validate_scene disk scene =
     (if MAX_DOCUMENT_BYTES < bd_scene_bytes disk scene then Some (http_error 413 ''whiteboard_too_large'')
      else (case first_error (\<lambda>f. file_error disk (snd f)) (sc_files scene) of
          Some e \<Rightarrow> Some e
        | None \<Rightarrow> first_error (element_error scene) (sc_elements scene)))"

definition review_error :: "BoardDisk \<Rightarrow> WhiteboardScene \<Rightarrow> ReviewNote \<Rightarrow> HttpError option" where
  "review_error disk scene r =
     (if MAX_DOCUMENT_BYTES < bd_review_bytes disk r + bd_scene_bytes disk scene
      then Some (http_error 413 ''whiteboard_too_large'')
      else if \<not> distinct (map rr_id (rn_records r)) then Some (http_error 422 ''review_duplicate_record'')
      else if list_ex (\<lambda>x. case rr_image_file_id x of None \<Rightarrow> False | Some f \<Rightarrow> f \<noteq> '''' \<and> f \<notin> fst ` set (sc_files scene)) (rn_records r)
      then Some (http_error 422 ''whiteboard_missing_asset'') else None)"

subsection \<open>Writing a board\<close>

definition record_stock :: "ReviewRecord \<Rightarrow> js_text" where
  "record_stock r = (if rr_stock r \<noteq> [] then rr_stock r else rr_code r)"

text \<open>The stocks of a review are those of its records, each once.\<close>

definition with_stocks :: "ReviewNote \<Rightarrow> ReviewNote" where
  "with_stocks r = r\<lparr>rn_stocks := unique (filter (\<lambda>s. s \<noteq> []) (map record_stock (rn_records r)))\<rparr>"

definition NEW_BOARD :: js_text where "NEW_BOARD = [49352, 32, 48372, 46300]"

definition default_name :: "js_text \<Rightarrow> js_text" where
  "default_name name = (if name = [] then NEW_BOARD else name)"

definition written_document :: "BoardDisk \<Rightarrow> ms \<Rightarrow> WhiteboardWrite \<Rightarrow> ReviewNote option \<Rightarrow> WhiteboardDocument \<Rightarrow> WhiteboardDocument" where
  "written_document disk now q review old =
     \<lparr>wd_id = wd_id old, wd_name = default_name (strip_name (ww_name q)), wd_revision = wd_revision old + 1,
      wd_created_at_ms = wd_created_at_ms old, wd_updated_at_ms = now,
      wd_deleted_at_ms = (if ww_deleted q then
        (case wd_deleted_at_ms old of Some t \<Rightarrow> if t = 0 then Some now else Some t | None \<Rightarrow> Some now) else None),
      wd_element_count = length (filter (\<lambda>e. \<not> el_isDeleted e) (sc_elements (ww_scene q))),
      wd_review = review, wd_schema_version = (case review of Some _ \<Rightarrow> 2 | None \<Rightarrow> 1), wd_scene = ww_scene q,
      wd_last_mutation_id = ww_mutation_id q, wd_last_mutation_hash = bd_digest disk q\<rparr>"

definition write_board :: "BoardDisk \<Rightarrow> ms \<Rightarrow> WhiteboardWrite \<Rightarrow> WhiteboardDocument option \<Rightarrow> HttpError + WhiteboardDocument" where
  "write_board disk now q old = (case old of
     None \<Rightarrow> Inl (http_error 404 ''whiteboard_not_found'')
   | Some d \<Rightarrow>
       if wd_last_mutation_id d = ww_mutation_id q
       then (if wd_last_mutation_hash d \<noteq> bd_digest disk q then Inl (http_error 409 ''whiteboard_mutation_reused'') else Inr d)
       else if wd_revision d \<noteq> ww_expected_revision q then Inl (http_error 409 ''whiteboard_conflict'')
       else (case validate_scene disk (ww_scene q) of
           Some e \<Rightarrow> Inl e
         | None \<Rightarrow> (let review = (case ww_review q of Some r \<Rightarrow> r | None \<Rightarrow> wd_review d)
             in case (case review of Some r \<Rightarrow> review_error disk (ww_scene q) r | None \<Rightarrow> None) of
                 Some e \<Rightarrow> Inl e
               | None \<Rightarrow> Inr (written_document disk now q (map_option with_stocks review) d))))"

text \<open>The route: the request is parsed first.\<close>

definition update_board :: "BoardDisk \<Rightarrow> ms \<Rightarrow> WhiteboardWrite \<Rightarrow> WhiteboardDocument option \<Rightarrow> HttpError + WhiteboardDocument" where
  "update_board disk now q old = (if valid_write q then write_board disk now q old
     else Inl (http_error 422 ''validation_error''))"

subsection \<open>What an accepted request leaves\<close>

text \<open>The document holds the request, and was made on the revision the request expects.\<close>

definition holds_request :: "WhiteboardWrite \<Rightarrow> WhiteboardDocument \<Rightarrow> bool" where
  "holds_request q d \<longleftrightarrow> wd_last_mutation_id d = ww_mutation_id q \<and> wd_scene d = ww_scene q
     \<and> wd_name d = strip_name (ww_name q) \<and> (\<forall>r. ww_review q = Some r \<longrightarrow> wd_review d = map_option with_stocks r)
     \<and> wd_revision d = ww_expected_revision q + 1"

lemma update_cases:
  assumes "update_board disk now q (Some old) = Inr d"
  obtains (again) "d = old" "wd_last_mutation_id old = ww_mutation_id q"
    | (written) "wd_last_mutation_id old \<noteq> ww_mutation_id q" "wd_revision old = ww_expected_revision q"
      "holds_request q d" "wd_id d = wd_id old" "valid_write q"
proof (cases "wd_last_mutation_id old = ww_mutation_id q")
  case True
  then show ?thesis using assms again by (auto simp: update_board_def write_board_def split: if_splits)
next
  case False
  then have "wd_revision old = ww_expected_revision q" "valid_write q"
    "d = written_document disk now q (map_option with_stocks (case ww_review q of Some r \<Rightarrow> r | None \<Rightarrow> wd_review old)) old"
    using assms by (auto simp: update_board_def write_board_def Let_def split: if_splits option.splits)
  then show ?thesis using written False
    by (auto simp: holds_request_def written_document_def default_name_def valid_write_def)
qed

lemma dropWhile_again: "dropWhile P (dropWhile P xs) = dropWhile P xs"
  by (induction xs) auto

lemma strip_again: "strip_name (strip_name s) = strip_name s"
proof -
  let ?a = "dropWhile python_space s"
  let ?b = "rev (dropWhile python_space (rev ?a))"
  have "dropWhile python_space ?b = ?b"
  proof (cases ?b)
    case (Cons c cs)
    have "?b @ rev (takeWhile python_space (rev ?a)) = ?a"
      by (metis rev_append rev_rev_ident takeWhile_dropWhile_id)
    then have "hd ?a = c" "?a \<noteq> []" using Cons by (metis append_Cons list.sel(1), force)
    then have "\<not> python_space c" by (metis hd_dropWhile)
    then show ?thesis using Cons by simp
  next
    case Nil
    then show ?thesis by (simp only: dropWhile.simps)
  qed
  then show ?thesis unfolding strip_name_def by (simp add: dropWhile_again)
qed

end
