(* ===== verification/BoardSession.thy ===== *)
theory BoardSession
  imports BoardServer
begin

section \<open>Whiteboards: an open board\<close>

text \<open>
  \<open>whiteboard/session.ts\<close>, with \<open>clearDraft\<close>, \<open>writeLocal\<close> and the choice of \<open>findDraft\<close> from
  \<open>whiteboard/drafts.ts\<close> and \<open>persistImages\<close> from \<open>whiteboard/images.ts\<close>. An \<open>async\<close> function is cut at
  its \<open>await\<close>s: \<open>bs_saving\<close> says where \<open>save\<close> waits, \<open>bs_trash\<close> where \<open>trash\<close> does. Around the session
  are the transactions of the browser's database that are under way (they complete in order, or fail),
  the requests on the wire (each is handled once, at any later time, or never), the answers, and the
  board's file. Everything may interleave. The token \<open>owner:generation\<close> of a draft is the pair of the
  two; the owner and the identifiers of requests are fresh.
\<close>

datatype SaveStatus = StSaved | StDirty | StSaving | StError | StConflict
datatype Lifecycle = LcActive | LcTrashing | LcRetired
datatype Message = NoMessage | DraftRestored | DraftNotKept | StoreUnavailable | ErrorText js_text | NotSaved

record BinaryFile =
  bf_dataURL :: string
  bf_created :: ms

type_synonym token = "string \<times> nat"

record BoardDraft =
  dr_id :: string
  dr_revision :: nat
  dr_name :: js_text
  dr_review :: "ReviewNote option"
  dr_elements :: "BoardElement list"
  dr_files :: "(string \<times> BinaryFile) list"
  dr_assets :: "(string \<times> WhiteboardFile) list"
  dr_appState :: "string option"
  dr_changedAt :: ms
  dr_token :: token

datatype SavePhase = Journalling | Uploading nat BoardDraft "(string \<times> WhiteboardFile) list" | Writing nat
  | Forgetting nat | Clearing | Rejournalling

datatype TrashPhase = TrashFlushing bool token | TrashWriting nat token | TrashClearing

record BoardSession =
  bs_key :: string
  bs_owner :: string
  bs_document :: WhiteboardDocument
  bs_elements :: "BoardElement list"
  bs_files :: "(string \<times> BinaryFile) list"
  bs_appState :: "string option"
  bs_lifecycle :: Lifecycle
  bs_status :: SaveStatus
  bs_name :: js_text
  bs_message :: Message
  bs_localError :: bool
  bs_shownGeneration :: nat
  bs_review :: "ReviewNote option"
  bs_generation :: nat
  bs_localGeneration :: int
  bs_signature :: string
  bs_timer :: bool
  bs_maxTimer :: bool
  bs_draftTimer :: bool
  bs_saving :: "SavePhase option"
  bs_pending :: "(WhiteboardWrite \<times> nat) option"
  bs_recovered :: "(string \<times> token) option"
  bs_trash :: "TrashPhase option"

subsection \<open>Edits\<close>

definition bool_text :: "bool \<Rightarrow> string" where
  "bool_text b = (if b then ''true'' else ''false'')"

fun join_string :: "string \<Rightarrow> string list \<Rightarrow> string" where
  "join_string sep [] = []"
| "join_string sep [x] = x"
| "join_string sep (x # xs) = x @ sep @ join_string sep xs"

definition contentSignature :: "BoardElement list \<Rightarrow> string" where
  "contentSignature elements = join_string ''|'' (map (\<lambda>e. el_id e @ '':'' @ nat_text (el_version e) @ '':''
     @ nat_text (el_versionNonce e) @ '':'' @ bool_text (el_isDeleted e)) elements)"

text \<open>\<open>update\<close>: the patch \<open>f\<close> of the state, which then shows the current generation.\<close>

definition update_state :: "(BoardSession \<Rightarrow> BoardSession) \<Rightarrow> BoardSession \<Rightarrow> BoardSession" where
  "update_state f s = (f s)\<lparr>bs_shownGeneration := bs_generation s\<rparr>"

definition schedule :: "BoardSession \<Rightarrow> BoardSession" where
  "schedule s = s\<lparr>bs_timer := True, bs_maxTimer := True\<rparr>"

definition changed :: "BoardSession \<Rightarrow> BoardSession" where
  "changed s0 = (let s = s0\<lparr>bs_generation := bs_generation s0 + 1\<rparr>;
       s1 = (if bs_status s \<noteq> StConflict then update_state (\<lambda>s. s\<lparr>bs_status := StDirty, bs_message := NoMessage\<rparr>) s
             else update_state (\<lambda>s. s) s);
       s2 = s1\<lparr>bs_draftTimer := True\<rparr>
     in if bs_status s2 \<noteq> StConflict then schedule s2 else s2)"

definition change :: "BoardElement list \<Rightarrow> string option \<Rightarrow> (string \<times> BinaryFile) list \<Rightarrow> BoardSession \<Rightarrow> BoardSession" where
  "change elements viewBackgroundColor files s =
     (if bs_lifecycle s \<noteq> LcActive then s
      else (let signature = contentSignature elements; s1 = s\<lparr>bs_files := files\<rparr>
        in if signature = bs_signature s1 then s1
           else changed (s1\<lparr>bs_signature := signature, bs_elements := elements, bs_appState := viewBackgroundColor\<rparr>)))"

definition rename :: "js_text \<Rightarrow> BoardSession \<Rightarrow> BoardSession" where
  "rename name s = (if bs_lifecycle s \<noteq> LcActive then s else if name = bs_name s then s
     else changed (update_state (\<lambda>s. s\<lparr>bs_name := name\<rparr>) s))"

definition editReview :: "ReviewNote \<Rightarrow> BoardSession \<Rightarrow> BoardSession" where
  "editReview review s = (if bs_lifecycle s \<noteq> LcActive then s
     else changed (update_state (\<lambda>s. s\<lparr>bs_review := Some review\<rparr>) s))"

definition needsUnloadWarning :: "BoardSession \<Rightarrow> bool" where
  "needsUnloadWarning s \<longleftrightarrow> bs_status s \<noteq> StSaved \<and> bs_localGeneration s \<noteq> int (bs_generation s)"

definition draft_of :: "ms \<Rightarrow> BoardSession \<Rightarrow> BoardDraft" where
  "draft_of now s = \<lparr>dr_id = wd_id (bs_document s), dr_revision = wd_revision (bs_document s), dr_name = bs_name s,
     dr_review = bs_review s, dr_elements = bs_elements s, dr_files = bs_files s,
     dr_assets = sc_files (wd_scene (bs_document s)), dr_appState = bs_appState s, dr_changedAt = now,
     dr_token = (bs_owner s, bs_generation s)\<rparr>"

subsection \<open>The world around a session\<close>

datatype Waiter = Nobody | SaveWaits | TrashWaits | DiscardWaits
datatype JournalOp = PutDraft string BoardDraft nat Waiter | ClearDraft string token Waiter | DropDraft string

record BoardWorld =
  bw_session :: BoardSession
  bw_drafts :: "string \<Rightarrow> BoardDraft option"
  bw_journal :: "JournalOp list"
  bw_wire :: "(nat \<times> WhiteboardWrite) list"
  bw_answers :: "(nat \<times> WhiteboardWrite \<times> (HttpError + WhiteboardDocument)) list"
  bw_calls :: nat
  bw_file :: WhiteboardDocument
  bw_now :: ms
  bw_sent :: "WhiteboardWrite list"
  bw_log :: "WhiteboardDocument list"

text \<open>\<open>bw_sent\<close> and \<open>bw_log\<close> record all requests and all contents of the file, for the statements only.\<close>

definition on_session :: "(BoardSession \<Rightarrow> BoardSession) \<Rightarrow> BoardWorld \<Rightarrow> BoardWorld" where
  "on_session f w = w\<lparr>bw_session := f (bw_session w)\<rparr>"

definition enqueue :: "JournalOp \<Rightarrow> BoardWorld \<Rightarrow> BoardWorld" where
  "enqueue op w = w\<lparr>bw_journal := bw_journal w @ [op]\<rparr>"

definition send :: "WhiteboardWrite \<Rightarrow> BoardWorld \<Rightarrow> BoardWorld" where
  "send q w = w\<lparr>bw_wire := bw_wire w @ [(bw_calls w, q)], bw_calls := bw_calls w + 1, bw_sent := bw_sent w @ [q]\<rparr>"

definition keepsDraft :: "BoardSession \<Rightarrow> bool" where
  "keepsDraft s \<longleftrightarrow> bs_lifecycle s \<noteq> LcRetired \<and> bs_status s \<noteq> StSaved"

definition persistDraft :: "Waiter \<Rightarrow> BoardWorld \<Rightarrow> BoardWorld" where
  "persistDraft who w = (let s = bw_session w in
     if keepsDraft s then enqueue (PutDraft (bs_key s) (draft_of (bw_now w) s) (bs_generation s) who) w else w)"

definition draft_kept :: "nat \<Rightarrow> bool \<Rightarrow> BoardSession \<Rightarrow> BoardSession" where
  "draft_kept generation ok s =
     (if ok then update_state (\<lambda>s. s\<lparr>bs_localError := False\<rparr>) (s\<lparr>bs_localGeneration := int generation\<rparr>)
      else update_state (\<lambda>s. s\<lparr>bs_localError := True, bs_message := DraftNotKept\<rparr>) s)"

subsection \<open>Saving\<close>

definition clear_save_timers :: "BoardSession \<Rightarrow> BoardSession" where
  "clear_save_timers s = s\<lparr>bs_timer := False, bs_maxTimer := False\<rparr>"

text \<open>\<open>flush\<close>, with \<open>save\<close> up to its first \<open>await\<close>; a call that finds a save under way joins it.\<close>

definition flush :: "BoardWorld \<Rightarrow> BoardWorld" where
  "flush w0 = (let w = on_session clear_save_timers w0; s = bw_session w in
     if bs_lifecycle s = LcRetired then w
     else if bs_saving s \<noteq> None then w
     else if bs_status s = StSaved \<or> bs_status s = StConflict then w
     else persistDraft SaveWaits
       (on_session (\<lambda>s. (update_state (\<lambda>s. s\<lparr>bs_status := StSaving\<rparr>) s)\<lparr>bs_saving := Some Journalling\<rparr>) w))"

definition await_save :: "SavePhase \<Rightarrow> BoardSession \<Rightarrow> BoardSession" where
  "await_save p s = s\<lparr>bs_saving := Some p\<rparr>"

text \<open>The end of \<open>flush\<close>.\<close>

definition save_finished :: "BoardSession \<Rightarrow> BoardSession" where
  "save_finished s0 = (let s = s0\<lparr>bs_saving := None\<rparr> in if bs_status s = StDirty then schedule s else s)"

definition send_pending :: "BoardWorld \<Rightarrow> BoardWorld" where
  "send_pending w = (case bs_pending (bw_session w) of
     Some (q, _) \<Rightarrow> send q (on_session (await_save (Writing (bw_calls w))) w) | None \<Rightarrow> w)"

definition save_journalled :: "BoardWorld \<Rightarrow> BoardWorld" where
  "save_journalled w = (let s = bw_session w in
     if bs_pending s = None
     then on_session (await_save (Uploading (bs_generation s) (draft_of (bw_now w) s) (sc_files (wd_scene (bs_document s))))) w
     else send_pending w)"

fun persistImages :: "(string \<Rightarrow> WhiteboardFile option) \<Rightarrow> (string \<times> BinaryFile) list \<Rightarrow> (string \<times> WhiteboardFile) list
    \<Rightarrow> (string \<times> WhiteboardFile) list option" where
  "persistImages upload [] result = Some result"
| "persistImages upload ((i, f) # fs) result =
     (if i \<in> fst ` set result then persistImages upload fs result
      else (case upload (bf_dataURL f) of None \<Rightarrow> None
        | Some stored \<Rightarrow> persistImages upload fs (result @ [(i, stored\<lparr>wf_created := bf_created f\<rparr>)])))"

definition draft_name :: "BoardDraft \<Rightarrow> js_text" where
  "draft_name d = default_name (trim_text (dr_name d))"

definition save_request :: "string \<Rightarrow> BoardDraft \<Rightarrow> (string \<times> WhiteboardFile) list \<Rightarrow> BoardSession \<Rightarrow> WhiteboardWrite" where
  "save_request mutation d assets s = \<lparr>ww_mutation_id = mutation, ww_expected_revision = wd_revision (bs_document s),
     ww_name = draft_name d, ww_scene = \<lparr>sc_elements = dr_elements d, sc_appState = dr_appState d, sc_files = assets\<rparr>,
     ww_deleted = False, ww_review = Some (dr_review d)\<rparr>"

definition images_saved :: "string \<Rightarrow> nat \<Rightarrow> BoardDraft \<Rightarrow> (string \<times> WhiteboardFile) list \<Rightarrow> BoardWorld \<Rightarrow> BoardWorld" where
  "images_saved mutation generation d assets w =
     send_pending (on_session (\<lambda>s. s\<lparr>bs_pending := Some (save_request mutation d assets s, generation)\<rparr>) w)"

definition acknowledged :: "nat \<Rightarrow> BoardWorld \<Rightarrow> BoardWorld" where
  "acknowledged generation w = (let s = bw_session w in
     if bs_generation s = generation
     then enqueue (ClearDraft (bs_key s) (bs_owner s, generation) SaveWaits)
       (on_session (\<lambda>s. await_save Clearing (update_state (\<lambda>s. s\<lparr>bs_status := StSaved, bs_name := wd_name (bs_document s),
          bs_message := (if bs_localError s then bs_message s else NoMessage)\<rparr>) s)) w)
     else (let w1 = on_session (update_state (\<lambda>s. s\<lparr>bs_status := StDirty\<rparr>)) w
       in if keepsDraft (bw_session w1) then persistDraft SaveWaits (on_session (await_save Rejournalling) w1)
          else on_session save_finished w1))"

record Failure =
  fl_error :: "HttpError option"
  fl_message :: "js_text option"

definition is_embed :: "BoardElement \<Rightarrow> bool" where
  "is_embed e \<longleftrightarrow> el_type e = ''embeddable'' \<or> el_type e = ''iframe''"

definition failure_code :: "Failure \<Rightarrow> string option" where
  "failure_code f = map_option he_code (fl_error f)"

definition embedRejected :: "Failure \<Rightarrow> bool" where
  "embedRejected f \<longleftrightarrow> failure_code f = Some ''whiteboard_embed_disabled''"

definition sizeRejected :: "Failure \<Rightarrow> bool" where
  "sizeRejected f \<longleftrightarrow> failure_code f = Some ''whiteboard_too_large'' \<and> map_option he_status (fl_error f) = Some 413"

definition save_failed_status :: "Failure \<Rightarrow> BoardSession \<Rightarrow> BoardSession" where
  "save_failed_status f = update_state (\<lambda>s. s\<lparr>
     bs_status := (if failure_code f = Some ''whiteboard_conflict'' then StConflict else StError),
     bs_message := (case fl_message f of Some m \<Rightarrow> ErrorText m | None \<Rightarrow> NotSaved)\<rparr>)"

text \<open>The \<open>catch\<close> of \<open>save\<close>.\<close>

definition save_failed :: "Failure \<Rightarrow> BoardSession \<Rightarrow> BoardSession" where
  "save_failed f s = save_finished (
     if embedRejected f \<or> sizeRejected f
     then (let s1 = s\<lparr>bs_pending := None\<rparr> in
       case bs_pending s of
         Some (_, g) \<Rightarrow> if g < bs_generation s \<and> (sizeRejected f \<or> \<not> list_ex is_embed (bs_elements s))
           then update_state (\<lambda>s. s\<lparr>bs_status := StDirty, bs_message := NoMessage\<rparr>) s1 else save_failed_status f s1
       | None \<Rightarrow> save_failed_status f s1)
     else save_failed_status f s)"

definition save_answered :: "js_text option \<Rightarrow> HttpError + WhiteboardDocument \<Rightarrow> BoardWorld \<Rightarrow> BoardWorld" where
  "save_answered msg r w = (case r of
     Inl e \<Rightarrow> on_session (save_failed \<lparr>fl_error = Some e, fl_message = msg\<rparr>) w
   | Inr doc \<Rightarrow> (case bs_pending (bw_session w) of None \<Rightarrow> w
       | Some (_, g) \<Rightarrow> (let w1 = on_session (\<lambda>s. s\<lparr>bs_document := doc, bs_pending := None\<rparr>) w
           in case bs_recovered (bw_session w1) of
               Some (k, t) \<Rightarrow> enqueue (ClearDraft k t SaveWaits) (on_session (await_save (Forgetting g)) w1)
             | None \<Rightarrow> acknowledged g w1)))"

text \<open>
  \<open>fork\<close>: a new board with what the session shows; \<open>None\<close> when an image cannot be stored. The name is
  that of the session, cut, with the word for copy.
\<close>

definition fork_name :: "BoardSession \<Rightarrow> js_text" where
  "fork_name s = take 117 (bs_name s) @ [32, 48373, 49324]"

definition fork :: "(string \<Rightarrow> WhiteboardFile option) \<Rightarrow> ms \<Rightarrow> js_text option \<Rightarrow> BoardSession
    \<Rightarrow> (js_text \<times> WhiteboardScene \<times> ReviewNote option) option" where
  "fork upload now name s = (let d = draft_of now s in
     map_option (\<lambda>assets. (case name of Some n \<Rightarrow> n | None \<Rightarrow> fork_name s,
         \<lparr>sc_elements = dr_elements d, sc_appState = dr_appState d, sc_files = assets\<rparr>, dr_review d))
       (persistImages upload (dr_files d) (sc_files (wd_scene (bs_document s)))))"

subsection \<open>Trash, retirement and the journal\<close>

definition retire :: "BoardSession \<Rightarrow> BoardSession" where
  "retire s = (update_state (\<lambda>s. s\<lparr>bs_lifecycle := LcRetired\<rparr>) s)\<lparr>bs_timer := False, bs_maxTimer := False, bs_draftTimer := False\<rparr>"

definition trash :: "bool \<Rightarrow> BoardWorld \<Rightarrow> BoardWorld" where
  "trash deleted w = (let s = bw_session w in if bs_lifecycle s \<noteq> LcActive then w
     else flush (on_session (\<lambda>s. (update_state (\<lambda>s. s\<lparr>bs_lifecycle := LcTrashing\<rparr>) s)
       \<lparr>bs_trash := Some (TrashFlushing deleted (bs_owner s, bs_generation s))\<rparr>) w))"

definition trash_failed :: "BoardSession \<Rightarrow> BoardSession" where
  "trash_failed s = (update_state (\<lambda>s. s\<lparr>bs_lifecycle := LcActive\<rparr>) s)\<lparr>bs_trash := None\<rparr>"

definition trash_request :: "string \<Rightarrow> bool \<Rightarrow> WhiteboardDocument \<Rightarrow> WhiteboardWrite" where
  "trash_request mutation deleted d = \<lparr>ww_mutation_id = mutation, ww_expected_revision = wd_revision d, ww_name = wd_name d,
     ww_scene = wd_scene d, ww_deleted = deleted, ww_review = Some (wd_review d)\<rparr>"

definition trash_flushed :: "string \<Rightarrow> bool \<Rightarrow> token \<Rightarrow> BoardWorld \<Rightarrow> BoardWorld" where
  "trash_flushed mutation deleted tok w = (let s = bw_session w in
     if bs_status s \<noteq> StSaved then on_session trash_failed w
     else send (trash_request mutation deleted (bs_document s))
       (on_session (\<lambda>s. s\<lparr>bs_trash := Some (TrashWriting (bw_calls w) tok)\<rparr>) w))"

definition trash_answered :: "token \<Rightarrow> HttpError + WhiteboardDocument \<Rightarrow> BoardWorld \<Rightarrow> BoardWorld" where
  "trash_answered tok r w = (case r of
     Inl e \<Rightarrow> on_session trash_failed w
   | Inr doc \<Rightarrow> enqueue (ClearDraft (bs_key (bw_session w)) tok TrashWaits)
       (on_session (\<lambda>s. s\<lparr>bs_document := doc, bs_trash := Some TrashClearing\<rparr>) w))"

text \<open>What a finished transaction wakes up.\<close>

definition save_resumed :: "BoardWorld \<Rightarrow> BoardWorld" where
  "save_resumed w = (case bs_saving (bw_session w) of
     Some Journalling \<Rightarrow> save_journalled w
   | Some (Forgetting g) \<Rightarrow> acknowledged g (on_session (\<lambda>s. s\<lparr>bs_recovered := None\<rparr>) w)
   | Some Clearing \<Rightarrow> on_session save_finished w
   | Some Rejournalling \<Rightarrow> on_session save_finished w
   | _ \<Rightarrow> w)"

definition resumed :: "Waiter \<Rightarrow> BoardWorld \<Rightarrow> BoardWorld" where
  "resumed who w = (case who of Nobody \<Rightarrow> w | SaveWaits \<Rightarrow> save_resumed w
     | TrashWaits \<Rightarrow> on_session (\<lambda>s. (retire s)\<lparr>bs_trash := None\<rparr>) w
     | DiscardWaits \<Rightarrow> enqueue (DropDraft (bs_key (bw_session w))) w)"

definition discardBoardSession :: "BoardWorld \<Rightarrow> BoardWorld" where
  "discardBoardSession w0 = (let w = on_session retire w0 in
     case bs_recovered (bw_session w) of Some (k, t) \<Rightarrow> enqueue (ClearDraft k t DiscardWaits) w
     | None \<Rightarrow> enqueue (DropDraft (bs_key (bw_session w))) w)"

definition clear_stored :: "string \<Rightarrow> token \<Rightarrow> (string \<Rightarrow> BoardDraft option) \<Rightarrow> (string \<Rightarrow> BoardDraft option)" where
  "clear_stored k tok drafts = (if map_option dr_token (drafts k) = Some tok then drafts(k := None) else drafts)"

definition journal_done :: "bool \<Rightarrow> JournalOp \<Rightarrow> BoardWorld \<Rightarrow> BoardWorld" where
  "journal_done ok op w = (case op of
     PutDraft k d g who \<Rightarrow> resumed who (on_session (draft_kept g ok)
       (if ok then w\<lparr>bw_drafts := (bw_drafts w)(k \<mapsto> d)\<rparr> else w))
   | ClearDraft k tok who \<Rightarrow> if ok then resumed who (w\<lparr>bw_drafts := clear_stored k tok (bw_drafts w)\<rparr>)
       else if who = DiscardWaits then w else resumed who w
   | DropDraft k \<Rightarrow> if ok then w\<lparr>bw_drafts := (bw_drafts w)(k := None)\<rparr> else w)"

definition server_handles :: "BoardDisk \<Rightarrow> nat \<Rightarrow> BoardWorld \<Rightarrow> BoardWorld" where
  "server_handles disk i w = (case bw_wire w ! i of (c, q) \<Rightarrow>
     (let r = update_board disk (bw_now w) q (Some (bw_file w));
          w1 = w\<lparr>bw_wire := take i (bw_wire w) @ drop (Suc i) (bw_wire w), bw_answers := (c, q, r) # bw_answers w\<rparr>
      in case r of Inr d \<Rightarrow> if wd_last_mutation_id d = wd_last_mutation_id (bw_file w) then w1
            else w1\<lparr>bw_file := d, bw_log := bw_log w @ [d]\<rparr>
         | Inl _ \<Rightarrow> w1))"

subsection \<open>Opening a board\<close>

definition new_session :: "WhiteboardDocument \<Rightarrow> (string \<times> BinaryFile) list \<Rightarrow> string \<Rightarrow> string \<Rightarrow> BoardDraft option \<Rightarrow> BoardSession" where
  "new_session doc files k owner found =
     (let elements = (case found of Some d \<Rightarrow> dr_elements d | None \<Rightarrow> sc_elements (wd_scene doc));
          s = \<lparr>bs_key = k, bs_owner = owner, bs_document = doc, bs_elements = elements,
            bs_files = (case found of Some d \<Rightarrow> dr_files d | None \<Rightarrow> files),
            bs_appState = (case found of Some d \<Rightarrow> dr_appState d | None \<Rightarrow> sc_appState (wd_scene doc)),
            bs_lifecycle = LcActive,
            bs_status = (case found of Some d \<Rightarrow> if dr_revision d = wd_revision doc then StDirty else StConflict | None \<Rightarrow> StSaved),
            bs_name = (case found of Some d \<Rightarrow> dr_name d | None \<Rightarrow> wd_name doc),
            bs_message = (case found of Some _ \<Rightarrow> DraftRestored | None \<Rightarrow> NoMessage), bs_localError = False,
            bs_shownGeneration = 0,
            bs_review = (case found of Some d \<Rightarrow> (case dr_review d of Some r \<Rightarrow> Some r | None \<Rightarrow> wd_review doc) | None \<Rightarrow> wd_review doc),
            bs_generation = 0, bs_localGeneration = -1, bs_signature = contentSignature elements,
            bs_timer = False, bs_maxTimer = False, bs_draftTimer = False, bs_saving = None, bs_pending = None,
            bs_recovered = None, bs_trash = None\<rparr>
      in case found of None \<Rightarrow> s
         | Some d \<Rightarrow> (let s1 = s\<lparr>bs_localGeneration := 0\<rparr>
             in if dr_revision d = wd_revision doc then schedule s1 else s1))"

text \<open>The draft of this tab, else the one changed last.\<close>

definition findDraft :: "string \<Rightarrow> (string \<times> BoardDraft) list \<Rightarrow> (string \<times> BoardDraft) option" where
  "findDraft ownKey drafts = (case find (\<lambda>row. fst row = ownKey) drafts of Some row \<Rightarrow> Some row
     | None \<Rightarrow> (case sort_key (\<lambda>row. - dr_changedAt (snd row)) drafts of [] \<Rightarrow> None | row # _ \<Rightarrow> Some row))"

definition draft_is_stored :: "BoardDraft \<Rightarrow> WhiteboardDocument \<Rightarrow> bool" where
  "draft_is_stored d doc \<longleftrightarrow> dr_name d = wd_name doc \<and> dr_review d = wd_review doc \<and> dr_elements d = sc_elements (wd_scene doc)"

text \<open>
  The end of \<open>openBoardSession\<close> without the cache: \<open>located\<close> is what \<open>findDraft\<close> gave, \<open>None\<close> when it
  failed.
\<close>

definition opened_session :: "WhiteboardDocument \<Rightarrow> (string \<times> BinaryFile) list \<Rightarrow> string \<Rightarrow> string
    \<Rightarrow> (string \<times> BoardDraft) option option \<Rightarrow> BoardSession" where
  "opened_session doc images k owner located =
     (let found = (case located of Some (Some (_, d)) \<Rightarrow> if draft_is_stored d doc then None else Some d | _ \<Rightarrow> None);
          s = new_session doc images k owner found;
          s1 = (case (found, located) of (Some d, Some (Some (lk, _))) \<Rightarrow> s\<lparr>bs_recovered := Some (lk, dr_token d)\<rparr> | _ \<Rightarrow> s)
      in if located = None then s1\<lparr>bs_localError := True, bs_message := StoreUnavailable\<rparr> else s1)"

text \<open>A draft that the board holds already is cleared.\<close>

definition opening_clears :: "WhiteboardDocument \<Rightarrow> (string \<times> BoardDraft) option option \<Rightarrow> JournalOp list" where
  "opening_clears doc located = (case located of
     Some (Some (k, d)) \<Rightarrow> if draft_is_stored d doc then [ClearDraft k (dr_token d) Nobody] else [] | _ \<Rightarrow> [])"

text \<open>The sessions kept per tab, in order of insertion; \<open>observed\<close> tells whether one has a subscriber.\<close>

type_synonym session_cache = "(string \<times> BoardSession \<times> bool) list"

definition session_reusable :: "WhiteboardDocument \<Rightarrow> BoardSession \<Rightarrow> bool" where
  "session_reusable doc s \<longleftrightarrow> bs_status s \<noteq> StSaved \<or> wd_revision (bs_document s) = wd_revision doc"

definition session_current :: "WhiteboardDocument \<Rightarrow> BoardSession \<Rightarrow> bool" where
  "session_current doc s \<longleftrightarrow> bs_status s \<noteq> StSaved \<or> wd_revision doc \<le> wd_revision (bs_document s)"

fun cache_set :: "string \<Rightarrow> BoardSession \<times> bool \<Rightarrow> session_cache \<Rightarrow> session_cache" where
  "cache_set k v [] = [(k, v)]"
| "cache_set k v ((k', v') # c) = (if k' = k then (k, v) # c else (k', v') # cache_set k v c)"

text \<open>The loop over the entries: \<open>n\<close> is the number of sessions left.\<close>

fun evict_sessions :: "string \<Rightarrow> nat \<Rightarrow> session_cache \<Rightarrow> session_cache" where
  "evict_sessions k n [] = []"
| "evict_sessions k n ((k', s, observed) # c) =
     (let dropped = k' \<noteq> k \<and> bs_status s = StSaved \<and> \<not> observed; n' = (if dropped then n - 1 else n);
          rest = (if n' \<le> 4 then c else evict_sessions k n' c)
      in if dropped then rest else (k', s, observed) # rest)"

definition admit_session :: "string \<Rightarrow> BoardSession \<Rightarrow> session_cache \<Rightarrow> session_cache" where
  "admit_session k s now = (let c = cache_set k (s, False) now
     in if 4 < length c then evict_sessions k (length c) c else c)"

text \<open>\<open>before\<close> is the cache at the call, \<open>now\<close> the cache after the two \<open>await\<close>s.\<close>

definition openBoardSession :: "WhiteboardDocument \<Rightarrow> (string \<times> BinaryFile) list \<Rightarrow> string \<Rightarrow> string
    \<Rightarrow> (string \<times> BoardDraft) option option \<Rightarrow> session_cache \<Rightarrow> session_cache \<Rightarrow> BoardSession \<times> session_cache" where
  "openBoardSession doc images k owner located before now =
     (let fresh = (case map_of now k of
            Some (s, _) \<Rightarrow> if session_current doc s then (s, now)
              else (let s' = opened_session doc images k owner located in (s', admit_session k s' now))
          | None \<Rightarrow> (let s' = opened_session doc images k owner located in (s', admit_session k s' now)))
      in case map_of before k of
           Some (s, _) \<Rightarrow> if session_reusable doc s then (s, before) else fresh
         | None \<Rightarrow> fresh)"

subsection \<open>Steps\<close>

record BoardEnv =
  be_disk :: BoardDisk
  be_upload :: "string \<Rightarrow> WhiteboardFile option"

definition fresh_mutation :: "string \<Rightarrow> BoardWorld \<Rightarrow> bool" where
  "fresh_mutation m w \<longleftrightarrow> m \<notin> ww_mutation_id ` set (bw_sent w) \<union> wd_last_mutation_id ` set (bw_log w)"

definition images_done :: "BoardEnv \<Rightarrow> string \<Rightarrow> js_text option \<Rightarrow> BoardWorld \<Rightarrow> BoardWorld" where
  "images_done env mutation msg w = (case bs_saving (bw_session w) of
     Some (Uploading g d known) \<Rightarrow> (case persistImages (be_upload env) (dr_files d) known of
         Some assets \<Rightarrow> images_saved mutation g d assets w
       | None \<Rightarrow> on_session (save_failed \<lparr>fl_error = None, fl_message = msg\<rparr>) w)
   | _ \<Rightarrow> w)"

text \<open>
  One rule per thing that can happen: an edit, a timer, a call from the page, the end of a database
  transaction, of an upload or of a request, the server handling a request or failing on it, and
  another window writing the board. The page does not discard a session while it trashes the board.
\<close>

inductive board_step :: "BoardEnv \<Rightarrow> BoardWorld \<Rightarrow> BoardWorld \<Rightarrow> bool" for env where
  edited: "board_step env w (on_session (change elements colour files) w)"
| renamed: "board_step env w (on_session (rename name) w)"
| reviewed: "board_step env w (on_session (editReview r) w)"
| draft_timer: "bs_draftTimer (bw_session w)
    \<Longrightarrow> board_step env w (persistDraft Nobody (on_session (\<lambda>s. s\<lparr>bs_draftTimer := False\<rparr>) w))"
| save_timer: "bs_timer (bw_session w) \<or> bs_maxTimer (bw_session w) \<Longrightarrow> board_step env w (flush w)"
| flushed: "board_step env w (flush w)"
| draft_asked: "board_step env w (persistDraft Nobody w)"
| went_online: "bs_status (bw_session w) = StError \<Longrightarrow> board_step env w (flush w)"
| journal: "bw_journal w = op # ops \<Longrightarrow> board_step env w (journal_done ok op (w\<lparr>bw_journal := ops\<rparr>))"
| images: "fresh_mutation m w \<Longrightarrow> board_step env w (images_done env m msg w)"
| images_lost: "bs_saving (bw_session w) = Some (Uploading g d known)
    \<Longrightarrow> board_step env w (on_session (save_failed \<lparr>fl_error = None, fl_message = msg\<rparr>) w)"
| served: "i < length (bw_wire w) \<Longrightarrow> board_step env w (server_handles (be_disk env) i w)"
| refused: "bw_wire w = xs @ (c, q) # ys \<Longrightarrow> board_step env w (w\<lparr>bw_wire := xs @ ys,
    bw_answers := (c, q, Inl (http_error 503 ''whiteboard_storage_failed'')) # bw_answers w\<rparr>)"
| answered: "bs_saving (bw_session w) = Some (Writing c) \<Longrightarrow> (c, q, r) \<in> set (bw_answers w)
    \<Longrightarrow> board_step env w (save_answered msg r w)"
| answer_lost: "bs_saving (bw_session w) = Some (Writing c)
    \<Longrightarrow> board_step env w (on_session (save_failed \<lparr>fl_error = None, fl_message = msg\<rparr>) w)"
| trashed: "board_step env w (trash deleted w)"
| trash_flush: "bs_trash (bw_session w) = Some (TrashFlushing deleted tok) \<Longrightarrow> bs_saving (bw_session w) = None
    \<Longrightarrow> fresh_mutation m w \<Longrightarrow> board_step env w (trash_flushed m deleted tok w)"
| trash_answer: "bs_trash (bw_session w) = Some (TrashWriting c tok) \<Longrightarrow> (c, q, r) \<in> set (bw_answers w)
    \<Longrightarrow> board_step env w (trash_answered tok r w)"
| trash_lost: "bs_trash (bw_session w) = Some (TrashWriting c tok) \<Longrightarrow> board_step env w (on_session trash_failed w)"
| discarded: "bs_trash (bw_session w) = None \<Longrightarrow> board_step env w (discardBoardSession w)"
| another: "fresh_mutation (ww_mutation_id q) w \<Longrightarrow> board_step env w (send q w)"
| time_passes: "board_step env w (w\<lparr>bw_now := t\<rparr>)"

inductive board_reach :: "BoardEnv \<Rightarrow> BoardWorld \<Rightarrow> BoardWorld \<Rightarrow> bool" for env w0 where
  start: "board_reach env w0 w0"
| step: "board_reach env w0 w \<Longrightarrow> board_step env w w' \<Longrightarrow> board_reach env w0 w'"

text \<open>A world in which a board has just been opened; the draft of a note has the note.\<close>

definition opened_world :: "BoardWorld \<Rightarrow> bool" where
  "opened_world w \<longleftrightarrow> (\<exists>doc images k owner located. bw_session w = opened_session doc images k owner located
       \<and> bw_file w = doc \<and> bw_log w = [doc] \<and> bw_journal w = opening_clears doc located \<and> strip_name (wd_name doc) = wd_name doc
       \<and> (\<forall>lk d. located = Some (Some (lk, d)) \<longrightarrow> bw_drafts w lk = Some d \<and> fst (dr_token d) \<noteq> owner
            \<and> (dr_review d = None \<longrightarrow> wd_review doc = None)))
     \<and> bw_wire w = [] \<and> bw_answers w = [] \<and> bw_sent w = []"

end
