(* ===== verification/BoardLaws.thy ===== *)
theory BoardLaws
  imports BoardSession
begin

section \<open>Whiteboards: what a session guarantees\<close>

text \<open>
  Three invariants of a session and the world around it. \<open>session_ok\<close>: what is being saved is the
  content of the generation it was taken at. \<open>wire_ok\<close>: every content of the file came from a request
  that was sent, and an answer belongs to the request of its call. \<open>journal_ok\<close>: the drafts under way
  and stored are those of the generations they are marked with. From them: \<open>saved\<close> means stored,
  changes reach the file at most once and on the revision they were made on, and a tab that closes
  without a warning loses nothing.
\<close>

subsection \<open>Content\<close>

definition review_agrees :: "ReviewNote option \<Rightarrow> ReviewNote option \<Rightarrow> bool" where
  "review_agrees a b \<longleftrightarrow> map_option with_stocks a = map_option with_stocks b"

lemma with_stocks_again [simp]: "with_stocks (with_stocks r) = with_stocks r"
  by (simp add: with_stocks_def)

lemma review_agrees_refl [simp]: "review_agrees a a"
  by (simp add: review_agrees_def)

definition covers :: "WhiteboardWrite \<Rightarrow> BoardSession \<Rightarrow> bool" where
  "covers q s \<longleftrightarrow> sc_elements (ww_scene q) = bs_elements s \<and> ww_review q = Some (bs_review s)
     \<and> ww_name q = default_name (trim_text (bs_name s))"

definition keeps :: "BoardDraft \<Rightarrow> BoardSession \<Rightarrow> bool" where
  "keeps d s \<longleftrightarrow> dr_elements d = bs_elements s \<and> dr_review d = bs_review s \<and> dr_name d = bs_name s"

definition shows_edits :: "WhiteboardDocument \<Rightarrow> BoardSession \<Rightarrow> bool" where
  "shows_edits doc s \<longleftrightarrow> sc_elements (wd_scene doc) = bs_elements s \<and> review_agrees (wd_review doc) (bs_review s)
     \<and> (wd_name doc = bs_name s \<or> wd_name doc = strip_name (default_name (trim_text (bs_name s))))"

lemma covered_shown: "covers q s \<Longrightarrow> holds_request q d \<Longrightarrow> shows_edits d s"
  by (simp add: covers_def holds_request_def shows_edits_def review_agrees_def option.map_comp o_def)

lemma draft_keeps: "keeps (draft_of now s) s"
  by (simp add: keeps_def draft_of_def)

lemma request_covers: "keeps d s \<Longrightarrow> covers (save_request m d assets t) s"
  by (simp add: keeps_def covers_def save_request_def draft_name_def)

text \<open>The content of a session, and the fields an edit leaves alone.\<close>

definition same_content :: "BoardSession \<Rightarrow> BoardSession \<Rightarrow> bool" where
  "same_content s s' \<longleftrightarrow> bs_elements s' = bs_elements s \<and> bs_review s' = bs_review s \<and> bs_name s' = bs_name s
     \<and> bs_generation s' = bs_generation s"

definition same_work :: "BoardSession \<Rightarrow> BoardSession \<Rightarrow> bool" where
  "same_work s s' \<longleftrightarrow> bs_document s' = bs_document s \<and> bs_pending s' = bs_pending s \<and> bs_recovered s' = bs_recovered s
     \<and> bs_key s' = bs_key s \<and> bs_owner s' = bs_owner s"

lemma content_cong:
  assumes "same_content s s'"
  shows "covers q s' = covers q s" "keeps d s' = keeps d s" "shows_edits doc s' = shows_edits doc s"
  using assms by (simp_all add: same_content_def covers_def keeps_def shows_edits_def)

definition edited_from :: "BoardSession \<Rightarrow> BoardSession \<Rightarrow> bool" where
  "edited_from s s' \<longleftrightarrow> bs_lifecycle s = LcActive \<and> same_work s s' \<and> bs_generation s' = bs_generation s + 1
     \<and> bs_status s' \<in> {StDirty, StConflict} \<and> bs_saving s' = bs_saving s \<and> bs_trash s' = bs_trash s
     \<and> bs_lifecycle s' = bs_lifecycle s \<and> bs_localGeneration s' = bs_localGeneration s"

lemma changed_edited:
  assumes "bs_lifecycle s = LcActive" "same_work s t" "bs_saving t = bs_saving s" "bs_trash t = bs_trash s"
    "bs_lifecycle t = bs_lifecycle s" "bs_localGeneration t = bs_localGeneration s" "bs_generation t = bs_generation s"
  shows "edited_from s (changed t)"
  using assms by (simp add: edited_from_def changed_def Let_def update_state_def schedule_def same_work_def)

lemma change_cases:
  obtains "change elements colour files s = s" | "change elements colour files s = s\<lparr>bs_files := files\<rparr>"
    | "edited_from s (change elements colour files s)"
proof (cases "bs_lifecycle s = LcActive \<and> contentSignature elements \<noteq> bs_signature s")
  case True
  then have "edited_from s (change elements colour files s)"
    unfolding change_def Let_def by (simp add: changed_edited same_work_def)
  then show ?thesis by (rule that(3))
next
  case False
  then have "change elements colour files s = s \<or> change elements colour files s = s\<lparr>bs_files := files\<rparr>"
    by (auto simp: change_def Let_def)
  then show ?thesis using that(1,2) by blast
qed

lemma rename_cases:
  obtains "rename name s = s" | "edited_from s (rename name s)"
proof (cases "bs_lifecycle s = LcActive \<and> name \<noteq> bs_name s")
  case True
  then have "edited_from s (rename name s)"
    unfolding rename_def by (simp add: changed_edited same_work_def update_state_def)
  then show ?thesis by (rule that(2))
next
  case False
  then have "rename name s = s" by (auto simp: rename_def)
  then show ?thesis by (rule that(1))
qed

lemma review_cases:
  obtains "editReview r s = s" | "edited_from s (editReview r s)"
proof (cases "bs_lifecycle s = LcActive")
  case True
  then have "edited_from s (editReview r s)"
    unfolding editReview_def by (simp add: changed_edited same_work_def update_state_def)
  then show ?thesis by (rule that(2))
next
  case False
  then have "editReview r s = s" by (auto simp: editReview_def)
  then show ?thesis by (rule that(1))
qed

subsection \<open>The session\<close>

definition save_ok :: "BoardSession \<Rightarrow> bool" where
  "save_ok s \<longleftrightarrow>
     (\<forall>g d known. bs_saving s = Some (Uploading g d known)
        \<longrightarrow> bs_pending s = None \<and> g \<le> bs_generation s \<and> (g = bs_generation s \<longrightarrow> keeps d s))
   \<and> (\<forall>c. bs_saving s = Some (Writing c) \<longrightarrow> bs_pending s \<noteq> None)
   \<and> (\<forall>g. bs_saving s = Some (Forgetting g)
        \<longrightarrow> bs_pending s = None \<and> g \<le> bs_generation s \<and> (g = bs_generation s \<longrightarrow> shows_edits (bs_document s) s))"

definition pending_ok :: "BoardSession \<Rightarrow> bool" where
  "pending_ok s \<longleftrightarrow> (\<forall>q g. bs_pending s = Some (q, g) \<longrightarrow> g \<le> bs_generation s \<and> (g = bs_generation s \<longrightarrow> covers q s))"

definition saved_ok :: "BoardSession \<Rightarrow> bool" where
  "saved_ok s \<longleftrightarrow> (bs_status s = StSaved \<longrightarrow> shows_edits (bs_document s) s \<and> bs_name s = wd_name (bs_document s)
     \<and> bs_saving s \<in> {None, Some Clearing})"

definition trash_ok :: "BoardSession \<Rightarrow> bool" where
  "trash_ok s \<longleftrightarrow> (bs_trash s = None \<longleftrightarrow> bs_lifecycle s \<noteq> LcTrashing)
     \<and> (\<forall>c t. bs_trash s = Some (TrashWriting c t) \<longrightarrow> bs_status s = StSaved) \<and> (bs_trash s = Some TrashClearing \<longrightarrow> bs_status s = StSaved)"

definition session_ok :: "BoardSession \<Rightarrow> bool" where
  "session_ok s \<longleftrightarrow> save_ok s \<and> pending_ok s \<and> saved_ok s \<and> trash_ok s \<and> strip_name (wd_name (bs_document s)) = wd_name (bs_document s)"

lemma edited_ok:
  assumes "edited_from s s'" "session_ok s"
  shows "session_ok s'"
proof -
  have "save_ok s'" using assms by (auto simp: edited_from_def same_work_def session_ok_def save_ok_def)
  moreover have "pending_ok s'" using assms by (auto simp: edited_from_def same_work_def session_ok_def pending_ok_def)
  moreover have "saved_ok s'" using assms by (auto simp: edited_from_def saved_ok_def)
  moreover have "trash_ok s'" using assms by (auto simp: edited_from_def session_ok_def trash_ok_def)
  ultimately show ?thesis using assms by (simp add: session_ok_def edited_from_def same_work_def)
qed

text \<open>A change of nothing the invariant reads.\<close>

definition same_session :: "BoardSession \<Rightarrow> BoardSession \<Rightarrow> bool" where
  "same_session s s' \<longleftrightarrow> same_content s s' \<and> same_work s s' \<and> bs_saving s' = bs_saving s \<and> bs_trash s' = bs_trash s
     \<and> bs_status s' = bs_status s \<and> bs_lifecycle s' = bs_lifecycle s"

lemma same_session_ok:
  assumes "same_session s s'"
  shows "session_ok s' = session_ok s"
proof -
  have c: "same_content s s'" and eq: "bs_document s' = bs_document s" "bs_pending s' = bs_pending s" "bs_saving s' = bs_saving s"
    "bs_trash s' = bs_trash s" "bs_status s' = bs_status s" "bs_lifecycle s' = bs_lifecycle s" "bs_generation s' = bs_generation s"
    "bs_name s' = bs_name s"
    using assms by (simp_all add: same_session_def same_work_def same_content_def)
  show ?thesis unfolding session_ok_def save_ok_def pending_ok_def saved_ok_def trash_ok_def eq content_cong [OF c] ..
qed

lemma session_of [simp]:
  "bw_session (on_session f w) = f (bw_session w)" "bw_session (enqueue op w) = bw_session w"
  "bw_session (send q w) = bw_session w" "bw_session (persistDraft who w) = bw_session w"
  "bw_session (w\<lparr>bw_drafts := D\<rparr>) = bw_session w" "bw_session (w\<lparr>bw_journal := J\<rparr>) = bw_session w"
  by (simp_all add: on_session_def enqueue_def send_def persistDraft_def Let_def)

lemma timers_same: "same_session s (clear_save_timers s)" "same_session s (schedule s)" "same_session s (draft_kept g ok s)"
  by (simp_all add: same_session_def same_content_def same_work_def clear_save_timers_def schedule_def draft_kept_def update_state_def)

lemma same_session_refl [simp]: "same_session s s"
  by (simp add: same_session_def same_content_def same_work_def)

lemma session_okD:
  assumes "session_ok s"
  shows "save_ok s" "pending_ok s" "saved_ok s" "trash_ok s" "strip_name (wd_name (bs_document s)) = wd_name (bs_document s)"
  using assms by (simp_all add: session_ok_def)

text \<open>While a save is at work the status is not \<open>saved\<close>, so no trash request is out.\<close>

lemma busy_not_saved:
  assumes "session_ok s" "bs_saving s = Some p" "p \<noteq> Clearing"
  shows "bs_status s \<noteq> StSaved" "bs_trash s \<noteq> Some (TrashWriting c t)" "bs_trash s \<noteq> Some TrashClearing"
  using assms by (auto simp: session_ok_def saved_ok_def trash_ok_def)

text \<open>Another phase or status that is not \<open>saved\<close>; the content and the pending request stay.\<close>

lemma phase_ok:
  assumes "session_ok s" "same_content s s'" "same_work s s'" "bs_trash s' = bs_trash s" "bs_lifecycle s' = bs_lifecycle s"
    and "bs_status s \<noteq> StSaved" "bs_status s' \<noteq> StSaved" "save_ok s'"
  shows "session_ok s'"
proof -
  have eq: "bs_document s' = bs_document s" "bs_pending s' = bs_pending s" "bs_generation s' = bs_generation s"
    using assms by (simp_all add: same_work_def same_content_def)
  have "pending_ok s'" using session_okD(2) [OF assms(1)] unfolding pending_ok_def eq content_cong [OF assms(2)] .
  moreover have "trash_ok s'" using session_okD(4) [OF assms(1)] assms(4-6) by (auto simp: trash_ok_def)
  ultimately show ?thesis using assms by (simp add: session_ok_def saved_ok_def eq)
qed

lemma flush_session_ok:
  assumes "session_ok (bw_session w)"
  shows "session_ok (bw_session (flush w))"
proof -
  let ?s = "clear_save_timers (bw_session w)"
  have ok: "session_ok ?s" using assms same_session_ok [OF timers_same(1)] by simp
  let ?s' = "(update_state (\<lambda>s. s\<lparr>bs_status := StSaving\<rparr>) ?s)\<lparr>bs_saving := Some Journalling\<rparr>"
  have "session_ok ?s'" if "bs_status ?s \<noteq> StSaved"
    by (rule phase_ok [OF ok]) (use that in \<open>simp_all add: same_content_def same_work_def update_state_def save_ok_def\<close>)
  then show ?thesis using ok by (simp add: flush_def Let_def)
qed

lemma journalled_session_ok:
  assumes "session_ok (bw_session w)" "bs_saving (bw_session w) = Some Journalling"
  shows "session_ok (bw_session (save_journalled w))"
proof -
  let ?s = "bw_session w"
  note busy = busy_not_saved(1) [OF assms]
  show ?thesis
  proof (cases "bs_pending ?s")
    case None
    let ?s' = "await_save (Uploading (bs_generation ?s) (draft_of (bw_now w) ?s) (sc_files (wd_scene (bs_document ?s)))) ?s"
    have "session_ok ?s'"
      by (rule phase_ok [OF assms(1)])
        (use None busy in \<open>simp_all add: same_content_def same_work_def await_save_def save_ok_def keeps_def draft_of_def\<close>)
    then show ?thesis using None by (simp add: save_journalled_def Let_def)
  next
    case (Some qg)
    have "session_ok (await_save (Writing (bw_calls w)) ?s)"
      by (rule phase_ok [OF assms(1)])
        (use Some busy in \<open>simp_all add: same_content_def same_work_def await_save_def save_ok_def\<close>)
    then show ?thesis using Some by (cases qg) (simp add: save_journalled_def send_pending_def Let_def)
  qed
qed

lemma uploaded_session_ok:
  assumes "session_ok s" "bs_saving s = Some (Uploading g d known)"
  shows "session_ok (await_save (Writing c) (s\<lparr>bs_pending := Some (save_request m d assets s, g)\<rparr>))"
proof -
  have busy: "bs_status s \<noteq> StSaved" using busy_not_saved(1) [OF assms] by simp
  have up: "g \<le> bs_generation s" "g = bs_generation s \<Longrightarrow> keeps d s"
    using session_okD(1) [OF assms(1)] assms(2) by (simp_all add: save_ok_def)
  let ?s' = "await_save (Writing c) (s\<lparr>bs_pending := Some (save_request m d assets s, g)\<rparr>)"
  have same: "same_content s ?s'" by (simp add: same_content_def await_save_def)
  have "pending_ok ?s'" unfolding pending_ok_def content_cong [OF same]
    using up request_covers [of d s m assets s] same by (simp add: await_save_def)
  moreover have "trash_ok ?s'" using session_okD(4) [OF assms(1)] by (simp add: trash_ok_def await_save_def)
  ultimately show ?thesis using busy session_okD(5) [OF assms(1)] by (simp add: session_ok_def save_ok_def saved_ok_def await_save_def)
qed

lemma idle_ok:
  assumes "session_ok s"
  shows "session_ok (s\<lparr>bs_saving := None\<rparr>)"
proof -
  let ?t = "s\<lparr>bs_saving := None\<rparr>"
  have same: "same_content s ?t" by (simp add: same_content_def)
  have "pending_ok ?t" using session_okD(2) [OF assms] unfolding pending_ok_def content_cong [OF same] by simp
  moreover have "saved_ok ?t" using session_okD(3) [OF assms] unfolding saved_ok_def content_cong [OF same] by simp
  moreover have "trash_ok ?t" using session_okD(4) [OF assms] by (simp add: trash_ok_def)
  ultimately show ?thesis using session_okD(5) [OF assms] by (simp add: session_ok_def save_ok_def)
qed

lemma finished_session_ok:
  assumes "session_ok s"
  shows "session_ok (save_finished s)"
  using idle_ok [OF assms] same_session_ok [OF timers_same(2)] by (simp add: save_finished_def Let_def)

lemma failed_session_ok:
  assumes "session_ok s" "bs_saving s = Some p" "p \<noteq> Clearing"
  shows "session_ok (save_failed f s)"
proof -
  have busy: "bs_status s \<noteq> StSaved" using busy_not_saved(1) [OF assms] .
  let ?r = "s\<lparr>bs_pending := None, bs_saving := None\<rparr>"
  have r2: "session_ok (s\<lparr>bs_saving := None\<rparr>)" by (rule idle_ok [OF assms(1)])
  have "trash_ok ?r" using session_okD(4) [OF assms(1)] by (simp add: trash_ok_def)
  then have r: "session_ok ?r" "session_ok (s\<lparr>bs_saving := None\<rparr>)"
    using busy session_okD(5) [OF assms(1)] r2 by (simp_all add: session_ok_def save_ok_def pending_ok_def saved_ok_def)
  have status: "session_ok (update_state (\<lambda>s. s\<lparr>bs_status := st, bs_message := m\<rparr>) t)"
    if "session_ok t" "bs_status t \<noteq> StSaved" "bs_saving t = None" "st \<noteq> StSaved" for t st m
    by (rule phase_ok [OF that(1)]) (use that in \<open>simp_all add: same_content_def same_work_def update_state_def save_ok_def\<close>)
  have "save_finished (update_state (\<lambda>s. s\<lparr>bs_status := st, bs_message := m\<rparr>) t)
    = (let u = update_state (\<lambda>s. s\<lparr>bs_status := st, bs_message := m\<rparr>) (t\<lparr>bs_saving := None\<rparr>) in if st = StDirty then schedule u else u)"
    for st m t by (simp add: save_finished_def update_state_def Let_def schedule_def)
  then have fin: "session_ok (save_finished (update_state (\<lambda>s. s\<lparr>bs_status := st, bs_message := m\<rparr>) t))"
    if "session_ok (t\<lparr>bs_saving := None\<rparr>)" "bs_status t \<noteq> StSaved" "st \<noteq> StSaved" for t st m
    using status [of "t\<lparr>bs_saving := None\<rparr>" st m] that same_session_ok [OF timers_same(2)]
    by (cases "st = StDirty") (simp_all add: Let_def)
  show ?thesis
    unfolding save_failed_def save_failed_status_def Let_def
    using r busy by (auto intro!: fin split: option.split)
qed

lemma acknowledged_session_ok:
  assumes "pending_ok s" "trash_ok s" "strip_name (wd_name (bs_document s)) = wd_name (bs_document s)"
    and "bs_status s \<noteq> StSaved" "bs_pending s = None" "g \<le> bs_generation s" "g = bs_generation s \<Longrightarrow> shows_edits (bs_document s) s"
    and "s = bw_session w"
  shows "session_ok (bw_session (acknowledged g w))"
proof (cases "bs_generation s = g")
  case True
  let ?s' = "await_save Clearing (update_state (\<lambda>s. s\<lparr>bs_status := StSaved, bs_name := wd_name (bs_document s),
      bs_message := (if bs_localError s then bs_message s else NoMessage)\<rparr>) s)"
  have "trash_ok ?s'" using assms(2,4) by (auto simp: trash_ok_def await_save_def update_state_def)
  moreover have "shows_edits (bs_document ?s') ?s'"
    using assms(7) True by (simp add: shows_edits_def await_save_def update_state_def)
  ultimately have "session_ok ?s'"
    using assms(3,5) by (simp add: session_ok_def save_ok_def pending_ok_def saved_ok_def await_save_def update_state_def)
  then show ?thesis using True assms(8) by (simp add: acknowledged_def Let_def)
next
  case False
  let ?s1 = "update_state (\<lambda>s. s\<lparr>bs_status := StDirty\<rparr>) s"
  have s1: "session_ok (?s1\<lparr>bs_saving := p\<rparr>)" if p: "p = Some Rejournalling \<or> p = None" for p
  proof -
    have "trash_ok (?s1\<lparr>bs_saving := p\<rparr>)"
      using assms(2,4) by (auto simp: trash_ok_def update_state_def)
    moreover have "save_ok (?s1\<lparr>bs_saving := p\<rparr>)" using p by (auto simp: save_ok_def)
    ultimately show ?thesis using assms(3,5) by (simp add: session_ok_def pending_ok_def saved_ok_def update_state_def)
  qed
  have "save_finished ?s1 = schedule (?s1\<lparr>bs_saving := None\<rparr>)" by (simp add: save_finished_def update_state_def Let_def)
  then show ?thesis using False s1 assms(8) same_session_ok [OF timers_same(2)] by (simp add: acknowledged_def Let_def await_save_def)
qed

subsection \<open>Requests and the file\<close>

definition file_ok :: "BoardWorld \<Rightarrow> bool" where
  "file_ok w \<longleftrightarrow> bw_log w \<noteq> [] \<and> bw_file w = last (bw_log w) \<and> (\<forall>d \<in> set (bw_log w). strip_name (wd_name d) = wd_name d)
     \<and> (\<forall>q \<in> set (bw_sent w). \<forall>q' \<in> set (bw_sent w). ww_mutation_id q = ww_mutation_id q' \<longrightarrow> q = q')
     \<and> wd_last_mutation_id (hd (bw_log w)) \<notin> ww_mutation_id ` set (bw_sent w)
     \<and> (\<forall>d \<in> set (tl (bw_log w)). \<exists>q \<in> set (bw_sent w). holds_request q d)
     \<and> successively (\<lambda>d d'. wd_revision d' = wd_revision d + 1) (bw_log w)
     \<and> distinct (map wd_last_mutation_id (bw_log w))"

definition calls_ok :: "BoardWorld \<Rightarrow> bool" where
  "calls_ok w \<longleftrightarrow> (\<forall>c q. (c, q) \<in> set (bw_wire w) \<longrightarrow> c < bw_calls w \<and> q \<in> set (bw_sent w))
     \<and> (\<forall>c q r. (c, q, r) \<in> set (bw_answers w) \<longrightarrow> c < bw_calls w \<and> q \<in> set (bw_sent w)
          \<and> (\<forall>d. r = Inr d \<longrightarrow> d \<in> set (bw_log w) \<and> holds_request q d))"

definition call_is :: "BoardWorld \<Rightarrow> nat \<Rightarrow> WhiteboardWrite \<Rightarrow> bool" where
  "call_is w c q \<longleftrightarrow> c < bw_calls w \<and> (\<forall>q'. (c, q') \<in> set (bw_wire w) \<longrightarrow> q' = q)
     \<and> (\<forall>q' r. (c, q', r) \<in> set (bw_answers w) \<longrightarrow> q' = q)"

definition writes_back :: "WhiteboardWrite \<Rightarrow> WhiteboardDocument \<Rightarrow> bool" where
  "writes_back q doc \<longleftrightarrow> ww_scene q = wd_scene doc \<and> ww_review q = Some (wd_review doc) \<and> ww_name q = wd_name doc"

definition client_ok :: "BoardWorld \<Rightarrow> bool" where
  "client_ok w \<longleftrightarrow> bs_document (bw_session w) \<in> set (bw_log w)
     \<and> (\<forall>q g. bs_pending (bw_session w) = Some (q, g) \<longrightarrow> q \<in> set (bw_sent w))
     \<and> (\<forall>c q g. bs_saving (bw_session w) = Some (Writing c) \<and> bs_pending (bw_session w) = Some (q, g) \<longrightarrow> call_is w c q)
     \<and> (\<forall>c t. bs_trash (bw_session w) = Some (TrashWriting c t) \<longrightarrow> (\<exists>q. call_is w c q \<and> writes_back q (bs_document (bw_session w))))"

definition wire_ok :: "BoardWorld \<Rightarrow> bool" where
  "wire_ok w \<longleftrightarrow> file_ok w \<and> calls_ok w \<and> client_ok w"

text \<open>Worlds that differ in the session, the drafts or the journal only.\<close>

definition same_wire :: "BoardWorld \<Rightarrow> BoardWorld \<Rightarrow> bool" where
  "same_wire w w' \<longleftrightarrow> bw_wire w' = bw_wire w \<and> bw_answers w' = bw_answers w \<and> bw_calls w' = bw_calls w
     \<and> bw_file w' = bw_file w \<and> bw_sent w' = bw_sent w \<and> bw_log w' = bw_log w"

lemma same_wire_simps [simp]:
  "same_wire w w" "same_wire w (on_session f w)" "same_wire w (enqueue op w)" "same_wire w (persistDraft who w)"
  "same_wire w (w\<lparr>bw_drafts := D\<rparr>)" "same_wire w (w\<lparr>bw_journal := J\<rparr>)" "same_wire w (w\<lparr>bw_now := t\<rparr>)"
  by (simp_all add: same_wire_def on_session_def enqueue_def persistDraft_def Let_def)

lemma same_wire_trans [trans]: "same_wire u v \<Longrightarrow> same_wire v w \<Longrightarrow> same_wire u w"
  by (simp add: same_wire_def)

lemma same_wire_steps:
  "same_wire w (flush w)" "same_wire w (acknowledged g w)" "same_wire w (trash deleted w)" "same_wire w (discardBoardSession w)"
proof -
  show f: "same_wire w (flush w)" for w
    unfolding flush_def Let_def by (auto intro: same_wire_trans [OF same_wire_simps(2)] same_wire_trans [OF same_wire_simps(2) same_wire_simps(4)])
  show "same_wire w (acknowledged g w)"
    unfolding acknowledged_def Let_def
    by (auto intro: same_wire_trans [OF same_wire_simps(2) same_wire_simps(3)] same_wire_trans [OF same_wire_simps(2)]
        same_wire_trans [OF same_wire_trans [OF same_wire_simps(2) same_wire_simps(2)] same_wire_simps(4)]
        same_wire_trans [OF same_wire_simps(2) same_wire_simps(2)])
  show "same_wire w (trash deleted w)"
    unfolding trash_def Let_def using same_wire_trans [OF same_wire_simps(2) f] by auto
  show "same_wire w (discardBoardSession w)"
    unfolding discardBoardSession_def Let_def
    by (auto intro: same_wire_trans [OF same_wire_simps(2) same_wire_simps(3)] split: option.split)
qed

lemma same_wire_ok:
  assumes "same_wire w w'"
  shows "file_ok w' = file_ok w" "calls_ok w' = calls_ok w" "call_is w' = call_is w"
  using assms by (auto simp: same_wire_def file_ok_def calls_ok_def call_is_def fun_eq_iff)

text \<open>A step of the session that starts no request and takes no answer.\<close>

definition quiet :: "BoardSession \<Rightarrow> BoardSession \<Rightarrow> bool" where
  "quiet s s' \<longleftrightarrow> bs_document s' = bs_document s \<and> (bs_pending s' = bs_pending s \<or> bs_pending s' = None)
     \<and> (\<forall>c. bs_saving s' = Some (Writing c) \<longrightarrow> bs_saving s = Some (Writing c))
     \<and> (\<forall>c t. bs_trash s' = Some (TrashWriting c t) \<longrightarrow> bs_trash s = Some (TrashWriting c t))"

lemma quiet_ok:
  assumes "wire_ok w" "same_wire w w'" "quiet (bw_session w) (bw_session w')"
  shows "wire_ok w'"
proof -
  have eq: "bw_log w' = bw_log w" "bw_sent w' = bw_sent w" using assms(2) by (simp_all add: same_wire_def)
  have c: "client_ok w" using assms(1) by (simp add: wire_ok_def)
  have "client_ok w'" unfolding client_ok_def same_wire_ok(3) [OF assms(2)] eq
  proof (intro conjI allI impI, goal_cases)
    case 1
    show ?case using c assms(3) by (simp add: client_ok_def quiet_def)
  next
    case (2 q g)
    then have "bs_pending (bw_session w) = Some (q, g)" using assms(3) by (auto simp: quiet_def)
    then show ?case using c by (auto simp: client_ok_def)
  next
    case (3 d q g)
    then have "bs_pending (bw_session w) = Some (q, g)" "bs_saving (bw_session w) = Some (Writing d)" using assms(3) by (auto simp: quiet_def)
    then show ?case using c by (auto simp: client_ok_def)
  next
    case (4 d t)
    then have "bs_trash (bw_session w) = Some (TrashWriting d t)" "bs_document (bw_session w') = bs_document (bw_session w)"
      using assms(3) unfolding quiet_def by blast+
    then show ?case using c unfolding client_ok_def by metis
  qed
  then show ?thesis using assms(1) same_wire_ok [OF assms(2)] by (simp add: wire_ok_def)
qed

lemma quiet_refl [simp]: "quiet s s"
  by (simp add: quiet_def)

lemma quiet_same: "same_session s s' \<Longrightarrow> quiet s s'"
  by (auto simp: quiet_def same_session_def same_work_def)

lemma quiet_edit: "edited_from s s' \<Longrightarrow> quiet s s'"
  by (auto simp: quiet_def edited_from_def same_work_def)

lemma quiet_trans: "quiet s t \<Longrightarrow> quiet t u \<Longrightarrow> quiet s u"
  by (auto simp: quiet_def)

lemma quiet_finished: "bs_document t = bs_document s \<Longrightarrow> bs_pending t = bs_pending s \<or> bs_pending t = None \<Longrightarrow> bs_trash t = bs_trash s \<Longrightarrow> quiet s (save_finished t)"
  by (auto simp: quiet_def save_finished_def schedule_def Let_def)

lemma quiet_failed: "quiet s (save_failed f s)"
  unfolding save_failed_def
  by (rule quiet_finished) (auto simp: save_failed_status_def update_state_def Let_def split: option.split)

lemma quiet_flush: "quiet (bw_session w) (bw_session (flush w))"
  by (auto simp: quiet_def flush_def clear_save_timers_def update_state_def Let_def)

lemma quiet_acknowledged: "quiet (bw_session w) (bw_session (acknowledged g w))"
proof (cases "bs_generation (bw_session w) = g")
  case True
  then show ?thesis by (simp add: acknowledged_def Let_def quiet_def await_save_def update_state_def)
next
  case False
  let ?s = "update_state (\<lambda>s. s\<lparr>bs_status := StDirty\<rparr>) (bw_session w)"
  have "quiet (bw_session w) (save_finished ?s)" by (rule quiet_finished) (simp_all add: update_state_def)
  moreover have "quiet (bw_session w) (await_save Rejournalling ?s)" by (simp add: quiet_def await_save_def update_state_def)
  ultimately show ?thesis using False by (simp add: acknowledged_def Let_def)
qed

subsection \<open>Sending and serving\<close>

lemma send_ok:
  assumes "file_ok w" "calls_ok w" "q \<in> set (bw_sent w) \<or> fresh_mutation (ww_mutation_id q) w"
  shows "file_ok (send q w)" "calls_ok (send q w)" "call_is (send q w) (bw_calls w) q" "call_is w c p \<Longrightarrow> call_is (send q w) c p"
proof -
  have "hd (bw_log w) \<in> set (bw_log w)" using assms(1) by (simp add: file_ok_def)
  then have "q \<in> set (bw_sent w) \<or> wd_last_mutation_id (hd (bw_log w)) \<noteq> ww_mutation_id q"
    using assms(3) unfolding fresh_mutation_def by (metis UnI2 imageI)
  then have "wd_last_mutation_id (hd (bw_log w)) \<notin> ww_mutation_id ` set (bw_sent (send q w))"
    using assms(1) by (auto simp: file_ok_def send_def)
  moreover have "p = p'" if "p \<in> set (bw_sent (send q w))" "p' \<in> set (bw_sent (send q w))" "ww_mutation_id p = ww_mutation_id p'" for p p'
  proof -
    have u: "a = b" if "a \<in> set (bw_sent w)" "b \<in> set (bw_sent w)" "ww_mutation_id a = ww_mutation_id b" for a b
      using assms(1) that by (simp add: file_ok_def)
    have new: "q \<in> set (bw_sent w)" if "a \<in> set (bw_sent w)" "ww_mutation_id a = ww_mutation_id q" for a
      using assms(3) that unfolding fresh_mutation_def by (metis UnI1 imageI)
    have "p \<in> set (bw_sent w) \<or> p = q" "p' \<in> set (bw_sent w) \<or> p' = q" using that by (auto simp: send_def)
    then show ?thesis using u new that(3) by metis
  qed
  ultimately show "file_ok (send q w)" using assms(1) unfolding file_ok_def by (simp add: send_def)
  have old: "c < bw_calls w" "p \<in> set (bw_sent w)" if "(c, p) \<in> set (bw_wire w)" for c p
    using assms(2) that by (auto simp: calls_ok_def)
  have ans: "c < bw_calls w" "p \<in> set (bw_sent w)" "\<And>d. r = Inr d \<Longrightarrow> d \<in> set (bw_log w) \<and> holds_request p d"
    if "(c, p, r) \<in> set (bw_answers w)" for c p r
    using assms(2) that unfolding calls_ok_def by blast+
  show "calls_ok (send q w)"
    unfolding calls_ok_def using old ans by (auto simp: send_def less_Suc_eq)
  show "call_is (send q w) (bw_calls w) q"
    unfolding call_is_def using old(1) ans(1) by (fastforce simp: send_def)
  show "call_is (send q w) c p" if "call_is w c p" using that by (auto simp: call_is_def send_def)
qed

lemma revisions_grow:
  assumes "successively (\<lambda>d d'. wd_revision d' = wd_revision d + 1) ds" "d \<in> set ds"
  shows "wd_revision d \<le> wd_revision (last ds)"
  using assms
proof (induction ds rule: rev_induct)
  case (snoc e es)
  show ?case
  proof (cases "d \<in> set es")
    case True
    then have "wd_revision d \<le> wd_revision (last es)" "wd_revision e = wd_revision (last es) + 1"
      using snoc by (auto simp: successively_append_iff)
    then show ?thesis by simp
  qed (use snoc.prems in simp)
qed simp

lemma file_okD:
  assumes "file_ok w"
  shows "bw_log w \<noteq> []" "bw_file w = last (bw_log w)" "d \<in> set (bw_log w) \<Longrightarrow> strip_name (wd_name d) = wd_name d"
    and "p \<in> set (bw_sent w) \<Longrightarrow> q \<in> set (bw_sent w) \<Longrightarrow> ww_mutation_id p = ww_mutation_id q \<Longrightarrow> p = q"
    and "q \<in> set (bw_sent w) \<Longrightarrow> wd_last_mutation_id (hd (bw_log w)) \<noteq> ww_mutation_id q"
    and "d \<in> set (tl (bw_log w)) \<Longrightarrow> \<exists>q \<in> set (bw_sent w). holds_request q d"
    and "successively (\<lambda>d d'. wd_revision d' = wd_revision d + 1) (bw_log w)" "distinct (map wd_last_mutation_id (bw_log w))"
  using assms unfolding file_ok_def image_def by blast+

text \<open>A change that is in the history already is the last content, when the file carries its identifier.\<close>

lemma logged_request:
  assumes "file_ok w" "q \<in> set (bw_sent w)" "d \<in> set (bw_log w)" "wd_last_mutation_id d = ww_mutation_id q"
  shows "holds_request q d"
proof -
  have "d \<noteq> hd (bw_log w)" using file_okD(5) [OF assms(1,2)] assms(4) by blast
  then have "d \<in> set (tl (bw_log w))" using assms(3) file_okD(1) [OF assms(1)] by (cases "bw_log w") auto
  then obtain p where p: "p \<in> set (bw_sent w)" "holds_request p d" using file_okD(6) [OF assms(1)] by blast
  then have "ww_mutation_id p = ww_mutation_id q" using assms(4) unfolding holds_request_def by metis
  then have "p = q" by (rule file_okD(4) [OF assms(1) p(1) assms(2)])
  then show ?thesis using p(2) by simp
qed

lemma written_ok:
  assumes "file_ok w" "q \<in> set (bw_sent w)" "wd_last_mutation_id (bw_file w) \<noteq> ww_mutation_id q"
    and "wd_revision (bw_file w) = ww_expected_revision q" "holds_request q d"
    and "w' = w\<lparr>bw_wire := W, bw_answers := A, bw_file := d, bw_log := bw_log w @ [d]\<rparr>"
  shows "file_ok w'"
proof -
  note ok = file_okD [OF assms(1)]
  have id: "wd_last_mutation_id d = ww_mutation_id q" "wd_revision d = ww_expected_revision q + 1" "wd_name d = strip_name (ww_name q)"
    using assms(5) by (simp_all add: holds_request_def)
  have "wd_last_mutation_id e \<noteq> ww_mutation_id q" if e: "e \<in> set (bw_log w)" for e
  proof
    assume "wd_last_mutation_id e = ww_mutation_id q"
    then have "wd_revision e = ww_expected_revision q + 1" using logged_request [OF assms(1,2) e] by (simp add: holds_request_def)
    moreover have "wd_revision e \<le> wd_revision (bw_file w)" using revisions_grow [OF ok(7) e] ok(2) by simp
    ultimately show False using assms(4) by simp
  qed
  then have "wd_last_mutation_id d \<notin> wd_last_mutation_id ` set (bw_log w)" unfolding id(1) by (metis imageE)
  then have "distinct (map wd_last_mutation_id (bw_log w @ [d]))" using ok(8) by simp
  moreover have "successively (\<lambda>d d'. wd_revision d' = wd_revision d + 1) (bw_log w @ [d])"
    using ok(1,2,7) id(2) assms(4) by (simp add: successively_append_iff)
  moreover have "\<exists>q \<in> set (bw_sent w). holds_request q e" if "e \<in> set (tl (bw_log w @ [d]))" for e
    using that ok(1,6) assms(2,5) by auto
  moreover have "strip_name (wd_name e) = wd_name e" if "e \<in> set (bw_log w @ [d])" for e
    using that ok(3) id(3) strip_again by auto
  ultimately show ?thesis using assms(1) ok(1) unfolding assms(6) file_ok_def by simp
qed

lemma served_ok:
  assumes "wire_ok w" "i < length (bw_wire w)"
  shows "wire_ok (server_handles disk i w)"
proof -
  obtain c q where cq: "bw_wire w ! i = (c, q)" by force
  let ?r = "update_board disk (bw_now w) q (Some (bw_file w))"
  let ?W = "take i (bw_wire w) @ drop (Suc i) (bw_wire w)" and ?A = "(c, q, ?r) # bw_answers w"
  let ?w' = "server_handles disk i w"
  have board: "file_ok w" and calls: "calls_ok w" and client: "client_ok w" using assms(1) by (simp_all add: wire_ok_def)
  have on_wire: "(c, q) \<in> set (bw_wire w)" using cq assms(2) nth_mem by fastforce
  then have sent: "c < bw_calls w" "q \<in> set (bw_sent w)" using calls by (auto simp: calls_ok_def)
  have fields: "bw_session ?w' = bw_session w" "bw_wire ?w' = ?W" "bw_answers ?w' = ?A" "bw_calls ?w' = bw_calls w" "bw_sent ?w' = bw_sent w"
    by (simp_all add: server_handles_def cq Let_def split: sum.split)
  have sub: "set ?W \<subseteq> set (bw_wire w)" using set_take_subset set_drop_subset by fastforce
  have board': "file_ok ?w' \<and> set (bw_log w) \<subseteq> set (bw_log ?w') \<and> (\<forall>d. ?r = Inr d \<longrightarrow> d \<in> set (bw_log ?w') \<and> holds_request q d)"
  proof (cases ?r)
    case (Inl e)
    then have "?w' = w\<lparr>bw_wire := ?W, bw_answers := ?A\<rparr>" by (simp add: server_handles_def cq Let_def)
    then show ?thesis using Inl board by (simp add: file_ok_def)
  next
    case (Inr d)
    then show ?thesis
    proof (cases rule: update_cases)
      case again
      then have "?w' = w\<lparr>bw_wire := ?W, bw_answers := ?A\<rparr>" using Inr by (simp add: server_handles_def cq Let_def)
      moreover have "bw_file w \<in> set (bw_log w)" using file_okD(1,2) [OF board] by simp
      moreover have "holds_request q (bw_file w)" using logged_request [OF board sent(2)] again(2) calculation(2) by blast
      ultimately show ?thesis using Inr again(1) board by (simp add: file_ok_def)
    next
      case written
      then have "?w' = w\<lparr>bw_wire := ?W, bw_answers := ?A, bw_file := d, bw_log := bw_log w @ [d]\<rparr>"
        using Inr by (simp add: server_handles_def cq Let_def holds_request_def)
      then show ?thesis using written_ok [OF board sent(2) written(1-3)] Inr written(3) by auto
    qed
  qed
  have same_calls: "call_is ?w' b p" if "call_is w b p" for b p
    using that sub on_wire unfolding call_is_def fields by auto
  have "calls_ok ?w'"
    using calls sub board' sent unfolding calls_ok_def fields by fastforce
  moreover have "client_ok ?w'"
    using client board' same_calls unfolding client_ok_def fields by blast
  ultimately show ?thesis using board' by (simp add: wire_ok_def)
qed

lemma sent_pending_ok:
  assumes "file_ok w" "calls_ok w" "bs_document (bw_session w) \<in> set (bw_log w)" "bs_pending (bw_session w) = Some (q, g)"
    and "q \<in> set (bw_sent w) \<or> fresh_mutation (ww_mutation_id q) w" "\<And>c t. bs_trash (bw_session w) \<noteq> Some (TrashWriting c t)"
  shows "wire_ok (send_pending w)"
proof -
  let ?w1 = "on_session (await_save (Writing (bw_calls w))) w"
  have eq: "send_pending w = send q ?w1" using assms(4) by (simp add: send_pending_def)
  note same = same_wire_ok [OF same_wire_simps(2) [of w "await_save (Writing (bw_calls w))"]]
  have same1: "bw_calls ?w1 = bw_calls w" "bw_log ?w1 = bw_log w" "bw_sent ?w1 = bw_sent w"
    using same_wire_simps(2) [of w] by (simp_all add: same_wire_def)
  have fresh: "q \<in> set (bw_sent ?w1) \<or> fresh_mutation (ww_mutation_id q) ?w1" using assms(5) by (simp add: fresh_mutation_def same1)
  note ok = send_ok [OF assms(1,2) [folded same(1,2)] fresh]
  have "client_ok (send q ?w1)"
    using assms(3,4,6) ok(3) unfolding client_ok_def session_of same1
    by (simp add: await_save_def send_def same1)
  then show ?thesis unfolding eq wire_ok_def using ok(1,2) by blast
qed

lemma wire_okD:
  assumes "wire_ok w"
  shows "file_ok w" "calls_ok w" "bs_document (bw_session w) \<in> set (bw_log w)"
    and "bs_pending (bw_session w) = Some (q, g) \<Longrightarrow> q \<in> set (bw_sent w)"
  using assms by (auto simp: wire_ok_def client_ok_def)

subsection \<open>Every step keeps the invariants\<close>

definition world_ok :: "BoardWorld \<Rightarrow> bool" where
  "world_ok w \<longleftrightarrow> session_ok (bw_session w) \<and> wire_ok w"

lemma world_okI:
  assumes "world_ok w" "same_wire w w'" "quiet (bw_session w) (bw_session w')" "session_ok (bw_session w')"
  shows "world_ok w'"
  using assms quiet_ok by (auto simp: world_ok_def)

lemma session_world_ok:
  assumes "world_ok w" "quiet (bw_session w) (f (bw_session w))" "session_ok (f (bw_session w))"
  shows "world_ok (on_session f w)"
  by (rule world_okI [OF assms(1)]) (use assms in simp_all)

lemma same_world_ok:
  assumes "same_wire w w'" "bw_session w' = bw_session w"
  shows "world_ok w \<Longrightarrow> world_ok w'"
  by (rule world_okI [OF _ assms(1)]) (simp_all add: assms(2) world_ok_def)

lemma journalled_ok:
  assumes "world_ok w" "bs_saving (bw_session w) = Some Journalling"
  shows "world_ok (save_journalled w)"
proof -
  have ok: "session_ok (bw_session w)" "wire_ok w" using assms(1) by (simp_all add: world_ok_def)
  have s: "session_ok (bw_session (save_journalled w))" by (rule journalled_session_ok [OF ok(1) assms(2)])
  show ?thesis
  proof (cases "bs_pending (bw_session w)")
    case None
    show ?thesis
      by (rule world_okI [OF assms(1)])
        (use None s in \<open>simp_all add: save_journalled_def Let_def quiet_def await_save_def\<close>)
  next
    case (Some qg)
    obtain q g where p: "bs_pending (bw_session w) = Some (q, g)" using Some by (cases qg) simp
    have "wire_ok (send_pending w)"
      by (rule sent_pending_ok [OF wire_okD(1-3) [OF ok(2)] p])
        (use wire_okD(4) [OF ok(2) p] busy_not_saved(2) [OF ok(1) assms(2)] in simp_all)
    moreover have "save_journalled w = send_pending w" using Some by (simp add: save_journalled_def Let_def)
    ultimately show ?thesis using s by (simp add: world_ok_def)
  qed
qed

lemma acknowledged_ok:
  assumes "wire_ok w" "session_ok (bw_session (acknowledged g w))"
  shows "world_ok (acknowledged g w)"
  using quiet_ok [OF assms(1) same_wire_steps(2) quiet_acknowledged] assms(2) by (simp add: world_ok_def)

lemma resumed_save_ok:
  assumes "world_ok w"
  shows "world_ok (save_resumed w)"
proof -
  let ?s = "bw_session w"
  have ok: "session_ok ?s" "wire_ok w" using assms by (simp_all add: world_ok_def)
  have fin: "world_ok (on_session save_finished w)"
    by (rule session_world_ok [OF assms]) (simp_all add: quiet_finished finished_session_ok ok)
  have forget: "world_ok (acknowledged g (on_session (\<lambda>s. s\<lparr>bs_recovered := None\<rparr>) w))" if f: "bs_saving ?s = Some (Forgetting g)" for g
  proof (rule acknowledged_ok)
    let ?w = "on_session (\<lambda>s. s\<lparr>bs_recovered := None\<rparr>) w"
    show "wire_ok ?w" by (rule quiet_ok [OF ok(2)]) (simp_all add: quiet_def)
    have same: "same_content ?s (bw_session ?w)" by (simp add: same_content_def)
    have old: "bs_pending ?s = None" "g \<le> bs_generation ?s" "g = bs_generation ?s \<Longrightarrow> shows_edits (bs_document ?s) ?s"
      using session_okD(1) [OF ok(1)] f by (simp_all add: save_ok_def)
    show "session_ok (bw_session (acknowledged g ?w))"
    proof (rule acknowledged_session_ok [OF _ _ _ _ _ _ _ refl])
      show "pending_ok (bw_session ?w)" using old(1) by (simp add: pending_ok_def)
      show "trash_ok (bw_session ?w)" using session_okD(4) [OF ok(1)] by (simp add: trash_ok_def)
      show "strip_name (wd_name (bs_document (bw_session ?w))) = wd_name (bs_document (bw_session ?w))" using session_okD(5) [OF ok(1)] by simp
      show "bs_status (bw_session ?w) \<noteq> StSaved" using busy_not_saved(1) [OF ok(1) f] by simp
      show "bs_pending (bw_session ?w) = None" using old(1) by simp
      show "g \<le> bs_generation (bw_session ?w)" using old(2) by simp
      show "g = bs_generation (bw_session ?w) \<Longrightarrow> shows_edits (bs_document (bw_session ?w)) (bw_session ?w)"
        unfolding content_cong(3) [OF same] using old(3) by simp
    qed
  qed
  show ?thesis
    using assms fin forget journalled_ok [OF assms] by (auto simp: save_resumed_def split: option.split SavePhase.split)
qed

lemma retired_ok:
  assumes "session_ok s" "t = (retire s)\<lparr>bs_trash := None\<rparr>"
  shows "session_ok t" "quiet s t"
proof -
  have same: "same_content s t" by (simp add: same_content_def assms(2) retire_def update_state_def)
  have eq: "bs_document t = bs_document s" "bs_pending t = bs_pending s" "bs_saving t = bs_saving s" "bs_status t = bs_status s"
    "bs_generation t = bs_generation s" "bs_name t = bs_name s" "bs_trash t = None" "bs_lifecycle t = LcRetired"
    by (simp_all add: assms(2) retire_def update_state_def)
  have "save_ok t" "pending_ok t" "saved_ok t" using session_okD(1-3) [OF assms(1)]
    unfolding save_ok_def pending_ok_def saved_ok_def eq content_cong [OF same] by simp_all
  then show "session_ok t" using session_okD(5) [OF assms(1)] by (simp add: session_ok_def trash_ok_def eq)
  show "quiet s t" by (simp add: quiet_def eq)
qed

lemma resumed_ok:
  assumes "world_ok w"
  shows "world_ok (resumed who w)"
proof (cases who)
  case TrashWaits
  have "session_ok (bw_session w)" using assms by (simp add: world_ok_def)
  note r = retired_ok [OF this refl]
  show ?thesis using session_world_ok [OF assms, of "\<lambda>s. (retire s)\<lparr>bs_trash := None\<rparr>"] r TrashWaits by (simp add: resumed_def)
next
  case DiscardWaits
  then show ?thesis using same_world_ok [OF same_wire_simps(3) session_of(2) assms] by (simp add: resumed_def)
qed (use assms resumed_save_ok in \<open>simp_all add: resumed_def\<close>)

lemma journal_done_ok:
  assumes "world_ok w"
  shows "world_ok (journal_done ok op w)"
proof -
  have drafts: "world_ok (w\<lparr>bw_drafts := D\<rparr>)" for D by (rule same_world_ok [OF same_wire_simps(5) session_of(5) assms])
  have kept: "world_ok (on_session (draft_kept g ok) u)" if u: "world_ok u" for g u
    by (rule session_world_ok [OF u quiet_same]) (use u timers_same(3) same_session_ok [OF timers_same(3)] in \<open>simp_all add: world_ok_def\<close>)
  show ?thesis
    by (cases op) (simp_all add: journal_done_def resumed_ok drafts kept assms)
qed

text \<open>An answer to the request that waits, and one to the trash request.\<close>

lemma answer_is:
  assumes "wire_ok w" "bs_saving (bw_session w) = Some (Writing c)" "(c, q', r) \<in> set (bw_answers w)"
    and "bs_pending (bw_session w) = Some (q, g)" "r = Inr doc"
  shows "doc \<in> set (bw_log w)" "holds_request q doc"
proof -
  have "call_is w c q" using assms(1,2,4) unfolding wire_ok_def client_ok_def by blast
  then have "q' = q" using assms(3) unfolding call_is_def by blast
  then show "doc \<in> set (bw_log w)" "holds_request q doc" using assms(1,3,5) unfolding wire_ok_def calls_ok_def by blast+
qed

lemma failure_ok:
  assumes "world_ok w" "bs_saving (bw_session w) = Some p" "p \<noteq> Clearing"
  shows "world_ok (on_session (save_failed f) w)"
  by (rule session_world_ok [OF assms(1)]) (use assms failed_session_ok [OF _ assms(2,3)] in \<open>simp_all add: world_ok_def quiet_failed\<close>)

lemma answered_ok:
  assumes "world_ok w" "bs_saving (bw_session w) = Some (Writing c)" "(c, q', r) \<in> set (bw_answers w)"
  shows "world_ok (save_answered msg r w)"
proof (cases r)
  case (Inl e)
  then show ?thesis using failure_ok [OF assms(1,2)] by (simp add: save_answered_def)
next
  case (Inr doc)
  let ?s = "bw_session w"
  have ok: "session_ok ?s" "wire_ok w" using assms(1) by (simp_all add: world_ok_def)
  have busy: "bs_status ?s \<noteq> StSaved" "\<And>d t. bs_trash ?s \<noteq> Some (TrashWriting d t)" using busy_not_saved [OF ok(1) assms(2)] by simp_all
  have "bs_pending ?s \<noteq> None" using session_okD(1) [OF ok(1)] assms(2) by (simp add: save_ok_def)
  then obtain q g where p: "bs_pending ?s = Some (q, g)" by auto
  note a = answer_is [OF ok(2) assms(2,3) p Inr]
  let ?s1 = "?s\<lparr>bs_document := doc, bs_pending := None\<rparr>"
  let ?w1 = "on_session (\<lambda>s. s\<lparr>bs_document := doc, bs_pending := None\<rparr>) w"
  have w1: "bw_session ?w1 = ?s1" by simp
  have same: "same_content ?s ?s1" by (simp add: same_content_def)
  have gen: "g \<le> bs_generation ?s" "g = bs_generation ?s \<Longrightarrow> shows_edits doc ?s"
    using session_okD(2) [OF ok(1)] p covered_shown [OF _ a(2)] by (simp_all add: pending_ok_def)
  then have visible: "g = bs_generation ?s1 \<Longrightarrow> shows_edits (bs_document ?s1) ?s1" unfolding content_cong(3) [OF same] by simp
  have name: "strip_name (wd_name doc) = wd_name doc" using file_okD(3) [OF wire_okD(1) [OF ok(2)] a(1)] .
  have trash: "trash_ok ?s1" using session_okD(4) [OF ok(1)] by (simp add: trash_ok_def)
  have wire1: "wire_ok ?w1"
    using same_wire_ok [OF same_wire_simps(2)] same_wire_simps(2) [of w "\<lambda>s. s\<lparr>bs_document := doc, bs_pending := None\<rparr>"]
      wire_okD(1,2) [OF ok(2)] a(1) busy(2) by (simp add: wire_ok_def client_ok_def same_wire_def)
  show ?thesis
  proof (cases "bs_recovered ?s")
    case None
    have "session_ok (bw_session (acknowledged g ?w1))"
      by (rule acknowledged_session_ok [OF _ _ _ _ _ _ _ refl], unfold w1)
        (use trash name busy gen(1) visible in \<open>simp_all add: pending_ok_def\<close>)
    then have "world_ok (acknowledged g ?w1)" by (rule acknowledged_ok [OF wire1])
    then show ?thesis using Inr p None by (simp add: save_answered_def Let_def)
  next
    case (Some kt)
    let ?s2 = "await_save (Forgetting g) ?s1"
    have same2: "same_content ?s ?s2" by (simp add: same_content_def await_save_def)
    have "g = bs_generation ?s \<Longrightarrow> shows_edits doc ?s2" unfolding content_cong(3) [OF same2] by (rule gen(2))
    then have "save_ok ?s2" using gen(1) by (simp add: save_ok_def await_save_def)
    moreover have "trash_ok ?s2" using trash by (simp add: trash_ok_def await_save_def)
    ultimately have s2: "session_ok ?s2" using busy(1) name by (simp add: session_ok_def pending_ok_def saved_ok_def await_save_def)
    have "wire_ok (on_session (await_save (Forgetting g)) ?w1)"
      by (rule quiet_ok [OF wire1]) (simp_all add: quiet_def await_save_def)
    then have "world_ok (on_session (await_save (Forgetting g)) ?w1)" using s2 by (simp add: world_ok_def)
    then have "world_ok (enqueue op (on_session (await_save (Forgetting g)) ?w1))" for op
      by (rule same_world_ok [OF same_wire_simps(3) session_of(2)])
    moreover obtain k t where "kt = (k, t)" by (cases kt)
    ultimately show ?thesis using Inr p Some by (simp add: save_answered_def Let_def)
  qed
qed

lemma trash_failed_ok:
  assumes "session_ok s"
  shows "session_ok (trash_failed s)" "quiet s (trash_failed s)"
proof -
  let ?t = "trash_failed s"
  have same: "same_content s ?t" by (simp add: same_content_def trash_failed_def update_state_def)
  have eq: "bs_document ?t = bs_document s" "bs_pending ?t = bs_pending s" "bs_saving ?t = bs_saving s" "bs_status ?t = bs_status s"
    "bs_generation ?t = bs_generation s" "bs_name ?t = bs_name s" "bs_trash ?t = None" "bs_lifecycle ?t = LcActive"
    by (simp_all add: trash_failed_def update_state_def)
  have "save_ok ?t" "pending_ok ?t" "saved_ok ?t" using session_okD(1-3) [OF assms]
    unfolding save_ok_def pending_ok_def saved_ok_def eq content_cong [OF same] by simp_all
  then show "session_ok ?t" using session_okD(5) [OF assms] by (simp add: session_ok_def trash_ok_def eq)
  show "quiet s ?t" by (simp add: quiet_def eq)
qed

lemma trash_start_ok:
  assumes "world_ok w"
  shows "world_ok (trash deleted w)"
proof (cases "bs_lifecycle (bw_session w) = LcActive")
  case True
  let ?f = "\<lambda>s. (update_state (\<lambda>s. s\<lparr>bs_lifecycle := LcTrashing\<rparr>) s)\<lparr>bs_trash := Some (TrashFlushing deleted (bs_owner s, bs_generation s))\<rparr>"
  let ?s = "bw_session w" and ?t = "?f (bw_session w)"
  have s: "session_ok ?s" using assms by (simp add: world_ok_def)
  have same: "same_content ?s ?t" by (simp add: same_content_def update_state_def)
  have eq: "bs_document ?t = bs_document ?s" "bs_pending ?t = bs_pending ?s" "bs_saving ?t = bs_saving ?s" "bs_status ?t = bs_status ?s"
    "bs_generation ?t = bs_generation ?s" "bs_name ?t = bs_name ?s"
    by (simp_all add: update_state_def)
  have "save_ok ?t" "pending_ok ?t" "saved_ok ?t" using session_okD(1-3) [OF s]
    unfolding save_ok_def pending_ok_def saved_ok_def eq content_cong [OF same] by simp_all
  then have "session_ok ?t" using session_okD(5) [OF s] by (simp add: session_ok_def trash_ok_def update_state_def)
  then have t: "world_ok (on_session ?f w)"
    by (intro session_world_ok [OF assms]) (simp_all add: quiet_def update_state_def)
  then have "world_ok (flush (on_session ?f w))"
    by (intro world_okI [OF t same_wire_steps(1) quiet_flush] flush_session_ok) (simp add: world_ok_def)
  then show ?thesis using True by (simp add: trash_def Let_def)
qed (use assms in \<open>simp add: trash_def Let_def\<close>)

lemma flush_ok: "world_ok w \<Longrightarrow> world_ok (flush w)"
  by (rule world_okI [OF _ same_wire_steps(1) quiet_flush]) (simp_all add: world_ok_def flush_session_ok)

lemma trash_flushed_ok:
  assumes "world_ok w" "bs_trash (bw_session w) = Some (TrashFlushing deleted tok)" "bs_saving (bw_session w) = None" "fresh_mutation m w"
  shows "world_ok (trash_flushed m deleted tok w)"
proof (cases "bs_status (bw_session w) = StSaved")
  case False
  then show ?thesis using session_world_ok [OF assms(1)] trash_failed_ok assms(1)
    by (simp add: trash_flushed_def Let_def world_ok_def)
next
  case True
  let ?s = "bw_session w" and ?f = "\<lambda>s. s\<lparr>bs_trash := Some (TrashWriting (bw_calls w) tok)\<rparr>"
  let ?w1 = "on_session ?f w" and ?q = "trash_request m deleted (bs_document (bw_session w))"
  have ok: "session_ok ?s" "wire_ok w" using assms(1) by (simp_all add: world_ok_def)
  have same: "same_content ?s (?f ?s)" by (simp add: same_content_def)
  have "save_ok (?f ?s)" "pending_ok (?f ?s)" "saved_ok (?f ?s)" using session_okD(1-3) [OF ok(1)]
    unfolding save_ok_def pending_ok_def saved_ok_def content_cong [OF same] by simp_all
  moreover have "trash_ok (?f ?s)" using session_okD(4) [OF ok(1)] True assms(2) by (simp add: trash_ok_def)
  ultimately have s: "session_ok (?f ?s)" using session_okD(5) [OF ok(1)] by (simp add: session_ok_def)
  have same1: "bw_calls ?w1 = bw_calls w" "bw_log ?w1 = bw_log w" "bw_sent ?w1 = bw_sent w"
    using same_wire_simps(2) [of w ?f] by (simp_all add: same_wire_def)
  have fresh: "?q \<in> set (bw_sent ?w1) \<or> fresh_mutation (ww_mutation_id ?q) ?w1"
    using assms(4) by (simp add: fresh_mutation_def trash_request_def same1)
  note sent = send_ok [OF wire_okD(1,2) [OF ok(2), folded same_wire_ok(1,2) [OF same_wire_simps(2) [of w ?f]]] fresh]
  have "client_ok (send ?q ?w1)"
    unfolding client_ok_def session_of
  proof (intro conjI allI impI, goal_cases)
    case 1
    show ?case using wire_okD(3) [OF ok(2)] by (simp add: send_def same1)
  next
    case (2 q g)
    then show ?case using wire_okD(4) [OF ok(2)] by (simp add: send_def same1)
  next
    case (3 c q g)
    then show ?case using assms(3) by simp
  next
    case (4 c t)
    have "call_is (send ?q ?w1) c ?q" using sent(3) 4 by (simp add: same1)
    moreover have "writes_back ?q (bs_document ?s)" by (simp add: writes_back_def trash_request_def)
    ultimately show ?case by auto
  qed
  then show ?thesis using True s sent(1,2) by (simp add: trash_flushed_def Let_def world_ok_def wire_ok_def)
qed

lemma trash_answered_ok:
  assumes "world_ok w" "bs_trash (bw_session w) = Some (TrashWriting c tok)" "(c, q', r) \<in> set (bw_answers w)"
  shows "world_ok (trash_answered tok r w)"
proof (cases r)
  case (Inl e)
  then show ?thesis using session_world_ok [OF assms(1)] trash_failed_ok assms(1) by (simp add: trash_answered_def world_ok_def)
next
  case (Inr doc)
  let ?s = "bw_session w" and ?f = "\<lambda>s. s\<lparr>bs_document := doc, bs_trash := Some TrashClearing\<rparr>"
  have ok: "session_ok ?s" "wire_ok w" using assms(1) by (simp_all add: world_ok_def)
  obtain q where q: "call_is w c q" "writes_back q (bs_document ?s)" using ok(2) assms(2) unfolding wire_ok_def client_ok_def by blast
  have "q' = q" using q(1) assms(3) unfolding call_is_def by blast
  then have doc: "doc \<in> set (bw_log w)" "holds_request q doc" using ok(2) assms(3) Inr unfolding wire_ok_def calls_ok_def by blast+
  have saved: "bs_status ?s = StSaved" using session_okD(4) [OF ok(1)] assms(2) by (simp add: trash_ok_def)
  have shown: "shows_edits (bs_document ?s) ?s" "bs_name ?s = wd_name (bs_document ?s)" "bs_saving ?s \<in> {None, Some Clearing}"
    using session_okD(3) [OF ok(1)] saved by (simp_all add: saved_ok_def)
  have name: "wd_name doc = wd_name (bs_document ?s)"
    using doc(2) q(2) session_okD(5) [OF ok(1)] by (simp add: holds_request_def writes_back_def)
  have same: "same_content ?s (?f ?s)" by (simp add: same_content_def)
  have "shows_edits doc ?s" using shown(1,2) doc(2) q(2) name
    by (simp add: shows_edits_def holds_request_def writes_back_def review_agrees_def option.map_comp o_def)
  then have "saved_ok (?f ?s)" unfolding saved_ok_def content_cong [OF same] using shown(2,3) name by simp
  moreover have "pending_ok (?f ?s)" using session_okD(2) [OF ok(1)] unfolding pending_ok_def content_cong [OF same] by simp
  moreover have "save_ok (?f ?s)" using shown(3) by (auto simp: save_ok_def)
  moreover have "trash_ok (?f ?s)" using session_okD(4) [OF ok(1)] saved assms(2) by (simp add: trash_ok_def)
  ultimately have s: "session_ok (?f ?s)" using session_okD(5) [OF ok(1)] name by (simp add: session_ok_def)
  have "client_ok (on_session ?f w)"
    using ok(2) doc(1) shown(3) same_wire_simps(2) [of w ?f]
    by (auto simp: wire_ok_def client_ok_def same_wire_def)
  then have "world_ok (on_session ?f w)"
    using s ok(2) same_wire_ok(1,2) [OF same_wire_simps(2) [of w ?f]] by (simp add: world_ok_def wire_ok_def)
  then have "world_ok (enqueue op (on_session ?f w))" for op by (rule same_world_ok [OF same_wire_simps(3) session_of(2)])
  then show ?thesis using Inr by (simp add: trash_answered_def)
qed

lemma images_ok:
  assumes "world_ok w" "fresh_mutation m w"
  shows "world_ok (images_done env m msg w)"
proof (cases "\<exists>g d known. bs_saving (bw_session w) = Some (Uploading g d known)")
  case True
  then obtain g d known where up: "bs_saving (bw_session w) = Some (Uploading g d known)" by blast
  have ok: "session_ok (bw_session w)" "wire_ok w" using assms(1) by (simp_all add: world_ok_def)
  have lost: "world_ok (on_session (save_failed f) w)" for f using failure_ok [OF assms(1) up] by simp
  have "world_ok (images_saved m g d assets w)" for assets
  proof -
    let ?q = "save_request m d assets (bw_session w)"
    let ?f = "\<lambda>s. s\<lparr>bs_pending := Some (save_request m d assets s, g)\<rparr>"
    let ?w1 = "on_session ?f w"
    note same = same_wire_ok(1,2) [OF same_wire_simps(2) [of w ?f]]
    have same1: "bw_calls ?w1 = bw_calls w" "bw_log ?w1 = bw_log w" "bw_sent ?w1 = bw_sent w"
      using same_wire_simps(2) [of w ?f] by (simp_all add: same_wire_def)
    have p: "bs_pending (bw_session ?w1) = Some (?q, g)" by simp
    have fresh: "fresh_mutation (ww_mutation_id ?q) ?w1"
      unfolding fresh_mutation_def same1 using assms(2) by (simp add: save_request_def fresh_mutation_def)
    have "wire_ok (send_pending ?w1)"
      by (rule sent_pending_ok [OF wire_okD(1,2) [OF ok(2), folded same] _ p])
        (use wire_okD(3) [OF ok(2)] fresh busy_not_saved(2) [OF ok(1) up] in \<open>simp_all add: same1\<close>)
    moreover have "session_ok (bw_session (send_pending ?w1))"
      using uploaded_session_ok [OF ok(1) up] by (simp add: send_pending_def)
    ultimately show ?thesis by (simp add: images_saved_def world_ok_def)
  qed
  then show ?thesis using up lost by (simp add: images_done_def split: option.split)
next
  case False
  then have "images_done env m msg w = w" by (auto simp: images_done_def split: option.split SavePhase.split)
  then show ?thesis using assms(1) by simp
qed

lemma edit_ok:
  assumes "world_ok w" "f (bw_session w) = bw_session w \<or> f (bw_session w) = (bw_session w)\<lparr>bs_files := files\<rparr>
    \<or> edited_from (bw_session w) (f (bw_session w))"
  shows "world_ok (on_session f w)"
proof -
  let ?s = "bw_session w"
  have s: "session_ok ?s" using assms(1) by (simp add: world_ok_def)
  have same: "same_session ?s (?s\<lparr>bs_files := files\<rparr>)" by (simp add: same_session_def same_content_def same_work_def)
  have "session_ok (f ?s) \<and> quiet ?s (f ?s)"
    using assms(2) s same_session_ok [OF same] quiet_same [OF same] edited_ok quiet_edit by auto
  then show ?thesis using session_world_ok [OF assms(1)] by blast
qed

lemma discard_ok:
  assumes "world_ok w" "bs_trash (bw_session w) = None"
  shows "world_ok (discardBoardSession w)"
proof -
  have eq: "retire (bw_session w) = (retire (bw_session w))\<lparr>bs_trash := None\<rparr>"
    using assms(2) by (simp add: retire_def update_state_def)
  have s: "session_ok (bw_session w)" using assms(1) by (simp add: world_ok_def)
  note r = retired_ok [OF s eq]
  have "world_ok (on_session retire w)" using session_world_ok [where f = retire, OF assms(1)] r by simp
  then have "world_ok (enqueue op (on_session retire w))" for op by (rule same_world_ok [OF same_wire_simps(3) session_of(2)])
  then show ?thesis by (simp add: discardBoardSession_def Let_def split: option.split)
qed

lemma refused_ok:
  assumes "world_ok w" "bw_wire w = xs @ (c, q) # ys"
  shows "world_ok (w\<lparr>bw_wire := xs @ ys, bw_answers := (c, q, Inl e) # bw_answers w\<rparr>)"
proof -
  let ?w' = "w\<lparr>bw_wire := xs @ ys, bw_answers := (c, q, Inl e) # bw_answers w\<rparr>"
  have ok: "file_ok w" "calls_ok w" "client_ok w" using assms(1) by (simp_all add: world_ok_def wire_ok_def)
  have "file_ok ?w'" using ok(1) by (simp add: file_ok_def)
  moreover have "calls_ok ?w'" using ok(2) assms(2) unfolding calls_ok_def by auto
  moreover have "call_is ?w' b p" if "call_is w b p" for b p using that assms(2) unfolding call_is_def by auto
  then have "client_ok ?w'" using ok(3) unfolding client_ok_def by fastforce
  ultimately show ?thesis using assms(1) by (simp add: world_ok_def wire_ok_def)
qed

lemma another_ok:
  assumes "world_ok w" "fresh_mutation (ww_mutation_id q) w"
  shows "world_ok (send q w)"
proof -
  have ok: "file_ok w" "calls_ok w" "client_ok w" using assms(1) by (simp_all add: world_ok_def wire_ok_def)
  note sent = send_ok [OF ok(1,2) disjI2 [OF assms(2)]]
  have "bw_log (send q w) = bw_log w" "set (bw_sent w) \<subseteq> set (bw_sent (send q w))" by (auto simp: send_def)
  then have "client_ok (send q w)" using ok(3) sent(4) unfolding client_ok_def session_of by fastforce
  then show ?thesis using assms(1) sent(1,2) by (simp add: world_ok_def wire_ok_def)
qed

theorem step_ok:
  assumes "board_step env w w'" "world_ok w"
  shows "world_ok w'"
  using assms
proof (cases rule: board_step.cases)
  case (edited elements colour files)
  have "world_ok (on_session (change elements colour files) w)"
    by (rule edit_ok [OF assms(2)]) (rule change_cases, auto)
  then show ?thesis using edited by simp
next
  case (renamed name)
  have "world_ok (on_session (rename name) w)" by (rule edit_ok [OF assms(2)]) (rule rename_cases, auto)
  then show ?thesis using renamed by simp
next
  case (reviewed r)
  have "world_ok (on_session (editReview r) w)" by (rule edit_ok [OF assms(2)]) (rule review_cases, auto)
  then show ?thesis using reviewed by simp
next
  case draft_timer
  let ?f = "\<lambda>s. s\<lparr>bs_draftTimer := False\<rparr>"
  have same: "same_session (bw_session w) (?f (bw_session w))" by (simp add: same_session_def same_content_def same_work_def)
  have "world_ok (on_session ?f w)"
    by (rule session_world_ok [OF assms(2)])
      (use assms(2) same_session_ok [OF same] quiet_same [OF same] in \<open>simp_all add: world_ok_def\<close>)
  then show ?thesis unfolding draft_timer(1) by (rule same_world_ok [OF same_wire_simps(4) session_of(4)])
next
  case draft_asked
  show ?thesis unfolding draft_asked by (rule same_world_ok [OF same_wire_simps(4) session_of(4) assms(2)])
next
  case (journal op ops ok)
  have "world_ok (w\<lparr>bw_journal := ops\<rparr>)" by (rule same_world_ok [OF same_wire_simps(6) session_of(6) assms(2)])
  then show ?thesis unfolding journal(1) by (rule journal_done_ok)
next
  case (time_passes t)
  show ?thesis unfolding time_passes by (rule same_world_ok [OF same_wire_simps(7) _ assms(2)]) simp
next
  case (served i)
  have "bw_session (server_handles (be_disk env) i w) = bw_session w"
    by (simp add: server_handles_def Let_def split: prod.split sum.split)
  then show ?thesis using served assms(2) served_ok by (simp add: world_ok_def)
next
  case (trash_lost c tok)
  show ?thesis unfolding trash_lost(1) by (rule session_world_ok [OF assms(2)]) (use assms(2) trash_failed_ok in \<open>simp_all add: world_ok_def\<close>)
qed (simp_all add: flush_ok images_ok failure_ok refused_ok answered_ok trash_start_ok trash_flushed_ok trash_answered_ok
    discard_ok another_ok)

lemma opened_world_ok:
  assumes "opened_world w"
  shows "world_ok w"
proof -
  obtain doc images k owner located where o: "bw_session w = opened_session doc images k owner located"
    "bw_file w = doc" "bw_log w = [doc]" "strip_name (wd_name doc) = wd_name doc"
    and e: "bw_wire w = []" "bw_answers w = []" "bw_sent w = []" using assms unfolding opened_world_def by blast
  let ?s = "opened_session doc images k owner located"
  have s: "bs_document ?s = doc" "bs_pending ?s = None" "bs_saving ?s = None" "bs_trash ?s = None" "bs_lifecycle ?s = LcActive"
    by (simp_all add: opened_session_def new_session_def schedule_def Let_def split: option.split prod.split)
  have saved: "bs_elements ?s = sc_elements (wd_scene doc) \<and> bs_review ?s = wd_review doc \<and> bs_name ?s = wd_name doc" if "bs_status ?s = StSaved"
    using that by (auto simp: opened_session_def new_session_def schedule_def Let_def split: option.splits prod.splits if_splits)
  have "saved_ok ?s" unfolding saved_ok_def s shows_edits_def using saved by simp
  then have "session_ok ?s" using o(4) by (simp add: session_ok_def save_ok_def pending_ok_def trash_ok_def s)
  moreover have "wire_ok w" using o(2-4) e by (simp add: wire_ok_def file_ok_def calls_ok_def client_ok_def o(1) s)
  ultimately show ?thesis by (simp add: world_ok_def o(1))
qed

lemma reach_ok: "board_reach env w0 w \<Longrightarrow> opened_world w0 \<Longrightarrow> world_ok w"
  by (induction rule: board_reach.induct) (auto intro: opened_world_ok step_ok)

end
