(* ===== verification/BoardRuns.thy ===== *)
theory BoardRuns
  imports BoardLaws "HOL-Library.Code_Target_Nat"
begin

section \<open>Whiteboards: drafts, and the properties of an open board\<close>

text \<open>
  The third invariant, \<open>journal_ok\<close>: a draft under way or stored is the content of the generation it is
  marked with, and a draft of the current generation is cleared only once the content is in the file.
  Then the properties of a board after any interleaving of edits, timers, transactions, requests and
  failures.
\<close>

subsection \<open>The journal\<close>

definition op_ok :: "BoardSession \<Rightarrow> JournalOp \<Rightarrow> bool" where
  "op_ok s op = (case op of
     PutDraft k d g who \<Rightarrow> k = bs_key s \<and> dr_token d = (bs_owner s, g) \<and> g \<le> bs_generation s
       \<and> (g = bs_generation s \<longrightarrow> bs_status s = StSaved \<or> keeps d s) \<and> who \<noteq> DiscardWaits
   | ClearDraft k t who \<Rightarrow> (who = DiscardWaits \<longrightarrow> bs_lifecycle s = LcRetired)
       \<and> (fst t = bs_owner s \<longrightarrow> snd t \<le> bs_generation s \<and> (snd t = bs_generation s \<longrightarrow> bs_status s = StSaved))
       \<and> (fst t \<noteq> bs_owner s \<longrightarrow> bs_lifecycle s = LcRetired \<or> 0 < bs_generation s \<or> bs_status s = StSaved
            \<or> shows_edits (bs_document s) s)
   | DropDraft k \<Rightarrow> bs_lifecycle s = LcRetired)"

definition trash_token :: "BoardSession \<Rightarrow> token option" where
  "trash_token s = (case bs_trash s of Some (TrashFlushing _ t) \<Rightarrow> Some t | Some (TrashWriting _ t) \<Rightarrow> Some t | _ \<Rightarrow> None)"

definition draft_safe :: "(string \<Rightarrow> BoardDraft option) \<Rightarrow> BoardSession \<Rightarrow> bool" where
  "draft_safe drafts s \<longleftrightarrow>
     (\<exists>d. drafts (bs_key s) = Some d \<and> dr_token d = (bs_owner s, bs_generation s) \<and> keeps d s)
     \<or> bs_generation s = 0 \<and> ((\<exists>k d. drafts k = Some d \<and> fst (dr_token d) \<noteq> bs_owner s \<and> keeps d s) \<or> shows_edits (bs_document s) s)"

definition edits_safe :: "BoardWorld \<Rightarrow> bool" where
  "edits_safe w \<longleftrightarrow> (let s = bw_session w in
     bs_lifecycle s \<noteq> LcRetired \<and> bs_localGeneration s = int (bs_generation s) \<longrightarrow> bs_status s = StSaved \<or> draft_safe (bw_drafts w) s)"

definition tokens_ok :: "BoardSession \<Rightarrow> bool" where
  "tokens_ok s \<longleftrightarrow> bs_localGeneration s \<le> int (bs_generation s)
     \<and> (\<forall>k t. bs_recovered s = Some (k, t) \<longrightarrow> fst t \<noteq> bs_owner s)
     \<and> (\<forall>t. trash_token s = Some t \<longrightarrow> t = (bs_owner s, bs_generation s))"

definition journal_ok :: "BoardWorld \<Rightarrow> bool" where
  "journal_ok w \<longleftrightarrow> tokens_ok (bw_session w) \<and> (\<forall>op \<in> set (bw_journal w). op_ok (bw_session w) op) \<and> edits_safe w"

text \<open>A step of the session within a generation.\<close>

definition onward :: "BoardSession \<Rightarrow> BoardSession \<Rightarrow> bool" where
  "onward s s' \<longleftrightarrow> bs_key s' = bs_key s \<and> bs_owner s' = bs_owner s \<and> bs_generation s' = bs_generation s
     \<and> bs_localGeneration s' = bs_localGeneration s \<and> (bs_recovered s' = bs_recovered s \<or> bs_recovered s' = None)
     \<and> (bs_lifecycle s = LcRetired \<longrightarrow> bs_lifecycle s' = LcRetired) \<and> (bs_status s = StSaved \<longrightarrow> bs_status s' = StSaved)
     \<and> (trash_token s' = trash_token s \<or> trash_token s' = None \<or> trash_token s' = Some (bs_owner s, bs_generation s))
     \<and> (bs_status s' = StSaved \<or> same_content s s' \<and> (bs_document s' = bs_document s \<or> 0 < bs_generation s \<or> shows_edits (bs_document s') s'))"

lemma onwardD:
  assumes "onward s s'"
  shows "bs_key s' = bs_key s" "bs_owner s' = bs_owner s" "bs_generation s' = bs_generation s"
    "bs_localGeneration s' = bs_localGeneration s" "bs_recovered s' = bs_recovered s \<or> bs_recovered s' = None"
    "bs_lifecycle s = LcRetired \<Longrightarrow> bs_lifecycle s' = LcRetired" "bs_status s = StSaved \<Longrightarrow> bs_status s' = StSaved"
    "trash_token s' = trash_token s \<or> trash_token s' = None \<or> trash_token s' = Some (bs_owner s, bs_generation s)"
    "bs_status s' \<noteq> StSaved \<Longrightarrow> same_content s s'"
    "bs_status s' \<noteq> StSaved \<Longrightarrow> bs_document s' = bs_document s \<or> 0 < bs_generation s \<or> shows_edits (bs_document s') s'"
  using assms by (auto simp: onward_def)

lemma onward_keeps: "onward s s' \<Longrightarrow> keeps d s \<Longrightarrow> bs_status s' = StSaved \<or> keeps d s'"
  using onwardD(9) content_cong(2) by blast

lemma onward_shows:
  assumes "onward s s'" "shows_edits (bs_document s) s"
  shows "bs_status s' = StSaved \<or> 0 < bs_generation s \<or> shows_edits (bs_document s') s'"
  using onwardD(9,10) [OF assms(1)] content_cong(3) [of s s' "bs_document s"] assms(2) by (cases "bs_status s' = StSaved") auto

lemma onward_op:
  assumes "onward s s'" "op_ok s op"
  shows "op_ok s' op"
proof (cases op)
  case (PutDraft k d g who)
  then show ?thesis using assms onwardD(1-3,7) [OF assms(1)] onward_keeps [OF assms(1)] by (auto simp: op_ok_def)
next
  case (ClearDraft k t who)
  then show ?thesis using assms(2) onwardD(2,3,6,7) [OF assms(1)] onward_shows [OF assms(1)] by (auto simp: op_ok_def)
next
  case (DropDraft k)
  then show ?thesis using assms(2) onwardD(6) [OF assms(1)] by (simp add: op_ok_def)
qed

lemma onward_safe:
  assumes "onward s s'" "draft_safe D s"
  shows "bs_status s' = StSaved \<or> draft_safe D s'"
proof -
  note eq = onwardD(1-3) [OF assms(1)]
  consider d where "D (bs_key s) = Some d" "dr_token d = (bs_owner s, bs_generation s)" "keeps d s"
    | k d where "bs_generation s = 0" "D k = Some d" "fst (dr_token d) \<noteq> bs_owner s" "keeps d s"
    | "bs_generation s = 0" "shows_edits (bs_document s) s" using assms(2) unfolding draft_safe_def by metis
  then show ?thesis
  proof cases
    case 1
    then show ?thesis using onward_keeps [OF assms(1)] unfolding draft_safe_def eq by blast
  next
    case 2
    then show ?thesis using onward_keeps [OF assms(1)] unfolding draft_safe_def eq by blast
  next
    case 3
    then show ?thesis using onward_shows [OF assms(1)] unfolding draft_safe_def eq by auto
  qed
qed

lemma onward_ok:
  assumes "journal_ok w" "onward (bw_session w) (bw_session w')" "bw_drafts w' = bw_drafts w" "bw_journal w' = bw_journal w"
  shows "journal_ok w'"
proof -
  have old: "tokens_ok (bw_session w)" "\<And>op. op \<in> set (bw_journal w) \<Longrightarrow> op_ok (bw_session w) op" "edits_safe w"
    using assms(1) by (simp_all add: journal_ok_def)
  note eq = onwardD(1-4) [OF assms(2)]
  have "tokens_ok (bw_session w')"
    unfolding tokens_ok_def eq
  proof (intro conjI allI impI)
    note t = old(1) [unfolded tokens_ok_def]
    show "bs_localGeneration (bw_session w) \<le> int (bs_generation (bw_session w))" using t by blast
    show "fst t \<noteq> bs_owner (bw_session w)" if "bs_recovered (bw_session w') = Some (k, t)" for k t
      using t that onwardD(5) [OF assms(2)] by (metis option.discI)
    show "t = (bs_owner (bw_session w), bs_generation (bw_session w))" if "trash_token (bw_session w') = Some t" for t
      using old(1) [unfolded tokens_ok_def] that onwardD(8) [OF assms(2)] by (metis option.discI option.inject)
  qed
  moreover have "edits_safe w'"
    using old(3) onward_safe [OF assms(2)] onwardD(6,7) [OF assms(2)] unfolding edits_safe_def Let_def eq assms(3) by blast
  ultimately show ?thesis using old(2) onward_op [OF assms(2)] assms(4) by (simp add: journal_ok_def)
qed

lemma enqueue_ok: "journal_ok w \<Longrightarrow> op_ok (bw_session w) op \<Longrightarrow> journal_ok (enqueue op w)"
  by (auto simp: journal_ok_def enqueue_def edits_safe_def Let_def)

lemma draft_op_ok: "op_ok s (PutDraft (bs_key s) (draft_of now s) (bs_generation s) SaveWaits)"
  "op_ok s (PutDraft (bs_key s) (draft_of now s) (bs_generation s) Nobody)"
  by (simp_all add: op_ok_def draft_keeps) (simp_all add: draft_of_def)

lemma persisted_ok:
  assumes "journal_ok w" "who = Nobody \<or> who = SaveWaits"
  shows "journal_ok (persistDraft who w)"
  using assms enqueue_ok [OF assms(1)] draft_op_ok by (auto simp: persistDraft_def Let_def)

lemma world_of [simp]:
  "bw_drafts (on_session f w) = bw_drafts w" "bw_journal (on_session f w) = bw_journal w"
  "bw_drafts (send q w) = bw_drafts w" "bw_journal (send q w) = bw_journal w"
  by (simp_all add: on_session_def send_def)

lemma onward_session_ok: "journal_ok w \<Longrightarrow> onward (bw_session w) (f (bw_session w)) \<Longrightarrow> journal_ok (on_session f w)"
  by (rule onward_ok) simp_all

text \<open>Edits start a new generation.\<close>

lemma edited_op: "edited_from s s' \<Longrightarrow> op_ok s op \<Longrightarrow> op_ok s' op"
  by (auto simp: op_ok_def edited_from_def same_work_def split: JournalOp.splits)

lemma edited_journal_ok:
  assumes "journal_ok w" "world_ok w" "edited_from (bw_session w) (f (bw_session w))"
  shows "journal_ok (on_session f w)"
proof -
  let ?s = "bw_session w" and ?t = "f (bw_session w)"
  have e: "bs_lifecycle ?s = LcActive" "bs_generation ?t = bs_generation ?s + 1" "bs_localGeneration ?t = bs_localGeneration ?s"
    "bs_trash ?t = bs_trash ?s" "bs_owner ?t = bs_owner ?s" "bs_recovered ?t = bs_recovered ?s"
    using assms(3) by (simp_all add: edited_from_def same_work_def)
  have "bs_trash ?s = None" using assms(2) e(1) by (simp add: world_ok_def session_ok_def trash_ok_def)
  then have "trash_token ?t = None" using e(4) by (simp add: trash_token_def)
  then have t: "tokens_ok ?t" "bs_localGeneration ?t < int (bs_generation ?t)" using assms(1) e by (simp_all add: journal_ok_def tokens_ok_def)
  then show ?thesis using assms(1) edited_op [OF assms(3)] by (auto simp: journal_ok_def edits_safe_def Let_def)
qed

lemma edit_journal_ok:
  assumes "journal_ok w" "world_ok w" "f (bw_session w) = bw_session w \<or> f (bw_session w) = (bw_session w)\<lparr>bs_files := files\<rparr>
    \<or> edited_from (bw_session w) (f (bw_session w))"
  shows "journal_ok (on_session f w)"
proof -
  have "onward (bw_session w) (bw_session w)" "onward (bw_session w) ((bw_session w)\<lparr>bs_files := files\<rparr>)"
    by (simp_all add: onward_def same_content_def trash_token_def)
  then show ?thesis using assms edited_journal_ok onward_session_ok by metis
qed

subsection \<open>The handlers and the journal\<close>

lemmas onward_simps = onward_def same_content_def trash_token_def await_save_def update_state_def schedule_def

lemma onward_refl [simp]: "onward s s"
  by (simp add: onward_simps)

lemma onward_finished: "onward s (save_finished s)"
  by (simp add: onward_simps save_finished_def Let_def)

lemma onward_failed:
  assumes "bs_status s \<noteq> StSaved"
  shows "onward s (save_failed f s)"
proof -
  have failed: "onward s (update_state (\<lambda>s. s\<lparr>bs_status := st, bs_message := m\<rparr>) t)"
    if "t = s \<or> t = s\<lparr>bs_pending := None\<rparr>" for st m t using that assms by (auto simp: onward_simps)
  have fin: "onward s (save_finished t)" if "onward s t" for t
    using that by (cases "bs_status t") (auto simp: onward_simps save_finished_def Let_def shows_edits_def)
  show ?thesis unfolding save_failed_def save_failed_status_def Let_def
    using failed by (auto intro!: fin split: option.split)
qed

lemma flush_journal_ok:
  assumes "journal_ok w"
  shows "journal_ok (flush w)"
proof -
  have w: "journal_ok (on_session clear_save_timers w)"
    by (rule onward_session_ok [OF assms]) (simp add: onward_simps clear_save_timers_def)
  let ?f = "\<lambda>s. (update_state (\<lambda>s. s\<lparr>bs_status := StSaving\<rparr>) s)\<lparr>bs_saving := Some Journalling\<rparr>"
  have "journal_ok (persistDraft SaveWaits (on_session ?f (on_session clear_save_timers w)))"
    if "bs_status (bw_session w) \<noteq> StSaved"
    by (rule persisted_ok, rule onward_session_ok [OF w]) (use that in \<open>simp_all add: onward_simps clear_save_timers_def\<close>)
  then show ?thesis using w by (simp add: flush_def Let_def clear_save_timers_def)
qed

lemma acknowledged_journal_ok:
  assumes "journal_ok w" "bs_status (bw_session w) \<noteq> StSaved" "g \<le> bs_generation (bw_session w)"
  shows "journal_ok (acknowledged g w)"
proof (cases "bs_generation (bw_session w) = g")
  case True
  let ?f = "\<lambda>s. await_save Clearing (update_state (\<lambda>s. s\<lparr>bs_status := StSaved, bs_name := wd_name (bs_document s),
      bs_message := (if bs_localError s then bs_message s else NoMessage)\<rparr>) s)"
  have f: "journal_ok (on_session ?f w)" by (rule onward_session_ok [OF assms(1)]) (simp add: onward_simps)
  then have "journal_ok (enqueue (ClearDraft (bs_key (bw_session w)) (bs_owner (bw_session w), g) SaveWaits) (on_session ?f w))"
    by (rule enqueue_ok) (use True in \<open>simp add: op_ok_def await_save_def update_state_def\<close>)
  then show ?thesis using True by (simp add: acknowledged_def Let_def)
next
  case False
  let ?f = "update_state (\<lambda>s. s\<lparr>bs_status := StDirty\<rparr>)"
  have f: "journal_ok (on_session ?f w)" by (rule onward_session_ok [OF assms(1)]) (use assms(2) in \<open>simp add: onward_simps\<close>)
  have a: "journal_ok (on_session (await_save Rejournalling) (on_session ?f w))"
    by (rule onward_session_ok [OF f]) (simp add: onward_simps)
  have "journal_ok (on_session save_finished (on_session ?f w))" by (rule onward_session_ok [OF f]) (rule onward_finished)
  then show ?thesis using False persisted_ok [OF a] by (simp add: acknowledged_def Let_def)
qed

lemma pending_sent_journal_ok: "journal_ok w \<Longrightarrow> journal_ok (send_pending w)"
  by (erule onward_ok; cases "bs_pending (bw_session w)") (auto simp: onward_simps send_pending_def)

lemma resumed_save_journal_ok:
  assumes "journal_ok w" "world_ok w"
  shows "journal_ok (save_resumed w)"
proof -
  let ?s = "bw_session w"
  have s: "session_ok ?s" using assms(2) by (simp add: world_ok_def)
  have fin: "journal_ok (on_session save_finished w)" by (rule onward_session_ok [OF assms(1)]) (rule onward_finished)
  have start: "journal_ok (save_journalled w)"
    using pending_sent_journal_ok [OF assms(1)] onward_session_ok [OF assms(1)]
    by (simp add: save_journalled_def Let_def onward_simps)
  have "journal_ok (acknowledged g (on_session (\<lambda>s. s\<lparr>bs_recovered := None\<rparr>) w))" if f: "bs_saving ?s = Some (Forgetting g)" for g
  proof (rule acknowledged_journal_ok)
    show "journal_ok (on_session (\<lambda>s. s\<lparr>bs_recovered := None\<rparr>) w)" by (rule onward_session_ok [OF assms(1)]) (simp add: onward_simps)
  qed (use busy_not_saved(1) [OF s f] session_okD(1) [OF s] f in \<open>simp_all add: save_ok_def\<close>)
  then show ?thesis using assms(1) fin start by (auto simp: save_resumed_def split: option.split SavePhase.split)
qed

lemma retired_journal_ok:
  "journal_ok w \<Longrightarrow> journal_ok (on_session (\<lambda>s. (retire s)\<lparr>bs_trash := None\<rparr>) w)"
  "journal_ok w \<Longrightarrow> journal_ok (on_session retire w)"
  by (erule onward_session_ok, simp add: onward_simps retire_def)+

lemma resumed_journal_ok:
  assumes "journal_ok w" "world_ok w" "who = DiscardWaits \<longrightarrow> bs_lifecycle (bw_session w) = LcRetired"
  shows "journal_ok (resumed who w)"
  using assms resumed_save_journal_ok retired_journal_ok(1) enqueue_ok
  by (cases who) (simp_all add: resumed_def op_ok_def)

text \<open>A transaction that ends: a draft is stored, or one is removed.\<close>

lemma put_ok:
  assumes "journal_ok w" "op_ok (bw_session w) (PutDraft k d g who)"
  shows "journal_ok (on_session (draft_kept g True) (w\<lparr>bw_drafts := (bw_drafts w)(k \<mapsto> d)\<rparr>))"
proof -
  let ?s = "bw_session w" and ?t = "draft_kept g True (bw_session w)"
  have on: "onward (?s\<lparr>bs_localGeneration := int g\<rparr>) ?t" by (simp add: onward_simps draft_kept_def)
  have p: "k = bs_key ?s" "dr_token d = (bs_owner ?s, g)" "g \<le> bs_generation ?s" "g = bs_generation ?s \<Longrightarrow> bs_status ?s = StSaved \<or> keeps d ?s"
    using assms(2) by (simp_all add: op_ok_def)
  have eq: "bs_key ?t = bs_key ?s" "bs_owner ?t = bs_owner ?s" "bs_generation ?t = bs_generation ?s" "bs_status ?t = bs_status ?s"
    "bs_localGeneration ?t = int g" "bs_recovered ?t = bs_recovered ?s" "trash_token ?t = trash_token ?s" "bs_lifecycle ?t = bs_lifecycle ?s"
    "bs_document ?t = bs_document ?s"
    by (simp_all add: draft_kept_def update_state_def trash_token_def)
  have same: "same_content ?s ?t" by (simp add: same_content_def draft_kept_def update_state_def)
  have "tokens_ok ?t" using assms(1) p(3) unfolding journal_ok_def tokens_ok_def eq by simp
  moreover have "op_ok ?t op = op_ok ?s op" for op
    unfolding op_ok_def eq content_cong [OF same] ..
  ultimately have ops: "tokens_ok ?t \<and> (\<forall>op \<in> set (bw_journal w). op_ok ?t op)" using assms(1) by (simp add: journal_ok_def)
  have "bs_status ?s = StSaved \<or> draft_safe ((bw_drafts w)(k \<mapsto> d)) ?t" if "g = bs_generation ?s"
    unfolding draft_safe_def eq content_cong [OF same] using p that by auto
  moreover have kept: "bs_status (draft_kept h True s) = bs_status s" for h s by (simp add: draft_kept_def update_state_def)
  ultimately have safe: "edits_safe (on_session (draft_kept g True) (w\<lparr>bw_drafts := (bw_drafts w)(k \<mapsto> d)\<rparr>))"
    by (auto simp: edits_safe_def Let_def on_session_def eq kept)
  show ?thesis using safe ops by (simp add: journal_ok_def)
qed

lemma draft_stays:
  assumes "draft_safe D s"
    and "\<And>d. dr_token d = (bs_owner s, bs_generation s) \<Longrightarrow> D (bs_key s) = Some d \<Longrightarrow> P \<or> D' (bs_key s) = Some d"
    and "\<And>k d. bs_generation s = 0 \<Longrightarrow> fst (dr_token d) \<noteq> bs_owner s \<Longrightarrow> D k = Some d \<Longrightarrow> P \<or> D' k = Some d"
  shows "P \<or> draft_safe D' s"
  using assms unfolding draft_safe_def by metis

lemma removed_ok:
  assumes "journal_ok w" "op_ok (bw_session w) (ClearDraft k t who)"
  shows "journal_ok (w\<lparr>bw_drafts := clear_stored k t (bw_drafts w)\<rparr>)"
proof -
  let ?s = "bw_session w" and ?D = "clear_stored k t (bw_drafts w)"
  have c: "fst t = bs_owner ?s \<Longrightarrow> snd t = bs_generation ?s \<Longrightarrow> bs_status ?s = StSaved"
    "fst t \<noteq> bs_owner ?s \<Longrightarrow> bs_lifecycle ?s = LcRetired \<or> 0 < bs_generation ?s \<or> bs_status ?s = StSaved \<or> shows_edits (bs_document ?s) ?s"
    using assms(2) by (simp_all add: op_ok_def)
  have stay: "?D k' = Some d" if "bw_drafts w k' = Some d" "dr_token d \<noteq> t" for k' d
    using that by (cases "k' = k") (simp_all add: clear_stored_def)
  have "bs_status ?s = StSaved \<or> draft_safe ?D ?s" if safe: "draft_safe (bw_drafts w) ?s" "bs_lifecycle ?s \<noteq> LcRetired"
  proof (cases "fst t = bs_owner ?s")
    case True
    have own: "bs_status ?s = StSaved \<or> dr_token d \<noteq> t" if "dr_token d = (bs_owner ?s, bs_generation ?s)" for d
      using that c(1) True by auto
    have other: "dr_token d \<noteq> t" if "fst (dr_token d) \<noteq> bs_owner ?s" for d using that True by auto
    show ?thesis
    proof (rule draft_stays [OF safe(1)], goal_cases)
      case (1 d)
      then show ?case using own stay by metis
    next
      case (2 k' d)
      then show ?case using other stay by metis
    qed
  next
    case False
    have own: "dr_token d \<noteq> t" if "dr_token d = (bs_owner ?s, bs_generation ?s)" for d using that False by auto
    show ?thesis
    proof (cases "0 < bs_generation ?s")
      case True
      then show ?thesis by (intro draft_stays [OF safe(1)]) (use own stay in \<open>metis, simp\<close>)
    next
      case no_edit: False
      then show ?thesis using c(2) [OF False] safe(2) by (auto simp: draft_safe_def)
    qed
  qed
  moreover have "edits_safe w" using assms(1) by (simp add: journal_ok_def)
  ultimately have "edits_safe (w\<lparr>bw_drafts := ?D\<rparr>)" by (simp add: edits_safe_def Let_def) blast
  then show ?thesis using assms(1) by (simp add: journal_ok_def)
qed

lemma journal_done_journal_ok:
  assumes "journal_ok (w\<lparr>bw_journal := ops\<rparr>)" "world_ok (w\<lparr>bw_journal := ops\<rparr>)" "op_ok (bw_session w) op"
  shows "journal_ok (journal_done ok op (w\<lparr>bw_journal := ops\<rparr>))"
proof -
  let ?w = "w\<lparr>bw_journal := ops\<rparr>"
  have s: "bw_session ?w = bw_session w" by simp
  have drafts: "world_ok (u\<lparr>bw_drafts := D\<rparr>)" if "world_ok u" for u D by (rule same_world_ok [OF same_wire_simps(5) session_of(5) that])
  have kept: "world_ok (on_session (draft_kept g b) u)" if u: "world_ok u" for g b u
    by (rule session_world_ok [OF u]) (use u quiet_same [OF timers_same(3)] same_session_ok [OF timers_same(3)] in \<open>simp_all add: world_ok_def\<close>)
  show ?thesis
  proof (cases op)
    case (PutDraft k d g who)
    have stored: "journal_ok (on_session (draft_kept g True) (?w\<lparr>bw_drafts := (bw_drafts ?w)(k \<mapsto> d)\<rparr>))"
      by (rule put_ok [OF assms(1)]) (use assms(3) PutDraft s in simp)
    have failed: "journal_ok (on_session (draft_kept g False) ?w)"
      by (rule onward_session_ok [OF assms(1)]) (simp add: onward_simps draft_kept_def)
    have who: "who \<noteq> DiscardWaits" using assms(3) PutDraft by (simp add: op_ok_def)
    show ?thesis
      using PutDraft who resumed_journal_ok [OF stored kept [OF drafts [OF assms(2)]]] resumed_journal_ok [OF failed kept [OF assms(2)]]
      by (simp add: journal_done_def)
  next
    case (ClearDraft k t who)
    have who: "who = DiscardWaits \<longrightarrow> bs_lifecycle (bw_session w) = LcRetired" using assms(3) ClearDraft by (simp add: op_ok_def)
    have cleared: "journal_ok (?w\<lparr>bw_drafts := clear_stored k t (bw_drafts ?w)\<rparr>)"
      by (rule removed_ok [OF assms(1)]) (use assms(3) ClearDraft s in simp)
    show ?thesis
      using ClearDraft who assms(1) resumed_journal_ok [OF cleared drafts [OF assms(2)]] resumed_journal_ok [OF assms(1,2)]
      by (simp add: journal_done_def)
  next
    case (DropDraft k)
    have "bs_lifecycle (bw_session w) = LcRetired" using assms(3) DropDraft by (simp add: op_ok_def)
    then have "journal_ok (?w\<lparr>bw_drafts := (bw_drafts ?w)(k := None)\<rparr>)"
      using assms(1) by (simp add: journal_ok_def edits_safe_def Let_def)
    then show ?thesis using DropDraft assms(1) by (simp add: journal_done_def)
  qed
qed

subsection \<open>Every step keeps the journal\<close>

lemma answered_journal_ok:
  assumes "journal_ok w" "world_ok w" "bs_saving (bw_session w) = Some (Writing c)" "(c, q', r) \<in> set (bw_answers w)"
  shows "journal_ok (save_answered msg r w)"
proof -
  let ?s = "bw_session w"
  have ok: "session_ok ?s" "wire_ok w" using assms(2) by (simp_all add: world_ok_def)
  have busy: "bs_status ?s \<noteq> StSaved" using busy_not_saved(1) [OF ok(1) assms(3)] by simp
  show ?thesis
  proof (cases r)
    case (Inl e)
    have "journal_ok (on_session (save_failed f) w)" for f
      by (rule onward_session_ok [OF assms(1)]) (rule onward_failed [OF busy])
    then show ?thesis using Inl by (simp add: save_answered_def)
  next
    case (Inr doc)
    have "bs_pending ?s \<noteq> None" using session_okD(1) [OF ok(1)] assms(3) by (simp add: save_ok_def)
    then obtain q g where p: "bs_pending ?s = Some (q, g)" by auto
    note a = answer_is [OF ok(2) assms(3,4) p Inr]
    let ?f = "\<lambda>s. s\<lparr>bs_document := doc, bs_pending := None\<rparr>"
    have gen: "g \<le> bs_generation ?s" "g = bs_generation ?s \<Longrightarrow> shows_edits doc ?s"
      using session_okD(2) [OF ok(1)] p covered_shown [OF _ a(2)] by (simp_all add: pending_ok_def)
    have same: "same_content ?s (?f ?s)" "same_content ?s (await_save (Forgetting g) (?f ?s))"
      by (simp_all add: same_content_def await_save_def)
    have seen: "0 < bs_generation ?s \<or> shows_edits doc ?s" using gen by (metis le_zero_eq neq0_conv)
    have f: "journal_ok (on_session ?f w)"
      by (rule onward_session_ok [OF assms(1)])
        (use seen same(1) busy in \<open>simp add: onward_def trash_token_def content_cong(3) [OF same(1)]\<close>)
    show ?thesis
    proof (cases "bs_recovered ?s")
      case None
      have "journal_ok (acknowledged g (on_session ?f w))" by (rule acknowledged_journal_ok [OF f]) (use busy gen(1) in simp_all)
      then show ?thesis using Inr p None by (simp add: save_answered_def Let_def)
    next
      case (Some kt)
      obtain k t where kt: "kt = (k, t)" by (cases kt)
      have foreign: "fst t \<noteq> bs_owner ?s" using assms(1) Some unfolding journal_ok_def tokens_ok_def kt by blast
      have u: "journal_ok (on_session (await_save (Forgetting g)) (on_session ?f w))"
        by (rule onward_session_ok [OF f]) (simp add: onward_simps)
      have "op_ok (await_save (Forgetting g) (?f ?s)) (ClearDraft k t SaveWaits)"
        using foreign seen content_cong(3) [OF same(2), of doc] by (auto simp: op_ok_def await_save_def)
      then have "journal_ok (enqueue (ClearDraft k t SaveWaits) (on_session (await_save (Forgetting g)) (on_session ?f w)))"
        using enqueue_ok [OF u] by simp
      then show ?thesis using Inr p Some kt by (simp add: save_answered_def Let_def)
    qed
  qed
qed

lemma trash_start_journal_ok:
  assumes "journal_ok w"
  shows "journal_ok (trash deleted w)"
proof (cases "bs_lifecycle (bw_session w) = LcActive")
  case True
  let ?f = "\<lambda>s. (update_state (\<lambda>s. s\<lparr>bs_lifecycle := LcTrashing\<rparr>) s)\<lparr>bs_trash := Some (TrashFlushing deleted (bs_owner s, bs_generation s))\<rparr>"
  have "journal_ok (on_session ?f w)" by (rule onward_session_ok [OF assms]) (simp add: onward_simps True)
  then show ?thesis using True flush_journal_ok by (simp add: trash_def Let_def)
qed (use assms in \<open>simp add: trash_def Let_def\<close>)

lemma trash_failed_journal_ok:
  assumes "journal_ok w" "world_ok w" "bs_trash (bw_session w) \<noteq> None"
  shows "journal_ok (on_session trash_failed w)"
proof -
  have "bs_lifecycle (bw_session w) \<noteq> LcRetired" using assms(2,3) by (auto simp: world_ok_def session_ok_def trash_ok_def)
  then show ?thesis by (intro onward_session_ok [OF assms(1)]) (simp add: onward_simps trash_failed_def)
qed

lemma trash_flushed_journal_ok:
  assumes "journal_ok w" "world_ok w" "bs_trash (bw_session w) = Some (TrashFlushing deleted tok)"
  shows "journal_ok (trash_flushed m deleted tok w)"
proof (cases "bs_status (bw_session w) = StSaved")
  case False
  then show ?thesis using trash_failed_journal_ok [OF assms(1,2)] assms(3) by (simp add: trash_flushed_def Let_def)
next
  case True
  have "journal_ok (on_session (\<lambda>s. s\<lparr>bs_trash := Some (TrashWriting (bw_calls w) tok)\<rparr>) w)"
    by (rule onward_session_ok [OF assms(1)]) (simp add: onward_simps assms(3))
  then have "journal_ok (send q (on_session (\<lambda>s. s\<lparr>bs_trash := Some (TrashWriting (bw_calls w) tok)\<rparr>) w))" for q
    by (rule onward_ok) simp_all
  then show ?thesis using True by (simp add: trash_flushed_def Let_def)
qed

lemma trash_answered_journal_ok:
  assumes "journal_ok w" "world_ok w" "bs_trash (bw_session w) = Some (TrashWriting c tok)"
  shows "journal_ok (trash_answered tok r w)"
proof (cases r)
  case (Inl e)
  then show ?thesis using trash_failed_journal_ok [OF assms(1,2)] assms(3) by (simp add: trash_answered_def)
next
  case (Inr doc)
  let ?s = "bw_session w" and ?f = "\<lambda>s. s\<lparr>bs_document := doc, bs_trash := Some TrashClearing\<rparr>"
  have saved: "bs_status ?s = StSaved" using assms(2,3) by (simp add: world_ok_def session_ok_def trash_ok_def)
  have f: "journal_ok (on_session ?f w)" by (rule onward_session_ok [OF assms(1)]) (simp add: onward_simps saved)
  have "trash_token ?s = Some tok" using assms(3) by (simp add: trash_token_def)
  then have "tok = (bs_owner ?s, bs_generation ?s)" using assms(1) unfolding journal_ok_def tokens_ok_def by blast
  then have "journal_ok (enqueue (ClearDraft (bs_key ?s) tok TrashWaits) (on_session ?f w))"
    by (intro enqueue_ok [OF f]) (simp add: op_ok_def saved)
  then show ?thesis using Inr by (simp add: trash_answered_def)
qed

lemma discard_journal_ok:
  assumes "journal_ok w"
  shows "journal_ok (discardBoardSession w)"
proof -
  have r: "journal_ok (on_session retire w)" by (rule retired_journal_ok(2) [OF assms])
  have retired: "bs_lifecycle (retire (bw_session w)) = LcRetired" by (simp add: retire_def update_state_def)
  have same: "bs_recovered (retire (bw_session w)) = bs_recovered (bw_session w)" "bs_owner (retire (bw_session w)) = bs_owner (bw_session w)"
    by (simp_all add: retire_def update_state_def)
  have "fst t \<noteq> bs_owner (bw_session w)" if "bs_recovered (bw_session w) = Some (k, t)" for k t
    using assms that unfolding journal_ok_def tokens_ok_def by blast
  then have "op_ok (retire (bw_session w)) (ClearDraft k t DiscardWaits)" if "bs_recovered (bw_session w) = Some (k, t)" for k t
    using that by (simp add: op_ok_def retired same)
  moreover have "op_ok (retire (bw_session w)) (DropDraft k)" for k by (simp add: op_ok_def retired)
  ultimately show ?thesis using enqueue_ok [OF r] same by (auto simp: discardBoardSession_def Let_def split: option.split)
qed

lemma images_journal_ok:
  assumes "journal_ok w" "world_ok w"
  shows "journal_ok (images_done env m msg w)"
proof (cases "bs_saving (bw_session w)")
  case (Some p)
  have s: "session_ok (bw_session w)" using assms(2) by (simp add: world_ok_def)
  have "journal_ok (on_session (\<lambda>s. s\<lparr>bs_pending := P s\<rparr>) w)" for P
    by (rule onward_session_ok [OF assms(1)]) (simp add: onward_simps)
  then have sent: "journal_ok (images_saved m g d assets w)" for g d assets
    unfolding images_saved_def by (rule pending_sent_journal_ok)
  have "journal_ok (on_session (save_failed f) w)" if "p \<noteq> Clearing" for f
    by (rule onward_session_ok [OF assms(1)], rule onward_failed) (use busy_not_saved(1) [OF s Some that] in simp)
  then show ?thesis using Some sent assms(1) by (cases p) (simp_all add: images_done_def split: option.split)
qed (use assms in \<open>simp add: images_done_def\<close>)

lemma step_journal_ok:
  assumes "board_step env w w'" "journal_ok w" "world_ok w"
  shows "journal_ok w'"
proof -
  have s: "session_ok (bw_session w)" using assms(3) by (simp add: world_ok_def)
  have lost: "journal_ok (on_session (save_failed f) w)" if "bs_saving (bw_session w) = Some p" "p \<noteq> Clearing" for p f
    by (rule onward_session_ok [OF assms(2)], rule onward_failed) (use busy_not_saved(1) [OF s that] in simp)
  have quiet: "journal_ok v" if "bw_session v = bw_session w" "bw_drafts v = bw_drafts w" "bw_journal v = bw_journal w" for v
    by (rule onward_ok [OF assms(2)]) (use that in simp_all)
  from assms(1) show ?thesis
  proof (cases rule: board_step.cases)
    case (edited elements colour files)
    have "journal_ok (on_session (change elements colour files) w)"
      by (rule edit_journal_ok [OF assms(2,3)]) (rule change_cases, auto)
    then show ?thesis using edited by simp
  next
    case (renamed name)
    have "journal_ok (on_session (rename name) w)" by (rule edit_journal_ok [OF assms(2,3)]) (rule rename_cases, auto)
    then show ?thesis using renamed by simp
  next
    case (reviewed r)
    have "journal_ok (on_session (editReview r) w)" by (rule edit_journal_ok [OF assms(2,3)]) (rule review_cases, auto)
    then show ?thesis using reviewed by simp
  next
    case draft_timer
    have "journal_ok (on_session (\<lambda>s. s\<lparr>bs_draftTimer := False\<rparr>) w)"
      by (rule onward_session_ok [OF assms(2)]) (simp add: onward_simps)
    then show ?thesis unfolding draft_timer(1) by (rule persisted_ok) simp
  next
    case draft_asked
    show ?thesis unfolding draft_asked by (rule persisted_ok [OF assms(2)]) simp
  next
    case (journal op ops ok)
    have "journal_ok (w\<lparr>bw_journal := ops\<rparr>)" using assms(2) journal(2) by (simp add: journal_ok_def edits_safe_def Let_def)
    moreover have "world_ok (w\<lparr>bw_journal := ops\<rparr>)" by (rule same_world_ok [OF same_wire_simps(6) session_of(6) assms(3)])
    moreover have "op_ok (bw_session w) op" using assms(2) journal(2) by (simp add: journal_ok_def)
    ultimately show ?thesis unfolding journal(1) by (rule journal_done_journal_ok)
  next
    case (served i)
    show ?thesis by (rule quiet) (simp_all add: served(1) server_handles_def Let_def split: prod.split sum.split)
  next
    case (another q)
    show ?thesis by (rule quiet) (simp_all add: another(1))
  qed (simp_all add: quiet lost flush_journal_ok images_journal_ok answered_journal_ok trash_start_journal_ok trash_flushed_journal_ok
      trash_answered_journal_ok trash_failed_journal_ok discard_journal_ok assms(2,3))
qed

lemma opened_journal_ok:
  assumes "opened_world w"
  shows "journal_ok w"
proof -
  obtain doc images k owner located where o: "bw_session w = opened_session doc images k owner located"
    and d: "\<And>lk d. located = Some (Some (lk, d)) \<Longrightarrow> bw_drafts w lk = Some d \<and> fst (dr_token d) \<noteq> owner \<and> (dr_review d = None \<longrightarrow> wd_review doc = None)"
    and j: "bw_journal w = opening_clears doc located" using assms unfolding opened_world_def by blast
  let ?s = "opened_session doc images k owner located"
  have s: "bs_generation ?s = 0" "bs_trash ?s = None" "bs_owner ?s = owner"
    by (simp_all add: opened_session_def new_session_def schedule_def Let_def split: option.split prod.split)
  have local: "bs_localGeneration ?s \<le> 0"
    by (simp add: opened_session_def new_session_def schedule_def Let_def split: option.split prod.split)
  have rec: "fst t \<noteq> owner" if "bs_recovered ?s = Some (lk, t)" for lk t
    using that d by (auto simp: opened_session_def new_session_def schedule_def Let_def split: option.splits prod.splits if_splits)
  have "bs_status ?s = StSaved \<or> draft_safe (bw_drafts w) ?s"
  proof (cases "bs_status ?s = StSaved")
    case False
    then obtain lk f where f: "located = Some (Some (lk, f))" "\<not> draft_is_stored f doc"
      by (auto simp: opened_session_def new_session_def schedule_def Let_def split: option.splits prod.splits if_splits)
    then have "keeps f ?s" using d [OF f(1)]
      by (auto simp: keeps_def opened_session_def new_session_def schedule_def Let_def split: option.split)
    then show ?thesis using d [OF f(1)] unfolding draft_safe_def s by blast
  qed simp
  then have "edits_safe w" unfolding edits_safe_def Let_def o by blast
  moreover have "op_ok ?s op" if clear: "op \<in> set (opening_clears doc located)" for op
  proof -
    obtain lk f where f: "located = Some (Some (lk, f))" "draft_is_stored f doc" "op = ClearDraft lk (dr_token f) Nobody"
      using clear by (auto simp: opening_clears_def split: option.splits prod.splits if_splits)
    then have "bs_status ?s = StSaved" by (simp add: opened_session_def new_session_def Let_def)
    then show ?thesis using d [OF f(1)] f(3) by (simp add: op_ok_def s)
  qed
  moreover have "tokens_ok ?s" using local rec by (auto simp: tokens_ok_def s trash_token_def)
  ultimately show ?thesis using j by (simp add: journal_ok_def o)
qed

lemma reach_journal_ok: "board_reach env w0 w \<Longrightarrow> opened_world w0 \<Longrightarrow> world_ok w \<and> journal_ok w"
  by (induction rule: board_reach.induct) (auto intro: opened_world_ok opened_journal_ok step_ok step_journal_ok)

subsection \<open>What holds of an open board\<close>

text \<open>A rejected request other than an embed or a size stays pending, and the next save sends it again.\<close>

lemma rejected_request_stays:
  assumes "\<not> embedRejected f" "\<not> sizeRejected f" "bs_pending (bw_session w) = Some (q, g)"
  shows "bs_pending (save_failed f (bw_session w)) = Some (q, g)"
    and "bw_wire (save_journalled w) = bw_wire w @ [(bw_calls w, q)]"
  using assms by (simp_all add: save_failed_def save_failed_status_def save_finished_def update_state_def schedule_def Let_def
      save_journalled_def send_pending_def send_def on_session_def)

text \<open>
  C3. A board that shows \<open>saved\<close> is stored: whatever edits, timers, transactions, requests, failures and
  other windows did since it was opened, the file has held a content with the elements, the name and
  the review note that the session shows.
\<close>

theorem saved_means_stored:
  assumes "opened_world w0" "board_reach env w0 w" "bs_status (bw_session w) = StSaved"
  shows "\<exists>d \<in> set (bw_log w). sc_elements (wd_scene d) = bs_elements (bw_session w) \<and> wd_name d = bs_name (bw_session w)
    \<and> review_agrees (wd_review d) (bs_review (bw_session w))"
proof -
  have "world_ok w" using reach_ok [OF assms(2,1)] .
  then have "bs_document (bw_session w) \<in> set (bw_log w)" "saved_ok (bw_session w)"
    by (simp_all add: world_ok_def wire_okD session_okD)
  then show ?thesis using assms(3) by (auto simp: saved_ok_def shows_edits_def)
qed

text \<open>
  C7. The file has one history: each content is made from the one before it, its revision the next; no
  request is applied twice, however often it was sent; and each content after the first holds a request
  that was sent, made on the revision before.
\<close>

theorem one_history:
  assumes "opened_world w0" "board_reach env w0 w"
  shows "bw_file w = last (bw_log w) \<and> successively (\<lambda>d d'. wd_revision d' = wd_revision d + 1) (bw_log w)
    \<and> distinct (map wd_last_mutation_id (bw_log w)) \<and> list_all (\<lambda>d. list_ex (\<lambda>q. holds_request q d) (bw_sent w)) (tl (bw_log w))"
proof -
  have "file_ok w" using reach_ok [OF assms(2,1)] by (simp add: world_ok_def wire_okD)
  then show ?thesis by (simp add: file_ok_def list_all_iff list_ex_iff)
qed

text \<open>
  C4. A tab that closes without a warning loses nothing: when a session that is not retired does not ask
  for the warning, the file has held what it shows, or a draft in the browser's database holds it.
\<close>

theorem quiet_close_loses_nothing:
  assumes "opened_world w0" "board_reach env w0 w" "\<not> needsUnloadWarning (bw_session w)" "bs_lifecycle (bw_session w) \<noteq> LcRetired"
  shows "(\<exists>d \<in> set (bw_log w). shows_edits d (bw_session w)) \<or> (\<exists>k d. bw_drafts w k = Some d \<and> keeps d (bw_session w))"
proof -
  let ?s = "bw_session w"
  have ok: "world_ok w" "journal_ok w" using reach_journal_ok [OF assms(2,1)] by simp_all
  have doc: "bs_document ?s \<in> set (bw_log w)" "saved_ok ?s" using ok(1) by (simp_all add: world_ok_def wire_okD session_okD)
  have "bs_status ?s = StSaved \<or> draft_safe (bw_drafts w) ?s"
    using ok(2) assms(3,4) by (auto simp: journal_ok_def edits_safe_def needsUnloadWarning_def Let_def)
  then show ?thesis
  proof
    assume "bs_status ?s = StSaved"
    then have "shows_edits (bs_document ?s) ?s" using doc(2) by (simp add: saved_ok_def)
    then show ?thesis using doc(1) by blast
  next
    assume "draft_safe (bw_drafts w) ?s"
    then show ?thesis using doc(1) unfolding draft_safe_def by blast
  qed
qed

subsection \<open>A board that is opened, renamed and saved\<close>

definition sample_board :: WhiteboardDocument where
  "sample_board = \<lparr>wd_id = ''b'', wd_name = [65], wd_revision = 3, wd_created_at_ms = 1, wd_updated_at_ms = 1,
     wd_deleted_at_ms = None, wd_element_count = 0, wd_review = None, wd_schema_version = 1,
     wd_scene = \<lparr>sc_elements = [], sc_appState = None, sc_files = []\<rparr>, wd_last_mutation_id = ''m0'', wd_last_mutation_hash = ''h''\<rparr>"

definition sample_env :: BoardEnv where
  "sample_env = \<lparr>be_disk = \<lparr>bd_scene_bytes = (\<lambda>_. 10), bd_review_bytes = (\<lambda>_. 10), bd_asset = (\<lambda>_. None), bd_digest = (\<lambda>q. ww_mutation_id q)\<rparr>,
     be_upload = (\<lambda>_. None)\<rparr>"

definition sample_opened :: BoardWorld where
  "sample_opened = \<lparr>bw_session = opened_session sample_board [] ''k'' ''o'' (Some None), bw_drafts = (\<lambda>_. None), bw_journal = [],
     bw_wire = [], bw_answers = [], bw_calls = 0, bw_file = sample_board, bw_now = 5, bw_sent = [], bw_log = [sample_board]\<rparr>"

definition journal_ends :: "BoardWorld \<Rightarrow> BoardWorld" where
  "journal_ends w = journal_done True (hd (bw_journal w)) (w\<lparr>bw_journal := tl (bw_journal w)\<rparr>)"

definition answer_comes :: "BoardWorld \<Rightarrow> BoardWorld" where
  "answer_comes w = save_answered None (snd (snd (hd (bw_answers w)))) w"

definition sample_kept :: BoardWorld where
  "sample_kept = journal_ends (flush (on_session (rename [66, 32]) sample_opened))"

definition sample_sent :: BoardWorld where
  "sample_sent = images_done sample_env ''m1'' None sample_kept"

definition sample_saved :: BoardWorld where
  "sample_saved = journal_ends (answer_comes (server_handles (be_disk sample_env) 0 sample_sent))"

lemma sample_is_opened: "opened_world sample_opened"
proof -
  have "strip_name [65] = [65]" by code_simp
  then have "bw_session sample_opened = opened_session sample_board [] ''k'' ''o'' (Some None)
      \<and> bw_file sample_opened = sample_board \<and> bw_log sample_opened = [sample_board]
      \<and> bw_journal sample_opened = opening_clears sample_board (Some None) \<and> strip_name (wd_name sample_board) = wd_name sample_board"
    by (simp add: sample_opened_def opening_clears_def sample_board_def)
  then show ?thesis unfolding opened_world_def by (auto simp: sample_opened_def)
qed

lemma journal_ends_step: "0 < length (bw_journal w) \<Longrightarrow> board_step env w (journal_ends w)"
  using board_step.journal [of w "hd (bw_journal w)" "tl (bw_journal w)" env True] by (simp add: journal_ends_def)

lemma answer_comes_step:
  assumes "0 < length (bw_answers w)" "bs_saving (bw_session w) = Some (Writing (fst (hd (bw_answers w))))"
  shows "board_step env w (answer_comes w)"
proof -
  obtain c q r where a: "hd (bw_answers w) = (c, q, r)" by (cases "hd (bw_answers w)") simp
  have "hd (bw_answers w) \<in> set (bw_answers w)" using assms(1) by simp
  then show ?thesis using board_step.answered [of w c q r env None] assms(2) a by (simp add: answer_comes_def)
qed

lemma sample_run_kept: "board_reach sample_env sample_opened sample_kept"
proof -
  have "board_step sample_env sample_opened (on_session (rename [66, 32]) sample_opened)" by (rule board_step.renamed)
  moreover have "board_step sample_env (on_session (rename [66, 32]) sample_opened) (flush (on_session (rename [66, 32]) sample_opened))"
    by (rule board_step.flushed)
  moreover have "0 < length (bw_journal (flush (on_session (rename [66, 32]) sample_opened)))" by code_simp
  ultimately show ?thesis unfolding sample_kept_def by (intro board_reach.step [OF _ journal_ends_step] board_reach.step [OF board_reach.step [OF board_reach.start]])
qed

lemma sample_run_saved: "board_reach sample_env sample_opened sample_saved"
proof -
  have "fresh_mutation ''m1'' sample_kept" unfolding fresh_mutation_def by code_simp
  then have "board_reach sample_env sample_opened sample_sent"
    unfolding sample_sent_def by (rule board_reach.step [OF sample_run_kept board_step.images])
  moreover have "0 < length (bw_wire sample_sent)" by code_simp
  ultimately have served: "board_reach sample_env sample_opened (server_handles (be_disk sample_env) 0 sample_sent)"
    by (meson board_reach.step board_step.served)
  have "0 < length (bw_answers (server_handles (be_disk sample_env) 0 sample_sent))" by code_simp
  moreover have "bs_saving (bw_session (server_handles (be_disk sample_env) 0 sample_sent))
      = Some (Writing (fst (hd (bw_answers (server_handles (be_disk sample_env) 0 sample_sent)))))" by code_simp
  ultimately have answered: "board_reach sample_env sample_opened (answer_comes (server_handles (be_disk sample_env) 0 sample_sent))"
    using board_reach.step [OF served answer_comes_step] by blast
  have "0 < length (bw_journal (answer_comes (server_handles (be_disk sample_env) 0 sample_sent)))" by code_simp
  then show ?thesis unfolding sample_saved_def by (rule board_reach.step [OF answered journal_ends_step])
qed

theorem saved_means_stored_witness:
  "\<exists>d \<in> set (bw_log sample_saved). sc_elements (wd_scene d) = bs_elements (bw_session sample_saved)
     \<and> wd_name d = bs_name (bw_session sample_saved) \<and> review_agrees (wd_review d) (bs_review (bw_session sample_saved))"
proof -
  have "bs_status (bw_session sample_saved) = StSaved" by code_simp
  then show ?thesis by (rule saved_means_stored [OF sample_is_opened sample_run_saved])
qed

theorem one_history_witness:
  "bw_file sample_saved = last (bw_log sample_saved) \<and> successively (\<lambda>d d'. wd_revision d' = wd_revision d + 1) (bw_log sample_saved)
    \<and> distinct (map wd_last_mutation_id (bw_log sample_saved))
    \<and> list_all (\<lambda>d. list_ex (\<lambda>q. holds_request q d) (bw_sent sample_saved)) (tl (bw_log sample_saved))
    \<and> length (bw_log sample_saved) = 2"
proof -
  have "length (bw_log sample_saved) = 2" by code_simp
  then show ?thesis using one_history [OF sample_is_opened sample_run_saved] by blast
qed

theorem quiet_close_loses_nothing_witness:
  "bs_status (bw_session sample_kept) = StSaving
    \<and> ((\<exists>d \<in> set (bw_log sample_kept). shows_edits d (bw_session sample_kept))
       \<or> (\<exists>k d. bw_drafts sample_kept k = Some d \<and> keeps d (bw_session sample_kept)))"
proof -
  have "bs_status (bw_session sample_kept) = StSaving" "bs_localGeneration (bw_session sample_kept) = int (bs_generation (bw_session sample_kept))"
    "bs_lifecycle (bw_session sample_kept) = LcActive" by code_simp+
  then show ?thesis using quiet_close_loses_nothing [OF sample_is_opened sample_run_kept] by (simp add: needsUnloadWarning_def)
qed

end
