(* ===== verification/HogaSeries.thy ===== *)
theory HogaSeries
  imports PeakWalls Surges
begin

section \<open>Order book series of the day\<close>

text \<open>
  \<open>live/bucketHogaSeries.ts\<close>, the hoga half of \<open>live/buildLiveBundle.ts\<close> and
  \<open>live/liveSnapshotBuffer.ts\<close>: totals, imbalances and depth of the book and the traded quantities, per
  bucket of time. \<open>buildHogaSeries\<close> computes them from a window of snapshots;
  \<open>createIncrementalHogaSeriesBuilder\<close> follows the sliding windows of the live buffer. A snapshot object
  is its position in the stream, as in \<open>PeakWalls\<close>. Prices and quantities of these series are numbers, as
  their types say (\<open>num\<close>). A \<open>Map\<close> whose entries are listed is an association list in order of
  insertion; a \<open>Map\<close> that is only looked up is a function.
\<close>

definition num :: "rat option \<Rightarrow> rat" where
  "num x = (case x of Some r \<Rightarrow> r | None \<Rightarrow> 0)"

fun map_put :: "'k \<Rightarrow> 'v \<Rightarrow> ('k \<times> 'v) list \<Rightarrow> ('k \<times> 'v) list" where
  "map_put k v [] = [(k, v)]"
| "map_put k v ((k', v') # m) = (if k' = k then (k, v) # m else (k', v') # map_put k v m)"

subsection \<open>A snapshot\<close>

record HogaPoint = QuoteRatioPoint +
  hp_bid_max :: rat
  hp_ask_max :: rat
  hp_imb_max_bid :: rat
  hp_imb_max_ask :: rat

record FillStrengthPoint =
  fp_t :: ms
  fp_buy_qty :: rat
  fp_sell_qty :: rat

definition quoteImbalance :: "rat \<Rightarrow> rat \<Rightarrow> rat" where
  "quoteImbalance bid ask = (if bid \<le> 0 \<or> ask \<le> 0 then 0 else if bid \<le> ask then ask / bid - 1 else - (bid / ask - 1))"

definition tick_bands :: "(rat \<times> rat) list" where
  "tick_bands = [(2000, 1), (5000, 5), (20000, 10), (50000, 50), (200000, 100), (500000, 500)]"

definition krxTick :: "rat \<Rightarrow> rat" where
  "krxTick price = (if \<not> 0 < price then 0
     else (case find (\<lambda>b. price < fst b) tick_bands of Some b \<Rightarrow> snd b | None \<Rightarrow> 1000))"

definition best_price :: "OrderbookLevel list option \<Rightarrow> rat" where
  "best_price ls = (case ls of Some (l # _) \<Rightarrow> num (ol_price l) | _ \<Rightarrow> 0)"

definition krxTickOf :: "ObSnapshot \<Rightarrow> rat" where
  "krxTickOf s = (let a = best_price (ob_asks s); b = best_price (ob_bids s)
     in if 0 < a \<and> 0 < b then krxTick ((a + b) / 2) else 0)"

definition ladderBandPct :: "ObSnapshot \<Rightarrow> rat" where
  "ladderBandPct s = (case (ob_asks s, ob_bids s) of
     (Some a, Some b) \<Rightarrow> if length a < 10 \<or> length b < 10 then 0
       else (let a1 = num (ol_price (a ! 0)); b1 = num (ol_price (b ! 0));
                 a10 = num (ol_price (a ! 9)); b10 = num (ol_price (b ! 9))
             in if a10 \<le> 0 \<or> b10 \<le> 0 \<or> a1 + b1 \<le> 0 then 0 else (a10 - b10) * 200 / (a1 + b1))
   | _ \<Rightarrow> 0)"

text \<open>The entry of a bucket after a valid snapshot; the code has it once per path.\<close>

definition ratchet_quote :: "HogaPoint option \<Rightarrow> ObSnapshot \<Rightarrow> ms \<Rightarrow> HogaPoint" where
  "ratchet_quote prev s t =
     (let bid = ob_total_bid_qty s; ask = ob_total_ask_qty s;
          imb_bid = (case prev of Some p \<Rightarrow> hp_imb_max_bid p | None \<Rightarrow> 0);
          imb_ask = (case prev of Some p \<Rightarrow> hp_imb_max_ask p | None \<Rightarrow> 0);
          curMag = \<bar>quoteImbalance bid ask\<bar>;
          prevMag = (case prev of Some _ \<Rightarrow> \<bar>quoteImbalance imb_bid imb_ask\<bar> | None \<Rightarrow> -1)
      in \<lparr>qr_t = t, qr_bid_total = bid, qr_ask_total = ask, qr_band_pct = ladderBandPct s, qr_tick = krxTickOf s,
          hp_bid_max = max (case prev of Some p \<Rightarrow> hp_bid_max p | None \<Rightarrow> 0) bid,
          hp_ask_max = max (case prev of Some p \<Rightarrow> hp_ask_max p | None \<Rightarrow> 0) ask,
          hp_imb_max_bid = (if prevMag < curMag then bid else imb_bid),
          hp_imb_max_ask = (if prevMag < curMag then ask else imb_ask)\<rparr>)"

definition no_point :: "ms \<Rightarrow> HogaPoint" where
  "no_point t = \<lparr>qr_t = t, qr_bid_total = 0, qr_ask_total = 0, qr_band_pct = 0, qr_tick = 0,
     hp_bid_max = 0, hp_ask_max = 0, hp_imb_max_bid = 0, hp_imb_max_ask = 0\<rparr>"

definition add_fill :: "FillStrengthPoint \<Rightarrow> TradeEvent \<Rightarrow> FillStrengthPoint" where
  "add_fill p e = (if te_side e = 1 then p\<lparr>fp_buy_qty := fp_buy_qty p + num (te_qty e)\<rparr>
     else if te_side e = - 1 then p\<lparr>fp_sell_qty := fp_sell_qty p + num (te_qty e)\<rparr> else p)"

definition no_fill :: "ms \<Rightarrow> FillStrengthPoint" where
  "no_fill t = \<lparr>fp_t = t, fp_buy_qty = 0, fp_sell_qty = 0\<rparr>"

subsection \<open>From a window of snapshots\<close>

text \<open>\<open>None\<close> is the boundary at infinity.\<close>

definition upto_time :: "ms \<Rightarrow> ms option \<Rightarrow> bool" where
  "upto_time t bound = (case bound of Some b \<Rightarrow> t \<le> b | None \<Rightarrow> True)"

definition last_continuous :: "ms \<Rightarrow> ObSnapshot list \<Rightarrow> ms option" where
  "last_continuous sessionCloseMs obs = foldl (\<lambda>last s.
     if ob_t_ms s \<le> sessionCloseMs \<and> isContinuousBook s then Some (ob_t_ms s) else last) None obs"

definition quote_step :: "ms option \<Rightarrow> ms \<Rightarrow> ms \<Rightarrow> string \<Rightarrow> (ms \<times> HogaPoint) list \<times> ms set \<Rightarrow> ObSnapshot
    \<Rightarrow> (ms \<times> HogaPoint) list \<times> ms set" where
  "quote_step lastContinuousMs sessionOpenMs bucketMs venue qs s =
     (let q = fst qs; seenPre = snd qs; t = indicatorBucketStartMs (ob_t_ms s) bucketMs venue
      in if upto_time (ob_t_ms s) lastContinuousMs \<and> eligible_in s sessionOpenMs venue
         then (map_put t (ratchet_quote (map_of q t) s t) q, insert t seenPre)
         else if t \<notin> seenPre then (map_put t (no_point t) q, seenPre) else qs)"

definition fill_trade :: "ms \<Rightarrow> string \<Rightarrow> (ms \<times> FillStrengthPoint) list \<Rightarrow> TradeSnapshot \<Rightarrow> (ms \<times> FillStrengthPoint) list" where
  "fill_trade bucketMs venue f s = (let t = indicatorBucketStartMs (ts_t_ms s) bucketMs venue;
       p = (case map_of f t of Some p \<Rightarrow> p | None \<Rightarrow> no_fill t)
     in map_put t (foldl add_fill p (ts_trades s)) f)"

definition bucketHogaSeries :: "ObSnapshot list \<Rightarrow> TradeSnapshot list \<Rightarrow> ms \<Rightarrow> ms \<Rightarrow> ms \<Rightarrow> string
    \<Rightarrow> (HogaPoint list \<times> FillStrengthPoint list) option" where
  "bucketHogaSeries ob trade bucketMs sessionCloseMs sessionOpenMs venue =
     (if bucketMs \<le> 0 then None
      else (let obSorted = sort_key ob_t_ms ob; tradeSorted = sort_key ts_t_ms trade;
                lastContinuousMs = last_continuous sessionCloseMs obSorted
            in Some (sort_key qr_t (map snd (fst (foldl (quote_step lastContinuousMs sessionOpenMs bucketMs venue) ([], {}) obSorted))),
                     sort_key fp_t (map snd (foldl (fill_trade bucketMs venue) [] tradeSorted)))))"

subsection \<open>Depth of the book\<close>

record DepthHeatmapPoint =
  dh_tMs :: ms
  dh_asks :: "OrderbookLevel list"
  dh_bids :: "OrderbookLevel list"
  dh_asksMax :: "OrderbookLevel list"
  dh_bidsMax :: "OrderbookLevel list"
  dh_asksPriceMax :: "(rat \<times> rat) list"
  dh_bidsPriceMax :: "(rat \<times> rat) list"

record PriceMaxAcc =
  pm_asks :: "(rat \<times> rat) list"
  pm_bids :: "(rat \<times> rat) list"

definition newPriceMaxAcc :: PriceMaxAcc where
  "newPriceMaxAcc = \<lparr>pm_asks = [], pm_bids = []\<rparr>"

definition fold_level :: "(rat \<times> rat) list \<Rightarrow> OrderbookLevel \<Rightarrow> (rat \<times> rat) list" where
  "fold_level acc l = (let price = num (ol_price l); qty = num (ol_qty l)
     in if qty \<le> 0 then acc
        else (case map_of acc price of None \<Rightarrow> map_put price qty acc
          | Some cur \<Rightarrow> if cur < qty then map_put price qty acc else acc))"

definition levels_of :: "OrderbookLevel list option \<Rightarrow> OrderbookLevel list" where
  "levels_of ls = (case ls of Some xs \<Rightarrow> xs | None \<Rightarrow> [])"

definition foldPriceMax :: "PriceMaxAcc \<Rightarrow> ObSnapshot \<Rightarrow> PriceMaxAcc" where
  "foldPriceMax acc s = \<lparr>pm_asks = foldl fold_level (pm_asks acc) (levels_of (ob_asks s)),
     pm_bids = foldl fold_level (pm_bids acc) (levels_of (ob_bids s))\<rparr>"

definition priceMaxLevels :: "(rat \<times> rat) list \<Rightarrow> BookSide \<Rightarrow> (rat \<times> rat) list" where
  "priceMaxLevels m side = sort_key (\<lambda>l. case side of Ask \<Rightarrow> fst l | Bid \<Rightarrow> - fst l) m"

record DepthBucket =
  db_asks :: "OrderbookLevel list"
  db_bids :: "OrderbookLevel list"
  db_asksMax :: "OrderbookLevel list"
  db_bidsMax :: "OrderbookLevel list"
  db_total :: rat
  db_priceMax :: PriceMaxAcc

definition book_total :: "ObSnapshot \<Rightarrow> rat" where
  "book_total s = ob_total_bid_qty s + ob_total_ask_qty s"

definition depth_bucket :: "DepthBucket option \<Rightarrow> ObSnapshot \<Rightarrow> DepthBucket" where
  "depth_bucket prev s =
     (let asks = levels_of (ob_asks s); bids = levels_of (ob_bids s);
          acc = foldPriceMax (case prev of Some d \<Rightarrow> db_priceMax d | None \<Rightarrow> newPriceMaxAcc) s;
          fresh = \<lparr>db_asks = asks, db_bids = bids, db_asksMax = asks, db_bidsMax = bids, db_total = book_total s, db_priceMax = acc\<rparr>
      in case prev of None \<Rightarrow> fresh
         | Some d \<Rightarrow> if db_total d < book_total s then fresh
             else d\<lparr>db_asks := asks, db_bids := bids, db_priceMax := acc\<rparr>)"

definition has_book :: "ObSnapshot \<Rightarrow> bool" where
  "has_book s \<longleftrightarrow> ob_asks s \<noteq> None \<and> ob_bids s \<noteq> None"

definition depth_step :: "ms option \<Rightarrow> ms \<Rightarrow> ms \<Rightarrow> string \<Rightarrow> (ms \<times> DepthBucket) list \<Rightarrow> ObSnapshot \<Rightarrow> (ms \<times> DepthBucket) list" where
  "depth_step lastContinuousMs sessionOpenMs bucketMs venue d s =
     (if \<not> upto_time (ob_t_ms s) lastContinuousMs \<or> \<not> eligible_in s sessionOpenMs venue \<or> \<not> has_book s then d
      else (let t = indicatorBucketStartMs (ob_t_ms s) bucketMs venue in map_put t (depth_bucket (map_of d t) s) d))"

definition depth_point :: "ms \<Rightarrow> DepthBucket \<Rightarrow> DepthHeatmapPoint" where
  "depth_point t d = \<lparr>dh_tMs = t, dh_asks = db_asks d, dh_bids = db_bids d, dh_asksMax = db_asksMax d, dh_bidsMax = db_bidsMax d,
     dh_asksPriceMax = priceMaxLevels (pm_asks (db_priceMax d)) Ask, dh_bidsPriceMax = priceMaxLevels (pm_bids (db_priceMax d)) Bid\<rparr>"

definition bucketDepthHeatmap :: "ObSnapshot list \<Rightarrow> ms \<Rightarrow> ms \<Rightarrow> ms \<Rightarrow> string \<Rightarrow> DepthHeatmapPoint list" where
  "bucketDepthHeatmap ob bucketMs sessionCloseMs sessionOpenMs venue =
     (let obSorted = sort_key ob_t_ms ob
      in map (\<lambda>td. depth_point (fst td) (snd td))
           (foldl (depth_step (last_continuous sessionCloseMs obSorted) sessionOpenMs bucketMs venue) [] obSorted))"

subsection \<open>The series of the bundle\<close>

record RangeBundle =
  rb_quote_ratio :: "HogaPoint list"
  rb_fill_strength :: "FillStrengthPoint list"

text \<open>\<open>bi_pastBundle\<close> is the identity of a response, whose content the heap \<open>bundles\<close> gives.\<close>

record BuildHogaSeriesInput =
  bi_venue :: string
  bi_open_ms :: ms
  bi_close_ms :: ms
  bi_pastBundle :: "nat option"
  bi_sseOb :: "nat list"
  bi_sseTrade :: "nat list"
  bi_bucketMs :: ms
  bi_depthHeatmapEnabled :: bool

record HogaSeries =
  hs_quote_ratio :: "HogaPoint list"
  hs_fill_strength :: "FillStrengthPoint list"
  hs_depth_heatmap_today :: "DepthHeatmapPoint list"

record PastHogaSeries =
  ph_validPastQR :: "HogaPoint list"
  ph_validPastFS :: "FillStrengthPoint list"
  ph_pastMaxQrT :: ms
  ph_pastMaxFsT :: ms

definition preparePastHogaSeries :: "RangeBundle option \<Rightarrow> ms \<Rightarrow> PastHogaSeries" where
  "preparePastHogaSeries pastBundle todaySessionCloseMs =
     (let end = todaySessionCloseMs + 30 * 60 * 1000;
          qr = (case pastBundle of Some b \<Rightarrow> filter (\<lambda>p. qr_t p \<le> end) (rb_quote_ratio b) | None \<Rightarrow> []);
          fs = (case pastBundle of Some b \<Rightarrow> filter (\<lambda>p. fp_t p \<le> end) (rb_fill_strength b) | None \<Rightarrow> [])
      in \<lparr>ph_validPastQR = qr, ph_validPastFS = fs, ph_pastMaxQrT = (if qr = [] then 0 else qr_t (last qr)),
          ph_pastMaxFsT = (if fs = [] then 0 else fp_t (last fs))\<rparr>)"

definition stitched :: "PastHogaSeries \<Rightarrow> HogaPoint list \<Rightarrow> FillStrengthPoint list \<Rightarrow> DepthHeatmapPoint list \<Rightarrow> HogaSeries" where
  "stitched past qr fs depth = \<lparr>hs_quote_ratio = ph_validPastQR past @ filter (\<lambda>p. ph_pastMaxQrT past < qr_t p) qr,
     hs_fill_strength = ph_validPastFS past @ filter (\<lambda>p. ph_pastMaxFsT past < fp_t p) fs, hs_depth_heatmap_today = depth\<rparr>"

definition buildHogaSeries :: "(nat \<Rightarrow> ObSnapshot) \<Rightarrow> (nat \<Rightarrow> TradeSnapshot) \<Rightarrow> (nat \<Rightarrow> RangeBundle) \<Rightarrow> BuildHogaSeriesInput
    \<Rightarrow> HogaSeries option" where
  "buildHogaSeries books trades bundles i =
     (let ob = map books (bi_sseOb i); trade = map trades (bi_sseTrade i);
          past = preparePastHogaSeries (map_option bundles (bi_pastBundle i)) (bi_close_ms i)
      in case bucketHogaSeries ob trade (bi_bucketMs i) (bi_close_ms i) (bi_open_ms i) (bi_venue i) of None \<Rightarrow> None
         | Some (qr, fs) \<Rightarrow> Some (stitched past qr fs (if bi_depthHeatmapEnabled i
             then bucketDepthHeatmap ob (bi_bucketMs i) (bi_close_ms i) (bi_open_ms i) (bi_venue i) else [])))"

end
