(* ===== verification/HogaBucketer.thy ===== *)
theory HogaBucketer
  imports HogaSeries
begin

section \<open>Order book series that follow the live window\<close>

text \<open>
  The incremental half of \<open>live/buildLiveBundle.ts\<close>: \<open>IncrementalHogaBucketer\<close> and
  \<open>createIncrementalHogaSeriesBuilder\<close>, and the buffer that makes the windows,
  \<open>live/liveSnapshotBuffer.ts\<close>. An update that cannot go on from the last one rebuilds everything:
  \<open>None\<close> is that answer of \<open>locate\<close>, \<open>reconcileEviction\<close> and \<open>appendOb\<close> (whose partial effects the rebuild
  clears).
\<close>

record DepthEntry =
  de_point :: DepthHeatmapPoint
  de_maxTotal :: rat
  de_priceMax :: PriceMaxAcc

record IncrementalHogaBucketer =
  hb_venue :: string
  hb_bucketMs :: ms
  hb_sessionCloseMs :: "ms option"
  hb_sessionOpenMs :: "ms option"
  hb_depthHeatmapEnabled :: bool
  hb_obLength :: nat
  hb_tradeLength :: nat
  hb_lastObRef :: "nat option"
  hb_lastTradeRef :: "nat option"
  hb_continuousBoundaryMs :: "ms option"
  hb_continuousByBucket :: "(ms \<times> ms) list"
  hb_firstObRef :: "nat option"
  hb_firstTradeRef :: "nat option"
  hb_maxProcessedObT :: "ms option"
  hb_maxProcessedTradeT :: "ms option"
  hb_quoteByBucket :: "ms \<Rightarrow> HogaPoint option"
  hb_quoteOrder :: "ms list"
  hb_seenPre :: "ms \<Rightarrow> bool"
  hb_fillByBucket :: "ms \<Rightarrow> FillStrengthPoint option"
  hb_fillOrder :: "ms list"
  hb_depthByBucket :: "ms \<Rightarrow> DepthEntry option"
  hb_depthOrder :: "ms list"

definition newHogaBucketer :: IncrementalHogaBucketer where
  "newHogaBucketer = \<lparr>hb_venue = ''KRX'', hb_bucketMs = 0, hb_sessionCloseMs = None, hb_sessionOpenMs = None,
     hb_depthHeatmapEnabled = True, hb_obLength = 0, hb_tradeLength = 0, hb_lastObRef = None, hb_lastTradeRef = None,
     hb_continuousBoundaryMs = None, hb_continuousByBucket = [], hb_firstObRef = None, hb_firstTradeRef = None,
     hb_maxProcessedObT = None, hb_maxProcessedTradeT = None, hb_quoteByBucket = (\<lambda>_. None), hb_quoteOrder = [],
     hb_seenPre = (\<lambda>_. False), hb_fillByBucket = (\<lambda>_. None), hb_fillOrder = [], hb_depthByBucket = (\<lambda>_. None),
     hb_depthOrder = []\<rparr>"

definition hb_reset :: "ms \<Rightarrow> ms \<Rightarrow> ms \<Rightarrow> bool \<Rightarrow> IncrementalHogaBucketer \<Rightarrow> IncrementalHogaBucketer" where
  "hb_reset bucketMs sessionCloseMs sessionOpenMs depthHeatmapEnabled h = newHogaBucketer\<lparr>hb_venue := hb_venue h,
     hb_bucketMs := bucketMs, hb_sessionCloseMs := Some sessionCloseMs, hb_sessionOpenMs := Some sessionOpenMs,
     hb_depthHeatmapEnabled := depthHeatmapEnabled\<rparr>"

definition ob_bucket :: "IncrementalHogaBucketer \<Rightarrow> ObSnapshot \<Rightarrow> ms" where
  "ob_bucket h s = indicatorBucketStartMs (ob_t_ms s) (hb_bucketMs h) (hb_venue h)"

definition trade_bucket :: "IncrementalHogaBucketer \<Rightarrow> TradeSnapshot \<Rightarrow> ms" where
  "trade_bucket h s = indicatorBucketStartMs (ts_t_ms s) (hb_bucketMs h) (hb_venue h)"

definition later_of :: "ms option \<Rightarrow> ms \<Rightarrow> ms" where
  "later_of m t = (case m of None \<Rightarrow> t | Some x \<Rightarrow> max x t)"

subsection \<open>Appending\<close>

definition boundary_step :: "IncrementalHogaBucketer \<Rightarrow> ms option \<times> (ms \<times> ms) list \<Rightarrow> ObSnapshot \<Rightarrow> ms option \<times> (ms \<times> ms) list" where
  "boundary_step h nc s = (let cb = ob_bucket h s in
     if upto_time (ob_t_ms s) (hb_sessionCloseMs h) \<and> isContinuousBook s
     then (Some (later_of (fst nc) (ob_t_ms s)),
           case map_of (snd nc) cb of
             Some prevC \<Rightarrow> if prevC < ob_t_ms s then map_put cb (ob_t_ms s) (snd nc) else snd nc
           | None \<Rightarrow> map_put cb (ob_t_ms s) (snd nc))
     else nc)"

definition depth_entry :: "DepthEntry option \<Rightarrow> ObSnapshot \<Rightarrow> ms \<Rightarrow> DepthEntry" where
  "depth_entry prev s t =
     (let keepMax = (case prev of Some d \<Rightarrow> book_total s \<le> de_maxTotal d | None \<Rightarrow> False);
          acc = foldPriceMax (case prev of Some d \<Rightarrow> de_priceMax d | None \<Rightarrow> newPriceMaxAcc) s;
          asks = levels_of (ob_asks s); bids = levels_of (ob_bids s)
      in \<lparr>de_point = \<lparr>dh_tMs = t, dh_asks = asks, dh_bids = bids,
            dh_asksMax = (if keepMax then dh_asksMax (de_point (the prev)) else asks),
            dh_bidsMax = (if keepMax then dh_bidsMax (de_point (the prev)) else bids),
            dh_asksPriceMax = priceMaxLevels (pm_asks acc) Ask, dh_bidsPriceMax = priceMaxLevels (pm_bids acc) Bid\<rparr>,
          de_maxTotal = (if keepMax then de_maxTotal (the prev) else book_total s), de_priceMax = acc\<rparr>)"

definition take_depth :: "ObSnapshot \<Rightarrow> ms \<Rightarrow> IncrementalHogaBucketer \<Rightarrow> IncrementalHogaBucketer" where
  "take_depth s t h = (if has_book s \<and> hb_depthHeatmapEnabled h
     then h\<lparr>hb_depthOrder := (if hb_depthByBucket h t = None then hb_depthOrder h @ [t] else hb_depthOrder h),
            hb_depthByBucket := (hb_depthByBucket h)(t \<mapsto> depth_entry (hb_depthByBucket h t) s t)\<rparr>
     else h)"

definition is_eligible :: "IncrementalHogaBucketer \<Rightarrow> ObSnapshot \<Rightarrow> bool" where
  "is_eligible h s \<longleftrightarrow> isContinuousBook s \<and> (case hb_sessionOpenMs h of Some op \<Rightarrow> op \<le> ob_t_ms s | None \<Rightarrow> True)
     \<and> \<not> isStockIndicatorBreak (ob_t_ms s) (hb_venue h)"

definition ob_step :: "ms option \<Rightarrow> IncrementalHogaBucketer \<Rightarrow> ObSnapshot \<Rightarrow> IncrementalHogaBucketer" where
  "ob_step threshold h s =
     (let t = ob_bucket h s;
          order = (if hb_quoteByBucket h t = None then hb_quoteOrder h @ [t] else hb_quoteOrder h);
          h' = (if upto_time (ob_t_ms s) threshold \<and> is_eligible h s
                then take_depth s t (h\<lparr>hb_quoteOrder := order,
                  hb_quoteByBucket := (hb_quoteByBucket h)(t \<mapsto> ratchet_quote (hb_quoteByBucket h t) s t),
                  hb_seenPre := (hb_seenPre h)(t := True)\<rparr>)
                else if \<not> hb_seenPre h t \<and> hb_quoteByBucket h t = None
                then h\<lparr>hb_quoteOrder := order, hb_quoteByBucket := (hb_quoteByBucket h)(t \<mapsto> no_point t)\<rparr>
                else h)
      in h'\<lparr>hb_maxProcessedObT := Some (later_of (hb_maxProcessedObT h') (ob_t_ms s))\<rparr>)"

definition appendOb :: "ObSnapshot list \<Rightarrow> IncrementalHogaBucketer \<Rightarrow> IncrementalHogaBucketer option" where
  "appendOb obs h =
     (if obs = [] then Some h
      else (let oldBoundary = hb_continuousBoundaryMs h;
                nc = foldl (boundary_step h) (oldBoundary, hb_continuousByBucket h) obs;
                stale = (case (oldBoundary, fst nc, hb_maxProcessedObT h) of
                  (Some old, Some new, Some maxT) \<Rightarrow> old < new \<and> old < maxT | _ \<Rightarrow> False)
            in if stale then None
               else Some (foldl (ob_step (fst nc)) (h\<lparr>hb_continuousBoundaryMs := fst nc, hb_continuousByBucket := snd nc\<rparr>) obs)))"

definition trade_step :: "IncrementalHogaBucketer \<Rightarrow> TradeSnapshot \<Rightarrow> IncrementalHogaBucketer" where
  "trade_step h s =
     (let t = trade_bucket h s;
          bucket = (case hb_fillByBucket h t of Some p \<Rightarrow> p | None \<Rightarrow> no_fill t)
      in h\<lparr>hb_fillOrder := (if hb_fillByBucket h t = None then hb_fillOrder h @ [t] else hb_fillOrder h),
           hb_fillByBucket := (hb_fillByBucket h)(t \<mapsto> foldl add_fill bucket (ts_trades s)),
           hb_maxProcessedTradeT := Some (later_of (hb_maxProcessedTradeT h) (ts_t_ms s))\<rparr>)"

definition appendTrade :: "TradeSnapshot list \<Rightarrow> IncrementalHogaBucketer \<Rightarrow> IncrementalHogaBucketer" where
  "appendTrade snapshots h = foldl trade_step h snapshots"

subsection \<open>Going on from the last window\<close>

text \<open>The binary search of \<open>locate\<close>: the first index at or after the time of the snapshot, or \<open>at\<close>.\<close>

function seek :: "(int \<Rightarrow> bool) \<Rightarrow> int \<Rightarrow> int \<Rightarrow> int \<Rightarrow> int" where
  "seek below lo hi found = (if hi < lo then found
     else (let mid = (lo + hi) div 2 in if below mid then seek below (mid + 1) hi found else seek below lo (mid - 1) mid))"
  by auto
termination
  by (relation "measure (\<lambda>(below, lo, hi, found). nat (hi + 1 - lo))") auto

declare seek.simps [simp del]

definition locate :: "(nat \<Rightarrow> ms) \<Rightarrow> nat list \<Rightarrow> nat option \<Rightarrow> nat \<Rightarrow> int option" where
  "locate time arr ref len = (case ref of None \<Rightarrow> Some (- 1)
     | Some r \<Rightarrow> if 0 < len \<and> len \<le> length arr \<and> arr ! (len - 1) = r then Some (int len - 1)
         else (let found = seek (\<lambda>i. time (arr ! nat i) < time r) 0 (int (length arr) - 1) (- 1)
               in if found < 0 then None
                  else map_option int (find (\<lambda>i. arr ! i = r)
                    (takeWhile (\<lambda>i. time (arr ! i) = time r) [nat found..<length arr]))))"

definition evicted :: "nat option \<Rightarrow> nat list \<Rightarrow> bool" where
  "evicted first arr \<longleftrightarrow> arr \<noteq> [] \<and> first \<noteq> None \<and> first \<noteq> Some (hd arr)"

definition dropObBucketsBefore :: "ms \<Rightarrow> IncrementalHogaBucketer \<Rightarrow> IncrementalHogaBucketer" where
  "dropObBucketsBefore headBucket h = h\<lparr>
     hb_quoteByBucket := (\<lambda>t. if t < headBucket then None else hb_quoteByBucket h t),
     hb_depthByBucket := (\<lambda>t. if t < headBucket then None else hb_depthByBucket h t),
     hb_seenPre := (\<lambda>t. if t < headBucket then False else hb_seenPre h t),
     hb_continuousByBucket := filter (\<lambda>c. \<not> fst c < headBucket) (hb_continuousByBucket h),
     hb_quoteOrder := filter (\<lambda>t. headBucket \<le> t) (hb_quoteOrder h),
     hb_depthOrder := filter (\<lambda>t. headBucket \<le> t) (hb_depthOrder h)\<rparr>"

definition clearObBucket :: "ms \<Rightarrow> IncrementalHogaBucketer \<Rightarrow> IncrementalHogaBucketer" where
  "clearObBucket b h = h\<lparr>hb_quoteByBucket := (hb_quoteByBucket h)(b := None), hb_depthByBucket := (hb_depthByBucket h)(b := None),
     hb_seenPre := (hb_seenPre h)(b := False), hb_continuousByBucket := filter (\<lambda>c. fst c \<noteq> b) (hb_continuousByBucket h),
     hb_quoteOrder := filter (\<lambda>t. t \<noteq> b) (hb_quoteOrder h), hb_depthOrder := filter (\<lambda>t. t \<noteq> b) (hb_depthOrder h)\<rparr>"

definition dropFillBucketsBefore :: "ms \<Rightarrow> IncrementalHogaBucketer \<Rightarrow> IncrementalHogaBucketer" where
  "dropFillBucketsBefore headBucket h = h\<lparr>hb_fillByBucket := (\<lambda>t. if t < headBucket then None else hb_fillByBucket h t),
     hb_fillOrder := filter (\<lambda>t. headBucket \<le> t) (hb_fillOrder h)\<rparr>"

definition clearFillBucket :: "ms \<Rightarrow> IncrementalHogaBucketer \<Rightarrow> IncrementalHogaBucketer" where
  "clearFillBucket b h = h\<lparr>hb_fillByBucket := (hb_fillByBucket h)(b := None), hb_fillOrder := filter (\<lambda>t. t \<noteq> b) (hb_fillOrder h)\<rparr>"

definition refold_ob :: "ObSnapshot list \<Rightarrow> IncrementalHogaBucketer \<Rightarrow> IncrementalHogaBucketer option" where
  "refold_ob ob h = (let headBucket = ob_bucket h (hd ob)
     in appendOb (takeWhile (\<lambda>s. ob_bucket h s = headBucket) ob) (clearObBucket headBucket (dropObBucketsBefore headBucket h)))"

definition refold_trade :: "TradeSnapshot list \<Rightarrow> IncrementalHogaBucketer \<Rightarrow> IncrementalHogaBucketer" where
  "refold_trade trade h = (let headBucket = trade_bucket h (hd trade)
     in appendTrade (takeWhile (\<lambda>s. trade_bucket h s = headBucket) trade) (clearFillBucket headBucket (dropFillBucketsBefore headBucket h)))"

definition sort_orders :: "IncrementalHogaBucketer \<Rightarrow> IncrementalHogaBucketer" where
  "sort_orders h = h\<lparr>hb_quoteOrder := sort (hb_quoteOrder h), hb_fillOrder := sort (hb_fillOrder h),
     hb_depthOrder := sort (hb_depthOrder h),
     hb_continuousBoundaryMs := foldl (\<lambda>m c. Some (later_of m (snd c))) None (hb_continuousByBucket h)\<rparr>"

definition reconcileEviction :: "(nat \<Rightarrow> ObSnapshot) \<Rightarrow> (nat \<Rightarrow> TradeSnapshot) \<Rightarrow> nat list \<Rightarrow> nat list
    \<Rightarrow> IncrementalHogaBucketer \<Rightarrow> IncrementalHogaBucketer option" where
  "reconcileEviction books trades ob trade h =
     (let obEvicted = evicted (hb_firstObRef h) ob; tradeEvicted = evicted (hb_firstTradeRef h) trade
      in if \<not> obEvicted \<and> \<not> tradeEvicted then Some h
         else (case (if obEvicted then refold_ob (map books ob) h else Some h) of
             None \<Rightarrow> None
           | Some h1 \<Rightarrow> Some (sort_orders (if tradeEvicted then refold_trade (map trades trade) h1 else h1))))"

definition monotonic_from :: "ms option \<Rightarrow> ms list \<Rightarrow> bool" where
  "monotonic_from maxT ts \<longleftrightarrow> sorted (case maxT of None \<Rightarrow> ts | Some m \<Rightarrow> m # ts)"

definition rememberInputs :: "nat list \<Rightarrow> nat list \<Rightarrow> IncrementalHogaBucketer \<Rightarrow> IncrementalHogaBucketer" where
  "rememberInputs ob trade h = h\<lparr>hb_obLength := length ob, hb_tradeLength := length trade,
     hb_lastObRef := (if ob = [] then None else Some (last ob)), hb_lastTradeRef := (if trade = [] then None else Some (last trade)),
     hb_firstObRef := (if ob = [] then None else Some (hd ob)), hb_firstTradeRef := (if trade = [] then None else Some (hd trade))\<rparr>"

text \<open>
  \<open>rebuild\<close>. A copy that is sorted already is the window itself; nothing that has been reset can be
  stale.
\<close>

definition hb_rebuild :: "(nat \<Rightarrow> ObSnapshot) \<Rightarrow> (nat \<Rightarrow> TradeSnapshot) \<Rightarrow> nat list \<Rightarrow> nat list \<Rightarrow> ms \<Rightarrow> ms \<Rightarrow> ms \<Rightarrow> bool \<Rightarrow> string
    \<Rightarrow> IncrementalHogaBucketer \<Rightarrow> IncrementalHogaBucketer" where
  "hb_rebuild books trades ob trade bucketMs sessionCloseMs sessionOpenMs depthHeatmapEnabled venue h =
     (let h0 = hb_reset bucketMs sessionCloseMs sessionOpenMs depthHeatmapEnabled (h\<lparr>hb_venue := venue\<rparr>);
          h1 = (case appendOb (sort_key ob_t_ms (map books ob)) h0 of Some h1 \<Rightarrow> h1 | None \<Rightarrow> h0)
      in rememberInputs ob trade (appendTrade (sort_key ts_t_ms (map trades trade)) h1))"

definition hb_advance :: "(nat \<Rightarrow> ObSnapshot) \<Rightarrow> (nat \<Rightarrow> TradeSnapshot) \<Rightarrow> nat list \<Rightarrow> nat list
    \<Rightarrow> IncrementalHogaBucketer \<Rightarrow> IncrementalHogaBucketer option" where
  "hb_advance books trades ob trade h =
     (case (locate (\<lambda>r. ob_t_ms (books r)) ob (hb_lastObRef h) (hb_obLength h),
            locate (\<lambda>r. ts_t_ms (trades r)) trade (hb_lastTradeRef h) (hb_tradeLength h)) of
       (Some obAt, Some tradeAt) \<Rightarrow> (case reconcileEviction books trades ob trade h of
           None \<Rightarrow> None
         | Some h1 \<Rightarrow>
             (let obDelta = map books (drop (nat (obAt + 1)) ob); tradeDelta = map trades (drop (nat (tradeAt + 1)) trade)
              in if \<not> monotonic_from (hb_maxProcessedObT h1) (map ob_t_ms obDelta)
                    \<or> \<not> monotonic_from (hb_maxProcessedTradeT h1) (map ts_t_ms tradeDelta) then None
                 else map_option (\<lambda>h2. rememberInputs ob trade (appendTrade tradeDelta h2)) (appendOb obDelta h1)))
     | _ \<Rightarrow> None)"

definition hb_update :: "(nat \<Rightarrow> ObSnapshot) \<Rightarrow> (nat \<Rightarrow> TradeSnapshot) \<Rightarrow> nat list \<Rightarrow> nat list \<Rightarrow> ms \<Rightarrow> ms \<Rightarrow> ms \<Rightarrow> bool \<Rightarrow> string
    \<Rightarrow> IncrementalHogaBucketer \<Rightarrow> IncrementalHogaBucketer" where
  "hb_update books trades ob trade bucketMs sessionCloseMs sessionOpenMs depthHeatmapEnabled venue h =
     (let rebuilt = hb_rebuild books trades ob trade bucketMs sessionCloseMs sessionOpenMs depthHeatmapEnabled venue h
      in if hb_venue h \<noteq> venue \<or> hb_bucketMs h \<noteq> bucketMs \<or> hb_sessionCloseMs h \<noteq> Some sessionCloseMs
            \<or> hb_sessionOpenMs h \<noteq> Some sessionOpenMs \<or> hb_depthHeatmapEnabled h \<noteq> depthHeatmapEnabled
         then rebuilt
         else (case hb_advance books trades ob trade h of Some h' \<Rightarrow> h' | None \<Rightarrow> rebuilt))"

definition hb_quotes :: "IncrementalHogaBucketer \<Rightarrow> HogaPoint list" where
  "hb_quotes h = map (\<lambda>t. the (hb_quoteByBucket h t)) (hb_quoteOrder h)"

definition hb_fills :: "IncrementalHogaBucketer \<Rightarrow> FillStrengthPoint list" where
  "hb_fills h = map (\<lambda>t. the (hb_fillByBucket h t)) (hb_fillOrder h)"

definition hb_depth :: "IncrementalHogaBucketer \<Rightarrow> DepthHeatmapPoint list" where
  "hb_depth h = map (\<lambda>t. de_point (the (hb_depthByBucket h t))) (hb_depthOrder h)"

subsection \<open>The builder\<close>

text \<open>\<open>gb_pastBundleRef\<close> is \<open>None\<close> before the first call, \<open>Some None\<close> for a \<open>null\<close>.\<close>

record HogaSeriesBuilder =
  gb_bucketer :: IncrementalHogaBucketer
  gb_pastBundleRef :: "nat option option"
  gb_pastSessionCloseMs :: ms
  gb_past :: PastHogaSeries

definition createIncrementalHogaSeriesBuilder :: HogaSeriesBuilder where
  "createIncrementalHogaSeriesBuilder = \<lparr>gb_bucketer = newHogaBucketer, gb_pastBundleRef = None, gb_pastSessionCloseMs = 0,
     gb_past = \<lparr>ph_validPastQR = [], ph_validPastFS = [], ph_pastMaxQrT = 0, ph_pastMaxFsT = 0\<rparr>\<rparr>"

definition build_next :: "(nat \<Rightarrow> ObSnapshot) \<Rightarrow> (nat \<Rightarrow> TradeSnapshot) \<Rightarrow> (nat \<Rightarrow> RangeBundle) \<Rightarrow> BuildHogaSeriesInput
    \<Rightarrow> HogaSeriesBuilder \<Rightarrow> HogaSeriesBuilder" where
  "build_next books trades bundles i g =
     (let g1 = (if gb_pastBundleRef g \<noteq> Some (bi_pastBundle i) \<or> gb_pastSessionCloseMs g \<noteq> bi_close_ms i
            then g\<lparr>gb_pastBundleRef := Some (bi_pastBundle i), gb_pastSessionCloseMs := bi_close_ms i,
                   gb_past := preparePastHogaSeries (map_option bundles (bi_pastBundle i)) (bi_close_ms i)\<rparr>
            else g)
      in g1\<lparr>gb_bucketer := hb_update books trades (bi_sseOb i) (bi_sseTrade i) (bi_bucketMs i) (bi_close_ms i) (bi_open_ms i)
              (bi_depthHeatmapEnabled i) (bi_venue i) (gb_bucketer g1)\<rparr>)"

definition built_series :: "HogaSeriesBuilder \<Rightarrow> HogaSeries" where
  "built_series g = stitched (gb_past g) (hb_quotes (gb_bucketer g)) (hb_fills (gb_bucketer g)) (hb_depth (gb_bucketer g))"

subsection \<open>The live buffer\<close>

datatype SnapshotKind = ObKind | TradeKind | BrokerKind | ProgramKind | AhKind | ExpectedKind

definition RETENTION_MS :: ms where "RETENTION_MS = 15 * 60000"
definition MAX_BUFFER_PER_KIND :: nat where "MAX_BUFFER_PER_KIND = 60000"

text \<open>Entries are positions in the stream; a cached copy that was invalidated is \<open>None\<close>.\<close>

record LiveSnapshotBuffer =
  lb_byKind :: "SnapshotKind \<Rightarrow> nat list"
  lb_snapshot :: "SnapshotKind \<Rightarrow> nat list option"

definition newLiveSnapshotBuffer :: LiveSnapshotBuffer where
  "newLiveSnapshotBuffer = \<lparr>lb_byKind = (\<lambda>_. []), lb_snapshot = (\<lambda>_. Some [])\<rparr>"

definition evictOld :: "(nat \<Rightarrow> ms) \<Rightarrow> ms \<Rightarrow> nat list \<Rightarrow> nat list" where
  "evictOld time nowMs arr = dropWhile (\<lambda>r. time r < nowMs - RETENTION_MS) arr"

definition cap_buffer :: "nat list \<Rightarrow> nat list" where
  "cap_buffer arr = drop (length arr - MAX_BUFFER_PER_KIND) arr"

text \<open>\<open>kind\<close> is \<open>None\<close> for a kind that is not in the list.\<close>

definition push :: "(nat \<Rightarrow> ms) \<Rightarrow> SnapshotKind option \<Rightarrow> nat \<Rightarrow> LiveSnapshotBuffer \<Rightarrow> LiveSnapshotBuffer" where
  "push time kind entry b = (case kind of None \<Rightarrow> b
     | Some k \<Rightarrow> b\<lparr>lb_byKind := (lb_byKind b)(k := cap_buffer (evictOld time (time entry) (lb_byKind b k @ [entry]))),
                   lb_snapshot := (lb_snapshot b)(k := None)\<rparr>)"

definition hydrate_buffer :: "(SnapshotKind \<Rightarrow> nat list) \<Rightarrow> LiveSnapshotBuffer \<Rightarrow> LiveSnapshotBuffer" where
  "hydrate_buffer initial b = b\<lparr>lb_byKind := (\<lambda>k. cap_buffer (initial k)), lb_snapshot := (\<lambda>_. None)\<rparr>"

definition get_kind :: "SnapshotKind \<Rightarrow> LiveSnapshotBuffer \<Rightarrow> nat list \<times> LiveSnapshotBuffer" where
  "get_kind k b = (case lb_snapshot b k of
     Some arr \<Rightarrow> (arr, b)
   | None \<Rightarrow> (lb_byKind b k, b\<lparr>lb_snapshot := (lb_snapshot b)(k \<mapsto> lb_byKind b k)\<rparr>))"

definition clear_buffer :: "LiveSnapshotBuffer \<Rightarrow> LiveSnapshotBuffer" where
  "clear_buffer b = b\<lparr>lb_byKind := (\<lambda>_. []), lb_snapshot := (\<lambda>_. None)\<rparr>"

end
