(* ===== verification/HogaLaws.thy ===== *)
theory HogaLaws
  imports HogaBucketer
begin

section \<open>Order book series: the windows and the batch\<close>

text \<open>
  Both computations fold each bucket of time by itself and list the buckets that have an entry. The
  locale \<open>bucketed_series\<close> says so once, for a step \<open>f\<close> on the entry of a bucket; it is interpreted for
  the totals, the traded quantities and the depth. \<open>book_ok\<close> and \<open>fill_ok\<close> state that the accumulator
  holds these folds over the last window.
\<close>

subsection \<open>Folding by bucket\<close>

type_synonym 's buckets = "(ms \<Rightarrow> 's option) \<times> ms list"

definition put_bucket :: "('a \<Rightarrow> ms) \<Rightarrow> (ms \<Rightarrow> 's option \<Rightarrow> 'a \<Rightarrow> 's option) \<Rightarrow> 's buckets \<Rightarrow> 'a \<Rightarrow> 's buckets" where
  "put_bucket key f mo x = (let k = key x; v = f k (fst mo k) x
     in ((fst mo)(k := v), if fst mo k = None \<and> v \<noteq> None then snd mo @ [k] else snd mo))"

definition put_assoc :: "('a \<Rightarrow> ms) \<Rightarrow> (ms \<Rightarrow> 's option \<Rightarrow> 'a \<Rightarrow> 's option) \<Rightarrow> (ms \<times> 's) list \<Rightarrow> 'a \<Rightarrow> (ms \<times> 's) list" where
  "put_assoc key f al x = (case f (key x) (map_of al (key x)) x of Some v \<Rightarrow> map_put (key x) v al | None \<Rightarrow> al)"

definition entries :: "'s buckets \<Rightarrow> bool" where
  "entries mo \<longleftrightarrow> distinct (snd mo) \<and> set (snd mo) = {k. fst mo k \<noteq> None}"

definition cut_buckets :: "ms \<Rightarrow> 's buckets \<Rightarrow> 's buckets" where
  "cut_buckets head mo = ((\<lambda>k. if k < head then None else if k = head then None else fst mo k), filter (\<lambda>k. head < k) (snd mo))"

definition sort_buckets :: "'s buckets \<Rightarrow> 's buckets" where
  "sort_buckets mo = (fst mo, sort (snd mo))"

abbreviation no_buckets :: "'s buckets" where
  "no_buckets \<equiv> (\<lambda>_. None, [])"

lemma map_of_put: "map_of (map_put k v al) = (map_of al)(k \<mapsto> v)"
  by (induction al) (auto simp: fun_eq_iff)

lemma keys_put: "map fst (map_put k v al) = (if map_of al k = None then map fst al @ [k] else map fst al)"
  by (induction al) auto

lemma set_put: "set (map_put k v al) \<subseteq> insert (k, v) (set al)"
  by (induction al) (auto split: if_splits)

lemma put_same: "map_of al k = Some v \<Longrightarrow> map_put k v al = al"
  by (induction al) (auto split: if_splits)

lemma values_of: "distinct (map fst al) \<Longrightarrow> map snd al = map (\<lambda>k. the (map_of al k)) (map fst al)"
  by auto

locale bucketed_series =
  fixes key :: "'a \<Rightarrow> ms" and f :: "ms \<Rightarrow> 's option \<Rightarrow> 'a \<Rightarrow> 's option"
  assumes kept: "f k (Some p) x \<noteq> None"
begin

lemma fold_bucket: "fst (foldl (put_bucket key f) mo xs) k = foldl (f k) (fst mo k) (filter (\<lambda>x. key x = k) xs)"
  by (induction xs arbitrary: mo) (auto simp: put_bucket_def Let_def)

lemma put_entries: "entries mo \<Longrightarrow> entries (put_bucket key f mo x)"
  using kept [of "key x"] by (cases "fst mo (key x)") (auto simp: entries_def put_bucket_def Let_def)

lemma fold_entries: "entries mo \<Longrightarrow> entries (foldl (put_bucket key f) mo xs)"
  by (induction xs arbitrary: mo) (simp_all add: put_entries)

lemma fold_keys: "set (snd (foldl (put_bucket key f) mo xs)) \<subseteq> set (snd mo) \<union> key ` set xs"
proof (induction xs arbitrary: mo)
  case (Cons x xs)
  have "set (snd (put_bucket key f mo x)) \<subseteq> insert (key x) (set (snd mo))" by (auto simp: put_bucket_def Let_def)
  then show ?case using Cons [of "put_bucket key f mo x"] by fastforce
qed simp

lemma fold_sorted:
  "sorted (snd mo) \<Longrightarrow> sorted (map key xs) \<Longrightarrow> (\<And>k x. k \<in> set (snd mo) \<Longrightarrow> x \<in> set xs \<Longrightarrow> k \<le> key x)
    \<Longrightarrow> sorted (snd (foldl (put_bucket key f) mo xs))"
proof (induction xs arbitrary: mo)
  case (Cons x xs)
  have "sorted (snd (put_bucket key f mo x))"
    using Cons.prems(1,3) by (simp add: put_bucket_def Let_def sorted_append)
  moreover have "k \<le> key y" if "k \<in> set (snd (put_bucket key f mo x))" "y \<in> set xs" for k y
    using that Cons.prems(2,3) by (auto simp: put_bucket_def Let_def split: if_splits)
  ultimately show ?case using Cons.IH [of "put_bucket key f mo x"] Cons.prems(2) by simp
qed simp

lemma assoc_fold:
  "map_of al = fst mo \<Longrightarrow> map fst al = snd mo \<Longrightarrow>
    map_of (foldl (put_assoc key f) al xs) = fst (foldl (put_bucket key f) mo xs)
    \<and> map fst (foldl (put_assoc key f) al xs) = snd (foldl (put_bucket key f) mo xs)"
proof (induction xs arbitrary: al mo)
  case (Cons x xs)
  let ?al = "put_assoc key f al x" and ?mo = "put_bucket key f mo x"
  have "map_of ?al = fst ?mo \<and> map fst ?al = snd ?mo"
  proof (cases "f (key x) (fst mo (key x)) x")
    case None
    then have "fst mo (key x) = None" using kept [of "key x"] by (cases "fst mo (key x)") auto
    then have "(fst mo)(key x := None) = fst mo" by auto
    then show ?thesis using None Cons.prems by (simp add: put_assoc_def put_bucket_def Let_def)
  next
    case (Some v)
    then show ?thesis using Cons.prems by (simp add: put_assoc_def put_bucket_def Let_def map_of_put keys_put)
  qed
  then show ?case using Cons.IH [of ?al ?mo] by simp
qed simp

text \<open>The list the batch makes is what the accumulator lists.\<close>

lemma batch_values:
  "map snd (foldl (put_assoc key f) [] xs)
    = (let mo = foldl (put_bucket key f) no_buckets xs in map (\<lambda>k. the (fst mo k)) (snd mo))"
proof -
  let ?al = "foldl (put_assoc key f) [] xs" and ?mo = "foldl (put_bucket key f) no_buckets xs"
  have same: "map_of ?al = fst ?mo" "map fst ?al = snd ?mo" using assoc_fold [of "[]" no_buckets xs] by simp_all
  have "entries ?mo" by (rule fold_entries) (simp add: entries_def)
  then have "distinct (map fst ?al)" using same(2) by (simp add: entries_def)
  then show ?thesis using values_of [of ?al] same by (simp add: Let_def)
qed

lemma batch_sorted: "sorted (map key xs) \<Longrightarrow> sorted (map fst (foldl (put_assoc key f) [] xs))"
  using assoc_fold [of "[]" no_buckets xs] fold_sorted [of no_buckets xs] by simp

lemma values_satisfy:
  assumes step: "\<And>k p x v. (\<And>q. p = Some q \<Longrightarrow> P k q) \<Longrightarrow> f k p x = Some v \<Longrightarrow> P k v"
  shows "(\<And>k v. (k, v) \<in> set al \<Longrightarrow> P k v) \<Longrightarrow> (k, v) \<in> set (foldl (put_assoc key f) al xs) \<Longrightarrow> P k v"
proof (induction xs arbitrary: al)
  case (Cons x xs)
  have "P k' v'" if "(k', v') \<in> set (put_assoc key f al x)" for k' v'
  proof (cases "f (key x) (map_of al (key x)) x")
    case None
    then show ?thesis using that Cons.prems(1) by (simp add: put_assoc_def)
  next
    case (Some w)
    have "P (key x) w" by (rule step [OF _ Some]) (use Cons.prems(1) map_of_SomeD in fast)
    then show ?thesis using that Cons.prems(1) set_put [of "key x" w al] by (auto simp: put_assoc_def Some)
  qed
  then show ?case using Cons.IH [of "put_assoc key f al x"] Cons.prems(2) by simp
qed simp

text \<open>Any list of the buckets with an entry that is in order is that of the batch.\<close>

lemma the_order:
  assumes "entries mo" "sorted (snd mo)" "sorted (map key xs)" "fst mo = fst (foldl (put_bucket key f) no_buckets xs)"
  shows "mo = foldl (put_bucket key f) no_buckets xs"
proof -
  let ?mo = "foldl (put_bucket key f) no_buckets xs"
  have "entries ?mo" by (rule fold_entries) (simp add: entries_def)
  moreover have "sorted (snd ?mo)" by (rule fold_sorted) (use assms(3) in simp_all)
  ultimately have "snd mo = snd ?mo"
    using assms(1,2,4) sorted_distinct_set_unique unfolding entries_def by metis
  then show ?thesis using assms(4) by (simp add: prod_eq_iff)
qed

text \<open>
  A window whose first elements leave while new ones arrive: the buckets before that of the new first
  element are dropped and its own is folded again from the new window, before the new elements are
  appended. The result is the new window's, when folding the new elements of the head bucket a second
  time changes nothing.
\<close>

lemma slid_keys:
  assumes ordered: "sorted (map key (ys @ x # xs @ ds))"
    and mo: "mo = foldl (put_bucket key f) no_buckets (ys @ x # xs)"
    and refold: "mo2 = foldl (put_bucket key f) (cut_buckets (key x) mo) (filter (\<lambda>y. key y = key x) (x # xs @ ds))"
    and k: "k \<in> set (snd mo2)" and d: "d \<in> set ds"
  shows "k \<le> key d"
proof -
  have "key ` set (filter (\<lambda>y. key y = key x) (x # xs @ ds)) \<subseteq> {key x}"
    by (rule image_subsetI) (simp only: set_filter mem_Collect_eq singleton_iff)
  moreover have "set (snd (cut_buckets (key x) mo)) \<subseteq> set (snd mo)" by (auto simp: cut_buckets_def)
  ultimately have "set (snd mo2) \<subseteq> insert (key x) (key ` set (ys @ x # xs))"
    using fold_keys [of "cut_buckets (key x) mo" "filter (\<lambda>y. key y = key x) (x # xs @ ds)"] fold_keys [of no_buckets "ys @ x # xs"]
    unfolding refold [symmetric] mo [symmetric] by (simp only: snd_conv list.set(1)) blast
  then have "k \<in> key ` set (ys @ x # xs)" using k by auto
  moreover have "key y \<le> key d" if "y \<in> set (ys @ x # xs)" for y using ordered that d by (auto simp: sorted_append)
  ultimately show ?thesis by blast
qed

lemma slid_values:
  assumes ordered: "sorted (map key (ys @ x # xs @ ds))"
    and mo: "mo = foldl (put_bucket key f) no_buckets (ys @ x # xs)"
    and refold: "mo2 = foldl (put_bucket key f) (cut_buckets (key x) mo) (filter (\<lambda>y. key y = key x) (x # xs @ ds))"
  shows "fst mo2 k = foldl (f k) None (filter (\<lambda>y. key y = k) (if k = key x then x # xs @ ds else x # xs))"
proof (cases "k = key x")
  case True
  then show ?thesis unfolding refold fold_bucket by (simp add: cut_buckets_def)
next
  case False
  have "fst mo2 k = fst (cut_buckets (key x) mo) k" unfolding refold fold_bucket using False by (auto simp: filter_empty_conv)
  also have "\<dots> = foldl (f k) None (filter (\<lambda>y. key y = k) (x # xs))"
  proof (cases "k < key x")
    case True
    then have "filter (\<lambda>y. key y = k) (x # xs) = []" using ordered by (force simp: sorted_append filter_empty_conv)
    then show ?thesis using True by (simp only: cut_buckets_def fst_conv if_True foldl_Nil)
  next
    case large: False
    then have "filter (\<lambda>y. key y = k) ys = []" using ordered False by (force simp: sorted_append filter_empty_conv)
    then have "fst mo k = foldl (f k) None (filter (\<lambda>y. key y = k) (x # xs))" unfolding mo fold_bucket by simp
    then show ?thesis using large False by (simp add: cut_buckets_def)
  qed
  finally show ?thesis using False by simp
qed

lemma slide_buckets:
  assumes ordered: "sorted (map key (ys @ x # xs @ ds))"
    and mo: "mo = foldl (put_bucket key f) no_buckets (ys @ x # xs)"
    and refold: "mo2 = foldl (put_bucket key f) (cut_buckets (key x) mo) (filter (\<lambda>y. key y = key x) (x # xs @ ds))"
    and again: "foldl (f (key x)) (foldl (f (key x)) None (filter (\<lambda>y. key y = key x) (x # xs @ ds))) (filter (\<lambda>y. key y = key x) ds)
      = foldl (f (key x)) None (filter (\<lambda>y. key y = key x) (x # xs @ ds))"
  shows "foldl (put_bucket key f) (sort_buckets mo2) ds = foldl (put_bucket key f) no_buckets (x # xs @ ds)"
proof (rule the_order)
  have "entries mo" unfolding mo by (rule fold_entries) (simp add: entries_def)
  then have "entries (cut_buckets (key x) mo)" by (auto simp: cut_buckets_def entries_def)
  then have "entries mo2" unfolding refold by (rule fold_entries)
  then have "entries (sort_buckets mo2)" by (simp add: entries_def sort_buckets_def)
  then show "entries (foldl (put_bucket key f) (sort_buckets mo2) ds)" by (rule fold_entries)
  show "sorted (snd (foldl (put_bucket key f) (sort_buckets mo2) ds))"
    by (rule fold_sorted) (use ordered slid_keys [OF ordered mo refold] in \<open>simp_all add: sort_buckets_def sorted_append\<close>)
  show "sorted (map key (x # xs @ ds))" using ordered by (simp add: sorted_append)
  have "fst (foldl (put_bucket key f) (sort_buckets mo2) ds) k = foldl (f k) None (filter (\<lambda>y. key y = k) (x # xs @ ds))" for k
    unfolding fold_bucket sort_buckets_def fst_conv slid_values [OF ordered mo refold] using again by (cases "k = key x") simp_all
  then show "fst (foldl (put_bucket key f) (sort_buckets mo2) ds) = fst (foldl (put_bucket key f) no_buckets (x # xs @ ds))"
    unfolding fold_bucket [of no_buckets] by (simp add: fun_eq_iff fold_bucket)
qed

end

subsection \<open>The three series\<close>

definition quote_f :: "(ObSnapshot \<Rightarrow> bool) \<Rightarrow> ms \<Rightarrow> HogaPoint option \<Rightarrow> ObSnapshot \<Rightarrow> HogaPoint option" where
  "quote_f valid t prev s = Some (if valid s then ratchet_quote prev s t else (case prev of Some p \<Rightarrow> p | None \<Rightarrow> no_point t))"

definition depth_f :: "(ObSnapshot \<Rightarrow> bool) \<Rightarrow> ms \<Rightarrow> DepthEntry option \<Rightarrow> ObSnapshot \<Rightarrow> DepthEntry option" where
  "depth_f valid t prev s = (if valid s \<and> has_book s then Some (depth_entry prev s t) else prev)"

definition book_f :: "(ObSnapshot \<Rightarrow> bool) \<Rightarrow> ms \<Rightarrow> DepthBucket option \<Rightarrow> ObSnapshot \<Rightarrow> DepthBucket option" where
  "book_f valid t prev s = (if valid s \<and> has_book s then Some (depth_bucket prev s) else prev)"

definition fill_f :: "ms \<Rightarrow> FillStrengthPoint option \<Rightarrow> TradeSnapshot \<Rightarrow> FillStrengthPoint option" where
  "fill_f t prev s = Some (foldl add_fill (case prev of Some p \<Rightarrow> p | None \<Rightarrow> no_fill t) (ts_trades s))"

interpretation quotes: bucketed_series "\<lambda>s. indicatorBucketStartMs (ob_t_ms s) b v" "quote_f valid" for b v valid
  by unfold_locales (simp add: quote_f_def)

interpretation depths: bucketed_series "\<lambda>s. indicatorBucketStartMs (ob_t_ms s) b v" "depth_f valid" for b v valid
  by unfold_locales (simp add: depth_f_def)

interpretation batch_depths: bucketed_series "\<lambda>s. indicatorBucketStartMs (ob_t_ms s) b v" "book_f valid" for b v valid
  by unfold_locales (simp add: book_f_def)

interpretation fills: bucketed_series "\<lambda>s. indicatorBucketStartMs (ts_t_ms s) b v" fill_f for b v
  by unfold_locales (simp add: fill_f_def)

subsection \<open>Appending\<close>

definition quotes_of :: "IncrementalHogaBucketer \<Rightarrow> HogaPoint buckets" where
  "quotes_of h = (hb_quoteByBucket h, hb_quoteOrder h)"

definition depths_of :: "IncrementalHogaBucketer \<Rightarrow> DepthEntry buckets" where
  "depths_of h = (hb_depthByBucket h, hb_depthOrder h)"

definition fills_of :: "IncrementalHogaBucketer \<Rightarrow> FillStrengthPoint buckets" where
  "fills_of h = (hb_fillByBucket h, hb_fillOrder h)"

definition seen_ok :: "IncrementalHogaBucketer \<Rightarrow> bool" where
  "seen_ok h \<longleftrightarrow> (\<forall>t. hb_seenPre h t \<longrightarrow> hb_quoteByBucket h t \<noteq> None)"

text \<open>What a window is folded with, and which part of the state an append leaves alone.\<close>

definition same_params :: "IncrementalHogaBucketer \<Rightarrow> IncrementalHogaBucketer \<Rightarrow> bool" where
  "same_params h h' \<longleftrightarrow> hb_venue h' = hb_venue h \<and> hb_bucketMs h' = hb_bucketMs h \<and> hb_sessionCloseMs h' = hb_sessionCloseMs h
     \<and> hb_sessionOpenMs h' = hb_sessionOpenMs h \<and> hb_depthHeatmapEnabled h' = hb_depthHeatmapEnabled h"

lemma same_paramsD:
  assumes "same_params h h'"
  shows "ob_bucket h' = ob_bucket h" "trade_bucket h' = trade_bucket h" "is_eligible h' = is_eligible h"
    "hb_depthHeatmapEnabled h' = hb_depthHeatmapEnabled h" "hb_sessionCloseMs h' = hb_sessionCloseMs h"
    "boundary_step h' = boundary_step h" "hb_bucketMs h' = hb_bucketMs h" "hb_venue h' = hb_venue h"
proof -
  show ob: "ob_bucket h' = ob_bucket h" using assms by (simp add: same_params_def ob_bucket_def fun_eq_iff)
  show "boundary_step h' = boundary_step h"
    unfolding boundary_step_def ob using assms by (simp add: same_params_def)
qed (use assms in \<open>auto simp: same_params_def trade_bucket_def is_eligible_def fun_eq_iff\<close>)

lemma same_params_refl [simp]: "same_params h h"
  by (simp add: same_params_def)

lemma same_params_trans: "same_params g h \<Longrightarrow> same_params h k \<Longrightarrow> same_params g k"
  by (simp add: same_params_def)

definition with_depth :: "IncrementalHogaBucketer \<Rightarrow> ObSnapshot \<Rightarrow> bool" where
  "with_depth h s \<longleftrightarrow> is_eligible h s \<and> hb_depthHeatmapEnabled h"

lemma take_depth_fields:
  "hb_quoteByBucket (take_depth s t h) = hb_quoteByBucket h" "hb_quoteOrder (take_depth s t h) = hb_quoteOrder h"
  "hb_seenPre (take_depth s t h) = hb_seenPre h" "hb_fillByBucket (take_depth s t h) = hb_fillByBucket h"
  "hb_fillOrder (take_depth s t h) = hb_fillOrder h" "same_params h (take_depth s t h)"
  by (simp_all add: take_depth_def same_params_def)

lemma take_depth_depths:
  "depths_of (take_depth s t h) = (if has_book s \<and> hb_depthHeatmapEnabled h
     then ((hb_depthByBucket h)(t \<mapsto> depth_entry (hb_depthByBucket h t) s t),
           if hb_depthByBucket h t = None then hb_depthOrder h @ [t] else hb_depthOrder h) else depths_of h)"
  by (simp add: take_depth_def depths_of_def)

lemma ob_step_ok:
  assumes "seen_ok h" "is_eligible h s \<Longrightarrow> upto_time (ob_t_ms s) threshold"
  shows "quotes_of (ob_step threshold h s) = put_bucket (ob_bucket h) (quote_f (is_eligible h)) (quotes_of h) s"
    and "depths_of (ob_step threshold h s) = put_bucket (ob_bucket h) (depth_f (with_depth h)) (depths_of h) s"
    and "seen_ok (ob_step threshold h s)" "same_params h (ob_step threshold h s)" "fills_of (ob_step threshold h s) = fills_of h"
proof -
  let ?t = "ob_bucket h s" and ?h' = "ob_step threshold h s"
  have "quotes_of ?h' = put_bucket (ob_bucket h) (quote_f (is_eligible h)) (quotes_of h) s
    \<and> depths_of ?h' = put_bucket (ob_bucket h) (depth_f (with_depth h)) (depths_of h) s
    \<and> seen_ok ?h' \<and> same_params h ?h' \<and> fills_of ?h' = fills_of h"
  proof (cases "is_eligible h s")
    case True
    let ?g = "h\<lparr>hb_quoteOrder := (if hb_quoteByBucket h ?t = None then hb_quoteOrder h @ [?t] else hb_quoteOrder h),
        hb_quoteByBucket := (hb_quoteByBucket h)(?t \<mapsto> ratchet_quote (hb_quoteByBucket h ?t) s ?t),
        hb_seenPre := (hb_seenPre h)(?t := True)\<rparr>"
    have h': "?h' = (take_depth s ?t ?g)\<lparr>hb_maxProcessedObT := Some (later_of (hb_maxProcessedObT (take_depth s ?t ?g)) (ob_t_ms s))\<rparr>"
      using True assms(2) by (simp add: ob_step_def Let_def)
    have fields: "quotes_of ?h' = quotes_of ?g" "depths_of ?h' = depths_of (take_depth s ?t ?g)" "hb_seenPre ?h' = hb_seenPre ?g"
      "hb_quoteByBucket ?h' = hb_quoteByBucket ?g" "fills_of ?h' = fills_of ?g"
      unfolding h' by (simp_all add: quotes_of_def depths_of_def fills_of_def take_depth_fields)
    have "quotes_of ?h' = put_bucket (ob_bucket h) (quote_f (is_eligible h)) (quotes_of h) s"
      using True fields(1) by (simp add: quotes_of_def put_bucket_def quote_f_def Let_def)
    moreover have "depths_of ?h' = put_bucket (ob_bucket h) (depth_f (with_depth h)) (depths_of h) s"
      unfolding fields(2) take_depth_depths by (auto simp: depths_of_def put_bucket_def depth_f_def with_depth_def True Let_def)
    moreover have "seen_ok ?h'" using assms(1) fields(3,4) by (simp add: seen_ok_def)
    moreover have "same_params h ?h'" unfolding h' by (simp add: same_params_def take_depth_def)
    moreover have "fills_of ?h' = fills_of h" using fields(5) by (simp add: fills_of_def)
    ultimately show ?thesis by blast
  next
    case False
    have seen: "hb_seenPre h ?t \<Longrightarrow> hb_quoteByBucket h ?t \<noteq> None" using assms(1) by (simp add: seen_ok_def)
    have "depth_f (with_depth h) ?t p s = p" for p using False by (simp add: depth_f_def with_depth_def)
    then have d: "put_bucket (ob_bucket h) (depth_f (with_depth h)) (depths_of h) s = depths_of h"
      by (cases "hb_depthByBucket h ?t") (auto simp: put_bucket_def depths_of_def Let_def)
    show ?thesis
    proof (cases "hb_quoteByBucket h ?t")
      case None
      then show ?thesis using False seen assms(1) d
        by (auto simp: ob_step_def Let_def quotes_of_def depths_of_def fills_of_def put_bucket_def quote_f_def seen_ok_def same_params_def)
    next
      case (Some p)
      then have "(hb_quoteByBucket h)(?t \<mapsto> p) = hb_quoteByBucket h" by auto
      then show ?thesis using False Some seen assms(1) d
        by (simp add: ob_step_def Let_def quotes_of_def depths_of_def fills_of_def put_bucket_def quote_f_def seen_ok_def same_params_def)
    qed
  qed
  then show "quotes_of ?h' = put_bucket (ob_bucket h) (quote_f (is_eligible h)) (quotes_of h) s"
    "depths_of ?h' = put_bucket (ob_bucket h) (depth_f (with_depth h)) (depths_of h) s"
    "seen_ok ?h'" "same_params h ?h'" "fills_of ?h' = fills_of h" by blast+
qed

lemma with_depth_same: "same_params h h' \<Longrightarrow> with_depth h' = with_depth h"
  using same_paramsD(3,4) [of h h'] by (simp add: with_depth_def fun_eq_iff)

lemma ob_steps_ok:
  assumes "seen_ok h" "\<And>s. s \<in> set obs \<Longrightarrow> is_eligible h s \<Longrightarrow> upto_time (ob_t_ms s) threshold"
  shows "quotes_of (foldl (ob_step threshold) h obs) = foldl (put_bucket (ob_bucket h) (quote_f (is_eligible h))) (quotes_of h) obs
    \<and> depths_of (foldl (ob_step threshold) h obs) = foldl (put_bucket (ob_bucket h) (depth_f (with_depth h))) (depths_of h) obs
    \<and> seen_ok (foldl (ob_step threshold) h obs) \<and> same_params h (foldl (ob_step threshold) h obs)
    \<and> fills_of (foldl (ob_step threshold) h obs) = fills_of h"
  using assms
proof (induction obs arbitrary: h)
  case (Cons s obs)
  note step = ob_step_ok [OF Cons.prems(1), of s threshold]
  let ?h = "ob_step threshold h s"
  have ok: "seen_ok ?h" "same_params h ?h" using step(3,4) Cons.prems(2) by simp_all
  note same = same_paramsD [OF ok(2)] with_depth_same [OF ok(2)]
  have "quotes_of ?h = put_bucket (ob_bucket h) (quote_f (is_eligible h)) (quotes_of h) s"
    "depths_of ?h = put_bucket (ob_bucket h) (depth_f (with_depth h)) (depths_of h) s" "fills_of ?h = fills_of h"
    using step(1,2,5) Cons.prems(2) by simp_all
  then show ?case
    using Cons.IH [OF ok(1)] Cons.prems(2) same_params_trans [OF ok(2)] unfolding same by simp
qed simp

lemma boundary_covers:
  "s \<in> set obs \<or> (\<exists>b. fst nc = Some b \<and> ob_t_ms s \<le> b) \<Longrightarrow> upto_time (ob_t_ms s) (hb_sessionCloseMs h) \<Longrightarrow> isContinuousBook s
    \<Longrightarrow> \<exists>b. fst (foldl (boundary_step h) nc obs) = Some b \<and> ob_t_ms s \<le> b"
proof (induction obs arbitrary: nc)
  case (Cons x obs)
  have "s \<in> set obs \<or> (\<exists>b. fst (boundary_step h nc x) = Some b \<and> ob_t_ms s \<le> b)"
    using Cons.prems by (auto simp: boundary_step_def later_of_def Let_def le_max_iff_disj split: option.split)
  then show ?case using Cons.IH Cons.prems(2,3) by simp
qed simp

text \<open>A valid book is not after the close of the session.\<close>

definition closes_in_time :: "IncrementalHogaBucketer \<Rightarrow> ObSnapshot list \<Rightarrow> bool" where
  "closes_in_time h obs \<longleftrightarrow> (\<forall>s \<in> set obs. is_eligible h s \<longrightarrow> upto_time (ob_t_ms s) (hb_sessionCloseMs h))"

lemma appendOb_ok:
  assumes "appendOb obs h = Some h'" "seen_ok h" "closes_in_time h obs"
  shows "quotes_of h' = foldl (put_bucket (ob_bucket h) (quote_f (is_eligible h))) (quotes_of h) obs
    \<and> depths_of h' = foldl (put_bucket (ob_bucket h) (depth_f (with_depth h))) (depths_of h) obs
    \<and> seen_ok h' \<and> same_params h h' \<and> fills_of h' = fills_of h"
proof (cases "obs = []")
  case True
  then show ?thesis using assms(1,2) by (simp add: appendOb_def)
next
  case False
  let ?nc = "foldl (boundary_step h) (hb_continuousBoundaryMs h, hb_continuousByBucket h) obs"
  let ?g = "h\<lparr>hb_continuousBoundaryMs := fst ?nc, hb_continuousByBucket := snd ?nc\<rparr>"
  have h': "h' = foldl (ob_step (fst ?nc)) ?g obs" using assms(1) False by (simp add: appendOb_def Let_def split: if_splits)
  have g: "seen_ok ?g" "same_params h ?g" "quotes_of ?g = quotes_of h" "depths_of ?g = depths_of h" "fills_of ?g = fills_of h"
    using assms(2) by (simp_all add: seen_ok_def same_params_def quotes_of_def depths_of_def fills_of_def)
  have "upto_time (ob_t_ms s) (fst ?nc)" if "s \<in> set obs" "is_eligible h s" for s
  proof -
    have "isContinuousBook s" "upto_time (ob_t_ms s) (hb_sessionCloseMs h)"
      using that assms(3) by (auto simp: is_eligible_def closes_in_time_def)
    then have "\<exists>b. fst ?nc = Some b \<and> ob_t_ms s \<le> b" using that(1) by (intro boundary_covers) simp_all
    then show ?thesis by (auto simp: upto_time_def)
  qed
  then have "quotes_of h' = foldl (put_bucket (ob_bucket ?g) (quote_f (is_eligible ?g))) (quotes_of ?g) obs
    \<and> depths_of h' = foldl (put_bucket (ob_bucket ?g) (depth_f (with_depth ?g))) (depths_of ?g) obs
    \<and> seen_ok h' \<and> same_params ?g h' \<and> fills_of h' = fills_of ?g"
    unfolding h' by (intro ob_steps_ok [OF g(1)]) (use same_paramsD(3) [OF g(2)] in simp)
  then show ?thesis
    unfolding g(3-5) same_paramsD(1,3) [OF g(2)] with_depth_same [OF g(2)] using same_params_trans [OF g(2)] by blast
qed

lemma appendTrade_ok:
  "fills_of (appendTrade ts h) = foldl (put_bucket (trade_bucket h) fill_f) (fills_of h) ts
    \<and> quotes_of (appendTrade ts h) = quotes_of h \<and> depths_of (appendTrade ts h) = depths_of h
    \<and> hb_seenPre (appendTrade ts h) = hb_seenPre h \<and> same_params h (appendTrade ts h)"
proof (induction ts arbitrary: h)
  case (Cons s ts)
  let ?h = "trade_step h s"
  have same: "same_params h ?h" by (simp add: trade_step_def same_params_def Let_def)
  have "fills_of ?h = put_bucket (trade_bucket h) fill_f (fills_of h) s" "quotes_of ?h = quotes_of h" "depths_of ?h = depths_of h"
    "hb_seenPre ?h = hb_seenPre h"
    by (simp_all add: trade_step_def fills_of_def quotes_of_def depths_of_def put_bucket_def fill_f_def Let_def)
  then show ?case using Cons.IH [of ?h] same_paramsD(2) [OF same] same_params_trans [OF same] by (simp add: appendTrade_def)
qed (simp add: appendTrade_def)

subsection \<open>Folding the last elements again\<close>

text \<open>
  The slide may fold again what the append then takes as new. For totals and depth that changes
  nothing: what an entry has seen (\<open>covers\<close>) moves its last values only (\<open>close\<close>).
\<close>

locale refoldable_series = bucketed_series key f
  for key :: "'a \<Rightarrow> ms" and f :: "ms \<Rightarrow> 's option \<Rightarrow> 'a \<Rightarrow> 's option" +
  fixes valid :: "'a \<Rightarrow> bool" and covers :: "'s option \<Rightarrow> 'a \<Rightarrow> bool" and close :: "ms \<Rightarrow> 's option \<Rightarrow> 'a \<Rightarrow> 's option"
  assumes covered: "valid s \<Longrightarrow> covers r s \<Longrightarrow> f k r s = close k r s"
    and covers_new: "valid s \<Longrightarrow> covers (f k r s) s"
    and covers_kept: "covers r s \<Longrightarrow> covers (f k r s') s"
    and close_last: "close k (close k r s) s' = close k r s'"
    and close_new: "valid s \<Longrightarrow> close k (f k r s) s = f k r s"
    and uncovered: "\<not> covers None s"
    and idle: "\<not> valid s \<Longrightarrow> f k (Some q) s = Some q"
begin

lemma fold_kept: "foldl (f k) (Some q) ys \<noteq> None"
proof (induction ys arbitrary: q)
  case (Cons y ys)
  obtain q' where "f k (Some q) y = Some q'" using kept [of k q y] by blast
  then show ?case using Cons by simp
qed simp

lemma fold_valid: "foldl (f k) (Some q) ys = foldl (f k) (Some q) (filter valid ys)"
proof (induction ys arbitrary: q)
  case (Cons y ys)
  obtain q' where "f k (Some q) y = Some q'" using kept [of k q y] by blast
  then show ?case using Cons idle [of y k q] by auto
qed simp

lemma fold_covers: "covers r s \<Longrightarrow> covers (foldl (f k) r ys) s"
  by (induction ys arbitrary: r) (simp_all add: covers_kept)

lemma fold_covers_all: "s \<in> set ys \<Longrightarrow> valid s \<Longrightarrow> covers (foldl (f k) r ys) s"
proof (induction ys arbitrary: r)
  case (Cons y ys)
  then show ?case using covers_new [of y k r] fold_covers [of "f k r y" y k ys] by auto
qed simp

lemma fold_closes:
  "(\<And>s. s \<in> set vs \<Longrightarrow> valid s \<and> covers r s) \<Longrightarrow> foldl (f k) r vs = foldl (close k) r vs"
proof (induction vs arbitrary: r)
  case (Cons v vs)
  have "f k r v = close k r v" using Cons.prems covered by simp
  moreover have "valid s \<and> covers (f k r v) s" if "s \<in> set vs" for s using that Cons.prems covers_kept by simp
  ultimately show ?case using Cons.IH [of "f k r v"] by simp
qed simp

lemma closes_last: "vs \<noteq> [] \<Longrightarrow> foldl (close k) r vs = close k r (last vs)"
proof (induction vs rule: rev_induct)
  case (snoc v vs)
  then show ?case using close_last by (cases "vs = []") simp_all
qed simp

lemma again: "foldl (f k) (foldl (f k) p ys) ys = foldl (f k) p ys"
proof (cases "foldl (f k) p ys")
  case None
  then have "p = None" using fold_kept by (cases p) auto
  then show ?thesis using None by simp
next
  case (Some q)
  let ?vs = "filter valid ys"
  have "foldl (f k) (Some q) ?vs = foldl (close k) (Some q) ?vs"
    by (rule fold_closes) (use fold_covers_all [of _ ys k p] Some in simp)
  then have "foldl (f k) (Some q) ys = foldl (close k) (Some q) ?vs" using fold_valid [of k q ys] by simp
  also have "\<dots> = Some q"
  proof (cases "?vs = []")
    case False
    then have "\<exists>v \<in> set ys. valid v" by (auto simp: filter_empty_conv)
    then obtain ys1 v ys2 where ys: "ys = ys1 @ v # ys2" "\<forall>z \<in> set ys2. \<not> valid z" "valid v"
      using split_list_last_prop [of ys valid] by blast
    then have ys2: "filter valid ys2 = []" by (simp add: filter_empty_conv)
    have "f k (foldl (f k) p ys1) v \<noteq> None"
    proof (cases "foldl (f k) p ys1")
      case None
      then show ?thesis using uncovered [of v] covers_new [OF ys(3), of k None] by (cases "f k None v") auto
    next
      case (Some r)
      then show ?thesis using kept by simp
    qed
    then obtain q1 where q1: "f k (foldl (f k) p ys1) v = Some q1" by blast
    have "foldl (f k) p ys = foldl (f k) (Some q1) ys2" using q1 ys(1) by simp
    then have "Some q = f k (foldl (f k) p ys1) v" using Some q1 fold_valid [of k q1 ys2] ys2 by simp
    then show ?thesis using closes_last [OF False, of k "Some q"] ys(1) ys2 ys(3) close_new [OF ys(3), of k "foldl (f k) p ys1"] by simp
  qed simp
  finally show ?thesis using Some by simp
qed

lemma slide_again:
  "foldl (f k) (foldl (f k) None (filter P (xs @ ds))) (filter P ds) = foldl (f k) None (filter P (xs @ ds))"
  using again [of k "foldl (f k) None (filter P xs)" "filter P ds"] by simp

end

definition quote_covers :: "HogaPoint option \<Rightarrow> ObSnapshot \<Rightarrow> bool" where
  "quote_covers r s = (case r of None \<Rightarrow> False
     | Some q \<Rightarrow> ob_total_bid_qty s \<le> hp_bid_max q \<and> ob_total_ask_qty s \<le> hp_ask_max q
         \<and> \<bar>quoteImbalance (ob_total_bid_qty s) (ob_total_ask_qty s)\<bar> \<le> \<bar>quoteImbalance (hp_imb_max_bid q) (hp_imb_max_ask q)\<bar>)"

definition quote_close :: "ms \<Rightarrow> HogaPoint option \<Rightarrow> ObSnapshot \<Rightarrow> HogaPoint option" where
  "quote_close t r s = map_option (\<lambda>q. q\<lparr>qr_t := t, qr_bid_total := ob_total_bid_qty s, qr_ask_total := ob_total_ask_qty s,
     qr_band_pct := ladderBandPct s, qr_tick := krxTickOf s\<rparr>) r"

interpretation quotes_again: refoldable_series "\<lambda>s. indicatorBucketStartMs (ob_t_ms s) b v" "quote_f valid" valid quote_covers quote_close
  for b v valid
proof
  show "quote_f valid k r s = quote_close k r s" if "valid s" "quote_covers r s" for k r s
    using that by (cases r) (auto simp: quote_f_def quote_covers_def quote_close_def ratchet_quote_def Let_def)
  show "quote_covers (quote_f valid k r s) s" if "valid s" for k r s
    using that by (auto simp: quote_f_def quote_covers_def ratchet_quote_def Let_def split: option.split)
  show "quote_covers (quote_f valid k r s') s" if "quote_covers r s" for k r s s'
    using that by (cases r) (auto simp: quote_f_def quote_covers_def ratchet_quote_def Let_def)
  show "quote_close k (quote_close k r s) s' = quote_close k r s'" for k r s s'
    by (cases r) (simp_all add: quote_close_def)
  show "quote_close k (quote_f valid k r s) s = quote_f valid k r s" if "valid s" for k r s
    using that by (simp add: quote_f_def quote_close_def ratchet_quote_def Let_def)
  show "\<not> quote_covers None s" for s by (simp add: quote_covers_def)
  show "quote_f valid k (Some q) s = Some q" if "\<not> valid s" for k q s using that by (simp add: quote_f_def)
qed

subsection \<open>The largest quantity of each price\<close>

definition level_covered :: "(rat \<times> rat) list \<Rightarrow> OrderbookLevel \<Rightarrow> bool" where
  "level_covered acc l \<longleftrightarrow> num (ol_qty l) \<le> 0 \<or> (\<exists>cur. map_of acc (num (ol_price l)) = Some cur \<and> num (ol_qty l) \<le> cur)"

lemma level_absorbed: "level_covered acc l \<Longrightarrow> fold_level acc l = acc"
  by (auto simp: level_covered_def fold_level_def Let_def)

lemma level_new: "level_covered (fold_level acc l) l"
  by (auto simp: level_covered_def fold_level_def Let_def map_of_put split: option.split)

lemma level_kept: "level_covered acc l \<Longrightarrow> level_covered (fold_level acc l') l"
  by (auto simp: level_covered_def fold_level_def Let_def map_of_put split: option.split)

lemma levels_kept: "level_covered acc l \<Longrightarrow> level_covered (foldl fold_level acc ls) l"
  by (induction ls arbitrary: acc) (simp_all add: level_kept)

lemma levels_new: "l \<in> set ls \<Longrightarrow> level_covered (foldl fold_level acc ls) l"
  by (induction ls arbitrary: acc) (auto intro: level_new levels_kept)

lemma levels_absorbed: "(\<And>l. l \<in> set ls \<Longrightarrow> level_covered acc l) \<Longrightarrow> foldl fold_level acc ls = acc"
  by (induction ls) (simp_all add: level_absorbed)

definition book_covered :: "PriceMaxAcc \<Rightarrow> ObSnapshot \<Rightarrow> bool" where
  "book_covered acc s \<longleftrightarrow> (\<forall>l \<in> set (levels_of (ob_asks s)). level_covered (pm_asks acc) l)
     \<and> (\<forall>l \<in> set (levels_of (ob_bids s)). level_covered (pm_bids acc) l)"

lemma book_absorbed: "book_covered acc s \<Longrightarrow> foldPriceMax acc s = acc"
  by (simp add: book_covered_def foldPriceMax_def levels_absorbed)

lemma book_new: "book_covered (foldPriceMax acc s) s"
  by (simp add: book_covered_def foldPriceMax_def levels_new)

lemma walls_kept: "book_covered acc s \<Longrightarrow> book_covered (foldPriceMax acc s') s"
  by (simp add: book_covered_def foldPriceMax_def levels_kept)

definition depth_covers :: "DepthEntry option \<Rightarrow> ObSnapshot \<Rightarrow> bool" where
  "depth_covers r s = (case r of None \<Rightarrow> False | Some e \<Rightarrow> book_total s \<le> de_maxTotal e \<and> book_covered (de_priceMax e) s)"

definition depth_close :: "ms \<Rightarrow> DepthEntry option \<Rightarrow> ObSnapshot \<Rightarrow> DepthEntry option" where
  "depth_close t r s = map_option (\<lambda>e. e\<lparr>de_point := (de_point e)\<lparr>dh_tMs := t, dh_asks := levels_of (ob_asks s), dh_bids := levels_of (ob_bids s),
     dh_asksPriceMax := priceMaxLevels (pm_asks (de_priceMax e)) Ask, dh_bidsPriceMax := priceMaxLevels (pm_bids (de_priceMax e)) Bid\<rparr>\<rparr>) r"

interpretation depths_again: refoldable_series "\<lambda>s. indicatorBucketStartMs (ob_t_ms s) b v" "depth_f valid"
  "\<lambda>s. valid s \<and> has_book s" depth_covers depth_close for b v valid
proof
  show "depth_f valid k r s = depth_close k r s" if "valid s \<and> has_book s" "depth_covers r s" for k r s
    using that by (cases r) (auto simp: depth_f_def depth_covers_def depth_close_def depth_entry_def book_absorbed Let_def)
  show "depth_covers (depth_f valid k r s) s" if "valid s \<and> has_book s" for k r s
    using that by (auto simp: depth_f_def depth_covers_def depth_entry_def book_new Let_def split: option.split)
  show "depth_covers (depth_f valid k r s') s" if "depth_covers r s" for k r s s'
    using that by (cases r) (auto simp: depth_f_def depth_covers_def depth_entry_def walls_kept Let_def)
  show "depth_close k (depth_close k r s) s' = depth_close k r s'" for k r s s'
    by (cases r) (simp_all add: depth_close_def)
  show "depth_close k (depth_f valid k r s) s = depth_f valid k r s" if "valid s \<and> has_book s" for k r s
    using that by (simp add: depth_f_def depth_close_def depth_entry_def Let_def)
  show "\<not> depth_covers None s" for s by (simp add: depth_covers_def)
  show "depth_f valid k (Some q) s = Some q" if "\<not> (valid s \<and> has_book s)" for k q s using that by (auto simp: depth_f_def)
qed

end
