(* ===== verification/HogaRuns.thy ===== *)
theory HogaRuns
  imports HogaLaws
begin

section \<open>Order book series: every run of the builder\<close>

text \<open>
  The accumulator holds the bucket folds of its last window (\<open>book_ok\<close>, \<open>fill_ok\<close>), and every update keeps
  that; the batch computes the same folds. So the builder gives what \<open>buildHogaSeries\<close> gives.
\<close>

subsection \<open>The accumulator over a window\<close>

definition book_ok :: "ObSnapshot list \<Rightarrow> IncrementalHogaBucketer \<Rightarrow> bool" where
  "book_ok obs h \<longleftrightarrow> quotes_of h = foldl (put_bucket (ob_bucket h) (quote_f (is_eligible h))) no_buckets obs
     \<and> depths_of h = foldl (put_bucket (ob_bucket h) (depth_f (with_depth h))) no_buckets obs \<and> seen_ok h"

definition fill_ok :: "TradeSnapshot list \<Rightarrow> IncrementalHogaBucketer \<Rightarrow> bool" where
  "fill_ok ts h \<longleftrightarrow> fills_of h = foldl (put_bucket (trade_bucket h) fill_f) no_buckets ts"

lemma ob_bucket_key: "ob_bucket h = (\<lambda>s. indicatorBucketStartMs (ob_t_ms s) (hb_bucketMs h) (hb_venue h))"
  by (simp add: ob_bucket_def fun_eq_iff)

lemma trade_bucket_key: "trade_bucket h = (\<lambda>s. indicatorBucketStartMs (ts_t_ms s) (hb_bucketMs h) (hb_venue h))"
  by (simp add: trade_bucket_def fun_eq_iff)

lemma closes_part: "closes_in_time h obs \<Longrightarrow> set xs \<subseteq> set obs \<Longrightarrow> closes_in_time h xs"
  by (auto simp: closes_in_time_def)

lemma closes_same: "same_params h h' \<Longrightarrow> closes_in_time h' obs = closes_in_time h obs"
  using same_paramsD(3,5) [of h h'] by (simp add: closes_in_time_def)

lemma book_append:
  assumes "book_ok obs h" "appendOb ds h = Some h'" "closes_in_time h ds"
  shows "book_ok (obs @ ds) h' \<and> same_params h h' \<and> fills_of h' = fills_of h"
proof -
  have "seen_ok h" using assms(1) by (simp add: book_ok_def)
  note ok = appendOb_ok [OF assms(2) this assms(3)]
  then have same: "same_params h h'" by simp
  show ?thesis using ok assms(1) unfolding book_ok_def same_paramsD(1,3) [OF same] with_depth_same [OF same] by simp
qed

lemma fill_append: "fill_ok ts h \<Longrightarrow> fill_ok (ts @ ds) (appendTrade ds h)"
  using appendTrade_ok [of ds h] same_paramsD(2) [of h "appendTrade ds h"] by (simp add: fill_ok_def)

lemma takeWhile_head:
  "(\<And>z. z \<in> set zs \<Longrightarrow> head \<le> key z) \<Longrightarrow> sorted (map key zs) \<Longrightarrow> takeWhile (\<lambda>s. key s = head) zs = filter (\<lambda>s. key s = (head :: ms)) zs"
proof (induction zs)
  case (Cons z zs)
  show ?case
  proof (cases "key z = head")
    case False
    then have "head < key z" using Cons.prems(1) [of z] by simp
    then have "filter (\<lambda>s. key s = head) zs = []" using Cons.prems(2) by (fastforce simp: filter_empty_conv)
    then show ?thesis using False by simp
  qed (use Cons in simp)
qed simp

subsection \<open>The head bucket again\<close>

lemma cut_ob:
  fixes h :: IncrementalHogaBucketer and head :: ms
  defines "c \<equiv> clearObBucket head (dropObBucketsBefore head h)"
  shows "quotes_of c = cut_buckets head (quotes_of h)" "depths_of c = cut_buckets head (depths_of h)"
    "same_params h c" "fills_of c = fills_of h" "seen_ok h \<Longrightarrow> seen_ok c"
proof -
  have ord: "filter (\<lambda>t. t \<noteq> head) (filter (\<lambda>t. head \<le> t) ts) = filter (\<lambda>k. head < k) ts" for ts :: "ms list"
    by (auto intro: filter_cong)
  show "quotes_of c = cut_buckets head (quotes_of h)" "depths_of c = cut_buckets head (depths_of h)"
    unfolding c_def by (auto simp: quotes_of_def depths_of_def cut_buckets_def clearObBucket_def dropObBucketsBefore_def fun_eq_iff ord
      simp del: filter_filter)
  show "same_params h c" "fills_of c = fills_of h" "seen_ok h \<Longrightarrow> seen_ok c"
    unfolding c_def by (auto simp: same_params_def fills_of_def seen_ok_def clearObBucket_def dropObBucketsBefore_def)
qed

lemma cut_fill:
  fixes h :: IncrementalHogaBucketer and head :: ms
  defines "c \<equiv> clearFillBucket head (dropFillBucketsBefore head h)"
  shows "fills_of c = cut_buckets head (fills_of h)" "same_params h c" "quotes_of c = quotes_of h" "depths_of c = depths_of h"
    "hb_seenPre c = hb_seenPre h"
proof -
  have ord: "filter (\<lambda>t. t \<noteq> head) (filter (\<lambda>t. head \<le> t) ts) = filter (\<lambda>k. head < k) ts" for ts :: "ms list"
    by (auto intro: filter_cong)
  show "fills_of c = cut_buckets head (fills_of h)"
    unfolding c_def by (auto simp: fills_of_def cut_buckets_def clearFillBucket_def dropFillBucketsBefore_def fun_eq_iff ord
      simp del: filter_filter)
qed (simp_all add: c_def same_params_def quotes_of_def depths_of_def clearFillBucket_def dropFillBucketsBefore_def)

lemma refold_ob_ok:
  assumes run: "refold_ob (x # zs) h = Some h1" and ok: "seen_ok h" "closes_in_time h (x # zs)" "sorted (map (ob_bucket h) (x # zs))"
  shows "quotes_of h1 = foldl (put_bucket (ob_bucket h) (quote_f (is_eligible h))) (cut_buckets (ob_bucket h x) (quotes_of h))
      (filter (\<lambda>s. ob_bucket h s = ob_bucket h x) (x # zs))
    \<and> depths_of h1 = foldl (put_bucket (ob_bucket h) (depth_f (with_depth h))) (cut_buckets (ob_bucket h x) (depths_of h))
      (filter (\<lambda>s. ob_bucket h s = ob_bucket h x) (x # zs))
    \<and> seen_ok h1 \<and> same_params h h1 \<and> fills_of h1 = fills_of h"
proof -
  let ?head = "ob_bucket h x"
  let ?c = "clearObBucket ?head (dropObBucketsBefore ?head h)" and ?hs = "filter (\<lambda>s. ob_bucket h s = ?head) (x # zs)"
  have "takeWhile (\<lambda>s. ob_bucket h s = ?head) (x # zs) = ?hs" by (rule takeWhile_head) (use ok(3) in auto)
  then have app: "appendOb ?hs ?c = Some h1" using run by (simp only: refold_ob_def list.sel(1) Let_def)
  have same: "same_params h ?c" by (rule cut_ob)
  have "closes_in_time ?c ?hs" unfolding closes_same [OF same] by (rule closes_part [OF ok(2)]) auto
  note r = appendOb_ok [OF app cut_ob(5) [OF ok(1)] this]
  show ?thesis
    using r same_params_trans [OF same, of h1]
    unfolding same_paramsD(1,3) [OF same] with_depth_same [OF same] cut_ob(1,2,4) by blast
qed

lemma refold_trade_ok:
  assumes ok: "sorted (map (trade_bucket h) (x # zs))"
  defines "h1 \<equiv> refold_trade (x # zs) h"
  shows "fills_of h1 = foldl (put_bucket (trade_bucket h) fill_f) (cut_buckets (trade_bucket h x) (fills_of h))
      (filter (\<lambda>s. trade_bucket h s = trade_bucket h x) (x # zs))
    \<and> quotes_of h1 = quotes_of h \<and> depths_of h1 = depths_of h \<and> hb_seenPre h1 = hb_seenPre h \<and> same_params h h1"
proof -
  let ?head = "trade_bucket h x"
  let ?c = "clearFillBucket ?head (dropFillBucketsBefore ?head h)" and ?hs = "filter (\<lambda>s. trade_bucket h s = ?head) (x # zs)"
  have "takeWhile (\<lambda>s. trade_bucket h s = ?head) (x # zs) = ?hs" by (rule takeWhile_head) (use ok in auto)
  then have app: "h1 = appendTrade ?hs ?c" unfolding h1_def by (simp only: refold_trade_def list.sel(1) Let_def)
  have same: "same_params h ?c" by (rule cut_fill)
  show ?thesis using appendTrade_ok [of ?hs ?c] same_params_trans [OF same, of h1]
    unfolding app [symmetric] same_paramsD(2) [OF same] cut_fill(1,3,4,5) by blast
qed

lemma sort_orders_ok:
  "quotes_of (sort_orders h) = sort_buckets (quotes_of h)" "depths_of (sort_orders h) = sort_buckets (depths_of h)"
  "fills_of (sort_orders h) = sort_buckets (fills_of h)" "hb_seenPre (sort_orders h) = hb_seenPre h" "same_params h (sort_orders h)"
  by (simp_all add: sort_orders_def quotes_of_def depths_of_def fills_of_def sort_buckets_def same_params_def)

lemma sort_buckets_id: "sorted (snd mo) \<Longrightarrow> sort_buckets mo = mo"
  by (simp add: sort_buckets_def sort_key_id_if_sorted)

subsection \<open>A window that slides\<close>

lemma seen_ok_quotes: "seen_ok h \<longleftrightarrow> (\<forall>t. hb_seenPre h t \<longrightarrow> fst (quotes_of h) t \<noteq> None)"
  by (simp add: seen_ok_def quotes_of_def)

lemma book_slide:
  assumes ok: "book_ok (ys @ x # xs) h" "closes_in_time h (x # xs @ ds)" "sorted (map (ob_bucket h) (ys @ x # xs @ ds))"
    and run: "refold_ob (x # xs @ ds) h = Some g"
    and g: "same_params g h1" "quotes_of h1 = sort_buckets (quotes_of g)" "depths_of h1 = sort_buckets (depths_of g)"
      "hb_seenPre h1 = hb_seenPre g"
    and app: "appendOb ds h1 = Some h2"
  shows "book_ok (x # xs @ ds) h2 \<and> same_params h h2 \<and> fills_of h2 = fills_of h1"
proof -
  let ?hs = "filter (\<lambda>s. ob_bucket h s = ob_bucket h x) (x # xs @ ds)"
  have seen: "seen_ok h" and mo: "quotes_of h = foldl (put_bucket (ob_bucket h) (quote_f (is_eligible h))) no_buckets (ys @ x # xs)"
    "depths_of h = foldl (put_bucket (ob_bucket h) (depth_f (with_depth h))) no_buckets (ys @ x # xs)"
    using ok(1) by (simp_all add: book_ok_def)
  have "sorted (map (ob_bucket h) (x # xs @ ds))" using ok(3) by (simp add: sorted_append)
  note r = refold_ob_ok [OF run seen ok(2) this]
  have same: "same_params h h1" using r g(1) same_params_trans by blast
  have "seen_ok g" using r by blast
  then have "seen_ok h1" using g(2,4) by (simp add: seen_ok_quotes sort_buckets_def)
  moreover have "closes_in_time h1 ds" unfolding closes_same [OF same] by (rule closes_part [OF ok(2)]) auto
  ultimately have a: "quotes_of h2 = foldl (put_bucket (ob_bucket h) (quote_f (is_eligible h))) (sort_buckets (quotes_of g)) ds"
    "depths_of h2 = foldl (put_bucket (ob_bucket h) (depth_f (with_depth h))) (sort_buckets (depths_of g)) ds"
    "seen_ok h2" "same_params h1 h2" "fills_of h2 = fills_of h1"
    using appendOb_ok [OF app] unfolding g(2,3) same_paramsD(1,3) [OF same] with_depth_same [OF same] by simp_all
  have "quotes_of h2 = foldl (put_bucket (ob_bucket h) (quote_f (is_eligible h))) no_buckets (x # xs @ ds)" unfolding a(1)
  proof (rule quotes.slide_buckets [where b = "hb_bucketMs h" and v = "hb_venue h", folded ob_bucket_def, OF ok(3) mo(1)])
    show "quotes_of g = foldl (put_bucket (ob_bucket h) (quote_f (is_eligible h))) (cut_buckets (ob_bucket h x) (quotes_of h)) ?hs"
      using r by simp
  qed (rule quotes_again.slide_again [of _ _ _ "x # xs" ds, unfolded append_Cons])
  moreover have "depths_of h2 = foldl (put_bucket (ob_bucket h) (depth_f (with_depth h))) no_buckets (x # xs @ ds)" unfolding a(2)
  proof (rule depths.slide_buckets [where b = "hb_bucketMs h" and v = "hb_venue h", folded ob_bucket_def, OF ok(3) mo(2)])
    show "depths_of g = foldl (put_bucket (ob_bucket h) (depth_f (with_depth h))) (cut_buckets (ob_bucket h x) (depths_of h)) ?hs"
      using r by simp
  qed (rule depths_again.slide_again [of _ _ _ "x # xs" ds, unfolded append_Cons])
  ultimately have "book_ok (x # xs @ ds) h2"
    using a(3) same_params_trans [OF same a(4)] by (simp add: book_ok_def same_paramsD(1,3) with_depth_same)
  then show ?thesis using a(4,5) same_params_trans [OF same] by blast
qed

lemma fill_slide:
  assumes ok: "fill_ok (ys @ x # xs) h" "sorted (map (trade_bucket h) (ys @ x # xs @ ds))"
    and fresh: "filter (\<lambda>s. trade_bucket h s = trade_bucket h x) ds = []"
    and h1: "same_params (refold_trade (x # xs @ ds) h) h1" "fills_of h1 = sort_buckets (fills_of (refold_trade (x # xs @ ds) h))"
  shows "fill_ok (x # xs @ ds) (appendTrade ds h1)"
proof -
  let ?hs = "filter (\<lambda>s. trade_bucket h s = trade_bucket h x) (x # xs @ ds)"
  have "sorted (map (trade_bucket h) (x # xs @ ds))" using ok(2) by (simp add: sorted_append)
  note r = refold_trade_ok [OF this]
  have same: "same_params h h1" using r h1(1) same_params_trans by blast
  have mo: "fills_of h = foldl (put_bucket (trade_bucket h) fill_f) no_buckets (ys @ x # xs)" using ok(1) by (simp add: fill_ok_def)
  have "foldl (put_bucket (trade_bucket h) fill_f) (fills_of h1) ds = foldl (put_bucket (trade_bucket h) fill_f) no_buckets (x # xs @ ds)"
    unfolding h1(2)
  proof (rule fills.slide_buckets [where b = "hb_bucketMs h" and v = "hb_venue h", folded trade_bucket_def, OF ok(2) mo])
    show "fills_of (refold_trade (x # xs @ ds) h)
        = foldl (put_bucket (trade_bucket h) fill_f) (cut_buckets (trade_bucket h x) (fills_of h)) ?hs"
      using r by blast
  qed (simp add: fresh)
  moreover have "same_params h (appendTrade ds h1)" using appendTrade_ok [of ds h1] same same_params_trans by blast
  ultimately show ?thesis using appendTrade_ok [of ds h1]
    by (simp add: fill_ok_def same_paramsD(2) [OF same] same_paramsD(2))
qed

lemma book_sorted: "book_ok obs h \<Longrightarrow> sorted (map (ob_bucket h) obs) \<Longrightarrow> sorted (snd (quotes_of h)) \<and> sorted (snd (depths_of h))"
  using quotes.fold_sorted [where mo = no_buckets and b = "hb_bucketMs h" and v = "hb_venue h", folded ob_bucket_key, of obs]
    depths.fold_sorted [where mo = no_buckets and b = "hb_bucketMs h" and v = "hb_venue h", folded ob_bucket_key, of obs]
  by (simp add: book_ok_def)

lemma fill_sorted: "fill_ok ts h \<Longrightarrow> sorted (map (trade_bucket h) ts) \<Longrightarrow> sorted (snd (fills_of h))"
  using fills.fold_sorted [where mo = no_buckets and b = "hb_bucketMs h" and v = "hb_venue h", folded trade_bucket_key, of ts]
  by (simp add: fill_ok_def)

text \<open>How a window follows the last one: \<open>gone\<close> left it and \<open>ds\<close> is new, or it starts afresh.\<close>

definition joins :: "'a list \<Rightarrow> 'a list \<Rightarrow> 'a list \<Rightarrow> 'a list \<Rightarrow> bool" where
  "joins w0 w gone ds \<longleftrightarrow> (w0 = [] \<and> gone = [] \<and> w = ds) \<or> (\<exists>x xs. w0 = gone @ x # xs \<and> w = x # xs @ ds)"

definition is_window :: "nat list \<Rightarrow> bool" where
  "is_window w \<longleftrightarrow> w = [] \<or> w = [hd w..<Suc (last w)]"

lemma find_spec: "find P xs = Some i \<Longrightarrow> P i \<and> i \<in> set xs"
  by (auto simp: find_Some_iff)

lemma locate_hit: "locate time w (Some r) len = Some i \<Longrightarrow> 0 \<le> i \<and> nat i < length w \<and> w ! nat i = r"
  by (auto simp: locate_def Let_def nat_diff_distrib split: if_splits dest!: find_spec dest: set_takeWhileD)

lemma upt_split: "i \<le> j \<Longrightarrow> j \<le> k \<Longrightarrow> [i..<k] = [i..<j] @ [j..<k]"
  using upt_add_eq_append [of i j "k - j"] by simp

lemma locate_joins:
  assumes windows: "is_window w0" "is_window w" and start: "w0 = [] \<or> w = [] \<or> hd w0 \<le> hd w"
    and at: "locate time w (if w0 = [] then None else Some (last w0)) len = Some i"
  shows "\<exists>gone ds. joins w0 w gone ds \<and> drop (nat (i + 1)) w = ds
    \<and> (evicted (if w0 = [] then None else Some (hd w0)) w \<longleftrightarrow> gone \<noteq> [])"
proof (cases "w0 = []")
  case True
  then have "i = -1" using at by (simp add: locate_def)
  then show ?thesis using True by (simp add: joins_def evicted_def)
next
  case False
  then have hit: "0 \<le> i" "nat i < length w" "w ! nat i = last w0" using at locate_hit [of time w "last w0" len i] by simp_all
  obtain a b where a: "w0 = [a..<Suc b]" "hd w0 = a" "last w0 = b" using windows(1) False unfolding is_window_def by metis
  have ab: "a \<le> b" using False a(1) by (simp split: if_splits)
  have "w \<noteq> []" using hit(2) by auto
  then obtain c d where c: "w = [c..<Suc d]" "hd w = c" "last w = d" using windows(2) unfolding is_window_def by metis
  have cd: "c + nat i = b" "b \<le> d" "a \<le> c" using hit c a start \<open>w \<noteq> []\<close> False by (auto simp del: upt_Suc)
  have cb: "c \<le> b" using cd(1) by simp
  have "w0 = [a..<c] @ c # [Suc c..<Suc b]"
    unfolding a(1) using upt_split [of a c "Suc b"] upt_conv_Cons [of c "Suc b"] cd(3) cb by (simp del: upt_Suc)
  moreover have "w = c # [Suc c..<Suc b] @ [Suc b..<Suc d]"
    unfolding c(1) using upt_split [of c "Suc b" "Suc d"] upt_conv_Cons [of c "Suc b"] cb cd(2) by (simp del: upt_Suc)
  ultimately have "joins w0 w [a..<c] [Suc b..<Suc d]" unfolding joins_def by blast
  moreover have "drop (nat (i + 1)) w = [Suc b..<Suc d]" unfolding c(1) using hit(1) cd(1) by (simp add: drop_upt nat_add_distrib del: upt_Suc)
  moreover have "evicted (Some (hd w0)) w \<longleftrightarrow> [a..<c] \<noteq> []" unfolding evicted_def a(2) c(2) using \<open>w \<noteq> []\<close> cd(3) by auto
  ultimately show ?thesis using False by auto
qed

subsection \<open>Evictions\<close>

lemma refold_trade_keeps:
  "quotes_of (refold_trade ts g) = quotes_of g \<and> depths_of (refold_trade ts g) = depths_of g
    \<and> hb_seenPre (refold_trade ts g) = hb_seenPre g \<and> same_params g (refold_trade ts g)"
proof -
  let ?head = "trade_bucket g (hd ts)"
  let ?c = "clearFillBucket ?head (dropFillBucketsBefore ?head g)"
  show ?thesis
    using appendTrade_ok [of "takeWhile (\<lambda>s. trade_bucket g s = ?head) ts" ?c] cut_fill(3-5) [of ?head g]
      same_params_trans [OF cut_fill(2) [of g ?head]]
    by (simp add: refold_trade_def Let_def)
qed

lemma reconcile_parts:
  assumes "reconcileEviction books trades ob trade h = Some h1"
  obtains (stay) "\<not> evicted (hb_firstObRef h) ob" "\<not> evicted (hb_firstTradeRef h) trade" "h1 = h"
    | (slid) g g' where "if evicted (hb_firstObRef h) ob then refold_ob (map books ob) h = Some g else g = h"
        "g' = (if evicted (hb_firstTradeRef h) trade then refold_trade (map trades trade) g else g)" "h1 = sort_orders g'"
proof (cases "\<not> evicted (hb_firstObRef h) ob \<and> \<not> evicted (hb_firstTradeRef h) trade")
  case True
  then show ?thesis by (intro stay) (use assms in \<open>simp_all add: reconcileEviction_def\<close>)
next
  case False
  let ?g = "if evicted (hb_firstObRef h) ob then refold_ob (map books ob) h else Some h"
  have "(case ?g of None \<Rightarrow> None
     | Some g \<Rightarrow> Some (sort_orders (if evicted (hb_firstTradeRef h) trade then refold_trade (map trades trade) g else g))) = Some h1"
    using assms False by (simp only: reconcileEviction_def Let_def if_False)
  then obtain g where g: "?g = Some g" "h1 = sort_orders (if evicted (hb_firstTradeRef h) trade then refold_trade (map trades trade) g else g)"
    by (cases ?g) (simp_all only: option.case option.sel option.distinct, blast)
  show ?thesis by (rule slid [OF _ refl g(2)]) (use g(1) in \<open>simp split: if_splits\<close>)
qed

lemma book_kept:
  assumes "book_ok obs h" "same_params h h1" and same: "quotes_of h1 = quotes_of h" "depths_of h1 = depths_of h" "hb_seenPre h1 = hb_seenPre h"
  shows "book_ok obs h1"
  using assms(1) unfolding book_ok_def seen_ok_quotes same same_paramsD(1,3) [OF assms(2)] with_depth_same [OF assms(2)] .

lemma fill_kept: "fill_ok ts h \<Longrightarrow> same_params h h1 \<Longrightarrow> fills_of h1 = fills_of h \<Longrightarrow> fill_ok ts h1"
  using same_paramsD(2) [of h h1] by (simp add: fill_ok_def)

lemma sorted_join: "sorted (ys @ x # xs) \<Longrightarrow> sorted (x # xs @ ds) \<Longrightarrow> sorted (ys @ x # xs @ (ds :: ms list))"
  by (auto simp: sorted_append) force

lemma joins_cases:
  assumes "joins w0 w gone ds"
  obtains (slid) x xs where "gone \<noteq> []" "w0 = gone @ x # xs" "w = x # xs @ ds" | (stay) "gone = []" "w = w0 @ ds"
  using assms unfolding joins_def by (cases "gone = []") auto

text \<open>The books before the new ones are appended.\<close>

lemma reconcile_books:
  assumes rec: "reconcileEviction books trades ob trade h = Some h1" and app: "appendOb (map books ds) h1 = Some h2"
    and ok: "book_ok (map books ob0) h" "closes_in_time h (map books ob)" "sorted (map (ob_bucket h) (map books ob0))"
      "sorted (map (ob_bucket h) (map books ob))"
    and join: "joins ob0 ob gone ds" and ev: "evicted (hb_firstObRef h) ob \<longleftrightarrow> gone \<noteq> []"
  shows "book_ok (map books ob) h2 \<and> same_params h h2 \<and> fills_of h2 = fills_of h1"
  using join
proof (cases rule: joins_cases)
  case (slid x xs)
  obtain g g' where g: "refold_ob (map books ob) h = Some g"
      "g' = (if evicted (hb_firstTradeRef h) trade then refold_trade (map trades trade) g else g)" "h1 = sort_orders g'"
    using rec by (rule reconcile_parts) (use ev slid(1) in auto)
  have g': "quotes_of g' = quotes_of g" "depths_of g' = depths_of g" "hb_seenPre g' = hb_seenPre g" "same_params g g'"
    using g(2) refold_trade_keeps by (simp_all split: if_splits)
  have "book_ok (books x # map books xs @ map books ds) h2 \<and> same_params h h2 \<and> fills_of h2 = fills_of h1"
  proof (rule book_slide [OF _ _ _ _ _ _ _ _ app])
    show "sorted (map (ob_bucket h) (map books gone @ books x # map books xs @ map books ds))"
      using ok(3,4) sorted_join unfolding slid(2,3) by simp
  qed (use ok slid(2,3) g g' same_params_trans [OF g'(4) sort_orders_ok(5)] in \<open>simp_all add: sort_orders_ok\<close>)
  then show ?thesis using slid(3) by simp
next
  case stay
  have "book_ok (map books ob0) h1 \<and> same_params h h1"
    using rec
  proof (cases rule: reconcile_parts)
    case stay
    then show ?thesis using ok(1) by simp
  next
    case (slid g g')
    then have g': "quotes_of g' = quotes_of h" "depths_of g' = depths_of h" "hb_seenPre g' = hb_seenPre h" "same_params h g'"
      using ev stay(1) refold_trade_keeps by (simp_all split: if_splits)
    then have "quotes_of h1 = quotes_of h" "depths_of h1 = depths_of h"
      using book_sorted [OF ok(1,3)] unfolding slid(3) by (simp_all add: sort_orders_ok sort_buckets_id)
    moreover have same: "same_params h h1" unfolding slid(3) by (rule same_params_trans [OF g'(4) sort_orders_ok(5)])
    ultimately show ?thesis using book_kept [OF ok(1) same] g'(3) slid(3) by (simp add: sort_orders_ok)
  qed
  moreover have "closes_in_time h (map books ds)" by (rule closes_part [OF ok(2)]) (simp add: stay(2))
  ultimately show ?thesis using book_append [OF _ app] same_params_trans closes_same stay(2) by (metis map_append)
qed

lemma refolded_fills:
  assumes "if evicted (hb_firstObRef h) ob then refold_ob (map books ob) h = Some g else g = h"
    and book: "seen_ok h" "closes_in_time h (map books ob)" "sorted (map (ob_bucket h) (map books ob))"
  shows "same_params h g \<and> fills_of g = fills_of h"
proof (cases "evicted (hb_firstObRef h) ob")
  case True
  then obtain r ob' where "ob = r # ob'" by (cases ob) (auto simp: evicted_def)
  then show ?thesis using refold_ob_ok [of "books r" "map books ob'" h g] assms(1) True book by simp
qed (use assms(1) in simp)

lemma reconcile_trades:
  assumes rec: "reconcileEviction books trades ob trade h = Some h1"
    and ok: "fill_ok (map trades trade0) h" "sorted (map (trade_bucket h) (map trades trade0))"
      "sorted (map (trade_bucket h) (map trades trade))"
    and book: "seen_ok h" "closes_in_time h (map books ob)" "sorted (map (ob_bucket h) (map books ob))"
    and join: "joins trade0 trade gone ds" and ev: "evicted (hb_firstTradeRef h) trade \<longleftrightarrow> gone \<noteq> []"
    and fresh: "gone \<noteq> [] \<Longrightarrow> list_all (\<lambda>r. trade_bucket h (trades r) \<noteq> trade_bucket h (trades (hd trade))) ds"
    and h2: "fills_of h2 = fills_of h1" "same_params h1 h2"
  shows "fill_ok (map trades trade) (appendTrade (map trades ds) h2)"
proof -
  note part = refolded_fills [OF _ book]
  show ?thesis using join
  proof (cases rule: joins_cases)
    case (slid x xs)
    obtain g where g: "if evicted (hb_firstObRef h) ob then refold_ob (map books ob) h = Some g else g = h"
        "h1 = sort_orders (refold_trade (map trades trade) g)"
      using rec by (rule reconcile_parts) (use ev slid(1) in auto)
    note p = part [OF g(1)]
    have same: "trade_bucket g = trade_bucket h" using p same_paramsD(2) by blast
    have "fill_ok (trades x # map trades xs @ map trades ds) (appendTrade (map trades ds) h2)"
    proof (rule fill_slide)
      show "fill_ok (map trades gone @ trades x # map trades xs) g" using fill_kept [OF ok(1)] p slid(2) by simp
      show "sorted (map (trade_bucket g) (map trades gone @ trades x # map trades xs @ map trades ds))"
        using ok(2,3) sorted_join unfolding slid(2,3) same by simp
      show "filter (\<lambda>s. trade_bucket g s = trade_bucket g (trades x)) (map trades ds) = []"
        using fresh slid(1,3) by (auto simp: same filter_empty_conv list_all_iff)
      show "same_params (refold_trade (trades x # map trades xs @ map trades ds) g) h2"
        using g(2) slid(3) same_params_trans [OF sort_orders_ok(5) h2(2) [unfolded g(2)]] by simp
      show "fills_of h2 = sort_buckets (fills_of (refold_trade (trades x # map trades xs @ map trades ds) g))"
        using h2(1) g(2) slid(3) by (simp add: sort_orders_ok)
    qed
    then show ?thesis using slid(3) by simp
  next
    case stay
    have "fill_ok (map trades trade0) h1" using rec
    proof (cases rule: reconcile_parts)
      case stay
      then show ?thesis using ok(1) by simp
    next
      case (slid g g')
      have p: "same_params h g'" "fills_of g' = fills_of h" using part [OF slid(1)] slid(2) ev stay(1) by simp_all
      then have "fills_of h1 = fills_of h" using fill_sorted [OF ok(1,2)] by (simp add: slid(3) sort_orders_ok sort_buckets_id)
      then show ?thesis using fill_kept [OF ok(1)] same_params_trans [OF p(1) sort_orders_ok(5)] slid(3) by blast
    qed
    then have "fill_ok (map trades trade0) h2" using fill_kept h2 by blast
    then show ?thesis using fill_append stay(2) by simp
  qed
qed

subsection \<open>One update\<close>

definition first_ref :: "nat list \<Rightarrow> nat option" where "first_ref w = (if w = [] then None else Some (hd w))"
definition last_ref :: "nat list \<Rightarrow> nat option" where "last_ref w = (if w = [] then None else Some (last w))"

text \<open>A window the feed may hold: consecutive entries of the stream, in order, no valid book after the close.\<close>

definition window_ok :: "(nat \<Rightarrow> ObSnapshot) \<Rightarrow> (nat \<Rightarrow> TradeSnapshot) \<Rightarrow> BuildHogaSeriesInput \<Rightarrow> bool" where
  "window_ok books trades i \<longleftrightarrow> 0 < bi_bucketMs i \<and> is_window (bi_sseOb i) \<and> is_window (bi_sseTrade i)
     \<and> sorted (map (\<lambda>r. ob_t_ms (books r)) (bi_sseOb i)) \<and> sorted (map (\<lambda>r. ts_t_ms (trades r)) (bi_sseTrade i))
     \<and> sorted (map (\<lambda>r. indicatorBucketStartMs (ob_t_ms (books r)) (bi_bucketMs i) (bi_venue i)) (bi_sseOb i))
     \<and> sorted (map (\<lambda>r. indicatorBucketStartMs (ts_t_ms (trades r)) (bi_bucketMs i) (bi_venue i)) (bi_sseTrade i))
     \<and> list_all (\<lambda>r. eligible_in (books r) (bi_open_ms i) (bi_venue i) \<longrightarrow> ob_t_ms (books r) \<le> bi_close_ms i) (bi_sseOb i)"

text \<open>The start of a window does not go back.\<close>

definition follows :: "nat list \<Rightarrow> nat list \<Rightarrow> bool" where
  "follows w w' \<longleftrightarrow> w = [] \<or> w' = [] \<or> hd w \<le> hd w'"

text \<open>When trades have left, none of those new since the last window is in the bucket of the first one kept.\<close>

definition no_refill :: "(nat \<Rightarrow> TradeSnapshot) \<Rightarrow> BuildHogaSeriesInput \<Rightarrow> BuildHogaSeriesInput \<Rightarrow> bool" where
  "no_refill trades i j = (let w = bi_sseTrade i; w' = bi_sseTrade j;
       bucket = (\<lambda>r. indicatorBucketStartMs (ts_t_ms (trades r)) (bi_bucketMs j) (bi_venue j))
     in w = [] \<or> w' = [] \<or> hd w = hd w' \<or> list_all (\<lambda>r. r \<le> last w \<or> bucket r \<noteq> bucket (hd w')) w')"

definition has_params :: "BuildHogaSeriesInput \<Rightarrow> IncrementalHogaBucketer \<Rightarrow> bool" where
  "has_params i h \<longleftrightarrow> hb_venue h = bi_venue i \<and> hb_bucketMs h = bi_bucketMs i \<and> hb_sessionCloseMs h = Some (bi_close_ms i)
     \<and> hb_sessionOpenMs h = Some (bi_open_ms i) \<and> hb_depthHeatmapEnabled h = bi_depthHeatmapEnabled i"

text \<open>What the accumulator holds after the windows of \<open>i\<close>; \<open>full\<close> when its traded quantities are right as well.\<close>

definition holds :: "(nat \<Rightarrow> ObSnapshot) \<Rightarrow> (nat \<Rightarrow> TradeSnapshot) \<Rightarrow> bool \<Rightarrow> BuildHogaSeriesInput \<Rightarrow> IncrementalHogaBucketer \<Rightarrow> bool" where
  "holds books trades full i h \<longleftrightarrow> has_params i h \<and> window_ok books trades i
     \<and> book_ok (map books (bi_sseOb i)) h \<and> (full \<longrightarrow> fill_ok (map trades (bi_sseTrade i)) h)
     \<and> hb_firstObRef h = first_ref (bi_sseOb i) \<and> hb_lastObRef h = last_ref (bi_sseOb i)
     \<and> hb_firstTradeRef h = first_ref (bi_sseTrade i) \<and> hb_lastTradeRef h = last_ref (bi_sseTrade i)"

definition update_with :: "(nat \<Rightarrow> ObSnapshot) \<Rightarrow> (nat \<Rightarrow> TradeSnapshot) \<Rightarrow> BuildHogaSeriesInput \<Rightarrow> IncrementalHogaBucketer
    \<Rightarrow> IncrementalHogaBucketer" where
  "update_with books trades i h = hb_update books trades (bi_sseOb i) (bi_sseTrade i) (bi_bucketMs i) (bi_close_ms i) (bi_open_ms i)
     (bi_depthHeatmapEnabled i) (bi_venue i) h"

lemma has_params_same: "has_params i h \<Longrightarrow> same_params h h' \<Longrightarrow> has_params i h'"
  by (simp add: has_params_def same_params_def)

lemma params_buckets:
  assumes "has_params i h"
  shows "ob_bucket h = (\<lambda>s. indicatorBucketStartMs (ob_t_ms s) (bi_bucketMs i) (bi_venue i))"
    "trade_bucket h = (\<lambda>s. indicatorBucketStartMs (ts_t_ms s) (bi_bucketMs i) (bi_venue i))"
    "is_eligible h = (\<lambda>s. eligible_in s (bi_open_ms i) (bi_venue i))"
  using assms by (auto simp: has_params_def ob_bucket_def trade_bucket_def is_eligible_def eligible_in_def fun_eq_iff)

lemma window_closes: "has_params i h \<Longrightarrow> window_ok books trades i \<Longrightarrow> closes_in_time h (map books (bi_sseOb i))"
  unfolding closes_in_time_def params_buckets(3) by (auto simp: window_ok_def list_all_iff has_params_def upto_time_def)

lemma window_sorted:
  assumes "has_params i h" "window_ok books trades i"
  shows "sorted (map (ob_bucket h) (map books (bi_sseOb i)))" "sorted (map (trade_bucket h) (map trades (bi_sseTrade i)))"
  using assms(2) unfolding params_buckets [OF assms(1)] by (simp_all add: window_ok_def o_def)

lemma remember_ok:
  "has_params i (rememberInputs ob trade h) = has_params i h" "book_ok obs (rememberInputs ob trade h) = book_ok obs h"
  "fill_ok ts (rememberInputs ob trade h) = fill_ok ts h"
  "hb_firstObRef (rememberInputs ob trade h) = first_ref ob" "hb_lastObRef (rememberInputs ob trade h) = last_ref ob"
  "hb_firstTradeRef (rememberInputs ob trade h) = first_ref trade" "hb_lastTradeRef (rememberInputs ob trade h) = last_ref trade"
proof -
  have same: "same_params h (rememberInputs ob trade h)" by (simp add: rememberInputs_def same_params_def)
  have same': "same_params (rememberInputs ob trade h) h" by (simp add: rememberInputs_def same_params_def)
  have eqs: "quotes_of (rememberInputs ob trade h) = quotes_of h" "depths_of (rememberInputs ob trade h) = depths_of h"
    "fills_of (rememberInputs ob trade h) = fills_of h" "hb_seenPre (rememberInputs ob trade h) = hb_seenPre h"
    by (simp_all add: rememberInputs_def quotes_of_def depths_of_def fills_of_def)
  show "has_params i (rememberInputs ob trade h) = has_params i h" using same same' has_params_same by blast
  show "book_ok obs (rememberInputs ob trade h) = book_ok obs h"
    using book_kept [OF _ same] book_kept [OF _ same'] eqs by metis
  show "fill_ok ts (rememberInputs ob trade h) = fill_ok ts h"
    using fill_kept [OF _ same] fill_kept [OF _ same'] eqs by metis
qed (simp_all add: rememberInputs_def first_ref_def last_ref_def)

lemma fill_part: "book_ok obs h \<Longrightarrow> book_ok obs (appendTrade ts h)"
  using appendTrade_ok [of ts h] book_kept by blast

lemma fresh_appends: "hb_continuousBoundaryMs h = None \<Longrightarrow> \<exists>h'. appendOb obs h = Some h'"
  by (simp add: appendOb_def Let_def)

lemma hoga_rebuild_ok:
  assumes ok: "window_ok books trades i"
  shows "holds books trades full i (hb_rebuild books trades (bi_sseOb i) (bi_sseTrade i) (bi_bucketMs i) (bi_close_ms i)
    (bi_open_ms i) (bi_depthHeatmapEnabled i) (bi_venue i) h)"
proof -
  let ?h0 = "hb_reset (bi_bucketMs i) (bi_close_ms i) (bi_open_ms i) (bi_depthHeatmapEnabled i) (h\<lparr>hb_venue := bi_venue i\<rparr>)"
  let ?obs = "map books (bi_sseOb i)" and ?ts = "map trades (bi_sseTrade i)"
  have p: "has_params i ?h0" by (simp add: has_params_def hb_reset_def newHogaBucketer_def)
  have sorted: "sort_key ob_t_ms ?obs = ?obs" "sort_key ts_t_ms ?ts = ?ts"
    using ok by (simp_all add: window_ok_def sort_key_id_if_sorted o_def)
  have empty: "book_ok [] ?h0" "fill_ok [] ?h0"
    by (simp_all add: book_ok_def fill_ok_def seen_ok_def quotes_of_def depths_of_def fills_of_def hb_reset_def newHogaBucketer_def)
  have "hb_continuousBoundaryMs ?h0 = None" by (simp add: hb_reset_def newHogaBucketer_def)
  then obtain h1 where h1: "appendOb ?obs ?h0 = Some h1" using fresh_appends by blast
  have b: "book_ok ?obs h1 \<and> same_params ?h0 h1 \<and> fills_of h1 = fills_of ?h0"
    using book_append [OF empty(1) h1 window_closes [OF p ok]] by simp
  then have f: "fill_ok ?ts (appendTrade ?ts h1)"
    using fill_append [OF fill_kept [OF empty(2)], of h1 ?ts] by simp
  have "same_params ?h0 (appendTrade ?ts h1)" using b appendTrade_ok [of ?ts h1] same_params_trans by blast
  then have "has_params i (appendTrade ?ts h1)" using has_params_same [OF p] by blast
  then show ?thesis using b f fill_part [of ?obs h1 ?ts] ok
    by (simp add: hb_rebuild_def sorted h1 Let_def holds_def remember_ok)
qed

lemma advance_parts:
  assumes "hb_advance books trades ob trade h = Some h'"
  obtains obAt tradeAt h1 h2 where "locate (\<lambda>r. ob_t_ms (books r)) ob (hb_lastObRef h) (hb_obLength h) = Some obAt"
    "locate (\<lambda>r. ts_t_ms (trades r)) trade (hb_lastTradeRef h) (hb_tradeLength h) = Some tradeAt"
    "reconcileEviction books trades ob trade h = Some h1" "appendOb (map books (drop (nat (obAt + 1)) ob)) h1 = Some h2"
    "h' = rememberInputs ob trade (appendTrade (map trades (drop (nat (tradeAt + 1)) trade)) h2)"
proof -
  obtain obAt tradeAt h1 where
    "locate (\<lambda>r. ob_t_ms (books r)) ob (hb_lastObRef h) (hb_obLength h) = Some obAt"
    "locate (\<lambda>r. ts_t_ms (trades r)) trade (hb_lastTradeRef h) (hb_tradeLength h) = Some tradeAt"
    "reconcileEviction books trades ob trade h = Some h1"
    using assms unfolding hb_advance_def by (auto split: option.splits)
  then show ?thesis using assms that by (auto simp: hb_advance_def Let_def split: if_splits)
qed

lemma joins_at:
  assumes "is_window w0" "is_window w" "follows w0 w" "locate time w (last_ref w0) len = Some i"
  obtains gone ds where "joins w0 w gone ds" "drop (nat (i + 1)) w = ds" "evicted (first_ref w0) w \<longleftrightarrow> gone \<noteq> []"
  using locate_joins [OF assms(1,2) assms(3) [unfolded follows_def] assms(4) [unfolded last_ref_def]] unfolding first_ref_def
  by blast

lemma window_inc: "is_window w \<Longrightarrow> sorted w \<and> distinct w"
  unfolding is_window_def using sorted_upt [of "hd w" "Suc (last w)"] distinct_upt [of "hd w" "Suc (last w)"] by force

lemma fresh_trades:
  assumes join: "joins (bi_sseTrade j) (bi_sseTrade i) gone ds" and w: "is_window (bi_sseTrade j)" "is_window (bi_sseTrade i)"
    and gone: "gone \<noteq> []" and clear: "no_refill trades j i"
  shows "list_all (\<lambda>r. indicatorBucketStartMs (ts_t_ms (trades r)) (bi_bucketMs i) (bi_venue i)
    \<noteq> indicatorBucketStartMs (ts_t_ms (trades (hd (bi_sseTrade i)))) (bi_bucketMs i) (bi_venue i)) ds"
  using join
proof (cases rule: joins_cases)
  case (slid x xs)
  have inc: "sorted (bi_sseTrade j)" "distinct (bi_sseTrade j)" "sorted (bi_sseTrade i)" "distinct (bi_sseTrade i)"
    using w window_inc by blast+
  have "hd (bi_sseTrade j) \<noteq> hd (bi_sseTrade i)" using inc(2) slid by (cases gone) auto
  moreover have "last (bi_sseTrade j) < r \<and> r \<in> set (bi_sseTrade i)" if "r \<in> set ds" for r
  proof -
    have "last (bi_sseTrade j) \<in> set (x # xs)" unfolding slid(2) by simp
    moreover have "\<forall>y \<in> set (x # xs). y \<le> r \<and> y \<noteq> r" using inc(3,4) that unfolding slid(3) by (auto simp: sorted_append)
    ultimately show ?thesis using that slid(3) by fastforce
  qed
  moreover have "bi_sseTrade j \<noteq> []" "bi_sseTrade i \<noteq> []" using slid by simp_all
  ultimately show ?thesis using clear unfolding no_refill_def Let_def list_all_iff by (meson not_less)
qed (use gone in simp)

lemma appendOb_same: "appendOb ds h = Some h' \<Longrightarrow> same_params h h'"
proof -
  have one: "same_params g (ob_step threshold g s)" for g threshold s
    by (simp add: ob_step_def take_depth_def same_params_def Let_def)
  have all: "same_params g (foldl (ob_step threshold) g ds)" for g threshold
    by (induction ds arbitrary: g) (auto intro: same_params_trans one)
  have set: "same_params h (h\<lparr>hb_continuousBoundaryMs := m, hb_continuousByBucket := c\<rparr>)" for m c
    by (simp add: same_params_def)
  show "appendOb ds h = Some h' \<Longrightarrow> same_params h h'"
    using same_params_trans [OF set all] by (auto simp: appendOb_def Let_def split: if_splits)
qed

lemma advance_ok:
  assumes old: "holds books trades full j h" and params: "has_params i h" and new: "window_ok books trades i"
    and follow: "follows (bi_sseOb j) (bi_sseOb i)" "follows (bi_sseTrade j) (bi_sseTrade i)"
    and run: "hb_advance books trades (bi_sseOb i) (bi_sseTrade i) h = Some h'"
    and full': "full' \<longrightarrow> full \<and> no_refill trades j i"
  shows "holds books trades full' i h'"
proof -
  obtain obAt tradeAt h1 h2 where at: "locate (\<lambda>r. ob_t_ms (books r)) (bi_sseOb i) (hb_lastObRef h) (hb_obLength h) = Some obAt"
      "locate (\<lambda>r. ts_t_ms (trades r)) (bi_sseTrade i) (hb_lastTradeRef h) (hb_tradeLength h) = Some tradeAt"
    and parts: "reconcileEviction books trades (bi_sseOb i) (bi_sseTrade i) h = Some h1"
      "appendOb (map books (drop (nat (obAt + 1)) (bi_sseOb i))) h1 = Some h2"
      "h' = rememberInputs (bi_sseOb i) (bi_sseTrade i) (appendTrade (map trades (drop (nat (tradeAt + 1)) (bi_sseTrade i))) h2)"
    using run by (rule advance_parts)
  have o: "has_params j h" "window_ok books trades j" "book_ok (map books (bi_sseOb j)) h" "seen_ok h"
      "full \<longrightarrow> fill_ok (map trades (bi_sseTrade j)) h"
      "hb_firstObRef h = first_ref (bi_sseOb j)" "hb_lastObRef h = last_ref (bi_sseOb j)"
      "hb_firstTradeRef h = first_ref (bi_sseTrade j)" "hb_lastTradeRef h = last_ref (bi_sseTrade j)"
    using old by (simp_all add: holds_def book_ok_def)
  have w: "is_window (bi_sseOb j)" "is_window (bi_sseOb i)" "is_window (bi_sseTrade j)" "is_window (bi_sseTrade i)"
    using o(2) new by (simp_all add: window_ok_def)
  obtain gone ds where ob: "joins (bi_sseOb j) (bi_sseOb i) gone ds" "drop (nat (obAt + 1)) (bi_sseOb i) = ds"
      "evicted (first_ref (bi_sseOb j)) (bi_sseOb i) \<longleftrightarrow> gone \<noteq> []"
    using joins_at [OF w(1,2) follow(1) at(1) [unfolded o(7)]] by metis
  obtain tgone tds where trade: "joins (bi_sseTrade j) (bi_sseTrade i) tgone tds" "drop (nat (tradeAt + 1)) (bi_sseTrade i) = tds"
      "evicted (first_ref (bi_sseTrade j)) (bi_sseTrade i) \<longleftrightarrow> tgone \<noteq> []"
    using joins_at [OF w(3,4) follow(2) at(2) [unfolded o(9)]] by metis
  note closes = window_closes [OF params new]
  note app = parts(2) [unfolded ob(2)]
  have b: "book_ok (map books (bi_sseOb i)) h2" "same_params h h2" "fills_of h2 = fills_of h1"
    using reconcile_books [OF parts(1) app o(3) closes window_sorted(1) [OF o(1,2)] window_sorted(1) [OF params new] ob(1)] ob(3) o(6)
    by simp_all
  have f: "fill_ok (map trades (bi_sseTrade i)) (appendTrade (map trades tds) h2)" if full'
  proof (rule reconcile_trades [OF parts(1) _ window_sorted(2) [OF o(1,2)] window_sorted(2) [OF params new] o(4) closes
      window_sorted(1) [OF params new] trade(1) _ _ b(3) appendOb_same [OF app]])
    show "fill_ok (map trades (bi_sseTrade j)) h" using that full' o(5) by blast
    show "evicted (hb_firstTradeRef h) (bi_sseTrade i) \<longleftrightarrow> tgone \<noteq> []" using trade(3) o(8) by simp
    show "list_all (\<lambda>r. trade_bucket h (trades r) \<noteq> trade_bucket h (trades (hd (bi_sseTrade i)))) tds" if gone: "tgone \<noteq> []"
      using fresh_trades [OF trade(1) w(3,4) gone, of trades] that full' \<open>full'\<close> unfolding params_buckets(2) [OF params] by blast
  qed
  have "has_params i (appendTrade (map trades tds) h2)"
    using has_params_same [OF params] same_params_trans [OF b(2)] appendTrade_ok by blast
  then show ?thesis using f fill_part [OF b(1)] new unfolding parts(3) trade(2) holds_def by (simp add: remember_ok)
qed

lemma hoga_update_ok:
  assumes old: "holds books trades full j h" and new: "window_ok books trades i"
    and follow: "follows (bi_sseOb j) (bi_sseOb i)" "follows (bi_sseTrade j) (bi_sseTrade i)"
    and full': "full' \<longrightarrow> full \<and> no_refill trades j i"
  shows "holds books trades full' i (update_with books trades i h)"
proof (cases "has_params i h")
  case True
  then have now: "update_with books trades i h = (case hb_advance books trades (bi_sseOb i) (bi_sseTrade i) h of Some h' \<Rightarrow> h'
      | None \<Rightarrow> hb_rebuild books trades (bi_sseOb i) (bi_sseTrade i) (bi_bucketMs i) (bi_close_ms i) (bi_open_ms i)
          (bi_depthHeatmapEnabled i) (bi_venue i) h)"
    by (simp add: update_with_def hb_update_def has_params_def Let_def)
  show ?thesis
  proof (cases "hb_advance books trades (bi_sseOb i) (bi_sseTrade i) h")
    case None
    show ?thesis unfolding now None option.case by (rule hoga_rebuild_ok [OF new])
  next
    case (Some h')
    show ?thesis unfolding now Some option.case by (rule advance_ok [OF old True new follow Some full'])
  qed
next
  case False
  then have "update_with books trades i h = hb_rebuild books trades (bi_sseOb i) (bi_sseTrade i) (bi_bucketMs i) (bi_close_ms i)
      (bi_open_ms i) (bi_depthHeatmapEnabled i) (bi_venue i) h"
    by (auto simp: update_with_def hb_update_def has_params_def Let_def)
  then show ?thesis using hoga_rebuild_ok [OF new] by simp
qed

subsection \<open>The batch\<close>

lemma last_continuous_covers:
  assumes sorted: "sorted (map ob_t_ms obs)" and s: "s \<in> set obs" "isContinuousBook s" "ob_t_ms s \<le> c"
  shows "upto_time (ob_t_ms s) (last_continuous c obs)"
proof -
  let ?step = "\<lambda>m s. if ob_t_ms s \<le> c \<and> isContinuousBook s then Some (ob_t_ms s) else m"
  obtain xs ys where obs: "obs = xs @ s # ys" using split_list [OF s(1)] by blast
  have keep: "(\<And>y. y \<in> set zs \<Longrightarrow> t \<le> ob_t_ms y) \<Longrightarrow> t \<le> m \<Longrightarrow> \<exists>m'. foldl ?step (Some m) zs = Some m' \<and> t \<le> m'" for t m zs
  proof (induction zs arbitrary: m)
    case (Cons z zs)
    show ?case using Cons.IH [of "if ob_t_ms z \<le> c \<and> isContinuousBook z then ob_t_ms z else m"] Cons.prems by (auto split: if_splits)
  qed simp
  have "\<exists>m'. foldl ?step (Some (ob_t_ms s)) ys = Some m' \<and> ob_t_ms s \<le> m'"
    by (rule keep) (use sorted in \<open>auto simp: obs sorted_append\<close>)
  then show ?thesis using s by (auto simp: last_continuous_def obs upto_time_def)
qed

lemma quote_batch:
  assumes "\<And>s. s \<in> set obs \<Longrightarrow> eligible_in s op v \<Longrightarrow> upto_time (ob_t_ms s) m"
  shows "(\<And>t. t \<in> seen \<Longrightarrow> map_of al t \<noteq> None) \<Longrightarrow> (\<And>t p. t \<notin> seen \<Longrightarrow> map_of al t = Some p \<Longrightarrow> p = no_point t) \<Longrightarrow>
    fst (foldl (quote_step m op b v) (al, seen) obs)
      = foldl (put_assoc (\<lambda>s. indicatorBucketStartMs (ob_t_ms s) b v) (quote_f (\<lambda>s. eligible_in s op v))) al obs"
  using assms
proof (induction obs arbitrary: al seen)
  case (Cons s obs)
  let ?t = "indicatorBucketStartMs (ob_t_ms s) b v"
  let ?al = "put_assoc (\<lambda>s. indicatorBucketStartMs (ob_t_ms s) b v) (quote_f (\<lambda>s. eligible_in s op v)) al s"
  obtain seen' where step: "quote_step m op b v (al, seen) s = (?al, seen')"
    and ok: "\<And>t. t \<in> seen' \<Longrightarrow> map_of ?al t \<noteq> None" "\<And>t p. t \<notin> seen' \<Longrightarrow> map_of ?al t = Some p \<Longrightarrow> p = no_point t"
  proof (cases "eligible_in s op v")
    case True
    then show ?thesis using Cons.prems
      by (intro that [of "insert ?t seen"]) (auto simp: quote_step_def put_assoc_def quote_f_def map_of_put Let_def split: if_splits)
  next
    case False
    show ?thesis
    proof (cases "map_of al ?t")
      case None
      then have "?t \<notin> seen" using Cons.prems(1) by blast
      then show ?thesis using None False Cons.prems(1,2)
        by (intro that [of seen]) (auto simp: quote_step_def put_assoc_def quote_f_def map_of_put Let_def split: if_splits)
    next
      case (Some p)
      then have "?al = al" using False by (simp add: put_assoc_def quote_f_def put_same)
      moreover have "quote_step m op b v (al, seen) s = (al, seen)"
        using False Some Cons.prems(2) [of ?t p] by (auto simp: quote_step_def Let_def put_same)
      ultimately show ?thesis using Cons.prems(1,2) by (intro that [of seen]) simp_all
    qed
  qed
  show ?case using Cons.IH [OF ok] Cons.prems(3) by (simp add: step)
qed simp

lemma depth_batch:
  assumes "\<And>s. s \<in> set obs \<Longrightarrow> eligible_in s op v \<Longrightarrow> upto_time (ob_t_ms s) m"
  shows "foldl (depth_step m op b v) al obs
    = foldl (put_assoc (\<lambda>s. indicatorBucketStartMs (ob_t_ms s) b v) (book_f (\<lambda>s. eligible_in s op v))) al obs"
  using assms
proof (induction obs arbitrary: al)
  case (Cons s obs)
  have "depth_step m op b v al s = put_assoc (\<lambda>s. indicatorBucketStartMs (ob_t_ms s) b v) (book_f (\<lambda>s. eligible_in s op v)) al s"
    using Cons.prems [of s]
    by (auto simp: depth_step_def put_assoc_def book_f_def Let_def put_same split: option.split)
  then show ?case using Cons by simp
qed simp

lemma fill_batch: "fill_trade b v = put_assoc (\<lambda>s. indicatorBucketStartMs (ts_t_ms s) b v) fill_f"
  by (simp add: fun_eq_iff fill_trade_def put_assoc_def fill_f_def Let_def)

lemma add_fills_t: "fp_t (foldl add_fill p es) = fp_t p"
  by (induction es arbitrary: p) (simp_all add: add_fill_def)

text \<open>A depth entry of the accumulator for one of the batch.\<close>

definition entry_of :: "ms \<Rightarrow> DepthBucket \<Rightarrow> DepthEntry" where
  "entry_of t d = \<lparr>de_point = depth_point t d, de_maxTotal = db_total d, de_priceMax = db_priceMax d\<rparr>"

lemma entry_step: "depth_f valid t (map_option (entry_of t) p) s = map_option (entry_of t) (book_f valid t p s)"
proof (cases "valid s \<and> has_book s")
  case True
  then show ?thesis
    by (cases p) (auto simp: depth_f_def book_f_def entry_of_def depth_entry_def depth_bucket_def depth_point_def Let_def)
qed (auto simp: depth_f_def book_f_def)

lemma entry_fold:
  "fst mo = (\<lambda>k. map_option (entry_of k) (fst mo' k)) \<Longrightarrow> snd mo = snd mo' \<Longrightarrow>
    fst (foldl (put_bucket key (depth_f valid)) mo xs) = (\<lambda>k. map_option (entry_of k) (fst (foldl (put_bucket key (book_f valid)) mo' xs) k))
    \<and> snd (foldl (put_bucket key (depth_f valid)) mo xs) = snd (foldl (put_bucket key (book_f valid)) mo' xs)"
proof (induction xs arbitrary: mo mo')
  case (Cons x xs)
  have "fst (put_bucket key (depth_f valid) mo x) = (\<lambda>k. map_option (entry_of k) (fst (put_bucket key (book_f valid) mo' x) k))"
    "snd (put_bucket key (depth_f valid) mo x) = snd (put_bucket key (book_f valid) mo' x)"
    using Cons.prems by (auto simp: put_bucket_def Let_def entry_step fun_eq_iff)
  then show ?case using Cons.IH by simp
qed simp

lemma depths_off:
  assumes "\<And>s. \<not> valid s" shows "foldl (put_bucket key (depth_f valid)) no_buckets xs = no_buckets"
proof (induction xs)
  case (Cons x xs)
  have "put_bucket key (depth_f valid) no_buckets x = no_buckets" using assms by (simp add: put_bucket_def depth_f_def Let_def)
  then show ?case using Cons by simp
qed simp

text \<open>The series of the accumulator are those of the batch over the same window.\<close>

lemma eligible_covered:
  assumes "window_ok books trades i" "s \<in> set (map books (bi_sseOb i))" "eligible_in s (bi_open_ms i) (bi_venue i)"
  shows "upto_time (ob_t_ms s) (last_continuous (bi_close_ms i) (map books (bi_sseOb i)))"
proof (rule last_continuous_covers)
  show "sorted (map ob_t_ms (map books (bi_sseOb i)))" using assms(1) by (simp add: window_ok_def o_def)
  show "isContinuousBook s" using assms(3) by (simp add: eligible_in_def)
  show "ob_t_ms s \<le> bi_close_ms i" using assms by (auto simp: window_ok_def list_all_iff)
qed (rule assms(2))

lemma sorted_batch: "sorted (map fst al) \<Longrightarrow> (\<And>k v. (k, v) \<in> set al \<Longrightarrow> t v = k) \<Longrightarrow> sort_key t (map snd al) = map snd (al :: (ms \<times> 'v) list)"
proof -
  assume a: "sorted (map fst al)" "\<And>k v. (k, v) \<in> set al \<Longrightarrow> t v = k"
  have "map t (map snd al) = map fst al" using a(2) by auto
  then show ?thesis using a(1) by (metis sort_key_id_if_sorted)
qed

lemma batch_series:
  assumes held: "holds books trades full i h"
  defines "obs \<equiv> map books (bi_sseOb i)" and "ts \<equiv> map trades (bi_sseTrade i)"
  shows "\<exists>fs. bucketHogaSeries obs ts (bi_bucketMs i) (bi_close_ms i) (bi_open_ms i) (bi_venue i) = Some (hb_quotes h, fs)
    \<and> (full \<longrightarrow> fs = hb_fills h)"
proof -
  have p: "has_params i h" and w: "window_ok books trades i" and book: "book_ok obs h" and fill: "full \<longrightarrow> fill_ok ts h"
    using held by (simp_all add: holds_def obs_def ts_def)
  let ?b = "bi_bucketMs i" and ?v = "bi_venue i" and ?op = "bi_open_ms i"
  let ?key = "\<lambda>s. indicatorBucketStartMs (ob_t_ms s) ?b ?v" and ?tkey = "\<lambda>s. indicatorBucketStartMs (ts_t_ms s) ?b ?v"
  let ?al = "foldl (put_assoc ?key (quote_f (\<lambda>s. eligible_in s ?op ?v))) [] obs" and ?fl = "foldl (put_assoc ?tkey fill_f) [] ts"
  have sorted: "sort_key ob_t_ms obs = obs" "sort_key ts_t_ms ts = ts" "sorted (map ?key obs)" "sorted (map ?tkey ts)"
    using w by (simp_all add: obs_def ts_def window_ok_def sort_key_id_if_sorted o_def)
  have al: "fst (foldl (quote_step (last_continuous (bi_close_ms i) obs) ?op ?b ?v) ([], {}) obs) = ?al"
    by (rule quote_batch) (use eligible_covered [OF w] in \<open>simp_all add: obs_def\<close>)
  have q: "sort_key qr_t (map snd ?al) = map snd ?al"
    by (rule sorted_batch [OF quotes.batch_sorted [OF sorted(3)]])
      (rule quotes.values_satisfy [where P = "\<lambda>k q. qr_t q = k"], auto simp: quote_f_def ratchet_quote_def no_point_def Let_def split: option.splits)
  have f: "sort_key fp_t (map snd ?fl) = map snd ?fl"
    by (rule sorted_batch [OF fills.batch_sorted [OF sorted(4)]])
      (rule fills.values_satisfy [where P = "\<lambda>k q. fp_t q = k"], auto simp: fill_f_def no_fill_def add_fills_t split: option.splits)
  have "hb_quotes h = map snd ?al"
    using book unfolding quotes.batch_values book_ok_def params_buckets [OF p] by (simp add: hb_quotes_def quotes_of_def Let_def prod_eq_iff)
  moreover have "hb_fills h = map snd ?fl" if full
    using that fill unfolding fills.batch_values fill_ok_def params_buckets [OF p] by (simp add: hb_fills_def fills_of_def Let_def prod_eq_iff)
  ultimately show ?thesis using w
    by (simp add: bucketHogaSeries_def sorted(1,2) al fill_batch q f Let_def window_ok_def)
qed

lemma batch_depth:
  assumes held: "holds books trades full i h"
  shows "hb_depth h = (if bi_depthHeatmapEnabled i
    then bucketDepthHeatmap (map books (bi_sseOb i)) (bi_bucketMs i) (bi_close_ms i) (bi_open_ms i) (bi_venue i) else [])"
proof -
  define obs where "obs = map books (bi_sseOb i)"
  have p: "has_params i h" and w: "window_ok books trades i" and book: "book_ok obs h"
    using held by (simp_all add: holds_def obs_def)
  let ?b = "bi_bucketMs i" and ?v = "bi_venue i" and ?op = "bi_open_ms i"
  let ?key = "\<lambda>s. indicatorBucketStartMs (ob_t_ms s) ?b ?v" and ?valid = "\<lambda>s. eligible_in s ?op ?v"
  have on: "hb_depthHeatmapEnabled h = bi_depthHeatmapEnabled i" using p by (simp add: has_params_def)
  have d: "depths_of h = foldl (put_bucket ?key (depth_f (with_depth h))) no_buckets obs"
    using book unfolding book_ok_def params_buckets [OF p] by blast
  show ?thesis
  proof (cases "bi_depthHeatmapEnabled i")
    case False
    then have "depths_of h = no_buckets" unfolding d by (intro depths_off) (simp add: with_depth_def on)
    then show ?thesis using False by (simp add: hb_depth_def depths_of_def)
  next
    case True
    let ?mo = "foldl (put_bucket ?key (book_f ?valid)) no_buckets obs" and ?al = "foldl (put_assoc ?key (book_f ?valid)) [] obs"
    have "with_depth h = ?valid" using True params_buckets(3) [OF p] by (simp add: with_depth_def on fun_eq_iff)
    then have same: "fst (depths_of h) = (\<lambda>k. map_option (entry_of k) (fst ?mo k))" "snd (depths_of h) = snd ?mo"
      using entry_fold [of no_buckets no_buckets ?key ?valid obs] unfolding d by simp_all
    have mo: "map_of ?al = fst ?mo" "map fst ?al = snd ?mo"
      using batch_depths.assoc_fold [of "[]" no_buckets] by simp_all
    have "entries ?mo" by (rule batch_depths.fold_entries) (simp add: entries_def)
    then have "distinct (map fst ?al)" using mo(2) by (simp add: entries_def)
    then have point: "de_point (the (hb_depthByBucket h (fst x))) = depth_point (fst x) (snd x)" if "x \<in> set ?al" for x
      using that same(1) mo(1) map_of_is_SomeI [of ?al "fst x" "snd x"]
      by (cases x) (simp add: depths_of_def entry_of_def fun_eq_iff)
    have "hb_depth h = map (\<lambda>t. de_point (the (hb_depthByBucket h t))) (map fst ?al)"
      using same(2) mo(2) by (simp add: hb_depth_def depths_of_def)
    also have "\<dots> = map (\<lambda>x. depth_point (fst x) (snd x)) ?al" using point by simp
    also have "\<dots> = bucketDepthHeatmap obs ?b (bi_close_ms i) ?op ?v"
    proof -
      have "sort_key ob_t_ms obs = obs" using w by (simp add: obs_def window_ok_def sort_key_id_if_sorted o_def)
      moreover have "foldl (depth_step (last_continuous (bi_close_ms i) obs) ?op ?b ?v) [] obs = ?al"
        by (rule depth_batch) (use eligible_covered [OF w] in \<open>simp add: obs_def\<close>)
      ultimately show ?thesis by (simp add: bucketDepthHeatmap_def Let_def)
    qed
    finally show ?thesis using True by (simp add: obs_def)
  qed
qed

subsection \<open>Every run\<close>

definition hoga_builds :: "(nat \<Rightarrow> ObSnapshot) \<Rightarrow> (nat \<Rightarrow> TradeSnapshot) \<Rightarrow> (nat \<Rightarrow> RangeBundle) \<Rightarrow> BuildHogaSeriesInput list
    \<Rightarrow> HogaSeriesBuilder" where
  "hoga_builds books trades bundles js = foldl (\<lambda>g i. build_next books trades bundles i g) createIncrementalHogaSeriesBuilder js"

definition hoga_feed :: "(nat \<Rightarrow> ObSnapshot) \<Rightarrow> (nat \<Rightarrow> TradeSnapshot) \<Rightarrow> BuildHogaSeriesInput list \<Rightarrow> bool" where
  "hoga_feed books trades js \<longleftrightarrow> list_all (window_ok books trades) js
     \<and> successively (\<lambda>i j. follows (bi_sseOb i) (bi_sseOb j) \<and> follows (bi_sseTrade i) (bi_sseTrade j)) js"

definition no_refills :: "(nat \<Rightarrow> TradeSnapshot) \<Rightarrow> BuildHogaSeriesInput list \<Rightarrow> bool" where
  "no_refills trades js \<longleftrightarrow> successively (no_refill trades) js"

definition past_of :: "(nat \<Rightarrow> RangeBundle) \<Rightarrow> BuildHogaSeriesInput \<Rightarrow> PastHogaSeries" where
  "past_of bundles i = preparePastHogaSeries (map_option bundles (bi_pastBundle i)) (bi_close_ms i)"

lemma build_next_bucketer: "gb_bucketer (build_next books trades bundles i g) = update_with books trades i (gb_bucketer g)"
  by (simp add: build_next_def update_with_def Let_def)

lemma builds_past:
  "js \<noteq> [] \<Longrightarrow> gb_past (hoga_builds books trades bundles js) = past_of bundles (last js)
    \<and> gb_pastBundleRef (hoga_builds books trades bundles js) = Some (bi_pastBundle (last js))
    \<and> gb_pastSessionCloseMs (hoga_builds books trades bundles js) = bi_close_ms (last js)"
proof (induction js rule: rev_induct)
  case (snoc i js)
  show ?case
  proof (cases "js = []")
    case True
    then show ?thesis by (simp add: hoga_builds_def build_next_def createIncrementalHogaSeriesBuilder_def past_of_def Let_def)
  next
    case False
    note g = snoc.IH [OF False]
    have "hoga_builds books trades bundles (js @ [i]) = build_next books trades bundles i (hoga_builds books trades bundles js)"
      by (simp add: hoga_builds_def)
    then show ?thesis using g by (auto simp: build_next_def past_of_def Let_def)
  qed
qed simp

lemma first_update: "window_ok books trades i \<Longrightarrow> holds books trades full i (update_with books trades i newHogaBucketer)"
  using hoga_rebuild_ok [of books trades i full newHogaBucketer]
  by (simp add: update_with_def hb_update_def newHogaBucketer_def Let_def)

lemma builds_hold:
  "js \<noteq> [] \<Longrightarrow> hoga_feed books trades js
    \<Longrightarrow> holds books trades (no_refills trades js) (last js) (gb_bucketer (hoga_builds books trades bundles js))"
proof (induction js rule: rev_induct)
  case (snoc i js)
  have run: "hoga_builds books trades bundles (js @ [i]) = build_next books trades bundles i (hoga_builds books trades bundles js)"
    by (simp add: hoga_builds_def)
  have w: "window_ok books trades i" using snoc.prems(2) by (simp add: hoga_feed_def)
  show ?case
  proof (cases "js = []")
    case True
    then show ?thesis using first_update [OF w] unfolding run build_next_bucketer
      by (simp add: hoga_builds_def createIncrementalHogaSeriesBuilder_def)
  next
    case False
    then have step: "hoga_feed books trades js" "follows (bi_sseOb (last js)) (bi_sseOb i)" "follows (bi_sseTrade (last js)) (bi_sseTrade i)"
      "no_refills trades (js @ [i]) \<longrightarrow> no_refills trades js \<and> no_refill trades (last js) i"
      using snoc.prems(2) by (simp_all add: hoga_feed_def no_refills_def successively_append_iff)
    show ?thesis unfolding run build_next_bucketer using hoga_update_ok [OF snoc.IH [OF False step(1)] w step(2,3,4)] by simp
  qed
qed simp

text \<open>
  C11. The builder that follows the live window gives what the one-shot builder gives. After any history
  of inputs whose windows of books and trades are consecutive entries of the two streams in order of
  time, never start earlier than before and hold no valid book after the close (empty windows, windows
  that jump, changes of venue, width, session or past bundle included), the quote ratios and the depth
  are those of \<open>buildHogaSeries\<close> on the last input alone; so are the traded quantities, unless once
  trades left while a new trade fell into the bucket of the first one kept (see
  \<open>refilled_bucket_counts_twice\<close>).
\<close>

theorem incremental_hoga_is_batch:
  assumes "hoga_feed books trades js" "js \<noteq> []"
  shows "\<exists>s. buildHogaSeries books trades bundles (last js) = Some s
    \<and> hs_quote_ratio (built_series (hoga_builds books trades bundles js)) = hs_quote_ratio s
    \<and> hs_depth_heatmap_today (built_series (hoga_builds books trades bundles js)) = hs_depth_heatmap_today s
    \<and> (no_refills trades js \<longrightarrow> built_series (hoga_builds books trades bundles js) = s)"
proof -
  let ?g = "hoga_builds books trades bundles js" and ?i = "last js"
  have held: "holds books trades (no_refills trades js) ?i (gb_bucketer ?g)" by (rule builds_hold [OF assms(2,1)])
  obtain fs where fs: "bucketHogaSeries (map books (bi_sseOb ?i)) (map trades (bi_sseTrade ?i)) (bi_bucketMs ?i) (bi_close_ms ?i)
      (bi_open_ms ?i) (bi_venue ?i) = Some (hb_quotes (gb_bucketer ?g), fs)" "no_refills trades js \<longrightarrow> fs = hb_fills (gb_bucketer ?g)"
    using batch_series [OF held] by blast
  have "gb_past ?g = past_of bundles ?i" using builds_past [OF assms(2)] by blast
  then show ?thesis using fs batch_depth [OF held]
    by (auto simp: buildHogaSeries_def built_series_def stitched_def past_of_def Let_def)
qed

subsection \<open>A morning\<close>

definition example_side :: "rat \<Rightarrow> rat \<Rightarrow> rat \<Rightarrow> OrderbookLevel list option" where
  "example_side base step qty = Some (map (\<lambda>i. \<lparr>ol_price = Some (base + step * of_nat i), ol_qty = Some (qty + of_nat i)\<rparr>) [0, 1, 2, 3])"

text \<open>A book and a trade every twenty seconds from ten o'clock; totals and quantities rise and fall.\<close>

definition example_books :: "nat \<Rightarrow> ObSnapshot" where
  "example_books r = (let q = of_nat (r * 7 mod 5) in
     \<lparr>ob_t_ms = hour_ms + 20000 * int r, ob_total_ask_qty = 100 + 10 * q, ob_total_bid_qty = 120 - 5 * q,
      ob_asks = example_side 10010 10 (q + 1), ob_bids = example_side 10000 (- 10) (q + 2), ob_venue = None\<rparr>)"

definition example_trades :: "nat \<Rightarrow> TradeSnapshot" where
  "example_trades r = \<lparr>ts_t_ms = hour_ms + 20000 * int r,
     ts_trades = [\<lparr>te_t_ms = None, te_price = Some 10000, te_side = (if r mod 3 = 0 then - 1 else 1), te_qty = Some (of_nat (r + 1))\<rparr>]\<rparr>"

definition example_input :: "ms \<Rightarrow> nat \<Rightarrow> nat \<Rightarrow> BuildHogaSeriesInput" where
  "example_input bucketMs a b = \<lparr>bi_venue = ''KRX'', bi_open_ms = 0, bi_close_ms = 390 * 60000, bi_pastBundle = Some 0,
     bi_sseOb = [a..<b], bi_sseTrade = [a..<b], bi_bucketMs = bucketMs, bi_depthHeatmapEnabled = True\<rparr>"

definition example_bundle :: "nat \<Rightarrow> RangeBundle" where
  "example_bundle r = \<lparr>rb_quote_ratio = [no_point (hour_ms - 60000)], rb_fill_strength = [no_fill (hour_ms - 60000)]\<rparr>"

definition example_day :: "BuildHogaSeriesInput list" where
  "example_day = [example_input 60000 0 4, example_input 60000 2 8, example_input 60000 4 9]"

lemma example_feed: "hoga_feed example_books example_trades example_day" "no_refills example_trades example_day"
  by code_simp+

text \<open>One minute per bucket, with two slides of the window.\<close>

lemma incremental_hoga_is_batch_witness:
  "hoga_feed example_books example_trades example_day \<and> no_refills example_trades example_day
    \<and> buildHogaSeries example_books example_trades example_bundle (example_input 60000 4 9)
      = Some (built_series (hoga_builds example_books example_trades example_bundle example_day))"
proof -
  have "example_day \<noteq> []" "last example_day = example_input 60000 4 9" by (simp_all add: example_day_def)
  then show ?thesis using incremental_hoga_is_batch [OF example_feed(1), of example_bundle] example_feed by auto
qed

text \<open>
  In one bucket of half an hour the window slides and a trade arrives: the slide folds the head bucket
  from the new window, the append adds the new trade once more.
\<close>

lemma refilled_bucket_counts_twice:
  "hoga_feed example_books example_trades [example_input 1800000 0 2, example_input 1800000 1 3]
    \<and> map fp_buy_qty (hs_fill_strength (built_series (hoga_builds example_books example_trades example_bundle
        [example_input 1800000 0 2, example_input 1800000 1 3]))) = [0, 8]
    \<and> map_option (\<lambda>s. map fp_buy_qty (hs_fill_strength s))
        (buildHogaSeries example_books example_trades example_bundle (example_input 1800000 1 3)) = Some [0, 5]"
  by code_simp

end
