(* ===== verification/LiveWindows.thy ===== *)
theory LiveWindows
  imports HogaRuns
begin

section \<open>The windows of the live buffer\<close>

text \<open>
  What a read of \<open>live/liveSnapshotBuffer.ts\<close> gives after any pushes and reads, and that those windows
  are the ones the accumulator of \<open>HogaRuns\<close> follows.
\<close>

datatype BufferOp = Push "SnapshotKind option" nat | Read SnapshotKind

fun buffer_op :: "(nat \<Rightarrow> ms) \<Rightarrow> LiveSnapshotBuffer \<Rightarrow> BufferOp \<Rightarrow> LiveSnapshotBuffer" where
  "buffer_op time b (Push k r) = push time k r b"
| "buffer_op time b (Read k) = snd (get_kind k b)"

definition buffer_run :: "(nat \<Rightarrow> ms) \<Rightarrow> BufferOp list \<Rightarrow> LiveSnapshotBuffer" where
  "buffer_run time ops = foldl (buffer_op time) newLiveSnapshotBuffer ops"

fun pushed :: "SnapshotKind \<Rightarrow> BufferOp list \<Rightarrow> nat list" where
  "pushed k [] = []"
| "pushed k (Push k' r # ops) = (if k' = Some k then r # pushed k ops else pushed k ops)"
| "pushed k (Read _ # ops) = pushed k ops"

text \<open>The entries not older than the last one by more than the retention, at most so many of them.\<close>

definition live_window :: "(nat \<Rightarrow> ms) \<Rightarrow> nat list \<Rightarrow> nat list" where
  "live_window time es = (let w = filter (\<lambda>r. time (last es) - RETENTION_MS \<le> time r) es in drop (length w - MAX_BUFFER_PER_KIND) w)"

lemma pushed_append: "pushed k (ops @ ops') = pushed k ops @ pushed k ops'"
  by (induction k ops rule: pushed.induct) auto

subsection \<open>Dropping from the front\<close>

definition stale :: "(nat \<Rightarrow> ms) \<Rightarrow> ms \<Rightarrow> nat list \<Rightarrow> nat" where
  "stale time now es = length (takeWhile (\<lambda>r. time r < now - RETENTION_MS) es)"

lemma evict_drop:
  "sorted (map time es) \<Longrightarrow> evictOld time now (drop m es) = drop (max m (stale time now es)) es"
proof (induction es arbitrary: m)
  case (Cons e es)
  show ?case
  proof (cases m)
    case 0
    then show ?thesis by (simp add: evictOld_def stale_def dropWhile_eq_drop)
  next
    case (Suc m')
    show ?thesis
    proof (cases "time e < now - RETENTION_MS")
      case False
      then have "\<not> time x < now - RETENTION_MS" if "x \<in> set (drop m' es)" for x
        using Cons.prems that set_drop_subset [of m' es] by fastforce
      then have "dropWhile (\<lambda>r. time r < now - RETENTION_MS) (drop m' es) = drop m' es" by (cases "drop m' es") auto
      then show ?thesis using False Suc by (simp add: evictOld_def stale_def)
    qed (use Cons Suc in \<open>simp add: evictOld_def stale_def\<close>)
  qed
qed (simp add: evictOld_def stale_def)

lemma stale_mono: "now \<le> now' \<Longrightarrow> stale time now es \<le> stale time now' (es @ ds)"
  by (induction es) (auto simp: stale_def)

lemma cap_drop: "cap_buffer (drop m es) = drop (max m (length es - MAX_BUFFER_PER_KIND)) es"
proof (cases "m \<le> length es")
  case True
  then have "length es - m - MAX_BUFFER_PER_KIND + m = max m (length es - MAX_BUFFER_PER_KIND)" by arith
  then show ?thesis by (simp add: cap_buffer_def)
qed (simp add: cap_buffer_def)

lemma window_drop: "sorted (map time es) \<Longrightarrow> live_window time es = drop (max (stale time (time (last es)) es) (length es - MAX_BUFFER_PER_KIND)) es"
proof -
  assume sorted: "sorted (map time es)"
  have "filter (\<lambda>r. now - RETENTION_MS \<le> time r) es = drop (stale time now es) es" for now
    using sorted
  proof (induction es)
    case (Cons e es)
    show ?case
    proof (cases "time e < now - RETENTION_MS")
      case False
      then have "\<forall>x \<in> set es. now - RETENTION_MS \<le> time x" using Cons.prems by auto
      then have "filter (\<lambda>r. now - RETENTION_MS \<le> time r) es = es" by (simp add: filter_id_conv)
      then show ?thesis using False by (simp add: stale_def)
    qed (use Cons in \<open>simp add: stale_def\<close>)
  qed (simp add: stale_def)
  moreover have "live_window time es = cap_buffer (filter (\<lambda>r. time (last es) - RETENTION_MS \<le> time r) es)"
    by (simp add: live_window_def cap_buffer_def Let_def)
  ultimately show ?thesis by (simp only: cap_drop)
qed

lemma push_window:
  assumes "sorted (map time (es @ [e]))"
  shows "cap_buffer (evictOld time (time e) (live_window time es @ [e])) = live_window time (es @ [e])"
proof -
  let ?m = "max (stale time (time (last es)) es) (length es - MAX_BUFFER_PER_KIND)"
  have sorted: "sorted (map time es)" using assms by (simp add: sorted_append)
  have short: "stale time now es \<le> length es" for now by (simp add: stale_def length_takeWhile_le)
  have "live_window time es @ [e] = drop ?m (es @ [e])" using short by (simp add: window_drop [OF sorted])
  moreover have "?m \<le> max (stale time (time e) (es @ [e])) (length (es @ [e]) - MAX_BUFFER_PER_KIND)"
  proof (cases "es = []")
    case False
    then have "time (last es) \<le> time e" using assms by (simp add: sorted_append)
    then show ?thesis using stale_mono [of "time (last es)" "time e" time es "[e]"] by auto
  qed (simp add: stale_def)
  ultimately show ?thesis
    unfolding window_drop [OF assms] by (simp only: evict_drop [OF assms] cap_drop last_snoc max.absorb2 max.assoc)
qed

definition snapshot_ok :: "LiveSnapshotBuffer \<Rightarrow> bool" where
  "snapshot_ok b \<longleftrightarrow> (\<forall>k w. lb_snapshot b k = Some w \<longrightarrow> w = lb_byKind b k)"

lemma read_ok: "snapshot_ok b \<Longrightarrow> fst (get_kind k b) = lb_byKind b k"
  by (auto simp: get_kind_def snapshot_ok_def split: option.split)

lemma snapshot_kept: "snapshot_ok b \<Longrightarrow> snapshot_ok (buffer_op time b x)"
  by (cases x) (auto simp: snapshot_ok_def push_def get_kind_def split: option.split if_splits)

lemma run_snapshot: "snapshot_ok (buffer_run time ops)"
  by (induction ops rule: rev_induct) (simp_all add: buffer_run_def snapshot_kept, simp add: snapshot_ok_def newLiveSnapshotBuffer_def)

lemma run_window: "sorted (map time (pushed k ops)) \<Longrightarrow> lb_byKind (buffer_run time ops) k = live_window time (pushed k ops)"
proof (induction ops rule: rev_induct)
  case Nil
  show ?case by (simp add: buffer_run_def newLiveSnapshotBuffer_def live_window_def)
next
  case (snoc x ops)
  have run: "buffer_run time (ops @ [x]) = buffer_op time (buffer_run time ops) x" by (simp add: buffer_run_def)
  have IH: "lb_byKind (buffer_run time ops) k = live_window time (pushed k ops)"
    using snoc by (simp add: pushed_append sorted_append)
  show ?case
  proof (cases x)
    case (Push k' r)
    show ?thesis
    proof (cases "k' = Some k")
      case True
      have "pushed k (ops @ [x]) = pushed k ops @ [r]" by (simp add: pushed_append Push True)
      then show ?thesis using push_window [of time "pushed k ops" r] snoc.prems IH unfolding run [unfolded Push True] Push True by (simp add: push_def)
    next
      case False
      then show ?thesis using IH unfolding run [unfolded Push] Push by (cases k') (simp_all add: push_def pushed_append)
    qed
  next
    case (Read k')
    then show ?thesis using IH unfolding run [unfolded Read] Read by (simp add: get_kind_def pushed_append split: option.split)
  qed
qed

text \<open>
  C34. After any pushes and reads, a read of a kind whose entries came in order of time gives exactly the
  entries not older than its last one by more than fifteen minutes, the newest 60000 of them, in the
  order they came.
\<close>

theorem live_buffer_keeps_window:
  assumes "sorted (map time (pushed k ops))"
  shows "fst (get_kind k (buffer_run time ops)) = live_window time (pushed k ops)"
  using run_window [OF assms] read_ok [OF run_snapshot] by metis

definition example_times :: "nat \<Rightarrow> ms" where
  "example_times r = 6 * 60000 * int r"

definition example_ops :: "BufferOp list" where
  "example_ops = [Push (Some ObKind) 0, Push (Some TradeKind) 7, Push (Some ObKind) 1, Read ObKind, Push None 9, Push (Some ObKind) 2, Push (Some ObKind) 3]"

text \<open>One push every six minutes: the first of the four is out.\<close>

lemma live_buffer_keeps_window_witness:
  "sorted (map example_times (pushed ObKind example_ops))
    \<and> fst (get_kind ObKind (buffer_run example_times example_ops)) = [1, 2, 3]"
proof -
  have sorted: "sorted (map example_times (pushed ObKind example_ops))" by (simp add: example_ops_def example_times_def)
  moreover have "live_window example_times (pushed ObKind example_ops) = [1, 2, 3]"
    by (simp add: example_ops_def example_times_def live_window_def RETENTION_MS_def MAX_BUFFER_PER_KIND_def)
  ultimately show ?thesis using live_buffer_keeps_window [OF sorted] by simp
qed

text \<open>Of a stream numbered from zero the windows are consecutive entries whose start never goes back.\<close>

lemma upt_window: "is_window [a..<b]"
proof (cases "a < b")
  case True
  then have "hd [a..<b] = a" "Suc (last [a..<b]) = b" by (simp_all add: last_upt)
  then show ?thesis by (simp only: is_window_def simp_thms)
qed (simp add: is_window_def)

lemma upt_follows: "(0 < b \<Longrightarrow> a \<le> a') \<Longrightarrow> follows [a..<b] [a'..<b']"
  by (cases "a < b"; cases "a' < b'") (simp_all add: follows_def)

lemma live_windows_follow:
  assumes "sorted (map time [0..<n'])" "n \<le> n'"
  shows "is_window (live_window time [0..<n])" "follows (live_window time [0..<n]) (live_window time [0..<n'])"
proof -
  have upt: "[0..<n'] = [0..<n] @ [n..<n']" using assms(2) by (simp add: upt_split [of 0])
  have sorted: "sorted (map time [0..<n])" using assms(1) unfolding upt by (simp add: sorted_append)
  let ?from = "\<lambda>n. max (stale time (time (last [0..<n])) [0..<n]) (n - MAX_BUFFER_PER_KIND)"
  have w: "live_window time [0..<n] = [?from n..<n]" "live_window time [0..<n'] = [?from n'..<n']"
    using window_drop [OF sorted] window_drop [OF assms(1)] by (simp_all add: drop_upt)
  show "is_window (live_window time [0..<n])" unfolding w by (rule upt_window)
  have "?from n \<le> ?from n'" if "0 < n"
  proof -
    have "time (last [0..<n]) \<le> time (last [0..<n'])"
      using assms that by (cases "n = n'") (auto simp: sorted_iff_nth_mono last_upt)
    then have "stale time (time (last [0..<n])) [0..<n] \<le> stale time (time (last [0..<n'])) [0..<n']"
      using stale_mono [of _ _ time "[0..<n]" "[n..<n']"] upt by simp
    then show ?thesis using assms(2) by auto
  qed
  then show "follows (live_window time [0..<n]) (live_window time [0..<n'])"
    unfolding w by (rule upt_follows)
qed

end
