(* ===== verification/Spec2Isabelle.thy ===== *)
theory Spec2Isabelle
  imports VirtualAxis ConditionExpression GapFill CandleAggregation LruCache SnapEngine PaneLayout LayoutPresets DrawingRuns IncrementalPoc Surges OrderPrices VisibleExtremes PeakWallRuns BoardRuns LiveWindows
begin

section \<open>The hoga-ops front end\<close>

text \<open>
  hoga-ops records the order book and the trades of Korean and US stocks and shows them live. The
  program verified here is its front end, TypeScript under \<open>frontend/src\<close>: a page of floating windows
  (charts, order books, trades, rankings, order entry), each following the symbol of a numbered group
  or pinned to one of its own; charts on a virtual time line with drawings, indicator panes and
  derived series; and the browser's storage all of it is read back from. The development models the
  stores and the pure modules they rest on. React components call the stores' actions; the servers
  deliver the candles, snapshots and orders that the pure modules compute with.

  \<^bold>\<open>How the model corresponds to the code.\<close> A definition bears the name of the function, action or
  type it translates; parts of a function that are definitions of their own (the body of a loop, a
  branch, an inner arrow function) bear a describing name. A store is a record of its state together
  with the module-level state it uses and the storage it writes; an action is a function on that
  record; a run is an inductive predicate or a fold over all actions, timers included. Untrusted storage is JSON
  (\<open>Json\<close>), text that does not parse is a value of its own, and every early return and \<open>throw\<close> is a
  branch. \<open>undefined\<close>, \<open>null\<close> and \<open>NaN\<close> are \<open>None\<close> where the code tests for them. Whole milliseconds,
  indices and counts are \<open>int\<close> or \<open>nat\<close>, far below \<open>2 ^ 53\<close>; prices, pixels and ratios are rationals,
  so floating-point rounding is not modelled; \<open>BigInt\<close> is \<open>int\<close>. Supplies of fresh ids
  (\<open>crypto.randomUUID\<close>, \<open>nanoid\<close>) and clocks are arguments. A \<open>Map\<close> whose insertion order matters is
  an association list.
\<close>

subsection \<open>Time and market sessions\<close>

text \<open>
  \<open>Prelude\<close> holds the language primitives, multiples of a grid, the two binary searches and the locale
  \<open>keyed_table\<close>, which gives both searches their specification wherever a table is sorted by a key: it
  is interpreted for the session tables (\<open>SessionTime\<close>, \<open>VirtualAxis\<close>), the candles of a session and the
  sorted prices of a profile (\<open>TradeVolumePoc\<close>). \<open>Calendar\<close> is the \<open>Date\<close> arithmetic of the language:
  day numbers and civil dates determine each other. \<open>KstTime\<close> (\<open>util/time.ts\<close>, \<open>util/tradingDay.ts\<close>,
  \<open>util/stockSessions.ts\<close>), \<open>SessionTime\<close> (\<open>util/sessionTime.ts\<close>), \<open>VirtualAxis\<close>
  (\<open>util/virtualAxis.ts\<close> and \<open>buildSegments\<close>): projection and unprojection are inverse on contained
  instants, and the fused lookup equals the three queries it replaces. \<open>DateWindow\<close>
  (\<open>live/liveDateTime.ts\<close>): the weekday walk ends on the right day, and every fill step makes progress
  inside its limits. The walk runs on fuel; three days for each weekday are enough, which
  \<open>weekday_walk_correct\<close> shows. \<open>GapFill\<close> (\<open>live/minuteGapFillPlan.ts\<close>): the plan partitions what it
  can fill, in bounded runs. \<open>CandleAggregation\<close> (\<open>live/aggregateCandles.ts\<close>): the streaming loop is
  OHLCV of the maximal runs of a bucket.
\<close>

subsection \<open>The live workspace\<close>

text \<open>
  \<open>PaneLayout\<close> (\<open>state/keyOrder.ts\<close>, \<open>chart/paneOrder.ts\<close>, \<open>chart/paneGroups.ts\<close>), \<open>Instruments\<close>
  (\<open>live/liveInstrument.ts\<close>), \<open>SnapEngine\<close> (\<open>workspace/snapEngine.ts\<close>, \<open>workspace/rectSpace.ts\<close>),
  \<open>OrderSettings\<close> (\<open>state/orderCostRates.ts\<close>, \<open>state/orderWindowSettings.ts\<close>) and \<open>Viewports\<close>
  (\<open>live/viewportAnchor.ts\<close>, \<open>live/workspace/secondTimeframeViewport.ts\<close>) are the parts a window is made
  of. \<open>WorkspaceState\<close> has the types, the readers of storage and the selectors of
  \<open>state/workspace.ts\<close>, and the locale \<open>codec\<close> that states what a reader owes its writer;
  \<open>WorkspaceStorage\<close> has hydration from the three places a snapshot can be, the migration of the older
  layout, presets and the transfer to a new tab. \<open>Workspace\<close> is the store with every action;
  \<open>WorkspaceActions\<close> the datatype of all calls; \<open>WorkspaceLaws\<close>, \<open>WorkspaceViews\<close>, \<open>WorkspaceFit\<close> and
  \<open>WorkspaceRuns\<close> what each action keeps and what therefore holds of a workspace read from storage with
  distinct window ids (the reader does not remove duplicates) after any run of actions: it is well formed, the storage holds its snapshot, only the actions meant to do so change what a window
  shows, and charts stay on timeframes their symbol has (but for a window just unpinned, a defect the
  statement names). \<open>IndicatorScopes\<close>, \<open>IndicatorLaws\<close> and \<open>WorkspaceIndicators\<close> are the indicator
  settings per window and timeframe (\<open>state/livePage.ts\<close>, \<open>state/chartPrefs.ts\<close>,
  \<open>state/indicatorScopeGc.ts\<close>) and their composition with the workspace: no entry of the page store
  outlives its window. \<open>LivePage\<close> is the page store and its reload; \<open>Navigation\<close> and \<open>NavigationLaws\<close>
  are the commands over several stores (\<open>live/liveNavigate.ts\<close>, the openers under \<open>live/workspace\<close>).
  \<open>WindowSettings\<close> (\<open>state/windowSettings.ts\<close>, \<open>state/windowSettingsLifecycle.ts\<close> and the two sections
  \<open>state/chartDisplayPrefs.ts\<close>, \<open>state/majorIndicesSettings.ts\<close>) and \<open>LiveLayout\<close>
  (\<open>state/liveLayout.ts\<close>) are the two other stores a layout preset touches; \<open>LayoutPresets\<close>
  (\<open>live/presets/layoutPresetSnapshot.ts\<close>) applies one to all four stores and says what each holds then.
\<close>

subsection \<open>Drawings\<close>

text \<open>
  \<open>DrawingItems\<close> (\<open>chart/drawing/types.ts\<close>, \<open>chart/drawing/persistence.ts\<close>) coerces untrusted
  drawings; the coercion is idempotent, so what was coerced once survives a reload. \<open>DrawingStore\<close> is
  \<open>state/drawings.ts\<close> with its undo history and debounced writes. \<open>DrawingLaws\<close> gives every mutation
  one shape (\<open>edit\<close>): undo and redo move along the exact list of past drawings, a drag is one step,
  and a locked drawing survives every edit. \<open>DrawingRuns\<close> lets actions and timers interleave in any
  order, on any input: the undo memory stays within its caps, and leaving the page and coming back shows
  what was shown as a reload normalises it, which is the same but for flags that say false. A selection
  names drawings that exist, after inputs whose ids name drawings.
\<close>

subsection \<open>Derived series and orders\<close>

text \<open>
  \<open>TradeVolumePoc\<close> and \<open>IncrementalPoc\<close> (\<open>live/tradeVolumePoc.ts\<close>, \<open>live/sessionCandles.ts\<close>): the chosen
  price band trades the most, binning loses no volume, and the accumulator of the day answers what the
  batch computation would, whatever windows of the stream it was given. \<open>Surges\<close>
  (\<open>chart/surge/detectSurges.ts\<close>): past and present days can be computed apart, and a marker tells the
  truth. \<open>OrderPrices\<close> (\<open>live/workspace/orderPriceRange.ts\<close>, \<open>live/workspace/orderRules.ts\<close>): bands of
  prices refine the list of valid prices (\<open>indexOf\<close> divides exactly where the code divides doubles; the
  two agree on whole prices, the only ones the callers pass); amounts are the exact ones rounded up.
  \<open>ConditionExpression\<close> (\<open>screener/conditionExpression.ts\<close>): the parser accepts exactly formulas and
  reads back what is printed, up to the label that collides with an operator word. \<open>LruCache\<close>
  (\<open>util/lru.ts\<close>) refines an unbounded log. \<open>VisibleExtremes\<close> (\<open>live/visibleExtremes.ts\<close>): the reader
  that keeps projected points and its last answer returns what the two functions compute from the
  candles on screen. \<open>PeakWalls\<close>, \<open>PeakWallLaws\<close> and \<open>PeakWallRuns\<close>
  (\<open>live/peakWallEventClassifier.ts\<close>, \<open>live/incrementalPeakWallSource.ts\<close>): the source that follows
  the sliding windows of the day (new snapshots at one end, evicted ones at the other) gives the walls
  that the batch classification of the same windows gives, after any history of windows.
  \<open>HogaSeries\<close> (\<open>live/bucketHogaSeries.ts\<close> and the one-shot half of \<open>live/buildLiveBundle.ts\<close>),
  \<open>HogaBucketer\<close> (the incremental half and \<open>live/liveSnapshotBuffer.ts\<close>), \<open>HogaLaws\<close> and \<open>HogaRuns\<close>:
  totals, imbalances, traded quantities and depth of the book per bucket of time. The locale
  \<open>bucketed_series\<close> is a fold per bucket, \<open>refoldable_series\<close> one that may take its last elements twice;
  both are interpreted on the steps of the code. The builder that follows the live window gives the
  series of the one-shot builder, but for a bucket of traded quantities that the code counts twice.
  \<open>LiveWindows\<close>: what the live buffer holds, and that its windows are such windows.
\<close>

subsection \<open>Whiteboards\<close>

text \<open>
  \<open>BoardServer\<close> (\<open>api/whiteboards.ts\<close>, \<open>hoga/api/whiteboards.py\<close>) has the documents and the server's
  update of a board, \<open>BoardSession\<close> (\<open>whiteboard/session.ts\<close>, \<open>whiteboard/drafts.ts\<close>,
  \<open>whiteboard/images.ts\<close>) the session of an open board, cut at every \<open>await\<close>, in a world with the
  browser's database (to which no other tab writes a draft), the requests on the wire and other windows; \<open>board_step\<close> lets all of it interleave
  and fail. \<open>BoardLaws\<close> has the invariants of a session and of the requests, \<open>BoardRuns\<close> that of the
  drafts, and what follows: \<open>saved\<close> means stored, the file has one history in which no request is
  applied twice, and a tab that closes without a warning loses nothing. What the disk and the encoders
  contribute is a parameter (\<open>BoardDisk\<close>).
\<close>

subsection \<open>Not modelled\<close>

text \<open>
  React components and hooks (\<open>*.tsx\<close>, \<open>use*.ts\<close>): rendering and effects over the stores. The chart
  projectors, renderers and the geometry of drawings in pixels, which go through the interface of a
  charting library. The clients of the HTTP and stream interfaces (\<open>api/\<close>), the pages of the
  whiteboard, the watchlist and the pattern drawers. The Python services (\<open>hoga/\<close>) but for the update of
  a board, the desktop shell, tests and build files. Display strings, storage quota errors and floating-point rounding throughout. The first three
  hold more code that could be modelled (the tools of the drawing layer, the bodies of the projectors,
  the indicator setters of \<open>state/livePage.ts\<close>); they are the plan for extending the development.
\<close>

end
